(* ===== verification/Prelude.thy ===== *)
theory Prelude
  imports Main "HOL-Library.Word" "HOL-Library.Monad_Syntax"
begin

text \<open>
  Shared vocabulary of the development: the fixed-width integer types of \<open>cc.h\<close>, the
  error codes of \<open>lwip/err.h\<close>, byte-order helpers, bounded memory copies, polling of a
  volatile register, and the lemmas on lists, words and linked structures that several
  components use.
  An \<open>option\<close> result models C code that may leave its defined behaviour: \<open>None\<close> is an
  access outside an object or a loop that does not return.  \<open>LWIP_ASSERT\<close> is no such exit: the
  port's \<open>LWIP_PLATFORM_ASSERT(x)\<close> tests the message string, which is never null, so a failed
  assertion changes nothing and the code runs on (\<open>LWIP_ERROR\<close> still runs its handler).
\<close>

unbundle bit_operations_syntax

type_synonym u8 = "8 word"
type_synonym u16 = "16 word"
type_synonym u32 = "32 word"

named_theorems unat_simps \<open>rules that move word terms to natural numbers\<close>
named_theorems frame \<open>fields an operation leaves alone\<close>

subsection \<open>Error codes (err.h)\<close>

datatype err_t =
    ERR_OK | ERR_MEM | ERR_BUF | ERR_TIMEOUT | ERR_RTE | ERR_ABRT | ERR_RST | ERR_CLSD
  | ERR_CONN | ERR_VAL | ERR_ARG | ERR_USE | ERR_IF | ERR_ISCONN | ERR_INPROGRESS

fun err_code :: "err_t \<Rightarrow> int" where
  "err_code ERR_OK = 0"
| "err_code ERR_MEM = -1"
| "err_code ERR_BUF = -2"
| "err_code ERR_TIMEOUT = -3"
| "err_code ERR_RTE = -4"
| "err_code ERR_ABRT = -5"
| "err_code ERR_RST = -6"
| "err_code ERR_CLSD = -7"
| "err_code ERR_CONN = -8"
| "err_code ERR_VAL = -9"
| "err_code ERR_ARG = -10"
| "err_code ERR_USE = -11"
| "err_code ERR_IF = -12"
| "err_code ERR_ISCONN = -13"
| "err_code ERR_INPROGRESS = -14"

lemma err_code_inject [simp]: "err_code a = err_code b \<longleftrightarrow> a = b"
  by (cases a; cases b) simp_all

text \<open>The codes are ordered as the C integers they are: \<open>ERR_IS_FATAL(e)\<close> is \<open>e < ERR_RTE\<close>.\<close>

instantiation err_t :: linorder
begin

definition less_eq_err_t :: "err_t \<Rightarrow> err_t \<Rightarrow> bool" where
  "less_eq_err_t a b \<longleftrightarrow> err_code a \<le> err_code b"

definition less_err_t :: "err_t \<Rightarrow> err_t \<Rightarrow> bool" where
  "less_err_t a b \<longleftrightarrow> err_code a < err_code b"

instance
  by standard (auto simp: less_eq_err_t_def less_err_t_def)

end

definition ERR_IS_FATAL :: "err_t \<Rightarrow> bool" where
  "ERR_IS_FATAL e \<longleftrightarrow> e < ERR_RTE"

lemma ERR_IS_FATAL_iff:
  "ERR_IS_FATAL e \<longleftrightarrow> e \<notin> {ERR_OK, ERR_MEM, ERR_BUF, ERR_TIMEOUT, ERR_RTE}"
  by (cases e) (simp_all add: ERR_IS_FATAL_def less_err_t_def)

subsection \<open>Words\<close>

lemma unat_of_nat_lt [unat_simps]:
  "n < 2 ^ LENGTH('a::len) \<Longrightarrow> unat (of_nat n :: 'a word) = n"
  by (simp add: unat_of_nat take_bit_nat_eq_self)

lemma unat_u8_lt [simp]: "unat (x :: u8) < 256"
  using unsigned_less [of x] by simp

lemma unat_u16_lt [simp]: "unat (x :: u16) < 65536"
  using unsigned_less [of x] by simp

lemma unat_u32_lt [simp]: "unat (x :: u32) < 4294967296"
  using unsigned_less [of x] by simp

lemma unat_plus_small [unat_simps]:
  "unat x + unat y < 2 ^ LENGTH('a::len) \<Longrightarrow> unat (x + y) = unat x + unat (y :: 'a word)"
  by (simp add: unat_word_ariths)

lemma unat_minus_small [unat_simps]:
  "unat y \<le> unat x \<Longrightarrow> unat (x - y) = unat x - unat (y :: 'a::len word)"
  by (simp add: unat_sub word_le_nat_alt)

lemma unat_ucast_up [unat_simps]:
  "LENGTH('a::len) \<le> LENGTH('b::len) \<Longrightarrow> unat (ucast (x :: 'a word) :: 'b word) = unat x"
  by (simp add: unsigned_ucast_eq take_bit_nat_eq_self order_less_le_trans [OF unsigned_less])

lemma word_eq_unatI: "unat x = unat y \<Longrightarrow> x = (y :: 'a::len word)"
  by (simp add: word_unat_eq_iff)

lemma bit_u8_ge [simp]: "8 \<le> n \<Longrightarrow> \<not> bit (x :: u8) n"
  using bit_imp_le_length [of x n] by auto

lemma bit_u16_ge [simp]: "16 \<le> n \<Longrightarrow> \<not> bit (x :: u16) n"
  using bit_imp_le_length [of x n] by auto

lemma and_mask_take_bit:
  "x AND 0xff = take_bit 8 x" "x AND 0xffff = take_bit 16 x" for x :: "'a::len word"
  by (simp_all add: take_bit_eq_mask mask_eq_exp_minus_1)

lemma unat_take_bit_u32: "unat (take_bit n x) = unat x mod 2 ^ n" for x :: "'a::len word"
  unfolding unsigned_take_bit_eq by (rule take_bit_eq_mod)

lemma unat_drop_bit: "unat (drop_bit n x) = unat x div 2 ^ n" for x :: "'a::len word"
  unfolding unsigned_drop_bit_eq
  by (simp add: drop_bit_eq_div take_bit_nat_eq_self unsigned_less)

lemma uint_less_int [simp]: "uint (x :: 'a::len word) < int n \<longleftrightarrow> unat x < n"
  unfolding uint_nat by (rule of_nat_less_iff)

lemma uint_le_int [simp]: "uint (x :: 'a::len word) \<le> int n \<longleftrightarrow> unat x \<le> n"
  unfolding uint_nat by (rule of_nat_le_iff)

lemma int_le_uint [simp]: "int n \<le> uint (x :: 'a::len word) \<longleftrightarrow> n \<le> unat x"
  unfolding uint_nat by (rule of_nat_le_iff)

lemma unat_ucast_down: "unat (ucast (x :: 'a::len word) :: 'b::len word) = unat x mod 2 ^ LENGTH('b)"
  by (simp add: unsigned_ucast_eq take_bit_eq_mod)

subsection \<open>Byte order\<close>

text \<open>The target is little endian (\<open>arch/cpu.h\<close>): the first byte in memory is the low byte.\<close>

definition bytes_of_u32 :: "u32 \<Rightarrow> u8 list" where
  "bytes_of_u32 w = [ucast w, ucast (drop_bit 8 w), ucast (drop_bit 16 w), ucast (drop_bit 24 w)]"

definition u32_of_bytes :: "u8 \<Rightarrow> u8 \<Rightarrow> u8 \<Rightarrow> u8 \<Rightarrow> u32" where
  "u32_of_bytes a b c d =
     ucast a OR push_bit 8 (ucast b) OR push_bit 16 (ucast c) OR push_bit 24 (ucast d)"

definition bytes_of_u16 :: "u16 \<Rightarrow> u8 list" where
  "bytes_of_u16 w = [ucast w, ucast (drop_bit 8 w)]"

definition u16_of_bytes :: "u8 \<Rightarrow> u8 \<Rightarrow> u16" where
  "u16_of_bytes a b = ucast a OR push_bit 8 (ucast b)"

lemma u32_of_bytes_of_u32 [simp]:
  "u32_of_bytes (ucast w) (ucast (drop_bit 8 w)) (ucast (drop_bit 16 w)) (ucast (drop_bit 24 w)) = w"
proof (rule bit_word_eqI)
  fix n :: nat
  assume "n < LENGTH(32)"
  then show "bit (u32_of_bytes (ucast w) (ucast (drop_bit 8 w)) (ucast (drop_bit 16 w))
      (ucast (drop_bit 24 w))) n = bit w n"
    by (cases "n < 8"; cases "n < 16"; cases "n < 24") (auto simp: u32_of_bytes_def bit_simps)
qed

lemma bytes_of_u32_of_bytes [simp]: "bytes_of_u32 (u32_of_bytes a b c d) = [a, b, c, d]"
  by (simp add: bytes_of_u32_def u32_of_bytes_def, intro conjI; rule bit_word_eqI)
     (auto simp: bit_simps)

lemma u16_of_bytes_of_u16 [simp]: "u16_of_bytes (ucast w) (ucast (drop_bit 8 w)) = w"
  by (rule bit_word_eqI) (auto simp: u16_of_bytes_def bit_simps)

lemma bytes_of_u16_of_bytes [simp]: "bytes_of_u16 (u16_of_bytes a b) = [a, b]"
  by (simp add: bytes_of_u16_def u16_of_bytes_def, intro conjI; rule bit_word_eqI)
     (auto simp: bit_simps)

lemma length_bytes_of [simp]: "length (bytes_of_u32 w) = 4" "length (bytes_of_u16 h) = 2"
  by (simp_all add: bytes_of_u32_def bytes_of_u16_def)

lemma unat_u16_of_bytes: "unat (u16_of_bytes a b) = unat a + 256 * unat b"
proof -
  have "u16_of_bytes a b = ucast a + push_bit 8 (ucast b)"
    unfolding u16_of_bytes_def
    by (rule disjunctive_add_eq_or [symmetric]) (auto simp: bit_simps intro!: bit_word_eqI)
  then show ?thesis
    using unat_u8_lt [of a] unat_u8_lt [of b]
    by (simp add: unat_word_ariths push_bit_eq_mult unat_ucast_up del: unat_u8_lt)
qed

lemma unat_u32_of_bytes:
  "unat (u32_of_bytes a b c d) = unat a + 256 * unat b + 65536 * unat c + 16777216 * unat d"
proof -
  have "u32_of_bytes a b c d =
      ucast (u16_of_bytes a b) + push_bit 16 (ucast (u16_of_bytes c d))"
    unfolding u32_of_bytes_def u16_of_bytes_def
    by (subst disjunctive_add_eq_or) (auto simp: bit_simps intro!: bit_word_eqI)
  then show ?thesis
    using unat_u8_lt [of a] unat_u8_lt [of b] unat_u8_lt [of c] unat_u8_lt [of d]
    by (simp add: unat_word_ariths push_bit_eq_mult unat_ucast_up unat_u16_of_bytes del: unat_u8_lt)
qed

end
