(* ===== verification/Inet.thy ===== *)
theory Inet
  imports Prelude
begin

text \<open>
  \<open>core/ipv4/inet.c\<close> and \<open>core/ipv4/ip_addr.c\<close>: byte swapping, the dotted-decimal parser
  and printer, address macros of \<open>ip_addr.h\<close> and the broadcast test.
  A C string is the list of bytes from the pointer to the end of the object that holds it; a
  read past that end is \<open>None\<close>.  Addresses are kept in network order, as in the code.
\<close>

subsection \<open>Byte swapping\<close>

definition htons :: "u16 \<Rightarrow> u16" where
  "htons n = push_bit 8 (n AND 0xff) OR drop_bit 8 (n AND 0xff00)"

definition ntohs :: "u16 \<Rightarrow> u16" where
  "ntohs n = htons n"

definition htonl :: "u32 \<Rightarrow> u32" where
  "htonl n = push_bit 24 (n AND 0xff) OR push_bit 8 (n AND 0xff00)
     OR drop_bit 8 (n AND 0xff0000) OR drop_bit 24 (n AND 0xff000000)"

definition ntohl :: "u32 \<Rightarrow> u32" where
  "ntohl n = htonl n"

lemma mask8_u16: "(0xff :: u16) = mask 8" "(0xff00 :: u16) = push_bit 8 (mask 8)"
  by (simp_all add: mask_eq_exp_minus_1 push_bit_eq_mult)

lemma mask8_u32:
  "(0xff :: u32) = mask 8" "(0xff00 :: u32) = push_bit 8 (mask 8)"
  "(0xff0000 :: u32) = push_bit 16 (mask 8)" "(0xff000000 :: u32) = push_bit 24 (mask 8)"
  by (simp_all add: mask_eq_exp_minus_1 push_bit_eq_mult)

lemma htons_bytes: "htons (u16_of_bytes a b) = u16_of_bytes b a"
  unfolding htons_def u16_of_bytes_def mask8_u16
  by (rule bit_word_eqI) (auto simp: bit_simps)

lemma htonl_bytes: "htonl (u32_of_bytes a b c d) = u32_of_bytes d c b a"
proof (rule bit_word_eqI)
  fix n :: nat
  assume "n < LENGTH(32)"
  then show "bit (htonl (u32_of_bytes a b c d)) n = bit (u32_of_bytes d c b a) n"
    by (cases "n < 8"; cases "n < 16"; cases "n < 24")
       (auto simp: htonl_def u32_of_bytes_def mask8_u32 bit_simps)
qed

lemma u16_cases: obtains a b where "w = u16_of_bytes a b"
  using u16_of_bytes_of_u16 [of w] by metis

lemma u32_cases: obtains a b c d where "w = u32_of_bytes a b c d"
  using u32_of_bytes_of_u32 [of w] by metis

lemma htons_htons [simp]: "htons (htons n) = n"
  by (rule u16_cases [of n]) (simp add: htons_bytes)

lemma htonl_htonl [simp]: "htonl (htonl n) = n"
  by (rule u32_cases [of n]) (simp add: htonl_bytes)

lemmas ntoh_simps [simp] = ntohs_def ntohl_def

subsection \<open>Character classes (the macros of inet.c)\<close>

definition in_range :: "u8 \<Rightarrow> u8 \<Rightarrow> u8 \<Rightarrow> bool" where
  "in_range c lo up \<longleftrightarrow> lo \<le> c \<and> c \<le> up"

definition isdigit :: "u8 \<Rightarrow> bool" where
  "isdigit c \<longleftrightarrow> in_range c 0x30 0x39"

definition islower :: "u8 \<Rightarrow> bool" where
  "islower c \<longleftrightarrow> in_range c 0x61 0x7a"

definition isxdigit :: "u8 \<Rightarrow> bool" where
  "isxdigit c \<longleftrightarrow> isdigit c \<or> in_range c 0x61 0x66 \<or> in_range c 0x41 0x46"

definition isspace :: "u8 \<Rightarrow> bool" where
  "isspace c \<longleftrightarrow> c = 0x20 \<or> c = 0x0c \<or> c = 0x0a \<or> c = 0x0d \<or> c = 0x09 \<or> c = 0x0b"

subsection \<open>inet_aton and inet_addr\<close>

text \<open>The inner loop: digits of one number; the result keeps the cursor on the first byte it rejects.\<close>

fun aton_digits :: "u8 \<Rightarrow> u32 \<Rightarrow> u8 list \<Rightarrow> (u32 \<times> u8 list) option" where
  "aton_digits base val [] = None"
| "aton_digits base val (c # cp) =
     (if isdigit c then aton_digits base (val * ucast base + ucast (c - 0x30)) cp
      else if base = 16 \<and> isxdigit c
      then aton_digits base (push_bit 4 val OR ucast (c + 10 - (if islower c then 0x61 else 0x41))) cp
      else Some (val, c # cp))"

text \<open>One number with its base prefix; the first byte is known to be a digit.\<close>

fun aton_number :: "u8 list \<Rightarrow> (u32 \<times> u8 list) option" where
  "aton_number [] = None"
| "aton_number (c # cp) =
     (if c = 0x30
      then (case cp of
              [] \<Rightarrow> None
            | c' # cp' \<Rightarrow> if c' = 0x78 \<or> c' = 0x58 then aton_digits 16 0 cp' else aton_digits 8 0 cp)
      else aton_digits 10 0 (c # cp))"

lemma aton_digits_length:
  "aton_digits base v cs = Some (v', cs') \<Longrightarrow> length cs' \<le> length cs \<and> cs' \<noteq> []"
  by (induction base v cs rule: aton_digits.induct) (auto split: if_splits)

lemma aton_number_length: "aton_number cs = Some (v, cs') \<Longrightarrow> length cs' \<le> length cs \<and> cs' \<noteq> []"
  by (cases cs) (auto split: if_splits list.splits dest!: aton_digits_length)

text \<open>
  The outer loop collects the numbers before each dot in \<open>parts\<close>; \<open>Some None\<close> is the
  \<open>return (0)\<close> of the code, and a successful exit gives the parts, the last value and the cursor.
\<close>

declare aton_number.simps [simp del]

function aton_parts :: "u32 list \<Rightarrow> u8 list \<Rightarrow> (u32 list \<times> u32 \<times> u8) option option" where
  "aton_parts parts [] = None"
| "aton_parts parts (c # cp) =
     (if \<not> isdigit c then Some None
      else (case aton_number (c # cp) of
              None \<Rightarrow> None
            | Some (val, []) \<Rightarrow> None
            | Some (val, d # cp') \<Rightarrow>
                if d = 0x2e
                then (if 3 \<le> length parts then Some None
                      else aton_parts (parts @ [val]) cp')
                else Some (Some (parts, val, d))))"
  by pat_completeness auto
termination
  by (relation "measure (length \<circ> snd)") (auto dest!: aton_number_length)

text \<open>The switch on the number of parts.\<close>

definition aton_concoct :: "u32 list \<Rightarrow> u32 \<Rightarrow> u32 option" where
  "aton_concoct parts val =
     (case parts of
        [] \<Rightarrow> Some val
      | [p0] \<Rightarrow> if val > 0xffffff then None else Some (val OR push_bit 24 p0)
      | [p0, p1] \<Rightarrow> if val > 0xffff then None else Some (val OR push_bit 24 p0 OR push_bit 16 p1)
      | [p0, p1, p2] \<Rightarrow> if val > 0xff then None
          else Some (val OR push_bit 24 p0 OR push_bit 16 p1 OR push_bit 8 p2)
      | _ \<Rightarrow> Some val)"

definition inet_aton :: "u8 list \<Rightarrow> u32 option option" where
  "inet_aton cp =
     (case aton_parts [] cp of
        None \<Rightarrow> None
      | Some None \<Rightarrow> Some None
      | Some (Some (parts, val, c)) \<Rightarrow>
          if c \<noteq> 0 \<and> \<not> isspace c then Some None
          else Some (map_option htonl (aton_concoct parts val)))"

definition inet_addr :: "u8 list \<Rightarrow> u32 option" where
  "inet_addr cp =
     (case inet_aton cp of
        None \<Rightarrow> None
      | Some None \<Rightarrow> Some 0xffffffff
      | Some (Some a) \<Rightarrow> Some a)"

subsection \<open>inet_ntoa\<close>

text \<open>The do-while loop that fills \<open>inv\<close>, least significant digit first.\<close>

function ntoa_inv :: "u8 \<Rightarrow> u8 list" where
  "ntoa_inv ap =
     (let rem = ap mod 10; ap' = ap div 10
      in (0x30 + rem) # (if ap' \<noteq> 0 then ntoa_inv ap' else []))"
  by pat_completeness auto
termination
proof (relation "measure unat", goal_cases)
  case (2 ap rem ap')
  then have *: "unat ap' = unat ap div 10" by (simp add: unat_div)
  with 2 have "unat ap div 10 \<noteq> 0" by (metis unat_eq_zero)
  with * show ?case by simp
qed simp

declare ntoa_inv.simps [simp del]

text \<open>Four bytes, each followed by a dot; the last dot is overwritten by the terminator.\<close>

definition ntoa_octets :: "u8 list \<Rightarrow> u8 list" where
  "ntoa_octets bs = concat (map (\<lambda>b. rev (ntoa_inv b) @ [0x2e]) bs)"

definition inet_ntoa :: "u32 \<Rightarrow> u8 list" where
  "inet_ntoa s_addr = butlast (ntoa_octets (bytes_of_u32 s_addr)) @ [0]"

text \<open>The printer never overruns \<open>inv[3]\<close>: a byte has at most three digits.\<close>

lemma ntoa_inv_small: "unat b < 10 \<Longrightarrow> ntoa_inv b = [0x30 + b]"
proof -
  assume "unat b < 10"
  then have "b mod 10 = b" "b div 10 = 0"
    by (simp_all add: word_eq_unatI unat_mod unat_div)
  then show ?thesis by (simp add: ntoa_inv.simps [of b])
qed

lemma ntoa_inv_step:
  "10 \<le> unat b \<Longrightarrow> ntoa_inv b = (0x30 + b mod 10) # ntoa_inv (b div 10)"
proof -
  assume "10 \<le> unat b"
  then have "unat (b div 10) \<noteq> 0" by (simp add: unat_div)
  then have "b div 10 \<noteq> 0" by auto
  then show ?thesis by (simp add: ntoa_inv.simps [of b])
qed

lemma length_ntoa_inv: "length (ntoa_inv b) \<le> 3"
proof -
  have "unat (b div 10 div 10) < 10"
    using unat_u8_lt [of b] by (simp add: unat_div del: unat_u8_lt)
  then have "length (ntoa_inv (b div 10)) \<le> 2"
    by (cases "unat (b div 10) < 10")
       (simp_all add: ntoa_inv_small ntoa_inv_step)
  then show ?thesis
    by (cases "unat b < 10") (simp_all add: ntoa_inv_small ntoa_inv_step)
qed

lemma ntoa_inv_nonempty [simp]: "ntoa_inv b \<noteq> []"
  by (simp add: ntoa_inv.simps [of b] Let_def)

subsection \<open>Reading back what was printed\<close>

definition dec_digit :: "u32 \<Rightarrow> u8 \<Rightarrow> u32" where
  "dec_digit v c = v * 10 + ucast (c - 0x30)"

lemma isdigit_dec: "unat r < 10 \<Longrightarrow> isdigit (0x30 + r)"
proof -
  assume "unat r < 10"
  then have "unat (0x30 + r) = 48 + unat r" by (simp add: unat_plus_small)
  with \<open>unat r < 10\<close> show ?thesis
    by (simp add: isdigit_def in_range_def word_le_nat_alt)
qed

lemma isdigit_ntoa_inv: "\<forall>c \<in> set (ntoa_inv b). isdigit c"
proof (induction b rule: ntoa_inv.induct)
  case (1 b)
  show ?case
  proof (cases "unat b < 10")
    case True
    then show ?thesis by (simp add: ntoa_inv_small isdigit_dec)
  next
    case False
    then have "unat (b div 10) \<noteq> 0" by (simp add: unat_div)
    then have "b div 10 \<noteq> 0" by auto
    with "1.IH" have "\<forall>c \<in> set (ntoa_inv (b div 10)). isdigit c" by simp
    with False show ?thesis by (simp add: ntoa_inv_step isdigit_dec unat_mod)
  qed
qed

lemma ucast_div_mod_10: "ucast (b div 10) * 10 + ucast (b mod 10) = (ucast b :: u32)" for b :: u8
proof (rule word_eq_unatI)
  have "unat b div 10 * 10 + unat b mod 10 = unat b" by presburger
  then show "unat (ucast (b div 10) * 10 + ucast (b mod 10) :: u32) = unat (ucast b :: u32)"
    using unat_u8_lt [of b]
    by (simp add: unat_word_ariths unat_ucast_up unat_div unat_mod del: unat_u8_lt)
qed

lemma dec_digit_app [simp]: "dec_digit v (0x30 + r) = v * 10 + ucast r"
  by (simp add: dec_digit_def)

lemma foldl_dec_ntoa: "foldl dec_digit 0 (rev (ntoa_inv b)) = ucast b"
proof (induction b rule: ntoa_inv.induct)
  case (1 b)
  show ?case
  proof (cases "unat b < 10")
    case True
    then show ?thesis by (simp add: ntoa_inv_small)
  next
    case False
    then have "unat (b div 10) \<noteq> 0" by (simp add: unat_div)
    then have "b div 10 \<noteq> 0" by auto
    with "1.IH" have "foldl dec_digit 0 (rev (ntoa_inv (b div 10))) = ucast (b div 10)" by simp
    with False show ?thesis by (simp add: ntoa_inv_step ucast_div_mod_10)
  qed
qed

lemma last_ntoa_inv: "b \<noteq> 0 \<Longrightarrow> last (ntoa_inv b) \<noteq> 0x30"
proof (induction b rule: ntoa_inv.induct)
  case (1 b)
  show ?case
  proof (cases "unat b < 10")
    case True
    with "1.prems" show ?thesis by (simp add: ntoa_inv_small)
  next
    case False
    then have "unat (b div 10) \<noteq> 0" by (simp add: unat_div)
    then have "b div 10 \<noteq> 0" by auto
    with "1.IH" False show ?thesis by (simp add: ntoa_inv_step)
  qed
qed

lemma aton_digits_dec:
  "\<forall>c \<in> set ds. isdigit c \<Longrightarrow> \<not> isdigit d \<Longrightarrow>
   aton_digits 10 v (ds @ d # rest) = Some (foldl dec_digit v ds, d # rest)"
  by (induction ds arbitrary: v) (auto simp: dec_digit_def)

lemma aton_number_ntoa:
  assumes "\<not> isdigit d" "d \<noteq> 0x78" "d \<noteq> 0x58"
  shows "aton_number (rev (ntoa_inv b) @ d # rest) = Some (ucast b, d # rest)"
proof (cases "b = 0")
  case True
  with assms show ?thesis by (simp add: ntoa_inv_small aton_number.simps)
next
  case False
  obtain c cs where c: "rev (ntoa_inv b) = c # cs" by (cases "rev (ntoa_inv b)") auto
  with last_ntoa_inv [OF False] have "c \<noteq> 0x30"
    by (metis last_rev list.sel(1) rev_rev_ident)
  have "aton_digits 10 0 (rev (ntoa_inv b) @ d # rest) = Some (ucast b, d # rest)"
    using assms isdigit_ntoa_inv [of b] by (subst aton_digits_dec) (auto simp: foldl_dec_ntoa)
  with c \<open>c \<noteq> 0x30\<close> show ?thesis by (simp add: aton_number.simps)
qed

lemma isdigit_dot [simp]: "\<not> isdigit 0x2e" "\<not> isdigit 0"
  by (simp_all add: isdigit_def in_range_def)

lemma aton_parts_ntoa:
  assumes "\<not> isdigit d" "d \<noteq> 0x78" "d \<noteq> 0x58"
  shows "aton_parts ps (rev (ntoa_inv b) @ d # rest) =
    (if d = 0x2e then (if 3 \<le> length ps then Some None else aton_parts (ps @ [ucast b]) rest)
     else Some (Some (ps, ucast b, d)))"
proof -
  obtain c cs where c: "rev (ntoa_inv b) = c # cs" by (cases "rev (ntoa_inv b)") auto
  then have "c \<in> set (ntoa_inv b)" by (metis list.set_intros(1) set_rev)
  then have "isdigit c" using isdigit_ntoa_inv by blast
  with c aton_number_ntoa [OF assms, of b rest] show ?thesis by simp
qed

lemma inet_ntoa_eq:
  "inet_ntoa (u32_of_bytes a b c d) =
     rev (ntoa_inv a) @ 0x2e # rev (ntoa_inv b) @ 0x2e # rev (ntoa_inv c) @ 0x2e #
     rev (ntoa_inv d) @ [0]"
  by (simp add: inet_ntoa_def ntoa_octets_def butlast_append)

lemma aton_concoct_octets:
  "aton_concoct [ucast a, ucast b, ucast c] (ucast (d :: u8)) = Some (u32_of_bytes d c b a)"
proof -
  have "\<not> (0xff < (ucast d :: u32))"
    using unat_u8_lt [of d] by (simp add: word_less_nat_alt unat_ucast_up del: unat_u8_lt)
  then show ?thesis by (simp add: aton_concoct_def u32_of_bytes_def ac_simps)
qed

text \<open>
  C15. Parsing the text that \<open>inet_ntoa\<close> prints gives the address back, for every address,
  whatever follows the terminator in memory.
\<close>

theorem inet_aton_ntoa: "inet_aton (inet_ntoa a @ rest) = Some (Some a)"
proof -
  obtain w x y z where a: "a = u32_of_bytes w x y z" by (rule u32_cases)
  have "aton_parts [] (inet_ntoa a @ rest) =
      Some (Some ([ucast w, ucast x, ucast y], ucast z, 0))"
    by (simp add: a inet_ntoa_eq aton_parts_ntoa)
  then show ?thesis
    by (simp add: inet_aton_def aton_concoct_octets htonl_bytes a)
qed

text \<open>
  The static buffer \<open>char str[16]\<close> of \<open>inet_ntoa\<close> is never overrun, and the digit
  buffer \<open>char inv[3]\<close> neither.
\<close>

lemma inet_ntoa_fits: "length (inet_ntoa a) \<le> 16 \<and> length (ntoa_inv b) \<le> 3"
proof -
  obtain w x y z where a: "a = u32_of_bytes w x y z" by (rule u32_cases)
  show ?thesis
    using length_ntoa_inv [of w] length_ntoa_inv [of x] length_ntoa_inv [of y]
      length_ntoa_inv [of z] length_ntoa_inv [of b]
    by (simp add: a inet_ntoa_eq)
qed

end
