(* ===== verification/Chksum.thy ===== *)
theory Chksum
  imports Inet
begin

text \<open>
  \<open>core/ipv4/inet_chksum.c\<close>: the three selectable summing routines, the checksum over one
  buffer, over a pbuf chain, and with the TCP/UDP pseudo header (whole and partial).
  A pbuf chain is the list of its payloads (\<open>q->payload\<close> up to \<open>q->len\<close>), in chain order.
  The specification reads the bytes as one little-endian number: modulo 65535 this is the
  one's-complement sum of RFC 1071, and the representative in 1..65535 is taken unless every
  byte is zero.
\<close>

definition FOLD_U32T :: "u32 \<Rightarrow> u32" where
  "FOLD_U32T u = drop_bit 16 u + (u AND 0xffff)"

definition SWAP_BYTES_IN_WORD :: "u32 \<Rightarrow> u32" where
  "SWAP_BYTES_IN_WORD w = push_bit 8 (w AND 0xff) OR drop_bit 8 (w AND 0xff00)"

subsection \<open>Version 1, the one the board is built with\<close>

fun chksum1_loop :: "u32 \<Rightarrow> u8 list \<Rightarrow> u32" where
  "chksum1_loop acc (a # b # rest) =
     chksum1_loop (acc + ucast (push_bit 8 (ucast a) OR ucast b :: u16)) rest"
| "chksum1_loop acc [a] = acc + ucast (push_bit 8 (ucast a) :: u16)"
| "chksum1_loop acc [] = acc"

definition lwip_standard_chksum :: "u8 list \<Rightarrow> u16" where
  "lwip_standard_chksum data =
     (let acc = chksum1_loop 0 data;
          acc = drop_bit 16 acc + (acc AND 0xffff);
          acc = (if acc AND 0xffff0000 \<noteq> 0 then drop_bit 16 acc + (acc AND 0xffff) else acc)
      in htons (ucast acc))"

subsection \<open>Version 2: 16-bit loads, any alignment\<close>

text \<open>The bulk loop; it returns the sum and the bytes left over (at most one).\<close>

fun sum16 :: "u32 \<Rightarrow> u8 list \<Rightarrow> u32 \<times> u8 list" where
  "sum16 s (a # b # rest) = sum16 (s + ucast (u16_of_bytes a b)) rest"
| "sum16 s rest = (s, rest)"

definition chksum2 :: "u32 \<Rightarrow> u8 list \<Rightarrow> u16" where
  "chksum2 addr data =
     (let odd = (addr AND 1 \<noteq> 0);
          (t1, pb) = (if odd \<and> data \<noteq> [] then (hd data, tl data) else (0, data));
          (s, rest) = sum16 0 pb;
          t0 = (if rest \<noteq> [] then hd rest else 0);
          s = s + ucast (u16_of_bytes t0 t1);
          s = FOLD_U32T s;
          s = FOLD_U32T s;
          s = (if odd then SWAP_BYTES_IN_WORD s else s)
      in ucast s)"

subsection \<open>Version 3: unrolled 32-bit loads with end-around carry\<close>

definition add_carry :: "u32 \<Rightarrow> u32 \<Rightarrow> u32" where
  "add_carry s x = (let tmp = s + x in if tmp < s then tmp + 1 else tmp)"

fun sum32 :: "u32 \<Rightarrow> u8 list \<Rightarrow> u32 \<times> u8 list" where
  "sum32 s (a # b # c # d # e # f # g # h # rest) =
     sum32 (add_carry (add_carry s (u32_of_bytes a b c d)) (u32_of_bytes e f g h)) rest"
| "sum32 s rest = (s, rest)"

definition chksum3 :: "u32 \<Rightarrow> u8 list \<Rightarrow> u16" where
  "chksum3 addr data =
     (let odd = (addr AND 1 \<noteq> 0);
          (t1, pb, ps) = (if odd \<and> data \<noteq> [] then (hd data, tl data, addr + 1) else (0, data, addr));
          (s, pl) =
            (case pb of
               a # b # rest \<Rightarrow> if ps AND 3 \<noteq> 0 then (ucast (u16_of_bytes a b), rest) else (0, pb)
             | _ \<Rightarrow> (0, pb));
          (s, ps) = sum32 s pl;
          s = FOLD_U32T s;
          (s, rest) = sum16 s ps;
          t0 = (if rest \<noteq> [] then hd rest else 0);
          s = s + ucast (u16_of_bytes t0 t1);
          s = FOLD_U32T s;
          s = FOLD_U32T s;
          s = (if odd then SWAP_BYTES_IN_WORD s else s)
      in ucast s)"

subsection \<open>Checksums of buffers and chains\<close>

definition inet_chksum :: "u8 list \<Rightarrow> u16" where
  "inet_chksum data = NOT (lwip_standard_chksum data)"

text \<open>The body of the chain loop: running sum and the \<open>swapped\<close> flag.\<close>

definition chain_step :: "u32 \<times> bool \<Rightarrow> u8 list \<Rightarrow> u32 \<times> bool" where
  "chain_step = (\<lambda>(acc, swapped) q.
     let acc = FOLD_U32T (acc + ucast (lwip_standard_chksum q))
     in if odd (length q) then (SWAP_BYTES_IN_WORD acc, \<not> swapped) else (acc, swapped))"

definition chain_sum :: "u8 list list \<Rightarrow> u32" where
  "chain_sum p =
     (let (acc, swapped) = foldl chain_step (0, False) p
      in if swapped then SWAP_BYTES_IN_WORD acc else acc)"

definition inet_chksum_pbuf :: "u8 list list \<Rightarrow> u16" where
  "inet_chksum_pbuf p = NOT (ucast (chain_sum p AND 0xffff))"

definition add_pseudo :: "u32 \<Rightarrow> u32 \<Rightarrow> u32 \<Rightarrow> u8 \<Rightarrow> u16 \<Rightarrow> u32" where
  "add_pseudo acc src dest proto proto_len =
     acc + (src AND 0xffff) + (drop_bit 16 src AND 0xffff)
         + (dest AND 0xffff) + (drop_bit 16 dest AND 0xffff)
         + ucast (htons (ucast proto)) + ucast (htons proto_len)"

definition inet_chksum_pseudo :: "u8 list list \<Rightarrow> u32 \<Rightarrow> u32 \<Rightarrow> u8 \<Rightarrow> u16 \<Rightarrow> u16" where
  "inet_chksum_pseudo p src dest proto proto_len =
     (let acc = add_pseudo (chain_sum p) src dest proto proto_len;
          acc = FOLD_U32T acc;
          acc = FOLD_U32T acc
      in NOT (ucast (acc AND 0xffff)))"

text \<open>The partial variant stops after \<open>chksum_len\<close> bytes (its assertion has no effect here).\<close>

fun partial_loop :: "u32 \<times> bool \<Rightarrow> nat \<Rightarrow> u8 list list \<Rightarrow> u32 \<times> bool" where
  "partial_loop s chksum_len [] = s"
| "partial_loop (acc, swapped) chksum_len (q # qs) =
     (if chksum_len = 0 then (acc, swapped)
      else let chklen = (if length q > chksum_len then chksum_len else length q);
               acc = acc + ucast (lwip_standard_chksum (take chklen q));
               chksum_len' = chksum_len - chklen;
               acc = FOLD_U32T acc
           in if odd (length q)
              then partial_loop (SWAP_BYTES_IN_WORD acc, \<not> swapped) chksum_len' qs
              else partial_loop (acc, swapped) chksum_len' qs)"

definition inet_chksum_pseudo_partial ::
  "u8 list list \<Rightarrow> u32 \<Rightarrow> u32 \<Rightarrow> u8 \<Rightarrow> u16 \<Rightarrow> u16 \<Rightarrow> u16" where
  "inet_chksum_pseudo_partial p src dest proto proto_len chksum_len =
     (let (acc, swapped) = partial_loop (0, False) (unat chksum_len) p;
          acc = (if swapped then SWAP_BYTES_IN_WORD acc else acc);
          acc = add_pseudo acc src dest proto proto_len;
          acc = FOLD_U32T acc;
          acc = FOLD_U32T acc
      in NOT (ucast (acc AND 0xffff)))"

subsection \<open>One's-complement arithmetic as arithmetic modulo 65535\<close>

fun num :: "u8 list \<Rightarrow> nat" where
  "num [] = 0"
| "num (b # bs) = unat b + 256 * num bs"

definition ones :: "nat \<Rightarrow> nat" where
  "ones n = (if n = 0 then 0 else (n - 1) mod 65535 + 1)"

definition oc :: "nat \<Rightarrow> nat \<Rightarrow> bool" where
  "oc x y \<longleftrightarrow> x mod 65535 = y mod 65535 \<and> (x = 0 \<longleftrightarrow> y = 0)"

lemma oc_refl [simp]: "oc x x"
  by (simp add: oc_def)

lemma oc_sym: "oc x y \<Longrightarrow> oc y x"
  by (simp add: oc_def)

lemma oc_trans [trans]: "oc x y \<Longrightarrow> oc y z \<Longrightarrow> oc x z"
  by (simp add: oc_def)

lemma oc_add: "oc a b \<Longrightarrow> oc c d \<Longrightarrow> oc (a + c) (b + d)"
  unfolding oc_def by (metis add_is_0 mod_add_eq)

lemma oc_mult: "oc a b \<Longrightarrow> oc (256 * a) (256 * b)"
  unfolding oc_def by (metis mod_mult_right_eq mult_is_0 zero_neq_numeral)

lemma oc_65536 [simp]: "oc (65536 * a) a"
proof -
  have "65536 * a = a + 65535 * a" by simp
  then show ?thesis unfolding oc_def by (metis add_is_0 mod_mult_self2 mult_is_0)
qed

lemma oc_swap_twice: "oc (256 * (256 * a)) a"
  using oc_65536 [of a] by (simp add: mult.assoc [symmetric])

lemma oc_plus_multiple: "x \<noteq> 0 \<Longrightarrow> oc (x + 65535 * k) x"
  by (simp add: oc_def)

lemma ones_le: "ones n \<le> 65535"
  unfolding ones_def using mod_less_divisor [of 65535 "n - 1"] by auto

lemma oc_ones: "oc (ones n) n"
proof (cases n)
  case 0
  then show ?thesis by (simp add: ones_def oc_def)
next
  case (Suc m)
  then have "ones n = Suc (m mod 65535)" by (simp add: ones_def)
  moreover have "Suc (m mod 65535) mod 65535 = Suc m mod 65535" by (rule mod_Suc_eq)
  ultimately show ?thesis using Suc by (simp add: oc_def)
qed

lemma oc_unique: "oc x y \<Longrightarrow> x \<le> 65535 \<Longrightarrow> y \<le> 65535 \<Longrightarrow> x = y"
  unfolding oc_def by (metis le_neq_implies_less mod_less mod_self)

lemma ones_unique: "oc x n \<Longrightarrow> x \<le> 65535 \<Longrightarrow> x = ones n"
  by (rule oc_unique [OF oc_trans [OF _ oc_sym [OF oc_ones]] _ ones_le])

lemma ones_cong: "oc m n \<Longrightarrow> ones m = ones n"
  by (rule ones_unique [OF oc_trans [OF oc_ones] ones_le])

lemma num_append: "num (xs @ ys) = num xs + 256 ^ length xs * num ys"
  by (induction xs) (simp_all add: algebra_simps)

lemma oc_pow: "oc (256 ^ n * a) (if even n then a else 256 * a)"
proof (induction n)
  case (Suc n)
  then have "oc (256 * (256 ^ n * a)) (256 * (if even n then a else 256 * a))" by (rule oc_mult)
  then show ?case
    using oc_trans [OF _ oc_swap_twice [of a]] by (auto simp: mult.assoc)
qed simp

lemma oc_num_append:
  "oc (num (xs @ ys)) (num xs + (if even (length xs) then num ys else 256 * num ys))"
  unfolding num_append by (rule oc_add [OF oc_refl oc_pow])

subsection \<open>The word operations in these terms\<close>

lemma unat_FOLD: "unat (FOLD_U32T u) = unat u div 65536 + unat u mod 65536"
proof -
  have "unat u div 65536 < 65536" using unat_u32_lt [of u] by linarith
  moreover have "unat u mod 65536 < 65536" by simp
  ultimately have "unat u div 65536 + unat u mod 65536 < 4294967296" by linarith
  then show ?thesis
    by (simp add: FOLD_U32T_def and_mask_take_bit unat_plus_small unat_take_bit_u32 unat_drop_bit)
qed

lemma oc_fold: "oc (n div 65536 + n mod 65536) n"
proof -
  have "oc (n div 65536 + n mod 65536) (65536 * (n div 65536) + n mod 65536)"
    by (rule oc_add [OF oc_sym [OF oc_65536] oc_refl])
  then show ?thesis by simp
qed

lemma oc_FOLD: "oc (unat (FOLD_U32T u)) (unat u)"
  unfolding unat_FOLD by (rule oc_fold)

lemma FOLD_bound: "unat u \<le> 131070 \<Longrightarrow> unat (FOLD_U32T u) \<le> 65535"
proof -
  assume "unat u \<le> 131070"
  then have "unat u div 65536 = 0 \<or> unat u div 65536 = 1 \<and> unat u mod 65536 = unat u - 65536"
    by (cases "unat u < 65536") (auto simp: div_if mod_if)
  with \<open>unat u \<le> 131070\<close> show ?thesis
    using mod_less_divisor [of 65536 "unat u"] unfolding unat_FOLD by auto
qed

lemma FOLD_FOLD_bound: "unat (FOLD_U32T (FOLD_U32T u)) \<le> 65535"
proof (rule FOLD_bound)
  have "unat u div 65536 \<le> 65535" using unat_u32_lt [of u] by linarith
  moreover have "unat u mod 65536 \<le> 65535"
    using mod_less_divisor [of 65536 "unat u"] by linarith
  ultimately show "unat (FOLD_U32T u) \<le> 131070" unfolding unat_FOLD by linarith
qed

lemma FOLD_FOLD_ones: "oc (unat u) n \<Longrightarrow> unat (FOLD_U32T (FOLD_U32T u)) = ones n"
  by (rule ones_unique [OF _ FOLD_FOLD_bound]) (rule oc_trans [OF oc_trans [OF oc_FOLD oc_FOLD]])

lemma unat_SWAP:
  assumes "unat w \<le> 65535"
  shows "unat (SWAP_BYTES_IN_WORD w) = 256 * (unat w mod 256) + unat w div 256"
proof -
  have ff00: "(0xff00 :: u32) = push_bit 8 (mask 8)"
    by (simp add: mask_eq_exp_minus_1 push_bit_eq_mult)
  have "SWAP_BYTES_IN_WORD w = push_bit 8 (take_bit 8 w) + take_bit 8 (drop_bit 8 w)"
    unfolding SWAP_BYTES_IN_WORD_def and_mask_take_bit ff00
    by (subst disjunctive_add_eq_or) (auto simp: bit_simps intro!: bit_word_eqI)
  moreover have "unat w div 256 < 256" using assms by linarith
  ultimately show ?thesis
    by (simp add: unat_word_ariths push_bit_eq_mult unat_take_bit_u32 unat_drop_bit)
qed

lemma oc_SWAP:
  assumes "unat w \<le> 65535"
  shows "oc (unat (SWAP_BYTES_IN_WORD w)) (256 * unat w)"
proof -
  have "oc (256 * (unat w mod 256) + unat w div 256)
      (256 * (unat w mod 256) + 65536 * (unat w div 256))"
    by (rule oc_add [OF oc_refl oc_sym [OF oc_65536]])
  also have "256 * (unat w mod 256) + 65536 * (unat w div 256) = 256 * unat w"
    using mult_div_mod_eq [of 256 "unat w"] by linarith
  finally show ?thesis by (simp add: unat_SWAP assms)
qed

lemma SWAP_bound: "unat w \<le> 65535 \<Longrightarrow> unat (SWAP_BYTES_IN_WORD w) \<le> 65535"
proof -
  assume "unat w \<le> 65535"
  moreover from this have "unat w div 256 \<le> 255" by linarith
  moreover have "unat w mod 256 \<le> 255" using mod_less_divisor [of 256 "unat w"] by linarith
  ultimately show ?thesis by (simp add: unat_SWAP)
qed

lemma oc_htons: "oc (unat (htons x)) (256 * unat x)"
proof -
  obtain a b where x: "x = u16_of_bytes a b" by (rule u16_cases)
  have "oc (unat b + 256 * unat a) (65536 * unat b + 256 * unat a)"
    by (rule oc_add [OF oc_sym [OF oc_65536] oc_refl])
  then show ?thesis by (simp add: x htons_bytes unat_u16_of_bytes algebra_simps)
qed

lemma unat_u16_le: "unat (x :: u16) \<le> 65535"
  using unat_u16_lt [of x] by linarith

subsection \<open>Each summing routine computes the one's-complement sum\<close>

lemma unat_be16: "unat (ucast (push_bit 8 (ucast a) OR ucast b :: u16) :: u32) = 256 * unat a + unat b"
  for a b :: u8
proof -
  have "(push_bit 8 (ucast a) OR ucast b :: u16) = u16_of_bytes b a"
    by (simp add: u16_of_bytes_def or.commute)
  then show ?thesis by (simp add: unat_ucast_up unat_u16_of_bytes)
qed

text \<open>What version 1 accumulates: the big-endian words, that is 256 times the little-endian ones.\<close>

lemma chksum1_loop_oc:
  "unat acc + 65535 * length data < 4294967296 \<Longrightarrow>
   oc (unat (chksum1_loop acc data)) (unat acc + 256 * num data)"
proof (induction acc data rule: chksum1_loop.induct)
  case (1 acc a b rest)
  let ?w = "ucast (push_bit 8 (ucast a) OR ucast b :: u16) :: u32"
  have w: "unat ?w = 256 * unat a + unat b" by (rule unat_be16)
  have "unat (acc + ?w) = unat acc + (256 * unat a + unat b)"
    using "1.prems" unat_u8_lt [of a] unat_u8_lt [of b]
    by (subst unat_plus_small) (simp_all add: w del: unat_u8_lt)
  moreover have "unat (acc + ?w) + 65535 * length rest < 4294967296"
    using calculation "1.prems" unat_u8_lt [of a] unat_u8_lt [of b] by (simp del: unat_u8_lt)
  then have "oc (unat (chksum1_loop (acc + ?w) rest)) (unat (acc + ?w) + 256 * num rest)"
    by (rule "1.IH")
  ultimately have "oc (unat (chksum1_loop acc (a # b # rest)))
      (unat acc + (256 * unat a + unat b) + 256 * num rest)" by simp
  also have "oc (unat acc + (256 * unat a + unat b) + 256 * num rest)
      (unat acc + (256 * unat a + 65536 * unat b) + 256 * (256 * (256 * num rest)))"
    by (intro oc_add oc_refl oc_sym [OF oc_65536] oc_sym [OF oc_swap_twice])
  finally show ?case by (simp add: algebra_simps)
next
  case (2 acc a)
  let ?w = "ucast (push_bit 8 (ucast a) :: u16) :: u32"
  have w: "unat ?w = 256 * unat a" using unat_be16 [of a 0] by simp
  have "unat (acc + ?w) = unat acc + 256 * unat a"
    using "2.prems" unat_u8_lt [of a] by (subst unat_plus_small) (simp_all add: w del: unat_u8_lt)
  then show ?case by simp
next
  case (3 acc)
  then show ?case by simp
qed

lemma and_high_zero: "acc AND 0xffff0000 = 0 \<longleftrightarrow> unat acc \<le> 65535" for acc :: u32
proof -
  have m: "(0xffff0000 :: u32) = push_bit 16 (mask 16)"
    by (simp add: mask_eq_exp_minus_1 push_bit_eq_mult)
  have eq: "acc AND 0xffff0000 = push_bit 16 (drop_bit 16 acc)"
    unfolding m by (rule bit_word_eqI) (auto simp: bit_simps)
  have "push_bit 16 (drop_bit 16 acc) + take_bit 16 acc = acc" by (rule bits_ident)
  then have "push_bit 16 (drop_bit 16 acc) = 0 \<longleftrightarrow> take_bit 16 acc = acc"
    by (metis add.left_neutral add_right_cancel)
  also have "\<dots> \<longleftrightarrow> unat acc mod 65536 = unat acc"
    by (simp add: word_unat_eq_iff unat_take_bit_u32)
  also have "\<dots> \<longleftrightarrow> unat acc \<le> 65535"
    by (auto simp: mod_eq_self_iff_div_eq_0 div_eq_0_iff)
  finally show ?thesis by (simp add: eq)
qed

lemma lwip_standard_chksum_spec:
  assumes "length data < 65536"
  shows "unat (lwip_standard_chksum data) = ones (num data)"
proof -
  let ?acc = "chksum1_loop 0 data"
  let ?f = "FOLD_U32T ?acc"
  let ?g = "if ?f AND 0xffff0000 \<noteq> 0 then FOLD_U32T ?f else ?f"
  have acc: "oc (unat ?acc) (256 * num data)"
    using chksum1_loop_oc [of 0 data] assms by simp
  have g_le: "unat ?g \<le> 65535"
    using FOLD_FOLD_bound [of ?acc] by (auto simp: and_high_zero)
  have "oc (unat ?g) (unat ?acc)"
    by (auto intro: oc_trans [OF oc_FOLD oc_FOLD] oc_FOLD)
  then have "oc (256 * unat ?g) (256 * (256 * num data))" by (blast intro: oc_mult oc_trans acc)
  then have *: "oc (256 * unat ?g) (num data)" by (rule oc_trans) (rule oc_swap_twice)
  have "lwip_standard_chksum data = htons (ucast ?g)"
    by (simp add: lwip_standard_chksum_def FOLD_U32T_def Let_def)
  moreover have "unat (ucast ?g :: u16) = unat ?g"
    using g_le by (simp only: unat_ucast_down) simp
  ultimately have "oc (unat (lwip_standard_chksum data)) (num data)"
    using oc_trans [OF oc_htons [of "ucast ?g"]] * by simp
  then show ?thesis by (rule ones_unique [OF _ unat_u16_le])
qed

lemma unat_word16 [simp]: "unat (ucast (u16_of_bytes a b) :: u32) = unat a + 256 * unat b"
  by (simp add: unat_ucast_up unat_u16_of_bytes)

lemma sum16_spec:
  assumes "unat s + 65535 * length data < 4294967296" and "sum16 s data = (s', rest)"
  shows "length rest \<le> 1 \<and> oc (unat s' + num rest) (unat s + num data)
    \<and> unat s' + 65535 * length rest \<le> unat s + 65535 * length data"
  using assms
proof (induction s data rule: sum16.induct)
  case (1 s a b data)
  let ?w = "ucast (u16_of_bytes a b) :: u32"
  have w: "unat (s + ?w) = unat s + (unat a + 256 * unat b)"
    using "1.prems" unat_u8_lt [of a] unat_u8_lt [of b]
    by (subst unat_plus_small) (simp_all del: unat_u8_lt)
  have "unat a + 256 * unat b \<le> 65535" using unat_u8_lt [of a] unat_u8_lt [of b] by linarith
  with "1.prems" w have bound: "unat (s + ?w) + 65535 * length data < 4294967296" by simp
  from "1.prems" have "sum16 (s + ?w) data = (s', rest)" by simp
  from "1.IH" [OF bound this] w \<open>unat a + 256 * unat b \<le> 65535\<close>
  have IH: "length rest \<le> 1" "oc (unat s' + num rest) (unat s + (unat a + 256 * unat b) + num data)"
      "unat s' + 65535 * length rest \<le> unat s + 65535 * length (a # b # data)" by auto
  have "oc (unat s + (unat a + 256 * unat b) + num data)
      (unat s + (unat a + 256 * unat b) + 256 * (256 * num data))"
    by (intro oc_add oc_refl oc_sym [OF oc_swap_twice])
  also have "\<dots> = unat s + num (a # b # data)" by simp
  finally show ?case using IH oc_trans by blast
qed auto

text \<open>The common end of versions 2 and 3: 16-bit loop, end bytes, two folds.\<close>

lemma sum16_finish:
  assumes "unat s + 65535 * length ps \<le> 4294836225" and "sum16 s ps = (s', rest)"
    and "t0 = (if rest \<noteq> [] then hd rest else 0)"
  shows "unat (FOLD_U32T (FOLD_U32T (s' + ucast (u16_of_bytes t0 t1)))) =
    ones (unat s + num ps + 256 * unat t1)"
proof (rule FOLD_FOLD_ones)
  from sum16_spec [OF _ assms(2)] assms(1)
  have *: "length rest \<le> 1" "oc (unat s' + num rest) (unat s + num ps)"
    "unat s' + 65535 * length rest \<le> unat s + 65535 * length ps" by auto
  then have "num rest = unat t0"
    using assms(3) by (cases rest) auto
  moreover have "unat t0 + 256 * unat t1 \<le> 65535"
    using unat_u8_lt [of t0] unat_u8_lt [of t1] by linarith
  then have "unat (s' + ucast (u16_of_bytes t0 t1)) = unat s' + (unat t0 + 256 * unat t1)"
    using * assms(1) by (subst unat_plus_small) simp_all
  ultimately show "oc (unat (s' + ucast (u16_of_bytes t0 t1))) (unat s + num ps + 256 * unat t1)"
    using oc_add [OF *(2) oc_refl [of "256 * unat t1"]] by (simp add: add.assoc)
qed

lemma odd_swap_ones:
  assumes "unat r = ones (num pb + 256 * unat t1)"
  shows "unat (SWAP_BYTES_IN_WORD r) = ones (num (t1 # pb))"
proof (rule ones_unique)
  have r: "unat r \<le> 65535" by (simp add: assms ones_le)
  then have "oc (unat (SWAP_BYTES_IN_WORD r)) (256 * unat r)" by (rule oc_SWAP)
  also have "oc (256 * unat r) (256 * (num pb + 256 * unat t1))"
    unfolding assms by (intro oc_mult oc_ones)
  also have "\<dots> = 65536 * unat t1 + 256 * num pb" by simp
  also have "oc (65536 * unat t1 + 256 * num pb) (num (t1 # pb))"
    by (simp, intro oc_add oc_65536 oc_refl)
  finally show "oc (unat (SWAP_BYTES_IN_WORD r)) (num (t1 # pb))" .
  show "unat (SWAP_BYTES_IN_WORD r) \<le> 65535" by (rule SWAP_bound [OF r])
qed

lemma chksum2_spec:
  assumes "length data < 65536"
  shows "unat (chksum2 addr data) = ones (num data)"
proof -
  define od where "od = (addr AND 1 \<noteq> 0)"
  obtain t1 pb where t: "(t1, pb) = (if od \<and> data \<noteq> [] then (hd data, tl data) else (0, data))"
    by (metis surj_pair)
  obtain s rest where s: "sum16 0 pb = (s, rest)" by fastforce
  let ?t0 = "if rest \<noteq> [] then hd rest else 0"
  let ?r = "FOLD_U32T (FOLD_U32T (s + ucast (u16_of_bytes ?t0 t1)))"
  have "length pb \<le> length data" using t by (auto split: if_splits)
  with assms have r: "unat ?r = ones (num pb + 256 * unat t1)"
    using sum16_finish [OF _ s refl, of t1] by simp
  have "unat (if od then SWAP_BYTES_IN_WORD ?r else ?r) = ones (num data)"
  proof (cases "od \<and> data \<noteq> []")
    case True
    with t have "data = t1 # pb" by (cases data) auto
    with True odd_swap_ones [OF r] show ?thesis by simp
  next
    case False
    then show ?thesis using t r odd_swap_ones [OF r] by auto
  qed
  moreover have "chksum2 addr data = ucast (if od then SWAP_BYTES_IN_WORD ?r else ?r)"
    unfolding chksum2_def Let_def od_def [symmetric] t [symmetric]
    by (simp add: s)
  ultimately show ?thesis
    using ones_le [of "num data"] by (simp only: unat_ucast_down) simp
qed

lemma oc_add_carry: "oc (unat (add_carry s x)) (unat s + unat x)"
proof (cases "unat s + unat x < 4294967296")
  case True
  then have "unat (s + x) = unat s + unat x" by (simp add: unat_plus_small)
  then show ?thesis by (simp add: add_carry_def Let_def word_less_nat_alt)
next
  case False
  have small: "unat s + unat x - 4294967296 < 4294967296"
    using unat_u32_lt [of s] unat_u32_lt [of x] by linarith
  have sx: "unat (s + x) = unat s + unat x - 4294967296"
    using False small le_mod_geq [of 4294967296 "unat s + unat x"]
    by (simp add: unat_word_ariths)
  have "unat s + unat x - 4294967296 < unat s"
    using False unat_u32_lt [of x] by linarith
  then have lt: "s + x < s" by (simp add: word_less_nat_alt sx)
  have "unat (s + x + 1) = unat s + unat x - 4294967295"
    using False small unat_u32_lt [of s] unat_u32_lt [of x]
    by (subst unat_plus_small) (simp_all add: sx del: unat_u32_lt)
  moreover have "oc (unat s + unat x - 4294967295 + 65535 * 65537) (unat s + unat x - 4294967295)"
    using False by (intro oc_plus_multiple) linarith
  then have "oc (unat s + unat x) (unat s + unat x - 4294967295)" using False by simp
  ultimately show ?thesis using lt by (simp add: add_carry_def Let_def oc_sym)
qed

lemma sum32_spec:
  "sum32 s data = (s', rest) \<Longrightarrow>
   length rest \<le> 7 \<and> length rest \<le> length data \<and> oc (unat s' + num rest) (unat s + num data)"
proof (induction s data rule: sum32.induct)
  case (1 s a b c d e f g h data)
  let ?x = "u32_of_bytes a b c d" and ?y = "u32_of_bytes e f g h"
  let ?s = "add_carry (add_carry s ?x) ?y"
  have "oc (unat (add_carry s ?x) + unat ?y) (unat s + unat ?x + unat ?y)"
    by (intro oc_add oc_add_carry oc_refl)
  then have s: "oc (unat ?s) (unat s + unat ?x + unat ?y)"
    by (rule oc_trans [OF oc_add_carry])
  have up: "oc z (65536 * (65536 * z))" for z
    by (rule oc_trans [OF oc_sym [OF oc_65536] oc_sym [OF oc_65536]])
  from 1 have IH: "length rest \<le> 7" "length rest \<le> length data"
    "oc (unat s' + num rest) (unat ?s + num data)" by auto
  note IH(3)
  also have "oc (unat ?s + num data) (unat s + unat ?x + unat ?y + num data)"
    by (intro oc_add s oc_refl)
  also have "oc (unat s + unat ?x + unat ?y + num data)
      (unat s + unat ?x + 65536 * (65536 * unat ?y) + 65536 * (65536 * (65536 * (65536 * num data))))"
    by (intro oc_add oc_refl up oc_trans [OF up up])
  also have "\<dots> = unat s + num (a # b # c # d # e # f # g # h # data)"
    by (simp add: unat_u32_of_bytes algebra_simps)
  finally show ?case using IH by simp
qed auto

lemma chksum3_spec:
  assumes "length data < 65536"
  shows "unat (chksum3 addr data) = ones (num data)"
proof -
  define od where "od = (addr AND 1 \<noteq> 0)"
  obtain t1 pb a where t: "(t1, pb, a) =
      (if od \<and> data \<noteq> [] then (hd data, tl data, addr + 1) else (0, data, addr))"
    by (metis prod.exhaust)
  define hd2 where "hd2 = (case pb of x # y # r \<Rightarrow>
      if a AND 3 \<noteq> 0 then (ucast (u16_of_bytes x y), r) else (0, pb) | _ \<Rightarrow> (0 :: u32, pb))"
  obtain s0 pl where h: "hd2 = (s0, pl)" by fastforce
  obtain s1 ps where s1: "sum32 s0 pl = (s1, ps)" by fastforce
  obtain s2 rest where s2: "sum16 (FOLD_U32T s1) ps = (s2, rest)" by fastforce
  let ?t0 = "if rest \<noteq> [] then hd rest else 0"
  let ?r = "FOLD_U32T (FOLD_U32T (s2 + ucast (u16_of_bytes ?t0 t1)))"
  have head: "oc (unat s0 + num pl) (num pb)"
  proof (cases "length pb < 2")
    case False
    then obtain x y r where "pb = x # y # r" by (auto simp: numeral_2_eq_2 not_less Suc_le_length_iff)
    moreover have "oc (unat x + 256 * unat y + num r) (unat x + 256 * unat y + 256 * (256 * num r))"
      by (intro oc_add oc_refl oc_sym [OF oc_swap_twice])
    ultimately show ?thesis using h by (auto simp: hd2_def algebra_simps split: if_splits)
  next
    case True
    then show ?thesis using h by (auto simp: hd2_def less_Suc_eq numeral_2_eq_2 length_Suc_conv)
  qed
  have "oc (unat (FOLD_U32T s1) + num ps) (unat s1 + num ps)"
    by (intro oc_add oc_FOLD oc_refl)
  also have "oc \<dots> (unat s0 + num pl)" using sum32_spec [OF s1] by simp
  also note head
  finally have "oc (unat (FOLD_U32T s1) + num ps + 256 * unat t1) (num pb + 256 * unat t1)"
    by (intro oc_add oc_refl)
  moreover have "unat (FOLD_U32T s1) \<le> 131070"
    using unat_u32_lt [of s1] mod_less_divisor [of 65536 "unat s1"] unfolding unat_FOLD by linarith
  then have "unat ?r = ones (unat (FOLD_U32T s1) + num ps + 256 * unat t1)"
    using sum16_finish [OF _ s2 refl, of t1] sum32_spec [OF s1] by simp
  ultimately have r: "unat ?r = ones (num pb + 256 * unat t1)" by (simp only: ones_cong)
  have "unat (if od then SWAP_BYTES_IN_WORD ?r else ?r) = ones (num data)"
  proof (cases "od \<and> data \<noteq> []")
    case True
    with t have "data = t1 # pb" by (cases data) auto
    with True odd_swap_ones [OF r] show ?thesis by simp
  next
    case False
    then show ?thesis using t r odd_swap_ones [OF r] by auto
  qed
  moreover have "chksum3 addr data = ucast (if od then SWAP_BYTES_IN_WORD ?r else ?r)"
    unfolding chksum3_def Let_def od_def [symmetric] t [symmetric]
    by (simp add: hd2_def [symmetric] h s1 s2)
  ultimately show ?thesis
    using ones_le [of "num data"] by (simp only: unat_ucast_down) simp
qed

text \<open>
  C12. The three selectable summing routines agree: the two optimised ones (16-bit loads with
  alignment handling, and unrolled 32-bit loads with end-around carry) return what the simple
  byte-pair loop returns, for every buffer a 16-bit length can describe and every address.
\<close>

theorem chksum_versions_agree:
  assumes "length data < 65536"
  shows "chksum2 addr data = lwip_standard_chksum data \<and>
    chksum3 addr data = lwip_standard_chksum data"
  using chksum2_spec [OF assms] chksum3_spec [OF assms] lwip_standard_chksum_spec [OF assms]
  by (auto intro: word_eq_unatI)

theorem chksum_versions_agree_witness:
  "chksum2 3 [1, 2, 3, 4, 5, 6, 7, 8, 9, 10, 11] = lwip_standard_chksum [1, 2, 3, 4, 5, 6, 7, 8, 9, 10, 11]
   \<and> chksum3 3 [1, 2, 3, 4, 5, 6, 7, 8, 9, 10, 11] = lwip_standard_chksum [1, 2, 3, 4, 5, 6, 7, 8, 9, 10, 11]"
  by (rule chksum_versions_agree) simp

subsection \<open>Chains\<close>

text \<open>
  The accumulator holds the sum of what was read so far, byte-swapped when the number of
  odd-length pbufs passed is odd.
\<close>

definition acc_inv :: "u32 \<Rightarrow> bool \<Rightarrow> nat \<Rightarrow> bool" where
  "acc_inv acc swapped n \<longleftrightarrow>
     unat acc \<le> 65535 \<and> oc (unat acc) (if swapped then 256 * n else n)"

lemma acc_inv_0: "acc_inv 0 False 0"
  by (simp add: acc_inv_def)

lemma acc_inv_add:
  assumes "acc_inv acc (odd (length xs)) (num xs)" and "length d < 65536"
  shows "acc_inv (FOLD_U32T (acc + ucast (lwip_standard_chksum d))) (odd (length xs)) (num (xs @ d))"
proof -
  let ?a = "acc + ucast (lwip_standard_chksum d) :: u32"
  have a: "unat ?a = unat acc + ones (num d)"
    using assms ones_le [of "num d"] lwip_standard_chksum_spec [OF assms(2)]
    by (subst unat_plus_small) (simp_all add: acc_inv_def unat_ucast_up)
  then have "unat ?a \<le> 131070" using assms(1) ones_le [of "num d"] by (simp add: acc_inv_def)
  then have le: "unat (FOLD_U32T ?a) \<le> 65535" by (rule FOLD_bound)
  have "oc (unat (FOLD_U32T ?a)) (unat acc + ones (num d))" using oc_FOLD [of ?a] by (simp add: a)
  also have "oc \<dots> ((if odd (length xs) then 256 * num xs else num xs) + num d)"
    using assms(1) by (intro oc_add oc_ones) (auto simp: acc_inv_def)
  also have "oc \<dots> (if odd (length xs) then 256 * num (xs @ d) else num (xs @ d))"
  proof (cases "odd (length xs)")
    case True
    have "oc (256 * num (xs @ d)) (256 * (num xs + 256 * num d))"
      using oc_mult [OF oc_num_append [of xs d]] True by simp
    also have "oc \<dots> (256 * num xs + num d)"
      using oc_add [OF oc_refl [of "256 * num xs"] oc_swap_twice [of "num d"]]
      by (simp add: distrib_left)
    finally show ?thesis using True by (simp add: oc_sym)
  next
    case False
    then show ?thesis using oc_num_append [of xs d] by (simp add: oc_sym)
  qed
  finally show ?thesis using le by (simp add: acc_inv_def)
qed

lemma acc_inv_swap: "acc_inv acc sw n \<Longrightarrow> acc_inv (SWAP_BYTES_IN_WORD acc) (\<not> sw) n"
  unfolding acc_inv_def
  by (auto intro: SWAP_bound oc_trans [OF oc_SWAP oc_mult] oc_trans [OF oc_trans [OF oc_SWAP oc_mult] oc_swap_twice])

lemma acc_inv_final:
  "acc_inv acc sw n \<Longrightarrow> unat (if sw then SWAP_BYTES_IN_WORD acc else acc) = ones n"
  using acc_inv_swap [of acc sw n]
  by (cases sw) (auto simp: acc_inv_def intro: ones_unique)

lemma foldl_chain_step:
  assumes "acc_inv acc (odd (length xs)) (num xs)" and "\<forall>q \<in> set p. length q < 65536"
  shows "\<exists>acc'. foldl chain_step (acc, odd (length xs)) p = (acc', odd (length (xs @ concat p)))
    \<and> acc_inv acc' (odd (length (xs @ concat p))) (num (xs @ concat p))"
  using assms
proof (induction p arbitrary: acc xs)
  case Nil
  then show ?case by simp
next
  case (Cons q p)
  let ?a = "FOLD_U32T (acc + ucast (lwip_standard_chksum q))"
  let ?b = "if odd (length q) then SWAP_BYTES_IN_WORD ?a else ?a"
  have "acc_inv ?a (odd (length xs)) (num (xs @ q))"
    using Cons.prems by (intro acc_inv_add) auto
  then have "acc_inv ?b (odd (length (xs @ q))) (num (xs @ q))"
    using acc_inv_swap by (cases "odd (length q)") force+
  from Cons.IH [OF this] Cons.prems
  have "\<exists>acc'. foldl chain_step (?b, odd (length (xs @ q))) p =
      (acc', odd (length ((xs @ q) @ concat p)))
    \<and> acc_inv acc' (odd (length ((xs @ q) @ concat p))) (num ((xs @ q) @ concat p))"
    by simp
  moreover have "chain_step (acc, odd (length xs)) q = (?b, odd (length (xs @ q)))"
    by (simp add: chain_step_def Let_def)
  ultimately show ?case by simp
qed

lemma chain_sum_spec:
  assumes "\<forall>q \<in> set p. length q < 65536"
  shows "unat (chain_sum p) = ones (num (concat p))"
  using foldl_chain_step [of 0 "[]", OF _ assms] acc_inv_0 acc_inv_final
  by (auto simp: chain_sum_def)

lemma unat_NOT_u16: "unat (NOT x) = 65535 - unat (x :: u16)"
proof -
  have "NOT x = - 1 - x" by (simp add: not_eq_complement)
  moreover have "unat (- 1 :: u16) = 65535"
    by (simp add: unsigned_minus_1_eq_mask mask_eq_exp_minus_1)
  then have "unat (- 1 - x) = 65535 - unat x"
    using unat_u16_le [of x] by (subst unat_minus_small) simp_all
  ultimately show ?thesis by simp
qed

lemma mod_add_cancel: "(r + x) mod n = (r + y) mod n \<Longrightarrow> x mod n = y mod n" for n :: nat
  by (auto simp: nat_mod_eq_iff)

lemma unat_NOT_low: "unat w \<le> 65535 \<Longrightarrow> unat (NOT (ucast (w AND 0xffff)) :: u16) = 65535 - unat w"
  for w :: u32
  by (simp add: unat_NOT_u16 and_mask_take_bit unat_ucast_down unat_take_bit_u32)

lemma inet_chksum_spec: "length d < 65536 \<Longrightarrow> unat (inet_chksum d) = 65535 - ones (num d)"
  by (simp add: inet_chksum_def unat_NOT_u16 lwip_standard_chksum_spec)

lemma inet_chksum_pbuf_eq:
  assumes "length (concat p) < 65536"
  shows "inet_chksum_pbuf p = inet_chksum (concat p)"
proof (rule word_eq_unatI)
  have "length q < 65536" if "q \<in> set p" for q
    using that assms by (induction p) auto
  then have "unat (chain_sum p) = ones (num (concat p))" by (simp add: chain_sum_spec)
  then show "unat (inet_chksum_pbuf p) = unat (inet_chksum (concat p))"
    using assms ones_le [of "num (concat p)"]
    by (simp add: inet_chksum_pbuf_def unat_NOT_low inet_chksum_spec)
qed

text \<open>
  C13. The checksum of a pbuf chain does not depend on how the packet is cut into pbufs: it is
  the checksum of the concatenated payloads, odd-length pbufs included.
\<close>

theorem inet_chksum_pbuf_concat:
  assumes "length (concat p) < 65536"
  shows "inet_chksum_pbuf p = inet_chksum (concat p)"
  using assms by (rule inet_chksum_pbuf_eq)

theorem inet_chksum_pbuf_concat_witness:
  "inet_chksum_pbuf [[1, 2, 3], [], [4, 5], [6]] = inet_chksum [1, 2, 3, 4, 5, 6]"
  using inet_chksum_pbuf_concat [of "[[1, 2, 3], [], [4, 5], [6]]"] by simp

text \<open>A checksum field filled in so that the sum of the whole is all ones.\<close>

lemma inet_chksum_patch:
  assumes "even (length xs)" "length xs + length ys + 2 < 65536"
    and w: "oc (num (xs @ [0, 0] @ ys) + unat w) 65535"
  shows "inet_chksum (xs @ bytes_of_u16 w @ ys) = 0"
proof (rule word_eq_unatI)
  let ?n = "num (xs @ [0, 0] @ ys)"
  obtain a b where ab: "w = u16_of_bytes a b" by (rule u16_cases)
  let ?m = "num (xs @ bytes_of_u16 w @ ys)"
  have "num ([a, b] @ ys) = num ([0, 0] @ ys) + unat (u16_of_bytes a b)"
    by (simp add: unat_u16_of_bytes)
  then have "?m = ?n + 256 ^ length xs * unat w"
    unfolding ab bytes_of_u16_of_bytes num_append [of xs] by (simp only: distrib_left add.assoc)
  moreover have "oc (256 ^ length xs * unat w) (unat w)"
    using oc_pow [of "length xs" "unat w"] assms(1) by (simp only: if_True)
  ultimately have "oc ?m (?n + unat w)" using oc_add [OF oc_refl [of ?n]] by metis
  then have "oc ?m 65535" using w by (rule oc_trans)
  then have "oc 65535 ?m" by (rule oc_sym)
  then have "ones ?m = 65535" using ones_unique by fastforce
  then show "unat (inet_chksum (xs @ bytes_of_u16 w @ ys)) = unat (0 :: u16)"
    using assms by (subst inet_chksum_spec) (simp_all add: bytes_of_u16_def)
qed

lemma inet_chksum_fill:
  assumes "even (length xs)" "length xs + length ys + 2 < 65536"
    and w: "w = inet_chksum (xs @ [0, 0] @ ys) \<or> inet_chksum (xs @ [0, 0] @ ys) = 0 \<and> w = 0xffff"
  shows "inet_chksum (xs @ bytes_of_u16 w @ ys) = 0"
proof (rule inet_chksum_patch [OF assms(1,2)])
  let ?n = "num (xs @ [0, 0] @ ys)"
  have c: "unat (inet_chksum (xs @ [0, 0] @ ys)) = 65535 - ones ?n" using assms by (intro inet_chksum_spec) simp
  then have "unat w = 65535 - ones ?n \<or> ones ?n = 65535 \<and> unat w = 65535"
    using w ones_le [of ?n] by auto
  then have "ones ?n + unat w = 65535 \<or> ones ?n + unat w = 2 * 65535" using ones_le [of ?n] by linarith
  then have "oc (ones ?n + unat w) 65535" by (elim disjE) (simp_all add: oc_def)
  with oc_sym [OF oc_add [OF oc_ones [of ?n] oc_refl [of "unat w"]]] show "oc (?n + unat w) 65535"
    by (rule oc_trans)
qed

text \<open>
  C14. Sending side and receiving side fit: storing the checksum of a message (computed with the
  field zero) into its 16-bit field at an even offset makes the checksum over the whole message
  zero, which is what the receiver tests.
\<close>

theorem inet_chksum_verifies:
  assumes "even (length xs)" and "length xs + length ys + 2 < 65536"
  shows "inet_chksum (xs @ bytes_of_u16 (inet_chksum (xs @ [0, 0] @ ys)) @ ys) = 0"
  using inet_chksum_fill [OF assms] by blast

theorem inet_chksum_verifies_witness:
  "inet_chksum ([0x45, 0] @ bytes_of_u16 (inet_chksum ([0x45, 0] @ [0, 0] @ [7])) @ [7]) = 0"
  by (rule inet_chksum_verifies) simp_all

text \<open>
  A single corrupted byte never passes: changing one byte of a message changes its checksum.
\<close>

lemma inet_chksum_detects_byte:
  assumes "length (xs @ a # ys) < 65536" and "a \<noteq> b"
  shows "inet_chksum (xs @ a # ys) \<noteq> inet_chksum (xs @ b # ys)"
proof
  let ?k = "if even (length xs) then 1 else 256 :: nat"
  let ?r = "num xs + 256 ^ length xs * (256 * num ys)"
  assume "inet_chksum (xs @ a # ys) = inet_chksum (xs @ b # ys)"
  then have "unat (inet_chksum (xs @ a # ys)) = unat (inet_chksum (xs @ b # ys))" by simp
  moreover have "ones (num (xs @ c # ys)) \<le> 65535" for c by (rule ones_le)
  ultimately have "ones (num (xs @ a # ys)) = ones (num (xs @ b # ys))"
    using assms(1) by (simp add: inet_chksum_spec) (metis diff_diff_cancel)
  then have "oc (num (xs @ a # ys)) (num (xs @ b # ys))"
    by (metis oc_ones oc_sym oc_trans)
  moreover have n: "oc (num (xs @ c # ys)) (?r + ?k * unat c)" for c
  proof -
    have "num (xs @ c # ys) = ?r + 256 ^ length xs * unat c" by (simp add: num_append algebra_simps)
    also have "oc \<dots> (?r + ?k * unat c)"
      by (intro oc_add oc_refl) (use oc_pow [of "length xs" "unat c"] in \<open>auto split: if_splits\<close>)
    finally show ?thesis .
  qed
  ultimately have "oc (?r + ?k * unat a) (?r + ?k * unat b)"
    by (blast intro: oc_trans oc_sym)
  then have "(?r + ?k * unat a) mod 65535 = (?r + ?k * unat b) mod 65535" by (simp only: oc_def)
  then have "(?k * unat a) mod 65535 = (?k * unat b) mod 65535"
    by (rule mod_add_cancel)
  moreover have "?k * unat c < 65535" for c :: u8 using unat_u8_lt [of c] by (auto simp del: unat_u8_lt)
  ultimately have "?k * unat a = ?k * unat b" by simp
  then show False using assms(2) by (auto simp: word_unat_eq_iff split: if_splits)
qed

subsection \<open>The pseudo header\<close>

text \<open>The 12 bytes RFC 768 and RFC 793 put in front: both addresses, zero, protocol, length.\<close>

definition pseudo_header :: "u32 \<Rightarrow> u32 \<Rightarrow> u8 \<Rightarrow> u16 \<Rightarrow> u8 list" where
  "pseudo_header src dest proto proto_len =
     bytes_of_u32 src @ bytes_of_u32 dest @ [0, proto] @ bytes_of_u16 (htons proto_len)"

lemma length_pseudo_header [simp]: "length (pseudo_header s d p l) = 12"
  by (simp add: pseudo_header_def)

lemma num_bytes_of_u32: "num (bytes_of_u32 w) = unat w"
proof -
  obtain a b c d where "w = u32_of_bytes a b c d" by (rule u32_cases)
  then show ?thesis by (simp add: unat_u32_of_bytes)
qed

lemma num_bytes_of_u16: "num (bytes_of_u16 w) = unat w"
proof -
  obtain a b where "w = u16_of_bytes a b" by (rule u16_cases)
  then show ?thesis by (simp add: unat_u16_of_bytes)
qed

lemma unat_halves:
  "unat (w AND 0xffff) = unat w mod 65536" "unat (drop_bit 16 w AND 0xffff) = unat w div 65536"
  for w :: u32
proof -
  have "unat w div 65536 < 65536" using unat_u32_lt [of w] by linarith
  then show "unat (drop_bit 16 w AND 0xffff) = unat w div 65536"
    by (simp add: and_mask_take_bit unat_take_bit_u32 unat_drop_bit)
qed (simp add: and_mask_take_bit unat_take_bit_u32)

lemma unat_htons_proto: "unat (htons (ucast (p :: u8))) = 256 * unat p"
proof -
  have "(ucast p :: u16) = u16_of_bytes p 0" by (simp add: u16_of_bytes_def)
  then show ?thesis by (simp only: htons_bytes unat_u16_of_bytes) simp
qed

lemma len_num32: "(2 :: nat) ^ LENGTH(32) = 4294967296"
  by simp

lemma unat_ucast32: "unat (ucast (x :: u16) :: u32) = unat x"
  by (simp add: unat_ucast_up)

lemma unat_add_pseudo:
  assumes "unat acc \<le> 65535"
  shows "unat (add_pseudo acc src dest proto proto_len) =
    unat acc + unat src mod 65536 + unat src div 65536 + unat dest mod 65536
      + unat dest div 65536 + 256 * unat proto + unat (htons proto_len)"
proof -
  have s: "unat src div 65536 < 65536" "unat dest div 65536 < 65536"
    using unat_u32_lt [of src] unat_u32_lt [of dest] by linarith+
  have m: "unat src mod 65536 < 65536" "unat dest mod 65536 < 65536" by simp_all
  have p: "256 * unat proto < 65536" using unat_u8_lt [of proto] by linarith
  have "unat acc + unat src mod 65536 + unat src div 65536 + unat dest mod 65536
      + unat dest div 65536 + 256 * unat proto + unat (htons proto_len) < 4294967296"
    using assms s m p unat_u16_lt [of "htons proto_len"] by linarith
  moreover have "add_pseudo acc src dest proto proto_len =
      of_nat (unat acc + unat (src AND 0xffff) + unat (drop_bit 16 src AND 0xffff)
        + unat (dest AND 0xffff) + unat (drop_bit 16 dest AND 0xffff)
        + unat (ucast (htons (ucast proto)) :: u32) + unat (ucast (htons proto_len) :: u32))"
    by (simp only: add_pseudo_def of_nat_add of_nat_unat ucast_id)
  ultimately show ?thesis
    unfolding unat_halves(2) unfolding unat_halves(1) unat_ucast32 unat_htons_proto
    by (simp only: unat_of_nat_lt len_num32)
qed

lemma add_pseudo_oc:
  assumes "unat acc \<le> 65535" and "oc (unat acc) (num d)"
  shows "oc (unat (add_pseudo acc src dest proto proto_len))
    (num (pseudo_header src dest proto proto_len @ d))"
proof -
  let ?h = "pseudo_header src dest proto proto_len"
  have four: "oc (num (bytes_of_u32 w @ xs)) (unat w mod 65536 + unat w div 65536 + num xs)" for w xs
  proof -
    have "oc (num (bytes_of_u32 w @ xs)) (unat w + num xs)"
      using oc_num_append [of "bytes_of_u32 w" xs] by (simp add: num_bytes_of_u32)
    also have "oc \<dots> (unat w mod 65536 + unat w div 65536 + num xs)"
      using oc_add [OF oc_sym [OF oc_fold [of "unat w"]] oc_refl [of "num xs"]]
      by (simp only: add.commute [of "unat w div 65536"])
    finally show ?thesis .
  qed
  have tail: "oc (num ([0, proto] @ bytes_of_u16 (htons proto_len)))
      (256 * unat proto + unat (htons proto_len))"
    using oc_num_append [of "[0, proto]" "bytes_of_u16 (htons proto_len)"]
    by (simp add: num_bytes_of_u16)
  have "oc (num ?h) (unat src mod 65536 + unat src div 65536 +
      (unat dest mod 65536 + unat dest div 65536 + (256 * unat proto + unat (htons proto_len))))"
    unfolding pseudo_header_def
    by (rule oc_trans [OF four oc_add [OF oc_refl oc_trans [OF four oc_add [OF oc_refl tail]]]])
  from oc_add [OF this oc_sym [OF assms(2)]]
  have "oc (num ?h + num d) (unat (add_pseudo acc src dest proto proto_len))"
    unfolding unat_add_pseudo [OF assms(1)] by (simp only: ac_simps)
  moreover have "oc (num (?h @ d)) (num ?h + num d)" using oc_num_append [of ?h d] by simp
  ultimately show ?thesis by (rule oc_sym [OF oc_trans [rotated]])
qed

lemma inet_chksum_pseudo_eq:
  assumes "length (concat p) + 12 < 65536"
  shows "inet_chksum_pseudo p src dest proto proto_len =
    inet_chksum (pseudo_header src dest proto proto_len @ concat p)"
proof (rule word_eq_unatI)
  let ?h = "pseudo_header src dest proto proto_len"
  let ?acc = "add_pseudo (chain_sum p) src dest proto proto_len"
  have "length q < 65536" if "q \<in> set p" for q
    using that assms by (induction p) auto
  then have c: "unat (chain_sum p) = ones (num (concat p))" by (simp add: chain_sum_spec)
  then have "oc (unat ?acc) (num (?h @ concat p))"
    by (intro add_pseudo_oc) (simp_all add: ones_le oc_ones)
  then have "unat (FOLD_U32T (FOLD_U32T ?acc)) = ones (num (?h @ concat p))"
    by (rule FOLD_FOLD_ones)
  then show "unat (inet_chksum_pseudo p src dest proto proto_len) =
      unat (inet_chksum (?h @ concat p))"
    using assms ones_le [of "num (?h @ concat p)"]
    by (simp add: inet_chksum_pseudo_def Let_def unat_NOT_low inet_chksum_spec)
qed

text \<open>
  The TCP/UDP checksum of a chain is the checksum of the 12-byte pseudo header followed by
  the concatenated payload.
\<close>

lemma inet_chksum_pseudo_spec:
  assumes "length (concat p) + 12 < 65536"
  shows "inet_chksum_pseudo p src dest proto proto_len =
    inet_chksum (pseudo_header src dest proto proto_len @ concat p)"
  using assms by (rule inet_chksum_pseudo_eq)

lemma partial_loop_spec:
  assumes "acc_inv acc (odd (length xs)) (num xs)" and "\<forall>q \<in> set p. length q < 65536"
  shows "\<exists>acc' sw. partial_loop (acc, odd (length xs)) n p = (acc', sw)
    \<and> acc_inv acc' sw (num (xs @ take n (concat p)))"
  using assms
proof (induction p arbitrary: acc xs n)
  case Nil
  then show ?case by auto
next
  case (Cons q p)
  show ?case
  proof (cases "n = 0")
    case True
    with Cons.prems show ?thesis by auto
  next
    case False
    let ?k = "if length q > n then n else length q"
    let ?a = "FOLD_U32T (acc + ucast (lwip_standard_chksum (take ?k q)))"
    let ?b = "if odd (length q) then SWAP_BYTES_IN_WORD ?a else ?a"
    let ?sw = "odd (length (xs @ q))"
    have "acc_inv ?a (odd (length xs)) (num (xs @ take ?k q))"
      using Cons.prems by (intro acc_inv_add) auto
    then have b: "acc_inv ?b ?sw (num (xs @ take ?k q))"
      using acc_inv_swap by (cases "odd (length q)") force+
    have step: "partial_loop (acc, odd (length xs)) n (q # p) = partial_loop (?b, ?sw) (n - ?k) p"
      using False by (simp add: Let_def)
    show ?thesis
    proof (cases "n < length q")
      case True
      then have "partial_loop (?b, ?sw) (n - ?k) p = (?b, ?sw)" by (cases p) simp_all
      with step b True show ?thesis by auto
    next
      case False
      then have "acc_inv ?b (odd (length (xs @ q))) (num (xs @ q))" using b by simp
      from Cons.IH [OF this, of "n - ?k"] Cons.prems step False show ?thesis by auto
    qed
  qed
qed

text \<open>
  The partial pseudo-header checksum covers exactly the pseudo header and the first
  \<open>chksum_len\<close> bytes of the chain, wherever the pbuf boundaries fall.
\<close>

lemma inet_chksum_pseudo_partial_spec:
  assumes "\<forall>q \<in> set p. length q < 65536" and "unat chksum_len + 12 < 65536"
  shows "inet_chksum_pseudo_partial p src dest proto proto_len chksum_len =
    inet_chksum (pseudo_header src dest proto proto_len @ take (unat chksum_len) (concat p))"
proof (rule word_eq_unatI)
  let ?h = "pseudo_header src dest proto proto_len"
  let ?d = "take (unat chksum_len) (concat p)"
  obtain acc sw where l: "partial_loop (0, False) (unat chksum_len) p = (acc, sw)"
    and i: "acc_inv acc sw (num ?d)"
    using partial_loop_spec [of 0 "[]" p "unat chksum_len"] assms(1) acc_inv_0 by auto
  let ?a = "if sw then SWAP_BYTES_IN_WORD acc else acc"
  let ?acc = "add_pseudo ?a src dest proto proto_len"
  have c: "unat ?a = ones (num ?d)" by (rule acc_inv_final [OF i])
  have "oc (unat ?acc) (num (?h @ ?d))"
    by (rule add_pseudo_oc) (simp_all only: c ones_le oc_ones)
  then have "unat (FOLD_U32T (FOLD_U32T ?acc)) = ones (num (?h @ ?d))"
    by (rule FOLD_FOLD_ones)
  moreover have "length (?h @ ?d) < 65536" using assms(2) by simp
  ultimately show "unat (inet_chksum_pseudo_partial p src dest proto proto_len chksum_len) =
      unat (inet_chksum (?h @ ?d))"
    using ones_le [of "num (?h @ ?d)"]
    by (simp add: inet_chksum_pseudo_partial_def l Let_def unat_NOT_low inet_chksum_spec
        del: length_append)
qed

end
