(* ===== verification/Allocator.thy ===== *)
theory Allocator
  imports Prelude
begin

text \<open>
  The contract of a memory provider (\<open>mem.c\<close>, \<open>memp.c\<close>) as its clients see it, and a client
  that takes and returns blocks in any order.  \<open>live s p\<close> is the footprint of the block handed
  out at \<open>p\<close>; an allocation returns \<open>NULL\<close> and changes nothing, or a new block that is disjoint
  from every live one; a release removes just that block.
\<close>

datatype 'r alloc_op = Alloc 'r | Release nat

text \<open>The client's list of held blocks, each with the request it was made for.\<close>

fun alloc_run :: "('r \<Rightarrow> 's \<Rightarrow> (nat option \<times> 's) option) \<Rightarrow> (nat \<Rightarrow> 's \<Rightarrow> 's option) \<Rightarrow>
    'r alloc_op list \<Rightarrow> (nat \<times> 'r) list \<Rightarrow> 's \<Rightarrow> ((nat \<times> 'r) list \<times> 's) option" where
  "alloc_run alloc release [] held s = Some (held, s)"
| "alloc_run alloc release (Alloc q # ops) held s =
     (case alloc q s of
        None \<Rightarrow> None
      | Some (None, s) \<Rightarrow> alloc_run alloc release ops held s
      | Some (Some p, s) \<Rightarrow> alloc_run alloc release ops ((p, q) # held) s)"
| "alloc_run alloc release (Release i # ops) held s =
     (if i < length held
      then (case release (fst (held ! i)) s of
              None \<Rightarrow> None
            | Some s \<Rightarrow> alloc_run alloc release ops (take i held @ drop (Suc i) held) s)
      else alloc_run alloc release ops held s)"

locale allocator =
  fixes inv :: "'s \<Rightarrow> bool"
    and live :: "'s \<Rightarrow> nat \<Rightarrow> nat set option"
    and alloc :: "'r \<Rightarrow> 's \<Rightarrow> (nat option \<times> 's) option"
    and release :: "nat \<Rightarrow> 's \<Rightarrow> 's option"
    and fits :: "'r \<Rightarrow> nat \<Rightarrow> nat set \<Rightarrow> bool"
  assumes alloc_law: "inv s \<Longrightarrow>
      \<exists>r s'. alloc q s = Some (r, s') \<and> inv s' \<and>
        (case r of
           None \<Rightarrow> live s' = live s
         | Some p \<Rightarrow> live s p = None \<and>
             (\<exists>F. live s' = (live s)(p \<mapsto> F) \<and> fits q p F \<and>
                  (\<forall>p' G. live s p' = Some G \<longrightarrow> F \<inter> G = {})))"
    and release_law: "inv s \<Longrightarrow> live s p \<noteq> None \<Longrightarrow>
      \<exists>s'. release p s = Some s' \<and> inv s' \<and> live s' = (live s)(p := None)"
begin

text \<open>What the client may rely on: its blocks are live, distinct, disjoint, and as requested.\<close>

definition held_ok :: "(nat \<times> 'r) list \<Rightarrow> 's \<Rightarrow> bool" where
  "held_ok held s \<longleftrightarrow>
     inv s \<and> distinct (map fst held) \<and>
     (\<forall>(p, q) \<in> set held. \<exists>F. live s p = Some F \<and> fits q p F) \<and>
     (\<forall>p p' F G. live s p = Some F \<longrightarrow> live s p' = Some G \<longrightarrow> p \<noteq> p' \<longrightarrow> F \<inter> G = {})"

lemma held_alloc:
  assumes ok: "held_ok held s" and step: "alloc q s = Some (r, s')"
  shows "held_ok (case r of None \<Rightarrow> held | Some p \<Rightarrow> (p, q) # held) s'"
    and "dom (live s') = dom (live s) \<union> set_option r"
proof -
  have law: "inv s'" "case r of
           None \<Rightarrow> live s' = live s
         | Some p \<Rightarrow> live s p = None \<and>
             (\<exists>F. live s' = (live s)(p \<mapsto> F) \<and> fits q p F \<and>
                  (\<forall>p' G. live s p' = Some G \<longrightarrow> F \<inter> G = {}))"
    using alloc_law [of s q] ok step by (auto simp: held_ok_def)
  show "held_ok (case r of None \<Rightarrow> held | Some p \<Rightarrow> (p, q) # held) s'"
  proof (cases r)
    case None
    then show ?thesis using law ok by (auto simp: held_ok_def)
  next
    case (Some p)
    then obtain F where F: "live s p = None" "live s' = (live s)(p \<mapsto> F)" "fits q p F"
      "\<And>p' G. live s p' = Some G \<Longrightarrow> F \<inter> G = {}"
      using law by auto
    have "p \<notin> fst ` set held" using ok F(1) by (fastforce simp: held_ok_def)
    then show ?thesis using ok F law(1) Some
      by (auto simp: held_ok_def split: prod.splits)
  qed
  show "dom (live s') = dom (live s) \<union> set_option r"
    using law(2) by (cases r) auto
qed

lemma held_release:
  assumes ok: "held_ok held s" and i: "i < length held"
  shows "\<exists>s'. release (fst (held ! i)) s = Some s' \<and>
    held_ok (take i held @ drop (Suc i) held) s' \<and> dom (live s') = dom (live s) - {fst (held ! i)}"
proof -
  let ?p = "fst (held ! i)" and ?rest = "take i held @ drop (Suc i) held"
  have held: "held = take i held @ held ! i # drop (Suc i) held"
    using i by (simp add: id_take_nth_drop)
  have "held ! i \<in> set held" using i by simp
  then have "live s ?p \<noteq> None" using ok by (fastforce simp: held_ok_def)
  then obtain s' where s': "release ?p s = Some s'" "inv s'" "live s' = (live s)(?p := None)"
    using release_law [of s ?p] ok unfolding held_ok_def by blast
  have d: "distinct (map fst (take i held @ held ! i # drop (Suc i) held))"
    using ok held unfolding held_ok_def by simp
  then have np: "?p \<notin> fst ` set ?rest" and dr: "distinct (map fst ?rest)"
    by (simp_all del: append_take_drop_id) blast
  have sub: "set ?rest \<subseteq> set held"
    by (auto dest: in_set_takeD in_set_dropD)
  have "held_ok ?rest s'"
    unfolding held_ok_def
  proof (intro conjI)
    show "\<forall>(p, q) \<in> set ?rest. \<exists>F. live s' p = Some F \<and> fits q p F"
    proof (clarify)
      fix p q
      assume m: "(p, q) \<in> set ?rest"
      then have "p \<in> fst ` set ?rest" using image_iff [of p fst "set ?rest"] by (metis fst_conv)
      then have "p \<noteq> ?p" using np by metis
      moreover have "\<exists>F. live s p = Some F \<and> fits q p F"
        using ok m sub unfolding held_ok_def by blast
      ultimately show "\<exists>F. live s' p = Some F \<and> fits q p F" using s'(3) by simp
    qed
    show "\<forall>p p' F G. live s' p = Some F \<longrightarrow> live s' p' = Some G \<longrightarrow> p \<noteq> p' \<longrightarrow> F \<inter> G = {}"
      using ok unfolding held_ok_def s'(3) by simp
  qed (fact s'(2) dr)+
  with s' show ?thesis by auto
qed

lemma alloc_run_ok:
  "held_ok held s \<Longrightarrow>
   \<exists>held' s'. alloc_run alloc release ops held s = Some (held', s') \<and> held_ok held' s' \<and>
     dom (live s') - fst ` set held' = dom (live s) - fst ` set held"
proof (induction ops arbitrary: held s)
  case Nil
  then show ?case by simp
next
  case (Cons op ops)
  show ?case
  proof (cases op)
    case (Alloc q)
    obtain r s1 where a: "alloc q s = Some (r, s1)"
      using alloc_law [of s q] Cons.prems by (auto simp: held_ok_def)
    let ?held = "case r of None \<Rightarrow> held | Some p \<Rightarrow> (p, q) # held"
    have new: "p \<notin> dom (live s)" if "r = Some p" for p
      using alloc_law [of s q] Cons.prems a that by (auto simp: held_ok_def)
    from Cons.IH [OF held_alloc(1) [OF Cons.prems a]]
    obtain held' s' where "alloc_run alloc release ops ?held s1 = Some (held', s')" "held_ok held' s'"
      "dom (live s') - fst ` set held' = dom (live s1) - fst ` set ?held" by blast
    then show ?thesis
      using Alloc a held_alloc(2) [OF Cons.prems a] new by (cases r) auto
  next
    case (Release i)
    show ?thesis
    proof (cases "i < length held")
      case True
      from held_release [OF Cons.prems True] obtain s1 where s1: "release (fst (held ! i)) s = Some s1"
        "held_ok (take i held @ drop (Suc i) held) s1"
        "dom (live s1) = dom (live s) - {fst (held ! i)}" by blast
      have "fst ` set held = insert (fst (held ! i)) (fst ` set (take i held @ drop (Suc i) held))"
        by (subst (1) id_take_nth_drop [OF True]) auto
      then show ?thesis using Cons.IH [OF s1(2)] s1 Release True by auto
    next
      case False
      then show ?thesis using Cons.IH [OF Cons.prems] Release by auto
    qed
  qed
qed

end

end
