(* ===== verification/Mem_Heap.thy ===== *)
theory Mem_Heap
  imports Allocator
begin

text \<open>
  \<open>core/mem.c\<close> (the heap version, \<open>MEM_USE_POOLS = 0\<close>) with the board's settings from
  \<open>lwipopts.h\<close>: \<open>MEM_SIZE = 20 * 1024\<close>, \<open>MEM_ALIGNMENT = 4\<close>, hence \<open>mem_size_t = u16_t\<close>.
  Pointers are offsets from \<open>ram\<close>; the block headers (\<open>struct mem\<close>) are a map from offsets.
  Headers that were merged away stay in the map, as the stale bytes stay in RAM.
  \<open>NO_SYS = 1\<close> makes the semaphore calls empty.
\<close>

subsection \<open>Constants and state\<close>

definition MEM_SIZE_ALIGNED :: nat where "MEM_SIZE_ALIGNED = 20480"
definition SIZEOF_STRUCT_MEM :: nat where "SIZEOF_STRUCT_MEM = 8"
definition MIN_SIZE_ALIGNED :: nat where "MIN_SIZE_ALIGNED = 12"

lemmas mem_consts = MEM_SIZE_ALIGNED_def SIZEOF_STRUCT_MEM_def MIN_SIZE_ALIGNED_def

definition LWIP_MEM_ALIGN_SIZE :: "nat \<Rightarrow> nat" where
  "LWIP_MEM_ALIGN_SIZE sz = (sz + 3) div 4 * 4"

record mem_hdr =
  nxt :: nat
  prv :: nat
  used :: bool

record mem_state =
  hdr :: "nat \<rightharpoonup> mem_hdr"
  lfree :: nat

text \<open>Unsigned 32-bit subtraction, as in \<open>mem->next - (ptr + SIZEOF_STRUCT_MEM)\<close>.\<close>

definition usub32 :: "nat \<Rightarrow> nat \<Rightarrow> nat" where
  "usub32 a b = (a + 4294967296 - b) mod 4294967296"

definition set_hdr :: "nat \<Rightarrow> mem_hdr \<Rightarrow> mem_state \<Rightarrow> mem_state" where
  "set_hdr p m st = st\<lparr>hdr := (hdr st)(p \<mapsto> m)\<rparr>"

definition upd_hdr :: "nat \<Rightarrow> (mem_hdr \<Rightarrow> mem_hdr) \<Rightarrow> mem_state \<Rightarrow> mem_state option" where
  "upd_hdr p f st = map_option (\<lambda>m. set_hdr p (f m) st) (hdr st p)"

subsection \<open>Operations\<close>

definition mem_init :: mem_state where
  "mem_init =
     \<lparr>hdr = [0 \<mapsto> \<lparr>nxt = MEM_SIZE_ALIGNED, prv = 0, used = False\<rparr>,
             MEM_SIZE_ALIGNED \<mapsto> \<lparr>nxt = MEM_SIZE_ALIGNED, prv = MEM_SIZE_ALIGNED, used = True\<rparr>],
      lfree = 0\<rparr>"

text \<open>The two halves of \<open>plug_holes\<close>: the forward hole, then the backward hole.\<close>

definition plug_next :: "nat \<Rightarrow> mem_state \<Rightarrow> mem_state option" where
  "plug_next mem st = do {
     m \<leftarrow> hdr st mem;
     let n = nxt m;
     nm \<leftarrow> hdr st n;
     (if mem \<noteq> n \<and> \<not> used nm \<and> n \<noteq> MEM_SIZE_ALIGNED
      then do {
        let st = (if lfree st = n then st\<lparr>lfree := mem\<rparr> else st);
        st \<leftarrow> upd_hdr mem (\<lambda>m. m\<lparr>nxt := nxt nm\<rparr>) st;
        upd_hdr (nxt nm) (\<lambda>m. m\<lparr>prv := mem\<rparr>) st
      }
      else Some st)
   }"

definition plug_prev :: "nat \<Rightarrow> mem_state \<Rightarrow> mem_state option" where
  "plug_prev mem st = do {
     m \<leftarrow> hdr st mem;
     let p = prv m;
     pm \<leftarrow> hdr st p;
     (if p \<noteq> mem \<and> \<not> used pm
      then do {
        let st = (if lfree st = mem then st\<lparr>lfree := p\<rparr> else st);
        st \<leftarrow> upd_hdr p (\<lambda>m'. m'\<lparr>nxt := nxt m\<rparr>) st;
        upd_hdr (nxt m) (\<lambda>m'. m'\<lparr>prv := p\<rparr>) st
      }
      else Some st)
   }"

definition plug_holes :: "nat \<Rightarrow> mem_state \<Rightarrow> mem_state option" where
  "plug_holes mem st = do { st \<leftarrow> plug_next mem st; plug_prev mem st }"

text \<open>The argument is \<open>NULL\<close> (\<open>None\<close>) or an address, as an offset from \<open>ram\<close> of either sign.\<close>

definition mem_free :: "int option \<Rightarrow> mem_state \<Rightarrow> mem_state option" where
  "mem_free rmem st =
     (case rmem of
        None \<Rightarrow> Some st
      | Some r \<Rightarrow>
          if r < 0 \<or> int MEM_SIZE_ALIGNED \<le> r then Some st
          else if r < int SIZEOF_STRUCT_MEM then None
          else do {
            let mem = nat r - SIZEOF_STRUCT_MEM;
            st \<leftarrow> upd_hdr mem (\<lambda>m. m\<lparr>used := False\<rparr>) st;
            let st = (if mem < lfree st then st\<lparr>lfree := mem\<rparr> else st);
            plug_holes mem st
          })"

text \<open>The size computation at the start of \<open>mem_malloc\<close> and \<open>mem_realloc\<close>, in \<open>u16_t\<close>.\<close>

definition adjust_size :: "nat \<Rightarrow> nat" where
  "adjust_size sz =
     (let sz = LWIP_MEM_ALIGN_SIZE sz mod 65536
      in if sz < MIN_SIZE_ALIGNED then MIN_SIZE_ALIGNED else sz)"

text \<open>\<open>while (lfree->used && lfree != ram_end) lfree = &ram[lfree->next]\<close>\<close>

partial_function (option) next_free :: "(nat \<rightharpoonup> mem_hdr) \<Rightarrow> nat \<Rightarrow> nat option" where
  "next_free h p =
     (case h p of
        None \<Rightarrow> None
      | Some m \<Rightarrow> if used m \<and> p \<noteq> MEM_SIZE_ALIGNED then next_free h (nxt m) else Some p)"

text \<open>The body of the scan once a large enough free block is found at \<open>ptr\<close>.\<close>

definition mem_take :: "nat \<Rightarrow> nat \<Rightarrow> mem_hdr \<Rightarrow> mem_state \<Rightarrow> (nat option \<times> mem_state) option" where
  "mem_take sz ptr m st = do {
     st \<leftarrow> (if sz + SIZEOF_STRUCT_MEM + MIN_SIZE_ALIGNED
             \<le> usub32 (nxt m) (ptr + SIZEOF_STRUCT_MEM)
           then do {
             let ptr2 = (ptr + SIZEOF_STRUCT_MEM + sz) mod 65536;
             let st = set_hdr ptr2 \<lparr>nxt = nxt m, prv = ptr, used = False\<rparr> st;
             st \<leftarrow> upd_hdr ptr (\<lambda>m. m\<lparr>nxt := ptr2, used := True\<rparr>) st;
             (if nxt m \<noteq> MEM_SIZE_ALIGNED then upd_hdr (nxt m) (\<lambda>m. m\<lparr>prv := ptr2\<rparr>) st
              else Some st)
           }
           else upd_hdr ptr (\<lambda>m. m\<lparr>used := True\<rparr>) st);
     st \<leftarrow> (if ptr = lfree st
           then do { l \<leftarrow> next_free (hdr st) (lfree st); Some (st\<lparr>lfree := l\<rparr>) }
           else Some st);
     Some (Some (ptr + SIZEOF_STRUCT_MEM), st)
   }"

partial_function (option) mem_scan :: "nat \<Rightarrow> mem_state \<Rightarrow> nat \<Rightarrow> (nat option \<times> mem_state) option" where
  "mem_scan sz st ptr =
     (if ptr < MEM_SIZE_ALIGNED - sz
      then (case hdr st ptr of
              None \<Rightarrow> None
            | Some m \<Rightarrow>
                if \<not> used m \<and> sz \<le> usub32 (nxt m) (ptr + SIZEOF_STRUCT_MEM)
                then mem_take sz ptr m st
                else mem_scan sz st (nxt m))
      else Some (None, st))"

definition mem_malloc :: "nat \<Rightarrow> mem_state \<Rightarrow> (nat option \<times> mem_state) option" where
  "mem_malloc sz st =
     (if sz = 0 then Some (None, st)
      else let sz = adjust_size sz
           in if MEM_SIZE_ALIGNED < sz then Some (None, st)
              else mem_scan sz st (lfree st))"

text \<open>
  \<open>mem_calloc\<close>: the product is passed to \<open>mem_malloc\<close> as a \<open>u16_t\<close> but to \<open>memset\<close> in
  full; the second component is the number of bytes that are zeroed from the block's start.
\<close>

definition mem_calloc :: "nat \<Rightarrow> nat \<Rightarrow> mem_state \<Rightarrow> (nat option \<times> nat \<times> mem_state) option" where
  "mem_calloc count sz st = do {
     (p, st) \<leftarrow> mem_malloc ((count * sz) mod 65536) st;
     Some (p, (if p \<noteq> None then count * sz else 0), st)
   }"

text \<open>\<open>mem_realloc\<close> shrinks a block in place; the result is the pointer or \<open>NULL\<close>.\<close>

definition mem_realloc :: "int \<Rightarrow> nat \<Rightarrow> mem_state \<Rightarrow> (int option \<times> mem_state) option" where
  "mem_realloc rmem newsize st =
     (let newsize = adjust_size newsize
      in if MEM_SIZE_ALIGNED < newsize then Some (None, st)
         else if rmem < 0 \<or> int MEM_SIZE_ALIGNED \<le> rmem then Some (Some rmem, st)
         else if rmem < int SIZEOF_STRUCT_MEM then None
         else do {
           let ptr = nat rmem - SIZEOF_STRUCT_MEM;
           m \<leftarrow> hdr st ptr;
           let sz = usub32 (nxt m) (ptr + SIZEOF_STRUCT_MEM) mod 65536;
           (if sz < newsize then Some (None, st)
            else if newsize = sz then Some (Some rmem, st)
            else do {
              m2 \<leftarrow> hdr st (nxt m);
              (if \<not> used m2
               then do {
                 let ptr2 = (ptr + SIZEOF_STRUCT_MEM + newsize) mod 65536;
                 let st = (if lfree st = nxt m then st\<lparr>lfree := ptr2\<rparr> else st);
                 let st = set_hdr ptr2 \<lparr>nxt = nxt m2, prv = ptr, used = False\<rparr> st;
                 st \<leftarrow> upd_hdr ptr (\<lambda>m. m\<lparr>nxt := ptr2\<rparr>) st;
                 st \<leftarrow> (if nxt m2 \<noteq> MEM_SIZE_ALIGNED
                       then upd_hdr (nxt m2) (\<lambda>m. m\<lparr>prv := ptr2\<rparr>) st else Some st);
                 Some (Some rmem, st)
               }
               else if newsize + SIZEOF_STRUCT_MEM + MIN_SIZE_ALIGNED \<le> sz
               then do {
                 let ptr2 = (ptr + SIZEOF_STRUCT_MEM + newsize) mod 65536;
                 let st = (if ptr2 < lfree st then st\<lparr>lfree := ptr2\<rparr> else st);
                 let st = set_hdr ptr2 \<lparr>nxt = nxt m, prv = ptr, used = False\<rparr> st;
                 st \<leftarrow> upd_hdr ptr (\<lambda>m. m\<lparr>nxt := ptr2\<rparr>) st;
                 st \<leftarrow> (if nxt m \<noteq> MEM_SIZE_ALIGNED
                       then upd_hdr (nxt m) (\<lambda>m. m\<lparr>prv := ptr2\<rparr>) st else Some st);
                 Some (Some rmem, st)
               }
               else Some (Some rmem, st))
            })
         })"


subsection \<open>Layouts\<close>

text \<open>The abstract heap: the blocks in address order, each with its total size and its flag.\<close>

type_synonym layout = "(nat \<times> bool) list"

definition tot :: "layout \<Rightarrow> nat" where
  "tot xs = sum_list (map fst xs)"

lemma tot_simps [simp]:
  "tot [] = 0" "tot (b # xs) = fst b + tot xs" "tot (xs @ ys) = tot xs + tot ys"
  by (simp_all add: tot_def)

fun seg :: "(nat \<rightharpoonup> mem_hdr) \<Rightarrow> nat \<Rightarrow> nat \<Rightarrow> layout \<Rightarrow> bool" where
  "seg h pv p [] \<longleftrightarrow> True"
| "seg h pv p ((n, u) # xs) \<longleftrightarrow>
     h p = Some \<lparr>nxt = p + n, prv = pv, used = u\<rparr> \<and> seg h p (p + n) xs"

definition last_pos :: "nat \<Rightarrow> nat \<Rightarrow> layout \<Rightarrow> nat" where
  "last_pos pv p xs = (if xs = [] then pv else p + tot (butlast xs))"

lemma last_pos_simps [simp]:
  "last_pos pv p [] = pv" "last_pos pv p (xs @ [b]) = p + tot xs"
  by (simp_all add: last_pos_def)

lemma last_pos_Cons: "last_pos pv p (b # xs) = last_pos p (p + fst b) xs"
  by (simp add: last_pos_def)

lemma seg_append [simp]:
  "seg h pv p (xs @ ys) \<longleftrightarrow> seg h pv p xs \<and> seg h (last_pos pv p xs) (p + tot xs) ys"
  by (induction xs arbitrary: pv p) (auto simp: last_pos_Cons add.assoc)

lemma seg_upd_outside [simp]:
  "q < p \<Longrightarrow> seg (h(q \<mapsto> m)) pv p xs = seg h pv p xs"
  "p + tot xs \<le> q \<Longrightarrow> \<forall>b \<in> set xs. 0 < fst b \<Longrightarrow> seg (h(q \<mapsto> m)) pv p xs = seg h pv p xs"
  by (induction xs arbitrary: pv p) auto

text \<open>No two free blocks are adjacent.\<close>

definition coalesced :: "layout \<Rightarrow> bool" where
  "coalesced xs \<longleftrightarrow> successively (\<lambda>a b. snd a \<or> snd b) xs"

definition blocks_ok :: "layout \<Rightarrow> bool" where
  "blocks_ok xs \<longleftrightarrow> (\<forall>b \<in> set xs. 20 \<le> fst b \<and> 4 dvd fst b)"

definition first_free :: "layout \<Rightarrow> nat" where
  "first_free xs = tot (takeWhile snd xs)"

definition heap_rel :: "mem_state \<Rightarrow> layout \<Rightarrow> bool" where
  "heap_rel st xs \<longleftrightarrow>
     seg (hdr st) 0 0 xs \<and> tot xs = MEM_SIZE_ALIGNED \<and> blocks_ok xs \<and> coalesced xs \<and>
     (\<exists>m. hdr st MEM_SIZE_ALIGNED = Some m \<and> used m \<and> nxt m = MEM_SIZE_ALIGNED) \<and>
     lfree st = first_free xs"

lemma blocks_ok_simps [simp]:
  "blocks_ok []" "blocks_ok (b # xs) \<longleftrightarrow> 20 \<le> fst b \<and> 4 dvd fst b \<and> blocks_ok xs"
  "blocks_ok (xs @ ys) \<longleftrightarrow> blocks_ok xs \<and> blocks_ok ys"
  by (auto simp: blocks_ok_def)

lemma blocks_ok_pos [simp]: "blocks_ok xs \<Longrightarrow> \<forall>b \<in> set xs. 0 < fst b"
  by (auto simp: blocks_ok_def)

lemma first_free_append [simp]:
  "first_free (xs @ ys) = (if \<forall>b \<in> set xs. snd b then tot xs + first_free ys else first_free xs)"
  by (induction xs) (auto simp: first_free_def)

lemma first_free_simps [simp]:
  "first_free [] = 0" "first_free (b # xs) = (if snd b then fst b + first_free xs else 0)"
  by (auto simp: first_free_def)

lemma first_free_le: "first_free xs \<le> tot xs"
  by (induction xs) auto

lemma first_free_lt: "\<exists>b \<in> set xs. \<not> snd b \<Longrightarrow> blocks_ok xs \<Longrightarrow> first_free xs < tot xs"
  by (induction xs) auto

lemma usub32_small: "b \<le> a \<Longrightarrow> a < 4294967296 \<Longrightarrow> usub32 a b = a - b"
proof -
  assume "b \<le> a" "a < 4294967296"
  then have "a + 4294967296 - b = (a - b) + 4294967296" "a - b < 4294967296" by linarith+
  then show ?thesis unfolding usub32_def by (simp only: mod_add_self2 mod_less)
qed

lemma mem_init_rel: "heap_rel mem_init [(MEM_SIZE_ALIGNED, False)]"
  by (simp add: heap_rel_def mem_init_def mem_consts coalesced_def)

subsection \<open>Allocation is first fit\<close>

fun first_fit :: "nat \<Rightarrow> layout \<Rightarrow> (nat \<times> layout) option" where
  "first_fit sz [] = None"
| "first_fit sz ((n, u) # xs) =
     (if \<not> u \<and> sz + 8 \<le> n
      then Some (0, if sz + 28 \<le> n then (sz + 8, True) # (n - (sz + 8), False) # xs
                    else (n, True) # xs)
      else map_option (\<lambda>(p, ys). (n + p, (n, u) # ys)) (first_fit sz xs))"

lemma first_fit_used_prefix:
  "\<forall>b \<in> set as. snd b \<Longrightarrow>
   first_fit sz (as @ xs) = map_option (\<lambda>(p, ys). (tot as + p, as @ ys)) (first_fit sz xs)"
proof (induction as)
  case Nil
  then show ?case by (cases "first_fit sz xs") auto
next
  case (Cons b as)
  then show ?case by (cases b; cases "first_fit sz xs") auto
qed

lemma adjust_size_ge: "MIN_SIZE_ALIGNED \<le> adjust_size sz"
  by (simp add: adjust_size_def Let_def)

lemma adjust_size_aligned: "4 dvd adjust_size sz"
proof -
  have "4 dvd (k * 4) mod (65536 :: nat)" for k :: nat
    by (simp add: dvd_mod_iff)
  then show ?thesis
    by (simp add: adjust_size_def LWIP_MEM_ALIGN_SIZE_def Let_def MIN_SIZE_ALIGNED_def)
qed

lemma adjust_size_covers: "sz \<le> 65532 \<Longrightarrow> sz \<le> adjust_size sz"
proof -
  assume "sz \<le> 65532"
  moreover have "(sz + 3) div 4 * 4 + (sz + 3) mod 4 = sz + 3" "(sz + 3) mod 4 < 4"
    by simp_all
  ultimately have "sz \<le> (sz + 3) div 4 * 4" "(sz + 3) div 4 * 4 < 65536" by linarith+
  then show ?thesis
    by (simp add: adjust_size_def LWIP_MEM_ALIGN_SIZE_def Let_def)
qed


lemma first_fitD:
  "first_fit sz xs = Some (q, ys) \<Longrightarrow>
   \<exists>as n bs. xs = as @ (n, False) # bs \<and> q = tot as \<and> sz + 8 \<le> n \<and>
     ys = as @ (if sz + 28 \<le> n then [(sz + 8, True), (n - (sz + 8), False)] else [(n, True)]) @ bs"
proof (induction xs arbitrary: q ys)
  case (Cons b xs)
  obtain n u where b: "b = (n, u)" by (cases b)
  show ?case
  proof (cases "\<not> u \<and> sz + 8 \<le> n")
    case True
    then show ?thesis
      using Cons.prems b by (intro exI [of _ "[]"] exI [of _ n] exI [of _ xs]) (auto split: if_splits)
  next
    case False
    then obtain q' ys' where q': "first_fit sz xs = Some (q', ys')" "q = n + q'" "ys = b # ys'"
      using Cons.prems b by auto
    from Cons.IH [OF q'(1)] obtain as k bs where *: "xs = as @ (k, False) # bs" "q' = tot as"
      "sz + 8 \<le> k"
      "ys' = as @ (if sz + 28 \<le> k then [(sz + 8, True), (k - (sz + 8), False)] else [(k, True)]) @ bs"
      by blast
    show ?thesis
      by (intro exI [of _ "b # as"] exI [of _ k] exI [of _ bs]) (simp add: * q' b)
  qed
qed simp

lemma next_free_seg:
  assumes "seg h pv p xs" "blocks_ok xs" "p + tot xs = MEM_SIZE_ALIGNED"
    and "\<exists>m. h MEM_SIZE_ALIGNED = Some m \<and> used m"
  shows "next_free h p = Some (p + first_free xs)"
  using assms
proof (induction xs arbitrary: pv p)
  case Nil
  then show ?case by (subst next_free.simps) auto
next
  case (Cons b xs)
  obtain n u where b: "b = (n, u)" by (cases b)
  have "next_free h (p + n) = Some (p + n + first_free xs)"
    using Cons.prems b by (intro Cons.IH [of p]) auto
  then show ?case
    using Cons.prems b by (subst next_free.simps) auto
qed

lemma mem_scan_seg:
  assumes "seg (hdr st) pv p xs" "blocks_ok xs" "p + tot xs = MEM_SIZE_ALIGNED"
    and "sz \<le> MEM_SIZE_ALIGNED"
  shows "mem_scan sz st p =
    (case first_fit sz xs of
       None \<Rightarrow> Some (None, st)
     | Some (q, ys) \<Rightarrow> mem_take sz (p + q) (the (hdr st (p + q))) st)"
  using assms
proof (induction xs arbitrary: pv p)
  case Nil
  then have "\<not> p < MEM_SIZE_ALIGNED - sz" by simp
  then show ?case by (subst mem_scan.simps) simp
next
  case (Cons b xs)
  obtain n u where b: "b = (n, u)" by (cases b)
  have h: "hdr st p = Some \<lparr>nxt = p + n, prv = pv, used = u\<rparr>" and n: "20 \<le> n" "blocks_ok xs"
    "p + n + tot xs = MEM_SIZE_ALIGNED" "seg (hdr st) p (p + n) xs"
    using Cons.prems b by auto
  have us: "usub32 (p + n) (p + 8) = n - 8"
    using n by (subst usub32_small) (auto simp: mem_consts)
  have IH: "mem_scan sz st (p + n) =
    (case first_fit sz xs of None \<Rightarrow> Some (None, st)
     | Some (q, ys) \<Rightarrow> mem_take sz (p + n + q) (the (hdr st (p + n + q))) st)"
    by (rule Cons.IH [OF n(4,2,3) Cons.prems(4)])
  show ?case
  proof (cases "p < MEM_SIZE_ALIGNED - sz")
    case True
    then show ?thesis
      using n h b IH us
      by (subst mem_scan.simps) (auto simp: SIZEOF_STRUCT_MEM_def add.assoc split: option.splits)
  next
    case False
    have "first_fit sz ys = None" if "tot ys \<le> sz" for ys
      using that by (induction ys) auto
    moreover have "tot (b # xs) \<le> sz" using False Cons.prems by simp
    ultimately have "first_fit sz (b # xs) = None" by blast
    with False show ?thesis by (subst mem_scan.simps) simp
  qed
qed

lemma coalesced_append:
  "coalesced (as @ b # bs) \<longleftrightarrow>
     coalesced as \<and> coalesced bs \<and> (as \<noteq> [] \<longrightarrow> snd (last as) \<or> snd b) \<and>
     (bs \<noteq> [] \<longrightarrow> snd b \<or> snd (hd bs))"
  unfolding coalesced_def
  by (cases bs) (auto simp: successively_append_iff successively_Cons)

lemma coalesced_simps [simp]:
  "coalesced []" "coalesced (b # bs) \<longleftrightarrow> coalesced bs \<and> (bs \<noteq> [] \<longrightarrow> snd b \<or> snd (hd bs))"
  unfolding coalesced_def by (auto simp: successively_Cons)

lemma mem_take_rel:
  assumes rel: "heap_rel st (as @ (n, False) # bs)"
    and sz: "12 \<le> sz" "4 dvd sz" "sz + 8 \<le> n"
  shows "\<exists>st'. mem_take sz (tot as) (the (hdr st (tot as))) st = Some (Some (tot as + 8), st') \<and>
    heap_rel st' (as @ (if sz + 28 \<le> n then [(sz + 8, True), (n - (sz + 8), False)]
                        else [(n, True)]) @ bs)"
proof -
  let ?p = "tot as" and ?E = MEM_SIZE_ALIGNED
  let ?ys = "as @ (if sz + 28 \<le> n then [(sz + 8, True), (n - (sz + 8), False)] else [(n, True)]) @ bs"
  let ?m = "\<lparr>nxt = ?p + n, prv = last_pos 0 0 as, used = False\<rparr>"
  have segs: "seg (hdr st) 0 0 as" "hdr st ?p = Some ?m" "seg (hdr st) ?p (?p + n) bs"
    and T: "?p + n + tot bs = ?E" and ok: "blocks_ok as" "blocks_ok bs" "20 \<le> n" "4 dvd n"
    and co: "coalesced (as @ (n, False) # bs)"
    and fin: "\<exists>m. hdr st ?E = Some m \<and> used m \<and> nxt m = ?E"
    and lf: "lfree st = first_free (as @ (n, False) # bs)"
    using rel by (auto simp: heap_rel_def)
  have us: "usub32 (?p + n) (?p + 8) = n - 8"
    using T sz by (subst usub32_small) (auto simp: mem_consts)
  define st1 where "st1 = (if sz + 28 \<le> n
    then let h = (hdr st)(?p + 8 + sz \<mapsto> \<lparr>nxt = ?p + n, prv = ?p, used = False\<rparr>,
                          ?p \<mapsto> \<lparr>nxt = ?p + 8 + sz, prv = last_pos 0 0 as, used = True\<rparr>)
         in st\<lparr>hdr := (case bs of [] \<Rightarrow> h
                | (k, v) # _ \<Rightarrow> h(?p + n \<mapsto> \<lparr>nxt = ?p + n + k, prv = ?p + 8 + sz, used = v\<rparr>))\<rparr>
    else st\<lparr>hdr := (hdr st)(?p \<mapsto> ?m\<lparr>used := True\<rparr>)\<rparr>)"
  have seg1: "seg (hdr st1) 0 0 ?ys"
    using segs sz ok unfolding st1_def
    by (cases bs) (auto simp: Let_def last_pos_def add.assoc add.commute [of sz 8]
                    add.left_commute [of sz 8])
  have tot1: "tot ?ys = ?E" and ok1: "blocks_ok ?ys"
    using T ok sz by (auto simp: dvd_diff_nat)
  have co1: "coalesced ?ys"
    using co by (cases "sz + 28 \<le> n") (auto simp: coalesced_append)
  have fin1: "\<exists>m. hdr st1 ?E = Some m \<and> used m \<and> nxt m = ?E"
    using fin T ok sz unfolding st1_def by (cases bs) (auto simp: Let_def)
  have lf1: "lfree st1 = lfree st" by (simp add: st1_def Let_def)
  have step: "mem_take sz ?p (the (hdr st ?p)) st = (do {
     st' \<leftarrow> (if ?p = lfree st1
            then do { l \<leftarrow> next_free (hdr st1) (lfree st1); Some (st1\<lparr>lfree := l\<rparr>) } else Some st1);
     Some (Some (?p + 8), st') })"
  proof -
    have c: "(sz + SIZEOF_STRUCT_MEM + MIN_SIZE_ALIGNED \<le> n - 8) = (sz + 28 \<le> n)"
      and e: "(?p + n = ?E) = (bs = [])" and w: "sz + 28 \<le> n \<Longrightarrow> (?p + 8 + sz) mod 65536 = ?p + 8 + sz"
      using sz T ok by (cases bs; auto simp: mem_consts)+
    show ?thesis
      unfolding mem_take_def segs(2) option.sel mem_hdr.simps SIZEOF_STRUCT_MEM_def us
        c [unfolded SIZEOF_STRUCT_MEM_def] e
      using segs ok w by (cases "sz + 28 \<le> n"; cases bs)
        (auto simp: upd_hdr_def set_hdr_def Let_def st1_def)
  qed
  show ?thesis
  proof (cases "\<forall>b \<in> set as. snd b")
    case True
    let ?zs = "(if sz + 28 \<le> n then [(sz + 8, True), (n - (sz + 8), False)] else [(n, True)]) @ bs"
    have "next_free (hdr st1) ?p = Some (?p + first_free ?zs)"
      using seg1 ok1 tot1 fin1
      by (intro next_free_seg [where pv = "last_pos 0 0 as"]) auto
    then have "mem_take sz ?p (the (hdr st ?p)) st =
        Some (Some (?p + 8), st1\<lparr>lfree := ?p + first_free ?zs\<rparr>)"
      unfolding step using True lf lf1 by simp
    moreover have "heap_rel (st1\<lparr>lfree := ?p + first_free ?zs\<rparr>) ?ys"
      using seg1 tot1 ok1 co1 fin1 True unfolding heap_rel_def by simp
    ultimately show ?thesis by blast
  next
    case False
    then have "lfree st = first_free as" using lf by (auto simp del: first_free_simps)
    moreover have "first_free as < ?p" using False ok by (intro first_free_lt) auto
    ultimately have "mem_take sz ?p (the (hdr st ?p)) st = Some (Some (?p + 8), st1)"
      unfolding step lf1 by simp
    moreover have "heap_rel st1 ?ys"
      using seg1 tot1 ok1 co1 fin1 False lf1 \<open>lfree st = first_free as\<close>
      unfolding heap_rel_def by (simp only: first_free_append if_not_P [OF False] if_False simp_thms)
    ultimately show ?thesis by blast
  qed
qed

lemma mem_malloc_rel:
  assumes rel: "heap_rel st xs" and sz: "0 < sz"
  shows "case first_fit (adjust_size sz) xs of
      None \<Rightarrow> mem_malloc sz st = Some (None, st)
    | Some (q, ys) \<Rightarrow> \<exists>st'. mem_malloc sz st = Some (Some (q + SIZEOF_STRUCT_MEM), st') \<and> heap_rel st' ys"
proof -
  let ?sz = "adjust_size sz"
  let ?us = "takeWhile snd xs" and ?vs = "dropWhile snd xs"
  have xs: "xs = ?us @ ?vs" and us: "\<forall>b \<in> set ?us. snd b"
    by (simp_all add: set_takeWhileD [THEN conjunct2])
  note [simp del] = takeWhile_dropWhile_id
  have none: "first_fit ?sz xs = None" if "MEM_SIZE_ALIGNED < ?sz"
  proof (rule ccontr)
    assume "first_fit ?sz xs \<noteq> None"
    then obtain q ys where "first_fit ?sz xs = Some (q, ys)" by auto
    from first_fitD [OF this] obtain as n bs where "xs = as @ (n, False) # bs" "?sz + 8 \<le> n" by blast
    then show False using rel that by (auto simp: heap_rel_def)
  qed
  have seg: "seg (hdr st) (last_pos 0 0 ?us) (0 + tot ?us) ?vs" and bl: "blocks_ok ?vs"
    and T: "tot ?us + tot ?vs = MEM_SIZE_ALIGNED"
    using rel xs unfolding heap_rel_def by (metis seg_append, metis blocks_ok_simps(3), metis tot_simps(3))
  have lf: "lfree st = tot ?us"
    using rel by (simp add: heap_rel_def first_free_def)
  have ff: "first_fit ?sz xs = map_option (\<lambda>(p, ys). (tot ?us + p, ?us @ ys)) (first_fit ?sz ?vs)"
    by (subst xs, rule first_fit_used_prefix [OF us])
  have scan: "mem_scan ?sz st (lfree st) =
      (case first_fit ?sz xs of None \<Rightarrow> Some (None, st)
       | Some (q, ys) \<Rightarrow> mem_take ?sz q (the (hdr st q)) st)" if "?sz \<le> MEM_SIZE_ALIGNED"
    using mem_scan_seg [OF seg bl _ that] T
    by (simp add: lf ff split: option.splits)
  show ?thesis
  proof (cases "first_fit ?sz xs")
    case None
    then show ?thesis using scan sz by (simp add: mem_malloc_def Let_def)
  next
    case (Some r)
    obtain q ys where r: "r = (q, ys)" by (cases r)
    from first_fitD [OF Some [unfolded r]] obtain as n bs where
      *: "xs = as @ (n, False) # bs" "q = tot as" "?sz + 8 \<le> n"
      "ys = as @ (if ?sz + 28 \<le> n then [(?sz + 8, True), (n - (?sz + 8), False)] else [(n, True)]) @ bs"
      by blast
    have le: "\<not> MEM_SIZE_ALIGNED < ?sz" using none Some by auto
    obtain st' where "mem_take ?sz q (the (hdr st q)) st = Some (Some (q + 8), st')" "heap_rel st' ys"
      using mem_take_rel [OF rel [unfolded *(1)], of ?sz] *(2-4) adjust_size_ge [of sz]
        adjust_size_aligned [of sz]
      unfolding MIN_SIZE_ALIGNED_def by blast
    then show ?thesis
      using scan le sz Some r by (simp add: mem_malloc_def Let_def SIZEOF_STRUCT_MEM_def)
  qed
qed

subsection \<open>Freeing coalesces\<close>

definition merge_next :: "nat \<Rightarrow> layout \<Rightarrow> layout" where
  "merge_next n bs = (case bs of (k, False) # bs' \<Rightarrow> (n + k, False) # bs' | _ \<Rightarrow> (n, False) # bs)"

definition merge :: "layout \<Rightarrow> nat \<Rightarrow> layout \<Rightarrow> layout" where
  "merge as n bs =
     (if as \<noteq> [] \<and> \<not> snd (last as)
      then butlast as @ (fst (last as) + fst (hd (merge_next n bs)), False) # tl (merge_next n bs)
      else as @ merge_next n bs)"

text \<open>Everything of \<open>heap_rel\<close> but the coalescing, with the end of the heap spelt out.\<close>

definition heap_segs :: "mem_state \<Rightarrow> layout \<Rightarrow> bool" where
  "heap_segs st xs \<longleftrightarrow>
     seg (hdr st) 0 0 xs \<and> tot xs = MEM_SIZE_ALIGNED \<and> blocks_ok xs \<and>
     (\<exists>m. hdr st MEM_SIZE_ALIGNED = Some m \<and> used m \<and> nxt m = MEM_SIZE_ALIGNED)"

lemma heap_rel_segs:
  "heap_rel st xs \<longleftrightarrow> heap_segs st xs \<and> coalesced xs \<and> lfree st = first_free xs"
  by (auto simp: heap_rel_def heap_segs_def)

lemma plug_next_segs:
  assumes "heap_segs st (as @ (n, False) # bs)" "lfree st \<le> tot as"
  shows "\<exists>st'. plug_next (tot as) st = Some st' \<and> heap_segs st' (as @ merge_next n bs) \<and>
    lfree st' = lfree st"
proof (cases bs)
  case Nil
  then show ?thesis
    using assms unfolding heap_segs_def plug_next_def merge_next_def
    by (auto simp: Let_def)
next
  case (Cons b cs)
  obtain k v where b: "b = (k, v)" by (cases b)
  show ?thesis
  proof (cases v)
    case True
    then show ?thesis
      using assms Cons b unfolding heap_segs_def plug_next_def merge_next_def
      by (auto simp: Let_def)
  next
    case False
    then have "\<exists>m. hdr st (tot as + n + k) = Some m"
      using assms Cons b unfolding heap_segs_def by (cases cs) (auto simp: add.assoc)
    then show ?thesis
      using assms Cons b False unfolding heap_segs_def plug_next_def merge_next_def
      by (cases cs) (auto simp: Let_def upd_hdr_def set_hdr_def add.assoc last_pos_def)
  qed
qed


lemma plug_prev_segs:
  assumes "heap_segs st (as @ (n, False) # bs)" "lfree st \<le> tot as"
    and lf: "as \<noteq> [] \<Longrightarrow> \<not> snd (last as) \<Longrightarrow> lfree st < tot as"
  shows "\<exists>st'. plug_prev (tot as) st = Some st' \<and>
    heap_segs st' (if as \<noteq> [] \<and> \<not> snd (last as) then butlast as @ (fst (last as) + n, False) # bs
                   else as @ (n, False) # bs) \<and> lfree st' = lfree st"
proof (cases as rule: rev_cases)
  case Nil
  then show ?thesis
    using assms unfolding heap_segs_def plug_prev_def by (auto simp: Let_def)
next
  case (snoc cs b)
  obtain k v where b: "b = (k, v)" by (cases b)
  show ?thesis
  proof (cases v)
    case True
    then show ?thesis
      using assms snoc b unfolding heap_segs_def plug_prev_def by (auto simp: Let_def last_pos_def)
  next
    case False
    then have "\<exists>m. hdr st (tot as + n) = Some m"
      using assms snoc b unfolding heap_segs_def by (cases bs) (auto simp: add.assoc)
    then show ?thesis
      using assms snoc b False unfolding heap_segs_def plug_prev_def
      by (cases bs) (auto simp: Let_def upd_hdr_def set_hdr_def add.assoc last_pos_def)
  qed
qed

lemma merge_next_Cons: "\<exists>k cs. merge_next n bs = (k, False) # cs"
  by (auto simp: merge_next_def split: list.split bool.split)

lemma coalesced_merge:
  assumes "coalesced (as @ (n, True) # bs)"
  shows "coalesced (merge as n bs)"
  using assms by (cases bs; cases as rule: rev_cases)
    (auto simp: coalesced_append merge_def merge_next_def split: bool.splits)

lemma first_free_merge:
  "as \<noteq> [] \<Longrightarrow> \<not> snd (last as) \<Longrightarrow> first_free (merge as n bs) = first_free as"
  "as = [] \<or> snd (last as) \<Longrightarrow>
     first_free (merge as n bs) = (if \<forall>b \<in> set as. snd b then tot as else first_free as)"
  using merge_next_Cons [of n bs]
  by (cases as rule: rev_cases; auto simp: merge_def)+

lemma mem_free_rel:
  assumes rel: "heap_rel st (as @ (n, True) # bs)"
  shows "\<exists>st'. mem_free (Some (int (tot as + SIZEOF_STRUCT_MEM))) st = Some st' \<and>
    heap_rel st' (merge as n bs)"
proof -
  let ?p = "tot as"
  define st1 where "st1 =
    (let st' = st\<lparr>hdr := (hdr st)(?p \<mapsto> \<lparr>nxt = ?p + n, prv = last_pos 0 0 as, used = False\<rparr>)\<rparr>
     in if ?p < lfree st then st'\<lparr>lfree := ?p\<rparr> else st')"
  have h: "hdr st ?p = Some \<lparr>nxt = ?p + n, prv = last_pos 0 0 as, used = True\<rparr>"
    and T: "?p + n + tot bs = MEM_SIZE_ALIGNED" "20 \<le> n"
    and co: "coalesced (as @ (n, True) # bs)"
    using rel by (auto simp: heap_rel_def)
  have segs: "heap_segs st1 (as @ (n, False) # bs)"
    using rel T unfolding heap_rel_def heap_segs_def st1_def
    by (auto simp: Let_def add.assoc)
  have lf: "lfree st1 = (if \<forall>b \<in> set as. snd b then ?p else first_free as)"
    using rel first_free_le [of as] unfolding heap_rel_def st1_def
    by (auto simp: Let_def)
  have lfp: "as \<noteq> [] \<Longrightarrow> \<not> snd (last as) \<Longrightarrow> lfree st1 < ?p"
    using lf rel first_free_lt [of as] by (auto simp: heap_rel_def)
  have le: "lfree st1 \<le> ?p" using lf first_free_le [of as] by simp
  have run: "mem_free (Some (int (?p + SIZEOF_STRUCT_MEM))) st = plug_holes ?p st1"
  proof -
    have n: "nat (int (?p + 8)) - 8 = ?p" by simp
    show ?thesis
      using h T unfolding mem_free_def SIZEOF_STRUCT_MEM_def MEM_SIZE_ALIGNED_def Let_def option.case n
      by (simp add: upd_hdr_def set_hdr_def st1_def)
  qed
  obtain k cs where m: "merge_next n bs = (k, False) # cs" using merge_next_Cons by blast
  obtain st2 where st2: "plug_next ?p st1 = Some st2" "heap_segs st2 (as @ (k, False) # cs)"
    "lfree st2 = lfree st1"
    using plug_next_segs [OF segs le] m by auto
  obtain st3 where st3: "plug_prev ?p st2 = Some st3" "heap_segs st3 (merge as n bs)"
    "lfree st3 = lfree st1"
    using plug_prev_segs [OF st2(2)] le lfp st2(3)
    unfolding merge_def m list.sel fst_conv by auto
  have "lfree st3 = first_free (merge as n bs)"
    using lf st3(3) first_free_merge [of as n bs] last_in_set [of as]
    by (cases "as \<noteq> [] \<and> \<not> snd (last as)") auto
  then have "heap_rel st3 (merge as n bs)"
    using st3 coalesced_merge [OF co] by (simp add: heap_rel_segs)
  then show ?thesis
    using run st2 st3 by (simp add: plug_holes_def)
qed


subsection \<open>Shrinking\<close>

definition shrink :: "nat \<Rightarrow> nat \<Rightarrow> layout \<Rightarrow> layout" where
  "shrink sz n bs =
     (if sz + 8 = n then (n, True) # bs
      else case bs of
        (k, False) # cs \<Rightarrow> (sz + 8, True) # (n + k - (sz + 8), False) # cs
      | _ \<Rightarrow> if sz + 28 \<le> n then (sz + 8, True) # (n - (sz + 8), False) # bs
             else (n, True) # bs)"

lemma mem_realloc_rel:
  assumes rel: "heap_rel st (as @ (n, True) # bs)"
  shows "if n < adjust_size sz + 8
    then mem_realloc (int (tot as + SIZEOF_STRUCT_MEM)) sz st = Some (None, st)
    else \<exists>st'. mem_realloc (int (tot as + SIZEOF_STRUCT_MEM)) sz st =
           Some (Some (int (tot as + SIZEOF_STRUCT_MEM)), st') \<and>
         heap_rel st' (as @ shrink (adjust_size sz) n bs)"
proof -
  let ?p = "tot as" and ?s = "adjust_size sz" and ?E = MEM_SIZE_ALIGNED
  have h: "hdr st ?p = Some \<lparr>nxt = ?p + n, prv = last_pos 0 0 as, used = True\<rparr>"
    and T: "?p + n + tot bs = ?E" "20 \<le> n" and segb: "seg (hdr st) ?p (?p + n) bs"
    and co: "coalesced (as @ (n, True) # bs)" and ok: "blocks_ok as" "blocks_ok bs" "4 dvd n"
    and fin: "\<exists>m. hdr st ?E = Some m \<and> used m \<and> nxt m = ?E"
    and lf: "lfree st = first_free (as @ (n, True) # bs)"
    using rel by (auto simp: heap_rel_def)
  note s = adjust_size_ge [of sz, unfolded MIN_SIZE_ALIGNED_def] adjust_size_aligned [of sz]
  have n: "nat (int (?p + 8)) - 8 = ?p" by simp
  have us: "usub32 (?p + n) (?p + 8) mod 65536 = n - 8"
    using T by (subst usub32_small) (auto simp: mem_consts)
  show ?thesis
  proof (cases "n < ?s + 8")
    case True
    then show ?thesis
      using h T unfolding mem_realloc_def SIZEOF_STRUCT_MEM_def Let_def n
      by (auto simp: us MEM_SIZE_ALIGNED_def)
  next
    case False
    then have le: "?s + 8 \<le> n" "\<not> ?E < ?s" using T by auto
    have w: "(?p + 8 + ?s) mod 65536 = ?p + 8 + ?s" using T le by (simp add: MEM_SIZE_ALIGNED_def)
    note eqs = le(2) us w
    have run: "mem_realloc (int (?p + 8)) sz st =
      (if n - 8 < ?s then Some (None, st)
       else if ?s = n - 8 then Some (Some (int (?p + 8)), st)
       else do {
         m2 \<leftarrow> hdr st (?p + n);
         (if \<not> used m2
          then do {
            let st = (if lfree st = ?p + n then st\<lparr>lfree := ?p + 8 + ?s\<rparr> else st);
            let st = set_hdr (?p + 8 + ?s) \<lparr>nxt = nxt m2, prv = ?p, used = False\<rparr> st;
            st \<leftarrow> upd_hdr ?p (\<lambda>m. m\<lparr>nxt := ?p + 8 + ?s\<rparr>) st;
            st \<leftarrow> (if nxt m2 \<noteq> ?E then upd_hdr (nxt m2) (\<lambda>m. m\<lparr>prv := ?p + 8 + ?s\<rparr>) st else Some st);
            Some (Some (int (?p + 8)), st)
          }
          else if ?s + 8 + 12 \<le> n - 8
          then do {
            let st = (if ?p + 8 + ?s < lfree st then st\<lparr>lfree := ?p + 8 + ?s\<rparr> else st);
            let st = set_hdr (?p + 8 + ?s) \<lparr>nxt = ?p + n, prv = ?p, used = False\<rparr> st;
            st \<leftarrow> upd_hdr ?p (\<lambda>m. m\<lparr>nxt := ?p + 8 + ?s\<rparr>) st;
            st \<leftarrow> (if ?p + n \<noteq> ?E then upd_hdr (?p + n) (\<lambda>m. m\<lparr>prv := ?p + 8 + ?s\<rparr>) st else Some st);
            Some (Some (int (?p + 8)), st)
          }
          else Some (Some (int (?p + 8)), st))
       })"
    proof -
      have c: "\<not> (int (?p + 8) < 0 \<or> int ?E \<le> int (?p + 8))" "\<not> int (?p + 8) < int 8"
        using T by auto
      show ?thesis
        unfolding mem_realloc_def Let_def if_not_P [OF le(2)] SIZEOF_STRUCT_MEM_def MIN_SIZE_ALIGNED_def
          if_not_P [OF c(1)] if_not_P [OF c(2)] n h bind.bind_lunit mem_hdr.simps us w by (rule refl)
    qed
    let ?r = "Some (int (?p + 8))"
    have "\<exists>st'. mem_realloc (int (?p + 8)) sz st = Some (?r, st') \<and> heap_rel st' (as @ shrink ?s n bs)"
    proof (cases "?s = n - 8")
      case True
      then show ?thesis using rel T unfolding run by (auto simp: shrink_def)
    next
      case neq: False
      show ?thesis
      proof (cases "bs = [] \<or> snd (hd bs)")
        case True
        obtain m2 where m2: "hdr st (?p + n) = Some m2" "used m2"
          using True fin segb T by (cases bs) auto
        have e: "?p + n = ?E \<longleftrightarrow> bs = []" using T ok by (cases bs) auto
        have sh: "shrink ?s n bs = (if ?s + 28 \<le> n then (?s + 8, True) # (n - (?s + 8), False) # bs
            else (n, True) # bs)"
          using True neq le by (auto simp: shrink_def split: list.split bool.split)
        show ?thesis
        proof (cases "?s + 28 \<le> n")
          case False
          then have "\<not> ?s + 8 + 12 \<le> n - 8" "\<not> n - 8 < ?s" using le by auto
          then show ?thesis using rel m2 neq False unfolding run sh by simp
        next
          case big: True
          show ?thesis
            using h T segb co ok fin lf s big m2 rel e True first_free_le [of as] unfolding run sh
            by (cases bs) (auto simp: upd_hdr_def set_hdr_def Let_def heap_rel_def coalesced_append
                dvd_diff_nat last_pos_def add.assoc)
        qed
      next
        case False
        then obtain k cs where bs: "bs = (k, False) # cs" by (cases bs) auto
        let ?ys = "as @ (?s + 8, True) # (n + k - (?s + 8), False) # cs"
        have sh: "shrink ?s n bs = (?s + 8, True) # (n + k - (?s + 8), False) # cs"
          using neq le by (auto simp: shrink_def bs)
        have hk: "hdr st (?p + n) = Some \<lparr>nxt = ?p + n + k, prv = ?p, used = False\<rparr>"
          and segc: "seg (hdr st) (?p + n) (?p + n + k) cs" and k: "20 \<le> k" "4 dvd k" "blocks_ok cs"
          and e: "?p + n + k = ?E \<longleftrightarrow> cs = []" and Tc: "?p + n + k + tot cs = ?E"
          using segb ok T bs by (cases cs; auto)+
        have lfv: "lfree st = (if \<forall>b \<in> set as. snd b then ?p + n else first_free as)"
          using lf bs by simp
        have lf2: "(if lfree st = ?p + n then ?p + 8 + ?s else lfree st) = first_free ?ys"
          using first_free_le [of as] T unfolding lfv by simp
        define st1 where "st1 = \<lparr>hdr =
           (let h = (hdr st)(?p + 8 + ?s \<mapsto> \<lparr>nxt = ?p + n + k, prv = ?p, used = False\<rparr>,
                  ?p \<mapsto> \<lparr>nxt = ?p + 8 + ?s, prv = last_pos 0 0 as, used = True\<rparr>)
            in case cs of [] \<Rightarrow> h
               | (i, v) # _ \<Rightarrow> h(?p + n + k \<mapsto> \<lparr>nxt = ?p + n + k + i, prv = ?p + 8 + ?s, used = v\<rparr>)),
           lfree = first_free ?ys\<rparr>"
        have "seg (hdr st1) 0 0 ?ys"
          using rel segc T Tc ok k le s unfolding heap_rel_def st1_def
          by (cases cs) (auto simp: Let_def last_pos_def add_ac)
        moreover have "tot ?ys = ?E" "blocks_ok ?ys"
          using T Tc ok k le s bs by (auto simp: dvd_diff_nat)
        moreover have "coalesced ?ys" using co bs by (auto simp: coalesced_append)
        moreover have "\<exists>m. hdr st1 ?E = Some m \<and> used m \<and> nxt m = ?E"
          using fin T Tc ok k le unfolding st1_def by (cases cs) (auto simp: Let_def)
        ultimately have "heap_rel st1 ?ys" unfolding heap_rel_def by (simp add: st1_def)
        moreover have "mem_realloc (int (?p + 8)) sz st = Some (?r, st1)"
          using h hk segc le k neq lf2 unfolding run
          by (cases cs) (auto simp: upd_hdr_def set_hdr_def Let_def e st1_def simp del: first_free_append)
        ultimately show ?thesis unfolding sh by blast
      qed
    qed
    with le show ?thesis by (simp add: SIZEOF_STRUCT_MEM_def)
  qed
qed


subsection \<open>The heap as an allocator\<close>

text \<open>Reading the layout back from the headers, and the live blocks with their footprints.\<close>

partial_function (option) mem_walk :: "(nat \<rightharpoonup> mem_hdr) \<Rightarrow> nat \<Rightarrow> layout option" where
  "mem_walk h p =
     (if p = MEM_SIZE_ALIGNED then Some []
      else case h p of
        None \<Rightarrow> None
      | Some m \<Rightarrow> do { xs \<leftarrow> mem_walk h (nxt m); Some ((nxt m - p, used m) # xs) })"

fun live_of :: "nat \<Rightarrow> layout \<Rightarrow> nat \<Rightarrow> nat set option" where
  "live_of p [] q = None"
| "live_of p ((n, u) # xs) q =
     (if u \<and> q = p + 8 then Some {p + 8..<p + n} else live_of (p + n) xs q)"

definition mem_ok :: "mem_state \<Rightarrow> bool" where
  "mem_ok st = (case mem_walk (hdr st) 0 of None \<Rightarrow> False | Some xs \<Rightarrow> heap_rel st xs)"

definition mem_live :: "mem_state \<Rightarrow> nat \<Rightarrow> nat set option" where
  "mem_live st = (case mem_walk (hdr st) 0 of None \<Rightarrow> (\<lambda>_. None) | Some xs \<Rightarrow> live_of 0 xs)"

definition mem_fits :: "nat \<Rightarrow> nat \<Rightarrow> nat set \<Rightarrow> bool" where
  "mem_fits sz p F \<longleftrightarrow>
     (sz \<le> 65532 \<longrightarrow> 4 dvd p \<and> {p..<p + sz} \<subseteq> F \<and> F \<subseteq> {SIZEOF_STRUCT_MEM..<MEM_SIZE_ALIGNED})"

definition mem_release :: "nat \<Rightarrow> mem_state \<Rightarrow> mem_state option" where
  "mem_release p = mem_free (Some (int p))"

lemma mem_walk_seg:
  "seg h pv p xs \<Longrightarrow> blocks_ok xs \<Longrightarrow> p + tot xs = MEM_SIZE_ALIGNED \<Longrightarrow> mem_walk h p = Some xs"
proof (induction xs arbitrary: pv p)
  case Nil
  then show ?case by (subst mem_walk.simps) simp
next
  case (Cons b xs)
  obtain n u where b: "b = (n, u)" by (cases b)
  have "mem_walk h (p + n) = Some xs"
    using Cons.prems b by (intro Cons.IH [of p]) auto
  then show ?case using Cons.prems b by (subst mem_walk.simps) auto
qed

lemma heap_rel_walk: "heap_rel st xs \<Longrightarrow> mem_walk (hdr st) 0 = Some xs"
  unfolding heap_rel_def by (auto intro: mem_walk_seg)

lemma heap_rel_live: "heap_rel st xs \<Longrightarrow> mem_live st = live_of 0 xs"
  by (simp add: mem_live_def heap_rel_walk)

lemma mem_ok_rel: "mem_ok st \<longleftrightarrow> (\<exists>xs. heap_rel st xs)"
  by (auto simp: mem_ok_def heap_rel_walk split: option.splits)

lemma live_of_append:
  "live_of p (xs @ ys) q =
     (case live_of p xs q of None \<Rightarrow> live_of (p + tot xs) ys q | Some F \<Rightarrow> Some F)"
  by (induction p xs q rule: live_of.induct) (auto simp: add.assoc split: option.split)

lemma live_of_bounds:
  "live_of p xs q = Some F \<Longrightarrow> blocks_ok xs \<Longrightarrow> p + 8 \<le> q \<and> q < p + tot xs \<and> F \<subseteq> {p + 8..<p + tot xs}"
proof (induction p xs q rule: live_of.induct)
  case (2 p n u xs q)
  then show ?case by (cases "u \<and> q = p + 8") force+
qed simp

lemma live_of_outside:
  "blocks_ok xs \<Longrightarrow> q < p + 8 \<or> p + tot xs \<le> q \<Longrightarrow> live_of p xs q = None"
  using live_of_bounds [of p xs q] by (cases "live_of p xs q") auto

lemma live_of_Some:
  "live_of p xs q = Some F \<Longrightarrow>
   \<exists>as n bs. xs = as @ (n, True) # bs \<and> q = p + tot as + 8 \<and> F = {q..<p + tot as + n}"
proof (induction p xs q rule: live_of.induct)
  case (2 p n u xs q)
  show ?case
  proof (cases "u \<and> q = p + 8")
    case True
    then show ?thesis using 2 by (intro exI [of _ "[]"]) auto
  next
    case False
    then obtain as k bs where "xs = as @ (k, True) # bs" "q = p + n + tot as + 8"
      "F = {q..<p + n + tot as + k}"
      using 2 by auto
    then show ?thesis by (intro exI [of _ "(n, u) # as"]) auto
  qed
qed simp

lemma live_of_split:
  assumes "blocks_ok (as @ ys @ bs)"
  shows "live_of 0 (as @ ys @ bs) q =
    (if q < tot as then live_of 0 as q
     else if q < tot as + tot ys then live_of (tot as) ys q else live_of (tot as + tot ys) bs q)"
  using assms live_of_outside [of as q 0] live_of_outside [of ys q "tot as"]
    live_of_outside [of bs q "tot as + tot ys"]
  by (auto simp: live_of_append split: option.splits)


lemma live_first_fit:
  assumes ok: "blocks_ok xs" and ff: "first_fit sz xs = Some (q, ys)" and sz: "12 \<le> sz" "4 dvd sz"
  shows "live_of 0 xs (q + 8) = None"
    and "\<exists>F. live_of 0 ys = (live_of 0 xs)(q + 8 \<mapsto> F) \<and> {q + 8..<q + 8 + sz} \<subseteq> F \<and>
      F \<subseteq> {q + 8..<tot xs} \<and> (\<forall>p' G. live_of 0 xs p' = Some G \<longrightarrow> F \<inter> G = {}) \<and> 4 dvd q"
proof -
  from first_fitD [OF ff] obtain as n bs where *: "xs = as @ [(n, False)] @ bs" "q = tot as" "sz + 8 \<le> n"
    "ys = as @ (if sz + 28 \<le> n then [(sz + 8, True), (n - (sz + 8), False)] else [(n, True)]) @ bs"
    by auto
  let ?mid = "if sz + 28 \<le> n then [(sz + 8, True), (n - (sz + 8), False)] else [(n, True)]"
  let ?F = "if sz + 28 \<le> n then {q + 8..<q + 8 + sz} else {q + 8..<q + n}"
  have oky: "blocks_ok (as @ ?mid @ bs)" using ok * sz by (auto simp: dvd_diff_nat)
  have okx: "blocks_ok (as @ [(n, False)] @ bs)" using ok * by simp
  have n: "20 \<le> n" using okx by simp
  have tm: "tot ?mid = n" using *(3) by simp
  have lm: "live_of (tot as) ?mid r = (if r = tot as + 8 then Some ?F else None)" for r
    using *(2,3) by auto
  have live: "live_of 0 ys = (live_of 0 xs)(q + 8 \<mapsto> ?F)"
    unfolding *(1,4)
    by (rule ext) (unfold fun_upd_apply live_of_split [OF oky] live_of_split [OF okx] tm lm,
        use n *(2) in simp)
  show "live_of 0 xs (q + 8) = None"
    unfolding *(1) live_of_split [OF okx] using n *(2) by simp
  have disj: "?F \<inter> G = {}" if "live_of 0 xs p' = Some G" for p' G
  proof -
    have "(p' < tot as \<and> live_of 0 as p' = Some G) \<or> live_of (tot as + n) bs p' = Some G"
      using that unfolding *(1) live_of_split [OF okx] by (auto split: if_splits)
    then have "G \<subseteq> {..<tot as} \<or> G \<subseteq> {tot as + n..}"
      using live_of_bounds [of 0 as p' G] live_of_bounds [of "tot as + n" bs p' G] okx by force
    then show ?thesis using *(2,3) by (auto split: if_splits)
  qed
  have "4 dvd tot as" using okx by (induction as) auto
  then show "\<exists>F. live_of 0 ys = (live_of 0 xs)(q + 8 \<mapsto> F) \<and> {q + 8..<q + 8 + sz} \<subseteq> F \<and>
      F \<subseteq> {q + 8..<tot xs} \<and> (\<forall>p' G. live_of 0 xs p' = Some G \<longrightarrow> F \<inter> G = {}) \<and> 4 dvd q"
    using live disj *(1-3) by (intro exI [of _ ?F]) auto
qed

lemma live_merge:
  assumes "blocks_ok (as @ (n, True) # bs)"
  shows "live_of 0 (merge as n bs) = (live_of 0 (as @ (n, True) # bs))(tot as + 8 := None)"
proof -
  have out: "live_of (tot as + n) bs (tot as + 8) = None" "live_of 0 as (tot as + 8) = None"
    using assms by (auto intro!: live_of_outside)
  have mn: "live_of p (merge_next n bs) q = live_of (p + n) bs q" for p q
    by (auto simp: merge_next_def add.assoc split: list.split bool.split)
  obtain k cs where m: "merge_next n bs = (k, False) # cs" using merge_next_Cons by blast
  have mn': "live_of (p + k) cs q = live_of (p + n) bs q" for p q
    using mn [of p q] by (simp add: m)
  have "live_of 0 (merge as n bs) q =
      (case live_of 0 as q of None \<Rightarrow> live_of (tot as + n) bs q | Some F \<Rightarrow> Some F)" for q
    by (cases as rule: rev_cases)
       (auto simp: merge_def m live_of_append mn' mn' [of 0, simplified] add.assoc [symmetric] split: option.split)
  then show ?thesis
    using out by (auto simp: fun_eq_iff live_of_append split: option.split)
qed

lemma adjust_size_cover: "sz \<le> 65532 \<Longrightarrow> {p..<p + adjust_size sz} \<subseteq> F \<Longrightarrow> {p..<p + sz} \<subseteq> F"
  using adjust_size_covers [of sz] by (auto simp: subset_iff)

interpretation mem: allocator mem_ok mem_live mem_malloc mem_release mem_fits
proof (unfold_locales, goal_cases)
  case (1 s q)
  then obtain xs where rel: "heap_rel s xs" by (auto simp: mem_ok_rel)
  show ?case
  proof (cases "q = 0")
    case True
    then show ?thesis using 1 by (simp add: mem_malloc_def)
  next
    case False
    have ok: "blocks_ok xs" "tot xs = MEM_SIZE_ALIGNED" using rel by (auto simp: heap_rel_def)
    show ?thesis
    proof (cases "first_fit (adjust_size q) xs")
      case None
      then show ?thesis using 1 mem_malloc_rel [OF rel, of q] False by auto
    next
      case (Some r)
      obtain a ys where r: "r = (a, ys)" by (cases r)
      obtain s' where s': "mem_malloc q s = Some (Some (a + 8), s')" "heap_rel s' ys"
        using mem_malloc_rel [OF rel, of q] False Some r by (auto simp: SIZEOF_STRUCT_MEM_def)
      note l = live_first_fit [OF ok(1) Some [unfolded r] adjust_size_ge [unfolded MIN_SIZE_ALIGNED_def]
          adjust_size_aligned]
      from l(2) obtain F where F: "live_of 0 ys = (live_of 0 xs)(a + 8 \<mapsto> F)"
        "{a + 8..<a + 8 + adjust_size q} \<subseteq> F" "F \<subseteq> {a + 8..<tot xs}"
        "\<forall>p' G. live_of 0 xs p' = Some G \<longrightarrow> F \<inter> G = {}" "4 dvd a" by blast
      have "mem_fits q (a + 8) F"
        using F(2,3,5) ok adjust_size_cover [of q "a + 8" F]
        unfolding mem_fits_def SIZEOF_STRUCT_MEM_def by (auto simp: dvd_add)
      moreover have "mem_ok s'" using s'(2) by (auto simp: mem_ok_rel)
      ultimately show ?thesis
        using s' F(1,4) l(1) heap_rel_live [OF rel] heap_rel_live [OF s'(2)] by auto
    qed
  qed
next
  case (2 s p)
  then obtain xs where rel: "heap_rel s xs" by (auto simp: mem_ok_rel)
  then obtain F where "live_of 0 xs p = Some F" using 2 by (auto simp: heap_rel_live)
  from live_of_Some [OF this] obtain as n bs where *: "xs = as @ (n, True) # bs" "p = tot as + 8"
    by auto
  from mem_free_rel [OF rel [unfolded *(1)]] obtain s' where
    s': "mem_release p s = Some s'" "heap_rel s' (merge as n bs)"
    by (auto simp: mem_release_def *(2) SIZEOF_STRUCT_MEM_def)
  have "blocks_ok (as @ (n, True) # bs)" using rel * by (simp add: heap_rel_def)
  from live_merge [OF this] show ?case
    using s' rel heap_rel_live [OF s'(2)] heap_rel_live [OF rel] * by (auto simp: mem_ok_rel)
qed

lemma mem_init_ok: "mem.held_ok [] mem_init"
  using mem_init_rel by (auto simp: mem.held_ok_def mem_ok_rel heap_rel_live)

text \<open>A heap without live blocks is one free block again.\<close>

lemma heap_rel_no_live:
  assumes "heap_rel st xs" "mem_live st = Map.empty"
  shows "xs = [(MEM_SIZE_ALIGNED, False)]"
proof -
  have free: "\<not> snd b" if mem: "b \<in> set xs" for b
  proof
    assume "snd b"
    then obtain as n bs where xs: "xs = as @ (n, True) # bs"
      using split_list [OF mem] by (metis (full_types) prod.collapse)
    have "live_of 0 as (tot as + 8) = None"
      using assms(1) by (intro live_of_outside) (auto simp: xs heap_rel_def)
    then have "live_of 0 xs (tot as + 8) = Some {tot as + 8..<tot as + n}"
      by (simp add: xs live_of_append)
    then show False using assms heap_rel_live by (metis option.distinct(1))
  qed
  have "coalesced xs" "tot xs = MEM_SIZE_ALIGNED" using assms(1) by (auto simp: heap_rel_def)
  then show ?thesis
  proof (cases xs)
    case (Cons b ys)
    then have "ys = []" using \<open>coalesced xs\<close> free by (cases ys) auto
    then show ?thesis using Cons free [of b] \<open>tot xs = _\<close> by (cases b) auto
  qed (simp add: MEM_SIZE_ALIGNED_def)
qed


subsection \<open>Properties\<close>

text \<open>
  C9. \<open>mem_malloc\<close> is first fit on the layout: it takes the lowest free block that holds the
  adjusted size, splits it when a block of the minimal size is left over, and keeps the heap well
  formed; it returns \<open>NULL\<close>, with the heap unchanged, exactly when no free block is large enough.
\<close>
theorem mem_malloc_first_fit:
  assumes "heap_rel st xs" and "0 < sz"
  shows "case first_fit (adjust_size sz) xs of
      None \<Rightarrow> mem_malloc sz st = Some (None, st)
    | Some (q, ys) \<Rightarrow> \<exists>st'. mem_malloc sz st = Some (Some (q + SIZEOF_STRUCT_MEM), st') \<and> heap_rel st' ys"
  by (rule mem_malloc_rel [OF assms])

theorem mem_malloc_first_fit_witness:
  "\<exists>st'. mem_malloc 10 mem_init = Some (Some 8, st') \<and> heap_rel st' [(20, True), (20460, False)]"
  using mem_malloc_first_fit [OF mem_init_rel, of 10]
  by (simp add: mem_consts adjust_size_def LWIP_MEM_ALIGN_SIZE_def)

text \<open>
  C10. \<open>mem_free\<close> of a used block marks it free and merges it with a free neighbour on either
  side, so that no two free blocks are ever adjacent; \<open>lfree\<close> stays the lowest free block.
\<close>
theorem mem_free_coalesces:
  assumes "heap_rel st (as @ (n, True) # bs)"
  shows "\<exists>st'. mem_free (Some (int (tot as + SIZEOF_STRUCT_MEM))) st = Some st' \<and>
    heap_rel st' (merge as n bs)"
  by (rule mem_free_rel [OF assms])

theorem mem_free_coalesces_witness:
  "\<exists>st'. (do { (_, st) \<leftarrow> mem_malloc 10 mem_init; mem_free (Some 8) st }) = Some st' \<and>
     heap_rel st' [(20480, False)]"
proof -
  have "first_fit (adjust_size 10) [(MEM_SIZE_ALIGNED, False)] =
      Some (0, [(20, True), (20460, False)])"
    by (simp add: mem_consts adjust_size_def LWIP_MEM_ALIGN_SIZE_def)
  then obtain st where st: "mem_malloc 10 mem_init = Some (Some 8, st)"
    "heap_rel st ([] @ (20, True) # [(20460, False)])"
    using mem_malloc_rel [OF mem_init_rel, of 10] by (auto simp: SIZEOF_STRUCT_MEM_def)
  from mem_free_coalesces [OF st(2)] st(1) show ?thesis
    by (simp add: SIZEOF_STRUCT_MEM_def merge_def merge_next_def)
qed

text \<open>
  \<open>mem_realloc\<close> never moves a block: asked for more than the block holds it returns \<open>NULL\<close>
  and changes nothing; otherwise it returns the same pointer and gives the tail back, to the free
  block that follows or as a new free block when the tail is large enough for one.
\<close>
lemma mem_realloc_shrinks:
  assumes "heap_rel st (as @ (n, True) # bs)"
  shows "if n < adjust_size sz + 8
    then mem_realloc (int (tot as + SIZEOF_STRUCT_MEM)) sz st = Some (None, st)
    else \<exists>st'. mem_realloc (int (tot as + SIZEOF_STRUCT_MEM)) sz st =
           Some (Some (int (tot as + SIZEOF_STRUCT_MEM)), st') \<and>
         heap_rel st' (as @ shrink (adjust_size sz) n bs)"
  by (rule mem_realloc_rel [OF assms])

text \<open>
  A block that is allocated and freed again leaves no trace: the layout, and with it the
  lowest free block, is the one before the allocation.
\<close>
lemma mem_malloc_free_roundtrip:
  assumes rel: "heap_rel st xs" and m: "mem_malloc sz st = Some (Some p, st1)"
  shows "\<exists>st2. mem_free (Some (int p)) st1 = Some st2 \<and> heap_rel st2 xs"
proof -
  have sz: "0 < sz" using m by (cases "sz = 0") (auto simp: mem_malloc_def)
  obtain q ys where ff: "first_fit (adjust_size sz) xs = Some (q, ys)"
    using mem_malloc_rel [OF rel sz] m by (cases "first_fit (adjust_size sz) xs") auto
  then have p: "p = q + SIZEOF_STRUCT_MEM" "heap_rel st1 ys"
    using mem_malloc_rel [OF rel sz] m by auto
  from first_fitD [OF ff] obtain as n bs where *: "xs = as @ (n, False) # bs" "q = tot as"
    "adjust_size sz + 8 \<le> n"
    "ys = as @ (if adjust_size sz + 28 \<le> n
       then [(adjust_size sz + 8, True), (n - (adjust_size sz + 8), False)] else [(n, True)]) @ bs"
    by blast
  have nb: "as \<noteq> [] \<Longrightarrow> snd (last as)" "bs \<noteq> [] \<Longrightarrow> snd (hd bs)"
    using rel *(1) by (auto simp: heap_rel_def coalesced_append)
  then have mn: "merge_next n bs = (n, False) # bs"
    by (auto simp: merge_next_def split: list.split bool.split)
  show ?thesis
  proof (cases "adjust_size sz + 28 \<le> n")
    case True
    have "merge as (adjust_size sz + 8) ((n - (adjust_size sz + 8), False) # bs) = xs"
      using nb(1) True *(1) by (auto simp: merge_def merge_next_def)
    then show ?thesis
      using mem_free_rel [of st1 as "adjust_size sz + 8" "(n - (adjust_size sz + 8), False) # bs"]
        p * True by simp
  next
    case False
    have "merge as n bs = xs" using nb(1) *(1) by (auto simp: merge_def mn)
    then show ?thesis using mem_free_rel [of st1 as n bs] p * False by simp
  qed
qed

text \<open>
  C8. Any client that frees only what it holds runs to the end from the initial heap, whatever
  the order of its requests: the heap stays well formed, the blocks it holds are distinct and
  pairwise disjoint, each is aligned, inside the heap and at least as long as requested (up to
  65532 bytes), and once it holds nothing the heap is one free block again.
\<close>
theorem mem_clients_disjoint:
  "\<exists>held st. alloc_run mem_malloc mem_release ops [] mem_init = Some (held, st) \<and> mem_ok st \<and>
     distinct (map fst held) \<and>
     (\<forall>p F p' G. mem_live st p = Some F \<and> mem_live st p' = Some G \<and> p \<noteq> p' \<longrightarrow> F \<inter> G = {}) \<and>
     (\<forall>(p, sz) \<in> set held. \<exists>F. mem_live st p = Some F \<and> mem_fits sz p F) \<and>
     (held = [] \<longrightarrow> heap_rel st [(MEM_SIZE_ALIGNED, False)])"
proof -
  from mem.alloc_run_ok [OF mem_init_ok, of ops]
  obtain held st where run: "alloc_run mem_malloc mem_release ops [] mem_init = Some (held, st)"
    and ok: "mem.held_ok held st"
    and dom: "dom (mem_live st) - fst ` set held = dom (mem_live mem_init)"
    by auto
  have "mem_live mem_init = Map.empty"
    by (simp add: heap_rel_live [OF mem_init_rel] fun_eq_iff)
  then have "held = [] \<Longrightarrow> heap_rel st [(MEM_SIZE_ALIGNED, False)]"
    using dom ok heap_rel_no_live by (fastforce simp: mem.held_ok_def mem_ok_rel)
  moreover have "F \<inter> G = {}" if "mem_live st p = Some F \<and> mem_live st p' = Some G \<and> p \<noteq> p'"
    for p F p' G
    using that ok unfolding mem.held_ok_def by metis
  ultimately show ?thesis
    using run ok unfolding mem.held_ok_def by (intro exI [of _ held] exI [of _ st] conjI allI impI) simp_all
qed

theorem mem_clients_disjoint_witness:
  "\<exists>held st. alloc_run mem_malloc mem_release [Alloc 100, Alloc 1500, Release 1] [] mem_init =
     Some (held, st) \<and> mem_ok st"
  using mem_clients_disjoint [of "[Alloc 100, Alloc 1500, Release 1]"] by blast

text \<open>
  The size arithmetic is in 16 bits: a request of 65533 to 65535 bytes is rounded up to 0,
  then raised to the minimal block, so \<open>mem_malloc\<close> returns a 12-byte block instead of \<open>NULL\<close>;
  and \<open>mem_calloc\<close> of 257 objects of 257 bytes allocates 516 bytes but clears 66049.
\<close>
lemma mem_size_wraps:
  "(\<exists>st. mem_malloc 65535 mem_init = Some (Some 8, st) \<and> mem_live st 8 = Some {8..<20}) \<and>
   (\<exists>st. mem_calloc 257 257 mem_init = Some (Some 8, 66049, st) \<and> mem_live st 8 = Some {8..<524})"
proof -
  have "first_fit (adjust_size 65535) [(MEM_SIZE_ALIGNED, False)] =
      Some (0, [(20, True), (20460, False)])"
    "first_fit (adjust_size 513) [(MEM_SIZE_ALIGNED, False)] =
      Some (0, [(524, True), (19956, False)])"
    by (simp_all add: mem_consts adjust_size_def LWIP_MEM_ALIGN_SIZE_def)
  then obtain st st' where st: "mem_malloc 65535 mem_init = Some (Some 8, st)"
    "heap_rel st [(20, True), (20460, False)]"
    and st': "mem_malloc 513 mem_init = Some (Some 8, st')"
    "heap_rel st' [(524, True), (19956, False)]"
    using mem_malloc_rel [OF mem_init_rel, of 65535] mem_malloc_rel [OF mem_init_rel, of 513]
    by (auto simp: SIZEOF_STRUCT_MEM_def)
  then show ?thesis by (simp add: heap_rel_live mem_calloc_def)
qed

end
