(* ===== verification/Ring.thy ===== *)
theory Ring
  imports Prelude
begin

text \<open>
  The contract of a descriptor ring shared by a producer and a consumer (the DMA rings of the
  Ethernet controller): \<open>N\<close> slots, a produce and a consume index, full when the produce index
  is one behind the consume index.  \<open>val\<close> is what a producer's request puts in the slot.  Inside the locale, the slots between the indices are shown
  to be a FIFO queue for every interleaving of the two sides.
\<close>

definition ring_idx :: "nat \<Rightarrow> nat \<Rightarrow> nat \<Rightarrow> nat list" where
  "ring_idx N c p = (if c \<le> p then [c..<p] else [c..<N] @ [0..<p])"

lemma ring_idx_empty [simp]: "ring_idx N c c = []"
  by (simp add: ring_idx_def)

lemma ring_idx_less: "c < N \<Longrightarrow> p < N \<Longrightarrow> i \<in> set (ring_idx N c p) \<Longrightarrow> i < N \<and> i \<noteq> p"
  by (auto simp: ring_idx_def split: if_splits)

lemma ring_idx_put:
  assumes "c < N" "p < N" "(p + 1) mod N \<noteq> c"
  shows "ring_idx N c ((p + 1) mod N) = ring_idx N c p @ [p]"
proof (cases "p + 1 = N")
  case True
  then have c: "0 < c" "c \<le> p" using assms by auto
  have "[c..<N] = [c..<p] @ [p]" using c True by (metis Suc_eq_plus1 upt_Suc_append)
  then show ?thesis using c True by (simp add: ring_idx_def)
next
  case False
  then have "p + 1 < N" using assms by simp
  then show ?thesis using assms by (auto simp: ring_idx_def)
qed

lemma ring_idx_get:
  assumes "c < N" "p < N" "p \<noteq> c"
  shows "ring_idx N c p = c # ring_idx N ((c + 1) mod N) p"
proof (cases "c + 1 = N")
  case True
  then have "p < c" using assms by simp
  then show ?thesis using True assms by (auto simp: ring_idx_def upt_conv_Cons)
next
  case False
  then have "c + 1 < N" using assms by simp
  then show ?thesis using assms by (auto simp: ring_idx_def upt_conv_Cons)
qed

locale desc_ring =
  fixes N :: nat
    and inv :: "'s \<Rightarrow> bool"
    and pidx :: "'s \<Rightarrow> nat"
    and cidx :: "'s \<Rightarrow> nat"
    and slot :: "'s \<Rightarrow> nat \<Rightarrow> 'x"
    and fits :: "'i \<Rightarrow> bool"
    and val :: "'i \<Rightarrow> 'x"
    and put :: "'i \<Rightarrow> 's \<Rightarrow> 's option"
    and get :: "'s \<Rightarrow> 's"
  assumes bounds: "inv s \<Longrightarrow> pidx s < N \<and> cidx s < N"
    and put_law: "inv s \<Longrightarrow> fits x \<Longrightarrow> (pidx s + 1) mod N \<noteq> cidx s \<Longrightarrow>
      \<exists>s'. put x s = Some s' \<and> inv s' \<and> pidx s' = (pidx s + 1) mod N \<and> cidx s' = cidx s \<and>
        slot s' (pidx s) = val x \<and> (\<forall>i < N. i \<noteq> pidx s \<longrightarrow> slot s' i = slot s i)"
    and get_law: "inv s \<Longrightarrow> pidx s \<noteq> cidx s \<Longrightarrow>
      inv (get s) \<and> pidx (get s) = pidx s \<and> cidx (get s) = (cidx s + 1) mod N \<and>
      (\<forall>i < N. slot (get s) i = slot s i)"
begin

definition queue :: "'s \<Rightarrow> 'x list" where
  "queue s = map (slot s) (ring_idx N (cidx s) (pidx s))"

lemma queue_put:
  assumes "inv s" "fits x" "(pidx s + 1) mod N \<noteq> cidx s"
  shows "\<exists>s'. put x s = Some s' \<and> inv s' \<and> queue s' = queue s @ [val x]"
proof -
  obtain s' where s': "put x s = Some s'" "inv s'" "pidx s' = (pidx s + 1) mod N" "cidx s' = cidx s"
    "slot s' (pidx s) = val x" "\<forall>i < N. i \<noteq> pidx s \<longrightarrow> slot s' i = slot s i"
    using put_law [OF assms] by blast
  have "ring_idx N (cidx s) ((pidx s + 1) mod N) = ring_idx N (cidx s) (pidx s) @ [pidx s]"
    using bounds [OF assms(1)] assms(3) by (intro ring_idx_put) auto
  moreover have "map (slot s') (ring_idx N (cidx s) (pidx s)) = map (slot s) (ring_idx N (cidx s) (pidx s))"
    using bounds [OF assms(1)] s'(6) by (auto dest: ring_idx_less)
  ultimately show ?thesis using s' by (auto simp: queue_def)
qed

lemma queue_get:
  assumes "inv s" "pidx s \<noteq> cidx s"
  shows "inv (get s)" "queue s = slot s (cidx s) # queue (get s)"
proof -
  note g = get_law [OF assms] and b = bounds [OF assms(1)]
  show "inv (get s)" using g by simp
  have "(cidx s + 1) mod N < N" using b by (cases N) auto
  from ring_idx_less [OF this] have "map (slot (get s)) (ring_idx N ((cidx s + 1) mod N) (pidx s)) =
      map (slot s) (ring_idx N ((cidx s + 1) mod N) (pidx s))"
    using b g by auto
  then show "queue s = slot s (cidx s) # queue (get s)"
    using g ring_idx_get [of "cidx s" N "pidx s"] b assms(2) by (simp add: queue_def)
qed

lemma queue_bound: "inv s \<Longrightarrow> length (queue s) < N"
  using bounds [of s] by (auto simp: queue_def ring_idx_def)

end

end
