(* ===== verification/Emac.thy ===== *)
theory Emac
  imports Ring
begin

text \<open>
  \<open>ExtiDrive/emac.c\<close>, the driver of the LPC17xx Ethernet controller, with \<open>MCB_LPC_1768\<close>
  defined as in \<open>emac.h\<close>.  The controller is a record: the register file, the DMA descriptors
  and the packet buffers.  Reading \<open>MIND\<close> or \<open>MRDD\<close> asks the device: the answers are the
  streams \<open>mind\<close> and \<open>mrdd\<close> with a read counter each, so every theorem holds for every device.
  \<open>log\<close> records the register writes, newest first.  Delay loops have no effect and are left out.
\<close>

subsection \<open>Constants of emac.h\<close>

abbreviation (input) EMAC_NUM_RX_FRAG :: nat where "EMAC_NUM_RX_FRAG \<equiv> 4"
abbreviation (input) EMAC_NUM_TX_FRAG :: nat where "EMAC_NUM_TX_FRAG \<equiv> 3"
abbreviation (input) EMAC_ETH_MAX_FLEN :: nat where "EMAC_ETH_MAX_FLEN \<equiv> 1536"

text \<open>\<open>EMAC_MII_WR_TOUT\<close> = \<open>EMAC_MII_RD_TOUT\<close> and \<open>EMAC_PHY_RESP_TOUT\<close>.\<close>

definition EMAC_MII_TOUT :: nat where "EMAC_MII_TOUT = 0x50000"
abbreviation (input) EMAC_PHY_RESP_TOUT :: nat where "EMAC_PHY_RESP_TOUT \<equiv> 16"

abbreviation (input) EMAC_MAC1_REC_EN :: u32 where "EMAC_MAC1_REC_EN \<equiv> 0x1"
abbreviation (input) EMAC_MAC1_PASS_ALL :: u32 where "EMAC_MAC1_PASS_ALL \<equiv> 0x2"
abbreviation (input) EMAC_MAC1_RESETS :: u32 where
  "EMAC_MAC1_RESETS \<equiv> 0x100 OR 0x200 OR 0x400 OR 0x800 OR 0x4000 OR 0x8000"
abbreviation (input) EMAC_MAC2_FULL_DUP :: u32 where "EMAC_MAC2_FULL_DUP \<equiv> 0x1"
abbreviation (input) EMAC_MAC2_CRC_EN :: u32 where "EMAC_MAC2_CRC_EN \<equiv> 0x10"
abbreviation (input) EMAC_MAC2_PAD_EN :: u32 where "EMAC_MAC2_PAD_EN \<equiv> 0x20"
abbreviation (input) EMAC_IPGT_FULL_DUP :: u32 where "EMAC_IPGT_FULL_DUP \<equiv> 0x15"
abbreviation (input) EMAC_IPGT_HALF_DUP :: u32 where "EMAC_IPGT_HALF_DUP \<equiv> 0x12"
abbreviation (input) EMAC_IPGR_P2_DEF :: u32 where "EMAC_IPGR_P2_DEF \<equiv> 0x12"
abbreviation (input) EMAC_CLRT_DEF :: u32 where "EMAC_CLRT_DEF \<equiv> 0x370F"
abbreviation (input) EMAC_SUPP_SPEED :: u32 where "EMAC_SUPP_SPEED \<equiv> 0x100"
abbreviation (input) EMAC_SUPP_RES_RMII :: u32 where "EMAC_SUPP_RES_RMII \<equiv> 0x800"
abbreviation (input) EMAC_MCFG_RES_MII :: u32 where "EMAC_MCFG_RES_MII \<equiv> 0x8000"
abbreviation (input) EMAC_MCMD_READ :: u32 where "EMAC_MCMD_READ \<equiv> 0x1"
abbreviation (input) EMAC_MIND_BUSY :: u32 where "EMAC_MIND_BUSY \<equiv> 0x1"
abbreviation (input) EMAC_CR_RX_EN :: u32 where "EMAC_CR_RX_EN \<equiv> 0x1"
abbreviation (input) EMAC_CR_TX_EN :: u32 where "EMAC_CR_TX_EN \<equiv> 0x2"
abbreviation (input) EMAC_CR_REG_RES :: u32 where "EMAC_CR_REG_RES \<equiv> 0x8"
abbreviation (input) EMAC_CR_TX_RES :: u32 where "EMAC_CR_TX_RES \<equiv> 0x10"
abbreviation (input) EMAC_CR_RX_RES :: u32 where "EMAC_CR_RX_RES \<equiv> 0x20"
abbreviation (input) EMAC_CR_PASS_RUNT_FRM :: u32 where "EMAC_CR_PASS_RUNT_FRM \<equiv> 0x40"
abbreviation (input) EMAC_CR_PASS_RX_FILT :: u32 where "EMAC_CR_PASS_RX_FILT \<equiv> 0x80"
abbreviation (input) EMAC_CR_RMII :: u32 where "EMAC_CR_RMII \<equiv> 0x200"
abbreviation (input) EMAC_CR_FULL_DUP :: u32 where "EMAC_CR_FULL_DUP \<equiv> 0x400"
abbreviation (input) EMAC_RFC_BCAST_EN :: u32 where "EMAC_RFC_BCAST_EN \<equiv> 0x2"
abbreviation (input) EMAC_RFC_MCAST_EN :: u32 where "EMAC_RFC_MCAST_EN \<equiv> 0x4"
abbreviation (input) EMAC_RFC_PERFECT_EN :: u32 where "EMAC_RFC_PERFECT_EN \<equiv> 0x20"
abbreviation (input) EMAC_INT_RX_OVERRUN :: u32 where "EMAC_INT_RX_OVERRUN \<equiv> 0x1"
abbreviation (input) EMAC_INT_RX_DONE :: u32 where "EMAC_INT_RX_DONE \<equiv> 0x8"
abbreviation (input) EMAC_INT_TX_DONE :: u32 where "EMAC_INT_TX_DONE \<equiv> 0x80"
abbreviation (input) EMAC_INT_SOFT_INT :: u32 where "EMAC_INT_SOFT_INT \<equiv> 0x1000"
abbreviation (input) EMAC_INT_WAKEUP :: u32 where "EMAC_INT_WAKEUP \<equiv> 0x2000"
abbreviation (input) EMAC_RCTRL_INT :: u32 where "EMAC_RCTRL_INT \<equiv> 0x80000000"
abbreviation (input) EMAC_TCTRL_LAST :: u32 where "EMAC_TCTRL_LAST \<equiv> 0x40000000"
abbreviation (input) EMAC_TCTRL_INT :: u32 where "EMAC_TCTRL_INT \<equiv> 0x80000000"
abbreviation (input) EMAC_RINFO_SIZE :: u32 where "EMAC_RINFO_SIZE \<equiv> 0x7FF"
abbreviation (input) EMAC_RINFO_LAST_FLAG :: u32 where "EMAC_RINFO_LAST_FLAG \<equiv> 0x40000000"
abbreviation (input) EMAC_RINFO_ERR_MASK :: u32 where
  "EMAC_RINFO_ERR_MASK \<equiv>
     0x100000 OR 0x800000 OR 0x1000000 OR 0x2000000 OR 0x8000000 OR 0x10000000"
abbreviation (input) EMAC_PHY_REG_BMCR :: u32 where "EMAC_PHY_REG_BMCR \<equiv> 0x0"
abbreviation (input) EMAC_PHY_REG_BMSR :: u32 where "EMAC_PHY_REG_BMSR \<equiv> 0x1"
abbreviation (input) EMAC_PHY_REG_IDR1 :: u32 where "EMAC_PHY_REG_IDR1 \<equiv> 0x2"
abbreviation (input) EMAC_PHY_REG_IDR2 :: u32 where "EMAC_PHY_REG_IDR2 \<equiv> 0x3"
abbreviation (input) EMAC_PHY_REG_STS :: u32 where "EMAC_PHY_REG_STS \<equiv> 0x10"
abbreviation (input) EMAC_PHY_BMCR_RESET :: u32 where "EMAC_PHY_BMCR_RESET \<equiv> 0x8000"
abbreviation (input) EMAC_PHY_BMCR_POWERDOWN :: u32 where "EMAC_PHY_BMCR_POWERDOWN \<equiv> 0x800"
abbreviation (input) EMAC_PHY_BMSR_AUTO_DONE :: u32 where "EMAC_PHY_BMSR_AUTO_DONE \<equiv> 0x20"
abbreviation (input) EMAC_PHY_SR_FULL_DUP :: u32 where "EMAC_PHY_SR_FULL_DUP \<equiv> 0x4000 OR 0x1000"
abbreviation (input) EMAC_PHY_SR_DUP :: u32 where "EMAC_PHY_SR_DUP \<equiv> 0x4"
abbreviation (input) EMAC_PHY_SR_SPEED :: u32 where "EMAC_PHY_SR_SPEED \<equiv> 0x2"
abbreviation (input) EMAC_PHY_SR_LINK :: u32 where "EMAC_PHY_SR_LINK \<equiv> 0x1"
abbreviation (input) EMAC_DEF_ADR :: u32 where "EMAC_DEF_ADR \<equiv> 0x100"
abbreviation (input) EMAC_DP83848C_ID :: u32 where "EMAC_DP83848C_ID \<equiv> 0x20005C90"

subsection \<open>The device\<close>

datatype emac_reg =
    MAC1 | MAC2 | IPGT | IPGR | CLRT | MAXF | SUPP | MCFG | MCMD | MADR | MWTD | SA0 | SA1 | SA2
  | Command | RxDescriptor | RxStatus | RxDescriptorNumber | RxProduceIndex | RxConsumeIndex
  | TxDescriptor | TxStatus | TxDescriptorNumber | TxProduceIndex | TxConsumeIndex
  | RxFilterCtrl | RxFilterWoLStatus | RxFilterWoLClear | HashFilterL | HashFilterH
  | IntStatus | IntEnable | IntClear | PCONP

datatype buf_ptr = RxBuf nat | TxBuf nat

record dma_desc =
  Packet :: buf_ptr
  Ctrl :: u32

record rx_stat =
  Info :: u32
  HashCRC :: u32

record emac =
  regs :: "emac_reg \<Rightarrow> u32"
  log :: "(emac_reg \<times> u32) list"
  mind :: "nat \<Rightarrow> u32"
  n_mind :: nat
  mrdd :: "nat \<Rightarrow> u32"
  n_mrdd :: nat
  Rx_Desc :: "dma_desc list"
  Rx_Stat :: "rx_stat list"
  Tx_Desc :: "dma_desc list"
  Tx_Stat :: "u32 list"
  rx_buf :: "u8 list list"
  tx_buf :: "u8 list list"
  rx_desc_addr :: u32
  rx_stat_addr :: u32
  tx_desc_addr :: u32
  tx_stat_addr :: u32

definition wr :: "emac_reg \<Rightarrow> u32 \<Rightarrow> emac \<Rightarrow> emac" where
  "wr r v st = st\<lparr>regs := (regs st)(r := v), log := (r, v) # log st\<rparr>"

abbreviation rd :: "emac_reg \<Rightarrow> emac \<Rightarrow> u32" where
  "rd r st \<equiv> regs st r"

definition rd_MIND :: "emac \<Rightarrow> u32 \<times> emac" where
  "rd_MIND st = (mind st (n_mind st), st\<lparr>n_mind := Suc (n_mind st)\<rparr>)"

definition rd_MRDD :: "emac \<Rightarrow> u32 \<times> emac" where
  "rd_MRDD st = (mrdd st (n_mrdd st), st\<lparr>n_mrdd := Suc (n_mrdd st)\<rparr>)"

subsection \<open>Descriptor rings\<close>

definition rx_descr_init :: "emac \<Rightarrow> emac" where
  "rx_descr_init st =
     (let st = st\<lparr>Rx_Desc := map (\<lambda>i. \<lparr>Packet = RxBuf i, Ctrl = EMAC_RCTRL_INT OR (1536 - 1)\<rparr>)
                    [0..<EMAC_NUM_RX_FRAG],
                 Rx_Stat := replicate EMAC_NUM_RX_FRAG \<lparr>Info = 0, HashCRC = 0\<rparr>\<rparr>;
          st = wr RxDescriptor (rx_desc_addr st) st;
          st = wr RxStatus (rx_stat_addr st) st;
          st = wr RxDescriptorNumber 3 st
      in wr RxConsumeIndex 0 st)"

definition tx_descr_init :: "emac \<Rightarrow> emac" where
  "tx_descr_init st =
     (let st = st\<lparr>Tx_Desc := map (\<lambda>i. \<lparr>Packet = TxBuf i, Ctrl = 0\<rparr>) [0..<EMAC_NUM_TX_FRAG],
                 Tx_Stat := replicate EMAC_NUM_TX_FRAG 0\<rparr>;
          st = wr TxDescriptor (tx_desc_addr st) st;
          st = wr TxStatus (tx_stat_addr st) st;
          st = wr TxDescriptorNumber 2 st
      in wr TxProduceIndex 0 st)"

subsection \<open>The PHY over the MII management interface\<close>

text \<open>
  \<open>for (tout = 0; tout < EMAC_MII_..._TOUT; tout++) if ((MIND & EMAC_MIND_BUSY) == 0) ...\<close>,
  with the number of polls left.
\<close>

fun poll_MIND :: "nat \<Rightarrow> emac \<Rightarrow> bool \<times> emac" where
  "poll_MIND 0 st = (False, st)"
| "poll_MIND (Suc n) st =
     (let (v, st) = rd_MIND st
      in if v AND EMAC_MIND_BUSY = 0 then (True, st) else poll_MIND n st)"

definition write_PHY :: "u32 \<Rightarrow> u16 \<Rightarrow> emac \<Rightarrow> int \<times> emac" where
  "write_PHY PhyReg Value st =
     (let st = wr MADR (EMAC_DEF_ADR OR PhyReg) st;
          st = wr MWTD (ucast Value) st;
          (ready, st) = poll_MIND EMAC_MII_TOUT st
      in if ready then (0, st) else (-1, st))"

text \<open>The result is the \<open>int32_t\<close> as a 32-bit word; \<open>-1\<close> is all ones.\<close>

definition read_PHY :: "u32 \<Rightarrow> emac \<Rightarrow> u32 \<times> emac" where
  "read_PHY PhyReg st =
     (let st = wr MADR (EMAC_DEF_ADR OR PhyReg) st;
          st = wr MCMD EMAC_MCMD_READ st;
          (ready, st) = poll_MIND EMAC_MII_TOUT st
      in if ready then rd_MRDD (wr MCMD 0 st) else (-1, st))"

definition setEmacAddr :: "u8 list \<Rightarrow> emac \<Rightarrow> emac" where
  "setEmacAddr a st =
     (let st = wr SA0 (push_bit 8 (ucast (a ! 5)) OR ucast (a ! 4)) st;
          st = wr SA1 (push_bit 8 (ucast (a ! 3)) OR ucast (a ! 2)) st
      in wr SA2 (push_bit 8 (ucast (a ! 1)) OR ucast (a ! 0)) st)"

subsection \<open>CRC\<close>

text \<open>One nibble of the inner loop, then the byte, then the frame; \<open>crc\<close> as a 32-bit word.\<close>

definition crc_nibble :: "u32 \<Rightarrow> u8 \<Rightarrow> u32" where
  "crc_nibble crc byte =
     (let q3 = (if bit crc 28 \<noteq> bit byte 3 then 0x04C11DB7 else 0);
          q2 = (if bit crc 29 \<noteq> bit byte 2 then 0x09823B6E else 0);
          q1 = (if bit crc 30 \<noteq> bit byte 1 then 0x130476DC else 0);
          q0 = (if bit crc 31 \<noteq> bit byte 0 then 0x2608EDB8 else 0)
      in push_bit 4 crc XOR q3 XOR q2 XOR q1 XOR q0)"

definition crc_byte :: "u32 \<Rightarrow> u8 \<Rightarrow> u32" where
  "crc_byte crc byte = crc_nibble (crc_nibble crc byte) (drop_bit 4 byte)"

definition emac_CRCCalc :: "u8 list \<Rightarrow> u32" where
  "emac_CRCCalc frame = foldl crc_byte 0xFFFFFFFF frame"

subsection \<open>Initialisation\<close>

text \<open>
  \<open>for (tout = EMAC_PHY_RESP_TOUT; tout; tout--)\<close>: the test \<open>tout == 0\<close> inside the body is
  never true, so the loop ends without an error after the last read.  The value of \<open>regv\<close> is
  returned, as \<open>EMAC_UpdatePHYStatus\<close> reads it after the loop.
\<close>

fun poll_PHY :: "u32 \<Rightarrow> (u32 \<Rightarrow> bool) \<Rightarrow> nat \<Rightarrow> u32 \<Rightarrow> emac \<Rightarrow> u32 \<times> emac" where
  "poll_PHY r ready 0 regv st = (regv, st)"
| "poll_PHY r ready (Suc tout) regv st =
     (let (regv, st) = read_PHY r st
      in if ready regv then (regv, st) else poll_PHY r ready tout regv st)"

definition EMAC_UpdatePHYStatus :: "emac \<Rightarrow> int \<times> emac" where
  "EMAC_UpdatePHYStatus st =
     (let (regv, st) = poll_PHY EMAC_PHY_REG_STS (\<lambda>v. v AND EMAC_PHY_SR_LINK \<noteq> 0)
                         EMAC_PHY_RESP_TOUT 0 st;
          st = (if regv AND EMAC_PHY_SR_DUP \<noteq> 0
                then let st = wr MAC2 (rd MAC2 st OR EMAC_MAC2_FULL_DUP) st;
                         st = wr Command (rd Command st OR EMAC_CR_FULL_DUP) st
                     in wr IPGT EMAC_IPGT_FULL_DUP st
                else wr IPGT EMAC_IPGT_HALF_DUP st);
          st = (if regv AND EMAC_PHY_SR_SPEED \<noteq> 0 then wr SUPP 0 st
                else wr SUPP EMAC_SUPP_SPEED st)
      in (0, st))"

definition EMAC_SetPHYMode :: "u32 \<Rightarrow> emac \<Rightarrow> int \<times> emac" where
  "EMAC_SetPHYMode ulPHYMode st =
     (let (id1, st) = read_PHY EMAC_PHY_REG_IDR1 st;
          (id2, st) = read_PHY EMAC_PHY_REG_IDR2 st
      in if push_bit 16 id1 OR (id2 AND 0xFFF0) = EMAC_DP83848C_ID
         then let (ok, st) =
                (if ulPHYMode = 0
                 then let (_, st) = write_PHY EMAC_PHY_REG_BMCR 0x3000 st;
                          (_, st) = poll_PHY EMAC_PHY_REG_BMSR
                                      (\<lambda>v. v AND EMAC_PHY_BMSR_AUTO_DONE \<noteq> 0) EMAC_PHY_RESP_TOUT 0 st
                      in (True, st)
                 else if ulPHYMode = 1 then (True, snd (write_PHY EMAC_PHY_REG_BMCR 0x0100 st))
                 else if ulPHYMode = 2 then (True, snd (write_PHY EMAC_PHY_REG_BMCR 0x0000 st))
                 else if ulPHYMode = 3 then (True, snd (write_PHY EMAC_PHY_REG_BMCR 0x2100 st))
                 else if ulPHYMode = 4 then (True, snd (write_PHY EMAC_PHY_REG_BMCR 0x2000 st))
                 else (False, st))
              in if ok
                 then let (r, st) = EMAC_UpdatePHYStatus st in if r < 0 then (-1, st) else (0, st)
                 else (-1, st)
         else (-1, st))"

definition EMAC_clkdiv :: "nat list" where
  "EMAC_clkdiv = [4, 6, 8, 10, 14, 20, 28]"

text \<open>
  The clock selection: the index after the first divider that is at least 40, or after the table.
\<close>

definition clk_sel :: nat where
  "clk_sel = Suc (length (takeWhile (\<lambda>d. \<not> 40 \<le> d) EMAC_clkdiv))"

text \<open>The register set-up before the PHY is looked at, and the start of both data paths after it.\<close>

definition reset_MAC :: "emac \<Rightarrow> emac" where
  "reset_MAC st =
     (let st = wr PCONP (rd PCONP st OR 0x40000000) st;
          st = wr MAC1 EMAC_MAC1_RESETS st;
          st = wr Command (EMAC_CR_REG_RES OR EMAC_CR_TX_RES OR EMAC_CR_RX_RES OR EMAC_CR_PASS_RUNT_FRM) st;
          st = wr MAC1 EMAC_MAC1_PASS_ALL st;
          st = wr MAC2 (EMAC_MAC2_CRC_EN OR EMAC_MAC2_PAD_EN) st;
          st = wr MAXF 1536 st;
          st = wr MCFG (push_bit 2 (of_nat clk_sel AND 0xF) OR EMAC_MCFG_RES_MII) st;
          st = wr MCFG (rd MCFG st AND NOT EMAC_MCFG_RES_MII) st;
          st = wr CLRT EMAC_CLRT_DEF st;
          st = wr IPGR EMAC_IPGR_P2_DEF st;
          st = wr Command (EMAC_CR_RMII OR EMAC_CR_PASS_RUNT_FRM) st;
          st = wr SUPP EMAC_SUPP_RES_RMII st
      in wr SUPP 0 st)"

definition start_MAC :: "u8 list \<Rightarrow> emac \<Rightarrow> emac" where
  "start_MAC addr st =
     (let st = setEmacAddr addr st;
          st = rx_descr_init st;
          st = tx_descr_init st;
          st = wr RxFilterCtrl (EMAC_RFC_MCAST_EN OR EMAC_RFC_BCAST_EN OR EMAC_RFC_PERFECT_EN) st;
          st = wr IntEnable (EMAC_INT_RX_DONE OR EMAC_INT_TX_DONE) st;
          st = wr IntClear 0xFFFF st;
          st = wr Command (rd Command st OR (EMAC_CR_RX_EN OR EMAC_CR_TX_EN)) st
      in wr MAC1 (rd MAC1 st OR EMAC_MAC1_REC_EN) st)"

text \<open>\<open>Status\<close> as a bool: \<open>SUCCESS\<close> is true.\<close>

definition EMAC_Init :: "u32 \<Rightarrow> u8 list \<Rightarrow> emac \<Rightarrow> bool \<times> emac" where
  "EMAC_Init Mode addr st =
     (let st = reset_MAC st;
          (_, st) = write_PHY EMAC_PHY_REG_BMCR 0x8000 st;
          (_, st) = poll_PHY EMAC_PHY_REG_BMCR
                      (\<lambda>v. v AND (EMAC_PHY_BMCR_RESET OR EMAC_PHY_BMCR_POWERDOWN) = 0)
                      EMAC_PHY_RESP_TOUT 0 st;
          (r, st) = EMAC_SetPHYMode Mode st
      in if r < 0 then (False, st) else (True, start_MAC addr st))"

definition EMAC_DeInit :: "emac \<Rightarrow> emac" where
  "EMAC_DeInit st =
     (let st = wr IntEnable 0 st;
          st = wr IntClear (0xFF OR (EMAC_INT_SOFT_INT OR EMAC_INT_WAKEUP)) st
      in wr PCONP (rd PCONP st AND NOT 0x40000000) st)"

definition EMAC_CheckPHYStatus :: "u32 \<Rightarrow> emac \<Rightarrow> int \<times> emac" where
  "EMAC_CheckPHYStatus ulPHYState st =
     (let (regv, st) = read_PHY EMAC_PHY_REG_STS st
      in (if ulPHYState = 0 then if regv AND EMAC_PHY_SR_LINK \<noteq> 0 then 1 else 0
          else if ulPHYState = 1 then if regv AND EMAC_PHY_SR_SPEED \<noteq> 0 then 0 else 1
          else if ulPHYState = 2 then if regv AND EMAC_PHY_SR_FULL_DUP \<noteq> 0 then 1 else 0
          else -1, st))"

subsection \<open>Filters and interrupts\<close>

definition EMAC_SetHashFilter :: "u8 list \<Rightarrow> bool \<Rightarrow> emac \<Rightarrow> emac" where
  "EMAC_SetHashFilter dst enable st =
     (let crc = unat (drop_bit 23 (emac_CRCCalc (take 6 dst)) AND 0x3F);
          pReg = (if 31 < crc then HashFilterH else HashFilterL);
          tmp = (if 31 < crc then crc - 32 else crc);
          st = (if enable then wr pReg (rd pReg st OR push_bit tmp 1) st
                else wr pReg (rd pReg st AND NOT (push_bit tmp 1)) st)
      in wr Command (rd Command st AND NOT EMAC_CR_PASS_RX_FILT) st)"

definition EMAC_SetFilterMode :: "u32 \<Rightarrow> bool \<Rightarrow> emac \<Rightarrow> emac" where
  "EMAC_SetFilterMode m enable st =
     (if enable then wr RxFilterCtrl (rd RxFilterCtrl st OR m) st
      else wr RxFilterCtrl (rd RxFilterCtrl st AND NOT m) st)"

definition EMAC_GetWoLStatus :: "u32 \<Rightarrow> emac \<Rightarrow> bool \<times> emac" where
  "EMAC_GetWoLStatus m st =
     (if rd RxFilterWoLStatus st AND m \<noteq> 0 then (True, wr RxFilterWoLClear m st) else (False, st))"

definition EMAC_IntCmd :: "u32 \<Rightarrow> bool \<Rightarrow> emac \<Rightarrow> emac" where
  "EMAC_IntCmd m enable st =
     (if enable then wr IntEnable (rd IntEnable st OR m) st
      else wr IntEnable (rd IntEnable st AND NOT m) st)"

definition EMAC_IntGetStatus :: "u32 \<Rightarrow> emac \<Rightarrow> bool \<times> emac" where
  "EMAC_IntGetStatus m st =
     (if rd IntStatus st AND m \<noteq> 0 then (True, wr IntClear m st) else (False, st))"

subsection \<open>Packet buffers\<close>

text \<open>
  The copy loops move \<open>(ulDataLen + 3) >> 2\<close> words; \<open>None\<close> when the words run past the source
  or the destination.
\<close>

definition copy_words :: "u32 \<Rightarrow> u8 list \<Rightarrow> u8 list \<Rightarrow> u8 list option" where
  "copy_words len src dst =
     (let n = 4 * unat (drop_bit 2 (len + 3))
      in if n \<le> length src \<and> n \<le> length dst then Some (take n src @ drop n dst) else None)"

fun buf_at :: "emac \<Rightarrow> buf_ptr \<Rightarrow> u8 list option" where
  "buf_at st (RxBuf i) = (if i < length (rx_buf st) then Some (rx_buf st ! i) else None)"
| "buf_at st (TxBuf i) = (if i < length (tx_buf st) then Some (tx_buf st ! i) else None)"

fun buf_set :: "buf_ptr \<Rightarrow> u8 list \<Rightarrow> emac \<Rightarrow> emac" where
  "buf_set (RxBuf i) b st = st\<lparr>rx_buf := (rx_buf st)[i := b]\<rparr>"
| "buf_set (TxBuf i) b st = st\<lparr>tx_buf := (tx_buf st)[i := b]\<rparr>"

definition EMAC_WritePacketBuffer :: "u32 \<Rightarrow> u8 list \<Rightarrow> emac \<Rightarrow> emac option" where
  "EMAC_WritePacketBuffer ulDataLen data st =
     (let idx = unat (rd TxProduceIndex st)
      in if idx < length (Tx_Desc st)
         then do {
           let d = Tx_Desc st ! idx;
           b \<leftarrow> buf_at st (Packet d);
           b \<leftarrow> copy_words ulDataLen data b;
           Some ((buf_set (Packet d) b st)
                   \<lparr>Tx_Desc := (Tx_Desc st)[idx :=
                      d\<lparr>Ctrl := (ulDataLen - 1) OR (EMAC_TCTRL_INT OR EMAC_TCTRL_LAST)\<rparr>]\<rparr>)
         }
         else None)"

text \<open>The destination buffer is \<open>NULL\<close> or the bytes it holds; the result is its new contents.\<close>

definition EMAC_ReadPacketBuffer :: "u32 \<Rightarrow> u8 list option \<Rightarrow> emac \<Rightarrow> u8 list option option" where
  "EMAC_ReadPacketBuffer ulDataLen dst st =
     (let idx = unat (rd RxConsumeIndex st)
      in if idx < length (Rx_Desc st)
         then (case dst of
             None \<Rightarrow> Some None
           | Some d \<Rightarrow> do {
               b \<leftarrow> buf_at st (Packet (Rx_Desc st ! idx));
               d \<leftarrow> copy_words ulDataLen b d;
               Some (Some d)
             })
         else None)"

definition EMAC_CheckReceiveIndex :: "emac \<Rightarrow> bool" where
  "EMAC_CheckReceiveIndex st \<longleftrightarrow> rd RxConsumeIndex st \<noteq> rd RxProduceIndex st"

definition EMAC_CheckTransmitIndex :: "emac \<Rightarrow> bool" where
  "EMAC_CheckTransmitIndex st =
     (let tmp = rd TxConsumeIndex st - 1 in if rd TxProduceIndex st = tmp then False else True)"

definition EMAC_CheckReceiveDataStatus :: "u32 \<Rightarrow> emac \<Rightarrow> bool option" where
  "EMAC_CheckReceiveDataStatus m st =
     (let idx = unat (rd RxConsumeIndex st)
      in if idx < length (Rx_Stat st) then Some (Info (Rx_Stat st ! idx) AND m \<noteq> 0) else None)"

definition EMAC_GetReceiveDataSize :: "emac \<Rightarrow> u32 option" where
  "EMAC_GetReceiveDataSize st =
     (let idx = unat (rd RxConsumeIndex st)
      in if idx < length (Rx_Stat st) then Some (Info (Rx_Stat st ! idx) AND EMAC_RINFO_SIZE) else None)"

definition EMAC_UpdateRxConsumeIndex :: "emac \<Rightarrow> emac" where
  "EMAC_UpdateRxConsumeIndex st =
     (let idx = rd RxConsumeIndex st + 1;
          idx = (if idx = of_nat EMAC_NUM_RX_FRAG then 0 else idx)
      in wr RxConsumeIndex idx st)"

definition EMAC_UpdateTxProduceIndex :: "emac \<Rightarrow> emac" where
  "EMAC_UpdateTxProduceIndex st =
     (let idx = rd TxProduceIndex st + 1;
          idx = (if idx = of_nat EMAC_NUM_TX_FRAG then 0 else idx)
      in wr TxProduceIndex idx st)"


subsection \<open>CRC against the bit-serial definition\<close>

definition crc_bit :: "u32 \<Rightarrow> bool \<Rightarrow> u32" where
  "crc_bit crc b = push_bit 1 crc XOR (if bit crc 31 \<noteq> b then 0x04C11DB7 else 0)"

definition crc32_bits :: "bool list \<Rightarrow> u32" where
  "crc32_bits = foldl crc_bit 0xFFFFFFFF"

definition bits_of :: "u8 \<Rightarrow> bool list" where
  "bits_of byte = map (bit byte) [0..<8]"

lemma push_bit_if: "push_bit n (if c then a else 0) = (if c then push_bit n a else (0 :: u32))"
  by simp

lemma bit_push1:
  "0 < n \<Longrightarrow> n < 32 \<Longrightarrow> bit (push_bit 1 c) n = bit (c :: u32) (n - 1)"
  unfolding bit_push_bit_iff by (auto simp: possible_bit_word)

lemma crc_bit4:
  "crc_bit (crc_bit (crc_bit (crc_bit crc b0) b1) b2) b3 =
     push_bit 4 crc
       XOR (if bit crc 28 \<noteq> b3 then 0x04C11DB7 else 0)
       XOR (if bit crc 29 \<noteq> b2 then 0x09823B6E else 0)
       XOR (if bit crc 30 \<noteq> b1 then 0x130476DC else 0)
       XOR (if bit crc 31 \<noteq> b0 then 0x2608EDB8 else 0)"
proof -
  have P: "bit (if c then 0x04C11DB7 else 0 :: u32) n \<longleftrightarrow> c \<and> bit (0x04C11DB7 :: u32) n" for c n
    by simp
  have c1: "bit (crc_bit crc b0) 31 = bit crc 30" "bit (crc_bit crc b0) 30 = bit crc 29" "bit (crc_bit crc b0) 29 = bit crc 28" for crc b0
    unfolding crc_bit_def bit_xor_iff P
    by (subst bit_push1; simp)+
  have s: "crc_bit crc b = push_bit 1 crc XOR (if bit crc 31 \<noteq> b then 0x04C11DB7 else 0)" for crc b
    by (rule crc_bit_def)
  have p: "push_bit 1 (0x04C11DB7 :: u32) = 0x09823B6E" "push_bit 1 (0x09823B6E :: u32) = 0x130476DC"
    "push_bit 1 (0x130476DC :: u32) = 0x2608EDB8" by simp_all
  have q: "push_bit 1 (push_bit 1 (push_bit 1 (push_bit 1 c))) = push_bit 4 c" for c :: u32
    by (simp add: push_bit_eq_mult)
  show ?thesis
    unfolding s [of _ b3] c1 unfolding s [of _ b2] c1 unfolding s [of _ b1] c1 
   unfolding s [of _ b0]
    by (simp only: push_bit_xor push_bit_if p q xor.assoc xor.commute xor.left_commute)
qed

lemma crc_byte_bits: "crc_byte crc byte = foldl crc_bit crc (bits_of byte)"
proof -
  have b: "bits_of byte = [bit byte 0, bit byte 1, bit byte 2, bit byte 3,
      bit (drop_bit 4 byte) 0, bit (drop_bit 4 byte) 1, bit (drop_bit 4 byte) 2, bit (drop_bit 4 byte) 3]"
    by (simp add: bits_of_def upt_rec bit_drop_bit_eq eval_nat_numeral)
  show ?thesis
    unfolding b crc_byte_def crc_nibble_def foldl.simps crc_bit4 Let_def by (rule refl)
qed

lemma crc_bits_append: "foldl crc_byte crc frame = foldl crc_bit crc (concat (map bits_of frame))"
  by (induction frame arbitrary: crc) (simp_all add: crc_byte_bits)

lemma emac_CRCCalc_crc32: "emac_CRCCalc frame = crc32_bits (concat (map bits_of frame))"
  by (simp add: emac_CRCCalc_def crc32_bits_def crc_bits_append)

subsection \<open>The rings\<close>

text \<open>
  The controller's side of the rings, as documented for the LPC17xx: \<open>hw_receive\<close> stores a
  frame with its status word at the produce index, \<open>hw_transmit\<close> sends the frame at the
  consume index.
\<close>

definition rx_pidx :: "emac \<Rightarrow> nat" where "rx_pidx st = unat (rd RxProduceIndex st)"
definition rx_cidx :: "emac \<Rightarrow> nat" where "rx_cidx st = unat (rd RxConsumeIndex st)"
definition tx_pidx :: "emac \<Rightarrow> nat" where "tx_pidx st = unat (rd TxProduceIndex st)"
definition tx_cidx :: "emac \<Rightarrow> nat" where "tx_cidx st = unat (rd TxConsumeIndex st)"

definition rx_slot :: "emac \<Rightarrow> nat \<Rightarrow> u32 \<times> u8 list" where
  "rx_slot st i = (Info (Rx_Stat st ! i), rx_buf st ! i)"

definition tx_slot :: "emac \<Rightarrow> nat \<Rightarrow> u8 list" where
  "tx_slot st i = take (Suc (unat (Ctrl (Tx_Desc st ! i) AND 0x7FF))) (tx_buf st ! i)"

definition rx_ok :: "emac \<Rightarrow> bool" where
  "rx_ok st \<longleftrightarrow>
     map Packet (Rx_Desc st) = map RxBuf [0..<4] \<and> length (Rx_Stat st) = 4 \<and>
     map length (rx_buf st) = replicate 4 1536 \<and> rx_pidx st < 4 \<and> rx_cidx st < 4"

definition tx_ok :: "emac \<Rightarrow> bool" where
  "tx_ok st \<longleftrightarrow>
     map Packet (Tx_Desc st) = map TxBuf [0..<3] \<and>
     map length (tx_buf st) = replicate 3 1536 \<and> tx_pidx st < 3 \<and> tx_cidx st < 3"

fun hw_receive :: "u32 \<times> u8 list \<Rightarrow> emac \<Rightarrow> emac option" where
  "hw_receive (info, frame) st =
     (let i = rx_pidx st
      in if i < length (Rx_Desc st) \<and> i < length (Rx_Stat st)
         then Some ((buf_set (Packet (Rx_Desc st ! i)) frame st)
           \<lparr>Rx_Stat := (Rx_Stat st)[i := (Rx_Stat st ! i)\<lparr>Info := info\<rparr>],
            regs := (regs st)(RxProduceIndex := of_nat ((i + 1) mod 4))\<rparr>)
         else None)"

definition hw_transmit :: "emac \<Rightarrow> emac" where
  "hw_transmit st = st\<lparr>regs := (regs st)(TxConsumeIndex := of_nat ((tx_cidx st + 1) mod 3))\<rparr>"

fun tx_put :: "nat \<times> u8 list \<Rightarrow> emac \<Rightarrow> emac option" where
  "tx_put (n, g) st = map_option EMAC_UpdateTxProduceIndex (EMAC_WritePacketBuffer (of_nat n) g st)"

definition rx_queue :: "emac \<Rightarrow> (u32 \<times> u8 list) list" where
  "rx_queue st = map (rx_slot st) (ring_idx 4 (rx_cidx st) (rx_pidx st))"

definition tx_queue :: "emac \<Rightarrow> u8 list list" where
  "tx_queue st = map (tx_slot st) (ring_idx 3 (tx_cidx st) (tx_pidx st))"

lemma wrap_index:
  "unat (i :: u32) < n \<Longrightarrow> n < 100 \<Longrightarrow>
   unat (if i + 1 = of_nat n then 0 else i + 1) = (unat i + 1) mod n"
proof -
  assume a: "unat i < n" "n < 100"
  then have u: "unat (i + 1) = unat i + 1" by (subst unat_plus_small) simp_all
  have n: "unat (of_nat n :: u32) = n" using a by (intro unat_of_nat_lt) simp
  have "i + 1 = of_nat n \<longleftrightarrow> unat i + 1 = n" using u n by (metis word_unat_eq_iff)
  then show ?thesis using a u by auto
qed

lemma rx_ok_nth:
  "rx_ok st \<Longrightarrow> i < 4 \<Longrightarrow> Packet (Rx_Desc st ! i) = RxBuf i \<and> length (rx_buf st ! i) = 1536"
  "rx_ok st \<Longrightarrow> length (Rx_Desc st) = 4 \<and> length (rx_buf st) = 4"
  unfolding rx_ok_def
  by (metis add_0 length_map length_upt minus_nat.diff_0 nth_map nth_replicate nth_upt length_replicate)+

lemma tx_ok_nth:
  "tx_ok st \<Longrightarrow> i < 3 \<Longrightarrow> Packet (Tx_Desc st ! i) = TxBuf i \<and> length (tx_buf st ! i) = 1536"
  "tx_ok st \<Longrightarrow> length (Tx_Desc st) = 3 \<and> length (tx_buf st) = 3"
  unfolding tx_ok_def
  by (metis add_0 length_map length_upt minus_nat.diff_0 nth_map nth_replicate nth_upt length_replicate)+


interpretation rx: desc_ring 4 rx_ok rx_pidx rx_cidx rx_slot "\<lambda>(info, f). length f = 1536" id
    hw_receive EMAC_UpdateRxConsumeIndex
proof (unfold_locales, goal_cases)
  case (1 s)
  then show ?case by (simp add: rx_ok_def)
next
  case (2 s x)
  obtain info f where x: "x = (info, f)" by (cases x)
  let ?i = "rx_pidx s"
  have i: "?i < 4" using 2 by (simp add: rx_ok_def)
  note nth = rx_ok_nth(1) [OF 2(1) i] and len = rx_ok_nth(2) [OF 2(1)]
  have st: "length (Rx_Stat s) = 4" "map Packet (Rx_Desc s) = map RxBuf [0..<4]"
    "map length (rx_buf s) = replicate 4 1536" "rx_cidx s < 4"
    using 2 by (simp_all add: rx_ok_def)
  let ?s' = "s\<lparr>rx_buf := (rx_buf s)[?i := f], Rx_Stat := (Rx_Stat s)[?i := (Rx_Stat s ! ?i)\<lparr>Info := info\<rparr>],
            regs := (regs s)(RxProduceIndex := of_nat ((?i + 1) mod 4))\<rparr>"
  have run: "hw_receive x s = Some ?s'"
    using i nth len st by (simp add: x Let_def)
  have p: "rx_pidx ?s' = (?i + 1) mod 4" "rx_cidx ?s' = rx_cidx s"
    by (simp_all add: rx_pidx_def rx_cidx_def unat_of_nat_lt)
  have "map length ((rx_buf s)[?i := f]) = replicate 4 1536"
    using st(3) 2(2) x by (simp add: map_update list_update_same_conv i)
  then have "rx_ok ?s'" using st p by (simp add: rx_ok_def)
  then show ?case
    using run p i len st x by (intro exI [of _ ?s']) (simp add: rx_slot_def)
next
  case (3 s)
  let ?g = "EMAC_UpdateRxConsumeIndex s"
  have c: "rx_cidx ?g = (rx_cidx s + 1) mod 4" "rx_pidx ?g = rx_pidx s"
    "Rx_Desc ?g = Rx_Desc s" "Rx_Stat ?g = Rx_Stat s" "rx_buf ?g = rx_buf s"
    using 3 wrap_index [of "rd RxConsumeIndex s" 4]
    by (simp_all add: EMAC_UpdateRxConsumeIndex_def wr_def rx_cidx_def rx_pidx_def rx_ok_def Let_def)
  then show ?case using 3 by (auto simp: rx_ok_def rx_slot_def)
qed


lemma copy_words_ok:
  assumes "1 \<le> n" "n \<le> 1536" "length src = 1536" "length dst = 1536"
  shows "\<exists>b. copy_words (of_nat n) src dst = Some b \<and> length b = 1536 \<and> take n b = take n src"
proof -
  have n3: "unat (of_nat n + 3 :: u32) = n + 3"
    using assms by (subst unat_plus_small) (simp_all add: unat_of_nat_lt)
  let ?w = "4 * ((n + 3) div 4)"
  have w: "n \<le> ?w" "?w \<le> 1536" using assms by auto
  have d: "4 * unat (drop_bit 2 (of_nat n + 3 :: u32)) = ?w"
    unfolding unat_drop_bit n3 by simp
  have "copy_words (of_nat n) src dst = Some (take ?w src @ drop ?w dst)"
    unfolding copy_words_def Let_def d using w assms by simp
  then show ?thesis using w assms by (intro exI [of _ "take ?w src @ drop ?w dst"]) (simp add: min_def)
qed

lemma tx_ctrl_size:
  assumes "1 \<le> n" "n \<le> 1536"
  shows "Suc (unat (((of_nat n - 1) OR (EMAC_TCTRL_INT OR EMAC_TCTRL_LAST)) AND (0x7FF :: u32))) = n"
proof -
  have "(w OR (EMAC_TCTRL_INT OR EMAC_TCTRL_LAST)) AND 0x7FF = w AND (0x7FF :: u32)" for w :: u32
    by (simp add: and.commute [of _ "0x7FF"] bit.conj_disj_distrib)
  moreover have "w AND 0x7FF = take_bit 11 w" for w :: u32
    by (simp add: take_bit_eq_mask mask_eq_exp_minus_1)
  moreover have "unat (of_nat n - 1 :: u32) = n - 1"
    using assms by (subst unat_minus_small) (simp_all add: unat_of_nat_lt)
  ultimately show ?thesis using assms by (simp add: unat_take_bit_u32)
qed

lemma tx_write:
  assumes ok: "tx_ok st" and n: "1 \<le> n" "n \<le> 1536" "length g = 1536"
  shows "\<exists>st'. tx_put (n, g) st = Some st' \<and> tx_ok st' \<and> tx_pidx st' = (tx_pidx st + 1) mod 3 \<and>
    tx_cidx st' = tx_cidx st \<and> tx_slot st' (tx_pidx st) = take n g \<and>
    (\<forall>i < 3. i \<noteq> tx_pidx st \<longrightarrow> tx_slot st' i = tx_slot st i)"
proof -
  let ?i = "tx_pidx st"
  have i: "?i < 3" using ok by (simp add: tx_ok_def)
  note nth = tx_ok_nth(1) [OF ok i] and len = tx_ok_nth(2) [OF ok]
  have st: "map Packet (Tx_Desc st) = map TxBuf [0..<3]"
    "map length (tx_buf st) = replicate 3 1536" "tx_cidx st < 3"
    using ok by (simp_all add: tx_ok_def)
  obtain b where b: "copy_words (of_nat n) g (tx_buf st ! ?i) = Some b" "length b = 1536"
    "take n b = take n g" using copy_words_ok [OF n(1,2,3)] nth by blast
  let ?d = "(Tx_Desc st ! ?i)\<lparr>Ctrl := (of_nat n - 1) OR (EMAC_TCTRL_INT OR EMAC_TCTRL_LAST)\<rparr>"
  let ?s = "st\<lparr>tx_buf := (tx_buf st)[?i := b], Tx_Desc := (Tx_Desc st)[?i := ?d]\<rparr>"
  have "EMAC_WritePacketBuffer (of_nat n) g st = Some ?s"
    using i nth len b unfolding EMAC_WritePacketBuffer_def tx_pidx_def by (simp add: Let_def)
  then have run: "tx_put (n, g) st = Some (EMAC_UpdateTxProduceIndex ?s)" by simp
  let ?s' = "EMAC_UpdateTxProduceIndex ?s"
  have p: "tx_pidx ?s' = (?i + 1) mod 3" "tx_cidx ?s' = tx_cidx st" "Tx_Desc ?s' = Tx_Desc ?s"
    "tx_buf ?s' = tx_buf ?s"
    using i wrap_index [of "rd TxProduceIndex st" 3]
    by (simp_all add: EMAC_UpdateTxProduceIndex_def wr_def tx_cidx_def tx_pidx_def Let_def)
  have "map length ((tx_buf st)[?i := b]) = replicate 3 1536"
    using st(2) b(2) by (simp add: map_update list_update_same_conv i)
  moreover have "map Packet ((Tx_Desc st)[?i := ?d]) = map TxBuf [0..<3]"
    using st(1) nth len i by (simp add: map_update list_update_same_conv del: upt_Suc)
  ultimately have "tx_ok ?s'" using st p by (simp add: tx_ok_def)
  moreover have "tx_slot ?s' ?i = take n g"
    using tx_ctrl_size [OF n(1,2)] p b len i by (simp add: tx_slot_def)
  ultimately show ?thesis
    using run p len by (intro exI [of _ ?s']) (simp add: tx_slot_def)
qed

interpretation tx: desc_ring 3 tx_ok tx_pidx tx_cidx tx_slot "\<lambda>(n, g). 1 \<le> n \<and> n \<le> 1536 \<and> length g = 1536"
    "\<lambda>(n, g). take n g" tx_put hw_transmit
proof (unfold_locales, goal_cases)
  case (1 s)
  then show ?case by (simp add: tx_ok_def)
next
  case (2 s x)
  then show ?case using tx_write [of s "fst x" "snd x"] by (cases x) simp
next
  case (3 s)
  then show ?case
    by (auto simp: tx_ok_def hw_transmit_def tx_pidx_def tx_cidx_def tx_slot_def unat_of_nat_lt)
qed

lemma rx_queue_eq: "rx.queue st = rx_queue st"
  by (simp add: rx.queue_def rx_queue_def)

lemma tx_queue_eq: "tx.queue st = tx_queue st"
  by (simp add: tx.queue_def tx_queue_def)

text \<open>A controller with a DP83848C PHY that answers at once, before and after its rings are set up.\<close>

definition emac_sample :: emac where
  "emac_sample =
     \<lparr>regs = (\<lambda>_. 0), log = [], mind = (\<lambda>_. 0), n_mind = 0,
      mrdd = (\<lambda>k. if k = 1 then 0x2000 else if k = 2 then 0x5C90 else 0), n_mrdd = 0,
      Rx_Desc = map (\<lambda>i. \<lparr>Packet = RxBuf i, Ctrl = 0\<rparr>) [0..<4],
      Rx_Stat = replicate 4 \<lparr>Info = 0, HashCRC = 0\<rparr>,
      Tx_Desc = map (\<lambda>i. \<lparr>Packet = TxBuf i, Ctrl = 0\<rparr>) [0..<3], Tx_Stat = replicate 3 0,
      rx_buf = replicate 4 (replicate 1536 0), tx_buf = replicate 3 (replicate 1536 0),
      rx_desc_addr = 0, rx_stat_addr = 0, tx_desc_addr = 0, tx_stat_addr = 0\<rparr>"

lemma emac_sample_ok: "rx_ok emac_sample"
  "tx_ok (emac_sample\<lparr>regs := (\<lambda>_. 0)(TxProduceIndex := 2)\<rparr>)"
  by (simp_all add: rx_ok_def tx_ok_def emac_sample_def rx_pidx_def rx_cidx_def tx_pidx_def tx_cidx_def
      comp_def)

lemma tx_bounds: "tx_ok st \<Longrightarrow> tx_pidx st < 3" "tx_ok st \<Longrightarrow> tx_cidx st < 3"
  by (simp_all add: tx_ok_def)

lemma length_tx_queue:
  "length (tx_queue st) = (if tx_cidx st \<le> tx_pidx st then tx_pidx st - tx_cidx st
      else 3 - tx_cidx st + tx_pidx st)"
  by (simp add: tx_queue_def ring_idx_def)

lemma tx_check_iff:
  assumes "tx_ok st"
  shows "EMAC_CheckTransmitIndex st \<longleftrightarrow> tx_cidx st \<noteq> tx_pidx st + 1"
proof (cases "rd TxConsumeIndex st = 0")
  case True
  then have "unat (rd TxConsumeIndex st - 1) = 4294967295"
    by (simp add: unsigned_minus_1_eq_mask mask_eq_exp_minus_1)
  then show ?thesis
    using tx_bounds [OF assms] True
    by (auto simp: EMAC_CheckTransmitIndex_def tx_pidx_def tx_cidx_def)
next
  case False
  then have "unat (rd TxConsumeIndex st - 1) = unat (rd TxConsumeIndex st) - 1"
    "0 < unat (rd TxConsumeIndex st)"
    by (simp_all add: unat_minus_small unsigned_1 Suc_le_eq word_unat_eq_iff)
  then show ?thesis
    unfolding EMAC_CheckTransmitIndex_def tx_pidx_def tx_cidx_def Let_def word_unat_eq_iff by auto
qed

lemma tx_full_next:
  assumes "tx_ok st" "length (tx_queue st) = 2"
  shows "(tx_pidx st + 1) mod 3 = tx_cidx st"
proof (cases "tx_cidx st \<le> tx_pidx st")
  case True
  then have "tx_pidx st - tx_cidx st = 2" using assms length_tx_queue [of st] by simp
  then have "tx_pidx st = 2" "tx_cidx st = 0" using tx_bounds [OF assms(1)] by linarith+
  then show ?thesis by simp
next
  case False
  then have "3 - tx_cidx st + tx_pidx st = 2" using assms length_tx_queue [of st] by simp
  then have "tx_cidx st = tx_pidx st + 1" using tx_bounds [OF assms(1)] by linarith
  then show ?thesis using tx_bounds [OF assms(1)] by simp
qed

subsection \<open>PHY access and initialisation\<close>

lemma poll_MIND_spec:
  "\<exists>b j. poll_MIND n st = (b, st\<lparr>n_mind := n_mind st + j\<rparr>) \<and> j \<le> n \<and>
     (b \<longleftrightarrow> (\<exists>k < n. mind st (n_mind st + k) AND EMAC_MIND_BUSY = 0)) \<and> (\<not> b \<longrightarrow> j = n)"
proof (induction n arbitrary: st)
  case 0
  then show ?case by (intro exI [of _ False] exI [of _ 0]) simp
next
  case (Suc n)
  show ?case
  proof (cases "mind st (n_mind st) AND EMAC_MIND_BUSY = 0")
    case True
    then show ?thesis
      by (intro exI [of _ True] exI [of _ 1]) (auto simp: rd_MIND_def)
  next
    case False
    obtain b j where *: "poll_MIND n (st\<lparr>n_mind := Suc (n_mind st)\<rparr>) =
        (b, st\<lparr>n_mind := Suc (n_mind st) + j\<rparr>)" "j \<le> n"
      "b \<longleftrightarrow> (\<exists>k < n. mind st (Suc (n_mind st) + k) AND EMAC_MIND_BUSY = 0)" "\<not> b \<longrightarrow> j = n"
      using Suc [of "st\<lparr>n_mind := Suc (n_mind st)\<rparr>"] by auto
    have "(\<exists>k < n. mind st (Suc (n_mind st) + k) AND EMAC_MIND_BUSY = 0) \<longleftrightarrow>
        (\<exists>k < Suc n. mind st (n_mind st + k) AND EMAC_MIND_BUSY = 0)"
      using False by (auto simp: less_Suc_eq_0_disj)
    then show ?thesis
      using * False by (intro exI [of _ b] exI [of _ "Suc j"]) (simp add: rd_MIND_def)
  qed
qed

definition phy_ready :: "emac \<Rightarrow> bool" where
  "phy_ready st \<longleftrightarrow> (\<exists>k < EMAC_MII_TOUT. mind st (n_mind st + k) AND EMAC_MIND_BUSY = 0)"

text \<open>What a PHY access may change: \<open>MADR\<close>, \<open>MCMD\<close>, \<open>MWTD\<close>, the log and the read counters.\<close>

definition emac_rest where
  "emac_rest (st :: emac) = (mind st, mrdd st, Rx_Desc st, Rx_Stat st, Tx_Desc st, Tx_Stat st, rx_buf st, tx_buf st,
     rx_desc_addr st, rx_stat_addr st, tx_desc_addr st, tx_stat_addr st)"

definition phy_frame :: "emac \<Rightarrow> emac \<Rightarrow> bool" where
  "phy_frame st st' \<longleftrightarrow> emac_rest st' = emac_rest st \<and>
     (\<forall>r. r \<notin> {MADR, MCMD, MWTD} \<longrightarrow> regs st' r = regs st r)"

lemma phy_frame_trans [trans]: "phy_frame a b \<Longrightarrow> phy_frame b c \<Longrightarrow> phy_frame a c"
  by (auto simp: phy_frame_def)

lemma phy_frame_refl [simp]: "phy_frame st st"
  by (simp add: phy_frame_def)

lemma phy_frameD:
  "phy_frame st st' \<Longrightarrow> mind st' = mind st" "phy_frame st st' \<Longrightarrow> mrdd st' = mrdd st"
  "phy_frame st st' \<Longrightarrow> r \<notin> {MADR, MCMD, MWTD} \<Longrightarrow> regs st' r = regs st r"
  by (simp_all add: phy_frame_def emac_rest_def)

text \<open>A PHY read: at most \<open>EMAC_MII_RD_TOUT\<close> polls; the data register if one found it idle, else -1.\<close>

lemma read_PHY_spec:
  "\<exists>st'. read_PHY r st = (if phy_ready st then mrdd st (n_mrdd st) else -1, st') \<and>
     phy_frame st st' \<and> n_mind st' \<le> n_mind st + EMAC_MII_TOUT \<and>
     n_mrdd st' = (if phy_ready st then Suc (n_mrdd st) else n_mrdd st)"
proof -
  let ?s = "wr MCMD EMAC_MCMD_READ (wr MADR (EMAC_DEF_ADR OR r) st)"
  obtain b j where p: "poll_MIND EMAC_MII_TOUT ?s = (b, ?s\<lparr>n_mind := n_mind ?s + j\<rparr>)" "j \<le> EMAC_MII_TOUT"
    "b \<longleftrightarrow> (\<exists>k < EMAC_MII_TOUT. mind ?s (n_mind ?s + k) AND EMAC_MIND_BUSY = 0)"
    using poll_MIND_spec by blast
  have "b = phy_ready st" using p(3) by (simp add: phy_ready_def wr_def)
  then show ?thesis
    using p(1,2) by (auto simp: read_PHY_def wr_def rd_MRDD_def phy_frame_def emac_rest_def)
qed

lemma write_PHY_spec:
  "\<exists>st'. write_PHY r v st = (if phy_ready st then 0 else -1, st') \<and>
     phy_frame st st' \<and> n_mind st' \<le> n_mind st + EMAC_MII_TOUT \<and> n_mrdd st' = n_mrdd st"
proof -
  let ?s = "wr MWTD (ucast v) (wr MADR (EMAC_DEF_ADR OR r) st)"
  obtain b j where p: "poll_MIND EMAC_MII_TOUT ?s = (b, ?s\<lparr>n_mind := n_mind ?s + j\<rparr>)" "j \<le> EMAC_MII_TOUT"
    "b \<longleftrightarrow> (\<exists>k < EMAC_MII_TOUT. mind ?s (n_mind ?s + k) AND EMAC_MIND_BUSY = 0)"
    using poll_MIND_spec by blast
  have "b = phy_ready st" using p(3) by (simp add: phy_ready_def wr_def)
  then show ?thesis
    using p(1,2) by (auto simp: write_PHY_def wr_def phy_frame_def emac_rest_def)
qed

lemma poll_PHY_frame:
  "phy_frame st (snd (poll_PHY r ready n regv st)) \<and>
   n_mind (snd (poll_PHY r ready n regv st)) \<le> n_mind st + n * EMAC_MII_TOUT"
proof (induction n arbitrary: regv st)
  case 0
  then show ?case by simp
next
  case (Suc n)
  obtain v st1 where r: "read_PHY r st = (v, st1)" "phy_frame st st1"
    "n_mind st1 \<le> n_mind st + EMAC_MII_TOUT"
    using read_PHY_spec [of r st] by auto
  show ?case
    using r Suc [of st1 v] phy_frame_trans [OF r(2)] by (auto simp: split_beta)
qed

text \<open>The device never leaves the busy state.\<close>

definition always_busy :: "emac \<Rightarrow> bool" where
  "always_busy st \<longleftrightarrow> (\<forall>k. mind st k AND EMAC_MIND_BUSY \<noteq> 0)"

text \<open>The device is never busy.\<close>

definition never_busy :: "emac \<Rightarrow> bool" where
  "never_busy st \<longleftrightarrow> (\<forall>k. mind st k AND EMAC_MIND_BUSY = 0)"

lemma busy_ready:
  "always_busy st \<Longrightarrow> \<not> phy_ready st" "never_busy st \<Longrightarrow> phy_ready st"
  by (auto simp: always_busy_def never_busy_def phy_ready_def EMAC_MII_TOUT_def intro: exI [of _ 0])

lemma busy_frame:
  "phy_frame st st' \<Longrightarrow> always_busy st' = always_busy st"
  "phy_frame st st' \<Longrightarrow> never_busy st' = never_busy st"
  by (simp_all add: always_busy_def never_busy_def phy_frameD)

lemma UpdatePHYStatus_result: "fst (EMAC_UpdatePHYStatus st) = 0"
  by (simp add: EMAC_UpdatePHYStatus_def Let_def split: prod.split)

lemma SetPHYMode_result:
  "fst (EMAC_SetPHYMode m st) =
     (let (id1, st) = read_PHY EMAC_PHY_REG_IDR1 st; (id2, st) = read_PHY EMAC_PHY_REG_IDR2 st
      in if push_bit 16 id1 OR (id2 AND 0xFFF0) = EMAC_DP83848C_ID \<and> m \<le> 4 then 0 else -1)"
proof -
  have m: "m \<le> 4 \<longleftrightarrow> m = 0 \<or> m = 1 \<or> m = 2 \<or> m = 3 \<or> m = 4" for m :: u32
  proof
    assume "m \<le> 4"
    then have "unat m \<le> 4" by (simp add: word_le_nat_alt)
    then have "unat m = 0 \<or> unat m = 1 \<or> unat m = 2 \<or> unat m = 3 \<or> unat m = 4" by linarith
    then show "m = 0 \<or> m = 1 \<or> m = 2 \<or> m = 3 \<or> m = 4" by (simp add: word_unat_eq_iff)
  qed auto
  show ?thesis
    unfolding EMAC_SetPHYMode_def Let_def split_beta m
    by (auto simp: UpdatePHYStatus_result split_beta Let_def)
qed

lemma SetPHYMode_frame:
  "emac_rest (snd (EMAC_SetPHYMode m st)) = emac_rest st \<and>
   (\<forall>r. r \<notin> {MADR, MCMD, MWTD, MAC2, Command, IPGT, SUPP} \<longrightarrow>
      regs (snd (EMAC_SetPHYMode m st)) r = regs st r) \<and>
   regs (snd (EMAC_SetPHYMode m st)) Command \<in> {regs st Command, regs st Command OR EMAC_CR_FULL_DUP}"
proof -
  define ok where "ok s \<longleftrightarrow> emac_rest s = emac_rest st \<and>
     (\<forall>r. r \<notin> {MADR, MCMD, MWTD, MAC2, Command, IPGT, SUPP} \<longrightarrow> regs s r = regs st r) \<and>
     regs s Command \<in> {regs st Command, regs st Command OR EMAC_CR_FULL_DUP}" for s :: emac
  have step: "ok s'" if "phy_frame s s'" "ok s" for s s'
    using that by (auto simp: ok_def phy_frame_def)
  have rd: "ok (snd (read_PHY r s))" if "ok s" for r s
    using read_PHY_spec [of r s] step that by auto
  have upd: "ok (snd (EMAC_UpdatePHYStatus s))" if s: "phy_frame st s" for s
  proof -
    have "phy_frame st (snd (poll_PHY r f n v s))" for r f n v
      using phy_frame_trans [OF s] poll_PHY_frame [of s r f n v] by auto
    then show ?thesis
      unfolding EMAC_UpdatePHYStatus_def
      by (auto simp: split_beta Let_def wr_def ok_def phy_frame_def emac_rest_def)
  qed
  have pf: "phy_frame st (snd (read_PHY r s))" "phy_frame st (snd (write_PHY r v s))"
    "phy_frame st (snd (poll_PHY r f n x s))" if "phy_frame st s" for r v f n x s
    using phy_frame_trans [OF that] read_PHY_spec [of r s] write_PHY_spec [of r v s]
      poll_PHY_frame [of s r f n x] by auto
  have st: "phy_frame st st" "ok st" by (simp_all add: ok_def)
  have "ok (snd (EMAC_SetPHYMode m st))"
    unfolding EMAC_SetPHYMode_def
    by (simp add: split_beta Let_def UpdatePHYStatus_result upd pf st rd)
  then show ?thesis by (simp add: ok_def)
qed

lemma reset_MAC_frame: "emac_rest (reset_MAC st) = emac_rest st"
  "n_mind (reset_MAC st) = n_mind st" "n_mrdd (reset_MAC st) = n_mrdd st"
  "regs (reset_MAC st) MAC1 = EMAC_MAC1_PASS_ALL"
  "regs (reset_MAC st) Command = EMAC_CR_RMII OR EMAC_CR_PASS_RUNT_FRM"
  "r \<in> {RxProduceIndex, TxConsumeIndex} \<Longrightarrow> regs (reset_MAC st) r = regs st r"
  by (auto simp: reset_MAC_def wr_def Let_def emac_rest_def)


lemma start_MAC_regs:
  "regs (start_MAC addr st) r =
     (case r of
        SA0 \<Rightarrow> push_bit 8 (ucast (addr ! 5)) OR ucast (addr ! 4)
      | SA1 \<Rightarrow> push_bit 8 (ucast (addr ! 3)) OR ucast (addr ! 2)
      | SA2 \<Rightarrow> push_bit 8 (ucast (addr ! 1)) OR ucast (addr ! 0)
      | RxDescriptor \<Rightarrow> rx_desc_addr st | RxStatus \<Rightarrow> rx_stat_addr st | RxDescriptorNumber \<Rightarrow> 3
      | RxConsumeIndex \<Rightarrow> 0
      | TxDescriptor \<Rightarrow> tx_desc_addr st | TxStatus \<Rightarrow> tx_stat_addr st | TxDescriptorNumber \<Rightarrow> 2
      | TxProduceIndex \<Rightarrow> 0
      | RxFilterCtrl \<Rightarrow> 0x26 | IntEnable \<Rightarrow> 0x88 | IntClear \<Rightarrow> 0xFFFF
      | Command \<Rightarrow> regs st Command OR 3 | MAC1 \<Rightarrow> regs st MAC1 OR 1
      | _ \<Rightarrow> regs st r)"
  by (cases r) (simp_all add: start_MAC_def setEmacAddr_def rx_descr_init_def tx_descr_init_def wr_def Let_def)

lemma start_MAC_rings:
  "map Packet (Rx_Desc (start_MAC addr st)) = map RxBuf [0..<4]"
  "length (Rx_Stat (start_MAC addr st)) = 4"
  "map Packet (Tx_Desc (start_MAC addr st)) = map TxBuf [0..<3]"
  "rx_buf (start_MAC addr st) = rx_buf st" "tx_buf (start_MAC addr st) = tx_buf st"
  by (simp_all add: start_MAC_def setEmacAddr_def rx_descr_init_def tx_descr_init_def wr_def Let_def comp_def)

definition phy_id_ok :: "u32 \<Rightarrow> u32 \<Rightarrow> bool" where
  "phy_id_ok id1 id2 \<longleftrightarrow> push_bit 16 id1 OR (id2 AND 0xFFF0) = EMAC_DP83848C_ID"

lemma EMAC_Init_eq:
  "EMAC_Init m addr st =
     (let s1 = snd (write_PHY EMAC_PHY_REG_BMCR 0x8000 (reset_MAC st));
          s2 = snd (poll_PHY EMAC_PHY_REG_BMCR
                 (\<lambda>v. v AND (EMAC_PHY_BMCR_RESET OR EMAC_PHY_BMCR_POWERDOWN) = 0) EMAC_PHY_RESP_TOUT 0 s1)
      in if fst (EMAC_SetPHYMode m s2) < 0 then (False, snd (EMAC_SetPHYMode m s2))
         else (True, start_MAC addr (snd (EMAC_SetPHYMode m s2))))"
  by (simp add: EMAC_Init_def Let_def split_beta)

lemma emac_init_success_ok:
  assumes dev: "never_busy st" "n_mrdd st = 0" "mrdd st 0 AND 0x8800 = 0"
    and bufs: "map length (rx_buf st) = replicate 4 1536" "map length (tx_buf st) = replicate 3 1536"
    and hw: "rd RxProduceIndex st = 0" "rd TxConsumeIndex st = 0"
  shows "let (ok, st') = EMAC_Init m addr st
    in ok = (phy_id_ok (mrdd st 1) (mrdd st 2) \<and> m \<le> 4) \<and>
       (ok \<longrightarrow> rd MAC1 st' = 3 \<and> rd Command st' AND 0x243 = 0x243 \<and> rd RxFilterCtrl st' = 0x26 \<and>
          rd IntEnable st' = 0x88 \<and>
          rd SA0 st' = push_bit 8 (ucast (addr ! 5)) OR ucast (addr ! 4) \<and>
          rd SA1 st' = push_bit 8 (ucast (addr ! 3)) OR ucast (addr ! 2) \<and>
          rd SA2 st' = push_bit 8 (ucast (addr ! 1)) OR ucast (addr ! 0) \<and>
          rx_ok st' \<and> tx_ok st' \<and> rx_queue st' = [] \<and> tx_queue st' = [])"
proof -
  let ?ready = "\<lambda>v :: u32. v AND (EMAC_PHY_BMCR_RESET OR EMAC_PHY_BMCR_POWERDOWN) = 0"
  define s1 where "s1 = snd (write_PHY EMAC_PHY_REG_BMCR 0x8000 (reset_MAC st))"
  define s2 where "s2 = snd (poll_PHY EMAC_PHY_REG_BMCR ?ready EMAC_PHY_RESP_TOUT 0 s1)"
  have rest: "mind (reset_MAC st) = mind st" "mrdd (reset_MAC st) = mrdd st"
    using reset_MAC_frame(1) [of st] by (simp_all add: emac_rest_def)
  have f1: "phy_frame (reset_MAC st) s1" "n_mrdd s1 = 0"
    using write_PHY_spec [of EMAC_PHY_REG_BMCR "0x8000" "reset_MAC st"] dev(2)
    by (auto simp: s1_def reset_MAC_frame)
  have nb1: "never_busy s1" using dev(1) rest busy_frame(2) [OF f1(1)] by (simp add: never_busy_def)
  have m1: "mrdd s1 = mrdd st" using phy_frameD(2) [OF f1(1)] rest by simp
  obtain s2' where r: "read_PHY EMAC_PHY_REG_BMCR s1 = (mrdd st 0, s2')" "phy_frame s1 s2'" "n_mrdd s2' = 1"
    using read_PHY_spec [of EMAC_PHY_REG_BMCR s1] busy_ready(2) [OF nb1] f1(2) m1 by auto
  have s2: "s2 = s2'"
    using r(1) dev(3) by (simp add: s2_def numeral_eq_Suc split_beta)
  have f2: "phy_frame (reset_MAC st) s2" using phy_frame_trans [OF f1(1) r(2)] s2 by simp
  have nb2: "never_busy s2" using nb1 busy_frame(2) [OF r(2)] s2 by simp
  have m2: "mrdd s2 = mrdd st" using phy_frameD(2) [OF f2] rest by simp
  obtain s3 where r3: "read_PHY EMAC_PHY_REG_IDR1 s2 = (mrdd st 1, s3)" "phy_frame s2 s3" "n_mrdd s3 = 2"
    using read_PHY_spec [of EMAC_PHY_REG_IDR1 s2] busy_ready(2) [OF nb2] m2 r(3) s2 by auto
  have nb3: "never_busy s3" using nb2 busy_frame(2) [OF r3(2)] by simp
  have m3: "mrdd s3 = mrdd st" using phy_frameD(2) [OF r3(2)] m2 by simp
  obtain s4 where r4: "read_PHY EMAC_PHY_REG_IDR2 s3 = (mrdd st 2, s4)"
    using read_PHY_spec [of EMAC_PHY_REG_IDR2 s3] busy_ready(2) [OF nb3] m3 r3(3) by auto
  have res: "fst (EMAC_SetPHYMode m s2) = (if phy_id_ok (mrdd st 1) (mrdd st 2) \<and> m \<le> 4 then 0 else -1)"
    unfolding SetPHYMode_result by (simp add: r3 r4 phy_id_ok_def)
  let ?s5 = "snd (EMAC_SetPHYMode m s2)"
  have init: "EMAC_Init m addr st = (if phy_id_ok (mrdd st 1) (mrdd st 2) \<and> m \<le> 4
      then (True, start_MAC addr ?s5) else (False, ?s5))"
    unfolding EMAC_Init_eq Let_def by (fold s1_def, fold s2_def) (simp add: res)
  have e5: "emac_rest ?s5 = emac_rest st"
    using SetPHYMode_frame [of m s2] f2 reset_MAC_frame(1) [of st] by (simp add: phy_frame_def)
  have r5: "regs ?s5 MAC1 = 2" "regs ?s5 RxProduceIndex = 0" "regs ?s5 TxConsumeIndex = 0"
    "regs ?s5 Command = 0x240 \<or> regs ?s5 Command = 0x640"
    using SetPHYMode_frame [of m s2] f2 hw by (auto simp: phy_frame_def reset_MAC_frame)
  have "rx_ok (start_MAC addr ?s5)" "tx_ok (start_MAC addr ?s5)"
    using e5 bufs r5 by (simp_all add: rx_ok_def tx_ok_def start_MAC_rings start_MAC_regs emac_rest_def
        rx_pidx_def rx_cidx_def tx_pidx_def tx_cidx_def)
  moreover have "rx_queue (start_MAC addr ?s5) = []" "tx_queue (start_MAC addr ?s5) = []"
    using r5 by (simp_all add: rx_queue_def tx_queue_def start_MAC_regs rx_pidx_def rx_cidx_def
        tx_pidx_def tx_cidx_def)
  ultimately show ?thesis
    using r5 unfolding init by (auto simp: start_MAC_regs)
qed

text \<open>
  C18. On a PHY that answers, \<open>EMAC_Init\<close> succeeds exactly when the identifier registers hold the
  DP83848C identifier and the mode is one of the five modes.  Then the receiver and both data
  paths are enabled, the station address, the filter and the interrupt mask are programmed, and both descriptor
  rings are set up and empty.  Whether the link ever comes up makes no difference.
\<close>
theorem emac_init_success:
  assumes dev: "never_busy st" "n_mrdd st = 0" "mrdd st 0 AND 0x8800 = 0"
    and bufs: "map length (rx_buf st) = replicate 4 1536" "map length (tx_buf st) = replicate 3 1536"
    and hw: "rd RxProduceIndex st = 0" "rd TxConsumeIndex st = 0"
  shows "let (ok, st') = EMAC_Init m addr st
    in ok = (phy_id_ok (mrdd st 1) (mrdd st 2) \<and> m \<le> 4) \<and>
       (ok \<longrightarrow> rd MAC1 st' = 3 \<and> rd Command st' AND 0x243 = 0x243 \<and> rd RxFilterCtrl st' = 0x26 \<and>
          rd IntEnable st' = 0x88 \<and>
          rd SA0 st' = push_bit 8 (ucast (addr ! 5)) OR ucast (addr ! 4) \<and>
          rd SA1 st' = push_bit 8 (ucast (addr ! 3)) OR ucast (addr ! 2) \<and>
          rd SA2 st' = push_bit 8 (ucast (addr ! 1)) OR ucast (addr ! 0) \<and>
          rx_ok st' \<and> tx_ok st' \<and> rx_queue st' = [] \<and> tx_queue st' = [])"
  using assms by (rule emac_init_success_ok)

theorem emac_init_success_witness:
  "fst (EMAC_Init 3 [0, 0, 0, 0, 0, 1] emac_sample) \<and> \<not> fst (EMAC_Init 5 [0, 0, 0, 0, 0, 1] emac_sample)"
proof -
  have "never_busy emac_sample" "n_mrdd emac_sample = 0" "mrdd emac_sample 0 AND 0x8800 = 0"
    "map length (rx_buf emac_sample) = replicate 4 1536" "map length (tx_buf emac_sample) = replicate 3 1536"
    "rd RxProduceIndex emac_sample = 0" "rd TxConsumeIndex emac_sample = 0"
    "phy_id_ok (mrdd emac_sample 1) (mrdd emac_sample 2)"
    by (simp_all add: emac_sample_def never_busy_def phy_id_ok_def)
  then show ?thesis
    using emac_init_success [of emac_sample 3 "[0, 0, 0, 0, 0, 1]"]
      emac_init_success [of emac_sample 5 "[0, 0, 0, 0, 0, 1]"]
    by (auto simp: split_beta)
qed

text \<open>
  C19. A PHY that never leaves the busy state cannot hang the driver: \<open>EMAC_Init\<close> returns
  \<open>ERROR\<close> after at most 19 PHY accesses of \<open>EMAC_MII_RD_TOUT\<close> polls each.
\<close>
theorem emac_init_dead_phy:
  assumes "always_busy st"
  shows "let (ok, st') = EMAC_Init m addr st
    in \<not> ok \<and> n_mind st' \<le> n_mind st + 19 * EMAC_MII_TOUT"
proof -
  let ?ready = "\<lambda>v :: u32. v AND (EMAC_PHY_BMCR_RESET OR EMAC_PHY_BMCR_POWERDOWN) = 0"
  define s1 where "s1 = snd (write_PHY EMAC_PHY_REG_BMCR 0x8000 (reset_MAC st))"
  define s2 where "s2 = snd (poll_PHY EMAC_PHY_REG_BMCR ?ready EMAC_PHY_RESP_TOUT 0 s1)"
  have rest: "mind (reset_MAC st) = mind st"
    using reset_MAC_frame(1) [of st] by (simp add: emac_rest_def)
  have f1: "phy_frame (reset_MAC st) s1" "n_mind s1 \<le> n_mind st + EMAC_MII_TOUT"
    using write_PHY_spec [of EMAC_PHY_REG_BMCR "0x8000" "reset_MAC st"]
    by (auto simp: s1_def reset_MAC_frame)
  have f2: "phy_frame s1 s2" "n_mind s2 \<le> n_mind s1 + 16 * EMAC_MII_TOUT"
    using poll_PHY_frame [of s1 EMAC_PHY_REG_BMCR ?ready EMAC_PHY_RESP_TOUT 0] by (auto simp: s2_def)
  have b2: "always_busy s2"
    using assms rest busy_frame(1) [OF phy_frame_trans [OF f1(1) f2(1)]] by (simp add: always_busy_def)
  obtain s3 where r3: "read_PHY EMAC_PHY_REG_IDR1 s2 = (-1, s3)" "phy_frame s2 s3"
    "n_mind s3 \<le> n_mind s2 + EMAC_MII_TOUT"
    using read_PHY_spec [of EMAC_PHY_REG_IDR1 s2] busy_ready(1) [OF b2] by auto
  have b3: "always_busy s3" using b2 busy_frame(1) [OF r3(2)] by simp
  obtain s4 where r4: "read_PHY EMAC_PHY_REG_IDR2 s3 = (-1, s4)"
    "n_mind s4 \<le> n_mind s3 + EMAC_MII_TOUT"
    using read_PHY_spec [of EMAC_PHY_REG_IDR2 s3] busy_ready(1) [OF b3] by auto
  have "EMAC_SetPHYMode m s2 = (-1, s4)"
  proof -
    have "push_bit 16 (-1) OR (-1 AND 0xFFF0) \<noteq> (EMAC_DP83848C_ID :: u32)"
      by (simp add: mask_eq_exp_minus_1)
    then show ?thesis
      unfolding EMAC_SetPHYMode_def Let_def r3(1) r4(1) prod.case by (simp only: if_False)
  qed
  then have "EMAC_Init m addr st = (False, s4)"
    unfolding EMAC_Init_eq Let_def by (fold s1_def, fold s2_def) simp
  then show ?thesis using f1(2) f2(2) r3(3) r4(2) by simp
qed

theorem emac_init_dead_phy_witness:
  "\<not> fst (EMAC_Init 3 [0, 0, 0, 0, 0, 1] (emac_sample\<lparr>mind := \<lambda>_. 1\<rparr>))"
proof -
  have "always_busy (emac_sample\<lparr>mind := \<lambda>_. 1\<rparr>)" by (simp add: always_busy_def)
  from emac_init_dead_phy [OF this, of 3 "[0, 0, 0, 0, 0, 1]"] show ?thesis by (auto simp: split_beta)
qed


definition hash_bit :: "emac \<Rightarrow> nat \<Rightarrow> bool" where
  "hash_bit st k = (if k < 32 then bit (rd HashFilterL st) k else bit (rd HashFilterH st) (k - 32))"

text \<open>
  \<open>EMAC_SetHashFilter\<close> changes exactly one of the 64 filter bits: the one numbered by bits
  23 to 28 of the bit-serial Ethernet CRC (polynomial 0x04C11DB7, low bit of each byte first) of
  the six address bytes; the nibble-at-a-time \<open>emac_CRCCalc\<close> computes that CRC.
\<close>
lemma emac_hash_filter:
  assumes "k < 64"
  shows "hash_bit (EMAC_SetHashFilter dst enable st) k =
    (if k = unat (crc32_bits (concat (map bits_of (take 6 dst)))) div 2 ^ 23 mod 64 then enable
     else hash_bit st k)"
proof -
  let ?h = "unat (drop_bit 23 (emac_CRCCalc (take 6 dst)) AND 0x3F)"
  have "x AND 0x3F = take_bit 6 x" for x :: u32
    by (simp add: take_bit_eq_mask mask_eq_exp_minus_1)
  then have h: "?h = unat (crc32_bits (concat (map bits_of (take 6 dst)))) div 2 ^ 23 mod 64"
    by (simp add: unat_take_bit_u32 unat_drop_bit emac_CRCCalc_crc32)
  then have h64: "?h < 64" by simp
  have one: "bit (push_bit n (1 :: u32)) j \<longleftrightarrow> j = n" if "n < 32" "j < 32" for n j
    using that by (auto simp: bit_simps)
  show ?thesis
    unfolding h [symmetric] using h64 assms
    by (cases "k < 32"; cases "31 < ?h"; cases enable)
       (auto simp: EMAC_SetHashFilter_def Let_def hash_bit_def wr_def bit_or_iff bit_and_iff bit_not_iff
         possible_bit_word one simp del: push_bit_of_1)
qed

end
