(* ===== verification/Board_Io.thy ===== *)
theory Board_Io
  imports Prelude
begin

text \<open>
  The board's own devices: the two UARTs (\<open>uart.c\<close>), the RS-485 transceiver on UART2
  (\<open>MAX485.c\<close>), the HD44780 display on port 2 (\<open>LCD1602.c\<close>), and the LED and delay loop of
  \<open>main.c\<close>.  The state is the registers the code writes together with what the devices see:
  \<open>sent\<close> are the bytes written to a transmitter with the level of the RS-485 direction pin at that
  time, \<open>latched\<close> are the bytes the display takes over, with the levels of its RS and RW
  inputs, at a falling edge of EN.  Reading the line status or the receive buffer asks the device:
  \<open>lsr\<close> and \<open>rbr\<close> are the answers in order.
\<close>

datatype uart = UART0 | UART2

datatype uart_reg = LCR | DLM | DLL | FCR

record board =
  p0 :: u32
  p0dir :: u32
  p2 :: u32
  p2dir :: u32
  pinsel0 :: u32
  pconp :: u32
  uregs :: "uart \<Rightarrow> uart_reg \<Rightarrow> u32"
  lsr :: "uart \<Rightarrow> nat \<Rightarrow> u32"
  n_lsr :: "uart \<Rightarrow> nat"
  rbr :: "uart \<Rightarrow> nat \<Rightarrow> u8"
  n_rbr :: "uart \<Rightarrow> nat"
  sent :: "(uart \<times> u8 \<times> bool) list"
  latched :: "(bool \<times> bool \<times> u8) list"
  ticks :: nat

subsection \<open>Delay, port 2, LED\<close>

definition TDelay :: "nat \<Rightarrow> board \<Rightarrow> board" where
  "TDelay n b = b\<lparr>ticks := ticks b + n\<rparr>"

text \<open>A new level on port 2; the display latches when EN (pin 12) falls.\<close>

definition set_p2 :: "u32 \<Rightarrow> board \<Rightarrow> board" where
  "set_p2 v b =
     b\<lparr>p2 := v,
       latched := (if bit (p2 b) 12 \<and> \<not> bit v 12 then latched b @ [(bit v 10, bit v 11, ucast v)]
                   else latched b)\<rparr>"

definition P2_FIOSET :: "u32 \<Rightarrow> board \<Rightarrow> board" where
  "P2_FIOSET m b = set_p2 (p2 b OR m) b"

definition P2_FIOCLR :: "u32 \<Rightarrow> board \<Rightarrow> board" where
  "P2_FIOCLR m b = set_p2 (p2 b AND NOT m) b"

definition P2_FIOPIN0 :: "u8 \<Rightarrow> board \<Rightarrow> board" where
  "P2_FIOPIN0 v b = set_p2 ((p2 b AND NOT 0xFF) OR ucast v) b"

text \<open>\<open>FIOCLR\<close> reads as zero, so \<open>FIOCLR |= m\<close> clears the pins of \<open>m\<close>.\<close>

definition LED_config :: "board \<Rightarrow> board" where
  "LED_config b = b\<lparr>p0dir := 0x00800000, p0 := p0 b AND NOT 0x00800000\<rparr>"

subsection \<open>UART\<close>

definition set_ureg :: "uart \<Rightarrow> uart_reg \<Rightarrow> u32 \<Rightarrow> board \<Rightarrow> board" where
  "set_ureg u r v b = b\<lparr>uregs := (uregs b)(u := (uregs b u)(r := v))\<rparr>"

text \<open>\<open>(FPCLK / 16) / UARTx_BPS\<close> with \<open>FPCLK = 100000000 / 4\<close>, as a \<open>uint16_t\<close>.\<close>

definition usFdiv :: nat where
  "usFdiv = (100000000 div 4 div 16) div 115200 mod 65536"

definition UART0_Init :: "board \<Rightarrow> board" where
  "UART0_Init b =
     (let b = b\<lparr>pinsel0 := pinsel0 b OR push_bit 4 1\<rparr>;
          b = b\<lparr>pinsel0 := pinsel0 b OR push_bit 6 1\<rparr>;
          b = set_ureg UART0 LCR 0x83 b;
          b = set_ureg UART0 DLM (of_nat (usFdiv div 256)) b;
          b = set_ureg UART0 DLL (of_nat (usFdiv mod 256)) b;
          b = set_ureg UART0 LCR 0x03 b
      in set_ureg UART0 FCR 0x06 b)"

definition UART2_Init :: "board \<Rightarrow> board" where
  "UART2_Init b =
     (let b = b\<lparr>pinsel0 := pinsel0 b OR push_bit 20 1\<rparr>;
          b = b\<lparr>pinsel0 := pinsel0 b OR push_bit 22 1\<rparr>;
          b = b\<lparr>pconp := pconp b OR push_bit 24 1\<rparr>;
          b = set_ureg UART2 LCR 0x83 b;
          b = set_ureg UART2 DLM (of_nat (usFdiv div 256)) b;
          b = set_ureg UART2 DLL (of_nat (usFdiv mod 256)) b;
          b = set_ureg UART2 LCR 0x03 b
      in set_ureg UART2 FCR 0x06 b)"

text \<open>\<open>while (!(LSR & m));\<close> may spin forever.\<close>

partial_function (option) wait_lsr :: "uart \<Rightarrow> u32 \<Rightarrow> board \<Rightarrow> board option" where
  "wait_lsr u m b =
     (let v = lsr b u (n_lsr b u);
          b = b\<lparr>n_lsr := (n_lsr b)(u := Suc (n_lsr b u))\<rparr>
      in if v AND m = 0 then wait_lsr u m b else Some b)"

definition UART_SendByte :: "uart \<Rightarrow> u8 \<Rightarrow> board \<Rightarrow> board option" where
  "UART_SendByte u c b = do {
     b \<leftarrow> wait_lsr u 0x20 b;
     Some (b\<lparr>sent := sent b @ [(u, c, bit (p2 b) 8)]\<rparr>)
   }"

definition UART_GetChar :: "uart \<Rightarrow> board \<Rightarrow> (u8 \<times> board) option" where
  "UART_GetChar u b = do {
     b \<leftarrow> wait_lsr u 0x01 b;
     Some (rbr b u (n_rbr b u), b\<lparr>n_rbr := (n_rbr b)(u := Suc (n_rbr b u))\<rparr>)
   }"

definition UART0_SendByte :: "u8 \<Rightarrow> board \<Rightarrow> board option" where
  "UART0_SendByte = UART_SendByte UART0"

definition UART2_SendByte :: "u8 \<Rightarrow> board \<Rightarrow> board option" where
  "UART2_SendByte = UART_SendByte UART2"

definition UART0_GetChar :: "board \<Rightarrow> (u8 \<times> board) option" where
  "UART0_GetChar = UART_GetChar UART0"

definition UART2_GetChar :: "board \<Rightarrow> (u8 \<times> board) option" where
  "UART2_GetChar = UART_GetChar UART2"

text \<open>A C string is the bytes from its pointer to the end of its object.\<close>

fun UART0_SendString :: "u8 list \<Rightarrow> board \<Rightarrow> board option" where
  "UART0_SendString [] b = None"
| "UART0_SendString (c # cs) b =
     (if c \<noteq> 0 then UART0_SendByte c b \<bind> UART0_SendString cs else Some b)"

fun UART2_SendString :: "u8 list \<Rightarrow> board \<Rightarrow> board option" where
  "UART2_SendString [] b = None"
| "UART2_SendString (c # cs) b =
     (if c \<noteq> 0 then UART2_SendByte c b \<bind> UART2_SendString cs else Some b)"

subsection \<open>RS-485\<close>

definition MAX485_DIR_S :: "board \<Rightarrow> board" where "MAX485_DIR_S = P2_FIOSET 0x100"
definition MAX485_DIR_R :: "board \<Rightarrow> board" where "MAX485_DIR_R = P2_FIOCLR 0x100"

definition MAX485_Init :: "board \<Rightarrow> board" where
  "MAX485_Init b = UART2_Init (MAX485_DIR_R (b\<lparr>p2dir := p2dir b OR 0x100\<rparr>))"

definition MAX485_SendByte :: "u8 \<Rightarrow> board \<Rightarrow> board option" where
  "MAX485_SendByte c b = UART2_SendByte c b"

definition MAX485_GetChar :: "board \<Rightarrow> (u8 \<times> board) option" where
  "MAX485_GetChar b = UART2_GetChar b"

definition MAX485_SendString :: "u8 list \<Rightarrow> board \<Rightarrow> board option" where
  "MAX485_SendString s b = do {
     let b = TDelay 10000 (MAX485_DIR_S b);
     b \<leftarrow> UART2_SendString s b;
     Some (MAX485_DIR_R (TDelay 10000 b))
   }"

subsection \<open>Display\<close>

definition LCD_pin :: "nat \<Rightarrow> u8 \<Rightarrow> board \<Rightarrow> board" where
  "LCD_pin pin Pdata b =
     (if Pdata \<noteq> 0 then P2_FIOSET (push_bit pin 1) b else P2_FIOCLR (push_bit pin 1) b)"

definition LCD_BLK :: "u8 \<Rightarrow> board \<Rightarrow> board" where "LCD_BLK v b = LCD_pin 13 v b"
definition LCD_EN :: "u8 \<Rightarrow> board \<Rightarrow> board" where "LCD_EN v b = TDelay 500 (LCD_pin 12 v b)"
definition LCD_RS :: "u8 \<Rightarrow> board \<Rightarrow> board" where "LCD_RS v b = TDelay 500 (LCD_pin 10 v b)"
definition LCD_RW :: "u8 \<Rightarrow> board \<Rightarrow> board" where "LCD_RW v b = TDelay 500 (LCD_pin 11 v b)"
definition LCD_DATA :: "u8 \<Rightarrow> board \<Rightarrow> board" where "LCD_DATA = P2_FIOPIN0"

definition LCD_DATA_PORT :: "board \<Rightarrow> u8" where "LCD_DATA_PORT b = ucast (p2 b)"

definition LCDWrite_Command :: "u8 \<Rightarrow> board \<Rightarrow> board" where
  "LCDWrite_Command c b = LCD_EN 0 (LCD_DATA c (LCD_EN 1 (LCD_RS 0 (LCD_RW 0 (LCD_EN 0 b)))))"

definition LCDWrite_Data :: "u8 \<Rightarrow> board \<Rightarrow> board" where
  "LCDWrite_Data c b = LCD_EN 0 (LCD_DATA c (LCD_EN 1 (LCD_RS 1 (LCD_RW 0 (LCD_EN 0 b)))))"

definition LCD_Init :: "board \<Rightarrow> board" where
  "LCD_Init b =
     (let b = b\<lparr>p2dir := p2dir b OR 0x3CFF\<rparr>;
          b = TDelay 10000 (LCD_EN 0 b);
          b = TDelay 10000 (LCDWrite_Command 0x38 b);
          b = TDelay 10000 (LCDWrite_Command 0x01 b);
          b = TDelay 10000 (LCDWrite_Command 0x06 b)
      in LCDWrite_Command 0x0C b)"

definition LCM_Cursor :: "u8 \<Rightarrow> u8 \<Rightarrow> board \<Rightarrow> board" where
  "LCM_Cursor flag row b =
     (let row = (if 16 \<le> row then 0 else row)
      in if flag = 0 then LCDWrite_Command (row OR 0x80) b
         else if flag = 1 then LCDWrite_Command (row OR 0xC0) b
         else b)"

fun LCM_String :: "u8 list \<Rightarrow> board \<Rightarrow> board option" where
  "LCM_String [] b = None"
| "LCM_String (c # cs) b = (if c \<noteq> 0 then LCM_String cs (LCDWrite_Data c b) else Some b)"

subsection \<open>Lemmas\<close>

text \<open>The transmitter becomes ready again and again.\<close>

definition ready_often :: "uart \<Rightarrow> u32 \<Rightarrow> board \<Rightarrow> bool" where
  "ready_often u m b \<longleftrightarrow> (\<forall>n. \<exists>k \<ge> n. lsr b u k AND m \<noteq> 0)"

lemma wait_lsr_returns:
  assumes "lsr b u k AND m \<noteq> 0" "n_lsr b u \<le> k"
  shows "\<exists>n. wait_lsr u m b = Some (b\<lparr>n_lsr := (n_lsr b)(u := n)\<rparr>)"
  using assms
proof (induction "k - n_lsr b u" arbitrary: b)
  case 0
  then show ?case by (subst wait_lsr.simps) (auto simp: Let_def)
next
  case (Suc d)
  show ?case
  proof (cases "lsr b u (n_lsr b u) AND m = 0")
    case True
    let ?b = "b\<lparr>n_lsr := (n_lsr b)(u := Suc (n_lsr b u))\<rparr>"
    have "\<exists>n. wait_lsr u m ?b = Some (?b\<lparr>n_lsr := (n_lsr ?b)(u := n)\<rparr>)"
      using Suc by (intro Suc.hyps(1)) auto
    with True show ?thesis by (subst wait_lsr.simps) (auto simp: Let_def)
  next
    case False
    then show ?thesis by (subst wait_lsr.simps) (auto simp: Let_def)
  qed
qed

lemma UART_SendByte_ok:
  assumes "ready_often u 0x20 b"
  shows "\<exists>n. UART_SendByte u c b =
    Some (b\<lparr>n_lsr := (n_lsr b)(u := n), sent := sent b @ [(u, c, bit (p2 b) 8)]\<rparr>)"
proof -
  obtain k where "n_lsr b u \<le> k" "lsr b u k AND 0x20 \<noteq> 0"
    using assms unfolding ready_often_def by blast
  from wait_lsr_returns [OF this(2,1)] show ?thesis by (auto simp: UART_SendByte_def)
qed

lemma ready_often_upd [simp]:
  "ready_often u m (b\<lparr>n_lsr := f, sent := s\<rparr>) = ready_often u m b"
  "ready_often u m (b\<lparr>p2 := v, latched := l\<rparr>) = ready_often u m b"
  "ready_often u m (b\<lparr>ticks := t\<rparr>) = ready_often u m b"
  by (simp_all add: ready_often_def)

text \<open>Both \<open>SendString\<close> loops are the same loop on their own UART.\<close>

fun send_string :: "uart \<Rightarrow> u8 list \<Rightarrow> board \<Rightarrow> board option" where
  "send_string u [] b = None"
| "send_string u (c # cs) b = (if c \<noteq> 0 then UART_SendByte u c b \<bind> send_string u cs else Some b)"

lemma SendString_eq: "UART0_SendString s = send_string UART0 s"
  "UART2_SendString s = send_string UART2 s"
  by (induction s; rule ext; simp add: UART0_SendByte_def UART2_SendByte_def)+

lemma send_string_ok:
  "ready_often u 0x20 b \<Longrightarrow> 0 \<in> set s \<Longrightarrow>
   \<exists>f. send_string u s b =
     Some (b\<lparr>n_lsr := f, sent := sent b @ map (\<lambda>c. (u, c, bit (p2 b) 8)) (takeWhile (\<lambda>c. c \<noteq> 0) s)\<rparr>)"
proof (induction s arbitrary: b)
  case Nil
  then show ?case by simp
next
  case (Cons c cs)
  show ?case
  proof (cases "c = 0")
    case True
    then show ?thesis by (intro exI [of _ "n_lsr b"]) simp
  next
    case False
    obtain n where n: "UART_SendByte u c b =
      Some (b\<lparr>n_lsr := (n_lsr b)(u := n), sent := sent b @ [(u, c, bit (p2 b) 8)]\<rparr>)"
      using UART_SendByte_ok [OF Cons.prems(1)] by blast
    show ?thesis
      using Cons.IH [of "b\<lparr>n_lsr := (n_lsr b)(u := n), sent := sent b @ [(u, c, bit (p2 b) 8)]\<rparr>"]
        Cons.prems False n by auto
  qed
qed


text \<open>
  The RS-485 driver is switched to send while the characters go out and back to receive at the end; nothing
  goes to the display when EN is low.
\<close>

lemma MAX485_SendString_sends:
  assumes "ready_often UART2 0x20 b" "0 \<in> set s" "\<not> bit (p2 b) 12"
  shows "\<exists>b'. MAX485_SendString s b = Some b' \<and>
    sent b' = sent b @ map (\<lambda>c. (UART2, c, True)) (takeWhile (\<lambda>c. c \<noteq> 0) s) \<and>
    \<not> bit (p2 b') 8 \<and> \<not> bit (p2 b') 12 \<and> latched b' = latched b \<and> lsr b' = lsr b"
proof -
  let ?b = "TDelay 10000 (MAX485_DIR_S b)"
  have "bit (p2 b OR 0x100) 8" by (simp add: bit_or_iff)
  moreover have "ready_often UART2 0x20 ?b"
    using assms(1) by (simp add: TDelay_def MAX485_DIR_S_def P2_FIOSET_def set_p2_def)
  ultimately obtain f where "UART2_SendString s ?b = Some (?b\<lparr>n_lsr := f,
      sent := sent b @ map (\<lambda>c. (UART2, c, True)) (takeWhile (\<lambda>c. c \<noteq> 0) s)\<rparr>)"
    using send_string_ok [OF _ assms(2), of UART2 ?b]
    by (auto simp: SendString_eq TDelay_def MAX485_DIR_S_def P2_FIOSET_def set_p2_def)
  then show ?thesis
    using assms(3)
    by (auto simp: MAX485_SendString_def TDelay_def MAX485_DIR_S_def MAX485_DIR_R_def P2_FIOSET_def
        P2_FIOCLR_def set_p2_def bit_or_iff bit_and_iff bit_not_iff)
qed

lemma LCDWrite_latch:
  "latched (LCDWrite_Command c b) = (latched (LCD_EN 0 b)) @ [(False, False, c)]"
  "latched (LCDWrite_Data c b) = (latched (LCD_EN 0 b)) @ [(True, False, c)]"
  "\<not> bit (p2 (LCDWrite_Command c b)) 12" "\<not> bit (p2 (LCDWrite_Data c b)) 12"
proof -
  have u: "ucast (((x :: u32) AND NOT 0xFF OR ucast (c :: u8)) AND NOT 0x1000) = c" for x
  proof (rule bit_word_eqI)
    fix n :: nat
    assume "n < LENGTH(8)"
    moreover have "bit (0xFF :: u32) k \<longleftrightarrow> k < 8" "bit (0x1000 :: u32) k \<longleftrightarrow> k = 12" if "k < 32" for k
      using that bit_mask_iff [where 'a = "32 word", of 8 k] bit_exp_iff [where 'a = "32 word", of 12 k]
      by (simp_all add: mask_eq_exp_minus_1 possible_bit_word)
    ultimately show "bit (ucast (((x :: u32) AND NOT 0xFF OR ucast c) AND NOT 0x1000) :: u8) n = bit c n"
      by (auto simp: bit_simps)
  qed
  have p: "push_bit 10 (1 :: u32) = 0x400" "push_bit 11 (1 :: u32) = 0x800" "push_bit 12 (1 :: u32) = 0x1000"
    by simp_all
  note defs = LCDWrite_Command_def LCDWrite_Data_def LCD_EN_def LCD_RS_def LCD_RW_def LCD_pin_def LCD_DATA_def
    TDelay_def P2_FIOSET_def P2_FIOCLR_def P2_FIOPIN0_def set_p2_def p
  show "latched (LCDWrite_Command c b) = (latched (LCD_EN 0 b)) @ [(False, False, c)]"
    by (simp add: defs u [simplified] bit_or_iff bit_and_iff bit_not_iff bit_ucast_iff)
  show "latched (LCDWrite_Data c b) = (latched (LCD_EN 0 b)) @ [(True, False, c)]"
    by (simp add: defs u [simplified] bit_or_iff bit_and_iff bit_not_iff bit_ucast_iff)
  show "\<not> bit (p2 (LCDWrite_Command c b)) 12" "\<not> bit (p2 (LCDWrite_Data c b)) 12"
    by (simp_all add: defs bit_or_iff bit_and_iff bit_not_iff)
qed


lemma LCDWrite_lines [simp]:
  "lsr (LCDWrite_Command c b) = lsr b" "sent (LCDWrite_Command c b) = sent b"
  "lsr (LCDWrite_Data c b) = lsr b" "sent (LCDWrite_Data c b) = sent b"
  by (simp_all add: LCDWrite_Command_def LCDWrite_Data_def LCD_EN_def LCD_RS_def LCD_RW_def LCD_pin_def LCD_DATA_def
      TDelay_def P2_FIOSET_def P2_FIOCLR_def P2_FIOPIN0_def set_p2_def)

lemma LCD_EN0_low: "\<not> bit (p2 b) 12 \<Longrightarrow> latched (LCD_EN 0 b) = latched b"
  by (simp add: LCD_EN_def LCD_pin_def TDelay_def P2_FIOCLR_def set_p2_def)

lemma LCM_String_latch:
  "\<not> bit (p2 b) 12 \<Longrightarrow> 0 \<in> set s \<Longrightarrow>
   \<exists>b'. LCM_String s b = Some b' \<and> \<not> bit (p2 b') 12 \<and> lsr b' = lsr b \<and> sent b' = sent b \<and>
     latched b' = latched b @ map (\<lambda>c. (True, False, c)) (takeWhile (\<lambda>c. c \<noteq> 0) s)"
proof (induction s arbitrary: b)
  case (Cons c cs)
  show ?case
  proof (cases "c = 0")
    case False
    then show ?thesis
      using Cons.IH [of "LCDWrite_Data c b"] Cons.prems
      by (auto simp: LCDWrite_latch LCDWrite_lines LCD_EN0_low)
  qed (use Cons.prems in simp)
qed simp

lemma latched_upd [simp]: "latched (TDelay n b) = latched b" "p2 (TDelay n b) = p2 b"
  "latched (b\<lparr>p2dir := d\<rparr>) = latched b"
  by (simp_all add: TDelay_def)

lemma LCD_Init_latch:
  assumes "\<not> bit (p2 b) 12"
  shows "latched (LCD_Init b) = latched b @ map (\<lambda>c. (False, False, c)) [0x38, 0x01, 0x06, 0x0C]"
    "\<not> bit (p2 (LCD_Init b)) 12" "lsr (LCD_Init b) = lsr b" "sent (LCD_Init b) = sent b"
proof -
  have en: "\<not> bit (p2 (LCD_EN 0 x)) 12" for x
    by (simp add: LCD_EN_def LCD_pin_def P2_FIOCLR_def set_p2_def bit_and_iff bit_not_iff)
  show "latched (LCD_Init b) = latched b @ map (\<lambda>c. (False, False, c)) [0x38, 0x01, 0x06, 0x0C]"
    "\<not> bit (p2 (LCD_Init b)) 12"
    using assms en by (simp_all add: LCD_Init_def Let_def LCDWrite_latch LCD_EN0_low)
  show "lsr (LCD_Init b) = lsr b" "sent (LCD_Init b) = sent b"
    by (simp_all add: LCD_Init_def Let_def LCD_EN_def LCD_pin_def TDelay_def P2_FIOCLR_def set_p2_def)
qed

text \<open>Row 0 or 1; a column out of range counts as 0.\<close>

lemma LCM_Cursor_latch:
  assumes "\<not> bit (p2 b) 12" "line \<le> 1"
  shows "latched (LCM_Cursor line col b) = latched b @
      [(False, False, (if col < 16 then col else 0) OR (if line = 0 then 0x80 else 0xC0))]"
    "\<not> bit (p2 (LCM_Cursor line col b)) 12" "lsr (LCM_Cursor line col b) = lsr b" "sent (LCM_Cursor line col b) = sent b"
proof -
  have "unat line \<le> 1" using assms(2) by (simp add: word_le_nat_alt)
  then have "unat line = 0 \<or> unat line = 1" by linarith
  then have l: "line = 0 \<or> line = 1" by (simp add: word_unat_eq_iff)
  have "(if 16 \<le> col then 0 else col) = (if col < 16 then col else 0)"
    by (simp add: linorder_not_less [symmetric])
  then show "latched (LCM_Cursor line col b) = latched b @
      [(False, False, (if col < 16 then col else 0) OR (if line = 0 then 0x80 else 0xC0))]"
    "\<not> bit (p2 (LCM_Cursor line col b)) 12" "lsr (LCM_Cursor line col b) = lsr b" "sent (LCM_Cursor line col b) = sent b"
    using assms(1) l by (auto simp: LCM_Cursor_def LCDWrite_latch LCD_EN0_low Let_def)
qed

definition board_sample :: board where
  "board_sample = \<lparr>p0 = 0, p0dir = 0, p2 = 0, p2dir = 0, pinsel0 = 0, pconp = 0, uregs = (\<lambda>_ _. 0),
     lsr = (\<lambda>_ k. if even k then 0 else 0x20), n_lsr = (\<lambda>_. 0), rbr = (\<lambda>_ _. 0), n_rbr = (\<lambda>_. 0),
     sent = [], latched = [], ticks = 0\<rparr>"

end
