(* ===== verification/Memp.thy ===== *)
theory Memp
  imports Allocator
begin

text \<open>
  \<open>core/memp.c\<close>: fixed-size pools, one free list per pool (\<open>MEMP_OVERFLOW_CHECK\<close> and
  \<open>MEMP_SANITY_CHECK\<close> are 0).  An element is its index in its pool; \<open>memp_tab\<close> holds the linked
  free lists, head first.  The pools and their sizes are those of \<open>memp_std.h\<close> under the
  board's \<open>lwipopts.h\<close>.
\<close>

datatype memp_t =
    MEMP_RAW_PCB | MEMP_UDP_PCB | MEMP_TCP_PCB | MEMP_TCP_PCB_LISTEN | MEMP_TCP_SEG
  | MEMP_REASSDATA | MEMP_ARP_QUEUE | MEMP_PBUF | MEMP_PBUF_POOL

fun memp_num :: "memp_t \<Rightarrow> nat" where
  "memp_num MEMP_RAW_PCB = 4"
| "memp_num MEMP_UDP_PCB = 6"
| "memp_num MEMP_TCP_PCB = 10"
| "memp_num MEMP_TCP_PCB_LISTEN = 6"
| "memp_num MEMP_TCP_SEG = 12"
| "memp_num MEMP_REASSDATA = 5"
| "memp_num MEMP_ARP_QUEUE = 30"
| "memp_num MEMP_PBUF = 10"
| "memp_num MEMP_PBUF_POOL = 10"

type_synonym memp_state = "memp_t \<Rightarrow> nat list"

text \<open>Each element is pushed in turn, so the last one carved out is the first to be handed out.\<close>

definition memp_init :: memp_state where
  "memp_init = (\<lambda>i. foldl (\<lambda>tab j. j # tab) [] [0..<memp_num i])"

definition memp_malloc :: "memp_t \<Rightarrow> memp_state \<Rightarrow> nat option \<times> memp_state" where
  "memp_malloc type tab =
     (case tab type of
        [] \<Rightarrow> (None, tab)
      | memp # rest \<Rightarrow> (Some memp, tab(type := rest)))"

definition memp_free :: "memp_t \<Rightarrow> nat option \<Rightarrow> memp_state \<Rightarrow> memp_state" where
  "memp_free type mem tab =
     (case mem of None \<Rightarrow> tab | Some memp \<Rightarrow> tab(type := memp # tab type))"

subsection \<open>The pools as allocators\<close>

text \<open>
  Every free list holds distinct elements of its pool; the elements that are in no free list are
  handed out.  The footprint of an element is the element itself.
\<close>

definition memp_ok :: "memp_state \<Rightarrow> bool" where
  "memp_ok tab \<longleftrightarrow> (\<forall>t. distinct (tab t) \<and> (\<forall>e \<in> set (tab t). e < memp_num t))"

definition memp_live :: "memp_t \<Rightarrow> memp_state \<Rightarrow> nat \<Rightarrow> nat set option" where
  "memp_live t tab e = (if e < memp_num t \<and> e \<notin> set (tab t) then Some {e} else None)"

lemma foldl_push: "foldl (\<lambda>tab j. j # tab) acc xs = rev xs @ acc"
  by (induction xs arbitrary: acc) simp_all

lemma memp_init_eq: "memp_init t = rev [0..<memp_num t]"
  by (simp add: memp_init_def foldl_push)

lemma memp_init_ok: "memp_ok memp_init"
  by (simp add: memp_ok_def memp_init_eq)

interpretation memp: allocator memp_ok "memp_live t" "\<lambda>(_ :: unit) tab. Some (memp_malloc t tab)"
    "\<lambda>e tab. Some (memp_free t (Some e) tab)" "\<lambda>_ e F. e < memp_num t \<and> F = {e}" for t
proof (unfold_locales, goal_cases)
  case (1 tab q)
  show ?case
  proof (cases "tab t")
    case Nil
    then show ?thesis using 1 by (simp add: memp_malloc_def)
  next
    case (Cons e rest)
    have "distinct (tab t)" "\<forall>e \<in> set (tab t). e < memp_num t" using 1 by (auto simp: memp_ok_def)
    then have "e < memp_num t" "e \<notin> set rest" "distinct rest" "memp_ok (tab(t := rest))"
      using 1 Cons by (auto simp: memp_ok_def)
    moreover have "memp_malloc t tab = (Some e, tab(t := rest))"
      using Cons by (simp add: memp_malloc_def)
    ultimately show ?thesis
      using Cons by (auto simp: memp_live_def intro!: ext)
  qed
next
  case (2 tab e)
  then have "e < memp_num t" "e \<notin> set (tab t)"
    by (auto simp: memp_live_def split: if_splits)
  then show ?case
    using 2 by (auto simp: memp_free_def memp_ok_def memp_live_def intro!: ext)
qed

text \<open>
  C20. The pools keep their elements: whatever a client of one pool does, as long as it gives back
  only what it holds, it is never given an element twice, every element it holds belongs to the pool
  and is not on the free list, and a pool with \<open>n\<close> free elements hands out \<open>n\<close> and then \<open>NULL\<close>.
\<close>
theorem memp_clients_distinct:
  "\<exists>held tab. alloc_run (\<lambda>(_ :: unit) tab. Some (memp_malloc t tab))
       (\<lambda>e tab. Some (memp_free t (Some e) tab)) ops [] memp_init = Some (held, tab) \<and>
     memp_ok tab \<and> distinct (map fst held) \<and>
     set (map fst held) = {..<memp_num t} - set (tab t) \<and>
     length held + length (tab t) = memp_num t \<and>
     (fst (memp_malloc t tab) = None \<longleftrightarrow> length held = memp_num t)"
proof -
  have "memp.held_ok t [] memp_init"
    using memp_init_ok by (auto simp: memp.held_ok_def memp_live_def split: if_splits)
  from memp.alloc_run_ok [OF this, of ops]
  obtain held tab where run: "alloc_run (\<lambda>(_ :: unit) tab. Some (memp_malloc t tab))
       (\<lambda>e tab. Some (memp_free t (Some e) tab)) ops [] memp_init = Some (held, tab)"
    and ok: "memp.held_ok t held tab"
    and dom: "dom (memp_live t tab) - fst ` set held = dom (memp_live t memp_init)"
    by auto
  have "dom (memp_live t memp_init) = {}"
    by (auto simp: memp_live_def memp_init_eq split: if_splits)
  moreover have d: "dom (memp_live t tab) = {..<memp_num t} - set (tab t)"
    by (auto simp: memp_live_def split: if_splits)
  moreover have sub: "fst ` set held \<subseteq> dom (memp_live t tab)"
    using ok by (fastforce simp: memp.held_ok_def)
  ultimately have s: "set (map fst held) = {..<memp_num t} - set (tab t)"
    using dom by auto
  have tab: "memp_ok tab" "distinct (map fst held)" "distinct (tab t)" "set (tab t) \<subseteq> {..<memp_num t}"
    using ok by (auto simp: memp.held_ok_def memp_ok_def)
  have "length held = card (set (map fst held))" using distinct_card [OF tab(2)] by simp
  also have "\<dots> = memp_num t - length (tab t)"
    unfolding s using tab(3,4) by (simp add: card_Diff_subset distinct_card)
  moreover have "length (tab t) \<le> memp_num t"
    using card_mono [OF _ tab(4)] tab(3) by (simp add: distinct_card)
  ultimately have len: "length held + length (tab t) = memp_num t" by simp
  moreover have "fst (memp_malloc t tab) = None \<longleftrightarrow> tab t = []"
    by (auto simp: memp_malloc_def split: list.split)
  ultimately have "fst (memp_malloc t tab) = None \<longleftrightarrow> length held = memp_num t" by auto
  with run tab(1,2) s len show ?thesis
    by (intro exI [of _ held] exI [of _ tab]) simp
qed

end
