(* ===== verification/Pbuf.thy ===== *)
theory Pbuf
  imports Mem_Heap Memp
begin

text \<open>
  \<open>core/pbuf.c\<close>: packet buffers.  A \<open>struct pbuf\<close> lives at an address handed out by \<open>mem.c\<close>
  (\<open>PBUF_RAM\<close>) or by a pool of \<open>memp.c\<close>; its data area follows the structure in the same block.
  The memory is explicit: \<open>pbufs\<close> maps the addresses of live structures to their fields and
  \<open>bytes\<close> maps data areas and external buffers to their contents, so aliasing, reference
  counts and use after free are visible.  \<open>junk\<close> is what fresh memory contains; nothing is
  assumed of it.  \<open>None\<close> as a result is an access outside a live object.
\<close>

subsection \<open>Data\<close>

datatype addr = HeapA nat | PoolA memp_t nat

text \<open>
  The data area of a pbuf, a static buffer in RAM, a constant in flash.  The scatter file puts
  constants at address 0 and all RAM at \<open>0x10000000\<close> or above; nothing writes to flash.
\<close>

datatype region = PData addr | Ext nat | Rom nat

primrec flash :: "region \<Rightarrow> bool" where
  "flash (PData a) = False"
| "flash (Ext n) = False"
| "flash (Rom n) = True"

datatype pbuf_layer = PBUF_TRANSPORT | PBUF_IP | PBUF_LINK | PBUF_RAW

datatype pbuf_type = PBUF_RAM | PBUF_ROM | PBUF_REF | PBUF_POOL

record pbuf =
  nextp :: "addr option"
  payload :: "(region \<times> int) option"
  tot_len :: u16
  len :: u16
  ptype :: pbuf_type
  flags :: u8
  ref :: u16

record pmem =
  heap :: mem_state
  pools :: memp_state
  pbufs :: "addr \<rightharpoonup> pbuf"
  bytes :: "region \<rightharpoonup> u8 list"
  junk :: "addr \<Rightarrow> nat \<Rightarrow> u8"

definition SIZEOF_STRUCT_PBUF :: nat where "SIZEOF_STRUCT_PBUF = 16"
definition PBUF_POOL_BUFSIZE_ALIGNED :: nat where "PBUF_POOL_BUFSIZE_ALIGNED = 1500"

fun layer_offset :: "pbuf_layer \<Rightarrow> nat" where
  "layer_offset PBUF_TRANSPORT = 20 + (20 + 14)"
| "layer_offset PBUF_IP = 20 + 14"
| "layer_offset PBUF_LINK = 14"
| "layer_offset PBUF_RAW = 0"

definition upd_pbuf :: "addr \<Rightarrow> (pbuf \<Rightarrow> pbuf) \<Rightarrow> pmem \<Rightarrow> pmem option" where
  "upd_pbuf a f st = map_option (\<lambda>b. st\<lparr>pbufs := (pbufs st)(a \<mapsto> f b)\<rparr>) (pbufs st a)"

text \<open>Reading and writing \<open>n\<close> bytes through a payload pointer.\<close>

definition read_at :: "pmem \<Rightarrow> (region \<times> int) option \<Rightarrow> nat \<Rightarrow> u8 list option" where
  "read_at st ptr n =
     (if n = 0 then Some []
      else case ptr of
        None \<Rightarrow> None
      | Some (r, off) \<Rightarrow>
          (case bytes st r of
             None \<Rightarrow> None
           | Some d \<Rightarrow> if 0 \<le> off \<and> nat off + n \<le> length d then Some (take n (drop (nat off) d)) else None))"

definition write_at :: "pmem \<Rightarrow> (region \<times> int) option \<Rightarrow> u8 list \<Rightarrow> pmem option" where
  "write_at st ptr bs =
     (if bs = [] then Some st
      else case ptr of
        None \<Rightarrow> None
      | Some (r, off) \<Rightarrow>
          (case bytes st r of
             None \<Rightarrow> None
           | Some d \<Rightarrow>
               if 0 \<le> off \<and> nat off + length bs \<le> length d \<and> \<not> flash r
               then Some (st\<lparr>bytes := (bytes st)(r \<mapsto>
                      take (nat off) d @ bs @ drop (nat off + length bs) d)\<rparr>)
               else None))"

definition ptr_add :: "(region \<times> int) option \<Rightarrow> int \<Rightarrow> (region \<times> int) option" where
  "ptr_add ptr n = map_option (\<lambda>(r, off). (r, off + n)) ptr"

subsection \<open>Freeing\<close>

text \<open>The memory of one pbuf goes back to where its type says it came from.\<close>

definition pbuf_dealloc :: "addr \<Rightarrow> pbuf_type \<Rightarrow> pmem \<Rightarrow> pmem option" where
  "pbuf_dealloc a type st =
     (let st' = st\<lparr>pbufs := (pbufs st)(a := None)\<rparr>
      in case (type, a) of
           (PBUF_POOL, PoolA MEMP_PBUF_POOL i) \<Rightarrow>
             Some (st'\<lparr>pools := memp_free MEMP_PBUF_POOL (Some i) (pools st)\<rparr>)
         | (PBUF_ROM, PoolA MEMP_PBUF i) \<Rightarrow>
             Some (st'\<lparr>pools := memp_free MEMP_PBUF (Some i) (pools st)\<rparr>)
         | (PBUF_REF, PoolA MEMP_PBUF i) \<Rightarrow>
             Some (st'\<lparr>pools := memp_free MEMP_PBUF (Some i) (pools st)\<rparr>)
         | (PBUF_RAM, HeapA r) \<Rightarrow>
             map_option (\<lambda>h. st'\<lparr>heap := h, bytes := (bytes st)(PData a := None)\<rparr>)
               (mem_free (Some (int r)) (heap st))
         | _ \<Rightarrow> None)"

partial_function (option) pbuf_free_loop :: "addr option \<Rightarrow> u8 \<Rightarrow> pmem \<Rightarrow> (u8 \<times> pmem) option" where
  "pbuf_free_loop p count st =
     (case p of
        None \<Rightarrow> Some (count, st)
      | Some a \<Rightarrow>
          (case pbufs st a of
             None \<Rightarrow> None
           | Some b \<Rightarrow>
               (let r = ref b - 1
                in if r = 0
                   then (case pbuf_dealloc a (ptype b) st of
                           None \<Rightarrow> None
                         | Some st' \<Rightarrow> pbuf_free_loop (nextp b) (count + 1) st')
                   else Some (count, st\<lparr>pbufs := (pbufs st)(a \<mapsto> b\<lparr>ref := r\<rparr>)\<rparr>))))"

definition pbuf_free :: "addr option \<Rightarrow> pmem \<Rightarrow> (u8 \<times> pmem) option" where
  "pbuf_free p st = (if p = None then Some (0, st) else pbuf_free_loop p 0 st)"

subsection \<open>Allocation\<close>

text \<open>
  The loop that allocates the tail of a pool chain: \<open>p\<close> is the head, \<open>r\<close> the last pbuf so far,
  \<open>rem_len\<close> what is left to allocate.  \<open>Some (None, st)\<close> is the \<open>NULL\<close> return.
\<close>

function pool_tail :: "addr \<Rightarrow> addr \<Rightarrow> nat \<Rightarrow> pmem \<Rightarrow> (addr option \<times> pmem) option" where
  "pool_tail p r rem_len st =
     (if 0 < rem_len
      then case memp_malloc MEMP_PBUF_POOL (pools st) of
        (None, pl) \<Rightarrow> do {
          (_, st) \<leftarrow> pbuf_free (Some p) (st\<lparr>pools := pl\<rparr>);
          Some (None, st)
        }
      | (Some i, pl) \<Rightarrow> do {
          let q = PoolA MEMP_PBUF_POOL i;
          let qlen = min rem_len PBUF_POOL_BUFSIZE_ALIGNED;
          st \<leftarrow> upd_pbuf r (\<lambda>b. b\<lparr>nextp := Some q\<rparr>) (st\<lparr>pools := pl\<rparr>);
          let st = st\<lparr>pbufs := (pbufs st)(q \<mapsto>
            \<lparr>nextp = None, payload = Some (PData q, 0), tot_len = of_nat rem_len,
             len = of_nat qlen, ptype = PBUF_POOL, flags = 0, ref = 1\<rparr>)\<rparr>;
          pool_tail p q (rem_len - qlen) st
        }
      else Some (Some p, st))"
  by auto
termination
  by (relation "measure (\<lambda>(p, r, n, st). n)") (auto simp: PBUF_POOL_BUFSIZE_ALIGNED_def)

declare pool_tail.simps [simp del]

definition pbuf_alloc :: "pbuf_layer \<Rightarrow> u16 \<Rightarrow> pbuf_type \<Rightarrow> pmem \<Rightarrow> (addr option \<times> pmem) option" where
  "pbuf_alloc layer lngth type st =
     (let offset = layer_offset layer; n = unat lngth
      in case type of
        PBUF_POOL \<Rightarrow>
          (case memp_malloc MEMP_PBUF_POOL (pools st) of
             (None, pl) \<Rightarrow> Some (None, st\<lparr>pools := pl\<rparr>)
           | (Some i, pl) \<Rightarrow> do {
               let p = PoolA MEMP_PBUF_POOL i;
               let plen = min n (PBUF_POOL_BUFSIZE_ALIGNED - LWIP_MEM_ALIGN_SIZE offset);
               let st = st\<lparr>pools := pl, pbufs := (pbufs st)(p \<mapsto>
                 \<lparr>nextp = None, payload = Some (PData p, int (LWIP_MEM_ALIGN_SIZE offset)),
                  tot_len = lngth, len = of_nat plen, ptype = PBUF_POOL, flags = 0, ref = 1\<rparr>)\<rparr>;
               pool_tail p p (n - plen) st
             })
      | PBUF_RAM \<Rightarrow> do {
          let sz = (LWIP_MEM_ALIGN_SIZE (SIZEOF_STRUCT_PBUF + offset) + LWIP_MEM_ALIGN_SIZE n) mod 65536;
          (r, h) \<leftarrow> mem_malloc sz (heap st);
          (case r of
             None \<Rightarrow> Some (None, st\<lparr>heap := h\<rparr>)
           | Some i \<Rightarrow>
               if adjust_size sz < SIZEOF_STRUCT_PBUF then None
               else
                 let p = HeapA i in
                 Some (Some p, st\<lparr>heap := h,
                   pbufs := (pbufs st)(p \<mapsto>
                     \<lparr>nextp = None, payload = Some (PData p, int (LWIP_MEM_ALIGN_SIZE offset)),
                      tot_len = lngth, len = lngth, ptype = PBUF_RAM, flags = 0, ref = 1\<rparr>),
                   bytes := (bytes st)(PData p \<mapsto>
                     map (junk st p) [0..<adjust_size sz - SIZEOF_STRUCT_PBUF])\<rparr>))
        }
      | _ \<Rightarrow>
          (case memp_malloc MEMP_PBUF (pools st) of
             (None, pl) \<Rightarrow> Some (None, st\<lparr>pools := pl\<rparr>)
           | (Some i, pl) \<Rightarrow>
               let p = PoolA MEMP_PBUF i in
               Some (Some p, st\<lparr>pools := pl, pbufs := (pbufs st)(p \<mapsto>
                 \<lparr>nextp = None, payload = None, tot_len = lngth, len = lngth, ptype = type,
                  flags = 0, ref = 1\<rparr>)\<rparr>)))"

subsection \<open>Resizing\<close>

text \<open>The walk of \<open>pbuf_realloc\<close> over the pbufs that stay; \<open>grow\<close> is added to their \<open>tot_len\<close>.\<close>

partial_function (option) realloc_walk :: "addr option \<Rightarrow> u16 \<Rightarrow> u16 \<Rightarrow> pmem \<Rightarrow> (addr \<times> u16 \<times> pmem) option" where
  "realloc_walk q rem_len grow st =
     (case q of
        None \<Rightarrow> None
      | Some a \<Rightarrow>
          (case pbufs st a of
             None \<Rightarrow> None
           | Some b \<Rightarrow>
               if len b < rem_len
               then realloc_walk (nextp b) (rem_len - len b) grow
                      (st\<lparr>pbufs := (pbufs st)(a \<mapsto> b\<lparr>tot_len := tot_len b + grow\<rparr>)\<rparr>)
               else Some (a, rem_len, st)))"

text \<open>\<open>mem_realloc(q, (u8_t *)q->payload - (u8_t *)q + rem_len)\<close>; \<open>NULL\<close> would be dereferenced.\<close>

definition realloc_ram :: "addr \<Rightarrow> u16 \<Rightarrow> pmem \<Rightarrow> pmem option" where
  "realloc_ram a rem_len st =
     (case (a, pbufs st a) of
        (HeapA i, Some b) \<Rightarrow>
          (case payload b of
             Some (r, off) \<Rightarrow>
               if r = PData a then do {
                 let sz = nat ((int SIZEOF_STRUCT_PBUF + off + int (unat rem_len)) mod 65536);
                 (q, h) \<leftarrow> mem_realloc (int i) sz (heap st);
                 d \<leftarrow> bytes st (PData a);
                 (if q = None then None
                  else Some (st\<lparr>heap := h,
                         bytes := (bytes st)(PData a \<mapsto> take (adjust_size sz - SIZEOF_STRUCT_PBUF) d)\<rparr>))
               }
               else None
           | None \<Rightarrow> None)
      | _ \<Rightarrow> None)"

definition pbuf_realloc :: "addr \<Rightarrow> u16 \<Rightarrow> pmem \<Rightarrow> pmem option" where
  "pbuf_realloc p new_len st = do {
     b \<leftarrow> pbufs st p;
     (if tot_len b \<le> new_len then Some st
      else do {
        (q, rem_len, st) \<leftarrow> realloc_walk (Some p) new_len (new_len - tot_len b) st;
        b \<leftarrow> pbufs st q;
        st \<leftarrow> (if ptype b = PBUF_RAM \<and> rem_len \<noteq> len b then realloc_ram q rem_len st else Some st);
        st \<leftarrow> upd_pbuf q (\<lambda>b. b\<lparr>len := rem_len, tot_len := rem_len\<rparr>) st;
        (_, st) \<leftarrow> (if nextp b \<noteq> None then pbuf_free (nextp b) st else Some (0, st));
        upd_pbuf q (\<lambda>b. b\<lparr>nextp := None\<rparr>) st
      })
   }"

text \<open>\<open>pbuf_header\<close> returns 0 on success; the increment is an \<open>s16_t\<close>.\<close>

definition pbuf_header :: "addr option \<Rightarrow> int \<Rightarrow> pmem \<Rightarrow> (u8 \<times> pmem) option" where
  "pbuf_header p inc st =
     (case p of
        None \<Rightarrow> Some (0, st)
      | Some a \<Rightarrow>
          if inc = 0 then Some (0, st)
          else do {
            b \<leftarrow> pbufs st a;
            (if inc < 0 \<and> int (unat (len b)) < - inc then Some (1, st)
             else
               let b' = b\<lparr>payload := ptr_add (payload b) (- inc),
                          len := len b + of_int inc, tot_len := tot_len b + of_int inc\<rparr>;
                   done = Some (0, st\<lparr>pbufs := (pbufs st)(a \<mapsto> b')\<rparr>)
               in if ptype b = PBUF_RAM \<or> ptype b = PBUF_POOL
                  then (case payload b of
                          None \<Rightarrow> None
                        | Some (r, off) \<Rightarrow>
                            if r = PData a then (if off - inc < 0 then Some (1, st) else done)
                            else if flash r then Some (1, st) else None)
                  else if inc < 0 then done
                  else Some (1, st))
          })"

subsection \<open>Chains\<close>

partial_function (option) clen_loop :: "addr option \<Rightarrow> u8 \<Rightarrow> pmem \<Rightarrow> u8 option" where
  "clen_loop p n st =
     (case p of
        None \<Rightarrow> Some n
      | Some a \<Rightarrow> (case pbufs st a of None \<Rightarrow> None | Some b \<Rightarrow> clen_loop (nextp b) (n + 1) st))"

definition pbuf_clen :: "addr option \<Rightarrow> pmem \<Rightarrow> u8 option" where
  "pbuf_clen p st = clen_loop p 0 st"

definition pbuf_ref :: "addr option \<Rightarrow> pmem \<Rightarrow> pmem option" where
  "pbuf_ref p st = (case p of None \<Rightarrow> Some st | Some a \<Rightarrow> upd_pbuf a (\<lambda>b. b\<lparr>ref := ref b + 1\<rparr>) st)"

text \<open>\<open>for (p = h; p->next != NULL; p = p->next) p->tot_len += t->tot_len;\<close> and the last pbuf.\<close>

partial_function (option) cat_loop :: "addr \<Rightarrow> addr \<Rightarrow> pmem \<Rightarrow> pmem option" where
  "cat_loop p t st =
     (case pbufs st t of
        None \<Rightarrow> None
      | Some tb \<Rightarrow>
          (case pbufs st p of
             None \<Rightarrow> None
           | Some b \<Rightarrow>
               (case nextp b of
                  Some q \<Rightarrow> cat_loop q t
                    (st\<lparr>pbufs := (pbufs st)(p \<mapsto> b\<lparr>tot_len := tot_len b + tot_len tb\<rparr>)\<rparr>)
                | None \<Rightarrow> Some (st\<lparr>pbufs := (pbufs st)(p \<mapsto>
                    b\<lparr>tot_len := tot_len b + tot_len tb, nextp := Some t\<rparr>)\<rparr>))))"

definition pbuf_cat :: "addr option \<Rightarrow> addr option \<Rightarrow> pmem \<Rightarrow> pmem option" where
  "pbuf_cat h t st =
     (case (h, t) of (Some h, Some t) \<Rightarrow> cat_loop h t st | _ \<Rightarrow> Some st)"

definition pbuf_chain :: "addr option \<Rightarrow> addr option \<Rightarrow> pmem \<Rightarrow> pmem option" where
  "pbuf_chain h t st = pbuf_cat h t st \<bind> pbuf_ref t"

definition pbuf_dechain :: "addr \<Rightarrow> pmem \<Rightarrow> (addr option \<times> pmem) option" where
  "pbuf_dechain p st = do {
     b \<leftarrow> pbufs st p;
     (case nextp b of
        None \<Rightarrow> Some (None, st)
      | Some q \<Rightarrow> do {
          st \<leftarrow> upd_pbuf q (\<lambda>c. c\<lparr>tot_len := tot_len b - len b\<rparr>) st;
          st \<leftarrow> upd_pbuf p (\<lambda>b. b\<lparr>nextp := None, tot_len := len b\<rparr>) st;
          (tail_gone, st) \<leftarrow> pbuf_free (Some q) st;
          Some (if 0 < tail_gone then None else Some q, st)
        })
   }"

subsection \<open>Copying\<close>

text \<open>
  The loop of \<open>pbuf_copy\<close>; \<open>packet_queue\<close> is the test of its two \<open>LWIP_ERROR\<close>s.  The
  reads of \<open>p_to\<close> and \<open>p_from\<close> fail on \<open>NULL\<close>.
\<close>

definition packet_queue :: "addr option \<Rightarrow> pmem \<Rightarrow> bool option" where
  "packet_queue p st =
     (case p of
        None \<Rightarrow> Some False
      | Some a \<Rightarrow> map_option (\<lambda>b. len b = tot_len b \<and> nextp b \<noteq> None) (pbufs st a))"

partial_function (option) copy_loop ::
  "addr option \<Rightarrow> u16 \<Rightarrow> addr option \<Rightarrow> u16 \<Rightarrow> pmem \<Rightarrow> (err_t \<times> pmem) option" where
  "copy_loop p_to offset_to p_from offset_from st =
     do {
       t \<leftarrow> (case p_to of None \<Rightarrow> None | Some a \<Rightarrow> pbufs st a);
       f \<leftarrow> (case p_from of None \<Rightarrow> None | Some a \<Rightarrow> pbufs st a);
       let n = (if int (unat (len f)) - int (unat offset_from) \<le> int (unat (len t)) - int (unat offset_to)
                then len f - offset_from else len t - offset_to);
       bs \<leftarrow> read_at st (ptr_add (payload f) (int (unat offset_from))) (unat n);
       st \<leftarrow> write_at st (ptr_add (payload t) (int (unat offset_to))) bs;
       let offset_to = offset_to + n;
       let offset_from = offset_from + n;
       let (p_to, offset_to) = (if offset_to = len t then (nextp t, 0) else (p_to, offset_to));
       let (p_from, offset_from) = (if len f \<le> offset_from then (nextp f, 0) else (p_from, offset_from));
       qf \<leftarrow> packet_queue p_from st;
       (if qf then Some (ERR_VAL, st)
        else do {
          qt \<leftarrow> packet_queue p_to st;
          (if qt then Some (ERR_VAL, st)
           else if p_from \<noteq> None then copy_loop p_to offset_to p_from offset_from st
           else Some (ERR_OK, st))
        })
     }"

definition pbuf_copy :: "addr option \<Rightarrow> addr option \<Rightarrow> pmem \<Rightarrow> (err_t \<times> pmem) option" where
  "pbuf_copy p_to p_from st =
     (case (p_to, p_from) of
        (Some t, Some f) \<Rightarrow> do {
          tb \<leftarrow> pbufs st t;
          fb \<leftarrow> pbufs st f;
          (if tot_len fb \<le> tot_len tb then copy_loop p_to 0 p_from 0 st else Some (ERR_ARG, st))
        }
      | _ \<Rightarrow> Some (ERR_ARG, st))"

text \<open>\<open>pbuf_copy_partial\<close>: the application buffer is a byte list; the result is what was copied.\<close>

partial_function (option) copy_partial_loop ::
  "addr option \<Rightarrow> u16 \<Rightarrow> u16 \<Rightarrow> u8 list \<Rightarrow> pmem \<Rightarrow> u8 list option" where
  "copy_partial_loop p n offset acc st =
     (case p of
        None \<Rightarrow> Some acc
      | Some a \<Rightarrow>
          if n = 0 then Some acc
          else
            (case pbufs st a of
               None \<Rightarrow> None
             | Some b \<Rightarrow>
                 if offset \<noteq> 0 \<and> len b \<le> offset
                 then copy_partial_loop (nextp b) n (offset - len b) acc st
                 else
                   (let k = (if n < len b - offset then n else len b - offset)
                    in case read_at st (ptr_add (payload b) (int (unat offset))) (unat k) of
                         None \<Rightarrow> None
                       | Some bs \<Rightarrow> copy_partial_loop (nextp b) (n - k) 0 (acc @ bs) st)))"

definition pbuf_copy_partial :: "addr option \<Rightarrow> u16 \<Rightarrow> u16 \<Rightarrow> pmem \<Rightarrow> u8 list option" where
  "pbuf_copy_partial buf n offset st = copy_partial_loop buf n offset [] st"

text \<open>\<open>pbuf_take\<close>: the data is the list of its bytes, \<open>None\<close> for \<open>NULL\<close>.\<close>

partial_function (option) take_loop :: "addr option \<Rightarrow> u8 list \<Rightarrow> pmem \<Rightarrow> pmem option" where
  "take_loop p bs st =
     (if bs = [] then Some st
      else case p of
        None \<Rightarrow> None
      | Some a \<Rightarrow>
          (case pbufs st a of
             None \<Rightarrow> None
           | Some b \<Rightarrow>
               (case write_at st (payload b) (take (unat (len b)) bs) of
                  None \<Rightarrow> None
                | Some st' \<Rightarrow> take_loop (nextp b) (drop (unat (len b)) bs) st')))"

definition pbuf_take :: "addr option \<Rightarrow> u8 list option \<Rightarrow> pmem \<Rightarrow> (err_t \<times> pmem) option" where
  "pbuf_take buf dataptr st =
     (case (buf, dataptr) of
        (Some a, Some bs) \<Rightarrow> do {
          b \<leftarrow> pbufs st a;
          (if unat (tot_len b) < length bs then Some (ERR_ARG, st)
           else do { st \<leftarrow> take_loop buf bs st; Some (ERR_OK, st) })
        }
      | _ \<Rightarrow> Some (ERR_OK, st))"

definition pbuf_coalesce :: "addr \<Rightarrow> pbuf_layer \<Rightarrow> pmem \<Rightarrow> (addr \<times> pmem) option" where
  "pbuf_coalesce p layer st = do {
     b \<leftarrow> pbufs st p;
     (if nextp b = None then Some (p, st)
      else do {
        (q, st) \<leftarrow> pbuf_alloc layer (tot_len b) PBUF_RAM st;
        (case q of
           None \<Rightarrow> Some (p, st)
         | Some q \<Rightarrow> do {
             (_, st) \<leftarrow> pbuf_copy (Some q) (Some p) st;
             (_, st) \<leftarrow> pbuf_free (Some p) st;
             Some (q, st)
           })
      })
   }"

end
