(* ===== verification/Pbuf_Chain.thy ===== *)
theory Pbuf_Chain
  imports Pbuf
begin

text \<open>
  Chains of pbufs: the packet a pointer stands for (its pbufs, its bytes, the length
  invariant of \<open>pbuf.h\<close>), reading it with \<open>pbuf_copy_partial\<close>, moving its header with
  \<open>pbuf_header\<close>, and what the loop of \<open>pbuf_free\<close> releases.
\<close>

subsection \<open>Chains\<close>

text \<open>\<open>chain m p xs\<close>: following \<open>next\<close> from \<open>p\<close> visits the pbufs \<open>xs\<close> and ends at \<open>NULL\<close>.\<close>

fun chain :: "(addr \<rightharpoonup> pbuf) \<Rightarrow> addr option \<Rightarrow> (addr \<times> pbuf) list \<Rightarrow> bool" where
  "chain m p [] \<longleftrightarrow> p = None"
| "chain m p ((a, b) # xs) \<longleftrightarrow> p = Some a \<and> m a = Some b \<and> chain m (nextp b) xs"

definition pbuf_bytes :: "pmem \<Rightarrow> pbuf \<Rightarrow> u8 list" where
  "pbuf_bytes st b = the (read_at st (payload b) (unat (len b)))"

definition packet_bytes :: "pmem \<Rightarrow> (addr \<times> pbuf) list \<Rightarrow> u8 list" where
  "packet_bytes st xs = concat (map (pbuf_bytes st \<circ> snd) xs)"

definition lens :: "(addr \<times> pbuf) list \<Rightarrow> nat" where
  "lens xs = sum_list (map (unat \<circ> len \<circ> snd) xs)"

text \<open>The invariant of \<open>pbuf.h\<close>: \<open>p->tot_len == p->len + (p->next ? p->next->tot_len : 0)\<close>.\<close>

fun tot_ok :: "(addr \<times> pbuf) list \<Rightarrow> bool" where
  "tot_ok [] \<longleftrightarrow> True"
| "tot_ok ((a, b) # xs) \<longleftrightarrow> unat (tot_len b) = unat (len b) + lens xs \<and> tot_ok xs"

text \<open>A packet: a chain of distinct pbufs whose data is readable, with the length invariant.\<close>

definition packet :: "pmem \<Rightarrow> addr option \<Rightarrow> (addr \<times> pbuf) list \<Rightarrow> bool" where
  "packet st p xs \<longleftrightarrow> chain (pbufs st) p xs \<and> distinct (map fst xs) \<and> tot_ok xs \<and>
     (\<forall>(a, b) \<in> set xs. read_at st (payload b) (unat (len b)) \<noteq> None)"

lemma lens_simps [simp]: "lens [] = 0" "lens (x # xs) = unat (len (snd x)) + lens xs"
  "lens (xs @ ys) = lens xs + lens ys"
  by (simp_all add: lens_def)

lemma packet_bytes_simps [simp]: "packet_bytes st [] = []"
  "packet_bytes st (x # xs) = pbuf_bytes st (snd x) @ packet_bytes st xs"
  "packet_bytes st (xs @ ys) = packet_bytes st xs @ packet_bytes st ys"
  by (simp_all add: packet_bytes_def)

lemma packet_simps [simp]:
  "packet st p [] \<longleftrightarrow> p = None"
  "packet st p ((a, b) # xs) \<longleftrightarrow> p = Some a \<and> pbufs st a = Some b \<and> packet st (nextp b) xs \<and>
     a \<notin> fst ` set xs \<and> unat (tot_len b) = unat (len b) + lens xs \<and>
     read_at st (payload b) (unat (len b)) \<noteq> None"
  by (auto simp: packet_def)

lemma chain_upd [simp]: "a \<notin> fst ` set xs \<Longrightarrow> chain (m(a := v)) p xs = chain m p xs"
  by (induction xs arbitrary: p) auto

lemma chain_unique: "chain m p xs \<Longrightarrow> chain m p ys \<Longrightarrow> xs = ys"
proof (induction xs arbitrary: p ys)
  case Nil
  then show ?case by (cases ys) auto
next
  case (Cons x xs)
  then show ?case by (cases x; cases ys) force+
qed

lemma chain_mem: "chain m p xs \<Longrightarrow> (a, b) \<in> set xs \<Longrightarrow> m a = Some b"
  by (induction xs arbitrary: p) auto

lemma read_at_upd [simp]: "read_at (st\<lparr>pbufs := m\<rparr>) ptr n = read_at st ptr n"
  "read_at (st\<lparr>pools := pl\<rparr>) ptr n = read_at st ptr n"
  "read_at (st\<lparr>heap := h\<rparr>) ptr n = read_at st ptr n"
  by (simp_all add: read_at_def split: option.split)

lemma read_at_length: "read_at st ptr n = Some d \<Longrightarrow> length d = n"
  by (auto simp: read_at_def split: if_splits option.splits)

lemma pbuf_bytes_length:
  "read_at st (payload b) (unat (len b)) \<noteq> None \<Longrightarrow> length (pbuf_bytes st b) = unat (len b)"
  by (auto simp: pbuf_bytes_def dest: read_at_length)

lemma packet_bytes_length: "packet st p xs \<Longrightarrow> length (packet_bytes st xs) = lens xs"
  by (induction xs arbitrary: p) (auto simp: pbuf_bytes_length)

lemma read_at_part:
  assumes "read_at st ptr n = Some d" "off + k \<le> n"
  shows "read_at st (ptr_add ptr (int off)) k = Some (take k (drop off d))"
proof (cases "k = 0")
  case False
  then obtain r i D where ptr: "ptr = Some (r, i)" "bytes st r = Some D" "0 \<le> i"
    "nat i + n \<le> length D" "d = take n (drop (nat i) D)"
    using assms by (auto simp: read_at_def split: if_splits option.splits)
  then have "take k (drop (nat i + off) D) = take k (drop off d)" "nat (i + int off) = nat i + off"
    using assms(2) by (simp_all add: drop_take min_def nat_add_distrib add.commute)
  then show ?thesis using ptr assms(2) False by (simp add: read_at_def ptr_add_def)
qed (simp add: read_at_def)

subsection \<open>Copying out\<close>

lemma unat_min_if:
  "unat (if n < k then n else k) = min (unat n) (unat (k :: u16))"
  by (auto simp: word_less_nat_alt)

lemma copy_partial_loop_spec:
  "packet st p xs \<Longrightarrow>
   copy_partial_loop p n off acc st = Some (acc @ take (unat n) (drop (unat off) (packet_bytes st xs)))"
proof (induction xs arbitrary: p n off acc)
  case Nil
  then show ?case by (subst copy_partial_loop.simps) simp
next
  case (Cons x xs)
  obtain a b where x: "x = (a, b)" by (cases x)
  have p: "p = Some a" "pbufs st a = Some b" "packet st (nextp b) xs"
    and rd: "read_at st (payload b) (unat (len b)) = Some (pbuf_bytes st b)"
    using Cons.prems x by (auto simp: pbuf_bytes_def)
  note l = read_at_length [OF rd]
  consider (zero) "n = 0" | (skip) "n \<noteq> 0" "off \<noteq> 0 \<and> len b \<le> off" | (copy) "n \<noteq> 0" "\<not> (off \<noteq> 0 \<and> len b \<le> off)"
    by blast
  then show ?case
  proof cases
    case zero
    then show ?thesis using p by (subst copy_partial_loop.simps) simp
  next
    case skip
    then have "unat (off - len b) = unat off - unat (len b)" "unat (len b) \<le> unat off"
      by (simp_all add: unat_minus_small word_le_nat_alt)
    then show ?thesis
      using skip p Cons.IH [OF p(3)] x l by (subst copy_partial_loop.simps) simp
  next
    case copy
    let ?k = "if n < len b - off then n else len b - off"
    have ol: "unat off \<le> unat (len b)"
    proof (cases "off = 0")
      case False
      then have "off < len b" using copy(2) by simp
      then show ?thesis by (simp add: word_less_nat_alt)
    qed simp
    then have k: "unat ?k = min (unat n) (unat (len b) - unat off)"
      unfolding unat_min_if by (simp add: unat_minus_small)
    have rk: "read_at st (ptr_add (payload b) (int (unat off))) (unat ?k) =
        Some (take (unat ?k) (drop (unat off) (pbuf_bytes st b)))"
      using ol k by (intro read_at_part [OF rd]) simp
    have nk: "unat (n - ?k) = unat n - unat ?k" using k by (intro unat_minus_small) simp
    have "copy_partial_loop p n off acc st =
        copy_partial_loop (nextp b) (n - ?k) 0 (acc @ take (unat ?k) (drop (unat off) (pbuf_bytes st b))) st"
      using copy(1) p rk
      by (subst copy_partial_loop.simps) (simp only: if_not_P [OF copy(2)] option.case if_False Let_def)
    also have "\<dots> = Some (acc @ take (unat ?k) (drop (unat off) (pbuf_bytes st b)) @
        take (unat n - unat ?k) (packet_bytes st xs))"
      using Cons.IH [OF p(3)] nk by simp
    also have "take (unat ?k) (drop (unat off) (pbuf_bytes st b)) @ take (unat n - unat ?k) (packet_bytes st xs) =
        take (unat n) (drop (unat off) (packet_bytes st (x # xs)))"
    proof (cases "unat n \<le> unat (len b) - unat off")
      case True
      then have "unat ?k = unat n" using k by simp
      then show ?thesis using True x l ol by simp
    next
      case False
      then have "unat ?k = unat (len b) - unat off" using k by simp
      then show ?thesis using False x l ol by simp
    qed
    finally show ?thesis .
  qed
qed


subsection \<open>Headers\<close>

lemma pbuf_header_hide:
  assumes b: "pbufs st a = Some b" "read_at st (payload b) (unat (len b)) \<noteq> None"
    and own: "ptype b = PBUF_RAM \<or> ptype b = PBUF_POOL" "payload b = Some (PData a, off)" "0 \<le> off"
    and n: "0 < n" "n \<le> unat (len b)"
  defines "b' \<equiv> b\<lparr>payload := Some (PData a, off + int n), len := len b - of_nat n, tot_len := tot_len b - of_nat n\<rparr>"
  defines "st' \<equiv> st\<lparr>pbufs := (pbufs st)(a \<mapsto> b')\<rparr>"
  shows "pbuf_header (Some a) (- int n) st = Some (0, st')"
    and "unat (len b') = unat (len b) - n"
    and "pbuf_bytes st' b' = drop n (pbuf_bytes st b)"
    and "read_at st' (payload b') (unat (len b')) \<noteq> None"
    and "pbuf_header (Some a) (int n) st' = Some (0, st)"
proof -
  have n16: "unat (of_nat n :: u16) = n" using n by (intro unat_of_nat_lt) (simp add: le_less_trans [OF _ unat_u16_lt])
  then show l: "unat (len b') = unat (len b) - n" using n by (simp add: b'_def unat_minus_small)
  show "pbuf_header (Some a) (- int n) st = Some (0, st')"
    using b own n by (simp add: pbuf_header_def st'_def b'_def ptr_add_def Let_def)
  have rd: "read_at st (payload b) (unat (len b)) = Some (pbuf_bytes st b)"
    using b(2) by (auto simp: pbuf_bytes_def)
  have "read_at st (ptr_add (payload b) (int n)) (unat (len b) - n) =
      Some (take (unat (len b) - n) (drop n (pbuf_bytes st b)))"
    using n by (intro read_at_part [OF rd]) simp
  moreover have "ptr_add (payload b) (int n) = payload b'" by (simp add: own b'_def ptr_add_def)
  ultimately have "read_at st (payload b') (unat (len b')) = Some (drop n (pbuf_bytes st b))"
    using read_at_length [OF rd] n l by simp
  then have "read_at st' (payload b') (unat (len b')) = Some (drop n (pbuf_bytes st b))"
    by (simp add: st'_def)
  then show "pbuf_bytes st' b' = drop n (pbuf_bytes st b)"
    and "read_at st' (payload b') (unat (len b')) \<noteq> None"
    by (simp_all add: pbuf_bytes_def)
  have "b'\<lparr>payload := payload b, len := len b, tot_len := tot_len b\<rparr> = b" by (simp add: b'_def)
  then show "pbuf_header (Some a) (int n) st' = Some (0, st)"
    using b own n by (simp add: pbuf_header_def st'_def b'_def ptr_add_def Let_def fun_upd_idem)
qed

subsection \<open>Freeing a chain\<close>

text \<open>The address fits the type, and the heap block of a \<open>PBUF_RAM\<close> is live.\<close>

definition backed :: "pmem \<Rightarrow> addr \<times> pbuf \<Rightarrow> bool" where
  "backed st x \<longleftrightarrow>
     (case (ptype (snd x), fst x) of
        (PBUF_POOL, PoolA MEMP_PBUF_POOL i) \<Rightarrow> True
      | (PBUF_ROM, PoolA MEMP_PBUF i) \<Rightarrow> True
      | (PBUF_REF, PoolA MEMP_PBUF i) \<Rightarrow> True
      | (PBUF_RAM, HeapA r) \<Rightarrow> mem_live (heap st) r \<noteq> None
      | _ \<Rightarrow> False)"

text \<open>What remains of the pbuf map: the first pbuf still referenced has lost one reference.\<close>

fun free_refs :: "(addr \<times> pbuf) list \<Rightarrow> (addr \<rightharpoonup> pbuf) \<Rightarrow> (addr \<rightharpoonup> pbuf)" where
  "free_refs [] m = m"
| "free_refs ((a, b) # xs) m =
     (if ref b = 1 then free_refs xs (m(a := None)) else m(a \<mapsto> b\<lparr>ref := ref b - 1\<rparr>))"

lemma pbuf_dealloc_ok:
  assumes "backed st (a, b)" "mem_ok (heap st)"
  shows "\<exists>st'. pbuf_dealloc a (ptype b) st = Some st' \<and> mem_ok (heap st') \<and>
    pbufs st' = (pbufs st)(a := None) \<and> junk st' = junk st \<and>
    mem_live (heap st') = (case a of HeapA r \<Rightarrow> (mem_live (heap st))(r := None) | _ \<Rightarrow> mem_live (heap st)) \<and>
    pools st' = (case a of PoolA t i \<Rightarrow> memp_free t (Some i) (pools st) | _ \<Rightarrow> pools st) \<and>
    (\<forall>r. (case a of HeapA h \<Rightarrow> r \<noteq> PData a | _ \<Rightarrow> True) \<longrightarrow> bytes st' r = bytes st r) \<and>
    (case a of HeapA h \<Rightarrow> True | _ \<Rightarrow> heap st' = heap st)"
proof (cases a)
  case (HeapA r)
  then have "ptype b = PBUF_RAM" "mem_live (heap st) r \<noteq> None"
    using assms(1) by (auto simp: backed_def split: pbuf_type.splits)
  moreover from this(2) obtain h where "mem_release r (heap st) = Some h" "mem_ok h"
    "mem_live h = (mem_live (heap st))(r := None)"
    using mem.release_law [OF assms(2), of r] by auto
  ultimately show ?thesis using HeapA by (simp add: pbuf_dealloc_def mem_release_def Let_def)
next
  case (PoolA t i)
  then show ?thesis
    using assms by (cases "ptype b"; cases t) (auto simp: backed_def pbuf_dealloc_def Let_def)
qed

lemma pbuf_free_loop_spec:
  assumes "chain (pbufs st) p xs" "distinct (map fst xs)" "\<forall>x \<in> set xs. backed st x" "mem_ok (heap st)"
  shows "\<exists>st'. pbuf_free_loop p n st =
      Some (n + of_nat (length (takeWhile (\<lambda>x. ref (snd x) = 1) xs)), st') \<and>
    pbufs st' = free_refs xs (pbufs st) \<and> mem_ok (heap st') \<and> junk st' = junk st \<and>
    mem_live (heap st') = (\<lambda>r. if HeapA r \<in> fst ` set (takeWhile (\<lambda>x. ref (snd x) = 1) xs) then None
                                else mem_live (heap st) r) \<and>
    (\<forall>t. pools st' t = rev (concat (map (\<lambda>x. case fst x of PoolA s i \<Rightarrow> if s = t then [i] else [] | _ \<Rightarrow> [])
                       (takeWhile (\<lambda>x. ref (snd x) = 1) xs))) @ pools st t) \<and>
    (\<forall>r. r \<notin> PData ` (fst ` set (takeWhile (\<lambda>x. ref (snd x) = 1) xs) \<inter> range HeapA) \<longrightarrow>
       bytes st' r = bytes st r) \<and>
    (fst ` set (takeWhile (\<lambda>x. ref (snd x) = 1) xs) \<inter> range HeapA = {} \<longrightarrow> heap st' = heap st)"
  using assms
proof (induction xs arbitrary: p n st)
  case Nil
  then show ?case by (subst pbuf_free_loop.simps) simp
next
  case (Cons x xs)
  obtain a b where x: "x = (a, b)" by (cases x)
  have p: "p = Some a" "pbufs st a = Some b" "chain (pbufs st) (nextp b) xs" "a \<notin> fst ` set xs"
    using Cons.prems x by auto
  show ?case
  proof (cases "ref b = 1")
    case False
    then show ?thesis using p x Cons.prems(4)
      by (subst pbuf_free_loop.simps) (simp add: Let_def)
  next
    case True
    obtain st1 where st1: "pbuf_dealloc a (ptype b) st = Some st1" "mem_ok (heap st1)"
      "pbufs st1 = (pbufs st)(a := None)" "junk st1 = junk st"
      "mem_live (heap st1) = (case a of HeapA r \<Rightarrow> (mem_live (heap st))(r := None) | _ \<Rightarrow> mem_live (heap st))"
      "pools st1 = (case a of PoolA t i \<Rightarrow> memp_free t (Some i) (pools st) | _ \<Rightarrow> pools st)"
      "\<forall>r. (case a of HeapA h \<Rightarrow> r \<noteq> PData a | _ \<Rightarrow> True) \<longrightarrow> bytes st1 r = bytes st r"
      "case a of HeapA h \<Rightarrow> True | _ \<Rightarrow> heap st1 = heap st"
      using pbuf_dealloc_ok [of st a b] Cons.prems(3,4) x by auto
    have bk: "\<forall>y \<in> set xs. backed st1 y"
    proof
      fix y
      assume y: "y \<in> set xs"
      then have "backed st y" "fst y \<noteq> a" using Cons.prems(3) p(4) by auto
      then show "backed st1 y"
        by (auto simp: backed_def st1(5) split: pbuf_type.splits addr.splits memp_t.splits)
    qed
    have ch: "chain (pbufs st1) (nextp b) xs" "distinct (map fst xs)"
      using p(3,4) Cons.prems(2) x by (simp_all add: st1(3))
    obtain st' where st': "pbuf_free_loop (nextp b) (n + 1) st1 =
        Some (n + 1 + of_nat (length (takeWhile (\<lambda>x. ref (snd x) = 1) xs)), st')"
      "pbufs st' = free_refs xs (pbufs st1)" "mem_ok (heap st')" "junk st' = junk st1"
      "mem_live (heap st') = (\<lambda>r. if HeapA r \<in> fst ` set (takeWhile (\<lambda>x. ref (snd x) = 1) xs) then None
                                else mem_live (heap st1) r)"
      "\<forall>t. pools st' t = rev (concat (map (\<lambda>x. case fst x of PoolA s i \<Rightarrow> if s = t then [i] else [] | _ \<Rightarrow> [])
                       (takeWhile (\<lambda>x. ref (snd x) = 1) xs))) @ pools st1 t"
      "\<forall>r. r \<notin> PData ` (fst ` set (takeWhile (\<lambda>x. ref (snd x) = 1) xs) \<inter> range HeapA) \<longrightarrow>
         bytes st' r = bytes st1 r"
      "fst ` set (takeWhile (\<lambda>x. ref (snd x) = 1) xs) \<inter> range HeapA = {} \<longrightarrow> heap st' = heap st1"
      using Cons.IH [OF ch bk st1(2), of "n + 1"] by (elim exE conjE) (rule that)
    have run: "pbuf_free_loop p n st = pbuf_free_loop (nextp b) (n + 1) st1"
      using p True st1(1) by (subst pbuf_free_loop.simps) (simp add: Let_def)
    let ?T = "fst ` set (takeWhile (\<lambda>x. ref (snd x) = 1) xs)"
    have T: "fst ` set (takeWhile (\<lambda>x. ref (snd x) = 1) (x # xs)) = insert a ?T"
      using True x by simp
    have bt: "\<forall>r. r \<notin> PData ` (insert a ?T \<inter> range HeapA) \<longrightarrow> bytes st' r = bytes st r"
    proof (intro allI impI)
      fix r
      assume r: "r \<notin> PData ` (insert a ?T \<inter> range HeapA)"
      then have "r \<notin> PData ` (?T \<inter> range HeapA)" by auto
      moreover have "case a of HeapA h \<Rightarrow> r \<noteq> PData a | _ \<Rightarrow> True"
        using r by (cases a) auto
      ultimately show "bytes st' r = bytes st r" using st'(7) st1(7) by simp
    qed
    have hp: "insert a ?T \<inter> range HeapA = {} \<longrightarrow> heap st' = heap st"
      using st'(8) st1(8) by (cases a) auto
    have ml: "mem_live (heap st') = (\<lambda>r. if HeapA r \<in> insert a ?T then None else mem_live (heap st) r)"
      using st'(5) st1(5) by (cases a) (auto simp: fun_eq_iff)
    show ?thesis
      unfolding T run
      using st'(1-4,6) st1(2-4,6) True x bt hp ml
      by (intro exI [of _ st']) (cases a; simp add: memp_free_def)
  qed
qed

end
