(* ===== verification/Pbuf_Pool.thy ===== *)
theory Pbuf_Pool
  imports Pbuf_Chain "HOL-Library.Multiset"
begin

text \<open>
  The allocation of a \<open>PBUF_POOL\<close> chain: the invariant of the pool, the loop that takes one
  element after the other, and its clean-up when the pool runs out.
\<close>

subsection \<open>Allocating a pool chain\<close>

abbreviation pool_addr :: "nat \<Rightarrow> addr" where "pool_addr \<equiv> PoolA MEMP_PBUF_POOL"
abbreviation pool_free :: "pmem \<Rightarrow> nat list" where "pool_free st \<equiv> pools st MEMP_PBUF_POOL"

text \<open>Free elements hold no pbuf, and every element has its buffer.\<close>

definition pool_ok :: "pmem \<Rightarrow> bool" where
  "pool_ok st \<longleftrightarrow> distinct (pool_free st) \<and>
     (\<forall>i \<in> set (pool_free st). pbufs st (pool_addr i) = None \<and>
        (\<exists>d. bytes st (PData (pool_addr i)) = Some d \<and> length d = PBUF_POOL_BUFSIZE_ALIGNED))"

definition pool_blocks :: "nat \<Rightarrow> nat" where
  "pool_blocks n = (n + 1499) div 1500"

text \<open>A freshly allocated pool pbuf with its payload \<open>off\<close> bytes into the buffer.\<close>

definition fresh_pool :: "pmem \<Rightarrow> nat \<Rightarrow> addr \<times> pbuf \<Rightarrow> bool" where
  "fresh_pool st off x \<longleftrightarrow> ptype (snd x) = PBUF_POOL \<and> ref (snd x) = 1 \<and> flags (snd x) = 0 \<and>
     payload (snd x) = Some (PData (fst x), int off) \<and>
     unat (len (snd x)) \<le> PBUF_POOL_BUFSIZE_ALIGNED - off \<and>
     (\<exists>d. bytes st (PData (fst x)) = Some d \<and> length d = PBUF_POOL_BUFSIZE_ALIGNED)"

lemma pool_blocks_0 [simp]: "pool_blocks 0 = 0"
  by (simp add: pool_blocks_def)

lemma pool_blocks_Suc: "0 < n \<Longrightarrow> pool_blocks n = Suc (pool_blocks (n - min n 1500))"
proof (cases "n \<le> 1500")
  case False
  then have "n + 1499 = (n - 1500 + 1499) + 1500" by simp
  then show ?thesis using False unfolding pool_blocks_def by (simp add: min_def)
qed (auto simp: pool_blocks_def min_def intro!: div_nat_eqI)

lemma memp_malloc_pool:
  "memp_malloc t pl = (case pl t of [] \<Rightarrow> (None, pl) | i # F \<Rightarrow> (Some i, pl(t := F)))"
  by (simp add: memp_malloc_def)

lemma pool_tail_success:
  assumes "pool_ok st" "pbufs st r = Some rb" "nextp rb = None" "n < 65536"
    and "pool_blocks n \<le> length (pool_free st)"
  shows "\<exists>ys st' q. pool_tail p r n st = Some (Some p, st') \<and>
    pbufs st' r = Some (rb\<lparr>nextp := q\<rparr>) \<and> chain (pbufs st') q ys \<and>
    map fst ys = map pool_addr (take (pool_blocks n) (pool_free st)) \<and>
    tot_ok ys \<and> lens ys = n \<and> (\<forall>y \<in> set ys. fresh_pool st' 0 y) \<and>
    (\<forall>a. a \<noteq> r \<longrightarrow> a \<notin> fst ` set ys \<longrightarrow> pbufs st' a = pbufs st a) \<and>
    pools st' = (pools st)(MEMP_PBUF_POOL := drop (pool_blocks n) (pool_free st)) \<and>
    heap st' = heap st \<and> bytes st' = bytes st \<and> junk st' = junk st"
  using assms
proof (induction "pool_free st" arbitrary: st r rb n)
  case Nil
  then have n0: "n = 0"
    using pool_blocks_Suc [of n] by (cases "n = 0") auto
  show ?case
    using Nil(3,4) by (intro exI [of _ "[]"] exI [of _ st] exI [of _ None])
      (simp add: n0 pool_tail.simps [of p r 0] fun_upd_idem)
next
  case (Cons i F)
  show ?case
  proof (cases "n = 0")
    case True
    then show ?thesis
      using Cons.prems(2,3) by (intro exI [of _ "[]"] exI [of _ st] exI [of _ None])
        (simp add: pool_tail.simps [of p r 0] fun_upd_idem)
  next
    case False
    let ?q = "pool_addr i" and ?k = "min n 1500"
    let ?qb = "\<lparr>nextp = None, payload = Some (PData ?q, 0), tot_len = of_nat n, len = of_nat ?k,
        ptype = PBUF_POOL, flags = 0, ref = 1\<rparr>"
    let ?st = "st\<lparr>pools := (pools st)(MEMP_PBUF_POOL := F),
        pbufs := (pbufs st)(r \<mapsto> rb\<lparr>nextp := Some ?q\<rparr>, ?q \<mapsto> ?qb)\<rparr>"
    have F: "pool_free st = i # F" using Cons.hyps(2) by simp
    have rq: "r \<noteq> ?q" using Cons.prems(1,2) F by (auto simp: pool_ok_def)
    have step: "pool_tail p r n st = pool_tail p ?q (n - ?k) ?st"
      using False Cons.prems(2) rq F
      by (subst pool_tail.simps)
         (simp add: memp_malloc_pool upd_pbuf_def PBUF_POOL_BUFSIZE_ALIGNED_def Let_def)
    have ok: "pool_ok ?st" using Cons.prems(1) F rq Cons.prems(2) by (auto simp: pool_ok_def)
    have fr: "F = pool_free ?st" by simp
    have pr: "pbufs ?st ?q = Some ?qb" "nextp ?qb = None" "n - ?k < 65536"
      "pool_blocks (n - ?k) \<le> length (pool_free ?st)"
      using Cons.prems(4,5) F pool_blocks_Suc [of n] False by auto
    from Cons.hyps(1) [OF fr ok pr]
    obtain ys st' q where IH0: "pool_tail p ?q (n - ?k) ?st = Some (Some p, st')"
      "pbufs st' ?q = Some (?qb\<lparr>nextp := q\<rparr>)" "chain (pbufs st') q ys"
      "map fst ys = map pool_addr (take (pool_blocks (n - ?k)) (pool_free ?st))"
      "tot_ok ys" "lens ys = n - ?k" "\<forall>y \<in> set ys. fresh_pool st' 0 y"
      "\<forall>a. a \<noteq> ?q \<longrightarrow> a \<notin> fst ` set ys \<longrightarrow> pbufs st' a = pbufs ?st a"
      "pools st' = (pools ?st)(MEMP_PBUF_POOL := drop (pool_blocks (n - ?k)) (pool_free ?st))"
      "heap st' = heap ?st" "bytes st' = bytes ?st" "junk st' = junk ?st"
      by (elim exE conjE) (rule that)
    have pf: "pool_free ?st = F" "heap ?st = heap st" "bytes ?st = bytes st" "junk ?st = junk st" by simp_all
    note IH = IH0 [unfolded pf]
    have iF: "i \<notin> set F" "\<And>j. j \<in> set F \<Longrightarrow> pbufs st (pool_addr j) = None"
      using Cons.prems(1) F by (auto simp: pool_ok_def)
    have fys: "fst ` set ys \<subseteq> pool_addr ` set F"
      using arg_cong [OF IH(4), of set] by (auto dest: in_set_takeD)
    have rys: "r \<notin> fst ` set ys" using fys iF(2) Cons.prems(2) by auto
    have w: "unat (of_nat n :: u16) = n" "unat (of_nat ?k :: u16) = ?k"
      using Cons.prems(4) by (auto intro!: unat_of_nat_lt simp: min_def)
    have "fresh_pool st' 0 (?q, ?qb\<lparr>nextp := q\<rparr>)"
      using Cons.prems(1) F w IH(11) by (auto simp: fresh_pool_def pool_ok_def PBUF_POOL_BUFSIZE_ALIGNED_def)
    then show ?thesis
      using step IH rys rq False w pool_blocks_Suc [of n] F
      by (intro exI [of _ "(?q, ?qb\<lparr>nextp := q\<rparr>) # ys"] exI [of _ st'] exI [of _ "Some ?q"]) auto
  qed
qed


definition pool_chain :: "pmem \<Rightarrow> addr \<Rightarrow> (addr \<times> pbuf) list \<Rightarrow> bool" where
  "pool_chain st p zs \<longleftrightarrow> chain (pbufs st) (Some p) zs \<and> distinct (map fst zs) \<and>
     (\<forall>z \<in> set zs. (\<exists>i. fst z = pool_addr i) \<and> ptype (snd z) = PBUF_POOL \<and> ref (snd z) = 1)"

fun pool_idx :: "addr \<Rightarrow> nat" where
  "pool_idx (PoolA t i) = i"
| "pool_idx (HeapA i) = i"

lemma free_refs_all:
  "\<forall>z \<in> set zs. ref (snd z) = 1 \<Longrightarrow> free_refs zs m = (\<lambda>a. if a \<in> fst ` set zs then None else m a)"
proof (induction zs arbitrary: m)
  case (Cons z zs)
  then show ?case by (cases z) (simp add: fun_eq_iff)
qed simp

lemma pool_chain_free:
  assumes "pool_chain st p zs" "mem_ok (heap st)"
  shows "\<exists>st'. pbuf_free (Some p) st = Some (of_nat (length zs), st') \<and>
    pbufs st' = (\<lambda>a. if a \<in> fst ` set zs then None else pbufs st a) \<and>
    pools st' = (pools st)(MEMP_PBUF_POOL := rev (map (pool_idx \<circ> fst) zs) @ pool_free st) \<and>
    heap st' = heap st \<and> bytes st' = bytes st \<and> junk st' = junk st"
proof -
  have all1: "\<forall>z \<in> set zs. ref (snd z) = 1" using assms(1) by (simp add: pool_chain_def)
  then have tw: "takeWhile (\<lambda>x. ref (snd x) = 1) zs = zs" by (simp add: takeWhile_eq_all_conv)
  have "\<forall>x \<in> set zs. backed st x"
    using assms(1) by (force simp: pool_chain_def backed_def)
  with assms obtain st' where st': "pbuf_free_loop (Some p) 0 st = Some (0 + of_nat (length zs), st')"
    "pbufs st' = free_refs zs (pbufs st)" "junk st' = junk st"
    "\<forall>t. pools st' t = rev (concat (map (\<lambda>x. case fst x of PoolA s i \<Rightarrow> if s = t then [i] else [] | _ \<Rightarrow> []) zs)) @ pools st t"
    "\<forall>r. r \<notin> PData ` (fst ` set zs \<inter> range HeapA) \<longrightarrow> bytes st' r = bytes st r"
    "fst ` set zs \<inter> range HeapA = {} \<longrightarrow> heap st' = heap st"
    using pbuf_free_loop_spec [of st "Some p" zs 0, unfolded tw] unfolding pool_chain_def by blast
  have noheap: "fst ` set zs \<inter> range HeapA = {}"
    using assms(1) by (force simp: pool_chain_def)
  have c: "concat (map (\<lambda>x. case fst x of PoolA s i \<Rightarrow> if s = t then [i] else [] | _ \<Rightarrow> []) zs) =
      (if t = MEMP_PBUF_POOL then map (pool_idx \<circ> fst) zs else [])" for t
  proof -
    have "\<forall>z \<in> set zs. \<exists>i. fst z = pool_addr i" using assms(1) by (simp add: pool_chain_def)
    then show ?thesis by (induction zs) auto
  qed
  have "bytes st' = bytes st" using st'(5) noheap by auto
  then show ?thesis
    using st' noheap c free_refs_all [OF all1, of "pbufs st"]
    by (intro exI [of _ st']) (auto simp: pbuf_free_def fun_eq_iff)
qed

lemma pool_tail_failure:
  assumes "pool_ok st" "pool_chain st p (xs @ [(r, rb)])" "nextp rb = None" "mem_ok (heap st)"
    and "length (pool_free st) < pool_blocks n"
  shows "\<exists>st'. pool_tail p r n st = Some (None, st') \<and>
    pbufs st' = (\<lambda>a. if a \<in> fst ` set (xs @ [(r, rb)]) then None else pbufs st a) \<and>
    mset (pool_free st') = mset (pool_free st) + mset (map (pool_idx \<circ> fst) (xs @ [(r, rb)])) \<and>
    (\<forall>t. t \<noteq> MEMP_PBUF_POOL \<longrightarrow> pools st' t = pools st t) \<and>
    heap st' = heap st \<and> bytes st' = bytes st \<and> junk st' = junk st"
  using assms
proof (induction "pool_free st" arbitrary: st xs r rb n)
  case Nil
  then have n0: "0 < n" by (cases n) auto
  have e: "pool_free st = []" using Nil(1) by simp
  have idem: "st\<lparr>pools := pools st\<rparr> = st" by simp
  from pool_chain_free [OF Nil.prems(2,4)] obtain st' where
    st': "pbuf_free (Some p) st = Some (of_nat (length (xs @ [(r, rb)])), st')"
    "pbufs st' = (\<lambda>a. if a \<in> fst ` set (xs @ [(r, rb)]) then None else pbufs st a)"
    "pools st' = (pools st)(MEMP_PBUF_POOL := rev (map (pool_idx \<circ> fst) (xs @ [(r, rb)])) @ pool_free st)"
    "heap st' = heap st" "bytes st' = bytes st" "junk st' = junk st" by auto
  have "pool_tail p r n st = Some (None, st')"
    using n0 e st'(1) idem by (subst pool_tail.simps) (simp add: memp_malloc_pool)
  then show ?case
    using st' e by (intro exI [of _ st']) (auto simp: comp_def)
next
  case (Cons i F)
  have n: "0 < n" using Cons.prems(5) by (cases n) auto
  let ?q = "pool_addr i" and ?k = "min n 1500"
  let ?qb = "\<lparr>nextp = None, payload = Some (PData ?q, 0), tot_len = of_nat n, len = of_nat ?k,
      ptype = PBUF_POOL, flags = 0, ref = 1\<rparr>"
  let ?rb = "rb\<lparr>nextp := Some ?q\<rparr>"
  let ?st = "st\<lparr>pools := (pools st)(MEMP_PBUF_POOL := F),
      pbufs := (pbufs st)(r \<mapsto> ?rb, ?q \<mapsto> ?qb)\<rparr>"
  have F: "pool_free st = i # F" using Cons.hyps(2) by simp
  have pz: "pbufs st a = Some b" if "(a, b) \<in> set (xs @ [(r, rb)])" for a b
    using Cons.prems(2) that unfolding pool_chain_def by (blast dest: chain_mem)
  have qn: "pbufs st ?q = None" using Cons.prems(1) F by (simp add: pool_ok_def)
  then have rq: "r \<noteq> ?q" and qx: "?q \<notin> fst ` set xs" using pz by force+
  have rx: "r \<notin> fst ` set xs" using Cons.prems(2) by (simp add: pool_chain_def)
  have step: "pool_tail p r n st = pool_tail p ?q (n - ?k) ?st"
    using n pz [of r rb] rq F
    by (subst pool_tail.simps)
       (simp add: memp_malloc_pool upd_pbuf_def PBUF_POOL_BUFSIZE_ALIGNED_def Let_def)
  have ok: "pool_ok ?st" using Cons.prems(1) F rq pz [of r rb] by (auto simp: pool_ok_def)
  have fr: "F = pool_free ?st" by simp
  have cx: "chain m' s (xs @ ys)" if "chain m s (xs @ [(r, rb)])" "\<And>a. a \<in> fst ` set xs \<Longrightarrow> m' a = m a"
    "\<And>s. chain m' s ys \<longleftrightarrow> s = Some r" for m m' s ys
    using that by (induction xs arbitrary: s) auto
  have "chain (pbufs ?st) (Some p) (xs @ [(r, ?rb), (?q, ?qb)])"
  proof (rule cx)
    show "chain (pbufs st) (Some p) (xs @ [(r, rb)])" using Cons.prems(2) by (simp add: pool_chain_def)
    show "pbufs ?st a = pbufs st a" if "a \<in> fst ` set xs" for a
    proof -
      have "a \<noteq> r" "a \<noteq> ?q" using that rx qx by blast+
      then show ?thesis by simp
    qed
    show "chain (pbufs ?st) s [(r, ?rb), (?q, ?qb)] \<longleftrightarrow> s = Some r" for s
      using rq by simp
  qed
  then have ch: "pool_chain ?st p ((xs @ [(r, ?rb)]) @ [(?q, ?qb)])"
    using Cons.prems(2) rq qx by (auto simp: pool_chain_def)
  have sh: "length (pool_free ?st) < pool_blocks (n - ?k)"
    using Cons.prems(5) F pool_blocks_Suc [OF n] by simp
  have mo: "mem_ok (heap ?st)" using Cons.prems(4) by simp
  have qn0: "nextp ?qb = None" by simp
  from Cons.hyps(1) [OF fr ok ch qn0 mo sh]
  obtain st' where st': "pool_tail p ?q (n - ?k) ?st = Some (None, st')"
    "pbufs st' = (\<lambda>a. if a \<in> fst ` set ((xs @ [(r, ?rb)]) @ [(?q, ?qb)]) then None else pbufs ?st a)"
    "mset (pool_free st') = mset (pool_free ?st) +
       mset (map (pool_idx \<circ> fst) ((xs @ [(r, ?rb)]) @ [(?q, ?qb)]))"
    "\<forall>t. t \<noteq> MEMP_PBUF_POOL \<longrightarrow> pools st' t = pools ?st t"
    "heap st' = heap ?st" "bytes st' = bytes ?st" "junk st' = junk ?st"
    by (elim exE conjE) (rule that)
  show ?case
    unfolding step
  proof (intro exI [of _ st'] conjI)
    show "pbufs st' = (\<lambda>a. if a \<in> fst ` set (xs @ [(r, rb)]) then None else pbufs st a)"
      unfolding st'(2) using qn rq by (auto simp: fun_eq_iff)
    show "mset (pool_free st') = mset (pool_free st) + mset (map (pool_idx \<circ> fst) (xs @ [(r, rb)]))"
      using st'(3) F by simp
  qed (use st' in auto)
qed


text \<open>The room in front of the payload, and the number of pool elements a length takes.\<close>

definition headroom :: "pbuf_layer \<Rightarrow> nat" where
  "headroom layer = LWIP_MEM_ALIGN_SIZE (layer_offset layer)"

definition pool_need :: "pbuf_layer \<Rightarrow> nat \<Rightarrow> nat" where
  "pool_need layer n = Suc (pool_blocks (n - min n (1500 - headroom layer)))"


end
