(* ===== verification/Pbuf_Copy.thy ===== *)
theory Pbuf_Copy
  imports Pbuf_Chain
begin

text \<open>
  Writing into packets: the frame of a write, \<open>pbuf_take\<close> over a chain, and the loop of
  \<open>pbuf_copy\<close>, which walks two chains cut at different places.
\<close>

subsection \<open>Writing into a packet\<close>

text \<open>A pbuf that holds its own data, as \<open>PBUF_RAM\<close> and \<open>PBUF_POOL\<close> do.\<close>

definition owned :: "(addr \<times> pbuf) list \<Rightarrow> bool" where
  "owned xs \<longleftrightarrow> (\<forall>(a, b) \<in> set xs. \<exists>off. payload b = Some (PData a, off))"

definition areas :: "(addr \<times> pbuf) list \<Rightarrow> region set" where
  "areas xs = PData ` fst ` set xs"

text \<open>Same pbufs, and the same bytes outside the regions \<open>R\<close>.\<close>

definition writes_only :: "region set \<Rightarrow> pmem \<Rightarrow> pmem \<Rightarrow> bool" where
  "writes_only R st st' \<longleftrightarrow> pbufs st' = pbufs st \<and> heap st' = heap st \<and> pools st' = pools st \<and>
     junk st' = junk st \<and> (\<forall>r. r \<notin> R \<longrightarrow> bytes st' r = bytes st r) \<and>
     (\<forall>r. map_option length (bytes st' r) = map_option length (bytes st r))"

lemma writes_only_refl [simp]: "writes_only R st st"
  by (simp add: writes_only_def)

lemma writes_only_trans: "writes_only R a b \<Longrightarrow> writes_only R b c \<Longrightarrow> writes_only R a c"
  by (simp add: writes_only_def)

lemma writes_only_mono: "writes_only R a b \<Longrightarrow> R \<subseteq> S \<Longrightarrow> writes_only S a b"
  by (auto simp: writes_only_def)

lemma writes_only_read:
  "writes_only R st st' \<Longrightarrow> r \<notin> R \<Longrightarrow> read_at st' (Some (r, off)) n = read_at st (Some (r, off)) n"
  by (simp add: writes_only_def read_at_def)

lemma writes_only_readable:
  "writes_only R st st' \<Longrightarrow> read_at st ptr n \<noteq> None \<Longrightarrow> read_at st' ptr n \<noteq> None"
proof -
  assume w: "writes_only R st st'" and r: "read_at st ptr n \<noteq> None"
  show ?thesis
  proof (cases "n = 0 \<or> ptr = None")
    case True
    then show ?thesis using r by (auto simp: read_at_def)
  next
    case False
    then obtain q off where p: "ptr = Some (q, off)" by auto
    have "map_option length (bytes st' q) = map_option length (bytes st q)"
      using w by (simp add: writes_only_def)
    then show ?thesis
      using r False by (auto simp: p read_at_def split: option.splits if_splits)
  qed
qed

lemma write_at_ok:
  assumes rd: "read_at st (Some (r, i)) n = Some old" and le: "off + length bs \<le> n" and bs: "bs \<noteq> []"
    and nf: "\<not> flash r"
  shows "\<exists>st'. write_at st (Some (r, i + int off)) bs = Some st' \<and> writes_only {r} st st' \<and>
    read_at st' (Some (r, i)) n = Some (take off old @ bs @ drop (off + length bs) old)"
proof -
  have "n \<noteq> 0" using le bs by (cases bs) auto
  then obtain D where D: "bytes st r = Some D" "0 \<le> i" "nat i + n \<le> length D" "old = take n (drop (nat i) D)"
    using rd by (auto simp: read_at_def split: if_splits option.splits)
  let ?k = "nat i + off"
  have k: "nat (i + int off) = ?k" using D(2) by (simp add: nat_add_distrib)
  let ?D = "take ?k D @ bs @ drop (?k + length bs) D"
  let ?st = "st\<lparr>bytes := (bytes st)(r \<mapsto> ?D)\<rparr>"
  have w: "write_at st (Some (r, i + int off)) bs = Some ?st"
    using D le bs nf by (simp add: write_at_def k)
  have len: "length ?D = length D" using D(3) le by simp
  obtain A C where AC: "D = A @ old @ C" "length A = nat i" "length old = n"
  proof
    show "D = take (nat i) D @ old @ drop (nat i + n) D"
      unfolding D(4) using append_take_drop_id [of n "drop (nat i) D"] by (simp add: add.commute)
  qed (use D in simp_all)
  have "?D = A @ (take off old @ bs @ drop (off + length bs) old) @ C"
    unfolding AC(1) using AC(2,3) le by simp
  then have "take n (drop (nat i) ?D) = take off old @ bs @ drop (off + length bs) old"
    using AC(2,3) le by simp
  then have "read_at ?st (Some (r, i)) n = Some (take off old @ bs @ drop (off + length bs) old)"
    using D(2,3) len \<open>n \<noteq> 0\<close> by (simp add: read_at_def)
  then show ?thesis
    using w D(1) len by (intro exI [of _ ?st]) (simp add: writes_only_def)
qed

lemma writes_only_packet: "writes_only R st st' \<Longrightarrow> packet st p xs \<Longrightarrow> packet st' p xs"
  unfolding packet_def using writes_only_readable [of R st st'] by (auto simp: writes_only_def)

lemma writes_only_bytes:
  "writes_only R st st' \<Longrightarrow> \<forall>x \<in> set xs. \<exists>r off. payload (snd x) = Some (r, off) \<and> r \<notin> R \<Longrightarrow>
   packet_bytes st' xs = packet_bytes st xs"
proof (induction xs)
  case (Cons x xs)
  obtain r off where "payload (snd x) = Some (r, off)" "r \<notin> R" using Cons.prems(2) by auto
  then have "pbuf_bytes st' (snd x) = pbuf_bytes st (snd x)"
    using Cons.prems(1) by (simp add: pbuf_bytes_def writes_only_read)
  then show ?case using Cons by simp
qed simp

lemma owned_simps [simp]:
  "owned []" "owned ((a, b) # xs) \<longleftrightarrow> (\<exists>off. payload b = Some (PData a, off)) \<and> owned xs"
  by (auto simp: owned_def)

lemma areas_simps [simp]: "areas [] = {}" "areas (x # xs) = insert (PData (fst x)) (areas xs)"
  by (auto simp: areas_def)

lemma owned_bytes:
  assumes "writes_only R st st'" "owned xs" "R \<inter> areas xs = {}"
  shows "packet_bytes st' xs = packet_bytes st xs"
proof (rule writes_only_bytes [OF assms(1)], rule ballI)
  fix x
  assume x: "x \<in> set xs"
  then obtain off where "payload (snd x) = Some (PData (fst x), off)"
    using assms(2) by (cases x) (auto simp: owned_def)
  moreover have "PData (fst x) \<notin> R" using x assms(3) by (auto simp: areas_def)
  ultimately show "\<exists>r off. payload (snd x) = Some (r, off) \<and> r \<notin> R" by blast
qed

lemma write_pbuf:
  assumes "read_at st (payload b) (unat (len b)) \<noteq> None" "payload b = Some (PData a, i)"
    and "off + length bs \<le> unat (len b)"
  shows "\<exists>st'. write_at st (ptr_add (payload b) (int off)) bs = Some st' \<and> writes_only {PData a} st st' \<and>
    pbuf_bytes st' b = take off (pbuf_bytes st b) @ bs @ drop (off + length bs) (pbuf_bytes st b)"
proof (cases "bs = []")
  case True
  then show ?thesis by (simp add: write_at_def)
next
  case False
  obtain old where old: "read_at st (Some (PData a, i)) (unat (len b)) = Some old" using assms by auto
  from write_at_ok [OF old assms(3) False] flash.simps(1) show ?thesis
    using old by (auto simp: pbuf_bytes_def assms(2) ptr_add_def)
qed

lemma ptr_add_0 [simp]: "ptr_add p 0 = p"
  by (cases p) (auto simp: ptr_add_def)

lemma take_loop_spec:
  "packet st p xs \<Longrightarrow> owned xs \<Longrightarrow> length bs \<le> lens xs \<Longrightarrow>
   \<exists>st'. take_loop p bs st = Some st' \<and> writes_only (areas xs) st st' \<and>
     packet_bytes st' xs = bs @ drop (length bs) (packet_bytes st xs)"
proof (induction xs arbitrary: p bs st)
  case Nil
  then show ?case by (subst take_loop.simps) simp
next
  case (Cons x xs)
  obtain a b where x: "x = (a, b)" by (cases x)
  show ?case
  proof (cases "bs = []")
    case True
    then show ?thesis by (subst take_loop.simps) simp
  next
    case False
    obtain i where i: "payload b = Some (PData a, i)" using Cons.prems x by auto
    have p: "p = Some a" "pbufs st a = Some b" "packet st (nextp b) xs" "a \<notin> fst ` set xs" "owned xs"
      and rd: "read_at st (payload b) (unat (len b)) \<noteq> None"
      using Cons.prems x by auto
    let ?c = "take (unat (len b)) bs" and ?d = "drop (unat (len b)) bs"
    from write_pbuf [OF rd i, of 0 ?c] obtain st1 where st1:
      "write_at st (payload b) ?c = Some st1" "writes_only {PData a} st st1"
      "pbuf_bytes st1 b = ?c @ drop (length ?c) (pbuf_bytes st b)" by auto
    have dj: "PData a \<notin> areas xs" using p(4) by (auto simp: areas_def)
    have "length ?d \<le> lens xs" using Cons.prems(3) x by simp
    from Cons.IH [OF writes_only_packet [OF st1(2) p(3)] p(5) this]
    obtain st2 where st2: "take_loop (nextp b) ?d st1 = Some st2" "writes_only (areas xs) st1 st2"
      "packet_bytes st2 xs = ?d @ drop (length ?d) (packet_bytes st1 xs)" by auto
    have run: "take_loop p bs st = Some st2"
      using False p(1,2) st1(1) st2(1) by (subst take_loop.simps) simp
    have b2: "pbuf_bytes st2 b = pbuf_bytes st1 b"
      using writes_only_read [OF st2(2) dj] by (simp add: pbuf_bytes_def i)
    have b1: "packet_bytes st1 xs = packet_bytes st xs"
      using owned_bytes [OF st1(2) p(5)] dj by simp
    have l: "length (pbuf_bytes st b) = unat (len b)" by (rule pbuf_bytes_length [OF rd])
    have "packet_bytes st2 (x # xs) = bs @ drop (length bs) (packet_bytes st (x # xs))"
      using l by (cases "length bs \<le> unat (len b)") (simp_all add: x b2 st1(3) st2(3) b1 min_def)
    moreover have "writes_only (areas (x # xs)) st st2"
      using writes_only_trans [OF writes_only_mono [OF st1(2)] writes_only_mono [OF st2(2)]] x by auto
    ultimately show ?thesis using run by auto
  qed
qed

text \<open>No pbuf of a packet with non-empty pbufs looks like the end of a packet in a queue.\<close>

lemma not_packet_queue:
  "packet st p xs \<Longrightarrow> \<forall>x \<in> set xs. 0 < unat (len (snd x)) \<Longrightarrow> packet_queue p st = Some False"
proof (cases xs)
  case (Cons x ys)
  assume "packet st p xs" "\<forall>x \<in> set xs. 0 < unat (len (snd x))"
  then show ?thesis
    by (cases x; cases ys) (auto simp: Cons packet_queue_def word_unat_eq_iff)
qed (simp add: packet_queue_def)

text \<open>The regions the data of a packet lies in.\<close>

definition sources :: "(addr \<times> pbuf) list \<Rightarrow> region set" where
  "sources xs = {r. \<exists>x \<in> set xs. \<exists>off. payload (snd x) = Some (r, off)}"

lemma sources_Cons: "sources (x # xs) = {r. \<exists>off. payload (snd x) = Some (r, off)} \<union> sources xs"
  by (auto simp: sources_def)

lemma source_bytes:
  assumes "writes_only R st st'" "R \<inter> sources xs = {}"
    and "packet st p xs" "\<forall>x \<in> set xs. 0 < unat (len (snd x))"
  shows "packet_bytes st' xs = packet_bytes st xs"
proof (rule writes_only_bytes [OF assms(1)], rule ballI)
  fix x
  assume x: "x \<in> set xs"
  then have "read_at st (payload (snd x)) (unat (len (snd x))) \<noteq> None" "0 < unat (len (snd x))"
    using assms(3,4) by (auto simp: packet_def)
  then obtain r off where "payload (snd x) = Some (r, off)"
    by (cases "payload (snd x)") (auto simp: read_at_def)
  moreover from this have "r \<notin> R" using x assms(2) by (auto simp: sources_def)
  ultimately show "\<exists>r off. payload (snd x) = Some (r, off) \<and> r \<notin> R" by blast
qed

abbreviation (input) fulls :: "(addr \<times> pbuf) list \<Rightarrow> bool" where
  "fulls xs \<equiv> \<forall>x \<in> set xs. 0 < unat (len (snd x))"

lemma copy_loop_spec:
  "length ts + length fs = N \<Longrightarrow> packet st t ((a, b) # ts) \<Longrightarrow> owned ((a, b) # ts) \<Longrightarrow>
   packet st f ((c, d) # fs) \<Longrightarrow> fulls ((a, b) # ts) \<Longrightarrow> fulls ((c, d) # fs) \<Longrightarrow>
   areas ((a, b) # ts) \<inter> sources ((c, d) # fs) = {} \<Longrightarrow>
   unat ot < unat (len b) \<Longrightarrow> unat off < unat (len d) \<Longrightarrow>
   unat (len d) - unat off + lens fs \<le> unat (len b) - unat ot + lens ts \<Longrightarrow>
   \<exists>st'. copy_loop t ot f off st = Some (ERR_OK, st') \<and> writes_only (areas ((a, b) # ts)) st st' \<and>
    packet_bytes st' ((a, b) # ts) = take (unat ot) (packet_bytes st ((a, b) # ts)) @
      drop (unat off) (packet_bytes st ((c, d) # fs)) @
      drop (unat ot + (unat (len d) - unat off + lens fs)) (packet_bytes st ((a, b) # ts))"
proof (induction N arbitrary: a b ts c d fs t f ot off st rule: less_induct)
  case (less N)
  have t: "t = Some a" "pbufs st a = Some b" "packet st (nextp b) ts" "a \<notin> fst ` set ts"
    "read_at st (payload b) (unat (len b)) \<noteq> None"
    and f: "f = Some c" "pbufs st c = Some d" "packet st (nextp d) fs"
    "read_at st (payload d) (unat (len d)) \<noteq> None"
    using less.prems(2,4) by auto
  obtain i where i: "payload b = Some (PData a, i)" using less.prems(3) by auto
  let ?n = "if int (unat (len d)) - int (unat off) \<le> int (unat (len b)) - int (unat ot)
            then len d - off else len b - ot"
  let ?K = "min (unat (len d) - unat off) (unat (len b) - unat ot)"
  have "int (unat (len d)) - int (unat off) \<le> int (unat (len b)) - int (unat ot) \<longleftrightarrow>
      unat (len d) - unat off \<le> unat (len b) - unat ot" using less.prems(8,9) by linarith
  then have K: "unat ?n = ?K" using less.prems(8,9) by (simp only: min_def) (simp add: unat_minus_small)
  have Kpos: "0 < ?K" using less.prems(8,9) by simp
  let ?bs = "take ?K (drop (unat off) (pbuf_bytes st d))"
  have rd: "read_at st (ptr_add (payload d) (int (unat off))) (unat ?n) = Some ?bs"
    unfolding K using f(4) less.prems(9)
    by (intro read_at_part) (auto simp: pbuf_bytes_def)
  have ld: "length (pbuf_bytes st d) = unat (len d)" and lb: "length (pbuf_bytes st b) = unat (len b)"
    using f(4) t(5) by (simp_all add: pbuf_bytes_length)
  then have lbs: "length ?bs = ?K" by simp
  have "unat ot + length ?bs \<le> unat (len b)" unfolding lbs using less.prems(8) by simp
  from write_pbuf [OF t(5) i this] obtain st1 where
    st1: "write_at st (ptr_add (payload b) (int (unat ot))) ?bs = Some st1" "writes_only {PData a} st st1"
    "pbuf_bytes st1 b = take (unat ot) (pbuf_bytes st b) @ ?bs @ drop (unat ot + ?K) (pbuf_bytes st b)"
    unfolding lbs by blast
  note wp = writes_only_packet [OF st1(2)]
  have ot1: "unat (ot + ?n) = unat ot + ?K" and off1: "unat (off + ?n) = unat off + ?K"
    using K less.prems(8,9) unat_u16_lt [of "len b"] unat_u16_lt [of "len d"]
    by (subst unat_plus_small; simp del: unat_u16_lt)+
  have eb: "ot + ?n = len b \<longleftrightarrow> ?K = unat (len b) - unat ot"
    unfolding word_unat_eq_iff ot1 using less.prems(8) by auto
  have ed: "len d \<le> off + ?n \<longleftrightarrow> ?K = unat (len d) - unat off"
    unfolding word_le_nat_alt off1 using less.prems(9) by auto
  let ?to = "if ot + ?n = len b then (nextp b, 0) else (t, ot + ?n)"
  let ?from = "if len d \<le> off + ?n then (nextp d, 0) else (f, off + ?n)"
  have run: "copy_loop t ot f off st = do {
       qf \<leftarrow> packet_queue (fst ?from) st1;
       (if qf then Some (ERR_VAL, st1)
        else do {
          qt \<leftarrow> packet_queue (fst ?to) st1;
          (if qt then Some (ERR_VAL, st1)
           else if fst ?from \<noteq> None then copy_loop (fst ?to) (snd ?to) (fst ?from) (snd ?from) st1
           else Some (ERR_OK, st1))
        })
     }"
    by (subst copy_loop.simps) (simp only: t(1,2) f(1,2) option.case Option.bind.simps Let_def rd st1(1) case_prod_beta)
  have pt: "packet st1 t ((a, b) # ts)" and pf: "packet st1 f ((c, d) # fs)"
    using wp [OF less.prems(2)] wp [OF less.prems(4)] by blast+
  have ft: "fulls ts" "fulls fs" using less.prems(5,6) by auto
  have S: "packet_bytes st1 ((c, d) # fs) = packet_bytes st ((c, d) # fs)"
    using less.prems(7) by (intro source_bytes [OF st1(2) _ less.prems(4,6)]) auto
  then have S1: "packet_bytes st1 fs = packet_bytes st fs" "pbuf_bytes st1 d = pbuf_bytes st d"
    using ld pbuf_bytes_length [of st1 d] pf by auto
  have T1: "packet_bytes st1 ts = packet_bytes st ts"
    using less.prems(3) t(4) by (intro owned_bytes [OF st1(2)]) (auto simp: areas_def)
  have ls: "length (packet_bytes st fs) = lens fs" "length (packet_bytes st ts) = lens ts"
    by (rule packet_bytes_length, rule f(3) t(3))+
  have qf: "packet_queue (nextp d) st1 = Some False" "packet_queue f st1 = Some False"
    "packet_queue (nextp b) st1 = Some False" "packet_queue t st1 = Some False"
    using not_packet_queue [OF _ ft(2), of st1 "nextp d"] not_packet_queue [OF pf less.prems(6)]
      not_packet_queue [OF _ ft(1), of st1 "nextp b"] not_packet_queue [OF pt less.prems(5)] pt pf
    by auto
  have w1: "writes_only (areas ((a, b) # ts)) st st1" by (rule writes_only_mono [OF st1(2)]) simp
  consider "unat (len d) - unat off < unat (len b) - unat ot"
    | "unat (len b) - unat ot < unat (len d) - unat off"
    | "unat (len d) - unat off = unat (len b) - unat ot" by linarith
  then consider (src) "?K = unat (len d) - unat off" "?K \<noteq> unat (len b) - unat ot"
    | (dst) "?K \<noteq> unat (len d) - unat off" "?K = unat (len b) - unat ot"
    | (both) "?K = unat (len d) - unat off" "?K = unat (len b) - unat ot"
    by cases simp_all
  then show ?case
  proof cases
    case src
    then have to: "?to = (t, ot + ?n)" and frm: "?from = (nextp d, 0)" using eb ed by auto
    show ?thesis
    proof (cases fs)
      case Nil
      then have "nextp d = None" using f(3) by simp
      then have r: "copy_loop t ot f off st = Some (ERR_OK, st1)" unfolding run to frm using qf by simp
      show ?thesis
        using src Nil ld lb less.prems(8,9)
        by (intro exI [of _ st1] conjI r w1) (simp add: st1(3) T1)
    next
      case (Cons y fs')
      obtain c' d' where y: "y = (c', d')" by (cases y)
      have nd: "nextp d \<noteq> None" using f(3) Cons y by auto
      have r: "copy_loop t ot f off st = copy_loop t (ot + ?n) (nextp d) 0 st1"
        unfolding run to frm using qf nd by simp
      have "\<exists>st'. copy_loop t (ot + ?n) (nextp d) 0 st1 = Some (ERR_OK, st') \<and>
          writes_only (areas ((a, b) # ts)) st1 st' \<and>
          packet_bytes st' ((a, b) # ts) = take (unat (ot + ?n)) (packet_bytes st1 ((a, b) # ts)) @
            drop (unat (0 :: u16)) (packet_bytes st1 ((c', d') # fs')) @
            drop (unat (ot + ?n) + (unat (len d') - unat (0 :: u16) + lens fs')) (packet_bytes st1 ((a, b) # ts))"
      proof (rule less.IH [OF _ refl pt less.prems(3) _ less.prems(5)])
        show "length ts + length fs' < N" using less.prems(1) Cons by simp
        show "packet st1 (nextp d) ((c', d') # fs')" using pf Cons y by simp
        show "fulls ((c', d') # fs')" using ft(2) Cons y by simp
        show "areas ((a, b) # ts) \<inter> sources ((c', d') # fs') = {}"
          using less.prems(7) unfolding Cons y sources_Cons by blast
        show "unat (ot + ?n) < unat (len b)" unfolding ot1 using src less.prems(8) by auto
        show "unat (0 :: u16) < unat (len d')" using ft(2) Cons y by simp
        show "unat (len d') - unat (0 :: u16) + lens fs' \<le> unat (len b) - unat (ot + ?n) + lens ts"
          unfolding ot1 using src less.prems(10) Cons y by simp
      qed
      then obtain st' where st': "copy_loop t (ot + ?n) (nextp d) 0 st1 = Some (ERR_OK, st')"
        "writes_only (areas ((a, b) # ts)) st1 st'"
        "packet_bytes st' ((a, b) # ts) = take (unat ot + ?K) (packet_bytes st1 ((a, b) # ts)) @
          packet_bytes st fs @ drop (unat ot + ?K + lens fs) (packet_bytes st1 ((a, b) # ts))"
        unfolding ot1 using Cons y S1 by auto
      have "packet_bytes st' ((a, b) # ts) = take (unat ot) (packet_bytes st ((a, b) # ts)) @
          drop (unat off) (packet_bytes st ((c, d) # fs)) @
          drop (unat ot + (unat (len d) - unat off + lens fs)) (packet_bytes st ((a, b) # ts))"
        unfolding st'(3) using src ld lb less.prems(8,9) ls by (simp add: st1(3) T1 add_ac)
      then show ?thesis using trans [OF r st'(1)] writes_only_trans [OF w1 st'(2)] by blast
    qed
  next
    case dst
    then have to: "?to = (nextp b, 0)" and frm: "?from = (f, off + ?n)" using eb ed by auto
    have "ts \<noteq> []" using dst less.prems(8,9,10) by auto
    then obtain a' b' ts' where y: "ts = (a', b') # ts'" by (cases ts) auto
    have r: "copy_loop t ot f off st = copy_loop (nextp b) 0 f (off + ?n) st1"
      unfolding run to frm using qf f(1) by simp
    have "\<exists>st'. copy_loop (nextp b) 0 f (off + ?n) st1 = Some (ERR_OK, st') \<and>
        writes_only (areas ((a', b') # ts')) st1 st' \<and>
        packet_bytes st' ((a', b') # ts') = take (unat (0 :: u16)) (packet_bytes st1 ((a', b') # ts')) @
          drop (unat (off + ?n)) (packet_bytes st1 ((c, d) # fs)) @
          drop (unat (0 :: u16) + (unat (len d) - unat (off + ?n) + lens fs)) (packet_bytes st1 ((a', b') # ts'))"
    proof (rule less.IH [OF _ refl _ _ pf _ less.prems(6)])
      show "length ts' + length fs < N" using less.prems(1) y by simp
      show "packet st1 (nextp b) ((a', b') # ts')" using pt y by simp
      show "owned ((a', b') # ts')" using less.prems(3) y by simp
      show "fulls ((a', b') # ts')" using ft(1) y by simp
      show "areas ((a', b') # ts') \<inter> sources ((c, d) # fs) = {}" using less.prems(7) unfolding y areas_simps by blast
      show "unat (0 :: u16) < unat (len b')" using ft(1) y by simp
      show "unat (off + ?n) < unat (len d)" unfolding off1 using dst less.prems(9) by auto
      show "unat (len d) - unat (off + ?n) + lens fs \<le> unat (len b') - unat (0 :: u16) + lens ts'"
        unfolding off1 using dst less.prems(8,9,10) y by simp
    qed
    then obtain st' where st': "copy_loop (nextp b) 0 f (off + ?n) st1 = Some (ERR_OK, st')"
      "writes_only (areas ts) st1 st'"
      "packet_bytes st' ts = drop (unat off + ?K) (packet_bytes st ((c, d) # fs)) @
        drop (unat (len d) - (unat off + ?K) + lens fs) (packet_bytes st ts)"
      unfolding off1 y [symmetric] S T1 unsigned_0 take_0 append_Nil add_0 by blast
    have b1: "pbuf_bytes st' b = pbuf_bytes st1 b"
      using writes_only_read [OF st'(2)] t(4) i by (simp add: pbuf_bytes_def areas_def image_iff)
    have sp: "take (unat (len b) - unat ot) (drop (unat off) Z) @ drop (unat off + unat (len b) - unat ot) Z @ R
        = drop (unat off) Z @ R" for Z R :: "u8 list"
      using append_take_drop_id [of "unat (len b) - unat ot" "drop (unat off) Z"] less.prems(8)
      by (simp add: add.commute flip: append_assoc)
    have w: "writes_only (areas ((a, b) # ts)) st st'"
      by (rule writes_only_trans [OF w1 writes_only_mono [OF st'(2)]]) auto
    have "packet_bytes st' ((a, b) # ts) = take (unat ot) (packet_bytes st ((a, b) # ts)) @
          drop (unat off) (packet_bytes st ((c, d) # fs)) @
          drop (unat ot + (unat (len d) - unat off + lens fs)) (packet_bytes st ((a, b) # ts))"
      using dst ld lb less.prems(8,9,10) ls sp by (simp add: st'(3) b1 st1(3) add_ac)
    then show ?thesis using trans [OF r st'(1)] w by blast
  next
    case both
    then have to: "?to = (nextp b, 0)" and frm: "?from = (nextp d, 0)" using eb ed by auto
    show ?thesis
    proof (cases fs)
      case Nil
      then have "nextp d = None" using f(3) by simp
      then have r: "copy_loop t ot f off st = Some (ERR_OK, st1)" unfolding run to frm using qf by simp
      show ?thesis
        using both Nil ld lb less.prems(8,9)
        by (intro exI [of _ st1] conjI r w1) (simp add: st1(3) T1)
    next
      case (Cons y fs')
      obtain c' d' where y: "y = (c', d')" by (cases y)
      have "ts \<noteq> []" using both ft(2) less.prems(8,9,10) Cons by auto
      then obtain a' b' ts' where z: "ts = (a', b') # ts'" by (cases ts) auto
      have Cy: "(c', d') # fs' = fs" and lf: "unat (len d') + lens fs' = lens fs" using Cons y by simp_all
      have nd: "nextp d \<noteq> None" using f(3) Cons y by auto
      have r: "copy_loop t ot f off st = copy_loop (nextp b) 0 (nextp d) 0 st1"
        unfolding run to frm using qf nd by simp
      have "\<exists>st'. copy_loop (nextp b) 0 (nextp d) 0 st1 = Some (ERR_OK, st') \<and>
          writes_only (areas ((a', b') # ts')) st1 st' \<and>
          packet_bytes st' ((a', b') # ts') = take (unat (0 :: u16)) (packet_bytes st1 ((a', b') # ts')) @
            drop (unat (0 :: u16)) (packet_bytes st1 ((c', d') # fs')) @
            drop (unat (0 :: u16) + (unat (len d') - unat (0 :: u16) + lens fs')) (packet_bytes st1 ((a', b') # ts'))"
      proof (rule less.IH [OF _ refl])
        show "length ts' + length fs' < N" using less.prems(1) Cons z by simp
        show "packet st1 (nextp b) ((a', b') # ts')" "owned ((a', b') # ts')"
          using pt less.prems(3) z by simp_all
        show "packet st1 (nextp d) ((c', d') # fs')" using pf Cons y by simp
        show "fulls ((a', b') # ts')" "fulls ((c', d') # fs')" using ft Cons y z by simp_all
        show "areas ((a', b') # ts') \<inter> sources ((c', d') # fs') = {}"
          using less.prems(7) unfolding Cons y z sources_Cons areas_simps by blast
        show "unat (0 :: u16) < unat (len b')" "unat (0 :: u16) < unat (len d')" using ft Cons y z by simp_all
        show "unat (len d') - unat (0 :: u16) + lens fs' \<le> unat (len b') - unat (0 :: u16) + lens ts'"
          using both less.prems(8,9,10) Cons y z by simp
      qed
      then obtain st' where st': "copy_loop (nextp b) 0 (nextp d) 0 st1 = Some (ERR_OK, st')"
        "writes_only (areas ts) st1 st'"
        "packet_bytes st' ts = packet_bytes st fs @ drop (lens fs) (packet_bytes st ts)"
        unfolding Cy z [symmetric] lf S1 T1 unsigned_0 take_0 drop_0 append_Nil add_0 diff_zero by blast
      have b1: "pbuf_bytes st' b = pbuf_bytes st1 b"
        using writes_only_read [OF st'(2)] t(4) i by (simp add: pbuf_bytes_def areas_def image_iff)
      have w: "writes_only (areas ((a, b) # ts)) st st'"
        by (rule writes_only_trans [OF w1 writes_only_mono [OF st'(2)]]) auto
      have ar: "unat ot + (unat (len d) + lens fs) - (unat off + unat (len b)) = lens fs"
        using both less.prems(8,9) by simp
      have "packet_bytes st' ((a, b) # ts) = take (unat ot) (packet_bytes st ((a, b) # ts)) @
          drop (unat off) (packet_bytes st ((c, d) # fs)) @
          drop (unat ot + (unat (len d) - unat off + lens fs)) (packet_bytes st ((a, b) # ts))"
        using both ld lb less.prems(8,9,10) ls ar by (simp add: st'(3) b1 st1(3))
      then show ?thesis using trans [OF r st'(1)] w by blast
    qed
  qed
qed

end
