(* ===== verification/Pbuf_Props.thy ===== *)
theory Pbuf_Props
  imports Pbuf_Pool Pbuf_Copy
begin

text \<open>
  The properties of the packet buffers, over the chains of \<open>Pbuf_Chain\<close>: concatenation,
  trimming, headers, allocation, copying and freeing, with concrete packets as witnesses.
\<close>

subsection \<open>Concatenation\<close>

lemma read_at_bytes: "bytes st' = bytes st \<Longrightarrow> read_at st' p n = read_at st p n"
  unfolding read_at_def by (simp only:)

fun links :: "addr option \<Rightarrow> (addr \<times> pbuf) list \<Rightarrow> addr option \<Rightarrow> bool" where
  "links p [] e \<longleftrightarrow> p = e"
| "links p ((a, b) # xs) e \<longleftrightarrow> p = Some a \<and> links (nextp b) xs e"

lemma chain_links: "chain m p xs \<longleftrightarrow> links p xs None \<and> (\<forall>(a, b) \<in> set xs. m a = Some b)"
  by (induction xs arbitrary: p) auto

lemma links_append: "links p (xs @ ys) e \<longleftrightarrow> (\<exists>q. links p xs q \<and> links q ys e)"
  by (induction xs arbitrary: p) auto

lemma map_add_mem:
  "distinct (map fst xs) \<Longrightarrow> (a, b) \<in> set xs \<Longrightarrow> (m ++ map_of xs) a = Some b"
  by (simp add: map_add_def)

lemma map_add_other: "a \<notin> fst ` set xs \<Longrightarrow> (m ++ map_of xs) a = m a"
  by (simp add: map_add_dom_app_simps dom_map_of_conv_image_fst)

text \<open>A list of pbufs with the length of what is appended added, ending at \<open>t\<close>.\<close>

fun grown :: "addr option \<Rightarrow> u16 \<Rightarrow> (addr \<times> pbuf) list \<Rightarrow> (addr \<times> pbuf) list" where
  "grown t k [] = []"
| "grown t k [(a, b)] = [(a, b\<lparr>tot_len := tot_len b + k, nextp := t\<rparr>)]"
| "grown t k ((a, b) # x # xs) = (a, b\<lparr>tot_len := tot_len b + k\<rparr>) # grown t k (x # xs)"

lemma grown_fst [simp]: "map fst (grown t k xs) = map fst xs" "fst ` set (grown t k xs) = fst ` set xs"
proof -
  show "map fst (grown t k xs) = map fst xs" by (induction t k xs rule: grown.induct) auto
  from arg_cong [OF this, of set] show "fst ` set (grown t k xs) = fst ` set xs" by simp
qed

lemma grown_lens [simp]: "lens (grown t k xs) = lens xs"
  by (induction t k xs rule: grown.induct) auto

lemma grown_bytes: "bytes st' = bytes st \<Longrightarrow> packet_bytes st' (grown t k xs) = packet_bytes st xs"
  by (induction t k xs rule: grown.induct) (simp_all add: pbuf_bytes_def read_at_bytes [of st' st])

lemma grown_links: "xs \<noteq> [] \<Longrightarrow> links p xs None \<Longrightarrow> links p (grown t k xs) t"
  by (induction t k xs arbitrary: p rule: grown.induct) auto

lemma grown_mem:
  "(a, b) \<in> set (grown t k xs) \<Longrightarrow> \<exists>c. (a, c) \<in> set xs \<and> payload b = payload c \<and> len b = len c"
  by (induction t k xs rule: grown.induct) auto

lemma grown_readable:
  assumes "bytes st' = bytes st" "\<forall>(a, b) \<in> set xs. read_at st (payload b) (unat (len b)) \<noteq> None"
  shows "\<forall>(a, b) \<in> set (grown t k xs). read_at st' (payload b) (unat (len b)) \<noteq> None"
  unfolding read_at_bytes [OF assms(1)] using assms(2) by (fastforce dest!: grown_mem)

lemma grown_tot_ok:
  "tot_ok xs \<Longrightarrow> tot_ok ys \<Longrightarrow> unat k = lens ys \<Longrightarrow> lens xs + lens ys < 65536 \<Longrightarrow>
   tot_ok (grown t k xs @ ys)"
  by (induction t k xs rule: grown.induct) (auto simp: unat_plus_small)

lemma cat_loop_spec:
  "chain (pbufs st) (Some p) xs \<Longrightarrow> distinct (map fst xs) \<Longrightarrow> t \<notin> fst ` set xs \<Longrightarrow> pbufs st t = Some tb \<Longrightarrow>
   cat_loop p t st = Some (st\<lparr>pbufs := pbufs st ++ map_of (grown (Some t) (tot_len tb) xs)\<rparr>)"
proof (induction xs arbitrary: p st)
  case (Cons x xs)
  obtain b where x: "x = (p, b)" "pbufs st p = Some b" "chain (pbufs st) (nextp b) xs" "p \<notin> fst ` set xs"
    using Cons.prems by (cases x) auto
  show ?case
  proof (cases xs)
    case Nil
    then show ?thesis using x Cons.prems(4) by (subst cat_loop.simps) simp
  next
    case (Cons y ys)
    then obtain q c where y: "y = (q, c)" "nextp b = Some q" using x(3) by (cases y) auto
    let ?st = "st\<lparr>pbufs := (pbufs st)(p \<mapsto> b\<lparr>tot_len := tot_len b + tot_len tb\<rparr>)\<rparr>"
    have "cat_loop p t st = cat_loop q t ?st"
      using x y Cons.prems(4) by (subst cat_loop.simps) simp
    also have "\<dots> = Some (?st\<lparr>pbufs := pbufs ?st ++ map_of (grown (Some t) (tot_len tb) xs)\<rparr>)"
    proof (rule Cons.IH)
      show "chain (pbufs ?st) (Some q) xs" using x(3,4) y(2) by simp
    qed (use x Cons.prems in auto)
    also have "pbufs ?st ++ map_of (grown (Some t) (tot_len tb) xs) =
        pbufs st ++ map_of (grown (Some t) (tot_len tb) (x # xs))"
    proof
      fix z
      have "p \<notin> fst ` set (grown (Some t) (tot_len tb) xs)" using x(4) by simp
      then have "map_of (grown (Some t) (tot_len tb) xs) p = None" by (simp only: map_of_eq_None_iff) simp
      then show "(pbufs ?st ++ map_of (grown (Some t) (tot_len tb) xs)) z =
          (pbufs st ++ map_of (grown (Some t) (tot_len tb) (x # xs))) z"
        using x(1) Cons by (cases "z = p") (auto simp: map_add_def split: option.split)
    qed
    finally show ?thesis by simp
  qed
qed simp

lemma pbuf_cat_appends_ok:
  assumes "packet st (Some h) xs" "packet st (Some t) ys" "fst ` set xs \<inter> fst ` set ys = {}"
    and "lens xs + lens ys < 65536"
  shows "\<exists>st' zs. pbuf_cat (Some h) (Some t) st = Some st' \<and> packet st' (Some h) zs \<and>
    map fst zs = map fst xs @ map fst ys \<and> packet_bytes st' zs = packet_bytes st xs @ packet_bytes st ys \<and>
    (\<forall>a. a \<notin> fst ` set xs \<longrightarrow> pbufs st' a = pbufs st a) \<and>
    heap st' = heap st \<and> pools st' = pools st \<and> bytes st' = bytes st"
proof -
  obtain tb ys' where ys: "ys = (t, tb) # ys'" using assms(2) by (cases ys) auto
  let ?zs = "grown (Some t) (tot_len tb) xs"
  let ?st = "st\<lparr>pbufs := pbufs st ++ map_of ?zs\<rparr>"
  have c: "chain (pbufs st) (Some h) xs" "distinct (map fst xs)" "tot_ok xs" "xs \<noteq> []"
    "\<forall>(a, b) \<in> set xs. read_at st (payload b) (unat (len b)) \<noteq> None"
    using assms(1) by (auto simp: packet_def)
  have d: "chain (pbufs st) (Some t) ys" "distinct (map fst ys)" "tot_ok ys"
    "\<forall>(a, b) \<in> set ys. read_at st (payload b) (unat (len b)) \<noteq> None"
    using assms(2) by (auto simp: packet_def)
  have t: "t \<notin> fst ` set xs" "pbufs st t = Some tb" "unat (tot_len tb) = lens ys"
    using assms(2,3) ys by auto
  have run: "pbuf_cat (Some h) (Some t) st = Some ?st"
    using cat_loop_spec [OF c(1,2) t(1,2)] by (simp add: pbuf_cat_def)
  have "packet ?st (Some h) (?zs @ ys)"
    unfolding packet_def chain_links
  proof (intro conjI)
    show "links (Some h) (?zs @ ys) None"
      using grown_links [OF c(4)] c(1) d(1) by (auto simp: links_append chain_links)
    have "(pbufs st ++ map_of ?zs) a = Some b" if "(a, b) \<in> set ?zs" for a b
      using that c(2) by (intro map_add_mem) simp
    moreover have "(pbufs st ++ map_of ?zs) a = Some b" if "(a, b) \<in> set ys" for a b
    proof -
      have "a \<in> fst ` set ys" using that by (rule image_eqI [rotated]) simp
      then have "a \<notin> fst ` set ?zs" using assms(3) by auto
      then show ?thesis
        using map_add_other [of a ?zs "pbufs st"] d(1) that unfolding chain_links by auto
    qed
    ultimately show "\<forall>(a, b) \<in> set (?zs @ ys). pbufs ?st a = Some b" by auto
    show "distinct (map fst (?zs @ ys))" using c(2) d(2) assms(3) by simp
    show "tot_ok (?zs @ ys)" by (rule grown_tot_ok [OF c(3) d(3) t(3) assms(4)])
    show "\<forall>(a, b) \<in> set (?zs @ ys). read_at ?st (payload b) (unat (len b)) \<noteq> None"
      using grown_readable [OF _ c(5), of ?st "Some t" "tot_len tb"] d(4) by auto
  qed
  moreover have "packet_bytes ?st (?zs @ ys) = packet_bytes st xs @ packet_bytes st ys"
    by (simp add: grown_bytes [of ?st st]) (simp add: packet_bytes_def pbuf_bytes_def comp_def)
  ultimately show ?thesis
    using run by (intro exI [of _ ?st] exI [of _ "?zs @ ys"]) (auto simp: map_add_other)
qed

text \<open>
  C24. \<open>pbuf_cat(h, t)\<close> appends the packet at \<open>t\<close> to the packet at \<open>h\<close>: the pbufs of \<open>h\<close> followed by those of
  \<open>t\<close>, the bytes one after the other, and \<open>tot_len\<close> right in every pbuf of the result, as long
  as the sum of the lengths fits 16 bits.
\<close>
theorem pbuf_cat_appends:
  assumes "packet st (Some h) xs" "packet st (Some t) ys" "fst ` set xs \<inter> fst ` set ys = {}"
    and "lens xs + lens ys < 65536"
  shows "\<exists>st' zs. pbuf_cat (Some h) (Some t) st = Some st' \<and> packet st' (Some h) zs \<and>
    map fst zs = map fst xs @ map fst ys \<and> packet_bytes st' zs = packet_bytes st xs @ packet_bytes st ys \<and>
    (\<forall>a. a \<notin> fst ` set xs \<longrightarrow> pbufs st' a = pbufs st a) \<and>
    heap st' = heap st \<and> pools st' = pools st \<and> bytes st' = bytes st"
  using assms by (rule pbuf_cat_appends_ok)

subsection \<open>Trimming\<close>

fun add_tot :: "u16 \<Rightarrow> (addr \<times> pbuf) list \<Rightarrow> (addr \<times> pbuf) list" where
  "add_tot g [] = []"
| "add_tot g ((a, b) # xs) = (a, b\<lparr>tot_len := tot_len b + g\<rparr>) # add_tot g xs"

lemma add_tot_simps [simp]:
  "map fst (add_tot g xs) = map fst xs" "fst ` set (add_tot g xs) = fst ` set xs" "lens (add_tot g xs) = lens xs"
proof -
  show "map fst (add_tot g xs) = map fst xs" by (induction xs) auto
  from arg_cong [OF this, of set] show "fst ` set (add_tot g xs) = fst ` set xs" by simp
  show "lens (add_tot g xs) = lens xs" by (induction xs) auto
qed

lemma add_tot_links [simp]: "links p (add_tot g xs) e \<longleftrightarrow> links p xs e"
  by (induction xs arbitrary: p) auto

lemma add_tot_bytes: "bytes st' = bytes st \<Longrightarrow> packet_bytes st' (add_tot g xs) = packet_bytes st xs"
  by (induction xs) (auto simp: pbuf_bytes_def read_at_bytes [of st' st])

lemma realloc_walk_spec:
  "chain (pbufs st) q xs \<Longrightarrow> distinct (map fst xs) \<Longrightarrow> xs \<noteq> [] \<Longrightarrow> unat rem \<le> lens xs \<Longrightarrow>
   \<exists>ys a b zs r. xs = ys @ (a, b) # zs \<and> unat rem = lens ys + unat r \<and> unat r \<le> unat (len b) \<and>
     realloc_walk q rem g st = Some (a, r, st\<lparr>pbufs := pbufs st ++ map_of (add_tot g ys)\<rparr>)"
proof (induction xs arbitrary: q rem st)
  case (Cons x xs)
  obtain a b where x: "x = (a, b)" "q = Some a" "pbufs st a = Some b" "chain (pbufs st) (nextp b) xs"
    "a \<notin> fst ` set xs" using Cons.prems by (cases x) auto
  show ?case
  proof (cases "len b < rem")
    case False
    then have "realloc_walk q rem g st = Some (a, rem, st)" using x by (subst realloc_walk.simps) simp
    moreover have "unat rem \<le> unat (len b)" using False by (simp add: word_less_nat_alt)
    ultimately show ?thesis
      using x by (intro exI [of _ "[]"] exI [of _ a] exI [of _ b] exI [of _ xs] exI [of _ rem]) simp
  next
    case True
    let ?b = "b\<lparr>tot_len := tot_len b + g\<rparr>"
    let ?st = "st\<lparr>pbufs := (pbufs st)(a \<mapsto> ?b)\<rparr>"
    have rem: "unat (rem - len b) = unat rem - unat (len b)" "unat (len b) < unat rem"
      using True by (simp_all add: unat_minus_small word_less_nat_alt)
    have ch: "chain (pbufs ?st) (nextp b) xs" using x(4,5) by simp
    have "\<exists>ys c d zs r. xs = ys @ (c, d) # zs \<and> unat (rem - len b) = lens ys + unat r \<and> unat r \<le> unat (len d) \<and>
       realloc_walk (nextp b) (rem - len b) g ?st = Some (c, r, ?st\<lparr>pbufs := pbufs ?st ++ map_of (add_tot g ys)\<rparr>)"
      by (rule Cons.IH [OF ch]) (use Cons.prems x(1) rem in auto)
    then obtain ys c d zs r where IH: "xs = ys @ (c, d) # zs" "unat (rem - len b) = lens ys + unat r"
      "unat r \<le> unat (len d)"
      "realloc_walk (nextp b) (rem - len b) g ?st = Some (c, r, ?st\<lparr>pbufs := pbufs ?st ++ map_of (add_tot g ys)\<rparr>)"
      by (elim exE conjE) (rule that)
    have "realloc_walk q rem g st = realloc_walk (nextp b) (rem - len b) g ?st"
      using True x by (subst realloc_walk.simps) simp
    moreover have "pbufs ?st ++ map_of (add_tot g ys) = pbufs st ++ map_of (add_tot g (x # ys))"
    proof
      fix z
      have "a \<notin> fst ` set (add_tot g ys)" unfolding add_tot_simps using x(5) IH(1) by (simp add: image_Un)
      then have "map_of (add_tot g ys) a = None" by (simp only: map_of_eq_None_iff) simp
      then show "(pbufs ?st ++ map_of (add_tot g ys)) z = (pbufs st ++ map_of (add_tot g (x # ys))) z"
        using x(1) by (cases "z = a") (auto simp: map_add_def split: option.split)
    qed
    ultimately have "realloc_walk q rem g st = Some (c, r, st\<lparr>pbufs := pbufs st ++ map_of (add_tot g (x # ys))\<rparr>)"
      using IH(4) by simp
    moreover have "x # xs = (x # ys) @ (c, d) # zs" "unat rem = lens (x # ys) + unat r"
      using x(1) IH(1,2) rem by simp_all
    ultimately show ?thesis using IH(3) by blast
  qed
qed simp

lemma readable_length:
  "\<forall>(a, b) \<in> set xs. read_at st (payload b) (unat (len b)) \<noteq> None \<Longrightarrow>
   length (packet_bytes st xs) = lens xs"
  by (induction xs) (auto simp: pbuf_bytes_length)

lemma add_tot_mem:
  "(a, b) \<in> set (add_tot g xs) \<Longrightarrow> \<exists>c. (a, c) \<in> set xs \<and> payload b = payload c \<and> len b = len c"
  by (induction g xs rule: add_tot.induct) auto

lemma add_tot_tot_ok:
  "tot_ok (ys @ xs) \<Longrightarrow> tot_ok zs \<Longrightarrow> lens zs + unat k = lens xs \<Longrightarrow> g = - k \<Longrightarrow> tot_ok (add_tot g ys @ zs)"
proof (induction ys)
  case (Cons y ys)
  obtain a b where y: "y = (a, b)" by (cases y)
  have "unat (tot_len b - k) = unat (tot_len b) - unat k"
    using Cons.prems(1,3) y by (intro unat_minus_small) simp
  moreover have "tot_len b + g = tot_len b - k" using Cons.prems(4) by simp
  ultimately show ?case using Cons y by simp
qed simp

lemma backed_indep: "ptype (snd x) \<noteq> PBUF_RAM \<Longrightarrow> backed st' x \<longleftrightarrow> backed st x"
  by (simp add: backed_def split: pbuf_type.split)

lemma free_refs_ones:
  "\<forall>z \<in> set zs. ref (snd z) = 1 \<Longrightarrow> free_refs zs m = (\<lambda>a. if a \<in> fst ` set zs then None else m a)"
  by (rule free_refs_all)

text \<open>What \<open>pbuf_free\<close> does to a chain of pool pbufs that nobody else refers to.\<close>

lemma pbuf_free_pool:
  assumes "chain (pbufs st) p xs" "distinct (map fst xs)" "mem_ok (heap st)"
    and "\<forall>x \<in> set xs. backed st x \<and> ptype (snd x) \<noteq> PBUF_RAM \<and> ref (snd x) = 1"
  shows "\<exists>st'. pbuf_free p st = Some (of_nat (length xs), st') \<and> heap st' = heap st \<and> bytes st' = bytes st \<and>
    pbufs st' = (\<lambda>a. if a \<in> fst ` set xs then None else pbufs st a) \<and>
    (\<forall>t i. PoolA t i \<in> fst ` set xs \<longrightarrow> i \<in> set (pools st' t)) \<and>
    (\<forall>t. set (pools st t) \<subseteq> set (pools st' t))"
proof (cases "p = None")
  case True
  then have "xs = []" using assms(1) by (cases xs) auto
  then show ?thesis using True by (simp add: pbuf_free_def)
next
  case False
  have tw: "takeWhile (\<lambda>x. ref (snd x) = 1) xs = xs" using assms(4) by (simp add: takeWhile_eq_all_conv)
  have nh: "fst ` set xs \<inter> range HeapA = {}"
  proof -
    have "fst x \<notin> range HeapA" if "x \<in> set xs" for x
      using assms(4) that by (cases x) (fastforce simp: backed_def split: pbuf_type.splits addr.splits)
    then show ?thesis by auto
  qed
  from pbuf_free_loop_spec [OF assms(1,2) _ assms(3), of 0] assms(4) obtain st' where st':
    "pbuf_free_loop p 0 st = Some (of_nat (length xs), st')" "pbufs st' = free_refs xs (pbufs st)"
    "\<forall>t. pools st' t = rev (concat (map (\<lambda>x. case fst x of PoolA s i \<Rightarrow> if s = t then [i] else [] | _ \<Rightarrow> []) xs)) @ pools st t"
    "\<forall>r. bytes st' r = bytes st r" "heap st' = heap st"
    unfolding tw nh by auto
  have "i \<in> set (pools st' t)" if "PoolA t i \<in> fst ` set xs" for t i
    using that st'(3) by (force simp: image_iff)
  moreover have "set (pools st t) \<subseteq> set (pools st' t)" for t using st'(3) by auto
  moreover have "pbuf_free p st = Some (of_nat (length xs), st')" using False st'(1) unfolding pbuf_free_def by (simp only: if_False)
  moreover have "bytes st' = bytes st" using st'(4) by auto
  ultimately show ?thesis using st'(2,5) free_refs_ones [of xs] assms(4) by auto
qed

lemma pbuf_realloc_trims_ok:
  assumes "packet st (Some p) xs" "mem_ok (heap st)"
    and "\<forall>x \<in> set xs. backed st x \<and> ptype (snd x) \<noteq> PBUF_RAM \<and> ref (snd x) = 1"
  shows "\<exists>st' zs. pbuf_realloc p n st = Some st' \<and> packet st' (Some p) zs \<and>
    packet_bytes st' zs = take (unat n) (packet_bytes st xs) \<and>
    (\<exists>k. map fst zs = take k (map fst xs)) \<and>
    (\<forall>t i. PoolA t i \<in> fst ` set xs - fst ` set zs \<longrightarrow> pbufs st' (PoolA t i) = None \<and> i \<in> set (pools st' t)) \<and>
    (\<forall>a. a \<notin> fst ` set xs \<longrightarrow> pbufs st' a = pbufs st a) \<and> heap st' = heap st \<and> bytes st' = bytes st"
proof -
  obtain b0 where b0: "pbufs st p = Some b0" "unat (tot_len b0) = lens xs"
    using assms(1) by (cases xs) auto
  have len: "length (packet_bytes st xs) = lens xs" by (rule packet_bytes_length [OF assms(1)])
  show ?thesis
  proof (cases "tot_len b0 \<le> n")
    case True
    then have "pbuf_realloc p n st = Some st" using b0 by (simp add: pbuf_realloc_def)
    moreover have "take (unat n) (packet_bytes st xs) = packet_bytes st xs"
      using True b0(2) len by (simp add: word_le_nat_alt)
    ultimately show ?thesis
      using assms(1) by (intro exI [of _ st] exI [of _ xs]) (auto intro: exI [of _ "length xs"])
  next
    case False
    let ?g = "n - tot_len b0"
    have c: "chain (pbufs st) (Some p) xs" "distinct (map fst xs)" "tot_ok xs" "xs \<noteq> []"
      "\<forall>(a, b) \<in> set xs. read_at st (payload b) (unat (len b)) \<noteq> None"
      using assms(1) by (auto simp: packet_def)
    have nl: "unat n < lens xs" using False b0(2) by (simp add: word_le_nat_alt)
    from realloc_walk_spec [OF c(1,2,4), of n ?g] nl
    obtain ys a b zs r where W: "xs = ys @ (a, b) # zs" "unat n = lens ys + unat r" "unat r \<le> unat (len b)"
      "realloc_walk (Some p) n ?g st = Some (a, r, st\<lparr>pbufs := pbufs st ++ map_of (add_tot ?g ys)\<rparr>)"
      by auto
    define S1 where "S1 = st\<lparr>pbufs := pbufs st ++ map_of (add_tot ?g ys)\<rparr>"
    have S1: "heap S1 = heap st" "bytes S1 = bytes st" "pools S1 = pools st"
      "pbufs S1 = pbufs st ++ map_of (add_tot ?g ys)" by (simp_all add: S1_def)
    let ?st2 = "S1\<lparr>pbufs := (pbufs S1)(a \<mapsto> b\<lparr>len := r, tot_len := r\<rparr>)\<rparr>"
    let ?b = "b\<lparr>len := r, tot_len := r, nextp := None\<rparr>"
    let ?zs = "add_tot ?g ys @ [(a, ?b)]"
    have d: "a \<notin> fst ` set ys" "a \<notin> fst ` set zs" "fst ` set ys \<inter> fst ` set zs = {}"
      "distinct (map fst ys)" "distinct (map fst zs)"
      using c(2) unfolding W(1) by (auto simp: image_Un)
    have l: "links (Some p) ys (Some a)" "links (nextp b) zs None"
      "\<And>e f. (e, f) \<in> set xs \<Longrightarrow> pbufs st e = Some f"
      using c(1) unfolding W(1) chain_links by (auto simp: links_append)
    have st1: "pbufs S1 z = pbufs st z" if "z \<notin> fst ` set ys" for z
      unfolding S1(4) using that by (intro map_add_other) simp
    have pa: "pbufs S1 a = Some b" using st1 [OF d(1)] l(3) [of a b] W(1) by simp
    have chz: "chain (pbufs ?st2) (nextp b) zs"
      unfolding chain_links
    proof (intro conjI l(2) ballI)
      fix z
      assume z: "z \<in> set zs"
      then have "fst z \<in> fst ` set zs" by (rule imageI)
      then have "fst z \<noteq> a" "fst z \<notin> fst ` set ys" using d by auto
      then show "case z of (a, b) \<Rightarrow> pbufs ?st2 a = Some b"
        using st1 [of "fst z"] l(3) [of "fst z" "snd z"] z W(1) by (cases z) simp
    qed
    have "\<forall>x \<in> set zs. backed ?st2 x \<and> ptype (snd x) \<noteq> PBUF_RAM \<and> ref (snd x) = 1"
      using assms(3) W(1) backed_indep [of _ ?st2 st] by auto
    moreover have "mem_ok (heap ?st2)" using assms(2) by (simp add: S1)
    ultimately have "\<exists>st'. pbuf_free (nextp b) ?st2 = Some (of_nat (length zs), st') \<and> heap st' = heap ?st2 \<and>
      bytes st' = bytes ?st2 \<and> pbufs st' = (\<lambda>a. if a \<in> fst ` set zs then None else pbufs ?st2 a) \<and>
      (\<forall>t i. PoolA t i \<in> fst ` set zs \<longrightarrow> i \<in> set (pools st' t)) \<and>
      (\<forall>t. set (pools ?st2 t) \<subseteq> set (pools st' t))"
      by (intro pbuf_free_pool [OF chz d(5)])
    then obtain st3 where st3:
      "pbuf_free (nextp b) ?st2 = Some (of_nat (length zs), st3)" "heap st3 = heap ?st2" "bytes st3 = bytes ?st2"
      "pbufs st3 = (\<lambda>z. if z \<in> fst ` set zs then None else pbufs ?st2 z)"
      "\<forall>t i. PoolA t i \<in> fst ` set zs \<longrightarrow> i \<in> set (pools st3 t)"
      "\<forall>t. set (pools ?st2 t) \<subseteq> set (pools st3 t)"
      by (elim exE conjE) (rule that)
    let ?st4 = "st3\<lparr>pbufs := (pbufs st3)(a \<mapsto> ?b)\<rparr>"
    have pa3: "pbufs st3 a = Some (b\<lparr>len := r, tot_len := r\<rparr>)" unfolding st3(4) using d(2) by simp
    have "ptype b \<noteq> PBUF_RAM" using assms(3) W(1) by auto
    then have run: "pbuf_realloc p n st = Some ?st4"
      using False b0 pa st3(1) pa3
      by (cases "nextp b") (simp_all add: pbuf_realloc_def W(4) [folded S1_def] upd_pbuf_def pbuf_free_def)
    have oth: "pbufs ?st4 z = pbufs st z" if "z \<notin> fst ` set xs" for z
    proof -
      have "z \<noteq> a" "z \<notin> fst ` set ys" "z \<notin> fst ` set zs" using that W(1) by (auto simp: image_Un)
      then show ?thesis using st1 by (simp add: st3(4))
    qed
    have mem: "pbufs ?st4 e = Some f" if "(e, f) \<in> set ?zs" for e f
    proof (cases "e = a")
      case True
      moreover from this have "(e, f) \<notin> set (add_tot ?g ys)"
        using d(1) add_tot_simps(2) [of ?g ys] by (metis fst_conv imageI)
      ultimately show ?thesis using that by auto
    next
      case False
      then have m: "(e, f) \<in> set (add_tot ?g ys)" using that by auto
      then have "e \<in> fst ` set ys" using add_tot_simps(2) [of ?g ys] by (metis fst_conv imageI)
      then have "e \<notin> fst ` set zs" using d(3) by auto
      moreover have "pbufs S1 e = Some f" unfolding S1(4) using map_add_mem [OF _ m, of "pbufs st"] d(4) by simp
      ultimately show ?thesis using False by (simp add: st3(4))
    qed
    have by4: "bytes ?st4 = bytes st" by (simp add: st3(3) S1)
    have rd: "read_at st (payload b) (unat (len b)) = Some (pbuf_bytes st b)"
      using c(5) W(1) by (auto simp: pbuf_bytes_def)
    have rb: "read_at st (payload b) (unat r) = Some (take (unat r) (pbuf_bytes st b))"
      using read_at_part [OF rd, of 0 "unat r"] W(3) by simp
    have lb: "length (pbuf_bytes st b) = unat (len b)" by (rule read_at_length [OF rd])
    have ly: "length (packet_bytes st ys) = lens ys"
      using c(5) W(1) by (intro readable_length) simp
    have "packet ?st4 (Some p) ?zs"
      unfolding packet_def chain_links
    proof (intro conjI)
      show "links (Some p) ?zs None" using l(1) by (auto simp: links_append)
      show "\<forall>(a, b) \<in> set ?zs. pbufs ?st4 a = Some b" using mem by blast
      show "distinct (map fst ?zs)" using d(1,4) by simp
      show "tot_ok ?zs"
      proof (rule add_tot_tot_ok [OF c(3) [unfolded W(1)]])
        have "unat (tot_len b0 - n) = lens xs - unat n"
          unfolding b0(2) [symmetric] using False by (intro unat_minus_small) (simp add: word_le_nat_alt)
        then show "lens [(a, ?b)] + unat (tot_len b0 - n) = lens ((a, b) # zs)"
          using W nl by simp
      qed simp_all
      show "\<forall>(a, b) \<in> set ?zs. read_at ?st4 (payload b) (unat (len b)) \<noteq> None"
        unfolding read_at_bytes [OF by4] using c(5) rb unfolding W(1) by (fastforce dest!: add_tot_mem)
    qed
    moreover have "packet_bytes ?st4 ?zs = take (unat n) (packet_bytes st xs)"
    proof -
      have "pbuf_bytes ?st4 ?b = take (unat r) (pbuf_bytes st b)"
        unfolding pbuf_bytes_def read_at_bytes [OF by4] using rb by (simp add: pbuf_bytes_def)
      moreover have "length (packet_bytes st ys) = lens ys" "length (pbuf_bytes st b) = unat (len b)"
        using len ly lb W(1) by simp_all
      ultimately show ?thesis using W(1-3) by (simp add: add_tot_bytes [OF by4])
    qed
    moreover have "map fst ?zs = take (Suc (length ys)) (map fst xs)" using W(1) by simp
    moreover have "\<forall>t i. PoolA t i \<in> fst ` set xs - fst ` set ?zs \<longrightarrow>
        pbufs ?st4 (PoolA t i) = None \<and> i \<in> set (pools ?st4 t)"
    proof (intro allI impI)
      fix t i
      assume "PoolA t i \<in> fst ` set xs - fst ` set ?zs"
      then have "PoolA t i \<in> fst ` set zs" "PoolA t i \<noteq> a" using W(1) by (auto simp: image_Un)
      then show "pbufs ?st4 (PoolA t i) = None \<and> i \<in> set (pools ?st4 t)"
        using st3(5) by (simp add: st3(4))
    qed
    ultimately show ?thesis using run oth by4 st3(2) S1(1) by (intro exI [of _ ?st4] exI [of _ ?zs]) auto
  qed
qed

text \<open>
  \<open>pbuf_realloc(p, n)\<close> trims a packet of pool pbufs to its first \<open>n\<close> bytes: the pbufs past the
  cut are freed, the others keep their order with \<open>len\<close> and \<open>tot_len\<close> right, and nothing else
  changes; a length that is not shorter leaves the packet as it is.
\<close>
lemma pbuf_realloc_trims:
  assumes "packet st (Some p) xs" "mem_ok (heap st)"
    and "\<forall>x \<in> set xs. backed st x \<and> ptype (snd x) \<noteq> PBUF_RAM \<and> ref (snd x) = 1"
  shows "\<exists>st' zs. pbuf_realloc p n st = Some st' \<and> packet st' (Some p) zs \<and>
    packet_bytes st' zs = take (unat n) (packet_bytes st xs) \<and>
    (\<exists>k. map fst zs = take k (map fst xs)) \<and>
    (\<forall>t i. PoolA t i \<in> fst ` set xs - fst ` set zs \<longrightarrow> pbufs st' (PoolA t i) = None \<and> i \<in> set (pools st' t)) \<and>
    (\<forall>a. a \<notin> fst ` set xs \<longrightarrow> pbufs st' a = pbufs st a) \<and> heap st' = heap st \<and> bytes st' = bytes st"
  using assms by (rule pbuf_realloc_trims_ok)

subsection \<open>Headers, allocation, copying, freeing\<close>

text \<open>
  Hiding \<open>n\<close> bytes of header with \<open>pbuf_header(p, -n)\<close> leaves exactly the bytes after them,
  and \<open>pbuf_header(p, n)\<close> then restores the pbuf; hiding more than the first pbuf holds, or
  revealing more than the room in front of the payload, is refused and changes nothing.
\<close>
lemma pbuf_header_roundtrip:
  assumes "pbufs st a = Some b" "read_at st (payload b) (unat (len b)) \<noteq> None"
    and "ptype b = PBUF_RAM \<or> ptype b = PBUF_POOL" "payload b = Some (PData a, off)" "0 \<le> off"
    and "0 < n"
  shows "(n \<le> unat (len b) \<longrightarrow>
      (\<exists>st' b'. pbuf_header (Some a) (- int n) st = Some (0, st') \<and> pbufs st' a = Some b' \<and>
         unat (len b') = unat (len b) - n \<and> pbuf_bytes st' b' = drop n (pbuf_bytes st b) \<and>
         pbuf_header (Some a) (int n) st' = Some (0, st))) \<and>
    (unat (len b) < n \<longrightarrow> pbuf_header (Some a) (- int n) st = Some (1, st)) \<and>
    (off < int n \<longrightarrow> pbuf_header (Some a) (int n) st = Some (1, st))"
proof (intro conjI impI)
  assume "n \<le> unat (len b)"
  note h = pbuf_header_hide [OF assms(1-6) this]
  show "\<exists>st' b'. pbuf_header (Some a) (- int n) st = Some (0, st') \<and> pbufs st' a = Some b' \<and>
         unat (len b') = unat (len b) - n \<and> pbuf_bytes st' b' = drop n (pbuf_bytes st b) \<and>
         pbuf_header (Some a) (int n) st' = Some (0, st)"
    by (rule exI, rule exI, intro conjI, rule h(1), simp, rule h(2), rule h(3), rule h(5))
qed (use assms in \<open>auto simp: pbuf_header_def Let_def\<close>)

lemma pbuf_alloc_pool_ok:
  assumes ok: "pool_ok st" and heap: "mem_ok (heap st)"
  shows "if pool_need layer (unat n) \<le> length (pool_free st)
    then \<exists>p xs st'. pbuf_alloc layer n PBUF_POOL st = Some (Some p, st') \<and>
      packet st' (Some p) xs \<and> lens xs = unat n \<and>
      map fst xs = map pool_addr (take (pool_need layer (unat n)) (pool_free st)) \<and>
      fresh_pool st' (headroom layer) (hd xs) \<and> (\<forall>x \<in> set (tl xs). fresh_pool st' 0 x) \<and>
      (\<forall>a. a \<notin> fst ` set xs \<longrightarrow> pbufs st' a = pbufs st a) \<and>
      pools st' = (pools st)(MEMP_PBUF_POOL := drop (pool_need layer (unat n)) (pool_free st)) \<and>
      heap st' = heap st \<and> bytes st' = bytes st
    else \<exists>st'. pbuf_alloc layer n PBUF_POOL st = Some (None, st') \<and>
      pbufs st' = pbufs st \<and> mset (pool_free st') = mset (pool_free st) \<and>
      (\<forall>t. t \<noteq> MEMP_PBUF_POOL \<longrightarrow> pools st' t = pools st t) \<and>
      heap st' = heap st \<and> bytes st' = bytes st"
proof (cases "pool_free st")
  case Nil
  then show ?thesis by (simp add: pbuf_alloc_def memp_malloc_pool pool_need_def)
next
  case (Cons i F)
  let ?off = "headroom layer" and ?need = "pool_need layer (unat n)"
  have off: "?off \<le> 56" "?off = LWIP_MEM_ALIGN_SIZE (layer_offset layer)"
    unfolding headroom_def by (cases layer; simp add: LWIP_MEM_ALIGN_SIZE_def)+
  let ?p = "pool_addr i" and ?k = "min (unat n) (1500 - ?off)"
  let ?b = "\<lparr>nextp = None, payload = Some (PData ?p, int ?off), tot_len = n, len = of_nat ?k,
      ptype = PBUF_POOL, flags = 0, ref = 1\<rparr>"
  let ?st = "st\<lparr>pools := (pools st)(MEMP_PBUF_POOL := F), pbufs := (pbufs st)(?p \<mapsto> ?b)\<rparr>"
  have run: "pbuf_alloc layer n PBUF_POOL st = pool_tail ?p ?p (unat n - ?k) ?st"
    using Cons by (simp add: pbuf_alloc_def memp_malloc_pool PBUF_POOL_BUFSIZE_ALIGNED_def off(2) Let_def)
  have i: "i \<notin> set F" "pbufs st ?p = None"
    "\<exists>d. bytes st (PData ?p) = Some d \<and> length d = PBUF_POOL_BUFSIZE_ALIGNED"
    using ok Cons by (auto simp: pool_ok_def)
  have ok1: "pool_ok ?st" using ok Cons by (auto simp: pool_ok_def)
  have k: "unat (of_nat ?k :: u16) = ?k" by (intro unat_of_nat_lt) (auto simp: min_def)
  have lt: "unat n - ?k < 65536" using unat_u16_lt [of n] by linarith
  show ?thesis
  proof (cases "?need \<le> length (pool_free st)")
    case True
    then have nb: "pool_blocks (unat n - ?k) \<le> length (pool_free ?st)" using Cons by (simp add: pool_need_def)
    from pool_tail_success [OF ok1 _ _ lt nb, of ?p ?b ?p] obtain ys st' q where
      ys: "pool_tail ?p ?p (unat n - ?k) ?st = Some (Some ?p, st')"
      "pbufs st' ?p = Some (?b\<lparr>nextp := q\<rparr>)" "chain (pbufs st') q ys"
      "map fst ys = map pool_addr (take (pool_blocks (unat n - ?k)) (pool_free ?st))"
      "tot_ok ys" "lens ys = unat n - ?k" "\<forall>y \<in> set ys. fresh_pool st' 0 y"
      "\<forall>a. a \<noteq> ?p \<longrightarrow> a \<notin> fst ` set ys \<longrightarrow> pbufs st' a = pbufs ?st a"
      "pools st' = (pools ?st)(MEMP_PBUF_POOL := drop (pool_blocks (unat n - ?k)) (pool_free ?st))"
      "heap st' = heap ?st" "bytes st' = bytes ?st" "junk st' = junk ?st"
      by auto
    let ?xs = "(?p, ?b\<lparr>nextp := q\<rparr>) # ys"
    have fys: "fst ` set ys \<subseteq> pool_addr ` set F"
      using arg_cong [OF ys(4), of set] by (auto dest: in_set_takeD)
    have dys: "distinct (map fst ys)"
    proof -
      have "distinct F" using ok Cons by (simp add: pool_ok_def)
      then show ?thesis unfolding ys(4) by (simp add: distinct_map inj_on_def)
    qed
    have fp: "fresh_pool st' ?off (hd ?xs)"
      using i(3) ys(11) k off(1) by (auto simp: fresh_pool_def PBUF_POOL_BUFSIZE_ALIGNED_def)
    have rd: "read_at st' (payload b) (unat (len b)) \<noteq> None" if "fresh_pool st' o' (a, b)" "o' \<le> 1500" for o' a b
      using that by (auto simp: fresh_pool_def read_at_def PBUF_POOL_BUFSIZE_ALIGNED_def)
    have "packet st' (Some ?p) ?xs"
      unfolding packet_def
    proof (intro conjI ballI)
      show "distinct (map fst ?xs)" using dys fys i(1) by auto
      show "tot_ok ?xs" using ys(5,6) k by simp
      show "chain (pbufs st') (Some ?p) ?xs" using ys(2,3) by simp
      fix x
      assume "x \<in> set ?xs"
      then show "case x of (a, b) \<Rightarrow> read_at st' (payload b) (unat (len b)) \<noteq> None"
        using rd [of ?off "fst x" "snd x"] rd [of 0 "fst x" "snd x"] fp ys(7) off(1) by auto
    qed
    then show ?thesis
      using True ys fp run Cons k
      by (simp only: if_True) (intro exI [of _ ?p] exI [of _ ?xs] exI [of _ st'], auto simp: pool_need_def)
  next
    case False
    then have nb: "length (pool_free ?st) < pool_blocks (unat n - ?k)" using Cons by (simp add: pool_need_def)
    have "pool_chain ?st ?p ([] @ [(?p, ?b)])" by (simp add: pool_chain_def)
    from pool_tail_failure [OF ok1 this _ _ nb] heap obtain st' where
      "pool_tail ?p ?p (unat n - ?k) ?st = Some (None, st')"
      "pbufs st' = (\<lambda>a. if a \<in> fst ` set ([] @ [(?p, ?b)]) then None else pbufs ?st a)"
      "mset (pool_free st') = mset (pool_free ?st) + mset (map (pool_idx \<circ> fst) ([] @ [(?p, ?b)]))"
      "\<forall>t. t \<noteq> MEMP_PBUF_POOL \<longrightarrow> pools st' t = pools ?st t"
      "heap st' = heap ?st" "bytes st' = bytes ?st" "junk st' = junk ?st" by auto
    then show ?thesis
      using False run Cons i(2) by (simp only: if_False) (intro exI [of _ st'], auto simp: fun_eq_iff)
  qed
qed

text \<open>
  C22. \<open>pbuf_alloc(layer, n, PBUF_POOL)\<close> takes exactly the pool elements the length needs and
  returns a packet of \<open>n\<close> bytes in buffers of their own, with room for the layer's headers in front, the
  length invariant, and one reference to each pbuf.  When the pool runs out on the way it returns
  \<open>NULL\<close> and has given back every element: no other pbuf, buffer or pool is touched.
\<close>
theorem pbuf_alloc_pool:
  assumes ok: "pool_ok st" and heap: "mem_ok (heap st)"
  shows "if pool_need layer (unat n) \<le> length (pool_free st)
    then \<exists>p xs st'. pbuf_alloc layer n PBUF_POOL st = Some (Some p, st') \<and>
      packet st' (Some p) xs \<and> lens xs = unat n \<and>
      map fst xs = map pool_addr (take (pool_need layer (unat n)) (pool_free st)) \<and>
      fresh_pool st' (headroom layer) (hd xs) \<and> (\<forall>x \<in> set (tl xs). fresh_pool st' 0 x) \<and>
      (\<forall>a. a \<notin> fst ` set xs \<longrightarrow> pbufs st' a = pbufs st a) \<and>
      pools st' = (pools st)(MEMP_PBUF_POOL := drop (pool_need layer (unat n)) (pool_free st)) \<and>
      heap st' = heap st \<and> bytes st' = bytes st
    else \<exists>st'. pbuf_alloc layer n PBUF_POOL st = Some (None, st') \<and>
      pbufs st' = pbufs st \<and> mset (pool_free st') = mset (pool_free st) \<and>
      (\<forall>t. t \<noteq> MEMP_PBUF_POOL \<longrightarrow> pools st' t = pools st t) \<and>
      heap st' = heap st \<and> bytes st' = bytes st"
  using assms by (rule pbuf_alloc_pool_ok)


lemma align_dvd: "4 dvd k \<Longrightarrow> LWIP_MEM_ALIGN_SIZE k = k"
  by (auto simp: LWIP_MEM_ALIGN_SIZE_def elim!: dvdE)

lemma pbuf_copy_copies_ok:
  assumes "packet st (Some t) xt" "packet st (Some f) xf" "owned xt" "areas xt \<inter> sources xf = {}"
    and "\<forall>x \<in> set xt \<union> set xf. 0 < unat (len (snd x))"
  shows "if lens xt < lens xf then pbuf_copy (Some t) (Some f) st = Some (ERR_ARG, st)
    else \<exists>st'. pbuf_copy (Some t) (Some f) st = Some (ERR_OK, st') \<and> writes_only (areas xt) st st' \<and>
      packet_bytes st' xt = packet_bytes st xf @ drop (lens xf) (packet_bytes st xt) \<and>
      packet_bytes st' xf = packet_bytes st xf"
proof -
  obtain b ts where t: "xt = (t, b) # ts" using assms(1) by (cases xt) auto
  obtain d fs where f: "xf = (f, d) # fs" using assms(2) by (cases xf) auto
  have tot: "pbufs st t = Some b" "pbufs st f = Some d" "unat (tot_len b) = lens xt" "unat (tot_len d) = lens xf"
    using assms(1,2) t f by auto
  show ?thesis
  proof (cases "lens xt < lens xf")
    case True
    then show ?thesis using tot by (simp add: pbuf_copy_def word_le_nat_alt)
  next
    case False
    then have run: "pbuf_copy (Some t) (Some f) st = copy_loop (Some t) 0 (Some f) 0 st"
      using tot by (simp add: pbuf_copy_def word_le_nat_alt)
    have "\<exists>st'. copy_loop (Some t) 0 (Some f) 0 st = Some (ERR_OK, st') \<and>
      writes_only (areas ((t, b) # ts)) st st' \<and>
      packet_bytes st' ((t, b) # ts) = take (unat (0 :: u16)) (packet_bytes st ((t, b) # ts)) @
        drop (unat (0 :: u16)) (packet_bytes st ((f, d) # fs)) @
        drop (unat (0 :: u16) + (unat (len d) - unat (0 :: u16) + lens fs)) (packet_bytes st ((t, b) # ts))"
      by (rule copy_loop_spec [OF refl]) (use assms t f False in auto)
    then obtain st' where st': "pbuf_copy (Some t) (Some f) st = Some (ERR_OK, st')" "writes_only (areas xt) st st'"
      "packet_bytes st' xt = packet_bytes st xf @ drop (lens xf) (packet_bytes st xt)"
      unfolding run t f lens_simps snd_conv unsigned_0 take_0 drop_0 append_Nil add_0 diff_zero by blast
    moreover have "packet_bytes st' xf = packet_bytes st xf"
      using source_bytes [OF st'(2) assms(4,2)] assms(5) by blast
    ultimately show ?thesis using False by auto
  qed
qed

text \<open>
  C21. \<open>pbuf_copy\<close> refuses a target that is too small and otherwise copies the whole packet, however the
  two are cut into pbufs: the target starts with the bytes of the source and keeps the rest of its own,
  and no memory outside the target's buffers is written.
\<close>
theorem pbuf_copy_copies:
  assumes "packet st (Some t) xt" "packet st (Some f) xf" "owned xt" "areas xt \<inter> sources xf = {}"
    and "\<forall>x \<in> set xt \<union> set xf. 0 < unat (len (snd x))"
  shows "if lens xt < lens xf then pbuf_copy (Some t) (Some f) st = Some (ERR_ARG, st)
    else \<exists>st'. pbuf_copy (Some t) (Some f) st = Some (ERR_OK, st') \<and> writes_only (areas xt) st st' \<and>
      packet_bytes st' xt = packet_bytes st xf @ drop (lens xf) (packet_bytes st xt) \<and>
      packet_bytes st' xf = packet_bytes st xf"
  using assms by (rule pbuf_copy_copies_ok)

text \<open>
  C25. What \<open>pbuf_take\<close> writes into a packet, \<open>pbuf_copy_partial\<close> reads back, at every offset and
  length and across pbuf boundaries; data longer than the packet is refused.
\<close>
theorem pbuf_take_copy_partial:
  assumes "packet st (Some p) xs" "owned xs"
  shows "if lens xs < length bs then pbuf_take (Some p) (Some bs) st = Some (ERR_ARG, st)
    else \<exists>st'. pbuf_take (Some p) (Some bs) st = Some (ERR_OK, st') \<and> writes_only (areas xs) st st' \<and>
      (\<forall>n off. pbuf_copy_partial (Some p) n off st' =
         Some (take (unat n) (drop (unat off) (bs @ drop (length bs) (packet_bytes st xs)))))"
proof -
  obtain b ys where x: "xs = (p, b) # ys" using assms(1) by (cases xs) auto
  have b: "pbufs st p = Some b" "unat (tot_len b) = lens xs" using assms(1) x by auto
  show ?thesis
  proof (cases "lens xs < length bs")
    case True
    then show ?thesis using b by (simp add: pbuf_take_def)
  next
    case False
    then obtain st' where st': "take_loop (Some p) bs st = Some st'" "writes_only (areas xs) st st'"
      "packet_bytes st' xs = bs @ drop (length bs) (packet_bytes st xs)"
      using take_loop_spec [OF assms, of bs] by auto
    then have "pbuf_take (Some p) (Some bs) st = Some (ERR_OK, st')"
      using b False by (simp add: pbuf_take_def)
    moreover have "pbuf_copy_partial (Some p) n off st' =
        Some (take (unat n) (drop (unat off) (packet_bytes st' xs)))" for n off
      using copy_partial_loop_spec [OF writes_only_packet [OF st'(2) assms(1)], of n off "[]"]
      by (simp add: pbuf_copy_partial_def)
    ultimately show ?thesis using False st'(2,3) by auto
  qed
qed

text \<open>
  C23. \<open>pbuf_free\<close> releases exactly the pbufs at the front of the chain that nobody else refers to: it
  returns their number, they are gone and the heap blocks of the \<open>PBUF_RAM\<close> ones are free; the
  first pbuf that is still shared loses one reference and everything behind it is left alone.
\<close>
theorem pbuf_free_releases:
  assumes "chain (pbufs st) (Some p) xs" "distinct (map fst xs)" "\<forall>x \<in> set xs. backed st x" "mem_ok (heap st)"
  shows "\<exists>st'. pbuf_free (Some p) st = Some (of_nat (length (takeWhile (\<lambda>x. ref (snd x) = 1) xs)), st') \<and>
    pbufs st' = (\<lambda>a. if a \<in> fst ` set (takeWhile (\<lambda>x. ref (snd x) = 1) xs) then None
      else case dropWhile (\<lambda>x. ref (snd x) = 1) xs of
             [] \<Rightarrow> pbufs st a
           | (c, d) # _ \<Rightarrow> if a = c then Some (d\<lparr>ref := ref d - 1\<rparr>) else pbufs st a) \<and>
    mem_ok (heap st') \<and>
    (\<forall>r. mem_live (heap st') r = (if HeapA r \<in> fst ` set (takeWhile (\<lambda>x. ref (snd x) = 1) xs) then None
       else mem_live (heap st) r))"
proof -
  have fr: "free_refs xs m = (\<lambda>a. if a \<in> fst ` set (takeWhile (\<lambda>x. ref (snd x) = 1) xs) then None
      else case dropWhile (\<lambda>x. ref (snd x) = 1) xs of
             [] \<Rightarrow> m a
           | (c, d) # _ \<Rightarrow> if a = c then Some (d\<lparr>ref := ref d - 1\<rparr>) else m a)"
    if "distinct (map fst xs)" for m
    using that
  proof (induction xs arbitrary: m)
    case (Cons x xs)
    obtain a b where x: "x = (a, b)" by (cases x)
    show ?case
    proof (cases "ref b = 1")
      case True
      have nin: "\<forall>c d ys. dropWhile (\<lambda>x. ref (snd x) = 1) xs = (c, d) # ys \<longrightarrow> c \<noteq> a"
      proof (intro allI impI)
        fix c d ys
        assume "dropWhile (\<lambda>x. ref (snd x) = 1) xs = (c, d) # ys"
        then have "(c, d) \<in> set xs" using set_dropWhileD [of "(c, d)" "\<lambda>x. ref (snd x) = 1" xs] by simp
        then have "c \<in> fst ` set xs" by (rule image_eqI [rotated]) simp
        then show "c \<noteq> a" using Cons.prems x by auto
      qed
      define T W where "T = fst ` set (takeWhile (\<lambda>x. ref (snd x) = 1) xs)"
        and "W = dropWhile (\<lambda>x. ref (snd x) = 1) xs"
      have tw: "fst ` set (takeWhile (\<lambda>x. ref (snd x) = 1) (x # xs)) = insert a T"
        "dropWhile (\<lambda>x. ref (snd x) = 1) (x # xs) = W"
        using True x by (simp_all add: T_def W_def)
      have d: "distinct (map fst xs)" using Cons.prems by simp
      have e: "free_refs (x # xs) m = free_refs xs (m(a := None))" using True x by simp
      have n: "\<forall>c d ys. W = (c, d) # ys \<longrightarrow> c \<noteq> a" using nin by (simp add: W_def)
      show ?thesis
        unfolding tw e Cons.IH [OF d, folded T_def W_def]
        by (rule ext) (use n in \<open>cases W; auto\<close>)
    qed (auto simp: x)
  qed simp
  obtain st' where st': "pbuf_free_loop (Some p) 0 st =
      Some (0 + of_nat (length (takeWhile (\<lambda>x. ref (snd x) = 1) xs)), st')"
    "pbufs st' = free_refs xs (pbufs st)" "mem_ok (heap st')"
    "mem_live (heap st') = (\<lambda>r. if HeapA r \<in> fst ` set (takeWhile (\<lambda>x. ref (snd x) = 1) xs) then None
                                else mem_live (heap st) r)"
    using pbuf_free_loop_spec [OF assms, of 0] by (elim exE conjE) (rule that; assumption)
  show ?thesis
    by (rule exI [of _ st']) (simp add: pbuf_free_def st' fr [OF assms(2)])
qed

text \<open>
  C26. The size \<open>pbuf_alloc\<close> computes for a \<open>PBUF_RAM\<close> is a \<open>u16_t\<close>: the pbuf it returns has room for its
  data exactly when header space and data together stay below 65536.  Beyond that the size wraps,
  a small block is allocated and the payload reaches past its end.
\<close>
theorem pbuf_alloc_ram_area:
  assumes "pbuf_alloc layer n PBUF_RAM st = Some (Some p, st')" "n \<noteq> 0"
  shows "\<exists>b. pbufs st' p = Some b \<and> len b = n \<and> tot_len b = n \<and>
    (read_at st' (payload b) (unat n) \<noteq> None \<longleftrightarrow>
       LWIP_MEM_ALIGN_SIZE (SIZEOF_STRUCT_PBUF + layer_offset layer) + LWIP_MEM_ALIGN_SIZE (unat n) < 65536)"
proof -
  let ?hd = "LWIP_MEM_ALIGN_SIZE (layer_offset layer)"
  let ?A = "LWIP_MEM_ALIGN_SIZE (SIZEOF_STRUCT_PBUF + layer_offset layer)" and ?N = "LWIP_MEM_ALIGN_SIZE (unat n)"
  let ?sz = "(?A + ?N) mod 65536"
  have A: "?A = 16 + ?hd" "?hd \<le> 56" "4 dvd ?hd"
    by (cases layer; simp add: LWIP_MEM_ALIGN_SIZE_def SIZEOF_STRUCT_PBUF_def)+
  have "(unat n + 3) div 4 * 4 + (unat n + 3) mod 4 = unat n + 3" "(unat n + 3) mod 4 < 4" by simp_all
  then have N: "unat n \<le> ?N" "?N \<le> 65536" "4 dvd ?N" and n4: "?N < unat n + 4"
    using unat_u16_lt [of n] unfolding LWIP_MEM_ALIGN_SIZE_def by (linarith | simp)+
  obtain r h where m: "mem_malloc ?sz (heap st) = Some (Some r, h)" "16 \<le> adjust_size ?sz" "p = HeapA r"
    "st' = st\<lparr>heap := h, pbufs := (pbufs st)(p \<mapsto>
       \<lparr>nextp = None, payload = Some (PData p, int ?hd), tot_len = n, len = n, ptype = PBUF_RAM, flags = 0, ref = 1\<rparr>),
       bytes := (bytes st)(PData p \<mapsto> map (junk st p) [0..<adjust_size ?sz - 16])\<rparr>"
    using assms(1) unfolding pbuf_alloc_def
    by (auto simp: SIZEOF_STRUCT_PBUF_def Let_def bind_eq_Some_conv split: option.splits if_splits)
  have adj: "adjust_size ?sz = (if ?sz < 12 then 12 else ?sz)"
  proof -
    have "4 dvd ?A + ?N" using A N by (simp add: dvd_add)
    then have "4 dvd ?sz" by (simp add: dvd_mod_iff)
    then have "LWIP_MEM_ALIGN_SIZE ?sz = ?sz" by (rule align_dvd)
    then show ?thesis by (simp add: adjust_size_def MIN_SIZE_ALIGNED_def)
  qed
  let ?b = "\<lparr>nextp = None, payload = Some (PData p, int ?hd), tot_len = n, len = n, ptype = PBUF_RAM, flags = 0, ref = 1\<rparr>"
  have n0: "0 < unat n" using assms(2) by (simp add: unat_gt_0)
  have b: "pbufs st' p = Some ?b" by (simp add: m(4))
  have "bytes st' (PData p) = Some (map (junk st p) [0..<adjust_size ?sz - 16])" by (simp add: m(4))
  then have rd: "read_at st' (payload ?b) (unat n) \<noteq> None \<longleftrightarrow> ?hd + unat n \<le> adjust_size ?sz - 16"
    using n0 by (simp add: read_at_def)
  have "?hd + unat n \<le> adjust_size ?sz - 16 \<longleftrightarrow> ?A + ?N < 65536"
  proof (cases "?A + ?N < 65536")
    case True
    then show ?thesis using adj A N(1) by simp
  next
    case False
    then have "?sz = ?A + ?N - 65536" using A(1,2) N(2) by (simp add: mod_if)
    then show ?thesis using False adj A(1,2) N n0 n4 by (simp split: if_splits)
  qed
  then show ?thesis using b rd by (intro exI [of _ ?b]) simp
qed

subsection \<open>Concrete packets\<close>

text \<open>
  A packet of two pool pbufs (1, 2, 3 and 4, 5), the second one reached through the \<open>next\<close> of
  the first, and a packet of one pbuf (7, 8).
\<close>

definition pmem_sample :: pmem where
  "pmem_sample = \<lparr>heap = mem_init, pools = (\<lambda>_. []),
     pbufs = [PoolA MEMP_PBUF_POOL 0 \<mapsto> \<lparr>nextp = Some (PoolA MEMP_PBUF_POOL 1),
                payload = Some (PData (PoolA MEMP_PBUF_POOL 0), 0), tot_len = 5, len = 3,
                ptype = PBUF_POOL, flags = 0, ref = 1\<rparr>,
              PoolA MEMP_PBUF_POOL 1 \<mapsto> \<lparr>nextp = None, payload = Some (PData (PoolA MEMP_PBUF_POOL 1), 1),
                tot_len = 2, len = 2, ptype = PBUF_POOL, flags = 0, ref = 1\<rparr>,
              PoolA MEMP_PBUF_POOL 2 \<mapsto> \<lparr>nextp = None, payload = Some (PData (PoolA MEMP_PBUF_POOL 2), 0),
                tot_len = 2, len = 2, ptype = PBUF_POOL, flags = 0, ref = 1\<rparr>],
     bytes = [PData (PoolA MEMP_PBUF_POOL 0) \<mapsto> [1, 2, 3], PData (PoolA MEMP_PBUF_POOL 1) \<mapsto> [0, 4, 5],
              PData (PoolA MEMP_PBUF_POOL 2) \<mapsto> [7, 8]],
     junk = (\<lambda>_ _. 0)\<rparr>"

definition xs_sample :: "(addr \<times> pbuf) list" where
  "xs_sample = map (\<lambda>i. (PoolA MEMP_PBUF_POOL i, the (pbufs pmem_sample (PoolA MEMP_PBUF_POOL i)))) [0, 1]"

definition ys_sample :: "(addr \<times> pbuf) list" where
  "ys_sample = map (\<lambda>i. (PoolA MEMP_PBUF_POOL i, the (pbufs pmem_sample (PoolA MEMP_PBUF_POOL i)))) [2]"

lemma pmem_sample_facts:
  "packet pmem_sample (Some (PoolA MEMP_PBUF_POOL 0)) xs_sample"
  "packet pmem_sample (Some (PoolA MEMP_PBUF_POOL 2)) ys_sample"
  "packet_bytes pmem_sample xs_sample = [1, 2, 3, 4, 5]" "packet_bytes pmem_sample ys_sample = [7, 8]"
  "owned xs_sample" "owned ys_sample" "lens xs_sample = 5" "lens ys_sample = 2"
  "fst ` set xs_sample = {PoolA MEMP_PBUF_POOL 0, PoolA MEMP_PBUF_POOL 1}"
  "fst ` set ys_sample = {PoolA MEMP_PBUF_POOL 2}"
  "sources xs_sample = {PData (PoolA MEMP_PBUF_POOL 0), PData (PoolA MEMP_PBUF_POOL 1)}"
  "sources ys_sample = {PData (PoolA MEMP_PBUF_POOL 2)}"
  "\<forall>x \<in> set xs_sample \<union> set ys_sample. 0 < unat (len (snd x))"
  "\<forall>x \<in> set xs_sample \<union> set ys_sample. backed pmem_sample x \<and> ptype (snd x) = PBUF_POOL \<and> ref (snd x) = 1"
  "mem_ok (heap pmem_sample)"
proof -
  note d = pmem_sample_def xs_sample_def ys_sample_def
  show "packet pmem_sample (Some (PoolA MEMP_PBUF_POOL 0)) xs_sample"
    "packet pmem_sample (Some (PoolA MEMP_PBUF_POOL 2)) ys_sample"
    by (simp_all add: d read_at_def)
  show "packet_bytes pmem_sample xs_sample = [1, 2, 3, 4, 5]" "packet_bytes pmem_sample ys_sample = [7, 8]"
    by (simp_all add: d pbuf_bytes_def read_at_def)
  show "owned xs_sample" "owned ys_sample" "lens xs_sample = 5" "lens ys_sample = 2"
    "fst ` set xs_sample = {PoolA MEMP_PBUF_POOL 0, PoolA MEMP_PBUF_POOL 1}"
    "fst ` set ys_sample = {PoolA MEMP_PBUF_POOL 2}"
    by (simp_all add: d)
  show "sources xs_sample = {PData (PoolA MEMP_PBUF_POOL 0), PData (PoolA MEMP_PBUF_POOL 1)}"
    "sources ys_sample = {PData (PoolA MEMP_PBUF_POOL 2)}"
    by (auto simp: d sources_def)
  show "\<forall>x \<in> set xs_sample \<union> set ys_sample. 0 < unat (len (snd x))"
    "\<forall>x \<in> set xs_sample \<union> set ys_sample. backed pmem_sample x \<and> ptype (snd x) = PBUF_POOL \<and> ref (snd x) = 1"
    by (auto simp: d backed_def)
  show "mem_ok (heap pmem_sample)" using mem_init_rel by (auto simp: pmem_sample_def mem_ok_rel)
qed

theorem pbuf_copy_copies_witness:
  "\<exists>st'. pbuf_copy (Some (PoolA MEMP_PBUF_POOL 0)) (Some (PoolA MEMP_PBUF_POOL 2)) pmem_sample = Some (ERR_OK, st') \<and>
     packet_bytes st' xs_sample = [7, 8, 3, 4, 5]"
  using pbuf_copy_copies [OF pmem_sample_facts(1,2,5)] pmem_sample_facts
  by (auto simp: areas_def)

theorem pbuf_take_copy_partial_witness:
  "\<exists>st'. pbuf_take (Some (PoolA MEMP_PBUF_POOL 0)) (Some [9, 8, 7, 6]) pmem_sample = Some (ERR_OK, st') \<and>
     pbuf_copy_partial (Some (PoolA MEMP_PBUF_POOL 0)) 3 2 st' = Some [7, 6, 5]"
  using pbuf_take_copy_partial [OF pmem_sample_facts(1,5), of "[9, 8, 7, 6]"] pmem_sample_facts
  by auto

theorem pbuf_cat_appends_witness:
  "\<exists>st' zs. pbuf_cat (Some (PoolA MEMP_PBUF_POOL 0)) (Some (PoolA MEMP_PBUF_POOL 2)) pmem_sample = Some st' \<and>
     packet st' (Some (PoolA MEMP_PBUF_POOL 0)) zs \<and> packet_bytes st' zs = [1, 2, 3, 4, 5, 7, 8]"
proof -
  have "fst ` set xs_sample \<inter> fst ` set ys_sample = {}" "lens xs_sample + lens ys_sample < 65536"
    by (simp_all add: pmem_sample_facts)
  from pbuf_cat_appends [OF pmem_sample_facts(1,2) this] show ?thesis
    by (elim exE conjE) (intro exI conjI, assumption+, simp add: pmem_sample_facts)
qed

theorem pbuf_free_releases_witness:
  "\<exists>st'. pbuf_free (Some (PoolA MEMP_PBUF_POOL 0)) pmem_sample = Some (2, st') \<and>
     pbufs st' (PoolA MEMP_PBUF_POOL 1) = None \<and> pbufs st' (PoolA MEMP_PBUF_POOL 2) \<noteq> None"
proof -
  have "chain (pbufs pmem_sample) (Some (PoolA MEMP_PBUF_POOL 0)) xs_sample" "distinct (map fst xs_sample)"
    using pmem_sample_facts(1) by (simp_all add: packet_def)
  from pbuf_free_releases [OF this _ pmem_sample_facts(15)] pmem_sample_facts(14)
  show ?thesis by (auto simp: xs_sample_def pmem_sample_def)
qed

theorem pbuf_alloc_ram_area_witness:
  "\<exists>p st' b. pbuf_alloc PBUF_TRANSPORT 65500 PBUF_RAM pmem_sample = Some (Some p, st') \<and>
     pbufs st' p = Some b \<and> len b = 65500 \<and> read_at st' (payload b) 65500 = None"
proof -
  have "first_fit (adjust_size 36) [(MEM_SIZE_ALIGNED, False)] = Some (0, [(44, True), (20436, False)])"
    by (simp add: mem_consts adjust_size_def LWIP_MEM_ALIGN_SIZE_def)
  then obtain h where h: "mem_malloc 36 mem_init = Some (Some 8, h)"
    using mem_malloc_rel [OF mem_init_rel, of 36] by (auto simp: SIZEOF_STRUCT_MEM_def)
  have "\<exists>st'. pbuf_alloc PBUF_TRANSPORT 65500 PBUF_RAM pmem_sample = Some (Some (HeapA 8), st')"
    using h by (simp add: pbuf_alloc_def pmem_sample_def SIZEOF_STRUCT_PBUF_def LWIP_MEM_ALIGN_SIZE_def
        adjust_size_def MIN_SIZE_ALIGNED_def Let_def)
  then obtain st' where run: "pbuf_alloc PBUF_TRANSPORT 65500 PBUF_RAM pmem_sample = Some (Some (HeapA 8), st')"
    by blast
  from pbuf_alloc_ram_area [OF this] run show ?thesis
    by (force simp: SIZEOF_STRUCT_PBUF_def LWIP_MEM_ALIGN_SIZE_def)
qed

text \<open>The memory after \<open>mem_init\<close> and \<open>memp_init\<close>.\<close>

definition pmem_init :: pmem where
  "pmem_init = \<lparr>heap = mem_init, pools = memp_init, pbufs = Map.empty,
     bytes = (\<lambda>r. case r of PData (PoolA MEMP_PBUF_POOL i) \<Rightarrow> Some (replicate PBUF_POOL_BUFSIZE_ALIGNED 0) | _ \<Rightarrow> None),
     junk = (\<lambda>_ _. 0)\<rparr>"

lemma pmem_init_ok: "pool_ok pmem_init" "mem_ok (heap pmem_init)"
  using mem_init_rel by (auto simp: pmem_init_def pool_ok_def memp_init_eq mem_ok_rel)

theorem pbuf_alloc_pool_witness:
  "\<exists>p xs st'. pbuf_alloc PBUF_RAW 2000 PBUF_POOL pmem_init = Some (Some p, st') \<and> packet st' (Some p) xs \<and>
     lens xs = 2000 \<and> map fst xs = [pool_addr 9, pool_addr 8]"
proof -
  have need: "pool_need PBUF_RAW (unat (2000 :: u16)) = 2" "pool_free pmem_init = rev [0..<10]"
    by (simp_all add: pool_need_def headroom_def pool_blocks_def LWIP_MEM_ALIGN_SIZE_def pmem_init_def memp_init_eq)
  have "\<exists>p xs st'. pbuf_alloc PBUF_RAW 2000 PBUF_POOL pmem_init = Some (Some p, st') \<and> packet st' (Some p) xs \<and>
     lens xs = unat (2000 :: u16) \<and> map fst xs = map pool_addr (take 2 (rev [0..<10]))"
    using pbuf_alloc_pool [OF pmem_init_ok, of PBUF_RAW 2000] unfolding need by fastforce
  moreover have "map pool_addr (take 2 (rev [0..<10])) = [pool_addr 9, pool_addr 8]" by code_simp
  ultimately show ?thesis by simp
qed

end
