(* ===== verification/Netif.thy ===== *)
theory Netif
  imports Inet
begin

text \<open>
  \<open>lwip/netif.h\<close>, \<open>lwip/ip_addr.h\<close> and \<open>core/ipv4/ip_addr.c\<close>: the network interface structure, the
  address macros and the broadcast test.  Addresses are kept in network byte order, as the \<open>u32_t\<close>
  the little-endian target reads.  The function pointers of a \<open>struct netif\<close> are constants of
  \<open>netif_fn\<close>; \<open>None\<close> is a null pointer.  \<open>None\<close> as the \<open>addr\<close> of an address argument is \<open>NULL\<close>.
\<close>

subsection \<open>Addresses\<close>

definition IP4_ADDR :: "u32 \<Rightarrow> u32 \<Rightarrow> u32 \<Rightarrow> u32 \<Rightarrow> u32" where
  "IP4_ADDR a b c d =
     htonl (push_bit 24 (a AND 0xff) OR push_bit 16 (b AND 0xff) OR push_bit 8 (c AND 0xff) OR (d AND 0xff))"

definition ip_addr_set :: "u32 option \<Rightarrow> u32" where
  "ip_addr_set src = (case src of None \<Rightarrow> 0 | Some a \<Rightarrow> a)"

definition ip_addr_netcmp :: "u32 \<Rightarrow> u32 \<Rightarrow> u32 \<Rightarrow> bool" where
  "ip_addr_netcmp addr1 addr2 msk \<longleftrightarrow> addr1 AND msk = addr2 AND msk"

definition ip_addr_isany :: "u32 option \<Rightarrow> bool" where
  "ip_addr_isany a \<longleftrightarrow> a = None \<or> a = Some 0"

definition ip_addr_ismulticast :: "u32 \<Rightarrow> bool" where
  "ip_addr_ismulticast a \<longleftrightarrow> a AND ntohl 0xf0000000 = ntohl 0xe0000000"

definition ip_addr_islinklocal :: "u32 \<Rightarrow> bool" where
  "ip_addr_islinklocal a \<longleftrightarrow> a AND ntohl 0xffff0000 = ntohl 0xa9fe0000"

definition ip4_addr1 :: "u32 \<Rightarrow> u16" where "ip4_addr1 a = ucast (drop_bit 24 (ntohl a)) AND 0xff"
definition ip4_addr2 :: "u32 \<Rightarrow> u16" where "ip4_addr2 a = ucast (drop_bit 16 (ntohl a)) AND 0xff"
definition ip4_addr3 :: "u32 \<Rightarrow> u16" where "ip4_addr3 a = ucast (drop_bit 8 (ntohl a)) AND 0xff"
definition ip4_addr4 :: "u32 \<Rightarrow> u16" where "ip4_addr4 a = ucast (ntohl a) AND 0xff"

abbreviation (input) IP_ADDR_ANY_VALUE :: u32 where "IP_ADDR_ANY_VALUE \<equiv> 0"
abbreviation (input) IP_ADDR_BROADCAST_VALUE :: u32 where "IP_ADDR_BROADCAST_VALUE \<equiv> 0xffffffff"

subsection \<open>The interface structure\<close>

datatype netif_fn = Ethernet_input | Etharp_output | Low_level_output

record netif =
  ip_addr :: u32
  netmask :: u32
  gw :: u32
  inputf :: "netif_fn option"
  outputf :: "netif_fn option"
  linkoutput :: "netif_fn option"
  nstate :: "nat option"
  hwaddr_len :: u8
  hwaddr :: "u8 list"
  mtu :: u16
  nflags :: u8
  nname :: "u8 \<times> u8"
  nnum :: u8

abbreviation (input) NETIF_FLAG_UP :: u8 where "NETIF_FLAG_UP \<equiv> 0x01"
abbreviation (input) NETIF_FLAG_BROADCAST :: u8 where "NETIF_FLAG_BROADCAST \<equiv> 0x02"
abbreviation (input) NETIF_FLAG_LINK_UP :: u8 where "NETIF_FLAG_LINK_UP \<equiv> 0x10"
abbreviation (input) NETIF_FLAG_ETHARP :: u8 where "NETIF_FLAG_ETHARP \<equiv> 0x20"

definition netif_set_gw :: "u32 option \<Rightarrow> netif \<Rightarrow> netif" where
  "netif_set_gw g n = n\<lparr>gw := ip_addr_set g\<rparr>"

definition netif_set_netmask :: "u32 option \<Rightarrow> netif \<Rightarrow> netif" where
  "netif_set_netmask m n = n\<lparr>netmask := ip_addr_set m\<rparr>"

definition netif_set_down :: "netif \<Rightarrow> netif" where
  "netif_set_down n =
     (if nflags n AND NETIF_FLAG_UP \<noteq> 0 then n\<lparr>nflags := nflags n AND NOT NETIF_FLAG_UP\<rparr> else n)"

definition netif_is_up :: "netif \<Rightarrow> u8" where
  "netif_is_up n = (if nflags n AND NETIF_FLAG_UP \<noteq> 0 then 1 else 0)"

definition ip_addr_isbroadcast :: "u32 \<Rightarrow> netif \<Rightarrow> u8" where
  "ip_addr_isbroadcast addr2test n =
     (if NOT addr2test = IP_ADDR_ANY_VALUE \<or> addr2test = IP_ADDR_ANY_VALUE then 1
      else if nflags n AND NETIF_FLAG_BROADCAST = 0 then 0
      else if addr2test = ip_addr n then 0
      else if ip_addr_netcmp addr2test (ip_addr n) (netmask n) \<and>
              addr2test AND NOT (netmask n) = IP_ADDR_BROADCAST_VALUE AND NOT (netmask n)
      then 1
      else 0)"

subsection \<open>Lemmas\<close>

lemma isbroadcast_cases: "ip_addr_isbroadcast a n = 0 \<or> ip_addr_isbroadcast a n = 1"
  by (simp add: ip_addr_isbroadcast_def)

lemma IP4_ADDR_bytes:
  "IP4_ADDR (ucast a) (ucast b) (ucast c) (ucast d) = u32_of_bytes a b c d" for a b c d :: u8
proof -
  have m: "ucast x AND 0xff = (ucast x :: u32)" for x :: u8
    by (rule bit_word_eqI) (auto simp: bit_simps and_mask_take_bit dest: bit_imp_le_length)
  have "push_bit 24 (ucast a) OR push_bit 16 (ucast b) OR push_bit 8 (ucast c) OR ucast d = u32_of_bytes d c b a"
    by (simp add: u32_of_bytes_def ac_simps)
  then show ?thesis unfolding IP4_ADDR_def m by (simp add: htonl_bytes)
qed

text \<open>On a broadcast interface the directed broadcast address is the network part with all host bits set.\<close>

lemma isbroadcast_directed:
  assumes "nflags n AND NETIF_FLAG_BROADCAST \<noteq> 0" "a \<noteq> ip_addr n" "a \<noteq> 0" "NOT a \<noteq> 0"
  shows "ip_addr_isbroadcast a n = 1 \<longleftrightarrow> a = (ip_addr n AND netmask n) OR NOT (netmask n)"
proof -
  have dir: "a AND m = i AND m \<and> a AND NOT m = NOT m \<longleftrightarrow> a = (i AND m) OR NOT m" for m i :: u32
    by (auto simp: bit_eq_iff bit_simps)
  have "(0xffffffff :: u32) = - 1" by simp
  then have ones: "(0xffffffff :: u32) AND x = x" for x by (simp only: and.left_neutral)
  show ?thesis
    using assms unfolding ip_addr_isbroadcast_def ip_addr_netcmp_def ones dir by simp
qed

end
