(* ===== verification/Ethernetif.thy ===== *)
theory Ethernetif
  imports Netif Emac Pbuf_Props
begin

text \<open>
  \<open>port/ethernetif.c\<close>: the glue between the Ethernet driver and the stack.  \<open>dev\<close> holds what the
  functions touch: the driver (\<open>mac\<close>), the packet memory (\<open>pm\<close>), the two staging buffers, the one
  \<open>struct netif\<close> of \<open>netconf.c\<close>, the pin and interrupt set-up.  A copy past the end of a staging
  buffer is \<open>None\<close>.
\<close>

record dev =
  mac :: emac
  pm :: pmem
  gTxBuf :: "u8 list"
  gRxBuf :: "u8 list"
  nif :: netif
  PINSEL2 :: u32
  PINSEL3 :: u32
  nvic :: bool

abbreviation (input) EMAC_MAX_PACKET_SIZE :: nat where "EMAC_MAX_PACKET_SIZE \<equiv> 1536"

definition ETHADDR :: "u8 list" where "ETHADDR = [0, 0, 0, 0, 0, 1]"

subsection \<open>Initialisation\<close>

text \<open>\<open>while (EMAC_Init(&Emac_Config) == 0)\<close> with a pause after every failure.\<close>

partial_function (option) init_loop :: "emac \<Rightarrow> emac option" where
  "init_loop st =
     (case EMAC_Init 3 ETHADDR st of (ok, st) \<Rightarrow> if ok then Some st else init_loop st)"

definition low_level_init :: "'a dev_scheme \<Rightarrow> 'a dev_scheme option" where
  "low_level_init d = do {
     let n = (nif d)\<lparr>hwaddr_len := 6, hwaddr := ETHADDR, mtu := 1536,
                nflags := NETIF_FLAG_BROADCAST OR NETIF_FLAG_ETHARP OR NETIF_FLAG_LINK_UP\<rparr>;
     m \<leftarrow> init_loop (mac d);
     let m = EMAC_IntCmd (EMAC_INT_RX_OVERRUN OR EMAC_INT_TX_DONE OR EMAC_INT_RX_DONE) True m;
     Some (d\<lparr>nif := n, PINSEL2 := 0x50150105, PINSEL3 := (PINSEL3 d AND NOT 0xF) OR 0x5,
             mac := m, nvic := True\<rparr>)
   }"

definition ethernetif_init :: "'a dev_scheme \<Rightarrow> (err_t \<times> 'a dev_scheme) option" where
  "ethernetif_init d = do {
     (p, h) \<leftarrow> mem_malloc 8 (heap (pm d));
     let d = d\<lparr>pm := (pm d)\<lparr>heap := h\<rparr>\<rparr>;
     (case p of
        None \<Rightarrow> Some (ERR_MEM, d)
      | Some a \<Rightarrow> do {
          let n = (nif d)\<lparr>nstate := Some a, nname := (0x57, 0x42), outputf := Some Etharp_output,
                     linkoutput := Some Low_level_output\<rparr>;
          d \<leftarrow> low_level_init (d\<lparr>nif := n\<rparr>);
          Some (ERR_OK, d)
        })
   }"

subsection \<open>Transmission\<close>

definition ethernet_send :: "u8 list \<Rightarrow> int \<Rightarrow> emac \<Rightarrow> (int \<times> emac) option" where
  "ethernet_send pPacket sz st =
     (if sz = 0 then Some (0, st)
      else if EMAC_CheckTransmitIndex st = False then Some (-1, st)
      else do {
        let sz = min sz (int EMAC_MAX_PACKET_SIZE);
        st \<leftarrow> EMAC_WritePacketBuffer (of_int sz) pPacket st;
        Some (0, EMAC_UpdateTxProduceIndex st)
      })"

text \<open>The loop over the chain: \<open>len\<close> is the number of bytes in \<open>gTxBuf\<close> so far.\<close>

partial_function (option) output_loop :: "addr option \<Rightarrow> nat \<Rightarrow> u8 list \<Rightarrow> pmem \<Rightarrow> (nat \<times> u8 list) option" where
  "output_loop q n tx st =
     (case q of
        None \<Rightarrow> Some (n, tx)
      | Some a \<Rightarrow>
          (case pbufs st a of
             None \<Rightarrow> None
           | Some b \<Rightarrow>
               (case read_at st (payload b) (unat (len b)) of
                  None \<Rightarrow> None
                | Some bs \<Rightarrow>
                    if n + length bs \<le> length tx
                    then output_loop (nextp b) (n + length bs)
                           (take n tx @ bs @ drop (n + length bs) tx) st
                    else None)))"

definition low_level_output :: "addr option \<Rightarrow> 'a dev_scheme \<Rightarrow> (err_t \<times> 'a dev_scheme) option" where
  "low_level_output p d = do {
     (n, tx) \<leftarrow> output_loop p 0 (gTxBuf d) (pm d);
     (_, m) \<leftarrow> ethernet_send tx (int n) (mac d);
     Some (ERR_OK, d\<lparr>gTxBuf := tx, mac := m\<rparr>)
   }"

subsection \<open>Reception\<close>

partial_function (option) input_loop :: "addr option \<Rightarrow> u16 \<Rightarrow> u8 list \<Rightarrow> pmem \<Rightarrow> pmem option" where
  "input_loop q n rx st =
     (case q of
        None \<Rightarrow> Some st
      | Some a \<Rightarrow>
          (case pbufs st a of
             None \<Rightarrow> None
           | Some b \<Rightarrow>
               if unat n + unat (len b) \<le> length rx
               then (case write_at st (payload b) (take (unat (len b)) (drop (unat n) rx)) of
                       None \<Rightarrow> None
                     | Some st \<Rightarrow> input_loop (nextp b) (n + len b) rx st)
               else None))"

definition low_level_input :: "'a dev_scheme \<Rightarrow> (addr option \<times> 'a dev_scheme) option" where
  "low_level_input d =
     (if EMAC_CheckReceiveIndex (mac d)
      then do {
        lst \<leftarrow> EMAC_CheckReceiveDataStatus EMAC_RINFO_LAST_FLAG (mac d);
        (if \<not> lst then Some (None, d\<lparr>mac := EMAC_UpdateRxConsumeIndex (mac d)\<rparr>)
         else do {
           sz \<leftarrow> EMAC_GetReceiveDataSize (mac d);
           let n = (ucast (sz - 3) :: u16);
           bad \<leftarrow> EMAC_CheckReceiveDataStatus EMAC_RINFO_ERR_MASK (mac d);
           (if n > 1536 \<or> bad then Some (None, d\<lparr>mac := EMAC_UpdateRxConsumeIndex (mac d)\<rparr>)
            else do {
              rx \<leftarrow> EMAC_ReadPacketBuffer (ucast n) (Some (gRxBuf d)) (mac d);
              let rx = the rx;
              let d = d\<lparr>gRxBuf := rx, mac := EMAC_UpdateRxConsumeIndex (mac d)\<rparr>;
              (p, st) \<leftarrow> pbuf_alloc PBUF_RAW n PBUF_POOL (pm d);
              st \<leftarrow> (if p \<noteq> None then input_loop p 0 rx st else Some st);
              Some (p, d\<lparr>pm := st\<rparr>)
            })
         })
      }
      else Some (None, d))"

subsection \<open>The loops over the chain\<close>

lemma output_loop_spec:
  "packet st p xs \<Longrightarrow> n \<le> length tx \<Longrightarrow>
   output_loop p n tx st =
     (if n + lens xs \<le> length tx
      then Some (n + lens xs, take n tx @ packet_bytes st xs @ drop (n + lens xs) tx) else None)"
proof (induction xs arbitrary: p n tx)
  case Nil
  then show ?case by (subst output_loop.simps) simp
next
  case (Cons x xs)
  obtain a b where x: "x = (a, b)" by (cases x)
  have p: "p = Some a" "pbufs st a = Some b" "packet st (nextp b) xs"
    and rd: "read_at st (payload b) (unat (len b)) = Some (pbuf_bytes st b)"
    using Cons.prems x by (auto simp: pbuf_bytes_def)
  let ?bs = "pbuf_bytes st b"
  have l: "length ?bs = unat (len b)" by (rule read_at_length [OF rd])
  show ?case
  proof (cases "n + length ?bs \<le> length tx")
    case False
    then have "output_loop p n tx st = None" using p rd by (subst output_loop.simps) simp
    then show ?thesis using False l x by simp
  next
    case True
    let ?tx = "take n tx @ ?bs @ drop (n + length ?bs) tx"
    have "output_loop p n tx st = output_loop (nextp b) (n + length ?bs) ?tx st"
      using p rd True by (subst output_loop.simps) simp
    also have "\<dots> = (if n + length ?bs + lens xs \<le> length ?tx
        then Some (n + length ?bs + lens xs,
          take (n + length ?bs) ?tx @ packet_bytes st xs @ drop (n + length ?bs + lens xs) ?tx) else None)"
      using True by (intro Cons.IH [OF p(3)]) simp
    finally show ?thesis using True Cons.prems(2) l x by (simp add: min_def add_ac)
  qed
qed

lemma input_loop_spec:
  "packet st p xs \<Longrightarrow> owned xs \<Longrightarrow> unat n + lens xs \<le> length rx \<Longrightarrow> length rx < 65536 \<Longrightarrow>
   \<exists>st'. input_loop p n rx st = Some st' \<and> writes_only (areas xs) st st' \<and>
     packet_bytes st' xs = take (lens xs) (drop (unat n) rx)"
proof (induction xs arbitrary: p n st)
  case Nil
  then show ?case by (subst input_loop.simps) simp
next
  case (Cons x xs)
  obtain a b where x: "x = (a, b)" by (cases x)
  obtain i where i: "payload b = Some (PData a, i)" using Cons.prems x by auto
  have p: "p = Some a" "pbufs st a = Some b" "packet st (nextp b) xs" "a \<notin> fst ` set xs" "owned xs"
    and rd: "read_at st (payload b) (unat (len b)) \<noteq> None"
    using Cons.prems x by auto
  let ?c = "take (unat (len b)) (drop (unat n) rx)"
  have lc: "length ?c = unat (len b)" using Cons.prems(3) x by simp
  have nl: "unat (n + len b) = unat n + unat (len b)"
    using Cons.prems(3,4) x by (intro unat_plus_small) simp
  from write_pbuf [OF rd i, of 0 ?c] lc obtain st1 where st1:
    "write_at st (payload b) ?c = Some st1" "writes_only {PData a} st st1"
    "pbuf_bytes st1 b = ?c @ drop (length ?c) (pbuf_bytes st b)" by auto
  have b1: "pbuf_bytes st1 b = ?c" using st1(3) lc pbuf_bytes_length [OF rd] by simp
  have dj: "PData a \<notin> areas xs" using p(4) by (auto simp: areas_def)
  have "unat (n + len b) + lens xs \<le> length rx" using Cons.prems(3) x nl by simp
  from Cons.IH [OF writes_only_packet [OF st1(2) p(3)] p(5) this Cons.prems(4)]
  obtain st2 where st2: "input_loop (nextp b) (n + len b) rx st1 = Some st2" "writes_only (areas xs) st1 st2"
    "packet_bytes st2 xs = take (lens xs) (drop (unat (n + len b)) rx)" by auto
  have run: "input_loop p n rx st = Some st2"
    using p(1,2) st1(1) st2(1) Cons.prems(3) x by (subst input_loop.simps) simp
  have b2: "pbuf_bytes st2 b = pbuf_bytes st1 b"
    using writes_only_read [OF st2(2) dj] by (simp add: pbuf_bytes_def i)
  have "packet_bytes st2 (x # xs) = take (lens (x # xs)) (drop (unat n) rx)"
    unfolding packet_bytes_simps lens_simps x snd_conv take_add b2 b1 st2(3) nl drop_drop
    by (simp add: add.commute)
  moreover have "writes_only (areas (x # xs)) st st2"
    using writes_only_trans [OF writes_only_mono [OF st1(2)] writes_only_mono [OF st2(2)]] x by auto
  ultimately show ?case using run by blast
qed

subsection \<open>Sending a packet\<close>

lemma ethernet_send_full:
  "n \<noteq> 0 \<Longrightarrow> \<not> EMAC_CheckTransmitIndex st \<Longrightarrow> ethernet_send g (int n) st = Some (-1, st)"
  by (simp add: ethernet_send_def)

lemma ethernet_send_ok:
  assumes "tx_ok st" "EMAC_CheckTransmitIndex st" "1 \<le> n" "n \<le> 1536" "length g = 1536"
  shows "\<exists>st'. ethernet_send g (int n) st = Some (0, st') \<and> tx_put (n, g) st = Some st'"
proof -
  have "\<exists>st'. tx_put (n, g) st = Some st'" using tx_write [OF assms(1,3,4,5)] by auto
  then show ?thesis using assms by (auto simp: ethernet_send_def)
qed

lemma low_level_output_sends_ok:
  assumes "packet (pm d) p xs" "tx_ok (mac d)" "length (gTxBuf d) = 1536" "0 < lens xs"
  shows "if 1536 < lens xs then low_level_output p d = None
    else \<exists>d'. low_level_output p d = Some (ERR_OK, d') \<and> pm d' = pm d \<and>
      (length (tx_queue (mac d)) < 2 \<longrightarrow>
         tx_ok (mac d') \<and> tx_queue (mac d') = tx_queue (mac d) @ [packet_bytes (pm d) xs]) \<and>
      (length (tx_queue (mac d)) = 2 \<and> tx_cidx (mac d) \<noteq> 0 \<longrightarrow> mac d' = mac d)"
proof (cases "1536 < lens xs")
  case True
  then have "output_loop p 0 (gTxBuf d) (pm d) = None"
    using output_loop_spec [OF assms(1), of 0 "gTxBuf d"] assms(3) by simp
  then show ?thesis using True by (simp add: low_level_output_def)
next
  case False
  let ?n = "lens xs" and ?bs = "packet_bytes (pm d) xs"
  let ?tx = "?bs @ drop ?n (gTxBuf d)"
  have l: "length ?bs = ?n" by (rule packet_bytes_length [OF assms(1)])
  have tx: "length ?tx = 1536" "take ?n ?tx = ?bs" using False l assms(3) by simp_all
  have o: "output_loop p 0 (gTxBuf d) (pm d) = Some (?n, ?tx)"
    using output_loop_spec [OF assms(1), of 0 "gTxBuf d"] assms(3) False by simp
  have chk: "EMAC_CheckTransmitIndex (mac d) = (length (tx_queue (mac d)) < 2 \<or> tx_cidx (mac d) = 0)"
    unfolding tx_check_iff [OF assms(2)] length_tx_queue using tx_bounds [OF assms(2)] by auto
  show ?thesis
  proof (cases "EMAC_CheckTransmitIndex (mac d)")
    case F: False
    then have "low_level_output p d = Some (ERR_OK, d\<lparr>gTxBuf := ?tx, mac := mac d\<rparr>)"
      using o assms(4) by (simp add: low_level_output_def ethernet_send_full)
    then show ?thesis using False F chk by auto
  next
    case T: True
    obtain m where m: "ethernet_send ?tx (int ?n) (mac d) = Some (0, m)" "tx_put (?n, ?tx) (mac d) = Some m"
      using ethernet_send_ok [OF assms(2) T, of ?n ?tx] assms(4) False tx(1) by auto
    have run: "low_level_output p d = Some (ERR_OK, d\<lparr>gTxBuf := ?tx, mac := m\<rparr>)"
      using o m(1) by (simp add: low_level_output_def)
    have "tx_ok m \<and> tx_queue m = tx_queue (mac d) @ [?bs]" if "length (tx_queue (mac d)) < 2"
    proof -
      have "(tx_pidx (mac d) + 1) mod 3 \<noteq> tx_cidx (mac d)"
        using that tx_bounds [OF assms(2)] unfolding length_tx_queue by (auto simp: mod_Suc split: if_splits)
      from tx.queue_put [OF assms(2) _ this, of "(?n, ?tx)"] show ?thesis
        using m(2) assms(4) False tx by (auto simp: tx_queue_eq)
    qed
    then show ?thesis using run False T chk by auto
  qed
qed

text \<open>
  \<open>low_level_output\<close> queues the bytes of the whole chain, in order, as one frame behind those already
  waiting, and leaves the packet alone.  It reports \<open>ERR_OK\<close> also when the ring is full and the
  frame is dropped, and a packet longer than 1536 bytes overruns \<open>gTxBuf\<close>.
\<close>
lemma low_level_output_sends:
  assumes "packet (pm d) p xs" "tx_ok (mac d)" "length (gTxBuf d) = 1536" "0 < lens xs"
  shows "if 1536 < lens xs then low_level_output p d = None
    else \<exists>d'. low_level_output p d = Some (ERR_OK, d') \<and> pm d' = pm d \<and>
      (length (tx_queue (mac d)) < 2 \<longrightarrow>
         tx_ok (mac d') \<and> tx_queue (mac d') = tx_queue (mac d) @ [packet_bytes (pm d) xs]) \<and>
      (length (tx_queue (mac d)) = 2 \<and> tx_cidx (mac d) \<noteq> 0 \<longrightarrow> mac d' = mac d)"
  using assms by (rule low_level_output_sends_ok)

subsection \<open>Receiving a frame\<close>

text \<open>What the driver accepts: a complete frame without errors that fits the staging buffer.\<close>

definition frame_size :: "u32 \<Rightarrow> nat" where
  "frame_size info = unat (info AND EMAC_RINFO_SIZE)"

definition frame_good :: "u32 \<Rightarrow> bool" where
  "frame_good info \<longleftrightarrow> info AND EMAC_RINFO_LAST_FLAG \<noteq> 0 \<and> info AND EMAC_RINFO_ERR_MASK = 0 \<and>
     3 \<le> frame_size info \<and> frame_size info \<le> 1539"

lemma frame_size_less: "frame_size info < 2048"
proof -
  have "info AND EMAC_RINFO_SIZE = take_bit 11 info" by (simp add: take_bit_eq_mask mask_eq_exp_minus_1)
  then show ?thesis by (simp add: frame_size_def unat_take_bit_u32)
qed

lemma frame_len:
  fixes w :: u32
  assumes "unat w < 2048"
  shows "unat (ucast (w - 3) :: u16) = (if 3 \<le> unat w then unat w - 3 else unat w + 65533)"
proof (cases "3 \<le> unat w")
  case True
  then have "unat (w - 3) = unat w - 3" by (subst unat_minus_small) simp_all
  then show ?thesis using True assms by (simp add: unat_ucast_down)
next
  case False
  then have "w = 0 \<or> w = 1 \<or> w = 2" by (auto simp: word_unat_eq_iff)
  then show ?thesis
    by (elim disjE) (simp_all add: unat_ucast_down unsigned_minus_1_eq_mask mask_eq_exp_minus_1)
qed

lemma copy_words_any:
  assumes "n \<le> 1536" "length src = 1536" "length dst = 1536"
  shows "\<exists>b. copy_words (of_nat n) src dst = Some b \<and> length b = 1536 \<and> take n b = take n src"
proof (cases "n = 0")
  case True
  then show ?thesis using assms by (simp add: copy_words_def unat_drop_bit)
next
  case False
  then show ?thesis using copy_words_ok [of n src dst] assms by simp
qed

text \<open>The driver's part: the frame at the head of the ring goes to \<open>gRxBuf\<close>, or is dropped.\<close>

lemma low_level_input_step:
  assumes "rx_ok (mac d)" "length (gRxBuf d) = 1536" "rx_queue (mac d) = (info, frame) # rest"
  shows "rx_queue (EMAC_UpdateRxConsumeIndex (mac d)) = rest"
    "if frame_good info
     then \<exists>n rx. unat n = frame_size info - 3 \<and> unat n \<le> 1536 \<and> length rx = 1536 \<and> length frame = 1536 \<and>
       take (unat n) rx = take (unat n) frame \<and>
       low_level_input d = do {
         (p, st) \<leftarrow> pbuf_alloc PBUF_RAW n PBUF_POOL (pm d);
         st \<leftarrow> (if p \<noteq> None then input_loop p 0 rx st else Some st);
         Some (p, d\<lparr>gRxBuf := rx, mac := EMAC_UpdateRxConsumeIndex (mac d), pm := st\<rparr>)
       }
     else low_level_input d = Some (None, d\<lparr>mac := EMAC_UpdateRxConsumeIndex (mac d)\<rparr>)"
proof -
  have ne: "rx_pidx (mac d) \<noteq> rx_cidx (mac d)"
  proof
    assume "rx_pidx (mac d) = rx_cidx (mac d)"
    then show False using assms(3) by (simp add: rx_queue_def)
  qed
  let ?m = "EMAC_UpdateRxConsumeIndex (mac d)"
  have q: "rx_slot (mac d) (rx_cidx (mac d)) = (info, frame)" "rx_queue ?m = rest"
    using rx.queue_get(2) [OF assms(1) ne] assms(3) by (simp_all add: rx_queue_eq)
  show "rx_queue ?m = rest" by (rule q(2))
  have c: "rx_cidx (mac d) < 4" using assms(1) by (simp add: rx_ok_def)
  have chk: "EMAC_CheckReceiveIndex (mac d)"
    using ne by (auto simp: EMAC_CheckReceiveIndex_def rx_pidx_def rx_cidx_def)
  have stat: "EMAC_CheckReceiveDataStatus w (mac d) = Some (info AND w \<noteq> 0)" for w
    using q(1) c assms(1) by (simp add: EMAC_CheckReceiveDataStatus_def rx_slot_def rx_cidx_def rx_ok_def Let_def)
  have gsz: "EMAC_GetReceiveDataSize (mac d) = Some (info AND EMAC_RINFO_SIZE)"
    using q(1) c assms(1) by (simp add: EMAC_GetReceiveDataSize_def rx_slot_def rx_cidx_def rx_ok_def Let_def)
  let ?n = "ucast ((info AND EMAC_RINFO_SIZE) - 3) :: u16"
  have n: "unat ?n = (if 3 \<le> frame_size info then frame_size info - 3 else frame_size info + 65533)"
    using frame_len [of "info AND EMAC_RINFO_SIZE"] frame_size_less [of info] by (simp add: frame_size_def)
  have good: "frame_good info \<longleftrightarrow>
      info AND EMAC_RINFO_LAST_FLAG \<noteq> 0 \<and> \<not> (1536 < ?n \<or> info AND EMAC_RINFO_ERR_MASK \<noteq> 0)"
    using frame_size_less [of info] n by (auto simp: frame_good_def word_less_nat_alt)
  show "if frame_good info
     then \<exists>n rx. unat n = frame_size info - 3 \<and> unat n \<le> 1536 \<and> length rx = 1536 \<and> length frame = 1536 \<and>
       take (unat n) rx = take (unat n) frame \<and>
       low_level_input d = do {
         (p, st) \<leftarrow> pbuf_alloc PBUF_RAW n PBUF_POOL (pm d);
         st \<leftarrow> (if p \<noteq> None then input_loop p 0 rx st else Some st);
         Some (p, d\<lparr>gRxBuf := rx, mac := ?m, pm := st\<rparr>)
       }
     else low_level_input d = Some (None, d\<lparr>mac := ?m\<rparr>)"
  proof (cases "frame_good info")
    case False
    then show ?thesis using chk stat gsz good by (auto simp: low_level_input_def)
  next
    case True
    then have nn: "unat ?n = frame_size info - 3" "unat ?n \<le> 1536"
      using n by (auto simp: frame_good_def)
    have fl: "rx_buf (mac d) ! rx_cidx (mac d) = frame" "length frame = 1536"
      using q(1) rx_ok_nth(1) [OF assms(1) c] by (auto simp: rx_slot_def)
    obtain rx where rx: "copy_words (ucast ?n) frame (gRxBuf d) = Some rx" "length rx = 1536"
      "take (unat ?n) rx = take (unat ?n) frame"
      using copy_words_any [OF nn(2) fl(2) assms(2)] by auto
    have rd: "EMAC_ReadPacketBuffer (ucast ?n) (Some (gRxBuf d)) (mac d) = Some (Some rx)"
      using c rx_ok_nth [OF assms(1)] fl rx(1)
      by (simp add: EMAC_ReadPacketBuffer_def rx_cidx_def Let_def)
    have "low_level_input d = do {
        (p, st) \<leftarrow> pbuf_alloc PBUF_RAW ?n PBUF_POOL (pm d);
        st \<leftarrow> (if p \<noteq> None then input_loop p 0 rx st else Some st);
        Some (p, d\<lparr>gRxBuf := rx, mac := ?m, pm := st\<rparr>)
      }"
      using chk stat gsz good True rd by (auto simp: low_level_input_def Let_def split: if_splits cong: if_cong)
    then have "unat ?n = frame_size info - 3 \<and> unat ?n \<le> 1536 \<and> length rx = 1536 \<and> length frame = 1536 \<and>
       take (unat ?n) rx = take (unat ?n) frame \<and>
       low_level_input d = do {
         (p, st) \<leftarrow> pbuf_alloc PBUF_RAW ?n PBUF_POOL (pm d);
         st \<leftarrow> (if p \<noteq> None then input_loop p 0 rx st else Some st);
         Some (p, d\<lparr>gRxBuf := rx, mac := ?m, pm := st\<rparr>)
       }"
      using nn rx(2,3) fl(2) by blast
    then show ?thesis unfolding if_P [OF True] by - (rule exI, rule exI)
  qed
qed

lemma low_level_input_receives_ok:
  assumes "rx_ok (mac d)" "pool_ok (pm d)" "mem_ok (heap (pm d))" "length (gRxBuf d) = 1536"
  shows "case rx_queue (mac d) of
      [] \<Rightarrow> low_level_input d = Some (None, d)
    | (info, frame) # rest \<Rightarrow>
        if frame_good info \<and> pool_need PBUF_RAW (frame_size info - 3) \<le> length (pool_free (pm d))
        then \<exists>p d' xs. low_level_input d = Some (Some p, d') \<and> rx_queue (mac d') = rest \<and>
          packet (pm d') (Some p) xs \<and> packet_bytes (pm d') xs = take (frame_size info - 3) frame
        else \<exists>d'. low_level_input d = Some (None, d') \<and> rx_queue (mac d') = rest \<and>
          pbufs (pm d') = pbufs (pm d) \<and> mset (pool_free (pm d')) = mset (pool_free (pm d))"
proof (cases "rx_queue (mac d)")
  case Nil
  have "rx_pidx (mac d) = rx_cidx (mac d)"
  proof (rule ccontr)
    assume "rx_pidx (mac d) \<noteq> rx_cidx (mac d)"
    from rx.queue_get(2) [OF assms(1) this] Nil show False by (simp add: rx_queue_eq)
  qed
  then have "\<not> EMAC_CheckReceiveIndex (mac d)"
    by (simp add: EMAC_CheckReceiveIndex_def rx_pidx_def rx_cidx_def word_unat_eq_iff)
  then show ?thesis using Nil by (simp add: low_level_input_def)
next
  case (Cons x rest)
  obtain info frame where x: "x = (info, frame)" by (cases x)
  note step = low_level_input_step [OF assms(1,4) Cons [unfolded x]]
  show ?thesis
  proof (cases "frame_good info")
    case False
    then show ?thesis using Cons x step by auto
  next
    case True
    then obtain n rx where n: "unat n = frame_size info - 3" "unat n \<le> 1536" "length rx = 1536"
      "take (unat n) rx = take (unat n) frame"
      and run: "low_level_input d = do {
        (p, st) \<leftarrow> pbuf_alloc PBUF_RAW n PBUF_POOL (pm d);
        st \<leftarrow> (if p \<noteq> None then input_loop p 0 rx st else Some st);
        Some (p, d\<lparr>gRxBuf := rx, mac := EMAC_UpdateRxConsumeIndex (mac d), pm := st\<rparr>)
      }"
      using step(2) by auto
    note A = pbuf_alloc_pool_ok [OF assms(2,3), of PBUF_RAW n, unfolded n(1)]
    show ?thesis
    proof (cases "pool_need PBUF_RAW (frame_size info - 3) \<le> length (pool_free (pm d))")
      case False
      then obtain st' where st': "pbuf_alloc PBUF_RAW n PBUF_POOL (pm d) = Some (None, st')"
        "pbufs st' = pbufs (pm d)" "mset (pool_free st') = mset (pool_free (pm d))"
        using A by auto
      then show ?thesis using Cons x False step(1) run by auto
    next
      case T: True
      then obtain p xs st' where al: "pbuf_alloc PBUF_RAW n PBUF_POOL (pm d) = Some (Some p, st')"
        "packet st' (Some p) xs" "lens xs = frame_size info - 3"
        "fresh_pool st' (headroom PBUF_RAW) (hd xs)" "\<forall>x \<in> set (tl xs). fresh_pool st' 0 x"
        using A by auto
      have xs: "set xs = insert (hd xs) (set (tl xs))" using al(2) by (cases xs) auto
      have "owned xs" unfolding owned_def xs using al(4,5) by (auto simp: fresh_pool_def)
      then obtain st2 where st2: "input_loop (Some p) 0 rx st' = Some st2" "writes_only (areas xs) st' st2"
        "packet_bytes st2 xs = take (lens xs) rx"
        using input_loop_spec [OF al(2), of 0 rx] al(3) n by auto
      have "packet st2 (Some p) xs" by (rule writes_only_packet [OF st2(2) al(2)])
      moreover have "packet_bytes st2 xs = take (frame_size info - 3) frame"
        using st2(3) al(3) n by simp
      ultimately show ?thesis using Cons x True T step(1) run al(1) st2(1) by auto
    qed
  qed
qed

text \<open>
  \<open>low_level_input\<close> takes exactly one frame off the receive ring.  A complete, error-free frame of at
  most 1536 bytes arrives as a fresh packet holding its bytes without the four of the CRC, when the pool
  has the elements for it; otherwise \<open>NULL\<close> is returned, the frame is gone, and no pbuf is lost.
  With an empty ring nothing changes.
\<close>
lemma low_level_input_receives:
  assumes "rx_ok (mac d)" "pool_ok (pm d)" "mem_ok (heap (pm d))" "length (gRxBuf d) = 1536"
  shows "case rx_queue (mac d) of
      [] \<Rightarrow> low_level_input d = Some (None, d)
    | (info, frame) # rest \<Rightarrow>
        if frame_good info \<and> pool_need PBUF_RAW (frame_size info - 3) \<le> length (pool_free (pm d))
        then \<exists>p d' xs. low_level_input d = Some (Some p, d') \<and> rx_queue (mac d') = rest \<and>
          packet (pm d') (Some p) xs \<and> packet_bytes (pm d') xs = take (frame_size info - 3) frame
        else \<exists>d'. low_level_input d = Some (None, d') \<and> rx_queue (mac d') = rest \<and>
          pbufs (pm d') = pbufs (pm d) \<and> mset (pool_free (pm d')) = mset (pool_free (pm d))"
  using assms by (rule low_level_input_receives_ok)

subsection \<open>A concrete device\<close>

definition dev_sample :: dev where
  "dev_sample =
     \<lparr>mac = emac_sample\<lparr>regs := (\<lambda>_. 0)(RxProduceIndex := 1),
                         Rx_Stat := replicate 4 \<lparr>Info = 0x4000003F, HashCRC = 0\<rparr>\<rparr>,
      pm = pmem_init, gTxBuf = replicate 1536 0, gRxBuf = replicate 1536 0,
      nif = \<lparr>ip_addr = IP4_ADDR 192 1 1 168, netmask = IP4_ADDR 255 255 255 0, gw = IP4_ADDR 192 1 1 1,
             inputf = Some Ethernet_input, outputf = Some Etharp_output, linkoutput = Some Low_level_output,
             nstate = None, hwaddr_len = 6, hwaddr = ETHADDR, mtu = 1536,
             nflags = NETIF_FLAG_BROADCAST OR NETIF_FLAG_ETHARP OR NETIF_FLAG_LINK_UP OR NETIF_FLAG_UP,
             nname = (0x57, 0x42), nnum = 0\<rparr>,
      PINSEL2 = 0, PINSEL3 = 0, nvic = True\<rparr>"

lemma dev_sample_ok: "rx_ok (mac dev_sample)" "tx_ok (mac dev_sample)" "pool_ok (pm dev_sample)"
  "mem_ok (heap (pm dev_sample))" "length (gRxBuf dev_sample) = 1536" "length (gTxBuf dev_sample) = 1536"
  using pmem_init_ok
  by (simp_all add: dev_sample_def rx_ok_def tx_ok_def emac_sample_def rx_pidx_def rx_cidx_def tx_pidx_def
      tx_cidx_def comp_def)

end
