(* ===== verification/Header.thy ===== *)
theory Header
  imports Pbuf_Props
begin

text \<open>
  Protocol headers.  The stack reads and writes a header through the payload pointer of the first pbuf
  of a packet: \<open>get_bytes\<close> and \<open>put_bytes\<close> access the packed structure at an offset, \<open>get_u16\<close> and
  \<open>get_u32\<close> read a field as the little-endian CPU loads it.  \<open>splice\<close> is the effect on the bytes.
\<close>

definition get_bytes :: "pmem \<Rightarrow> addr \<Rightarrow> nat \<Rightarrow> nat \<Rightarrow> u8 list option" where
  "get_bytes st p off n = do { b \<leftarrow> pbufs st p; read_at st (ptr_add (payload b) (int off)) n }"

definition put_bytes :: "addr \<Rightarrow> nat \<Rightarrow> u8 list \<Rightarrow> pmem \<Rightarrow> pmem option" where
  "put_bytes p off bs st = do { b \<leftarrow> pbufs st p; write_at st (ptr_add (payload b) (int off)) bs }"

definition get_u8 :: "pmem \<Rightarrow> addr \<Rightarrow> nat \<Rightarrow> u8 option" where
  "get_u8 st p off = map_option (\<lambda>bs. bs ! 0) (get_bytes st p off 1)"

definition get_u16 :: "pmem \<Rightarrow> addr \<Rightarrow> nat \<Rightarrow> u16 option" where
  "get_u16 st p off = map_option (\<lambda>bs. u16_of_bytes (bs ! 0) (bs ! 1)) (get_bytes st p off 2)"

definition get_u32 :: "pmem \<Rightarrow> addr \<Rightarrow> nat \<Rightarrow> u32 option" where
  "get_u32 st p off = map_option (\<lambda>bs. u32_of_bytes (bs ! 0) (bs ! 1) (bs ! 2) (bs ! 3)) (get_bytes st p off 4)"

subsection \<open>Headers in the bytes of a pbuf\<close>

definition splice :: "nat \<Rightarrow> 'b list \<Rightarrow> 'b list \<Rightarrow> 'b list" where
  "splice off bs xs = take off xs @ bs @ drop (off + length bs) xs"

lemma length_splice [simp]: "off + length bs \<le> length xs \<Longrightarrow> length (splice off bs xs) = length xs"
  by (simp add: splice_def)

lemma splice_same [simp]: "off + length bs \<le> length xs \<Longrightarrow> take (length bs) (drop off (splice off bs xs)) = bs"
  by (simp add: splice_def)

lemma take_drop_splice:
  "a + n \<le> off \<or> off + length bs \<le> a \<Longrightarrow> off + length bs \<le> length xs \<Longrightarrow>
   take n (drop a (splice off bs xs)) = take n (drop a xs)"
  by (auto simp: splice_def min_def drop_take)

text \<open>\<open>field xs off n\<close>: \<open>n\<close> bytes at offset \<open>off\<close>; the 16- and 32-bit fields of a header.\<close>

definition field :: "'b list \<Rightarrow> nat \<Rightarrow> nat \<Rightarrow> 'b list" where
  "field xs off n = take n (drop off xs)"

definition field16 :: "u8 list \<Rightarrow> nat \<Rightarrow> u16" where
  "field16 xs off = u16_of_bytes (xs ! off) (xs ! (off + 1))"

definition field32 :: "u8 list \<Rightarrow> nat \<Rightarrow> u32" where
  "field32 xs off = u32_of_bytes (xs ! off) (xs ! (off + 1)) (xs ! (off + 2)) (xs ! (off + 3))"

text \<open>The payload of pbuf \<open>p\<close> is in its own data area and holds \<open>xs\<close>.\<close>

definition holds :: "pmem \<Rightarrow> addr \<Rightarrow> u8 list \<Rightarrow> bool" where
  "holds st p xs \<longleftrightarrow> (\<exists>b i. pbufs st p = Some b \<and> payload b = Some (PData p, i) \<and>
     read_at st (payload b) (unat (len b)) = Some xs)"

lemma holds_get: "holds st p xs \<Longrightarrow> off + n \<le> length xs \<Longrightarrow> get_bytes st p off n = Some (field xs off n)"
proof -
  assume h: "holds st p xs" and n: "off + n \<le> length xs"
  then obtain b i where b: "pbufs st p = Some b" "read_at st (payload b) (unat (len b)) = Some xs"
    by (auto simp: holds_def)
  have "off + n \<le> unat (len b)" using read_at_length [OF b(2)] n by simp
  from read_at_part [OF b(2) this] show ?thesis using b(1) by (simp add: get_bytes_def field_def)
qed

lemma holds_get8: "holds st p xs \<Longrightarrow> off < length xs \<Longrightarrow> get_u8 st p off = Some (xs ! off)"
  by (simp add: get_u8_def holds_get field_def)

lemma holds_get16: "holds st p xs \<Longrightarrow> off + 2 \<le> length xs \<Longrightarrow> get_u16 st p off = Some (field16 xs off)"
  by (simp add: get_u16_def holds_get field_def field16_def)

lemma holds_get32: "holds st p xs \<Longrightarrow> off + 4 \<le> length xs \<Longrightarrow> get_u32 st p off = Some (field32 xs off)"
  by (simp add: get_u32_def holds_get field_def field32_def)

lemma holds_put:
  assumes "holds st p xs" "off + length bs \<le> length xs"
  shows "\<exists>st'. put_bytes p off bs st = Some st' \<and> writes_only {PData p} st st' \<and> holds st' p (splice off bs xs)"
proof -
  obtain b i where b: "pbufs st p = Some b" "payload b = Some (PData p, i)"
    "read_at st (payload b) (unat (len b)) = Some xs"
    using assms(1) by (auto simp: holds_def)
  have l: "length xs = unat (len b)" by (rule read_at_length [OF b(3)])
  obtain st' where st': "write_at st (ptr_add (payload b) (int off)) bs = Some st'" "writes_only {PData p} st st'"
    "pbuf_bytes st' b = take off (pbuf_bytes st b) @ bs @ drop (off + length bs) (pbuf_bytes st b)"
    using write_pbuf [OF _ b(2), of st off bs] b(3) assms(2) l by auto
  have r: "read_at st' (payload b) (unat (len b)) \<noteq> None" using writes_only_readable [OF st'(2)] b(3) by auto
  have "pbufs st' p = Some b" using st'(2) b(1) by (simp add: writes_only_def)
  then have "holds st' p (splice off bs xs)"
    using r b st'(3) by (auto simp: holds_def pbuf_bytes_def splice_def)
  then show ?thesis using st'(1,2) b(1) by (auto simp: put_bytes_def)
qed

lemma holds_other: "writes_only R st st' \<Longrightarrow> PData p \<notin> R \<Longrightarrow> holds st p xs \<Longrightarrow> holds st' p xs"
  unfolding holds_def using writes_only_read [of R st st' "PData p"]
  by (elim exE conjE) (rule exI, rule exI, auto simp: writes_only_def)

lemma holds_upd [simp]: "holds (st\<lparr>pools := pl\<rparr>) p xs = holds st p xs" "holds (st\<lparr>heap := h\<rparr>) p xs = holds st p xs"
  by (simp_all add: holds_def)

lemma packet_holds:
  assumes "packet st (Some p) ((p, b) # xs)" "owned [(p, b)]"
  shows "holds st p (pbuf_bytes st b)"
  using assms by (auto simp: holds_def owned_def pbuf_bytes_def)

subsection \<open>A memory with one received frame\<close>

definition rx_addr :: addr where "rx_addr = PoolA MEMP_PBUF_POOL 0"

definition rx_pbuf :: "u8 list \<Rightarrow> pbuf" where
  "rx_pbuf bs = \<lparr>nextp = None, payload = Some (PData rx_addr, 0), tot_len = of_nat (length bs),
     len = of_nat (length bs), ptype = PBUF_POOL, flags = 0, ref = 1\<rparr>"

definition rx_pmem :: "u8 list \<Rightarrow> pmem" where
  "rx_pmem bs = pmem_init\<lparr>pools := memp_init(MEMP_PBUF_POOL := [1..<10]), pbufs := [rx_addr \<mapsto> rx_pbuf bs],
     bytes := (bytes pmem_init)(PData rx_addr \<mapsto> bs @ replicate (1500 - length bs) 0)\<rparr>"

lemma rx_pmem_facts:
  assumes "length bs \<le> 1500"
  shows "packet (rx_pmem bs) (Some rx_addr) [(rx_addr, rx_pbuf bs)]" "owned [(rx_addr, rx_pbuf bs)]"
    "unat (len (rx_pbuf bs)) = length bs" "packet_bytes (rx_pmem bs) [(rx_addr, rx_pbuf bs)] = bs"
    "\<forall>x \<in> set [(rx_addr, rx_pbuf bs)]. backed (rx_pmem bs) x \<and> ref (snd x) = 1" "mem_ok (heap (rx_pmem bs))"
    "holds (rx_pmem bs) rx_addr bs" "pool_ok (rx_pmem bs)"
proof -
  have n: "unat (of_nat (length bs) :: u16) = length bs" using assms by (simp add: unat_of_nat_lt)
  have r: "read_at (rx_pmem bs) (payload (rx_pbuf bs)) (length bs) = Some bs"
    using assms by (simp add: read_at_def rx_pmem_def rx_pbuf_def)
  show "packet (rx_pmem bs) (Some rx_addr) [(rx_addr, rx_pbuf bs)]" "unat (len (rx_pbuf bs)) = length bs"
    "packet_bytes (rx_pmem bs) [(rx_addr, rx_pbuf bs)] = bs"
    using n r by (simp_all add: pbuf_bytes_def) (simp_all add: rx_pmem_def rx_pbuf_def)
  show "owned [(rx_addr, rx_pbuf bs)]" "\<forall>x \<in> set [(rx_addr, rx_pbuf bs)]. backed (rx_pmem bs) x \<and> ref (snd x) = 1"
    by (simp_all add: rx_pbuf_def backed_def rx_addr_def)
  show "mem_ok (heap (rx_pmem bs))" using pmem_init_ok(2) by (simp add: rx_pmem_def)
  show "holds (rx_pmem bs) rx_addr bs"
    using n r unfolding holds_def by (intro exI [of _ "rx_pbuf bs"] exI [of _ 0]) (simp add: rx_pmem_def rx_pbuf_def)
  show "pool_ok (rx_pmem bs)"
    by (auto simp: pool_ok_def rx_pmem_def rx_addr_def pmem_init_def)
qed

end
