(* ===== verification/Etharp.thy ===== *)
theory Etharp
  imports Ethernetif Header
begin

text \<open>
  \<open>netif/etharp.c\<close>: the ARP cache.  \<open>arp\<close> adds the table and the cached index to the device.  The queue of
  an entry is the list of its \<open>struct etharp_q_entry\<close>s, each the pool element it lives in and the
  packet it holds.  Only SNMP reads the \<open>netif\<close> field of an entry, so it is left out.  Packets are the
  pbufs of \<open>Pbuf\<close>: headers are read and written through their payload pointers.
\<close>

subsection \<open>The table\<close>

datatype etharp_state = ETHARP_STATE_EMPTY | ETHARP_STATE_PENDING | ETHARP_STATE_STABLE

record etharp_entry =
  equeue :: "(nat \<times> addr) list"
  eip :: u32
  eeth :: "u8 list"
  estate :: etharp_state
  ctime :: u8

record arp = dev +
  arp_table :: "etharp_entry list"
  etharp_cached_entry :: nat

abbreviation (input) ARP_TABLE_SIZE :: nat where "ARP_TABLE_SIZE \<equiv> 10"
abbreviation (input) ARP_MAXAGE :: u8 where "ARP_MAXAGE \<equiv> 240"
abbreviation (input) ARP_MAXPENDING :: u8 where "ARP_MAXPENDING \<equiv> 2"
abbreviation (input) ETHARP_TRY_HARD :: u8 where "ETHARP_TRY_HARD \<equiv> 1"
abbreviation (input) ETHARP_FIND_ONLY :: u8 where "ETHARP_FIND_ONLY \<equiv> 2"
abbreviation (input) ETHTYPE_ARP :: u16 where "ETHTYPE_ARP \<equiv> 0x0806"
abbreviation (input) ETHTYPE_IP :: u16 where "ETHTYPE_IP \<equiv> 0x0800"

definition ethbroadcast :: "u8 list" where "ethbroadcast = replicate 6 0xff"
definition ethzero :: "u8 list" where "ethzero = replicate 6 0"

definition upd_entry :: "nat \<Rightarrow> (etharp_entry \<Rightarrow> etharp_entry) \<Rightarrow> 'a arp_scheme \<Rightarrow> 'a arp_scheme" where
  "upd_entry i f d = d\<lparr>arp_table := (arp_table d)[i := f (arp_table d ! i)]\<rparr>"

fun free_etharp_q :: "(nat \<times> addr) list \<Rightarrow> pmem \<Rightarrow> pmem option" where
  "free_etharp_q [] st = Some st"
| "free_etharp_q ((r, p) # qs) st = do {
     (_, st) \<leftarrow> pbuf_free (Some p) st;
     free_etharp_q qs (st\<lparr>pools := memp_free MEMP_ARP_QUEUE (Some r) (pools st)\<rparr>)
   }"

subsection \<open>Timer\<close>

definition arp_expired :: "etharp_entry \<Rightarrow> bool" where
  "arp_expired e \<longleftrightarrow> estate e = ETHARP_STATE_STABLE \<and> ctime e \<ge> ARP_MAXAGE \<or>
     estate e = ETHARP_STATE_PENDING \<and> ctime e \<ge> ARP_MAXPENDING"

fun tmr_loop :: "nat list \<Rightarrow> 'a arp_scheme \<Rightarrow> 'a arp_scheme option" where
  "tmr_loop [] d = Some d"
| "tmr_loop (i # is) d = do {
     let d = upd_entry i (\<lambda>e. e\<lparr>ctime := ctime e + 1\<rparr>) d;
     d \<leftarrow> (if arp_expired (arp_table d ! i)
          then do {
            d \<leftarrow> (if equeue (arp_table d ! i) \<noteq> []
                 then do {
                   st \<leftarrow> free_etharp_q (equeue (arp_table d ! i)) (pm d);
                   Some (upd_entry i (\<lambda>e. e\<lparr>equeue := []\<rparr>) (d\<lparr>pm := st\<rparr>))
                 }
                 else Some d);
            Some (upd_entry i (\<lambda>e. e\<lparr>estate := ETHARP_STATE_EMPTY\<rparr>) d)
          }
          else Some d);
     tmr_loop is d
   }"

definition etharp_tmr :: "'a arp_scheme \<Rightarrow> 'a arp_scheme option" where
  "etharp_tmr d = tmr_loop [0..<ARP_TABLE_SIZE] d"

subsection \<open>Finding an entry\<close>

text \<open>The candidates the sweep of \<open>find_entry\<close> remembers; 10 is "none".\<close>

record cand =
  old_pending :: nat
  old_stable :: nat
  empty_idx :: nat
  old_queue :: nat
  age_pending :: u8
  age_stable :: u8
  age_queue :: u8

definition no_cand :: cand where
  "no_cand = \<lparr>old_pending = ARP_TABLE_SIZE, old_stable = ARP_TABLE_SIZE, empty_idx = ARP_TABLE_SIZE,
     old_queue = ARP_TABLE_SIZE, age_pending = 0, age_stable = 0, age_queue = 0\<rparr>"

fun find_sweep :: "u32 option \<Rightarrow> etharp_entry list \<Rightarrow> nat \<Rightarrow> cand \<Rightarrow> nat + cand" where
  "find_sweep ip [] i c = Inr c"
| "find_sweep ip (e # es) i c =
     (if empty_idx c = ARP_TABLE_SIZE \<and> estate e = ETHARP_STATE_EMPTY
      then find_sweep ip es (i + 1) (c\<lparr>empty_idx := i\<rparr>)
      else if estate e = ETHARP_STATE_PENDING
      then if ip = Some (eip e) then Inl i
           else if equeue e \<noteq> []
           then if ctime e \<ge> age_queue c
                then find_sweep ip es (i + 1) (c\<lparr>old_queue := i, age_queue := ctime e\<rparr>)
                else find_sweep ip es (i + 1) c
           else if ctime e \<ge> age_pending c
                then find_sweep ip es (i + 1) (c\<lparr>old_pending := i, age_pending := ctime e\<rparr>)
                else find_sweep ip es (i + 1) c
      else if estate e = ETHARP_STATE_STABLE
      then if ip = Some (eip e) then Inl i
           else if ctime e \<ge> age_stable c
                then find_sweep ip es (i + 1) (c\<lparr>old_stable := i, age_stable := ctime e\<rparr>)
                else find_sweep ip es (i + 1) c
      else find_sweep ip es (i + 1) c)"

text \<open>The choice of the entry to recycle, and its reset.  \<open>None\<close> stands for \<open>(s8_t)ERR_MEM\<close>.\<close>

definition select_entry :: "cand \<Rightarrow> 'a arp_scheme \<Rightarrow> (nat option \<times> 'a arp_scheme) option" where
  "select_entry c d =
     (if empty_idx c < ARP_TABLE_SIZE then Some (Some (empty_idx c), d)
      else if old_stable c < ARP_TABLE_SIZE then Some (Some (old_stable c), d)
      else if old_pending c < ARP_TABLE_SIZE then Some (Some (old_pending c), d)
      else if old_queue c < ARP_TABLE_SIZE
      then do {
        st \<leftarrow> free_etharp_q (equeue (arp_table d ! old_queue c)) (pm d);
        Some (Some (old_queue c), upd_entry (old_queue c) (\<lambda>e. e\<lparr>equeue := []\<rparr>) (d\<lparr>pm := st\<rparr>))
      }
      else Some (None, d))"

definition reset_entry :: "nat \<Rightarrow> u32 option \<Rightarrow> 'a arp_scheme \<Rightarrow> 'a arp_scheme" where
  "reset_entry i ip d =
     (let d = upd_entry i (\<lambda>e. e\<lparr>estate := ETHARP_STATE_EMPTY\<rparr>) d;
          d = (case ip of None \<Rightarrow> d | Some a \<Rightarrow> upd_entry i (\<lambda>e. e\<lparr>eip := a\<rparr>) d);
          d = upd_entry i (\<lambda>e. e\<lparr>ctime := 0\<rparr>) d
      in d\<lparr>etharp_cached_entry := i\<rparr>)"

definition cache_hit :: "u32 option \<Rightarrow> 'a arp_scheme \<Rightarrow> bool" where
  "cache_hit ip d \<longleftrightarrow>
     (let e = arp_table d ! etharp_cached_entry d
      in ip \<noteq> None \<and> estate e = ETHARP_STATE_STABLE \<and> ip = Some (eip e))"

definition find_entry :: "u32 option \<Rightarrow> u8 \<Rightarrow> 'a arp_scheme \<Rightarrow> (nat option \<times> 'a arp_scheme) option" where
  "find_entry ip flgs d =
     (if cache_hit ip d then Some (Some (etharp_cached_entry d), d)
      else case find_sweep ip (arp_table d) 0 no_cand of
        Inl i \<Rightarrow> Some (Some i, d\<lparr>etharp_cached_entry := i\<rparr>)
      | Inr c \<Rightarrow>
          if empty_idx c = ARP_TABLE_SIZE \<and> flgs AND ETHARP_TRY_HARD = 0 \<or> flgs AND ETHARP_FIND_ONLY \<noteq> 0
          then Some (None, d)
          else do {
            (i, d) \<leftarrow> select_entry c d;
            Some (i, case i of None \<Rightarrow> d | Some i \<Rightarrow> reset_entry i ip d)
          })"

definition etharp_find_addr :: "u32 \<Rightarrow> 'a arp_scheme \<Rightarrow> ((nat \<times> u8 list \<times> u32) option \<times> 'a arp_scheme) option" where
  "etharp_find_addr ip d = do {
     (i, d) \<leftarrow> find_entry (Some ip) ETHARP_FIND_ONLY d;
     Some (case i of
             None \<Rightarrow> None
           | Some i \<Rightarrow>
               let e = arp_table d ! i
               in if estate e = ETHARP_STATE_STABLE then Some (i, eeth e, eip e) else None, d)
   }"

subsection \<open>Sending\<close>

text \<open>\<open>netif->linkoutput(netif, p)\<close>; a call through another pointer is undefined.\<close>

definition link_output :: "addr \<Rightarrow> 'a arp_scheme \<Rightarrow> (err_t \<times> 'a arp_scheme) option" where
  "link_output p d =
     (if linkoutput (nif d) = Some Low_level_output then low_level_output (Some p) d else None)"

definition etharp_send_ip :: "addr \<Rightarrow> u8 list \<Rightarrow> u8 list \<Rightarrow> 'a arp_scheme \<Rightarrow> (err_t \<times> 'a arp_scheme) option" where
  "etharp_send_ip p src dst d = do {
     st \<leftarrow> put_bytes p 0 (dst @ src @ bytes_of_u16 (htons ETHTYPE_IP)) (pm d);
     link_output p (d\<lparr>pm := st\<rparr>)
   }"

text \<open>The loop that sends the queue of entry \<open>i\<close>.\<close>

fun send_queue :: "nat \<Rightarrow> u8 list \<Rightarrow> (nat \<times> addr) list \<Rightarrow> 'a arp_scheme \<Rightarrow> 'a arp_scheme option" where
  "send_queue i eth [] d = Some d"
| "send_queue i eth ((r, p) # qs) d = do {
     let d = upd_entry i (\<lambda>e. e\<lparr>equeue := qs\<rparr>) d;
     let d = d\<lparr>pm := (pm d)\<lparr>pools := memp_free MEMP_ARP_QUEUE (Some r) (pools (pm d))\<rparr>\<rparr>;
     (_, d) \<leftarrow> etharp_send_ip p (hwaddr (nif d)) eth d;
     (_, st) \<leftarrow> pbuf_free (Some p) (pm d);
     send_queue i eth qs (d\<lparr>pm := st\<rparr>)
   }"

definition update_arp_entry :: "u32 \<Rightarrow> u8 list \<Rightarrow> u8 \<Rightarrow> 'a arp_scheme \<Rightarrow> (err_t \<times> 'a arp_scheme) option" where
  "update_arp_entry ip eth flgs d =
     (if ip = 0 \<or> ip_addr_isbroadcast ip (nif d) \<noteq> 0 \<or> ip_addr_ismulticast ip then Some (ERR_ARG, d)
      else do {
        (i, d) \<leftarrow> find_entry (Some ip) flgs d;
        (case i of
           None \<Rightarrow> Some (ERR_MEM, d)
         | Some i \<Rightarrow> do {
             let d = upd_entry i (\<lambda>e. e\<lparr>estate := ETHARP_STATE_STABLE\<rparr>) d;
             let d = upd_entry i (\<lambda>e. e\<lparr>eeth := eth\<rparr>) d;
             let d = upd_entry i (\<lambda>e. e\<lparr>ctime := 0\<rparr>) d;
             d \<leftarrow> send_queue i eth (equeue (arp_table d ! i)) d;
             Some (ERR_OK, d)
           })
      })"

definition etharp_raw :: "u8 list \<Rightarrow> u8 list \<Rightarrow> u8 list \<Rightarrow> u32 \<Rightarrow> u8 list \<Rightarrow> u32 \<Rightarrow> u16 \<Rightarrow> 'a arp_scheme \<Rightarrow>
    (err_t \<times> 'a arp_scheme) option" where
  "etharp_raw ethsrc_addr ethdst_addr hwsrc_addr ipsrc_addr hwdst_addr ipdst_addr opcode d = do {
     (p, st) \<leftarrow> pbuf_alloc PBUF_RAW 42 PBUF_RAM (pm d);
     let d = d\<lparr>pm := st\<rparr>;
     (case p of
        None \<Rightarrow> Some (ERR_MEM, d)
      | Some p \<Rightarrow> do {
          st \<leftarrow> put_bytes p 0
            (ethdst_addr @ ethsrc_addr @ bytes_of_u16 (htons ETHTYPE_ARP) @
             bytes_of_u16 (htons 1) @ bytes_of_u16 (htons ETHTYPE_IP) @ bytes_of_u16 (htons 0x0604) @
             bytes_of_u16 (htons opcode) @ hwsrc_addr @ bytes_of_u32 ipsrc_addr @ hwdst_addr @ bytes_of_u32 ipdst_addr)
            (pm d);
          (result, d) \<leftarrow> link_output p (d\<lparr>pm := st\<rparr>);
          (_, st) \<leftarrow> pbuf_free (Some p) (pm d);
          Some (result, d\<lparr>pm := st\<rparr>)
        })
   }"

definition etharp_request :: "u32 \<Rightarrow> 'a arp_scheme \<Rightarrow> (err_t \<times> 'a arp_scheme) option" where
  "etharp_request ip d =
     etharp_raw (hwaddr (nif d)) ethbroadcast (hwaddr (nif d)) (ip_addr (nif d)) ethzero ip 1 d"

subsection \<open>Queries and output\<close>

text \<open>\<open>while (p) \<dots> if (p->type != PBUF_ROM) \<dots>\<close>: the first pbuf that is not in ROM.\<close>

partial_function (option) first_not_rom :: "addr option \<Rightarrow> pmem \<Rightarrow> addr option option" where
  "first_not_rom p st =
     (case p of
        None \<Rightarrow> Some None
      | Some a \<Rightarrow>
          (case pbufs st a of
             None \<Rightarrow> None
           | Some b \<Rightarrow> if ptype b \<noteq> PBUF_ROM then Some (Some a) else first_not_rom (nextp b) st))"

text \<open>The packet to queue: a copy in \<open>PBUF_RAM\<close>, or a packet in ROM with one more reference.\<close>

definition take_over :: "addr \<Rightarrow> pmem \<Rightarrow> (addr option \<times> pmem) option" where
  "take_over pkt st = do {
     r \<leftarrow> first_not_rom (Some pkt) st;
     (case r of
        None \<Rightarrow> do { st \<leftarrow> pbuf_ref (Some pkt) st; Some (Some pkt, st) }
      | Some p \<Rightarrow> do {
          b \<leftarrow> pbufs st p;
          (p, st) \<leftarrow> pbuf_alloc PBUF_RAW (tot_len b) PBUF_RAM st;
          (if p \<noteq> None
           then do {
             (e, st) \<leftarrow> pbuf_copy p (Some pkt) st;
             (if e \<noteq> ERR_OK then do { (_, st) \<leftarrow> pbuf_free p st; Some (None, st) } else Some (p, st))
           }
           else Some (None, st))
        })
   }"

definition queue_packet :: "nat \<Rightarrow> addr \<Rightarrow> err_t \<Rightarrow> 'a arp_scheme \<Rightarrow> (err_t \<times> 'a arp_scheme) option" where
  "queue_packet i pkt result d = do {
     (p, st) \<leftarrow> take_over pkt (pm d);
     (case p of
        None \<Rightarrow> Some (result, d\<lparr>pm := st\<rparr>)
      | Some p \<Rightarrow>
          (case memp_malloc MEMP_ARP_QUEUE (pools st) of
             (Some r, pl) \<Rightarrow>
               Some (ERR_OK, upd_entry i (\<lambda>e. e\<lparr>equeue := equeue e @ [(r, p)]\<rparr>) (d\<lparr>pm := st\<lparr>pools := pl\<rparr>\<rparr>))
           | (None, pl) \<Rightarrow> do {
               (_, st) \<leftarrow> pbuf_free (Some p) (st\<lparr>pools := pl\<rparr>);
               Some (result, d\<lparr>pm := st\<rparr>)
             }))
   }"

text \<open>What \<open>etharp_query\<close> does with the entry it found or made.\<close>

definition query_entry :: "nat \<Rightarrow> u32 \<Rightarrow> addr option \<Rightarrow> 'a arp_scheme \<Rightarrow> (err_t \<times> 'a arp_scheme) option" where
  "query_entry i ip pkt d = do {
     let d = (if estate (arp_table d ! i) = ETHARP_STATE_EMPTY
              then upd_entry i (\<lambda>e. e\<lparr>estate := ETHARP_STATE_PENDING\<rparr>) d else d);
     (result, d) \<leftarrow>
       (if estate (arp_table d ! i) = ETHARP_STATE_PENDING \<or> pkt = None then etharp_request ip d
        else Some (ERR_MEM, d));
     (case pkt of
        None \<Rightarrow> Some (result, d)
      | Some p \<Rightarrow>
          if estate (arp_table d ! i) = ETHARP_STATE_STABLE
          then etharp_send_ip p (hwaddr (nif d)) (eeth (arp_table d ! i)) d
          else if estate (arp_table d ! i) = ETHARP_STATE_PENDING then queue_packet i p result d
          else Some (result, d))
   }"

definition etharp_query :: "u32 \<Rightarrow> addr option \<Rightarrow> 'a arp_scheme \<Rightarrow> (err_t \<times> 'a arp_scheme) option" where
  "etharp_query ip pkt d =
     (if ip_addr_isbroadcast ip (nif d) \<noteq> 0 \<or> ip_addr_ismulticast ip \<or> ip = 0 then Some (ERR_ARG, d)
      else do {
        (i, d) \<leftarrow> find_entry (Some ip) ETHARP_TRY_HARD d;
        (case i of None \<Rightarrow> Some (ERR_MEM, d) | Some i \<Rightarrow> query_entry i ip pkt d)
      })"

definition mcast_addr :: "u32 \<Rightarrow> u8 list" where
  "mcast_addr ip = [0x01, 0x00, 0x5e, ucast (ip4_addr2 ip AND 0x7f), ucast (ip4_addr3 ip), ucast (ip4_addr4 ip)]"

definition etharp_output :: "addr \<Rightarrow> u32 \<Rightarrow> 'a arp_scheme \<Rightarrow> (err_t \<times> 'a arp_scheme) option" where
  "etharp_output pkt ip d = do {
     (r, st) \<leftarrow> pbuf_header (Some pkt) 14 (pm d);
     (if r \<noteq> 0 then Some (ERR_BUF, d)
      else
        let d = d\<lparr>pm := st\<rparr>; n = nif d
        in if ip_addr_isbroadcast ip n \<noteq> 0 then etharp_send_ip pkt (hwaddr n) ethbroadcast d
           else if ip_addr_ismulticast ip then etharp_send_ip pkt (hwaddr n) (mcast_addr ip) d
           else if \<not> ip_addr_netcmp ip (ip_addr n) (netmask n)
           then if gw n \<noteq> 0 then etharp_query (gw n) (Some pkt) d else Some (ERR_RTE, d)
           else etharp_query ip (Some pkt) d)
   }"

subsection \<open>Input\<close>

definition etharp_ip_input :: "addr \<Rightarrow> 'a arp_scheme \<Rightarrow> 'a arp_scheme option" where
  "etharp_ip_input p d = do {
     src \<leftarrow> get_u32 (pm d) p 26;
     (if \<not> ip_addr_netcmp src (ip_addr (nif d)) (netmask (nif d)) then Some d
      else do {
        eth \<leftarrow> get_bytes (pm d) p 6 6;
        (_, d) \<leftarrow> update_arp_entry src eth 0 d;
        Some d
      })
   }"

text \<open>The request rewritten in place into the reply.\<close>

definition arp_reply :: "addr \<Rightarrow> u8 list \<Rightarrow> u32 \<Rightarrow> pmem \<Rightarrow> pmem option" where
  "arp_reply p eth ip st = do {
     sip \<leftarrow> get_bytes st p 28 4;
     shw \<leftarrow> get_bytes st p 22 6;
     st \<leftarrow> put_bytes p 20 (bytes_of_u16 (htons 2)) st;
     st \<leftarrow> put_bytes p 38 sip st;
     st \<leftarrow> put_bytes p 28 (bytes_of_u32 ip) st;
     st \<leftarrow> put_bytes p 32 shw st;
     st \<leftarrow> put_bytes p 0 shw st;
     st \<leftarrow> put_bytes p 22 eth st;
     put_bytes p 6 eth st
   }"

text \<open>What is done with a well-formed ARP packet.\<close>

definition arp_process :: "u8 list \<Rightarrow> addr \<Rightarrow> 'a arp_scheme \<Rightarrow> 'a arp_scheme option" where
  "arp_process eth p d = do {
     sipaddr \<leftarrow> get_u32 (pm d) p 28;
     dipaddr \<leftarrow> get_u32 (pm d) p 38;
     shwaddr \<leftarrow> get_bytes (pm d) p 22 6;
     let for_us = (if ip_addr (nif d) = 0 then False else dipaddr = ip_addr (nif d));
     (_, d) \<leftarrow> update_arp_entry sipaddr shwaddr (if for_us then ETHARP_TRY_HARD else 0) d;
     opcode \<leftarrow> get_u16 (pm d) p 20;
     d \<leftarrow> (if htons opcode = 1 \<and> for_us
          then do {
            st \<leftarrow> arp_reply p eth (ip_addr (nif d)) (pm d);
            (_, d) \<leftarrow> link_output p (d\<lparr>pm := st\<rparr>);
            Some d
          }
          else Some d);
     (_, st) \<leftarrow> pbuf_free (Some p) (pm d);
     Some (d\<lparr>pm := st\<rparr>)
   }"

definition etharp_arp_input :: "u8 list \<Rightarrow> addr \<Rightarrow> 'a arp_scheme \<Rightarrow> 'a arp_scheme option" where
  "etharp_arp_input eth p d = do {
     b \<leftarrow> pbufs (pm d) p;
     (if unat (len b) < 42 then do { (_, st) \<leftarrow> pbuf_free (Some p) (pm d); Some (d\<lparr>pm := st\<rparr>) }
      else do {
        hwtype \<leftarrow> get_u16 (pm d) p 14;
        proto \<leftarrow> get_u16 (pm d) p 16;
        lens \<leftarrow> get_u16 (pm d) p 18;
        type \<leftarrow> get_u16 (pm d) p 12;
        (if hwtype \<noteq> htons 1 \<or> lens \<noteq> htons 0x0604 \<or> proto \<noteq> htons ETHTYPE_IP \<or> type \<noteq> htons ETHTYPE_ARP
         then do { (_, st) \<leftarrow> pbuf_free (Some p) (pm d); Some (d\<lparr>pm := st\<rparr>) }
         else arp_process eth p d)
      })
   }"

end
