(* ===== verification/Etharp_Cache.thy ===== *)
theory Etharp_Cache
  imports Etharp
begin

subsection \<open>The table invariant\<close>

definition live :: "etharp_entry \<Rightarrow> bool" where
  "live e \<longleftrightarrow> estate e \<noteq> ETHARP_STATE_EMPTY"

definition unicast :: "netif \<Rightarrow> u32 \<Rightarrow> bool" where
  "unicast n a \<longleftrightarrow> a \<noteq> 0 \<and> ip_addr_isbroadcast a n = 0 \<and> \<not> ip_addr_ismulticast a"

text \<open>
  Ten entries; only pending entries hold packets; a live entry has a unicast address, and no
  two live entries have the same.
\<close>

definition table_ok :: "netif \<Rightarrow> etharp_entry list \<Rightarrow> bool" where
  "table_ok n T \<longleftrightarrow> length T = ARP_TABLE_SIZE \<and>
     (\<forall>e \<in> set T. equeue e \<noteq> [] \<longrightarrow> estate e = ETHARP_STATE_PENDING) \<and>
     (\<forall>e \<in> set T. live e \<longrightarrow> unicast n (eip e)) \<and>
     (\<forall>i j. i < length T \<longrightarrow> j < length T \<longrightarrow> live (T ! i) \<longrightarrow> live (T ! j) \<longrightarrow> eip (T ! i) = eip (T ! j) \<longrightarrow> i = j)"

definition arp_ok :: "'a arp_scheme \<Rightarrow> bool" where
  "arp_ok d \<longleftrightarrow> table_ok (nif d) (arp_table d) \<and> etharp_cached_entry d < ARP_TABLE_SIZE"

lemma table_ok_upd:
  assumes ok: "table_ok n T" and i: "i < length T"
    and q: "equeue e \<noteq> [] \<longrightarrow> estate e = ETHARP_STATE_PENDING"
    and u: "live e \<longrightarrow> unicast n (eip e)"
    and uniq: "live e \<longrightarrow> (\<forall>j < length T. j \<noteq> i \<longrightarrow> live (T ! j) \<longrightarrow> eip (T ! j) \<noteq> eip e)"
  shows "table_ok n (T[i := e])"
proof -
  have s: "x = e \<or> x \<in> set T" if "x \<in> set (T[i := e])" for x
    using that set_update_subset_insert [of T i e] by auto
  have "j = k" if "j < length T" "k < length T" "live (T[i := e] ! j)" "live (T[i := e] ! k)"
    "eip (T[i := e] ! j) = eip (T[i := e] ! k)" for j k
    using that ok uniq by (cases "j = i"; cases "k = i") (auto simp: table_ok_def)
  moreover have "\<forall>x \<in> set (T[i := e]). (equeue x \<noteq> [] \<longrightarrow> estate x = ETHARP_STATE_PENDING) \<and>
      (live x \<longrightarrow> unicast n (eip x))"
    using s ok q u by (auto simp: table_ok_def)
  ultimately show ?thesis using ok by (auto simp: table_ok_def)
qed

subsection \<open>The sweep\<close>

text \<open>\<open>k\<close> is an entry of the kind \<open>P\<close> with the largest age, or 10 when there is none.\<close>

definition oldest :: "(etharp_entry \<Rightarrow> bool) \<Rightarrow> etharp_entry list \<Rightarrow> nat \<Rightarrow> u8 \<Rightarrow> bool" where
  "oldest P T k a \<longleftrightarrow>
     (if \<exists>e \<in> set T. P e
      then k < length T \<and> P (T ! k) \<and> ctime (T ! k) = a \<and> (\<forall>e \<in> set T. P e \<longrightarrow> ctime e \<le> a)
      else k = ARP_TABLE_SIZE \<and> a = 0)"

abbreviation stable :: "etharp_entry \<Rightarrow> bool" where "stable e \<equiv> estate e = ETHARP_STATE_STABLE"
abbreviation waiting :: "etharp_entry \<Rightarrow> bool" where
  "waiting e \<equiv> estate e = ETHARP_STATE_PENDING \<and> equeue e \<noteq> []"
abbreviation idle :: "etharp_entry \<Rightarrow> bool" where
  "idle e \<equiv> estate e = ETHARP_STATE_PENDING \<and> equeue e = []"
abbreviation empty :: "etharp_entry \<Rightarrow> bool" where "empty e \<equiv> estate e = ETHARP_STATE_EMPTY"

definition first_empty :: "etharp_entry list \<Rightarrow> nat \<Rightarrow> bool" where
  "first_empty T k \<longleftrightarrow>
     (if \<exists>e \<in> set T. empty e then k < length T \<and> empty (T ! k) \<and> (\<forall>i < k. \<not> empty (T ! i))
      else k = ARP_TABLE_SIZE)"

definition cand_ok :: "etharp_entry list \<Rightarrow> cand \<Rightarrow> bool" where
  "cand_ok T c \<longleftrightarrow>
     oldest stable T (old_stable c) (age_stable c) \<and> oldest idle T (old_pending c) (age_pending c) \<and>
     oldest waiting T (old_queue c) (age_queue c) \<and> first_empty T (empty_idx c)"

lemma oldest_skip: "oldest P T k a \<Longrightarrow> \<not> P e \<Longrightarrow> oldest P (T @ [e]) k a"
  by (auto simp: oldest_def nth_append split: if_splits)

lemma oldest_step:
  "oldest P T k a \<Longrightarrow> P e \<Longrightarrow>
   oldest P (T @ [e]) (if a \<le> ctime e then length T else k) (if a \<le> ctime e then ctime e else a)"
  by (fastforce simp: oldest_def nth_append not_le split: if_splits)

lemma first_empty_skip: "first_empty T k \<Longrightarrow> \<not> empty e \<or> (\<exists>x \<in> set T. empty x) \<Longrightarrow> first_empty (T @ [e]) k"
  by (auto simp: first_empty_def nth_append split: if_splits)

lemma first_empty_take:
  "first_empty T ARP_TABLE_SIZE \<Longrightarrow> length T < ARP_TABLE_SIZE \<Longrightarrow> empty e \<Longrightarrow> first_empty (T @ [e]) (length T)"
  by (auto simp: first_empty_def nth_append split: if_splits)

lemma first_empty_size: "first_empty T k \<Longrightarrow> length T < ARP_TABLE_SIZE \<Longrightarrow> k = ARP_TABLE_SIZE \<longleftrightarrow> \<not> (\<exists>x \<in> set T. empty x)"
  by (auto simp: first_empty_def split: if_splits)

lemma find_sweep_spec:
  "cand_ok pre c \<Longrightarrow> length (pre @ es) = ARP_TABLE_SIZE \<Longrightarrow>
   (\<forall>e \<in> set pre. live e \<longrightarrow> ip \<noteq> Some (eip e)) \<Longrightarrow>
   (case find_sweep ip es (length pre) c of
      Inl i \<Rightarrow> i < ARP_TABLE_SIZE \<and> live ((pre @ es) ! i) \<and> ip = Some (eip ((pre @ es) ! i))
    | Inr c' \<Rightarrow> cand_ok (pre @ es) c' \<and> (\<forall>e \<in> set (pre @ es). live e \<longrightarrow> ip \<noteq> Some (eip e)))"
proof (induction es arbitrary: pre c)
  case Nil
  then show ?case by simp
next
  case (Cons e es)
  let ?n = "length pre"
  have n: "?n < ARP_TABLE_SIZE" using Cons.prems(2) by simp
  show ?case
  proof (cases "live e \<and> ip = Some (eip e)")
    case True
    then have "find_sweep ip (e # es) ?n c = Inl ?n" by (cases "estate e") (auto simp: live_def)
    then show ?thesis using True n by (simp add: nth_append)
  next
    case False
    have step: "\<exists>c'. find_sweep ip (e # es) ?n c = find_sweep ip es (length (pre @ [e])) c' \<and> cand_ok (pre @ [e]) c'"
    proof (cases "estate e")
      case ETHARP_STATE_EMPTY
      let ?c = "if empty_idx c = ARP_TABLE_SIZE then c\<lparr>empty_idx := ?n\<rparr> else c"
      have "first_empty (pre @ [e]) (empty_idx ?c)"
        using Cons.prems(1) n ETHARP_STATE_EMPTY first_empty_size [of pre "empty_idx c"]
        by (auto simp: cand_ok_def intro: first_empty_take first_empty_skip)
      then show ?thesis
        using ETHARP_STATE_EMPTY Cons.prems(1)
        by (intro exI [of _ ?c]) (auto simp: cand_ok_def intro: oldest_skip split: if_splits)
    next
      case ETHARP_STATE_PENDING
      then have skip: "first_empty (pre @ [e]) (empty_idx c)" "oldest stable (pre @ [e]) (old_stable c) (age_stable c)"
        and m: "ip \<noteq> Some (eip e)"
        using Cons.prems(1) False by (auto simp: cand_ok_def live_def intro: oldest_skip first_empty_skip)
      show ?thesis
      proof (cases "equeue e \<noteq> []")
        case True
        let ?c = "if age_queue c \<le> ctime e then c\<lparr>old_queue := ?n, age_queue := ctime e\<rparr> else c"
        have "oldest idle (pre @ [e]) (old_pending c) (age_pending c)"
          using Cons.prems(1) True by (auto simp: cand_ok_def intro: oldest_skip)
        then show ?thesis
          using Cons.prems(1) ETHARP_STATE_PENDING True skip m oldest_step [of waiting pre _ _ e]
          by (intro exI [of _ ?c]) (fastforce simp: cand_ok_def)
      next
        case Q: False
        let ?c = "if age_pending c \<le> ctime e then c\<lparr>old_pending := ?n, age_pending := ctime e\<rparr> else c"
        have "oldest waiting (pre @ [e]) (old_queue c) (age_queue c)"
          using Cons.prems(1) Q by (auto simp: cand_ok_def intro: oldest_skip)
        then show ?thesis
          using Cons.prems(1) ETHARP_STATE_PENDING Q skip m oldest_step [of idle pre _ _ e]
          by (intro exI [of _ ?c]) (fastforce simp: cand_ok_def)
      qed
    next
      case ETHARP_STATE_STABLE
      let ?c = "if age_stable c \<le> ctime e then c\<lparr>old_stable := ?n, age_stable := ctime e\<rparr> else c"
      have "first_empty (pre @ [e]) (empty_idx c)" "oldest idle (pre @ [e]) (old_pending c) (age_pending c)"
        "oldest waiting (pre @ [e]) (old_queue c) (age_queue c)" "ip \<noteq> Some (eip e)"
        using Cons.prems(1) False ETHARP_STATE_STABLE
        by (auto simp: cand_ok_def live_def intro: oldest_skip first_empty_skip)
      then show ?thesis
        using Cons.prems(1) ETHARP_STATE_STABLE oldest_step [of stable pre _ _ e]
        by (intro exI [of _ ?c]) (fastforce simp: cand_ok_def)
    qed
    then obtain c' where c': "find_sweep ip (e # es) ?n c = find_sweep ip es (length (pre @ [e])) c'"
      "cand_ok (pre @ [e]) c'" by blast
    have "\<forall>x \<in> set (pre @ [e]). live x \<longrightarrow> ip \<noteq> Some (eip x)" using Cons.prems(3) False by auto
    moreover have eq: "(pre @ [e]) @ es = pre @ e # es" by simp
    ultimately show ?thesis using Cons.IH [OF c'(2), unfolded eq] Cons.prems(2) unfolding c'(1) by blast
  qed
qed


subsection \<open>Which entry is taken\<close>

text \<open>The least destructive entry: an empty one, else the oldest stable, idle or waiting one.\<close>

definition victim :: "etharp_entry list \<Rightarrow> nat \<Rightarrow> bool" where
  "victim T i \<longleftrightarrow>
     (if \<exists>e \<in> set T. empty e then empty (T ! i)
      else let P = (if \<exists>e \<in> set T. stable e then stable else if \<exists>e \<in> set T. idle e then idle else waiting)
           in P (T ! i) \<and> (\<forall>e \<in> set T. P e \<longrightarrow> ctime e \<le> ctime (T ! i)))"

definition fresh_entry :: "u32 \<Rightarrow> etharp_entry \<Rightarrow> etharp_entry" where
  "fresh_entry ip e = e\<lparr>equeue := [], estate := ETHARP_STATE_EMPTY, eip := ip, ctime := 0\<rparr>"

lemma upd_entry_simps [simp]:
  "arp_table (upd_entry i f d) = (arp_table d)[i := f (arp_table d ! i)]"
  "nif (upd_entry i f d) = nif d" "pm (upd_entry i f d) = pm d" "mac (upd_entry i f d) = mac d"
  "etharp_cached_entry (upd_entry i f d) = etharp_cached_entry d" "gTxBuf (upd_entry i f d) = gTxBuf d"
  by (simp_all add: upd_entry_def)

lemma oldest_exists:
  "oldest P T k a \<Longrightarrow> length T = ARP_TABLE_SIZE \<Longrightarrow> k < ARP_TABLE_SIZE \<longleftrightarrow> (\<exists>e \<in> set T. P e)"
  by (simp add: oldest_def split: if_splits)

lemma oldest_max:
  "oldest P T k a \<Longrightarrow> k < ARP_TABLE_SIZE \<Longrightarrow> length T = ARP_TABLE_SIZE \<Longrightarrow>
   P (T ! k) \<and> (\<forall>e \<in> set T. P e \<longrightarrow> ctime e \<le> ctime (T ! k))"
  by (auto simp: oldest_def split: if_splits)

lemma first_empty_exists:
  "first_empty T k \<Longrightarrow> length T = ARP_TABLE_SIZE \<Longrightarrow>
   (k < ARP_TABLE_SIZE \<longleftrightarrow> (\<exists>e \<in> set T. empty e)) \<and> (k < ARP_TABLE_SIZE \<longrightarrow> empty (T ! k)) \<and> k \<le> ARP_TABLE_SIZE"
  by (auto simp: first_empty_def split: if_splits)

lemma reset_entry_simps [simp]:
  "nif (reset_entry i ip d) = nif d" "pm (reset_entry i ip d) = pm d" "mac (reset_entry i ip d) = mac d"
  "gTxBuf (reset_entry i ip d) = gTxBuf d" "etharp_cached_entry (reset_entry i ip d) = i"
  by (cases ip; simp add: reset_entry_def Let_def)+

lemma reset_entry_table:
  "i < length (arp_table d) \<Longrightarrow> arp_table (reset_entry i (Some ip) d) =
   (arp_table d)[i := (arp_table d ! i)\<lparr>estate := ETHARP_STATE_EMPTY, eip := ip, ctime := 0\<rparr>]"
  by (simp add: reset_entry_def Let_def)

lemma select_entry_spec:
  assumes "cand_ok (arp_table d) c" "length (arp_table d) = ARP_TABLE_SIZE"
    and "select_entry c d = Some (r, d')"
    and qs: "\<forall>e \<in> set (arp_table d). equeue e \<noteq> [] \<longrightarrow> estate e = ETHARP_STATE_PENDING"
  shows "nif d' = nif d \<and> mac d' = mac d \<and> gTxBuf d' = gTxBuf d \<and>
    (\<exists>i < ARP_TABLE_SIZE. r = Some i \<and> victim (arp_table d) i \<and>
      arp_table d' = (arp_table d)[i := (arp_table d ! i)\<lparr>equeue := []\<rparr>] \<and>
      (equeue (arp_table d ! i) = [] \<longrightarrow> pm d' = pm d))"
proof -
  let ?T = "arp_table d"
  note c = assms(1) [unfolded cand_ok_def] and T = assms(2)
  have fe: "empty_idx c < ARP_TABLE_SIZE \<longleftrightarrow> (\<exists>e \<in> set ?T. empty e)"
    "empty_idx c < ARP_TABLE_SIZE \<Longrightarrow> empty (?T ! empty_idx c)"
    using first_empty_exists [of ?T "empty_idx c"] c T by auto
  note ex = oldest_exists [OF _ T] and mx = oldest_max [OF _ _ T]
  have noq: "?T[i := (?T ! i)\<lparr>equeue := []\<rparr>] = ?T" if "equeue (?T ! i) = []" for i
    using that by (metis etharp_entry.surjective etharp_entry.update_convs(1) list_update_id)
  have q0: "equeue (?T ! i) = []" if "i < ARP_TABLE_SIZE" "estate (?T ! i) \<noteq> ETHARP_STATE_PENDING" for i
    using qs that T by (metis nth_mem)
  have some: "\<exists>e \<in> set ?T. empty e \<or> stable e \<or> idle e \<or> waiting e"
  proof -
    have "?T ! 0 \<in> set ?T" using T by (intro nth_mem) simp
    then show ?thesis by (cases "estate (?T ! 0)") auto
  qed
  consider (e) "empty_idx c < ARP_TABLE_SIZE"
    | (s) "\<not> empty_idx c < ARP_TABLE_SIZE" "old_stable c < ARP_TABLE_SIZE"
    | (p) "\<not> empty_idx c < ARP_TABLE_SIZE" "\<not> old_stable c < ARP_TABLE_SIZE" "old_pending c < ARP_TABLE_SIZE"
    | (q) "\<not> empty_idx c < ARP_TABLE_SIZE" "\<not> old_stable c < ARP_TABLE_SIZE" "\<not> old_pending c < ARP_TABLE_SIZE"
        "old_queue c < ARP_TABLE_SIZE"
    | (n) "\<not> empty_idx c < ARP_TABLE_SIZE" "\<not> old_stable c < ARP_TABLE_SIZE" "\<not> old_pending c < ARP_TABLE_SIZE"
        "\<not> old_queue c < ARP_TABLE_SIZE"
    by blast
  then show ?thesis
  proof cases
    case e
    then have "victim ?T (empty_idx c)" using fe by (simp add: victim_def)
    then show ?thesis using e assms(3) noq q0 fe(2) by (auto simp: select_entry_def)
  next
    case s
    then have st: "\<exists>e \<in> set ?T. stable e" and ne: "\<not> (\<exists>e \<in> set ?T. empty e)"
      using ex [of stable] fe c by blast+
    have st': "stable (?T ! old_stable c)" "\<forall>e \<in> set ?T. stable e \<longrightarrow> ctime e \<le> ctime (?T ! old_stable c)"
      using s mx [of stable] c by blast+
    have "victim ?T (old_stable c)"
      unfolding victim_def if_not_P [OF ne] if_P [OF st] Let_def using st' by blast
    moreover note st'(1)
    ultimately show ?thesis using s assms(3) noq q0 by (auto simp: select_entry_def)
  next
    case p
    then have st: "\<exists>e \<in> set ?T. idle e" and ne: "\<not> (\<exists>e \<in> set ?T. empty e)" "\<not> (\<exists>e \<in> set ?T. stable e)"
      using ex [of idle] ex [of stable] fe c by blast+
    have st': "idle (?T ! old_pending c)" "\<forall>e \<in> set ?T. idle e \<longrightarrow> ctime e \<le> ctime (?T ! old_pending c)"
      using p mx [of idle] c by blast+
    have "victim ?T (old_pending c)"
      unfolding victim_def if_not_P [OF ne(1)] if_not_P [OF ne(2)] if_P [OF st] Let_def using st' by blast
    moreover note st'(1)
    ultimately show ?thesis using p assms(3) noq by (auto simp: select_entry_def)
  next
    case q
    then have ne: "\<not> (\<exists>e \<in> set ?T. empty e)" "\<not> (\<exists>e \<in> set ?T. stable e)" "\<not> (\<exists>e \<in> set ?T. idle e)"
      using ex [of idle] ex [of stable] fe c by blast+
    have st': "waiting (?T ! old_queue c)" "\<forall>e \<in> set ?T. waiting e \<longrightarrow> ctime e \<le> ctime (?T ! old_queue c)"
      using q mx [of waiting] c by blast+
    have "victim ?T (old_queue c)"
      unfolding victim_def if_not_P [OF ne(1)] if_not_P [OF ne(2)] if_not_P [OF ne(3)] Let_def using st' by blast
    moreover note st'(1)
    ultimately show ?thesis using q assms(3) by (auto simp: select_entry_def bind_eq_Some_conv)
  next
    case n
    then show ?thesis using some fe ex c by blast
  qed
qed

lemma find_entry_spec:
  assumes ok: "arp_ok d" and run: "find_entry (Some ip) flgs d = Some (r, d')"
  shows "nif d' = nif d \<and> mac d' = mac d \<and> gTxBuf d' = gTxBuf d \<and> etharp_cached_entry d' < ARP_TABLE_SIZE \<and>
    (case r of
       None \<Rightarrow> d' = d \<and> (\<forall>e \<in> set (arp_table d). live e \<longrightarrow> eip e \<noteq> ip) \<and>
         (flgs AND ETHARP_FIND_ONLY \<noteq> 0 \<or> flgs AND ETHARP_TRY_HARD = 0 \<and> (\<forall>e \<in> set (arp_table d). live e))
     | Some i \<Rightarrow> i < ARP_TABLE_SIZE \<and>
         (live (arp_table d ! i) \<and> eip (arp_table d ! i) = ip \<and> arp_table d' = arp_table d \<and> pm d' = pm d \<or>
          (\<forall>e \<in> set (arp_table d). live e \<longrightarrow> eip e \<noteq> ip) \<and> flgs AND ETHARP_FIND_ONLY = 0 \<and>
          victim (arp_table d) i \<and> arp_table d' = (arp_table d)[i := fresh_entry ip (arp_table d ! i)] \<and>
          (equeue (arp_table d ! i) = [] \<longrightarrow> pm d' = pm d)))"
proof -
  let ?T = "arp_table d" and ?c = "etharp_cached_entry d"
  have T: "length ?T = ARP_TABLE_SIZE" "?c < ARP_TABLE_SIZE" 
    and qs: "\<forall>e \<in> set ?T. equeue e \<noteq> [] \<longrightarrow> estate e = ETHARP_STATE_PENDING"
    using ok by (simp_all add: arp_ok_def table_ok_def)
  have c0: "cand_ok [] no_cand" by (simp add: cand_ok_def oldest_def first_empty_def no_cand_def)
  show ?thesis
  proof (cases "cache_hit (Some ip) d")
    case True
    then have "r = Some ?c \<and> d' = d" using run by (auto simp: find_entry_def)
    then show ?thesis using True T by (auto simp: live_def cache_hit_def Let_def)
  next
    case nc: False
    show ?thesis
    proof (cases "find_sweep (Some ip) ?T 0 no_cand")
      case (Inl i)
      then have "r = Some i \<and> d' = d\<lparr>etharp_cached_entry := i\<rparr>" using nc run by (auto simp: find_entry_def)
      then show ?thesis using find_sweep_spec [OF c0, of ?T "Some ip"] T Inl by auto
    next
      case (Inr c)
      have cand: "cand_ok ?T c" "\<forall>e \<in> set ?T. live e \<longrightarrow> eip e \<noteq> ip"
        using find_sweep_spec [OF c0, of ?T "Some ip"] T Inr by auto
      have fe: "empty_idx c = ARP_TABLE_SIZE \<longleftrightarrow> (\<forall>e \<in> set ?T. live e)"
        using first_empty_exists [of ?T "empty_idx c"] cand(1) T by (auto simp: cand_ok_def live_def)
      show ?thesis
      proof (cases "empty_idx c = ARP_TABLE_SIZE \<and> flgs AND ETHARP_TRY_HARD = 0 \<or> flgs AND ETHARP_FIND_ONLY \<noteq> 0")
        case True
        then have "r = None" "d' = d" using nc run Inr by (auto simp: find_entry_def split: if_splits)
        then show ?thesis using True fe cand(2) T by auto
      next
        case False
        then obtain d1 where d1: "select_entry c d = Some (r, d1)"
          "d' = (case r of None \<Rightarrow> d1 | Some i \<Rightarrow> reset_entry i (Some ip) d1)"
          using nc run Inr by (auto simp: find_entry_def bind_eq_Some_conv split: if_splits)
        from select_entry_spec [OF cand(1) T(1) d1(1) qs] obtain i where i: "i < ARP_TABLE_SIZE" "r = Some i"
          "victim ?T i" "arp_table d1 = ?T[i := (?T ! i)\<lparr>equeue := []\<rparr>]"
          "equeue (?T ! i) = [] \<longrightarrow> pm d1 = pm d" "nif d1 = nif d" "mac d1 = mac d" "gTxBuf d1 = gTxBuf d"
          by blast
        have "arp_table d' = ?T[i := fresh_entry ip (?T ! i)]"
          using i T d1(2) by (simp add: reset_entry_table fresh_entry_def)
        then show ?thesis using i d1(2) cand(2) False by simp
      qed
    qed
  qed
qed

end
