(* ===== verification/Etharp_Effects.thy ===== *)
theory Etharp_Effects
  imports Etharp_Cache
begin

text \<open>
  What each operation of \<open>etharp.c\<close> does to the table: sending changes neither the table nor the
  interface, so an update is one entry confirmed and a query one entry created or one packet queued.
\<close>

definition keeps :: "'a arp_scheme \<Rightarrow> 'a arp_scheme \<Rightarrow> bool" where
  "keeps d d' \<longleftrightarrow> arp_table d' = arp_table d \<and> nif d' = nif d \<and> etharp_cached_entry d' = etharp_cached_entry d"

lemma keeps_refl [simp]: "keeps d d"
  by (simp add: keeps_def)

lemma keeps_pm [simp]: "keeps d (d'\<lparr>pm := st\<rparr>) \<longleftrightarrow> keeps d d'" "keeps (d\<lparr>pm := st\<rparr>) d' \<longleftrightarrow> keeps d d'"
  by (simp_all add: keeps_def)

lemma link_output_keeps: "link_output p d = Some (e, d') \<Longrightarrow> keeps d d'"
  by (auto simp: link_output_def low_level_output_def keeps_def bind_eq_Some_conv split: if_splits)

lemma etharp_send_ip_keeps: "etharp_send_ip p src dst d = Some (e, d') \<Longrightarrow> keeps d d'"
  by (auto simp: etharp_send_ip_def bind_eq_Some_conv dest: link_output_keeps)

lemma etharp_raw_keeps: "etharp_raw a b c i h j op d = Some (e, d') \<Longrightarrow> keeps d d'"
  by (auto simp: etharp_raw_def bind_eq_Some_conv Let_def dest!: link_output_keeps split: option.splits)

lemma etharp_request_keeps: "etharp_request ip d = Some (e, d') \<Longrightarrow> keeps d d'"
  by (auto simp: etharp_request_def dest: etharp_raw_keeps)

lemma send_queue_table:
  "send_queue i eth qs d = Some d' \<Longrightarrow> i < length (arp_table d) \<Longrightarrow> equeue (arp_table d ! i) = qs \<Longrightarrow>
   arp_table d' = (arp_table d)[i := (arp_table d ! i)\<lparr>equeue := []\<rparr>] \<and> nif d' = nif d \<and>
   etharp_cached_entry d' = etharp_cached_entry d"
proof (induction qs arbitrary: d)
  case Nil
  then have "(arp_table d ! i)\<lparr>equeue := []\<rparr> = arp_table d ! i" by simp
  then have "(arp_table d)[i := (arp_table d ! i)\<lparr>equeue := []\<rparr>] = arp_table d" by simp
  then show ?case using Nil by simp
next
  case (Cons rp qs)
  obtain r p where rp: "rp = (r, p)" by (cases rp)
  let ?T = "(arp_table d)[i := (arp_table d ! i)\<lparr>equeue := qs\<rparr>]"
  let ?d = "upd_entry i (\<lambda>e. e\<lparr>equeue := qs\<rparr>) d"
  from Cons.prems(1) obtain e d1 st where d1:
    "etharp_send_ip p (hwaddr (nif ?d)) eth
       (?d\<lparr>pm := (pm ?d)\<lparr>pools := memp_free MEMP_ARP_QUEUE (Some r) (pools (pm ?d))\<rparr>\<rparr>) = Some (e, d1)"
    "send_queue i eth qs (d1\<lparr>pm := st\<rparr>) = Some d'"
    by (auto simp: rp bind_eq_Some_conv Let_def)
  define d2 where "d2 = d1\<lparr>pm := st\<rparr>"
  have d2: "arp_table d2 = ?T" "nif d2 = nif d" "etharp_cached_entry d2 = etharp_cached_entry d"
    "send_queue i eth qs d2 = Some d'"
    using etharp_send_ip_keeps [OF d1(1)] d1(2) by (simp_all add: keeps_def d2_def)
  have "i < length (arp_table d2)" "equeue (arp_table d2 ! i) = qs" using Cons.prems(2) d2(1) by simp_all
  from Cons.IH [OF d2(4) this] show ?case using Cons.prems(2) d2 by simp
qed

subsection \<open>Updates\<close>

definition confirmed :: "u32 \<Rightarrow> u8 list \<Rightarrow> etharp_entry" where
  "confirmed ip eth = \<lparr>equeue = [], eip = ip, eeth = eth, estate = ETHARP_STATE_STABLE, ctime = 0\<rparr>"

definition absent :: "u32 \<Rightarrow> etharp_entry list \<Rightarrow> bool" where
  "absent ip T \<longleftrightarrow> (\<forall>e \<in> set T. live e \<longrightarrow> eip e \<noteq> ip)"

lemma unicast_eq: "unicast n ip \<longleftrightarrow> \<not> (ip = 0 \<or> ip_addr_isbroadcast ip n \<noteq> 0 \<or> ip_addr_ismulticast ip)"
  unfolding unicast_def by blast

lemma update_arp_entry_cases:
  assumes ok: "arp_ok d" and run: "update_arp_entry ip eth flgs d = Some (e, d')"
  obtains (bad) "\<not> unicast (nif d) ip" "e = ERR_ARG" "d' = d"
  | (full) "unicast (nif d) ip" "e = ERR_MEM" "d' = d" "absent ip (arp_table d)"
      "flgs AND ETHARP_FIND_ONLY \<noteq> 0 \<or> flgs AND ETHARP_TRY_HARD = 0 \<and> (\<forall>e \<in> set (arp_table d). live e)"
  | (upd) i where "unicast (nif d) ip" "e = ERR_OK" "nif d' = nif d" "etharp_cached_entry d' < ARP_TABLE_SIZE"
      "i < ARP_TABLE_SIZE" "arp_table d' = (arp_table d)[i := confirmed ip eth]"
      "live (arp_table d ! i) \<and> eip (arp_table d ! i) = ip \<or> absent ip (arp_table d) \<and> victim (arp_table d) i"
proof (cases "unicast (nif d) ip")
  case False
  then have "update_arp_entry ip eth flgs d = Some (ERR_ARG, d)"
    unfolding unicast_eq update_arp_entry_def by simp
  then show ?thesis using run False by (intro bad) simp_all
next
  case True
  have T: "length (arp_table d) = ARP_TABLE_SIZE" using ok by (simp add: arp_ok_def table_ok_def)
  obtain r d1 where d1: "find_entry (Some ip) flgs d = Some (r, d1)"
    and run': "(case r of None \<Rightarrow> Some (ERR_MEM, d1)
      | Some i \<Rightarrow> do {
          let d = upd_entry i (\<lambda>e. e\<lparr>estate := ETHARP_STATE_STABLE\<rparr>) d1;
          let d = upd_entry i (\<lambda>e. e\<lparr>eeth := eth\<rparr>) d;
          let d = upd_entry i (\<lambda>e. e\<lparr>ctime := 0\<rparr>) d;
          d \<leftarrow> send_queue i eth (equeue (arp_table d ! i)) d;
          Some (ERR_OK, d)
        }) = Some (e, d')"
    using run True unfolding update_arp_entry_def unicast_eq
    by (simp only: not_not if_False bind_eq_Some_conv split_paired_Ex prod.case) blast
  note spec = find_entry_spec [OF ok d1]
  show ?thesis
  proof (cases r)
    case None
    then have "e = ERR_MEM" "d' = d" using spec run' by simp_all
    then show ?thesis using spec None True by (intro full) (simp_all add: absent_def)
  next
    case (Some i)
    define U where "U = (arp_table d1)[i := (arp_table d1 ! i)\<lparr>estate := ETHARP_STATE_STABLE, eeth := eth, ctime := 0\<rparr>]"
    have T1: "length (arp_table d1) = ARP_TABLE_SIZE" "i < ARP_TABLE_SIZE" "eip (arp_table d1 ! i) = ip"
      using spec T Some by (auto simp: fresh_entry_def)
    define d2 where "d2 = upd_entry i (\<lambda>e. e\<lparr>estate := ETHARP_STATE_STABLE, eeth := eth, ctime := 0\<rparr>) d1"
    have sq: "do { d \<leftarrow> send_queue i eth (equeue (arp_table d2 ! i)) d2; Some (ERR_OK, d) } = Some (e, d')"
      using run' Some T1 by (simp add: Let_def d2_def upd_entry_def)
    have d2: "arp_table d2 = U" "nif d2 = nif d" "etharp_cached_entry d2 < ARP_TABLE_SIZE"
      using spec by (simp_all add: d2_def U_def)
    then have d2': "send_queue i eth (equeue (U ! i)) d2 = Some d'" "e = ERR_OK"
      using sq by (auto simp: bind_eq_Some_conv)
    have "i < length (arp_table d2)" using d2(1) T1 by (simp add: U_def)
    from send_queue_table [OF d2'(1) this] d2(1) have d':
      "arp_table d' = U[i := (U ! i)\<lparr>equeue := []\<rparr>]" "nif d' = nif d"
      "etharp_cached_entry d' = etharp_cached_entry d2"
      using d2(2) by auto
    have "U[i := (U ! i)\<lparr>equeue := []\<rparr>] = (arp_table d1)[i := confirmed ip eth]"
      using T1 by (cases "arp_table d1 ! i") (simp add: U_def confirmed_def)
    moreover have "(arp_table d1)[i := confirmed ip eth] = (arp_table d)[i := confirmed ip eth]"
      using spec Some by auto
    moreover have "live (arp_table d ! i) \<and> eip (arp_table d ! i) = ip \<or> absent ip (arp_table d) \<and> victim (arp_table d) i"
      using spec Some by (auto simp: absent_def)
    ultimately show ?thesis using d' d2 d2' True T1(2) by (intro upd [of i]) simp_all
  qed
qed

lemma confirmed_simps [simp]: "equeue (confirmed ip eth) = []" "eip (confirmed ip eth) = ip"
  "eeth (confirmed ip eth) = eth" "stable (confirmed ip eth)" "live (confirmed ip eth)" "ctime (confirmed ip eth) = 0"
  by (simp_all add: confirmed_def live_def)

lemma table_ok_confirm:
  assumes "table_ok n T" "unicast n ip" "i < ARP_TABLE_SIZE" "live (T ! i) \<and> eip (T ! i) = ip \<or> absent ip T"
  shows "table_ok n (T[i := confirmed ip eth])"
proof -
  have "\<forall>j < length T. j \<noteq> i \<longrightarrow> live (T ! j) \<longrightarrow> eip (T ! j) \<noteq> ip"
    using assms by (auto simp: table_ok_def absent_def)
  then show ?thesis using assms by (intro table_ok_upd) (auto simp: table_ok_def)
qed

lemma update_arp_entry_ok:
  assumes "arp_ok d" "update_arp_entry ip eth flgs d = Some (e, d')"
  shows "arp_ok d'"
proof (cases rule: update_arp_entry_cases [OF assms])
  case (3 i)
  then have "table_ok (nif d) ((arp_table d)[i := confirmed ip eth])"
    using assms(1) by (intro table_ok_confirm) (auto simp: arp_ok_def)
  then show ?thesis using 3 by (simp add: arp_ok_def)
qed (use assms(1) in simp_all)

subsection \<open>Answers of the table\<close>

definition arp_lookup :: "'a arp_scheme \<Rightarrow> u32 \<Rightarrow> u8 list option" where
  "arp_lookup d ip = map_option eeth (find (\<lambda>e. stable e \<and> eip e = ip) (arp_table d))"

lemma arp_lookup_Some:
  assumes "table_ok n (arp_table d)"
  shows "arp_lookup d ip = Some h \<longleftrightarrow> (\<exists>e \<in> set (arp_table d). stable e \<and> eip e = ip \<and> eeth e = h)"
proof -
  have u: "e = e'" if u: "e \<in> set (arp_table d)" "e' \<in> set (arp_table d)" "stable e" "stable e'" "eip e = eip e'" for e e'
  proof -
    obtain i j where "i < length (arp_table d)" "arp_table d ! i = e" "j < length (arp_table d)" "arp_table d ! j = e'"
      using u(1,2) by (auto simp: in_set_conv_nth)
    moreover have "live e" "live e'" using u(3,4) by (simp_all add: live_def)
    ultimately show ?thesis using assms u(5) unfolding table_ok_def by blast
  qed
  show ?thesis
  proof
    assume "arp_lookup d ip = Some h"
    then show "\<exists>e \<in> set (arp_table d). stable e \<and> eip e = ip \<and> eeth e = h"
      by (auto simp: arp_lookup_def find_Some_iff)
  next
    assume "\<exists>e \<in> set (arp_table d). stable e \<and> eip e = ip \<and> eeth e = h"
    then obtain e where e: "e \<in> set (arp_table d)" "stable e" "eip e = ip" "eeth e = h" by blast
    then obtain e' where e': "find (\<lambda>e. stable e \<and> eip e = ip) (arp_table d) = Some e'"
      by (cases "find (\<lambda>e. stable e \<and> eip e = ip) (arp_table d)") (auto simp: find_None_iff)
    then have "e' = e" using u [of e' e] e by (auto simp: find_Some_iff)
    then show "arp_lookup d ip = Some h" using e e' by (simp add: arp_lookup_def)
  qed
qed

text \<open>No new answers: every answer of \<open>d'\<close> is one of \<open>d\<close>.\<close>

definition no_news :: "'a arp_scheme \<Rightarrow> 'a arp_scheme \<Rightarrow> bool" where
  "no_news d d' \<longleftrightarrow> (\<forall>ip h. arp_lookup d' ip = Some h \<longrightarrow> arp_lookup d ip = Some h)"

lemma no_newsI:
  assumes "arp_ok d" "arp_ok d'"
    and "\<And>e. e \<in> set (arp_table d') \<Longrightarrow> stable e \<Longrightarrow> \<exists>e' \<in> set (arp_table d). stable e' \<and> eip e' = eip e \<and> eeth e' = eeth e"
  shows "no_news d d'"
  using assms by (fastforce simp: no_news_def arp_ok_def arp_lookup_Some)

lemma no_news_trans: "no_news d d' \<Longrightarrow> no_news d' d'' \<Longrightarrow> no_news d d''"
  by (simp add: no_news_def)

lemma keeps_lookup: "keeps d d' \<Longrightarrow> arp_lookup d' ip = arp_lookup d ip"
  by (simp add: keeps_def arp_lookup_def)

lemma keeps_ok: "keeps d d' \<Longrightarrow> arp_ok d \<Longrightarrow> arp_ok d'"
  by (simp add: keeps_def arp_ok_def)

lemma keeps_no_news: "keeps d d' \<Longrightarrow> no_news d d'"
  by (simp add: no_news_def keeps_lookup)

lemma update_arp_entry_lookup:
  assumes ok: "arp_ok d" and run: "update_arp_entry ip eth flgs d = Some (e, d')" and l: "arp_lookup d' a = Some h"
  shows "a = ip \<and> h = eth \<or> a \<noteq> ip \<and> arp_lookup d a = Some h"
proof -
  have Td: "table_ok (nif d) (arp_table d)" and Td': "table_ok (nif d') (arp_table d')"
    using ok update_arp_entry_ok [OF ok run] by (simp_all add: arp_ok_def)
  obtain x where x: "x \<in> set (arp_table d')" "stable x" "eip x = a" "eeth x = h"
    using l unfolding arp_lookup_Some [OF Td'] by blast
  have lx: "live x" using x(2) by (simp add: live_def)
  from ok run show ?thesis
  proof (cases rule: update_arp_entry_cases)
    case bad
    then have "unicast (nif d) a" using Td x lx by (auto simp: table_ok_def)
    then show ?thesis using bad l by auto
  next
    case full
    then show ?thesis using x lx l by (auto simp: absent_def)
  next
    case (upd i)
    show ?thesis
    proof (cases "a = ip")
      case True
      have "confirmed ip eth \<in> set (arp_table d')"
        using upd Td by (simp add: table_ok_def set_update_memI)
      then have "arp_lookup d' ip = Some eth" unfolding arp_lookup_Some [OF Td'] by force
      then show ?thesis using l True by simp
    next
      case False
      have "x \<in> insert (confirmed ip eth) (set (arp_table d))"
        using x(1) upd(6) set_update_subset_insert [of "arp_table d" i "confirmed ip eth"] by auto
      then have "x \<in> set (arp_table d)" using False x(3) by auto
      then show ?thesis using False x unfolding arp_lookup_Some [OF Td] by blast
    qed
  qed
qed

end
