(* ===== verification/Etharp_Props.thy ===== *)
theory Etharp_Props
  imports Etharp_Effects
begin

text \<open>
  The ARP cache over its lifetime: ageing, runs of events, and the laws of a cache that only
  learns, which give that no answer is stale.
\<close>

subsection \<open>Queries\<close>

lemma pending_upd:
  assumes ok: "arp_ok d" and i: "i < ARP_TABLE_SIZE" and e: "estate e = ETHARP_STATE_PENDING" "unicast (nif d) (eip e)"
    and free: "live (arp_table d ! i) \<and> eip (arp_table d ! i) = eip e \<or> absent (eip e) (arp_table d)"
    and d': "arp_table d' = (arp_table d)[i := e]" "nif d' = nif d" "etharp_cached_entry d' < ARP_TABLE_SIZE"
  shows "arp_ok d' \<and> no_news d d'"
proof -
  have T: "table_ok (nif d) (arp_table d)" using ok by (simp add: arp_ok_def)
  have "\<forall>j < length (arp_table d). j \<noteq> i \<longrightarrow> live (arp_table d ! j) \<longrightarrow> eip (arp_table d ! j) \<noteq> eip e"
    using free T i by (auto simp: table_ok_def absent_def)
  then have "table_ok (nif d) ((arp_table d)[i := e])"
    using T i e by (intro table_ok_upd) (simp_all add: table_ok_def)
  then have ok': "arp_ok d'" using d' by (simp add: arp_ok_def)
  have "x \<in> set (arp_table d)" if "x \<in> set (arp_table d')" "stable x" for x
    using that e set_update_subset_insert [of "arp_table d" i e] by (auto simp: d')
  then show ?thesis using ok' no_newsI [OF ok ok'] by blast
qed

lemma queue_packet_table:
  assumes "queue_packet i p r d = Some (e, d')"
  shows "keeps d d' \<or> (\<exists>rp. arp_table d' = (arp_table d)[i := (arp_table d ! i)\<lparr>equeue := equeue (arp_table d ! i) @ [rp]\<rparr>] \<and>
    nif d' = nif d \<and> etharp_cached_entry d' = etharp_cached_entry d)"
proof -
  obtain q st where t: "take_over p (pm d) = Some (q, st)"
    using assms by (auto simp: queue_packet_def bind_eq_Some_conv)
  show ?thesis
  proof (cases q)
    case None
    then show ?thesis using assms t by (auto simp: queue_packet_def)
  next
    case (Some a)
    obtain x pl where m: "memp_malloc MEMP_ARP_QUEUE (pools st) = (x, pl)" by fastforce
    show ?thesis
    proof (cases x)
      case None
      then show ?thesis using assms t Some m by (auto simp: queue_packet_def bind_eq_Some_conv)
    next
      case S: (Some r)
      then show ?thesis
        using assms t Some m by (intro disjI2 exI [of _ "(r, a)"]) (auto simp: queue_packet_def)
    qed
  qed
qed

lemma etharp_query_effect:
  assumes ok: "arp_ok d" and run: "etharp_query ip pkt d = Some (e, d')"
  shows "arp_ok d' \<and> no_news d d' \<and> nif d' = nif d"
proof (cases "unicast (nif d) ip")
  case False
  then have "d' = d" using run by (auto simp: unicast_eq etharp_query_def)
  then show ?thesis using ok by (simp add: no_news_def)
next
  case True
  obtain r d1 where d1: "find_entry (Some ip) ETHARP_TRY_HARD d = Some (r, d1)"
    using run True by (auto simp: unicast_def etharp_query_def bind_eq_Some_conv)
  note spec = find_entry_spec [OF ok d1]
  have T: "table_ok (nif d) (arp_table d)" "length (arp_table d) = ARP_TABLE_SIZE"
    using ok by (simp_all add: arp_ok_def table_ok_def)
  show ?thesis
  proof (cases r)
    case None
    then have "d' = d" using spec d1 run True by (simp add: etharp_query_def unicast_def)
    then show ?thesis using ok by (simp add: no_news_def)
  next
    case (Some i)
    let ?T = "arp_table d"
    define d2 where "d2 = (if estate (arp_table d1 ! i) = ETHARP_STATE_EMPTY
      then upd_entry i (\<lambda>e. e\<lparr>estate := ETHARP_STATE_PENDING\<rparr>) d1 else d1)"
    have i: "i < ARP_TABLE_SIZE" using spec Some by simp
    have n: "nif d2 = nif d" "etharp_cached_entry d2 < ARP_TABLE_SIZE" using spec by (simp_all add: d2_def)
    have d2: "arp_ok d2 \<and> no_news d d2 \<and> live (arp_table d2 ! i) \<and> eip (arp_table d2 ! i) = ip"
    proof (cases "live (?T ! i) \<and> eip (?T ! i) = ip \<and> arp_table d1 = ?T")
      case l: True
      then have "d2 = d1" by (simp add: d2_def live_def)
      then have "keeps d (d2\<lparr>etharp_cached_entry := etharp_cached_entry d\<rparr>)" using l n by (simp add: keeps_def)
      moreover have "arp_ok d2" using l n ok \<open>d2 = d1\<close> by (simp add: arp_ok_def)
      ultimately show ?thesis using l \<open>d2 = d1\<close> by (simp add: no_news_def arp_lookup_def)
    next
      case False
      then have f: "absent ip ?T" "arp_table d1 = ?T[i := fresh_entry ip (?T ! i)]"
        using spec Some by (auto simp: absent_def)
      let ?e = "(fresh_entry ip (?T ! i))\<lparr>estate := ETHARP_STATE_PENDING\<rparr>"
      have t: "arp_table d2 = ?T[i := ?e]" using f(2) T i by (simp add: d2_def fresh_entry_def)
      have e: "estate ?e = ETHARP_STATE_PENDING" "eip ?e = ip" by (simp_all add: fresh_entry_def)
      have "arp_ok d2 \<and> no_news d d2" using e True f(1) by (intro pending_upd [OF ok i _ _ _ t n]) simp_all
      then show ?thesis using t e T i by (simp add: live_def)
    qed
    have "query_entry i ip pkt d1 = Some (e, d')"
      using run True d1 Some by (simp add: etharp_query_def unicast_def)
    then obtain res d3 where d3: "(if estate (arp_table d2 ! i) = ETHARP_STATE_PENDING \<or> pkt = None
        then etharp_request ip d2 else Some (ERR_MEM, d2)) = Some (res, d3)"
      and rest: "(case pkt of
           None \<Rightarrow> Some (res, d3)
         | Some p \<Rightarrow>
             if estate (arp_table d3 ! i) = ETHARP_STATE_STABLE
             then etharp_send_ip p (hwaddr (nif d3)) (eeth (arp_table d3 ! i)) d3
             else if estate (arp_table d3 ! i) = ETHARP_STATE_PENDING then queue_packet i p res d3
             else Some (res, d3)) = Some (e, d')"
      unfolding query_entry_def Let_def d2_def by (simp only: bind_eq_Some_conv split_paired_Ex prod.case) blast
    have k: "keeps d2 d3" using d3 by (auto dest: etharp_request_keeps split: if_splits)
    have d3': "arp_ok d3" "no_news d d3" "live (arp_table d3 ! i)" "eip (arp_table d3 ! i) = ip" "nif d3 = nif d"
    proof -
      show "arp_ok d3" using keeps_ok [OF k] d2 by simp
      show "no_news d d3" using no_news_trans [OF _ keeps_no_news [OF k]] d2 by simp
    qed (use d2 k n in \<open>simp_all add: keeps_def\<close>)
    have fin: "keeps d3 d' \<or> arp_ok d' \<and> no_news d3 d' \<and> nif d' = nif d3"
    proof (cases pkt)
      case None
      then show ?thesis using rest by simp
    next
      case (Some p)
      show ?thesis
      proof (cases "estate (arp_table d3 ! i) = ETHARP_STATE_PENDING")
        case False
        then show ?thesis using rest Some by (auto dest: etharp_send_ip_keeps split: if_splits)
      next
        case p: True
        then have qp: "queue_packet i p res d3 = Some (e, d')" using rest Some by simp
        show ?thesis
        proof (cases "keeps d3 d'")
          case False
          then obtain rp where rp: "arp_table d' =
              (arp_table d3)[i := (arp_table d3 ! i)\<lparr>equeue := equeue (arp_table d3 ! i) @ [rp]\<rparr>]"
            "nif d' = nif d3" "etharp_cached_entry d' = etharp_cached_entry d3"
            using queue_packet_table [OF qp] by blast
          have "arp_ok d' \<and> no_news d3 d'"
            using p d3' True rp(3) by (intro pending_upd [OF d3'(1) i _ _ _ rp(1,2)]) (simp_all add: arp_ok_def)
          then show ?thesis using rp(2) by simp
        qed simp
      qed
    qed
    then show ?thesis
    proof
      assume k: "keeps d3 d'"
      then show ?thesis using keeps_ok [OF k] no_news_trans [OF d3'(2) keeps_no_news [OF k]] d3' by (simp add: keeps_def)
    next
      assume "arp_ok d' \<and> no_news d3 d' \<and> nif d' = nif d3"
      then show ?thesis using no_news_trans [OF d3'(2)] d3' by simp
    qed
  qed
qed

lemma etharp_output_effect:
  assumes ok: "arp_ok d" and run: "etharp_output pkt ip d = Some (e, d')"
  shows "arp_ok d' \<and> no_news d d' \<and> nif d' = nif d"
proof -
  have *: "arp_ok d' \<and> no_news d d' \<and> nif d' = nif d" if "keeps d d'"
    using that ok by (auto intro: keeps_ok keeps_no_news simp: keeps_def)
  obtain r st where h: "pbuf_header (Some pkt) 14 (pm d) = Some (r, st)"
    using run by (auto simp: etharp_output_def bind_eq_Some_conv)
  have "keeps d d' \<or> (\<exists>a. etharp_query a (Some pkt) (d\<lparr>pm := st\<rparr>) = Some (e, d'))"
    using run h by (auto simp: etharp_output_def Let_def dest: etharp_send_ip_keeps split: if_splits)
  moreover have "arp_ok (d\<lparr>pm := st\<rparr>)" using ok by (simp add: arp_ok_def)
  ultimately show ?thesis
    using * etharp_query_effect [of "d\<lparr>pm := st\<rparr>"] by (auto simp: no_news_def arp_lookup_def)
qed

subsection \<open>Ageing\<close>

definition age :: "etharp_entry \<Rightarrow> etharp_entry" where
  "age e = (let e = e\<lparr>ctime := ctime e + 1\<rparr>
            in if arp_expired e then e\<lparr>equeue := [], estate := ETHARP_STATE_EMPTY\<rparr> else e)"

lemma age_step:
  assumes "i < length (arp_table d)"
    and "tmr_loop (i # is) d = Some d'"
  shows "\<exists>d1. tmr_loop is d1 = Some d' \<and> arp_table d1 = (arp_table d)[i := age (arp_table d ! i)] \<and>
    nif d1 = nif d \<and> etharp_cached_entry d1 = etharp_cached_entry d"
proof -
  let ?d = "upd_entry i (\<lambda>e. e\<lparr>ctime := ctime e + 1\<rparr>) d"
  let ?e = "(arp_table d ! i)\<lparr>ctime := ctime (arp_table d ! i) + 1\<rparr>"
  have e: "arp_table ?d ! i = ?e" using assms(1) by simp
  show ?thesis
  proof (cases "arp_expired ?e")
    case False
    then have "tmr_loop is ?d = Some d'" using assms e by (simp add: Let_def)
    then show ?thesis using False by (intro exI [of _ ?d]) (simp add: age_def)
  next
    case True
    show ?thesis
    proof (cases "equeue (arp_table d ! i) = []")
      case q: True
      let ?d1 = "upd_entry i (\<lambda>e. e\<lparr>estate := ETHARP_STATE_EMPTY\<rparr>) ?d"
      have "tmr_loop is ?d1 = Some d'" using assms e True q by (simp add: Let_def)
      moreover have "?e\<lparr>estate := ETHARP_STATE_EMPTY\<rparr> = age (arp_table d ! i)"
        using True q by (cases "arp_table d ! i") (simp add: age_def)
      ultimately show ?thesis using assms(1) by (intro exI [of _ ?d1]) simp
    next
      case q: False
      obtain st where st: "free_etharp_q (equeue (arp_table d ! i)) (pm d) = Some st"
        and r: "tmr_loop is (upd_entry i (\<lambda>e. e\<lparr>estate := ETHARP_STATE_EMPTY\<rparr>)
             (upd_entry i (\<lambda>e. e\<lparr>equeue := []\<rparr>) (?d\<lparr>pm := st\<rparr>))) = Some d'"
        using assms e True q by (auto simp: Let_def bind_eq_Some_conv)
      have "?e\<lparr>equeue := [], estate := ETHARP_STATE_EMPTY\<rparr> = age (arp_table d ! i)"
        using True by (simp add: age_def)
      then show ?thesis using r assms(1) by (intro exI conjI) (assumption | simp)+
    qed
  qed
qed

lemma tmr_loop_table:
  "tmr_loop is d = Some d' \<Longrightarrow> distinct is \<Longrightarrow> set is \<subseteq> {..<length (arp_table d)} \<Longrightarrow>
   nif d' = nif d \<and> etharp_cached_entry d' = etharp_cached_entry d \<and> length (arp_table d') = length (arp_table d) \<and>
   (\<forall>j < length (arp_table d). arp_table d' ! j = (if j \<in> set is then age (arp_table d ! j) else arp_table d ! j))"
proof (induction "is" arbitrary: d)
  case Nil
  then show ?case by simp
next
  case (Cons i "is")
  then obtain d1 where d1: "tmr_loop is d1 = Some d'" "arp_table d1 = (arp_table d)[i := age (arp_table d ! i)]"
    "nif d1 = nif d" "etharp_cached_entry d1 = etharp_cached_entry d"
    using age_step [of i d "is" d'] by auto
  from Cons.IH [OF d1(1)] Cons.prems(2,3) show ?case by (auto simp: d1 nth_list_update)
qed

lemma etharp_tmr_table:
  assumes "etharp_tmr d = Some d'" "length (arp_table d) = ARP_TABLE_SIZE"
  shows "arp_table d' = map age (arp_table d) \<and> nif d' = nif d \<and> etharp_cached_entry d' = etharp_cached_entry d"
proof -
  have "set [0..<ARP_TABLE_SIZE] \<subseteq> {..<length (arp_table d)}" using assms(2) by auto
  from tmr_loop_table [OF assms(1) [unfolded etharp_tmr_def] distinct_upt this] assms(2) show ?thesis
    by (auto intro!: nth_equalityI)
qed

lemma age_simps [simp]: "eip (age e) = eip e" "eeth (age e) = eeth e"
  by (simp_all add: age_def Let_def)

lemma age_stable: "stable (age e) \<Longrightarrow> stable e"
  by (simp add: age_def Let_def split: if_splits)

lemma age_live: "live (age e) \<Longrightarrow> live e"
  by (simp add: age_def Let_def live_def split: if_splits)

lemma age_queue: "(equeue e \<noteq> [] \<longrightarrow> estate e = ETHARP_STATE_PENDING) \<Longrightarrow>
  equeue (age e) \<noteq> [] \<longrightarrow> estate (age e) = ETHARP_STATE_PENDING"
  by (auto simp: age_def Let_def)

lemma etharp_tmr_effect:
  assumes ok: "arp_ok d" and run: "etharp_tmr d = Some d'"
  shows "arp_ok d' \<and> no_news d d' \<and> nif d' = nif d"
proof -
  have T: "table_ok (nif d) (arp_table d)" "length (arp_table d) = ARP_TABLE_SIZE"
    using ok by (simp_all add: arp_ok_def table_ok_def)
  note t = etharp_tmr_table [OF run T(2)]
  have "table_ok (nif d) (map age (arp_table d))"
    using T(1) age_live age_queue unfolding table_ok_def length_map set_map
    by (simp add: ball_simps)
  then have ok': "arp_ok d'" using t ok by (simp add: arp_ok_def)
  have "\<exists>x' \<in> set (arp_table d). stable x' \<and> eip x' = eip x \<and> eeth x' = eeth x"
    if "x \<in> set (arp_table d')" "stable x" for x
    using that t age_stable by force
  then show ?thesis using ok' t no_newsI [OF ok ok'] by blast
qed


subsection \<open>A cache that only learns\<close>

text \<open>
  \<open>run_events\<close> runs a list of events and records what each one claims.  A learned cache answers with
  what it has been told: every answer after a step was there before or is the step's claim.
\<close>

fun run_events :: "('e \<Rightarrow> 'd \<Rightarrow> 'd option) \<Rightarrow> ('e \<Rightarrow> 'd \<Rightarrow> ('a \<times> 'h) option) \<Rightarrow> 'e list \<Rightarrow> 'd \<Rightarrow>
    ('d \<times> ('a \<times> 'h) list) option" where
  "run_events step claim [] d = Some (d, [])"
| "run_events step claim (ev # evs) d = do {
     d' \<leftarrow> step ev d;
     (d'', cs) \<leftarrow> run_events step claim evs d';
     Some (d'', (case claim ev d of None \<Rightarrow> cs | Some c \<Rightarrow> c # cs))
   }"

locale learned_cache =
  fixes inv :: "'d \<Rightarrow> bool"
    and look :: "'d \<Rightarrow> 'a \<Rightarrow> 'h option"
    and step :: "'e \<Rightarrow> 'd \<Rightarrow> 'd option"
    and claim :: "'e \<Rightarrow> 'd \<Rightarrow> ('a \<times> 'h) option"
  assumes step_inv: "inv d \<Longrightarrow> step ev d = Some d' \<Longrightarrow> inv d'"
    and step_look: "inv d \<Longrightarrow> step ev d = Some d' \<Longrightarrow> look d' a = Some h \<Longrightarrow>
      claim ev d = Some (a, h) \<or> look d a = Some h \<and> (\<forall>h'. claim ev d \<noteq> Some (a, h'))"
begin

lemma run_inv: "run_events step claim evs d = Some (d', cs) \<Longrightarrow> inv d \<Longrightarrow> inv d'"
  by (induction evs arbitrary: d cs) (auto simp: bind_eq_Some_conv intro: step_inv)

lemma answers_latest_claim:
  "run_events step claim evs d = Some (d', cs) \<Longrightarrow> inv d \<Longrightarrow> look d' a = Some h \<Longrightarrow>
   map_of (rev cs) a = Some h \<or> map_of (rev cs) a = None \<and> look d a = Some h"
proof (induction evs arbitrary: d cs)
  case Nil
  then show ?case by simp
next
  case (Cons ev evs)
  then obtain d1 cs1 where d1: "step ev d = Some d1" "run_events step claim evs d1 = Some (d', cs1)"
    and cs: "cs = (case claim ev d of None \<Rightarrow> cs1 | Some c \<Rightarrow> c # cs1)"
    by (auto simp: bind_eq_Some_conv)
  note IH = Cons.IH [OF d1(2) step_inv [OF Cons.prems(2) d1(1)] Cons.prems(3)]
  have head: "map_of (rev cs) a = (case map_of (rev cs1) a of
      Some h' \<Rightarrow> Some h' | None \<Rightarrow> (case claim ev d of Some (b, h') \<Rightarrow> if b = a then Some h' else None | None \<Rightarrow> None))"
    by (auto simp: cs map_add_def split: option.splits)
  from IH show ?case
  proof
    assume "map_of (rev cs1) a = Some h"
    then show ?thesis by (simp add: head)
  next
    assume n: "map_of (rev cs1) a = None \<and> look d1 a = Some h"
    then have "claim ev d = Some (a, h) \<or> look d a = Some h \<and> (\<forall>h'. claim ev d \<noteq> Some (a, h'))"
      using step_look [OF Cons.prems(2) d1(1)] by blast
    then show ?thesis using n by (auto simp: head split: option.splits)
  qed
qed

lemma no_stale_answer:
  "run_events step claim evs d = Some (d', cs) \<Longrightarrow> inv d \<Longrightarrow> (\<forall>a. look d a = None) \<Longrightarrow> look d' a = Some h \<Longrightarrow>
   map_of (rev cs) a = Some h"
  using answers_latest_claim by fastforce

end

subsection \<open>Events of the ARP cache\<close>

text \<open>
  Between two calls of \<open>etharp.c\<close> the rest of the stack and the driver change the packet memory and the
  ring: \<open>Elsewhere\<close>.
\<close>

datatype arp_event =
    Arp_packet addr
  | Ip_packet addr
  | Send addr u32
  | Query u32 "addr option"
  | Tick
  | Elsewhere pmem emac

definition arp_step :: "arp_event \<Rightarrow> 'a arp_scheme \<Rightarrow> 'a arp_scheme option" where
  "arp_step ev d =
     (case ev of
        Arp_packet p \<Rightarrow> etharp_arp_input (hwaddr (nif d)) p d
      | Ip_packet p \<Rightarrow> etharp_ip_input p d
      | Send p ip \<Rightarrow> map_option snd (etharp_output p ip d)
      | Query ip p \<Rightarrow> map_option snd (etharp_query ip p d)
      | Tick \<Rightarrow> etharp_tmr d
      | Elsewhere st m \<Rightarrow> Some (d\<lparr>pm := st, mac := m\<rparr>))"

text \<open>The binding a received packet claims: sender addresses of an ARP packet, sources of an IP packet of the local net.\<close>

definition arp_packet_claim :: "addr \<Rightarrow> pmem \<Rightarrow> (u32 \<times> u8 list) option" where
  "arp_packet_claim p st = do {
     b \<leftarrow> pbufs st p;
     hwtype \<leftarrow> get_u16 st p 14;
     proto \<leftarrow> get_u16 st p 16;
     lens \<leftarrow> get_u16 st p 18;
     type \<leftarrow> get_u16 st p 12;
     sip \<leftarrow> get_u32 st p 28;
     shw \<leftarrow> get_bytes st p 22 6;
     (if unat (len b) < 42 \<or> hwtype \<noteq> htons 1 \<or> lens \<noteq> htons 0x0604 \<or> proto \<noteq> htons ETHTYPE_IP \<or> type \<noteq> htons ETHTYPE_ARP
      then None else Some (sip, shw))
   }"

definition ip_packet_claim :: "addr \<Rightarrow> 'a arp_scheme \<Rightarrow> (u32 \<times> u8 list) option" where
  "ip_packet_claim p d = do {
     src \<leftarrow> get_u32 (pm d) p 26;
     eth \<leftarrow> get_bytes (pm d) p 6 6;
     (if ip_addr_netcmp src (ip_addr (nif d)) (netmask (nif d)) then Some (src, eth) else None)
   }"

definition arp_claim :: "arp_event \<Rightarrow> 'a arp_scheme \<Rightarrow> (u32 \<times> u8 list) option" where
  "arp_claim ev d =
     (case ev of Arp_packet p \<Rightarrow> arp_packet_claim p (pm d) | Ip_packet p \<Rightarrow> ip_packet_claim p d | _ \<Rightarrow> None)"

lemma etharp_ip_input_cases:
  assumes "etharp_ip_input p d = Some d'"
  shows "ip_packet_claim p d = None \<and> d' = d \<or>
    (\<exists>ip h e. ip_packet_claim p d = Some (ip, h) \<and> update_arp_entry ip h 0 d = Some (e, d'))"
  using assms by (auto simp: etharp_ip_input_def ip_packet_claim_def bind_eq_Some_conv split: if_splits)

lemma arp_process_cases:
  assumes "arp_process eth p d = Some d'"
  shows "\<exists>ip h flgs e d1. get_u32 (pm d) p 28 = Some ip \<and> get_bytes (pm d) p 22 6 = Some h \<and>
    update_arp_entry ip h flgs d = Some (e, d1) \<and> keeps d1 d'"
proof -
  obtain ip dip h where g: "get_u32 (pm d) p 28 = Some ip" "get_u32 (pm d) p 38 = Some dip"
    "get_bytes (pm d) p 22 6 = Some h"
    using assms by (auto simp: arp_process_def bind_eq_Some_conv)
  define fu where "fu \<longleftrightarrow> (if ip_addr (nif d) = 0 then False else dip = ip_addr (nif d))"
  obtain e d1 opcode d2 st r where u: "update_arp_entry ip h (if fu then ETHARP_TRY_HARD else 0) d = Some (e, d1)"
    and r: "(if htons opcode = 1 \<and> fu
          then do {
            st \<leftarrow> arp_reply p eth (ip_addr (nif d1)) (pm d1);
            (_, d) \<leftarrow> link_output p (d1\<lparr>pm := st\<rparr>);
            Some d
          }
          else Some d1) = Some d2" "pbuf_free (Some p) (pm d2) = Some (r, st)" "d' = d2\<lparr>pm := st\<rparr>"
    using assms unfolding arp_process_def g fu_def
    by (simp add: bind_eq_Some_conv Let_def) blast
  have "keeps d1 d2" using r(1) by (auto simp: bind_eq_Some_conv dest: link_output_keeps split: if_splits)
  then show ?thesis using g u r(3) by auto
qed

lemma etharp_arp_input_cases:
  assumes "etharp_arp_input eth p d = Some d'"
  shows "arp_packet_claim p (pm d) = None \<and> keeps d d' \<or>
    (\<exists>ip h flgs e d1. arp_packet_claim p (pm d) = Some (ip, h) \<and> update_arp_entry ip h flgs d = Some (e, d1) \<and> keeps d1 d')"
proof -
  obtain b where b: "pbufs (pm d) p = Some b" using assms by (auto simp: etharp_arp_input_def bind_eq_Some_conv)
  show ?thesis
  proof (cases "unat (len b) < 42")
    case True
    then have "arp_packet_claim p (pm d) = None" using b by (simp add: arp_packet_claim_def)
    then show ?thesis using assms b True by (auto simp: etharp_arp_input_def bind_eq_Some_conv)
  next
    case False
    obtain hwtype proto lns type where
      g: "get_u16 (pm d) p 14 = Some hwtype" "get_u16 (pm d) p 16 = Some proto"
         "get_u16 (pm d) p 18 = Some lns" "get_u16 (pm d) p 12 = Some type"
      using assms b False by (auto simp: etharp_arp_input_def bind_eq_Some_conv)
    show ?thesis
    proof (cases "hwtype \<noteq> htons 1 \<or> lns \<noteq> htons 0x0604 \<or> proto \<noteq> htons ETHTYPE_IP \<or> type \<noteq> htons ETHTYPE_ARP")
      case True
      then have "arp_packet_claim p (pm d) = None" using b g by (simp add: arp_packet_claim_def)
      then show ?thesis using assms b False g True by (auto simp: etharp_arp_input_def bind_eq_Some_conv)
    next
      case G: False
      then have "arp_process eth p d = Some d'" using assms b False g by (simp add: etharp_arp_input_def)
      from arp_process_cases [OF this] show ?thesis using b False g G by (auto simp: arp_packet_claim_def)
    qed
  qed
qed

lemma claim_step:
  assumes ok: "arp_ok d" and u: "update_arp_entry ip h flgs d = Some (e, d1)" and k: "keeps d1 d'"
  shows "arp_ok d' \<and> (arp_lookup d' a = Some x \<longrightarrow> a = ip \<and> x = h \<or> a \<noteq> ip \<and> arp_lookup d a = Some x)"
  using update_arp_entry_ok [OF ok u] update_arp_entry_lookup [OF ok u] keeps_ok [OF k] keeps_lookup [OF k] by simp

lemma arp_step_effect:
  assumes ok: "arp_ok d" and run: "arp_step ev d = Some d'"
  shows "arp_ok d' \<and> (arp_lookup d' a = Some h \<longrightarrow>
    arp_claim ev d = Some (a, h) \<or> arp_lookup d a = Some h \<and> (\<forall>h'. arp_claim ev d \<noteq> Some (a, h')))"
proof (cases ev)
  case (Arp_packet p)
  then have "etharp_arp_input (hwaddr (nif d)) p d = Some d'" using run by (simp add: arp_step_def)
  from etharp_arp_input_cases [OF this] show ?thesis
  proof (elim disjE conjE exE)
    assume "arp_packet_claim p (pm d) = None" "keeps d d'"
    then show ?thesis
      using Arp_packet keeps_ok [OF \<open>keeps d d'\<close> ok] keeps_lookup [OF \<open>keeps d d'\<close>] by (simp add: arp_claim_def)
  next
    fix ip x flgs e d1
    assume c: "arp_packet_claim p (pm d) = Some (ip, x)" "update_arp_entry ip x flgs d = Some (e, d1)" "keeps d1 d'"
    from claim_step [OF ok c(2,3)] show ?thesis using Arp_packet c(1) by (auto simp: arp_claim_def)
  qed
next
  case (Ip_packet p)
  then have "etharp_ip_input p d = Some d'" using run by (simp add: arp_step_def)
  from etharp_ip_input_cases [OF this] show ?thesis
  proof (elim disjE conjE exE)
    assume "ip_packet_claim p d = None" "d' = d"
    then show ?thesis using Ip_packet ok by (auto simp: arp_claim_def)
  next
    fix ip x e
    assume c: "ip_packet_claim p d = Some (ip, x)" "update_arp_entry ip x 0 d = Some (e, d')"
    from claim_step [OF ok c(2) keeps_refl] show ?thesis using Ip_packet c(1) by (auto simp: arp_claim_def)
  qed
next
  case (Send p ip)
  then show ?thesis using run etharp_output_effect [OF ok] by (auto simp: arp_step_def arp_claim_def no_news_def)
next
  case (Query ip p)
  then show ?thesis using run etharp_query_effect [OF ok] by (auto simp: arp_step_def arp_claim_def no_news_def)
next
  case Tick
  then show ?thesis using run etharp_tmr_effect [OF ok] by (auto simp: arp_step_def arp_claim_def no_news_def)
next
  case (Elsewhere st m)
  then have "arp_ok d' \<and> arp_lookup d' a = arp_lookup d a"
    using run ok by (auto simp: arp_step_def arp_ok_def arp_lookup_def)
  then show ?thesis using Elsewhere by (simp add: arp_claim_def)
qed

interpretation arp_cache: learned_cache arp_ok arp_lookup arp_step arp_claim
  by unfold_locales (use arp_step_effect in blast)+

lemma etharp_find_addr_lookup:
  assumes ok: "arp_ok d" and run: "etharp_find_addr ip d = Some (r, d')"
  shows "arp_lookup d ip = map_option (\<lambda>(i, h, a). h) r \<and> (\<forall>i h a. r = Some (i, h, a) \<longrightarrow> a = ip)"
proof -
  have T: "table_ok (nif d) (arp_table d)" "length (arp_table d) = ARP_TABLE_SIZE"
    using ok by (simp_all add: arp_ok_def table_ok_def)
  obtain x d1 where x: "find_entry (Some ip) ETHARP_FIND_ONLY d = Some (x, d1)"
    and r: "r = (case x of None \<Rightarrow> None | Some i \<Rightarrow>
       let e = arp_table d1 ! i in if stable e then Some (i, eeth e, eip e) else None)"
    using run by (auto simp: etharp_find_addr_def bind_eq_Some_conv)
  note spec = find_entry_spec [OF ok x]
  show ?thesis
  proof (cases x)
    case None
    then have "absent ip (arp_table d)" using spec by (simp add: absent_def)
    then have "arp_lookup d ip \<noteq> Some h" for h unfolding arp_lookup_Some [OF T(1)] by (auto simp: absent_def live_def)
    then show ?thesis using None r by (cases "arp_lookup d ip") auto
  next
    case (Some i)
    then have i: "i < ARP_TABLE_SIZE" "live (arp_table d ! i)" "eip (arp_table d ! i) = ip" "arp_table d1 = arp_table d"
      using spec by auto
    show ?thesis
    proof (cases "stable (arp_table d ! i)")
      case True
      then have "arp_lookup d ip = Some (eeth (arp_table d ! i))"
        unfolding arp_lookup_Some [OF T(1)] using i T(2) by auto
      then show ?thesis using r Some i True by simp
    next
      case False
      have "e = arp_table d ! i" if e: "e \<in> set (arp_table d)" "stable e" "eip e = ip" for e
      proof -
        obtain j where "j < length (arp_table d)" "arp_table d ! j = e" using e(1) by (auto simp: in_set_conv_nth)
        moreover have "live e" using e by (simp add: live_def)
        ultimately have "j = i" using T i e(3) unfolding table_ok_def by metis
        then show ?thesis using \<open>arp_table d ! j = e\<close> by simp
      qed
      then have "arp_lookup d ip \<noteq> Some h" for h unfolding arp_lookup_Some [OF T(1)] using False by auto
      then show ?thesis using r Some i False by (cases "arp_lookup d ip") auto
    qed
  qed
qed

end
