(* ===== verification/Etharp_Reply.thy ===== *)
theory Etharp_Reply
  imports Etharp_Props
begin

text \<open>
  The properties of the ARP cache: which entry is taken, that no answer is stale, how entries age, and the reply to a
  request for the station's own address.
\<close>

subsection \<open>Totality\<close>

lemma select_entry_total:
  assumes "\<forall>e \<in> set (arp_table d). free_etharp_q (equeue e) (pm d) \<noteq> None" "length (arp_table d) = ARP_TABLE_SIZE"
  shows "select_entry c d \<noteq> None"
proof -
  have "free_etharp_q (equeue (arp_table d ! old_queue c)) (pm d) \<noteq> None" if "old_queue c < ARP_TABLE_SIZE"
    using that assms by simp
  then show ?thesis by (auto simp: select_entry_def)
qed

lemma find_entry_total:
  assumes "\<forall>e \<in> set (arp_table d). free_etharp_q (equeue e) (pm d) \<noteq> None" "length (arp_table d) = ARP_TABLE_SIZE"
  shows "find_entry ip flgs d \<noteq> None"
proof -
  have "\<exists>i d'. select_entry c d = Some (i, d')" for c using select_entry_total [OF assms, of c] by auto
  then have "select_entry c d \<bind> (\<lambda>(i, d). Some (i, case i of None \<Rightarrow> d | Some i \<Rightarrow> reset_entry i ip d)) \<noteq> None" for c
    by (metis (mono_tags, lifting) bind.bind_lunit case_prod_conv option.distinct(1))
  then show ?thesis by (simp add: find_entry_def split: sum.split)
qed

lemma find_only_total: "\<exists>r d'. etharp_find_addr ip d = Some (r, d')"
  by (simp add: etharp_find_addr_def find_entry_def split: sum.split)

lemma find_entry_shape:
  assumes nq: "\<forall>e \<in> set (arp_table d). equeue e = []" and l: "length (arp_table d) = ARP_TABLE_SIZE"
    and run: "find_entry ip flgs d = Some (r, d')"
  shows "\<exists>T c. d' = d\<lparr>arp_table := T, etharp_cached_entry := c\<rparr>"
proof -
  have id: "\<exists>T k. d = d\<lparr>arp_table := T, etharp_cached_entry := k\<rparr>"
    by (rule exI [of _ "arp_table d"], rule exI [of _ "etharp_cached_entry d"]) simp
  have c: "\<exists>T k. d\<lparr>etharp_cached_entry := j\<rparr> = d\<lparr>arp_table := T, etharp_cached_entry := k\<rparr>" for j
    by (rule exI [of _ "arp_table d"], rule exI [of _ j]) simp
  have s: "x = d \<or> (\<exists>T. x = d\<lparr>arp_table := T\<rparr>)" if "select_entry k d = Some (i, x)" for k i x
    using that nq l by (auto simp: select_entry_def upd_entry_def bind_eq_Some_conv split: if_splits)
  have re: "\<exists>U k. reset_entry i ip (d\<lparr>arp_table := T\<rparr>) = d\<lparr>arp_table := U, etharp_cached_entry := k\<rparr>"
    "\<exists>U k. reset_entry i ip d = d\<lparr>arp_table := U, etharp_cached_entry := k\<rparr>" for i T
    by (cases ip; auto simp: reset_entry_def upd_entry_def Let_def)+
  have up: "\<exists>U k. d\<lparr>arp_table := T\<rparr> = d\<lparr>arp_table := U, etharp_cached_entry := k\<rparr>" for T
    by (rule exI [of _ T], rule exI [of _ "etharp_cached_entry d"]) simp
  show ?thesis
    using run id c re up
    by (auto simp: find_entry_def bind_eq_Some_conv dest!: s split: if_splits sum.splits option.splits)
qed

text \<open>With no packet waiting, a binding is learned when the table has room for it or may be recycled.\<close>

lemma update_arp_entry_fresh:
  assumes ok: "arp_ok d" and nq: "\<forall>e \<in> set (arp_table d). equeue e = []" and fo: "flgs AND ETHARP_FIND_ONLY = 0"
    and room: "flgs AND ETHARP_TRY_HARD \<noteq> 0 \<or> (\<exists>e \<in> set (arp_table d). \<not> live e \<or> eip e = ip)"
  shows "\<exists>e T c. update_arp_entry ip h flgs d = Some (e, d\<lparr>arp_table := T, etharp_cached_entry := c\<rparr>) \<and>
    arp_ok (d\<lparr>arp_table := T, etharp_cached_entry := c\<rparr>) \<and> (\<forall>e \<in> set T. equeue e = []) \<and>
    (unicast (nif d) ip \<longrightarrow> arp_lookup (d\<lparr>arp_table := T, etharp_cached_entry := c\<rparr>) ip = Some h)"
proof (cases "unicast (nif d) ip")
  case False
  then show ?thesis
    using ok nq unfolding unicast_eq update_arp_entry_def
    by (intro exI [of _ ERR_ARG] exI [of _ "arp_table d"] exI [of _ "etharp_cached_entry d"]) auto
next
  case True
  have T: "table_ok (nif d) (arp_table d)" "length (arp_table d) = ARP_TABLE_SIZE"
    using ok by (simp_all add: arp_ok_def table_ok_def)
  have "find_entry (Some ip) flgs d \<noteq> None" using nq T by (intro find_entry_total) simp_all
  then obtain r d1 where d1: "find_entry (Some ip) flgs d = Some (r, d1)" by auto
  note spec = find_entry_spec [OF ok d1]
  from spec room fo obtain i where i: "r = Some i" "i < ARP_TABLE_SIZE" by (cases r) auto
  obtain U k where sh: "d1 = d\<lparr>arp_table := U, etharp_cached_entry := k\<rparr>" using find_entry_shape [OF nq T(2) d1] by blast
  have l: "length (arp_table d1) = ARP_TABLE_SIZE" and ip: "eip (arp_table d1 ! i) = ip"
    using spec i nq T by (auto simp: fresh_entry_def)
  have nq1: "\<forall>e \<in> set (arp_table d1). equeue e = []"
    using spec i nq T by (auto simp: fresh_entry_def dest!: set_update_subset_insert [THEN subsetD])
  let ?e = "(arp_table d1 ! i)\<lparr>estate := ETHARP_STATE_STABLE, eeth := h, ctime := 0\<rparr>"
  let ?d2 = "d\<lparr>arp_table := (arp_table d1)[i := ?e], etharp_cached_entry := k\<rparr>"
  have q: "equeue (arp_table d1 ! i) = []" using nq1 i l by simp
  have run: "update_arp_entry ip h flgs d = Some (ERR_OK, ?d2)"
    using True d1 i l q unfolding unicast_eq update_arp_entry_def
    by (simp add: Let_def upd_entry_def sh)
  have ok2: "arp_ok ?d2" by (rule update_arp_entry_ok [OF ok run])
  have "?e \<in> set ((arp_table d1)[i := ?e])" using i l by (simp add: set_update_memI)
  then have "?e \<in> set (arp_table ?d2)" by simp
  moreover have "stable ?e" "eip ?e = ip" "eeth ?e = h" using ip by simp_all
  ultimately have "\<exists>e \<in> set (arp_table ?d2). stable e \<and> eip e = ip \<and> eeth e = h" by blast
  moreover have "table_ok (nif ?d2) (arp_table ?d2)" using ok2 by (simp only: arp_ok_def)
  ultimately have "arp_lookup ?d2 ip = Some h" by (simp only: arp_lookup_Some)
  moreover have "\<forall>e \<in> set ((arp_table d1)[i := ?e]). equeue e = []"
    using nq1 q by (auto dest!: set_update_subset_insert [THEN subsetD])
  ultimately show ?thesis using run ok2 by blast
qed

lemma update_arp_entry_learns:
  assumes "arp_ok d" "\<forall>e \<in> set (arp_table d). equeue e = []"
  shows "\<exists>e d'. update_arp_entry ip h ETHARP_TRY_HARD d = Some (e, d') \<and> arp_ok d' \<and> nif d' = nif d \<and>
    pm d' = pm d \<and> mac d' = mac d \<and> gTxBuf d' = gTxBuf d \<and> (unicast (nif d) ip \<longrightarrow> arp_lookup d' ip = Some h)"
  using update_arp_entry_fresh [of d ETHARP_TRY_HARD ip h] assms by auto

subsection \<open>The reply\<close>

text \<open>An ARP packet on the wire.\<close>

definition arp_frame :: "u8 list \<Rightarrow> u8 list \<Rightarrow> u16 \<Rightarrow> u8 list \<Rightarrow> u32 \<Rightarrow> u8 list \<Rightarrow> u32 \<Rightarrow> u8 list" where
  "arp_frame dst src op shw sip dhw dip =
     dst @ src @ [8, 6, 0, 1, 8, 0, 6, 4] @ bytes_of_u16 (htons op) @ shw @ bytes_of_u32 sip @ dhw @ bytes_of_u32 dip"

lemma list6: "length xs = 6 \<Longrightarrow> \<exists>a b c d e f. xs = [a, b, c, d, e, f]"
  by (auto simp: eval_nat_numeral length_Suc_conv)

lemma list4: "length xs = 4 \<Longrightarrow> \<exists>a b c d. xs = [a, b, c, d]"
  by (auto simp: eval_nat_numeral length_Suc_conv)

lemma arp_frame_length: "length dst = 6 \<Longrightarrow> length src = 6 \<Longrightarrow> length shw = 6 \<Longrightarrow> length dhw = 6 \<Longrightarrow>
  length (arp_frame dst src op shw sip dhw dip) = 42"
  by (simp add: arp_frame_def)

lemma arp_frame_fields:
  fixes op :: u16 and sip dip :: u32 and rest :: "u8 list"
  assumes "length dst = 6" "length src = 6" "length shw = 6" "length dhw = 6"
  defines "xs \<equiv> arp_frame dst src op shw sip dhw dip @ rest"
  shows "field16 xs 14 = htons 1" "field16 xs 16 = htons ETHTYPE_IP" "field16 xs 18 = htons 0x0604"
    "field16 xs 12 = htons ETHTYPE_ARP" "field16 xs 20 = htons op" "field32 xs 28 = sip" "field32 xs 38 = dip"
    "field xs 22 6 = shw" "field xs 28 4 = bytes_of_u32 sip"
proof -
  obtain a1 a2 a3 a4 a5 a6 b1 b2 b3 b4 b5 b6 where "dst = [a1, a2, a3, a4, a5, a6]" "src = [b1, b2, b3, b4, b5, b6]"
    using list6 [OF assms(1)] list6 [OF assms(2)] by auto
  moreover obtain c1 c2 c3 c4 c5 c6 d1 d2 d3 d4 d5 d6 where "shw = [c1, c2, c3, c4, c5, c6]" "dhw = [d1, d2, d3, d4, d5, d6]"
    using list6 [OF assms(3)] list6 [OF assms(4)] by auto
  moreover have "htons 1 = u16_of_bytes 0 1" "htons ETHTYPE_IP = u16_of_bytes 8 0" "htons 0x0604 = u16_of_bytes 6 4"
    "htons ETHTYPE_ARP = u16_of_bytes 8 6"
    by (simp_all add: htons_def u16_of_bytes_def)
  ultimately show "field16 xs 14 = htons 1" "field16 xs 16 = htons ETHTYPE_IP" "field16 xs 18 = htons 0x0604"
    "field16 xs 12 = htons ETHTYPE_ARP" "field16 xs 20 = htons op" "field32 xs 28 = sip" "field32 xs 38 = dip"
    "field xs 22 6 = shw" "field xs 28 4 = bytes_of_u32 sip"
    by (simp_all add: xs_def arp_frame_def field16_def field32_def field_def bytes_of_u32_def bytes_of_u16_def)
qed

lemma arp_reply_ok:
  assumes h: "holds st p (arp_frame dst src 1 shw sip dhw dip @ rest)"
    and l: "length dst = 6" "length src = 6" "length shw = 6" "length dhw = 6" "length eth = 6"
  shows "\<exists>st'. arp_reply p eth ip st = Some st' \<and> writes_only {PData p} st st' \<and>
    holds st' p (arp_frame shw eth 2 eth ip shw sip @ rest)"
proof -
  let ?xs = "arp_frame dst src 1 shw sip dhw dip @ rest"
  have n: "length ?xs = 42 + length rest" using arp_frame_length l by simp
  note f = arp_frame_fields [OF l(1-4), of 1 sip dip rest]
  obtain s1 where s1: "put_bytes p 20 (bytes_of_u16 (htons 2)) st = Some s1" "writes_only {PData p} st s1"
    "holds s1 p (splice 20 (bytes_of_u16 (htons 2)) ?xs)"
    using holds_put [OF h, of 20 "bytes_of_u16 (htons 2)"] n by auto
  obtain s2 where s2: "put_bytes p 38 (bytes_of_u32 sip) s1 = Some s2" "writes_only {PData p} s1 s2"
    "holds s2 p (splice 38 (bytes_of_u32 sip) (splice 20 (bytes_of_u16 (htons 2)) ?xs))"
    using holds_put [OF s1(3), of 38 "bytes_of_u32 sip"] n by auto
  let ?x2 = "splice 38 (bytes_of_u32 sip) (splice 20 (bytes_of_u16 (htons 2)) ?xs)"
  have n2: "length ?x2 = 42 + length rest" using n by simp
  obtain s3 where s3: "put_bytes p 28 (bytes_of_u32 ip) s2 = Some s3" "writes_only {PData p} s2 s3"
    "holds s3 p (splice 28 (bytes_of_u32 ip) ?x2)"
    using holds_put [OF s2(3), of 28 "bytes_of_u32 ip"] n2 by auto
  obtain s4 where s4: "put_bytes p 32 shw s3 = Some s4" "writes_only {PData p} s3 s4"
    "holds s4 p (splice 32 shw (splice 28 (bytes_of_u32 ip) ?x2))"
    using holds_put [OF s3(3), of 32 shw] n2 l by auto
  let ?x4 = "splice 32 shw (splice 28 (bytes_of_u32 ip) ?x2)"
  have n4: "length ?x4 = 42 + length rest" using n2 l by simp
  obtain s5 where s5: "put_bytes p 0 shw s4 = Some s5" "writes_only {PData p} s4 s5"
    "holds s5 p (splice 0 shw ?x4)"
    using holds_put [OF s4(3), of 0 shw] n4 l by auto
  obtain s6 where s6: "put_bytes p 22 eth s5 = Some s6" "writes_only {PData p} s5 s6"
    "holds s6 p (splice 22 eth (splice 0 shw ?x4))"
    using holds_put [OF s5(3), of 22 eth] n4 l by auto
  obtain s7 where s7: "put_bytes p 6 eth s6 = Some s7" "writes_only {PData p} s6 s7"
    "holds s7 p (splice 6 eth (splice 22 eth (splice 0 shw ?x4)))"
    using holds_put [OF s6(3), of 6 eth] n4 l by auto
  have "arp_reply p eth ip st = Some s7"
    using s1(1) s2(1) s3(1) s4(1) s5(1) s6(1) s7(1) holds_get [OF h] n f
    by (simp add: arp_reply_def)
  moreover have "writes_only {PData p} st s7"
    using s1(2) s2(2) s3(2) s4(2) s5(2) s6(2) s7(2) by (meson writes_only_trans)
  moreover have "splice 6 eth (splice 22 eth (splice 0 shw ?x4)) = arp_frame shw eth 2 eth ip shw sip @ rest"
  proof -
    obtain a1 a2 a3 a4 a5 a6 b1 b2 b3 b4 b5 b6 where "dst = [a1, a2, a3, a4, a5, a6]" "src = [b1, b2, b3, b4, b5, b6]"
      using list6 [OF l(1)] list6 [OF l(2)] by auto
    moreover obtain c1 c2 c3 c4 c5 c6 d1 d2 d3 d4 d5 d6 where "shw = [c1, c2, c3, c4, c5, c6]" "dhw = [d1, d2, d3, d4, d5, d6]"
      using list6 [OF l(3)] list6 [OF l(4)] by auto
    moreover obtain e1 e2 e3 e4 e5 e6 where "eth = [e1, e2, e3, e4, e5, e6]" using list6 [OF l(5)] by auto
    ultimately show ?thesis
      by (simp add: arp_frame_def splice_def bytes_of_u32_def bytes_of_u16_def)
  qed
  ultimately show ?thesis using s7(3) by auto
qed

lemma free_refs_None: "\<forall>x \<in> set xs. ref (snd x) = 1 \<Longrightarrow> m a = None \<or> a \<in> fst ` set xs \<Longrightarrow> free_refs xs m a = None"
proof (induction xs arbitrary: m)
  case (Cons x xs)
  obtain c b where x: "x = (c, b)" by (cases x)
  have "ref b = 1" using Cons.prems(1) x by auto
  have "\<forall>x \<in> set xs. ref (snd x) = 1" using Cons.prems(1) by auto
  moreover have "(m(c := None)) a = None \<or> a \<in> fst ` set xs" using Cons.prems(2) x by auto
  ultimately have "free_refs xs (m(c := None)) a = None" by (rule Cons.IH)
  then show ?case using x \<open>ref b = 1\<close> by (simp only: free_refs.simps if_True simp_thms)
qed simp

lemma free_refs_gone: "\<forall>x \<in> set xs. ref (snd x) = 1 \<Longrightarrow> \<forall>a \<in> fst ` set xs. free_refs xs m a = None"
  by (simp add: free_refs_None)

lemma etharp_arp_input_request:
  fixes ys :: "(addr \<times> pbuf) list"
  assumes ok: "arp_ok d" and nq: "\<forall>e \<in> set (arp_table d). equeue e = []"
    and pkt: "packet (pm d) (Some p) ((p, b) # ys)" "owned ((p, b) # ys)" "42 \<le> unat (len b)"
      "packet_bytes (pm d) ((p, b) # ys) = arp_frame dst src 1 shw sip dhw (ip_addr (nif d)) @ rest"
    and l: "length dst = 6" "length src = 6" "length shw = 6" "length dhw = 6" "length eth = 6"
    and ip: "ip_addr (nif d) \<noteq> 0" and out: "linkoutput (nif d) = Some Low_level_output"
    and fr: "\<forall>x \<in> set ((p, b) # ys). backed (pm d) x \<and> ref (snd x) = 1" "mem_ok (heap (pm d))"
    and tx: "tx_ok (mac d)" "length (gTxBuf d) = 1536" "length (tx_queue (mac d)) < 2" "42 + length rest \<le> 1536"
  shows "\<exists>d'. etharp_arp_input eth p d = Some d' \<and>
    tx_queue (mac d') = tx_queue (mac d) @ [arp_frame shw eth 2 eth (ip_addr (nif d)) shw sip @ rest] \<and>
    (\<forall>a \<in> fst ` set ((p, b) # ys). pbufs (pm d') a = None) \<and>
    (unicast (nif d) sip \<longrightarrow> arp_lookup d' sip = Some shw)"
proof -
  let ?me = "ip_addr (nif d)" and ?ps = "(p, b) # ys"
  have b: "pbufs (pm d) p = Some b" and yp: "packet (pm d) (nextp b) ys" using pkt(1) by simp_all
  have pb: "length (pbuf_bytes (pm d) b) = unat (len b)" using pkt(1) by (auto intro: pbuf_bytes_length)
  define r1 where "r1 = drop 42 (pbuf_bytes (pm d) b)"
  have al: "length (arp_frame dst src 1 shw sip dhw ?me) = 42" by (rule arp_frame_length [OF l(1-4)])
  have xs: "pbuf_bytes (pm d) b = arp_frame dst src 1 shw sip dhw ?me @ r1" "rest = r1 @ packet_bytes (pm d) ys"
  proof -
    have eq: "pbuf_bytes (pm d) b @ packet_bytes (pm d) ys = arp_frame dst src 1 shw sip dhw ?me @ rest"
      using pkt(4) by simp
    have "take 42 (pbuf_bytes (pm d) b @ packet_bytes (pm d) ys) = arp_frame dst src 1 shw sip dhw ?me"
      unfolding eq using al by simp
    then have t: "take 42 (pbuf_bytes (pm d) b) = arp_frame dst src 1 shw sip dhw ?me" using pkt(3) pb by simp
    then show "pbuf_bytes (pm d) b = arp_frame dst src 1 shw sip dhw ?me @ r1"
      unfolding r1_def t [symmetric] by simp
    have "drop 42 (pbuf_bytes (pm d) b @ packet_bytes (pm d) ys) = rest" unfolding eq using al by simp
    then show "rest = r1 @ packet_bytes (pm d) ys" using pkt(3) pb by (simp add: r1_def)
  qed
  have h: "holds (pm d) p (arp_frame dst src 1 shw sip dhw ?me @ r1)"
    using b pkt xs(1) by (auto simp: holds_def owned_def pbuf_bytes_def)
  have n: "length (arp_frame dst src 1 shw sip dhw ?me @ r1) = 42 + length r1" using al by simp
  note f = arp_frame_fields [OF l(1-4), of 1 sip ?me r1]
  obtain e d1 where d1: "update_arp_entry sip shw ETHARP_TRY_HARD d = Some (e, d1)" "arp_ok d1" "nif d1 = nif d"
    "pm d1 = pm d" "mac d1 = mac d" "gTxBuf d1 = gTxBuf d" "unicast (nif d) sip \<longrightarrow> arp_lookup d1 sip = Some shw"
    using update_arp_entry_learns [OF ok nq] by blast
  obtain st where st: "arp_reply p eth ?me (pm d) = Some st" "writes_only {PData p} (pm d) st"
    "holds st p (arp_frame shw eth 2 eth ?me shw sip @ r1)"
    using arp_reply_ok [OF h l] by blast
  have p2: "packet st (Some p) ?ps" by (rule writes_only_packet [OF st(2) pkt(1)])
  have "pbufs st p = Some b" using st(2) b by (simp add: writes_only_def)
  then have b2: "pbuf_bytes st b = arp_frame shw eth 2 eth ?me shw sip @ r1"
    using st(3) by (auto simp: holds_def pbuf_bytes_def)
  have "packet_bytes st ys = packet_bytes (pm d) ys"
    using pkt by (intro owned_bytes [OF st(2)]) (auto simp: owned_def areas_def)
  then have by2: "packet_bytes st ?ps = arp_frame shw eth 2 eth ?me shw sip @ rest"
    using b2 xs(2) by simp
  have ln: "lens ?ps = 42 + length rest"
    using packet_bytes_length [OF p2] arp_frame_length [OF l(3,5,5,3)] unfolding by2 by simp
  let ?d = "d1\<lparr>pm := st\<rparr>"
  obtain d2 where d2: "low_level_output (Some p) ?d = Some (ERR_OK, d2)" "pm d2 = st"
    "tx_queue (mac d2) = tx_queue (mac d) @ [packet_bytes st ?ps]"
  proof -
    have "packet (pm ?d) (Some p) ?ps" "tx_ok (mac ?d)" "length (gTxBuf ?d) = 1536" "0 < lens ?ps"
      using p2 tx ln d1 by simp_all
    note out = low_level_output_sends_ok [OF this]
    have "\<not> 1536 < lens ?ps" using ln tx(4) by linarith
    with out obtain d' where "low_level_output (Some p) ?d = Some (ERR_OK, d')" "pm d' = pm ?d"
      "length (tx_queue (mac ?d)) < 2 \<longrightarrow> tx_queue (mac d') = tx_queue (mac ?d) @ [packet_bytes (pm ?d) ?ps]"
      by (simp only: if_False) blast
    then show ?thesis using that [of d'] tx(3) d1 by simp
  qed
  have k: "keeps ?d d2" by (rule link_output_keeps [of p ?d ERR_OK]) (use d2(1) out d1(3) in \<open>simp add: link_output_def\<close>)
  have hs: "heap st = heap (pm d)" and bk: "backed st x = backed (pm d) x" for x
    using st(2) by (auto simp: writes_only_def backed_def split: prod.splits pbuf_type.splits addr.splits memp_t.splits)
  obtain st2 n2 where fr2: "pbuf_free (Some p) st = Some (n2, st2)" "\<forall>a \<in> fst ` set ?ps. pbufs st2 a = None"
  proof -
    have "chain (pbufs st) (Some p) ?ps" "distinct (map fst ?ps)" using p2 unfolding packet_def by blast+
    moreover have "\<forall>x \<in> set ?ps. backed st x" using fr(1) bk by blast
    moreover have "mem_ok (heap st)" using fr(2) hs by simp
    ultimately obtain st2 n where s: "pbuf_free_loop (Some p) 0 st = Some (n, st2)" "pbufs st2 = free_refs ?ps (pbufs st)"
      using pbuf_free_loop_spec [of st "Some p" ?ps 0] by blast
    have "\<forall>a \<in> fst ` set ?ps. free_refs ?ps m a = None" for m
      using fr(1) by (intro free_refs_gone) auto
    then show ?thesis using that s by (simp add: pbuf_free_def)
  qed
  have "etharp_arp_input eth p d = Some (d2\<lparr>pm := st2\<rparr>)"
    using b pkt(3) holds_get16 [OF h] holds_get32 [OF h] holds_get [OF h] n f ip d1 st(1) d2 out fr2(1)
    by (simp add: etharp_arp_input_def arp_process_def link_output_def htons_def)
  moreover have "arp_lookup (d2\<lparr>pm := st2\<rparr>) sip = arp_lookup d1 sip"
    using keeps_lookup [of ?d "d2\<lparr>pm := st2\<rparr>" sip] k by (simp add: arp_lookup_def)
  ultimately show ?thesis using d2(3) by2 fr2(2) d1(7) by auto
qed

subsection \<open>Lifetimes\<close>

primrec ticks :: "nat \<Rightarrow> 'a arp_scheme \<Rightarrow> 'a arp_scheme option" where
  "ticks 0 d = Some d"
| "ticks (Suc n) d = do { d \<leftarrow> etharp_tmr d; ticks n d }"

text \<open>Ticks an entry lives: 240 (20 minutes) once confirmed, 2 (10 seconds) while it waits for an answer.\<close>

definition lifetime :: "etharp_entry \<Rightarrow> nat" where
  "lifetime e = (if stable e then 240 else 2)"

lemma age_keeps:
  assumes "live e" "unat (ctime e) + 1 < lifetime e"
  shows "age e = e\<lparr>ctime := ctime e + 1\<rparr> \<and> unat (ctime e + 1) = unat (ctime e) + 1"
proof -
  have u: "unat (ctime e + 1) = unat (ctime e) + 1"
    using assms(2) by (subst unat_plus_small) (auto simp: lifetime_def split: if_splits)
  have "\<not> arp_expired (e\<lparr>ctime := ctime e + 1\<rparr>)"
    using u assms by (cases "estate e") (auto simp: arp_expired_def word_le_nat_alt lifetime_def live_def)
  then show ?thesis using u by (simp add: age_def)
qed

lemma age_expires:
  assumes "live e" "unat (ctime e) + 1 = lifetime e"
  shows "\<not> live (age e)"
proof -
  have u: "unat (ctime e + 1) = unat (ctime e) + 1"
    using assms(2) by (subst unat_plus_small) (auto simp: lifetime_def split: if_splits)
  have "arp_expired (e\<lparr>ctime := ctime e + 1\<rparr>)"
    using u assms by (cases "estate e") (auto simp: arp_expired_def word_le_nat_alt lifetime_def live_def)
  then show ?thesis by (simp add: age_def live_def)
qed

lemma age_dead: "\<not> live ((age ^^ n) e)" if "\<not> live e"
  using that age_live by (induction n) auto

lemma age_pow:
  "live e \<Longrightarrow> unat (ctime e) < lifetime e \<Longrightarrow>
   (if unat (ctime e) + n < lifetime e then (age ^^ n) e = e\<lparr>ctime := ctime e + of_nat n\<rparr>
    else \<not> live ((age ^^ n) e))"
proof (induction n arbitrary: e)
  case 0
  then show ?case by simp
next
  case (Suc n)
  show ?case
  proof (cases "unat (ctime e) + 1 < lifetime e")
    case True
    note k = age_keeps [OF Suc.prems(1) True]
    let ?e = "e\<lparr>ctime := ctime e + 1\<rparr>"
    have "live ?e" "unat (ctime ?e) < lifetime ?e" using Suc.prems True k by (simp_all add: live_def lifetime_def)
    note ih = Suc.IH [OF this]
    have l: "lifetime ?e = lifetime e" "(age ^^ Suc n) e = (age ^^ n) ?e"
      using k by (simp_all add: lifetime_def funpow_Suc_right del: funpow.simps)
    show ?thesis
      unfolding l(2) using ih l(1) k by (auto simp: add_ac split: if_splits)
  next
    case False
    then have "unat (ctime e) + 1 = lifetime e" using Suc.prems(2) by simp
    from age_dead [OF age_expires [OF Suc.prems(1) this], of n] False show ?thesis
      by (simp add: funpow_swap1)
  qed
qed

subsection \<open>Properties\<close>

text \<open>The table as it is before any packet: zeroed static storage.\<close>

definition arp_init :: "dev \<Rightarrow> arp" where
  "arp_init d = dev.extend d \<lparr>arp_table = replicate ARP_TABLE_SIZE
     \<lparr>equeue = [], eip = 0, eeth = ethzero, estate = ETHARP_STATE_EMPTY, ctime = 0\<rparr>, etharp_cached_entry = 0\<rparr>"

lemma arp_init_simps [simp]: "nif (arp_init d) = nif d" "pm (arp_init d) = pm d" "mac (arp_init d) = mac d"
  "gTxBuf (arp_init d) = gTxBuf d" "etharp_cached_entry (arp_init d) = 0"
  "arp_table (arp_init d) = replicate ARP_TABLE_SIZE
     \<lparr>equeue = [], eip = 0, eeth = ethzero, estate = ETHARP_STATE_EMPTY, ctime = 0\<rparr>"
  by (simp_all add: arp_init_def dev.extend_def)

lemma arp_init_ok: "arp_ok (arp_init d)" "arp_lookup (arp_init d) ip = None"
  by (simp_all add: arp_ok_def table_ok_def live_def arp_lookup_def find_None_iff)

text \<open>
  C27. From power-on, through any sequence of received ARP and IP packets, sends, queries, ticks and foreign
  changes to memory and driver that the handlers survive, the table stays well-formed (live entries
  are unicast and unique, only pending ones hold packets) and the cache never answers with a stale
  or invented hardware address: what \<open>etharp_find_addr\<close> returns for an address is what the last packet
  that claimed this address said.
\<close>
theorem arp_no_stale:
  assumes "run_events arp_step arp_claim evs (arp_init d) = Some (d', cs)"
  shows "arp_ok d' \<and> (\<forall>ip i h a d''. etharp_find_addr ip d' = Some (Some (i, h, a), d'') \<longrightarrow>
    a = ip \<and> map_of (rev cs) ip = Some h)"
proof -
  have ok: "arp_ok d'" by (rule arp_cache.run_inv [OF assms arp_init_ok(1)])
  have "a = ip \<and> map_of (rev cs) ip = Some h" if f: "etharp_find_addr ip d' = Some (Some (i, h, a), d'')" for ip i h a d''
    using etharp_find_addr_lookup [OF ok f] arp_cache.no_stale_answer [OF assms arp_init_ok(1)] arp_init_ok(2)
    by simp
  then show ?thesis using ok by blast
qed

text \<open>
  C28. \<open>find_entry\<close> returns the entry of the address when there is one.  Otherwise, unless it was only to look
  or may not recycle a full table, it recycles the least destructive entry (an empty one, else the
  oldest stable, else the oldest pending without packets, else the oldest pending with packets, which
  are freed) and leaves every other entry as it is.
\<close>
theorem find_entry_choice:
  assumes "arp_ok d" "\<forall>e \<in> set (arp_table d). free_etharp_q (equeue e) (pm d) \<noteq> None"
  shows "\<exists>r d'. find_entry (Some ip) flgs d = Some (r, d') \<and>
    (case r of
       None \<Rightarrow> d' = d \<and> absent ip (arp_table d) \<and>
         (flgs AND ETHARP_FIND_ONLY \<noteq> 0 \<or> flgs AND ETHARP_TRY_HARD = 0 \<and> (\<forall>e \<in> set (arp_table d). live e))
     | Some i \<Rightarrow> i < ARP_TABLE_SIZE \<and>
         (live (arp_table d ! i) \<and> eip (arp_table d ! i) = ip \<and> arp_table d' = arp_table d \<or>
          absent ip (arp_table d) \<and> flgs AND ETHARP_FIND_ONLY = 0 \<and> victim (arp_table d) i \<and>
          arp_table d' = (arp_table d)[i := fresh_entry ip (arp_table d ! i)]))"
proof -
  have "find_entry (Some ip) flgs d \<noteq> None"
    using assms by (intro find_entry_total) (simp_all add: arp_ok_def table_ok_def)
  then obtain r d' where r: "find_entry (Some ip) flgs d = Some (r, d')" by auto
  with find_entry_spec [OF assms(1) r] show ?thesis by (cases r) (auto simp: absent_def)
qed

text \<open>
  C30. An ARP request for the station's own address is answered: the request is rewritten in place into the
  reply (addresses swapped, operation 2), queued for transmission behind what is already waiting, the
  packet is freed, and the sender's binding is in the cache.
\<close>
theorem arp_request_answered:
  assumes "arp_ok d" "\<forall>e \<in> set (arp_table d). equeue e = []"
    and "packet (pm d) (Some p) ((p, b) # ys)" "owned ((p, b) # ys)" "42 \<le> unat (len b)"
      "packet_bytes (pm d) ((p, b) # ys) = arp_frame dst src 1 shw sip dhw (ip_addr (nif d)) @ rest"
    and "length dst = 6" "length src = 6" "length shw = 6" "length dhw = 6" "length eth = 6"
    and "ip_addr (nif d) \<noteq> 0" "linkoutput (nif d) = Some Low_level_output"
    and "\<forall>x \<in> set ((p, b) # ys). backed (pm d) x \<and> ref (snd x) = 1" "mem_ok (heap (pm d))"
    and "tx_ok (mac d)" "length (gTxBuf d) = 1536" "length (tx_queue (mac d)) < 2" "42 + length rest \<le> 1536"
  shows "\<exists>d'. etharp_arp_input eth p d = Some d' \<and>
    tx_queue (mac d') = tx_queue (mac d) @ [arp_frame shw eth 2 eth (ip_addr (nif d)) shw sip @ rest] \<and>
    (\<forall>a \<in> fst ` set ((p, b) # ys). pbufs (pm d') a = None) \<and>
    (unicast (nif d) sip \<longrightarrow> arp_lookup d' sip = Some shw)"
  using assms by (rule etharp_arp_input_request)

subsection \<open>Witnesses\<close>

text \<open>The gateway asks for the board's address; the frame is padded to the minimum of Ethernet.\<close>

definition peer_mac :: "u8 list" where "peer_mac = [0, 0x1a, 0xa0, 1, 2, 3]"

definition arp_request_sample :: "u8 list" where
  "arp_request_sample = arp_frame ethbroadcast peer_mac 1 peer_mac (IP4_ADDR 192 1 1 1) ethzero (IP4_ADDR 192 1 1 168) @
     replicate 18 0"

definition arp_sample :: arp where
  "arp_sample = arp_init (dev_sample\<lparr>pm := rx_pmem arp_request_sample\<rparr>)"

lemma arp_sample_simps [simp]:
  "nif arp_sample = nif dev_sample" "pm arp_sample = rx_pmem arp_request_sample" "mac arp_sample = mac dev_sample"
  "gTxBuf arp_sample = gTxBuf dev_sample"
  "arp_table arp_sample = replicate ARP_TABLE_SIZE
     \<lparr>equeue = [], eip = 0, eeth = ethzero, estate = ETHARP_STATE_EMPTY, ctime = 0\<rparr>"
  by (simp_all add: arp_sample_def)

lemma arp_sample_length: "length arp_request_sample = 60"
  by (simp add: arp_request_sample_def arp_frame_def ethbroadcast_def ethzero_def peer_mac_def)

lemma gw_unicast: "unicast (nif dev_sample) (IP4_ADDR 192 1 1 1)"
  by (simp add: unicast_def IP4_ADDR_def htonl_def ip_addr_isbroadcast_def ip_addr_ismulticast_def dev_sample_def
      ip_addr_netcmp_def)

lemma arp_sample_ok: "arp_ok arp_sample"
  by (simp add: arp_sample_def arp_init_ok)

lemma arp_sample_hyps:
  "\<forall>e \<in> set (arp_table arp_sample). equeue e = []"
  "packet (pm arp_sample) (Some rx_addr) ((rx_addr, rx_pbuf arp_request_sample) # [])"
  "owned ((rx_addr, rx_pbuf arp_request_sample) # [])" "42 \<le> unat (len (rx_pbuf arp_request_sample))"
  "packet_bytes (pm arp_sample) ((rx_addr, rx_pbuf arp_request_sample) # []) =
     arp_frame ethbroadcast peer_mac 1 peer_mac (IP4_ADDR 192 1 1 1) ethzero (ip_addr (nif arp_sample)) @ replicate 18 0"
  "length ethbroadcast = 6" "length peer_mac = 6" "length peer_mac = 6" "length ethzero = 6" "length ETHADDR = 6"
  "ip_addr (nif arp_sample) \<noteq> 0" "linkoutput (nif arp_sample) = Some Low_level_output"
  "\<forall>x \<in> set ((rx_addr, rx_pbuf arp_request_sample) # []). backed (pm arp_sample) x \<and> ref (snd x) = 1"
  "mem_ok (heap (pm arp_sample))" "tx_ok (mac arp_sample)" "length (gTxBuf arp_sample) = 1536"
  "length (tx_queue (mac arp_sample)) < 2" "42 + length (replicate 18 (0 :: u8)) \<le> 1536"
proof -
  note r = rx_pmem_facts [of arp_request_sample, unfolded arp_sample_length]
  show "packet (pm arp_sample) (Some rx_addr) ((rx_addr, rx_pbuf arp_request_sample) # [])"
    "owned ((rx_addr, rx_pbuf arp_request_sample) # [])" "42 \<le> unat (len (rx_pbuf arp_request_sample))"
    "\<forall>x \<in> set ((rx_addr, rx_pbuf arp_request_sample) # []). backed (pm arp_sample) x \<and> ref (snd x) = 1"
    "mem_ok (heap (pm arp_sample))"
    using r by simp_all
  have ip: "ip_addr (nif dev_sample) = IP4_ADDR 192 1 1 168" by (simp add: dev_sample_def)
  show "packet_bytes (pm arp_sample) ((rx_addr, rx_pbuf arp_request_sample) # []) =
     arp_frame ethbroadcast peer_mac 1 peer_mac (IP4_ADDR 192 1 1 1) ethzero (ip_addr (nif arp_sample)) @ replicate 18 0"
    using r(4) by (simp only: arp_sample_simps ip arp_request_sample_def)
  show "tx_ok (mac arp_sample)" "length (gTxBuf arp_sample) = 1536" using dev_sample_ok by simp_all
  show "length (tx_queue (mac arp_sample)) < 2"
    by (simp add: tx_queue_def tx_cidx_def tx_pidx_def dev_sample_def emac_sample_def ring_idx_def)
qed (simp_all add: ethbroadcast_def ethzero_def peer_mac_def ETHADDR_def dev_sample_def IP4_ADDR_def htonl_def)

theorem arp_request_answered_witness:
  "\<exists>d'. etharp_arp_input ETHADDR rx_addr arp_sample = Some d' \<and>
    tx_queue (mac d') = [arp_frame peer_mac ETHADDR 2 ETHADDR (IP4_ADDR 192 1 1 168) peer_mac (IP4_ADDR 192 1 1 1) @
      replicate 18 0] \<and>
    arp_lookup d' (IP4_ADDR 192 1 1 1) = Some peer_mac"
proof -
  have "tx_queue (mac arp_sample) = []" "ip_addr (nif arp_sample) = IP4_ADDR 192 1 1 168"
    by (simp_all add: tx_queue_def tx_cidx_def tx_pidx_def dev_sample_def emac_sample_def ring_idx_def)
  then show ?thesis using arp_request_answered [OF arp_sample_ok arp_sample_hyps] gw_unicast by auto
qed

theorem arp_no_stale_witness:
  "\<exists>d' cs. run_events arp_step arp_claim [Elsewhere (rx_pmem arp_request_sample) (mac dev_sample), Arp_packet rx_addr]
      (arp_init dev_sample) = Some (d', cs) \<and>
    (\<exists>i d''. etharp_find_addr (IP4_ADDR 192 1 1 1) d' = Some (Some (i, peer_mac, IP4_ADDR 192 1 1 1), d''))"
proof -
  have hw: "hwaddr (nif dev_sample) = ETHADDR" by (simp add: dev_sample_def)
  obtain d' where d': "etharp_arp_input ETHADDR rx_addr arp_sample = Some d'"
    "arp_lookup d' (IP4_ADDR 192 1 1 1) = Some peer_mac"
    using etharp_arp_input_request [OF arp_sample_ok arp_sample_hyps] gw_unicast by auto
  have s: "(arp_init dev_sample)\<lparr>pm := rx_pmem arp_request_sample, mac := mac dev_sample\<rparr> = arp_sample"
    by (simp add: arp_sample_def arp_init_def dev.extend_def)
  obtain cs where run: "run_events arp_step arp_claim
      [Elsewhere (rx_pmem arp_request_sample) (mac dev_sample), Arp_packet rx_addr] (arp_init dev_sample) = Some (d', cs)"
    using d'(1) by (simp add: arp_step_def s hw)
  have inv: "arp_ok d'" by (rule conjunct1 [OF arp_no_stale [OF run]])
  then obtain i x where x: "etharp_find_addr (IP4_ADDR 192 1 1 1) d' = Some (x, i)"
    using find_only_total by blast
  from etharp_find_addr_lookup [OF inv x] d'(2) obtain j a where "x = Some (j, peer_mac, a)"
    by (cases x) auto
  then show ?thesis using run x etharp_find_addr_lookup [OF inv x] by blast
qed

text \<open>A full table: the oldest confirmed entry makes room.\<close>

definition full_sample :: arp where
  "full_sample = (arp_init dev_sample)\<lparr>arp_table :=
     map (\<lambda>i. \<lparr>equeue = [], eip = IP4_ADDR 192 1 1 (of_nat i + 1), eeth = peer_mac, estate = ETHARP_STATE_STABLE,
                ctime = of_nat (i * 7 mod 10)\<rparr>) [0..<10]\<rparr>"

lemma full_sample_table: "arp_table full_sample =
     map (\<lambda>i. \<lparr>equeue = [], eip = IP4_ADDR 192 1 1 (of_nat i + 1), eeth = peer_mac, estate = ETHARP_STATE_STABLE,
                ctime = of_nat (i * 7 mod 10)\<rparr>) [0..<10]"
  "nif full_sample = nif dev_sample" "etharp_cached_entry full_sample = 0" "pm full_sample = pm dev_sample"
  by (simp_all add: full_sample_def)

lemma upt10: "[0..<10] = [0, 1, 2, 3, 4, 5, 6, 7, 8, 9]" by code_simp

lemma full_sample_addrs: "map eip (arp_table full_sample) = map (IP4_ADDR 192 1 1) [1, 2, 3, 4, 5, 6, 7, 8, 9, 10]"
  by (simp add: full_sample_table upt10)

lemma IP4_sample: "IP4_ADDR 192 1 1 h = htonl (0xC0010100 OR (h AND 0xff))"
  by (simp add: IP4_ADDR_def flip: or.assoc)

lemma full_sample_unicast: "\<forall>a \<in> set (map (IP4_ADDR 192 1 1) [1, 2, 3, 4, 5, 6, 7, 8, 9, 10]). unicast (nif dev_sample) a"
  by (simp add: unicast_def IP4_ADDR_def htonl_def ip_addr_isbroadcast_def ip_addr_ismulticast_def
      dev_sample_def ip_addr_netcmp_def)

lemma full_sample_ok: "arp_ok full_sample"
proof -
  have d: "distinct (map eip (arp_table full_sample))" and l: "length (arp_table full_sample) = 10"
    unfolding full_sample_addrs by (simp_all add: IP4_sample htonl_def full_sample_table)
  have "i = j" if "i < 10" "j < 10" "eip (arp_table full_sample ! i) = eip (arp_table full_sample ! j)" for i j
    using that l nth_eq_iff_index_eq [OF d, of i j] by simp
  moreover have "\<forall>e \<in> set (arp_table full_sample). unicast (nif dev_sample) (eip e)"
    using full_sample_unicast unfolding full_sample_addrs [symmetric] by simp
  moreover have "\<forall>e \<in> set (arp_table full_sample). equeue e = []" by (auto simp: full_sample_table)
  ultimately show ?thesis
    unfolding arp_ok_def table_ok_def using l by (simp add: full_sample_table(2,3))
qed

theorem find_entry_choice_witness:
  "\<exists>d'. find_entry (Some (IP4_ADDR 192 1 1 99)) ETHARP_TRY_HARD full_sample = Some (Some 7, d') \<and>
    eip (arp_table d' ! 7) = IP4_ADDR 192 1 1 99"
proof -
  have "\<forall>e \<in> set (arp_table full_sample). free_etharp_q (equeue e) (pm full_sample) \<noteq> None"
    by (auto simp: full_sample_table)
  from find_entry_choice [OF full_sample_ok this, of "IP4_ADDR 192 1 1 99" ETHARP_TRY_HARD]
  obtain r d' where r: "find_entry (Some (IP4_ADDR 192 1 1 99)) ETHARP_TRY_HARD full_sample = Some (r, d')"
    and c: "case r of None \<Rightarrow> False
      | Some i \<Rightarrow> i < 10 \<and> (eip (arp_table full_sample ! i) = IP4_ADDR 192 1 1 99 \<or>
          victim (arp_table full_sample) i \<and>
          arp_table d' = (arp_table full_sample)[i := fresh_entry (IP4_ADDR 192 1 1 99) (arp_table full_sample ! i)])"
    by (fastforce split: option.splits)
  obtain i where i: "r = Some i" "i < 10" using c by (cases r) auto
  have n: "eip (arp_table full_sample ! i) \<noteq> IP4_ADDR 192 1 1 99"
  proof -
    have "eip (arp_table full_sample ! i) \<in> set (map eip (arp_table full_sample))" using i(2) by (simp add: full_sample_table)
    then show ?thesis unfolding full_sample_addrs by (auto simp: IP4_sample htonl_def)
  qed
  then have v: "victim (arp_table full_sample) i"
    "arp_table d' = (arp_table full_sample)[i := fresh_entry (IP4_ADDR 192 1 1 99) (arp_table full_sample ! i)]"
    using c i by simp_all
  have "ctime (arp_table full_sample ! 7) \<le> ctime (arp_table full_sample ! i)"
    using v(1) by (auto simp: victim_def full_sample_table upt10 split: if_splits)
  moreover have "i = 0 \<or> i = 1 \<or> i = 2 \<or> i = 3 \<or> i = 4 \<or> i = 5 \<or> i = 6 \<or> i = 7 \<or> i = 8 \<or> i = 9"
    using i(2) by arith
  ultimately have "i = 7" by (elim disjE) (simp_all add: full_sample_table word_le_nat_alt)
  then show ?thesis using r i v(2) by (auto simp: fresh_entry_def full_sample_table)
qed

end
