(* ===== verification/Etharp_Timer.thy ===== *)
theory Etharp_Timer
  imports Etharp_Reply
begin

text \<open>
  The timer of \<open>netif/etharp.c\<close> on a table whose pending entries hold packets: it frees the packets of the
  entries that expire, and the others wait on.
\<close>

subsection \<open>Packets that wait\<close>

text \<open>\<open>f\<close> gives the pbufs of a queued packet; no two packets share one.\<close>

definition waits :: "pmem \<Rightarrow> (addr \<times> pbuf) list \<Rightarrow> addr \<Rightarrow> bool" where
  "waits st xs p \<longleftrightarrow> chain (pbufs st) (Some p) xs \<and> (\<forall>x \<in> set xs. backed st x)"

definition held :: "(nat \<times> addr \<Rightarrow> (addr \<times> pbuf) list) \<Rightarrow> pmem \<Rightarrow> (nat \<times> addr) list \<Rightarrow> bool" where
  "held f st Q \<longleftrightarrow> mem_ok (heap st) \<and> (\<forall>q \<in> set Q. waits st (f q) (snd q)) \<and> distinct (concat (map (\<lambda>q. map fst (f q)) Q))"

definition queued :: "etharp_entry list \<Rightarrow> (nat \<times> addr) list" where
  "queued T = concat (map equeue T)"

definition pbufs_of :: "(nat \<times> addr \<Rightarrow> (addr \<times> pbuf) list) \<Rightarrow> (nat \<times> addr) set \<Rightarrow> addr set" where
  "pbufs_of f F = (\<Union>q \<in> F. fst ` set (f q))"

text \<open>From \<open>st\<close> to \<open>st'\<close> the packets of \<open>F\<close> were freed and their queue elements given back; nothing else was touched.\<close>

definition freed :: "(nat \<times> addr \<Rightarrow> (addr \<times> pbuf) list) \<Rightarrow> (nat \<times> addr) set \<Rightarrow> pmem \<Rightarrow> pmem \<Rightarrow> bool" where
  "freed f F st st' \<longleftrightarrow> (\<forall>a. a \<notin> pbufs_of f F \<longrightarrow> pbufs st' a = pbufs st a) \<and>
     (\<forall>q \<in> F. (\<forall>x \<in> set (f q). ref (snd x) = 1) \<longrightarrow> (\<forall>x \<in> set (f q). pbufs st' (fst x) = None)) \<and>
     (\<forall>q \<in> F. fst q \<in> set (pools st' MEMP_ARP_QUEUE)) \<and> (\<forall>t. set (pools st t) \<subseteq> set (pools st' t))"

lemma freed_none [simp]: "freed f {} st st"
  by (simp add: freed_def)

lemma freed_trans:
  assumes "freed f F st st1" "freed f G st1 st2" "pbufs_of f F \<inter> pbufs_of f G = {}"
  shows "freed f (F \<union> G) st st2"
proof -
  have "pbufs st2 (fst x) = None" if "q \<in> F" "\<forall>x \<in> set (f q). ref (snd x) = 1" "x \<in> set (f q)" for q x
  proof -
    have "fst x \<in> pbufs_of f F" using that by (auto simp: pbufs_of_def)
    then have "pbufs st2 (fst x) = pbufs st1 (fst x)" using assms(2,3) by (auto simp: freed_def)
    then show ?thesis using assms(1) that by (auto simp: freed_def)
  qed
  moreover have "pbufs st2 (fst x) = None" if "q \<in> G" "\<forall>x \<in> set (f q). ref (snd x) = 1" "x \<in> set (f q)" for q x
    using assms(2) that by (auto simp: freed_def)
  moreover have "pbufs st2 a = pbufs st a" if "a \<notin> pbufs_of f (F \<union> G)" for a
    using assms(1,2) that by (simp add: freed_def pbufs_of_def)
  moreover have "fst q \<in> set (pools st2 MEMP_ARP_QUEUE)" if "q \<in> F \<union> G" for q
    using assms(1,2) that unfolding freed_def by blast
  moreover have "set (pools st t) \<subseteq> set (pools st2 t)" for t using assms(1,2) unfolding freed_def by blast
  ultimately show ?thesis unfolding freed_def by blast
qed

lemma held_parts: "held f st (A @ B) \<Longrightarrow> pbufs_of f (set A) \<inter> pbufs_of f (set B) = {}"
  by (auto simp: held_def pbufs_of_def)

lemma held_drop: "held f st (A @ q @ B) \<Longrightarrow> held f st (q @ A @ B)"
  unfolding held_def by (simp add: Int_Un_distrib Int_Un_distrib2) (auto simp: Int_commute)

lemma held_distinct: "held f st Q \<Longrightarrow> distinct Q"
proof (induction Q)
  case (Cons q Q)
  have "f q \<noteq> []" using Cons.prems by (cases "f q") (auto simp: held_def waits_def)
  then have "q \<notin> set Q" using Cons.prems by (cases "f q") (auto simp: held_def)
  then show ?case using Cons by (auto simp: held_def)
qed simp

lemma held_apart1:
  "held f st Q \<Longrightarrow> q \<in> set Q \<Longrightarrow> q' \<in> set Q \<Longrightarrow> q \<noteq> q' \<Longrightarrow> fst ` set (f q) \<inter> fst ` set (f q') = {}"
proof (induction Q)
  case (Cons x Q)
  have h: "held f st Q" "fst ` set (f x) \<inter> (\<Union>q \<in> set Q. fst ` set (f q)) = {}"
    using Cons.prems(1) by (simp_all add: held_def)
  consider "q = x" "q' \<in> set Q" | "q' = x" "q \<in> set Q" | "q \<in> set Q" "q' \<in> set Q" using Cons.prems(2-4) by auto
  then show ?case using Cons.IH [OF h(1)] Cons.prems(4) h(2) by cases blast+
qed simp

lemma held_apart:
  assumes "held f st Q" "F \<subseteq> set Q" "G \<subseteq> set Q" "F \<inter> G = {}"
  shows "pbufs_of f F \<inter> pbufs_of f G = {}"
proof -
  have "fst ` set (f q) \<inter> fst ` set (f q') = {}" if "q \<in> F" "q' \<in> G" for q q'
    using held_apart1 [OF assms(1), of q q'] assms(2-4) that by blast
  then show ?thesis unfolding pbufs_of_def by blast
qed

lemma free_refs_outside: "a \<notin> fst ` set xs \<Longrightarrow> free_refs xs m a = m a"
  by (induction xs m rule: free_refs.induct) auto

lemma chain_cong: "chain m p xs \<Longrightarrow> (\<And>a. a \<in> fst ` set xs \<Longrightarrow> m' a = m a) \<Longrightarrow> chain m' p xs"
  by (induction xs arbitrary: p) auto

lemma backed_cong:
  "backed st x \<Longrightarrow> (\<And>r. fst x = HeapA r \<Longrightarrow> mem_live (heap st') r = mem_live (heap st) r) \<Longrightarrow> backed st' x"
  by (auto simp: backed_def split: pbuf_type.splits addr.splits memp_t.splits)

lemma free_queued:
  assumes "held f st (q # Q)"
  shows "\<exists>n st1. pbuf_free (Some (snd q)) st = Some (n, st1) \<and>
    held f (st1\<lparr>pools := memp_free MEMP_ARP_QUEUE (Some (fst q)) (pools st1)\<rparr>) Q \<and>
    freed f {q} st (st1\<lparr>pools := memp_free MEMP_ARP_QUEUE (Some (fst q)) (pools st1)\<rparr>)"
proof -
  let ?xs = "f q" and ?ys = "takeWhile (\<lambda>x. ref (snd x) = 1) (f q)"
  have H: "mem_ok (heap st)" "chain (pbufs st) (Some (snd q)) ?xs" "\<forall>x \<in> set ?xs. backed st x" "distinct (map fst ?xs)"
    "\<forall>q' \<in> set Q. waits st (f q') (snd q')" "distinct (concat (map (\<lambda>q. map fst (f q)) Q))"
    "fst ` set ?xs \<inter> (\<Union>q' \<in> set Q. fst ` set (f q')) = {}"
    using assms by (simp_all add: held_def waits_def)
  obtain n st1 where st1: "pbuf_free_loop (Some (snd q)) 0 st = Some (n, st1)" "pbufs st1 = free_refs ?xs (pbufs st)"
    "mem_ok (heap st1)" "mem_live (heap st1) = (\<lambda>r. if HeapA r \<in> fst ` set ?ys then None else mem_live (heap st) r)"
    "\<forall>t. \<exists>zs. pools st1 t = zs @ pools st t"
    using pbuf_free_loop_spec [OF H(2,4,3,1), of 0] by blast
  let ?st = "st1\<lparr>pools := memp_free MEMP_ARP_QUEUE (Some (fst q)) (pools st1)\<rparr>"
  have ys: "set ?ys \<subseteq> set ?xs" by (auto dest: set_takeWhileD)
  have "waits ?st (f q') (snd q')" if "q' \<in> set Q" for q'
  proof -
    have d: "fst ` set ?xs \<inter> fst ` set (f q') = {}" using H(7) that by blast
    have "chain (pbufs st) (Some (snd q')) (f q')" using H(5) that by (simp add: waits_def)
    then have "chain (pbufs st1) (Some (snd q')) (f q')"
    proof (rule chain_cong)
      fix a assume "a \<in> fst ` set (f q')"
      then have "a \<notin> fst ` set ?xs" using d by blast
      then show "pbufs st1 a = pbufs st a" unfolding st1(2) by (rule free_refs_outside)
    qed
    moreover have "backed ?st x" if x: "x \<in> set (f q')" for x
    proof (rule backed_cong [of st])
      show "backed st x" using H(5) that x \<open>q' \<in> set Q\<close> by (auto simp: waits_def)
      fix r assume r: "fst x = HeapA r"
      have "HeapA r \<notin> fst ` set ?ys" using d x r ys by (metis IntI empty_iff image_eqI image_mono subsetD)
      then show "mem_live (heap ?st) r = mem_live (heap st) r" using st1(4) by simp
    qed
    ultimately show ?thesis by (simp add: waits_def)
  qed
  then have "held f ?st Q" using H(6) st1(3) by (simp add: held_def)
  moreover have "freed f {q} st ?st"
  proof -
    have "pbufs ?st (fst x) = None" if "\<forall>x \<in> set ?xs. ref (snd x) = 1" "x \<in> set ?xs" for x
      using free_refs_gone [OF that(1)] that(2) st1(2) by simp
    moreover have "set (pools st t) \<subseteq> set (pools ?st t)" for t
      using st1(5) [rule_format, of t] by (auto simp: memp_free_def)
    ultimately show ?thesis
      using st1(2) by (auto simp: freed_def pbufs_of_def free_refs_outside memp_free_def)
  qed
  ultimately show ?thesis using st1(1) by (auto simp: pbuf_free_def)
qed

lemma free_etharp_q_held:
  "held f st (q @ R) \<Longrightarrow> \<exists>st'. free_etharp_q q st = Some st' \<and> held f st' R \<and> freed f (set q) st st'"
proof (induction q arbitrary: st)
  case (Cons x q)
  obtain r p where x: "x = (r, p)" by (cases x)
  have h: "held f st (x # (q @ R))" using Cons.prems by simp
  obtain n st1 where st1: "pbuf_free (Some p) st = Some (n, st1)"
    "held f (st1\<lparr>pools := memp_free MEMP_ARP_QUEUE (Some r) (pools st1)\<rparr>) (q @ R)"
    "freed f {x} st (st1\<lparr>pools := memp_free MEMP_ARP_QUEUE (Some r) (pools st1)\<rparr>)"
    using free_queued [OF h] x by auto
  obtain st' where st': "free_etharp_q q (st1\<lparr>pools := memp_free MEMP_ARP_QUEUE (Some r) (pools st1)\<rparr>) = Some st'" "held f st' R"
    "freed f (set q) (st1\<lparr>pools := memp_free MEMP_ARP_QUEUE (Some r) (pools st1)\<rparr>) st'"
    using Cons.IH [OF st1(2)] by blast
  have "held f st ([x] @ (q @ R))" using h by simp
  from held_parts [OF this] have "pbufs_of f {x} \<inter> pbufs_of f (set q) = {}" by (auto simp: pbufs_of_def)
  from freed_trans [OF st1(3) st'(3) this] have "freed f (insert x (set q)) st st'" by simp
  then show ?case using st1(1) st' x by auto
qed simp


subsection \<open>Ticks\<close>

lemma queued_split: "i < length T \<Longrightarrow> queued T = queued (take i T) @ equeue (T ! i) @ queued (drop (Suc i) T)"
  unfolding queued_def by (subst id_take_nth_drop [of i T]) simp_all

lemma queued_update: "i < length T \<Longrightarrow> queued (T[i := e]) = queued (take i T) @ equeue e @ queued (drop (Suc i) T)"
  by (simp add: queued_def upd_conv_take_nth_drop)

lemma tmr_loop_held:
  "set is \<subseteq> {..<length (arp_table d)} \<Longrightarrow> held f (pm d) (queued (arp_table d)) \<Longrightarrow>
   \<exists>d' F. tmr_loop is d = Some d' \<and> held f (pm d') (queued (arp_table d')) \<and> freed f F (pm d) (pm d') \<and>
     set (queued (arp_table d)) = F \<union> set (queued (arp_table d')) \<and>
     F \<inter> set (queued (arp_table d')) = {}"
proof (induction "is" arbitrary: d)
  case Nil
  then show ?case by (intro exI [of _ d] exI [of _ "{}"]) simp
next
  case (Cons i "is")
  let ?T = "arp_table d"
  let ?A = "queued (take i ?T)" and ?q = "equeue (?T ! i)" and ?B = "queued (drop (Suc i) ?T)"
  let ?e = "(?T ! i)\<lparr>ctime := ctime (?T ! i) + 1\<rparr>"
  let ?d = "upd_entry i (\<lambda>e. e\<lparr>ctime := ctime e + 1\<rparr>) d"
  have i: "i < length ?T" and sub: "set is \<subseteq> {..<length ?T}" using Cons.prems(1) by simp_all
  have T: "queued ?T = ?A @ ?q @ ?B" by (rule queued_split [OF i])
  show ?case
  proof (cases "arp_expired ?e")
    case False
    have "tmr_loop (i # is) d = tmr_loop is ?d" using i False by (simp add: Let_def)
    moreover have "queued (arp_table ?d) = queued ?T" using i T by (simp add: queued_update upd_entry_def)
    ultimately show ?thesis using Cons.IH [of ?d] Cons.prems(2) sub by (simp add: upd_entry_def)
  next
    case True
    obtain st where st: "free_etharp_q ?q (pm d) = Some st" "held f st (?A @ ?B)" "freed f (set ?q) (pm d) st"
      using free_etharp_q_held [OF held_drop [OF Cons.prems(2) [unfolded T]]] by blast
    define d1 where "d1 = d\<lparr>pm := st, arp_table := ?T[i := ?e\<lparr>equeue := [], estate := ETHARP_STATE_EMPTY\<rparr>]\<rparr>"
    have run: "tmr_loop (i # is) d = tmr_loop is d1"
    proof (cases "?q = []")
      case e: True
      have "?e\<lparr>equeue := [], estate := ETHARP_STATE_EMPTY\<rparr> = ?e\<lparr>estate := ETHARP_STATE_EMPTY\<rparr>" using e by (cases "?T ! i") simp
      moreover have "d\<lparr>pm := st\<rparr> = d" using st(1) e by simp
      then have "d1 = d\<lparr>arp_table := ?T[i := ?e\<lparr>equeue := [], estate := ETHARP_STATE_EMPTY\<rparr>]\<rparr>" by (simp add: d1_def)
      ultimately have d1: "d1 = d\<lparr>arp_table := ?T[i := ?e\<lparr>estate := ETHARP_STATE_EMPTY\<rparr>]\<rparr>" by simp
      show ?thesis unfolding d1 using i True e by (simp add: Let_def upd_entry_def)
    qed (use i True st(1) in \<open>simp add: Let_def d1_def upd_entry_def\<close>)
    have q1: "queued (arp_table d1) = ?A @ ?B" "pm d1 = st" "length (arp_table d1) = length ?T"
      using i by (simp_all add: d1_def queued_update)
    obtain d' F where d': "tmr_loop is d1 = Some d'" "held f (pm d') (queued (arp_table d'))" "freed f F st (pm d')"
      "set (?A @ ?B) = F \<union> set (queued (arp_table d'))" "F \<inter> set (queued (arp_table d')) = {}"
      using Cons.IH [of d1] q1 st(2) sub by auto
    have "pbufs_of f (set ?q) \<inter> pbufs_of f (set (?A @ ?B)) = {}"
      by (rule held_parts [OF held_drop [OF Cons.prems(2) [unfolded T]]])
    moreover have "pbufs_of f F \<subseteq> pbufs_of f (set (?A @ ?B))" using d'(4) by (auto simp: pbufs_of_def)
    ultimately have "freed f (set ?q \<union> F) (pm d) (pm d')" using freed_trans [OF st(3) d'(3)] by blast
    moreover have "set (queued ?T) = (set ?q \<union> F) \<union> set (queued (arp_table d'))" using T d'(4) by auto
    moreover have "set ?q \<inter> set (?A @ ?B) = {}" using held_distinct [OF Cons.prems(2)] T by auto
    then have "(set ?q \<union> F) \<inter> set (queued (arp_table d')) = {}" using d'(4,5) by blast
    moreover have "tmr_loop (i # is) d = Some d'" using run d'(1) by simp
    ultimately show ?thesis using d'(2)
      by - (rule exI [of _ d'], rule exI [of _ "set ?q \<union> F"], intro conjI; assumption)
  qed
qed

lemma ticks_held:
  "length (arp_table d) = ARP_TABLE_SIZE \<Longrightarrow> held f (pm d) (queued (arp_table d)) \<Longrightarrow>
   \<exists>d' F. ticks n d = Some d' \<and> arp_table d' = map (age ^^ n) (arp_table d) \<and> held f (pm d') (queued (arp_table d')) \<and>
     freed f F (pm d) (pm d') \<and> set (queued (arp_table d)) = F \<union> set (queued (arp_table d')) \<and>
     F \<inter> set (queued (arp_table d')) = {}"
proof (induction n arbitrary: d)
  case 0
  then show ?case by (intro exI [of _ d] exI [of _ "{}"]) simp
next
  case (Suc n)
  have "set [0..<ARP_TABLE_SIZE] \<subseteq> {..<length (arp_table d)}" using Suc.prems(1) by auto
  from tmr_loop_held [OF this Suc.prems(2)] obtain d1 F where d1: "etharp_tmr d = Some d1" "held f (pm d1) (queued (arp_table d1))"
    "freed f F (pm d) (pm d1)" "set (queued (arp_table d)) = F \<union> set (queued (arp_table d1))" "F \<inter> set (queued (arp_table d1)) = {}"
    unfolding etharp_tmr_def by blast
  note t = etharp_tmr_table [OF d1(1) Suc.prems(1)]
  obtain d' G where d': "ticks n d1 = Some d'" "arp_table d' = map (age ^^ n) (arp_table d1)" "held f (pm d') (queued (arp_table d'))"
    "freed f G (pm d1) (pm d')" "set (queued (arp_table d1)) = G \<union> set (queued (arp_table d'))" "G \<inter> set (queued (arp_table d')) = {}"
    using Suc.IH [of d1] t d1(2) Suc.prems(1) by auto
  have "pbufs_of f F \<inter> pbufs_of f G = {}" by (rule held_apart [OF Suc.prems(2)]) (use d1(4,5) d'(5) in auto)
  from freed_trans [OF d1(3) d'(4) this] show ?case
    using d1 d' t by (intro exI [of _ d'] exI [of _ "F \<union> G"]) (auto simp: funpow_swap1)
qed

subsection \<open>The lifetime of an entry\<close>

lemma equeue_age_pow: "equeue ((age ^^ n) e) = equeue e \<or> equeue ((age ^^ n) e) = []"
  by (induction n) (auto simp: age_def Let_def)

lemma age_pow_expired:
  "live e \<Longrightarrow> unat (ctime e) < lifetime e \<Longrightarrow> \<not> unat (ctime e) + n < lifetime e \<Longrightarrow> equeue ((age ^^ n) e) = []"
proof (induction n)
  case (Suc n)
  show ?case
  proof (cases "unat (ctime e) + n < lifetime e")
    case True
    then have a: "(age ^^ n) e = e\<lparr>ctime := ctime e + of_nat n\<rparr>" using age_pow [OF Suc.prems(1,2), of n] by simp
    let ?e = "e\<lparr>ctime := ctime e + of_nat n\<rparr>"
    have l: "lifetime ?e = lifetime e" "live ?e" "lifetime e \<le> 240" using Suc.prems(1) by (simp_all add: lifetime_def live_def)
    have "unat (ctime e + of_nat n) = unat (ctime e) + n"
      using True l(3) by (subst unat_plus_small) (simp_all add: unat_of_nat_lt)
    then have "unat (ctime ?e) + 1 = lifetime ?e" using True Suc.prems(3) l(1) by simp
    then have "\<not> live (age ?e)" by (rule age_expires [OF l(2)])
    then have "equeue (age ?e) = []" using l(2) by (auto simp: age_def Let_def live_def)
    then show ?thesis by (simp add: a)
  qed (use Suc in \<open>auto simp: age_def Let_def\<close>)
qed simp

lemma queued_nth: "i < length T \<Longrightarrow> q \<in> set (equeue (T ! i)) \<Longrightarrow> q \<in> set (queued T)"
  by (auto simp: queued_def)

lemma queued_elsewhere:
  assumes "distinct (queued T)" "i < length T" "q \<in> set (equeue (T ! i))"
    "equeue ((age ^^ n) (T ! i)) = []"
  shows "q \<notin> set (queued (map (age ^^ n) T))"
proof
  assume "q \<in> set (queued (map (age ^^ n) T))"
  then obtain x where x: "x \<in> set T" "q \<in> set (equeue ((age ^^ n) x))" by (auto simp: queued_def)
  then obtain k where k: "k < length T" "q \<in> set (equeue ((age ^^ n) (T ! k)))" by (auto simp: in_set_conv_nth [of x])
  then have kq: "q \<in> set (equeue (T ! k))" using equeue_age_pow [of n "T ! k"] by auto
  have ne: "k \<noteq> i" using k(2) assms(4) by auto
  have "q \<notin> set (queued (take i T)) \<union> set (queued (drop (Suc i) T))"
    using assms(1,3) unfolding queued_split [OF assms(2)] by auto
  moreover have "T ! k \<in> set (take i T) \<union> set (drop (Suc i) T)"
  proof (cases "k < i")
    case True
    then have "take i T ! k = T ! k" "k < length (take i T)" using assms(2) by simp_all
    then show ?thesis by (metis UnI1 nth_mem)
  next
    case False
    then have "drop (Suc i) T ! (k - Suc i) = T ! k" "k - Suc i < length (drop (Suc i) T)" using ne k(1) by simp_all
    then show ?thesis by (metis UnI2 nth_mem)
  qed
  ultimately show False using kq by (auto simp: queued_def)
qed

text \<open>
  C29. Entries do not live for ever, and neither do the packets that wait for them: with no traffic, the timer empties
  a confirmed entry exactly 240 ticks (20 minutes) after it was confirmed and an unanswered one exactly 2 ticks (10
  seconds) after the request, and until then changes only its age and leaves its packets alone.  With the entry its
  queue is emptied: the queue elements are back in their pool, and the packets that nobody else refers to are
  gone.  The packets are well-formed chains that share no pbuf; their references may be any.
\<close>
theorem arp_entry_lifetime:
  assumes "arp_ok d" "held f (pm d) (queued (arp_table d))"
    and "i < ARP_TABLE_SIZE" "live (arp_table d ! i)" "unat (ctime (arp_table d ! i)) < lifetime (arp_table d ! i)"
  shows "\<exists>d'. ticks n d = Some d' \<and>
    (if unat (ctime (arp_table d ! i)) + n < lifetime (arp_table d ! i)
     then arp_table d' ! i = (arp_table d ! i)\<lparr>ctime := ctime (arp_table d ! i) + of_nat n\<rparr> \<and>
       (\<forall>q \<in> set (equeue (arp_table d ! i)). waits (pm d') (f q) (snd q))
     else estate (arp_table d' ! i) = ETHARP_STATE_EMPTY \<and> equeue (arp_table d' ! i) = [] \<and>
       (\<forall>q \<in> set (equeue (arp_table d ! i)). fst q \<in> set (pools (pm d') MEMP_ARP_QUEUE) \<and>
          ((\<forall>x \<in> set (f q). ref (snd x) = 1) \<longrightarrow> (\<forall>x \<in> set (f q). pbufs (pm d') (fst x) = None))))"
proof -
  let ?e = "arp_table d ! i"
  have l: "length (arp_table d) = ARP_TABLE_SIZE" using assms(1) by (simp add: arp_ok_def table_ok_def)
  then have i: "i < length (arp_table d)" using assms(3) by simp
  obtain d' F where d': "ticks n d = Some d'" "arp_table d' = map (age ^^ n) (arp_table d)" "held f (pm d') (queued (arp_table d'))"
    "freed f F (pm d) (pm d')" "set (queued (arp_table d)) = F \<union> set (queued (arp_table d'))"
    using ticks_held [OF l assms(2)] by blast
  have e: "arp_table d' ! i = (age ^^ n) ?e" using d'(2) i by simp
  show ?thesis
  proof (cases "unat (ctime ?e) + n < lifetime ?e")
    case True
    then have "(age ^^ n) ?e = ?e\<lparr>ctime := ctime ?e + of_nat n\<rparr>" using age_pow [OF assms(4,5), of n] by simp
    moreover have "q \<in> set (queued (arp_table d'))" if "q \<in> set (equeue ?e)" for q
      using queued_nth [of i "arp_table d'" q] that i d'(2) e calculation by simp
    ultimately show ?thesis using True d'(1,3) e by (auto simp: held_def)
  next
    case False
    have "\<not> live ((age ^^ n) ?e)" using age_pow [OF assms(4,5), of n] False by simp
    moreover have q0: "equeue ((age ^^ n) ?e) = []" using age_pow_expired [OF assms(4,5) False] .
    moreover have "q \<in> F" if "q \<in> set (equeue ?e)" for q
      using queued_elsewhere [OF held_distinct [OF assms(2)] i that q0] queued_nth [OF i that] d'(2,5) by auto
    ultimately show ?thesis using False d'(1,4) e by (auto simp: freed_def live_def)
  qed
qed

text \<open>A packet waits for the address of a neighbour that does not answer.\<close>

definition waiting_pbuf :: pbuf where
  "waiting_pbuf = \<lparr>nextp = None, payload = Some (PData (pool_addr 0), 0), tot_len = 60, len = 60, ptype = PBUF_POOL, flags = 0, ref = 1\<rparr>"

definition asking_sample :: arp where
  "asking_sample = (arp_init dev_sample)\<lparr>
     arp_table := (arp_table (arp_init dev_sample))[3 := \<lparr>equeue = [(7, pool_addr 0)], eip = IP4_ADDR 192 1 1 9, eeth = ethzero,
       estate = ETHARP_STATE_PENDING, ctime = 0\<rparr>],
     pm := (pm dev_sample)\<lparr>pbufs := (pbufs (pm dev_sample))(pool_addr 0 \<mapsto> waiting_pbuf),
       pools := (pools (pm dev_sample))(MEMP_PBUF_POOL := [1, 2])\<rparr>\<rparr>"

lemma asking_sample_entry: "arp_table asking_sample ! 3 = \<lparr>equeue = [(7, pool_addr 0)], eip = IP4_ADDR 192 1 1 9, eeth = ethzero,
       estate = ETHARP_STATE_PENDING, ctime = 0\<rparr>"
  by (simp add: asking_sample_def)

lemma asking_sample_ok: "arp_ok asking_sample"
proof -
  have "unicast (nif dev_sample) (IP4_ADDR 192 1 1 9)"
    by (simp add: unicast_def IP4_ADDR_def htonl_def ip_addr_isbroadcast_def ip_addr_ismulticast_def dev_sample_def ip_addr_netcmp_def)
  moreover have "table_ok (nif dev_sample) (arp_table (arp_init dev_sample))"
    using arp_init_ok(1) [of dev_sample] by (simp add: arp_ok_def)
  ultimately have "table_ok (nif dev_sample) ((arp_table (arp_init dev_sample))[3 := \<lparr>equeue = [(7, pool_addr 0)],
      eip = IP4_ADDR 192 1 1 9, eeth = ethzero, estate = ETHARP_STATE_PENDING, ctime = 0\<rparr>])"
    by (intro table_ok_upd) (auto simp: live_def)
  then show ?thesis by (simp add: asking_sample_def arp_ok_def)
qed

lemma asking_sample_held: "held (\<lambda>q. [(snd q, waiting_pbuf)]) (pm asking_sample) (queued (arp_table asking_sample))"
proof -
  have "queued (arp_table asking_sample) = [(7, pool_addr 0)]" by (simp add: asking_sample_def queued_def eval_nat_numeral)
  then show ?thesis
    using dev_sample_ok(4) by (simp add: held_def waits_def asking_sample_def waiting_pbuf_def backed_def)
qed

theorem arp_entry_lifetime_witness:
  "\<exists>d1 d2. ticks 1 asking_sample = Some d1 \<and> equeue (arp_table d1 ! 3) = [(7, pool_addr 0)] \<and>
     ticks 2 asking_sample = Some d2 \<and> estate (arp_table d2 ! 3) = ETHARP_STATE_EMPTY \<and> equeue (arp_table d2 ! 3) = [] \<and>
     7 \<in> set (pools (pm d2) MEMP_ARP_QUEUE) \<and> pbufs (pm d2) (pool_addr 0) = None"
proof -
  have e: "(3 :: nat) < 10" "live (arp_table asking_sample ! 3)" "unat (ctime (arp_table asking_sample ! 3)) < lifetime (arp_table asking_sample ! 3)"
    "lifetime (arp_table asking_sample ! 3) = 2"
    by (simp_all add: asking_sample_entry live_def lifetime_def)
  note A = arp_entry_lifetime [OF asking_sample_ok asking_sample_held e(1-3), unfolded e(4)]
  show ?thesis
    using A [of 1] A [of 2] by (auto simp: asking_sample_entry waiting_pbuf_def)
qed

end
