(* ===== verification/Ip.thy ===== *)
theory Ip
  imports Etharp Chksum "HOL-Library.Signed_Division"
begin

text \<open>
  \<open>core/ipv4/ip.c\<close> (output) and the fragmentation half of \<open>core/ipv4/ip_frag.c\<close>.  The program has one
  \<open>struct netif\<close>: \<open>netif_list\<close> and \<open>netif_default\<close> are null or point to it, which is all \<open>netif_listed\<close> and
  \<open>netif_is_default\<close> say.  \<open>ip_id\<close> is the static counter of \<open>ip_output_if\<close>; the static buffer \<open>buf\<close> of
  \<open>ip_frag\<close> is the region \<open>Ext 0\<close> of the packet memory, from its aligned start.  A pointer to a header is
  kept as the pointer it is, also while the payload pointer of its pbuf moves.
\<close>

subsection \<open>Header pointers\<close>

type_synonym ptr = "(region \<times> int) option"

definition ptr_get :: "pmem \<Rightarrow> ptr \<Rightarrow> nat \<Rightarrow> nat \<Rightarrow> u8 list option" where
  "ptr_get st q off n = read_at st (ptr_add q (int off)) n"

definition ptr_get8 :: "pmem \<Rightarrow> ptr \<Rightarrow> nat \<Rightarrow> u8 option" where
  "ptr_get8 st q off = map_option (\<lambda>bs. bs ! 0) (ptr_get st q off 1)"

definition ptr_get16 :: "pmem \<Rightarrow> ptr \<Rightarrow> nat \<Rightarrow> u16 option" where
  "ptr_get16 st q off = map_option (\<lambda>bs. u16_of_bytes (bs ! 0) (bs ! 1)) (ptr_get st q off 2)"

definition ptr_get32 :: "pmem \<Rightarrow> ptr \<Rightarrow> nat \<Rightarrow> u32 option" where
  "ptr_get32 st q off = map_option (\<lambda>bs. u32_of_bytes (bs ! 0) (bs ! 1) (bs ! 2) (bs ! 3)) (ptr_get st q off 4)"

definition ptr_put :: "ptr \<Rightarrow> nat \<Rightarrow> u8 list \<Rightarrow> pmem \<Rightarrow> pmem option" where
  "ptr_put q off bs st = write_at st (ptr_add q (int off)) bs"

text \<open>The fields of \<open>struct ip_hdr\<close> that share a half word.\<close>

definition IPH_V :: "u16 \<Rightarrow> u16" where "IPH_V v_hl_tos = drop_bit 12 (ntohs v_hl_tos)"
definition IPH_HL :: "u16 \<Rightarrow> u16" where "IPH_HL v_hl_tos = drop_bit 8 (ntohs v_hl_tos) AND 0x0f"
definition IPH_PROTO :: "u16 \<Rightarrow> u16" where "IPH_PROTO ttl_proto = ntohs ttl_proto AND 0xff"

definition IPH_VHLTOS_SET :: "u16 \<Rightarrow> u16 \<Rightarrow> u16 \<Rightarrow> u16" where
  "IPH_VHLTOS_SET v hl tos = htons (push_bit 12 v OR push_bit 8 hl OR tos)"

definition IPH_TTL_SET :: "u8 \<Rightarrow> u16 \<Rightarrow> u16" where
  "IPH_TTL_SET ttl ttl_proto = htons (IPH_PROTO ttl_proto OR push_bit 8 (ucast ttl))"

definition IPH_PROTO_SET :: "u8 \<Rightarrow> u16 \<Rightarrow> u16" where
  "IPH_PROTO_SET proto ttl_proto = htons (ucast proto OR push_bit 8 (drop_bit 8 (ntohs ttl_proto)))"

abbreviation (input) IP_PROTO_ICMP :: u8 where "IP_PROTO_ICMP \<equiv> 1"
abbreviation (input) IP_PROTO_TCP :: u8 where "IP_PROTO_TCP \<equiv> 6"
abbreviation (input) IP_PROTO_UDP :: u8 where "IP_PROTO_UDP \<equiv> 17"
abbreviation (input) IP_MF :: u16 where "IP_MF \<equiv> 0x2000"
abbreviation (input) IP_OFFMASK :: u16 where "IP_OFFMASK \<equiv> 0x1fff"
abbreviation (input) ICMP_TTL :: u8 where "ICMP_TTL \<equiv> 255"

subsection \<open>State\<close>

record ip = arp +
  netif_listed :: bool
  netif_is_default :: bool
  ip_id :: u16

subsection \<open>Routing\<close>

text \<open>\<open>True\<close> is the one interface, \<open>False\<close> is \<open>NULL\<close>.\<close>

definition ip_route :: "u32 \<Rightarrow> 'a ip_scheme \<Rightarrow> bool" where
  "ip_route dest d =
     (if netif_listed d \<and> netif_is_up (nif d) \<noteq> 0 \<and> ip_addr_netcmp dest (ip_addr (nif d)) (netmask (nif d)) then True
      else if \<not> netif_is_default d \<or> netif_is_up (nif d) = 0 then False
      else True)"

text \<open>\<open>netif->output(netif, p, dest)\<close>.\<close>

definition netif_output :: "addr \<Rightarrow> u32 \<Rightarrow> 'a ip_scheme \<Rightarrow> (err_t \<times> 'a ip_scheme) option" where
  "netif_output p dest d = (if outputf (nif d) = Some Etharp_output then etharp_output p dest d else None)"

subsection \<open>Fragmentation\<close>

abbreviation (input) frag_buf :: ptr where "frag_buf \<equiv> Some (Ext 0, 0)"

text \<open>
  The loop of \<open>ip_frag\<close>: \<open>left\<close> bytes to send, the next fragment offset \<open>ofo\<close>, the offset \<open>poff\<close> in the packet.
\<close>

definition frag_fill :: "addr \<Rightarrow> u16 \<Rightarrow> u16 \<Rightarrow> u16 \<Rightarrow> pmem \<Rightarrow> (u16 \<times> pmem) option" where
  "frag_fill p tmp cop poff st = do {
     bs \<leftarrow> pbuf_copy_partial (Some p) cop poff st;
     st \<leftarrow> ptr_put frag_buf 20 bs st;
     st \<leftarrow> ptr_put frag_buf 6 (bytes_of_u16 (htons tmp)) st;
     st \<leftarrow> ptr_put frag_buf 2 (bytes_of_u16 (htons (cop + 20))) st;
     st \<leftarrow> ptr_put frag_buf 10 (bytes_of_u16 0) st;
     hdr \<leftarrow> ptr_get st frag_buf 0 20;
     st \<leftarrow> ptr_put frag_buf 10 (bytes_of_u16 (inet_chksum hdr)) st;
     Some (poff + of_nat (length bs), st)
   }"

partial_function (option) frag_loop ::
    "addr \<Rightarrow> addr \<Rightarrow> u32 \<Rightarrow> u16 \<Rightarrow> u16 \<Rightarrow> u16 \<Rightarrow> u16 \<Rightarrow> u16 \<Rightarrow> 'a ip_scheme \<Rightarrow> (err_t \<times> 'a ip_scheme) option" where
  "frag_loop p rambuf dest m omf left ofo poff d =
     (if left = 0
      then do { (_, st) \<leftarrow> pbuf_free (Some rambuf) (pm d); Some (ERR_OK, d\<lparr>pm := st\<rparr>) }
      else do {
        let lst = (int (unat left) \<le> int (unat m) - 20);
        let nfb = (of_int ((int (unat m) - 20) sdiv 8) :: u16);
        let tmp = omf OR (IP_OFFMASK AND ofo);
        let tmp = (if \<not> lst then tmp OR IP_MF else tmp);
        let cop = (if lst then left else nfb * 8);
        (poff, st) \<leftarrow> frag_fill p tmp cop poff (pm d);
        st \<leftarrow> (if lst then pbuf_realloc rambuf (left + 20) st else Some st);
        (hd, st) \<leftarrow> pbuf_alloc PBUF_LINK 0 PBUF_RAM st;
        (case hd of
           None \<Rightarrow> do { (_, st) \<leftarrow> pbuf_free (Some rambuf) st; Some (ERR_MEM, d\<lparr>pm := st\<rparr>) }
         | Some h \<Rightarrow> do {
             st \<leftarrow> pbuf_chain (Some h) (Some rambuf) st;
             (_, d) \<leftarrow> netif_output h dest (d\<lparr>pm := st\<rparr>);
             (_, st) \<leftarrow> pbuf_free (Some h) (pm d);
             frag_loop p rambuf dest m omf (left - cop) (ofo + nfb) poff (d\<lparr>pm := st\<rparr>)
           })
      })"

definition ip_frag :: "addr \<Rightarrow> u32 \<Rightarrow> 'a ip_scheme \<Rightarrow> (err_t \<times> 'a ip_scheme) option" where
  "ip_frag p dest d = do {
     (r, st) \<leftarrow> pbuf_alloc PBUF_LINK 0 PBUF_REF (pm d);
     (case r of
        None \<Rightarrow> Some (ERR_MEM, d\<lparr>pm := st\<rparr>)
      | Some rambuf \<Rightarrow> do {
          let m = mtu (nif d);
          st \<leftarrow> upd_pbuf rambuf (\<lambda>b. b\<lparr>tot_len := m, len := m, payload := frag_buf\<rparr>) st;
          hdr \<leftarrow> get_bytes st p 0 20;
          st \<leftarrow> ptr_put frag_buf 0 hdr st;
          off \<leftarrow> ptr_get16 st frag_buf 6;
          let tmp = ntohs off;
          b \<leftarrow> pbufs st p;
          frag_loop p rambuf dest m (tmp AND IP_MF) (tot_len b - 20) (tmp AND IP_OFFMASK) 20 (d\<lparr>pm := st\<rparr>)
        })
   }"

subsection \<open>Output\<close>

text \<open>
  \<open>ip_output_if\<close>: the header in front of the payload.  \<open>src\<close> is \<open>None\<close> for a null pointer, \<open>dest\<close> is \<open>None\<close> for
  \<open>IP_HDRINCL\<close>.
\<close>

definition ip_header :: "addr \<Rightarrow> u32 option \<Rightarrow> u32 \<Rightarrow> u8 \<Rightarrow> u8 \<Rightarrow> u8 \<Rightarrow> 'a ip_scheme \<Rightarrow> 'a ip_scheme option" where
  "ip_header p src dest ttl tos proto d = do {
     let st = pm d;
     tp \<leftarrow> get_u16 st p 8;
     st \<leftarrow> put_bytes p 8 (bytes_of_u16 (IPH_PROTO_SET proto (IPH_TTL_SET ttl tp))) st;
     st \<leftarrow> put_bytes p 16 (bytes_of_u32 dest) st;
     st \<leftarrow> put_bytes p 0 (bytes_of_u16 (IPH_VHLTOS_SET 4 5 (ucast tos))) st;
     b \<leftarrow> pbufs st p;
     st \<leftarrow> put_bytes p 2 (bytes_of_u16 (htons (tot_len b))) st;
     st \<leftarrow> put_bytes p 6 (bytes_of_u16 0) st;
     st \<leftarrow> put_bytes p 4 (bytes_of_u16 (htons (ip_id d))) st;
     let src = (if ip_addr_isany src then ip_addr (nif d) else the src);
     st \<leftarrow> put_bytes p 12 (bytes_of_u32 src) st;
     st \<leftarrow> put_bytes p 10 (bytes_of_u16 0) st;
     hdr \<leftarrow> get_bytes st p 0 20;
     st \<leftarrow> put_bytes p 10 (bytes_of_u16 (inet_chksum hdr)) st;
     Some (d\<lparr>pm := st, ip_id := ip_id d + 1\<rparr>)
   }"

definition ip_send :: "addr \<Rightarrow> u32 \<Rightarrow> 'a ip_scheme \<Rightarrow> (err_t \<times> 'a ip_scheme) option" where
  "ip_send p dest d = do {
     b \<leftarrow> pbufs (pm d) p;
     (if mtu (nif d) \<noteq> 0 \<and> mtu (nif d) < tot_len b then ip_frag p dest d else netif_output p dest d)
   }"

definition ip_output_if :: "addr \<Rightarrow> u32 option \<Rightarrow> u32 option \<Rightarrow> u8 \<Rightarrow> u8 \<Rightarrow> u8 \<Rightarrow> 'a ip_scheme \<Rightarrow> (err_t \<times> 'a ip_scheme) option" where
  "ip_output_if p src dest ttl tos proto d =
     (case dest of
        Some dest \<Rightarrow> do {
          (r, st) \<leftarrow> pbuf_header (Some p) 20 (pm d);
          (if r \<noteq> 0 then Some (ERR_BUF, d\<lparr>pm := st\<rparr>)
           else do {
             d \<leftarrow> ip_header p src dest ttl tos proto (d\<lparr>pm := st\<rparr>);
             ip_send p dest d
           })
        }
      | None \<Rightarrow> do {
          dest \<leftarrow> get_u32 (pm d) p 16;
          ip_send p dest d
        })"

definition ip_output :: "addr \<Rightarrow> u32 option \<Rightarrow> u32 \<Rightarrow> u8 \<Rightarrow> u8 \<Rightarrow> u8 \<Rightarrow> 'a ip_scheme \<Rightarrow> (err_t \<times> 'a ip_scheme) option" where
  "ip_output p src dest ttl tos proto d =
     (if \<not> ip_route dest d then Some (ERR_RTE, d) else ip_output_if p src (Some dest) ttl tos proto d)"

end
