(* ===== verification/Icmp.thy ===== *)
theory Icmp
  imports Ip
begin

text \<open>
  \<open>core/ipv4/icmp.c\<close>: echo replies and error messages.  \<open>payloads\<close> reads the chain the checksum functions
  walk.
\<close>

partial_function (option) payloads :: "addr option \<Rightarrow> pmem \<Rightarrow> u8 list list option" where
  "payloads p st =
     (case p of
        None \<Rightarrow> Some []
      | Some a \<Rightarrow>
          (case pbufs st a of
             None \<Rightarrow> None
           | Some b \<Rightarrow> do {
               bs \<leftarrow> read_at st (payload b) (unat (len b));
               bss \<leftarrow> payloads (nextp b) st;
               Some (bs # bss)
             }))"

definition free_packet :: "addr \<Rightarrow> 'a dev_scheme \<Rightarrow> 'a dev_scheme option" where
  "free_packet p d = do { (_, st) \<leftarrow> pbuf_free (Some p) (pm d); Some (d\<lparr>pm := st\<rparr>) }"

abbreviation (input) ICMP_ER :: u8 where "ICMP_ER \<equiv> 0"
abbreviation (input) ICMP_DUR :: u8 where "ICMP_DUR \<equiv> 3"
abbreviation (input) ICMP_ECHO :: u8 where "ICMP_ECHO \<equiv> 8"
abbreviation (input) ICMP_TE :: u8 where "ICMP_TE \<equiv> 11"

datatype icmp_dur_type = ICMP_DUR_NET | ICMP_DUR_HOST | ICMP_DUR_PROTO | ICMP_DUR_PORT | ICMP_DUR_FRAG | ICMP_DUR_SR

fun dur_code :: "icmp_dur_type \<Rightarrow> u8" where
  "dur_code ICMP_DUR_NET = 0"
| "dur_code ICMP_DUR_HOST = 1"
| "dur_code ICMP_DUR_PROTO = 2"
| "dur_code ICMP_DUR_PORT = 3"
| "dur_code ICMP_DUR_FRAG = 4"
| "dur_code ICMP_DUR_SR = 5"

datatype icmp_te_type = ICMP_TE_TTL | ICMP_TE_FRAG

fun te_code :: "icmp_te_type \<Rightarrow> u8" where
  "te_code ICMP_TE_TTL = 0"
| "te_code ICMP_TE_FRAG = 1"

subsection \<open>Error messages\<close>

definition icmp_send_response :: "addr \<Rightarrow> u8 \<Rightarrow> u8 \<Rightarrow> 'a ip_scheme \<Rightarrow> 'a ip_scheme option" where
  "icmp_send_response p type code d = do {
     (q, st) \<leftarrow> pbuf_alloc PBUF_IP (8 + 20 + 8) PBUF_RAM (pm d);
     (case q of
        None \<Rightarrow> Some (d\<lparr>pm := st\<rparr>)
      | Some q \<Rightarrow> do {
          st \<leftarrow> put_bytes q 0 [type, code] st;
          st \<leftarrow> put_bytes q 4 (bytes_of_u16 0 @ bytes_of_u16 0) st;
          orig \<leftarrow> get_bytes st p 0 (20 + 8);
          st \<leftarrow> put_bytes q 8 orig st;
          st \<leftarrow> put_bytes q 2 (bytes_of_u16 0) st;
          b \<leftarrow> pbufs st q;
          msg \<leftarrow> get_bytes st q 0 (unat (len b));
          st \<leftarrow> put_bytes q 2 (bytes_of_u16 (inet_chksum msg)) st;
          src \<leftarrow> get_u32 st p 12;
          (_, d) \<leftarrow> ip_output q None src ICMP_TTL 0 IP_PROTO_ICMP (d\<lparr>pm := st\<rparr>);
          free_packet q d
        })
   }"

definition icmp_dest_unreach :: "addr \<Rightarrow> icmp_dur_type \<Rightarrow> 'a ip_scheme \<Rightarrow> 'a ip_scheme option" where
  "icmp_dest_unreach p t d = icmp_send_response p ICMP_DUR (dur_code t) d"

definition icmp_time_exceeded :: "addr \<Rightarrow> icmp_te_type \<Rightarrow> 'a ip_scheme \<Rightarrow> 'a ip_scheme option" where
  "icmp_time_exceeded p t d = icmp_send_response p ICMP_TE (te_code t) d"

subsection \<open>Echo\<close>

text \<open>
  A packet with room for link and IP headers: the request itself, or a copy of it.  \<open>Inl\<close> is the
  jump to \<open>memerr\<close>; the result carries the packet and the pointer to its IP header.
\<close>

definition echo_packet :: "addr \<Rightarrow> ptr \<Rightarrow> int \<Rightarrow> pmem \<Rightarrow> (pmem + (addr \<times> ptr \<times> pmem)) option" where
  "echo_packet p iphdr hlen st = do {
     (r, st) \<leftarrow> pbuf_header (Some p) (20 + 14) st;
     (if r \<noteq> 0
      then do {
        (r, st) \<leftarrow> pbuf_header (Some p) hlen st;
        (if r \<noteq> 0 then Some (Inl st)
         else do {
           b \<leftarrow> pbufs st p;
           (q, st) \<leftarrow> pbuf_alloc PBUF_LINK (tot_len b) PBUF_RAM st;
           (case q of
              None \<Rightarrow> Some (Inl st)
            | Some q \<Rightarrow> do {
                (e, st) \<leftarrow> pbuf_copy (Some q) (Some p) st;
                (if e \<noteq> ERR_OK then Some (Inl st)
                 else do {
                   c \<leftarrow> pbufs st q;
                   let iphdr = payload c;
                   (r, st) \<leftarrow> pbuf_header (Some q) (- hlen) st;
                   (if r \<noteq> 0 then Some (Inl st)
                    else do { (_, st) \<leftarrow> pbuf_free (Some p) st; Some (Inr (q, iphdr, st)) })
                 })
              })
         })
      }
      else do {
        (r, st) \<leftarrow> pbuf_header (Some p) (- (20 + 14)) st;
        Some (if r \<noteq> 0 then Inl st else Inr (p, iphdr, st))
      })
   }"

definition adjust_chksum :: "u16 \<Rightarrow> u16" where
  "adjust_chksum c =
     (if htons (0xffff - push_bit 8 (ucast ICMP_ECHO)) \<le> c then c + (htons (push_bit 8 (ucast ICMP_ECHO)) + 1)
      else c + htons (push_bit 8 (ucast ICMP_ECHO)))"

text \<open>The request turned into the reply; \<open>p\<close> points to the ICMP header.\<close>

definition echo_reply :: "addr \<Rightarrow> ptr \<Rightarrow> pmem \<Rightarrow> pmem option" where
  "echo_reply p iphdr st = do {
     src \<leftarrow> ptr_get st iphdr 12 4;
     dst \<leftarrow> ptr_get st iphdr 16 4;
     st \<leftarrow> ptr_put iphdr 12 dst st;
     st \<leftarrow> ptr_put iphdr 16 src st;
     st \<leftarrow> put_bytes p 0 [ICMP_ER] st;
     c \<leftarrow> get_u16 st p 2;
     st \<leftarrow> put_bytes p 2 (bytes_of_u16 (adjust_chksum c)) st;
     tp \<leftarrow> ptr_get16 st iphdr 8;
     st \<leftarrow> ptr_put iphdr 8 (bytes_of_u16 (IPH_TTL_SET ICMP_TTL tp)) st;
     st \<leftarrow> ptr_put iphdr 10 (bytes_of_u16 0) st;
     hdr \<leftarrow> ptr_get st iphdr 0 20;
     ptr_put iphdr 10 (bytes_of_u16 (inet_chksum hdr)) st
   }"

definition icmp_echo :: "addr \<Rightarrow> ptr \<Rightarrow> int \<Rightarrow> 'a ip_scheme \<Rightarrow> 'a ip_scheme option" where
  "icmp_echo p iphdr hlen d = do {
     dst \<leftarrow> ptr_get32 (pm d) iphdr 16;
     (if ip_addr_ismulticast dst \<or> ip_addr_isbroadcast dst (nif d) \<noteq> 0 then free_packet p d
      else do {
        b \<leftarrow> pbufs (pm d) p;
        (if tot_len b < 8 then free_packet p d
         else do {
           ch \<leftarrow> payloads (Some p) (pm d);
           (if inet_chksum_pbuf ch \<noteq> 0 then free_packet p d
            else do {
              r \<leftarrow> echo_packet p iphdr hlen (pm d);
              (case r of
                 Inl st \<Rightarrow> free_packet p (d\<lparr>pm := st\<rparr>)
               | Inr (p, iphdr, st) \<Rightarrow> do {
                   st \<leftarrow> echo_reply p iphdr st;
                   (r, st) \<leftarrow> pbuf_header (Some p) hlen st;
                   let d = d\<lparr>pm := st\<rparr>;
                   d \<leftarrow> (if r \<noteq> 0 then Some d
                        else do {
                          src \<leftarrow> ptr_get32 (pm d) iphdr 12;
                          (_, d) \<leftarrow> ip_output_if p (Some src) None ICMP_TTL 0 IP_PROTO_ICMP d;
                          Some d
                        });
                   free_packet p d
                 })
            })
         })
      })
   }"

definition icmp_input :: "addr \<Rightarrow> 'a ip_scheme \<Rightarrow> 'a ip_scheme option" where
  "icmp_input p d = do {
     b \<leftarrow> pbufs (pm d) p;
     let iphdr = payload b;
     v \<leftarrow> ptr_get16 (pm d) iphdr 0;
     let hlen = int (unat (IPH_HL v)) * 4;
     (r, st) \<leftarrow> pbuf_header (Some p) (- hlen) (pm d);
     let d = d\<lparr>pm := st\<rparr>;
     b \<leftarrow> pbufs (pm d) p;
     (if r \<noteq> 0 \<or> tot_len b < 4 then free_packet p d
      else do {
        type \<leftarrow> get_u8 (pm d) p 0;
        (if type = ICMP_ECHO then icmp_echo p iphdr hlen d else free_packet p d)
      })
   }"

end
