(* ===== verification/Rx_Order.thy ===== *)
theory Rx_Order
  imports Icmp
begin

text \<open>
  The driver of the Ethernet controller between the rings and the stack: the frames that \<open>low_level_input\<close> of
  \<open>ExtiDrive/ethernetif.c\<close> hands up against the queue of frames the controller has stored, and
  \<open>ethernet_send\<close> on a transmit ring that is full.
\<close>

subsection \<open>Receiving in order\<close>

text \<open>
  What happens on the receive side: a frame arrives, with the status word the controller gives it, or the stack
  calls \<open>low_level_input\<close>, with the packets and buffers it holds at that moment as the memory \<open>st\<close>.
\<close>

datatype rx_event = Arrive u32 "u8 list" | Fetch pmem

text \<open>The controller drops what finds the ring full; the bytes of the packets that the stack gets are recorded.\<close>

fun rx_run :: "rx_event list \<Rightarrow> 'a dev_scheme \<Rightarrow> (u8 list option list \<times> 'a dev_scheme) option" where
  "rx_run [] d = Some ([], d)"
| "rx_run (Arrive info frame # evs) d =
     (if (rx_pidx (mac d) + 1) mod 4 = rx_cidx (mac d) then rx_run evs d
      else do { m \<leftarrow> hw_receive (info, frame) (mac d); rx_run evs (d\<lparr>mac := m\<rparr>) })"
| "rx_run (Fetch st # evs) d = do {
     (p, d) \<leftarrow> low_level_input (d\<lparr>pm := st\<rparr>);
     out \<leftarrow> (case p of None \<Rightarrow> Some None | Some _ \<Rightarrow> map_option (\<lambda>bss. Some (concat bss)) (payloads p (pm d)));
     (outs, d) \<leftarrow> rx_run evs d;
     Some (out # outs, d)
   }"

text \<open>The same on a queue of at most three frames.\<close>

definition handed_up :: "u32 \<times> u8 list \<Rightarrow> pmem \<Rightarrow> u8 list option" where
  "handed_up x st =
     (if frame_good (fst x) \<and> pool_need PBUF_RAW (frame_size (fst x) - 3) \<le> length (pool_free st)
      then Some (take (frame_size (fst x) - 3) (snd x)) else None)"

fun queue_run :: "rx_event list \<Rightarrow> (u32 \<times> u8 list) list \<Rightarrow> u8 list option list \<times> (u32 \<times> u8 list) list" where
  "queue_run [] q = ([], q)"
| "queue_run (Arrive info frame # evs) q = queue_run evs (if length q < 3 then q @ [(info, frame)] else q)"
| "queue_run (Fetch st # evs) [] = (let (outs, q) = queue_run evs [] in (None # outs, q))"
| "queue_run (Fetch st # evs) (x # q) = (let (outs, q) = queue_run evs q in (handed_up x st # outs, q))"

text \<open>What the events must keep to: frames fill a buffer, and the memory of the stack is well-formed.\<close>

fun event_ok :: "rx_event \<Rightarrow> bool" where
  "event_ok (Arrive info frame) \<longleftrightarrow> length frame = 1536"
| "event_ok (Fetch st) \<longleftrightarrow> pool_ok st \<and> mem_ok (heap st)"

lemma payloads_packet: "packet st p xs \<Longrightarrow> payloads p st = Some (map (\<lambda>x. pbuf_bytes st (snd x)) xs)"
proof (induction xs arbitrary: p)
  case Nil
  then show ?case by (subst payloads.simps) simp
next
  case (Cons x xs)
  obtain a b where x: "x = (a, b)" by (cases x)
  have "p = Some a" "pbufs st a = Some b" "packet st (nextp b) xs"
    and "read_at st (payload b) (unat (len b)) = Some (pbuf_bytes st b)"
    using Cons.prems x by (auto simp: pbuf_bytes_def)
  then show ?case using Cons.IH x by (subst payloads.simps) simp
qed

lemma concat_pbuf_bytes: "concat (map (\<lambda>x. pbuf_bytes st (snd x)) xs) = packet_bytes st xs"
  by (induction xs) auto

lemma length_rx_queue:
  "length (rx_queue m) = (if rx_cidx m \<le> rx_pidx m then rx_pidx m - rx_cidx m else 4 - rx_cidx m + rx_pidx m)"
  by (simp add: rx_queue_def ring_idx_def)

lemma rx_full: "rx_ok m \<Longrightarrow> (rx_pidx m + 1) mod 4 = rx_cidx m \<longleftrightarrow> \<not> length (rx_queue m) < 3"
  unfolding length_rx_queue by (auto simp: rx_ok_def mod_Suc split: if_splits)

lemma low_level_input_rest:
  assumes "rx_ok (mac d)" "length (gRxBuf d) = 1536" "rx_queue (mac d) = x # rest" "low_level_input d = Some (p, d')"
  shows "rx_ok (mac d') \<and> length (gRxBuf d') = 1536"
proof -
  obtain info frame where x: "x = (info, frame)" by (cases x)
  note step = low_level_input_step [OF assms(1,2) assms(3) [unfolded x]]
  have "rx_pidx (mac d) \<noteq> rx_cidx (mac d)" using assms(3) by (auto simp: rx_queue_def)
  then have "rx_ok (EMAC_UpdateRxConsumeIndex (mac d))" using rx.queue_get(1) [OF assms(1)] by simp
  moreover have "mac d' = EMAC_UpdateRxConsumeIndex (mac d) \<and> length (gRxBuf d') = 1536"
  proof (cases "frame_good info")
    case True
    then obtain n rx where rx: "length rx = 1536" "low_level_input d = do {
         (p, st) \<leftarrow> pbuf_alloc PBUF_RAW n PBUF_POOL (pm d);
         st \<leftarrow> (if p \<noteq> None then input_loop p 0 rx st else Some st);
         Some (p, d\<lparr>gRxBuf := rx, mac := EMAC_UpdateRxConsumeIndex (mac d), pm := st\<rparr>)
       }"
      using step(2) by auto
    from assms(4) [unfolded rx(2)] rx(1) show ?thesis by (auto simp: bind_eq_Some_conv)
  qed (use step(2) assms(2,4) in simp)
  ultimately show ?thesis by simp
qed

lemma rx_run_queue:
  "rx_ok (mac d) \<Longrightarrow> length (gRxBuf d) = 1536 \<Longrightarrow> \<forall>ev \<in> set evs. event_ok ev \<Longrightarrow>
   \<exists>outs d'. rx_run evs d = Some (outs, d') \<and> rx_ok (mac d') \<and> (outs, rx_queue (mac d')) = queue_run evs (rx_queue (mac d))"
proof (induction evs arbitrary: d)
  case (Cons ev evs)
  note IH = Cons.IH and prems = Cons.prems
  show ?case
  proof (cases ev)
    case (Arrive info frame)
    show ?thesis
    proof (cases "(rx_pidx (mac d) + 1) mod 4 = rx_cidx (mac d)")
      case True
      then show ?thesis using IH [OF prems(1,2)] prems(3) Arrive True rx_full [OF prems(1)] by simp
    next
      case False
      obtain m where m: "hw_receive (info, frame) (mac d) = Some m" "rx_ok m" "rx_queue m = rx_queue (mac d) @ [(info, frame)]"
        using rx.queue_put [OF prems(1) _ False, of "(info, frame)"] prems(3) Arrive by (auto simp: rx_queue_eq)
      have "length (rx_queue (mac d)) < 3" using False rx_full [OF prems(1)] by simp
      then show ?thesis using IH [of "d\<lparr>mac := m\<rparr>"] prems Arrive m False by simp
    qed
  next
    case (Fetch st)
    define e where "e = d\<lparr>pm := st\<rparr>"
    have e: "rx_ok (mac e)" "pool_ok (pm e)" "mem_ok (heap (pm e))" "length (gRxBuf e) = 1536" "mac e = mac d" "pm e = st"
      using prems Fetch by (simp_all add: e_def)
    note R = low_level_input_receives_ok [OF e(1-4), unfolded e(5,6)]
    show ?thesis
    proof (cases "rx_queue (mac d)")
      case Nil
      then have "low_level_input e = Some (None, e)" using R by simp
      then show ?thesis
        using IH [of e] prems e Nil Fetch by (auto simp: e_def [symmetric] split: prod.splits)
    next
      case (Cons x rest)
      have "\<exists>p d1. low_level_input e = Some (p, d1) \<and> rx_queue (mac d1) = rest \<and>
          (case p of None \<Rightarrow> Some None | Some _ \<Rightarrow> map_option (\<lambda>bss. Some (concat bss)) (payloads p (pm d1))) = Some (handed_up x st)"
        using R unfolding Cons by (cases x) (auto simp: handed_up_def payloads_packet concat_pbuf_bytes split: if_splits)
      then obtain p d1 where d1: "low_level_input e = Some (p, d1)" "rx_queue (mac d1) = rest"
        "(case p of None \<Rightarrow> Some None | Some _ \<Rightarrow> map_option (\<lambda>bss. Some (concat bss)) (payloads p (pm d1))) = Some (handed_up x st)"
        by blast
      have "rx_ok (mac d1) \<and> length (gRxBuf d1) = 1536"
        using low_level_input_rest [OF e(1,4) _ d1(1)] Cons e(5) by simp
      then show ?thesis
        using IH [of d1] prems(3) d1 Cons Fetch by (auto simp: e_def [symmetric] split: prod.splits)
    qed
  qed
qed simp

text \<open>
  C16. The frames that the stack gets are those the controller received, in order, none lost and none repeated: for
  every interleaving of arriving frames with calls of \<open>low_level_input\<close>, at whatever well-formed memory the stack has then, each
  call returns, and what the calls hand up and leave in the ring is what a queue of three frames would.  Of the frame
  at its head a call hands up exactly the bytes without the CRC; a frame with an error, in fragments or too long, or
  for which the pool has too few pbufs, is dropped, and a call on an empty ring gives nothing.
\<close>
theorem rx_frames_in_order:
  assumes "rx_ok (mac d)" "length (gRxBuf d) = 1536" "\<forall>ev \<in> set evs. event_ok ev"
  shows "\<exists>outs d'. rx_run evs d = Some (outs, d') \<and> rx_ok (mac d') \<and> (outs, rx_queue (mac d')) = queue_run evs (rx_queue (mac d))"
  using assms by (rule rx_run_queue)

text \<open>One frame is waiting, a second arrives, and the stack asks three times.\<close>

theorem rx_frames_in_order_witness:
  "\<exists>d'. rx_run [Arrive 0x4000003F (replicate 1536 7), Fetch pmem_init, Fetch pmem_init, Fetch pmem_init] dev_sample =
     Some ([Some (replicate 60 0), Some (replicate 60 7), None], d') \<and> rx_queue (mac d') = []"
proof -
  let ?evs = "[Arrive 0x4000003F (replicate 1536 7), Fetch pmem_init, Fetch pmem_init, Fetch pmem_init]"
  have q: "rx_queue (mac dev_sample) = [(0x4000003F, replicate 1536 0)]"
    by (simp add: rx_queue_def rx_cidx_def rx_pidx_def dev_sample_def emac_sample_def ring_idx_def rx_slot_def)
  have h: "handed_up (0x4000003F, replicate 1536 v) pmem_init = Some (replicate 60 v)" for v
    by (simp add: handed_up_def frame_good_def frame_size_def pool_need_def pool_blocks_def pmem_init_def memp_init_eq)
  have ok: "\<forall>ev \<in> set ?evs. event_ok ev" using pmem_init_ok by simp
  show ?thesis
    using rx_frames_in_order [OF dev_sample_ok(1,5) ok] by (auto simp: q h)
qed

subsection \<open>A full transmit ring\<close>

lemma ethernet_send_cases:
  assumes ok: "tx_ok m" and n: "1 \<le> n" "n \<le> 1536" "length g = 1536"
  shows "length (tx_queue m) < 2 \<Longrightarrow>
      \<exists>m'. ethernet_send g (int n) m = Some (0, m') \<and> tx_ok m' \<and> tx_queue m' = tx_queue m @ [take n g]"
    "length (tx_queue m) = 2 \<Longrightarrow> tx_cidx m \<noteq> 0 \<Longrightarrow> ethernet_send g (int n) m = Some (- 1, m)"
    "length (tx_queue m) = 2 \<Longrightarrow> tx_cidx m = 0 \<Longrightarrow> \<exists>m'. ethernet_send g (int n) m = Some (0, m') \<and> tx_queue m' = []"
proof -
  have chk: "EMAC_CheckTransmitIndex m = (length (tx_queue m) < 2 \<or> tx_cidx m = 0)"
    unfolding tx_check_iff [OF ok] length_tx_queue using tx_bounds [OF ok] by auto
  have send: "\<exists>m'. ethernet_send g (int n) m = Some (0, m') \<and> tx_put (n, g) m = Some m'" if "EMAC_CheckTransmitIndex m"
    using ethernet_send_ok [OF ok that n] .
  show "\<exists>m'. ethernet_send g (int n) m = Some (0, m') \<and> tx_ok m' \<and> tx_queue m' = tx_queue m @ [take n g]"
    if q: "length (tx_queue m) < 2"
  proof -
    have "(tx_pidx m + 1) mod 3 \<noteq> tx_cidx m"
      using q tx_bounds [OF ok] unfolding length_tx_queue by (auto simp: mod_Suc split: if_splits)
    from tx.queue_put [OF ok _ this, of "(n, g)"] show ?thesis using send chk q n by (auto simp: tx_queue_eq)
  qed
  show "ethernet_send g (int n) m = Some (- 1, m)" if "length (tx_queue m) = 2" "tx_cidx m \<noteq> 0"
    using that chk n by (intro ethernet_send_full) auto
  show "\<exists>m'. ethernet_send g (int n) m = Some (0, m') \<and> tx_queue m' = []" if q: "length (tx_queue m) = 2" "tx_cidx m = 0"
    using send chk tx_write [OF ok n] tx_full_next [OF ok q(1)] q by (auto simp: tx_queue_def)
qed

text \<open>
  C17. \<open>ethernet_send\<close> against the transmit ring, which holds two frames at most.  With fewer waiting, the frame is
  queued behind them.  With two waiting it is refused with \<open>-1\<close> and nothing changes, unless the consume index is 0:
  there \<open>EMAC_CheckTransmitIndex\<close> misses that the ring is full, \<open>ethernet_send\<close> reports success, and the produce
  index moves onto the consume index, so that this third frame and the two before it are all lost.
\<close>
theorem tx_full_missed:
  assumes "tx_ok m" "1 \<le> n" "n \<le> 1536" "length g = 1536"
  shows "if length (tx_queue m) < 2
    then \<exists>m'. ethernet_send g (int n) m = Some (0, m') \<and> tx_ok m' \<and> tx_queue m' = tx_queue m @ [take n g]
    else length (tx_queue m) = 2 \<and>
      (if tx_cidx m \<noteq> 0 then ethernet_send g (int n) m = Some (- 1, m)
       else \<exists>m'. ethernet_send g (int n) m = Some (0, m') \<and> tx_queue m' = [])"
proof -
  have "length (tx_queue m) < 3" using tx.queue_bound [OF assms(1)] by (simp add: tx_queue_eq)
  then show ?thesis using ethernet_send_cases [OF assms] by auto
qed

theorem tx_full_missed_witness:
  "let m = emac_sample\<lparr>regs := (\<lambda>_. 0)(TxProduceIndex := 2)\<rparr>
   in length (tx_queue m) = 2 \<and> (\<exists>m'. ethernet_send (replicate 1536 0) 60 m = Some (0, m') \<and> tx_queue m' = [])"
proof -
  let ?m = "emac_sample\<lparr>regs := (\<lambda>_. 0)(TxProduceIndex := 2)\<rparr>"
  have m: "tx_pidx ?m = 2" "tx_cidx ?m = 0" by (simp_all add: tx_pidx_def tx_cidx_def)
  then have "length (tx_queue ?m) = 2" by (simp add: length_tx_queue)
  with m show ?thesis
    using tx_full_missed [OF emac_sample_ok(2), of 60 "replicate 1536 0"] by (simp add: Let_def)
qed

end
