(* ===== verification/Udp.thy ===== *)
theory Udp
  imports Icmp
begin

text \<open>
  \<open>core/udp.c\<close>.  A PCB is an element of the pool \<open>MEMP_UDP_PCB\<close>, so its address is the number of the element;
  \<open>udp_mem\<close> holds the structures and \<open>udp_pcbs\<close> the active list.  The receive callback is the name of a
  function of the program; what it does is the argument \<open>cb\<close> of \<open>udp_input\<close>, which gets the argument, the
  PCB, the packet, the pointer to the source address in the packet and the port.
\<close>

datatype udp_fn = Udp_echo_recv | Recv_callback_tftp | Rrq_recv_callback | Wrq_recv_callback
  | Udp_server_callback | Udp_client_callback

record udp_pcb =
  local_ip :: u32
  remote_ip :: u32
  so_options :: u16
  tos :: u8
  ttl :: u8
  uflags :: u8
  local_port :: u16
  remote_port :: u16
  urecv :: "udp_fn option"
  urecv_arg :: "nat option"

record udp = ip +
  udp_mem :: "nat \<rightharpoonup> udp_pcb"
  udp_pcbs :: "nat list"

abbreviation (input) UDP_FLAGS_NOCHKSUM :: u8 where "UDP_FLAGS_NOCHKSUM \<equiv> 1"
abbreviation (input) UDP_FLAGS_CONNECTED :: u8 where "UDP_FLAGS_CONNECTED \<equiv> 4"
abbreviation (input) UDP_TTL :: u8 where "UDP_TTL \<equiv> 255"

definition upd_udp :: "nat \<Rightarrow> (udp_pcb \<Rightarrow> udp_pcb) \<Rightarrow> 'a udp_scheme \<Rightarrow> 'a udp_scheme option" where
  "upd_udp i f d = map_option (\<lambda>u. d\<lparr>udp_mem := (udp_mem d)(i \<mapsto> f u)\<rparr>) (udp_mem d i)"

subsection \<open>Control blocks\<close>

definition udp_new :: "'a udp_scheme \<Rightarrow> nat option \<times> 'a udp_scheme" where
  "udp_new d =
     (case memp_malloc MEMP_UDP_PCB (pools (pm d)) of
        (None, pl) \<Rightarrow> (None, d\<lparr>pm := (pm d)\<lparr>pools := pl\<rparr>\<rparr>)
      | (Some i, pl) \<Rightarrow>
          (Some i, d\<lparr>pm := (pm d)\<lparr>pools := pl\<rparr>, udp_mem := (udp_mem d)(i \<mapsto>
             \<lparr>local_ip = 0, remote_ip = 0, so_options = 0, tos = 0, ttl = UDP_TTL, uflags = 0, local_port = 0,
              remote_port = 0, urecv = None, urecv_arg = None\<rparr>)\<rparr>))"

fun unlink :: "nat \<Rightarrow> nat list \<Rightarrow> nat list" where
  "unlink pcb (a # b # xs) = (if b = pcb then a # unlink pcb xs else a # unlink pcb (b # xs))"
| "unlink pcb xs = xs"

definition udp_remove :: "nat \<Rightarrow> 'a udp_scheme \<Rightarrow> 'a udp_scheme" where
  "udp_remove pcb d =
     (let l = (case udp_pcbs d of a # xs \<Rightarrow> if a = pcb then xs else unlink pcb (a # xs) | [] \<Rightarrow> [])
      in d\<lparr>udp_pcbs := l, udp_mem := (udp_mem d)(pcb := None),
           pm := (pm d)\<lparr>pools := memp_free MEMP_UDP_PCB (Some pcb) (pools (pm d))\<rparr>\<rparr>)"

text \<open>The scan for a free local port, from 4096 up to \<open>0x7fff\<close>, which the port never passes: \<open>ports\<close> are the ports of the PCBs still to look at, \<open>all_ports\<close> of all.\<close>

function port_scan :: "u16 list \<Rightarrow> u16 list \<Rightarrow> u16 \<Rightarrow> u16 option" where
  "port_scan all_ports ports port =
     (case ports of
        [] \<Rightarrow> Some port
      | x # xs \<Rightarrow>
          if 0x7fff \<le> port then None
          else if x = port then port_scan all_ports all_ports (port + 1)
          else port_scan all_ports xs port)"
  by pat_completeness auto
termination
  by (relation "measures [\<lambda>(a, ps, p). 0x7fff - unat p, \<lambda>(a, ps, p). length ps]")
     (auto simp: unat_word_ariths word_le_nat_alt)

declare port_scan.simps [simp del]

definition udp_bind :: "nat \<Rightarrow> u32 option \<Rightarrow> u16 \<Rightarrow> 'a udp_scheme \<Rightarrow> (err_t \<times> 'a udp_scheme) option" where
  "udp_bind pcb ipaddr port d = do {
     let rebind = (pcb \<in> set (udp_pcbs d));
     let ports = map (\<lambda>i. local_port (the (udp_mem d i))) (udp_pcbs d);
     d \<leftarrow> upd_udp pcb (\<lambda>u. u\<lparr>local_ip := ip_addr_set ipaddr\<rparr>) d;
     (case (if port = 0 then port_scan ports ports 4096 else Some port) of
        None \<Rightarrow> Some (ERR_USE, d)
      | Some port \<Rightarrow> do {
          d \<leftarrow> upd_udp pcb (\<lambda>u. u\<lparr>local_port := port\<rparr>) d;
          Some (ERR_OK, if rebind then d else d\<lparr>udp_pcbs := pcb # udp_pcbs d\<rparr>)
        })
   }"

definition udp_connect :: "nat \<Rightarrow> u32 option \<Rightarrow> u16 \<Rightarrow> 'a udp_scheme \<Rightarrow> (err_t \<times> 'a udp_scheme) option" where
  "udp_connect pcb ipaddr port d = do {
     u \<leftarrow> udp_mem d pcb;
     (e, d) \<leftarrow> (if local_port u = 0 then udp_bind pcb (Some (local_ip u)) 0 d else Some (ERR_OK, d));
     (if e \<noteq> ERR_OK then Some (e, d)
      else do {
        d \<leftarrow> upd_udp pcb (\<lambda>u. u\<lparr>remote_ip := ip_addr_set ipaddr, remote_port := port,
                                 uflags := uflags u OR UDP_FLAGS_CONNECTED\<rparr>) d;
        Some (ERR_OK, if pcb \<in> set (udp_pcbs d) then d else d\<lparr>udp_pcbs := pcb # udp_pcbs d\<rparr>)
      })
   }"

definition udp_disconnect :: "nat \<Rightarrow> 'a udp_scheme \<Rightarrow> 'a udp_scheme option" where
  "udp_disconnect pcb d =
     upd_udp pcb (\<lambda>u. u\<lparr>remote_ip := 0, remote_port := 0, uflags := uflags u AND NOT UDP_FLAGS_CONNECTED\<rparr>) d"

definition udp_recv :: "nat \<Rightarrow> udp_fn option \<Rightarrow> nat option \<Rightarrow> 'a udp_scheme \<Rightarrow> 'a udp_scheme option" where
  "udp_recv pcb f arg d = upd_udp pcb (\<lambda>u. u\<lparr>urecv := f, urecv_arg := arg\<rparr>) d"

subsection \<open>Output\<close>

text \<open>The packet with room for the UDP header in front: \<open>p\<close> itself, or a new header pbuf chained to it.\<close>

definition udp_room :: "addr \<Rightarrow> pmem \<Rightarrow> (addr option \<times> pmem) option" where
  "udp_room p st = do {
     (r, st) \<leftarrow> pbuf_header (Some p) 8 st;
     (if r \<noteq> 0
      then do {
        (q, st) \<leftarrow> pbuf_alloc PBUF_IP 8 PBUF_RAM st;
        (case q of None \<Rightarrow> Some (None, st) | Some q \<Rightarrow> do { st \<leftarrow> pbuf_chain (Some q) (Some p) st; Some (Some q, st) })
      }
      else Some (Some p, st))
   }"

definition udp_checksum :: "addr \<Rightarrow> u8 \<Rightarrow> u32 \<Rightarrow> u32 \<Rightarrow> pmem \<Rightarrow> pmem option" where
  "udp_checksum q flgs src dst st =
     (if flgs AND UDP_FLAGS_NOCHKSUM = 0
      then do {
        ch \<leftarrow> payloads (Some q) st;
        b \<leftarrow> pbufs st q;
        let c = inet_chksum_pseudo ch src dst IP_PROTO_UDP (tot_len b);
        put_bytes q 6 (bytes_of_u16 (if c = 0 then 0xffff else c)) st
      }
      else Some st)"

definition udp_sendto_if :: "nat \<Rightarrow> addr \<Rightarrow> u32 \<Rightarrow> u16 \<Rightarrow> 'a udp_scheme \<Rightarrow> (err_t \<times> 'a udp_scheme) option" where
  "udp_sendto_if pcb p dst_ip dst_port d = do {
     u \<leftarrow> udp_mem d pcb;
     (e, d) \<leftarrow> (if local_port u = 0 then udp_bind pcb (Some (local_ip u)) 0 d else Some (ERR_OK, d));
     (if e \<noteq> ERR_OK then Some (e, d)
      else do {
        (q, st) \<leftarrow> udp_room p (pm d);
        (case q of
           None \<Rightarrow> Some (ERR_MEM, d\<lparr>pm := st\<rparr>)
         | Some q \<Rightarrow> do {
             u \<leftarrow> udp_mem d pcb;
             st \<leftarrow> put_bytes q 0 (bytes_of_u16 (htons (local_port u))) st;
             st \<leftarrow> put_bytes q 2 (bytes_of_u16 (htons dst_port)) st;
             st \<leftarrow> put_bytes q 6 (bytes_of_u16 0) st;
             (if \<not> ip_addr_isany (Some (local_ip u)) \<and> local_ip u \<noteq> ip_addr (nif d)
              then do {
                d \<leftarrow> (if q \<noteq> p then free_packet q (d\<lparr>pm := st\<rparr>) else Some (d\<lparr>pm := st\<rparr>));
                Some (ERR_VAL, d)
              }
              else do {
                let src_ip = (if ip_addr_isany (Some (local_ip u)) then ip_addr (nif d) else local_ip u);
                b \<leftarrow> pbufs st q;
                st \<leftarrow> put_bytes q 4 (bytes_of_u16 (htons (tot_len b))) st;
                st \<leftarrow> udp_checksum q (uflags u) src_ip dst_ip st;
                (e, d) \<leftarrow> ip_output_if q (Some src_ip) (Some dst_ip) (ttl u) (tos u) IP_PROTO_UDP (d\<lparr>pm := st\<rparr>);
                d \<leftarrow> (if q \<noteq> p then free_packet q d else Some d);
                Some (e, d)
              })
           })
      })
   }"

definition udp_sendto :: "nat \<Rightarrow> addr \<Rightarrow> u32 \<Rightarrow> u16 \<Rightarrow> 'a udp_scheme \<Rightarrow> (err_t \<times> 'a udp_scheme) option" where
  "udp_sendto pcb p dst_ip dst_port d =
     (if \<not> ip_route dst_ip d then Some (ERR_RTE, d) else udp_sendto_if pcb p dst_ip dst_port d)"

definition udp_send :: "nat \<Rightarrow> addr \<Rightarrow> 'a udp_scheme \<Rightarrow> (err_t \<times> 'a udp_scheme) option" where
  "udp_send pcb p d = do { u \<leftarrow> udp_mem d pcb; udp_sendto pcb p (remote_ip u) (remote_port u) d }"

subsection \<open>Input\<close>

definition local_matches :: "udp_pcb \<Rightarrow> u16 \<Rightarrow> u32 \<Rightarrow> bool \<Rightarrow> bool" where
  "local_matches u dest dst broadcast \<longleftrightarrow> local_port u = dest \<and>
     (\<not> broadcast \<and> ip_addr_isany (Some (local_ip u)) \<or> local_ip u = dst \<or> broadcast)"

definition remote_matches :: "udp_pcb \<Rightarrow> u16 \<Rightarrow> u32 \<Rightarrow> bool" where
  "remote_matches u src_port src \<longleftrightarrow>
     remote_port u = src_port \<and> (ip_addr_isany (Some (remote_ip u)) \<or> remote_ip u = src)"

text \<open>
  The loop over \<open>udp_pcbs\<close>: the PCBs before the one that matches fully, that PCB, and the first unconnected
  one.
\<close>

fun udp_match :: "(nat \<rightharpoonup> udp_pcb) \<Rightarrow> (u32 \<times> u16) \<Rightarrow> (u32 \<times> u16) \<Rightarrow> bool \<Rightarrow> nat list \<Rightarrow> nat list \<Rightarrow> nat option \<Rightarrow>
    (nat list \<times> nat list \<times> nat option) option" where
  "udp_match m src dst broadcast pre [] uncon = Some (pre, [], uncon)"
| "udp_match m src dst broadcast pre (i # is) uncon = do {
     u \<leftarrow> m i;
     let local_match = local_matches u (snd dst) (fst dst) broadcast;
     let uncon = (if local_match \<and> uncon = None \<and> uflags u AND UDP_FLAGS_CONNECTED = 0 then Some i else uncon);
     (if local_match \<and> remote_matches u (snd src) (fst src) then Some (pre, i # is, uncon)
      else udp_match m src dst broadcast (pre @ [i]) is uncon)
   }"

text \<open>The PCB that gets the datagram, and the list with a full match moved to the front.\<close>

definition udp_demux :: "(u32 \<times> u16) \<Rightarrow> (u32 \<times> u16) \<Rightarrow> bool \<Rightarrow> 'a udp_scheme \<Rightarrow> (nat option \<times> 'a udp_scheme) option" where
  "udp_demux src dst broadcast d = do {
     (pre, rest, uncon) \<leftarrow> udp_match (udp_mem d) src dst broadcast [] (udp_pcbs d) None;
     Some (case rest of [] \<Rightarrow> (uncon, d) | i # is \<Rightarrow> (Some i, d\<lparr>udp_pcbs := i # pre @ is\<rparr>))
   }"

type_synonym 'a udp_cb = "udp_fn \<Rightarrow> nat option \<Rightarrow> nat \<Rightarrow> addr \<Rightarrow> ptr \<Rightarrow> u16 \<Rightarrow> 'a udp_scheme \<Rightarrow> 'a udp_scheme option"

text \<open>What happens to a datagram once its PCB, if any, is known; \<open>hlen\<close> is the length of the IP header.\<close>

definition udp_deliver :: "'a udp_cb \<Rightarrow> nat option \<Rightarrow> addr \<Rightarrow> ptr \<Rightarrow> int \<Rightarrow> u16 \<Rightarrow> bool \<Rightarrow> 'a udp_scheme \<Rightarrow> 'a udp_scheme option" where
  "udp_deliver cb pcb p iphdr hlen src_port broadcast d = do {
     src \<leftarrow> ptr_get32 (pm d) iphdr 12;
     dst \<leftarrow> ptr_get32 (pm d) iphdr 16;
     (if pcb = None \<and> ip_addr (nif d) \<noteq> dst then free_packet p d
      else do {
        c \<leftarrow> get_u16 (pm d) p 6;
        ch \<leftarrow> payloads (Some p) (pm d);
        b \<leftarrow> pbufs (pm d) p;
        (if c \<noteq> 0 \<and> inet_chksum_pseudo ch src dst IP_PROTO_UDP (tot_len b) \<noteq> 0 then free_packet p d
         else do {
           (r, st) \<leftarrow> pbuf_header (Some p) (-8) (pm d);
           let d = d\<lparr>pm := st\<rparr>;
           (if r \<noteq> 0 then free_packet p d
            else case pcb of
              Some i \<Rightarrow> do {
                u \<leftarrow> udp_mem d i;
                (case urecv u of
                   Some f \<Rightarrow> cb f (urecv_arg u) i p (ptr_add iphdr 12) src_port d
                 | None \<Rightarrow> free_packet p d)
              }
            | None \<Rightarrow> do {
                d \<leftarrow> (if \<not> broadcast \<and> \<not> ip_addr_ismulticast dst
                     then do {
                       (_, st) \<leftarrow> pbuf_header (Some p) (hlen + 8) (pm d);
                       icmp_dest_unreach p ICMP_DUR_PORT (d\<lparr>pm := st\<rparr>)
                     }
                     else Some d);
                free_packet p d
              })
         })
      })
   }"

definition udp_input :: "'a udp_cb \<Rightarrow> addr \<Rightarrow> 'a udp_scheme \<Rightarrow> 'a udp_scheme option" where
  "udp_input cb p d = do {
     b \<leftarrow> pbufs (pm d) p;
     let iphdr = payload b;
     v \<leftarrow> ptr_get16 (pm d) iphdr 0;
     let hlen = int (unat (IPH_HL v)) * 4;
     (if int (unat (tot_len b)) < hlen + 8 then free_packet p d
      else do {
        (r, st) \<leftarrow> pbuf_header (Some p) (- hlen) (pm d);
        let d = d\<lparr>pm := st\<rparr>;
        (if r \<noteq> 0 then free_packet p d
         else do {
           dst \<leftarrow> ptr_get32 (pm d) iphdr 16;
           src \<leftarrow> ptr_get32 (pm d) iphdr 12;
           let broadcast = (ip_addr_isbroadcast dst (nif d) \<noteq> 0);
           sp \<leftarrow> get_u16 (pm d) p 0;
           dp \<leftarrow> get_u16 (pm d) p 2;
           (pcb, d) \<leftarrow> udp_demux (src, ntohs sp) (dst, ntohs dp) broadcast d;
           udp_deliver cb pcb p iphdr hlen (ntohs sp) broadcast d
         })
      })
   }"

end
