(* ===== verification/Raw.thy ===== *)
theory Raw
  imports Udp
begin

text \<open>
  \<open>core/raw.c\<close>.  The program registers no raw callback of its own, so callbacks are numbers and what they do is
  the argument \<open>rcb\<close> of \<open>raw_input\<close>: it gets the argument, the PCB, the packet and the pointer to the source
  address, and says whether it has eaten the packet.
\<close>

record raw_pcb =
  rlocal_ip :: u32
  rremote_ip :: u32
  rso_options :: u16
  rtos :: u8
  rttl :: u8
  protocol :: u8
  rrecv :: "nat option"
  rrecv_arg :: "nat option"

record raw = udp +
  raw_mem :: "nat \<rightharpoonup> raw_pcb"
  raw_pcbs :: "nat list"

abbreviation (input) RAW_TTL :: u8 where "RAW_TTL \<equiv> 255"

definition upd_raw :: "nat \<Rightarrow> (raw_pcb \<Rightarrow> raw_pcb) \<Rightarrow> 'a raw_scheme \<Rightarrow> 'a raw_scheme option" where
  "upd_raw i f d = map_option (\<lambda>u. d\<lparr>raw_mem := (raw_mem d)(i \<mapsto> f u)\<rparr>) (raw_mem d i)"

definition raw_new :: "u8 \<Rightarrow> 'a raw_scheme \<Rightarrow> nat option \<times> 'a raw_scheme" where
  "raw_new proto d =
     (case memp_malloc MEMP_RAW_PCB (pools (pm d)) of
        (None, pl) \<Rightarrow> (None, d\<lparr>pm := (pm d)\<lparr>pools := pl\<rparr>\<rparr>)
      | (Some i, pl) \<Rightarrow>
          (Some i, d\<lparr>pm := (pm d)\<lparr>pools := pl\<rparr>, raw_mem := (raw_mem d)(i \<mapsto>
             \<lparr>rlocal_ip = 0, rremote_ip = 0, rso_options = 0, rtos = 0, rttl = RAW_TTL, protocol = proto,
              rrecv = None, rrecv_arg = None\<rparr>), raw_pcbs := i # raw_pcbs d\<rparr>))"

definition raw_remove :: "nat \<Rightarrow> 'a raw_scheme \<Rightarrow> 'a raw_scheme" where
  "raw_remove pcb d =
     (let l = (case raw_pcbs d of a # xs \<Rightarrow> if a = pcb then xs else unlink pcb (a # xs) | [] \<Rightarrow> [])
      in d\<lparr>raw_pcbs := l, raw_mem := (raw_mem d)(pcb := None),
           pm := (pm d)\<lparr>pools := memp_free MEMP_RAW_PCB (Some pcb) (pools (pm d))\<rparr>\<rparr>)"

definition raw_bind :: "nat \<Rightarrow> u32 option \<Rightarrow> 'a raw_scheme \<Rightarrow> (err_t \<times> 'a raw_scheme) option" where
  "raw_bind pcb ipaddr d = do { d \<leftarrow> upd_raw pcb (\<lambda>u. u\<lparr>rlocal_ip := ip_addr_set ipaddr\<rparr>) d; Some (ERR_OK, d) }"

definition raw_connect :: "nat \<Rightarrow> u32 option \<Rightarrow> 'a raw_scheme \<Rightarrow> (err_t \<times> 'a raw_scheme) option" where
  "raw_connect pcb ipaddr d = do { d \<leftarrow> upd_raw pcb (\<lambda>u. u\<lparr>rremote_ip := ip_addr_set ipaddr\<rparr>) d; Some (ERR_OK, d) }"

definition raw_recv :: "nat \<Rightarrow> nat option \<Rightarrow> nat option \<Rightarrow> 'a raw_scheme \<Rightarrow> 'a raw_scheme option" where
  "raw_recv pcb f arg d = upd_raw pcb (\<lambda>u. u\<lparr>rrecv := f, rrecv_arg := arg\<rparr>) d"

type_synonym 'a raw_cb = "nat \<Rightarrow> nat option \<Rightarrow> nat \<Rightarrow> addr \<Rightarrow> ptr \<Rightarrow> 'a raw_scheme \<Rightarrow> (bool \<times> 'a raw_scheme) option"

text \<open>
  The loop of \<open>raw_input\<close> over the list as it was at the start; \<open>pre\<close> are the PCBs already passed.  A PCB that
  eats the packet moves to the front.
\<close>

fun raw_loop :: "'a raw_cb \<Rightarrow> u16 \<Rightarrow> addr \<Rightarrow> ptr \<Rightarrow> nat list \<Rightarrow> nat list \<Rightarrow> 'a raw_scheme \<Rightarrow> (bool \<times> 'a raw_scheme) option" where
  "raw_loop rcb proto p iphdr pre [] d = Some (False, d)"
| "raw_loop rcb proto p iphdr pre (i # is) d = do {
     u \<leftarrow> raw_mem d i;
     (eaten, d) \<leftarrow> (case (ucast (protocol u) = proto, rrecv u) of
        (True, Some f) \<Rightarrow> rcb f (rrecv_arg u) i p (ptr_add iphdr 12) d
      | _ \<Rightarrow> Some (False, d));
     (if eaten then Some (True, d\<lparr>raw_pcbs := i # pre @ is\<rparr>)
      else raw_loop rcb proto p iphdr (pre @ [i]) is d)
   }"

definition raw_input :: "'a raw_cb \<Rightarrow> addr \<Rightarrow> 'a raw_scheme \<Rightarrow> (bool \<times> 'a raw_scheme) option" where
  "raw_input rcb p d = do {
     b \<leftarrow> pbufs (pm d) p;
     let iphdr = payload b;
     tp \<leftarrow> ptr_get16 (pm d) iphdr 8;
     raw_loop rcb (IPH_PROTO tp) p iphdr [] (raw_pcbs d) d
   }"

definition raw_sendto :: "nat \<Rightarrow> addr \<Rightarrow> u32 \<Rightarrow> 'a raw_scheme \<Rightarrow> (err_t \<times> 'a raw_scheme) option" where
  "raw_sendto pcb p ipaddr d = do {
     (r, st) \<leftarrow> pbuf_header (Some p) 20 (pm d);
     (q, st) \<leftarrow>
       (if r \<noteq> 0
        then do {
          (q, st) \<leftarrow> pbuf_alloc PBUF_IP 0 PBUF_RAM st;
          (case q of None \<Rightarrow> Some (None, st) | Some q \<Rightarrow> do { st \<leftarrow> pbuf_chain (Some q) (Some p) st; Some (Some q, st) })
        }
        else do { (r, st) \<leftarrow> pbuf_header (Some p) (-20) st; Some (if r \<noteq> 0 then None else Some p, st) });
     let d = d\<lparr>pm := st\<rparr>;
     (case q of
        None \<Rightarrow> Some (ERR_MEM, d)
      | Some q \<Rightarrow>
          if \<not> ip_route ipaddr d
          then do { d \<leftarrow> (if q \<noteq> p then free_packet q d else Some d); Some (ERR_RTE, d) }
          else do {
            u \<leftarrow> raw_mem d pcb;
            let src_ip = (if ip_addr_isany (Some (rlocal_ip u)) then ip_addr (nif d) else rlocal_ip u);
            (e, d) \<leftarrow> ip_output_if q (Some src_ip) (Some ipaddr) (rttl u) (rtos u) (protocol u) d;
            d \<leftarrow> (if q \<noteq> p then free_packet q d else Some d);
            Some (e, d)
          })
   }"

definition raw_send :: "nat \<Rightarrow> addr \<Rightarrow> 'a raw_scheme \<Rightarrow> (err_t \<times> 'a raw_scheme) option" where
  "raw_send pcb p d = do { u \<leftarrow> raw_mem d pcb; raw_sendto pcb p (rremote_ip u) d }"

end
