(* ===== verification/Ip_Reass.thy ===== *)
theory Ip_Reass
  imports Raw
begin

text \<open>
  The reassembly half of \<open>core/ipv4/ip_frag.c\<close>.  Datagrams are elements of the pool \<open>MEMP_REASSDATA\<close> linked
  through \<open>rnext\<close>, as the code unlinks them with a \<open>prev\<close> that need not be the predecessor.  The helper
  structure that the code lays over the IP header of a queued fragment is kept twice: its bytes go to the
  packet memory (a pointer as the number \<open>addr_bits\<close> of its address) and its fields to \<open>iprh\<close>, from which
  they are read back.
\<close>

record ip_reass_helper =
  next_pbuf :: "addr option"
  start :: u16
  end_off :: u16

record ip_reassdata =
  rnext :: "nat option"
  rp :: "addr option"
  riphdr :: "u8 list"
  datagram_len :: u16
  rflags :: u8
  timer :: u8

record reass = raw +
  reass_mem :: "nat \<rightharpoonup> ip_reassdata"
  reassdatagrams :: "nat option"
  ip_reass_pbufcount :: u16
  iprh :: "addr \<rightharpoonup> ip_reass_helper"
  addr_bits :: "addr \<Rightarrow> u32"

abbreviation (input) IP_REASS_MAX_PBUFS :: nat where "IP_REASS_MAX_PBUFS \<equiv> 10"
abbreviation (input) IP_REASS_MAXAGE :: u8 where "IP_REASS_MAXAGE \<equiv> 3"
abbreviation (input) IP_REASS_FLAG_LASTFRAG :: u8 where "IP_REASS_FLAG_LASTFRAG \<equiv> 1"

definition upd_reass :: "nat \<Rightarrow> (ip_reassdata \<Rightarrow> ip_reassdata) \<Rightarrow> 'a reass_scheme \<Rightarrow> 'a reass_scheme option" where
  "upd_reass i f d = map_option (\<lambda>r. d\<lparr>reass_mem := (reass_mem d)(i \<mapsto> f r)\<rparr>) (reass_mem d i)"

definition set_iprh :: "addr \<Rightarrow> ip_reass_helper \<Rightarrow> 'a reass_scheme \<Rightarrow> 'a reass_scheme option" where
  "set_iprh q h d = do {
     let bits = (case next_pbuf h of None \<Rightarrow> 0 | Some a \<Rightarrow> addr_bits d a);
     st \<leftarrow> put_bytes q 0 (bytes_of_u32 bits @ bytes_of_u16 (start h) @ bytes_of_u16 (end_off h)) (pm d);
     Some (d\<lparr>pm := st, iprh := (iprh d)(q \<mapsto> h)\<rparr>)
   }"

definition set_next_pbuf :: "addr \<Rightarrow> addr \<Rightarrow> 'a reass_scheme \<Rightarrow> 'a reass_scheme option" where
  "set_next_pbuf q a d = do { h \<leftarrow> iprh d q; set_iprh q (h\<lparr>next_pbuf := Some a\<rparr>) d }"

text \<open>\<open>IP_ADDRESSES_AND_ID_MATCH\<close> on two headers of 20 bytes.\<close>

definition addresses_and_id_match :: "u8 list \<Rightarrow> u8 list \<Rightarrow> bool" where
  "addresses_and_id_match a b \<longleftrightarrow> field a 12 4 = field b 12 4 \<and> field a 16 4 = field b 16 4 \<and> field a 4 2 = field b 4 2"

subsection \<open>Freeing datagrams\<close>

definition ip_reass_dequeue_datagram :: "nat \<Rightarrow> nat option \<Rightarrow> 'a reass_scheme \<Rightarrow> 'a reass_scheme option" where
  "ip_reass_dequeue_datagram ipr prev d = do {
     r \<leftarrow> reass_mem d ipr;
     d \<leftarrow> (if reassdatagrams d = Some ipr then Some (d\<lparr>reassdatagrams := rnext r\<rparr>)
          else case prev of None \<Rightarrow> None | Some i \<Rightarrow> upd_reass i (\<lambda>x. x\<lparr>rnext := rnext r\<rparr>) d);
     Some (d\<lparr>reass_mem := (reass_mem d)(ipr := None),
             pm := (pm d)\<lparr>pools := memp_free MEMP_REASSDATA (Some ipr) (pools (pm d))\<rparr>\<rparr>)
   }"

partial_function (option) free_fragments :: "addr option \<Rightarrow> nat \<Rightarrow> 'a reass_scheme \<Rightarrow> (nat \<times> 'a reass_scheme) option" where
  "free_fragments p n d =
     (case p of
        None \<Rightarrow> Some (n, d)
      | Some a \<Rightarrow> do {
          h \<leftarrow> iprh d a;
          k \<leftarrow> pbuf_clen (Some a) (pm d);
          d \<leftarrow> free_packet a d;
          free_fragments (next_pbuf h) (n + unat k) d
        })"

definition ip_reass_free_complete_datagram :: "nat \<Rightarrow> nat option \<Rightarrow> 'a reass_scheme \<Rightarrow> (nat \<times> 'a reass_scheme) option" where
  "ip_reass_free_complete_datagram ipr prev d = do {
     r \<leftarrow> reass_mem d ipr;
     p \<leftarrow> rp r;
     h \<leftarrow> iprh d p;
     (n, d) \<leftarrow>
       (if start h = 0
        then do {
          d \<leftarrow> upd_reass ipr (\<lambda>x. x\<lparr>rp := next_pbuf h\<rparr>) d;
          st \<leftarrow> put_bytes p 0 (riphdr r) (pm d);
          d \<leftarrow> icmp_time_exceeded p ICMP_TE_FRAG (d\<lparr>pm := st\<rparr>);
          k \<leftarrow> pbuf_clen (Some p) (pm d);
          d \<leftarrow> free_packet p d;
          Some (unat k, d)
        }
        else Some (0, d));
     r \<leftarrow> reass_mem d ipr;
     (n, d) \<leftarrow> free_fragments (rp r) n d;
     d \<leftarrow> ip_reass_dequeue_datagram ipr prev d;
     Some (n, d\<lparr>ip_reass_pbufcount := ip_reass_pbufcount d - of_nat n\<rparr>)
   }"

partial_function (option) reass_tmr_loop :: "nat option \<Rightarrow> nat option \<Rightarrow> 'a reass_scheme \<Rightarrow> 'a reass_scheme option" where
  "reass_tmr_loop r prev d =
     (case r of
        None \<Rightarrow> Some d
      | Some i \<Rightarrow> do {
          x \<leftarrow> reass_mem d i;
          (if 0 < timer x
           then do {
             d \<leftarrow> upd_reass i (\<lambda>x. x\<lparr>timer := timer x - 1\<rparr>) d;
             reass_tmr_loop (rnext x) (Some i) d
           }
           else do {
             (_, d) \<leftarrow> ip_reass_free_complete_datagram i prev d;
             reass_tmr_loop (rnext x) prev d
           })
        })"

definition ip_reass_tmr :: "'a reass_scheme \<Rightarrow> 'a reass_scheme option" where
  "ip_reass_tmr d = reass_tmr_loop (reassdatagrams d) None d"

text \<open>One scan for the oldest datagram other than the fragment's: it, \<open>prev\<close>, and how many others there are.\<close>

partial_function (option) oldest_scan :: "u8 list \<Rightarrow> nat option \<Rightarrow> nat option \<Rightarrow> nat option \<Rightarrow> nat \<Rightarrow> 'a reass_scheme \<Rightarrow>
    (nat option \<times> nat option \<times> nat) option" where
  "oldest_scan fraghdr r old prev others d =
     (case r of
        None \<Rightarrow> Some (old, prev, others)
      | Some i \<Rightarrow> do {
          x \<leftarrow> reass_mem d i;
          (old, others) \<leftarrow>
            (if \<not> addresses_and_id_match (riphdr x) fraghdr
             then (case old of
                     None \<Rightarrow> Some (Some i, others + 1)
                   | Some j \<Rightarrow> do {
                       y \<leftarrow> reass_mem d j;
                       Some (if timer x \<le> timer y then Some i else old, others + 1)
                     })
             else Some (old, others));
          oldest_scan fraghdr (rnext x) old (if rnext x \<noteq> None then Some i else prev) others d
        })"

partial_function (option) remove_oldest_loop :: "u8 list \<Rightarrow> nat \<Rightarrow> nat \<Rightarrow> 'a reass_scheme \<Rightarrow> (nat \<times> 'a reass_scheme) option" where
  "remove_oldest_loop fraghdr needed freed d = do {
     (old, prev, others) \<leftarrow> oldest_scan fraghdr (reassdatagrams d) None None 0 d;
     (n, d) \<leftarrow> (case old of None \<Rightarrow> Some (0, d) | Some i \<Rightarrow> ip_reass_free_complete_datagram i prev d);
     (if freed + n < needed \<and> 1 < others then remove_oldest_loop fraghdr needed (freed + n) d
      else Some (freed + n, d))
   }"

definition ip_reass_remove_oldest_datagram :: "u8 list \<Rightarrow> nat \<Rightarrow> 'a reass_scheme \<Rightarrow> (nat \<times> 'a reass_scheme) option" where
  "ip_reass_remove_oldest_datagram fraghdr pbufs_needed d = remove_oldest_loop fraghdr pbufs_needed 0 d"

subsection \<open>Enqueueing\<close>

definition ip_reass_enqueue_new_datagram :: "u8 list \<Rightarrow> nat \<Rightarrow> 'a reass_scheme \<Rightarrow> (nat option \<times> 'a reass_scheme) option" where
  "ip_reass_enqueue_new_datagram fraghdr clen d = do {
     let (i, pl) = memp_malloc MEMP_REASSDATA (pools (pm d));
     let d = d\<lparr>pm := (pm d)\<lparr>pools := pl\<rparr>\<rparr>;
     (i, d) \<leftarrow>
       (if i = None
        then do {
          (n, d) \<leftarrow> ip_reass_remove_oldest_datagram fraghdr clen d;
          (if clen \<le> n
           then let (i, pl) = memp_malloc MEMP_REASSDATA (pools (pm d)) in Some (i, d\<lparr>pm := (pm d)\<lparr>pools := pl\<rparr>\<rparr>)
           else Some (None, d))
        }
        else Some (i, d));
     (case i of
        None \<Rightarrow> Some (None, d)
      | Some i \<Rightarrow>
          Some (Some i, d\<lparr>reass_mem := (reass_mem d)(i \<mapsto>
            \<lparr>rnext = reassdatagrams d, rp = None, riphdr = fraghdr, datagram_len = 0, rflags = 0,
             timer = IP_REASS_MAXAGE\<rparr>), reassdatagrams := Some i\<rparr>))
   }"

text \<open>
  The loop that finds the place of the new fragment.  \<open>Inl\<close> is the jump to \<open>freepbuf\<close>; otherwise the
  result is \<open>valid\<close> with the fragment linked in.
\<close>

partial_function (option) insert_loop :: "nat \<Rightarrow> addr \<Rightarrow> addr option \<Rightarrow> addr option \<Rightarrow> bool \<Rightarrow> 'a reass_scheme \<Rightarrow>
    ('a reass_scheme + (bool \<times> 'a reass_scheme)) option" where
  "insert_loop ipr new_p q prev valid d = do {
     new \<leftarrow> iprh d new_p;
     (case q of
        None \<Rightarrow>
          (case prev of
             Some a \<Rightarrow> do {
               b \<leftarrow> iprh d a;
               d \<leftarrow> set_next_pbuf a new_p d;
               Some (Inr (valid \<and> end_off b = start new, d))
             }
           | None \<Rightarrow> do { d \<leftarrow> upd_reass ipr (\<lambda>x. x\<lparr>rp := Some new_p\<rparr>) d; Some (Inr (valid, d)) })
      | Some c \<Rightarrow> do {
          tmp \<leftarrow> iprh d c;
          (if start new < start tmp
           then do {
             d \<leftarrow> set_next_pbuf new_p c d;
             (case prev of
                Some a \<Rightarrow> do {
                  b \<leftarrow> iprh d a;
                  (if start new < end_off b \<or> start tmp < end_off new then Some (Inl d)
                   else do { d \<leftarrow> set_next_pbuf a new_p d; Some (Inr (valid, d)) })
                }
              | None \<Rightarrow> do { d \<leftarrow> upd_reass ipr (\<lambda>x. x\<lparr>rp := Some new_p\<rparr>) d; Some (Inr (valid, d)) })
           }
           else if start new = start tmp then Some (Inl d)
           else if start new < end_off tmp then Some (Inl d)
           else do {
             valid \<leftarrow> (case prev of
                Some a \<Rightarrow> do { b \<leftarrow> iprh d a; Some (valid \<and> end_off b = start tmp) }
              | None \<Rightarrow> Some valid);
             insert_loop ipr new_p (next_pbuf tmp) (Some c) valid d
           })
        })
   }"

text \<open>No holes behind the new fragment.\<close>

partial_function (option) no_holes :: "ip_reass_helper \<Rightarrow> 'a reass_scheme \<Rightarrow> bool option" where
  "no_holes prev d =
     (case next_pbuf prev of
        None \<Rightarrow> Some True
      | Some q \<Rightarrow> do {
          h \<leftarrow> iprh d q;
          (if end_off prev \<noteq> start h then Some False else no_holes h d)
        })"

definition chain_frag_and_validate :: "nat \<Rightarrow> addr \<Rightarrow> 'a reass_scheme \<Rightarrow> (bool \<times> 'a reass_scheme) option" where
  "chain_frag_and_validate ipr new_p d = do {
     v \<leftarrow> get_u16 (pm d) new_p 0;
     l \<leftarrow> get_u16 (pm d) new_p 2;
     o16 \<leftarrow> get_u16 (pm d) new_p 6;
     let lngth = ntohs l - IPH_HL v * 4;
     let offset = (ntohs o16 AND IP_OFFMASK) * 8;
     d \<leftarrow> set_iprh new_p \<lparr>next_pbuf = None, start = offset, end_off = offset + lngth\<rparr> d;
     r \<leftarrow> reass_mem d ipr;
     res \<leftarrow> insert_loop ipr new_p (rp r) None True d;
     (case res of
        Inl d \<Rightarrow> do {
          k \<leftarrow> pbuf_clen (Some new_p) (pm d);
          d \<leftarrow> free_packet new_p d;
          Some (False, d\<lparr>ip_reass_pbufcount := ip_reass_pbufcount d - ucast k\<rparr>)
        }
      | Inr (valid, d) \<Rightarrow> do {
          r \<leftarrow> reass_mem d ipr;
          (if rflags r AND IP_REASS_FLAG_LASTFRAG = 0 then Some (False, d)
           else if \<not> valid then Some (False, d)
           else do {
             p \<leftarrow> rp r;
             h \<leftarrow> iprh d p;
             new \<leftarrow> iprh d new_p;
             ok \<leftarrow> (if start h \<noteq> 0 then Some False else no_holes new d);
             Some (ok, d)
           })
        })
   }"

subsection \<open>Reassembly\<close>

partial_function (option) find_datagram :: "u8 list \<Rightarrow> nat option \<Rightarrow> nat option \<Rightarrow> 'a reass_scheme \<Rightarrow> (nat option \<times> nat option) option" where
  "find_datagram fraghdr r prev d =
     (case r of
        None \<Rightarrow> Some (None, prev)
      | Some i \<Rightarrow> do {
          x \<leftarrow> reass_mem d i;
          (if addresses_and_id_match (riphdr x) fraghdr then Some (Some i, prev)
           else find_datagram fraghdr (rnext x) (Some i) d)
        })"

text \<open>Chaining the fragments behind the first: hide each header, append.\<close>

partial_function (option) chain_all :: "addr \<Rightarrow> addr option \<Rightarrow> 'a reass_scheme \<Rightarrow> 'a reass_scheme option" where
  "chain_all p r d =
     (case r of
        None \<Rightarrow> Some d
      | Some a \<Rightarrow> do {
          h \<leftarrow> iprh d a;
          (_, st) \<leftarrow> pbuf_header (Some a) (-20) (pm d);
          st \<leftarrow> pbuf_cat (Some p) (Some a) st;
          chain_all p (next_pbuf h) (d\<lparr>pm := st\<rparr>)
        })"

definition finish_datagram :: "nat \<Rightarrow> nat option \<Rightarrow> 'a reass_scheme \<Rightarrow> (addr \<times> 'a reass_scheme) option" where
  "finish_datagram ipr prev d = do {
     d \<leftarrow> upd_reass ipr (\<lambda>x. x\<lparr>datagram_len := datagram_len x + 20\<rparr>) d;
     x \<leftarrow> reass_mem d ipr;
     p \<leftarrow> rp x;
     h \<leftarrow> iprh d p;
     st \<leftarrow> put_bytes p 0 (riphdr x) (pm d);
     st \<leftarrow> put_bytes p 2 (bytes_of_u16 (htons (datagram_len x))) st;
     st \<leftarrow> put_bytes p 6 (bytes_of_u16 0) st;
     st \<leftarrow> put_bytes p 10 (bytes_of_u16 0) st;
     hdr \<leftarrow> get_bytes st p 0 20;
     st \<leftarrow> put_bytes p 10 (bytes_of_u16 (inet_chksum hdr)) st;
     d \<leftarrow> chain_all p (next_pbuf h) (d\<lparr>pm := st\<rparr>);
     d \<leftarrow> ip_reass_dequeue_datagram ipr prev d;
     k \<leftarrow> pbuf_clen (Some p) (pm d);
     Some (p, d\<lparr>ip_reass_pbufcount := ip_reass_pbufcount d - ucast k\<rparr>)
   }"

definition reass_drop :: "addr \<Rightarrow> 'a reass_scheme \<Rightarrow> (addr option \<times> 'a reass_scheme) option" where
  "reass_drop p d = do { d \<leftarrow> free_packet p d; Some (None, d) }"

definition ip_reass :: "addr \<Rightarrow> 'a reass_scheme \<Rightarrow> (addr option \<times> 'a reass_scheme) option" where
  "ip_reass p d = do {
     fraghdr \<leftarrow> get_bytes (pm d) p 0 20;
     v \<leftarrow> get_u16 (pm d) p 0;
     l \<leftarrow> get_u16 (pm d) p 2;
     o16 \<leftarrow> get_u16 (pm d) p 6;
     (if IPH_HL v * 4 \<noteq> 20 then reass_drop p d
      else do {
        let offset = (ntohs o16 AND IP_OFFMASK) * 8;
        let lngth = ntohs l - IPH_HL v * 4;
        clen \<leftarrow> pbuf_clen (Some p) (pm d);
        (ok, d) \<leftarrow>
          (if IP_REASS_MAX_PBUFS < unat (ip_reass_pbufcount d) + unat clen
           then do {
             (n, d) \<leftarrow> ip_reass_remove_oldest_datagram fraghdr (unat clen) d;
             Some (n \<noteq> 0 \<and> unat (ip_reass_pbufcount d) + unat clen \<le> IP_REASS_MAX_PBUFS, d)
           }
           else Some (True, d));
        (if \<not> ok then reass_drop p d
         else do {
           (ipr, prev) \<leftarrow> find_datagram fraghdr (reassdatagrams d) None d;
           (ipr, d) \<leftarrow>
             (case ipr of
                None \<Rightarrow> ip_reass_enqueue_new_datagram fraghdr (unat clen) d
              | Some i \<Rightarrow> do {
                  x \<leftarrow> reass_mem d i;
                  (if ntohs o16 AND IP_OFFMASK = 0 \<and> ntohs (field16 (riphdr x) 6) AND IP_OFFMASK \<noteq> 0
                   then do { d \<leftarrow> upd_reass i (\<lambda>x. x\<lparr>riphdr := fraghdr\<rparr>) d; Some (Some i, d) }
                   else Some (Some i, d))
                });
           (case ipr of
              None \<Rightarrow> reass_drop p d
            | Some i \<Rightarrow> do {
                let d = d\<lparr>ip_reass_pbufcount := ip_reass_pbufcount d + ucast clen\<rparr>;
                d \<leftarrow> (if ntohs o16 AND IP_MF = 0
                     then upd_reass i (\<lambda>x. x\<lparr>rflags := rflags x OR IP_REASS_FLAG_LASTFRAG, datagram_len := offset + lngth\<rparr>) d
                     else Some d);
                (valid, d) \<leftarrow> chain_frag_and_validate i p d;
                (if valid then do { (p, d) \<leftarrow> finish_datagram i prev d; Some (Some p, d) } else Some (None, d))
              })
         })
      })
   }"

end
