(* ===== verification/Ip_In.thy ===== *)
theory Ip_In
  imports Ip_Reass
begin

text \<open>
  \<open>ip_input\<close> of \<open>core/ipv4/ip.c\<close>, \<open>ethernet_input\<close> of \<open>netif/etharp.c\<close> and \<open>ethernetif_input\<close> of
  \<open>port/ethernetif.c\<close>: a received frame on its way to the protocols.  The receive callbacks of the
  applications and \<open>tcp_input\<close> are arguments.  \<open>current_netif\<close> and \<open>current_header\<close>, which only
  \<open>ip_current_netif\<close> and \<open>ip_current_header\<close> read, are left out.
\<close>

text \<open>What the stack calls above IP: raw callbacks, UDP callbacks, \<open>tcp_input\<close>.\<close>

record 'a upper =
  raw_up :: "nat \<Rightarrow> nat option \<Rightarrow> nat \<Rightarrow> addr \<Rightarrow> ptr \<Rightarrow> 'a \<Rightarrow> (bool \<times> 'a) option"
  udp_up :: "udp_fn \<Rightarrow> nat option \<Rightarrow> nat \<Rightarrow> addr \<Rightarrow> ptr \<Rightarrow> u16 \<Rightarrow> 'a \<Rightarrow> 'a option"
  tcp_up :: "addr \<Rightarrow> 'a \<Rightarrow> 'a option"

text \<open>
  The loop over the interfaces: it looks at \<open>inp\<close>, then at the list, skipping \<open>inp\<close>.  With one interface
  that is one look.
\<close>

definition accepts :: "u32 \<Rightarrow> netif \<Rightarrow> bool" where
  "accepts dest n \<longleftrightarrow> netif_is_up n \<noteq> 0 \<and> \<not> ip_addr_isany (Some (ip_addr n)) \<and>
     (dest = ip_addr n \<or> ip_addr_isbroadcast dest n \<noteq> 0)"

definition ip_deliver :: "'a reass_scheme upper \<Rightarrow> addr \<Rightarrow> 'a reass_scheme \<Rightarrow> 'a reass_scheme option" where
  "ip_deliver up p d = do {
     b \<leftarrow> pbufs (pm d) p;
     let iphdr = payload b;
     (eaten, d) \<leftarrow> raw_input (raw_up up) p d;
     (if eaten then Some d
      else do {
        tp \<leftarrow> ptr_get16 (pm d) iphdr 8;
        let proto = IPH_PROTO tp;
        (if proto = ucast IP_PROTO_UDP then udp_input (udp_up up) p d
         else if proto = ucast IP_PROTO_TCP then tcp_up up p d
         else if proto = ucast IP_PROTO_ICMP then icmp_input p d
         else do {
           dest \<leftarrow> ptr_get32 (pm d) iphdr 16;
           d \<leftarrow> (if ip_addr_isbroadcast dest (nif d) = 0 \<and> \<not> ip_addr_ismulticast dest
                then do {
                  st \<leftarrow> upd_pbuf p (\<lambda>b. b\<lparr>payload := iphdr\<rparr>) (pm d);
                  icmp_dest_unreach p ICMP_DUR_PROTO (d\<lparr>pm := st\<rparr>)
                }
                else Some d);
           free_packet p d
         })
      })
   }"

definition ip_input :: "'a reass_scheme upper \<Rightarrow> addr \<Rightarrow> 'a reass_scheme \<Rightarrow> (err_t \<times> 'a reass_scheme) option" where
  "ip_input up p d = do {
     v \<leftarrow> get_u16 (pm d) p 0;
     (if IPH_V v \<noteq> 4 then do { d \<leftarrow> free_packet p d; Some (ERR_OK, d) }
      else do {
        let hlen = IPH_HL v * 4;
        l \<leftarrow> get_u16 (pm d) p 2;
        let lngth = ntohs l;
        b \<leftarrow> pbufs (pm d) p;
        (if len b < hlen \<or> tot_len b < lngth then do { d \<leftarrow> free_packet p d; Some (ERR_OK, d) }
         else do {
           hdr \<leftarrow> get_bytes (pm d) p 0 (unat hlen);
           (if inet_chksum hdr \<noteq> 0 then do { d \<leftarrow> free_packet p d; Some (ERR_OK, d) }
            else do {
              st \<leftarrow> pbuf_realloc p lngth (pm d);
              let d = d\<lparr>pm := st\<rparr>;
              src \<leftarrow> get_u32 (pm d) p 12;
              dest \<leftarrow> get_u32 (pm d) p 16;
              (if ip_addr_isbroadcast src (nif d) \<noteq> 0 \<or> ip_addr_ismulticast src
               then do { d \<leftarrow> free_packet p d; Some (ERR_OK, d) }
               else if \<not> accepts dest (nif d) then do { d \<leftarrow> free_packet p d; Some (ERR_OK, d) }
               else do {
                 off \<leftarrow> get_u16 (pm d) p 6;
                 (p, d) \<leftarrow> (if off AND htons (IP_OFFMASK OR IP_MF) \<noteq> 0 then ip_reass p d else Some (Some p, d));
                 (case p of
                    None \<Rightarrow> Some (ERR_OK, d)
                  | Some p \<Rightarrow> do { d \<leftarrow> ip_deliver up p d; Some (ERR_OK, d) })
               })
            })
         })
      })
   }"

definition ethernet_input :: "'a reass_scheme upper \<Rightarrow> addr \<Rightarrow> 'a reass_scheme \<Rightarrow> (err_t \<times> 'a reass_scheme) option" where
  "ethernet_input up p d = do {
     type \<leftarrow> get_u16 (pm d) p 12;
     (if htons type = ETHTYPE_IP
      then do {
        d \<leftarrow> etharp_ip_input p d;
        (r, st) \<leftarrow> pbuf_header (Some p) (-14) (pm d);
        let d = d\<lparr>pm := st\<rparr>;
        (if r \<noteq> 0 then do { d \<leftarrow> free_packet p d; Some (ERR_OK, d) }
         else do { (_, d) \<leftarrow> ip_input up p d; Some (ERR_OK, d) })
      }
      else if htons type = ETHTYPE_ARP
      then do { d \<leftarrow> etharp_arp_input (hwaddr (nif d)) p d; Some (ERR_OK, d) }
      else do { d \<leftarrow> free_packet p d; Some (ERR_OK, d) })
   }"

definition netif_input :: "'a reass_scheme upper \<Rightarrow> addr \<Rightarrow> 'a reass_scheme \<Rightarrow> (err_t \<times> 'a reass_scheme) option" where
  "netif_input up p d = (if inputf (nif d) = Some Ethernet_input then ethernet_input up p d else None)"

definition ethernetif_input :: "'a reass_scheme upper \<Rightarrow> 'a reass_scheme \<Rightarrow> (err_t \<times> 'a reass_scheme) option" where
  "ethernetif_input up d = do {
     (p, d) \<leftarrow> low_level_input d;
     (case p of
        None \<Rightarrow> Some (ERR_MEM, d)
      | Some p \<Rightarrow> do {
          (e, d) \<leftarrow> netif_input up p d;
          (if e \<noteq> ERR_OK then do { d \<leftarrow> free_packet p d; Some (e, d) } else Some (e, d))
        })
   }"

end
