(* ===== verification/Tcp_Out.thy ===== *)
theory Tcp_Out
  imports Ip_In
begin

text \<open>
  The data of TCP (\<open>include/lwip/tcp.h\<close>) and its output half, \<open>core/tcp_out.c\<close>.  A control block is an element
  of \<open>MEMP_TCP_PCB\<close>, so its address is the number of the element; the queues \<open>unsent\<close> and \<open>unacked\<close> and the
  lists of control blocks are lists in the order of the links.  A segment keeps its element of
  \<open>MEMP_TCP_SEG\<close>; its header is in the memory of its pbuf and is read and written there.  Sequence numbers are
  32-bit words that wrap, windows 16-bit words; the signed 16-bit timers are words read by \<open>sint\<close>.  Out of
  order segments are not queued (\<open>TCP_QUEUE_OOSEQ\<close> is 0), there are no timestamps and no backlog.  Callbacks
  are named; what they do is the argument \<open>tcp_calls\<close> of the functions that call them.
\<close>

subsection \<open>Data\<close>

datatype tcp_state = CLOSED | LISTEN | SYN_SENT | SYN_RCVD | ESTABLISHED | FIN_WAIT_1 | FIN_WAIT_2 | CLOSE_WAIT
  | CLOSING | LAST_ACK | TIME_WAIT

datatype tcp_accept_fn = Tcp_accept_null | Tcp_echoserver_accept | Http_accept | HelloWorld_accept | Tcp_server_accept
datatype tcp_recv_fn = Tcp_recv_null | Tcp_echoserver_recv | Http_recv | HelloWorld_recv | Tcp_server_recv
datatype tcp_sent_fn = Tcp_echoserver_sent | Http_sent
datatype tcp_poll_fn = Tcp_echoserver_poll | Http_poll
datatype tcp_err_fn = Tcp_echoserver_error | Http_conn_err | HelloWorld_conn_err
datatype tcp_connected_fn = Tcp_client_connected

record tcp_seg =
  seg_elem :: nat
  segp :: "addr option"
  seg_dataptr :: ptr
  seg_len :: u16
  seg_flags :: u8
  seg_tcphdr :: ptr

record tcp_pcb =
  tlocal_ip :: u32
  tremote_ip :: u32
  tso_options :: u16
  ttos :: u8
  tttl :: u8
  tstate :: tcp_state
  prio :: u8
  callback_arg :: "nat option"
  tlocal_port :: u16
  accept_fn :: "tcp_accept_fn option"
  tremote_port :: u16
  tflags :: u8
  rcv_nxt :: u32
  rcv_wnd :: u16
  rcv_ann_wnd :: u16
  rcv_ann_right_edge :: u32
  tmr :: u32
  polltmr :: u8
  pollinterval :: u8
  rtime :: u16
  mss :: u16
  rttest :: u32
  rtseq :: u32
  sa :: u16
  sv :: u16
  rto :: u16
  nrtx :: u8
  lastack :: u32
  dupacks :: u8
  cwnd :: u16
  ssthresh :: u16
  snd_nxt :: u32
  snd_wnd :: u16
  snd_wl1 :: u32
  snd_wl2 :: u32
  snd_lbb :: u32
  acked :: u16
  snd_buf :: u16
  snd_queuelen :: u16
  unsent :: "tcp_seg list"
  unacked :: "tcp_seg list"
  refused_data :: "addr option"
  sent_fn :: "tcp_sent_fn option"
  recv_fn :: "tcp_recv_fn option"
  connected_fn :: "tcp_connected_fn option"
  poll_fn :: "tcp_poll_fn option"
  errf :: "tcp_err_fn option"
  keep_idle :: u32
  persist_cnt :: u32
  persist_backoff :: u8
  keep_cnt_sent :: u8

record tcp_pcb_listen =
  llocal_ip :: u32
  lso_options :: u16
  ltos :: u8
  lttl :: u8
  lcallback_arg :: "nat option"
  llocal_port :: u16
  laccept :: "tcp_accept_fn option"

text \<open>
  The state of TCP.  \<open>lprio\<close> is the byte \<open>prio\<close> of every element of \<open>MEMP_TCP_PCB_LISTEN\<close>:
  \<open>tcp_listen_with_backlog\<close> does not set it, so it keeps what the element held before.
\<close>

record tcp = reass +
  tcp_mem :: "nat \<rightharpoonup> tcp_pcb"
  listen_mem :: "nat \<rightharpoonup> tcp_pcb_listen"
  lprio :: "nat \<Rightarrow> u8"
  tcp_bound_pcbs :: "nat list"
  tcp_listen_pcbs :: "nat list"
  tcp_active_pcbs :: "nat list"
  tcp_tw_pcbs :: "nat list"
  tcp_ticks :: u32
  tcp_timer :: u8
  tcp_input_pcb :: "nat option"
  tcp_iss :: u32
  tcp_port :: u16

record 'a tcp_calls =
  accept_up :: "tcp_accept_fn \<Rightarrow> nat option \<Rightarrow> nat \<Rightarrow> err_t \<Rightarrow> 'a \<Rightarrow> (err_t \<times> 'a) option"
  recv_up :: "tcp_recv_fn \<Rightarrow> nat option \<Rightarrow> nat \<Rightarrow> addr option \<Rightarrow> err_t \<Rightarrow> 'a \<Rightarrow> (err_t \<times> 'a) option"
  sent_up :: "tcp_sent_fn \<Rightarrow> nat option \<Rightarrow> nat \<Rightarrow> u16 \<Rightarrow> 'a \<Rightarrow> (err_t \<times> 'a) option"
  poll_up :: "tcp_poll_fn \<Rightarrow> nat option \<Rightarrow> nat \<Rightarrow> 'a \<Rightarrow> (err_t \<times> 'a) option"
  err_up :: "tcp_err_fn \<Rightarrow> nat option \<Rightarrow> err_t \<Rightarrow> 'a \<Rightarrow> 'a option"
  connected_up :: "tcp_connected_fn \<Rightarrow> nat option \<Rightarrow> nat \<Rightarrow> err_t \<Rightarrow> 'a \<Rightarrow> (err_t \<times> 'a) option"

abbreviation (input) TCP_FIN :: u16 where "TCP_FIN \<equiv> 0x01"
abbreviation (input) TCP_SYN :: u16 where "TCP_SYN \<equiv> 0x02"
abbreviation (input) TCP_RST :: u16 where "TCP_RST \<equiv> 0x04"
abbreviation (input) TCP_PSH :: u16 where "TCP_PSH \<equiv> 0x08"
abbreviation (input) TCP_ACK :: u16 where "TCP_ACK \<equiv> 0x10"
abbreviation (input) TCP_FLAGS :: u16 where "TCP_FLAGS \<equiv> 0x3f"
abbreviation (input) TF_ACK_DELAY :: u8 where "TF_ACK_DELAY \<equiv> 0x01"
abbreviation (input) TF_ACK_NOW :: u8 where "TF_ACK_NOW \<equiv> 0x02"
abbreviation (input) TF_INFR :: u8 where "TF_INFR \<equiv> 0x04"
abbreviation (input) TF_FIN :: u8 where "TF_FIN \<equiv> 0x20"
abbreviation (input) TF_NODELAY :: u8 where "TF_NODELAY \<equiv> 0x40"
abbreviation (input) TF_NAGLEMEMERR :: u8 where "TF_NAGLEMEMERR \<equiv> 0x80"
abbreviation (input) TF_SEG_OPTS_MSS :: u8 where "TF_SEG_OPTS_MSS \<equiv> 0x01"
abbreviation (input) TF_SEG_OPTS_TS :: u8 where "TF_SEG_OPTS_TS \<equiv> 0x02"
abbreviation (input) TCP_WRITE_FLAG_COPY :: u8 where "TCP_WRITE_FLAG_COPY \<equiv> 0x01"
abbreviation (input) TCP_WRITE_FLAG_MORE :: u8 where "TCP_WRITE_FLAG_MORE \<equiv> 0x02"
abbreviation (input) TCP_TTL :: u8 where "TCP_TTL \<equiv> 255"
abbreviation (input) TCP_MSS :: u16 where "TCP_MSS \<equiv> 1460"
abbreviation (input) TCP_WND :: u16 where "TCP_WND \<equiv> 2920"
abbreviation (input) TCP_SND_BUF :: u16 where "TCP_SND_BUF \<equiv> 2920"
abbreviation (input) TCP_SND_QUEUELEN :: u16 where "TCP_SND_QUEUELEN \<equiv> 12"
abbreviation (input) TCP_SNDQUEUELEN_OVERFLOW :: u16 where "TCP_SNDQUEUELEN_OVERFLOW \<equiv> 0xfffc"

text \<open>Comparison of sequence numbers.\<close>

definition TCP_SEQ_LT :: "u32 \<Rightarrow> u32 \<Rightarrow> bool" where "TCP_SEQ_LT a b \<longleftrightarrow> sint (a - b) < 0"
definition TCP_SEQ_LEQ :: "u32 \<Rightarrow> u32 \<Rightarrow> bool" where "TCP_SEQ_LEQ a b \<longleftrightarrow> sint (a - b) \<le> 0"
definition TCP_SEQ_GT :: "u32 \<Rightarrow> u32 \<Rightarrow> bool" where "TCP_SEQ_GT a b \<longleftrightarrow> sint (a - b) > 0"
definition TCP_SEQ_GEQ :: "u32 \<Rightarrow> u32 \<Rightarrow> bool" where "TCP_SEQ_GEQ a b \<longleftrightarrow> sint (a - b) \<ge> 0"
definition TCP_SEQ_BETWEEN :: "u32 \<Rightarrow> u32 \<Rightarrow> u32 \<Rightarrow> bool" where
  "TCP_SEQ_BETWEEN a b c \<longleftrightarrow> TCP_SEQ_GEQ a b \<and> TCP_SEQ_LEQ a c"

text \<open>The half word \<open>_hdrlen_rsvd_flags\<close> of a header.\<close>

definition TCPH_FLAGS :: "u16 \<Rightarrow> u16" where "TCPH_FLAGS w = ntohs w AND TCP_FLAGS"
definition TCPH_HDRLEN :: "u16 \<Rightarrow> u16" where "TCPH_HDRLEN w = drop_bit 12 (ntohs w)"
definition TCPH_FLAGS_SET :: "u16 \<Rightarrow> u16 \<Rightarrow> u16" where "TCPH_FLAGS_SET fl w = htons ((ntohs w AND NOT TCP_FLAGS) OR fl)"
definition TCPH_HDRLEN_SET :: "u16 \<Rightarrow> u16 \<Rightarrow> u16" where "TCPH_HDRLEN_SET n w = htons (push_bit 12 n OR TCPH_FLAGS w)"
definition TCPH_SET_FLAG :: "u16 \<Rightarrow> u16 \<Rightarrow> u16" where "TCPH_SET_FLAG fl w = htons (ntohs w OR fl)"

definition upd_flags :: "(u16 \<Rightarrow> u16) \<Rightarrow> ptr \<Rightarrow> pmem \<Rightarrow> pmem option" where
  "upd_flags f h st = do { w \<leftarrow> ptr_get16 st h 12; ptr_put h 12 (bytes_of_u16 (f w)) st }"

definition hdr_flags :: "pmem \<Rightarrow> ptr \<Rightarrow> u16 option" where
  "hdr_flags st h = map_option TCPH_FLAGS (ptr_get16 st h 12)"

definition seg_seqno :: "pmem \<Rightarrow> tcp_seg \<Rightarrow> u32 option" where
  "seg_seqno st s = map_option ntohl (ptr_get32 st (seg_tcphdr s) 4)"

definition TCP_TCPLEN :: "pmem \<Rightarrow> tcp_seg \<Rightarrow> u32 option" where
  "TCP_TCPLEN st s = map_option (\<lambda>f. ucast (seg_len s) + (if f AND TCP_FIN \<noteq> 0 \<or> f AND TCP_SYN \<noteq> 0 then 1 else 0))
     (hdr_flags st (seg_tcphdr s))"

definition upd_tcp :: "nat \<Rightarrow> (tcp_pcb \<Rightarrow> tcp_pcb) \<Rightarrow> 'a tcp_scheme \<Rightarrow> 'a tcp_scheme option" where
  "upd_tcp i f d = map_option (\<lambda>u. d\<lparr>tcp_mem := (tcp_mem d)(i \<mapsto> f u)\<rparr>) (tcp_mem d i)"

definition OPT_LENGTH :: "u8 \<Rightarrow> u8" where
  "OPT_LENGTH fl = (if fl AND TF_SEG_OPTS_MSS \<noteq> 0 then 4 else 0) + (if fl AND TF_SEG_OPTS_TS \<noteq> 0 then 12 else 0)"

definition MSS_OPTION :: u32 where
  "MSS_OPTION = htonl (push_bit 24 2 OR push_bit 16 4 OR push_bit 8 (ucast TCP_MSS div 256) OR (ucast TCP_MSS AND 255))"

subsection \<open>Segments\<close>

definition tcp_seg_free :: "tcp_seg \<Rightarrow> 'a dev_scheme \<Rightarrow> (u8 \<times> 'a dev_scheme) option" where
  "tcp_seg_free s d = do {
     (n, st) \<leftarrow> (case segp s of None \<Rightarrow> Some (0, pm d) | Some p \<Rightarrow> pbuf_free (Some p) (pm d));
     Some (n, d\<lparr>pm := st\<lparr>pools := memp_free MEMP_TCP_SEG (Some (seg_elem s)) (pools st)\<rparr>\<rparr>)
   }"

fun tcp_segs_free :: "tcp_seg list \<Rightarrow> 'a dev_scheme \<Rightarrow> (u8 \<times> 'a dev_scheme) option" where
  "tcp_segs_free [] d = Some (0, d)"
| "tcp_segs_free (s # ss) d = do {
     (m, d) \<leftarrow> tcp_seg_free s d;
     (n, d) \<leftarrow> tcp_segs_free ss d;
     Some (m + n, d)
   }"

subsection \<open>Sending a segment\<close>

text \<open>The header of a packet without data.\<close>

definition tcp_output_set_header :: "nat \<Rightarrow> addr \<Rightarrow> int \<Rightarrow> u32 \<Rightarrow> 'a tcp_scheme \<Rightarrow> (ptr \<times> 'a tcp_scheme) option" where
  "tcp_output_set_header i p optlen seqno_be d = do {
     u \<leftarrow> tcp_mem d i;
     b \<leftarrow> pbufs (pm d) p;
     let h = payload b;
     st \<leftarrow> ptr_put h 0 (bytes_of_u16 (htons (tlocal_port u))) (pm d);
     st \<leftarrow> ptr_put h 2 (bytes_of_u16 (htons (tremote_port u))) st;
     st \<leftarrow> ptr_put h 4 (bytes_of_u32 seqno_be) st;
     st \<leftarrow> ptr_put h 8 (bytes_of_u32 (htonl (rcv_nxt u))) st;
     st \<leftarrow> upd_flags (TCPH_FLAGS_SET TCP_ACK) h st;
     st \<leftarrow> ptr_put h 14 (bytes_of_u16 (htons (rcv_ann_wnd u))) st;
     st \<leftarrow> ptr_put h 18 (bytes_of_u16 0) st;
     st \<leftarrow> upd_flags (TCPH_HDRLEN_SET (of_int (5 + optlen div 4))) h st;
     st \<leftarrow> ptr_put h 16 (bytes_of_u16 0) st;
     d \<leftarrow> upd_tcp i (\<lambda>u. u\<lparr>rcv_ann_right_edge := rcv_nxt u + ucast (rcv_ann_wnd u)\<rparr>) (d\<lparr>pm := st\<rparr>);
     Some (h, d)
   }"

text \<open>The checksum of the packet, stored in the header at \<open>h\<close>.\<close>

definition tcp_chksum :: "addr \<Rightarrow> ptr \<Rightarrow> u32 \<Rightarrow> u32 \<Rightarrow> pmem \<Rightarrow> pmem option" where
  "tcp_chksum p h src dst st = do {
     ch \<leftarrow> payloads (Some p) st;
     b \<leftarrow> pbufs st p;
     ptr_put h 16 (bytes_of_u16 (inet_chksum_pseudo ch src dst IP_PROTO_TCP (tot_len b))) st
   }"

definition tcp_output_segment :: "tcp_seg \<Rightarrow> nat \<Rightarrow> 'a tcp_scheme \<Rightarrow> 'a tcp_scheme option" where
  "tcp_output_segment s i d = do {
     u \<leftarrow> tcp_mem d i;
     let h = seg_tcphdr s;
     st \<leftarrow> ptr_put h 8 (bytes_of_u32 (htonl (rcv_nxt u))) (pm d);
     st \<leftarrow> ptr_put h 14 (bytes_of_u16 (htons (rcv_ann_wnd u))) st;
     d \<leftarrow> upd_tcp i (\<lambda>u. u\<lparr>rcv_ann_right_edge := rcv_nxt u + ucast (rcv_ann_wnd u)\<rparr>) (d\<lparr>pm := st\<rparr>);
     st \<leftarrow> (if seg_flags s AND TF_SEG_OPTS_MSS \<noteq> 0 then ptr_put h 20 (bytes_of_u32 MSS_OPTION) (pm d) else Some (pm d));
     let d = d\<lparr>pm := st\<rparr>;
     (if ip_addr_isany (Some (tlocal_ip u)) \<and> \<not> ip_route (tremote_ip u) d then Some d
      else do {
        d \<leftarrow> (if ip_addr_isany (Some (tlocal_ip u)) then upd_tcp i (\<lambda>u. u\<lparr>tlocal_ip := ip_addr (nif d)\<rparr>) d else Some d);
        seqno \<leftarrow> seg_seqno (pm d) s;
        d \<leftarrow> upd_tcp i (\<lambda>u. u\<lparr>rtime := (if rtime u = - 1 then 0 else rtime u)\<rparr>) d;
        d \<leftarrow> upd_tcp i (\<lambda>u. if rttest u = 0 then u\<lparr>rttest := tcp_ticks d, rtseq := seqno\<rparr> else u) d;
        p \<leftarrow> segp s;
        b \<leftarrow> pbufs (pm d) p;
        (r, j) \<leftarrow> h;
        (r', k) \<leftarrow> payload b;
        (if r \<noteq> r' then None
         else do {
           let n = (of_int (j - k) :: u16);
           st \<leftarrow> upd_pbuf p (\<lambda>b. b\<lparr>len := len b - n, tot_len := tot_len b - n, payload := h\<rparr>) (pm d);
           st \<leftarrow> ptr_put h 16 (bytes_of_u16 0) st;
           u \<leftarrow> tcp_mem d i;
           st \<leftarrow> tcp_chksum p h (tlocal_ip u) (tremote_ip u) st;
           (_, d) \<leftarrow> ip_output p (Some (tlocal_ip u)) (tremote_ip u) (tttl u) (ttos u) IP_PROTO_TCP (d\<lparr>pm := st\<rparr>);
           Some d
         })
      })
   }"

subsection \<open>Output\<close>

definition nagle_allows :: "tcp_pcb \<Rightarrow> bool" where
  "nagle_allows u \<longleftrightarrow> unacked u = [] \<or> tflags u AND TF_NODELAY \<noteq> 0 \<or>
     (case unsent u of [] \<Rightarrow> False | [s] \<Rightarrow> mss u \<le> seg_len s | _ \<Rightarrow> True)"

text \<open>An acknowledgement without data.\<close>

definition send_empty_ack :: "nat \<Rightarrow> 'a tcp_scheme \<Rightarrow> (err_t \<times> 'a tcp_scheme) option" where
  "send_empty_ack i d = do {
     (p, st) \<leftarrow> pbuf_alloc PBUF_IP 20 PBUF_RAM (pm d);
     let d = d\<lparr>pm := st\<rparr>;
     (case p of
        None \<Rightarrow> Some (ERR_BUF, d)
      | Some p \<Rightarrow> do {
          d \<leftarrow> upd_tcp i (\<lambda>u. u\<lparr>tflags := tflags u AND NOT (TF_ACK_DELAY OR TF_ACK_NOW)\<rparr>) d;
          u \<leftarrow> tcp_mem d i;
          (h, d) \<leftarrow> tcp_output_set_header i p 0 (htonl (snd_nxt u)) d;
          st \<leftarrow> tcp_chksum p h (tlocal_ip u) (tremote_ip u) (pm d);
          (_, d) \<leftarrow> ip_output p (Some (tlocal_ip u)) (tremote_ip u) (tttl u) (ttos u) IP_PROTO_TCP (d\<lparr>pm := st\<rparr>);
          d \<leftarrow> free_packet p d;
          Some (ERR_OK, d)
        })
   }"

text \<open>The place of a segment in a queue sorted by sequence number: before the first that is not lower.\<close>

fun insert_seg :: "pmem \<Rightarrow> tcp_seg \<Rightarrow> tcp_seg list \<Rightarrow> tcp_seg list option" where
  "insert_seg st s [] = Some [s]"
| "insert_seg st s (c # cs) = do {
     sc \<leftarrow> seg_seqno st c;
     ss \<leftarrow> seg_seqno st s;
     (if TCP_SEQ_LT sc ss then do { cs \<leftarrow> insert_seg st s cs; Some (c # cs) } else Some (s # c # cs))
   }"

text \<open>A segment that was sent joins \<open>unacked\<close>.\<close>

definition queue_unacked :: "tcp_seg \<Rightarrow> nat \<Rightarrow> 'a tcp_scheme \<Rightarrow> 'a tcp_scheme option" where
  "queue_unacked s i d = do {
     u \<leftarrow> tcp_mem d i;
     q \<leftarrow> (if unacked u = [] then Some [s]
          else do {
            ss \<leftarrow> seg_seqno (pm d) s;
            sl \<leftarrow> seg_seqno (pm d) (last (unacked u));
            (if TCP_SEQ_LT ss sl then insert_seg (pm d) s (unacked u) else Some (unacked u @ [s]))
          });
     upd_tcp i (\<lambda>u. u\<lparr>unacked := q\<rparr>) d
   }"

text \<open>The first unsent segment goes out.\<close>

definition send_first :: "nat \<Rightarrow> 'a tcp_scheme \<Rightarrow> 'a tcp_scheme option" where
  "send_first i d = do {
     u \<leftarrow> tcp_mem d i;
     (case unsent u of
        [] \<Rightarrow> None
      | s # rest \<Rightarrow> do {
          d \<leftarrow> upd_tcp i (\<lambda>u. u\<lparr>unsent := rest\<rparr>) d;
          d \<leftarrow> (if tstate u \<noteq> SYN_SENT
               then do {
                 st \<leftarrow> upd_flags (TCPH_SET_FLAG TCP_ACK) (seg_tcphdr s) (pm d);
                 upd_tcp i (\<lambda>u. u\<lparr>tflags := tflags u AND NOT (TF_ACK_DELAY OR TF_ACK_NOW)\<rparr>) (d\<lparr>pm := st\<rparr>)
               }
               else Some d);
          d \<leftarrow> tcp_output_segment s i d;
          seqno \<leftarrow> seg_seqno (pm d) s;
          n \<leftarrow> TCP_TCPLEN (pm d) s;
          d \<leftarrow> upd_tcp i (\<lambda>u. if TCP_SEQ_LT (snd_nxt u) (seqno + n) then u\<lparr>snd_nxt := seqno + n\<rparr> else u) d;
          (if 0 < n then queue_unacked s i d
           else do { (_, d) \<leftarrow> tcp_seg_free s d; Some d })
        })
   }"

text \<open>The loop of \<open>tcp_output\<close>: \<open>wnd\<close> is the window at its start.\<close>

partial_function (option) output_segs :: "u32 \<Rightarrow> nat \<Rightarrow> 'a tcp_scheme \<Rightarrow> 'a tcp_scheme option" where
  "output_segs wnd i d =
     (case tcp_mem d i of
        None \<Rightarrow> None
      | Some u \<Rightarrow>
          (case unsent u of
             [] \<Rightarrow> Some d
           | s # rest \<Rightarrow> do {
               seqno \<leftarrow> seg_seqno (pm d) s;
               (if seqno - lastack u + ucast (seg_len s) \<le> wnd \<and>
                   (nagle_allows u \<or> tflags u AND (TF_NAGLEMEMERR OR TF_FIN) \<noteq> 0)
                then do { d \<leftarrow> send_first i d; output_segs wnd i d }
                else Some d)
             }))"

text \<open>What is left to send when the peer's window is too small waits for the persist timer.\<close>

definition start_persist :: "nat \<Rightarrow> 'a tcp_scheme \<Rightarrow> 'a tcp_scheme option" where
  "start_persist i d = do {
     u \<leftarrow> tcp_mem d i;
     (case unsent u of
        [] \<Rightarrow> Some d
      | s # _ \<Rightarrow>
          if persist_backoff u = 0
          then do {
            seqno \<leftarrow> seg_seqno (pm d) s;
            (if ucast (snd_wnd u) < seqno - lastack u + ucast (seg_len s)
             then upd_tcp i (\<lambda>u. u\<lparr>persist_cnt := 0, persist_backoff := 1\<rparr>) d
             else Some d)
          }
          else Some d)
   }"

definition tcp_output :: "nat \<Rightarrow> 'a tcp_scheme \<Rightarrow> (err_t \<times> 'a tcp_scheme) option" where
  "tcp_output i d =
     (if tcp_input_pcb d = Some i then Some (ERR_OK, d)
      else do {
        u \<leftarrow> tcp_mem d i;
        let wnd = (ucast (min (snd_wnd u) (cwnd u)) :: u32);
        blocked \<leftarrow> (case unsent u of
                     [] \<Rightarrow> Some True
                   | s # _ \<Rightarrow> map_option (\<lambda>n. wnd < n - lastack u + ucast (seg_len s)) (seg_seqno (pm d) s));
        (if tflags u AND TF_ACK_NOW \<noteq> 0 \<and> blocked then send_empty_ack i d
         else do {
           d \<leftarrow> output_segs wnd i d;
           d \<leftarrow> start_persist i d;
           d \<leftarrow> upd_tcp i (\<lambda>u. u\<lparr>tflags := tflags u AND NOT TF_NAGLEMEMERR\<rparr>) d;
           Some (ERR_OK, d)
         })
      })"

definition tcp_ack_now :: "nat \<Rightarrow> 'a tcp_scheme \<Rightarrow> 'a tcp_scheme option" where
  "tcp_ack_now i d = do {
     d \<leftarrow> upd_tcp i (\<lambda>u. u\<lparr>tflags := tflags u OR TF_ACK_NOW\<rparr>) d;
     (_, d) \<leftarrow> tcp_output i d;
     Some d
   }"

definition tcp_ack :: "nat \<Rightarrow> 'a tcp_scheme \<Rightarrow> 'a tcp_scheme option" where
  "tcp_ack i d = do {
     u \<leftarrow> tcp_mem d i;
     (if tflags u AND TF_ACK_DELAY \<noteq> 0
      then do {
        d \<leftarrow> upd_tcp i (\<lambda>u. u\<lparr>tflags := tflags u AND NOT TF_ACK_DELAY OR TF_ACK_NOW\<rparr>) d;
        (_, d) \<leftarrow> tcp_output i d;
        Some d
      }
      else upd_tcp i (\<lambda>u. u\<lparr>tflags := tflags u OR TF_ACK_DELAY\<rparr>) d)
   }"

definition tcp_rst :: "u32 \<Rightarrow> u32 \<Rightarrow> u32 \<Rightarrow> u32 \<Rightarrow> u16 \<Rightarrow> u16 \<Rightarrow> 'a tcp_scheme \<Rightarrow> 'a tcp_scheme option" where
  "tcp_rst seqno ackno lip rip lport rport d = do {
     (p, st) \<leftarrow> pbuf_alloc PBUF_IP 20 PBUF_RAM (pm d);
     (case p of
        None \<Rightarrow> Some (d\<lparr>pm := st\<rparr>)
      | Some p \<Rightarrow> do {
          b \<leftarrow> pbufs st p;
          let h = payload b;
          st \<leftarrow> ptr_put h 0 (bytes_of_u16 (htons lport)) st;
          st \<leftarrow> ptr_put h 2 (bytes_of_u16 (htons rport)) st;
          st \<leftarrow> ptr_put h 4 (bytes_of_u32 (htonl seqno)) st;
          st \<leftarrow> ptr_put h 8 (bytes_of_u32 (htonl ackno)) st;
          st \<leftarrow> upd_flags (TCPH_FLAGS_SET (TCP_RST OR TCP_ACK)) h st;
          st \<leftarrow> ptr_put h 14 (bytes_of_u16 (htons TCP_WND)) st;
          st \<leftarrow> ptr_put h 18 (bytes_of_u16 0) st;
          st \<leftarrow> upd_flags (TCPH_HDRLEN_SET 5) h st;
          st \<leftarrow> ptr_put h 16 (bytes_of_u16 0) st;
          st \<leftarrow> tcp_chksum p h lip rip st;
          (_, d) \<leftarrow> ip_output p (Some lip) rip TCP_TTL 0 IP_PROTO_TCP (d\<lparr>pm := st\<rparr>);
          free_packet p d
        })
   }"

definition tcp_rexmit_rto :: "nat \<Rightarrow> 'a tcp_scheme \<Rightarrow> 'a tcp_scheme option" where
  "tcp_rexmit_rto i d = do {
     u \<leftarrow> tcp_mem d i;
     (if unacked u = [] then Some d
      else do {
        d \<leftarrow> upd_tcp i (\<lambda>u. u\<lparr>unsent := unacked u @ unsent u, unacked := [], nrtx := nrtx u + 1, rttest := 0\<rparr>) d;
        (_, d) \<leftarrow> tcp_output i d;
        Some d
      })
   }"

definition tcp_rexmit :: "nat \<Rightarrow> 'a tcp_scheme \<Rightarrow> 'a tcp_scheme option" where
  "tcp_rexmit i d = do {
     u \<leftarrow> tcp_mem d i;
     (case unacked u of
        [] \<Rightarrow> Some d
      | s # rest \<Rightarrow> do {
          q \<leftarrow> insert_seg (pm d) s (unsent u);
          d \<leftarrow> upd_tcp i (\<lambda>u. u\<lparr>unsent := q, unacked := rest, nrtx := nrtx u + 1, rttest := 0\<rparr>) d;
          (_, d) \<leftarrow> tcp_output i d;
          Some d
        })
   }"

definition tcp_keepalive :: "nat \<Rightarrow> 'a tcp_scheme \<Rightarrow> 'a tcp_scheme option" where
  "tcp_keepalive i d = do {
     (p, st) \<leftarrow> pbuf_alloc PBUF_IP 20 PBUF_RAM (pm d);
     let d = d\<lparr>pm := st\<rparr>;
     (case p of
        None \<Rightarrow> Some d
      | Some p \<Rightarrow> do {
          u \<leftarrow> tcp_mem d i;
          (h, d) \<leftarrow> tcp_output_set_header i p 0 (htonl (snd_nxt u - 1)) d;
          st \<leftarrow> tcp_chksum p h (tlocal_ip u) (tremote_ip u) (pm d);
          (_, d) \<leftarrow> ip_output p (Some (tlocal_ip u)) (tremote_ip u) (tttl u) 0 IP_PROTO_TCP (d\<lparr>pm := st\<rparr>);
          free_packet p d
        })
   }"

definition tcp_zero_window_probe :: "nat \<Rightarrow> 'a tcp_scheme \<Rightarrow> 'a tcp_scheme option" where
  "tcp_zero_window_probe i d = do {
     u \<leftarrow> tcp_mem d i;
     (case unacked u @ unsent u of
        [] \<Rightarrow> Some d
      | s # _ \<Rightarrow> do {
          (p, st) \<leftarrow> pbuf_alloc PBUF_IP 21 PBUF_RAM (pm d);
          let d = d\<lparr>pm := st\<rparr>;
          (case p of
             None \<Rightarrow> Some d
           | Some p \<Rightarrow> do {
               seqno \<leftarrow> ptr_get32 (pm d) (seg_tcphdr s) 4;
               (h, d) \<leftarrow> tcp_output_set_header i p 0 seqno d;
               c \<leftarrow> ptr_get (pm d) (seg_dataptr s) 0 1;
               st \<leftarrow> put_bytes p 20 c (pm d);
               st \<leftarrow> tcp_chksum p h (tlocal_ip u) (tremote_ip u) st;
               (_, d) \<leftarrow> ip_output p (Some (tlocal_ip u)) (tremote_ip u) (tttl u) 0 IP_PROTO_TCP (d\<lparr>pm := st\<rparr>);
               free_packet p d
             })
        })
   }"

end
