(* ===== verification/Tcp_Enqueue.thy ===== *)
theory Tcp_Enqueue
  imports Tcp_Out
begin

text \<open>
  \<open>tcp_enqueue\<close> of \<open>core/tcp_out.c\<close>: data and control flags cut into segments and put on the queue \<open>unsent\<close>, and
  its callers \<open>tcp_write\<close> and \<open>tcp_send_ctrl\<close>.  \<open>Inl\<close> is the jump to \<open>memerr\<close>.
\<close>

text \<open>The pbufs of a segment: a copy of the data, or a header pbuf and a reference to the data.\<close>

definition seg_copy :: "ptr \<Rightarrow> u16 \<Rightarrow> u8 \<Rightarrow> tcp_seg \<Rightarrow> u16 \<Rightarrow> pmem \<Rightarrow> ((tcp_seg \<times> pmem) + (tcp_seg \<times> u16 \<times> pmem)) option" where
  "seg_copy q seglen optlen s queuelen st = do {
     (p, st) \<leftarrow> pbuf_alloc PBUF_TRANSPORT (seglen + ucast optlen) PBUF_RAM st;
     (case p of
        None \<Rightarrow> Some (Inl (s, st))
      | Some p \<Rightarrow> do {
          n \<leftarrow> pbuf_clen (Some p) st;
          st \<leftarrow> (case q of
                  None \<Rightarrow> Some st
                | Some _ \<Rightarrow> do {
                    bs \<leftarrow> ptr_get st q 0 (unat seglen);
                    put_bytes p (unat optlen) bs st
                  });
          b \<leftarrow> pbufs st p;
          Some (Inr (s\<lparr>segp := Some p, seg_dataptr := payload b\<rparr>, queuelen + ucast n, st))
        })
   }"

definition seg_refer :: "ptr \<Rightarrow> u16 \<Rightarrow> u16 \<Rightarrow> u8 \<Rightarrow> tcp_seg \<Rightarrow> u16 \<Rightarrow> pmem \<Rightarrow> ((tcp_seg \<times> pmem) + (tcp_seg \<times> u16 \<times> pmem)) option" where
  "seg_refer q left seglen optlen s queuelen st = do {
     (h, st) \<leftarrow> pbuf_alloc PBUF_TRANSPORT (ucast optlen) PBUF_RAM st;
     (case h of
        None \<Rightarrow> Some (Inl (s, st))
      | Some h \<Rightarrow> do {
          n \<leftarrow> pbuf_clen (Some h) st;
          let queuelen = queuelen + ucast n;
          (if 0 < left
           then do {
             (p, st) \<leftarrow> pbuf_alloc PBUF_RAW seglen PBUF_ROM st;
             (case p of
                None \<Rightarrow> do { (_, st) \<leftarrow> pbuf_free (Some h) st; Some (Inl (s, st)) }
              | Some p \<Rightarrow> do {
                  st \<leftarrow> upd_pbuf p (\<lambda>b. b\<lparr>payload := q\<rparr>) st;
                  st \<leftarrow> pbuf_cat (Some h) (Some p) st;
                  Some (Inr (s\<lparr>segp := Some h, seg_dataptr := q\<rparr>, queuelen + 1, st))
                })
           }
           else Some (Inr (s\<lparr>segp := Some h\<rparr>, queuelen, st)))
        })
   }"

text \<open>The header of a segment that is queued.\<close>

definition seg_header :: "tcp_pcb \<Rightarrow> u32 \<Rightarrow> u16 \<Rightarrow> u8 \<Rightarrow> ptr \<Rightarrow> pmem \<Rightarrow> pmem option" where
  "seg_header u seqno fl optlen h st = do {
     st \<leftarrow> ptr_put h 0 (bytes_of_u16 (htons (tlocal_port u))) st;
     st \<leftarrow> ptr_put h 2 (bytes_of_u16 (htons (tremote_port u))) st;
     st \<leftarrow> ptr_put h 4 (bytes_of_u32 (htonl seqno)) st;
     st \<leftarrow> ptr_put h 18 (bytes_of_u16 0) st;
     st \<leftarrow> upd_flags (TCPH_FLAGS_SET fl) h st;
     upd_flags (TCPH_HDRLEN_SET (5 + ucast optlen div 4)) h st
   }"

text \<open>
  One segment of the data at \<open>q\<close>; \<open>Inl\<close> carries the segment, when there is one, whose resources are to be freed
  with the queue.
\<close>

definition make_seg :: "tcp_pcb \<Rightarrow> ptr \<Rightarrow> u16 \<Rightarrow> u16 \<Rightarrow> u32 \<Rightarrow> u16 \<Rightarrow> u16 \<Rightarrow> u8 \<Rightarrow> u8 \<Rightarrow> u8 \<Rightarrow> pmem \<Rightarrow>
    ((tcp_seg list \<times> pmem) + (tcp_seg \<times> u16 \<times> pmem)) option" where
  "make_seg u q left seglen seqno queuelen fl apiflags optflags optlen st =
     (case memp_malloc MEMP_TCP_SEG (pools st) of
        (None, pl) \<Rightarrow> Some (Inl ([], st\<lparr>pools := pl\<rparr>))
      | (Some e, pl) \<Rightarrow> do {
          let s = \<lparr>seg_elem = e, segp = None, seg_dataptr = None, seg_len = 0, seg_flags = 0, seg_tcphdr = None\<rparr>;
          let st = st\<lparr>pools := pl\<rparr>;
          r \<leftarrow> (if apiflags AND TCP_WRITE_FLAG_COPY \<noteq> 0 then seg_copy q seglen optlen s queuelen st
               else seg_refer q left seglen optlen s queuelen st);
          (case r of
             Inl (s, st) \<Rightarrow> Some (Inl ([s], st))
           | Inr (s, queuelen, st) \<Rightarrow>
               if TCP_SND_QUEUELEN < queuelen \<or> TCP_SNDQUEUELEN_OVERFLOW < queuelen then Some (Inl ([s], st))
               else do {
                 let s = s\<lparr>seg_len := seglen\<rparr>;
                 (e, st) \<leftarrow> pbuf_header (segp s) 20 st;
                 (if e \<noteq> 0 then Some (Inl ([s], st))
                  else do {
                    p \<leftarrow> segp s;
                    b \<leftarrow> pbufs st p;
                    st \<leftarrow> seg_header u seqno fl optlen (payload b) st;
                    Some (Inr (s\<lparr>seg_tcphdr := payload b, seg_flags := optflags\<rparr>, queuelen, st))
                  })
               })
        })"

text \<open>
  The loop: \<open>queue\<close> holds the segments so far, \<open>seglen\<close> is the length of the last.  It runs at least once.
\<close>

partial_function (option) seg_loop :: "tcp_pcb \<Rightarrow> ptr \<Rightarrow> u16 \<Rightarrow> u16 \<Rightarrow> u32 \<Rightarrow> u16 \<Rightarrow> u16 \<Rightarrow> u8 \<Rightarrow> u8 \<Rightarrow> u8 \<Rightarrow> tcp_seg list \<Rightarrow> pmem \<Rightarrow>
    ((tcp_seg list \<times> pmem) + (tcp_seg list \<times> u16 \<times> u16 \<times> pmem)) option" where
  "seg_loop u q left seglen seqno queuelen fl apiflags optflags optlen queue st =
     (if queue = [] \<or> 0 < left
      then do {
        let room = int (unat (mss u)) - int (unat optlen);
        let seglen = (if room < int (unat left) then of_int room else left);
        r \<leftarrow> make_seg u q left seglen seqno queuelen fl apiflags optflags optlen st;
        (case r of
           Inl (s, st) \<Rightarrow> Some (Inl (queue @ s, st))
         | Inr (s, queuelen, st) \<Rightarrow>
             seg_loop u (ptr_add q (int (unat seglen))) (left - seglen) seglen (seqno + ucast seglen) queuelen fl apiflags
               optflags optlen (queue @ [s]) st)
      }
      else Some (Inr (queue, seglen, queuelen, st)))"

text \<open>
  The segments join \<open>unsent\<close>; when the last segment there has room, the first new one becomes part of it.
  The result is the new queue with the last segment of the call, its length and the number of pbufs.
\<close>

definition may_concat :: "tcp_pcb \<Rightarrow> u16 \<Rightarrow> tcp_seg \<Rightarrow> pmem \<Rightarrow> bool option" where
  "may_concat u fl q st =
     (case unsent u of
        [] \<Rightarrow> Some False
      | _ \<Rightarrow> do {
          let l = last (unsent u);
          n \<leftarrow> TCP_TCPLEN st l;
          f \<leftarrow> hdr_flags st (seg_tcphdr l);
          Some (n \<noteq> 0 \<and> f AND (TCP_SYN OR TCP_FIN) = 0 \<and> fl AND (TCP_SYN OR TCP_FIN) = 0 \<and>
            unat (seg_len l) + unat (seg_len q) \<le> unat (mss u) \<and> seg_flags l = seg_flags q)
        })"

definition concat_seg :: "tcp_seg \<Rightarrow> tcp_seg \<Rightarrow> u8 \<Rightarrow> u16 \<Rightarrow> pmem \<Rightarrow> ((tcp_seg \<times> pmem) + (tcp_seg \<times> u16 \<times> pmem)) option" where
  "concat_seg l q optlen queuelen st = do {
     (e, st) \<leftarrow> pbuf_header (segp q) (- (20 + int (unat optlen))) st;
     (if e \<noteq> 0 then Some (Inl (q, st))
      else do {
        p \<leftarrow> segp q;
        b \<leftarrow> pbufs st p;
        (q, queuelen, st) \<leftarrow> (if len b = 0
          then do {
            st \<leftarrow> upd_pbuf p (\<lambda>b. b\<lparr>nextp := None\<rparr>) st;
            (_, st) \<leftarrow> pbuf_free (Some p) st;
            Some (q\<lparr>segp := nextp b\<rparr>, queuelen - 1, st)
          }
          else Some (q, queuelen, st));
        st \<leftarrow> pbuf_cat (segp l) (segp q) st;
        Some (Inr (l\<lparr>seg_len := seg_len l + seg_len q\<rparr>, queuelen,
          st\<lparr>pools := memp_free MEMP_TCP_SEG (Some (seg_elem q)) (pools st)\<rparr>))
      })
   }"

definition join_unsent :: "tcp_pcb \<Rightarrow> u16 \<Rightarrow> u8 \<Rightarrow> tcp_seg list \<Rightarrow> u16 \<Rightarrow> u16 \<Rightarrow> pmem \<Rightarrow>
    ((tcp_seg list \<times> pmem) + (tcp_seg list \<times> tcp_seg \<times> u16 \<times> u16 \<times> pmem)) option" where
  "join_unsent u fl optlen queue seglen queuelen st = do {
     let q = hd queue;
     c \<leftarrow> may_concat u fl q st;
     (if c
      then do {
        r \<leftarrow> concat_seg (last (unsent u)) q optlen queuelen st;
        Some (case r of
          Inl (q, st) \<Rightarrow> Inl (q # tl queue, st)
        | Inr (l, queuelen, st) \<Rightarrow>
            if tl queue = [] then Inr (butlast (unsent u) @ [l], l, seg_len l, queuelen, st)
            else Inr (butlast (unsent u) @ l # tl queue, last queue, seglen, queuelen, st))
      }
      else Some (Inr (unsent u @ queue, last queue, seglen, queuelen, st)))
   }"

definition tcp_enqueue :: "nat \<Rightarrow> ptr \<Rightarrow> u16 \<Rightarrow> u16 \<Rightarrow> u8 \<Rightarrow> u8 \<Rightarrow> 'a tcp_scheme \<Rightarrow> (err_t \<times> 'a tcp_scheme) option" where
  "tcp_enqueue i arg n fl apiflags optflags d = do {
     u \<leftarrow> tcp_mem d i;
     (if \<not> (n \<noteq> 0 \<or> optflags \<noteq> 0 \<or> fl AND (TCP_SYN OR TCP_FIN) \<noteq> 0) then Some (ERR_ARG, d)
      else if \<not> (n \<noteq> 0 \<or> arg = None) then Some (ERR_ARG, d)
      else if snd_buf u < n \<or> TCP_SND_QUEUELEN \<le> snd_queuelen u \<or> TCP_SNDQUEUELEN_OVERFLOW < snd_queuelen u
      then do {
        d \<leftarrow> upd_tcp i (\<lambda>u. u\<lparr>tflags := tflags u OR TF_NAGLEMEMERR\<rparr>) d;
        Some (ERR_MEM, d)
      }
      else do {
        let optlen = OPT_LENGTH optflags;
        r \<leftarrow> seg_loop u arg n 0 (snd_lbb u) (snd_queuelen u) fl apiflags optflags optlen [] (pm d);
        r \<leftarrow> (case r of
               Inl e \<Rightarrow> Some (Inl e)
             | Inr (queue, seglen, queuelen, st) \<Rightarrow> join_unsent u fl optlen queue seglen queuelen st);
        (case r of
           Inl (queue, st) \<Rightarrow> do {
             d \<leftarrow> upd_tcp i (\<lambda>u. u\<lparr>tflags := tflags u OR TF_NAGLEMEMERR\<rparr>) (d\<lparr>pm := st\<rparr>);
             (_, d) \<leftarrow> tcp_segs_free queue d;
             Some (ERR_MEM, d)
           }
         | Inr (q, s, seglen, queuelen, st) \<Rightarrow> do {
             let n = (if fl AND TCP_SYN \<noteq> 0 \<or> fl AND TCP_FIN \<noteq> 0 then n + 1 else n);
             d \<leftarrow> upd_tcp i (\<lambda>u. u\<lparr>unsent := q, tflags := (if fl AND TCP_FIN \<noteq> 0 then tflags u OR TF_FIN else tflags u),
               snd_lbb := snd_lbb u + ucast n, snd_buf := snd_buf u - n, snd_queuelen := queuelen\<rparr>) (d\<lparr>pm := st\<rparr>);
             st \<leftarrow> (if 0 < seglen \<and> seg_tcphdr s \<noteq> None \<and> apiflags AND TCP_WRITE_FLAG_MORE = 0
                   then upd_flags (TCPH_SET_FLAG TCP_PSH) (seg_tcphdr s) (pm d) else Some (pm d));
             Some (ERR_OK, d\<lparr>pm := st\<rparr>)
           })
      })
   }"

definition tcp_send_ctrl :: "nat \<Rightarrow> u16 \<Rightarrow> 'a tcp_scheme \<Rightarrow> (err_t \<times> 'a tcp_scheme) option" where
  "tcp_send_ctrl i fl d = tcp_enqueue i None 0 fl TCP_WRITE_FLAG_COPY 0 d"

definition tcp_write :: "nat \<Rightarrow> ptr \<Rightarrow> u16 \<Rightarrow> u8 \<Rightarrow> 'a tcp_scheme \<Rightarrow> (err_t \<times> 'a tcp_scheme) option" where
  "tcp_write i data n apiflags d = do {
     u \<leftarrow> tcp_mem d i;
     (if tstate u \<in> {ESTABLISHED, CLOSE_WAIT, SYN_SENT, SYN_RCVD}
      then if 0 < n then tcp_enqueue i data n 0 apiflags 0 d else Some (ERR_OK, d)
      else Some (ERR_CONN, d))
   }"

end
