(* ===== verification/Tcp.thy ===== *)
theory Tcp
  imports Tcp_Enqueue
begin

text \<open>
  \<open>core/tcp.c\<close> without its timers: control blocks and their lists, opening, closing and aborting connections.
  A pointer to a control block is \<open>Pcb\<close> or, for one of the smaller control blocks of listeners, \<open>Lpcb\<close>.
\<close>

datatype pcb_ref = Pcb nat | Lpcb nat

datatype tcp_list = Bound_pcbs | Active_pcbs | Tw_pcbs

fun get_list :: "tcp_list \<Rightarrow> 'a tcp_scheme \<Rightarrow> nat list" where
  "get_list Bound_pcbs d = tcp_bound_pcbs d"
| "get_list Active_pcbs d = tcp_active_pcbs d"
| "get_list Tw_pcbs d = tcp_tw_pcbs d"

fun set_list :: "tcp_list \<Rightarrow> nat list \<Rightarrow> 'a tcp_scheme \<Rightarrow> 'a tcp_scheme" where
  "set_list Bound_pcbs xs d = d\<lparr>tcp_bound_pcbs := xs\<rparr>"
| "set_list Active_pcbs xs d = d\<lparr>tcp_active_pcbs := xs\<rparr>"
| "set_list Tw_pcbs xs d = d\<lparr>tcp_tw_pcbs := xs\<rparr>"

text \<open>
  All lists go through the one link \<open>next\<close> of a control block.  \<open>TCP_REG\<close> puts a control block at the front of a
  list without asking where it is: from another list that holds it, the way then leads on into this one, and if it is
  in this list already, the list becomes a circle.  A list whose last element is there before stands for one that goes
  back to it; what is done with such a list afterwards is not modelled beyond its elements.  \<open>TCP_RMV\<close> takes a control
  block out of a list; it clears its link, so that any other list that holds it ends there.
\<close>

definition cut_after :: "nat \<Rightarrow> nat list \<Rightarrow> nat list" where
  "cut_after i xs = (if i \<in> set xs then takeWhile (\<lambda>x. x \<noteq> i) xs @ [i] else xs)"

definition lead_into :: "nat \<Rightarrow> nat list \<Rightarrow> nat list \<Rightarrow> nat list" where
  "lead_into i ys xs = (if i \<in> set xs then takeWhile (\<lambda>x. x \<noteq> i) xs @ ys else xs)"

definition TCP_REG :: "tcp_list \<Rightarrow> nat \<Rightarrow> 'a tcp_scheme \<Rightarrow> 'a tcp_scheme" where
  "TCP_REG l i d =
     (let ys = i # cut_after i (get_list l d);
          d = d\<lparr>tcp_bound_pcbs := lead_into i ys (tcp_bound_pcbs d), tcp_active_pcbs := lead_into i ys (tcp_active_pcbs d),
                tcp_tw_pcbs := lead_into i ys (tcp_tw_pcbs d)\<rparr>
      in set_list l ys d)"

definition TCP_RMV :: "tcp_list \<Rightarrow> nat \<Rightarrow> 'a tcp_scheme \<Rightarrow> 'a tcp_scheme" where
  "TCP_RMV l i d =
     (let xs = remove1 i (get_list l d);
          d = d\<lparr>tcp_bound_pcbs := cut_after i (tcp_bound_pcbs d), tcp_active_pcbs := cut_after i (tcp_active_pcbs d),
                tcp_tw_pcbs := cut_after i (tcp_tw_pcbs d)\<rparr>
      in set_list l xs d)"

definition free_tcp_pcb :: "nat \<Rightarrow> 'a tcp_scheme \<Rightarrow> 'a tcp_scheme" where
  "free_tcp_pcb i d = d\<lparr>tcp_mem := (tcp_mem d)(i := None), pm := (pm d)\<lparr>pools := memp_free MEMP_TCP_PCB (Some i) (pools (pm d))\<rparr>\<rparr>"

definition free_listen_pcb :: "nat \<Rightarrow> 'a tcp_scheme \<Rightarrow> 'a tcp_scheme" where
  "free_listen_pcb j d =
     d\<lparr>listen_mem := (listen_mem d)(j := None), pm := (pm d)\<lparr>pools := memp_free MEMP_TCP_PCB_LISTEN (Some j) (pools (pm d))\<rparr>\<rparr>"

subsection \<open>Settings\<close>

definition tcp_setprio :: "pcb_ref \<Rightarrow> u8 \<Rightarrow> 'a tcp_scheme \<Rightarrow> 'a tcp_scheme option" where
  "tcp_setprio r p d =
     (case r of
        Pcb i \<Rightarrow> upd_tcp i (\<lambda>u. u\<lparr>prio := p\<rparr>) d
      | Lpcb j \<Rightarrow> if listen_mem d j = None then None else Some (d\<lparr>lprio := (lprio d)(j := p)\<rparr>))"

definition tcp_arg :: "pcb_ref \<Rightarrow> nat option \<Rightarrow> 'a tcp_scheme \<Rightarrow> 'a tcp_scheme option" where
  "tcp_arg r arg d =
     (case r of
        Pcb i \<Rightarrow> upd_tcp i (\<lambda>u. u\<lparr>callback_arg := arg\<rparr>) d
      | Lpcb j \<Rightarrow> map_option (\<lambda>l. d\<lparr>listen_mem := (listen_mem d)(j \<mapsto> l\<lparr>lcallback_arg := arg\<rparr>)\<rparr>) (listen_mem d j))"

definition tcp_accept :: "pcb_ref \<Rightarrow> tcp_accept_fn option \<Rightarrow> 'a tcp_scheme \<Rightarrow> 'a tcp_scheme option" where
  "tcp_accept r f d =
     (case r of
        Pcb i \<Rightarrow> upd_tcp i (\<lambda>u. u\<lparr>accept_fn := f\<rparr>) d
      | Lpcb j \<Rightarrow> map_option (\<lambda>l. d\<lparr>listen_mem := (listen_mem d)(j \<mapsto> l\<lparr>laccept := f\<rparr>)\<rparr>) (listen_mem d j))"

definition tcp_recv :: "nat \<Rightarrow> tcp_recv_fn option \<Rightarrow> 'a tcp_scheme \<Rightarrow> 'a tcp_scheme option" where
  "tcp_recv i f d = upd_tcp i (\<lambda>u. u\<lparr>recv_fn := f\<rparr>) d"

definition tcp_sent :: "nat \<Rightarrow> tcp_sent_fn option \<Rightarrow> 'a tcp_scheme \<Rightarrow> 'a tcp_scheme option" where
  "tcp_sent i f d = upd_tcp i (\<lambda>u. u\<lparr>sent_fn := f\<rparr>) d"

definition tcp_err :: "nat \<Rightarrow> tcp_err_fn option \<Rightarrow> 'a tcp_scheme \<Rightarrow> 'a tcp_scheme option" where
  "tcp_err i f d = upd_tcp i (\<lambda>u. u\<lparr>errf := f\<rparr>) d"

definition tcp_poll :: "nat \<Rightarrow> tcp_poll_fn option \<Rightarrow> u8 \<Rightarrow> 'a tcp_scheme \<Rightarrow> 'a tcp_scheme option" where
  "tcp_poll i f n d = upd_tcp i (\<lambda>u. u\<lparr>poll_fn := f, pollinterval := n\<rparr>) d"

subsection \<open>Closing\<close>

definition tcp_pcb_purge :: "nat \<Rightarrow> 'a tcp_scheme \<Rightarrow> 'a tcp_scheme option" where
  "tcp_pcb_purge i d = do {
     u \<leftarrow> tcp_mem d i;
     (if tstate u \<in> {CLOSED, TIME_WAIT, LISTEN} then Some d
      else do {
        d \<leftarrow> (case refused_data u of
               None \<Rightarrow> Some d
             | Some p \<Rightarrow> do { d \<leftarrow> free_packet p d; upd_tcp i (\<lambda>u. u\<lparr>refused_data := None\<rparr>) d });
        (_, d) \<leftarrow> tcp_segs_free (unsent u) d;
        (_, d) \<leftarrow> tcp_segs_free (unacked u) d;
        upd_tcp i (\<lambda>u. u\<lparr>unacked := [], unsent := []\<rparr>) d
      })
   }"

definition tcp_pcb_remove :: "tcp_list \<Rightarrow> nat \<Rightarrow> 'a tcp_scheme \<Rightarrow> 'a tcp_scheme option" where
  "tcp_pcb_remove l i d = do {
     d \<leftarrow> tcp_pcb_purge i (TCP_RMV l i d);
     u \<leftarrow> tcp_mem d i;
     d \<leftarrow> (if tstate u \<noteq> TIME_WAIT \<and> tstate u \<noteq> LISTEN \<and> tflags u AND TF_ACK_DELAY \<noteq> 0
          then do {
            d \<leftarrow> upd_tcp i (\<lambda>u. u\<lparr>tflags := tflags u OR TF_ACK_NOW\<rparr>) d;
            (_, d) \<leftarrow> tcp_output i d;
            Some d
          }
          else Some d);
     upd_tcp i (\<lambda>u. u\<lparr>tstate := CLOSED\<rparr>) d
   }"

text \<open>The orderly close of a connection: a FIN is queued and, when that works, the state moves on.\<close>

definition close_with_fin :: "nat \<Rightarrow> tcp_state \<Rightarrow> 'a tcp_scheme \<Rightarrow> (err_t \<times> 'a tcp_scheme) option" where
  "close_with_fin i s d = do {
     (e, d) \<leftarrow> tcp_send_ctrl i TCP_FIN d;
     (if e = ERR_OK
      then do {
        d \<leftarrow> upd_tcp i (\<lambda>u. u\<lparr>tstate := s\<rparr>) d;
        (_, d) \<leftarrow> tcp_output i d;
        Some (ERR_OK, d)
      }
      else Some (e, d))
   }"

definition tcp_close :: "pcb_ref \<Rightarrow> 'a tcp_scheme \<Rightarrow> (err_t \<times> 'a tcp_scheme) option" where
  "tcp_close r d =
     (case r of
        Lpcb j \<Rightarrow>
          if listen_mem d j = None then None
          else Some (ERR_OK, free_listen_pcb j (d\<lparr>tcp_listen_pcbs := remove1 j (tcp_listen_pcbs d)\<rparr>))
      | Pcb i \<Rightarrow> do {
          u \<leftarrow> tcp_mem d i;
          (case tstate u of
             CLOSED \<Rightarrow> Some (ERR_OK, free_tcp_pcb i (TCP_RMV Bound_pcbs i d))
           | LISTEN \<Rightarrow> None
           | SYN_SENT \<Rightarrow> do { d \<leftarrow> tcp_pcb_remove Active_pcbs i d; Some (ERR_OK, free_tcp_pcb i d) }
           | SYN_RCVD \<Rightarrow> close_with_fin i FIN_WAIT_1 d
           | ESTABLISHED \<Rightarrow> close_with_fin i FIN_WAIT_1 d
           | CLOSE_WAIT \<Rightarrow> close_with_fin i LAST_ACK d
           | _ \<Rightarrow> Some (ERR_OK, d))
        })"

definition event_err :: "'a tcp_calls \<Rightarrow> tcp_err_fn option \<Rightarrow> nat option \<Rightarrow> err_t \<Rightarrow> 'a \<Rightarrow> 'a option" where
  "event_err up f arg e d = (case f of None \<Rightarrow> Some d | Some f \<Rightarrow> err_up up f arg e d)"

definition tcp_abandon :: "'a tcp_scheme tcp_calls \<Rightarrow> nat \<Rightarrow> bool \<Rightarrow> 'a tcp_scheme \<Rightarrow> 'a tcp_scheme option" where
  "tcp_abandon up i reset d = do {
     u \<leftarrow> tcp_mem d i;
     (if tstate u = TIME_WAIT
      then do { d \<leftarrow> tcp_pcb_remove Tw_pcbs i d; Some (free_tcp_pcb i d) }
      else do {
        d \<leftarrow> tcp_pcb_remove Active_pcbs i d;
        v \<leftarrow> tcp_mem d i;
        (_, d) \<leftarrow> tcp_segs_free (unacked v) d;
        (_, d) \<leftarrow> tcp_segs_free (unsent v) d;
        d \<leftarrow> event_err up (errf u) (callback_arg u) ERR_ABRT (free_tcp_pcb i d);
        (if reset then tcp_rst (snd_nxt u) (rcv_nxt u) (tlocal_ip u) (tremote_ip u) (tlocal_port u) (tremote_port u) d
         else Some d)
      })
   }"

abbreviation (input) tcp_abort :: "'a tcp_scheme tcp_calls \<Rightarrow> nat \<Rightarrow> 'a tcp_scheme \<Rightarrow> 'a tcp_scheme option" where
  "tcp_abort up i d \<equiv> tcp_abandon up i True d"

subsection \<open>Callbacks\<close>

text \<open>\<open>tcp_accept_null\<close> and \<open>tcp_recv_null\<close> are the callbacks of \<open>tcp.c\<close>.\<close>

definition tcp_accept_null :: "'a \<Rightarrow> (err_t \<times> 'a) option" where
  "tcp_accept_null d = Some (ERR_ABRT, d)"

definition tcp_recv_null :: "nat \<Rightarrow> addr option \<Rightarrow> err_t \<Rightarrow> 'a tcp_scheme \<Rightarrow> (err_t \<times> 'a tcp_scheme) option" where
  "tcp_recv_null i p e d =
     (case p of
        Some p \<Rightarrow> do { d \<leftarrow> free_packet p d; Some (ERR_OK, d) }
      | None \<Rightarrow> if e = ERR_OK then tcp_close (Pcb i) d else Some (ERR_OK, d))"

definition event_accept :: "'a tcp_scheme tcp_calls \<Rightarrow> nat \<Rightarrow> err_t \<Rightarrow> 'a tcp_scheme \<Rightarrow> (err_t \<times> 'a tcp_scheme) option" where
  "event_accept up i e d = do {
     u \<leftarrow> tcp_mem d i;
     (case accept_fn u of
        None \<Rightarrow> Some (ERR_OK, d)
      | Some f \<Rightarrow> if f = Tcp_accept_null then tcp_accept_null d else accept_up up f (callback_arg u) i e d)
   }"

definition event_recv :: "'a tcp_scheme tcp_calls \<Rightarrow> nat \<Rightarrow> addr option \<Rightarrow> err_t \<Rightarrow> 'a tcp_scheme \<Rightarrow>
    (err_t \<times> 'a tcp_scheme) option" where
  "event_recv up i p e d = do {
     u \<leftarrow> tcp_mem d i;
     (case recv_fn u of
        None \<Rightarrow> do { d \<leftarrow> (case p of None \<Rightarrow> Some d | Some p \<Rightarrow> free_packet p d); Some (ERR_OK, d) }
      | Some f \<Rightarrow> if f = Tcp_recv_null then tcp_recv_null i p e d else recv_up up f (callback_arg u) i p e d)
   }"

definition event_sent :: "'a tcp_scheme tcp_calls \<Rightarrow> nat \<Rightarrow> u16 \<Rightarrow> 'a tcp_scheme \<Rightarrow> (err_t \<times> 'a tcp_scheme) option" where
  "event_sent up i n d = do {
     u \<leftarrow> tcp_mem d i;
     (case sent_fn u of None \<Rightarrow> Some (ERR_OK, d) | Some f \<Rightarrow> sent_up up f (callback_arg u) i n d)
   }"

definition event_connected :: "'a tcp_scheme tcp_calls \<Rightarrow> nat \<Rightarrow> err_t \<Rightarrow> 'a tcp_scheme \<Rightarrow> (err_t \<times> 'a tcp_scheme) option" where
  "event_connected up i e d = do {
     u \<leftarrow> tcp_mem d i;
     (case connected_fn u of None \<Rightarrow> Some (ERR_OK, d) | Some f \<Rightarrow> connected_up up f (callback_arg u) i e d)
   }"

definition event_poll :: "'a tcp_scheme tcp_calls \<Rightarrow> nat \<Rightarrow> 'a tcp_scheme \<Rightarrow> (err_t \<times> 'a tcp_scheme) option" where
  "event_poll up i d = do {
     u \<leftarrow> tcp_mem d i;
     (case poll_fn u of None \<Rightarrow> Some (ERR_OK, d) | Some f \<Rightarrow> poll_up up f (callback_arg u) i d)
   }"

subsection \<open>Windows, ports, sequence numbers\<close>

definition tcp_update_rcv_ann_wnd :: "tcp_pcb \<Rightarrow> u32 \<times> tcp_pcb" where
  "tcp_update_rcv_ann_wnd u =
     (let new_right_edge = rcv_nxt u + ucast (rcv_wnd u)
      in if TCP_SEQ_GEQ new_right_edge (rcv_ann_right_edge u + ucast (mss u))
         then (new_right_edge - rcv_ann_right_edge u, u\<lparr>rcv_ann_wnd := rcv_wnd u\<rparr>)
         else if TCP_SEQ_GT (rcv_nxt u) (rcv_ann_right_edge u) then (0, u\<lparr>rcv_ann_wnd := 0\<rparr>)
         else (0, u\<lparr>rcv_ann_wnd := ucast (rcv_ann_right_edge u - rcv_nxt u)\<rparr>))"

definition tcp_recved :: "nat \<Rightarrow> u16 \<Rightarrow> 'a tcp_scheme \<Rightarrow> 'a tcp_scheme option" where
  "tcp_recved i n d = do {
     d \<leftarrow> upd_tcp i (\<lambda>u. u\<lparr>rcv_wnd := (if TCP_WND < rcv_wnd u + n then TCP_WND else rcv_wnd u + n)\<rparr>) d;
     u \<leftarrow> tcp_mem d i;
     let (w, u) = tcp_update_rcv_ann_wnd u;
     d \<leftarrow> upd_tcp i (\<lambda>_. u) d;
     (if 730 \<le> sint w then tcp_ack_now i d else Some d)
   }"

text \<open>The ports in use by active, TIME-WAIT and listening control blocks.\<close>

definition used_ports :: "'a tcp_scheme \<Rightarrow> u16 list option" where
  "used_ports d =
     (if \<forall>i \<in> set (tcp_active_pcbs d @ tcp_tw_pcbs d). tcp_mem d i \<noteq> None then
        if \<forall>j \<in> set (tcp_listen_pcbs d). listen_mem d j \<noteq> None
        then Some (map (\<lambda>i. tlocal_port (the (tcp_mem d i))) (tcp_active_pcbs d @ tcp_tw_pcbs d) @
                   map (\<lambda>j. llocal_port (the (listen_mem d j))) (tcp_listen_pcbs d))
        else None
      else None)"

partial_function (option) new_port_loop :: "u16 list \<Rightarrow> u16 \<Rightarrow> u16 option" where
  "new_port_loop ports port =
     (let port = (if 0x7fff < port + 1 then 4096 else port + 1)
      in if port \<in> set ports then new_port_loop ports port else Some port)"

definition tcp_new_port :: "'a tcp_scheme \<Rightarrow> (u16 \<times> 'a tcp_scheme) option" where
  "tcp_new_port d = do {
     ports \<leftarrow> used_ports d;
     port \<leftarrow> new_port_loop ports (tcp_port d);
     Some (port, d\<lparr>tcp_port := port\<rparr>)
   }"

definition tcp_next_iss :: "'a tcp_scheme \<Rightarrow> u32 \<times> 'a tcp_scheme" where
  "tcp_next_iss d = (tcp_iss d + tcp_ticks d, d\<lparr>tcp_iss := tcp_iss d + tcp_ticks d\<rparr>)"

definition tcp_eff_send_mss :: "u16 \<Rightarrow> u32 \<Rightarrow> 'a ip_scheme \<Rightarrow> u16" where
  "tcp_eff_send_mss sendmss a d =
     (if ip_route a d \<and> mtu (nif d) \<noteq> 0 then min sendmss (mtu (nif d) - 20 - 20) else sendmss)"

subsection \<open>Opening\<close>

text \<open>Whether some control block of a list clashes with the address and port to bind.\<close>

definition bind_clash :: "u32 option \<Rightarrow> u16 \<Rightarrow> (u32 \<times> u16) list \<Rightarrow> bool" where
  "bind_clash ipaddr port xs \<longleftrightarrow>
     (\<exists>(lip, lport) \<in> set xs. lport = port \<and> (lip = 0 \<or> ip_addr_isany ipaddr \<or> Some lip = ipaddr))"

definition tcp_endpoints :: "nat list \<Rightarrow> 'a tcp_scheme \<Rightarrow> (u32 \<times> u16) list option" where
  "tcp_endpoints xs d =
     (if \<forall>i \<in> set xs. tcp_mem d i \<noteq> None
      then Some (map (\<lambda>i. (tlocal_ip (the (tcp_mem d i)), tlocal_port (the (tcp_mem d i)))) xs) else None)"

definition listen_endpoints :: "'a tcp_scheme \<Rightarrow> (u32 \<times> u16) list option" where
  "listen_endpoints d =
     (if \<forall>j \<in> set (tcp_listen_pcbs d). listen_mem d j \<noteq> None
      then Some (map (\<lambda>j. (llocal_ip (the (listen_mem d j)), llocal_port (the (listen_mem d j)))) (tcp_listen_pcbs d)) else None)"

definition tcp_bind :: "nat \<Rightarrow> u32 option \<Rightarrow> u16 \<Rightarrow> 'a tcp_scheme \<Rightarrow> (err_t \<times> 'a tcp_scheme) option" where
  "tcp_bind i ipaddr port d = do {
     u \<leftarrow> tcp_mem d i;
     (if tstate u \<noteq> CLOSED then Some (ERR_ISCONN, d)
      else do {
        (port, d) \<leftarrow> (if port = 0 then tcp_new_port d else Some (port, d));
        ls \<leftarrow> listen_endpoints d;
        as \<leftarrow> tcp_endpoints (tcp_active_pcbs d) d;
        bs \<leftarrow> tcp_endpoints (tcp_bound_pcbs d) d;
        ts \<leftarrow> tcp_endpoints (tcp_tw_pcbs d) d;
        (if bind_clash ipaddr port ls \<or> bind_clash ipaddr port as \<or> bind_clash ipaddr port bs then Some (ERR_USE, d)
         else if ipaddr = None \<and> port \<in> set (map snd ts) then None
         else if (the ipaddr, port) \<in> set ts \<and> ipaddr \<noteq> None then Some (ERR_USE, d)
         else do {
           d \<leftarrow> upd_tcp i (\<lambda>u. u\<lparr>tlocal_ip := (if ip_addr_isany ipaddr then tlocal_ip u else the ipaddr), tlocal_port := port\<rparr>) d;
           Some (ERR_OK, TCP_REG Bound_pcbs i d)
         })
      })
   }"

definition tcp_listen :: "nat \<Rightarrow> 'a tcp_scheme \<Rightarrow> (pcb_ref option \<times> 'a tcp_scheme) option" where
  "tcp_listen i d = do {
     u \<leftarrow> tcp_mem d i;
     (if tstate u \<noteq> CLOSED then Some (None, d)
      else (case memp_malloc MEMP_TCP_PCB_LISTEN (pools (pm d)) of
              (None, pl) \<Rightarrow> Some (None, d\<lparr>pm := (pm d)\<lparr>pools := pl\<rparr>\<rparr>)
            | (Some j, pl) \<Rightarrow> do {
                let l = \<lparr>llocal_ip = tlocal_ip u, lso_options = tso_options u OR 2, ltos = ttos u, lttl = tttl u,
                         lcallback_arg = callback_arg u, llocal_port = tlocal_port u, laccept = Some Tcp_accept_null\<rparr>;
                let d = free_tcp_pcb i (TCP_RMV Bound_pcbs i (d\<lparr>pm := (pm d)\<lparr>pools := pl\<rparr>\<rparr>));
                Some (Some (Lpcb j), d\<lparr>listen_mem := (listen_mem d)(j \<mapsto> l), tcp_listen_pcbs := j # tcp_listen_pcbs d\<rparr>)
              }))
   }"

definition tcp_connect :: "nat \<Rightarrow> u32 option \<Rightarrow> u16 \<Rightarrow> tcp_connected_fn option \<Rightarrow> 'a tcp_scheme \<Rightarrow> (err_t \<times> 'a tcp_scheme) option" where
  "tcp_connect i ipaddr port f d = do {
     u \<leftarrow> tcp_mem d i;
     (if tstate u \<noteq> CLOSED then Some (ERR_ISCONN, d)
      else (case ipaddr of
              None \<Rightarrow> Some (ERR_VAL, d)
            | Some a \<Rightarrow> do {
                d \<leftarrow> upd_tcp i (\<lambda>u. u\<lparr>tremote_ip := a, tremote_port := port\<rparr>) d;
                d \<leftarrow> (if tlocal_port u = 0
                     then do { (lp, d) \<leftarrow> tcp_new_port d; upd_tcp i (\<lambda>u. u\<lparr>tlocal_port := lp\<rparr>) d }
                     else Some d);
                let (iss, d) = tcp_next_iss d;
                let m = tcp_eff_send_mss 536 a d;
                d \<leftarrow> upd_tcp i (\<lambda>u. u\<lparr>rcv_nxt := 0, snd_nxt := iss, lastack := iss - 1, snd_lbb := iss - 1, rcv_wnd := TCP_WND,
                      rcv_ann_wnd := TCP_WND, rcv_ann_right_edge := 0, snd_wnd := TCP_WND, mss := m, cwnd := 1,
                      ssthresh := m * 10, tstate := SYN_SENT, connected_fn := f\<rparr>) d;
                let d = TCP_REG Active_pcbs i (TCP_RMV Bound_pcbs i d);
                (e, d) \<leftarrow> tcp_enqueue i None 0 TCP_SYN 0 TF_SEG_OPTS_MSS d;
                (if e = ERR_OK then do { (_, d) \<leftarrow> tcp_output i d; Some (e, d) } else Some (e, d))
              }))
   }"

subsection \<open>Allocation\<close>

text \<open>
  The scans for the connection to kill: the oldest of the list that qualifies, the later one on a tie;
  \<open>tcp_kill_prio\<close> prefers the lower priority.
\<close>

fun oldest_tw :: "u32 \<Rightarrow> (nat \<times> tcp_pcb) list \<Rightarrow> u32 \<Rightarrow> nat option \<Rightarrow> nat option" where
  "oldest_tw ticks [] inactivity inactive = inactive"
| "oldest_tw ticks ((i, u) # us) inactivity inactive =
     (if inactivity \<le> ticks - tmr u then oldest_tw ticks us (ticks - tmr u) (Some i) else oldest_tw ticks us inactivity inactive)"

fun oldest_prio :: "u32 \<Rightarrow> u8 \<Rightarrow> (nat \<times> tcp_pcb) list \<Rightarrow> u8 \<Rightarrow> u32 \<Rightarrow> nat option \<Rightarrow> nat option" where
  "oldest_prio ticks p [] mprio inactivity inactive = inactive"
| "oldest_prio ticks p ((i, u) # us) mprio inactivity inactive =
     (if prio u \<le> p \<and> prio u \<le> mprio \<and> inactivity \<le> ticks - tmr u
      then oldest_prio ticks p us (prio u) (ticks - tmr u) (Some i)
      else oldest_prio ticks p us mprio inactivity inactive)"

definition listed :: "nat list \<Rightarrow> 'a tcp_scheme \<Rightarrow> (nat \<times> tcp_pcb) list option" where
  "listed xs d = (if \<forall>i \<in> set xs. tcp_mem d i \<noteq> None then Some (map (\<lambda>i. (i, the (tcp_mem d i))) xs) else None)"

definition tcp_kill_timewait :: "'a tcp_scheme tcp_calls \<Rightarrow> 'a tcp_scheme \<Rightarrow> 'a tcp_scheme option" where
  "tcp_kill_timewait up d = do {
     us \<leftarrow> listed (tcp_tw_pcbs d) d;
     (case oldest_tw (tcp_ticks d) us 0 None of None \<Rightarrow> Some d | Some i \<Rightarrow> tcp_abort up i d)
   }"

definition tcp_kill_prio :: "'a tcp_scheme tcp_calls \<Rightarrow> u8 \<Rightarrow> 'a tcp_scheme \<Rightarrow> 'a tcp_scheme option" where
  "tcp_kill_prio up p d = do {
     us \<leftarrow> listed (tcp_active_pcbs d) d;
     (case oldest_prio (tcp_ticks d) p us 127 0 None of None \<Rightarrow> Some d | Some i \<Rightarrow> tcp_abort up i d)
   }"

definition new_tcp_pcb :: "u32 \<Rightarrow> u32 \<Rightarrow> tcp_pcb" where
  "new_tcp_pcb iss ticks =
     \<lparr>tlocal_ip = 0, tremote_ip = 0, tso_options = 0, ttos = 0, tttl = TCP_TTL, tstate = CLOSED, prio = 64,
      callback_arg = None, tlocal_port = 0, accept_fn = None, tremote_port = 0, tflags = 0, rcv_nxt = 0,
      rcv_wnd = TCP_WND, rcv_ann_wnd = TCP_WND, rcv_ann_right_edge = 0, tmr = ticks, polltmr = 0, pollinterval = 0,
      rtime = - 1, mss = 536, rttest = 0, rtseq = 0, sa = 0, sv = 6, rto = 6, nrtx = 0, lastack = iss, dupacks = 0,
      cwnd = 1, ssthresh = 0, snd_nxt = iss, snd_wnd = 0, snd_wl1 = 0, snd_wl2 = iss, snd_lbb = iss, acked = 0,
      snd_buf = TCP_SND_BUF, snd_queuelen = 0, unsent = [], unacked = [], refused_data = None, sent_fn = None,
      recv_fn = Some Tcp_recv_null, connected_fn = None, poll_fn = None, errf = None, keep_idle = 7200000,
      persist_cnt = 0, persist_backoff = 0, keep_cnt_sent = 0\<rparr>"

definition take_pcb :: "'a dev_scheme \<Rightarrow> nat option \<times> 'a dev_scheme" where
  "take_pcb d = (let (i, pl) = memp_malloc MEMP_TCP_PCB (pools (pm d)) in (i, d\<lparr>pm := (pm d)\<lparr>pools := pl\<rparr>\<rparr>))"

definition tcp_alloc :: "'a tcp_scheme tcp_calls \<Rightarrow> u8 \<Rightarrow> 'a tcp_scheme \<Rightarrow> (nat option \<times> 'a tcp_scheme) option" where
  "tcp_alloc up p d = do {
     (i, d) \<leftarrow> (case take_pcb d of
                 (Some i, d) \<Rightarrow> Some (Some i, d)
               | (None, d) \<Rightarrow> do {
                   d \<leftarrow> tcp_kill_timewait up d;
                   (case take_pcb d of
                      (Some i, d) \<Rightarrow> Some (Some i, d)
                    | (None, d) \<Rightarrow> do { d \<leftarrow> tcp_kill_prio up p d; Some (take_pcb d) })
                 });
     Some (case i of
       None \<Rightarrow> (None, d)
     | Some i \<Rightarrow>
         let (iss, d) = tcp_next_iss d
         in (Some i, d\<lparr>tcp_mem := (tcp_mem d)(i \<mapsto> new_tcp_pcb iss (tcp_ticks d))\<rparr>))
   }"

definition tcp_new :: "'a tcp_scheme tcp_calls \<Rightarrow> 'a tcp_scheme \<Rightarrow> (nat option \<times> 'a tcp_scheme) option" where
  "tcp_new up d = tcp_alloc up 64 d"

end
