(* ===== verification/Tcp_In.thy ===== *)
theory Tcp_In
  imports Tcp
begin

text \<open>
  \<open>core/tcp_in.c\<close>: a received segment finds its control block (\<open>tcp_input\<close>), goes through the state machine
  (\<open>tcp_process\<close>) and, in the states with data, through \<open>tcp_receive\<close>.  \<open>tcp_in\<close> holds the static
  variables of the file for the segment at hand; the fields of the header that \<open>tcp_input\<close> converts to host
  order are converted in the memory of the packet, as in the code.
\<close>

record tcp_in =
  in_len :: u16
  in_dataptr :: ptr
  in_p :: "addr option"
  in_tcphdr :: ptr
  in_iphdr :: ptr
  in_seqno :: u32
  in_ackno :: u32
  in_flags :: u16
  in_tcplen :: u16
  recv_flags :: u8
  recv_data :: "addr option"

abbreviation (input) TF_RESET :: u8 where "TF_RESET \<equiv> 0x08"
abbreviation (input) TF_CLOSED :: u8 where "TF_CLOSED \<equiv> 0x10"
abbreviation (input) TF_GOT_FIN :: u8 where "TF_GOT_FIN \<equiv> 0x20"

text \<open>\<open>TCP_TCPLEN(&inseg)\<close>.\<close>

definition in_TCPLEN :: "pmem \<Rightarrow> tcp_in \<Rightarrow> u16 option" where
  "in_TCPLEN st x = map_option (\<lambda>f. in_len x + (if f AND TCP_FIN \<noteq> 0 \<or> f AND TCP_SYN \<noteq> 0 then 1 else 0))
     (hdr_flags st (in_tcphdr x))"

subsection \<open>Options\<close>

text \<open>The loop over the options at \<open>opts\<close>, with the maximum segment size found so far.\<close>

function parse_opts :: "pmem \<Rightarrow> ptr \<Rightarrow> nat \<Rightarrow> nat \<Rightarrow> u16 \<Rightarrow> u16 option" where
  "parse_opts st opts c max_c m =
     (if \<not> c < max_c then Some m
      else (case ptr_get8 st opts c of
              None \<Rightarrow> None
            | Some opt \<Rightarrow>
                if opt = 0 then Some m
                else if opt = 1 then parse_opts st opts (c + 1) max_c m
                else (case ptr_get8 st opts (c + 1) of
                        None \<Rightarrow> None
                      | Some l \<Rightarrow>
                          if opt = 2
                          then if l \<noteq> 4 \<or> max_c < c + 4 then Some m
                               else (case (ptr_get8 st opts (c + 2), ptr_get8 st opts (c + 3)) of
                                       (Some h, Some b) \<Rightarrow>
                                         let v = push_bit 8 (ucast h) OR (ucast b :: u16)
                                         in parse_opts st opts (c + 4) max_c (if TCP_MSS < v \<or> v = 0 then TCP_MSS else v)
                                     | _ \<Rightarrow> None)
                          else if l = 0 then Some m
                          else parse_opts st opts (c + unat l) max_c m)))"
  by pat_completeness auto
termination
  by (relation "measure (\<lambda>(st, opts, c, max_c, m). max_c - c)") (auto intro!: diff_less_mono2 simp: unat_gt_0)

declare parse_opts.simps [simp del]

definition tcp_parseopt :: "tcp_in \<Rightarrow> nat \<Rightarrow> 'a tcp_scheme \<Rightarrow> 'a tcp_scheme option" where
  "tcp_parseopt x i d = do {
     w \<leftarrow> ptr_get16 (pm d) (in_tcphdr x) 12;
     (if 5 < TCPH_HDRLEN w
      then do {
        u \<leftarrow> tcp_mem d i;
        m \<leftarrow> parse_opts (pm d) (ptr_add (in_tcphdr x) 20) 0 (unat (push_bit 2 (TCPH_HDRLEN w - 5))) (mss u);
        upd_tcp i (\<lambda>u. u\<lparr>mss := m\<rparr>) d
      }
      else Some d)
   }"

subsection \<open>Acknowledgements\<close>

text \<open>The send window the peer announces.\<close>

definition update_window :: "tcp_in \<Rightarrow> u16 \<Rightarrow> tcp_pcb \<Rightarrow> tcp_pcb" where
  "update_window x w u =
     (if TCP_SEQ_LT (snd_wl1 u) (in_seqno x) \<or> snd_wl1 u = in_seqno x \<and> TCP_SEQ_LT (snd_wl2 u) (in_ackno x) \<or>
         snd_wl2 u = in_ackno x \<and> snd_wnd u < w
      then u\<lparr>snd_wnd := w, snd_wl1 := in_seqno x, snd_wl2 := in_ackno x,
             persist_backoff := (if 0 < w \<and> 0 < persist_backoff u then 0 else persist_backoff u)\<rparr>
      else u)"

text \<open>The congestion window after the third duplicate acknowledgement, and at every further one.\<close>

definition fast_retransmit_cwnd :: "tcp_pcb \<Rightarrow> tcp_pcb" where
  "fast_retransmit_cwnd u =
     (let t = (if snd_wnd u < cwnd u then snd_wnd u div 2 else cwnd u div 2);
          t = (if unat t < 2 * unat (mss u) then 2 * mss u else t)
      in u\<lparr>ssthresh := t, cwnd := t + 3 * mss u, tflags := tflags u OR TF_INFR\<rparr>)"

definition inflate_cwnd :: "tcp_pcb \<Rightarrow> tcp_pcb" where
  "inflate_cwnd u = (if cwnd u < cwnd u + mss u then u\<lparr>cwnd := cwnd u + mss u\<rparr> else u)"

definition duplicate_ack :: "nat \<Rightarrow> u32 \<Rightarrow> 'a tcp_scheme \<Rightarrow> 'a tcp_scheme option" where
  "duplicate_ack i right_wnd_edge d = do {
     d \<leftarrow> upd_tcp i (\<lambda>u. u\<lparr>acked := 0\<rparr>) d;
     u \<leftarrow> tcp_mem d i;
     (if snd_wl2 u + ucast (snd_wnd u) = right_wnd_edge
      then do {
        d \<leftarrow> upd_tcp i (\<lambda>u. u\<lparr>dupacks := dupacks u + 1\<rparr>) d;
        (if 3 \<le> dupacks u + 1 \<and> unacked u \<noteq> []
         then if tflags u AND TF_INFR = 0 then do { d \<leftarrow> tcp_rexmit i d; upd_tcp i fast_retransmit_cwnd d }
              else upd_tcp i inflate_cwnd d
         else Some d)
      }
      else Some d)
   }"

text \<open>Slow start and congestion avoidance.\<close>

definition open_cwnd :: "tcp_pcb \<Rightarrow> tcp_pcb option" where
  "open_cwnd u =
     (if tstate u \<in> {CLOSED, LISTEN, SYN_SENT, SYN_RCVD} then Some u
      else if cwnd u < ssthresh u then Some (inflate_cwnd u)
      else if cwnd u = 0 then None
      else let n = (of_nat (unat (cwnd u) + unat (mss u) * unat (mss u) div unat (cwnd u)) :: u16)
           in Some (if cwnd u < n then u\<lparr>cwnd := n\<rparr> else u))"

text \<open>The loop that frees the acknowledged segments at the front of a queue; \<open>c\<close> gets the end of a segment.\<close>

fun free_while :: "(u32 \<Rightarrow> bool) \<Rightarrow> tcp_seg list \<Rightarrow> u16 \<Rightarrow> 'a dev_scheme \<Rightarrow> (tcp_seg list \<times> u16 \<times> 'a dev_scheme) option" where
  "free_while c [] n d = Some ([], n, d)"
| "free_while c (s # ss) n d = do {
     seqno \<leftarrow> seg_seqno (pm d) s;
     l \<leftarrow> TCP_TCPLEN (pm d) s;
     (if c (seqno + l)
      then do {
        k \<leftarrow> pbuf_clen (segp s) (pm d);
        (_, d) \<leftarrow> tcp_seg_free s d;
        free_while c ss (n - ucast k) d
      }
      else Some (s # ss, n, d))
   }"

definition new_ack :: "tcp_in \<Rightarrow> nat \<Rightarrow> 'a tcp_scheme \<Rightarrow> 'a tcp_scheme option" where
  "new_ack x i d = do {
     d \<leftarrow> upd_tcp i (\<lambda>u. if tflags u AND TF_INFR \<noteq> 0 then u\<lparr>tflags := tflags u AND NOT TF_INFR, cwnd := ssthresh u\<rparr> else u) d;
     d \<leftarrow> upd_tcp i (\<lambda>u. u\<lparr>nrtx := 0, rto := signed_drop_bit 3 (sa u) + sv u, acked := ucast (in_ackno x - lastack u),
           snd_buf := snd_buf u + ucast (in_ackno x - lastack u), dupacks := 0, lastack := in_ackno x\<rparr>) d;
     u \<leftarrow> tcp_mem d i;
     u \<leftarrow> open_cwnd u;
     (q, n, d) \<leftarrow> free_while (\<lambda>e. TCP_SEQ_LEQ e (in_ackno x)) (unacked u) (snd_queuelen u) d;
     upd_tcp i (\<lambda>_. u\<lparr>unacked := q, snd_queuelen := n, rtime := (if q = [] then - 1 else 0), polltmr := 0\<rparr>) d
   }"

text \<open>Round trip time, after Van Jacobson.\<close>

definition rtt_estimate :: "u32 \<Rightarrow> tcp_pcb \<Rightarrow> tcp_pcb" where
  "rtt_estimate ticks u =
     (let m = (ucast (ticks - rttest u) :: u16);
          m = m - signed_drop_bit 3 (sa u);
          a = sa u + m;
          m = (if sint m < 0 then - m else m);
          m = m - signed_drop_bit 2 (sv u);
          v = sv u + m
      in u\<lparr>sa := a, sv := v, rto := signed_drop_bit 3 a + v, rttest := 0\<rparr>)"

definition receive_ack :: "tcp_in \<Rightarrow> nat \<Rightarrow> 'a tcp_scheme \<Rightarrow> 'a tcp_scheme option" where
  "receive_ack x i d = do {
     u \<leftarrow> tcp_mem d i;
     let right_wnd_edge = ucast (snd_wnd u) + snd_wl2 u;
     w \<leftarrow> ptr_get16 (pm d) (in_tcphdr x) 14;
     d \<leftarrow> upd_tcp i (update_window x w) d;
     d \<leftarrow> (if lastack u = in_ackno x then duplicate_ack i right_wnd_edge d
          else if TCP_SEQ_BETWEEN (in_ackno x) (lastack u + 1) (snd_nxt u) then new_ack x i d
          else upd_tcp i (\<lambda>u. u\<lparr>acked := 0\<rparr>) d);
     u \<leftarrow> tcp_mem d i;
     (q, n, d) \<leftarrow> free_while (\<lambda>e. TCP_SEQ_BETWEEN (in_ackno x) e (snd_nxt u)) (unsent u) (snd_queuelen u) d;
     d \<leftarrow> upd_tcp i (\<lambda>u. u\<lparr>unsent := q, snd_queuelen := n\<rparr>) d;
     upd_tcp i (\<lambda>u. if rttest u \<noteq> 0 \<and> TCP_SEQ_LT (rtseq u) (in_ackno x) then rtt_estimate (tcp_ticks d) u else u) d
   }"

subsection \<open>Data\<close>

text \<open>The part of a segment that was received before is cut off its front.\<close>

partial_function (option) skip_pbufs :: "addr option \<Rightarrow> int \<Rightarrow> u16 \<Rightarrow> pmem \<Rightarrow> (addr option \<times> int \<times> pmem) option" where
  "skip_pbufs p off new_tot_len st =
     (case p of
        None \<Rightarrow> None
      | Some a \<Rightarrow>
          (case pbufs st a of
             None \<Rightarrow> None
           | Some b \<Rightarrow>
               if int (unat (len b)) < off
               then skip_pbufs (nextp b) (off - int (unat (len b))) new_tot_len
                 (st\<lparr>pbufs := (pbufs st)(a \<mapsto> b\<lparr>tot_len := new_tot_len, len := 0\<rparr>)\<rparr>)
               else Some (p, off, st)))"

definition trim_front :: "tcp_in \<Rightarrow> nat \<Rightarrow> 'a tcp_scheme \<Rightarrow> (tcp_in \<times> 'a tcp_scheme) option" where
  "trim_front x i d = do {
     u \<leftarrow> tcp_mem d i;
     let off = sint (rcv_nxt u - in_seqno x);
     p \<leftarrow> in_p x;
     b \<leftarrow> pbufs (pm d) p;
     (q, off, st) \<leftarrow> (if int (unat (len b)) < off then skip_pbufs (Some p) off (tot_len b - of_int off) (pm d)
                     else Some (Some p, off, pm d));
     (_, st) \<leftarrow> pbuf_header q (sint (of_int (- off) :: u16)) st;
     q \<leftarrow> q;
     b \<leftarrow> pbufs st q;
     st \<leftarrow> ptr_put (in_tcphdr x) 4 (bytes_of_u32 (rcv_nxt u)) st;
     Some (x\<lparr>in_dataptr := payload b, in_len := in_len x - ucast (rcv_nxt u - in_seqno x), in_seqno := rcv_nxt u\<rparr>, d\<lparr>pm := st\<rparr>)
   }"

text \<open>What does not fit into the receive window is cut off the end.\<close>

definition trim_end :: "tcp_in \<Rightarrow> u16 \<Rightarrow> pmem \<Rightarrow> (tcp_in \<times> pmem) option" where
  "trim_end x wnd st = do {
     f \<leftarrow> hdr_flags st (in_tcphdr x);
     st \<leftarrow> (if f AND TCP_FIN \<noteq> 0 then upd_flags (TCPH_FLAGS_SET (f AND NOT TCP_FIN)) (in_tcphdr x) st else Some st);
     f \<leftarrow> hdr_flags st (in_tcphdr x);
     let x = x\<lparr>in_len := (if f AND TCP_SYN \<noteq> 0 then wnd - 1 else wnd)\<rparr>;
     p \<leftarrow> in_p x;
     st \<leftarrow> pbuf_realloc p (in_len x) st;
     Some (x, st)
   }"

text \<open>The next segment in sequence.\<close>

definition accept_in_sequence :: "tcp_in \<Rightarrow> nat \<Rightarrow> 'a tcp_scheme \<Rightarrow> (tcp_in \<times> 'a tcp_scheme) option" where
  "accept_in_sequence x i d = do {
     u \<leftarrow> tcp_mem d i;
     n \<leftarrow> in_TCPLEN (pm d) x;
     (x, st) \<leftarrow> (if rcv_wnd u < n then trim_end x (rcv_wnd u) (pm d) else Some (x, pm d));
     n \<leftarrow> in_TCPLEN st x;
     let x = x\<lparr>in_tcplen := n\<rparr>;
     d \<leftarrow> upd_tcp i (\<lambda>u. snd (tcp_update_rcv_ann_wnd (u\<lparr>rcv_nxt := in_seqno x + ucast n, rcv_wnd := rcv_wnd u - n\<rparr>))) (d\<lparr>pm := st\<rparr>);
     p \<leftarrow> in_p x;
     b \<leftarrow> pbufs (pm d) p;
     let x = (if 0 < tot_len b then x\<lparr>recv_data := Some p, in_p := None\<rparr> else x);
     f \<leftarrow> hdr_flags (pm d) (in_tcphdr x);
     let x = (if f AND TCP_FIN \<noteq> 0 then x\<lparr>recv_flags := recv_flags x OR TF_GOT_FIN\<rparr> else x);
     d \<leftarrow> tcp_ack i d;
     Some (x, d)
   }"

definition in_window :: "u32 \<Rightarrow> tcp_pcb \<Rightarrow> bool" where
  "in_window seqno u \<longleftrightarrow> TCP_SEQ_BETWEEN seqno (rcv_nxt u) (rcv_nxt u + ucast (rcv_wnd u) - 1)"

definition receive_data :: "tcp_in \<Rightarrow> nat \<Rightarrow> 'a tcp_scheme \<Rightarrow> (tcp_in \<times> 'a tcp_scheme) option" where
  "receive_data x i d = do {
     u \<leftarrow> tcp_mem d i;
     (x, d) \<leftarrow> (if TCP_SEQ_BETWEEN (rcv_nxt u) (in_seqno x + 1) (in_seqno x + ucast (in_tcplen x) - 1) then trim_front x i d
               else if TCP_SEQ_LT (in_seqno x) (rcv_nxt u) then do { d \<leftarrow> tcp_ack_now i d; Some (x, d) }
               else Some (x, d));
     u \<leftarrow> tcp_mem d i;
     (if in_window (in_seqno x) u \<and> rcv_nxt u = in_seqno x then accept_in_sequence x i d
      else do { d \<leftarrow> tcp_ack_now i d; Some (x, d) })
   }"

definition tcp_receive :: "tcp_in \<Rightarrow> nat \<Rightarrow> 'a tcp_scheme \<Rightarrow> (tcp_in \<times> 'a tcp_scheme) option" where
  "tcp_receive x i d = do {
     d \<leftarrow> (if in_flags x AND TCP_ACK \<noteq> 0 then receive_ack x i d else Some d);
     (if 0 < in_tcplen x then receive_data x i d
      else do {
        u \<leftarrow> tcp_mem d i;
        d \<leftarrow> (if \<not> in_window (in_seqno x) u then tcp_ack_now i d else Some d);
        Some (x, d)
      })
   }"

subsection \<open>The state machine\<close>

definition tcp_rst_reply :: "tcp_in \<Rightarrow> u32 \<Rightarrow> u32 \<Rightarrow> 'a tcp_scheme \<Rightarrow> 'a tcp_scheme option" where
  "tcp_rst_reply x seqno ackno d = do {
     dst \<leftarrow> ptr_get32 (pm d) (in_iphdr x) 16;
     src \<leftarrow> ptr_get32 (pm d) (in_iphdr x) 12;
     lport \<leftarrow> ptr_get16 (pm d) (in_tcphdr x) 2;
     rport \<leftarrow> ptr_get16 (pm d) (in_tcphdr x) 0;
     tcp_rst seqno ackno dst src lport rport d
   }"

text \<open>A connection that is closed on both sides waits in \<open>TIME_WAIT\<close>.\<close>

definition to_time_wait :: "nat \<Rightarrow> 'a tcp_scheme \<Rightarrow> 'a tcp_scheme option" where
  "to_time_wait i d = do {
     d \<leftarrow> tcp_pcb_purge i d;
     d \<leftarrow> upd_tcp i (\<lambda>u. u\<lparr>tstate := TIME_WAIT\<rparr>) (TCP_RMV Active_pcbs i d);
     Some (TCP_REG Tw_pcbs i d)
   }"

definition process_syn_sent :: "'a tcp_scheme tcp_calls \<Rightarrow> tcp_in \<Rightarrow> nat \<Rightarrow> 'a tcp_scheme \<Rightarrow> 'a tcp_scheme option" where
  "process_syn_sent up x i d = do {
     u \<leftarrow> tcp_mem d i;
     expected \<leftarrow> (if in_flags x AND TCP_ACK \<noteq> 0 \<and> in_flags x AND TCP_SYN \<noteq> 0
                 then (case unacked u of [] \<Rightarrow> None | s # _ \<Rightarrow> map_option (\<lambda>n. in_ackno x = n + 1) (seg_seqno (pm d) s))
                 else Some False);
     (if expected
      then do {
        w \<leftarrow> ptr_get16 (pm d) (in_tcphdr x) 14;
        let m = tcp_eff_send_mss (mss u) (tremote_ip u) d;
        let q = tl (unacked u);
        d \<leftarrow> upd_tcp i (\<lambda>u. u\<lparr>snd_buf := snd_buf u + 1, rcv_nxt := in_seqno x + 1, rcv_ann_right_edge := in_seqno x + 1,
              lastack := in_ackno x, snd_wnd := w, snd_wl1 := in_seqno x - 1, tstate := ESTABLISHED, mss := m, ssthresh := m * 10,
              cwnd := (if cwnd u = 1 then m * 2 else m), snd_queuelen := snd_queuelen u - 1, unacked := q,
              rtime := (if q = [] then - 1 else 0), nrtx := (if q = [] then nrtx u else 0)\<rparr>) d;
        (_, d) \<leftarrow> tcp_seg_free (hd (unacked u)) d;
        (_, d) \<leftarrow> event_connected up i ERR_OK d;
        tcp_ack_now i d
      }
      else if in_flags x AND TCP_ACK \<noteq> 0 then tcp_rst_reply x (in_ackno x) (in_seqno x + ucast (in_tcplen x)) d
      else Some d)
   }"

definition process_syn_rcvd :: "'a tcp_scheme tcp_calls \<Rightarrow> tcp_in \<Rightarrow> nat \<Rightarrow> 'a tcp_scheme \<Rightarrow>
    (err_t \<times> tcp_in \<times> 'a tcp_scheme) option" where
  "process_syn_rcvd up x i d = do {
     u \<leftarrow> tcp_mem d i;
     (if in_flags x AND TCP_ACK \<noteq> 0
      then if TCP_SEQ_BETWEEN (in_ackno x) (lastack u + 1) (snd_nxt u)
           then do {
             d \<leftarrow> upd_tcp i (\<lambda>u. u\<lparr>tstate := ESTABLISHED\<rparr>) d;
             (e, d) \<leftarrow> event_accept up i ERR_OK d;
             (if e \<noteq> ERR_OK
              then do { d \<leftarrow> tcp_abort up i d; Some (ERR_ABRT, x, d) }
              else do {
                u \<leftarrow> tcp_mem d i;
                let old_cwnd = cwnd u;
                (x, d) \<leftarrow> tcp_receive x i d;
                d \<leftarrow> upd_tcp i (\<lambda>u. u\<lparr>cwnd := (if old_cwnd = 1 then mss u * 2 else mss u)\<rparr>) d;
                d \<leftarrow> (if recv_flags x AND TF_GOT_FIN \<noteq> 0
                     then do { d \<leftarrow> tcp_ack_now i d; upd_tcp i (\<lambda>u. u\<lparr>tstate := CLOSE_WAIT\<rparr>) d }
                     else Some d);
                Some (ERR_OK, x, d)
              })
           }
           else do {
             d \<leftarrow> tcp_rst_reply x (in_ackno x) (in_seqno x + ucast (in_tcplen x)) d;
             Some (ERR_OK, x, d)
           }
      else if in_flags x AND TCP_SYN \<noteq> 0 \<and> in_seqno x = rcv_nxt u - 1
           then do { d \<leftarrow> tcp_rexmit i d; Some (ERR_OK, x, d) }
           else Some (ERR_OK, x, d))
   }"

text \<open>The states with data: the segment is received, then the flags move the state.\<close>

definition process_data :: "tcp_in \<Rightarrow> nat \<Rightarrow> 'a tcp_scheme \<Rightarrow> (tcp_in \<times> 'a tcp_scheme) option" where
  "process_data x i d = do {
     u \<leftarrow> tcp_mem d i;
     (x, d) \<leftarrow> tcp_receive x i d;
     v \<leftarrow> tcp_mem d i;
     let fin = (recv_flags x AND TF_GOT_FIN \<noteq> 0);
     let done_sending = (in_flags x AND TCP_ACK \<noteq> 0 \<and> in_ackno x = snd_nxt v);
     (case tstate u of
        FIN_WAIT_1 \<Rightarrow>
          if fin
          then if done_sending then do { d \<leftarrow> tcp_ack_now i d; d \<leftarrow> to_time_wait i d; Some (x, d) }
               else do { d \<leftarrow> tcp_ack_now i d; d \<leftarrow> upd_tcp i (\<lambda>u. u\<lparr>tstate := CLOSING\<rparr>) d; Some (x, d) }
          else if done_sending then do { d \<leftarrow> upd_tcp i (\<lambda>u. u\<lparr>tstate := FIN_WAIT_2\<rparr>) d; Some (x, d) }
          else Some (x, d)
      | FIN_WAIT_2 \<Rightarrow>
          if fin then do { d \<leftarrow> tcp_ack_now i d; d \<leftarrow> to_time_wait i d; Some (x, d) } else Some (x, d)
      | CLOSING \<Rightarrow> if done_sending then do { d \<leftarrow> to_time_wait i d; Some (x, d) } else Some (x, d)
      | LAST_ACK \<Rightarrow> Some (if done_sending then x\<lparr>recv_flags := recv_flags x OR TF_CLOSED\<rparr> else x, d)
      | _ \<Rightarrow>
          if fin then do { d \<leftarrow> tcp_ack_now i d; d \<leftarrow> upd_tcp i (\<lambda>u. u\<lparr>tstate := CLOSE_WAIT\<rparr>) d; Some (x, d) }
          else Some (x, d))
   }"

definition rst_acceptable :: "tcp_in \<Rightarrow> tcp_pcb \<Rightarrow> bool" where
  "rst_acceptable x u \<longleftrightarrow>
     (if tstate u = SYN_SENT then in_ackno x = snd_nxt u
      else TCP_SEQ_BETWEEN (in_seqno x) (rcv_nxt u) (rcv_nxt u + ucast (rcv_wnd u)))"

definition tcp_process :: "'a tcp_scheme tcp_calls \<Rightarrow> tcp_in \<Rightarrow> nat \<Rightarrow> 'a tcp_scheme \<Rightarrow>
    (err_t \<times> tcp_in \<times> 'a tcp_scheme) option" where
  "tcp_process up x i d = do {
     u \<leftarrow> tcp_mem d i;
     (if in_flags x AND TCP_RST \<noteq> 0
      then if rst_acceptable x u
           then do {
             d \<leftarrow> upd_tcp i (\<lambda>u. u\<lparr>tflags := tflags u AND NOT TF_ACK_DELAY\<rparr>) d;
             Some (ERR_RST, x\<lparr>recv_flags := recv_flags x OR TF_RESET\<rparr>, d)
           }
           else Some (ERR_OK, x, d)
      else if in_flags x AND TCP_SYN \<noteq> 0 \<and> tstate u \<noteq> SYN_SENT \<and> tstate u \<noteq> SYN_RCVD
      then do { d \<leftarrow> tcp_ack_now i d; Some (ERR_OK, x, d) }
      else do {
        d \<leftarrow> upd_tcp i (\<lambda>u. u\<lparr>tmr := tcp_ticks d, keep_cnt_sent := 0\<rparr>) d;
        d \<leftarrow> tcp_parseopt x i d;
        (case tstate u of
           SYN_SENT \<Rightarrow> do { d \<leftarrow> process_syn_sent up x i d; Some (ERR_OK, x, d) }
         | SYN_RCVD \<Rightarrow> process_syn_rcvd up x i d
         | CLOSED \<Rightarrow> Some (ERR_OK, x, d)
         | LISTEN \<Rightarrow> Some (ERR_OK, x, d)
         | TIME_WAIT \<Rightarrow> Some (ERR_OK, x, d)
         | _ \<Rightarrow> do { (x, d) \<leftarrow> process_data x i d; Some (ERR_OK, x, d) })
      })
   }"

subsection \<open>Listeners and TIME-WAIT\<close>

definition accepted_pcb :: "tcp_in \<Rightarrow> tcp_pcb_listen \<Rightarrow> u32 \<Rightarrow> u32 \<Rightarrow> u16 \<Rightarrow> u16 \<Rightarrow> tcp_pcb \<Rightarrow> tcp_pcb" where
  "accepted_pcb x l dst src rport w u =
     u\<lparr>tlocal_ip := dst, tlocal_port := llocal_port l, tremote_ip := src, tremote_port := rport, tstate := SYN_RCVD,
       rcv_nxt := in_seqno x + 1, rcv_ann_right_edge := in_seqno x + 1, snd_wnd := w, ssthresh := w,
       snd_wl1 := in_seqno x - 1, callback_arg := lcallback_arg l, accept_fn := laccept l,
       tso_options := lso_options l AND 0x199\<rparr>"

definition tcp_listen_input :: "'a tcp_scheme tcp_calls \<Rightarrow> tcp_in \<Rightarrow> nat \<Rightarrow> 'a tcp_scheme \<Rightarrow> (err_t \<times> 'a tcp_scheme) option" where
  "tcp_listen_input up x j d =
     (if in_flags x AND TCP_ACK \<noteq> 0
      then do {
        d \<leftarrow> tcp_rst_reply x (in_ackno x + 1) (in_seqno x + ucast (in_tcplen x)) d;
        Some (ERR_OK, d)
      }
      else if in_flags x AND TCP_SYN \<noteq> 0
      then do {
        (n, d) \<leftarrow> tcp_alloc up (lprio d j) d;
        (case n of
           None \<Rightarrow> Some (ERR_MEM, d)
         | Some n \<Rightarrow> do {
             l \<leftarrow> listen_mem d j;
             dst \<leftarrow> ptr_get32 (pm d) (in_iphdr x) 16;
             src \<leftarrow> ptr_get32 (pm d) (in_iphdr x) 12;
             rport \<leftarrow> ptr_get16 (pm d) (in_tcphdr x) 0;
             w \<leftarrow> ptr_get16 (pm d) (in_tcphdr x) 14;
             d \<leftarrow> upd_tcp n (accepted_pcb x l dst src rport w) d;
             let d = TCP_REG Active_pcbs n d;
             d \<leftarrow> tcp_parseopt x n d;
             d \<leftarrow> upd_tcp n (\<lambda>u. u\<lparr>mss := tcp_eff_send_mss (mss u) (tremote_ip u) d\<rparr>) d;
             (e, d) \<leftarrow> tcp_enqueue n None 0 (TCP_SYN OR TCP_ACK) 0 TF_SEG_OPTS_MSS d;
             (if e \<noteq> ERR_OK then do { d \<leftarrow> tcp_abandon up n False d; Some (e, d) }
              else tcp_output n d)
           })
      }
      else Some (ERR_OK, d))"

definition tcp_timewait_input :: "tcp_in \<Rightarrow> nat \<Rightarrow> 'a tcp_scheme \<Rightarrow> (err_t \<times> 'a tcp_scheme) option" where
  "tcp_timewait_input x i d = do {
     let e = in_seqno x + ucast (in_tcplen x);
     d \<leftarrow> upd_tcp i (\<lambda>u. if TCP_SEQ_GT e (rcv_nxt u) then u\<lparr>rcv_nxt := e\<rparr> else u) d;
     d \<leftarrow> (if 0 < in_tcplen x then tcp_ack_now i d else Some d);
     tcp_output i d
   }"

subsection \<open>Demultiplexing\<close>

text \<open>The four numbers of a segment: source and destination address, source and destination port.\<close>

type_synonym tcp_conn = "u32 \<times> u32 \<times> u16 \<times> u16"

definition conn_of :: "tcp_pcb \<Rightarrow> tcp_conn" where
  "conn_of u = (tremote_ip u, tlocal_ip u, tremote_port u, tlocal_port u)"

fun find_conn :: "tcp_conn \<Rightarrow> nat list \<Rightarrow> 'a tcp_scheme \<Rightarrow> nat option option" where
  "find_conn k [] d = Some None"
| "find_conn k (i # is) d = do {
     u \<leftarrow> tcp_mem d i;
     (if conn_of u = k then Some (Some i) else find_conn k is d)
   }"

fun find_listen :: "u32 \<Rightarrow> u16 \<Rightarrow> nat list \<Rightarrow> 'a tcp_scheme \<Rightarrow> nat option option" where
  "find_listen dst port [] d = Some None"
| "find_listen dst port (j # js) d = do {
     l \<leftarrow> listen_mem d j;
     (if (llocal_ip l = 0 \<or> llocal_ip l = dst) \<and> llocal_port l = port then Some (Some j) else find_listen dst port js d)
   }"

text \<open>After the state machine: resets and closed connections, then the callbacks.\<close>

definition tcp_events :: "'a tcp_scheme tcp_calls \<Rightarrow> tcp_in \<Rightarrow> nat \<Rightarrow> 'a tcp_scheme \<Rightarrow> 'a tcp_scheme option" where
  "tcp_events up x i d = do {
     u \<leftarrow> tcp_mem d i;
     (if recv_flags x AND TF_RESET \<noteq> 0
      then do {
        d \<leftarrow> event_err up (errf u) (callback_arg u) ERR_RST d;
        d \<leftarrow> tcp_pcb_remove Active_pcbs i d;
        Some (free_tcp_pcb i d)
      }
      else if recv_flags x AND TF_CLOSED \<noteq> 0
      then do { d \<leftarrow> tcp_pcb_remove Active_pcbs i d; Some (free_tcp_pcb i d) }
      else do {
        (e, d) \<leftarrow> (if 0 < acked u then event_sent up i (acked u) d else Some (ERR_OK, d));
        (e, d) \<leftarrow> (case recv_data x of
                    None \<Rightarrow> Some (e, d)
                  | Some p \<Rightarrow> do {
                      st \<leftarrow> (if in_flags x AND TCP_PSH \<noteq> 0 then upd_pbuf p (\<lambda>b. b\<lparr>flags := flags b OR 1\<rparr>) (pm d) else Some (pm d));
                      (e, d) \<leftarrow> event_recv up i (Some p) ERR_OK (d\<lparr>pm := st\<rparr>);
                      d \<leftarrow> (if e \<noteq> ERR_OK then upd_tcp i (\<lambda>u. u\<lparr>refused_data := Some p\<rparr>) d else Some d);
                      Some (e, d)
                    });
        (e, d) \<leftarrow> (if recv_flags x AND TF_GOT_FIN \<noteq> 0 then event_recv up i None ERR_OK d else Some (e, d));
        (if e = ERR_OK then do { (_, d) \<leftarrow> tcp_output i d; Some d } else Some d)
      })
   }"

text \<open>A segment for a connection; data the application refused earlier comes first.\<close>

definition tcp_conn_input :: "'a tcp_scheme tcp_calls \<Rightarrow> tcp_in \<Rightarrow> addr \<Rightarrow> nat \<Rightarrow> 'a tcp_scheme \<Rightarrow> 'a tcp_scheme option" where
  "tcp_conn_input up x p i d = do {
     u \<leftarrow> tcp_mem d i;
     (e, d) \<leftarrow> (case refused_data u of
                 None \<Rightarrow> Some (ERR_OK, d)
               | Some q \<Rightarrow> do {
                   (e, d) \<leftarrow> event_recv up i (Some q) ERR_OK d;
                   d \<leftarrow> (if e = ERR_OK then upd_tcp i (\<lambda>u. u\<lparr>refused_data := None\<rparr>) d else Some d);
                   Some (e, d)
                 });
     (if e \<noteq> ERR_OK then free_packet p d
      else do {
        (e, x, d) \<leftarrow> tcp_process up x i (d\<lparr>tcp_input_pcb := Some i\<rparr>);
        let d = d\<lparr>tcp_input_pcb := None\<rparr>;
        d \<leftarrow> (if e \<noteq> ERR_ABRT then tcp_events up x i d else Some d);
        (case in_p x of None \<Rightarrow> Some d | Some p \<Rightarrow> free_packet p d)
      })
   }"

definition to_front :: "nat \<Rightarrow> nat list \<Rightarrow> nat list" where
  "to_front i xs = i # remove1 i xs"

definition tcp_demux :: "'a tcp_scheme tcp_calls \<Rightarrow> tcp_in \<Rightarrow> addr \<Rightarrow> tcp_conn \<Rightarrow> 'a tcp_scheme \<Rightarrow> 'a tcp_scheme option" where
  "tcp_demux up x p k d = do {
     a \<leftarrow> find_conn k (tcp_active_pcbs d) d;
     (case a of
        Some i \<Rightarrow> tcp_conn_input up x p i (d\<lparr>tcp_active_pcbs := to_front i (tcp_active_pcbs d)\<rparr>)
      | None \<Rightarrow> do {
          t \<leftarrow> find_conn k (tcp_tw_pcbs d) d;
          (case t of
             Some i \<Rightarrow> do { (_, d) \<leftarrow> tcp_timewait_input x i d; free_packet p d }
           | None \<Rightarrow> do {
               l \<leftarrow> find_listen (fst (snd k)) (snd (snd (snd k))) (tcp_listen_pcbs d) d;
               (case l of
                  Some j \<Rightarrow> do {
                    (_, d) \<leftarrow> tcp_listen_input up x j (d\<lparr>tcp_listen_pcbs := to_front j (tcp_listen_pcbs d)\<rparr>);
                    free_packet p d
                  }
                | None \<Rightarrow> do {
                    f \<leftarrow> hdr_flags (pm d) (in_tcphdr x);
                    d \<leftarrow> (if f AND TCP_RST = 0 then tcp_rst_reply x (in_ackno x) (in_seqno x + ucast (in_tcplen x)) d else Some d);
                    free_packet p d
                  })
             })
        })
   }"

text \<open>The header converted to host order, and the static variables it sets.\<close>

definition tcp_header_in :: "addr \<Rightarrow> ptr \<Rightarrow> ptr \<Rightarrow> pmem \<Rightarrow> (tcp_in \<times> u16 \<times> u16 \<times> pmem) option" where
  "tcp_header_in p iphdr h st = do {
     sport \<leftarrow> ptr_get16 st h 0;
     st \<leftarrow> ptr_put h 0 (bytes_of_u16 (ntohs sport)) st;
     dport \<leftarrow> ptr_get16 st h 2;
     st \<leftarrow> ptr_put h 2 (bytes_of_u16 (ntohs dport)) st;
     seqno \<leftarrow> ptr_get32 st h 4;
     st \<leftarrow> ptr_put h 4 (bytes_of_u32 (ntohl seqno)) st;
     ackno \<leftarrow> ptr_get32 st h 8;
     st \<leftarrow> ptr_put h 8 (bytes_of_u32 (ntohl ackno)) st;
     w \<leftarrow> ptr_get16 st h 14;
     st \<leftarrow> ptr_put h 14 (bytes_of_u16 (ntohs w)) st;
     f \<leftarrow> hdr_flags st h;
     b \<leftarrow> pbufs st p;
     Some (\<lparr>in_len = tot_len b, in_dataptr = payload b, in_p = Some p, in_tcphdr = h, in_iphdr = iphdr,
            in_seqno = ntohl seqno, in_ackno = ntohl ackno, in_flags = f,
            in_tcplen = tot_len b + (if f AND (TCP_FIN OR TCP_SYN) \<noteq> 0 then 1 else 0), recv_flags = 0, recv_data = None\<rparr>,
           ntohs sport, ntohs dport, st)
   }"

definition tcp_input :: "'a tcp_scheme tcp_calls \<Rightarrow> addr \<Rightarrow> 'a tcp_scheme \<Rightarrow> 'a tcp_scheme option" where
  "tcp_input up p d = do {
     b \<leftarrow> pbufs (pm d) p;
     let iphdr = payload b;
     v \<leftarrow> ptr_get16 (pm d) iphdr 0;
     let hlen = int (unat (IPH_HL v)) * 4;
     let h = ptr_add iphdr hlen;
     (e, st) \<leftarrow> pbuf_header (Some p) (- hlen) (pm d);
     let d = d\<lparr>pm := st\<rparr>;
     b \<leftarrow> pbufs (pm d) p;
     (if e \<noteq> 0 \<or> tot_len b < 20 then free_packet p d
      else do {
        dst \<leftarrow> ptr_get32 (pm d) iphdr 16;
        src \<leftarrow> ptr_get32 (pm d) iphdr 12;
        (if ip_addr_isbroadcast dst (nif d) \<noteq> 0 \<or> ip_addr_ismulticast dst then free_packet p d
         else do {
           ch \<leftarrow> payloads (Some p) (pm d);
           (if inet_chksum_pseudo ch src dst IP_PROTO_TCP (tot_len b) \<noteq> 0 then free_packet p d
            else do {
              w \<leftarrow> ptr_get16 (pm d) h 12;
              (e, st) \<leftarrow> pbuf_header (Some p) (- (int (unat (TCPH_HDRLEN w)) * 4)) (pm d);
              (if e \<noteq> 0 then free_packet p (d\<lparr>pm := st\<rparr>)
               else do {
                 (x, sport, dport, st) \<leftarrow> tcp_header_in p iphdr h st;
                 tcp_demux up x p (src, dst, sport, dport) (d\<lparr>pm := st\<rparr>)
               })
            })
         })
      })
   }"

end
