(* ===== verification/Tcp_Tmr.thy ===== *)
theory Tcp_Tmr
  imports Tcp_In
begin

text \<open>
  The timers of \<open>core/tcp.c\<close>.  The loops follow the links of the list while callbacks may change it; a loop
  that comes back to a control block that was freed in between has no result (\<open>None\<close>).
\<close>

definition tcp_backoff :: "nat list" where "tcp_backoff = [1, 2, 3, 4, 5, 6, 7, 7, 7, 7, 7, 7, 7]"
definition tcp_persist_backoff :: "nat list" where "tcp_persist_backoff = [3, 6, 12, 24, 48, 96, 120]"

text \<open>The link of a control block: its successor in the list.\<close>

definition next_pcb :: "nat \<Rightarrow> nat list \<Rightarrow> nat option option" where
  "next_pcb i xs =
     (case dropWhile (\<lambda>x. x \<noteq> i) xs of
        [] \<Rightarrow> None
      | _ # ys \<Rightarrow> Some (case ys of [] \<Rightarrow> None | y # _ \<Rightarrow> Some y))"

subsection \<open>Retransmission\<close>

definition persist_step :: "nat \<Rightarrow> 'a tcp_scheme \<Rightarrow> 'a tcp_scheme option" where
  "persist_step i d = do {
     d \<leftarrow> upd_tcp i (\<lambda>u. u\<lparr>persist_cnt := persist_cnt u + 1\<rparr>) d;
     u \<leftarrow> tcp_mem d i;
     let k = unat (persist_backoff u) - 1;
     (if \<not> k < length tcp_persist_backoff then None
      else if tcp_persist_backoff ! k \<le> unat (persist_cnt u)
      then do {
        d \<leftarrow> upd_tcp i (\<lambda>u. u\<lparr>persist_cnt := 0,
              persist_backoff := (if persist_backoff u < 7 then persist_backoff u + 1 else persist_backoff u)\<rparr>) d;
        tcp_zero_window_probe i d
      }
      else Some d)
   }"

text \<open>The windows and the timer when the retransmission timer has run out.\<close>

definition rto_backoff :: "tcp_pcb \<Rightarrow> tcp_pcb" where
  "rto_backoff u =
     (let t = drop_bit 1 (min (cwnd u) (snd_wnd u))
      in u\<lparr>rto := (if tstate u \<noteq> SYN_SENT then push_bit (tcp_backoff ! unat (nrtx u)) (signed_drop_bit 3 (sa u) + sv u) else rto u),
           rtime := 0, ssthresh := (if t < mss u then mss u * 2 else t), cwnd := mss u\<rparr>)"

definition rto_step :: "nat \<Rightarrow> 'a tcp_scheme \<Rightarrow> 'a tcp_scheme option" where
  "rto_step i d = do {
     d \<leftarrow> upd_tcp i (\<lambda>u. if 0 \<le> sint (rtime u) then u\<lparr>rtime := rtime u + 1\<rparr> else u) d;
     u \<leftarrow> tcp_mem d i;
     (if unacked u \<noteq> [] \<and> sint (rto u) \<le> sint (rtime u)
      then if tstate u \<noteq> SYN_SENT \<and> \<not> unat (nrtx u) < length tcp_backoff then None
           else do { d \<leftarrow> upd_tcp i rto_backoff d; tcp_rexmit_rto i d }
      else Some d)
   }"

subsection \<open>The slow timer\<close>

definition keepalive_step :: "'a tcp_scheme tcp_calls \<Rightarrow> nat \<Rightarrow> 'a tcp_scheme \<Rightarrow> 'a tcp_scheme option" where
  "keepalive_step up i d = do {
     u \<leftarrow> tcp_mem d i;
     (if tso_options u AND 8 \<noteq> 0 \<and> (tstate u = ESTABLISHED \<or> tstate u = CLOSE_WAIT)
      then if (keep_idle u + 675000) div 500 < tcp_ticks d - tmr u then tcp_abort up i d
           else if (keep_idle u + ucast (keep_cnt_sent u) * 75000) div 500 < tcp_ticks d - tmr u
           then do { d \<leftarrow> tcp_keepalive i d; upd_tcp i (\<lambda>u. u\<lparr>keep_cnt_sent := keep_cnt_sent u + 1\<rparr>) d }
           else Some d
      else Some d)
   }"

text \<open>Whether a control block has to go: too many retransmissions, or too long in a state that waits for the peer.\<close>

definition retries_used_up :: "tcp_pcb \<Rightarrow> bool" where
  "retries_used_up u \<longleftrightarrow> tstate u = SYN_SENT \<and> nrtx u = 6 \<or> nrtx u = 12"

definition state_timeout :: "u32 \<Rightarrow> tcp_pcb \<Rightarrow> bool" where
  "state_timeout ticks u \<longleftrightarrow>
     (tstate u = FIN_WAIT_2 \<or> tstate u = SYN_RCVD) \<and> 40 < ticks - tmr u \<or> tstate u = LAST_ACK \<and> 240 < ticks - tmr u"

definition slow_pcb :: "'a tcp_scheme tcp_calls \<Rightarrow> nat \<Rightarrow> 'a tcp_scheme \<Rightarrow> (bool \<times> 'a tcp_scheme) option" where
  "slow_pcb up i d = do {
     u \<leftarrow> tcp_mem d i;
     d \<leftarrow> (if retries_used_up u then Some d else if 0 < persist_backoff u then persist_step i d else rto_step i d);
     d \<leftarrow> keepalive_step up i d;
     v \<leftarrow> tcp_mem d i;
     Some (retries_used_up u \<or> state_timeout (tcp_ticks d) v, d)
   }"

text \<open>The links when \<open>i\<close> leaves the list: from \<open>prev\<close>, or from the head of the list, to its successor.\<close>

definition unlink_pcb :: "nat option \<Rightarrow> nat \<Rightarrow> nat list \<Rightarrow> nat list" where
  "unlink_pcb prev i xs =
     (let rest = tl (dropWhile (\<lambda>x. x \<noteq> i) xs)
      in case prev of None \<Rightarrow> rest | Some q \<Rightarrow> takeWhile (\<lambda>x. x \<noteq> q) xs @ q # rest)"

partial_function (option) slow_active :: "'a tcp_scheme tcp_calls \<Rightarrow> nat option \<Rightarrow> nat option \<Rightarrow> 'a tcp_scheme \<Rightarrow>
    'a tcp_scheme option" where
  "slow_active up prev pcb d =
     (case pcb of
        None \<Rightarrow> Some d
      | Some i \<Rightarrow> do {
          (remove, d) \<leftarrow> slow_pcb up i d;
          (if remove
           then do {
             d \<leftarrow> tcp_pcb_purge i d;
             u \<leftarrow> tcp_mem d i;
             nx \<leftarrow> next_pcb i (tcp_active_pcbs d);
             d \<leftarrow> event_err up (errf u) (callback_arg u) ERR_ABRT
                   (d\<lparr>tcp_active_pcbs := unlink_pcb prev i (tcp_active_pcbs d)\<rparr>);
             slow_active up prev nx (free_tcp_pcb i d)
           }
           else do {
             d \<leftarrow> upd_tcp i (\<lambda>u. u\<lparr>polltmr := polltmr u + 1\<rparr>) d;
             u \<leftarrow> tcp_mem d i;
             d \<leftarrow> (if pollinterval u \<le> polltmr u
                  then do {
                    d \<leftarrow> upd_tcp i (\<lambda>u. u\<lparr>polltmr := 0\<rparr>) d;
                    (e, d) \<leftarrow> event_poll up i d;
                    (if e = ERR_OK then do { (_, d) \<leftarrow> tcp_output i d; Some d } else Some d)
                  }
                  else Some d);
             nx \<leftarrow> next_pcb i (tcp_active_pcbs d);
             slow_active up (Some i) nx d
           })
        })"

fun slow_tw :: "nat list \<Rightarrow> 'a tcp_scheme \<Rightarrow> 'a tcp_scheme option" where
  "slow_tw [] d = Some d"
| "slow_tw (i # is) d = do {
     u \<leftarrow> tcp_mem d i;
     d \<leftarrow> (if 240 < tcp_ticks d - tmr u
          then do {
            d \<leftarrow> tcp_pcb_purge i d;
            Some (free_tcp_pcb i (d\<lparr>tcp_tw_pcbs := remove1 i (tcp_tw_pcbs d)\<rparr>))
          }
          else Some d);
     slow_tw is d
   }"

definition first_pcb :: "nat list \<Rightarrow> nat option" where
  "first_pcb xs = (case xs of [] \<Rightarrow> None | i # _ \<Rightarrow> Some i)"

definition tcp_slowtmr :: "'a tcp_scheme tcp_calls \<Rightarrow> 'a tcp_scheme \<Rightarrow> 'a tcp_scheme option" where
  "tcp_slowtmr up d = do {
     let d = d\<lparr>tcp_ticks := tcp_ticks d + 1\<rparr>;
     d \<leftarrow> slow_active up None (first_pcb (tcp_active_pcbs d)) d;
     slow_tw (tcp_tw_pcbs d) d
   }"

subsection \<open>The fast timer\<close>

definition fast_pcb :: "'a tcp_scheme tcp_calls \<Rightarrow> nat \<Rightarrow> 'a tcp_scheme \<Rightarrow> 'a tcp_scheme option" where
  "fast_pcb up i d = do {
     u \<leftarrow> tcp_mem d i;
     d \<leftarrow> (case refused_data u of
            None \<Rightarrow> Some d
          | Some p \<Rightarrow> do {
              (e, d) \<leftarrow> event_recv up i (Some p) ERR_OK d;
              (if e = ERR_OK then upd_tcp i (\<lambda>u. u\<lparr>refused_data := None\<rparr>) d else Some d)
            });
     u \<leftarrow> tcp_mem d i;
     (if tflags u AND TF_ACK_DELAY \<noteq> 0
      then do {
        d \<leftarrow> tcp_ack_now i d;
        upd_tcp i (\<lambda>u. u\<lparr>tflags := tflags u AND NOT (TF_ACK_DELAY OR TF_ACK_NOW)\<rparr>) d
      }
      else Some d)
   }"

partial_function (option) fast_loop :: "'a tcp_scheme tcp_calls \<Rightarrow> nat option \<Rightarrow> 'a tcp_scheme \<Rightarrow> 'a tcp_scheme option" where
  "fast_loop up pcb d =
     (case pcb of
        None \<Rightarrow> Some d
      | Some i \<Rightarrow> do {
          d \<leftarrow> fast_pcb up i d;
          nx \<leftarrow> next_pcb i (tcp_active_pcbs d);
          fast_loop up nx d
        })"

definition tcp_fasttmr :: "'a tcp_scheme tcp_calls \<Rightarrow> 'a tcp_scheme \<Rightarrow> 'a tcp_scheme option" where
  "tcp_fasttmr up d = fast_loop up (first_pcb (tcp_active_pcbs d)) d"

definition tcp_tmr :: "'a tcp_scheme tcp_calls \<Rightarrow> 'a tcp_scheme \<Rightarrow> 'a tcp_scheme option" where
  "tcp_tmr up d = do {
     d \<leftarrow> tcp_fasttmr up d;
     let d = d\<lparr>tcp_timer := tcp_timer d + 1\<rparr>;
     (if tcp_timer d AND 1 \<noteq> 0 then tcp_slowtmr up d else Some d)
   }"

end
