(* ===== verification/Netconf.thy ===== *)
theory Netconf
  imports Tcp_Tmr
begin

text \<open>
  \<open>core/netif.c\<close> (the interface list), \<open>ExtiDrive/netconf.c\<close>, the interrupt handler of \<open>App/LPC17xx_it.c\<close> and the
  application \<open>App/TCP_server.c\<close>: the UDP echo on port 8888 that \<open>main\<close> starts and the TCP server on port 8080.
  \<open>app\<close> adds the static counter of \<open>netif_add\<close>, the timers of \<open>netconf.c\<close> and the data of the application: the
  globals \<open>pcb\<close>, \<open>flag\<close> and \<open>tcp_echoserver_pcb\<close>, and the structures of the connections of the server, by
  their addresses in the heap of \<open>mem.c\<close>.
\<close>

datatype tcp_echoserver_states = ES_NONE | ES_ACCEPTED | ES_RECEIVED | ES_CLOSING

record tcp_echoserver_struct =
  es_state :: tcp_echoserver_states
  es_pcb :: nat
  es_p :: "addr option"

record app = tcp +
  netifnum :: u8
  TCPTimer :: u32
  ARPTimer :: u32
  echo_pcb :: "nat option"
  flag :: int
  es_mem :: "nat \<rightharpoonup> tcp_echoserver_struct"
  tcp_echoserver_pcb :: "pcb_ref option"

subsection \<open>The interface\<close>

text \<open>
  A new address aborts the connections of the old one, in the order of the links; a link to a control block that
  was freed in between has no result.
\<close>

partial_function (option) abort_bound :: "'a tcp_scheme tcp_calls \<Rightarrow> nat option \<Rightarrow> 'a tcp_scheme \<Rightarrow> 'a tcp_scheme option" where
  "abort_bound up pcb d =
     (case pcb of
        None \<Rightarrow> Some d
      | Some i \<Rightarrow> do {
          u \<leftarrow> tcp_mem d i;
          nx \<leftarrow> next_pcb i (tcp_active_pcbs d);
          d \<leftarrow> (if tlocal_ip u = ip_addr (nif d) then tcp_abort up i d else Some d);
          abort_bound up nx d
        })"

definition rebind_listener :: "u32 \<Rightarrow> u32 \<Rightarrow> tcp_pcb_listen \<Rightarrow> tcp_pcb_listen" where
  "rebind_listener old new l = (if llocal_ip l \<noteq> 0 \<and> llocal_ip l = old then l\<lparr>llocal_ip := new\<rparr> else l)"

definition netif_set_ipaddr :: "'a tcp_scheme tcp_calls \<Rightarrow> u32 \<Rightarrow> 'a tcp_scheme \<Rightarrow> 'a tcp_scheme option" where
  "netif_set_ipaddr up ipaddr d = do {
     d \<leftarrow> (if ipaddr \<noteq> ip_addr (nif d)
          then do {
            d \<leftarrow> abort_bound up (first_pcb (tcp_active_pcbs d)) d;
            (if \<exists>j \<in> set (tcp_listen_pcbs d). listen_mem d j = None then None
             else Some (d\<lparr>listen_mem := (\<lambda>j. if j \<in> set (tcp_listen_pcbs d)
               then map_option (rebind_listener (ip_addr (nif d)) ipaddr) (listen_mem d j) else listen_mem d j)\<rparr>))
          }
          else Some d);
     Some (d\<lparr>nif := (nif d)\<lparr>ip_addr := ip_addr_set (Some ipaddr)\<rparr>\<rparr>)
   }"

definition netif_set_addr :: "'a tcp_scheme tcp_calls \<Rightarrow> u32 \<Rightarrow> u32 option \<Rightarrow> u32 option \<Rightarrow> 'a tcp_scheme \<Rightarrow>
    'a tcp_scheme option" where
  "netif_set_addr up ipaddr nmask gway d = do {
     d \<leftarrow> netif_set_ipaddr up ipaddr d;
     Some (d\<lparr>nif := netif_set_gw gway (netif_set_netmask nmask (nif d))\<rparr>)
   }"

definition netif_add :: "'a app_scheme tcp_calls \<Rightarrow> u32 \<Rightarrow> u32 option \<Rightarrow> u32 option \<Rightarrow> nat option \<Rightarrow>
    ('a app_scheme \<Rightarrow> (err_t \<times> 'a app_scheme) option) \<Rightarrow> netif_fn \<Rightarrow> 'a app_scheme \<Rightarrow> (bool \<times> 'a app_scheme) option" where
  "netif_add up ipaddr nmask gway st init inp d = do {
     let n = (nif d)\<lparr>ip_addr := 0, netmask := 0, gw := 0, nflags := 0, nstate := st, nnum := netifnum d, inputf := Some inp\<rparr>;
     let d = d\<lparr>nif := n, netifnum := netifnum d + 1\<rparr>;
     d \<leftarrow> netif_set_addr up ipaddr nmask gway d;
     (e, d) \<leftarrow> init d;
     Some (if e \<noteq> ERR_OK then (False, d) else (True, d\<lparr>netif_listed := True\<rparr>))
   }"

definition netif_set_default :: "bool \<Rightarrow> 'a ip_scheme \<Rightarrow> 'a ip_scheme" where
  "netif_set_default n d = d\<lparr>netif_is_default := n\<rparr>"

definition netif_remove :: "'a ip_scheme \<Rightarrow> 'a ip_scheme" where
  "netif_remove d =
     (if netif_listed d
      then let d = d\<lparr>netif_listed := False\<rparr> in if netif_is_default d then netif_set_default False d else d
      else d)"

definition netif_find :: "u8 list option \<Rightarrow> 'a ip_scheme \<Rightarrow> bool" where
  "netif_find name d =
     (case name of
        None \<Rightarrow> False
      | Some s \<Rightarrow> netif_listed d \<and> s ! 2 - 0x30 = nnum (nif d) \<and> s ! 0 = fst (nname (nif d)) \<and> s ! 1 = snd (nname (nif d)))"

definition etharp_gratuitous :: "'a arp_scheme \<Rightarrow> (err_t \<times> 'a arp_scheme) option" where
  "etharp_gratuitous d = etharp_request (ip_addr (nif d)) d"

definition netif_set_up :: "'a ip_scheme \<Rightarrow> 'a ip_scheme option" where
  "netif_set_up d =
     (if nflags (nif d) AND NETIF_FLAG_UP = 0
      then do {
        let d = d\<lparr>nif := (nif d)\<lparr>nflags := nflags (nif d) OR NETIF_FLAG_UP\<rparr>\<rparr>;
        (if nflags (nif d) AND NETIF_FLAG_ETHARP \<noteq> 0
         then do { (_, d) \<leftarrow> etharp_gratuitous d; Some d }
         else Some d)
      }
      else Some d)"

subsection \<open>netconf.c\<close>

definition LwIP_Init :: "'a app_scheme tcp_calls \<Rightarrow> 'a app_scheme \<Rightarrow> 'a app_scheme option" where
  "LwIP_Init up d = do {
     let d = d\<lparr>pm := (pm d)\<lparr>heap := mem_init, pools := memp_init\<rparr>\<rparr>;
     (_, d) \<leftarrow> netif_add up (IP4_ADDR 192 1 1 168) (Some (IP4_ADDR 255 255 255 0)) (Some (IP4_ADDR 192 1 1 1)) None
       ethernetif_init Ethernet_input d;
     netif_set_up (netif_set_default True d)
   }"

definition LwIP_Pkt_Handle :: "'a reass_scheme upper \<Rightarrow> 'a reass_scheme \<Rightarrow> 'a reass_scheme option" where
  "LwIP_Pkt_Handle up d = do { (_, d) \<leftarrow> ethernetif_input up d; Some d }"

definition LwIP_Periodic_Handle :: "'a app_scheme tcp_calls \<Rightarrow> u32 \<Rightarrow> 'a app_scheme \<Rightarrow> 'a app_scheme option" where
  "LwIP_Periodic_Handle up localtime d = do {
     d \<leftarrow> (if 250 \<le> localtime - TCPTimer d then tcp_tmr up (d\<lparr>TCPTimer := localtime\<rparr>) else Some d);
     (if 5000 \<le> localtime - ARPTimer d then etharp_tmr (d\<lparr>ARPTimer := localtime\<rparr>) else Some d)
   }"

text \<open>
  The interrupt handler: \<open>statuses\<close> are the successive values of \<open>IntStatus & IntEnable\<close> as the hardware
  presents them, up to the zero that ends the loop.
\<close>

fun ENET_IRQHandler :: "'a reass_scheme upper \<Rightarrow> u32 list \<Rightarrow> 'a reass_scheme \<Rightarrow> 'a reass_scheme option" where
  "ENET_IRQHandler up [] d = Some d"
| "ENET_IRQHandler up (status # statuses) d =
     (if status = 0 then Some d
      else do {
        let d = d\<lparr>mac := wr IntClear status (mac d)\<rparr>;
        d \<leftarrow> (if status AND EMAC_INT_RX_DONE \<noteq> 0 then LwIP_Pkt_Handle up d else Some d);
        ENET_IRQHandler up statuses d
      })"

subsection \<open>The UDP echo\<close>

text \<open>\<open>UDPArr\<close> is the constant \<open>Rom 0\<close>.\<close>

definition zzsend :: "'a app_scheme \<Rightarrow> 'a app_scheme option" where
  "zzsend d = do {
     (p, st) \<leftarrow> pbuf_alloc PBUF_RAW 6 PBUF_RAM (pm d);
     p \<leftarrow> p;
     st \<leftarrow> upd_pbuf p (\<lambda>b. b\<lparr>payload := Some (Rom 0, 0)\<rparr>) st;
     let (u, d) = udp_new (d\<lparr>pm := st\<rparr>);
     u \<leftarrow> u;
     (_, d) \<leftarrow> udp_bind u (Some 0) 8888 d;
     (_, d) \<leftarrow> udp_connect u (Some (IP4_ADDR 192 1 1 115)) 8888 d;
     (_, d) \<leftarrow> udp_send u p d;
     d \<leftarrow> udp_disconnect u d;
     free_packet p (udp_remove u d)
   }"

definition recvsendto :: "nat \<Rightarrow> addr \<Rightarrow> ptr \<Rightarrow> 'a app_scheme \<Rightarrow> 'a app_scheme option" where
  "recvsendto pcb pbuf addr d = do {
     destAddr \<leftarrow> ptr_get32 (pm d) addr 0;
     (_, d) \<leftarrow> udp_sendto pcb pbuf destAddr 8888 d;
     free_packet pbuf d
   }"

definition app_send :: "nat option \<Rightarrow> addr option \<Rightarrow> ptr \<Rightarrow> 'a app_scheme \<Rightarrow> 'a app_scheme option" where
  "app_send pcb pbuf addr d =
     (let d = d\<lparr>flag := flag d + 1\<rparr>
      in case (pcb, pbuf, addr) of
           (None, None, None) \<Rightarrow> if 1 < flag d then zzsend d else Some d
         | (Some u, Some p, Some a) \<Rightarrow> recvsendto u p (Some a) d
         | _ \<Rightarrow> Some d)"

definition udp_echo_recv :: "nat \<Rightarrow> addr option \<Rightarrow> ptr \<Rightarrow> 'a app_scheme \<Rightarrow> 'a app_scheme option" where
  "udp_echo_recv pcb pbuf addr d =
     (if pbuf \<noteq> None then do { d \<leftarrow> app_send (Some pcb) pbuf addr d; Some (d\<lparr>flag := 0\<rparr>) } else Some d)"

definition udp_echo_init :: "'a app_scheme \<Rightarrow> 'a app_scheme option" where
  "udp_echo_init d = do {
     let (u, d) = udp_new d;
     let d = d\<lparr>echo_pcb := u\<rparr>;
     (case u of
        None \<Rightarrow> Some d
      | Some u \<Rightarrow> do {
          (e, d) \<leftarrow> udp_bind u (Some 0) 8888 d;
          (if e \<noteq> ERR_OK then Some d else udp_recv u (Some Udp_echo_recv) None d)
        })
   }"

end
