(* ===== verification/Window.thy ===== *)
theory Window
  imports Netconf
begin

text \<open>
  Received packets that fit one pool pbuf.  \<open>win st p i n A\<close> is the memory \<open>st\<close> with pbuf \<open>p\<close> showing the
  \<open>n\<close> bytes from \<open>i\<close> on of its data area \<open>A\<close>: every header operation of the stack on such a packet moves the
  window or splices bytes into \<open>A\<close>, and these equations let the simplifier run the stack on it.
\<close>

definition win_pbuf :: "addr \<Rightarrow> nat \<Rightarrow> nat \<Rightarrow> pbuf" where
  "win_pbuf p i n = \<lparr>nextp = None, payload = Some (PData p, int i), tot_len = of_nat n, len = of_nat n,
     ptype = PBUF_POOL, flags = 0, ref = 1\<rparr>"

definition win :: "pmem \<Rightarrow> addr \<Rightarrow> nat \<Rightarrow> nat \<Rightarrow> u8 list \<Rightarrow> pmem" where
  "win st p i n A = st\<lparr>pbufs := (pbufs st)(p \<mapsto> win_pbuf p i n), bytes := (bytes st)(PData p \<mapsto> A)\<rparr>"

lemma win_pbuf_simps [simp]:
  "nextp (win_pbuf p i n) = None" "payload (win_pbuf p i n) = Some (PData p, int i)"
  "tot_len (win_pbuf p i n) = of_nat n" "len (win_pbuf p i n) = of_nat n" "ptype (win_pbuf p i n) = PBUF_POOL"
  "ref (win_pbuf p i n) = 1"
  by (simp_all add: win_pbuf_def)

lemma win_simps [simp]:
  "pbufs (win st p i n A) p = Some (win_pbuf p i n)" "bytes (win st p i n A) (PData p) = Some A"
  "heap (win st p i n A) = heap st" "pools (win st p i n A) = pools st"
  by (simp_all add: win_def)

lemma win_payload [simp]: "win (win st p i n A) p j m B = win st p j m B"
  by (simp add: win_def)

lemma win_pbuf_upd [simp]:
  "(win_pbuf p i n)\<lparr>len := of_nat m, tot_len := of_nat m\<rparr> = win_pbuf p i m"
  "(win_pbuf p i n)\<lparr>nextp := None\<rparr> = win_pbuf p i n"
  by (simp_all add: win_pbuf_def)

lemma win_set: "(win st p i n A)\<lparr>pbufs := (pbufs (win st p i n A))(p \<mapsto> win_pbuf p j m)\<rparr> = win st p j m A"
  by (simp add: win_def)

lemma win_put_bytes: "(win st p i n A)\<lparr>bytes := (bytes (win st p i n A))(PData p \<mapsto> B)\<rparr> = win st p i n B"
  by (simp add: win_def)

subsection \<open>Moving the window\<close>

lemma win_header:
  assumes "0 < c" "c \<le> int i" "n + nat c < 65536"
  shows "pbuf_header (Some p) c (win st p i n A) = Some (0, win st p (i - nat c) (n + nat c) A)"
proof -
  obtain k where k: "c = int k" "0 < k" "k \<le> i" using assms by (cases c) auto
  then have i: "int i - c = int (i - k)" by simp
  have "(win_pbuf p i n)\<lparr>payload := Some (PData p, int (i - k)), len := of_nat n + of_nat k, tot_len := of_nat n + of_nat k\<rparr> =
      win_pbuf p (i - k) (n + k)"
    by (simp add: win_pbuf_def)
  then show ?thesis
    using k(2,3) unfolding k(1) pbuf_header_def
    by (simp add: ptr_add_def Let_def i [unfolded k(1)] win_set del: of_nat_diff)
qed

lemma win_header_neg:
  assumes "0 < c" "c \<le> int n" "n < 65536"
  shows "pbuf_header (Some p) (- c) (win st p i n A) = Some (0, win st p (i + nat c) (n - nat c) A)"
proof -
  obtain k where k: "c = int k" "0 < k" "k \<le> n" using assms by (cases c) auto
  have n: "unat (of_nat n :: u16) = n" using assms by (simp add: unat_of_nat_lt)
  have "(win_pbuf p i n)\<lparr>payload := Some (PData p, int i + int k), len := of_nat n - of_nat k, tot_len := of_nat n - of_nat k\<rparr> =
      win_pbuf p (i + k) (n - k)"
    using k(3) by (simp add: win_pbuf_def of_nat_diff)
  then show ?thesis
    using k(2,3) n unfolding k(1) by (simp add: pbuf_header_def ptr_add_def Let_def win_set)
qed

subsection \<open>Reading and writing\<close>

lemma win_read:
  "i + n \<le> length A \<Longrightarrow> read_at (win st p j m A) (Some (PData p, int i)) n = Some (field A i n)"
  by (simp add: read_at_def field_def)

lemma win_write:
  "i + length bs \<le> length A \<Longrightarrow>
   write_at (win st p j m A) (Some (PData p, int i)) bs = Some (win st p j m (splice i bs A))"
  by (auto simp: write_at_def splice_def win_def)

lemma win_get [simp]:
  "i + off + m \<le> length A \<Longrightarrow> get_bytes (win st p i n A) p off m = Some (field A (i + off) m)"
  using win_read [of "i + off" m A] by (simp add: get_bytes_def ptr_add_def)

lemma win_put [simp]:
  "i + off + length bs \<le> length A \<Longrightarrow>
   put_bytes p off bs (win st p i n A) = Some (win st p i n (splice (i + off) bs A))"
  using win_write [of "i + off" bs A] by (simp add: put_bytes_def ptr_add_def)

lemma field_nth: "i + n \<le> length A \<Longrightarrow> j < n \<Longrightarrow> field A i n ! j = A ! (i + j)"
  by (simp add: field_def)

lemma win_get8 [simp]: "i + off < length A \<Longrightarrow> get_u8 (win st p i n A) p off = Some (A ! (i + off))"
  by (simp add: get_u8_def field_nth)

lemma win_get16 [simp]: "i + off + 2 \<le> length A \<Longrightarrow> get_u16 (win st p i n A) p off = Some (field16 A (i + off))"
  by (simp add: get_u16_def field_nth field16_def)

lemma win_get32 [simp]: "i + off + 4 \<le> length A \<Longrightarrow> get_u32 (win st p i n A) p off = Some (field32 A (i + off))"
  by (simp add: get_u32_def field_nth field32_def)

lemma win_ptr_get [simp]:
  "j + off + m \<le> length A \<Longrightarrow> ptr_get (win st p i n A) (Some (PData p, int j)) off m = Some (field A (j + off) m)"
  using win_read [of "j + off" m A] by (simp add: ptr_get_def ptr_add_def)

lemma win_ptr_get16 [simp]:
  "j + off + 2 \<le> length A \<Longrightarrow> ptr_get16 (win st p i n A) (Some (PData p, int j)) off = Some (field16 A (j + off))"
  by (simp add: ptr_get16_def field_nth field16_def)

lemma win_ptr_get32 [simp]:
  "j + off + 4 \<le> length A \<Longrightarrow> ptr_get32 (win st p i n A) (Some (PData p, int j)) off = Some (field32 A (j + off))"
  by (simp add: ptr_get32_def field_nth field32_def)

lemma win_ptr_put [simp]:
  "j + off + length bs \<le> length A \<Longrightarrow>
   ptr_put (Some (PData p, int j)) off bs (win st p i n A) = Some (win st p i n (splice (j + off) bs A))"
  using win_write [of "j + off" bs A] by (simp add: ptr_put_def ptr_add_def)

subsection \<open>The whole packet\<close>

lemma win_packet:
  assumes "i + n \<le> length A" "n < 65536"
  shows "packet (win st p i n A) (Some p) [(p, win_pbuf p i n)]" "owned [(p, win_pbuf p i n)]"
    "packet_bytes (win st p i n A) [(p, win_pbuf p i n)] = field A i n" "lens [(p, win_pbuf p i n)] = n"
  using assms by (simp_all add: pbuf_bytes_def win_read unat_of_nat_lt)

lemma win_payloads: "i + n \<le> length A \<Longrightarrow> n < 65536 \<Longrightarrow> payloads (Some p) (win st p i n A) = Some [field A i n]"
  by (subst payloads.simps) (simp add: win_read unat_of_nat_lt payloads.simps [of None])

lemma win_realloc:
  assumes "m \<le> n" "n < 65536"
  shows "pbuf_realloc p (of_nat m) (win st p i n A) = Some (win st p i m A)"
proof (cases "m = n")
  case True
  then show ?thesis by (simp add: pbuf_realloc_def)
next
  case False
  have u: "unat (of_nat n :: u16) = n" "unat (of_nat m :: u16) = m" using assms by (simp_all add: unat_of_nat_lt)
  then have lt: "(of_nat m :: u16) < of_nat n" using False assms by (simp add: word_less_nat_alt)
  then have w: "realloc_walk (Some p) (of_nat m) g (win st p i n A) = Some (p, of_nat m, win st p i n A)" for g
    by (subst realloc_walk.simps) auto
  show ?thesis
    using lt w by (simp add: pbuf_realloc_def upd_pbuf_def win_set linorder_not_le [symmetric] win_def)
qed

lemma win_free:
  "pbuf_free (Some (PoolA MEMP_PBUF_POOL k)) (win st (PoolA MEMP_PBUF_POOL k) i n A) =
     Some (1, st\<lparr>pbufs := (pbufs st)(PoolA MEMP_PBUF_POOL k := None), bytes := (bytes st)(PData (PoolA MEMP_PBUF_POOL k) \<mapsto> A),
       pools := memp_free MEMP_PBUF_POOL (Some k) (pools st)\<rparr>)"
  by (simp add: pbuf_free_def pbuf_free_loop.simps [of "Some _"] pbuf_free_loop.simps [of None] pbuf_dealloc_def Let_def win_def)

end
