(* ===== verification/Frames.thy ===== *)
theory Frames
  imports Window
begin

text \<open>
  Frames on the wire and what splicing header fields does to them: a spliced field reads back, other
  fields do not change, and a checksum field filled in last makes the header or datagram verify.
\<close>

subsection \<open>Fields of spliced headers\<close>

lemma length_field [simp]: "off + n \<le> length xs \<Longrightarrow> length (field xs off n) = n"
  by (simp add: field_def)

lemma nth_splice: "off + length bs \<le> length xs \<Longrightarrow> j < length xs \<Longrightarrow>
  splice off bs xs ! j = (if j < off \<or> off + length bs \<le> j then xs ! j else bs ! (j - off))"
  by (auto simp: splice_def nth_append min_def)

lemma field_splice_other:
  "j + n \<le> off \<or> off + length bs \<le> j \<Longrightarrow> off + length bs \<le> length xs \<Longrightarrow> field (splice off bs xs) j n = field xs j n"
  by (simp add: field_def take_drop_splice)

lemma field_splice_same: "n = length bs \<Longrightarrow> off + n \<le> length xs \<Longrightarrow> field (splice off bs xs) off n = bs"
  by (simp add: field_def)

lemma field_splice_in:
  assumes "j \<le> off" "off + length bs \<le> j + n" "j + n \<le> length xs"
  shows "field (splice off bs xs) j n = splice (off - j) bs (field xs j n)"
  using assms by (intro nth_equalityI) (auto simp: field_def nth_splice add.commute)

lemma field_field: "a + n \<le> m \<Longrightarrow> field (field xs j m) a n = field xs (j + a) n"
  by (simp add: field_def drop_take min_def add.commute)

lemma field16_splice_other:
  "j + 2 \<le> off \<or> off + length bs \<le> j \<Longrightarrow> off + length bs \<le> length xs \<Longrightarrow> j + 2 \<le> length xs \<Longrightarrow>
   field16 (splice off bs xs) j = field16 xs j"
  by (auto simp: field16_def nth_splice)

lemma field16_splice_same: "off + 2 \<le> length xs \<Longrightarrow> field16 (splice off (bytes_of_u16 w) xs) off = w"
  by (simp add: field16_def nth_splice) (simp add: bytes_of_u16_def)

lemma field32_splice_other:
  "j + 4 \<le> off \<or> off + length bs \<le> j \<Longrightarrow> off + length bs \<le> length xs \<Longrightarrow> j + 4 \<le> length xs \<Longrightarrow>
   field32 (splice off bs xs) j = field32 xs j"
  by (auto simp: field32_def nth_splice)

lemma field32_splice_same: "off + 4 \<le> length xs \<Longrightarrow> field32 (splice off (bytes_of_u32 w) xs) off = w"
  by (simp add: field32_def nth_splice) (simp add: bytes_of_u32_def)

lemma splice_splice: "length bs = length cs \<Longrightarrow> off + length bs \<le> length xs \<Longrightarrow>
  splice off bs (splice off cs xs) = splice off bs xs"
  by (simp add: splice_def)

lemma field_append: "off + n \<le> length xs \<Longrightarrow> field (xs @ ys) off n = field xs off n"
  by (simp add: field_def)

lemma field16_append: "off + 2 \<le> length xs \<Longrightarrow> field16 (xs @ ys) off = field16 xs off"
  by (simp add: field16_def nth_append)

lemma field32_append: "off + 4 \<le> length xs \<Longrightarrow> field32 (xs @ ys) off = field32 xs off"
  by (simp add: field32_def nth_append)

lemma field16_field: "a + 2 \<le> n \<Longrightarrow> j + n \<le> length xs \<Longrightarrow> field16 (field xs j n) a = field16 xs (j + a)"
  by (simp add: field16_def field_def)

subsection \<open>Checksums filled in\<close>

lemma bytes_of_u16_0 [simp]: "bytes_of_u16 0 = [0, 0]"
  by (simp add: bytes_of_u16_def)

lemma chksum_filled:
  assumes "even off" "off + 2 \<le> length xs" "length xs < 65536"
  shows "inet_chksum (splice off (bytes_of_u16 (inet_chksum (splice off [0, 0] xs))) xs) = 0"
  using inet_chksum_fill [of "take off xs" "drop (off + 2) xs"] assms by (simp add: splice_def)

text \<open>\<open>0xffff\<close> in place of a zero checksum verifies too.\<close>

definition udp_sum :: "u16 \<Rightarrow> u16" where
  "udp_sum c = (if c = 0 then 0xffff else c)"

lemma pseudo_filled:
  assumes "even off" "off + 2 \<le> length xs" "length xs + 12 < 65536"
  shows "inet_chksum_pseudo [splice off (bytes_of_u16 (udp_sum (inet_chksum_pseudo [splice off [0, 0] xs] src dst proto n))) xs]
    src dst proto n = 0"
proof -
  let ?h = "pseudo_header src dst proto n"
  define ys zs where "ys = ?h @ take off xs" and "zs = drop (off + 2) xs"
  have l: "even (length ys)" "length ys + length zs + 2 < 65536" using assms by (simp_all add: ys_def zs_def)
  have e: "inet_chksum_pseudo [splice off (bytes_of_u16 w) xs] src dst proto n = inet_chksum (ys @ bytes_of_u16 w @ zs)" for w
    using assms by (subst inet_chksum_pseudo_eq) (simp_all add: splice_def ys_def zs_def)
  have e0: "inet_chksum_pseudo [splice off [0, 0] xs] src dst proto n = inet_chksum (ys @ [0, 0] @ zs)"
    using e [of 0] by simp
  show ?thesis unfolding e0 unfolding e udp_sum_def by (rule inet_chksum_fill [OF l]) simp
qed

end
