(* ===== verification/Ip_Window.thy ===== *)
theory Ip_Window
  imports Frames Etharp_Reply
begin

text \<open>
  The layers below the transport protocols, run on a packet in one pool pbuf: reception, the ARP cache,
  the IP header, transmission.
\<close>

subsection \<open>Driver\<close>

lemma rx_step_keeps_tx [simp]:
  "tx_ok (EMAC_UpdateRxConsumeIndex m) = tx_ok m" "tx_queue (EMAC_UpdateRxConsumeIndex m) = tx_queue m"
  by (simp_all add: EMAC_UpdateRxConsumeIndex_def Let_def wr_def tx_ok_def tx_queue_def tx_pidx_def tx_cidx_def
      tx_slot_def [abs_def])

lemma rx_step_ok: "rx_ok m \<Longrightarrow> rx_queue m \<noteq> [] \<Longrightarrow> rx_ok (EMAC_UpdateRxConsumeIndex m)"
proof -
  assume m: "rx_ok m" "rx_queue m \<noteq> []"
  have "rx_pidx m \<noteq> rx_cidx m"
  proof
    assume "rx_pidx m = rx_cidx m"
    then show False using m(2) by (simp add: rx_queue_def)
  qed
  then show ?thesis by (rule rx.queue_get(1) [OF m(1)])
qed

lemma write_packet_only_tx:
  assumes "EMAC_WritePacketBuffer n g m = Some m'" "tx_ok m"
  obtains b t where "m' = m\<lparr>tx_buf := b, Tx_Desc := t\<rparr>"
proof -
  let ?i = "unat (rd TxProduceIndex m)"
  have "?i < 3" using assms(2) by (simp add: tx_ok_def tx_pidx_def)
  then have p: "Packet (Tx_Desc m ! ?i) = TxBuf ?i" using tx_ok_nth [OF assms(2)] by simp
  have "\<exists>b t. m' = m\<lparr>tx_buf := b, Tx_Desc := t\<rparr>"
    using assms(1) p by (auto simp: EMAC_WritePacketBuffer_def Let_def bind_eq_Some_conv split: if_splits)
  then show ?thesis using that by blast
qed

lemma rx_upd_simps:
  "rx_queue (EMAC_UpdateTxProduceIndex m) = rx_queue m" "rx_ok (EMAC_UpdateTxProduceIndex m) = rx_ok m"
  "rx_queue (m\<lparr>tx_buf := b, Tx_Desc := t\<rparr>) = rx_queue m" "rx_ok (m\<lparr>tx_buf := b, Tx_Desc := t\<rparr>) = rx_ok m"
  by (simp_all add: EMAC_UpdateTxProduceIndex_def Let_def wr_def rx_ok_def rx_queue_def rx_pidx_def rx_cidx_def
      rx_slot_def [abs_def])

lemma ethernet_send_rx:
  assumes "ethernet_send g n m = Some (r, m')" "tx_ok m"
  shows "rx_queue m' = rx_queue m" "rx_ok m' = rx_ok m"
proof -
  have "rx_queue m' = rx_queue m \<and> rx_ok m' = rx_ok m"
    using assms(1) by (auto simp: ethernet_send_def bind_eq_Some_conv Let_def rx_upd_simps split: if_splits
        elim!: write_packet_only_tx [OF _ assms(2)])
  then show "rx_queue m' = rx_queue m" "rx_ok m' = rx_ok m" by simp_all
qed

lemma low_level_output_packet:
  assumes P: "packet (pm d) (Some p) xs" "0 < lens xs" "lens xs \<le> 1536"
    and tx: "tx_ok (mac d)" "length (gTxBuf d) = 1536" "length (tx_queue (mac d)) < 2"
  shows "\<exists>g m. low_level_output (Some p) d = Some (ERR_OK, d\<lparr>gTxBuf := g, mac := m\<rparr>) \<and>
    length g = 1536 \<and> tx_ok m \<and> tx_queue m = tx_queue (mac d) @ [packet_bytes (pm d) xs] \<and> rx_queue m = rx_queue (mac d) \<and>
    rx_ok m = rx_ok (mac d)"
proof -
  obtain d' where d': "low_level_output (Some p) d = Some (ERR_OK, d')"
    "tx_ok (mac d')" "tx_queue (mac d') = tx_queue (mac d) @ [packet_bytes (pm d) xs]"
    using low_level_output_sends_ok [OF P(1) tx(1,2) P(2)] tx(3) P(3) by auto
  then obtain k g r m where o: "output_loop (Some p) 0 (gTxBuf d) (pm d) = Some (k, g)"
    "ethernet_send g (int k) (mac d) = Some (r, m)" "d' = d\<lparr>gTxBuf := g, mac := m\<rparr>"
    by (auto simp: low_level_output_def bind_eq_Some_conv)
  have "length g = 1536"
    using o(1) output_loop_spec [OF P(1), of 0 "gTxBuf d"] packet_bytes_length [OF P(1)] tx(2) P(3)
    by (auto split: if_splits)
  then show ?thesis using d' o ethernet_send_rx [OF o(2) tx(1)] by auto
qed

lemma low_level_output_win:
  assumes d: "pm d = win st p i n A" and A: "i + n \<le> length A" "0 < n" "n \<le> 1536"
    and tx: "tx_ok (mac d)" "length (gTxBuf d) = 1536" "length (tx_queue (mac d)) < 2"
  shows "\<exists>g m. low_level_output (Some p) d = Some (ERR_OK, d\<lparr>gTxBuf := g, mac := m\<rparr>) \<and>
    length g = 1536 \<and> tx_ok m \<and> tx_queue m = tx_queue (mac d) @ [field A i n] \<and> rx_queue m = rx_queue (mac d) \<and>
    rx_ok m = rx_ok (mac d)"
proof -
  have n: "n < 65536" using A(3) by simp
  note P = win_packet [OF A(1) n]
  have "packet (pm d) (Some p) [(p, win_pbuf p i n)]" "0 < lens [(p, win_pbuf p i n)]" "lens [(p, win_pbuf p i n)] \<le> 1536"
    using P A d by auto
  from low_level_output_packet [OF this tx] show ?thesis using P d by simp
qed

lemma input_loop_win:
  assumes "0 < n" "n \<le> length rx" "n \<le> length A" "length rx < 65536"
  shows "input_loop (Some p) 0 rx (win st p 0 n A) = Some (win st p 0 n (splice 0 (take n rx) A))"
proof -
  have n: "unat (of_nat n :: u16) = n" using assms by (simp add: unat_of_nat_lt)
  then show ?thesis
    using assms win_write [of 0 "take n rx" A st p 0 n]
    by (simp add: input_loop.simps [of "Some _"] input_loop.simps [of None] min_absorb2)
qed

text \<open>A frame of at most 1500 bytes arrives in one pool pbuf.\<close>

lemma low_level_input_win:
  assumes rx: "rx_ok (mac d)" "length (gRxBuf d) = 1536" "rx_queue (mac d) = (info, frame) # rest" "frame_good info"
    and n: "n = frame_size info - 3" "0 < n" "n \<le> 1500"
    and pl: "pools (pm d) MEMP_PBUF_POOL = k # ks" "bytes (pm d) (PData (PoolA MEMP_PBUF_POOL k)) = Some A0" "1500 \<le> length A0"
  shows "\<exists>g m A. low_level_input d = Some (Some (PoolA MEMP_PBUF_POOL k),
      d\<lparr>gRxBuf := g, mac := m, pm := win ((pm d)\<lparr>pools := (pools (pm d))(MEMP_PBUF_POOL := ks)\<rparr>) (PoolA MEMP_PBUF_POOL k) 0 n A\<rparr>) \<and>
    length g = 1536 \<and> length A = length A0 \<and> field A 0 n = take n frame \<and>
    rx_queue m = rest \<and> rx_ok m \<and> tx_ok m = tx_ok (mac d) \<and> tx_queue m = tx_queue (mac d)"
proof -
  obtain w g where w: "unat w = n" "length g = 1536" "length frame = 1536" "take n g = take n frame"
    and run: "low_level_input d = do {
        (p, st) \<leftarrow> pbuf_alloc PBUF_RAW w PBUF_POOL (pm d);
        st \<leftarrow> (if p \<noteq> None then input_loop p 0 g st else Some st);
        Some (p, d\<lparr>gRxBuf := g, mac := EMAC_UpdateRxConsumeIndex (mac d), pm := st\<rparr>)
      }"
    using low_level_input_step(2) [OF rx(1,2,3)] rx(4) n(1) by auto
  let ?p = "PoolA MEMP_PBUF_POOL k"
  let ?st = "(pm d)\<lparr>pools := (pools (pm d))(MEMP_PBUF_POOL := ks)\<rparr>"
  have w': "w = of_nat n" using w(1) by (metis of_nat_unat ucast_id)
  have m: "memp_malloc MEMP_PBUF_POOL (pools (pm d)) = (Some k, (pools (pm d))(MEMP_PBUF_POOL := ks))"
    using pl(1) by (simp add: memp_malloc_def)
  have "bytes ?st = (bytes ?st)(PData ?p \<mapsto> A0)" using pl(2) by (simp add: fun_upd_idem)
  then have al: "pbuf_alloc PBUF_RAW w PBUF_POOL (pm d) = Some (Some ?p, win ?st ?p 0 n A0)"
    using m n(3) w(1)
    by (simp add: pbuf_alloc_def Let_def LWIP_MEM_ALIGN_SIZE_def PBUF_POOL_BUFSIZE_ALIGNED_def pool_tail.simps win_def
        win_pbuf_def w')
  have "input_loop (Some ?p) 0 g (win ?st ?p 0 n A0) = Some (win ?st ?p 0 n (splice 0 (take n g) A0))"
    using n pl(3) w by (intro input_loop_win) simp_all
  moreover have "length (splice 0 (take n g) A0) = length A0" "field (splice 0 (take n g) A0) 0 n = take n frame"
    using n pl(3) w by (simp_all add: field_splice_same)
  ultimately show ?thesis
    using run al w(2) low_level_input_step(1) [OF rx(1,2,3)] rx_step_ok [OF rx(1)] rx(3)
    by (intro exI [of _ g] exI [of _ "EMAC_UpdateRxConsumeIndex (mac d)"] exI [of _ "splice 0 (take n g) A0"]) simp
qed

subsection \<open>The ARP cache\<close>

text \<open>A received IP packet from the network confirms the binding of its sender, when there is room.\<close>

lemma etharp_ip_input_win:
  assumes d: "pm d = win st p 0 n A" "30 \<le> length A"
    and arp: "arp_ok d" "\<forall>e \<in> set (arp_table d). equeue e = []" "\<exists>e \<in> set (arp_table d). \<not> live e \<or> eip e = field32 A 26"
    and src: "ip_addr_netcmp (field32 A 26) (ip_addr (nif d)) (netmask (nif d))" "unicast (nif d) (field32 A 26)"
  shows "\<exists>T c. etharp_ip_input p d = Some (d\<lparr>arp_table := T, etharp_cached_entry := c\<rparr>) \<and>
    arp_ok (d\<lparr>arp_table := T, etharp_cached_entry := c\<rparr>) \<and> (\<forall>e \<in> set T. equeue e = []) \<and>
    arp_lookup (d\<lparr>arp_table := T, etharp_cached_entry := c\<rparr>) (field32 A 26) = Some (field A 6 6)"
proof -
  have f: "(0 :: u8) AND ETHARP_FIND_ONLY = 0" by simp
  from update_arp_entry_fresh [OF arp(1,2) f disjI2 [OF arp(3)], of "field A 6 6"] obtain e T c where
    "update_arp_entry (field32 A 26) (field A 6 6) 0 d = Some (e, d\<lparr>arp_table := T, etharp_cached_entry := c\<rparr>)"
    "arp_ok (d\<lparr>arp_table := T, etharp_cached_entry := c\<rparr>)" "\<forall>e \<in> set T. equeue e = []"
    "arp_lookup (d\<lparr>arp_table := T, etharp_cached_entry := c\<rparr>) (field32 A 26) = Some (field A 6 6)"
    using src(2) by blast
  then show ?thesis using d src(1) by (auto simp: etharp_ip_input_def)
qed

text \<open>A packet for a station in the cache goes out at once, behind the Ethernet header for it.\<close>

lemma find_entry_known:
  assumes ok: "arp_ok d" and nq: "\<forall>e \<in> set (arp_table d). equeue e = []" and h: "arp_lookup d ip = Some h"
  shows "\<exists>i c. find_entry (Some ip) flgs d = Some (Some i, d\<lparr>etharp_cached_entry := c\<rparr>) \<and> c < ARP_TABLE_SIZE \<and>
    estate (arp_table d ! i) = ETHARP_STATE_STABLE \<and> eeth (arp_table d ! i) = h"
proof -
  have T: "table_ok (nif d) (arp_table d)" "length (arp_table d) = ARP_TABLE_SIZE"
    using ok by (simp_all add: arp_ok_def table_ok_def)
  obtain e where e: "e \<in> set (arp_table d)" "stable e" "eip e = ip" "eeth e = h"
    using h arp_lookup_Some [OF T(1)] by blast
  have "find_entry (Some ip) flgs d \<noteq> None" using nq T by (intro find_entry_total) simp_all
  then obtain r d1 where d1: "find_entry (Some ip) flgs d = Some (r, d1)" by auto
  note spec = find_entry_spec [OF ok d1]
  have le: "live e" using e(2) by (simp add: live_def)
  then obtain i where i: "r = Some i" "i < ARP_TABLE_SIZE" "live (arp_table d ! i)" "eip (arp_table d ! i) = ip"
    "arp_table d1 = arp_table d" "etharp_cached_entry d1 < ARP_TABLE_SIZE"
    using spec e by (cases r) auto
  obtain j where j: "j < length (arp_table d)" "arp_table d ! j = e" using e(1) by (auto simp: in_set_conv_nth)
  have "i < length (arp_table d)" using i(2) T(2) by simp
  then have "i = j" using T(1) i(3,4) j le e(3) unfolding table_ok_def by blast
  then have s: "estate (arp_table d ! i) = ETHARP_STATE_STABLE" "eeth (arp_table d ! i) = h" using j e by simp_all
  obtain U k where sh: "d1 = d\<lparr>arp_table := U, etharp_cached_entry := k\<rparr>" using find_entry_shape [OF nq T(2) d1] by blast
  then have "U = arp_table d" using i(5) by simp
  then have "d1 = d\<lparr>etharp_cached_entry := k\<rparr>" "k < ARP_TABLE_SIZE" using sh i(6) by simp_all
  then show ?thesis using d1 i(1) s by blast
qed

lemma etharp_output_win:
  assumes d: "pm d = win st p 14 n A" and A: "14 + n \<le> length A" "n \<le> 1522"
    and arp: "arp_ok d" "\<forall>e \<in> set (arp_table d). equeue e = []" "arp_lookup d ip = Some h"
    and ip: "ip_addr_netcmp ip (ip_addr (nif d)) (netmask (nif d))" "unicast (nif d) ip"
    and out: "linkoutput (nif d) = Some Low_level_output" "length (hwaddr (nif d)) = 6" "length h = 6"
    and tx: "tx_ok (mac d)" "length (gTxBuf d) = 1536" "length (tx_queue (mac d)) < 2"
  defines "B \<equiv> splice 0 (h @ hwaddr (nif d) @ bytes_of_u16 (htons ETHTYPE_IP)) A"
  shows "\<exists>c g m. etharp_output p ip d = Some (ERR_OK, d\<lparr>pm := win st p 0 (14 + n) B, etharp_cached_entry := c, gTxBuf := g, mac := m\<rparr>) \<and>
    c < ARP_TABLE_SIZE \<and> length g = 1536 \<and> tx_ok m \<and> tx_queue m = tx_queue (mac d) @ [field B 0 (14 + n)] \<and>
    rx_queue m = rx_queue (mac d) \<and> rx_ok m = rx_ok (mac d)"
proof -
  let ?d = "d\<lparr>pm := win st p 0 (14 + n) A\<rparr>"
  have hdr: "pbuf_header (Some p) 14 (pm d) = Some (0, win st p 0 (14 + n) A)"
    using win_header [of 14 14 n p st A] A d by (simp add: add.commute)
  have arp': "arp_ok ?d" "\<forall>e \<in> set (arp_table ?d). equeue e = []" "arp_lookup ?d ip = Some h"
    using arp by (simp_all add: arp_ok_def arp_lookup_def)
  obtain i c where f: "find_entry (Some ip) ETHARP_TRY_HARD ?d = Some (Some i, ?d\<lparr>etharp_cached_entry := c\<rparr>)"
    "c < ARP_TABLE_SIZE" "estate (arp_table d ! i) = ETHARP_STATE_STABLE" "eeth (arp_table d ! i) = h"
    using find_entry_known [OF arp', of ETHARP_TRY_HARD] by auto
  let ?d2 = "d\<lparr>etharp_cached_entry := c, pm := win st p 0 (14 + n) B\<rparr>"
  have lB: "length B = length A" using A out by (simp add: B_def)
  have lo: "pm ?d2 = win st p 0 (14 + n) B" "0 + (14 + n) \<le> length B" "0 < 14 + n" "14 + n \<le> 1536"
    "tx_ok (mac ?d2)" "length (gTxBuf ?d2) = 1536" "length (tx_queue (mac ?d2)) < 2"
    using A lB tx by simp_all
  obtain g m where o: "low_level_output (Some p) ?d2 = Some (ERR_OK, ?d2\<lparr>gTxBuf := g, mac := m\<rparr>)"
    "length g = 1536" "tx_ok m" "tx_queue m = tx_queue (mac d) @ [field B 0 (14 + n)]" "rx_queue m = rx_queue (mac d)"
    "rx_ok m = rx_ok (mac d)"
    using low_level_output_win [OF lo] by auto
  have "put_bytes p 0 (h @ hwaddr (nif d) @ bytes_of_u16 (htons ETHTYPE_IP)) (win st p 0 (14 + n) A) = Some (win st p 0 (14 + n) B)"
    using A out by (simp add: B_def)
  then have s: "etharp_send_ip p (hwaddr (nif d)) h (?d\<lparr>etharp_cached_entry := c\<rparr>) = Some (ERR_OK, ?d2\<lparr>gTxBuf := g, mac := m\<rparr>)"
    using o(1) out(1) by (simp add: etharp_send_ip_def link_output_def)
  have q: "query_entry i ip (Some p) (?d\<lparr>etharp_cached_entry := c\<rparr>) = Some (ERR_OK, ?d2\<lparr>gTxBuf := g, mac := m\<rparr>)"
    using s f(3,4) by (simp add: query_entry_def Let_def)
  have "etharp_query ip (Some p) ?d = Some (ERR_OK, ?d2\<lparr>gTxBuf := g, mac := m\<rparr>)"
    using ip(2) f(1) q by (simp add: etharp_query_def unicast_def)
  then have "etharp_output p ip d = Some (ERR_OK, ?d2\<lparr>gTxBuf := g, mac := m\<rparr>)"
    using hdr ip by (simp add: etharp_output_def Let_def unicast_def)
  then show ?thesis
    using f(2) o by (intro exI [of _ c] exI [of _ g] exI [of _ m]) simp
qed

subsection \<open>The IP header\<close>

lemma ttl_proto_set: "IPH_PROTO_SET proto (IPH_TTL_SET tt tp) = htons (ucast proto OR push_bit 8 (ucast tt))"
proof -
  have "drop_bit 8 (IPH_PROTO tp OR push_bit 8 (ucast tt)) = (ucast tt :: u16)"
    by (rule bit_word_eqI) (auto simp: IPH_PROTO_def bit_simps and_mask_take_bit dest: bit_imp_le_length)
  then show ?thesis by (simp add: IPH_PROTO_SET_def IPH_TTL_SET_def)
qed

definition ip_hdr_ok :: "u8 list \<Rightarrow> u32 \<Rightarrow> u32 \<Rightarrow> u8 \<Rightarrow> u8 \<Rightarrow> u8 \<Rightarrow> u16 \<Rightarrow> nat \<Rightarrow> bool" where
  "ip_hdr_ok B src dst tt ts proto ident n \<longleftrightarrow>
     field16 B 14 = IPH_VHLTOS_SET 4 5 (ucast ts) \<and> field16 B 16 = htons (of_nat n) \<and> field16 B 18 = htons ident \<and>
     field16 B 20 = 0 \<and> field16 B 22 = htons (ucast proto OR push_bit 8 (ucast tt)) \<and> field32 B 26 = src \<and>
     field32 B 30 = dst \<and> inet_chksum (field B 14 20) = 0"

lemma hdr_chksum_filled:
  assumes "34 \<le> length D" and C: "C = splice 24 [0, 0] D"
  shows "inet_chksum (field (splice 24 (bytes_of_u16 (inet_chksum (field C 14 20))) C) 14 20) = 0"
proof -
  have f: "field (splice 24 bs C) 14 20 = splice 10 bs (field D 14 20)" if "length bs = 2" for bs
    using assms that by (simp add: field_splice_in splice_splice)
  have g: "field C 14 20 = splice 10 [0, 0] (field D 14 20)"
    using assms by (simp add: field_splice_in)
  show ?thesis
    using chksum_filled [of 10 "field D 14 20"] assms(1) by (simp add: f g)
qed

lemma ip_header_win:
  assumes "pm d = win st p 14 n A" "34 \<le> length A" "src \<noteq> 0"
  shows "\<exists>B. ip_header p (Some src) dest tt ts proto d = Some (d\<lparr>pm := win st p 14 n B, ip_id := ip_id d + 1\<rparr>) \<and>
    length B = length A \<and> (\<forall>j m. j + m \<le> 14 \<or> 34 \<le> j \<longrightarrow> field B j m = field A j m) \<and>
    ip_hdr_ok B src dest tt ts proto (ip_id d) n"
proof -
  let ?D = "splice 26 (bytes_of_u32 src) (splice 18 (bytes_of_u16 (htons (ip_id d))) (splice 20 [0, 0]
    (splice 16 (bytes_of_u16 (htons (of_nat n))) (splice 14 (bytes_of_u16 (IPH_VHLTOS_SET 4 5 (ucast ts)))
    (splice 30 (bytes_of_u32 dest) (splice 22 (bytes_of_u16 (htons (ucast proto OR push_bit 8 (ucast tt)))) A))))))"
  let ?C = "splice 24 [0, 0] ?D"
  let ?B = "splice 24 (bytes_of_u16 (inet_chksum (field ?C 14 20))) ?C"
  have run: "ip_header p (Some src) dest tt ts proto d = Some (d\<lparr>pm := win st p 14 n ?B, ip_id := ip_id d + 1\<rparr>)"
    using assms by (simp add: ip_header_def Let_def ttl_proto_set ip_addr_isany_def)
  have l: "length ?B = length A" using assms(2) by simp
  have o: "\<forall>j m. j + m \<le> 14 \<or> 34 \<le> j \<longrightarrow> field ?B j m = field A j m"
    using assms(2) by (auto simp: field_splice_other)
  have c: "inet_chksum (field ?B 14 20) = 0"
    using assms(2) by (intro hdr_chksum_filled [OF _ refl]) simp
  have "ip_hdr_ok ?B src dest tt ts proto (ip_id d) n"
    unfolding ip_hdr_ok_def using assms(2) c
    by (simp add: field16_splice_other field16_splice_same field32_splice_other field32_splice_same
        field16_splice_same [of 20 _ 0, simplified])
  with run l o show ?thesis by blast
qed

subsection \<open>Sending\<close>

text \<open>
  \<open>ready d ip h\<close>: the station \<open>ip\<close> of the local network is in the cache with address \<open>h\<close>, no packet waits for
  an address, the interface is configured as \<open>ethernetif_init\<close> does and the transmit ring has room.
\<close>

definition ready :: "'a arp_scheme \<Rightarrow> u32 \<Rightarrow> u8 list \<Rightarrow> bool" where
  "ready d ip h \<longleftrightarrow> arp_ok d \<and> (\<forall>e \<in> set (arp_table d). equeue e = []) \<and> arp_lookup d ip = Some h \<and> length h = 6 \<and>
     ip_addr_netcmp ip (ip_addr (nif d)) (netmask (nif d)) \<and> unicast (nif d) ip \<and> length (hwaddr (nif d)) = 6 \<and>
     outputf (nif d) = Some Etharp_output \<and> linkoutput (nif d) = Some Low_level_output \<and> mtu (nif d) = 1536 \<and>
     tx_ok (mac d) \<and> length (gTxBuf d) = 1536 \<and> length (tx_queue (mac d)) < 2"

lemma ready_pm [simp]: "ready (d\<lparr>pm := st\<rparr>) ip h = ready d ip h" "ready (d\<lparr>ip_id := n\<rparr>) ip h = ready d ip h" for d :: "'a ip_scheme"
  by (simp_all add: ready_def arp_ok_def arp_lookup_def)

text \<open>The Ethernet header in front of what was there.\<close>

definition eth_hdr_ok :: "u8 list \<Rightarrow> u8 list \<Rightarrow> u8 list \<Rightarrow> bool" where
  "eth_hdr_ok B dst src \<longleftrightarrow> field B 0 6 = dst \<and> field B 6 6 = src \<and> field16 B 12 = htons ETHTYPE_IP"

lemma eth_hdr_splice:
  assumes "length dst = 6" "length src = 6" "14 \<le> length A"
  shows "eth_hdr_ok (splice 0 (dst @ src @ bytes_of_u16 (htons ETHTYPE_IP)) A) dst src"
proof -
  obtain a1 a2 a3 a4 a5 a6 where "dst = [a1, a2, a3, a4, a5, a6]" using list6 [OF assms(1)] by auto
  moreover obtain b1 b2 b3 b4 b5 b6 where "src = [b1, b2, b3, b4, b5, b6]" using list6 [OF assms(2)] by auto
  ultimately show ?thesis
    by (simp add: eth_hdr_ok_def splice_def field_def field16_def bytes_of_u16_def)
qed

lemma ip_hdr_ok_splice:
  assumes "off + length bs \<le> 14 \<or> 34 \<le> off" "off + length bs \<le> length A" "34 \<le> length A"
  shows "ip_hdr_ok (splice off bs A) = ip_hdr_ok A"
  using assms by (intro ext) (auto simp: ip_hdr_ok_def field16_splice_other field32_splice_other field_splice_other)

text \<open>An IP packet in the window handed to the network.\<close>

lemma ip_send_win:
  assumes d: "pm d = win st p 14 n A" and A: "14 + n \<le> length A" "n \<le> 1522" "34 \<le> length A" and r: "ready d ip h"
  shows "\<exists>B c g m. ip_send p ip d = Some (ERR_OK, d\<lparr>pm := win st p 0 (14 + n) B, etharp_cached_entry := c, gTxBuf := g, mac := m\<rparr>) \<and>
    c < ARP_TABLE_SIZE \<and> length B = length A \<and> eth_hdr_ok B h (hwaddr (nif d)) \<and> ip_hdr_ok B = ip_hdr_ok A \<and>
    (\<forall>j k. 14 \<le> j \<longrightarrow> field B j k = field A j k) \<and> length g = 1536 \<and> tx_ok m \<and>
    tx_queue m = tx_queue (mac d) @ [field B 0 (14 + n)] \<and> rx_queue m = rx_queue (mac d) \<and> rx_ok m = rx_ok (mac d)"
proof -
  let ?B = "splice 0 (h @ hwaddr (nif d) @ bytes_of_u16 (htons ETHTYPE_IP)) A"
  obtain c g m where o: "etharp_output p ip d = Some (ERR_OK, d\<lparr>pm := win st p 0 (14 + n) ?B, etharp_cached_entry := c, gTxBuf := g, mac := m\<rparr>)"
    "c < ARP_TABLE_SIZE" "length g = 1536" "tx_ok m" "tx_queue m = tx_queue (mac d) @ [field ?B 0 (14 + n)]"
    "rx_queue m = rx_queue (mac d)" "rx_ok m = rx_ok (mac d)"
    using etharp_output_win [OF d A(1,2), of ip h] r unfolding ready_def by blast
  have n: "unat (of_nat n :: u16) = n" using A(2) by (simp add: unat_of_nat_lt)
  have "\<not> (1536 :: u16) < of_nat n" using A(2) n by (simp add: word_less_nat_alt)
  then have "ip_send p ip d = etharp_output p ip d"
    using r d by (simp add: ip_send_def netif_output_def ready_def)
  note run = trans [OF this o(1)]
  have "length ?B = length A" "eth_hdr_ok ?B h (hwaddr (nif d))" "ip_hdr_ok ?B = ip_hdr_ok A"
    "\<forall>j k. 14 \<le> j \<longrightarrow> field ?B j k = field A j k"
    using r A(3) by (auto simp: ready_def eth_hdr_splice ip_hdr_ok_splice field_splice_other)
  with run o(2-) show ?thesis
    by - (rule exI [of _ ?B], rule exI [of _ c], rule exI [of _ g], rule exI [of _ m], intro conjI)
qed

lemma ip_output_if_win:
  assumes d: "pm d = win st p 34 n A" and A: "34 + n \<le> length A" "n \<le> 1502" and src: "src \<noteq> 0" and r: "ready d dst h"
  shows "\<exists>B c g m. ip_output_if p (Some src) (Some dst) tt ts proto d =
      Some (ERR_OK, d\<lparr>pm := win st p 0 (34 + n) B, ip_id := ip_id d + 1, etharp_cached_entry := c, gTxBuf := g, mac := m\<rparr>) \<and>
    c < ARP_TABLE_SIZE \<and> length B = length A \<and> eth_hdr_ok B h (hwaddr (nif d)) \<and>
    ip_hdr_ok B src dst tt ts proto (ip_id d) (20 + n) \<and>
    (\<forall>j k. 34 \<le> j \<longrightarrow> field B j k = field A j k) \<and> length g = 1536 \<and> tx_ok m \<and>
    tx_queue m = tx_queue (mac d) @ [field B 0 (34 + n)] \<and> rx_queue m = rx_queue (mac d) \<and> rx_ok m = rx_ok (mac d)"
proof -
  have h: "pbuf_header (Some p) 20 (pm d) = Some (0, win st p 14 (20 + n) A)"
    using win_header [of 20 34 n p st A] d A by (simp add: add.commute)
  let ?d = "d\<lparr>pm := win st p 14 (20 + n) A\<rparr>"
  have p: "pm ?d = win st p 14 (20 + n) A" "34 \<le> length A" using A by simp_all
  obtain C where C: "ip_header p (Some src) dst tt ts proto ?d = Some (?d\<lparr>pm := win st p 14 (20 + n) C, ip_id := ip_id ?d + 1\<rparr>)"
    "length C = length A" "\<forall>j m. j + m \<le> 14 \<or> 34 \<le> j \<longrightarrow> field C j m = field A j m"
    "ip_hdr_ok C src dst tt ts proto (ip_id ?d) (20 + n)"
    using ip_header_win [OF p src, of dst tt ts proto] by blast
  let ?e = "d\<lparr>pm := win st p 14 (20 + n) C, ip_id := ip_id d + 1\<rparr>"
  have "pm ?e = win st p 14 (20 + n) C" "14 + (20 + n) \<le> length C" "20 + n \<le> 1522" "34 \<le> length C" "ready ?e dst h"
    using A C(2) r by simp_all
  from ip_send_win [OF this] obtain B c g m where B:
    "ip_send p dst ?e = Some (ERR_OK, ?e\<lparr>pm := win st p 0 (14 + (20 + n)) B, etharp_cached_entry := c, gTxBuf := g, mac := m\<rparr>)"
    "c < ARP_TABLE_SIZE" "length B = length C" "eth_hdr_ok B h (hwaddr (nif ?e))" "ip_hdr_ok B = ip_hdr_ok C"
    "\<forall>j k. 14 \<le> j \<longrightarrow> field B j k = field C j k" "length g = 1536" "tx_ok m"
    "tx_queue m = tx_queue (mac ?e) @ [field B 0 (14 + (20 + n))]" "rx_queue m = rx_queue (mac ?e)" "rx_ok m = rx_ok (mac ?e)"
    by blast
  have "ip_output_if p (Some src) (Some dst) tt ts proto d =
      Some (ERR_OK, d\<lparr>pm := win st p 0 (34 + n) B, ip_id := ip_id d + 1, etharp_cached_entry := c, gTxBuf := g, mac := m\<rparr>)"
    using h C(1) B(1) by (simp add: ip_output_if_def)
  then show ?thesis using B C by (intro exI [of _ B] exI [of _ c] exI [of _ g] exI [of _ m]) simp
qed

end
