(* ===== verification/Tcp_Server.thy ===== *)
theory Tcp_Server
  imports Netconf
begin

text \<open>
  The TCP server of \<open>App/TCP_server.c\<close>: it accepts connections on port 8080, answers the first data of a
  connection with a web page when it starts with \<open>GET /\<close> and with the data itself otherwise, and closes.  The
  structure of a connection is a block of the heap and is found at its address.  \<open>app_upper\<close> and \<open>app_calls\<close> are
  the callbacks of the image, for the stack below.
\<close>

definition chars :: "string \<Rightarrow> u8 list" where
  "chars s = map (\<lambda>c. of_nat (of_char c)) s"

text \<open>The page, \<open>WebSide\<close> of \<open>webpage.h\<close>, with the byte 0 at its end; in memory it is the array \<open>Ext 1\<close>.\<close>

definition crlf :: "u8 list" where "crlf = [13, 10]"

definition WebSide :: "u8 list" where
  "WebSide =
     chars ''<html>'' @ crlf @ chars ''<body>'' @ crlf @ chars ''<h1> LPC1768 Lwip</h1>'' @ crlf @
     chars ''<h6> IP:192.168.17.148 </h61>'' @ crlf @ chars ''<h6> 2015-05-05 </h6>'' @ crlf @
     chars ''<h6> MAX485:115200 </h6>'' @ crlf @ chars ''<p> 1 2 3 4 5 6 7 8 9 0 '' @
     [0xd2, 0xbb, 0xb6, 0xfe, 0xc8, 0xfd, 0xcb, 0xc4, 0xce, 0xe5, 0xc1, 0xf9, 0xc6, 0xdf, 0xb0, 0xcb, 0xbe, 0xc5, 0xca, 0xae] @
     chars ''</p>'' @ crlf @ chars ''</body>'' @ crlf @ chars ''</html>'' @ crlf @ [0]"

subsection \<open>Connections\<close>

definition upd_es :: "nat \<Rightarrow> (tcp_echoserver_struct \<Rightarrow> tcp_echoserver_struct) \<Rightarrow> 'a app_scheme \<Rightarrow> 'a app_scheme option" where
  "upd_es a f d = map_option (\<lambda>es. d\<lparr>es_mem := (es_mem d)(a \<mapsto> f es)\<rparr>) (es_mem d a)"

definition free_es :: "nat \<Rightarrow> 'a app_scheme \<Rightarrow> 'a app_scheme option" where
  "free_es a d = do {
     h \<leftarrow> mem_free (Some (int a)) (heap (pm d));
     Some (d\<lparr>es_mem := (es_mem d)(a := None), pm := (pm d)\<lparr>heap := h\<rparr>\<rparr>)
   }"

definition tcp_echoserver_connection_close :: "nat \<Rightarrow> nat option \<Rightarrow> 'a app_scheme \<Rightarrow> 'a app_scheme option" where
  "tcp_echoserver_connection_close i es d = do {
     d \<leftarrow> tcp_arg (Pcb i) None d;
     d \<leftarrow> tcp_sent i None d;
     d \<leftarrow> tcp_recv i None d;
     d \<leftarrow> tcp_err i None d;
     d \<leftarrow> tcp_poll i None 0 d;
     d \<leftarrow> (case es of None \<Rightarrow> Some d | Some a \<Rightarrow> free_es a d);
     (_, d) \<leftarrow> tcp_close (Pcb i) d;
     Some d
   }"

text \<open>The pbufs of the chain \<open>es_p\<close> go to TCP one by one, as long as the send buffer takes them.\<close>

partial_function (option) tcp_echoserver_send :: "nat \<Rightarrow> nat \<Rightarrow> 'a app_scheme \<Rightarrow> 'a app_scheme option" where
  "tcp_echoserver_send i a d =
     (case es_mem d a of
        None \<Rightarrow> None
      | Some es \<Rightarrow>
          (case es_p es of
             None \<Rightarrow> Some d
           | Some p \<Rightarrow> do {
               b \<leftarrow> pbufs (pm d) p;
               u \<leftarrow> tcp_mem d i;
               (if len b \<le> snd_buf u
                then do {
                  (e, d) \<leftarrow> tcp_write i (payload b) (len b) TCP_WRITE_FLAG_COPY d;
                  (if e = ERR_OK
                   then do {
                     b \<leftarrow> pbufs (pm d) p;
                     d \<leftarrow> upd_es a (\<lambda>es. es\<lparr>es_p := nextp b\<rparr>) d;
                     st \<leftarrow> pbuf_ref (nextp b) (pm d);
                     (_, st) \<leftarrow> pbuf_free (Some p) st;
                     d \<leftarrow> tcp_recved i (len b) (d\<lparr>pm := st\<rparr>);
                     tcp_echoserver_send i a d
                   }
                   else Some d)
                }
                else Some d)
             }))"

definition tcp_echoserver_sent :: "nat option \<Rightarrow> nat \<Rightarrow> u16 \<Rightarrow> 'a app_scheme \<Rightarrow> (err_t \<times> 'a app_scheme) option" where
  "tcp_echoserver_sent arg i n d = do {
     a \<leftarrow> arg;
     es \<leftarrow> es_mem d a;
     d \<leftarrow> (if es_p es \<noteq> None then tcp_echoserver_send i a d
          else if es_state es = ES_CLOSING then tcp_echoserver_connection_close i (Some a) d
          else Some d);
     Some (ERR_OK, d)
   }"

subsection \<open>Receiving\<close>

text \<open>\<open>strncmp(data, s, strlen(s)) == 0\<close> reads up to the first difference.\<close>

fun starts_with :: "pmem \<Rightarrow> ptr \<Rightarrow> u8 list \<Rightarrow> bool option" where
  "starts_with st data [] = Some True"
| "starts_with st data (c # cs) = do {
     x \<leftarrow> ptr_get8 st data 0;
     (if x = c then starts_with st (ptr_add data 1) cs else Some False)
   }"

definition es_closed :: "nat \<Rightarrow> nat \<Rightarrow> 'a app_scheme \<Rightarrow> 'a app_scheme option" where
  "es_closed i a d = do {
     d \<leftarrow> upd_es a (\<lambda>es. es\<lparr>es_state := ES_CLOSING\<rparr>) d;
     es \<leftarrow> es_mem d a;
     (if es_p es = None then tcp_echoserver_connection_close i (Some a) d
      else do { d \<leftarrow> tcp_sent i (Some Tcp_echoserver_sent) d; tcp_echoserver_send i a d })
   }"

text \<open>The first data of a connection.\<close>

definition es_first :: "nat \<Rightarrow> nat \<Rightarrow> addr \<Rightarrow> 'a app_scheme \<Rightarrow> 'a app_scheme option" where
  "es_first i a p d = do {
     d \<leftarrow> upd_es a (\<lambda>es. es\<lparr>es_state := ES_RECEIVED, es_p := Some p\<rparr>) d;
     b \<leftarrow> pbufs (pm d) p;
     get \<leftarrow> starts_with (pm d) (payload b) (chars ''GET /'');
     st \<leftarrow> (if get then upd_pbuf p (\<lambda>b. b\<lparr>payload := Some (Ext 1, 0), len := of_nat (length WebSide)\<rparr>) (pm d) else Some (pm d));
     d \<leftarrow> tcp_sent i (Some Tcp_echoserver_sent) (d\<lparr>pm := st\<rparr>);
     d \<leftarrow> tcp_echoserver_send i a d;
     tcp_echoserver_connection_close i (Some a) d
   }"

definition tcp_echoserver_recv :: "nat option \<Rightarrow> nat \<Rightarrow> addr option \<Rightarrow> err_t \<Rightarrow> 'a app_scheme \<Rightarrow> (err_t \<times> 'a app_scheme) option" where
  "tcp_echoserver_recv arg i p e d = do {
     a \<leftarrow> arg;
     es \<leftarrow> es_mem d a;
     (case p of
        None \<Rightarrow> do { d \<leftarrow> es_closed i a d; Some (ERR_OK, d) }
      | Some p \<Rightarrow>
          if e \<noteq> ERR_OK
          then do { d \<leftarrow> upd_es a (\<lambda>es. es\<lparr>es_p := None\<rparr>) d; d \<leftarrow> free_packet p d; Some (e, d) }
          else if es_state es = ES_ACCEPTED then do { d \<leftarrow> es_first i a p d; Some (ERR_OK, d) }
          else if es_state es = ES_RECEIVED
          then (case es_p es of
                  None \<Rightarrow> do {
                    d \<leftarrow> upd_es a (\<lambda>es. es\<lparr>es_p := Some p\<rparr>) d;
                    d \<leftarrow> tcp_echoserver_send i a d;
                    Some (ERR_OK, d)
                  }
                | Some q \<Rightarrow> do { st \<leftarrow> pbuf_chain (Some q) (Some p) (pm d); Some (ERR_OK, d\<lparr>pm := st\<rparr>) })
          else do {
            b \<leftarrow> pbufs (pm d) p;
            d \<leftarrow> tcp_recved i (tot_len b) d;
            d \<leftarrow> upd_es a (\<lambda>es. es\<lparr>es_p := None\<rparr>) d;
            d \<leftarrow> free_packet p d;
            Some (ERR_OK, d)
          })
   }"

subsection \<open>Accepting, errors, polling\<close>

definition tcp_echoserver_accept :: "nat option \<Rightarrow> nat \<Rightarrow> err_t \<Rightarrow> 'a app_scheme \<Rightarrow> (err_t \<times> 'a app_scheme) option" where
  "tcp_echoserver_accept arg i e d = do {
     d \<leftarrow> tcp_setprio (Pcb i) 1 d;
     (a, h) \<leftarrow> mem_malloc 12 (heap (pm d));
     let d = d\<lparr>pm := (pm d)\<lparr>heap := h\<rparr>\<rparr>;
     (case a of
        None \<Rightarrow> Some (ERR_MEM, d)
      | Some a \<Rightarrow> do {
          let d = d\<lparr>es_mem := (es_mem d)(a \<mapsto> \<lparr>es_state = ES_ACCEPTED, es_pcb = i, es_p = None\<rparr>)\<rparr>;
          d \<leftarrow> tcp_arg (Pcb i) (Some a) d;
          d \<leftarrow> tcp_recv i (Some Tcp_echoserver_recv) d;
          d \<leftarrow> tcp_err i (Some Tcp_echoserver_error) d;
          d \<leftarrow> tcp_poll i (Some Tcp_echoserver_poll) 1 d;
          Some (ERR_OK, d)
        })
   }"

definition tcp_echoserver_error :: "nat option \<Rightarrow> err_t \<Rightarrow> 'a app_scheme \<Rightarrow> 'a app_scheme option" where
  "tcp_echoserver_error arg e d = (case arg of None \<Rightarrow> Some d | Some a \<Rightarrow> free_es a d)"

text \<open>The callbacks of the image; the others belong to servers that are not linked.\<close>

definition app_err :: "tcp_err_fn \<Rightarrow> nat option \<Rightarrow> err_t \<Rightarrow> 'a app_scheme \<Rightarrow> 'a app_scheme option" where
  "app_err f arg e d = (if f = Tcp_echoserver_error then tcp_echoserver_error arg e d else None)"

text \<open>\<open>tcp_abort\<close>, which the poll callback calls, calls no callback but the one for errors.\<close>

definition err_calls :: "'a app_scheme tcp_calls" where
  "err_calls = \<lparr>accept_up = (\<lambda>_ _ _ _ _. None), recv_up = (\<lambda>_ _ _ _ _ _. None), sent_up = (\<lambda>_ _ _ _ _. None),
     poll_up = (\<lambda>_ _ _ _. None), err_up = app_err, connected_up = (\<lambda>_ _ _ _ _. None)\<rparr>"

definition tcp_echoserver_poll :: "nat option \<Rightarrow> nat \<Rightarrow> 'a app_scheme \<Rightarrow> (err_t \<times> 'a app_scheme) option" where
  "tcp_echoserver_poll arg i d =
     (case arg of
        None \<Rightarrow> do { d \<leftarrow> tcp_abort err_calls i d; Some (ERR_ABRT, d) }
      | Some a \<Rightarrow> do {
          es \<leftarrow> es_mem d a;
          d \<leftarrow> (if es_p es \<noteq> None then tcp_echoserver_send i a d
               else if es_state es = ES_CLOSING then tcp_echoserver_connection_close i (Some a) d
               else Some d);
          Some (ERR_OK, d)
        })"

definition app_calls :: "'a app_scheme tcp_calls" where
  "app_calls = \<lparr>
     accept_up = (\<lambda>f arg i e d. if f = Tcp_echoserver_accept then tcp_echoserver_accept arg i e d else None),
     recv_up = (\<lambda>f arg i p e d. if f = Tcp_echoserver_recv then tcp_echoserver_recv arg i p e d else None),
     sent_up = (\<lambda>f arg i n d. if f = Tcp_echoserver_sent then tcp_echoserver_sent arg i n d else None),
     poll_up = (\<lambda>f arg i d. if f = Tcp_echoserver_poll then tcp_echoserver_poll arg i d else None),
     err_up = app_err,
     connected_up = (\<lambda>_ _ _ _ _. None)\<rparr>"

definition tcp_echoserver_init :: "'a app_scheme \<Rightarrow> 'a app_scheme option" where
  "tcp_echoserver_init d = do {
     (i, d) \<leftarrow> tcp_new app_calls d;
     let d = d\<lparr>tcp_echoserver_pcb := map_option Pcb i\<rparr>;
     (case i of
        None \<Rightarrow> Some d
      | Some i \<Rightarrow> do {
          (e, d) \<leftarrow> tcp_bind i (Some 0) 8080 d;
          (if e \<noteq> ERR_OK then Some d
           else do {
             (l, d) \<leftarrow> tcp_listen i d;
             l \<leftarrow> l;
             tcp_accept l (Some Tcp_echoserver_accept) (d\<lparr>tcp_echoserver_pcb := Some l\<rparr>)
           })
        })
   }"

subsection \<open>What the stack calls\<close>

definition app_udp :: "udp_fn \<Rightarrow> nat option \<Rightarrow> nat \<Rightarrow> addr \<Rightarrow> ptr \<Rightarrow> u16 \<Rightarrow> 'a app_scheme \<Rightarrow> 'a app_scheme option" where
  "app_udp f arg pcb p addr port d = (case f of Udp_echo_recv \<Rightarrow> udp_echo_recv pcb (Some p) addr d | _ \<Rightarrow> None)"

definition app_upper :: "'a app_scheme upper" where
  "app_upper = \<lparr>raw_up = (\<lambda>_ _ _ _ _ _. None), udp_up = app_udp, tcp_up = tcp_input app_calls\<rparr>"

subsection \<open>The converter\<close>

text \<open>
  \<open>GetAD7Val\<close>: \<open>adgdr\<close> are the values that the successive reads of the data register give; the loop may wait
  for ever.
\<close>

record adc =
  adcr :: u32
  adgdr :: "nat \<Rightarrow> u32"
  n_adgdr :: nat

definition read_adgdr :: "adc \<Rightarrow> u32 \<times> adc" where
  "read_adgdr c = (adgdr c (n_adgdr c), c\<lparr>n_adgdr := n_adgdr c + 1\<rparr>)"

partial_function (option) wait_adc :: "adc \<Rightarrow> adc option" where
  "wait_adc c = (let (v, c) = read_adgdr c in if bit v 31 then Some c else wait_adc c)"

definition GetAD7Val :: "adc \<Rightarrow> (u32 \<times> adc) option" where
  "GetAD7Val c = do {
     c \<leftarrow> wait_adc (c\<lparr>adcr := adcr c OR push_bit 24 1\<rparr>);
     let (v, c) = read_adgdr c;
     Some (drop_bit 4 v AND 0xFFF, c\<lparr>adcr := adcr c AND NOT (push_bit 24 7)\<rparr>)
   }"

end
