(* ===== verification/Udp_Echo.thy ===== *)
theory Udp_Echo
  imports Ip_Window Tcp_Server
begin

text \<open>
  The UDP echo from the receive ring to the transmit ring: \<open>udp_frame\<close> says what a datagram on the wire is,
  for the frame that comes in and for the frame that goes out.
\<close>

subsection \<open>Frames\<close>

definition ip_packet :: "u8 list \<Rightarrow> u32 \<Rightarrow> u32 \<Rightarrow> u8 \<Rightarrow> nat \<Rightarrow> bool" where
  "ip_packet B src dst proto n \<longleftrightarrow>
     IPH_V (field16 B 14) = 4 \<and> IPH_HL (field16 B 14) = 5 \<and> field16 B 16 = htons (of_nat n) \<and>
     field16 B 20 AND htons (IP_OFFMASK OR IP_MF) = 0 \<and> IPH_PROTO (field16 B 22) = ucast proto \<and>
     field32 B 26 = src \<and> field32 B 30 = dst \<and> inet_chksum (field B 14 20) = 0"

lemma IPH_VHLTOS: "IPH_V (IPH_VHLTOS_SET 4 5 (ucast t)) = 4" "IPH_HL (IPH_VHLTOS_SET 4 5 (ucast t)) = 5" for t :: u8
proof -
  have "drop_bit 12 (ucast t :: u16) = 0" "drop_bit 8 (ucast t :: u16) = 0"
    by (rule bit_word_eqI; auto simp: bit_simps dest: bit_imp_le_length)+
  then show "IPH_V (IPH_VHLTOS_SET 4 5 (ucast t)) = 4" "IPH_HL (IPH_VHLTOS_SET 4 5 (ucast t)) = 5"
    by (simp_all add: IPH_V_def IPH_HL_def IPH_VHLTOS_SET_def)
qed

lemma IPH_PROTO_set: "IPH_PROTO (htons (ucast proto OR push_bit 8 (ucast t))) = ucast proto" for t proto :: u8
  unfolding IPH_PROTO_def ntoh_simps htons_htons
  by (rule bit_word_eqI) (auto simp: bit_simps and_mask_take_bit dest: bit_imp_le_length)

lemma ip_hdr_ok_packet: "ip_hdr_ok B src dst t ts proto ident n \<Longrightarrow> ip_packet B src dst proto n"
  by (simp add: ip_hdr_ok_def ip_packet_def IPH_VHLTOS IPH_PROTO_set)

definition udp_frame :: "u8 list \<Rightarrow> u8 list \<times> u32 \<times> u16 \<Rightarrow> u8 list \<times> u32 \<times> u16 \<Rightarrow> u8 list \<Rightarrow> bool" where
  "udp_frame B src dst data \<longleftrightarrow> (case (src, dst) of ((smac, sip, sport), (dmac, dip, dport)) \<Rightarrow>
     42 + length data \<le> length B \<and> eth_hdr_ok B dmac smac \<and> ip_packet B sip dip IP_PROTO_UDP (28 + length data) \<and>
     field16 B 34 = htons sport \<and> field16 B 36 = htons dport \<and> field16 B 38 = htons (of_nat (8 + length data)) \<and>
     (field16 B 40 \<noteq> 0 \<longrightarrow>
        inet_chksum_pseudo [field B 34 (8 + length data)] sip dip IP_PROTO_UDP (of_nat (8 + length data)) = 0) \<and>
     field B 42 (length data) = data)"

lemma field16_eq: "field B j 2 = field A j 2 \<Longrightarrow> j + 2 \<le> length A \<Longrightarrow> j + 2 \<le> length B \<Longrightarrow> field16 B j = field16 A j"
proof -
  assume e: "field B j 2 = field A j 2" and l: "j + 2 \<le> length A" "j + 2 \<le> length B"
  have "B ! j = A ! j" "B ! (j + 1) = A ! (j + 1)"
    using arg_cong [OF e, of "\<lambda>xs. xs ! 0"] arg_cong [OF e, of "\<lambda>xs. xs ! 1"] l by (simp_all add: field_def)
  then show ?thesis by (simp add: field16_def)
qed

text \<open>Frames that agree up to \<open>n\<close>.\<close>

lemma prefix_fields:
  assumes "field B 0 n = field A 0 n" "n \<le> length A" "n \<le> length B"
  shows "j + m \<le> n \<Longrightarrow> field B j m = field A j m" "j + 2 \<le> n \<Longrightarrow> field16 B j = field16 A j"
    "j + 4 \<le> n \<Longrightarrow> field32 B j = field32 A j"
proof -
  have nth: "B ! i = A ! i" if "i < n" for i
    using arg_cong [OF assms(1), of "\<lambda>xs. xs ! i"] assms(2,3) that by (simp add: field_def)
  show "field B j m = field A j m" if "j + m \<le> n"
    using that assms(2,3) nth by (intro nth_equalityI) (simp_all add: field_def)
  show "field16 B j = field16 A j" if "j + 2 \<le> n" using that nth by (simp add: field16_def)
  show "field32 B j = field32 A j" if "j + 4 \<le> n" using that nth by (simp add: field32_def)
qed

lemma prefix_headers:
  assumes "field B 0 n = field A 0 n" "n \<le> length A" "n \<le> length B" "34 \<le> n"
  shows "eth_hdr_ok B dst src = eth_hdr_ok A dst src" "ip_packet B sip dip proto l = ip_packet A sip dip proto l"
  using assms(4) prefix_fields [OF assms(1-3)] by (simp_all add: eth_hdr_ok_def ip_packet_def)

lemma udp_frame_prefix:
  assumes "field B 0 n = field A 0 n" "n \<le> length A" "n \<le> length B" "42 + length data \<le> n" "udp_frame A src dst data"
  shows "udp_frame B src dst data"
proof -
  obtain smac sip sport dmac dip dport where sd: "src = (smac, sip, sport)" "dst = (dmac, dip, dport)"
    by (cases src; cases dst)
  note f = prefix_fields [OF assms(1-3)]
  have "34 \<le> n" using assms(4) by simp
  note h = prefix_headers [OF assms(1-3) this]
  have "field16 B 34 = field16 A 34" "field16 B 36 = field16 A 36" "field16 B 38 = field16 A 38" "field16 B 40 = field16 A 40"
    "field B 34 (8 + length data) = field A 34 (8 + length data)" "field B 42 (length data) = field A 42 (length data)"
    using assms(4) by (auto intro!: f)
  then show ?thesis
    using assms(3-5) h by (simp add: udp_frame_def sd)
qed

lemma field_prefix: "n \<le> length B \<Longrightarrow> field (field B 0 n) 0 n = field B 0 n"
  by (simp add: field_def)

lemma splice_id: "off + n \<le> length xs \<Longrightarrow> splice off (field xs off n) xs = xs"
proof -
  assume a: "off + n \<le> length xs"
  have "drop (off + n) xs = drop n (drop off xs)" by (simp add: add.commute)
  then have "take off xs @ take n (drop off xs) @ drop (off + n) xs = xs"
    by (metis append_take_drop_id)
  then show ?thesis using a by (simp add: splice_def field_def)
qed

subsection \<open>Sending\<close>

lemma udp_sum_nonzero: "udp_sum c \<noteq> 0"
  by (simp add: udp_sum_def)

text \<open>The UDP header in the window, the checksum last.\<close>

definition udp_hdr_ok :: "u8 list \<Rightarrow> u16 \<Rightarrow> u16 \<Rightarrow> u32 \<Rightarrow> u32 \<Rightarrow> nat \<Rightarrow> bool" where
  "udp_hdr_ok B sport dport src dst k \<longleftrightarrow>
     field16 B 34 = htons sport \<and> field16 B 36 = htons dport \<and> field16 B 38 = htons (of_nat (8 + k)) \<and>
     field16 B 40 \<noteq> 0 \<and> inet_chksum_pseudo [field B 34 (8 + k)] src dst IP_PROTO_UDP (of_nat (8 + k)) = 0"

lemma udp_header_win:
  fixes sport dport :: u16
  assumes A: "42 + k \<le> length A" "k \<le> 1500" and fl: "flgs AND UDP_FLAGS_NOCHKSUM = 0"
  defines "C \<equiv> splice 38 (bytes_of_u16 (htons (of_nat (8 + k)))) (splice 40 [0, 0] (splice 36 (bytes_of_u16 (htons dport))
    (splice 34 (bytes_of_u16 (htons sport)) A)))"
  shows "\<exists>B. udp_checksum p flgs src dst (win st p 34 (8 + k) C) = Some (win st p 34 (8 + k) B) \<and> length B = length A \<and>
    udp_hdr_ok B sport dport src dst k \<and> field B 42 k = field A 42 k"
proof -
  let ?c = "inet_chksum_pseudo [field C 34 (8 + k)] src dst IP_PROTO_UDP (of_nat (8 + k))"
  let ?B = "splice 40 (bytes_of_u16 (udp_sum ?c)) C"
  have lC: "length C = length A" using A by (simp add: C_def)
  have "payloads (Some p) (win st p 34 (8 + k) C) = Some [field C 34 (8 + k)]"
    using A lC by (intro win_payloads) simp_all
  then have run: "udp_checksum p flgs src dst (win st p 34 (8 + k) C) = Some (win st p 34 (8 + k) ?B)"
    using A fl lC by (simp add: udp_checksum_def udp_sum_def Let_def)
  have z: "field C 40 2 = [0, 0]"
    using A by (simp add: C_def field_splice_other field_splice_same)
  let ?D = "field C 34 (8 + k)"
  have lD: "length ?D = 8 + k" using A lC by simp
  have "field ?D 6 2 = [0, 0]" using z by (simp add: field_field)
  then have D0: "splice 6 [0, 0] ?D = ?D" using splice_id [of 6 2 ?D] lD by simp
  have "field ?B 34 (8 + k) = splice 6 (bytes_of_u16 (udp_sum ?c)) ?D"
    using A lC by (simp add: field_splice_in)
  then have "inet_chksum_pseudo [field ?B 34 (8 + k)] src dst IP_PROTO_UDP (of_nat (8 + k)) = 0"
    using pseudo_filled [of 6 ?D src dst IP_PROTO_UDP "of_nat (8 + k)"] A lD unfolding D0 by simp
  moreover have "field16 ?B 34 = htons sport" "field16 ?B 36 = htons dport" "field16 ?B 38 = htons (of_nat (8 + k))"
    "field16 ?B 40 = udp_sum ?c"
    using A lC by (simp_all add: field16_splice_other field16_splice_same)
      (simp_all add: C_def field16_splice_other field16_splice_same)
  moreover have "field ?B 42 k = field A 42 k"
    using A lC by (simp add: field_splice_other) (simp add: C_def field_splice_other)
  moreover have "length ?B = length A" using A lC by simp
  ultimately show ?thesis using run udp_sum_nonzero [of ?c] unfolding udp_hdr_ok_def by metis
qed

lemma udp_hdr_ok_cong:
  assumes "udp_hdr_ok B sport dport src dst k" "\<forall>j m. 34 \<le> j \<longrightarrow> field B' j m = field B j m"
    "42 + k \<le> length B" "length B' = length B"
  shows "udp_hdr_ok B' sport dport src dst k"
proof -
  have "field16 B' j = field16 B j" if "34 \<le> j" "j + 2 \<le> 42" for j
    using that assms(2,3,4) by (intro field16_eq) auto
  then show ?thesis using assms(1,2) by (simp add: udp_hdr_ok_def)
qed

lemma udp_frameI:
  assumes "eth_hdr_ok B dmac smac" "ip_packet B sip dip IP_PROTO_UDP (28 + length data)"
    "udp_hdr_ok B sport dport sip dip (length data)" "field B 42 (length data) = data" "42 + length data \<le> length B"
  shows "udp_frame B (smac, sip, sport) (dmac, dip, dport) data \<and> field16 B 40 \<noteq> 0"
  using assms by (simp add: udp_frame_def udp_hdr_ok_def)

text \<open>\<open>udp_sendto\<close> of the \<open>k\<close> bytes in the window to a station of the local network.\<close>

lemma udp_sendto_win:
  assumes d: "pm d = win st p 42 k A" and A: "42 + k \<le> length A" "k \<le> 1494" and r: "ready d dst h"
    and u: "udp_mem d i = Some u" "local_port u \<noteq> 0" "local_ip u = 0" "uflags u AND UDP_FLAGS_NOCHKSUM = 0"
    and n: "ip_addr (nif d) \<noteq> 0" "netif_listed d" "nflags (nif d) AND NETIF_FLAG_UP \<noteq> 0"
  shows "\<exists>B c g m. udp_sendto i p dst dport d =
      Some (ERR_OK, d\<lparr>pm := win st p 0 (42 + k) B, ip_id := ip_id d + 1, etharp_cached_entry := c, gTxBuf := g, mac := m\<rparr>) \<and>
    c < ARP_TABLE_SIZE \<and> length B = length A \<and> length g = 1536 \<and> tx_ok m \<and>
    tx_queue m = tx_queue (mac d) @ [field B 0 (42 + k)] \<and> rx_queue m = rx_queue (mac d) \<and> rx_ok m = rx_ok (mac d) \<and>
    eth_hdr_ok B h (hwaddr (nif d)) \<and> ip_hdr_ok B (ip_addr (nif d)) dst (ttl u) (tos u) IP_PROTO_UDP (ip_id d) (28 + k) \<and>
    udp_hdr_ok B (local_port u) dport (ip_addr (nif d)) dst k \<and> field B 42 k = field A 42 k"
proof -
  let ?me = "ip_addr (nif d)"
  define C where "C = splice 38 (bytes_of_u16 (htons (of_nat (8 + k)))) (splice 40 [0, 0]
    (splice 36 (bytes_of_u16 (htons dport)) (splice 34 (bytes_of_u16 (htons (local_port u))) A)))"
  have k: "k \<le> 1500" using A(2) by simp
  obtain B where B: "udp_checksum p (uflags u) ?me dst (win st p 34 (8 + k) C) = Some (win st p 34 (8 + k) B)"
    "length B = length A" "udp_hdr_ok B (local_port u) dport ?me dst k" "field B 42 k = field A 42 k"
    using udp_header_win [OF A(1) k u(4), where sport = "local_port u" and dport = dport and p = p and src = ?me and dst = dst and st = st] unfolding C_def by blast
  let ?d = "d\<lparr>pm := win st p 34 (8 + k) B\<rparr>"
  have p: "pm ?d = win st p 34 (8 + k) B" "34 + (8 + k) \<le> length B" "8 + k \<le> 1502" "ready ?d dst h"
    using A B(2) r by simp_all
  obtain E c g m where E: "ip_output_if p (Some ?me) (Some dst) (ttl u) (tos u) IP_PROTO_UDP ?d =
      Some (ERR_OK, ?d\<lparr>pm := win st p 0 (34 + (8 + k)) E, ip_id := ip_id ?d + 1, etharp_cached_entry := c, gTxBuf := g, mac := m\<rparr>)"
    "c < ARP_TABLE_SIZE" "length E = length B" "eth_hdr_ok E h (hwaddr (nif ?d))"
    "ip_hdr_ok E ?me dst (ttl u) (tos u) IP_PROTO_UDP (ip_id ?d) (20 + (8 + k))"
    "\<forall>j m. 34 \<le> j \<longrightarrow> field E j m = field B j m" "length g = 1536" "tx_ok m"
    "tx_queue m = tx_queue (mac ?d) @ [field E 0 (34 + (8 + k))]" "rx_queue m = rx_queue (mac ?d)" "rx_ok m = rx_ok (mac ?d)"
    using ip_output_if_win [OF p(1-3) n(1) p(4), of "ttl u" "tos u" IP_PROTO_UDP] by blast
  have room: "udp_room p (pm d) = Some (Some p, win st p 34 (8 + k) A)"
    using d win_header [of 8 42 k p st A] A by (simp add: udp_room_def add.commute)
  have "ip_route dst d" using n r by (simp add: ip_route_def ready_def netif_is_up_def)
  then have "udp_sendto i p dst dport d = udp_sendto_if i p dst dport d" by (simp add: udp_sendto_def)
  also have "\<dots> = Some (ERR_OK, d\<lparr>pm := win st p 0 (42 + k) E, ip_id := ip_id d + 1, etharp_cached_entry := c, gTxBuf := g, mac := m\<rparr>)"
    using u room A B(1) E(1) by (simp add: udp_sendto_if_def ip_addr_isany_def Let_def C_def)
  finally have run: "udp_sendto i p dst dport d =
    Some (ERR_OK, d\<lparr>pm := win st p 0 (42 + k) E, ip_id := ip_id d + 1, etharp_cached_entry := c, gTxBuf := g, mac := m\<rparr>)" .
  have "udp_hdr_ok E (local_port u) dport ?me dst k"
    using A(1) B(2) E(3) by (intro udp_hdr_ok_cong [OF B(3) E(6)]) simp_all
  moreover have "field E 42 k = field A 42 k" using spec [OF E(6), of 42] B(4) by simp
  moreover have "length E = length A" using E(3) B(2) by simp
  moreover note run E(2,4,5,7-11)
  ultimately show ?thesis
    by (intro exI [of _ E] exI [of _ c] exI [of _ g] exI [of _ m]) simp
qed

subsection \<open>Receiving\<close>

lemma ip_input_win:
  assumes d: "pm d = win st p 14 n A" and A: "14 + n \<le> length A" "n < 65536" and len: "20 \<le> l" "l \<le> n"
    and ip: "ip_packet A src (ip_addr (nif d)) proto l" "unicast (nif d) src"
    and up: "nflags (nif d) AND NETIF_FLAG_UP \<noteq> 0" "ip_addr (nif d) \<noteq> 0"
  shows "ip_input up p d = do { d \<leftarrow> ip_deliver up p (d\<lparr>pm := win st p 14 l A\<rparr>); Some (ERR_OK, d) }"
proof -
  have u: "unat (of_nat n :: u16) = n" "unat (of_nat l :: u16) = l" using A len by (simp_all add: unat_of_nat_lt)
  have c: "\<not> (of_nat n :: u16) < 20" "\<not> (of_nat n :: u16) < of_nat l"
    using u len by (simp_all add: word_less_nat_alt)
  have r: "pbuf_realloc p (of_nat l) (win st p 14 n A) = Some (win st p 14 l A)"
    using A len by (intro win_realloc) simp_all
  have acc: "accepts (ip_addr (nif d)) (nif d)" using up by (simp add: accepts_def netif_is_up_def ip_addr_isany_def)
  have hdr: "get_bytes (win st p 14 n A) p 0 20 = Some (field A 14 20)" using A len by simp
  note f = ip(1) [unfolded ip_packet_def]
  show ?thesis
    using d A len f ip(2) acc c r hdr
    by (simp add: ip_input_def Let_def unicast_def)
qed

text \<open>With one unconnected PCB bound to the port on any address, its callback gets the payload.\<close>

lemma udp_demux_one:
  assumes "udp_pcbs d = [i]" "udp_mem d i = Some u" "local_port u = dport" "local_ip u = 0"
    "uflags u AND UDP_FLAGS_CONNECTED = 0"
  shows "udp_demux src (dst, dport) False d = Some (Some i, d)"
proof -
  have "d\<lparr>udp_pcbs := [i]\<rparr> = d" using assms(1) by (cases d) simp
  then show ?thesis using assms by (simp add: udp_demux_def local_matches_def ip_addr_isany_def Let_def)
qed

lemma udp_input_win:
  assumes d: "pm d = win st p 14 (28 + length data) A" and A: "length A < 65536"
    and f: "udp_frame A (smac, src, sport) (dmac, ip_addr (nif d), dport) data"
    and own: "unicast (nif d) (ip_addr (nif d))"
    and u: "udp_pcbs d = [i]" "udp_mem d i = Some u" "local_port u = dport" "local_ip u = 0"
      "uflags u AND UDP_FLAGS_CONNECTED = 0" "urecv u = Some fn"
  shows "udp_input cb p d = cb fn (urecv_arg u) i p (Some (PData p, 26)) sport (d\<lparr>pm := win st p 42 (length data) A\<rparr>)"
proof -
  let ?k = "length data" and ?me = "ip_addr (nif d)"
  have l: "42 + ?k \<le> length A" using f by (simp add: udp_frame_def)
  have n: "unat (of_nat (28 + ?k) :: u16) = 28 + ?k" by (rule unat_of_nat_lt) (use A l in simp)
  have "int (unat (of_nat (28 + ?k) :: u16)) = int (28 + ?k)" by (simp only: n)
  then have n': "uint (28 + of_nat ?k :: u16) = 28 + int ?k" by simp
  let ?d = "d\<lparr>pm := win st p 34 (8 + ?k) A\<rparr>"
  note g = f [unfolded udp_frame_def prod.case ip_packet_def]
  have h1: "pbuf_header (Some p) (- 20) (win st p 14 (28 + ?k) A) = Some (0, win st p 34 (8 + ?k) A)"
    using win_header_neg [of 20 "28 + ?k" p st 14 A] A l by simp
  have h2: "pbuf_header (Some p) (- 8) (win st p 34 (8 + ?k) A) = Some (0, win st p 42 ?k A)"
    using win_header_neg [of 8 "8 + ?k" p st 34 A] A l by simp
  have pl: "payloads (Some p) (win st p 34 (8 + ?k) A) = Some [field A 34 (8 + ?k)]"
    using A l by (intro win_payloads) simp_all
  have pt: "Some (PData p, 14 :: int) = Some (PData p, int 14)" by simp
  have dm: "udp_demux (src, sport) (?me, dport) False ?d = Some (Some i, ?d)"
    using u by (intro udp_demux_one) simp_all
  have pr: "ptr_get16 (win st p 14 (28 + ?k) A) (Some (PData p, 14)) 0 = Some (field16 A 14)"
    "ptr_get32 (win st p 34 (8 + ?k) A) (Some (PData p, 14)) 16 = Some (field32 A 30)"
    "ptr_get32 (win st p 34 (8 + ?k) A) (Some (PData p, 14)) 12 = Some (field32 A 26)"
    using l unfolding pt by (simp_all del: of_nat_numeral)
  have bc: "ip_addr_isbroadcast ?me (nif d) = 0" using own by (simp add: unicast_def)
  have del: "udp_deliver cb (Some i) p (Some (PData p, 14)) 20 sport False ?d =
      cb fn (urecv_arg u) i p (Some (PData p, 26)) sport (d\<lparr>pm := win st p 42 ?k A\<rparr>)"
    using pr g l u h2 pl by (cases "field16 A 40 = 0") (simp_all add: udp_deliver_def ptr_add_def Let_def)
  show ?thesis
    using d n' g l h1 pr bc dm del by (simp add: udp_input_def Let_def)
qed

subsection \<open>The echo\<close>

text \<open>The PCB as \<open>udp_echo_init\<close> leaves it.\<close>

definition echo_udp :: "udp_pcb" where
  "echo_udp = \<lparr>local_ip = 0, remote_ip = 0, so_options = 0, tos = 0, ttl = UDP_TTL, uflags = 0, local_port = 8888,
     remote_port = 0, urecv = Some Udp_echo_recv, urecv_arg = None\<rparr>"

definition echoing :: "nat \<Rightarrow> 'a udp_scheme \<Rightarrow> bool" where
  "echoing i d \<longleftrightarrow> udp_pcbs d = [i] \<and> udp_mem d i = Some echo_udp"

text \<open>The callback: the payload in the window goes back to its sender and the packet to the pool.\<close>

lemma udp_echo_recv_win:
  fixes d :: "'a app_scheme"
  assumes d: "pm d = win st (pool_addr q) 42 k A" and A: "42 + k \<le> length A" "k \<le> 1494" and r: "ready d (field32 A 26) h"
    and u: "echoing i d"
    and n: "ip_addr (nif d) \<noteq> 0" "netif_listed d" "nflags (nif d) AND NETIF_FLAG_UP \<noteq> 0"
  shows "\<exists>B c g m. udp_echo_recv i (Some (pool_addr q)) (Some (PData (pool_addr q), 26)) d =
      Some (d\<lparr>pm := st\<lparr>pbufs := (pbufs st)(pool_addr q := None), bytes := (bytes st)(PData (pool_addr q) \<mapsto> B),
          pools := memp_free MEMP_PBUF_POOL (Some q) (pools st)\<rparr>,
        ip_id := ip_id d + 1, etharp_cached_entry := c, gTxBuf := g, mac := m, flag := 0\<rparr>) \<and>
    c < ARP_TABLE_SIZE \<and> length B = length A \<and> length g = 1536 \<and> tx_ok m \<and>
    tx_queue m = tx_queue (mac d) @ [field B 0 (42 + k)] \<and> rx_queue m = rx_queue (mac d) \<and> rx_ok m = rx_ok (mac d) \<and>
    udp_frame (field B 0 (42 + k)) (hwaddr (nif d), ip_addr (nif d), 8888) (h, field32 A 26, 8888) (field A 42 k) \<and>
    field16 (field B 0 (42 + k)) 40 \<noteq> 0"
proof -
  let ?p = "pool_addr q" and ?sip = "field32 A 26"
  let ?d = "d\<lparr>flag := flag d + 1\<rparr>"
  have u': "udp_mem ?d i = Some echo_udp" "local_port echo_udp \<noteq> 0" "local_ip echo_udp = 0"
    "uflags echo_udp AND UDP_FLAGS_NOCHKSUM = 0"
    using u by (simp_all add: echoing_def echo_udp_def)
  have p: "pm ?d = win st ?p 42 k A" "ready ?d ?sip h" "ip_addr (nif ?d) \<noteq> 0" "netif_listed ?d"
    "nflags (nif ?d) AND NETIF_FLAG_UP \<noteq> 0"
    using d r n by (simp_all add: ready_def arp_ok_def arp_lookup_def)
  obtain B c g m where B: "udp_sendto i ?p ?sip 8888 ?d =
      Some (ERR_OK, ?d\<lparr>pm := win st ?p 0 (42 + k) B, ip_id := ip_id ?d + 1, etharp_cached_entry := c, gTxBuf := g, mac := m\<rparr>)"
    and s: "c < ARP_TABLE_SIZE" "length B = length A" "length g = 1536" "tx_ok m"
    "tx_queue m = tx_queue (mac ?d) @ [field B 0 (42 + k)]" "rx_queue m = rx_queue (mac ?d)" "rx_ok m = rx_ok (mac ?d)"
    and f: "eth_hdr_ok B h (hwaddr (nif ?d))"
    "ip_hdr_ok B (ip_addr (nif ?d)) ?sip (ttl echo_udp) (tos echo_udp) IP_PROTO_UDP (ip_id ?d) (28 + k)"
    "udp_hdr_ok B (local_port echo_udp) 8888 (ip_addr (nif ?d)) ?sip k" "field B 42 k = field A 42 k"
    using udp_sendto_win [OF p(1) A p(2) u' p(3-5), of 8888] by blast
  have a: "ptr_get32 (pm ?d) (Some (PData ?p, 26)) 0 = Some ?sip"
    using A(1) d win_ptr_get32 [of 26 0 A st ?p 42 k] by simp
  have run: "udp_echo_recv i (Some ?p) (Some (PData ?p, 26)) d =
      Some (d\<lparr>pm := st\<lparr>pbufs := (pbufs st)(?p := None), bytes := (bytes st)(PData ?p \<mapsto> B),
          pools := memp_free MEMP_PBUF_POOL (Some q) (pools st)\<rparr>,
        ip_id := ip_id d + 1, etharp_cached_entry := c, gTxBuf := g, mac := m, flag := 0\<rparr>)"
    using a B by (simp add: udp_echo_recv_def app_send_def recvsendto_def free_packet_def win_free Let_def)
  have w: "udp_frame (field B 0 (42 + k)) (hwaddr (nif d), ip_addr (nif d), 8888) (h, ?sip, 8888) (field A 42 k) \<and>
    field16 (field B 0 (42 + k)) 40 \<noteq> 0"
  proof -
    let ?r = "field B 0 (42 + k)"
    have l: "42 + k \<le> length B" "length (field A 42 k) = k" using A s(2) by simp_all
    have "udp_frame B (hwaddr (nif d), ip_addr (nif d), 8888) (h, ?sip, 8888) (field A 42 k) \<and> field16 B 40 \<noteq> 0"
      using f l ip_hdr_ok_packet [OF f(2)] by (intro udp_frameI) (simp_all add: echo_udp_def)
    moreover have e: "field ?r 0 (42 + k) = field B 0 (42 + k)" "42 + k \<le> length ?r" using l by (simp_all add: field_prefix)
    ultimately show ?thesis
      using udp_frame_prefix [OF e(1) l(1) e(2)] prefix_fields(2) [OF e(1) l(1) e(2), of 40] l(2) by simp
  qed
  show ?thesis
    using run s w by (intro exI [of _ B] exI [of _ c] exI [of _ g] exI [of _ m]) simp
qed

text \<open>
  The station in service: the rings and buffers are well-formed, the interface is configured and up, the ARP
  table is well-formed with no packet waiting, no raw PCB is registered and the echo PCB is the only one.
\<close>

definition configured :: "netif \<Rightarrow> bool" where
  "configured n \<longleftrightarrow> inputf n = Some Ethernet_input \<and> outputf n = Some Etharp_output \<and>
     linkoutput n = Some Low_level_output \<and> mtu n = 1536 \<and> length (hwaddr n) = 6 \<and>
     nflags n AND NETIF_FLAG_UP \<noteq> 0 \<and> unicast n (ip_addr n)"

definition station :: "nat \<Rightarrow> 'a app_scheme \<Rightarrow> bool" where
  "station i d \<longleftrightarrow> rx_ok (mac d) \<and> tx_ok (mac d) \<and> length (gRxBuf d) = 1536 \<and> length (gTxBuf d) = 1536 \<and>
     pool_ok (pm d) \<and> pool_free (pm d) \<noteq> [] \<and> configured (nif d) \<and> netif_listed d \<and>
     arp_ok d \<and> (\<forall>e \<in> set (arp_table d). equeue e = []) \<and> raw_pcbs d = [] \<and> echoing i d"

subsection \<open>One frame through the station\<close>

text \<open>
  A frame for the station, from a host of the local network, reaches \<open>ip_deliver\<close> as a trimmed IP packet in
  one pool pbuf; the sender is in the ARP cache.
\<close>

definition rx_mem :: "'a dev_scheme \<Rightarrow> nat list \<Rightarrow> pmem" where
  "rx_mem d ks = (pm d)\<lparr>pools := (pools (pm d))(MEMP_PBUF_POOL := ks)\<rparr>"

text \<open>The packet as it arrives: \<open>A\<close> is the data area, \<open>d2\<close> the state that \<open>ip_deliver\<close> gets.\<close>

definition arrived :: "nat \<Rightarrow> 'a app_scheme \<Rightarrow> nat \<Rightarrow> nat list \<Rightarrow> u8 list \<Rightarrow> 'a app_scheme \<Rightarrow> bool" where
  "arrived i d q ks A d2 \<longleftrightarrow> pool_free (pm d) = q # ks \<and> length A = 1500 \<and> nif d2 = nif d \<and> raw_pcbs d2 = [] \<and>
     echoing i d2 \<and> netif_listed d2 \<and> gTxBuf d2 = gTxBuf d \<and> length (gRxBuf d2) = 1536 \<and> arp_ok d2 \<and>
     (\<forall>e \<in> set (arp_table d2). equeue e = []) \<and> rx_ok (mac d2) \<and> tx_ok (mac d2) \<and> tx_queue (mac d2) = tx_queue (mac d) \<and>
     rx_queue (mac d2) = List.tl (rx_queue (mac d)) \<and> tcp_mem d2 = tcp_mem d \<and> tcp_bound_pcbs d2 = tcp_bound_pcbs d \<and>
     tcp_active_pcbs d2 = tcp_active_pcbs d \<and> tcp_tw_pcbs d2 = tcp_tw_pcbs d \<and> tcp_input_pcb d2 = tcp_input_pcb d"

lemma receive_win:
  fixes d :: "'a app_scheme"
  assumes st: "station i d" and tx: "length (tx_queue (mac d)) < 2"
    and rx: "rx_queue (mac d) = (info, frame) # rest" "frame_good info"
    and n: "20 \<le> l" "14 + l \<le> frame_size info - 3" "frame_size info - 3 \<le> 1500"
    and f: "eth_hdr_ok frame dmac smac" "ip_packet frame sip (ip_addr (nif d)) proto l"
    and sip: "unicast (nif d) sip" "ip_addr_netcmp sip (ip_addr (nif d)) (netmask (nif d))"
    and room: "\<exists>e \<in> set (arp_table d). \<not> live e \<or> eip e = sip"
  obtains q ks A d2 where "arrived i d q ks A d2" "pm d2 = win (rx_mem d ks) (pool_addr q) 14 l A"
    "field A 0 (frame_size info - 3) = field frame 0 (frame_size info - 3)" "frame_size info - 3 \<le> length frame"
    "eth_hdr_ok A dmac smac" "ip_packet A sip (ip_addr (nif d)) proto l" "arp_lookup d2 sip = Some smac" "ready d2 sip smac"
    "\<forall>up. ethernetif_input up d = do { d \<leftarrow> ip_deliver up (pool_addr q) d2; Some (ERR_OK, d) }"
proof -
  let ?n = "frame_size info - 3"
  note S = st [unfolded station_def]
  have C: "configured (nif d)" using S by simp
  note C = C [unfolded configured_def]
  obtain q ks where q: "pool_free (pm d) = q # ks" using S by (cases "pool_free (pm d)") auto
  let ?p = "pool_addr q" and ?st = "rx_mem d ks"
  obtain A0 where A0: "bytes (pm d) (PData ?p) = Some A0" "length A0 = 1500" using S q by (auto simp: pool_ok_def PBUF_POOL_BUFSIZE_ALIGNED_def)
  have pos: "0 < ?n" using n(1,2) by linarith
  obtain g m A where in1: "low_level_input d = Some (Some ?p, d\<lparr>gRxBuf := g, mac := m, pm := win ?st ?p 0 ?n A\<rparr>)"
    and A: "length A = 1500" "field A 0 ?n = take ?n frame"
    and m: "length g = 1536" "rx_queue m = rest" "rx_ok m" "tx_ok m" "tx_queue m = tx_queue (mac d)"
    using low_level_input_win [OF _ _ rx refl pos n(3) q A0(1)] S A0(2) unfolding rx_mem_def by auto
  have lf: "?n \<le> length frame" using arg_cong [OF A(2), of length] A(1) n(3) by simp
  have e: "field A 0 ?n = field frame 0 ?n" using A(2) by (simp add: field_def)
  have F: "eth_hdr_ok A dmac smac" "ip_packet A sip (ip_addr (nif d)) proto l"
    using f prefix_headers [OF e lf] A(1) n by simp_all
  note F' = F [unfolded ip_packet_def eth_hdr_ok_def]
  define d1 where "d1 = d\<lparr>gRxBuf := g, mac := m, pm := win ?st ?p 0 ?n A\<rparr>"
  have a1: "pm d1 = win ?st ?p 0 ?n A" "arp_ok d1" "\<forall>e \<in> set (arp_table d1). equeue e = []"
    "\<exists>e \<in> set (arp_table d1). \<not> live e \<or> eip e = field32 A 26"
    using S F' room by (simp_all add: d1_def arp_ok_def)
  obtain T c where arp: "etharp_ip_input ?p d1 = Some (d1\<lparr>arp_table := T, etharp_cached_entry := c\<rparr>)"
    "arp_ok (d1\<lparr>arp_table := T, etharp_cached_entry := c\<rparr>)" "\<forall>e \<in> set T. equeue e = []"
    "arp_lookup (d1\<lparr>arp_table := T, etharp_cached_entry := c\<rparr>) sip = Some smac"
    using etharp_ip_input_win [OF a1(1) _ a1(2-4)] A(1) F' sip by (auto simp: d1_def)
  define d2 where "d2 = d1\<lparr>arp_table := T, etharp_cached_entry := c, pm := win ?st ?p 14 l A\<rparr>"
  have ar: "arrived i d q ks A d2"
    using S q A(1) m arp rx(1) by (auto simp: arrived_def d2_def d1_def echoing_def arp_ok_def)
  have d2: "nif d2 = nif d" "pm d2 = win ?st ?p 14 l A" "arp_lookup d2 sip = Some smac" "mac d2 = m"
    using arp by (simp_all add: d2_def d1_def arp_lookup_def)
  have ls: "length smac = 6" using F' A(1) length_field [of 6 6 A] by simp
  have rdy: "ready d2 sip smac"
    using ar sip S m tx C d2 ls by (auto simp: ready_def arrived_def)
  have ipin: "ip_input up ?p (d2\<lparr>pm := win ?st ?p 14 (?n - 14) A\<rparr>) = do { d \<leftarrow> ip_deliver up ?p d2; Some (ERR_OK, d) }" for up
    using ip_input_win [of "d2\<lparr>pm := win ?st ?p 14 (?n - 14) A\<rparr>" ?st ?p "?n - 14" A l sip proto up]
      A(1) n C sip d2 F by (simp add: unicast_def d2_def)
  have h14: "pbuf_header (Some ?p) (- 14) (win ?st ?p 0 ?n A) = Some (0, win ?st ?p 14 (?n - 14) A)"
    using win_header_neg [of 14 ?n ?p ?st 0 A] n by simp
  have ty: "get_u16 (pm d1) ?p 12 = Some (htons ETHTYPE_IP)" using F' a1(1) A(1) by simp
  have "ethernet_input up ?p d1 = do { d \<leftarrow> ip_deliver up ?p d2; Some (ERR_OK, d) }" for up
    using ty arp(1) h14 ipin a1(1) by (simp add: ethernet_input_def Let_def d2_def split: Option.bind_splits)
  then have "ethernetif_input up d = do { d \<leftarrow> ip_deliver up ?p d2; Some (ERR_OK, d) }" for up
    using in1 [folded d1_def] C by (simp add: ethernetif_input_def netif_input_def d1_def split: Option.bind_splits)
  then show ?thesis using that ar d2 e lf F rdy by blast
qed

text \<open>Once the pbuf is back in the pool the station is ready for the next frame.\<close>

lemma station_again:
  fixes d :: "'a app_scheme"
  assumes st: "station i d" and ar: "arrived i d q ks A d2" and B: "length B = length A"
    and d': "nif d' = nif d2" "raw_pcbs d' = raw_pcbs d2" "udp_pcbs d' = udp_pcbs d2" "udp_mem d' = udp_mem d2"
      "netif_listed d' = netif_listed d2" "arp_table d' = arp_table d2" "etharp_cached_entry d' < ARP_TABLE_SIZE"
      "gRxBuf d' = gRxBuf d2" "length (gTxBuf d') = 1536" "rx_ok (mac d')" "tx_ok (mac d')"
      "pm d' = (rx_mem d ks)\<lparr>pbufs := (pbufs (rx_mem d ks))(pool_addr q := None), bytes := (bytes (rx_mem d ks))(PData (pool_addr q) \<mapsto> B),
        pools := memp_free MEMP_PBUF_POOL (Some q) (pools (rx_mem d ks))\<rparr>"
  shows "station i d'" "pools (pm d') = pools (pm d)" "pbufs (pm d') = pbufs (pm d)" "heap (pm d') = heap (pm d)"
proof -
  note S = st [unfolded station_def] and R = ar [unfolded arrived_def]
  have "pbufs (pm d) (pool_addr q) = None" using S R by (auto simp: pool_ok_def)
  then show p: "pools (pm d') = pools (pm d)" "pbufs (pm d') = pbufs (pm d)" "heap (pm d') = heap (pm d)"
    using R by (auto simp: d' rx_mem_def memp_free_def fun_upd_idem_iff)
  have "pool_ok (pm d')"
    using S R p B by (auto simp: pool_ok_def d'(12) rx_mem_def PBUF_POOL_BUFSIZE_ALIGNED_def)
  then show "station i d'"
    using S R p d' by (auto simp: station_def echoing_def arp_ok_def)
qed

lemma udp_echo_ok:
  fixes d :: "'a app_scheme"
  assumes st: "station i d" and tx: "length (tx_queue (mac d)) < 2"
    and rx: "rx_queue (mac d) = (info, frame) # rest" "frame_good info"
    and n: "42 + length data \<le> frame_size info - 3" "frame_size info - 3 \<le> 1500"
    and f: "udp_frame frame (smac, sip, sport) (dmac, ip_addr (nif d), 8888) data"
    and sip: "unicast (nif d) sip" "ip_addr_netcmp sip (ip_addr (nif d)) (netmask (nif d))"
    and room: "\<exists>e \<in> set (arp_table d). \<not> live e \<or> eip e = sip"
  shows "\<exists>d' r. ethernetif_input app_upper d = Some (ERR_OK, d') \<and> station i d' \<and> rx_queue (mac d') = rest \<and>
    tx_queue (mac d') = tx_queue (mac d) @ [r] \<and> length r = 42 + length data \<and>
    udp_frame r (hwaddr (nif d), ip_addr (nif d), 8888) (smac, sip, 8888) data \<and> field16 r 40 \<noteq> 0 \<and>
    nif d' = nif d \<and> pbufs (pm d') = pbufs (pm d) \<and> pools (pm d') = pools (pm d) \<and> heap (pm d') = heap (pm d) \<and>
    arp_lookup d' sip = Some smac \<and> flag d' = 0"
proof -
  let ?k = "length data" and ?me = "ip_addr (nif d)"
  have l: "20 \<le> 28 + ?k" "14 + (28 + ?k) \<le> frame_size info - 3" using n(1) by linarith+
  have h: "eth_hdr_ok frame dmac smac" "ip_packet frame sip ?me IP_PROTO_UDP (28 + ?k)" using f by (simp_all add: udp_frame_def)
  obtain q ks A d2 where ar: "arrived i d q ks A d2" and p2: "pm d2 = win (rx_mem d ks) (pool_addr q) 14 (28 + ?k) A"
    and pre: "field A 0 (frame_size info - 3) = field frame 0 (frame_size info - 3)" "frame_size info - 3 \<le> length frame"
    and hA: "eth_hdr_ok A dmac smac" "ip_packet A sip ?me IP_PROTO_UDP (28 + ?k)"
    and known: "arp_lookup d2 sip = Some smac" "ready d2 sip smac"
    and run: "\<forall>up. ethernetif_input up d = do { d \<leftarrow> ip_deliver up (pool_addr q) d2; Some (ERR_OK, d) }"
    by (rule receive_win [OF st tx rx l n(2) h sip room])
  note R = ar [unfolded arrived_def]
  have C: "configured (nif d)" using st by (simp add: station_def)
  have k: "42 + ?k \<le> 1500" using n by linarith
  let ?p = "pool_addr q"
  have fA: "udp_frame A (smac, sip, sport) (dmac, ?me, 8888) data"
    using R n by (intro udp_frame_prefix [OF pre(1,2) _ n(1) f]) simp
  note F = fA [unfolded udp_frame_def prod.case ip_packet_def]
  let ?d4 = "d2\<lparr>pm := win (rx_mem d ks) ?p 42 ?k A\<rparr>"
  have p4: "pm ?d4 = win (rx_mem d ks) ?p 42 ?k A" "42 + ?k \<le> length A" "?k \<le> 1494" "ready ?d4 (field32 A 26) smac" "echoing i ?d4"
    "ip_addr (nif ?d4) \<noteq> 0" "netif_listed ?d4" "nflags (nif ?d4) AND NETIF_FLAG_UP \<noteq> 0"
    using k known F R C by (simp_all add: echoing_def unicast_def configured_def)
  obtain B c g m where echo: "udp_echo_recv i (Some ?p) (Some (PData ?p, 26)) ?d4 =
      Some (?d4\<lparr>pm := (rx_mem d ks)\<lparr>pbufs := (pbufs (rx_mem d ks))(?p := None), bytes := (bytes (rx_mem d ks))(PData ?p \<mapsto> B),
          pools := memp_free MEMP_PBUF_POOL (Some q) (pools (rx_mem d ks))\<rparr>,
        ip_id := ip_id ?d4 + 1, etharp_cached_entry := c, gTxBuf := g, mac := m, flag := 0\<rparr>)" (is "_ = Some ?d'")
    and e: "c < ARP_TABLE_SIZE" "length B = length A" "length g = 1536" "tx_ok m"
      "tx_queue m = tx_queue (mac ?d4) @ [field B 0 (42 + ?k)]" "rx_queue m = rx_queue (mac ?d4)" "rx_ok m = rx_ok (mac ?d4)"
    and w: "udp_frame (field B 0 (42 + ?k)) (hwaddr (nif ?d4), ip_addr (nif ?d4), 8888) (smac, field32 A 26, 8888) (field A 42 ?k)"
      "field16 (field B 0 (42 + ?k)) 40 \<noteq> 0"
    using udp_echo_recv_win [OF p4] by blast
  have tp: "ptr_get16 (pm d2) (Some (PData ?p, 14)) 8 = Some (field16 A 22)"
    using win_ptr_get16 [of 14 8 A "rx_mem d ks" ?p 14 "28 + ?k"] R p2 by simp
  have "udp_input (udp_up app_upper) ?p d2 = udp_echo_recv i (Some ?p) (Some (PData ?p, 26)) ?d4"
    using udp_input_win [of d2 "rx_mem d ks" ?p data A smac sip sport dmac 8888 i echo_udp Udp_echo_recv] fA R p2 C
    by (simp add: app_upper_def app_udp_def echoing_def echo_udp_def configured_def)
  then have "ip_deliver app_upper ?p d2 = Some ?d'"
    using F tp R p2 echo by (simp add: ip_deliver_def raw_input_def Let_def)
  then have "ethernetif_input app_upper d = Some (ERR_OK, ?d')" using run by simp
  moreover have "station i ?d'" "pools (pm ?d') = pools (pm d)" "pbufs (pm ?d') = pbufs (pm d)" "heap (pm ?d') = heap (pm d)"
    using R e by (intro station_again [OF st ar e(2)]; simp)+
  moreover have "arp_lookup ?d' sip = Some smac" using known(1) by (simp add: arp_lookup_def)
  moreover have "length (field B 0 (42 + ?k)) = 42 + ?k" "udp_frame (field B 0 (42 + ?k)) (hwaddr (nif d), ?me, 8888) (smac, sip, 8888) data"
    using w(1) R F e(2) k by simp_all
  moreover have "nif ?d' = nif d" "flag ?d' = 0" "rx_queue (mac ?d') = rest" "tx_queue (mac ?d') = tx_queue (mac d) @ [field B 0 (42 + ?k)]"
    using R e rx(1) by simp_all
  ultimately show ?thesis using w(2) by blast
qed

subsection \<open>A station with one frame in its receive ring\<close>

definition echo_sample :: "u8 list \<Rightarrow> app" where
  "echo_sample frame = arp.extend
     (arp_init (dev_sample\<lparr>mac := (mac dev_sample)\<lparr>rx_buf := replicate 4 (frame @ replicate (1536 - length frame) 0)\<rparr>\<rparr>))
     \<lparr>netif_listed = True, netif_is_default = True, ip_id = 0, udp_mem = [0 \<mapsto> echo_udp], udp_pcbs = [0],
      raw_mem = Map.empty, raw_pcbs = [], reass_mem = Map.empty, reassdatagrams = None, ip_reass_pbufcount = 0,
      iprh = Map.empty, addr_bits = (\<lambda>_. 0), tcp_mem = Map.empty, listen_mem = Map.empty, lprio = (\<lambda>_. 0),
      tcp_bound_pcbs = [], tcp_listen_pcbs = [], tcp_active_pcbs = [], tcp_tw_pcbs = [], tcp_ticks = 0, tcp_timer = 0,
      tcp_input_pcb = None, tcp_iss = 6510, tcp_port = 4096, netifnum = 1, TCPTimer = 0, ARPTimer = 0, echo_pcb = Some 0, flag = 0, es_mem = Map.empty, tcp_echoserver_pcb = None\<rparr>"

lemma echo_sample_simps [simp]:
  "nif (echo_sample f) = nif dev_sample" "pm (echo_sample f) = pm dev_sample" "gTxBuf (echo_sample f) = gTxBuf dev_sample"
  "gRxBuf (echo_sample f) = gRxBuf dev_sample"
  "mac (echo_sample f) = (mac dev_sample)\<lparr>rx_buf := replicate 4 (f @ replicate (1536 - length f) 0)\<rparr>"
  "arp_table (echo_sample f) = replicate ARP_TABLE_SIZE
     \<lparr>equeue = [], eip = 0, eeth = ethzero, estate = ETHARP_STATE_EMPTY, ctime = 0\<rparr>"
  "etharp_cached_entry (echo_sample f) = 0" "netif_listed (echo_sample f)" "udp_mem (echo_sample f) = [0 \<mapsto> echo_udp]"
  "udp_pcbs (echo_sample f) = [0]" "raw_pcbs (echo_sample f) = []"
  by (simp_all add: echo_sample_def arp.extend_def) (simp add: arp_init_def dev.extend_def)

lemma echo_sample_station:
  assumes "length f \<le> 1536"
  shows "station 0 (echo_sample f)" "tx_queue (mac (echo_sample f)) = []"
    "rx_queue (mac (echo_sample f)) = [(0x4000003F, f @ replicate (1536 - length f) 0)]"
    "\<exists>e \<in> set (arp_table (echo_sample f)). \<not> live e \<or> P e"
proof -
  have u: "unicast (nif dev_sample) (IP4_ADDR 192 1 1 168)"
    by (simp add: unicast_def IP4_ADDR_def htonl_def ip_addr_isbroadcast_def ip_addr_ismulticast_def dev_sample_def
        ip_addr_netcmp_def)
  then have c: "configured (nif dev_sample)"
    by (simp add: configured_def) (simp add: dev_sample_def ETHADDR_def)
  have m: "rx_ok (mac (echo_sample f))" "tx_ok (mac (echo_sample f))"
    using dev_sample_ok(1,2) assms by (simp_all add: rx_ok_def tx_ok_def rx_pidx_def rx_cidx_def tx_pidx_def tx_cidx_def)
  have a: "arp_ok (echo_sample f)" by (simp add: arp_ok_def table_ok_def live_def)
  have p: "pool_free (pm dev_sample) \<noteq> []" by (simp add: dev_sample_def pmem_init_def memp_init_eq)
  show "station 0 (echo_sample f)"
    unfolding station_def using m a c p dev_sample_ok by (simp add: echoing_def)
  show "tx_queue (mac (echo_sample f)) = []"
    by (simp add: tx_queue_def tx_cidx_def tx_pidx_def dev_sample_def emac_sample_def ring_idx_def)
  show "rx_queue (mac (echo_sample f)) = [(0x4000003F, f @ replicate (1536 - length f) 0)]"
    by (simp add: rx_queue_def rx_cidx_def rx_pidx_def dev_sample_def emac_sample_def ring_idx_def rx_slot_def)
  show "\<exists>e \<in> set (arp_table (echo_sample f)). \<not> live e \<or> P e" by (simp add: live_def)
qed

definition udp_ping :: "u8 list" where
  "udp_ping = [0, 0, 0, 0, 0, 1, 0, 26, 160, 1, 2, 3, 8, 0, 69, 0, 0, 32, 0, 7, 0, 0, 64, 17, 247, 168, 192, 1, 1, 115,
     192, 1, 1, 168, 19, 136, 34, 184, 0, 12, 103, 167, 112, 105, 110, 103] @ replicate 14 0"

lemma udp_ping_frame:
  "udp_frame (udp_ping @ pad) (peer_mac, IP4_ADDR 192 1 1 115, 5000) (ETHADDR, ip_addr (nif dev_sample), 8888) [112, 105, 110, 103]"
proof -
  have ip: "IP4_ADDR 192 1 1 115 = 0x730101C0" "ip_addr (nif dev_sample) = 0xA80101C0"
    by (simp_all add: IP4_ADDR_def htonl_def dev_sample_def)
  have c: "inet_chksum [69, 0, 0, 32, 0, 7, 0, 0, 64, 17, 247, 168, 192, 1, 1, 115, 192, 1, 1, 168] = 0"
    by code_simp
  have d: "inet_chksum_pseudo [[19, 136, 34, 184, 0, 12, 103, 167, 112, 105, 110, 103]] 0x730101C0 0xA80101C0 17 12 = 0"
    by code_simp
  have f: "field (udp_ping @ pad) 14 20 = [69, 0, 0, 32, 0, 7, 0, 0, 64, 17, 247, 168, 192, 1, 1, 115, 192, 1, 1, 168]"
    "field (udp_ping @ pad) 34 12 = [19, 136, 34, 184, 0, 12, 103, 167, 112, 105, 110, 103]"
    "field (udp_ping @ pad) 0 6 = ETHADDR" "field (udp_ping @ pad) 6 6 = peer_mac"
    "field (udp_ping @ pad) 42 (Suc (Suc (Suc (Suc 0)))) = [112, 105, 110, 103]"
    by (simp_all add: udp_ping_def field_def ETHADDR_def peer_mac_def)
  have g: "field16 (udp_ping @ pad) 12 = 8" "field16 (udp_ping @ pad) 14 = 0x45" "field16 (udp_ping @ pad) 16 = 0x2000"
    "field16 (udp_ping @ pad) 20 = 0" "field16 (udp_ping @ pad) 22 = 0x1140" "field32 (udp_ping @ pad) 26 = 0x730101C0"
    "field32 (udp_ping @ pad) 30 = 0xA80101C0" "field16 (udp_ping @ pad) 34 = 0x8813" "field16 (udp_ping @ pad) 36 = 0xB822"
    "field16 (udp_ping @ pad) 38 = 0x0C00"
    by (simp_all add: udp_ping_def field16_def field32_def u16_of_bytes_def u32_of_bytes_def)
  show ?thesis
    by (simp add: udp_frame_def eth_hdr_ok_def ip_packet_def ip f g c d IPH_V_def IPH_HL_def IPH_PROTO_def htons_def)
      (simp add: udp_ping_def)
qed

lemma udp_ping_hyps:
  fixes data :: "u8 list"
  defines "data \<equiv> [112, 105, 110, 103]"
  shows "station 0 (echo_sample udp_ping)" "length (tx_queue (mac (echo_sample udp_ping))) < 2"
    "rx_queue (mac (echo_sample udp_ping)) = (0x4000003F, udp_ping @ replicate (1536 - 60) 0) # []" "frame_good 0x4000003F"
    "42 + length data \<le> frame_size 0x4000003F - 3" "frame_size 0x4000003F - 3 \<le> 1500"
    "udp_frame (udp_ping @ replicate (1536 - 60) 0) (peer_mac, IP4_ADDR 192 1 1 115, 5000)
      (ETHADDR, ip_addr (nif (echo_sample udp_ping)), 8888) data"
    "unicast (nif (echo_sample udp_ping)) (IP4_ADDR 192 1 1 115)"
    "ip_addr_netcmp (IP4_ADDR 192 1 1 115) (ip_addr (nif (echo_sample udp_ping))) (netmask (nif (echo_sample udp_ping)))"
    "\<exists>e \<in> set (arp_table (echo_sample udp_ping)). \<not> live e \<or> eip e = IP4_ADDR 192 1 1 115"
    "tx_queue (mac (echo_sample udp_ping)) = []"
proof -
  have l: "length udp_ping = 60" by (simp add: udp_ping_def)
  then have "length udp_ping \<le> 1536" by simp
  note S = echo_sample_station [OF this, unfolded l]
  show "frame_good 0x4000003F" by (simp add: frame_good_def frame_size_def)
  have n: "frame_size 0x4000003F = 63" by (simp add: frame_size_def)
  show "42 + length data \<le> frame_size 0x4000003F - 3" "frame_size 0x4000003F - 3 \<le> 1500"
    unfolding n by (simp_all add: data_def)
  show "unicast (nif (echo_sample udp_ping)) (IP4_ADDR 192 1 1 115)"
    "ip_addr_netcmp (IP4_ADDR 192 1 1 115) (ip_addr (nif (echo_sample udp_ping))) (netmask (nif (echo_sample udp_ping)))"
    by (simp_all add: unicast_def IP4_ADDR_def htonl_def ip_addr_isbroadcast_def ip_addr_ismulticast_def dev_sample_def
        ip_addr_netcmp_def)
  show "udp_frame (udp_ping @ replicate (1536 - 60) 0) (peer_mac, IP4_ADDR 192 1 1 115, 5000)
      (ETHADDR, ip_addr (nif (echo_sample udp_ping)), 8888) data"
    using udp_ping_frame by (simp add: data_def)
  show "station 0 (echo_sample udp_ping)" "length (tx_queue (mac (echo_sample udp_ping))) < 2"
    "rx_queue (mac (echo_sample udp_ping)) = (0x4000003F, udp_ping @ replicate (1536 - 60) 0) # []"
    "\<exists>e \<in> set (arp_table (echo_sample udp_ping)). \<not> live e \<or> eip e = IP4_ADDR 192 1 1 115" "tx_queue (mac (echo_sample udp_ping)) = []"
    using S by simp_all
qed

lemma udp_ping_runs: "\<exists>e d'. ethernetif_input app_upper (echo_sample udp_ping) = Some (e, d')"
  using udp_echo_ok [OF udp_ping_hyps(1-10)] by blast


text \<open>
  C1. A UDP datagram for port 8888, received as one frame of at most 1500 bytes from a station of the local
  network, is answered by the UDP echo: one frame is queued for transmission, from the board's port 8888
  to port 8888 of the sender (whatever its source port was), with the same payload and with IP and UDP
  checksums that verify; the received packet and every other pbuf are accounted for (nothing leaks), the
  sender is in the ARP cache, and the station is ready for the next frame.
\<close>
theorem udp_echo_replies:
  fixes d :: "'a app_scheme"
  assumes "station i d" "length (tx_queue (mac d)) < 2"
    and "rx_queue (mac d) = (info, frame) # rest" "frame_good info"
    and "42 + length data \<le> frame_size info - 3" "frame_size info - 3 \<le> 1500"
    and "udp_frame frame (smac, sip, sport) (dmac, ip_addr (nif d), 8888) data"
    and "unicast (nif d) sip" "ip_addr_netcmp sip (ip_addr (nif d)) (netmask (nif d))"
    and "\<exists>e \<in> set (arp_table d). \<not> live e \<or> eip e = sip"
  shows "\<exists>d' r. ethernetif_input app_upper d = Some (ERR_OK, d') \<and> station i d' \<and> rx_queue (mac d') = rest \<and>
    tx_queue (mac d') = tx_queue (mac d) @ [r] \<and> length r = 42 + length data \<and>
    udp_frame r (hwaddr (nif d), ip_addr (nif d), 8888) (smac, sip, 8888) data \<and> field16 r 40 \<noteq> 0 \<and>
    nif d' = nif d \<and> pbufs (pm d') = pbufs (pm d) \<and> pools (pm d') = pools (pm d) \<and> heap (pm d') = heap (pm d) \<and>
    arp_lookup d' sip = Some smac \<and> flag d' = 0"
  using assms by (rule udp_echo_ok)

theorem udp_echo_replies_witness:
  "\<exists>d' r. ethernetif_input app_upper (echo_sample udp_ping) = Some (ERR_OK, d') \<and>
    tx_queue (mac d') = [r] \<and> length r = 46 \<and> field r 42 4 = [112, 105, 110, 103] \<and>
    udp_frame r (ETHADDR, IP4_ADDR 192 1 1 168, 8888) (peer_mac, IP4_ADDR 192 1 1 115, 8888) [112, 105, 110, 103]"
proof -
  let ?d = "echo_sample udp_ping" and ?data = "[112, 105, 110, 103] :: u8 list"
  have hw: "hwaddr (nif ?d) = ETHADDR" "ip_addr (nif ?d) = IP4_ADDR 192 1 1 168" by (simp_all add: dev_sample_def)
  obtain d' r where "ethernetif_input app_upper ?d = Some (ERR_OK, d')"
    "tx_queue (mac d') = [] @ [r]" "length r = 42 + length ?data"
    "udp_frame r (hwaddr (nif ?d), ip_addr (nif ?d), 8888) (peer_mac, IP4_ADDR 192 1 1 115, 8888) ?data"
    using udp_echo_replies [OF udp_ping_hyps(1-10)] unfolding udp_ping_hyps(11) by blast
  moreover from this(4) have "field r 42 4 = ?data" by (simp add: udp_frame_def eval_nat_numeral)
  ultimately show ?thesis unfolding hw by auto
qed

end
