(* ===== verification/Icmp_Echo.thy ===== *)
theory Icmp_Echo
  imports Udp_Echo
begin

text \<open>
  Ping: an echo request from the receive ring to the echo reply in the transmit ring, and the checksum that
  \<open>icmp_input\<close> adjusts instead of computing it anew.
\<close>

subsection \<open>The adjusted checksum\<close>

lemma adjust_chksum_unat:
  "unat (adjust_chksum c) = (if 65527 \<le> unat c then unat c - 65527 else unat c + 8)"
proof -
  have h: "adjust_chksum c = (if 0xfff7 \<le> c then c + 9 else c + 8)"
    by (simp add: adjust_chksum_def htons_def)
  have lt: "unat c < 65536" using unat_u16_le [of c] by simp
  show ?thesis
  proof (cases "65527 \<le> unat c")
    case True
    then have "(0xfff7 :: u16) \<le> c" by (simp add: word_le_nat_alt)
    moreover have "unat (c + 9) = unat c - 65527"
    proof -
      obtain k where k: "unat c = 65527 + k" using True by (metis le_add_diff_inverse)
      then have "(unat c + 9) mod 65536 = k" using lt by simp
      then show ?thesis using k by (simp add: unat_word_ariths)
    qed
    ultimately show ?thesis using True by (simp add: h)
  next
    case False
    then have "\<not> (0xfff7 :: u16) \<le> c" by (simp add: word_le_nat_alt)
    moreover have "unat (c + 8) = unat c + 8" using False by (subst unat_plus_small) simp_all
    ultimately show ?thesis using False by (simp add: h)
  qed
qed

lemma num_zero: "num bs = 0 \<longleftrightarrow> (\<forall>b \<in> set bs. b = 0)"
  by (induction bs) (auto simp: unat_eq_0)

lemma num_msg: "num ([t, code] @ bytes_of_u16 w @ body) = unat t + 256 * unat code + 65536 * (unat w + 65536 * num body)"
proof -
  have "num (bytes_of_u16 w @ body) = unat w + 65536 * num body"
    by (simp add: num_append num_bytes_of_u16)
  then show ?thesis by simp
qed

text \<open>
  The reply verifies when the request does, except for the one request whose reply is zero throughout:
  there the adjusted checksum is \<open>0\<close> where the sum needs \<open>0xffff\<close>.
\<close>

lemma echo_chksum:
  assumes len: "length body + 4 < 65536" and req: "inet_chksum ([8, code] @ bytes_of_u16 c @ body) = 0"
  shows "inet_chksum ([0, code] @ bytes_of_u16 (adjust_chksum c) @ body) =
    (if code = 0 \<and> (\<forall>b \<in> set body. b = 0) then 0xffff else 0)"
proof -
  let ?q = "[8, code] @ bytes_of_u16 c @ body" and ?r = "[0, code] @ bytes_of_u16 (adjust_chksum c) @ body"
  let ?m = "256 * unat code" and ?b = "num body"
  have lt: "unat c < 65536" using unat_u16_le [of c] by simp
  have l: "length ?q < 65536" "length ?r < 65536" using len by simp_all
  have q: "num ?q = 8 + ?m + 65536 * (unat c + 65536 * ?b)" unfolding num_msg by simp
  have r: "num ?r = ?m + 65536 * (unat (adjust_chksum c) + 65536 * ?b)" unfolding num_msg by simp
  have "65535 - ones (num ?q) = 0" using inet_chksum_spec [OF l(1)] req by (simp only: unsigned_0)
  then have "ones (num ?q) = 65535" using ones_le [of "num ?q"] by simp
  then have q0: "num ?q mod 65535 = 0" using oc_ones [of "num ?q"] by (simp add: oc_def)
  have r0: "num ?r mod 65535 = 0 \<and> (num ?r = 0 \<longleftrightarrow> ?m = 0 \<and> ?b = 0)"
  proof (cases "65527 \<le> unat c")
    case False
    then have e: "num ?r = num ?q + 8 * 65535" unfolding r q adjust_chksum_unat by simp
    have "\<not> (?m = 0 \<and> ?b = 0)"
    proof
      assume z: "?m = 0 \<and> ?b = 0"
      then have "(8 + 65536 * unat c) mod 65535 = 0" using q0 unfolding q by simp
      moreover have "8 + 65536 * unat c = 8 + unat c + 65535 * unat c" by simp
      ultimately have "(8 + unat c + 65535 * unat c) mod 65535 = 0" by (simp only:)
      then have "(8 + unat c) mod 65535 = 0" by (simp only: mod_mult_self2)
      moreover have "8 + unat c < 65535" using False by simp
      ultimately show False by simp
    qed
    moreover have "num ?r mod 65535 = 0" unfolding e using q0 by (simp only: mod_mult_self1)
    moreover have "num ?r \<noteq> 0" unfolding e by simp
    ultimately show ?thesis by blast
  next
    case True
    then obtain k where k: "unat c = 65527 + k" by (metis le_add_diff_inverse)
    have e: "num ?r + 65527 * 65536 + 8 = num ?q" unfolding r q adjust_chksum_unat using k by simp
    have "num ?r + 65528 * 65535 = num ?q" using e by simp
    then have m: "num ?r mod 65535 = 0" using q0 mod_mult_self1 [of "num ?r" 65528 65535] by (simp only:)
    have "num ?r = 0 \<longleftrightarrow> ?m = 0 \<and> ?b = 0"
    proof
      assume "?m = 0 \<and> ?b = 0"
      then have "num ?r = 65536 * k" unfolding r adjust_chksum_unat using k by simp
      moreover have "65536 * k = k + 65535 * k" by simp
      ultimately have "(k + 65535 * k) mod 65535 = 0" using m by (simp only:)
      then have "k mod 65535 = 0" by (simp only: mod_mult_self2)
      moreover have "k < 9" using k lt by simp
      ultimately have "k = 0" by simp
      then show "num ?r = 0" using \<open>num ?r = 65536 * k\<close> by simp
    next
      assume "num ?r = 0"
      then show "?m = 0 \<and> ?b = 0" unfolding r by simp
    qed
    then show ?thesis using m by blast
  qed
  have z: "?m = 0 \<and> ?b = 0 \<longleftrightarrow> code = 0 \<and> (\<forall>b \<in> set body. b = 0)"
    by (simp add: num_zero unat_eq_0)
  have s: "unat (inet_chksum ?r) = 65535 - ones (num ?r)" by (rule inet_chksum_spec [OF l(2)])
  note iff = trans [OF conjunct2 [OF r0] z]
  show ?thesis
  proof (cases "code = 0 \<and> (\<forall>b \<in> set body. b = 0)")
    case True
    have z: "num ?r = 0" using True by (rule iffD2 [OF iff])
    have "unat (inet_chksum ?r) = 65535" using s unfolding z ones_def by simp
    then show ?thesis unfolding if_P [OF True] by (intro word_eq_unatI) simp
  next
    case False
    have z: "num ?r \<noteq> 0" using False iffD1 [OF iff] by blast
    have "oc 65535 (num ?r)" unfolding oc_def using conjunct1 [OF r0] z by (simp only:) simp
    then have o: "ones (num ?r) = 65535" using ones_unique [of 65535 "num ?r"] by simp
    have "unat (inet_chksum ?r) = 0" using s unfolding o by simp
    then show ?thesis unfolding if_not_P [OF False] by (intro word_eq_unatI) simp
  qed
qed

subsection \<open>The echo\<close>

text \<open>An ICMP message on the wire; \<open>body\<close> is everything behind the checksum.\<close>

definition icmp_frame :: "u8 list \<Rightarrow> u8 list \<times> u32 \<Rightarrow> u8 list \<times> u32 \<Rightarrow> u8 \<Rightarrow> u8 \<Rightarrow> u8 list \<Rightarrow> bool" where
  "icmp_frame B src dst t code body \<longleftrightarrow>
     38 + length body \<le> length B \<and> eth_hdr_ok B (fst dst) (fst src) \<and>
     ip_packet B (snd src) (snd dst) IP_PROTO_ICMP (24 + length body) \<and>
     B ! 34 = t \<and> B ! 35 = code \<and> field B 38 (length body) = body"

definition icmp_sum :: "u8 list \<Rightarrow> nat \<Rightarrow> u16" where
  "icmp_sum B m = inet_chksum (field B 34 (4 + m))"

lemma icmp_bytes:
  assumes "icmp_frame B src dst t code body"
  shows "field B 34 (4 + length body) = [t, code] @ bytes_of_u16 (field16 B 36) @ body"
proof (rule nth_equalityI)
  have l: "38 + length body \<le> length B" using assms by (simp add: icmp_frame_def)
  then show "length (field B 34 (4 + length body)) = length ([t, code] @ bytes_of_u16 (field16 B 36) @ body)" by simp
  fix i
  assume "i < length (field B 34 (4 + length body))"
  then have i: "i < 4 + length body" using l by simp
  have e: "bytes_of_u16 (field16 B 36) = [B ! 36, B ! 37]" by (simp add: field16_def)
  have b: "body ! j = B ! (38 + j)" if "j < length body" for j
  proof -
    have "field B 38 (length body) ! j = B ! (38 + j)" using l that by (simp add: field_def)
    then show ?thesis using assms by (simp add: icmp_frame_def)
  qed
  have "i = 0 \<or> i = 1 \<or> i = 2 \<or> i = 3 \<or> (\<exists>j. i = Suc (Suc (Suc (Suc j))))" by presburger
  then show "field B 34 (4 + length body) ! i = ([t, code] @ bytes_of_u16 (field16 B 36) @ body) ! i"
    using i l assms b unfolding e by (elim disjE exE) (simp_all add: field_def icmp_frame_def numeral_3_eq_3)
qed

text \<open>The request rewritten in the window.\<close>

definition reply_fields :: "u8 list \<Rightarrow> u8 list" where
  "reply_fields A = splice 22 (bytes_of_u16 (IPH_TTL_SET ICMP_TTL (field16 A 22)))
    (splice 36 (bytes_of_u16 (adjust_chksum (field16 A 36)))
      (splice 34 [ICMP_ER] (splice 30 (field A 26 4) (splice 26 (field A 30 4) A))))"

definition reply_area :: "u8 list \<Rightarrow> u8 list" where
  "reply_area A = (let C = splice 24 [0, 0] (reply_fields A) in splice 24 (bytes_of_u16 (inet_chksum (field C 14 20))) C)"

lemma echo_reply_win:
  assumes A: "38 \<le> length A"
  shows "echo_reply p (Some (PData p, 14)) (win st p 34 n A) = Some (win st p 34 n (reply_area A))"
proof -
  have pt: "Some (PData p, 14 :: int) = Some (PData p, int 14)" by simp
  show ?thesis
    unfolding echo_reply_def pt using A
    by (simp add: reply_area_def reply_fields_def Let_def field_splice_other field16_splice_other del: of_nat_numeral)
qed


lemma field_field32: "j + 4 \<le> length A \<Longrightarrow> k + 4 \<le> length A \<Longrightarrow> field32 (splice k (field A j 4) A) k = field32 A j"
  by (simp add: field32_def nth_splice) (simp add: field_def)

lemma IPH_PROTO_TTL: "IPH_PROTO (IPH_TTL_SET t w) = IPH_PROTO w"
  by (rule bit_word_eqI) (auto simp: IPH_PROTO_def IPH_TTL_SET_def bit_simps and_mask_take_bit dest: bit_imp_le_length)

lemma reply_area_ok:
  assumes A: "38 + k \<le> length A" and ip: "ip_packet A src dst proto n"
  shows "length (reply_area A) = length A" "ip_packet (reply_area A) dst src proto n" "reply_area A ! 34 = 0"
    "reply_area A ! 35 = A ! 35" "field16 (reply_area A) 36 = adjust_chksum (field16 A 36)"
    "field (reply_area A) 38 k = field A 38 k"
proof -
  show "length (reply_area A) = length A" "reply_area A ! 34 = 0" "reply_area A ! 35 = A ! 35"
    "field (reply_area A) 38 k = field A 38 k" "field16 (reply_area A) 36 = adjust_chksum (field16 A 36)"
    using A by (simp_all add: reply_area_def reply_fields_def Let_def nth_splice field_splice_other field16_splice_other
        field16_splice_same)
  have s: "field32 (reply_area A) 26 = field32 A 30"
    using A by (simp add: reply_area_def reply_fields_def Let_def field32_splice_other field_field32)
  have t: "field32 (reply_area A) 30 = field32 A 26"
    using A by (simp add: reply_area_def reply_fields_def Let_def field32_splice_other) (simp add: field32_def nth_splice field_def)
  have "inet_chksum (field (reply_area A) 14 20) = 0"
    unfolding reply_area_def Let_def using A by (intro hdr_chksum_filled [OF _ refl]) (simp add: reply_fields_def)
  moreover have "IPH_PROTO (field16 (reply_area A) 22) = IPH_PROTO (field16 A 22)"
    using A by (simp add: reply_area_def reply_fields_def Let_def field16_splice_other field16_splice_same IPH_PROTO_TTL)
  moreover have "field16 (reply_area A) 14 = field16 A 14" "field16 (reply_area A) 16 = field16 A 16"
    "field16 (reply_area A) 20 = field16 A 20"
    using A by (simp_all add: reply_area_def reply_fields_def Let_def field16_splice_other)
  ultimately show "ip_packet (reply_area A) dst src proto n"
    using ip s t by (simp add: ip_packet_def)
qed

lemma area_cong:
  assumes "\<forall>j k. 14 \<le> j \<longrightarrow> field B j k = field A j k" "length B = length A"
  shows "14 \<le> j \<Longrightarrow> j < length A \<Longrightarrow> B ! j = A ! j" "14 \<le> j \<Longrightarrow> j + 2 \<le> length A \<Longrightarrow> field16 B j = field16 A j"
    "34 \<le> length A \<Longrightarrow> ip_packet B = ip_packet A"
proof -
  have n: "B ! j = A ! j" if "14 \<le> j" "j < length A" for j
    using arg_cong [OF mp [OF spec [OF spec [OF assms(1), of j], of 1]], of "\<lambda>xs. xs ! 0"] that assms(2) by (simp add: field_def)
  show "14 \<le> j \<Longrightarrow> j < length A \<Longrightarrow> B ! j = A ! j" by (rule n)
  show f16: "14 \<le> j \<Longrightarrow> j + 2 \<le> length A \<Longrightarrow> field16 B j = field16 A j" for j by (simp add: field16_def n)
  have "field32 B j = field32 A j" if "14 \<le> j" "j + 4 \<le> length A" for j using that by (simp add: field32_def n)
  then show "ip_packet B = ip_packet A" if "34 \<le> length A"
    using that f16 mp [OF spec [OF spec [OF assms(1), of 14], of 20]] by (intro ext) (simp add: ip_packet_def)
qed

text \<open>The request in the window: the reply is on its way, the pbuf back in the pool.\<close>

lemma icmp_input_win:
  fixes d :: "'a ip_scheme"
  assumes d: "pm d = win st (pool_addr q) 14 (24 + length body) A" and A: "length A = 1500" "4 \<le> length body"
    and f: "icmp_frame A (smac, sip) (dmac, ip_addr (nif d)) ICMP_ECHO code body" "icmp_sum A (length body) = 0"
    and r: "ready d sip h" and own: "unicast (nif d) (ip_addr (nif d))"
  shows "\<exists>B c g m. icmp_input (pool_addr q) d =
      Some (d\<lparr>pm := st\<lparr>pbufs := (pbufs st)(pool_addr q := None), bytes := (bytes st)(PData (pool_addr q) \<mapsto> B),
          pools := memp_free MEMP_PBUF_POOL (Some q) (pools st)\<rparr>,
        etharp_cached_entry := c, gTxBuf := g, mac := m\<rparr>) \<and>
    c < ARP_TABLE_SIZE \<and> length B = length A \<and> length g = 1536 \<and> tx_ok m \<and>
    tx_queue m = tx_queue (mac d) @ [field B 0 (38 + length body)] \<and> rx_queue m = rx_queue (mac d) \<and> rx_ok m = rx_ok (mac d) \<and>
    icmp_frame B (hwaddr (nif d), ip_addr (nif d)) (h, sip) ICMP_ER code body \<and>
    field16 B 36 = adjust_chksum (field16 A 36)"
proof -
  let ?p = "pool_addr q" and ?k = "length body" and ?me = "ip_addr (nif d)"
  note F = f(1) [unfolded icmp_frame_def, simplified]
  have k: "38 + ?k \<le> 1500" using F A by simp
  have pt: "Some (PData ?p, 14 :: int) = Some (PData ?p, int 14)" by simp
  have tl: "unat (of_nat (4 + ?k) :: u16) = 4 + ?k" by (rule unat_of_nat_lt) (use k in simp)
  have c: "\<not> (of_nat (4 + ?k) :: u16) < 4" "\<not> (of_nat (4 + ?k) :: u16) < 8"
    unfolding word_less_nat_alt tl using A(2) by simp_all
  have h1: "pbuf_header (Some ?p) (- 20) (win st ?p 14 (24 + ?k) A) = Some (0, win st ?p 34 (4 + ?k) A)"
    using win_header_neg [of 20 "24 + ?k" ?p st 14 A] k by simp
  have h2: "pbuf_header (Some ?p) 34 (win st ?p 34 (4 + ?k) A) = Some (0, win st ?p 0 (38 + ?k) A)"
    using win_header [of 34 34 "4 + ?k" ?p st A] k by (simp add: add.commute)
  have h3: "pbuf_header (Some ?p) (- 34) (win st ?p 0 (38 + ?k) A) = Some (0, win st ?p 34 (4 + ?k) A)"
    using win_header_neg [of 34 "38 + ?k" ?p st 0 A] k by simp
  let ?R = "reply_area A"
  have R: "length ?R = 1500" "ip_packet ?R ?me sip IP_PROTO_ICMP (24 + ?k)" "?R ! 34 = ICMP_ER" "?R ! 35 = code"
    "field16 ?R 36 = adjust_chksum (field16 A 36)" "field ?R 38 ?k = body"
    using reply_area_ok [of ?k, OF _ F [THEN conjunct2, THEN conjunct2, THEN conjunct1]] F A by simp_all
  have h4: "pbuf_header (Some ?p) 20 (win st ?p 34 (4 + ?k) ?R) = Some (0, win st ?p 14 (24 + ?k) ?R)"
    using win_header [of 20 34 "4 + ?k" ?p st ?R] k by (simp add: add.commute)
  have pl: "payloads (Some ?p) (win st ?p 34 (4 + ?k) A) = Some [field A 34 (4 + ?k)]"
    using A k by (intro win_payloads) simp_all
  have sum: "inet_chksum_pbuf [field A 34 (4 + ?k)] = 0" using f(2) A k inet_chksum_pbuf_eq [of "[field A 34 (4 + ?k)]"]
    by (simp add: icmp_sum_def)
  let ?d = "d\<lparr>pm := win st ?p 14 (24 + ?k) ?R\<rparr>"
  have s: "pm ?d = win st ?p 14 (24 + ?k) ?R" "14 + (24 + ?k) \<le> length ?R" "24 + ?k \<le> 1522" "34 \<le> length ?R" "ready ?d sip h"
    using R(1) k r by simp_all
  obtain B c g m where B: "ip_send ?p sip ?d = Some (ERR_OK, ?d\<lparr>pm := win st ?p 0 (14 + (24 + ?k)) B, etharp_cached_entry := c, gTxBuf := g, mac := m\<rparr>)"
    "c < ARP_TABLE_SIZE" "length B = length ?R" "eth_hdr_ok B h (hwaddr (nif ?d))" "ip_hdr_ok B = ip_hdr_ok ?R"
    "\<forall>j k. 14 \<le> j \<longrightarrow> field B j k = field ?R j k" "length g = 1536" "tx_ok m"
    "tx_queue m = tx_queue (mac ?d) @ [field B 0 (14 + (24 + ?k))]" "rx_queue m = rx_queue (mac ?d)" "rx_ok m = rx_ok (mac ?d)"
    using ip_send_win [OF s] by blast
  have dst: "get_u32 (win st ?p 14 (24 + ?k) ?R) ?p 16 = Some sip" using R by (simp add: ip_packet_def)
  have g: "ptr_get32 (win st ?p 34 (4 + ?k) A) (Some (PData ?p, 14)) 16 = Some ?me"
    "ptr_get32 (win st ?p 14 (24 + ?k) ?R) (Some (PData ?p, 14)) 12 = Some ?me"
    "ptr_get16 (win st ?p 14 (24 + ?k) A) (Some (PData ?p, 14)) 0 = Some (field16 A 14)"
    using A F R unfolding pt by (simp_all add: ip_packet_def del: of_nat_numeral)
  have sent: "ip_output_if ?p (Some ?me) None ICMP_TTL 0 IP_PROTO_ICMP ?d = ip_send ?p sip ?d"
    using dst by (simp add: ip_output_if_def)
  have ep: "echo_packet ?p (Some (PData ?p, 14)) 20 (win st ?p 34 (4 + ?k) A) = Some (Inr (?p, Some (PData ?p, 14), win st ?p 34 (4 + ?k) A))"
    using h2 h3 by (simp add: echo_packet_def)
  let ?e = "d\<lparr>pm := win st ?p 34 (4 + ?k) A\<rparr>"
  let ?f = "d\<lparr>pm := st\<lparr>pbufs := (pbufs st)(?p := None), bytes := (bytes st)(PData ?p \<mapsto> B),
          pools := memp_free MEMP_PBUF_POOL (Some q) (pools st)\<rparr>, etharp_cached_entry := c, gTxBuf := g, mac := m\<rparr>"
  have echo: "icmp_echo ?p (Some (PData ?p, 14)) 20 ?e = Some ?f"
    using g own c(2) pl sum ep echo_reply_win [of A ?p st "4 + ?k"] A h4 sent B(1)
    by (simp add: icmp_echo_def unicast_def free_packet_def win_free Let_def)
  have hl: "IPH_HL (field16 A 14) = 5" using F by (simp add: ip_packet_def)
  have run: "icmp_input ?p d = Some ?f"
    using d g(3) hl h1 c(1) echo F A by (simp add: icmp_input_def Let_def)
  have "icmp_frame B (hwaddr (nif d), ?me) (h, sip) ICMP_ER code body" "field16 B 36 = adjust_chksum (field16 A 36)"
    using area_cong [OF B(6,3)] R B(3,4) k spec [OF spec [OF B(6), of 38], of ?k] by (simp_all add: icmp_frame_def)
  then show ?thesis
    using run B(2,3,7-) R(1) A(1) by (intro exI [of _ B] exI [of _ c] exI [of _ g] exI [of _ m]) simp
qed

subsection \<open>One ping through the station\<close>

lemma icmp_frame_prefix:
  assumes e: "field B 0 n = field A 0 n" "n \<le> length A" "n \<le> length B" and n: "38 + length body \<le> n"
    and f: "icmp_frame A src dst t code body"
  shows "icmp_frame B src dst t code body" "icmp_sum B (length body) = icmp_sum A (length body)" "field16 B 36 = field16 A 36"
proof -
  note p = prefix_fields [OF e]
  have b: "B ! i = A ! i" if "i < n" for i
    using arg_cong [OF e(1), of "\<lambda>xs. xs ! i"] e(2,3) that by (simp add: field_def)
  have "34 \<le> n" using n by simp
  note h = prefix_headers [OF e this]
  have "field B 38 (length body) = field A 38 (length body)" using n by (intro p(1)) simp
  then show "icmp_frame B src dst t code body"
    using f n h b [of 34] b [of 35] e(3) by (simp add: icmp_frame_def)
  have "field B 34 (4 + length body) = field A 34 (4 + length body)" using n by (intro p(1)) simp
  then show "icmp_sum B (length body) = icmp_sum A (length body)" by (simp add: icmp_sum_def)
  show "field16 B 36 = field16 A 36" using n by (intro p(2)) simp
qed

lemma icmp_echo_ok:
  fixes d :: "'a app_scheme"
  assumes st: "station i d" and tx: "length (tx_queue (mac d)) < 2"
    and rx: "rx_queue (mac d) = (info, frame) # rest" "frame_good info"
    and n: "38 + length body \<le> frame_size info - 3" "frame_size info - 3 \<le> 1500" "4 \<le> length body"
    and f: "icmp_frame frame (smac, sip) (dmac, ip_addr (nif d)) ICMP_ECHO code body" "icmp_sum frame (length body) = 0"
    and sip: "unicast (nif d) sip" "ip_addr_netcmp sip (ip_addr (nif d)) (netmask (nif d))"
    and room: "\<exists>e \<in> set (arp_table d). \<not> live e \<or> eip e = sip"
  shows "\<exists>d' r. ethernetif_input up d = Some (ERR_OK, d') \<and> station i d' \<and> rx_queue (mac d') = rest \<and>
    tx_queue (mac d') = tx_queue (mac d) @ [r] \<and> length r = 38 + length body \<and>
    icmp_frame r (hwaddr (nif d), ip_addr (nif d)) (smac, sip) ICMP_ER code body \<and>
    icmp_sum r (length body) = (if code = 0 \<and> (\<forall>b \<in> set body. b = 0) then 0xffff else 0) \<and>
    nif d' = nif d \<and> pbufs (pm d') = pbufs (pm d) \<and> pools (pm d') = pools (pm d) \<and> heap (pm d') = heap (pm d) \<and>
    arp_lookup d' sip = Some smac"
proof -
  let ?k = "length body" and ?me = "ip_addr (nif d)"
  have l: "20 \<le> 24 + ?k" "14 + (24 + ?k) \<le> frame_size info - 3" using n(1) by linarith+
  have h: "eth_hdr_ok frame dmac smac" "ip_packet frame sip ?me IP_PROTO_ICMP (24 + ?k)" using f by (simp_all add: icmp_frame_def)
  obtain q ks A d2 where ar: "arrived i d q ks A d2" and p2: "pm d2 = win (rx_mem d ks) (pool_addr q) 14 (24 + ?k) A"
    and pre: "field A 0 (frame_size info - 3) = field frame 0 (frame_size info - 3)" "frame_size info - 3 \<le> length frame"
    and hA: "eth_hdr_ok A dmac smac" "ip_packet A sip ?me IP_PROTO_ICMP (24 + ?k)"
    and known: "arp_lookup d2 sip = Some smac" "ready d2 sip smac"
    and run: "\<forall>up. ethernetif_input up d = do { d \<leftarrow> ip_deliver up (pool_addr q) d2; Some (ERR_OK, d) }"
    by (rule receive_win [OF st tx rx l n(2) h sip room])
  note R = ar [unfolded arrived_def]
  have C: "configured (nif d)" using st by (simp add: station_def)
  have k: "38 + ?k \<le> 1500" using n by linarith
  let ?p = "pool_addr q"
  have lA: "length A = 1500" "frame_size info - 3 \<le> length A" using R n by simp_all
  note fA = icmp_frame_prefix [OF pre(1,2) lA(2) n(1) f(1)]
  have a: "icmp_frame A (smac, sip) (dmac, ip_addr (nif d2)) ICMP_ECHO code body" "icmp_sum A ?k = 0"
    "unicast (nif d2) (ip_addr (nif d2))"
    using fA f(2) R C by (simp_all add: configured_def)
  obtain B c g m where echo: "icmp_input ?p d2 =
      Some (d2\<lparr>pm := (rx_mem d ks)\<lparr>pbufs := (pbufs (rx_mem d ks))(?p := None), bytes := (bytes (rx_mem d ks))(PData ?p \<mapsto> B),
          pools := memp_free MEMP_PBUF_POOL (Some q) (pools (rx_mem d ks))\<rparr>,
        etharp_cached_entry := c, gTxBuf := g, mac := m\<rparr>)" (is "_ = Some ?d'")
    and e: "c < ARP_TABLE_SIZE" "length B = length A" "length g = 1536" "tx_ok m"
      "tx_queue m = tx_queue (mac d2) @ [field B 0 (38 + ?k)]" "rx_queue m = rx_queue (mac d2)" "rx_ok m = rx_ok (mac d2)"
    and w: "icmp_frame B (hwaddr (nif d2), ip_addr (nif d2)) (smac, sip) ICMP_ER code body"
      "field16 B 36 = adjust_chksum (field16 A 36)"
    using icmp_input_win [OF p2 lA(1) n(3) a(1,2) known(2) a(3)] by blast
  have tp: "ptr_get16 (pm d2) (Some (PData ?p, 14)) 8 = Some (field16 A 22)"
    using win_ptr_get16 [of 14 8 A "rx_mem d ks" ?p 14 "24 + ?k"] R p2 by simp
  have "ip_deliver up ?p d2 = Some ?d'"
    using hA tp R p2 echo by (simp add: ip_deliver_def raw_input_def Let_def ip_packet_def)
  then have "ethernetif_input up d = Some (ERR_OK, ?d')" using run by simp
  moreover have "station i ?d'" "pools (pm ?d') = pools (pm d)" "pbufs (pm ?d') = pbufs (pm d)" "heap (pm ?d') = heap (pm d)"
    using R e by (intro station_again [OF st ar e(2)]; simp)+
  moreover have "arp_lookup ?d' sip = Some smac" using known(1) by (simp add: arp_lookup_def)
  moreover have "icmp_frame (field B 0 (38 + ?k)) (hwaddr (nif d), ?me) (smac, sip) ICMP_ER code body \<and>
      icmp_sum (field B 0 (38 + ?k)) ?k = (if code = 0 \<and> (\<forall>b \<in> set body. b = 0) then 0xffff else 0)"
  proof -
    have lB: "38 + ?k \<le> length B" "38 + ?k \<le> length (field B 0 (38 + ?k))" using e(2) lA(1) k by simp_all
    note P = icmp_frame_prefix [OF field_prefix [OF lB(1)] lB(1,2) order_refl w(1)]
    have "inet_chksum ([ICMP_ECHO, code] @ bytes_of_u16 (field16 A 36) @ body) = 0"
      using a(2) unfolding icmp_sum_def icmp_bytes [OF a(1)] .
    from echo_chksum [OF _ this] have "icmp_sum B ?k = (if code = 0 \<and> (\<forall>b \<in> set body. b = 0) then 0xffff else 0)"
      unfolding icmp_sum_def icmp_bytes [OF w(1)] w(2) using k by simp
    then show ?thesis using P R by simp
  qed
  moreover have "nif ?d' = nif d" "rx_queue (mac ?d') = rest" "tx_queue (mac ?d') = tx_queue (mac d) @ [field B 0 (38 + ?k)]"
    "length (field B 0 (38 + ?k)) = 38 + ?k"
    using R e rx(1) k by simp_all
  ultimately show ?thesis by blast
qed

text \<open>A ping from 192.1.1.115.\<close>

definition ping_request :: "u8 list" where
  "ping_request = [0, 0, 0, 0, 0, 1, 0, 26, 160, 1, 2, 3, 8, 0, 69, 0, 0, 32, 0, 7, 0, 0, 64, 1, 247, 184, 192, 1, 1, 115,
     192, 1, 1, 168, 8, 0, 25, 37, 0, 1, 0, 9, 112, 105, 110, 103] @ replicate 14 0"

lemma ping_request_frame:
  "icmp_frame (ping_request @ pad) (peer_mac, IP4_ADDR 192 1 1 115) (ETHADDR, ip_addr (nif dev_sample)) ICMP_ECHO 0
     [0, 1, 0, 9, 112, 105, 110, 103] \<and> icmp_sum (ping_request @ pad) 8 = 0"
proof -
  have ip: "IP4_ADDR 192 1 1 115 = 0x730101C0" "ip_addr (nif dev_sample) = 0xA80101C0"
    by (simp_all add: IP4_ADDR_def htonl_def dev_sample_def)
  have c: "inet_chksum [69, 0, 0, 32, 0, 7, 0, 0, 64, 1, 247, 184, 192, 1, 1, 115, 192, 1, 1, 168] = 0"
    "inet_chksum [8, 0, 25, 37, 0, 1, 0, 9, 112, 105, 110, 103] = 0"
    by code_simp+
  have f: "field (ping_request @ pad) 14 20 = [69, 0, 0, 32, 0, 7, 0, 0, 64, 1, 247, 184, 192, 1, 1, 115, 192, 1, 1, 168]"
    "field (ping_request @ pad) 34 12 = [8, 0, 25, 37, 0, 1, 0, 9, 112, 105, 110, 103]"
    "field (ping_request @ pad) 0 6 = ETHADDR" "field (ping_request @ pad) 6 6 = peer_mac"
    "field (ping_request @ pad) 38 8 = [0, 1, 0, 9, 112, 105, 110, 103]"
    by (simp_all add: ping_request_def field_def ETHADDR_def peer_mac_def)
  have g: "field16 (ping_request @ pad) 12 = 8" "field16 (ping_request @ pad) 14 = 0x45" "field16 (ping_request @ pad) 16 = 0x2000"
    "field16 (ping_request @ pad) 20 = 0" "field16 (ping_request @ pad) 22 = 0x0140" "field32 (ping_request @ pad) 26 = 0x730101C0"
    "field32 (ping_request @ pad) 30 = 0xA80101C0" "(ping_request @ pad) ! 34 = 8" "(ping_request @ pad) ! 35 = 0"
    by (simp_all add: ping_request_def field16_def field32_def u16_of_bytes_def u32_of_bytes_def)
  have l: "length [0 :: u8, 1, 0, 9, 112, 105, 110, 103] = 8" by simp
  have "46 \<le> length (ping_request @ pad)" by (simp add: ping_request_def)
  then show ?thesis unfolding icmp_frame_def icmp_sum_def l
    by (simp add: eth_hdr_ok_def ip_packet_def ip f g c IPH_V_def IPH_HL_def IPH_PROTO_def htons_def)
qed

text \<open>
  C2. Ping: an ICMP echo request for the station, received as one frame of at most 1500 bytes from a host of
  the local network, is answered: one frame is queued for transmission, from the board to the sender, an
  echo reply with the same code, identifier, sequence number and data, and an IP checksum that verifies.
  The ICMP checksum, adjusted and not computed anew, verifies too, except in the one case where the code
  and everything behind the checksum are zero; there the sum of the reply is off (\<open>0xffff\<close>).  The packet
  is accounted for, the sender is in the ARP cache, and the station is ready for the next frame.
\<close>
theorem icmp_echo_replies:
  fixes d :: "'a app_scheme"
  assumes "station i d" "length (tx_queue (mac d)) < 2"
    and "rx_queue (mac d) = (info, frame) # rest" "frame_good info"
    and "38 + length body \<le> frame_size info - 3" "frame_size info - 3 \<le> 1500" "4 \<le> length body"
    and "icmp_frame frame (smac, sip) (dmac, ip_addr (nif d)) ICMP_ECHO code body" "icmp_sum frame (length body) = 0"
    and "unicast (nif d) sip" "ip_addr_netcmp sip (ip_addr (nif d)) (netmask (nif d))"
    and "\<exists>e \<in> set (arp_table d). \<not> live e \<or> eip e = sip"
  shows "\<exists>d' r. ethernetif_input up d = Some (ERR_OK, d') \<and> station i d' \<and> rx_queue (mac d') = rest \<and>
    tx_queue (mac d') = tx_queue (mac d) @ [r] \<and> length r = 38 + length body \<and>
    icmp_frame r (hwaddr (nif d), ip_addr (nif d)) (smac, sip) ICMP_ER code body \<and>
    icmp_sum r (length body) = (if code = 0 \<and> (\<forall>b \<in> set body. b = 0) then 0xffff else 0) \<and>
    nif d' = nif d \<and> pbufs (pm d') = pbufs (pm d) \<and> pools (pm d') = pools (pm d) \<and> heap (pm d') = heap (pm d) \<and>
    arp_lookup d' sip = Some smac"
  using assms by (rule icmp_echo_ok)

theorem icmp_echo_replies_witness:
  "\<exists>d' r. ethernetif_input app_upper (echo_sample ping_request) = Some (ERR_OK, d') \<and> tx_queue (mac d') = [r] \<and> length r = 46 \<and>
    icmp_frame r (ETHADDR, IP4_ADDR 192 1 1 168) (peer_mac, IP4_ADDR 192 1 1 115) ICMP_ER 0 [0, 1, 0, 9, 112, 105, 110, 103] \<and>
    icmp_sum r 8 = 0"
proof -
  let ?d = "echo_sample ping_request" and ?data = "[0, 1, 0, 9, 112, 105, 110, 103] :: u8 list"
  have l: "length ping_request = 60" by (simp add: ping_request_def)
  then have "length ping_request \<le> 1536" by simp
  note S = echo_sample_station [OF this, unfolded l]
  have n: "frame_good 0x4000003F" "frame_size 0x4000003F - 3 = 60" by (simp_all add: frame_good_def frame_size_def)
  have ip: "unicast (nif ?d) (IP4_ADDR 192 1 1 115)"
    "ip_addr_netcmp (IP4_ADDR 192 1 1 115) (ip_addr (nif ?d)) (netmask (nif ?d))"
    by (simp_all add: unicast_def IP4_ADDR_def htonl_def ip_addr_isbroadcast_def ip_addr_ismulticast_def dev_sample_def
        ip_addr_netcmp_def)
  have hw: "hwaddr (nif ?d) = ETHADDR" "ip_addr (nif ?d) = IP4_ADDR 192 1 1 168" by (simp_all add: dev_sample_def)
  have tx: "length (tx_queue (mac ?d)) < 2" using S(2) by simp
  have sz: "38 + length ?data \<le> frame_size 0x4000003F - 3" "frame_size 0x4000003F - 3 \<le> 1500" "4 \<le> length ?data"
    unfolding n(2) by simp_all
  have len: "length ?data = 8" by simp
  have fr: "icmp_frame (ping_request @ replicate (1536 - 60) 0) (peer_mac, IP4_ADDR 192 1 1 115) (ETHADDR, ip_addr (nif ?d)) ICMP_ECHO 0 ?data"
    "icmp_sum (ping_request @ replicate (1536 - 60) 0) (length ?data) = 0"
    using ping_request_frame unfolding len by simp_all
  obtain d' r where "ethernetif_input app_upper ?d = Some (ERR_OK, d')"
    "tx_queue (mac d') = [] @ [r]" "length r = 38 + length ?data"
    "icmp_frame r (hwaddr (nif ?d), ip_addr (nif ?d)) (peer_mac, IP4_ADDR 192 1 1 115) ICMP_ER 0 ?data"
    "icmp_sum r (length ?data) = (if (0 :: u8) = 0 \<and> (\<forall>b \<in> set ?data. b = 0) then 0xffff else 0)"
    using icmp_echo_replies [OF S(1) tx S(3) n(1) sz fr ip S(4), of app_upper] unfolding S(2) by blast
  then show ?thesis unfolding hw len by auto
qed

end
