(* ===== verification/Footprint.thy ===== *)
theory Footprint
  imports Tcp_Tmr
begin

text \<open>
  What the layers below TCP leave alone: the data of TCP in the state, and its memory pools.  \<open>ensures m P\<close> says
  that the result of \<open>m\<close>, if it has one, satisfies \<open>P\<close>; the rules \<open>wp\<close> follow the shape of a program.
\<close>

definition ensures :: "'b option \<Rightarrow> ('b \<Rightarrow> bool) \<Rightarrow> bool" where
  "ensures m P \<longleftrightarrow> (\<forall>r. m = Some r \<longrightarrow> P r)"

named_theorems wp

lemma ensuresI: "(\<And>r. m = Some r \<Longrightarrow> P r) \<Longrightarrow> ensures m P"
  by (simp add: ensures_def)

lemma ensuresD: "ensures m P \<Longrightarrow> m = Some r \<Longrightarrow> P r"
  by (simp add: ensures_def)

lemma ensures_mono: "ensures m Q \<Longrightarrow> (\<And>r. Q r \<Longrightarrow> P r) \<Longrightarrow> ensures m P"
  by (simp add: ensures_def)

lemma ensures_simps [simp]:
  "ensures None P" "ensures (Some r) P = P r" "ensures (m \<bind> f) P = ensures m (\<lambda>x. ensures (f x) P)"
  "ensures (map_option g m) P = ensures m (\<lambda>x. P (g x))"
  "ensures (case m of None \<Rightarrow> None | Some x \<Rightarrow> f x) P = ensures m (\<lambda>x. ensures (f x) P)"
  by (cases m; simp add: ensures_def)+

lemma ensures_if [wp]: "(c \<Longrightarrow> ensures a P) \<Longrightarrow> (\<not> c \<Longrightarrow> ensures b P) \<Longrightarrow> ensures (if c then a else b) P"
  by simp

lemma ensures_option [wp]:
  "(x = None \<Longrightarrow> ensures a P) \<Longrightarrow> (\<And>y. x = Some y \<Longrightarrow> ensures (f y) P) \<Longrightarrow> ensures (case x of None \<Rightarrow> a | Some y \<Rightarrow> f y) P"
  by (cases x) simp_all

lemma ensures_prod [wp]: "(\<And>a b. x = (a, b) \<Longrightarrow> ensures (f a b) P) \<Longrightarrow> ensures (case x of (a, b) \<Rightarrow> f a b) P"
  by (cases x) simp

lemma ensures_list [wp]:
  "(x = [] \<Longrightarrow> ensures a P) \<Longrightarrow> (\<And>y ys. x = y # ys \<Longrightarrow> ensures (f y ys) P) \<Longrightarrow> ensures (case x of [] \<Rightarrow> a | y # ys \<Rightarrow> f y ys) P"
  by (cases x) simp_all

lemma ensures_sum [wp]:
  "(\<And>y. x = Inl y \<Longrightarrow> ensures (f y) P) \<Longrightarrow> (\<And>y. x = Inr y \<Longrightarrow> ensures (g y) P) \<Longrightarrow> ensures (case x of Inl y \<Rightarrow> f y | Inr y \<Rightarrow> g y) P"
  by (cases x) simp_all

text \<open>A result that matters only as it is.\<close>

lemma ensures_read: "(\<And>x. P x) \<Longrightarrow> ensures m P"
  by (simp add: ensures_def)

subsection \<open>The packet memory\<close>

text \<open>What is read without effect.\<close>

lemmas ensures_reads [wp] =
  ensures_read [where m = "pbufs st a" for st a] ensures_read [where m = "bytes st r" for st r] ensures_read [where m = "read_at st q n" for st q n]
  ensures_read [where m = "packet_queue p st" for p st] ensures_read [where m = "mem_free a h" for a h] ensures_read [where m = "mem_malloc n h" for n h]
  ensures_read [where m = "mem_realloc a n h" for a n h] ensures_read [where m = "ptr_get st q i n" for st q i n]
  ensures_read [where m = "ptr_get8 st q i" for st q i] ensures_read [where m = "ptr_get16 st q i" for st q i]
  ensures_read [where m = "ptr_get32 st q i" for st q i] ensures_read [where m = "get_bytes st p i n" for st p i n]
  ensures_read [where m = "get_u8 st p i" for st p i] ensures_read [where m = "get_u16 st p i" for st p i] ensures_read [where m = "get_u32 st p i" for st p i]
  ensures_read [where m = "payloads p st" for p st] ensures_read [where m = "pbuf_clen p st" for p st] ensures_read [where m = "first_not_rom p st" for p st]
  ensures_read [where m = "pbuf_copy_partial p n i st" for p n i st]
  ensures_read [where m = "payload b" for b] ensures_read [where m = "nextp b" for b]

text \<open>
  The pools that packet buffers do not come from.  \<open>pr\<close> is any part of the pools that the two pools of pbufs have no
  effect on; every operation on the packet memory keeps it.
\<close>

named_theorems keeps

locale other_pools =
  fixes pr :: "memp_state \<Rightarrow> 'p"
  assumes free_other: "t = MEMP_PBUF \<or> t = MEMP_PBUF_POOL \<Longrightarrow> pr (memp_free t i pl) = pr pl"
    and malloc_other: "memp_malloc t pl = (r, pl') \<Longrightarrow> t = MEMP_PBUF \<or> t = MEMP_PBUF_POOL \<Longrightarrow> pr pl' = pr pl"
begin

lemma free_others [simp]: "pr (memp_free MEMP_PBUF i pl) = pr pl" "pr (memp_free MEMP_PBUF_POOL i pl) = pr pl"
  by (simp_all add: free_other)

lemmas malloc_others = malloc_other [where t = MEMP_PBUF, simplified] malloc_other [where t = MEMP_PBUF_POOL, simplified]

lemma upd_pbuf_keeps [keeps]:
  "(\<And>st'. pr (pools st') = pr (pools st) \<Longrightarrow> P st') \<Longrightarrow> ensures (upd_pbuf a f st) P"
  unfolding upd_pbuf_def by (auto intro!: wp keeps)

lemma write_at_keeps [keeps]:
  "(\<And>st'. pr (pools st') = pr (pools st) \<Longrightarrow> P st') \<Longrightarrow> ensures (write_at st q bs) P"
  unfolding write_at_def by (auto intro!: wp keeps intro: ensures_read)

lemma ptr_put_keeps [keeps]:
  "(\<And>st'. pr (pools st') = pr (pools st) \<Longrightarrow> P st') \<Longrightarrow> ensures (ptr_put q i bs st) P"
  unfolding ptr_put_def by (auto intro!: wp keeps)

lemma put_bytes_keeps [keeps]:
  "(\<And>st'. pr (pools st') = pr (pools st) \<Longrightarrow> P st') \<Longrightarrow> ensures (put_bytes p i bs st) P"
  unfolding put_bytes_def by (auto intro!: wp keeps)

lemma pbuf_dealloc_keeps [keeps]:
  "(\<And>st'. pr (pools st') = pr (pools st) \<Longrightarrow> P st') \<Longrightarrow> ensures (pbuf_dealloc a t st) P"
  unfolding pbuf_dealloc_def by (auto simp: Let_def intro!: wp keeps split: pbuf_type.split addr.split memp_t.split)

text \<open>The rule of an operation on the packet memory from what its results have in common.\<close>

lemma keeps_pools_wp:
  assumes "\<And>r. m = Some r \<Longrightarrow> pr (pools (snd r)) = pr (pools st)"
    and "\<And>x st'. pr (pools st') = pr (pools st) \<Longrightarrow> P (x, st')"
  shows "ensures m P"
  using assms by (fastforce intro: ensuresI)

lemma keeps_pools1_wp:
  assumes "\<And>r. m = Some r \<Longrightarrow> pr (pools r) = pr (pools st)"
    and "\<And>st'. pr (pools st') = pr (pools st) \<Longrightarrow> P st'"
  shows "ensures m P"
  using assms by (fastforce intro: ensuresI)

lemma pbuf_free_loop_pools:
  assumes "pbuf_free_loop p c st = Some r"
  shows "pr (pools (snd r)) = pr (pools st)"
proof (rule pbuf_free_loop.raw_induct [OF _ assms], goal_cases)
  case (1 loop p c st r)
  note [keeps] = keeps_pools_wp [where m = "loop p c st" and st = st for p c st, OF 1(1)]
  show ?case by (rule ensuresD [OF _ 1(2)]) (auto simp: Let_def intro!: wp keeps)
qed

lemmas pbuf_free_loop_keeps [keeps] = keeps_pools_wp [where m = "pbuf_free_loop p c st" and st = st for p c st, OF pbuf_free_loop_pools]

lemma pbuf_free_keeps [keeps]:
  "(\<And>x st'. pr (pools st') = pr (pools st) \<Longrightarrow> P (x, st')) \<Longrightarrow> ensures (pbuf_free p st) P"
  unfolding pbuf_free_def by (auto intro!: wp keeps)

lemma pool_tail_keeps [keeps]:
  "(\<And>x st'. pr (pools st') = pr (pools st) \<Longrightarrow> P (x, st')) \<Longrightarrow> ensures (pool_tail p r n st) P"
proof (induction n arbitrary: r st rule: less_induct)
  case (less n)
  show ?case
    unfolding pool_tail.simps [of p r n st] using less.prems
    by (auto simp: Let_def PBUF_POOL_BUFSIZE_ALIGNED_def intro!: wp keeps less.IH dest!: malloc_others)
qed

lemma pbuf_alloc_keeps [keeps]:
  "(\<And>x st'. pr (pools st') = pr (pools st) \<Longrightarrow> P (x, st')) \<Longrightarrow> ensures (pbuf_alloc l n t st) P"
  unfolding pbuf_alloc_def by (auto simp: Let_def intro!: wp keeps dest!: malloc_others split: pbuf_type.split)

lemma realloc_walk_pools:
  assumes "realloc_walk q n g st = Some r"
  shows "pr (pools (snd (snd r))) = pr (pools st)"
proof (rule realloc_walk.raw_induct [OF _ assms], goal_cases)
  case (1 loop q n g st r)
  show ?case using 1(2) by (auto dest!: 1(1) split: option.splits if_splits)
qed

lemma realloc_walk_keeps [keeps]:
  assumes "\<And>a k st'. pr (pools st') = pr (pools st) \<Longrightarrow> P (a, k, st')"
  shows "ensures (realloc_walk q n g st) P"
  using assms by (intro ensuresI) (auto dest!: realloc_walk_pools)

lemma realloc_ram_keeps [keeps]:
  "(\<And>st'. pr (pools st') = pr (pools st) \<Longrightarrow> P st') \<Longrightarrow> ensures (realloc_ram a n st) P"
  unfolding realloc_ram_def by (auto simp: Let_def intro!: wp keeps dest!: malloc_others split: addr.split)

lemma pbuf_realloc_keeps [keeps]:
  "(\<And>st'. pr (pools st') = pr (pools st) \<Longrightarrow> P st') \<Longrightarrow> ensures (pbuf_realloc a n st) P"
  unfolding pbuf_realloc_def by (auto simp: Let_def intro!: wp keeps dest!: malloc_others)

lemma pbuf_header_keeps [keeps]:
  "(\<And>x st'. pr (pools st') = pr (pools st) \<Longrightarrow> P (x, st')) \<Longrightarrow> ensures (pbuf_header p n st) P"
  unfolding pbuf_header_def by (auto simp: Let_def intro!: wp keeps dest!: malloc_others intro: ensures_read)

lemma pbuf_ref_keeps [keeps]:
  "(\<And>st'. pr (pools st') = pr (pools st) \<Longrightarrow> P st') \<Longrightarrow> ensures (pbuf_ref p st) P"
  unfolding pbuf_ref_def by (auto simp: Let_def intro!: wp keeps dest!: malloc_others)

lemma cat_loop_pools:
  assumes "cat_loop p t st = Some r"
  shows "pr (pools (r)) = pr (pools st)"
proof (rule cat_loop.raw_induct [OF _ assms], goal_cases)
  case (1 loop p t st r)
  note [keeps] = keeps_pools1_wp [where m = "loop p t st" and st = st for p t st, OF 1(1)]
  show ?case by (rule ensuresD [OF _ 1(2)]) (auto simp: Let_def intro!: wp keeps intro: ensures_read)
qed

lemmas cat_loop_keeps [keeps] = keeps_pools1_wp [where m = "cat_loop p t st" and st = st for p t st, OF cat_loop_pools]

lemma pbuf_cat_keeps [keeps]:
  "(\<And>st'. pr (pools st') = pr (pools st) \<Longrightarrow> P st') \<Longrightarrow> ensures (pbuf_cat p t st) P"
  unfolding pbuf_cat_def by (auto simp: Let_def intro!: wp keeps dest!: malloc_others)

lemma pbuf_chain_keeps [keeps]:
  "(\<And>st'. pr (pools st') = pr (pools st) \<Longrightarrow> P st') \<Longrightarrow> ensures (pbuf_chain p t st) P"
  unfolding pbuf_chain_def by (auto simp: Let_def intro!: wp keeps dest!: malloc_others)

lemma copy_loop_pools:
  assumes "copy_loop p i q j st = Some r"
  shows "pr (pools (snd r)) = pr (pools st)"
proof (rule copy_loop.raw_induct [OF _ assms], goal_cases)
  case (1 loop p i q j st r)
  note [keeps] = keeps_pools_wp [where m = "loop p i q j st" and st = st for p i q j st, OF 1(1)]
  show ?case by (rule ensuresD [OF _ 1(2)]; cases p; cases q) (auto simp: Let_def intro!: wp keeps)
qed

lemmas copy_loop_keeps [keeps] = keeps_pools_wp [where m = "copy_loop p i q j st" and st = st for p i q j st, OF copy_loop_pools]

lemma pbuf_copy_keeps [keeps]:
  "(\<And>x st'. pr (pools st') = pr (pools st) \<Longrightarrow> P (x, st')) \<Longrightarrow> ensures (pbuf_copy p q st) P"
  unfolding pbuf_copy_def by (auto simp: Let_def intro!: wp keeps dest!: malloc_others)

lemma take_over_keeps [keeps]:
  "(\<And>x st'. pr (pools st') = pr (pools st) \<Longrightarrow> P (x, st')) \<Longrightarrow> ensures (take_over p st) P"
  unfolding take_over_def
  by (auto simp: Let_def intro!: wp keeps)

end

subsection \<open>The pools of TCP\<close>

definition tcp_pools :: "memp_state \<Rightarrow> nat list \<times> nat list" where
  "tcp_pools pl = (pl MEMP_TCP_PCB, pl MEMP_TCP_PCB_LISTEN)"

lemma tcp_pools_free [simp]:
  "t \<noteq> MEMP_TCP_PCB \<Longrightarrow> t \<noteq> MEMP_TCP_PCB_LISTEN \<Longrightarrow> tcp_pools (memp_free t i pl) = tcp_pools pl"
  by (simp add: tcp_pools_def memp_free_def split: option.split)

lemma tcp_pools_malloc:
  "memp_malloc t pl = (r, pl') \<Longrightarrow> t \<noteq> MEMP_TCP_PCB \<Longrightarrow> t \<noteq> MEMP_TCP_PCB_LISTEN \<Longrightarrow> tcp_pools pl' = tcp_pools pl"
  by (auto simp: tcp_pools_def memp_malloc_def split: list.splits)

lemmas pools_malloc =
  tcp_pools_malloc [where t = MEMP_PBUF, simplified] tcp_pools_malloc [where t = MEMP_PBUF_POOL, simplified]
  tcp_pools_malloc [where t = MEMP_ARP_QUEUE, simplified] tcp_pools_malloc [where t = MEMP_TCP_SEG, simplified]

interpretation tp: other_pools tcp_pools
  by unfold_locales (auto dest: tcp_pools_malloc)

lemmas pbuf_tcp_pools [wp] = keeps

declare pbuf_tcp_pools [keeps del]

lemmas keeps_pools_wp = tp.keeps_pools_wp and keeps_pools1_wp = tp.keeps_pools1_wp

subsection \<open>ARP and IP\<close>

text \<open>What is above ARP, and above IP, in the state, with the pools of TCP.\<close>

definition above_arp :: "'a arp_scheme \<Rightarrow> 'a \<times> netif \<times> nat list \<times> nat list" where
  "above_arp d = (arp.more d, nif d, tcp_pools (pools (pm d)))"

definition above_ip :: "'a ip_scheme \<Rightarrow> 'a \<times> netif \<times> nat list \<times> nat list" where
  "above_ip d = (ip.more d, nif d, tcp_pools (pools (pm d)))"

lemma above_arp_simps [simp]:
  "tcp_pools (pools st) = tcp_pools (pools (pm d)) \<Longrightarrow> above_arp (d\<lparr>pm := st\<rparr>) = above_arp d"
  "above_arp (d\<lparr>etharp_cached_entry := i\<rparr>) = above_arp d" "above_arp (d\<lparr>arp_table := t\<rparr>) = above_arp d"
  "above_arp (d\<lparr>mac := m\<rparr>) = above_arp d" "above_arp (d\<lparr>gTxBuf := g\<rparr>) = above_arp d" "above_arp (upd_entry i f d) = above_arp d"
  by (simp_all add: above_arp_def upd_entry_def)

lemma above_ip_simps [simp]:
  "tcp_pools (pools st) = tcp_pools (pools (pm d)) \<Longrightarrow> above_ip (d\<lparr>pm := st\<rparr>) = above_ip d" "above_ip (d\<lparr>ip_id := i\<rparr>) = above_ip d"
  by (simp_all add: above_ip_def)

lemma above_arp_pools: "above_arp d' = above_arp d \<Longrightarrow> tcp_pools (pools (pm d')) = tcp_pools (pools (pm d))"
  by (simp add: above_arp_def)

lemma above_arp_ip: "above_arp d' = above_arp d \<Longrightarrow> above_ip d' = above_ip d" for d :: "'a ip_scheme"
  by (cases d; cases d') (simp add: above_arp_def above_ip_def)

lemma link_output_above [wp]:
  "(\<And>e d'. above_arp d' = above_arp d \<Longrightarrow> tcp_pools (pools (pm d')) = tcp_pools (pools (pm d)) \<Longrightarrow> P (e, d')) \<Longrightarrow>
    ensures (link_output p d) P"
  unfolding link_output_def low_level_output_def
  by (auto intro!: wp ensures_read [where m = "output_loop q n g st" for q n g st] ensures_read [where m = "ethernet_send x n m" for x n m])

lemma etharp_send_ip_above [wp]: "(\<And>e d'. above_arp d' = above_arp d \<Longrightarrow> P (e, d')) \<Longrightarrow> ensures (etharp_send_ip p src dst d) P"
  unfolding etharp_send_ip_def by (auto intro!: wp)

lemma etharp_raw_above [wp]: "(\<And>e d'. above_arp d' = above_arp d \<Longrightarrow> P (e, d')) \<Longrightarrow> ensures (etharp_raw a b c i h j op d) P"
  unfolding etharp_raw_def by (auto simp: Let_def intro!: wp)

lemma etharp_request_above [wp]: "(\<And>e d'. above_arp d' = above_arp d \<Longrightarrow> P (e, d')) \<Longrightarrow> ensures (etharp_request ip d) P"
  unfolding etharp_request_def by (auto intro!: wp)

lemma free_etharp_q_tcp_pools [wp]:
  "(\<And>st'. tcp_pools (pools st') = tcp_pools (pools st) \<Longrightarrow> P st') \<Longrightarrow> ensures (free_etharp_q q st) P"
  by (induction q arbitrary: st) (auto intro!: wp)

lemma find_entry_above [wp]: "(\<And>i d'. above_arp d' = above_arp d \<Longrightarrow> P (i, d')) \<Longrightarrow> ensures (find_entry ip fl d) P"
  unfolding find_entry_def select_entry_def reset_entry_def
  by (auto simp: Let_def intro!: wp split: option.split sum.split)

lemma queue_packet_above [wp]: "(\<And>e d'. above_arp d' = above_arp d \<Longrightarrow> P (e, d')) \<Longrightarrow> ensures (queue_packet i p e d) P"
  unfolding queue_packet_def by (auto simp: Let_def intro!: wp dest!: pools_malloc)

lemma query_entry_above [wp]: "(\<And>e d'. above_arp d' = above_arp d \<Longrightarrow> P (e, d')) \<Longrightarrow> ensures (query_entry i ip p d) P"
  unfolding query_entry_def by (auto simp: Let_def intro!: wp)

lemma etharp_query_above [wp]: "(\<And>e d'. above_arp d' = above_arp d \<Longrightarrow> P (e, d')) \<Longrightarrow> ensures (etharp_query ip p d) P"
  unfolding etharp_query_def by (auto intro!: wp)

lemma etharp_output_above [wp]: "(\<And>e d'. above_arp d' = above_arp d \<Longrightarrow> P (e, d')) \<Longrightarrow> ensures (etharp_output p ip d) P"
  unfolding etharp_output_def by (auto simp: Let_def intro!: wp)

lemma netif_output_above [wp]:
  "(\<And>e d'. above_ip d' = above_ip d \<Longrightarrow> tcp_pools (pools (pm d')) = tcp_pools (pools (pm d)) \<Longrightarrow> P (e, d')) \<Longrightarrow>
    ensures (netif_output p ip d) P"
  unfolding netif_output_def by (auto intro!: wp intro: above_arp_ip above_arp_pools)

lemma frag_fill_tcp_pools [wp]:
  "(\<And>x st'. tcp_pools (pools st') = tcp_pools (pools st) \<Longrightarrow> P (x, st')) \<Longrightarrow> ensures (frag_fill p a b c st) P"
  unfolding frag_fill_def by (auto intro!: wp)

lemma frag_loop_same:
  assumes "frag_loop p rb dest m omf left ofo poff d = Some r"
  shows "above_ip (snd r) = above_ip d"
proof (rule frag_loop.raw_induct [OF _ assms], goal_cases)
  case (1 loop p rb dest m omf left ofo poff d r)
  have [wp]: "(\<And>e d'. above_ip d' = above_ip d \<Longrightarrow> P (e, d')) \<Longrightarrow> ensures (loop p rb dest m omf left ofo poff d) P"
    for P p rb dest m omf left ofo poff d
    using 1(1) by (fastforce intro: ensuresI)
  show ?case by (rule ensuresD [OF _ 1(2)]) (auto simp: Let_def intro!: wp)
qed

lemma frag_loop_above [wp]:
  "(\<And>e d'. above_ip d' = above_ip d \<Longrightarrow> P (e, d')) \<Longrightarrow> ensures (frag_loop p rb dest m omf left ofo poff d) P"
  using frag_loop_same by (fastforce intro: ensuresI)

lemma ip_send_above [wp]: "(\<And>e d'. above_ip d' = above_ip d \<Longrightarrow> P (e, d')) \<Longrightarrow> ensures (ip_send p dest d) P"
  unfolding ip_send_def ip_frag_def by (auto simp: Let_def intro!: wp)

lemma ip_output_if_above [wp]:
  "(\<And>e d'. above_ip d' = above_ip d \<Longrightarrow> P (e, d')) \<Longrightarrow> ensures (ip_output_if p src dest t s proto d) P"
  unfolding ip_output_if_def ip_header_def by (auto simp: Let_def intro!: wp)

lemma ip_output_above [wp]:
  "(\<And>e d'. above_ip d' = above_ip d \<Longrightarrow> P (e, d')) \<Longrightarrow> ensures (ip_output p src dest t s proto d) P"
  unfolding ip_output_def by (auto intro!: wp)

end
