(* ===== verification/Tcp_Table.thy ===== *)
theory Tcp_Table
  imports Footprint
begin

text \<open>
  The connection table: the lists of \<open>tcp.c\<close>, the state of every control block in use, and the free elements of
  the two pools.  Most of TCP does not change it; the rules below say so of every operation that sends, queues or
  receives data.
\<close>

record table =
  bound :: "nat list"
  active :: "nat list"
  tws :: "nat list"
  listening :: "nat list"
  states :: "nat \<rightharpoonup> tcp_state"
  listeners :: "nat set"
  free_pcbs :: "nat list"
  free_listeners :: "nat list"

definition table_of :: "'a tcp_scheme \<Rightarrow> table" where
  "table_of d = \<lparr>bound = tcp_bound_pcbs d, active = tcp_active_pcbs d, tws = tcp_tw_pcbs d, listening = tcp_listen_pcbs d,
     states = (\<lambda>i. map_option tstate (tcp_mem d i)), listeners = dom (listen_mem d),
     free_pcbs = pools (pm d) MEMP_TCP_PCB, free_listeners = pools (pm d) MEMP_TCP_PCB_LISTEN\<rparr>"

lemma table_of_simps [simp]:
  "tcp_pools (pools st) = tcp_pools (pools (pm d)) \<Longrightarrow> table_of (d\<lparr>pm := st\<rparr>) = table_of d"
  "table_of (d\<lparr>tcp_ticks := t\<rparr>) = table_of d" "table_of (d\<lparr>tcp_timer := k\<rparr>) = table_of d" "table_of (d\<lparr>tcp_input_pcb := q\<rparr>) = table_of d"
  "table_of (d\<lparr>tcp_iss := t\<rparr>) = table_of d" "table_of (d\<lparr>tcp_port := p\<rparr>) = table_of d" "table_of (d\<lparr>lprio := lp\<rparr>) = table_of d"
  "table_of (d\<lparr>tcp_active_pcbs := xs\<rparr>) = (table_of d)\<lparr>active := xs\<rparr>"
  "table_of (d\<lparr>tcp_bound_pcbs := xs\<rparr>) = (table_of d)\<lparr>bound := xs\<rparr>"
  "table_of (d\<lparr>tcp_tw_pcbs := xs\<rparr>) = (table_of d)\<lparr>tws := xs\<rparr>"
  "table_of (d\<lparr>tcp_listen_pcbs := xs\<rparr>) = (table_of d)\<lparr>listening := xs\<rparr>"
  by (simp_all add: table_of_def tcp_pools_def)

lemma table_of_fields:
  "tcp_active_pcbs d = active (table_of d)" "tcp_bound_pcbs d = bound (table_of d)" "tcp_tw_pcbs d = tws (table_of d)"
  "tcp_listen_pcbs d = listening (table_of d)" "tcp_mem d i = None \<longleftrightarrow> states (table_of d) i = None"
  "dom (listen_mem d) = listeners (table_of d)" "pools (pm d) MEMP_TCP_PCB = free_pcbs (table_of d)"
  "pools (pm d) MEMP_TCP_PCB_LISTEN = free_listeners (table_of d)"
  by (simp_all add: table_of_def)

lemma states_Some: "tcp_mem d i = Some u \<Longrightarrow> states (table_of d) i = Some (tstate u)"
  by (simp add: table_of_def)

lemma above_ip_table: "above_ip d' = above_ip d \<Longrightarrow> table_of d' = table_of d" for d :: "'a tcp_scheme"
  by (cases d; cases d') (simp add: above_ip_def table_of_def tcp_pools_def)

lemma table_pools: "table_of d' = table_of d \<Longrightarrow> tcp_pools (pools (pm d')) = tcp_pools (pools (pm d))"
  by (simp add: table_of_def tcp_pools_def)

text \<open>The rule of an operation that leaves the table as it is, from that fact.\<close>

lemma table_same1:
  assumes "\<And>r. m = Some r \<Longrightarrow> table_of r = table_of d"
    and "\<And>d'. table_of d' = table_of d \<Longrightarrow> tcp_pools (pools (pm d')) = tcp_pools (pools (pm d)) \<Longrightarrow> P d'"
  shows "ensures m P"
  using assms by (fastforce intro: ensuresI dest: table_pools)

lemma table_same:
  assumes "\<And>r. m = Some r \<Longrightarrow> table_of (snd r) = table_of d"
    and "\<And>x d'. table_of d' = table_of d \<Longrightarrow> tcp_pools (pools (pm d')) = tcp_pools (pools (pm d)) \<Longrightarrow> P (x, d')"
  shows "ensures m P"
  using assms by (fastforce intro: ensuresI dest: table_pools)

lemma ip_output_table [wp]:
  fixes d :: "'a tcp_scheme"
  assumes "\<And>e d'. table_of d' = table_of d \<Longrightarrow> tcp_pools (pools (pm d')) = tcp_pools (pools (pm d)) \<Longrightarrow> P (e, d')"
  shows "ensures (ip_output p src dest t s proto d) P"
  by (rule ip_output_above) (blast intro: assms above_ip_table table_pools)

lemma tcp_mem_table [wp]: "(\<And>u. tcp_mem d i = Some u \<Longrightarrow> states (table_of d) i = Some (tstate u) \<Longrightarrow> P u) \<Longrightarrow> ensures (tcp_mem d i) P"
  by (rule ensuresI) (simp add: states_Some)

lemma upd_tcp_table [wp]:
  assumes "\<And>u. tcp_mem d i = Some u \<Longrightarrow> states (table_of d) i = Some (tstate u) \<Longrightarrow> tstate (f u) = tstate u"
    and "\<And>d'. table_of d' = table_of d \<Longrightarrow> tcp_pools (pools (pm d')) = tcp_pools (pools (pm d)) \<Longrightarrow> P d'"
  shows "ensures (upd_tcp i f d) P"
  using assms by (auto simp: upd_tcp_def ensures_def table_of_def fun_eq_iff)

lemma upd_tcp_state:
  assumes "\<And>u. tstate (f u) = s"
    and "\<And>d'. table_of d' = (table_of d)\<lparr>states := (states (table_of d))(i \<mapsto> s)\<rparr> \<Longrightarrow> states (table_of d) i \<noteq> None \<Longrightarrow>
      tcp_pools (pools (pm d')) = tcp_pools (pools (pm d)) \<Longrightarrow> P d'"
  shows "ensures (upd_tcp i f d) P"
  using assms by (auto simp: upd_tcp_def ensures_def table_of_def fun_eq_iff)

lemma free_packet_table [wp]:
  fixes d :: "'a tcp_scheme"
  assumes "\<And>d'. table_of d' = table_of d \<Longrightarrow> tcp_pools (pools (pm d')) = tcp_pools (pools (pm d)) \<Longrightarrow> P d'"
  shows "ensures (free_packet p d) P"
  unfolding free_packet_def by (auto intro!: wp assms)

lemma tstate_pure [simp]:
  "tstate (fast_retransmit_cwnd u) = tstate u" "tstate (inflate_cwnd u) = tstate u" "tstate (update_window x w u) = tstate u"
  "tstate (rtt_estimate t u) = tstate u" "tstate (rto_backoff u) = tstate u" "tstate (snd (tcp_update_rcv_ann_wnd u)) = tstate u"
  by (simp_all add: fast_retransmit_cwnd_def inflate_cwnd_def update_window_def rtt_estimate_def rto_backoff_def
      tcp_update_rcv_ann_wnd_def Let_def)

lemma update_rcv_ann_wnd_state: "tcp_update_rcv_ann_wnd u = (w, v) \<Longrightarrow> tstate v = tstate u"
  using tstate_pure(6) [of u] by simp

lemma open_cwnd_state [wp]: "(\<And>v. tstate v = tstate u \<Longrightarrow> P v) \<Longrightarrow> ensures (open_cwnd u) P"
  unfolding open_cwnd_def by (auto simp: Let_def intro!: wp)

subsection \<open>Output\<close>

lemmas tcp_reads [wp] =
  ensures_read [where m = "seg_seqno st s" for st s] ensures_read [where m = "TCP_TCPLEN st s" for st s]
  ensures_read [where m = "hdr_flags st s" for st s] ensures_read [where m = "insert_seg st s q" for st s q]
  ensures_read [where m = "segp s" for s] ensures_read [where m = "in_p x" for x] ensures_read [where m = "in_TCPLEN st x" for st x]
  ensures_read [where m = "seg_tcphdr s" for s] ensures_read [where m = "seg_dataptr s" for s]

lemma upd_flags_tcp_pools [wp]:
  "(\<And>st'. tcp_pools (pools st') = tcp_pools (pools st) \<Longrightarrow> P st') \<Longrightarrow> ensures (upd_flags f h st) P"
  unfolding upd_flags_def by (auto intro!: wp)

lemma tcp_chksum_tcp_pools [wp]:
  "(\<And>st'. tcp_pools (pools st') = tcp_pools (pools st) \<Longrightarrow> P st') \<Longrightarrow> ensures (tcp_chksum p h s t st) P"
  unfolding tcp_chksum_def by (auto intro!: wp)

lemma tcp_seg_free_table [wp]:
  fixes d :: "'a tcp_scheme"
  assumes "\<And>n d'. table_of d' = table_of d \<Longrightarrow> tcp_pools (pools (pm d')) = tcp_pools (pools (pm d)) \<Longrightarrow> P (n, d')"
  shows "ensures (tcp_seg_free s d) P"
  unfolding tcp_seg_free_def by (auto intro!: wp assms)

lemma tcp_segs_free_table [wp]:
  fixes d :: "'a tcp_scheme"
  shows "(\<And>n d'. table_of d' = table_of d \<Longrightarrow> tcp_pools (pools (pm d')) = tcp_pools (pools (pm d)) \<Longrightarrow> P (n, d')) \<Longrightarrow>
    ensures (tcp_segs_free q d) P"
  by (induction q arbitrary: d P) (auto intro!: wp)

lemma tcp_output_set_header_table [wp]:
  assumes "\<And>h d'. table_of d' = table_of d \<Longrightarrow> tcp_pools (pools (pm d')) = tcp_pools (pools (pm d)) \<Longrightarrow> P (h, d')"
  shows "ensures (tcp_output_set_header i p n s d) P"
  unfolding tcp_output_set_header_def by (auto simp: Let_def intro!: wp assms)

lemma tcp_output_segment_table [wp]:
  assumes "\<And>d'. table_of d' = table_of d \<Longrightarrow> tcp_pools (pools (pm d')) = tcp_pools (pools (pm d)) \<Longrightarrow> P d'"
  shows "ensures (tcp_output_segment s i d) P"
  unfolding tcp_output_segment_def by (auto simp: Let_def intro!: wp assms)

lemma send_empty_ack_table [wp]:
  assumes "\<And>x d'. table_of d' = table_of d \<Longrightarrow> tcp_pools (pools (pm d')) = tcp_pools (pools (pm d)) \<Longrightarrow> P (x, d')"
  shows "ensures (send_empty_ack i d) P"
  unfolding send_empty_ack_def by (auto simp: Let_def intro!: wp assms)

lemma queue_unacked_table [wp]:
  assumes "\<And>d'. table_of d' = table_of d \<Longrightarrow> tcp_pools (pools (pm d')) = tcp_pools (pools (pm d)) \<Longrightarrow> P d'"
  shows "ensures (queue_unacked s i d) P"
  unfolding queue_unacked_def by (auto simp: Let_def intro!: wp assms)

lemma send_first_table [wp]:
  assumes "\<And>d'. table_of d' = table_of d \<Longrightarrow> tcp_pools (pools (pm d')) = tcp_pools (pools (pm d)) \<Longrightarrow> P d'"
  shows "ensures (send_first i d) P"
  unfolding send_first_def by (auto simp: Let_def intro!: wp assms)

lemma output_segs_same:
  assumes "output_segs w i d = Some r"
  shows "table_of (r) = table_of d"
proof (rule output_segs.raw_induct [OF _ assms], goal_cases)
  case (1 loop w i d r)
  note [wp] = table_same1 [where m = "loop w i d" and d = d for w i d, OF 1(1)]
  show ?case by (rule ensuresD [OF _ 1(2)]) (auto simp: Let_def intro!: wp)
qed

lemmas output_segs_table [wp] = table_same1 [where m = "output_segs w i d" and d = d for w i d, OF output_segs_same]

lemma start_persist_table [wp]:
  assumes "\<And>d'. table_of d' = table_of d \<Longrightarrow> tcp_pools (pools (pm d')) = tcp_pools (pools (pm d)) \<Longrightarrow> P d'"
  shows "ensures (start_persist i d) P"
  unfolding start_persist_def by (auto simp: Let_def intro!: wp assms)

lemma tcp_output_table [wp]:
  assumes "\<And>x d'. table_of d' = table_of d \<Longrightarrow> tcp_pools (pools (pm d')) = tcp_pools (pools (pm d)) \<Longrightarrow> P (x, d')"
  shows "ensures (tcp_output i d) P"
  unfolding tcp_output_def by (auto simp: Let_def intro!: wp assms)

lemma tcp_ack_now_table [wp]:
  assumes "\<And>d'. table_of d' = table_of d \<Longrightarrow> tcp_pools (pools (pm d')) = tcp_pools (pools (pm d)) \<Longrightarrow> P d'"
  shows "ensures (tcp_ack_now i d) P"
  unfolding tcp_ack_now_def by (auto simp: Let_def intro!: wp assms)

lemma tcp_ack_table [wp]:
  assumes "\<And>d'. table_of d' = table_of d \<Longrightarrow> tcp_pools (pools (pm d')) = tcp_pools (pools (pm d)) \<Longrightarrow> P d'"
  shows "ensures (tcp_ack i d) P"
  unfolding tcp_ack_def by (auto simp: Let_def intro!: wp assms)

lemma tcp_rst_table [wp]:
  assumes "\<And>d'. table_of d' = table_of d \<Longrightarrow> tcp_pools (pools (pm d')) = tcp_pools (pools (pm d)) \<Longrightarrow> P d'"
  shows "ensures (tcp_rst sq ak sip dip lport rport d) P"
  unfolding tcp_rst_def by (auto simp: Let_def intro!: wp assms)

lemma tcp_rexmit_rto_table [wp]:
  assumes "\<And>d'. table_of d' = table_of d \<Longrightarrow> tcp_pools (pools (pm d')) = tcp_pools (pools (pm d)) \<Longrightarrow> P d'"
  shows "ensures (tcp_rexmit_rto i d) P"
  unfolding tcp_rexmit_rto_def by (auto simp: Let_def intro!: wp assms)

lemma tcp_rexmit_table [wp]:
  assumes "\<And>d'. table_of d' = table_of d \<Longrightarrow> tcp_pools (pools (pm d')) = tcp_pools (pools (pm d)) \<Longrightarrow> P d'"
  shows "ensures (tcp_rexmit i d) P"
  unfolding tcp_rexmit_def by (auto simp: Let_def intro!: wp assms)

lemma tcp_keepalive_table [wp]:
  assumes "\<And>d'. table_of d' = table_of d \<Longrightarrow> tcp_pools (pools (pm d')) = tcp_pools (pools (pm d)) \<Longrightarrow> P d'"
  shows "ensures (tcp_keepalive i d) P"
  unfolding tcp_keepalive_def by (auto simp: Let_def intro!: wp assms)

lemma tcp_zero_window_probe_table [wp]:
  assumes "\<And>d'. table_of d' = table_of d \<Longrightarrow> tcp_pools (pools (pm d')) = tcp_pools (pools (pm d)) \<Longrightarrow> P d'"
  shows "ensures (tcp_zero_window_probe i d) P"
  unfolding tcp_zero_window_probe_def by (auto simp: Let_def intro!: wp assms)

subsection \<open>Queueing\<close>

lemma seg_copy_tcp_pools [wp]:
  assumes "\<And>a st'. tcp_pools (pools st') = tcp_pools (pools st) \<Longrightarrow> P (Inl (a, st'))"
    and "\<And>a m st'. tcp_pools (pools st') = tcp_pools (pools st) \<Longrightarrow> P (Inr (a, m, st'))"
  shows "ensures (seg_copy q n ol s k st) P"
  unfolding seg_copy_def by (auto simp: Let_def intro!: wp assms dest!: pools_malloc)

lemma seg_refer_tcp_pools [wp]:
  assumes "\<And>a st'. tcp_pools (pools st') = tcp_pools (pools st) \<Longrightarrow> P (Inl (a, st'))"
    and "\<And>a m st'. tcp_pools (pools st') = tcp_pools (pools st) \<Longrightarrow> P (Inr (a, m, st'))"
  shows "ensures (seg_refer q l n ol s k st) P"
  unfolding seg_refer_def by (auto simp: Let_def intro!: wp assms dest!: pools_malloc)

lemma seg_header_tcp_pools [wp]:
  assumes "\<And>st'. tcp_pools (pools st') = tcp_pools (pools st) \<Longrightarrow> P st'"
  shows "ensures (seg_header u sq fl ol h st) P"
  unfolding seg_header_def by (auto simp: Let_def intro!: wp assms)

lemma make_seg_tcp_pools [wp]:
  assumes "\<And>a st'. tcp_pools (pools st') = tcp_pools (pools st) \<Longrightarrow> P (Inl (a, st'))"
    and "\<And>a m st'. tcp_pools (pools st') = tcp_pools (pools st) \<Longrightarrow> P (Inr (a, m, st'))"
  shows "ensures (make_seg u q l n sq k fl ap os ol st) P"
  unfolding make_seg_def by (auto simp: Let_def intro!: wp assms dest!: pools_malloc)

lemma seg_loop_pools:
  assumes "seg_loop u q l n sq k fl ap os ol queue st = Some r"
  shows "tcp_pools (pools (case r of Inl (_, st') \<Rightarrow> st' | Inr (_, _, _, st') \<Rightarrow> st')) = tcp_pools (pools st)"
proof (rule seg_loop.raw_induct [OF _ assms], goal_cases)
  case (1 loop u q l n sq k fl ap os ol queue st r)
  have [wp]: "ensures (loop u q l n sq k fl ap os ol queue st) P"
    if "\<And>a st'. tcp_pools (pools st') = tcp_pools (pools st) \<Longrightarrow> P (Inl (a, st'))"
      "\<And>a b c st'. tcp_pools (pools st') = tcp_pools (pools st) \<Longrightarrow> P (Inr (a, b, c, st'))"
    for P u q l n sq k fl ap os ol queue st
    by (rule ensuresI, drule 1(1), rename_tac r, case_tac r) (auto intro: that)
  show ?case by (rule ensuresD [OF _ 1(2)]) (auto simp: Let_def intro!: wp)
qed

lemma seg_loop_tcp_pools [wp]:
  assumes "\<And>a st'. tcp_pools (pools st') = tcp_pools (pools st) \<Longrightarrow> P (Inl (a, st'))"
    and "\<And>a b c st'. tcp_pools (pools st') = tcp_pools (pools st) \<Longrightarrow> P (Inr (a, b, c, st'))"
  shows "ensures (seg_loop u q l n sq k fl ap os ol queue st) P"
  by (rule ensuresI, drule seg_loop_pools, rename_tac r, case_tac r) (auto intro: assms)

lemma may_concat_read [wp]: "(\<And>c. P c) \<Longrightarrow> ensures (may_concat u fl q st) P"
  by (rule ensures_read)

lemma concat_seg_tcp_pools [wp]:
  assumes "\<And>a st'. tcp_pools (pools st') = tcp_pools (pools st) \<Longrightarrow> P (Inl (a, st'))"
    and "\<And>a m st'. tcp_pools (pools st') = tcp_pools (pools st) \<Longrightarrow> P (Inr (a, m, st'))"
  shows "ensures (concat_seg l q ol k st) P"
  unfolding concat_seg_def by (auto simp: Let_def intro!: wp assms dest!: pools_malloc)

lemma join_unsent_tcp_pools [wp]:
  assumes "\<And>a st'. tcp_pools (pools st') = tcp_pools (pools st) \<Longrightarrow> P (Inl (a, st'))"
    and "\<And>a b c e st'. tcp_pools (pools st') = tcp_pools (pools st) \<Longrightarrow> P (Inr (a, b, c, e, st'))"
  shows "ensures (join_unsent u fl ol queue n k st) P"
  unfolding join_unsent_def by (auto simp: Let_def intro!: wp assms dest!: pools_malloc split: sum.split)

lemma tcp_enqueue_table [wp]:
  assumes "\<And>x d'. table_of d' = table_of d \<Longrightarrow> tcp_pools (pools (pm d')) = tcp_pools (pools (pm d)) \<Longrightarrow> P (x, d')"
  shows "ensures (tcp_enqueue i q n fl ap os d) P"
  unfolding tcp_enqueue_def by (auto simp: Let_def intro!: wp assms)

lemma tcp_send_ctrl_table [wp]:
  assumes "\<And>x d'. table_of d' = table_of d \<Longrightarrow> tcp_pools (pools (pm d')) = tcp_pools (pools (pm d)) \<Longrightarrow> P (x, d')"
  shows "ensures (tcp_send_ctrl i fl d) P"
  unfolding tcp_send_ctrl_def by (auto simp: Let_def intro!: wp assms)

lemma tcp_write_table [wp]:
  assumes "\<And>x d'. table_of d' = table_of d \<Longrightarrow> tcp_pools (pools (pm d')) = tcp_pools (pools (pm d)) \<Longrightarrow> P (x, d')"
  shows "ensures (tcp_write i q n ap d) P"
  unfolding tcp_write_def by (auto simp: Let_def intro!: wp assms)

subsection \<open>Settings, windows, input\<close>

lemma tcp_setprio_table [wp]:
  assumes "\<And>d'. table_of d' = table_of d \<Longrightarrow> tcp_pools (pools (pm d')) = tcp_pools (pools (pm d)) \<Longrightarrow> P d'"
  shows "ensures (tcp_setprio (Pcb i) q d) P"
  unfolding tcp_setprio_def by (auto simp: Let_def intro!: wp assms)

lemma tcp_arg_table [wp]:
  assumes "\<And>d'. table_of d' = table_of d \<Longrightarrow> tcp_pools (pools (pm d')) = tcp_pools (pools (pm d)) \<Longrightarrow> P d'"
  shows "ensures (tcp_arg (Pcb i) q d) P"
  unfolding tcp_arg_def by (auto simp: Let_def intro!: wp assms)

lemma tcp_recv_table [wp]:
  assumes "\<And>d'. table_of d' = table_of d \<Longrightarrow> tcp_pools (pools (pm d')) = tcp_pools (pools (pm d)) \<Longrightarrow> P d'"
  shows "ensures (tcp_recv i f d) P"
  unfolding tcp_recv_def by (auto simp: Let_def intro!: wp assms)

lemma tcp_sent_table [wp]:
  assumes "\<And>d'. table_of d' = table_of d \<Longrightarrow> tcp_pools (pools (pm d')) = tcp_pools (pools (pm d)) \<Longrightarrow> P d'"
  shows "ensures (tcp_sent i f d) P"
  unfolding tcp_sent_def by (auto simp: Let_def intro!: wp assms)

lemma tcp_err_table [wp]:
  assumes "\<And>d'. table_of d' = table_of d \<Longrightarrow> tcp_pools (pools (pm d')) = tcp_pools (pools (pm d)) \<Longrightarrow> P d'"
  shows "ensures (tcp_err i f d) P"
  unfolding tcp_err_def by (auto simp: Let_def intro!: wp assms)

lemma tcp_poll_table [wp]:
  assumes "\<And>d'. table_of d' = table_of d \<Longrightarrow> tcp_pools (pools (pm d')) = tcp_pools (pools (pm d)) \<Longrightarrow> P d'"
  shows "ensures (tcp_poll i f n d) P"
  unfolding tcp_poll_def by (auto simp: Let_def intro!: wp assms)

lemma tcp_pcb_purge_table [wp]:
  assumes "\<And>d'. table_of d' = table_of d \<Longrightarrow> tcp_pools (pools (pm d')) = tcp_pools (pools (pm d)) \<Longrightarrow> P d'"
  shows "ensures (tcp_pcb_purge i d) P"
  unfolding tcp_pcb_purge_def by (auto simp: Let_def intro!: wp assms)

lemma tcp_recved_table [wp]:
  assumes "\<And>d'. table_of d' = table_of d \<Longrightarrow> tcp_pools (pools (pm d')) = tcp_pools (pools (pm d)) \<Longrightarrow> P d'"
  shows "ensures (tcp_recved i n d) P"
  unfolding tcp_recved_def by (auto simp: Let_def intro!: wp assms simp: update_rcv_ann_wnd_state)

lemma parse_opts_read [wp]: "(\<And>m. P m) \<Longrightarrow> ensures (parse_opts st q c n m) P"
  by (rule ensures_read)

lemma tcp_parseopt_table [wp]:
  assumes "\<And>d'. table_of d' = table_of d \<Longrightarrow> tcp_pools (pools (pm d')) = tcp_pools (pools (pm d)) \<Longrightarrow> P d'"
  shows "ensures (tcp_parseopt x i d) P"
  unfolding tcp_parseopt_def by (auto simp: Let_def intro!: wp assms)

lemma duplicate_ack_table [wp]:
  assumes "\<And>d'. table_of d' = table_of d \<Longrightarrow> tcp_pools (pools (pm d')) = tcp_pools (pools (pm d)) \<Longrightarrow> P d'"
  shows "ensures (duplicate_ack i e d) P"
  unfolding duplicate_ack_def by (auto simp: Let_def intro!: wp assms)

lemma free_while_table [wp]:
  fixes d :: "'a tcp_scheme"
  shows "(\<And>q n d'. table_of d' = table_of d \<Longrightarrow> tcp_pools (pools (pm d')) = tcp_pools (pools (pm d)) \<Longrightarrow> P (q, n, d')) \<Longrightarrow>
    ensures (free_while c q n d) P"
  by (induction q arbitrary: d n P) (auto intro!: wp)

lemma new_ack_table [wp]:
  assumes "\<And>d'. table_of d' = table_of d \<Longrightarrow> tcp_pools (pools (pm d')) = tcp_pools (pools (pm d)) \<Longrightarrow> P d'"
  shows "ensures (new_ack x i d) P"
  unfolding new_ack_def by (auto simp: Let_def intro!: wp assms)

lemma receive_ack_table [wp]:
  assumes "\<And>d'. table_of d' = table_of d \<Longrightarrow> tcp_pools (pools (pm d')) = tcp_pools (pools (pm d)) \<Longrightarrow> P d'"
  shows "ensures (receive_ack x i d) P"
  unfolding receive_ack_def by (auto simp: Let_def intro!: wp assms)

lemma skip_pbufs_pools:
  assumes "skip_pbufs p off n st = Some r"
  shows "tcp_pools (pools (snd (snd r))) = tcp_pools (pools st)"
proof (rule skip_pbufs.raw_induct [OF _ assms], goal_cases)
  case (1 loop p off n st r)
  show ?case using 1(2) by (auto dest!: 1(1) split: option.splits if_splits)
qed

lemma skip_pbufs_tcp_pools [wp]:
  assumes "\<And>q k st'. tcp_pools (pools st') = tcp_pools (pools st) \<Longrightarrow> P (q, k, st')"
  shows "ensures (skip_pbufs p off n st) P"
  by (rule ensuresI, drule skip_pbufs_pools) (auto intro: assms)

text \<open>The flags of a segment that take its control block out of the lists: only the state machine sets them.\<close>

definition closing :: "tcp_in \<Rightarrow> u8" where
  "closing x = recv_flags x AND (TF_RESET OR TF_CLOSED)"

lemma closing_simps [simp]:
  "closing (x\<lparr>recv_flags := recv_flags y OR TF_GOT_FIN\<rparr>) = closing y"
  "closing (x\<lparr>in_p := a\<rparr>) = closing x" "closing (x\<lparr>recv_data := a\<rparr>) = closing x" "closing (x\<lparr>in_tcplen := n\<rparr>) = closing x"
  "closing (x\<lparr>in_len := n\<rparr>) = closing x" "closing (x\<lparr>in_dataptr := q\<rparr>) = closing x" "closing (x\<lparr>in_seqno := v\<rparr>) = closing x"
  by (simp_all add: closing_def bit.conj_disj_distrib2)

lemma trim_front_table [wp]:
  assumes "\<And>y d'. table_of d' = table_of d \<Longrightarrow> tcp_pools (pools (pm d')) = tcp_pools (pools (pm d)) \<Longrightarrow>
      closing y = closing x \<Longrightarrow> P (y, d')"
  shows "ensures (trim_front x i d) P"
  unfolding trim_front_def by (auto simp: Let_def intro!: wp assms ensures_read [where m = q for q :: "addr option"])

lemma trim_end_tcp_pools [wp]:
  assumes "\<And>y st'. tcp_pools (pools st') = tcp_pools (pools st) \<Longrightarrow> closing y = closing x \<Longrightarrow> P (y, st')"
  shows "ensures (trim_end x w st) P"
  unfolding trim_end_def by (auto simp: Let_def intro!: wp assms)

lemma accept_in_sequence_table [wp]:
  assumes "\<And>y d'. table_of d' = table_of d \<Longrightarrow> tcp_pools (pools (pm d')) = tcp_pools (pools (pm d)) \<Longrightarrow>
      closing y = closing x \<Longrightarrow> P (y, d')"
  shows "ensures (accept_in_sequence x i d) P"
  unfolding accept_in_sequence_def by (auto simp: Let_def intro!: wp assms)

lemma receive_data_table [wp]:
  assumes "\<And>y d'. table_of d' = table_of d \<Longrightarrow> tcp_pools (pools (pm d')) = tcp_pools (pools (pm d)) \<Longrightarrow>
      closing y = closing x \<Longrightarrow> P (y, d')"
  shows "ensures (receive_data x i d) P"
  unfolding receive_data_def by (auto simp: Let_def intro!: wp assms)

lemma tcp_receive_table [wp]:
  assumes "\<And>y d'. table_of d' = table_of d \<Longrightarrow> tcp_pools (pools (pm d')) = tcp_pools (pools (pm d)) \<Longrightarrow>
      closing y = closing x \<Longrightarrow> P (y, d')"
  shows "ensures (tcp_receive x i d) P"
  unfolding tcp_receive_def by (auto simp: Let_def intro!: wp assms)

lemma tcp_rst_reply_table [wp]:
  assumes "\<And>d'. table_of d' = table_of d \<Longrightarrow> tcp_pools (pools (pm d')) = tcp_pools (pools (pm d)) \<Longrightarrow> P d'"
  shows "ensures (tcp_rst_reply x a b d) P"
  unfolding tcp_rst_reply_def by (auto simp: Let_def intro!: wp assms)

end
