(* ===== verification/Tcp_Machine.thy ===== *)
theory Tcp_Machine
  imports Tcp_Table
begin

text \<open>
  What the operations do to the connection table.  \<open>edge\<close> is the diagram of RFC 793 for a connection that is in the
  list of active ones; \<open>tstep\<close> moves the table by one event.  \<open>conns_ok\<close> are the "axioms" that \<open>tcp.h\<close> states of
  the lists, with the account of the two pools.
\<close>

inductive edge :: "tcp_state \<Rightarrow> tcp_state \<Rightarrow> bool" where
  "edge SYN_SENT ESTABLISHED"
| "edge SYN_RCVD ESTABLISHED"
| "edge SYN_RCVD FIN_WAIT_1"
| "edge ESTABLISHED FIN_WAIT_1"
| "edge ESTABLISHED CLOSE_WAIT"
| "edge CLOSE_WAIT LAST_ACK"
| "edge FIN_WAIT_1 FIN_WAIT_2"
| "edge FIN_WAIT_1 CLOSING"

code_pred edge .

inductive_simps edge_simps [simp]: "edge s CLOSED" "edge s LISTEN" "edge s TIME_WAIT" "edge s SYN_SENT" "edge s SYN_RCVD"

inductive tstep :: "table \<Rightarrow> table \<Rightarrow> bool" where
  accept: "listening t \<noteq> [] \<Longrightarrow> free_pcbs t = i # r \<Longrightarrow>
    tstep t (t\<lparr>free_pcbs := r, states := (states t)(i \<mapsto> SYN_RCVD), active := i # active t\<rparr>)"
| move: "i \<in> set (active t) \<Longrightarrow> states t i = Some s \<Longrightarrow> edge s s' \<Longrightarrow> tstep t (t\<lparr>states := (states t)(i \<mapsto> s')\<rparr>)"
| wait: "i \<in> set (active t) \<Longrightarrow> states t i = Some s \<Longrightarrow> s \<in> {FIN_WAIT_1, FIN_WAIT_2, CLOSING} \<Longrightarrow>
    tstep t (t\<lparr>active := remove1 i (active t), states := (states t)(i \<mapsto> TIME_WAIT), tws := i # tws t\<rparr>)"
| drop_active: "i \<in> set (active t) \<Longrightarrow>
    tstep t (t\<lparr>active := remove1 i (active t), states := (states t)(i := None), free_pcbs := i # free_pcbs t\<rparr>)"
| drop_tw: "i \<in> set (tws t) \<Longrightarrow>
    tstep t (t\<lparr>tws := remove1 i (tws t), states := (states t)(i := None), free_pcbs := i # free_pcbs t\<rparr>)"
| drop_bound: "i \<in> set (bound t) \<Longrightarrow>
    tstep t (t\<lparr>bound := remove1 i (bound t), states := (states t)(i := None), free_pcbs := i # free_pcbs t\<rparr>)"
| front: "i \<in> set (active t) \<Longrightarrow> tstep t (t\<lparr>active := to_front i (active t)\<rparr>)"
| front_listener: "j \<in> set (listening t) \<Longrightarrow> tstep t (t\<lparr>listening := to_front j (listening t)\<rparr>)"

abbreviation tsteps :: "table \<Rightarrow> table \<Rightarrow> bool" where "tsteps \<equiv> tstep\<^sup>*\<^sup>*"

definition conns_ok :: "table \<Rightarrow> bool" where
  "conns_ok t \<longleftrightarrow>
     distinct (bound t @ active t @ tws t @ free_pcbs t) \<and>
     set (bound t @ active t @ tws t @ free_pcbs t) = {..<memp_num MEMP_TCP_PCB} \<and>
     dom (states t) = set (bound t @ active t @ tws t) \<and>
     (\<forall>i \<in> set (bound t). states t i = Some CLOSED) \<and> (\<forall>i \<in> set (tws t). states t i = Some TIME_WAIT) \<and>
     (\<forall>i \<in> set (active t). states t i \<notin> {Some CLOSED, Some LISTEN, Some TIME_WAIT}) \<and>
     distinct (listening t @ free_listeners t) \<and>
     set (listening t @ free_listeners t) = {..<memp_num MEMP_TCP_PCB_LISTEN} \<and>
     listeners t = set (listening t)"

lemma conns_okD:
  assumes "conns_ok t"
  shows "distinct (bound t)" "distinct (active t)" "distinct (tws t)"
    "set (bound t) \<inter> set (active t) = {}" "set (bound t) \<inter> set (tws t) = {}" "set (active t) \<inter> set (tws t) = {}"
    "dom (states t) = set (bound t) \<union> set (active t) \<union> set (tws t)"
    "i \<in> set (active t) \<Longrightarrow> states t i \<noteq> Some CLOSED \<and> states t i \<noteq> Some LISTEN \<and> states t i \<noteq> Some TIME_WAIT"
    "i \<in> set (tws t) \<Longrightarrow> states t i = Some TIME_WAIT" "i \<in> set (bound t) \<Longrightarrow> states t i = Some CLOSED"
  using assms by (auto simp: conns_ok_def)

text \<open>Where a control block is, from its state.\<close>

lemma conns_ok_place:
  assumes "conns_ok t" "states t i = Some s"
  shows "s \<noteq> LISTEN" "s = CLOSED \<longleftrightarrow> i \<in> set (bound t)" "s = TIME_WAIT \<longleftrightarrow> i \<in> set (tws t)"
    "s \<noteq> CLOSED \<and> s \<noteq> TIME_WAIT \<longleftrightarrow> i \<in> set (active t)"
proof -
  have "i \<in> dom (states t)" using assms(2) by blast
  then consider "i \<in> set (bound t)" | "i \<in> set (active t)" | "i \<in> set (tws t)"
    using conns_okD(7) [OF assms(1)] by auto
  then have "s \<noteq> LISTEN \<and> (s = CLOSED \<longleftrightarrow> i \<in> set (bound t)) \<and> (s = TIME_WAIT \<longleftrightarrow> i \<in> set (tws t)) \<and>
      (s \<noteq> CLOSED \<and> s \<noteq> TIME_WAIT \<longleftrightarrow> i \<in> set (active t))"
    using conns_okD(4-6) [OF assms(1)] conns_okD(8-10) [OF assms(1), of i] assms(2) by cases auto
  then show "s \<noteq> LISTEN" "s = CLOSED \<longleftrightarrow> i \<in> set (bound t)" "s = TIME_WAIT \<longleftrightarrow> i \<in> set (tws t)"
    "s \<noteq> CLOSED \<and> s \<noteq> TIME_WAIT \<longleftrightarrow> i \<in> set (active t)"
    by blast+
qed

lemma to_front_set: "i \<in> set xs \<Longrightarrow> set (to_front i xs) = set xs"
  unfolding to_front_def by (induction xs) auto

lemma to_front_distinct: "distinct xs \<Longrightarrow> distinct (to_front i xs)"
  by (simp add: to_front_def)

lemma tstep_ok: "tstep t t' \<Longrightarrow> conns_ok t \<Longrightarrow> conns_ok t'"
proof (induction rule: tstep.induct)
  case (accept t i r)
  then show ?case by (auto simp: conns_ok_def)
next
  case (move i t s s')
  then show ?case by (auto simp: conns_ok_def)
next
  case (wait i t s)
  then show ?case by (auto simp: conns_ok_def)
next
  case (drop_active i t)
  then show ?case by (auto simp: conns_ok_def)
next
  case (drop_tw i t)
  then show ?case by (auto simp: conns_ok_def)
next
  case (drop_bound i t)
  then show ?case by (auto simp: conns_ok_def)
next
  case (front i t)
  then show ?case by (auto simp: conns_ok_def to_front_set to_front_distinct)
next
  case (front_listener j t)
  then show ?case by (auto simp: conns_ok_def to_front_set to_front_distinct)
qed

lemma tsteps_ok: "tsteps t t' \<Longrightarrow> conns_ok t \<Longrightarrow> conns_ok t'"
  by (induction rule: rtranclp_induct) (auto intro: tstep_ok)

text \<open>Listeners only change places: without one, nothing is ever accepted.\<close>

lemma tsteps_listening: "tsteps t t' \<Longrightarrow> set (listening t') = set (listening t)"
proof (induction rule: rtranclp_induct)
  case (step t' t'')
  from step(2) show ?case using step(3) by cases (auto simp: to_front_set)
qed simp

subsection \<open>Taking control blocks out of the table\<close>

lemma table_of_free [simp]:
  "table_of (free_tcp_pcb i d) = (table_of d)\<lparr>states := (states (table_of d))(i := None), free_pcbs := i # free_pcbs (table_of d)\<rparr>"
  by (auto simp: free_tcp_pcb_def table_of_def memp_free_def fun_eq_iff)

lemma cut_after_other: "i \<notin> set xs \<Longrightarrow> cut_after i xs = xs"
  by (simp add: cut_after_def)

lemma table_of_rmv:
  assumes "conns_ok (table_of d)"
  shows "i \<in> set (active (table_of d)) \<Longrightarrow> table_of (TCP_RMV Active_pcbs i d) = (table_of d)\<lparr>active := remove1 i (active (table_of d))\<rparr>"
    "i \<in> set (tws (table_of d)) \<Longrightarrow> table_of (TCP_RMV Tw_pcbs i d) = (table_of d)\<lparr>tws := remove1 i (tws (table_of d))\<rparr>"
    "i \<in> set (bound (table_of d)) \<Longrightarrow> table_of (TCP_RMV Bound_pcbs i d) = (table_of d)\<lparr>bound := remove1 i (bound (table_of d))\<rparr>"
proof -
  note T = conns_okD(4-6) [OF assms]
  have "i \<notin> set (tcp_bound_pcbs d)" "i \<notin> set (tcp_tw_pcbs d)" if "i \<in> set (active (table_of d))"
    using T that by (auto simp: table_of_fields)
  then show "i \<in> set (active (table_of d)) \<Longrightarrow> table_of (TCP_RMV Active_pcbs i d) = (table_of d)\<lparr>active := remove1 i (active (table_of d))\<rparr>"
    by (simp add: TCP_RMV_def cut_after_other) (simp add: table_of_def)
  have "i \<notin> set (tcp_bound_pcbs d)" "i \<notin> set (tcp_active_pcbs d)" if "i \<in> set (tws (table_of d))"
    using T that by (auto simp: table_of_fields)
  then show "i \<in> set (tws (table_of d)) \<Longrightarrow> table_of (TCP_RMV Tw_pcbs i d) = (table_of d)\<lparr>tws := remove1 i (tws (table_of d))\<rparr>"
    by (simp add: TCP_RMV_def cut_after_other) (simp add: table_of_def)
  have "i \<notin> set (tcp_active_pcbs d)" "i \<notin> set (tcp_tw_pcbs d)" if "i \<in> set (bound (table_of d))"
    using T that by (auto simp: table_of_fields)
  then show "i \<in> set (bound (table_of d)) \<Longrightarrow> table_of (TCP_RMV Bound_pcbs i d) = (table_of d)\<lparr>bound := remove1 i (bound (table_of d))\<rparr>"
    by (simp add: TCP_RMV_def cut_after_other) (simp add: table_of_def)
qed

lemma table_of_reg:
  assumes "i \<notin> set (bound (table_of d)) \<union> set (active (table_of d)) \<union> set (tws (table_of d))"
  shows "table_of (TCP_REG Active_pcbs i d) = (table_of d)\<lparr>active := i # active (table_of d)\<rparr>"
    "table_of (TCP_REG Tw_pcbs i d) = (table_of d)\<lparr>tws := i # tws (table_of d)\<rparr>"
    "table_of (TCP_REG Bound_pcbs i d) = (table_of d)\<lparr>bound := i # bound (table_of d)\<rparr>"
  using assms by (simp_all add: TCP_REG_def Let_def lead_into_def cut_after_def table_of_def)

lemma set_state:
  assumes "\<And>d'. table_of d' = (table_of d)\<lparr>states := (states (table_of d))(i \<mapsto> s)\<rparr> \<Longrightarrow> states (table_of d) i \<noteq> None \<Longrightarrow>
      tcp_pools (pools (pm d')) = tcp_pools (pools (pm d)) \<Longrightarrow> P d'"
  shows "ensures (upd_tcp i (\<lambda>u. u\<lparr>tstate := s\<rparr>) d) P"
  by (rule upd_tcp_state) (auto intro: assms)

lemma tcp_pcb_remove_active:
  assumes "conns_ok (table_of d)" "i \<in> set (active (table_of d))"
    and "\<And>d'. table_of d' = (table_of d)\<lparr>active := remove1 i (active (table_of d)), states := (states (table_of d))(i \<mapsto> CLOSED)\<rparr> \<Longrightarrow> P d'"
  shows "ensures (tcp_pcb_remove Active_pcbs i d) P"
  unfolding tcp_pcb_remove_def
  by (auto intro!: set_state wp assms(3) simp: table_of_rmv(1) [OF assms(1,2)])

lemma tcp_pcb_remove_tw:
  assumes "conns_ok (table_of d)" "i \<in> set (tws (table_of d))"
    and "\<And>d'. table_of d' = (table_of d)\<lparr>tws := remove1 i (tws (table_of d)), states := (states (table_of d))(i \<mapsto> CLOSED)\<rparr> \<Longrightarrow> P d'"
  shows "ensures (tcp_pcb_remove Tw_pcbs i d) P"
  unfolding tcp_pcb_remove_def
  by (auto intro!: set_state wp assms(3) simp: table_of_rmv(2) [OF assms(1,2)])

subsection \<open>Closing and moving\<close>

lemma set_same: "states t i = Some s \<Longrightarrow> t\<lparr>states := (states t)(i \<mapsto> s)\<rparr> = t"
  by (cases t) (auto simp: fun_upd_idem)

text \<open>A connection at work is still at work, or its control block is free.\<close>

definition stays :: "nat \<Rightarrow> table \<Rightarrow> table \<Rightarrow> bool" where
  "stays i t t' \<longleftrightarrow> (i \<in> set (active t) \<longrightarrow> i \<in> set (active t') \<or> states t' i = None)"

lemma stays_refl [simp, intro]: "stays i t t"
  by (simp add: stays_def)

lemma close_with_fin_steps:
  assumes "i \<in> set (active (table_of d))" "states (table_of d) i = Some s" "edge s s'"
    and "\<And>e d'. tsteps (table_of d) (table_of d') \<Longrightarrow> stays i (table_of d) (table_of d') \<Longrightarrow> P (e, d')"
  shows "ensures (close_with_fin i s' d) P"
  unfolding close_with_fin_def
  using r_into_rtranclp [where r = tstep, OF tstep.move [OF assms(1-3)]] by (auto simp: stays_def intro!: set_state wp assms(4))

lemma tcp_close_steps:
  assumes ok: "conns_ok (table_of d)"
    and P: "\<And>e d'. tsteps (table_of d) (table_of d') \<Longrightarrow> stays i (table_of d) (table_of d') \<Longrightarrow> P (e, d')"
  shows "ensures (tcp_close (Pcb i) d) P"
proof -
  have "ensures (case tstate u of
             CLOSED \<Rightarrow> Some (ERR_OK, free_tcp_pcb i (TCP_RMV Bound_pcbs i d))
           | LISTEN \<Rightarrow> None
           | SYN_SENT \<Rightarrow> do { d \<leftarrow> tcp_pcb_remove Active_pcbs i d; Some (ERR_OK, free_tcp_pcb i d) }
           | SYN_RCVD \<Rightarrow> close_with_fin i FIN_WAIT_1 d
           | ESTABLISHED \<Rightarrow> close_with_fin i FIN_WAIT_1 d
           | CLOSE_WAIT \<Rightarrow> close_with_fin i LAST_ACK d
           | _ \<Rightarrow> Some (ERR_OK, d)) P" if u: "states (table_of d) i = Some (tstate u)" for u :: tcp_pcb
  proof -
    note pl = conns_ok_place [OF ok u]
    show ?thesis
    proof (cases "tstate u")
      case CLOSED
      then have i: "i \<in> set (bound (table_of d))" using pl by simp
      show ?thesis
        using CLOSED P [OF r_into_rtranclp] tstep.drop_bound [OF i] by (simp add: table_of_rmv(3) [OF ok i] stays_def)
    next
      case SYN_SENT
      then have i: "i \<in> set (active (table_of d))" using pl by simp
      show ?thesis
        using SYN_SENT tstep.drop_active [OF i] by (auto intro!: tcp_pcb_remove_active [OF ok i] P r_into_rtranclp simp: stays_def)
    qed (use u pl in \<open>auto intro!: close_with_fin_steps [where d = d and s = "tstate u"] P edge.intros\<close>)
  qed
  then show ?thesis unfolding tcp_close_def by (auto intro!: wp)
qed

lemma to_time_wait_steps:
  assumes ok: "conns_ok (table_of d)" and i: "i \<in> set (active (table_of d))" "states (table_of d) i = Some s"
    "s \<in> {FIN_WAIT_1, FIN_WAIT_2, CLOSING}"
    and P: "\<And>d'. tsteps (table_of d) (table_of d') \<Longrightarrow> P d'"
  shows "ensures (to_time_wait i d) P"
proof -
  have rmv: "table_of (TCP_RMV Active_pcbs i d') = (table_of d)\<lparr>active := remove1 i (active (table_of d))\<rparr>"
    if "table_of d' = table_of d" for d' :: "'a tcp_scheme"
    using table_of_rmv(1) [of d' i] that ok i(1) by simp
  have out: "i \<notin> set (bound (table_of d)) \<union> set (remove1 i (active (table_of d))) \<union> set (tws (table_of d))"
    using conns_okD(2,4,6) [OF ok] i(1) by auto
  show ?thesis
    unfolding to_time_wait_def
    using tstep.wait [OF i] out by (auto intro!: set_state wp P r_into_rtranclp simp: rmv table_of_reg)
qed

lemma tcp_timewait_input_table [wp]:
  assumes "\<And>e d'. table_of d' = table_of d \<Longrightarrow> tcp_pools (pools (pm d')) = tcp_pools (pools (pm d)) \<Longrightarrow> P (e, d')"
  shows "ensures (tcp_timewait_input x i d) P"
  unfolding tcp_timewait_input_def by (auto simp: Let_def intro!: wp assms)

lemma process_data_steps:
  assumes ok: "conns_ok (table_of d)" and s: "states (table_of d) i = Some s"
    "s \<in> {ESTABLISHED, CLOSE_WAIT, FIN_WAIT_1, FIN_WAIT_2, CLOSING, LAST_ACK}"
    and x: "closing x = 0"
    and P: "\<And>y d'. tsteps (table_of d) (table_of d') \<Longrightarrow> (closing y \<noteq> 0 \<Longrightarrow> table_of d' = table_of d) \<Longrightarrow> P (y, d')"
  shows "ensures (process_data x i d) P"
proof -
  have i: "i \<in> set (active (table_of d))" using conns_ok_place [OF ok s(1)] s(2) by auto
  have m: "tsteps (table_of d) ((table_of d)\<lparr>states := (states (table_of d))(i \<mapsto> s')\<rparr>)" if "edge s s'" for s'
    using tstep.move [OF i s(1) that] by simp
  have tw: "ensures (to_time_wait i d') Q" if "table_of d' = table_of d" "s \<in> {FIN_WAIT_1, FIN_WAIT_2, CLOSING}"
    "\<And>d''. tsteps (table_of d) (table_of d'') \<Longrightarrow> Q d''" for d' :: "'a tcp_scheme" and Q
    using that ok i s(1) by (intro to_time_wait_steps [of d' i s]) auto
  have same: "(table_of d)\<lparr>states := (states (table_of d))(i \<mapsto> CLOSE_WAIT)\<rparr> = table_of d" if "s = CLOSE_WAIT"
    using set_same s(1) that by simp
  note tcp_mem_table [wp del]
  have rd: "ensures (tcp_mem d' i) Q" if "table_of d' = table_of d" "\<And>u. tstate u = s \<Longrightarrow> Q u" for d' :: "'a tcp_scheme" and Q
    using that s(1) by (auto intro!: tcp_mem_table)
  consider "s = ESTABLISHED" | "s = CLOSE_WAIT" | "s = FIN_WAIT_1" | "s = FIN_WAIT_2" | "s = CLOSING" | "s = LAST_ACK"
    using s(2) by blast
  then show ?thesis
    unfolding process_data_def
    by cases (auto simp: Let_def same x intro!: set_state wp P rd tw m edge.intros)
qed

end
