(* ===== verification/Tcp_Client.thy ===== *)
theory Tcp_Client
  imports Tcp_Machine
begin

text \<open>
  TCP under an application.  \<open>tcp_client\<close> is what an application promises TCP of its callbacks: accepting and
  errors leave the connection table alone, the others move it by steps of the diagram.  Then segments and timer
  ticks do no more than that either.
\<close>

locale tcp_client =
  fixes up :: "'a tcp_scheme tcp_calls"
  assumes accept_same: "accept_up up af arg i e d = Some (e', d') \<Longrightarrow> table_of d' = table_of d"
    and err_same: "err_up up ef arg e d = Some d' \<Longrightarrow> table_of d' = table_of d"
    and recv_steps: "recv_up up rf arg i p e d = Some (e', d') \<Longrightarrow> conns_ok (table_of d) \<Longrightarrow>
      tsteps (table_of d) (table_of d') \<and> stays i (table_of d) (table_of d')"
    and sent_steps: "sent_up up sf arg i n d = Some (e', d') \<Longrightarrow> conns_ok (table_of d) \<Longrightarrow> tsteps (table_of d) (table_of d')"
    and connected_steps: "connected_up up cf arg i e d = Some (e', d') \<Longrightarrow> conns_ok (table_of d) \<Longrightarrow> tsteps (table_of d) (table_of d')"
    and poll_steps: "poll_up up pf arg i d = Some (e', d') \<Longrightarrow> conns_ok (table_of d) \<Longrightarrow> i \<in> set (active (table_of d)) \<Longrightarrow>
      tsteps (table_of d) (table_of d')"
begin

lemma event_err_same [wp]:
  assumes "\<And>d'. table_of d' = table_of d \<Longrightarrow> tcp_pools (pools (pm d')) = tcp_pools (pools (pm d)) \<Longrightarrow> P d'"
  shows "ensures (event_err up f arg e d) P"
proof (rule table_same1)
  show "event_err up f arg e d = Some r \<Longrightarrow> table_of r = table_of d" for r
    by (auto simp: event_err_def dest: err_same split: option.splits)
qed (rule assms)

lemma event_accept_same [wp]:
  assumes "\<And>e d'. table_of d' = table_of d \<Longrightarrow> tcp_pools (pools (pm d')) = tcp_pools (pools (pm d)) \<Longrightarrow> P (e, d')"
  shows "ensures (event_accept up i e d) P"
proof (rule table_same)
  show "event_accept up i e d = Some r \<Longrightarrow> table_of (snd r) = table_of d" for r
    by (cases r) (auto simp: event_accept_def tcp_accept_null_def bind_eq_Some_conv dest: accept_same split: option.splits if_splits)
qed (rule assms)

text \<open>The rule of an operation that moves the table by steps.\<close>

lemma steps_rule:
  assumes "conns_ok (table_of d)" "\<And>x d'. m = Some (x, d') \<Longrightarrow> tsteps (table_of d) (table_of d')"
    and "\<And>x d'. tsteps (table_of d) (table_of d') \<Longrightarrow> conns_ok (table_of d') \<Longrightarrow> P (x, d')"
  shows "ensures m P"
  using assms tsteps_ok by (fastforce intro: ensuresI)

lemma calls_steps [wp]:
  assumes ok: "conns_ok (table_of d)"
  shows "(\<And>e d'. tsteps (table_of d) (table_of d') \<Longrightarrow> conns_ok (table_of d') \<Longrightarrow> P (e, d')) \<Longrightarrow> ensures (sent_up up sf arg i n d) P"
    "(\<And>e d'. tsteps (table_of d) (table_of d') \<Longrightarrow> conns_ok (table_of d') \<Longrightarrow> P (e, d')) \<Longrightarrow> ensures (connected_up up cf arg i e d) P"
    "i \<in> set (active (table_of d)) \<Longrightarrow> (\<And>e d'. tsteps (table_of d) (table_of d') \<Longrightarrow> conns_ok (table_of d') \<Longrightarrow> P (e, d')) \<Longrightarrow>
      ensures (poll_up up pf arg i d) P"
    apply (rule steps_rule [OF ok], erule sent_steps [OF _ ok], assumption)
   apply (rule steps_rule [OF ok], erule connected_steps [OF _ ok], assumption)
  apply (rule steps_rule [OF ok], erule poll_steps [OF _ ok], assumption, assumption)
  done

lemma event_recv_stays:
  assumes ok: "conns_ok (table_of d)"
    and P: "\<And>e d'. tsteps (table_of d) (table_of d') \<Longrightarrow> conns_ok (table_of d') \<Longrightarrow> stays i (table_of d) (table_of d') \<Longrightarrow> P (e, d')"
  shows "ensures (event_recv up i p e d) P"
proof -
  have close: "ensures (tcp_close (Pcb i) d) P" by (rule tcp_close_steps [OF ok]) (blast intro: P tsteps_ok [OF _ ok])
  have recv: "ensures (recv_up up rf arg i p e d) P" for rf arg p e
    by (rule ensuresI) (auto intro!: P tsteps_ok [OF _ ok] dest: recv_steps [OF _ ok])
  show ?thesis
    unfolding event_recv_def tcp_recv_null_def using close recv by (auto intro!: wp P ok simp: ok)
qed

lemma event_steps [wp]:
  assumes ok: "conns_ok (table_of d)" and P: "\<And>e d'. tsteps (table_of d) (table_of d') \<Longrightarrow> conns_ok (table_of d') \<Longrightarrow> P (e, d')"
  shows "ensures (event_recv up i p e d) P" "ensures (event_sent up i n d) P" "ensures (event_connected up i e d) P"
    "i \<in> set (active (table_of d)) \<Longrightarrow> ensures (event_poll up i d) P"
proof -
  show "ensures (event_recv up i p e d) P" by (rule event_recv_stays [OF ok]) (rule P)
  show "ensures (event_sent up i n d) P" "ensures (event_connected up i e d) P"
    "i \<in> set (active (table_of d)) \<Longrightarrow> ensures (event_poll up i d) P"
    unfolding event_sent_def event_connected_def event_poll_def by (auto intro!: wp P ok)
qed

text \<open>The same, counted from an earlier table.\<close>

lemma event_from:
  assumes ok: "conns_ok t" and t: "tsteps t (table_of d)" and P: "\<And>e d'. tsteps t (table_of d') \<Longrightarrow> P (e, d')"
  shows "ensures (event_recv up i p e d) P" "ensures (event_sent up i n d) P" "ensures (event_connected up i e d) P"
    "i \<in> set (active (table_of d)) \<Longrightarrow> ensures (event_poll up i d) P"
  by (rule event_steps; use tsteps_ok [OF t ok] in \<open>auto intro!: P rtranclp_trans [OF t]\<close>)+

subsection \<open>Aborting, allocation\<close>

lemma tcp_abandon_steps:
  assumes ok: "conns_ok (table_of d)" and i: "i \<in> set (active (table_of d)) \<union> set (tws (table_of d))"
    and P: "\<And>d'. tstep (table_of d) (table_of d') \<Longrightarrow> conns_ok (table_of d') \<Longrightarrow> i \<notin> dom (states (table_of d')) \<Longrightarrow> P d'"
  shows "ensures (tcp_abandon up i reset d) P"
proof -
  have a: "ensures (tcp_abandon up i reset d) P" if i: "i \<in> set (active (table_of d))"
  proof -
    note st = tstep.drop_active [OF i]
    note st_ok = tstep_ok [OF st ok]
    obtain s where "states (table_of d) i = Some s" "s \<noteq> TIME_WAIT"
      using i conns_okD(7,8) [OF ok] by blast
    then show ?thesis
      unfolding tcp_abandon_def using st st_ok by (auto intro!: wp tcp_pcb_remove_active [OF ok i] P)
  qed
  have b: "ensures (tcp_abandon up i reset d) P" if i: "i \<in> set (tws (table_of d))"
  proof -
    note st = tstep.drop_tw [OF i]
    note st_ok = tstep_ok [OF st ok]
    show ?thesis
      unfolding tcp_abandon_def using st st_ok conns_okD(9) [OF ok i] by (auto intro!: wp tcp_pcb_remove_tw [OF ok i] P)
  qed
  show ?thesis using a b i by blast
qed

lemma oldest_tw_mem: "oldest_tw t us k q = Some i \<Longrightarrow> q = Some i \<or> i \<in> fst ` set us"
  by (induction t us k q rule: oldest_tw.induct) (auto split: if_splits)

lemma oldest_prio_mem: "oldest_prio t p us m k q = Some i \<Longrightarrow> q = Some i \<or> i \<in> fst ` set us"
  by (induction t p us m k q rule: oldest_prio.induct) (auto split: if_splits)

lemma listed_fst: "listed xs d = Some us \<Longrightarrow> fst ` set us = set xs"
  by (auto simp: listed_def image_image split: if_splits)

lemma tcp_kill_steps:
  assumes ok: "conns_ok (table_of d)" and P: "\<And>d'. tsteps (table_of d) (table_of d') \<Longrightarrow> conns_ok (table_of d') \<Longrightarrow> P d'"
  shows "ensures (tcp_kill_timewait up d) P" "ensures (tcp_kill_prio up p d) P"
proof -
  have "ensures (tcp_abort up i d) P" if "i \<in> set (tcp_active_pcbs d) \<union> set (tcp_tw_pcbs d)" for i
    by (rule tcp_abandon_steps [OF ok]) (use that in \<open>auto simp: table_of_fields intro!: P\<close>)
  then show "ensures (tcp_kill_timewait up d) P" "ensures (tcp_kill_prio up p d) P"
    unfolding tcp_kill_timewait_def tcp_kill_prio_def
    by (auto intro!: ensuresI [where m = "listed xs d" for xs] wp P ok dest!: listed_fst oldest_tw_mem oldest_prio_mem)
qed

lemma take_pcb_table:
  fixes d :: "'b tcp_scheme"
  assumes "take_pcb d = (i, d')"
  shows "case free_pcbs (table_of d) of [] \<Rightarrow> i = None \<and> table_of d' = table_of d
    | n # r \<Rightarrow> i = Some n \<and> table_of d' = (table_of d)\<lparr>free_pcbs := r\<rparr>"
  using assms by (auto simp: take_pcb_def memp_malloc_def table_of_def split: list.splits)

lemma take_pcb_cases:
  fixes d :: "'a tcp_scheme"
  assumes "\<And>d'. table_of d' = table_of d \<Longrightarrow> Q (None, d')"
    and "\<And>n r d'. free_pcbs (table_of d) = n # r \<Longrightarrow> table_of d' = (table_of d)\<lparr>free_pcbs := r\<rparr> \<Longrightarrow> Q (Some n, d')"
  shows "Q (take_pcb d)"
  using assms take_pcb_table [of d] by (cases "take_pcb d") (auto split: list.splits)

lemma tcp_alloc_steps:
  assumes ok: "conns_ok (table_of d)" and none: "\<And>d'. tsteps (table_of d) (table_of d') \<Longrightarrow> conns_ok (table_of d') \<Longrightarrow> P (None, d')"
    and some: "\<And>n r t d'. tsteps (table_of d) t \<Longrightarrow> conns_ok t \<Longrightarrow> free_pcbs t = n # r \<Longrightarrow>
      table_of d' = t\<lparr>free_pcbs := r, states := (states t)(n \<mapsto> CLOSED)\<rparr> \<Longrightarrow> P (Some n, d')"
  shows "ensures (tcp_alloc up p d) P"
proof -
  define Q :: "nat option \<times> 'a tcp_scheme \<Rightarrow> bool" where "Q = (\<lambda>(i, d'). case i of
      None \<Rightarrow> tsteps (table_of d) (table_of d') \<and> conns_ok (table_of d')
    | Some n \<Rightarrow> (\<exists>t r. tsteps (table_of d) t \<and> conns_ok t \<and> free_pcbs t = n # r \<and> table_of d' = t\<lparr>free_pcbs := r\<rparr>))"
  have take: "Q (take_pcb d')" if "tsteps (table_of d) (table_of d')" "conns_ok (table_of d')" for d'
    by (rule take_pcb_cases [of d']) (use that in \<open>auto simp: Q_def split del: option.split\<close>)
  have Qn: "tsteps (table_of d) (table_of d') \<and> conns_ok (table_of d')" if "Q (None, d')" for d' using that by (simp add: Q_def)
  have first: "ensures (case take_pcb d of
                 (Some i, d) \<Rightarrow> Some (Some i, d)
               | (None, d) \<Rightarrow> do {
                   d \<leftarrow> tcp_kill_timewait up d;
                   (case take_pcb d of
                      (Some i, d) \<Rightarrow> Some (Some i, d)
                    | (None, d) \<Rightarrow> do { d \<leftarrow> tcp_kill_prio up p d; Some (take_pcb d) })
                 }) Q"
  proof (cases "take_pcb d")
    case (Pair i d1)
    then have Q1: "Q (i, d1)" using take [of d] ok by simp
    have second: "ensures (case take_pcb d2 of (Some i, d) \<Rightarrow> Some (Some i, d)
        | (None, d) \<Rightarrow> do { d \<leftarrow> tcp_kill_prio up p d; Some (take_pcb d) }) Q"
      if d2: "tsteps (table_of d) (table_of d2)" "conns_ok (table_of d2)" for d2
    proof (cases "take_pcb d2")
      case (Pair j d3)
      then have "Q (j, d3)" using take [OF d2] by simp
      then show ?thesis
        using Pair Qn [of d3] by (cases j) (auto intro!: tcp_kill_steps take intro: rtranclp_trans)
    qed
    show ?thesis
      using Q1 Pair Qn [of d1] by (cases i) (auto intro!: tcp_kill_steps second intro: rtranclp_trans)
  qed
  have new: "table_of (d'\<lparr>tcp_iss := q, tcp_mem := (tcp_mem d')(n \<mapsto> new_tcp_pcb iss k)\<rparr>) = (table_of d')\<lparr>states := (states (table_of d'))(n \<mapsto> CLOSED)\<rparr>"
    for d' :: "'a tcp_scheme" and n iss k q
    by (auto simp: table_of_def new_tcp_pcb_def fun_eq_iff)
  have last: "P (case i of None \<Rightarrow> (None, d')
      | Some i \<Rightarrow> let (iss, d) = tcp_next_iss d' in (Some i, d\<lparr>tcp_mem := (tcp_mem d)(i \<mapsto> new_tcp_pcb iss (tcp_ticks d))\<rparr>))"
    if q: "Q (i, d')" for i d'
  proof (cases i)
    case None
    then show ?thesis using Qn [of d'] q by (simp add: none)
  next
    case (Some n)
    then obtain t r where t: "tsteps (table_of d) t" "conns_ok t" "free_pcbs t = n # r" "table_of d' = t\<lparr>free_pcbs := r\<rparr>"
      using q by (auto simp: Q_def)
    show ?thesis using Some by (simp add: tcp_next_iss_def) (rule some [OF t(1-3)], simp add: new t(4))
  qed
  show ?thesis
    unfolding tcp_alloc_def ensures_simps
    by (rule ensures_mono [OF first]) (auto intro: last)
qed

subsection \<open>Segments\<close>

lemma process_syn_sent_steps:
  assumes ok: "conns_ok (table_of d)" and i: "states (table_of d) i = Some SYN_SENT"
    and P: "\<And>d'. tsteps (table_of d) (table_of d') \<Longrightarrow> conns_ok (table_of d') \<Longrightarrow> P d'"
  shows "ensures (process_syn_sent up x i d) P"
proof -
  have act: "i \<in> set (active (table_of d))" using conns_ok_place(4) [OF ok i] by simp
  note st = r_into_rtranclp [where r = tstep, OF tstep.move [OF act i edge.intros(1)]]
  have est: "ensures (upd_tcp i f d') Q"
    if "table_of d' = table_of d" "\<And>u. tstate (f u) = ESTABLISHED"
      "\<And>d'. tsteps (table_of d) (table_of d') \<Longrightarrow> conns_ok (table_of d') \<Longrightarrow> Q d'" for f d' and Q :: "'a tcp_scheme \<Rightarrow> bool"
    using that st tsteps_ok [OF st ok] by (auto intro!: upd_tcp_state)
  note upd_tcp_table [wp del]
  show ?thesis
    unfolding process_syn_sent_def by (auto simp: Let_def ok intro!: est wp P) (erule (1) rtranclp_trans)+
qed

lemma process_syn_rcvd_steps:
  assumes ok: "conns_ok (table_of d)" and i: "states (table_of d) i = Some SYN_RCVD" and x: "closing x = 0"
    and P: "\<And>e y d'. tsteps (table_of d) (table_of d') \<Longrightarrow> conns_ok (table_of d') \<Longrightarrow> closing y = 0 \<Longrightarrow> P (e, y, d')"
  shows "ensures (process_syn_rcvd up x i d) P"
proof -
  have act: "i \<in> set (active (table_of d))" using conns_ok_place(4) [OF ok i] by simp
  define t where "t = (table_of d)\<lparr>states := (states (table_of d))(i \<mapsto> ESTABLISHED)\<rparr>"
  have t: "tsteps (table_of d) t"
    using r_into_rtranclp [where r = tstep, OF tstep.move [OF act i edge.intros(2)]] by (simp add: t_def)
  note t_ok = tsteps_ok [OF t ok]
  have at: "i \<in> set (active t)" "states t i = Some ESTABLISHED" using act by (simp_all add: t_def)
  have est: "ensures (upd_tcp i (\<lambda>u. u\<lparr>tstate := ESTABLISHED\<rparr>) d) Q" if "\<And>d'. table_of d' = t \<Longrightarrow> tsteps (table_of d) (table_of d') \<Longrightarrow> conns_ok (table_of d') \<Longrightarrow> Q d'"
    for Q :: "'a tcp_scheme \<Rightarrow> bool"
    by (rule set_state) (rule that, use t t_ok in \<open>simp_all add: t_def\<close>)
  have abort: "ensures (tcp_abort up i d') Q"
    if "table_of d' = t" "\<And>d'. tsteps (table_of d) (table_of d') \<Longrightarrow> conns_ok (table_of d') \<Longrightarrow> Q d'" for d' and Q :: "'a tcp_scheme \<Rightarrow> bool"
  proof (rule tcp_abandon_steps)
    show "conns_ok (table_of d')" "i \<in> set (active (table_of d')) \<union> set (tws (table_of d'))" using that(1) t_ok at by simp_all
    show "tstep (table_of d') (table_of d2) \<Longrightarrow> conns_ok (table_of d2) \<Longrightarrow> Q d2" for d2 :: "'a tcp_scheme"
      using that t by (auto intro: rtranclp.rtrancl_into_rtrancl)
  qed
  have wait: "ensures (upd_tcp i (\<lambda>u. u\<lparr>tstate := CLOSE_WAIT\<rparr>) d') Q"
    if "table_of d' = t" "\<And>d'. tsteps (table_of d) (table_of d') \<Longrightarrow> conns_ok (table_of d') \<Longrightarrow> Q d'" for d' and Q :: "'a tcp_scheme \<Rightarrow> bool"
  proof (rule set_state)
    fix d2 :: "'a tcp_scheme" assume "table_of d2 = (table_of d')\<lparr>states := (states (table_of d'))(i \<mapsto> CLOSE_WAIT)\<rparr>"
    then have "tsteps (table_of d) (table_of d2)"
      using tstep.move [OF at edge.intros(5)] t that(1) by (auto intro: rtranclp_trans)
    then show "Q d2" using that(2) tsteps_ok [OF _ ok] by blast
  qed
  have same: "ensures (upd_tcp i (\<lambda>u. u\<lparr>cwnd := f u\<rparr>) d') Q"
    if "\<And>d''. table_of d'' = table_of d' \<Longrightarrow> Q d''" for f d' and Q :: "'a tcp_scheme \<Rightarrow> bool"
    using that by (auto intro!: wp)
  note upd_tcp_table [wp del]
  show ?thesis
    unfolding process_syn_rcvd_def by (auto simp: Let_def ok x t t_ok intro!: est abort wait same wp P)
qed

lemma tcp_process_steps:
  assumes ok: "conns_ok (table_of d)" and x: "closing x = 0" and i: "i \<in> set (active (table_of d))"
    and P: "\<And>e y d'. tsteps (table_of d) (table_of d') \<Longrightarrow> conns_ok (table_of d') \<Longrightarrow>
      (closing y \<noteq> 0 \<Longrightarrow> i \<in> set (active (table_of d'))) \<Longrightarrow> P (e, y, d')"
  shows "ensures (tcp_process up x i d) P"
proof -
  have state: "ensures (case s of
           SYN_SENT \<Rightarrow> do { d \<leftarrow> process_syn_sent up x i d'; Some (ERR_OK, x, d) }
         | SYN_RCVD \<Rightarrow> process_syn_rcvd up x i d'
         | CLOSED \<Rightarrow> Some (ERR_OK, x, d')
         | LISTEN \<Rightarrow> Some (ERR_OK, x, d')
         | TIME_WAIT \<Rightarrow> Some (ERR_OK, x, d')
         | _ \<Rightarrow> do { (x, d) \<leftarrow> process_data x i d'; Some (ERR_OK, x, d) }) P"
    if d': "table_of d' = table_of d" and s: "states (table_of d) i = Some s" for d' s
  proof -
    have pd: "ensures (process_data x i d') (\<lambda>(y, d). P (ERR_OK, y, d))"
      if "s \<in> {ESTABLISHED, CLOSE_WAIT, FIN_WAIT_1, FIN_WAIT_2, CLOSING, LAST_ACK}"
      by (rule process_data_steps [where s = s]) (use that d' s ok x i tsteps_ok [OF _ ok] in \<open>auto intro!: P\<close>)
    show ?thesis
    proof (cases s)
      case SYN_SENT
      then show ?thesis using d' s ok by (auto intro!: process_syn_sent_steps P simp: x)
    next
      case SYN_RCVD
      then show ?thesis using d' s ok by (auto intro!: process_syn_rcvd_steps P simp: x)
    qed (use d' ok x pd in \<open>auto intro!: P simp: split_def\<close>)
  qed
  show ?thesis
    unfolding tcp_process_def
    by (auto simp del: tcp_state.case simp: x ok i intro!: ensures_if wp P state)
qed

lemma tcp_listen_input_steps:
  assumes ok: "conns_ok (table_of d)" and j: "listening (table_of d) \<noteq> []" and P: "\<And>e d'. tsteps (table_of d) (table_of d') \<Longrightarrow> conns_ok (table_of d') \<Longrightarrow> P (e, d')"
  shows "ensures (tcp_listen_input up x j d) P"
proof -
  have P': "P (e, d')" if "tsteps (table_of d) (table_of d')" for e d' using P that tsteps_ok [OF that ok] by blast
  have alloc: "ensures (tcp_alloc up p d1) Q"
    if "table_of d1 = table_of d" "\<And>d'. tsteps (table_of d) (table_of d') \<Longrightarrow> conns_ok (table_of d') \<Longrightarrow> Q (None, d')"
      "\<And>n r t d'. n \<notin> set (bound t) \<union> set (active t) \<union> set (tws t) \<Longrightarrow> tsteps (table_of d) (t\<lparr>free_pcbs := r, states := (states t)(n \<mapsto> SYN_RCVD), active := n # active t\<rparr>) \<Longrightarrow>
        table_of d' = t\<lparr>free_pcbs := r, states := (states t)(n \<mapsto> CLOSED)\<rparr> \<Longrightarrow> Q (Some n, d')" for d1 p Q
  proof (rule tcp_alloc_steps)
    fix n r t and d' :: "'a tcp_scheme" assume t: "tsteps (table_of d1) t" "conns_ok t" "free_pcbs t = n # r" "table_of d' = t\<lparr>free_pcbs := r, states := (states t)(n \<mapsto> CLOSED)\<rparr>"
    have "listening t \<noteq> []" using tsteps_listening [OF t(1)] j that(1) by auto
    then show "Q (Some n, d')"
      by (intro that(3) [OF _ _ t(4)]) (use t(1,2,3) that(1) tstep.accept [OF _ t(3)] in \<open>auto simp: conns_ok_def intro: rtranclp.rtrancl_into_rtrancl\<close>)
  qed (use that ok in auto)
  have acc: "ensures (upd_tcp n (accepted_pcb x l dst src rport w) d1) Q"
    if "\<And>d'. table_of d' = (table_of d1)\<lparr>states := (states (table_of d1))(n \<mapsto> SYN_RCVD)\<rparr> \<Longrightarrow> Q d'"
    for n l dst src rport w d1 and Q :: "'a tcp_scheme \<Rightarrow> bool"
    by (rule upd_tcp_state) (auto simp: accepted_pcb_def intro: that)
  have mss: "ensures (upd_tcp n (\<lambda>u. u\<lparr>mss := f u\<rparr>) d1) Q" if "\<And>d'. table_of d' = table_of d1 \<Longrightarrow> Q d'"
    for n f d1 and Q :: "'a tcp_scheme \<Rightarrow> bool"
    using that by (auto intro!: wp)
  have abandon: "ensures (tcp_abandon up n b d1) Q"
    if "tsteps (table_of d) (table_of d1)" "n \<in> set (active (table_of d1))"
      "\<And>d'. tsteps (table_of d) (table_of d') \<Longrightarrow> conns_ok (table_of d') \<Longrightarrow> Q d'" for n b d1 and Q :: "'a tcp_scheme \<Rightarrow> bool"
    using that tsteps_ok [OF that(1) ok] by (intro tcp_abandon_steps) (auto intro: rtranclp.rtrancl_into_rtrancl)
  note upd_tcp_table [wp del]
  show ?thesis
    unfolding tcp_listen_input_def
    by (auto simp: ok Let_def table_of_reg intro!: wp alloc acc mss abandon P' ensures_read [where m = "listen_mem d j" for d j])
qed

lemma and_mask_0: "v AND m = 0 \<Longrightarrow> m AND k = k \<Longrightarrow> v AND k = 0" for v m k :: "'w::len word"
  by (metis and.assoc and_zero_eq zero_and_eq)

lemma tcp_events_steps:
  assumes ok: "conns_ok (table_of d)" and i: "closing x \<noteq> 0 \<Longrightarrow> i \<in> set (active (table_of d))"
    and P: "\<And>d'. tsteps (table_of d) (table_of d') \<Longrightarrow> conns_ok (table_of d') \<Longrightarrow> P d'"
  shows "ensures (tcp_events up x i d) P"
proof -
  have P': "P d'" if "tsteps (table_of d) (table_of d')" for d' using P that tsteps_ok [OF that ok] by blast
  have "closing x \<noteq> 0" if "recv_flags x AND TF_RESET \<noteq> 0 \<or> recv_flags x AND TF_CLOSED \<noteq> 0"
    using that and_mask_0 [of "recv_flags x" "TF_RESET OR TF_CLOSED" TF_RESET] and_mask_0 [of "recv_flags x" "TF_RESET OR TF_CLOSED" TF_CLOSED]
    by (auto simp: closing_def)
  then have i: "i \<in> set (active (table_of d))" if "recv_flags x AND TF_RESET \<noteq> 0 \<or> recv_flags x AND TF_CLOSED \<noteq> 0"
    using i that by blast
  have rmv: "ensures (tcp_pcb_remove Active_pcbs i d1) Q"
    if "i \<in> set (active (table_of d))" "table_of d1 = table_of d" "\<And>d'. tsteps (table_of d) (table_of (free_tcp_pcb i d')) \<Longrightarrow> Q d'"
    for d1 and Q :: "'a tcp_scheme \<Rightarrow> bool"
    by (rule tcp_pcb_remove_active) (use that ok r_into_rtranclp [where r = tstep, OF tstep.drop_active [OF that(1)]] in \<open>simp_all\<close>)
  note event_steps [wp del]
  show ?thesis
    unfolding tcp_events_def
    by (auto simp: i intro!: wp event_from [OF ok] rmv P')
qed

lemma tcp_conn_input_steps:
  assumes ok: "conns_ok (table_of d)" and x: "closing x = 0" and i: "i \<in> set (active (table_of d))"
    and P: "\<And>d'. tsteps (table_of d) (table_of d') \<Longrightarrow> conns_ok (table_of d') \<Longrightarrow> P d'"
  shows "ensures (tcp_conn_input up x p i d) P"
proof -
  have P': "P d'" if "tsteps (table_of d) (table_of d')" for d' using P that tsteps_ok [OF that ok] by blast
  have process: "ensures (tcp_process up x i d1) Q"
    if "tsteps (table_of d) (table_of d1)" "stays i (table_of d) (table_of d1)"
      "\<And>e y d'. tsteps (table_of d) (table_of d') \<Longrightarrow> (closing y \<noteq> 0 \<Longrightarrow> i \<in> set (active (table_of d'))) \<Longrightarrow> Q (e, y, d')"
    for d1 and Q :: "err_t \<times> tcp_in \<times> 'a tcp_scheme \<Rightarrow> bool"
  proof (cases "i \<in> set (active (table_of d1))")
    case True
    show ?thesis
      by (rule tcp_process_steps [OF _ x True]) (use tsteps_ok [OF that(1) ok] in \<open>auto intro!: that(3) rtranclp_trans [OF that(1)]\<close>)
  next
    case False
    then have "states (table_of d1) i = None" using that(2) i by (auto simp: stays_def)
    then show ?thesis unfolding tcp_process_def by (auto simp: table_of_def intro!: ensuresI)
  qed
  have events: "ensures (tcp_events up y i d1) Q"
    if "tsteps (table_of d) (table_of d1)" "closing y \<noteq> 0 \<Longrightarrow> i \<in> set (active (table_of d1))"
      "\<And>d'. tsteps (table_of d) (table_of d') \<Longrightarrow> Q d'" for y d1 and Q :: "'a tcp_scheme \<Rightarrow> bool"
    by (rule tcp_events_steps [OF tsteps_ok [OF that(1) ok] that(2)]) (auto intro!: that(3) rtranclp_trans [OF that(1)])
  note event_steps [wp del]
  show ?thesis
    unfolding tcp_conn_input_def by (auto simp: Let_def ok intro!: event_recv_stays wp process events P')
qed

lemma find_conn_mem: "find_conn k is d = Some (Some i) \<Longrightarrow> i \<in> set is"
  by (induction k "is" d rule: find_conn.induct) (auto simp: bind_eq_Some_conv split: if_splits)

lemma find_listen_mem: "find_listen a p js d = Some (Some j) \<Longrightarrow> j \<in> set js"
  by (induction a p js d rule: find_listen.induct) (auto simp: bind_eq_Some_conv split: if_splits)

lemma tcp_demux_steps:
  fixes d :: "'a tcp_scheme"
  assumes ok: "conns_ok (table_of d)" and x: "closing x = 0"
    and P: "\<And>d'. tsteps (table_of d) (table_of d') \<Longrightarrow> conns_ok (table_of d') \<Longrightarrow> P d'"
  shows "ensures (tcp_demux up x p k d) P"
proof -
  have conn: "ensures (tcp_conn_input up x p i (d\<lparr>tcp_active_pcbs := to_front i (tcp_active_pcbs d)\<rparr>)) P"
    if "find_conn k (tcp_active_pcbs d) d = Some (Some i)" for i
  proof -
    have i: "i \<in> set (active (table_of d))" using find_conn_mem [OF that] by (simp add: table_of_fields)
    define d1 where "d1 = d\<lparr>tcp_active_pcbs := to_front i (tcp_active_pcbs d)\<rparr>"
    have st: "tstep (table_of d) (table_of d1)" using tstep.front [OF i] by (simp add: d1_def table_of_def)
    have "i \<in> set (active (table_of d1))" by (simp add: d1_def table_of_def to_front_def)
    then have "ensures (tcp_conn_input up x p i d1) P"
      using st tstep_ok [OF st ok] x by (intro tcp_conn_input_steps) (auto intro!: P intro: converse_rtranclp_into_rtranclp)
    then show ?thesis by (simp add: d1_def)
  qed
  have listen: "ensures (tcp_listen_input up x j (d\<lparr>tcp_listen_pcbs := to_front j (tcp_listen_pcbs d)\<rparr>)) Q"
    if "find_listen a b (tcp_listen_pcbs d) d = Some (Some j)"
      "\<And>e d'. tsteps (table_of d) (table_of d') \<Longrightarrow> conns_ok (table_of d') \<Longrightarrow> Q (e, d')" for a b j Q
  proof -
    have j: "j \<in> set (listening (table_of d))" using find_listen_mem [OF that(1)] by (simp add: table_of_fields)
    define d1 where "d1 = d\<lparr>tcp_listen_pcbs := to_front j (tcp_listen_pcbs d)\<rparr>"
    have st: "tstep (table_of d) (table_of d1)" using tstep.front_listener [OF j] by (simp add: d1_def table_of_def)
    have "listening (table_of d1) \<noteq> []" by (simp add: d1_def table_of_def to_front_def)
    then have "ensures (tcp_listen_input up x j d1) Q"
      using st tstep_ok [OF st ok] by (intro tcp_listen_input_steps) (auto intro!: that(2) intro: converse_rtranclp_into_rtranclp)
    then show ?thesis by (simp add: d1_def)
  qed
  show ?thesis
    unfolding tcp_demux_def
    by (auto simp: ok intro!: wp conn listen P ensures_read [where m = "hdr_flags st h" for st h]
        ensuresI [where m = "find_conn k xs e" for xs e] ensuresI [where m = "find_listen a b xs e" for a b xs e])
qed

lemma tcp_header_in_tcp_pools [wp]:
  assumes "\<And>y a b st'. tcp_pools (pools st') = tcp_pools (pools st) \<Longrightarrow> closing y = 0 \<Longrightarrow> P (y, a, b, st')"
  shows "ensures (tcp_header_in p q h st) P"
  unfolding tcp_header_in_def
  by (auto simp: closing_def intro!: wp assms ensures_read [where m = "hdr_flags st h" for st h])

lemma tcp_input_steps:
  fixes d :: "'a tcp_scheme"
  assumes ok: "conns_ok (table_of d)" and P: "\<And>d'. tsteps (table_of d) (table_of d') \<Longrightarrow> conns_ok (table_of d') \<Longrightarrow> P d'"
  shows "ensures (tcp_input up p d) P"
  unfolding tcp_input_def
  by (auto simp: Let_def ok intro!: wp P tcp_demux_steps )

subsection \<open>Timers\<close>

lemma keepalive_steps:
  assumes ok: "conns_ok (table_of d)" and i: "i \<in> set (active (table_of d))"
    and P: "\<And>d'. table_of d' = table_of d \<or> tstep (table_of d) (table_of d') \<and> i \<notin> dom (states (table_of d')) \<Longrightarrow> P d'"
  shows "ensures (keepalive_step up i d) P"
proof -
  have "ensures (tcp_abort up i d) P" by (rule tcp_abandon_steps [OF ok]) (use i in \<open>auto intro!: P\<close>)
  then show ?thesis unfolding keepalive_step_def by (auto intro!: wp P)
qed

lemma rto_backoff_state [simp]: "tstate (rto_backoff u) = tstate u"
  by (simp add: rto_backoff_def Let_def)

lemma rto_step_table [wp]:
  fixes d :: "'b tcp_scheme"
  assumes "\<And>d'. table_of d' = table_of d \<Longrightarrow> tcp_pools (pools (pm d')) = tcp_pools (pools (pm d)) \<Longrightarrow> P d'"
  shows "ensures (rto_step i d) P"
  unfolding rto_step_def by (auto intro!: wp assms)

lemma persist_step_table [wp]:
  fixes d :: "'b tcp_scheme"
  assumes "\<And>d'. table_of d' = table_of d \<Longrightarrow> tcp_pools (pools (pm d')) = tcp_pools (pools (pm d)) \<Longrightarrow> P d'"
  shows "ensures (persist_step i d) P"
  unfolding persist_step_def by (auto simp: Let_def intro!: wp assms)

text \<open>A control block that its own abort has freed has no result: the timer reads it once more.\<close>

lemma slow_pcb_table:
  assumes ok: "conns_ok (table_of d)" and i: "i \<in> set (active (table_of d))"
    and P: "\<And>b d'. table_of d' = table_of d \<Longrightarrow> P (b, d')"
  shows "ensures (slow_pcb up i d) P"
proof -
  have keep: "ensures (keepalive_step up i d1) (\<lambda>d. ensures (tcp_mem d i) (\<lambda>v. P (b v (tcp_ticks d), d)))"
    if "table_of d1 = table_of d" for d1 b
  proof (rule keepalive_steps)
    fix d' :: "'a tcp_scheme" assume "table_of d' = table_of d1 \<or> tstep (table_of d1) (table_of d') \<and> i \<notin> dom (states (table_of d'))"
    then show "ensures (tcp_mem d' i) (\<lambda>v. P (b v (tcp_ticks d'), d'))"
      using that by (cases "tcp_mem d' i") (auto intro!: P simp: states_Some)
  qed (use that ok i in auto)
  show ?thesis
    unfolding slow_pcb_def by (auto intro!: wp keep)
qed

text \<open>The walk of the slow timer over the list: \<open>pcb\<close> is the first element, or the one after \<open>prev\<close>.\<close>

definition walk :: "nat option \<Rightarrow> nat option \<Rightarrow> nat list \<Rightarrow> bool" where
  "walk prev pcb xs \<longleftrightarrow> (case prev of None \<Rightarrow> pcb = first_pcb xs | Some q \<Rightarrow> next_pcb q xs = Some pcb)"

lemma next_pcb_split: "next_pcb q xs = Some y \<longleftrightarrow> (\<exists>as bs. xs = as @ q # bs \<and> q \<notin> set as \<and> y = first_pcb bs)"
proof
  assume "next_pcb q xs = Some y"
  then obtain z bs where d: "dropWhile (\<lambda>x. x \<noteq> q) xs = z # bs" and y: "y = first_pcb bs"
    by (auto simp: next_pcb_def first_pcb_def split: list.splits)
  have "z = q" using hd_dropWhile [of "\<lambda>x. x \<noteq> q" xs] d by simp
  then have "xs = takeWhile (\<lambda>x. x \<noteq> q) xs @ q # bs" using d takeWhile_dropWhile_id [of "\<lambda>x. x \<noteq> q" xs] by simp
  moreover have "q \<notin> set (takeWhile (\<lambda>x. x \<noteq> q) xs)" by (auto dest: set_takeWhileD)
  ultimately show "\<exists>as bs. xs = as @ q # bs \<and> q \<notin> set as \<and> y = first_pcb bs" using y by blast
next
  assume "\<exists>as bs. xs = as @ q # bs \<and> q \<notin> set as \<and> y = first_pcb bs"
  then obtain as bs where "xs = as @ q # bs" "q \<notin> set as" "y = first_pcb bs" by blast
  moreover have "dropWhile (\<lambda>x. x \<noteq> q) (as @ q # bs) = q # bs" if "q \<notin> set as" for as using that by (induction as) auto
  ultimately show "next_pcb q xs = Some y" by (simp add: next_pcb_def first_pcb_def)
qed

lemma first_pcb_Some [simp]: "first_pcb xs = Some i \<longleftrightarrow> (\<exists>ys. xs = i # ys)" "Some i = first_pcb xs \<longleftrightarrow> (\<exists>ys. xs = i # ys)"
  by (auto simp: first_pcb_def split: list.splits)

lemma walk_mem: "walk prev (Some i) xs \<Longrightarrow> i \<in> set xs"
  by (auto simp: walk_def next_pcb_split split: option.splits)

lemma takeWhile_other: "q \<notin> set as \<Longrightarrow> takeWhile (\<lambda>x. x \<noteq> q) (as @ q # bs) = as"
  by (induction as) auto

lemma dropWhile_other: "q \<notin> set as \<Longrightarrow> dropWhile (\<lambda>x. x \<noteq> q) (as @ q # bs) = q # bs"
  by (induction as) auto

lemma walk_unlink:
  assumes "distinct xs" "walk prev (Some i) xs" "next_pcb i xs = Some nx"
  shows "unlink_pcb prev i xs = remove1 i xs \<and> walk prev nx (remove1 i xs)"
proof (cases prev)
  case None
  then obtain ys where "xs = i # ys" using assms(2) by (auto simp: walk_def)
  then show ?thesis using assms None by (simp add: walk_def unlink_pcb_def next_pcb_def first_pcb_def)
next
  case (Some q)
  then obtain as ys where xs: "xs = as @ q # i # ys" using assms(2) by (auto simp: walk_def next_pcb_split)
  then have n: "q \<notin> set as" "i \<notin> set (as @ [q])" using assms(1) by auto
  have "dropWhile (\<lambda>x. x \<noteq> i) xs = i # ys" using dropWhile_other [OF n(2), of ys] xs by simp
  moreover have "nx = first_pcb ys" using assms(3) calculation by (simp add: next_pcb_def first_pcb_def)
  moreover have "takeWhile (\<lambda>x. x \<noteq> q) xs = as" using takeWhile_other [OF n(1)] xs by simp
  moreover have "remove1 i xs = as @ q # ys" using n xs by (auto simp: remove1_append)
  ultimately show ?thesis using Some n by (auto simp: walk_def unlink_pcb_def next_pcb_split)
qed

lemma slow_active_step:
  fixes d :: "'a tcp_scheme"
  assumes ok: "conns_ok (table_of d)" and w: "walk prev pcb (active (table_of d))"
    and loop: "\<And>prev' pcb' d'. tsteps (table_of d) (table_of d') \<Longrightarrow> walk prev' pcb' (active (table_of d')) \<Longrightarrow>
      ensures (loop up prev' pcb' d') (\<lambda>r. tsteps (table_of d) (table_of r))"
  shows "ensures (case pcb of
        None \<Rightarrow> Some d
      | Some i \<Rightarrow> do {
          (remove, d) \<leftarrow> slow_pcb up i d;
          (if remove
           then do {
             d \<leftarrow> tcp_pcb_purge i d;
             u \<leftarrow> tcp_mem d i;
             nx \<leftarrow> next_pcb i (tcp_active_pcbs d);
             d \<leftarrow> event_err up (errf u) (callback_arg u) ERR_ABRT
                   (d\<lparr>tcp_active_pcbs := unlink_pcb prev i (tcp_active_pcbs d)\<rparr>);
             loop up prev nx (free_tcp_pcb i d)
           }
           else do {
             d \<leftarrow> upd_tcp i (\<lambda>u. u\<lparr>polltmr := polltmr u + 1\<rparr>) d;
             u \<leftarrow> tcp_mem d i;
             d \<leftarrow> (if pollinterval u \<le> polltmr u
                  then do {
                    d \<leftarrow> upd_tcp i (\<lambda>u. u\<lparr>polltmr := 0\<rparr>) d;
                    (e, d) \<leftarrow> event_poll up i d;
                    (if e = ERR_OK then do { (_, d) \<leftarrow> tcp_output i d; Some d } else Some d)
                  }
                  else Some d);
             nx \<leftarrow> next_pcb i (tcp_active_pcbs d);
             loop up (Some i) nx d
           })
        }) (\<lambda>r. tsteps (table_of d) (table_of r))"
proof (cases pcb)
  case (Some i)
  have i: "i \<in> set (active (table_of d))" using walk_mem w Some by simp
  have act: "tcp_active_pcbs d' = active (table_of d')" for d' :: "'a tcp_scheme" by (simp add: table_of_fields)
  have removed: "ensures (loop up prev nx (free_tcp_pcb i d2)) (\<lambda>r. tsteps (table_of d) (table_of r))"
    if "table_of d1 = table_of d" "next_pcb i (active (table_of d)) = Some nx"
      "table_of d2 = table_of (d1\<lparr>tcp_active_pcbs := unlink_pcb prev i (active (table_of d))\<rparr>)" for d1 d2 nx
  proof -
    have u: "unlink_pcb prev i (active (table_of d)) = remove1 i (active (table_of d))" "walk prev nx (remove1 i (active (table_of d)))"
      using walk_unlink [OF conns_okD(2) [OF ok]] w Some that(2) by blast+
    have "table_of (d1\<lparr>tcp_active_pcbs := xs\<rparr>) = (table_of d1)\<lparr>active := xs\<rparr>" for xs by (simp add: table_of_def)
    then have "tstep (table_of d) (table_of (free_tcp_pcb i d2))" "active (table_of (free_tcp_pcb i d2)) = remove1 i (active (table_of d))"
      using tstep.drop_active [OF i] that(1,3) u(1) by simp_all
    then show ?thesis using u(2) by (intro loop) auto
  qed
  have same: "ensures (loop up (Some i) nx d1) (\<lambda>r. tsteps (table_of d) (table_of r))"
    if "next_pcb i (active (table_of d1)) = Some nx" "tsteps (table_of d) (table_of d1)" for d1 nx
    using that by (intro loop) (simp_all add: walk_def)
  show ?thesis
    unfolding Some act
    by (auto simp: i ok intro!: wp slow_pcb_table removed same ensuresI [where m = "next_pcb q xs" for q xs])
qed simp

lemma slow_active_steps:
  assumes "slow_active up prev pcb d = Some r" "conns_ok (table_of d)" "walk prev pcb (active (table_of d))"
  shows "tsteps (table_of d) (table_of r)"
proof -
  have "up' = up \<longrightarrow> conns_ok (table_of d) \<longrightarrow> walk prev pcb (active (table_of d)) \<longrightarrow> tsteps (table_of d) (table_of r)"
    if "slow_active up' prev pcb d = Some r" for up'
  proof (rule slow_active.raw_induct [OF _ that], goal_cases)
    case (1 loop up' prev pcb d r)
    show ?case
    proof (intro impI)
      assume a: "up' = up" "conns_ok (table_of d)" "walk prev pcb (active (table_of d))"
      show "tsteps (table_of d) (table_of r)"
      proof (rule ensuresD [OF slow_active_step [where loop = loop, OF a(2,3)] 1(2) [unfolded a(1)]], rule ensuresI)
        fix prev' pcb' d' r'
        assume "tsteps (table_of d) (table_of d')" "walk prev' pcb' (active (table_of d'))" "loop up prev' pcb' d' = Some r'"
        then show "tsteps (table_of d) (table_of r')"
          using 1(1) [of up prev' pcb' d' r'] tsteps_ok [OF _ a(2)] by (meson rtranclp_trans)
      qed
    qed
  qed
  then show ?thesis using assms by blast
qed

lemma slow_tw_steps:
  fixes d :: "'a tcp_scheme"
  assumes "conns_ok (table_of d)" "distinct is" "set is \<subseteq> set (tws (table_of d))"
    "\<And>d'. tsteps (table_of d) (table_of d') \<Longrightarrow> P d'"
  shows "ensures (slow_tw is d) P"
  using assms
proof (induction "is" arbitrary: d)
  case (Cons i "is")
  have i: "i \<in> set (tws (table_of d))" using Cons.prems(3) by simp
  note st = tstep.drop_tw [OF i]
  have drop: "ensures (slow_tw is (free_tcp_pcb i (d1\<lparr>tcp_tw_pcbs := remove1 i (tcp_tw_pcbs d1)\<rparr>))) P" if d1: "table_of d1 = table_of d" for d1
  proof -
    define d2 where "d2 = free_tcp_pcb i (d1\<lparr>tcp_tw_pcbs := remove1 i (tcp_tw_pcbs d1)\<rparr>)"
    have t2: "tstep (table_of d) (table_of d2)" using st d1 by (simp add: d2_def table_of_fields)
    have "set is \<subseteq> set (tws (table_of d2))"
      using Cons.prems(2,3) d1 by (auto simp: d2_def table_of_fields conns_okD(3) [OF Cons.prems(1)])
    then have "ensures (slow_tw is d2) P"
      using Cons.prems(2) tstep_ok [OF t2 Cons.prems(1)]
      by (intro Cons.IH) (auto intro!: Cons.prems(4) converse_rtranclp_into_rtranclp [where r = tstep, OF t2])
    then show ?thesis by (simp add: d2_def)
  qed
  have same: "ensures (slow_tw is d1) P" if d1: "table_of d1 = table_of d" for d1 using Cons.prems d1 by (intro Cons.IH) auto
  show ?case by (auto simp del: table_of_simps intro!: wp same drop)
qed simp

lemma tcp_slowtmr_steps:
  fixes d :: "'a tcp_scheme"
  assumes ok: "conns_ok (table_of d)" and P: "\<And>d'. tsteps (table_of d) (table_of d') \<Longrightarrow> P d'"
  shows "ensures (tcp_slowtmr up d) P"
proof -
  have walk: "ensures (slow_active up None (first_pcb (tcp_active_pcbs d)) (d\<lparr>tcp_ticks := n\<rparr>)) (\<lambda>d'. tsteps (table_of d) (table_of d'))" for n
    by (rule ensuresI, drule slow_active_steps) (use ok in \<open>auto simp: walk_def table_of_fields\<close>)
  have tw: "ensures (slow_tw (tcp_tw_pcbs d') d') P" if "tsteps (table_of d) (table_of d')" for d'
    using tsteps_ok [OF that ok] by (intro slow_tw_steps) (auto simp: table_of_fields conns_okD(3) intro!: P rtranclp_trans [OF that])
  show ?thesis
    unfolding tcp_slowtmr_def using ensures_mono [OF walk tw] by (simp add: Let_def)
qed

lemma fast_pcb_steps:
  assumes "conns_ok (table_of d)" "\<And>d'. tsteps (table_of d) (table_of d') \<Longrightarrow> P d'"
  shows "ensures (fast_pcb up i d) P"
  unfolding fast_pcb_def by (auto intro!: wp assms)

lemma fast_loop_steps:
  assumes "fast_loop up pcb d = Some r" "conns_ok (table_of d)"
  shows "tsteps (table_of d) (table_of r)"
proof -
  have "up' = up \<longrightarrow> conns_ok (table_of d) \<longrightarrow> tsteps (table_of d) (table_of r)" if "fast_loop up' pcb d = Some r" for up'
  proof (rule fast_loop.raw_induct [OF _ that], goal_cases)
    case (1 loop up' pcb d r)
    have "tsteps (table_of d) (table_of r)" if a: "up' = up" "conns_ok (table_of d)"
    proof (rule ensuresD [OF _ 1(2)])
      have lp: "ensures (loop up nx d') (\<lambda>r. tsteps (table_of d) (table_of r))" if "tsteps (table_of d) (table_of d')" for nx d'
        using that tsteps_ok [OF that a(2)] by (auto intro!: ensuresI dest!: 1(1) elim!: rtranclp_trans)
      show "ensures (case pcb of None \<Rightarrow> Some d | Some i \<Rightarrow> do {
          d \<leftarrow> fast_pcb up' i d; nx \<leftarrow> next_pcb i (tcp_active_pcbs d); loop up' nx d }) (\<lambda>r. tsteps (table_of d) (table_of r))"
        using a by (auto intro!: wp fast_pcb_steps lp ensures_read [where m = "next_pcb q xs" for q xs])
    qed
    then show ?case by blast
  qed
  then show ?thesis using assms by blast
qed

lemma tcp_tmr_steps:
  fixes d :: "'a tcp_scheme"
  assumes ok: "conns_ok (table_of d)" and P: "\<And>d'. tsteps (table_of d) (table_of d') \<Longrightarrow> conns_ok (table_of d') \<Longrightarrow> P d'"
  shows "ensures (tcp_tmr up d) P"
proof -
  have fast: "ensures (tcp_fasttmr up d) (\<lambda>d'. tsteps (table_of d) (table_of d'))"
    unfolding tcp_fasttmr_def by (rule ensuresI, drule fast_loop_steps [OF _ ok])
  have slow: "ensures (tcp_slowtmr up (d'\<lparr>tcp_timer := n\<rparr>)) P" if "tsteps (table_of d) (table_of d')" for d' n
    using tsteps_ok [OF that ok]
    by (intro tcp_slowtmr_steps) (auto intro!: P tsteps_ok [OF _ ok] intro: rtranclp_trans [OF that])
  have P': "P d'" if "tsteps (table_of d) (table_of d')" for d' using P that tsteps_ok [OF that ok] by blast
  show ?thesis
    unfolding tcp_tmr_def ensures_simps by (rule ensures_mono [OF fast]) (auto simp: Let_def intro!: slow P')
qed

end

end
