(* ===== verification/Tcp_Run.thy ===== *)
theory Tcp_Run
  imports Tcp_Client Tcp_Server
begin

text \<open>
  The echo server under TCP: its callbacks keep the promises of an application, so that every segment and every tick
  of the timer moves the connection table by steps of the diagram, and every state that is reached has a table
  that is in order.
\<close>

lemma table_of_es_mem [simp]: "table_of (d\<lparr>es_mem := m\<rparr>) = table_of d" "pm (d\<lparr>es_mem := m\<rparr>) = pm d" for d :: "'a app_scheme"
  by (simp_all add: table_of_def)

lemma upd_es_table [wp]:
  fixes d :: "'a app_scheme"
  assumes "\<And>d'. table_of d' = table_of d \<Longrightarrow> tcp_pools (pools (pm d')) = tcp_pools (pools (pm d)) \<Longrightarrow> P d'"
  shows "ensures (upd_es a f d) P"
  unfolding upd_es_def by (auto intro!: assms ensures_read)

lemma free_es_table [wp]:
  fixes d :: "'a app_scheme"
  assumes "\<And>d'. table_of d' = table_of d \<Longrightarrow> tcp_pools (pools (pm d')) = tcp_pools (pools (pm d)) \<Longrightarrow> P d'"
  shows "ensures (free_es a d) P"
  unfolding free_es_def by (auto intro!: wp assms)

lemma connection_close_steps:
  fixes d :: "'a app_scheme"
  assumes "conns_ok (table_of d)"
    and "\<And>d'. tsteps (table_of d) (table_of d') \<Longrightarrow> stays i (table_of d) (table_of d') \<Longrightarrow> P d'"
  shows "ensures (tcp_echoserver_connection_close i es d) P"
  unfolding tcp_echoserver_connection_close_def by (auto simp: assms(1) intro!: wp assms(2) tcp_close_steps)

lemma echoserver_send_same:
  fixes d :: "'a app_scheme"
  assumes "tcp_echoserver_send i a d = Some r"
  shows "table_of r = table_of d"
proof (rule tcp_echoserver_send.raw_induct [OF _ assms], goal_cases)
  case (1 loop i a d r)
  note [wp] = table_same1 [where m = "loop i a d" and d = d for i a d, OF 1(1)]
  show ?case by (rule ensuresD [OF _ 1(2)]) (auto intro!: wp ensures_read [where m = "es_mem d a" for d a])
qed

lemmas echoserver_send_table [wp] = table_same1 [where m = "tcp_echoserver_send i a d" and d = d for i a d, OF echoserver_send_same]

lemma es_mem_read [wp]: "(\<And>es. P es) \<Longrightarrow> ensures (es_mem d a) P"
  by (rule ensures_read)

lemma echoserver_sent_steps:
  fixes d :: "'a app_scheme"
  assumes "conns_ok (table_of d)" "\<And>e d'. tsteps (table_of d) (table_of d') \<Longrightarrow> P (e, d')"
  shows "ensures (tcp_echoserver_sent arg i n d) P"
  unfolding tcp_echoserver_sent_def
  by (auto simp: assms(1) intro!: wp assms(2) connection_close_steps ensures_read [where m = arg])

lemma es_closed_steps:
  fixes d :: "'a app_scheme"
  assumes "conns_ok (table_of d)"
    and "\<And>d'. tsteps (table_of d) (table_of d') \<Longrightarrow> stays i (table_of d) (table_of d') \<Longrightarrow> P d'"
  shows "ensures (es_closed i a d) P"
  unfolding es_closed_def by (auto simp: assms(1) intro!: wp assms(2) connection_close_steps)

lemma es_first_steps:
  fixes d :: "'a app_scheme"
  assumes "conns_ok (table_of d)"
    and "\<And>d'. tsteps (table_of d) (table_of d') \<Longrightarrow> stays i (table_of d) (table_of d') \<Longrightarrow> P d'"
  shows "ensures (es_first i a p d) P"
  unfolding es_first_def
  by (auto simp: assms(1) intro!: wp assms(2) connection_close_steps ensures_read [where m = "starts_with st q cs" for st q cs])

lemma echoserver_recv_steps:
  fixes d :: "'a app_scheme"
  assumes "conns_ok (table_of d)"
    and "\<And>e d'. tsteps (table_of d) (table_of d') \<Longrightarrow> stays i (table_of d) (table_of d') \<Longrightarrow> P (e, d')"
  shows "ensures (tcp_echoserver_recv arg i p e d) P"
  unfolding tcp_echoserver_recv_def
  by (auto simp: assms(1) intro!: wp assms(2) es_closed_steps es_first_steps ensures_read [where m = arg])

lemma echoserver_accept_table [wp]:
  fixes d :: "'a app_scheme"
  assumes "\<And>e d'. table_of d' = table_of d \<Longrightarrow> tcp_pools (pools (pm d')) = tcp_pools (pools (pm d)) \<Longrightarrow> P (e, d')"
  shows "ensures (tcp_echoserver_accept arg i e d) P"
  unfolding tcp_echoserver_accept_def by (auto simp: Let_def intro!: wp assms)

lemma app_err_table [wp]:
  fixes d :: "'a app_scheme"
  assumes "\<And>d'. table_of d' = table_of d \<Longrightarrow> P d'"
  shows "ensures (app_err f arg e d) P"
  unfolding app_err_def tcp_echoserver_error_def by (auto intro!: wp assms)

lemma app_err_same: "app_err f arg e d = Some d' \<Longrightarrow> table_of d' = table_of d" for d :: "'a app_scheme"
  by (erule ensuresD [rotated]) (rule app_err_table)

interpretation err: tcp_client "err_calls :: 'a app_scheme tcp_calls"
  by unfold_locales (auto simp: err_calls_def dest: app_err_same)

lemma echoserver_poll_steps:
  fixes d :: "'a app_scheme"
  assumes "conns_ok (table_of d)" "i \<in> set (active (table_of d))" "\<And>e d'. tsteps (table_of d) (table_of d') \<Longrightarrow> P (e, d')"
  shows "ensures (tcp_echoserver_poll arg i d) P"
  unfolding tcp_echoserver_poll_def
  by (auto simp: assms(1,2) intro!: wp assms(3) connection_close_steps err.tcp_abandon_steps [OF assms(1)])

lemma echoserver_accept_same:
  "tcp_echoserver_accept arg i e d = Some (e', d') \<Longrightarrow> table_of d' = table_of d" for d :: "'a app_scheme"
  by (drule ensuresD [where P = "\<lambda>r. table_of (snd r) = table_of d", rotated], rule echoserver_accept_table, simp_all)

lemma echoserver_recv_law:
  "tcp_echoserver_recv arg i p e d = Some (e', d') \<Longrightarrow> conns_ok (table_of d) \<Longrightarrow>
    tsteps (table_of d) (table_of d') \<and> stays i (table_of d) (table_of d')" for d :: "'a app_scheme"
  by (drule ensuresD [where P = "\<lambda>r. tsteps (table_of d) (table_of (snd r)) \<and> stays i (table_of d) (table_of (snd r))", rotated],
      rule echoserver_recv_steps, simp_all)

lemma echoserver_sent_law:
  "tcp_echoserver_sent arg i n d = Some (e', d') \<Longrightarrow> conns_ok (table_of d) \<Longrightarrow> tsteps (table_of d) (table_of d')" for d :: "'a app_scheme"
  by (drule ensuresD [where P = "\<lambda>r. tsteps (table_of d) (table_of (snd r))", rotated], rule echoserver_sent_steps, simp_all)

lemma echoserver_poll_law:
  "tcp_echoserver_poll arg i d = Some (e', d') \<Longrightarrow> conns_ok (table_of d) \<Longrightarrow> i \<in> set (active (table_of d)) \<Longrightarrow>
    tsteps (table_of d) (table_of d')" for d :: "'a app_scheme"
  by (drule ensuresD [where P = "\<lambda>r. tsteps (table_of d) (table_of (snd r))", rotated], rule echoserver_poll_steps, simp_all)

lemmas echoserver_laws = app_err_same echoserver_accept_same echoserver_sent_law echoserver_poll_law

interpretation app: tcp_client "app_calls :: 'a app_scheme tcp_calls"
  by unfold_locales (auto simp: app_calls_def dest: echoserver_laws echoserver_recv_law split: if_splits)

end
