(* ===== verification/Input_Table.thy ===== *)
theory Input_Table
  imports Tcp_Run Ip_In
begin

text \<open>
  The rest of the stack beside the connection table: frames, ARP, IP with its reassembly, ICMP, UDP and raw
  protocols receive without touching it.
\<close>

lemma table_of_below [simp]:
  "table_of (d\<lparr>udp_mem := um\<rparr>) = table_of d" "table_of (d\<lparr>udp_pcbs := us\<rparr>) = table_of d"
  "table_of (d\<lparr>raw_mem := rm\<rparr>) = table_of d" "table_of (d\<lparr>raw_pcbs := rs\<rparr>) = table_of d"
  "table_of (d\<lparr>reass_mem := xm\<rparr>) = table_of d" "table_of (d\<lparr>reassdatagrams := xs\<rparr>) = table_of d"
  "table_of (d\<lparr>ip_reass_pbufcount := n\<rparr>) = table_of d" "table_of (d\<lparr>iprh := h\<rparr>) = table_of d"
  "table_of (d\<lparr>mac := mc\<rparr>) = table_of d" "table_of (d\<lparr>gRxBuf := g\<rparr>) = table_of d" "table_of (d\<lparr>nif := x\<rparr>) = table_of d"
  "table_of (d\<lparr>netif_is_default := b\<rparr>) = table_of d"
  by (simp_all add: table_of_def)

lemma table_of_app [simp]: "table_of (d\<lparr>flag := k\<rparr>) = table_of d" "table_of (d\<lparr>TCPTimer := t\<rparr>) = table_of d"
  "table_of (d\<lparr>ARPTimer := t\<rparr>) = table_of d" "table_of (d\<lparr>netifnum := n\<rparr>) = table_of d" for d :: "'a app_scheme"
  by (simp_all add: table_of_def)

lemma above_arp_table: "above_arp d' = above_arp d \<Longrightarrow> table_of d' = table_of d" for d :: "'a tcp_scheme"
  by (rule above_ip_table [OF above_arp_ip])

subsection \<open>ARP\<close>

lemma send_queue_above [wp]: "(\<And>d'. above_arp d' = above_arp d \<Longrightarrow> P d') \<Longrightarrow> ensures (send_queue i eth q d) P"
  by (induction q arbitrary: d) (auto simp: Let_def intro!: wp)

lemma update_arp_entry_above [wp]: "(\<And>e d'. above_arp d' = above_arp d \<Longrightarrow> P (e, d')) \<Longrightarrow> ensures (update_arp_entry ip eth fl d) P"
  unfolding update_arp_entry_def by (auto simp: Let_def intro!: wp)

lemma etharp_ip_input_above [wp]: "(\<And>d'. above_arp d' = above_arp d \<Longrightarrow> P d') \<Longrightarrow> ensures (etharp_ip_input p d) P"
  unfolding etharp_ip_input_def by (auto intro!: wp)

lemma arp_reply_tcp_pools [wp]:
  "(\<And>st'. tcp_pools (pools st') = tcp_pools (pools st) \<Longrightarrow> P st') \<Longrightarrow> ensures (arp_reply p eth ip st) P"
  unfolding arp_reply_def by (auto intro!: wp)

lemma etharp_arp_input_above [wp]: "(\<And>d'. above_arp d' = above_arp d \<Longrightarrow> P d') \<Longrightarrow> ensures (etharp_arp_input eth p d) P"
  unfolding etharp_arp_input_def arp_process_def by (auto simp: Let_def intro!: wp)

lemma tmr_loop_above [wp]: "(\<And>d'. above_arp d' = above_arp d \<Longrightarrow> P d') \<Longrightarrow> ensures (tmr_loop is d) P"
  by (induction "is" arbitrary: d) (auto simp: Let_def intro!: wp)

lemma etharp_tmr_above [wp]: "(\<And>d'. above_arp d' = above_arp d \<Longrightarrow> P d') \<Longrightarrow> ensures (etharp_tmr d) P"
  unfolding etharp_tmr_def by (auto intro!: wp)

lemma etharp_ip_input_table [wp]:
  fixes d :: "'a tcp_scheme"
  assumes "\<And>d'. table_of d' = table_of d \<Longrightarrow> tcp_pools (pools (pm d')) = tcp_pools (pools (pm d)) \<Longrightarrow> P d'"
  shows "ensures (etharp_ip_input p d) P"
  by (rule etharp_ip_input_above) (blast intro: assms above_arp_table table_pools)

lemma etharp_arp_input_table [wp]:
  fixes d :: "'a tcp_scheme"
  assumes "\<And>d'. table_of d' = table_of d \<Longrightarrow> tcp_pools (pools (pm d')) = tcp_pools (pools (pm d)) \<Longrightarrow> P d'"
  shows "ensures (etharp_arp_input eth p d) P"
  by (rule etharp_arp_input_above) (blast intro: assms above_arp_table table_pools)

lemma etharp_tmr_table_of [wp]:
  fixes d :: "'a tcp_scheme"
  assumes "\<And>d'. table_of d' = table_of d \<Longrightarrow> tcp_pools (pools (pm d')) = tcp_pools (pools (pm d)) \<Longrightarrow> P d'"
  shows "ensures (etharp_tmr d) P"
  by (rule etharp_tmr_above) (blast intro: assms above_arp_table table_pools)

lemma etharp_request_table [wp]:
  fixes d :: "'a tcp_scheme"
  assumes "\<And>e d'. table_of d' = table_of d \<Longrightarrow> tcp_pools (pools (pm d')) = tcp_pools (pools (pm d)) \<Longrightarrow> P (e, d')"
  shows "ensures (etharp_request ip d) P"
  by (rule etharp_request_above) (blast intro: assms above_arp_table table_pools)

subsection \<open>ICMP, UDP\<close>

lemma ip_output_if_table [wp]:
  fixes d :: "'a tcp_scheme"
  assumes "\<And>e d'. table_of d' = table_of d \<Longrightarrow> tcp_pools (pools (pm d')) = tcp_pools (pools (pm d)) \<Longrightarrow> P (e, d')"
  shows "ensures (ip_output_if p src dest t s proto d) P"
  by (rule ip_output_if_above) (blast intro: assms above_ip_table table_pools)

lemma icmp_send_response_table [wp]:
  fixes d :: "'a tcp_scheme"
  assumes "\<And>d'. table_of d' = table_of d \<Longrightarrow> tcp_pools (pools (pm d')) = tcp_pools (pools (pm d)) \<Longrightarrow> P d'"
  shows "ensures (icmp_send_response p t c d) P"
  unfolding icmp_send_response_def by (auto simp: Let_def intro!: wp assms)

lemma icmp_dest_unreach_table [wp]:
  fixes d :: "'a tcp_scheme"
  assumes "\<And>d'. table_of d' = table_of d \<Longrightarrow> tcp_pools (pools (pm d')) = tcp_pools (pools (pm d)) \<Longrightarrow> P d'"
  shows "ensures (icmp_dest_unreach p t d) P"
  unfolding icmp_dest_unreach_def by (auto simp: Let_def intro!: wp assms)

lemma icmp_time_exceeded_table [wp]:
  fixes d :: "'a tcp_scheme"
  assumes "\<And>d'. table_of d' = table_of d \<Longrightarrow> tcp_pools (pools (pm d')) = tcp_pools (pools (pm d)) \<Longrightarrow> P d'"
  shows "ensures (icmp_time_exceeded p t d) P"
  unfolding icmp_time_exceeded_def by (auto simp: Let_def intro!: wp assms)

lemma echo_packet_tcp_pools [wp]:
  assumes "\<And>st'. tcp_pools (pools st') = tcp_pools (pools st) \<Longrightarrow> P (Inl st')"
    and "\<And>q r st'. tcp_pools (pools st') = tcp_pools (pools st) \<Longrightarrow> P (Inr (q, r, st'))"
  shows "ensures (echo_packet p h k st) P"
  unfolding echo_packet_def by (auto simp: Let_def intro!: wp assms)

lemma echo_reply_tcp_pools [wp]:
  "(\<And>st'. tcp_pools (pools st') = tcp_pools (pools st) \<Longrightarrow> P st') \<Longrightarrow> ensures (echo_reply p h st) P"
  unfolding echo_reply_def by (auto simp: Let_def intro!: wp)

lemma icmp_input_table [wp]:
  fixes d :: "'a tcp_scheme"
  assumes "\<And>d'. table_of d' = table_of d \<Longrightarrow> tcp_pools (pools (pm d')) = tcp_pools (pools (pm d)) \<Longrightarrow> P d'"
  shows "ensures (icmp_input p d) P"
  unfolding icmp_input_def icmp_echo_def by (auto simp: Let_def intro!: wp assms split: sum.split)

lemmas input_reads [wp] =
  ensures_read [where m = "udp_mem d i" for d i] ensures_read [where m = "raw_mem d i" for d i]
  ensures_read [where m = "reass_mem d i" for d i] ensures_read [where m = "iprh d a" for d a]
  ensures_read [where m = "rp r" for r] ensures_read [where m = "no_holes h d" for h d]
  ensures_read [where m = "find_datagram h r q d" for h r q d] ensures_read [where m = "oldest_scan h r a q n d" for h r a q n d]

lemma upd_udp_table [wp]:
  fixes d :: "'a tcp_scheme"
  assumes "\<And>d'. table_of d' = table_of d \<Longrightarrow> tcp_pools (pools (pm d')) = tcp_pools (pools (pm d)) \<Longrightarrow> P d'"
  shows "ensures (upd_udp i f d) P"
  unfolding upd_udp_def by (auto intro!: assms ensures_read)

lemma udp_bind_table [wp]:
  fixes d :: "'a tcp_scheme"
  assumes "\<And>e d'. table_of d' = table_of d \<Longrightarrow> tcp_pools (pools (pm d')) = tcp_pools (pools (pm d)) \<Longrightarrow> P (e, d')"
  shows "ensures (udp_bind i a n d) P"
  unfolding udp_bind_def by (auto simp: Let_def intro!: wp assms)

lemma udp_connect_table [wp]:
  fixes d :: "'a tcp_scheme"
  assumes "\<And>e d'. table_of d' = table_of d \<Longrightarrow> tcp_pools (pools (pm d')) = tcp_pools (pools (pm d)) \<Longrightarrow> P (e, d')"
  shows "ensures (udp_connect i a n d) P"
  unfolding udp_connect_def by (auto simp: Let_def intro!: wp assms)

lemma udp_disconnect_table [wp]:
  fixes d :: "'a tcp_scheme"
  assumes "\<And>d'. table_of d' = table_of d \<Longrightarrow> tcp_pools (pools (pm d')) = tcp_pools (pools (pm d)) \<Longrightarrow> P d'"
  shows "ensures (udp_disconnect i d) P"
  unfolding udp_disconnect_def by (auto simp: Let_def intro!: wp assms)

lemma udp_recv_table [wp]:
  fixes d :: "'a tcp_scheme"
  assumes "\<And>d'. table_of d' = table_of d \<Longrightarrow> tcp_pools (pools (pm d')) = tcp_pools (pools (pm d)) \<Longrightarrow> P d'"
  shows "ensures (udp_recv i f a d) P"
  unfolding udp_recv_def by (auto simp: Let_def intro!: wp assms)

lemma udp_room_tcp_pools [wp]:
  "(\<And>x st'. tcp_pools (pools st') = tcp_pools (pools st) \<Longrightarrow> P (x, st')) \<Longrightarrow> ensures (udp_room p st) P"
  unfolding udp_room_def by (auto intro!: wp)

lemma udp_checksum_tcp_pools [wp]:
  "(\<And>st'. tcp_pools (pools st') = tcp_pools (pools st) \<Longrightarrow> P st') \<Longrightarrow> ensures (udp_checksum q f a b st) P"
  unfolding udp_checksum_def by (auto simp: Let_def intro!: wp)

lemma udp_sendto_table [wp]:
  fixes d :: "'a tcp_scheme"
  assumes "\<And>e d'. table_of d' = table_of d \<Longrightarrow> tcp_pools (pools (pm d')) = tcp_pools (pools (pm d)) \<Longrightarrow> P (e, d')"
  shows "ensures (udp_sendto i p a n d) P"
  unfolding udp_sendto_def udp_sendto_if_def by (auto simp: Let_def intro!: wp assms)

lemma udp_send_table [wp]:
  fixes d :: "'a tcp_scheme"
  assumes "\<And>e d'. table_of d' = table_of d \<Longrightarrow> tcp_pools (pools (pm d')) = tcp_pools (pools (pm d)) \<Longrightarrow> P (e, d')"
  shows "ensures (udp_send i p d) P"
  unfolding udp_send_def by (auto simp: Let_def intro!: wp assms)

lemma udp_new_table:
  fixes d :: "'a tcp_scheme"
  assumes "udp_new d = (i, d')"
  shows "table_of d' = table_of d"
  using assms by (auto simp: udp_new_def table_of_def memp_malloc_def split: option.splits prod.splits list.splits)

lemma udp_remove_table [simp]: "table_of (udp_remove i d) = table_of d" for d :: "'a tcp_scheme"
  by (simp add: udp_remove_def Let_def table_of_def memp_free_def)

lemma zzsend_table [wp]:
  fixes d :: "'a app_scheme"
  assumes "\<And>d'. table_of d' = table_of d \<Longrightarrow> tcp_pools (pools (pm d')) = tcp_pools (pools (pm d)) \<Longrightarrow> P d'"
  shows "ensures (zzsend d) P"
proof -
  have P: "P d'" if "table_of d' = table_of d" for d' using assms that table_pools by blast
  show ?thesis
    unfolding zzsend_def
    by (auto simp: Let_def udp_new_table intro!: wp P ensures_read [where m = u for u :: "nat option"] ensures_read [where m = a for a :: "addr option"])
qed

lemma recvsendto_table [wp]:
  fixes d :: "'a app_scheme"
  assumes "\<And>d'. table_of d' = table_of d \<Longrightarrow> tcp_pools (pools (pm d')) = tcp_pools (pools (pm d)) \<Longrightarrow> P d'"
  shows "ensures (recvsendto i q a d) P"
  unfolding recvsendto_def by (auto simp: Let_def intro!: wp assms)

lemma udp_echo_recv_table [wp]:
  fixes d :: "'a app_scheme"
  assumes "\<And>d'. table_of d' = table_of d \<Longrightarrow> tcp_pools (pools (pm d')) = tcp_pools (pools (pm d)) \<Longrightarrow> P d'"
  shows "ensures (udp_echo_recv i q a d) P"
  unfolding udp_echo_recv_def app_send_def
  by (cases q; cases a) (auto simp: Let_def intro!: wp assms dest: table_pools)

lemma udp_match_read [wp]: "(\<And>x. P x) \<Longrightarrow> ensures (udp_match m a b c pre is u) P"
  by (rule ensures_read)

lemma udp_demux_table [wp]:
  fixes d :: "'a tcp_scheme"
  assumes "\<And>x d'. table_of d' = table_of d \<Longrightarrow> tcp_pools (pools (pm d')) = tcp_pools (pools (pm d)) \<Longrightarrow> P (x, d')"
  shows "ensures (udp_demux a b c d) P"
  unfolding udp_demux_def by (auto simp: Let_def intro!: wp assms split: list.split)

lemma udp_input_table [wp]:
  fixes d :: "'a tcp_scheme"
  assumes cb: "\<And>f arg i p q n (d :: 'a tcp_scheme) P. (\<And>d'. table_of d' = table_of d \<Longrightarrow>
        tcp_pools (pools (pm d')) = tcp_pools (pools (pm d)) \<Longrightarrow> P d') \<Longrightarrow> ensures (cb f arg i p q n d) P"
    and P: "\<And>d'. table_of d' = table_of d \<Longrightarrow> tcp_pools (pools (pm d')) = tcp_pools (pools (pm d)) \<Longrightarrow> P d'"
  shows "ensures (udp_input cb p d) P"
  unfolding udp_input_def udp_deliver_def by (auto simp: Let_def intro!: wp assms cb)

lemma raw_loop_table [wp]:
  fixes d :: "'a tcp_scheme"
  assumes "\<And>x d'. table_of d' = table_of d \<Longrightarrow> tcp_pools (pools (pm d')) = tcp_pools (pools (pm d)) \<Longrightarrow> P (x, d')"
  shows "ensures (raw_loop (\<lambda>_ _ _ _ _ _. None) proto p h pre is d) P"
  by (induction "is" arbitrary: pre) (auto intro!: wp assms split: bool.split option.split)

lemma raw_input_table [wp]:
  fixes d :: "'a tcp_scheme"
  assumes "\<And>x d'. table_of d' = table_of d \<Longrightarrow> tcp_pools (pools (pm d')) = tcp_pools (pools (pm d)) \<Longrightarrow> P (x, d')"
  shows "ensures (raw_input (\<lambda>_ _ _ _ _ _. None) p d) P"
  unfolding raw_input_def by (auto simp: Let_def intro!: wp assms)

subsection \<open>Reassembly\<close>

lemma upd_reass_table [wp]:
  fixes d :: "'a tcp_scheme"
  assumes "\<And>d'. table_of d' = table_of d \<Longrightarrow> tcp_pools (pools (pm d')) = tcp_pools (pools (pm d)) \<Longrightarrow> P d'"
  shows "ensures (upd_reass i f d) P"
  unfolding upd_reass_def by (auto intro!: assms ensures_read)

lemma set_iprh_table [wp]:
  fixes d :: "'a tcp_scheme"
  assumes "\<And>d'. table_of d' = table_of d \<Longrightarrow> tcp_pools (pools (pm d')) = tcp_pools (pools (pm d)) \<Longrightarrow> P d'"
  shows "ensures (set_iprh q h d) P"
  unfolding set_iprh_def by (auto simp: Let_def intro!: wp assms)

lemma set_next_pbuf_table [wp]:
  fixes d :: "'a tcp_scheme"
  assumes "\<And>d'. table_of d' = table_of d \<Longrightarrow> tcp_pools (pools (pm d')) = tcp_pools (pools (pm d)) \<Longrightarrow> P d'"
  shows "ensures (set_next_pbuf q a d) P"
  unfolding set_next_pbuf_def by (auto simp: Let_def intro!: wp assms)

lemma dequeue_table [wp]:
  fixes d :: "'a tcp_scheme"
  assumes "\<And>d'. table_of d' = table_of d \<Longrightarrow> tcp_pools (pools (pm d')) = tcp_pools (pools (pm d)) \<Longrightarrow> P d'"
  shows "ensures (ip_reass_dequeue_datagram i prev d) P"
  unfolding ip_reass_dequeue_datagram_def by (cases prev) (auto simp: Let_def intro!: wp assms)

lemma free_fragments_same:
  fixes d :: "'a tcp_scheme"
  assumes "free_fragments p n d = Some r"
  shows "table_of (snd r) = table_of d"
proof (rule free_fragments.raw_induct [OF _ assms], goal_cases)
  case (1 loop p n d r)
  note [wp] = table_same [where m = "loop p n d" and d = d for p n d, OF 1(1)]
  show ?case by (rule ensuresD [OF _ 1(2)]) (auto simp: Let_def intro!: wp)
qed

lemmas free_fragments_table [wp] = table_same [where m = "free_fragments p n d" and d = d for p n d, OF free_fragments_same]

lemma free_complete_table [wp]:
  fixes d :: "'a tcp_scheme"
  assumes "\<And>n d'. table_of d' = table_of d \<Longrightarrow> tcp_pools (pools (pm d')) = tcp_pools (pools (pm d)) \<Longrightarrow> P (n, d')"
  shows "ensures (ip_reass_free_complete_datagram i prev d) P"
  unfolding ip_reass_free_complete_datagram_def by (auto simp: Let_def intro!: wp assms)

lemma remove_oldest_loop_same:
  fixes d :: "'a tcp_scheme"
  assumes "remove_oldest_loop h k n d = Some r"
  shows "table_of (snd r) = table_of d"
proof (rule remove_oldest_loop.raw_induct [OF _ assms], goal_cases)
  case (1 loop h k n d r)
  note [wp] = table_same [where m = "loop h k n d" and d = d for h k n d, OF 1(1)]
  show ?case by (rule ensuresD [OF _ 1(2)]) (auto simp: Let_def intro!: wp)
qed

lemmas remove_oldest_loop_table [wp] = table_same [where m = "remove_oldest_loop h k n d" and d = d for h k n d, OF remove_oldest_loop_same]

lemma remove_oldest_table [wp]:
  fixes d :: "'a tcp_scheme"
  assumes "\<And>n d'. table_of d' = table_of d \<Longrightarrow> tcp_pools (pools (pm d')) = tcp_pools (pools (pm d)) \<Longrightarrow> P (n, d')"
  shows "ensures (ip_reass_remove_oldest_datagram h k d) P"
  unfolding ip_reass_remove_oldest_datagram_def by (auto simp: Let_def intro!: wp assms)

lemma enqueue_new_table [wp]:
  fixes d :: "'a tcp_scheme"
  assumes "\<And>x d'. table_of d' = table_of d \<Longrightarrow> tcp_pools (pools (pm d')) = tcp_pools (pools (pm d)) \<Longrightarrow> P (x, d')"
  shows "ensures (ip_reass_enqueue_new_datagram h k d) P"
  unfolding ip_reass_enqueue_new_datagram_def
  by (auto simp: Let_def intro!: wp assms dest!: tcp_pools_malloc [where t = MEMP_REASSDATA, simplified])

lemma insert_loop_same:
  fixes d :: "'a tcp_scheme"
  assumes "insert_loop i new q prev v d = Some r"
  shows "table_of (case r of Inl d \<Rightarrow> d | Inr (_, d) \<Rightarrow> d) = table_of d"
proof (rule insert_loop.raw_induct [OF _ assms], goal_cases)
  case (1 loop i new q prev v d r)
  have [wp]: "ensures (loop i new q prev v d') (\<lambda>r. table_of (case r of Inl d \<Rightarrow> d | Inr (_, d) \<Rightarrow> d) = t)" if "table_of d' = t"
    for i new q prev v d' t
    using 1(1) that by (auto intro: ensuresI)
  show ?case by (rule ensuresD [OF _ 1(2)]) (auto simp: Let_def intro!: wp)
qed

lemma insert_loop_table [wp]:
  fixes d :: "'a tcp_scheme"
  assumes "\<And>d'. table_of d' = table_of d \<Longrightarrow> tcp_pools (pools (pm d')) = tcp_pools (pools (pm d)) \<Longrightarrow> P (Inl d')"
    and "\<And>v d'. table_of d' = table_of d \<Longrightarrow> tcp_pools (pools (pm d')) = tcp_pools (pools (pm d)) \<Longrightarrow> P (Inr (v, d'))"
  shows "ensures (insert_loop i new q prev v d) P"
  by (rule ensuresI, drule insert_loop_same) (auto intro: assms dest: table_pools split: sum.splits)

lemma chain_frag_table [wp]:
  fixes d :: "'a tcp_scheme"
  assumes "\<And>v d'. table_of d' = table_of d \<Longrightarrow> tcp_pools (pools (pm d')) = tcp_pools (pools (pm d)) \<Longrightarrow> P (v, d')"
  shows "ensures (chain_frag_and_validate i q d) P"
  unfolding chain_frag_and_validate_def by (auto simp: Let_def intro!: wp assms)

lemma chain_all_same:
  fixes d :: "'a tcp_scheme"
  assumes "chain_all p q d = Some r"
  shows "table_of r = table_of d"
proof (rule chain_all.raw_induct [OF _ assms], goal_cases)
  case (1 loop p q d r)
  note [wp] = table_same1 [where m = "loop p q d" and d = d for p q d, OF 1(1)]
  show ?case by (rule ensuresD [OF _ 1(2)]) (auto simp: Let_def intro!: wp)
qed

lemmas chain_all_table [wp] = table_same1 [where m = "chain_all p q d" and d = d for p q d, OF chain_all_same]

lemma finish_datagram_table [wp]:
  fixes d :: "'a tcp_scheme"
  assumes "\<And>p d'. table_of d' = table_of d \<Longrightarrow> tcp_pools (pools (pm d')) = tcp_pools (pools (pm d)) \<Longrightarrow> P (p, d')"
  shows "ensures (finish_datagram i prev d) P"
  unfolding finish_datagram_def by (auto simp: Let_def intro!: wp assms)

lemma ip_reass_table [wp]:
  fixes d :: "'a tcp_scheme"
  assumes "\<And>q d'. table_of d' = table_of d \<Longrightarrow> tcp_pools (pools (pm d')) = tcp_pools (pools (pm d)) \<Longrightarrow> P (q, d')"
  shows "ensures (ip_reass p d) P"
  unfolding ip_reass_def reass_drop_def by (auto simp: Let_def intro!: wp assms)

subsection \<open>The image\<close>

lemma app_udp_table [wp]:
  fixes d :: "'a app_scheme"
  assumes "\<And>d'. table_of d' = table_of d \<Longrightarrow> tcp_pools (pools (pm d')) = tcp_pools (pools (pm d)) \<Longrightarrow> P d'"
  shows "ensures (app_udp f arg i p q n d) P"
  unfolding app_udp_def by (auto intro!: wp assms split: udp_fn.split)

lemma ip_deliver_steps:
  fixes d :: "'a app_scheme"
  assumes ok: "conns_ok (table_of d)" and P: "\<And>d'. tsteps (table_of d) (table_of d') \<Longrightarrow> conns_ok (table_of d') \<Longrightarrow> P d'"
  shows "ensures (ip_deliver app_upper p d) P"
proof -
  have udp: "ensures (udp_input app_udp p d1) P" if "table_of d1 = table_of d" for d1
    using that ok by (auto intro!: wp P)
  show ?thesis
    unfolding ip_deliver_def app_upper_def
    by (auto simp: Let_def ok intro!: wp udp app.tcp_input_steps P)
qed

lemma ip_input_steps:
  fixes d :: "'a app_scheme"
  assumes ok: "conns_ok (table_of d)" and P: "\<And>e d'. tsteps (table_of d) (table_of d') \<Longrightarrow> conns_ok (table_of d') \<Longrightarrow> P (e, d')"
  shows "ensures (ip_input app_upper p d) P"
  unfolding ip_input_def by (auto simp: Let_def ok intro!: wp ip_deliver_steps P)

lemma write_at_pools: "write_at st q bs = Some st' \<Longrightarrow> tcp_pools (pools st') = tcp_pools (pools st)"
  by (erule ensuresD [rotated]) (rule tp.write_at_keeps)

lemma input_loop_pools:
  assumes "input_loop p n rx st = Some r"
  shows "tcp_pools (pools r) = tcp_pools (pools st)"
proof (rule input_loop.raw_induct [OF _ assms], goal_cases)
  case (1 loop p n rx st r)
  note [wp] = keeps_pools1_wp [where m = "loop p n rx st" and st = st for p n rx st, OF 1(1)]
  show ?case by (rule ensuresD [OF _ 1(2)]) (auto simp: Let_def dest!: write_at_pools intro!: wp)
qed

lemmas input_loop_tcp_pools [wp] = keeps_pools1_wp [where m = "input_loop p n rx st" and st = st for p n rx st, OF input_loop_pools]

lemmas emac_reads [wp] =
  ensures_read [where m = "EMAC_CheckReceiveDataStatus f m" for f m] ensures_read [where m = "EMAC_GetReceiveDataSize m" for m]
  ensures_read [where m = "EMAC_ReadPacketBuffer n b m" for n b m]

lemma low_level_input_table [wp]:
  fixes d :: "'a tcp_scheme"
  assumes "\<And>p d'. table_of d' = table_of d \<Longrightarrow> tcp_pools (pools (pm d')) = tcp_pools (pools (pm d)) \<Longrightarrow> P (p, d')"
  shows "ensures (low_level_input d) P"
  unfolding low_level_input_def
  by (auto simp: Let_def intro!: wp assms)

lemma ethernetif_input_steps:
  fixes d :: "'a app_scheme"
  assumes ok: "conns_ok (table_of d)" and P: "\<And>e d'. tsteps (table_of d) (table_of d') \<Longrightarrow> conns_ok (table_of d') \<Longrightarrow> P (e, d')"
  shows "ensures (ethernetif_input app_upper d) P"
  unfolding ethernetif_input_def netif_input_def ethernet_input_def by (auto simp: Let_def ok intro!: wp ip_input_steps P)

lemma LwIP_Periodic_Handle_steps:
  fixes d :: "'a app_scheme"
  assumes ok: "conns_ok (table_of d)" and P: "\<And>d'. tsteps (table_of d) (table_of d') \<Longrightarrow> conns_ok (table_of d') \<Longrightarrow> P d'"
  shows "ensures (LwIP_Periodic_Handle app_calls t d) P"
  unfolding LwIP_Periodic_Handle_def by (auto simp: Let_def ok intro!: wp app.tcp_tmr_steps P)

end
