(* ===== verification/Tcp_Stream.thy ===== *)
theory Tcp_Stream
  imports Udp_Echo
begin

text \<open>
  The receiving side of \<open>core/tcp_in.c\<close> as the peer sees it: \<open>receive_data\<close> on a segment in one pool pbuf, against
  the byte stream the peer sends.
\<close>

subsection \<open>Sequence numbers\<close>

lemma sint_u32_small: "- 2147483648 \<le> z \<Longrightarrow> z < 2147483648 \<Longrightarrow> sint (of_int z :: u32) = z"
  by (simp add: signed_of_int signed_take_bit_int_eq_self)

lemma seq_diff:
  "- 2147483648 \<le> z \<Longrightarrow> z < 2147483648 \<Longrightarrow> (a :: u32) - b = of_int z \<Longrightarrow> sint (a - b) = z"
  by (simp only: sint_u32_small)

lemma sint_u16_small: "- 32768 \<le> z \<Longrightarrow> z < 32768 \<Longrightarrow> sint (of_int z :: u16) = z"
  by (simp add: signed_of_int signed_take_bit_int_eq_self)

subsection \<open>A segment comes in\<close>

text \<open>The header fields of a segment in host order, as \<open>tcp_input\<close> leaves them in the packet.\<close>

definition host_order :: "u8 list \<Rightarrow> u8 list" where
  "host_order A =
     splice 48 (bytes_of_u16 (ntohs (field16 A 48))) (splice 42 (bytes_of_u32 (ntohl (field32 A 42)))
       (splice 38 (bytes_of_u32 (ntohl (field32 A 38))) (splice 36 (bytes_of_u16 (ntohs (field16 A 36)))
         (splice 34 (bytes_of_u16 (ntohs (field16 A 34))) A))))"

lemma host_order_fields:
  assumes "54 \<le> length A"
  shows "length (host_order A) = length A" "field16 (host_order A) 46 = field16 A 46" "field16 (host_order A) 48 = ntohs (field16 A 48)"
  using assms by (simp_all add: host_order_def bytes_of_u16_def bytes_of_u32_def field16_splice_other)
    (simp add: field16_splice_same [unfolded bytes_of_u16_def])

definition segment_of :: "addr \<Rightarrow> nat \<Rightarrow> u8 list \<Rightarrow> tcp_in" where
  "segment_of p n A =
     (let f = TCPH_FLAGS (field16 A 46)
      in \<lparr>in_len = of_nat n, in_dataptr = Some (PData p, 54), in_p = Some p, in_tcphdr = Some (PData p, 34),
          in_iphdr = Some (PData p, 14), in_seqno = ntohl (field32 A 38), in_ackno = ntohl (field32 A 42), in_flags = f,
          in_tcplen = of_nat n + (if f AND (TCP_FIN OR TCP_SYN) \<noteq> 0 then 1 else 0), recv_flags = 0, recv_data = None\<rparr>)"

lemma tcp_input_win:
  assumes d: "pm d = win st p 14 (40 + n) A" and A: "54 + n \<le> length A" "length A < 32768"
    and ip: "IPH_HL (field16 A 14) = 5" and dst: "unicast (nif d) (field32 A 30)"
    and sum: "inet_chksum_pseudo [field A 34 (20 + n)] (field32 A 26) (field32 A 30) IP_PROTO_TCP (of_nat (20 + n)) = 0"
    and hl: "TCPH_HDRLEN (field16 A 46) = 5"
  shows "tcp_input up p d = tcp_demux up (segment_of p n A) p (field32 A 26, field32 A 30, ntohs (field16 A 34), ntohs (field16 A 36))
     (d\<lparr>pm := win st p 54 n (host_order A)\<rparr>)"
proof -
  have h1: "pbuf_header (Some p) (- 20) (win st p 14 (40 + n) A) = Some (0, win st p 34 (20 + n) A)"
    using win_header_neg [of 20 "40 + n" p st 14 A] A by simp
  have h2: "pbuf_header (Some p) (- 20) (win st p 34 (20 + n) A) = Some (0, win st p 54 n A)"
    using win_header_neg [of 20 "20 + n" p st 34 A] A by simp
  have pt: "Some (PData p, 14 :: int) = Some (PData p, int 14)" "Some (PData p, 34 :: int) = Some (PData p, int 34)" by simp_all
  have pl: "payloads (Some p) (win st p 34 (20 + n) A) = Some [field A 34 (20 + n)]"
    using A by (intro win_payloads) simp_all
  have n: "unat (of_nat (20 + n) :: u16) = 20 + n" by (rule unat_of_nat_lt) (use A in simp)
  then have c: "\<not> (20 + of_nat n :: u16) < 20" by (simp add: word_less_nat_alt)
  have b: "ip_addr_isbroadcast (field32 A 30) (nif d) = 0" "\<not> ip_addr_ismulticast (field32 A 30)"
    using dst by (simp_all add: unicast_def)
  have get: "ptr_get16 (win st p i m B) (Some (PData p, 14)) 0 = Some (field16 B 14)"
    "ptr_get32 (win st p i m B) (Some (PData p, 14)) 16 = Some (field32 B 30)"
    "ptr_get32 (win st p i m B) (Some (PData p, 14)) 12 = Some (field32 B 26)"
    "ptr_get16 (win st p i m B) (Some (PData p, 34)) 0 = Some (field16 B 34)"
    "ptr_get16 (win st p i m B) (Some (PData p, 34)) 2 = Some (field16 B 36)"
    "ptr_get32 (win st p i m B) (Some (PData p, 34)) 4 = Some (field32 B 38)"
    "ptr_get32 (win st p i m B) (Some (PData p, 34)) 8 = Some (field32 B 42)"
    "ptr_get16 (win st p i m B) (Some (PData p, 34)) 12 = Some (field16 B 46)"
    "ptr_get16 (win st p i m B) (Some (PData p, 34)) 14 = Some (field16 B 48)"
    if "length B = length A" for i m B
    using A that unfolding pt by (simp_all del: of_nat_numeral)
  have put: "ptr_put (Some (PData p, 34)) off bs (win st p i m B) = Some (win st p i m (splice (34 + off) bs B))"
    if "length B = length A" "off + length bs \<le> 20" for off bs i m B
    using A that unfolding pt by (subst win_ptr_put) simp_all
  have hd: "tcp_header_in p (Some (PData p, 14)) (Some (PData p, 34)) (win st p 54 n A) =
      Some (segment_of p n A, ntohs (field16 A 34), ntohs (field16 A 36), win st p 54 n (host_order A))"
    using A by (simp add: tcp_header_in_def get put bytes_of_u16_def bytes_of_u32_def hdr_flags_def host_order_def segment_of_def
        Let_def field16_splice_other field32_splice_other)
  show ?thesis
    using d ip hl sum by (simp add: tcp_input_def ptr_add_def Let_def get h1 h2 pl c b hd)
qed

subsection \<open>A segment in a window\<close>

text \<open>\<open>x\<close> stands for the \<open>n\<close> bytes from \<open>i\<close> on of the data area \<open>A\<close> of pbuf \<open>p\<close>, with the TCP header at \<open>t\<close>.\<close>

definition carries :: "tcp_in \<Rightarrow> addr \<Rightarrow> nat \<Rightarrow> nat \<Rightarrow> nat \<Rightarrow> u8 list \<Rightarrow> bool" where
  "carries x p t i n A \<longleftrightarrow> in_p x = Some p \<and> in_tcphdr x = Some (PData p, int t) \<and> t + 20 \<le> i \<and> i + n \<le> length A \<and>
     0 < n \<and> n < 32768 \<and> in_len x = of_nat n \<and> TCPH_FLAGS (field16 A (t + 12)) AND TCP_FIN = 0 \<and>
     TCPH_FLAGS (field16 A (t + 12)) AND TCP_SYN = 0"

lemma carries_flags:
  "carries x p t i n A \<Longrightarrow> hdr_flags (win st p i' n' A) (in_tcphdr x) = Some (TCPH_FLAGS (field16 A (t + 12)))"
  by (simp add: carries_def hdr_flags_def)

lemma carries_TCPLEN: "carries x p t i n A \<Longrightarrow> in_TCPLEN (win st p i' n' A) x = Some (in_len x)"
  using carries_flags [of x p t i n A st i' n'] by (simp add: in_TCPLEN_def carries_def)

lemma trim_front_win:
  assumes "carries x p t i n A" "pm d = win st p i n A" "tcp_mem d j = Some u" "rcv_nxt u = in_seqno x + of_nat k"
    "0 < k" "k < n"
  shows "trim_front x j d = Some (x\<lparr>in_dataptr := Some (PData p, int (i + k)), in_len := of_nat (n - k), in_seqno := rcv_nxt u\<rparr>,
     d\<lparr>pm := win st p (i + k) (n - k) (splice (t + 4) (bytes_of_u32 (rcv_nxt u)) A)\<rparr>)"
proof -
  have c: "in_p x = Some p" "in_tcphdr x = Some (PData p, int t)" "t + 8 \<le> length A" "n < 32768" "in_len x = of_nat n"
    using assms(1) by (simp_all add: carries_def)
  have s: "rcv_nxt u - in_seqno x = of_nat k" using assms(4) by simp
  then have s': "sint (rcv_nxt u - in_seqno x) = int k" using assms(6) c(4) by (intro seq_diff) simp_all
  have h: "sint (- of_nat k :: u16) = - int k" using sint_u16_small [of "- int k"] assms(6) c(4) by simp
  have l: "\<not> unat (of_nat n :: u16) < k" using assms(6) c(4) by (simp add: unat_of_nat_lt)
  have w: "(ucast (of_nat k :: u32) :: u16) = of_nat k" using assms(6) c(4) by (simp add: unsigned_of_nat take_bit_nat_eq_self)
  have p: "pbuf_header (Some p) (- int k) (win st p i n A) = Some (0, win st p (i + k) (n - k) A)"
    using win_header_neg [of "int k" n p st i A] assms(5,6) c(4) by simp
  have q: "ptr_put (in_tcphdr x) 4 (bytes_of_u32 (rcv_nxt u)) (win st p (i + k) (n - k) A) =
      Some (win st p (i + k) (n - k) (splice (t + 4) (bytes_of_u32 (rcv_nxt u)) A))"
    using c(2,3) by (simp add: bytes_of_u32_def)
  show ?thesis
    unfolding trim_front_def using assms(2,3,6) c(1,5) by (simp add: s' [unfolded s] s h l w p q Let_def of_nat_diff)
qed

lemma ann_wnd_fields [simp]:
  "rcv_nxt (snd (tcp_update_rcv_ann_wnd u)) = rcv_nxt u" "rcv_wnd (snd (tcp_update_rcv_ann_wnd u)) = rcv_wnd u"
  "tflags (snd (tcp_update_rcv_ann_wnd u)) = tflags u"
  by (simp_all add: tcp_update_rcv_ann_wnd_def Let_def)

lemma accept_win:
  assumes "carries x p t i n A" "pm d = win st p i n A" "tcp_mem d j = Some u" "0 < rcv_wnd u"
    and m: "m = min n (unat (rcv_wnd u))"
  obtains x' where
    "accept_in_sequence x j d = map_option (Pair x') (tcp_ack j (d\<lparr>pm := win st p i m A,
        tcp_mem := (tcp_mem d)(j \<mapsto> snd (tcp_update_rcv_ann_wnd (u\<lparr>rcv_nxt := in_seqno x + of_nat m, rcv_wnd := rcv_wnd u - of_nat m\<rparr>)))\<rparr>))"
    "recv_data x' = Some p" "in_p x' = None" "recv_flags x' = recv_flags x"
proof -
  have c: "in_p x = Some p" "n < 32768" "0 < n" "in_len x = of_nat n" "TCPH_FLAGS (field16 A (t + 12)) AND TCP_FIN = 0"
      "TCPH_FLAGS (field16 A (t + 12)) AND TCP_SYN = 0"
    using assms(1) by (simp_all add: carries_def)
  note f = carries_flags [OF assms(1)]
  have u: "unat (of_nat n :: u16) = n" using c(2) by (simp add: unat_of_nat_lt)
  have m0: "0 < m" "m < 65536" "m \<le> n" using m c(2,3) assms(4) by (auto simp: word_less_nat_alt)
  define y where "y = x\<lparr>in_len := of_nat m\<rparr>"
  have t: "(if rcv_wnd u < of_nat n then trim_end x (rcv_wnd u) (win st p i n A) else Some (x, win st p i n A)) =
      Some (y, win st p i m A)"
  proof (cases "rcv_wnd u < of_nat n")
    case True
    then have "rcv_wnd u = of_nat m" using u m by (simp add: word_less_nat_alt min_absorb2)
    then show ?thesis
      using True c m0 win_realloc [of m n p st i A] by (simp add: trim_end_def f Let_def y_def)
  next
    case False
    then have "m = n" using u m by (simp add: word_less_nat_alt)
    then show ?thesis using False c(4) by (simp add: y_def)
  qed
  have n: "in_TCPLEN (win st p i n A) x = Some (of_nat n)" using carries_TCPLEN [OF assms(1)] c(4) by simp
  have y: "in_TCPLEN (win st p i m A) y = Some (of_nat m)" "in_p y = Some p" "in_tcphdr y = in_tcphdr x" "in_seqno y = in_seqno x"
    using c(1,5,6) f [of st i m] by (simp_all add: y_def in_TCPLEN_def)
  have o: "(0 :: u16) < of_nat m" using m0 by (simp add: word_less_nat_alt unat_of_nat_lt)
  have w: "(ucast (of_nat m :: u16) :: u32) = of_nat m" using m0(2)
    by (simp add: unsigned_of_nat take_bit_nat_eq_self)
  show ?thesis
    by (rule that [of "y\<lparr>in_tcplen := of_nat m, recv_data := Some p, in_p := None\<rparr>"],
        unfold accept_in_sequence_def assms(2,3) bind.bind_lunit n t prod.case y)
      (use assms(2,3) c(5) in \<open>simp_all add: y f w o upd_tcp_def Let_def map_conv_bind_option comp_def y_def [symmetric]\<close>,
        simp_all add: y_def)
qed

subsection \<open>The stream\<close>

lemma in_window_next: "0 < rcv_wnd u \<Longrightarrow> in_window (rcv_nxt u) u"
proof -
  assume w: "0 < rcv_wnd u"
  have "unat (rcv_wnd u) < 65536" using unsigned_less [of "rcv_wnd u"] by simp
  then have "sint (rcv_nxt u - (rcv_nxt u + ucast (rcv_wnd u) - 1)) = 1 - int (unat (rcv_wnd u))"
    by (intro seq_diff) (linarith, linarith, simp)
  moreover have "1 \<le> uint (rcv_wnd u)" using w by (simp add: word_less_def)
  ultimately show ?thesis by (simp add: in_window_def TCP_SEQ_BETWEEN_def TCP_SEQ_GEQ_def TCP_SEQ_LEQ_def word_less_nat_alt word_le_def)
qed

lemma seq_cases:
  fixes a :: u32
  assumes "r < 1073741824" "s < 1073741824" "0 < n" "n < 32768"
  shows "TCP_SEQ_BETWEEN (a + of_nat r) (a + of_nat s + 1) (a + of_nat s + of_nat n - 1) \<longleftrightarrow> s < r \<and> r < s + n"
    "TCP_SEQ_LT (a + of_nat s) (a + of_nat r) \<longleftrightarrow> s < r"
proof -
  have "sint (a + of_nat r - (a + of_nat s + 1)) = int r - int s - 1"
    by (rule seq_diff) (use assms in simp_all)
  moreover have "sint (a + of_nat r - (a + of_nat s + of_nat n - 1)) = int r - int s - int n + 1"
    by (rule seq_diff) (use assms in simp_all)
  moreover have "sint (a + of_nat s - (a + of_nat r)) = int s - int r"
    by (rule seq_diff) (use assms in simp_all)
  ultimately show "TCP_SEQ_BETWEEN (a + of_nat r) (a + of_nat s + 1) (a + of_nat s + of_nat n - 1) \<longleftrightarrow> s < r \<and> r < s + n"
    "TCP_SEQ_LT (a + of_nat s) (a + of_nat r) \<longleftrightarrow> s < r"
    by (auto simp: TCP_SEQ_BETWEEN_def TCP_SEQ_GEQ_def TCP_SEQ_LEQ_def TCP_SEQ_LT_def)
qed


text \<open>\<open>u\<close> has the first \<open>r\<close> bytes of the stream, whose byte \<open>0\<close> has the sequence number \<open>isn\<close>.\<close>

lemma receive_data_in_order:
  assumes "carries x p t i n A" "pm d = win st p i n A" "in_tcplen x = of_nat n" "tcp_mem d j = Some u" "0 < rcv_wnd u"
    "rcv_nxt u = in_seqno x + of_nat k" "k < n" and m: "m = min (n - k) (unat (rcv_wnd u))"
  obtains x' B where
    "receive_data x j d = map_option (Pair x') (tcp_ack j (d\<lparr>pm := win st p (i + k) m B,
        tcp_mem := (tcp_mem d)(j \<mapsto> snd (tcp_update_rcv_ann_wnd (u\<lparr>rcv_nxt := rcv_nxt u + of_nat m, rcv_wnd := rcv_wnd u - of_nat m\<rparr>)))\<rparr>))"
    "recv_data x' = Some p" "in_p x' = None" "recv_flags x' = recv_flags x"
    "length B = length A" "\<And>a b. t + 8 \<le> a \<Longrightarrow> a + b \<le> length A \<Longrightarrow> field B a b = field A a b"
proof -
  have n: "n < 32768" "0 < n" "t + 20 \<le> i" "i + n \<le> length A" using assms(1) by (simp_all add: carries_def)
  have tl: "(ucast (of_nat n :: u16) :: u32) = of_nat n" using n(1) by (simp add: unsigned_of_nat take_bit_nat_eq_self)
  have sc: "TCP_SEQ_BETWEEN (rcv_nxt u) (in_seqno x + 1) (in_seqno x + of_nat n - 1) \<longleftrightarrow> 0 < k"
    "TCP_SEQ_LT (in_seqno x) (rcv_nxt u) \<longleftrightarrow> 0 < k"
    using seq_cases [of k 0 n "in_seqno x"] n assms(6,7) by simp_all
  note iw = in_window_next [OF assms(5)]
  show ?thesis
  proof (cases "k = 0")
    case True
    obtain x' where "accept_in_sequence x j d = map_option (Pair x') (tcp_ack j (d\<lparr>pm := win st p i m A,
        tcp_mem := (tcp_mem d)(j \<mapsto> snd (tcp_update_rcv_ann_wnd (u\<lparr>rcv_nxt := in_seqno x + of_nat m, rcv_wnd := rcv_wnd u - of_nat m\<rparr>)))\<rparr>))"
      "recv_data x' = Some p" "in_p x' = None" "recv_flags x' = recv_flags x"
      using accept_win [OF assms(1,2,4,5), of m] m True by auto
    moreover have r: "rcv_nxt u = in_seqno x" using True assms(6) by simp
    ultimately show ?thesis
      using True assms(4) sc [unfolded r] iw [unfolded r]
      by (intro that [of x' A]) (simp_all add: receive_data_def assms(3) tl r)
  next
    case False
    define y where "y = x\<lparr>in_dataptr := Some (PData p, int (i + k)), in_len := of_nat (n - k), in_seqno := rcv_nxt u\<rparr>"
    define B where "B = splice (t + 4) (bytes_of_u32 (rcv_nxt u)) A"
    define e where "e = d\<lparr>pm := win st p (i + k) (n - k) B\<rparr>"
    have l: "length (bytes_of_u32 (rcv_nxt u)) = 4" by (simp add: bytes_of_u32_def)
    have b: "length B = length A" "field16 B (t + 12) = field16 A (t + 12)"
      using n l by (simp_all add: B_def field16_splice_other)
    have f: "field B a b' = field A a b'" if "t + 8 \<le> a" "a + b' \<le> length A" for a b'
      using that l unfolding B_def by (intro field_splice_other) simp_all
    have "trim_front x j d = Some (y, e)"
      using trim_front_win [OF assms(1,2,4,6)] False assms(7) by (simp add: y_def e_def B_def)
    moreover have "carries y p t (i + k) (n - k) B"
      using assms(1,7) b n(1) by (simp add: carries_def y_def less_imp_diff_less)
    moreover have "pm e = win st p (i + k) (n - k) B" "tcp_mem e j = Some u" using assms(4) by (simp_all add: e_def)
    moreover obtain x' where "accept_in_sequence y j e = map_option (Pair x') (tcp_ack j (e\<lparr>pm := win st p (i + k) m B,
        tcp_mem := (tcp_mem e)(j \<mapsto> snd (tcp_update_rcv_ann_wnd (u\<lparr>rcv_nxt := in_seqno y + of_nat m, rcv_wnd := rcv_wnd u - of_nat m\<rparr>)))\<rparr>))"
      "recv_data x' = Some p" "in_p x' = None" "recv_flags x' = recv_flags y"
      using accept_win [OF calculation(2-4) assms(5) m] by blast
    ultimately show ?thesis
      using False iw b(1) f assms(4)
      by (intro that [of x' B]) (simp_all add: receive_data_def assms(3) tl sc y_def e_def)
  qed
qed

lemma receive_data_hole:
  assumes "in_tcplen x = of_nat n" "0 < n" "n < 32768" "tcp_mem d j = Some u"
    "in_seqno x = rcv_nxt u + of_nat k" "0 < k" "k < 1073741824"
  shows "receive_data x j d = map_option (Pair x) (tcp_ack_now j d)"
proof -
  have tl: "(ucast (of_nat n :: u16) :: u32) = of_nat n" using assms(3) by (simp add: unsigned_of_nat take_bit_nat_eq_self)
  have "\<not> TCP_SEQ_BETWEEN (rcv_nxt u) (in_seqno x + 1) (in_seqno x + of_nat n - 1)" "\<not> TCP_SEQ_LT (in_seqno x) (rcv_nxt u)"
    using seq_cases [of 0 k n "rcv_nxt u"] assms by (simp_all add: add.assoc)
  moreover have "rcv_nxt u \<noteq> in_seqno x"
  proof
    assume "rcv_nxt u = in_seqno x"
    then have "sint (in_seqno x - rcv_nxt u) = 0" by simp
    moreover have "sint (in_seqno x - rcv_nxt u) = int k" by (rule seq_diff) (use assms in simp_all)
    ultimately show False using assms(6) by simp
  qed
  ultimately show ?thesis
    using assms(1,4) by (simp add: receive_data_def tl map_conv_bind_option comp_def)
qed

subsection \<open>Properties\<close>

text \<open>
  C11. TCP delivers the peer's byte stream in order, without gaps and repetitions: a segment with the bytes \<open>s\<close> to
  \<open>s + n\<close> of the stream comes to a connection that has the first \<open>r\<close>.  If it brings the next byte, with old ones before it
  or not, and the window is open, what is handed up is exactly the part of the stream after byte \<open>r\<close> that the segment has
  and the window takes; \<open>rcv_nxt\<close> and \<open>rcv_wnd\<close> move by its length, and it is acknowledged, with the first such segment
  by a delayed acknowledgement.  If there is a hole before it, nothing is handed up and an acknowledgement for byte
  \<open>r\<close> is sent at once.  Sequence numbers may wrap; the segment has no SYN and no FIN and is in one pool pbuf, and the two
  positions are less than \<open>2 ^ 30\<close> apart.
\<close>

theorem tcp_receive_stream:
  assumes "carries x p t i n A" "pm d = win st p i n A" "in_tcplen x = of_nat n" "tcp_mem d j = Some u"
    "rcv_nxt u = isn + of_nat r" "in_seqno x = isn + of_nat s" "r < s + 1073741824" "s < r + 1073741824"
    "s + n \<le> length S" "field A i n = field S s n"
  shows
    "(s \<le> r \<and> r < s + n \<and> 0 < rcv_wnd u \<longrightarrow>
       (\<exists>x' d' u' m bs. m = min (s + n - r) (unat (rcv_wnd u)) \<and>
          receive_data x j d = map_option (Pair x') (tcp_ack j d') \<and> recv_data x' = Some p \<and> in_p x' = None \<and>
          recv_flags x' = recv_flags x \<and> payloads (Some p) (pm d') = Some [bs] \<and> take r S @ bs = take (r + m) S \<and> length bs = m \<and>
          tcp_mem d' = (tcp_mem d)(j \<mapsto> u') \<and> rcv_nxt u' = isn + of_nat (r + m) \<and> rcv_wnd u' = rcv_wnd u - of_nat m \<and>
          (tflags u AND TF_ACK_DELAY = 0 \<longrightarrow>
           receive_data x j d = Some (x', d'\<lparr>tcp_mem := (tcp_mem d')(j \<mapsto> u'\<lparr>tflags := tflags u OR TF_ACK_DELAY\<rparr>)\<rparr>)))) \<and>
     (r < s \<longrightarrow> receive_data x j d = map_option (Pair x) (tcp_ack_now j d))"
proof (intro conjI impI; (elim conjE)?)
  have n: "n < 32768" "0 < n" "t + 20 \<le> i" "i + n \<le> length A" using assms(1) by (simp_all add: carries_def)
  show "receive_data x j d = map_option (Pair x) (tcp_ack_now j d)" if "r < s"
    using assms(5-8) that by (intro receive_data_hole [OF assms(3) n(2,1) assms(4), of "s - r"]) (simp_all add: of_nat_diff)
  assume a: "s \<le> r" "r < s + n" "0 < rcv_wnd u"
  define k m where "k = r - s" and "m = min (n - k) (unat (rcv_wnd u))"
  have k: "r = s + k" "k < n" "m = min (s + n - r) (unat (rcv_wnd u))" using a by (simp_all add: k_def m_def)
  have m: "0 < m" "k + m \<le> n" using k(2) a(3) by (auto simp: m_def word_less_nat_alt)
  have x: "rcv_nxt u = in_seqno x + of_nat k" using assms(5,6) k(1) by simp
  obtain x' B where R: "receive_data x j d = map_option (Pair x') (tcp_ack j (d\<lparr>pm := win st p (i + k) m B,
      tcp_mem := (tcp_mem d)(j \<mapsto> snd (tcp_update_rcv_ann_wnd (u\<lparr>rcv_nxt := rcv_nxt u + of_nat m, rcv_wnd := rcv_wnd u - of_nat m\<rparr>)))\<rparr>))"
    "recv_data x' = Some p" "in_p x' = None" "recv_flags x' = recv_flags x"
    "length B = length A" "\<And>a b. t + 8 \<le> a \<Longrightarrow> a + b \<le> length A \<Longrightarrow> field B a b = field A a b"
    using receive_data_in_order [OF assms(1-4) a(3) x k(2) m_def] by blast
  have "field B (i + k) m = field (field A i n) k m" using R(6) n m by (simp add: field_field)
  also have "\<dots> = take m (drop r S)" using m assms(9,10) by (simp add: field_field) (simp add: field_def k(1))
  finally have f: "field B (i + k) m = take m (drop r S)" .
  have w: "payloads (Some p) (win st p (i + k) m B) = Some [take m (drop r S)]"
    using win_payloads [of "i + k" m B] n m R(5) f by simp
  define u1 where "u1 = snd (tcp_update_rcv_ann_wnd (u\<lparr>rcv_nxt := rcv_nxt u + of_nat m, rcv_wnd := rcv_wnd u - of_nat m\<rparr>))"
  show "\<exists>x' d' u' m bs. m = min (s + n - r) (unat (rcv_wnd u)) \<and>
      receive_data x j d = map_option (Pair x') (tcp_ack j d') \<and> recv_data x' = Some p \<and> in_p x' = None \<and>
      recv_flags x' = recv_flags x \<and> payloads (Some p) (pm d') = Some [bs] \<and> take r S @ bs = take (r + m) S \<and> length bs = m \<and>
      tcp_mem d' = (tcp_mem d)(j \<mapsto> u') \<and> rcv_nxt u' = isn + of_nat (r + m) \<and> rcv_wnd u' = rcv_wnd u - of_nat m \<and>
      (tflags u AND TF_ACK_DELAY = 0 \<longrightarrow>
       receive_data x j d = Some (x', d'\<lparr>tcp_mem := (tcp_mem d')(j \<mapsto> u'\<lparr>tflags := tflags u OR TF_ACK_DELAY\<rparr>)\<rparr>))"
    by (rule exI [of _ x'], rule exI [of _ "d\<lparr>pm := win st p (i + k) m B, tcp_mem := (tcp_mem d)(j \<mapsto> u1)\<rparr>"],
        rule exI [of _ u1], rule exI [of _ m], rule exI [of _ "take m (drop r S)"])
      (use R(1-4) w m assms(5,9) k in \<open>simp add: take_add u1_def tcp_ack_def upd_tcp_def\<close>)
qed

subsection \<open>Witnesses\<close>

text \<open>
  A segment with the bytes 1 to 6 of the stream \<open>10, 11, ...\<close>, whose byte 0 has the number 1000, for a connection that has
  the first 3 and a window of 2.
\<close>

definition stream_segment :: "u8 list" where
  "stream_segment = replicate 34 0 @ [19, 136, 31, 144, 0, 0, 3, 233, 0, 0, 7, 209, 80, 16, 8, 0, 0, 0, 0, 0] @ [11, 12, 13, 14, 15]"

definition stream_pcb :: tcp_pcb where
  "stream_pcb = (new_tcp_pcb 1 1)\<lparr>tstate := ESTABLISHED, rcv_nxt := 1003, rcv_wnd := 2\<rparr>"

definition stream_sample :: app where
  "stream_sample = (echo_sample [])\<lparr>tcp_active_pcbs := [9], tcp_mem := [9 \<mapsto> stream_pcb],
     pm := win (pm (echo_sample [])) (pool_addr 0) 54 5 (host_order stream_segment)\<rparr>"

theorem tcp_receive_stream_witness:
  "\<exists>x d u. receive_data (segment_of (pool_addr 0) 5 stream_segment) 9 stream_sample = Some (x, d) \<and> recv_data x = Some (pool_addr 0) \<and>
     payloads (Some (pool_addr 0)) (pm d) = Some [[13, 14]] \<and> tcp_mem d 9 = Some u \<and> rcv_nxt u = 1005 \<and> rcv_wnd u = 0"
proof -
  let ?x = "segment_of (pool_addr 0) 5 stream_segment" and ?A = "host_order stream_segment"
  have l: "length stream_segment = 59" "54 \<le> length stream_segment" by (simp_all add: stream_segment_def)
  have F: "field16 stream_segment 46 = 0x1050" "field32 stream_segment 38 = 0xE9030000"
    by (simp_all add: stream_segment_def field16_def field32_def u16_of_bytes_def u32_of_bytes_def nth_append)
  have c: "TCPH_FLAGS 0x1050 = 0x10" by (simp add: TCPH_FLAGS_def ntohs_def htons_def)
  have "field ?A 54 5 = field stream_segment 54 5"
    using l by (simp add: host_order_def bytes_of_u16_def bytes_of_u32_def field_splice_other)
  then have d: "field ?A 54 5 = [11, 12, 13, 14, 15]" by (simp add: field_def stream_segment_def)
  have s: "in_seqno ?x = 1001" "in_tcplen ?x = 5" by (simp_all add: segment_of_def F c ntohl_def htonl_def)
  have "carries ?x (pool_addr 0) 34 54 5 ?A"
    using host_order_fields [OF l(2)] l by (simp add: carries_def segment_of_def F c Let_def)
  moreover have "pm stream_sample = win (pm (echo_sample [])) (pool_addr 0) 54 5 ?A" "tcp_mem stream_sample 9 = Some stream_pcb"
    by (simp_all add: stream_sample_def)
  moreover have u: "rcv_nxt stream_pcb = 1000 + of_nat 3" "rcv_wnd stream_pcb = 2" "tflags stream_pcb AND TF_ACK_DELAY = 0"
    by (simp_all add: stream_pcb_def new_tcp_pcb_def)
  moreover have "in_tcplen ?x = of_nat 5" "in_seqno ?x = 1000 + of_nat 1" using s by simp_all
  moreover have "field ?A 54 5 = field [10, 11, 12, 13, 14, 15] 1 5" unfolding d by (simp add: field_def)
  ultimately have "\<exists>x' d' u' m bs. m = min (1 + 5 - 3) (unat (rcv_wnd stream_pcb)) \<and> recv_data x' = Some (pool_addr 0) \<and>
      payloads (Some (pool_addr 0)) (pm d') = Some [bs] \<and> take 3 [10, 11, 12, 13, 14, 15] @ bs = take (3 + m) [10, 11, 12, 13, 14, 15] \<and>
      rcv_nxt u' = 1000 + of_nat (3 + m) \<and> rcv_wnd u' = rcv_wnd stream_pcb - of_nat m \<and>
      receive_data ?x 9 stream_sample = Some (x', d'\<lparr>tcp_mem := (tcp_mem d')(9 \<mapsto> u'\<lparr>tflags := tflags stream_pcb OR TF_ACK_DELAY\<rparr>)\<rparr>)"
    using tcp_receive_stream [of ?x "pool_addr 0" 34 54 5 ?A stream_sample "pm (echo_sample [])" 9 stream_pcb 1000 3 1 "[10, 11, 12, 13, 14, 15]"]
    by (simp del: of_nat_numeral of_nat_1) blast
  then show ?thesis by (auto simp: u(2))
qed

end
