(* ===== verification/Image.thy ===== *)
theory Image
  imports Input_Table Udp_Echo Tcp_Stream
begin

text \<open>
  Runs of the image: it starts with the pools full and the lists empty, with or without the TCP server, and then
  takes frames, ticks of the timers and turns of the main loop in any order.
\<close>

definition start_table :: table where
  "start_table = \<lparr>bound = [], active = [], tws = [], listening = [], states = (\<lambda>_. None), listeners = {},
     free_pcbs = memp_init MEMP_TCP_PCB, free_listeners = memp_init MEMP_TCP_PCB_LISTEN\<rparr>"

lemma start_table_ok: "conns_ok start_table"
  by (auto simp: start_table_def conns_ok_def memp_init_eq)

definition server_table :: table where
  "server_table = start_table\<lparr>listening := [5], listeners := {5}, free_listeners := [4, 3, 2, 1, 0]\<rparr>"

lemma server_table_ok: "conns_ok server_table"
  by (auto simp: server_table_def start_table_def conns_ok_def memp_init_eq)

lemma memp_init_values: "memp_init MEMP_TCP_PCB = [9, 8, 7, 6, 5, 4, 3, 2, 1, 0]" "memp_init MEMP_TCP_PCB_LISTEN = [5, 4, 3, 2, 1, 0]"
  by (simp_all add: memp_init_eq upt_rec)

subsection \<open>The start\<close>

text \<open>\<open>LwIP_Init\<close> on the zeroed data of TCP.\<close>

definition fresh :: "'a tcp_scheme \<Rightarrow> bool" where
  "fresh d \<longleftrightarrow> tcp_bound_pcbs d = [] \<and> tcp_active_pcbs d = [] \<and> tcp_tw_pcbs d = [] \<and> tcp_listen_pcbs d = [] \<and>
     (\<forall>i. tcp_mem d i = None) \<and> (\<forall>j. listen_mem d j = None)"

lemma table_of_hardware [simp]:
  "table_of (d\<lparr>PINSEL2 := v\<rparr>) = table_of d" "table_of (d\<lparr>PINSEL3 := v\<rparr>) = table_of d" "table_of (d\<lparr>nvic := b\<rparr>) = table_of d"
  "table_of (d\<lparr>netif_listed := b\<rparr>) = table_of d"
  by (simp_all add: table_of_def)

lemma low_level_init_table [wp]:
  fixes d :: "'a tcp_scheme"
  assumes "\<And>d'. table_of d' = table_of d \<Longrightarrow> tcp_pools (pools (pm d')) = tcp_pools (pools (pm d)) \<Longrightarrow> P d'"
  shows "ensures (low_level_init d) P"
  unfolding low_level_init_def
  by (auto simp: Let_def intro!: assms ensures_read [where m = "init_loop m" for m])

lemma ethernetif_init_table [wp]:
  fixes d :: "'a tcp_scheme"
  assumes "\<And>e d'. table_of d' = table_of d \<Longrightarrow> tcp_pools (pools (pm d')) = tcp_pools (pools (pm d)) \<Longrightarrow> P (e, d')"
  shows "ensures (ethernetif_init d) P"
  unfolding ethernetif_init_def by (auto simp: Let_def intro!: wp assms)

lemma netif_set_addr_start:
  fixes d :: "'a tcp_scheme"
  assumes "table_of d = start_table" "\<And>d'. table_of d' = start_table \<Longrightarrow> P d'"
  shows "ensures (netif_set_addr up a b c d) P"
proof -
  have "tcp_active_pcbs d = []" "tcp_listen_pcbs d = []" using assms(1) by (simp_all add: table_of_fields start_table_def)
  then show ?thesis
    unfolding netif_set_addr_def netif_set_ipaddr_def
    by (simp add: first_pcb_def abort_bound.simps) (intro impI conjI assms(2); simp add: assms(1))
qed

lemma netif_set_up_table [wp]:
  fixes d :: "'a tcp_scheme"
  assumes "\<And>d'. table_of d' = table_of d \<Longrightarrow> tcp_pools (pools (pm d')) = tcp_pools (pools (pm d)) \<Longrightarrow> P d'"
  shows "ensures (netif_set_up d) P"
  unfolding netif_set_up_def etharp_gratuitous_def by (auto simp: Let_def intro!: wp assms)

lemma LwIP_Init_start:
  assumes "fresh d"
  shows "ensures (LwIP_Init up d) (\<lambda>d'. table_of d' = start_table)"
proof -
  have start: "table_of (d\<lparr>pm := (pm d)\<lparr>heap := h, pools := memp_init\<rparr>\<rparr>) = start_table" for h
    using assms by (auto simp: fresh_def table_of_def start_table_def)
  show ?thesis
    unfolding LwIP_Init_def netif_add_def netif_set_default_def
    by (auto simp: Let_def start intro!: wp netif_set_addr_start)
qed

text \<open>\<open>tcp_echoserver_init\<close> takes a control block for the port and gives it back for the listener.\<close>

lemma tcp_new_start:
  fixes d :: "'a tcp_scheme"
  assumes t: "table_of d = start_table" and fs: "memp_init MEMP_TCP_PCB = 9 # fs"
    and P: "\<And>d'. table_of d' = start_table\<lparr>free_pcbs := fs, states := (\<lambda>_. None)(9 \<mapsto> CLOSED)\<rparr> \<Longrightarrow>
      P (Some 9, d')"
  shows "ensures (tcp_new up d) P"
proof -
  have pl: "pools (pm d) MEMP_TCP_PCB = 9 # fs"
    using t fs by (simp add: table_of_fields start_table_def)
  have fields: "table_of (d\<lparr>pm := (pm d)\<lparr>pools := (pools (pm d))(MEMP_TCP_PCB := fs)\<rparr>, tcp_iss := q,
      tcp_mem := (tcp_mem d)(9 \<mapsto> new_tcp_pcb q n)\<rparr>) =
      (table_of d)\<lparr>free_pcbs := fs, states := (states (table_of d))(9 \<mapsto> CLOSED)\<rparr>" for q n
    by (auto simp: table_of_def new_tcp_pcb_def fun_eq_iff)
  show ?thesis
    unfolding tcp_new_def tcp_alloc_def
    by (simp add: take_pcb_def memp_malloc_def pl tcp_next_iss_def) (rule P, simp add: fields t start_table_def)
qed

lemma tcp_bind_start:
  fixes d :: "'a tcp_scheme"
  assumes t: "table_of d = start_table\<lparr>free_pcbs := fs, states := (\<lambda>_. None)(i \<mapsto> CLOSED)\<rparr>" and port: "port \<noteq> 0"
    and P: "\<And>d'. table_of d' = start_table\<lparr>free_pcbs := fs, states := (\<lambda>_. None)(i \<mapsto> CLOSED), bound := [i]\<rparr> \<Longrightarrow> P (ERR_OK, d')"
  shows "ensures (tcp_bind i (Some a) port d) P"
proof -
  have l: "tcp_active_pcbs d = []" "tcp_listen_pcbs d = []" "tcp_bound_pcbs d = []" "tcp_tw_pcbs d = []"
    using t by (simp_all add: table_of_fields start_table_def)
  note tcp_mem_table [wp del]
  have rd: "ensures (tcp_mem d i) Q" if "\<And>u. tstate u = CLOSED \<Longrightarrow> Q u" for Q using that t by (auto intro!: tcp_mem_table)
  show ?thesis
    unfolding tcp_bind_def
    by (auto simp: port listen_endpoints_def tcp_endpoints_def l bind_clash_def t table_of_reg start_table_def intro!: rd wp P)
qed

lemma tcp_listen_start:
  fixes d :: "'a tcp_scheme"
  assumes t: "table_of d = start_table\<lparr>free_pcbs := fs, states := (\<lambda>_. None)(i \<mapsto> CLOSED), bound := [i]\<rparr>"
    and P: "\<And>d'. table_of d' = server_table\<lparr>free_pcbs := i # fs\<rparr> \<Longrightarrow> P (Some (Lpcb 5), d')"
  shows "ensures (tcp_listen i d) P"
proof -
  have pl: "pools (pm d) MEMP_TCP_PCB_LISTEN = [5, 4, 3, 2, 1, 0]" "pools (pm d) MEMP_TCP_PCB = fs" "dom (listen_mem d) = {}"
    and l: "tcp_active_pcbs d = []" "tcp_listen_pcbs d = []" "tcp_bound_pcbs d = [i]" "tcp_tw_pcbs d = []"
    using t memp_init_values by (simp_all add: table_of_fields start_table_def)
  have st: "tcp_mem d k = None" if "k \<noteq> i" for k
    using t that by (simp add: table_of_fields start_table_def)
  note tcp_mem_table [wp del]
  have rd: "ensures (tcp_mem d i) Q" if "\<And>u. tstate u = CLOSED \<Longrightarrow> Q u" for Q using that t by (auto intro!: tcp_mem_table)
  show ?thesis
    unfolding tcp_listen_def
    by (auto simp: memp_malloc_def pl Let_def intro!: rd P)
      (auto simp: table_of_def server_table_def start_table_def free_tcp_pcb_def TCP_RMV_def cut_after_def l pl st memp_free_def fun_eq_iff memp_init_values)
qed

lemma tcp_accept_table [wp]:
  fixes d :: "'a tcp_scheme"
  assumes "\<And>d'. table_of d' = table_of d \<Longrightarrow> tcp_pools (pools (pm d')) = tcp_pools (pools (pm d)) \<Longrightarrow> P d'"
  shows "ensures (tcp_accept r f d) P"
  unfolding tcp_accept_def
  by (cases r) (auto intro!: wp assms ensuresI [where m = "listen_mem d j" for j] simp: table_of_def insert_absorb domI)

lemma tcp_echoserver_init_start:
  fixes d :: "'a app_scheme"
  assumes "table_of d = start_table"
  shows "ensures (tcp_echoserver_init d) (\<lambda>d'. table_of d' = server_table)"
proof -
  have [simp]: "table_of (d\<lparr>tcp_echoserver_pcb := q\<rparr>) = table_of d" for d :: "'a app_scheme" and q by (simp add: table_of_def)
  have fs: "memp_init MEMP_TCP_PCB = 9 # tl (memp_init MEMP_TCP_PCB)" by (simp add: memp_init_values)
  have "server_table\<lparr>free_pcbs := memp_init MEMP_TCP_PCB\<rparr> = server_table" by (simp add: server_table_def start_table_def)
  then have [simp]: "server_table\<lparr>free_pcbs := 9 # tl (memp_init MEMP_TCP_PCB)\<rparr> = server_table" using fs by simp
  show ?thesis
    unfolding tcp_echoserver_init_def
    by (auto simp: Let_def assms intro!: tcp_new_start [OF _ fs] tcp_bind_start [where fs = "tl (memp_init MEMP_TCP_PCB)"] tcp_listen_start [where fs = "tl (memp_init MEMP_TCP_PCB)"] tcp_accept_table)
qed

subsection \<open>Runs\<close>

inductive image :: "'a app_scheme \<Rightarrow> bool" where
  start: "table_of d = start_table \<Longrightarrow> image d"
| server: "table_of d = start_table \<Longrightarrow> tcp_echoserver_init d = Some d' \<Longrightarrow> image d'"
| udp: "image d \<Longrightarrow> udp_echo_init d = Some d' \<Longrightarrow> image d'"
| frame: "image d \<Longrightarrow> ethernetif_input app_upper d = Some (e, d') \<Longrightarrow> image d'"
| irq: "image d \<Longrightarrow> ENET_IRQHandler app_upper ss d = Some d' \<Longrightarrow> image d'"
| tick: "image d \<Longrightarrow> LwIP_Periodic_Handle app_calls t d = Some d' \<Longrightarrow> image d'"
| send: "image d \<Longrightarrow> app_send None None None d = Some d' \<Longrightarrow> image d'"
| hardware: "image d \<Longrightarrow> image (d\<lparr>mac := m\<rparr>)"

lemma udp_echo_init_table [wp]:
  fixes d :: "'a app_scheme"
  assumes "\<And>d'. table_of d' = table_of d \<Longrightarrow> tcp_pools (pools (pm d')) = tcp_pools (pools (pm d)) \<Longrightarrow> P d'"
  shows "ensures (udp_echo_init d) P"
proof -
  have P: "P d'" if "table_of d' = table_of d" for d' using assms that table_pools by blast
  have [simp]: "table_of (d\<lparr>echo_pcb := q\<rparr>) = table_of d" for d :: "'a app_scheme" and q by (simp add: table_of_def)
  show ?thesis
    unfolding udp_echo_init_def by (auto simp: Let_def udp_new_table intro!: wp P)
qed

lemma ENET_IRQHandler_steps:
  fixes d :: "'a app_scheme"
  assumes "conns_ok (table_of d)" "\<And>d'. tsteps (table_of d) (table_of d') \<Longrightarrow> conns_ok (table_of d') \<Longrightarrow> P d'"
  shows "ensures (ENET_IRQHandler app_upper ss d) P"
  using assms
proof (induction ss arbitrary: d)
  case (Cons s ss)
  have rest: "ensures (ENET_IRQHandler app_upper ss d1) P" if "tsteps (table_of d) (table_of d1)" for d1
    using that tsteps_ok [OF that Cons.prems(1)] by (intro Cons.IH) (auto intro!: Cons.prems(2) intro: rtranclp_trans [OF that])
  show ?case
    by (auto simp: Let_def LwIP_Pkt_Handle_def Cons.prems(1) intro!: ethernetif_input_steps rest Cons.prems(2))
qed simp

lemma app_send_table [wp]:
  fixes d :: "'a app_scheme"
  assumes "\<And>d'. table_of d' = table_of d \<Longrightarrow> tcp_pools (pools (pm d')) = tcp_pools (pools (pm d)) \<Longrightarrow> P d'"
  shows "ensures (app_send None None None d) P"
  unfolding app_send_def by (auto simp: Let_def intro!: wp assms dest: table_pools)

lemma image_conns_ok: "image d \<Longrightarrow> conns_ok (table_of d)"
proof (induction rule: image.induct)
  case (start d)
  then show ?case by (simp add: start_table_ok)
next
  case (server d d')
  then have "table_of d' = server_table" by (auto intro: ensuresD [OF tcp_echoserver_init_start])
  then show ?case by (simp add: server_table_ok)
next
  case (udp d d')
  have "ensures (udp_echo_init d) (\<lambda>d'. conns_ok (table_of d'))" using udp.IH by (auto intro!: wp)
  then show ?case by (rule ensuresD) (rule udp.hyps(2))
next
  case (frame d e d')
  have "ensures (ethernetif_input app_upper d) (\<lambda>r. conns_ok (table_of (snd r)))"
    using frame.IH by (auto intro!: ethernetif_input_steps)
  from ensuresD [OF this frame.hyps(2)] show ?case by simp
next
  case (irq d ss d')
  have "ensures (ENET_IRQHandler app_upper ss d) (\<lambda>d'. conns_ok (table_of d'))" using irq.IH by (auto intro!: ENET_IRQHandler_steps)
  then show ?case by (rule ensuresD) (rule irq.hyps(2))
next
  case (tick d t d')
  have "ensures (LwIP_Periodic_Handle app_calls t d) (\<lambda>d'. conns_ok (table_of d'))" using tick.IH by (auto intro!: LwIP_Periodic_Handle_steps)
  then show ?case by (rule ensuresD) (rule tick.hyps(2))
next
  case (send d d')
  have "ensures (app_send None None None d) (\<lambda>d'. conns_ok (table_of d'))" using send.IH by (auto intro!: wp)
  then show ?case by (rule ensuresD) (rule send.hyps(2))
next
  case (hardware d m)
  then show ?case by simp
qed

text \<open>What the initialisation of the server leaves, with the control block of its listener.\<close>

lemma tcp_echoserver_init_total:
  fixes d :: "'a app_scheme"
  assumes t: "table_of d = start_table"
  shows "\<exists>d' l. tcp_echoserver_init d = Some d' \<and> tcp_echoserver_pcb d' = Some (Lpcb 5) \<and> listen_mem d' 5 = Some l \<and>
    llocal_ip l = 0 \<and> llocal_port l = 8080 \<and> laccept l = Some Tcp_echoserver_accept"
proof -
  have pl: "pools (pm d) MEMP_TCP_PCB = 9 # tl (memp_init MEMP_TCP_PCB)" "pools (pm d) MEMP_TCP_PCB_LISTEN = 5 # [4, 3, 2, 1, 0]"
    and l: "tcp_active_pcbs d = []" "tcp_listen_pcbs d = []" "tcp_bound_pcbs d = []" "tcp_tw_pcbs d = []"
    using t memp_init_values by (simp_all add: table_of_fields start_table_def)
  show ?thesis
    by (simp add: tcp_echoserver_init_def tcp_new_def tcp_alloc_def take_pcb_def memp_malloc_def pl tcp_next_iss_def new_tcp_pcb_def
        tcp_bind_def listen_endpoints_def tcp_endpoints_def l bind_clash_def upd_tcp_def TCP_REG_def lead_into_def tcp_listen_def Let_def
        TCP_RMV_def free_tcp_pcb_def cut_after_def tcp_accept_def ip_addr_isany_def)
qed

subsection \<open>Properties\<close>

lemma conns_ok_lists:
  assumes "conns_ok (table_of d)"
  shows "distinct (tcp_bound_pcbs d @ tcp_active_pcbs d @ tcp_tw_pcbs d @ pools (pm d) MEMP_TCP_PCB)"
    "set (tcp_bound_pcbs d @ tcp_active_pcbs d @ tcp_tw_pcbs d @ pools (pm d) MEMP_TCP_PCB) = {..<10}"
    "tcp_mem d i \<noteq> None \<longleftrightarrow> i \<in> set (tcp_bound_pcbs d @ tcp_active_pcbs d @ tcp_tw_pcbs d)"
    "tcp_mem d i = Some u \<Longrightarrow> tstate u \<noteq> LISTEN" "tcp_mem d i = Some u \<Longrightarrow> tstate u = CLOSED \<longleftrightarrow> i \<in> set (tcp_bound_pcbs d)"
    "tcp_mem d i = Some u \<Longrightarrow> tstate u = TIME_WAIT \<longleftrightarrow> i \<in> set (tcp_tw_pcbs d)"
    "distinct (tcp_listen_pcbs d @ pools (pm d) MEMP_TCP_PCB_LISTEN)" "listen_mem d j \<noteq> None \<longleftrightarrow> j \<in> set (tcp_listen_pcbs d)"
proof -
  show "distinct (tcp_bound_pcbs d @ tcp_active_pcbs d @ tcp_tw_pcbs d @ pools (pm d) MEMP_TCP_PCB)"
    "set (tcp_bound_pcbs d @ tcp_active_pcbs d @ tcp_tw_pcbs d @ pools (pm d) MEMP_TCP_PCB) = {..<10}"
    "distinct (tcp_listen_pcbs d @ pools (pm d) MEMP_TCP_PCB_LISTEN)"
    using assms by (simp_all add: conns_ok_def table_of_fields)
  have "i \<in> dom (states (table_of d)) \<longleftrightarrow> i \<in> set (tcp_bound_pcbs d @ tcp_active_pcbs d @ tcp_tw_pcbs d)"
    using assms by (simp add: conns_ok_def table_of_fields)
  then show "tcp_mem d i \<noteq> None \<longleftrightarrow> i \<in> set (tcp_bound_pcbs d @ tcp_active_pcbs d @ tcp_tw_pcbs d)"
    by (simp add: domIff table_of_fields)
  have "dom (listen_mem d) = set (tcp_listen_pcbs d)" using assms by (simp add: conns_ok_def table_of_fields)
  then show "listen_mem d j \<noteq> None \<longleftrightarrow> j \<in> set (tcp_listen_pcbs d)" by blast
  assume "tcp_mem d i = Some u"
  note conns_ok_place [OF assms states_Some [OF this]]
  then show "tstate u \<noteq> LISTEN" "tstate u = CLOSED \<longleftrightarrow> i \<in> set (tcp_bound_pcbs d)" "tstate u = TIME_WAIT \<longleftrightarrow> i \<in> set (tcp_tw_pcbs d)"
    by (simp_all add: table_of_fields)
qed

text \<open>
  C5. The connection tables of TCP are in order in every state the image can reach, whatever frames arrive and
  whenever the timers run: every element of the pool of control blocks is in exactly one of the lists of bound,
  active and TIME-WAIT connections and the free list; a control block exists just when it is in one of the three lists,
  and its state says in which; none is in the state LISTEN; and the listeners in use are those in their list.
\<close>
theorem image_tables:
  assumes "image d"
  shows "distinct (tcp_bound_pcbs d @ tcp_active_pcbs d @ tcp_tw_pcbs d @ pools (pm d) MEMP_TCP_PCB) \<and>
    set (tcp_bound_pcbs d @ tcp_active_pcbs d @ tcp_tw_pcbs d @ pools (pm d) MEMP_TCP_PCB) = {..<10} \<and>
    (\<forall>i. tcp_mem d i \<noteq> None \<longleftrightarrow> i \<in> set (tcp_bound_pcbs d @ tcp_active_pcbs d @ tcp_tw_pcbs d)) \<and>
    (\<forall>i u. tcp_mem d i = Some u \<longrightarrow> tstate u \<noteq> LISTEN \<and> (tstate u = CLOSED \<longleftrightarrow> i \<in> set (tcp_bound_pcbs d)) \<and>
      (tstate u = TIME_WAIT \<longleftrightarrow> i \<in> set (tcp_tw_pcbs d))) \<and>
    distinct (tcp_listen_pcbs d @ pools (pm d) MEMP_TCP_PCB_LISTEN) \<and>
    (\<forall>j. listen_mem d j \<noteq> None \<longleftrightarrow> j \<in> set (tcp_listen_pcbs d))"
  using conns_ok_lists [OF image_conns_ok [OF assms]] by (intro conjI allI impI)

text \<open>
  C6. A received frame moves the connection table only along the state diagram of RFC 793: whatever
  \<open>ethernetif_input\<close> does with it under the TCP server, the new table follows from the old one by steps that
  accept a connection into a free control block where there is a listener, move an active connection along an edge
  of the diagram, move it to TIME-WAIT, free a control block, or bring one to the front of its list.
\<close>
theorem frame_follows_diagram:
  fixes d :: "'a app_scheme"
  assumes "conns_ok (table_of d)" and "ethernetif_input app_upper d = Some (e, d')"
  shows "tstep\<^sup>*\<^sup>* (table_of d) (table_of d')"
  using ensuresD [OF ethernetif_input_steps [where P = "\<lambda>r. tstep\<^sup>*\<^sup>* (table_of d) (table_of (snd r))", OF assms(1)] assms(2)]
  by simp

text \<open>
  C7. So do the timers: retransmission limits, keep-alive, the time-outs of states and of TIME-WAIT, polling of the
  application and refused data, in the order of the loops of \<open>tcp_slowtmr\<close> and \<open>tcp_fasttmr\<close> while callbacks
  close and abort connections.
\<close>
theorem tick_follows_diagram:
  fixes d :: "'a app_scheme"
  assumes "conns_ok (table_of d)" and "LwIP_Periodic_Handle app_calls t d = Some d'"
  shows "tstep\<^sup>*\<^sup>* (table_of d) (table_of d')"
  by (rule ensuresD [OF LwIP_Periodic_Handle_steps [where P = "\<lambda>d'. tstep\<^sup>*\<^sup>* (table_of d) (table_of d')", OF assms(1)] assms(2)])

text \<open>
  \<open>tcp_echoserver_init\<close> on the state that \<open>LwIP_Init\<close> leaves always succeeds: one listener waits on port 8080 of any
  address with the accept callback of the server, and the control block that was bound to the port is free again.
\<close>
lemma server_listens:
  fixes d :: "'a app_scheme"
  assumes "table_of d = start_table"
  shows "\<exists>d' l. tcp_echoserver_init d = Some d' \<and> table_of d' = start_table\<lparr>listening := [5], listeners := {5},
      free_listeners := [4, 3, 2, 1, 0]\<rparr> \<and> tcp_echoserver_pcb d' = Some (Lpcb 5) \<and> listen_mem d' 5 = Some l \<and>
    llocal_ip l = 0 \<and> llocal_port l = 8080 \<and> laccept l = Some Tcp_echoserver_accept"
  using tcp_echoserver_init_total [OF assms] ensuresD [OF tcp_echoserver_init_start [OF assms]] unfolding server_table_def by blast

subsection \<open>Witnesses\<close>

lemma sample_table: "table_of (echo_sample f) = start_table"
  by (simp add: table_of_def start_table_def echo_sample_def arp.extend_def arp_init_def dev.extend_def dev_sample_def pmem_init_def)

text \<open>A server that has just started.\<close>

theorem image_tables_witness:
  "\<exists>d'. tcp_echoserver_init (echo_sample []) = Some d' \<and> tcp_listen_pcbs d' = [5] \<and>
     (\<forall>j. listen_mem d' j \<noteq> None \<longleftrightarrow> j = 5) \<and> distinct (5 # pools (pm d') MEMP_TCP_PCB_LISTEN)"
proof -
  obtain d' where d': "tcp_echoserver_init (echo_sample []) = Some d'"
    using tcp_echoserver_init_total [OF sample_table] by blast
  have t: "table_of d' = server_table" by (rule ensuresD [OF tcp_echoserver_init_start [OF sample_table] d'])
  then have l: "tcp_listen_pcbs d' = [5]" by (simp add: table_of_fields server_table_def)
  show ?thesis
    using image_tables [OF image.server [OF sample_table d']] d' l by (intro exI [of _ d']) simp
qed

text \<open>
  A connection that is closing, and the frame that brings the acknowledgement of its FIN: no data, number 1000,
  acknowledgement 2001.
\<close>

definition last_ack :: "u8 list" where
  "last_ack = [0, 0, 0, 0, 0, 1, 0, 26, 160, 1, 2, 3, 8, 0, 69, 0, 0, 40, 0, 7, 0, 0, 64, 6, 247, 171, 192, 1, 1, 115,
     192, 1, 1, 168, 19, 136, 31, 144, 0, 0, 3, 232, 0, 0, 7, 209, 80, 16, 8, 0, 229, 229, 0, 0] @ replicate 6 0"

definition closing_pcb :: tcp_pcb where
  "closing_pcb = (new_tcp_pcb 2000 1)\<lparr>tstate := CLOSING, tlocal_ip := IP4_ADDR 192 1 1 168, tremote_ip := IP4_ADDR 192 1 1 115,
     tlocal_port := 8080, tremote_port := 5000, rcv_nxt := 1000, snd_nxt := 2001, cwnd := 1072, ssthresh := 5360\<rparr>"

definition closing_sample :: app where
  "closing_sample = (echo_sample last_ack)\<lparr>tcp_active_pcbs := [9], tcp_mem := [9 \<mapsto> closing_pcb],
     pm := (pm (echo_sample last_ack))\<lparr>pools := (pools (pm (echo_sample last_ack)))(MEMP_TCP_PCB := rev [0..<9])\<rparr>\<rparr>"

lemma last_ack_frame:
  "eth_hdr_ok (last_ack @ pad) ETHADDR peer_mac"
  "ip_packet (last_ack @ pad) (IP4_ADDR 192 1 1 115) (IP4_ADDR 192 1 1 168) IP_PROTO_TCP 40"
  "inet_chksum_pseudo [field (last_ack @ pad) 34 20] (IP4_ADDR 192 1 1 115) (IP4_ADDR 192 1 1 168) IP_PROTO_TCP 20 = 0"
  "field16 (last_ack @ pad) 34 = 0x8813" "field16 (last_ack @ pad) 36 = 0x901F" "field32 (last_ack @ pad) 38 = 0xE8030000"
  "field32 (last_ack @ pad) 42 = 0xD1070000" "field16 (last_ack @ pad) 46 = 0x1050" "field16 (last_ack @ pad) 48 = 8"
proof -
  have ip: "IP4_ADDR 192 1 1 115 = 0x730101C0" "IP4_ADDR 192 1 1 168 = 0xA80101C0"
    by (simp_all add: IP4_ADDR_def htonl_def)
  have c: "inet_chksum [69, 0, 0, 40, 0, 7, 0, 0, 64, 6, 247, 171, 192, 1, 1, 115, 192, 1, 1, 168] = 0"
    by code_simp
  have d: "inet_chksum_pseudo [[19, 136, 31, 144, 0, 0, 3, 232, 0, 0, 7, 209, 80, 16, 8, 0, 229, 229, 0, 0]] 0x730101C0 0xA80101C0 6 20 = 0"
    by code_simp
  have f: "field (last_ack @ pad) 14 20 = [69, 0, 0, 40, 0, 7, 0, 0, 64, 6, 247, 171, 192, 1, 1, 115, 192, 1, 1, 168]"
    "field (last_ack @ pad) 34 20 = [19, 136, 31, 144, 0, 0, 3, 232, 0, 0, 7, 209, 80, 16, 8, 0, 229, 229, 0, 0]"
    "field (last_ack @ pad) 0 6 = ETHADDR" "field (last_ack @ pad) 6 6 = peer_mac"
    by (simp_all add: last_ack_def field_def ETHADDR_def peer_mac_def)
  show "field16 (last_ack @ pad) 34 = 0x8813" "field16 (last_ack @ pad) 36 = 0x901F" "field32 (last_ack @ pad) 38 = 0xE8030000"
    "field32 (last_ack @ pad) 42 = 0xD1070000" "field16 (last_ack @ pad) 46 = 0x1050" "field16 (last_ack @ pad) 48 = 8"
    by (simp_all add: last_ack_def field16_def field32_def u16_of_bytes_def u32_of_bytes_def)
  have g: "field16 (last_ack @ pad) 12 = 8" "field16 (last_ack @ pad) 14 = 0x45" "field16 (last_ack @ pad) 16 = 0x2800"
    "field16 (last_ack @ pad) 20 = 0" "field16 (last_ack @ pad) 22 = 0x0640" "field32 (last_ack @ pad) 26 = 0x730101C0"
    "field32 (last_ack @ pad) 30 = 0xA80101C0"
    by (simp_all add: last_ack_def field16_def field32_def u16_of_bytes_def u32_of_bytes_def)
  show "eth_hdr_ok (last_ack @ pad) ETHADDR peer_mac"
    "ip_packet (last_ack @ pad) (IP4_ADDR 192 1 1 115) (IP4_ADDR 192 1 1 168) IP_PROTO_TCP 40"
    by (simp_all add: eth_hdr_ok_def ip_packet_def ip f g c IPH_V_def IPH_HL_def IPH_PROTO_def htons_def)
  show "inet_chksum_pseudo [field (last_ack @ pad) 34 20] (IP4_ADDR 192 1 1 115) (IP4_ADDR 192 1 1 168) IP_PROTO_TCP 20 = 0"
    by (simp add: f ip d)
qed

lemma closing_sample_hyps:
  "station 0 closing_sample" "tx_queue (mac closing_sample) = []"
  "rx_queue (mac closing_sample) = [(0x4000003F, last_ack @ replicate (1536 - 60) 0)]"
  "\<exists>e \<in> set (arp_table closing_sample). \<not> live e \<or> eip e = IP4_ADDR 192 1 1 115"
  "nif closing_sample = nif (echo_sample udp_ping)"
  "table_of closing_sample = start_table\<lparr>active := [9], states := (\<lambda>_. None)(9 \<mapsto> CLOSING), free_pcbs := rev [0..<9]\<rparr>"
proof -
  have l: "length last_ack = 60" by (simp add: last_ack_def)
  then have "length last_ack \<le> 1536" by simp
  note S = echo_sample_station [OF this, unfolded l]
  show "station 0 closing_sample"
    using S(1) by (simp add: closing_sample_def station_def pool_ok_def arp_ok_def echoing_def)
  show "tx_queue (mac closing_sample) = []" "rx_queue (mac closing_sample) = [(0x4000003F, last_ack @ replicate (1536 - 60) 0)]"
    "\<exists>e \<in> set (arp_table closing_sample). \<not> live e \<or> eip e = IP4_ADDR 192 1 1 115"
    "nif closing_sample = nif (echo_sample udp_ping)"
    using S(2-4) by (simp_all add: closing_sample_def)
  show "table_of closing_sample = start_table\<lparr>active := [9], states := (\<lambda>_. None)(9 \<mapsto> CLOSING), free_pcbs := rev [0..<9]\<rparr>"
    using sample_table [of last_ack]
    by (auto simp: closing_sample_def table_of_def start_table_def closing_pcb_def fun_eq_iff)
qed

text \<open>The state machine on it: the acknowledgement counts, the connection leaves its list and enters the other.\<close>

lemma closing_ack:
  assumes "pm d = win st (pool_addr q) 54 0 B" "54 \<le> length B" "TCPH_FLAGS (field16 B 46) = 0x10" "TCPH_HDRLEN (field16 B 46) = 5"
    "tcp_active_pcbs d = [9]" "tcp_tw_pcbs d = []" "tcp_bound_pcbs d = []" "tcp_mem d 9 = Some closing_pcb" "tcp_input_pcb d = None"
    "field16 B 48 = 2048" "in_tcphdr x = Some (PData (pool_addr q), 34)" "in_p x = Some (pool_addr q)" "in_seqno x = 1000" "in_ackno x = 2001"
    "in_flags x = 0x10" "in_tcplen x = 0" "recv_flags x = 0" "recv_data x = None"
  shows "\<exists>d'. tcp_demux app_calls x (pool_addr q) (IP4_ADDR 192 1 1 115, IP4_ADDR 192 1 1 168, 5000, 8080) d = Some d' \<and>
    tcp_active_pcbs d' = [] \<and> tcp_tw_pcbs d' = [9]"
proof -
  have pt: "Some (PData (pool_addr q), 34 :: int) = Some (PData (pool_addr q), int 34)" by simp
  have h: "ptr_get16 (win st (pool_addr q) 54 0 B) (Some (PData (pool_addr q), 34)) 12 = Some (field16 B 46)"
    "ptr_get16 (win st (pool_addr q) 54 0 B) (Some (PData (pool_addr q), 34)) 14 = Some (field16 B 48)"
    using assms(2) unfolding pt by (simp_all del: of_nat_numeral)
  have free: "\<exists>st'. pbuf_free (Some (pool_addr q)) (win st (pool_addr q) 54 0 B) = Some (1, st')" by (simp add: win_free)
  have r: "receive_ack x 9 d1 = Some (d1\<lparr>tcp_mem := (tcp_mem d1)(9 \<mapsto> v)\<rparr>)"
    if "tcp_mem d1 9 = Some u" "pm d1 = win st (pool_addr q) 54 0 B" "u = closing_pcb\<lparr>tmr := t, keep_cnt_sent := 0\<rparr>"
      "v = u\<lparr>snd_wnd := 2048, snd_wl1 := 1000, snd_wl2 := 2001, nrtx := 0, rto := signed_drop_bit 3 (sa u) + sv u, acked := 1,
        snd_buf := snd_buf u + 1, dupacks := 0, lastack := 2001, cwnd := 1608, unacked := [], rtime := - 1, polltmr := 0\<rparr>"
    for d1 :: "'a app_scheme" and u v t
    unfolding receive_ack_def
    by (simp add: that(1-3) h assms(10,11,13,14) upd_tcp_def closing_pcb_def new_tcp_pcb_def update_window_def Let_def new_ack_def
        open_cwnd_def TCP_SEQ_LT_def TCP_SEQ_BETWEEN_def TCP_SEQ_GEQ_def TCP_SEQ_LEQ_def inflate_cwnd_def)
      (simp add: that(3,4) closing_pcb_def new_tcp_pcb_def)
  have out: "tcp_output 9 d1 = Some (ERR_OK, d1\<lparr>tcp_mem := (tcp_mem d1)(9 \<mapsto> u\<lparr>tflags := 0\<rparr>)\<rparr>)"
    if "tcp_mem d1 9 = Some u" "unsent u = []" "tflags u = 0" "tcp_input_pcb d1 = None" for d1 :: "'a app_scheme" and u
    using that by (simp add: tcp_output_def output_segs.simps start_persist_def upd_tcp_def)
  show ?thesis
    using free
    by (auto simp: tcp_demux_def assms conn_of_def closing_pcb_def new_tcp_pcb_def tcp_conn_input_def tcp_process_def upd_tcp_def
        tcp_parseopt_def process_data_def tcp_receive_def r to_front_def h Let_def free_packet_def in_window_def TCP_SEQ_BETWEEN_def TCP_SEQ_GEQ_def TCP_SEQ_LEQ_def
        to_time_wait_def tcp_pcb_purge_def TCP_RMV_def TCP_REG_def lead_into_def cut_after_def tcp_events_def event_sent_def out)
qed

lemma closing_runs: "\<exists>e d'. ethernetif_input app_upper closing_sample = Some (e, d') \<and> tcp_active_pcbs d' = [] \<and> tcp_tw_pcbs d' = [9]"
proof -
  let ?pad = "replicate (1536 - 60) 0 :: u8 list"
  have n: "frame_size 0x4000003F = 63" by (simp add: frame_size_def)
  have me: "ip_addr (nif closing_sample) = IP4_ADDR 192 1 1 168" by (simp add: closing_sample_hyps(5) dev_sample_def)
  obtain q ks A d2 where ar: "arrived 0 closing_sample q ks A d2" and p2: "pm d2 = win (rx_mem closing_sample ks) (pool_addr q) 14 40 A"
    and pre: "field A 0 60 = field (last_ack @ ?pad) 0 60"
    and hA: "ip_packet A (IP4_ADDR 192 1 1 115) (IP4_ADDR 192 1 1 168) IP_PROTO_TCP 40"
    and run: "\<forall>up. ethernetif_input up closing_sample = do { d \<leftarrow> ip_deliver up (pool_addr q) d2; Some (ERR_OK, d) }"
    by (rule receive_win [OF closing_sample_hyps(1) _ closing_sample_hyps(3) udp_ping_hyps(4) _ _ _ last_ack_frame(1)
          last_ack_frame(2) [folded me] _ _ closing_sample_hyps(4)])
      (use udp_ping_hyps(8,9) in \<open>simp_all add: closing_sample_hyps(2,5) n me [symmetric]\<close>)
  note R = ar [unfolded arrived_def]
  have F: "field A 34 20 = field (last_ack @ ?pad) 34 20" "field16 A 34 = 0x8813" "field16 A 36 = 0x901F" "field32 A 38 = 0xE8030000"
    "field32 A 42 = 0xD1070000" "field16 A 46 = 0x1050" "field16 A 48 = 8"
    using prefix_fields [OF pre] R last_ack_frame(4-9) by (simp_all add: last_ack_def)
  note H = hA [unfolded ip_packet_def]
  let ?d3 = "d2\<lparr>pm := win (rx_mem closing_sample ks) (pool_addr q) 54 0 (host_order A)\<rparr>"
  have l: "length A = 1500" using R by simp
  have c: "TCPH_FLAGS 0x1050 = 0x10" "TCPH_HDRLEN 0x1050 = 5"
    by (simp_all add: TCPH_FLAGS_def TCPH_HDRLEN_def ntohs_def htons_def)
  have x: "in_tcphdr (segment_of (pool_addr q) 0 A) = Some (PData (pool_addr q), 34)" "in_p (segment_of (pool_addr q) 0 A) = Some (pool_addr q)"
    "in_seqno (segment_of (pool_addr q) 0 A) = 1000" "in_ackno (segment_of (pool_addr q) 0 A) = 2001"
    "in_flags (segment_of (pool_addr q) 0 A) = 0x10" "in_tcplen (segment_of (pool_addr q) 0 A) = 0"
    "recv_flags (segment_of (pool_addr q) 0 A) = 0" "recv_data (segment_of (pool_addr q) 0 A) = None"
    by (simp_all add: segment_of_def F c ntohl_def htonl_def)
  have "tcp_active_pcbs d2 = [9]" "tcp_tw_pcbs d2 = []" "tcp_bound_pcbs d2 = []" "tcp_mem d2 9 = Some closing_pcb" "tcp_input_pcb d2 = None"
    using R by (simp_all add: closing_sample_def echo_sample_def arp.extend_def)
  then obtain d' where d': "tcp_demux app_calls (segment_of (pool_addr q) 0 A) (pool_addr q)
      (IP4_ADDR 192 1 1 115, IP4_ADDR 192 1 1 168, 5000, 8080) ?d3 = Some d'" "tcp_active_pcbs d' = []" "tcp_tw_pcbs d' = [9]"
    using closing_ack [of ?d3 "rx_mem closing_sample ks" q "host_order A" "segment_of (pool_addr q) 0 A"] x l
    by (auto simp: host_order_fields F c ntohs_def htons_def)
  have nif: "nif d2 = nif closing_sample" using R by simp
  have u: "unicast (nif d2) (field32 A 30)"
    using H by (simp add: nif closing_sample_hyps(5) unicast_def IP4_ADDR_def htonl_def ip_addr_isbroadcast_def ip_addr_ismulticast_def dev_sample_def
        ip_addr_netcmp_def)
  have "tcp_input app_calls (pool_addr q) d2 = Some d'"
    using tcp_input_win [of d2 "rx_mem closing_sample ks" "pool_addr q" 0 A app_calls, OF _ _ _ _ u] p2 l H F c last_ack_frame(3) d'(1)
    by (simp add: ntohs_def htons_def)
  moreover have tp: "ptr_get16 (pm d2) (Some (PData (pool_addr q), 14)) 8 = Some (field16 A 22)"
    using win_ptr_get16 [of 14 8 A "rx_mem closing_sample ks" "pool_addr q" 14 40] l p2 by simp
  ultimately have "ip_deliver app_upper (pool_addr q) d2 = Some d'"
    using H R p2 by (simp add: ip_deliver_def raw_input_def Let_def app_upper_def)
  then show ?thesis using run d'(2,3) by auto
qed

theorem frame_follows_diagram_witness:
  "\<exists>e d'. ethernetif_input app_upper closing_sample = Some (e, d') \<and> tcp_active_pcbs d' = [] \<and> tcp_tw_pcbs d' = [9] \<and>
     tstep\<^sup>*\<^sup>* (table_of closing_sample) (table_of d')"
proof -
  obtain e d' where d': "ethernetif_input app_upper closing_sample = Some (e, d')" "tcp_active_pcbs d' = []" "tcp_tw_pcbs d' = [9]"
    using closing_runs by blast
  have "conns_ok (table_of closing_sample)"
    unfolding closing_sample_hyps(6) conns_ok_def start_table_def by (auto simp: memp_init_eq)
  from frame_follows_diagram [OF this d'(1)] show ?thesis using d' by blast
qed

text \<open>A connection that has been in TIME-WAIT for more than 240 ticks is freed.\<close>

definition waiting :: app where
  "waiting = (echo_sample [])\<lparr>tcp_tw_pcbs := [9], tcp_ticks := 300,
     tcp_mem := [9 \<mapsto> (new_tcp_pcb 1 1)\<lparr>tstate := TIME_WAIT\<rparr>],
     pm := (pm (echo_sample []))\<lparr>pools := (pools (pm (echo_sample [])))(MEMP_TCP_PCB := rev [0..<9])\<rparr>\<rparr>"

lemma waiting_table: "table_of waiting = start_table\<lparr>tws := [9], states := (\<lambda>_. None)(9 \<mapsto> TIME_WAIT), free_pcbs := rev [0..<9]\<rparr>"
  using sample_table [of "[]"] by (auto simp: waiting_def table_of_def start_table_def fun_eq_iff)

lemma waiting_ok: "conns_ok (table_of waiting)"
  unfolding waiting_table conns_ok_def start_table_def by (auto simp: memp_init_eq)

theorem tick_follows_diagram_witness:
  "\<exists>d'. LwIP_Periodic_Handle app_calls 250 waiting = Some d' \<and> tcp_tw_pcbs d' = [] \<and>
     tstep\<^sup>*\<^sup>* (table_of waiting) (table_of d')"
proof -
  have w: "tcp_active_pcbs waiting = []" "tcp_tw_pcbs waiting = [9]" "tcp_timer waiting = 0" "tcp_ticks waiting = 300" "TCPTimer waiting = 0"
    "ARPTimer waiting = 0" "tcp_mem waiting = [9 \<mapsto> (new_tcp_pcb 1 1)\<lparr>tstate := TIME_WAIT\<rparr>]"
    by (simp_all add: waiting_def echo_sample_def arp.extend_def arp_init_def dev.extend_def)
  have "\<exists>d'. LwIP_Periodic_Handle app_calls 250 waiting = Some d' \<and> tcp_tw_pcbs d' = []"
    by (simp add: LwIP_Periodic_Handle_def tcp_tmr_def tcp_fasttmr_def first_pcb_def fast_loop.simps slow_active.simps tcp_slowtmr_def
        w Let_def tcp_pcb_purge_def free_tcp_pcb_def new_tcp_pcb_def)
  then obtain d' where d': "LwIP_Periodic_Handle app_calls 250 waiting = Some d'" "tcp_tw_pcbs d' = []" by blast
  show ?thesis using tick_follows_diagram [OF waiting_ok d'(1)] d' by blast
qed

end
