(* ===== verification/Tcp_Write.thy ===== *)
theory Tcp_Write
  imports Image
begin

text \<open>
  A write that fails: what was allocated for it is given back and the connection stays as it was.
\<close>

interpretation sg: other_pools "\<lambda>pl. pl MEMP_TCP_SEG"
  by unfold_locales (auto simp: memp_free_def memp_malloc_def split: option.splits list.splits)

lemmas pbuf_seg_pool = keeps

declare pbuf_seg_pool [keeps del]

definition free_segs :: "pmem \<Rightarrow> nat multiset" where
  "free_segs st = mset (pools st MEMP_TCP_SEG)"

abbreviation elems :: "tcp_seg list \<Rightarrow> nat multiset" where
  "elems q \<equiv> mset (map seg_elem q)"

text \<open>The rules for the packet memory, without those for the pools of control blocks.\<close>

lemma upd_flags_seg_pool:
  assumes "\<And>st'. pools st' MEMP_TCP_SEG = pools st MEMP_TCP_SEG \<Longrightarrow> P st'"
  shows "ensures (upd_flags f h st) P"
proof -
  note pbuf_tcp_pools [wp del]
  show ?thesis unfolding upd_flags_def by (auto intro!: wp pbuf_seg_pool assms)
qed

lemma seg_copy_segs:
  assumes "\<And>st'. pools st' MEMP_TCP_SEG = pools st MEMP_TCP_SEG \<Longrightarrow> P (Inl (s, st'))"
    and "\<And>s' k st'. pools st' MEMP_TCP_SEG = pools st MEMP_TCP_SEG \<Longrightarrow> seg_elem s' = seg_elem s \<Longrightarrow> P (Inr (s', k, st'))"
  shows "ensures (seg_copy q n ol s k st) P"
proof -
  note pbuf_tcp_pools [wp del]
  show ?thesis unfolding seg_copy_def by (auto simp: Let_def intro!: wp pbuf_seg_pool assms)
qed

lemma seg_refer_segs:
  assumes "\<And>st'. pools st' MEMP_TCP_SEG = pools st MEMP_TCP_SEG \<Longrightarrow> P (Inl (s, st'))"
    and "\<And>s' k st'. pools st' MEMP_TCP_SEG = pools st MEMP_TCP_SEG \<Longrightarrow> seg_elem s' = seg_elem s \<Longrightarrow> P (Inr (s', k, st'))"
  shows "ensures (seg_refer q l n ol s k st) P"
proof -
  note pbuf_tcp_pools [wp del]
  show ?thesis unfolding seg_refer_def by (auto simp: Let_def intro!: wp pbuf_seg_pool assms)
qed

lemma seg_header_segs: "(\<And>st'. pools st' MEMP_TCP_SEG = pools st MEMP_TCP_SEG \<Longrightarrow> P st') \<Longrightarrow> ensures (seg_header u sq fl ol h st) P"
proof -
  assume P: "\<And>st'. pools st' MEMP_TCP_SEG = pools st MEMP_TCP_SEG \<Longrightarrow> P st'"
  note pbuf_tcp_pools [wp del] upd_flags_tcp_pools [wp del]
  show ?thesis unfolding seg_header_def by (auto simp: Let_def intro!: wp pbuf_seg_pool upd_flags_seg_pool P)
qed

lemma make_seg_segs:
  assumes "\<And>q st'. free_segs st' + elems q = free_segs st \<Longrightarrow> P (Inl (q, st'))"
    and "\<And>s k st'. free_segs st' + {#seg_elem s#} = free_segs st \<Longrightarrow> P (Inr (s, k, st'))"
  shows "ensures (make_seg u q l n sq k fl ap os ol st) P"
proof (cases "pools st MEMP_TCP_SEG")
  case Nil
  then show ?thesis by (simp add: make_seg_def memp_malloc_def) (rule assms(1), simp add: free_segs_def)
next
  case (Cons e r)
  note pbuf_tcp_pools [wp del] seg_copy_tcp_pools [wp del] seg_refer_tcp_pools [wp del] seg_header_tcp_pools [wp del]
  show ?thesis
    unfolding make_seg_def
    by (auto simp: memp_malloc_def Cons Let_def free_segs_def intro!: wp pbuf_seg_pool seg_copy_segs seg_refer_segs seg_header_segs assms
        ensures_read [where m = "segp s" for s])
qed

lemma seg_loop_segs:
  assumes "seg_loop u p l n sq k fl ap os ol queue st = Some r"
  shows "case r of Inl (q, st') \<Rightarrow> free_segs st' + elems q = free_segs st + elems queue
    | Inr (q, _, _, st') \<Rightarrow> q \<noteq> [] \<and> free_segs st' + elems q = free_segs st + elems queue"
proof (rule seg_loop.raw_induct [OF _ assms], goal_cases)
  case (1 loop u p l n sq k fl ap os ol queue st r)
  define Q where "Q = (\<lambda>r. case r of Inl (q, st') \<Rightarrow> free_segs st' + elems q = free_segs st + elems queue
    | Inr (q, _ :: u16, _ :: u16, st') \<Rightarrow> q \<noteq> [] \<and> free_segs st' + elems q = free_segs st + elems queue)"
  have lp: "ensures (loop u p l n sq k fl ap os ol qs st') Q" if "qs = queue @ [s]" "free_segs st' + {#seg_elem s#} = free_segs st"
    for u p l n sq k fl ap os ol s qs st'
  proof (rule ensuresI)
    fix r assume "loop u p l n sq k fl ap os ol qs st' = Some r"
    from 1(1) [OF this] that show "Q r" by (auto simp: Q_def ac_simps split: sum.splits)
  qed
  have fin: "Q (Inl (queue @ q, st'))" if "free_segs st' + elems q = free_segs st" for q st'
    using that by (auto simp: Q_def ac_simps)
  have "Q r"
  proof (rule ensuresD [OF _ 1(2)], rule ensures_if)
    show "ensures (do {
        let room = int (unat (mss u)) - int (unat ol);
        let seglen = (if room < int (unat l) then of_int room else l);
        r \<leftarrow> make_seg u p l seglen sq k fl ap os ol st;
        (case r of
           Inl (s, st) \<Rightarrow> Some (Inl (queue @ s, st))
         | Inr (s, queuelen, st) \<Rightarrow>
             loop u (ptr_add p (int (unat seglen))) (l - seglen) seglen (sq + ucast seglen) queuelen fl ap os ol (queue @ [s]) st)
      }) Q"
      unfolding Let_def ensures_simps
      by (rule make_seg_segs; simp only: sum.case prod.case ensures_simps) (erule fin, erule lp [OF refl])
    show "\<not> (queue = [] \<or> 0 < l) \<Longrightarrow> ensures (Some (Inr (queue, n, k, st))) Q" by (simp add: Q_def)
  qed
  then show ?case unfolding Q_def .
qed

lemma join_unsent_segs:
  assumes "queue \<noteq> []" "\<And>q st'. free_segs st' + elems q = free_segs st + elems queue \<Longrightarrow> P (Inl (q, st'))"
    and "\<And>x. P (Inr x)"
  shows "ensures (join_unsent u fl ol queue n k st) P"
proof -
  obtain q0 qs where queue: "queue = q0 # qs" using assms(1) by (cases queue) auto
  note pbuf_tcp_pools [wp del]
  have concat: "ensures (concat_seg l q0 ol k st) Q"
    if "\<And>st'. pools st' MEMP_TCP_SEG = pools st MEMP_TCP_SEG \<Longrightarrow> Q (Inl (q0, st'))" "\<And>x. Q (Inr x)" for l Q
    unfolding concat_seg_def by (auto intro!: wp pbuf_seg_pool that ensures_read [where m = "segp s" for s])
  note concat_seg_tcp_pools [wp del]
  show ?thesis
    unfolding join_unsent_def
    by (auto simp: Let_def free_segs_def queue intro!: wp concat assms(2,3) split: sum.split)
qed

lemma tcp_segs_free_segs:
  fixes d :: "'a tcp_scheme"
  assumes "tcp_segs_free ss d = Some (n, d')"
  shows "free_segs (pm d') = free_segs (pm d) + elems ss \<and> tcp_mem d' = tcp_mem d"
  using assms
proof (induction ss arbitrary: d n)
  case (Cons s ss)
  note pbuf_tcp_pools [wp del]
  have "ensures (tcp_seg_free s d) (\<lambda>(_, d1). free_segs (pm d1) = free_segs (pm d) + {#seg_elem s#} \<and> tcp_mem d1 = tcp_mem d)"
    unfolding tcp_seg_free_def by (auto simp: free_segs_def memp_free_def intro!: wp pbuf_seg_pool)
  then show ?case using Cons by (fastforce simp: bind_eq_Some_conv ensures_def ac_simps)
qed simp

lemma tcp_enqueue_error:
  fixes d :: "'a tcp_scheme"
  assumes run: "tcp_enqueue i q n fl ap os d = Some (e, d')" and e: "e \<noteq> ERR_OK" and u: "tcp_mem d i = Some u"
  shows "(\<exists>f \<in> {tflags u, tflags u OR TF_NAGLEMEMERR}. tcp_mem d' = (tcp_mem d)(i \<mapsto> u\<lparr>tflags := f\<rparr>)) \<and>
    free_segs (pm d') = free_segs (pm d)"
proof -
  define Q :: "err_t \<times> 'a tcp_scheme \<Rightarrow> bool" where "Q = (\<lambda>(e, d'). e \<noteq> ERR_OK \<longrightarrow> (\<exists>f \<in> {tflags u, tflags u OR TF_NAGLEMEMERR}. tcp_mem d' = (tcp_mem d)(i \<mapsto> u\<lparr>tflags := f\<rparr>)) \<and>
    free_segs (pm d') = free_segs (pm d))"
  have same: "(tcp_mem d)(i \<mapsto> u\<lparr>tflags := tflags u\<rparr>) = tcp_mem d" using u by (auto simp: fun_upd_idem)
  have fail: "ensures (do {
             d \<leftarrow> upd_tcp i (\<lambda>u. u\<lparr>tflags := tflags u OR TF_NAGLEMEMERR\<rparr>) (d\<lparr>pm := st\<rparr>);
             (_, d) \<leftarrow> tcp_segs_free queue d;
             Some (ERR_MEM, d)
           }) Q" if "free_segs st + elems queue = free_segs (pm d)" for queue st
    using u that by (auto simp: upd_tcp_def Q_def ensures_def bind_eq_Some_conv dest!: tcp_segs_free_segs)
  have join: "ensures (join_unsent u fl ol queue n k st) (\<lambda>r. case r of Inl (q, st') \<Rightarrow> free_segs st' + elems q = free_segs (pm d) | _ \<Rightarrow> True)"
    if "queue \<noteq> []" "free_segs st + elems queue = free_segs (pm d)" for ol queue n k st
    using that by (intro join_unsent_segs) auto
  have segs: "ensures (do {
        r \<leftarrow> seg_loop u q n 0 (snd_lbb u) (snd_queuelen u) fl ap os ol [] (pm d);
        (case r of
               Inl e \<Rightarrow> Some (Inl e)
             | Inr (queue, seglen, queuelen, st) \<Rightarrow> join_unsent u fl ol queue seglen queuelen st)
      }) (\<lambda>r. case r of Inl (q, st') \<Rightarrow> free_segs st' + elems q = free_segs (pm d) | _ \<Rightarrow> True)" for ol
    unfolding ensures_simps
    by (rule ensuresI, drule seg_loop_segs) (auto simp del: mset_map intro!: join split: sum.splits)
  have rest: "ensures (seg_loop u q n 0 (snd_lbb u) (snd_queuelen u) fl ap os ol [] (pm d)) (\<lambda>r. ensures (case r of
               Inl e \<Rightarrow> Some (Inl e)
             | Inr (queue, seglen, queuelen, st) \<Rightarrow> join_unsent u fl ol queue seglen queuelen st) (\<lambda>r. ensures (K r) Q))"
    if "\<And>queue st. free_segs st + elems queue = free_segs (pm d) \<Longrightarrow> ensures (K (Inl (queue, st))) Q" "\<And>x. ensures (K (Inr x)) Q"
    for ol K
    by (rule ensures_mono [OF segs [unfolded ensures_simps]], erule ensures_mono) (use that in \<open>auto simp del: mset_map split: sum.splits\<close>)
  have ok: "Q (ERR_OK, x)" for x by (simp add: Q_def)
  note upd_tcp_table [wp del] upd_flags_tcp_pools [wp del]
  have "Q (e, d')"
  proof (rule ensuresD [OF _ run])
    show "ensures (tcp_enqueue i q n fl ap os d) Q"
      unfolding tcp_enqueue_def u Let_def Option.bind.bind_lunit
    proof (intro ensures_if)
      show "ensures (Some (ERR_ARG, d)) Q" "ensures (Some (ERR_ARG, d)) Q" using same by (auto simp: Q_def)
      show "ensures (do { d \<leftarrow> upd_tcp i (\<lambda>u. u\<lparr>tflags := tflags u OR TF_NAGLEMEMERR\<rparr>) d; Some (ERR_MEM, d) }) Q"
        using u by (auto simp: Q_def upd_tcp_def)
      show "ensures (do {
        r \<leftarrow> seg_loop u q n 0 (snd_lbb u) (snd_queuelen u) fl ap os (OPT_LENGTH os) [] (pm d);
        r \<leftarrow> (case r of
               Inl e \<Rightarrow> Some (Inl e)
             | Inr (queue, seglen, queuelen, st) \<Rightarrow> join_unsent u fl (OPT_LENGTH os) queue seglen queuelen st);
        (case r of
           Inl (queue, st) \<Rightarrow> do {
             d \<leftarrow> upd_tcp i (\<lambda>u. u\<lparr>tflags := tflags u OR TF_NAGLEMEMERR\<rparr>) (d\<lparr>pm := st\<rparr>);
             (_, d) \<leftarrow> tcp_segs_free queue d;
             Some (ERR_MEM, d)
           }
         | Inr (q, s, seglen, queuelen, st) \<Rightarrow> do {
             d \<leftarrow> upd_tcp i (\<lambda>u. u\<lparr>unsent := q, tflags := (if fl AND TCP_FIN \<noteq> 0 then tflags u OR TF_FIN else tflags u),
               snd_lbb := snd_lbb u + ucast (if fl AND TCP_SYN \<noteq> 0 \<or> fl AND TCP_FIN \<noteq> 0 then n + 1 else n),
               snd_buf := snd_buf u - (if fl AND TCP_SYN \<noteq> 0 \<or> fl AND TCP_FIN \<noteq> 0 then n + 1 else n), snd_queuelen := queuelen\<rparr>) (d\<lparr>pm := st\<rparr>);
             st \<leftarrow> (if 0 < seglen \<and> seg_tcphdr s \<noteq> None \<and> ap AND TCP_WRITE_FLAG_MORE = 0
                   then upd_flags (TCPH_SET_FLAG TCP_PSH) (seg_tcphdr s) (pm d) else Some (pm d));
             Some (ERR_OK, d\<lparr>pm := st\<rparr>)
           })
      }) Q"
        unfolding ensures_simps
        by (rule rest) (simp only: sum.case prod.case, erule fail, auto simp: ok intro!: wp ensures_read [where m = "upd_tcp i f d" for f d]
            ensures_read [where m = "upd_flags f h st" for f h st])
    qed
  qed
  then show ?thesis using e by (simp add: Q_def)
qed

text \<open>
  C31. A \<open>tcp_write\<close> that returns an error (no buffer space, a full queue, no segment or packet buffer left at any point, a
  wrong state) leaves the connection as it was before the call: its control block is the same up to the flag
  \<open>TF_NAGLEMEMERR\<close>, so that the queues, sequence numbers and window accounts are untouched, every other control block
  is the same, the lists are the same, and every segment structure taken on the way is back in its pool.
\<close>
theorem tcp_write_error:
  fixes d :: "'a tcp_scheme"
  assumes "tcp_write i q n ap d = Some (e, d')" and "e \<noteq> ERR_OK" and "tcp_mem d i = Some u"
  shows "(\<exists>f \<in> {tflags u, tflags u OR TF_NAGLEMEMERR}. tcp_mem d' = (tcp_mem d)(i \<mapsto> u\<lparr>tflags := f\<rparr>)) \<and>
    mset (pools (pm d') MEMP_TCP_SEG) = mset (pools (pm d) MEMP_TCP_SEG) \<and> table_of d' = table_of d"
proof -
  have same: "(tcp_mem d)(i \<mapsto> u\<lparr>tflags := tflags u\<rparr>) = tcp_mem d" using assms(3) by (auto simp: fun_upd_idem)
  have "(\<exists>f \<in> {tflags u, tflags u OR TF_NAGLEMEMERR}. tcp_mem d' = (tcp_mem d)(i \<mapsto> u\<lparr>tflags := f\<rparr>)) \<and> free_segs (pm d') = free_segs (pm d)"
    using assms same by (auto simp: tcp_write_def split: if_splits dest!: tcp_enqueue_error)
  moreover have "table_of (snd (e, d')) = table_of d"
    by (rule ensuresD [OF tcp_write_table assms(1)]) simp
  ultimately show ?thesis by (simp add: free_segs_def)
qed

text \<open>An established connection when no segment structure is left.\<close>

definition no_segs :: app where
  "no_segs = (echo_sample [])\<lparr>tcp_active_pcbs := [9], tcp_mem := [9 \<mapsto> (new_tcp_pcb 1 1)\<lparr>tstate := ESTABLISHED\<rparr>],
     pm := (pm (echo_sample []))\<lparr>pools := (pools (pm (echo_sample [])))(MEMP_TCP_PCB := rev [0..<9], MEMP_TCP_SEG := [])\<rparr>\<rparr>"

theorem tcp_write_error_witness:
  "\<exists>d' u. tcp_write 9 (Some (Ext 1, 0)) 100 TCP_WRITE_FLAG_COPY no_segs = Some (ERR_MEM, d') \<and>
     tcp_mem d' 9 = Some u \<and> snd_buf u = TCP_SND_BUF \<and> unsent u = [] \<and> tcp_active_pcbs d' = [9]"
proof -
  have m: "tcp_mem no_segs 9 = Some ((new_tcp_pcb 1 1)\<lparr>tstate := ESTABLISHED\<rparr>)" "pools (pm no_segs) MEMP_TCP_SEG = []"
    "tcp_active_pcbs no_segs = [9]"
    by (simp_all add: no_segs_def)
  have "\<exists>d'. tcp_write 9 (Some (Ext 1, 0)) 100 TCP_WRITE_FLAG_COPY no_segs = Some (ERR_MEM, d')"
    by (simp add: tcp_write_def tcp_enqueue_def m new_tcp_pcb_def seg_loop.simps make_seg_def memp_malloc_def upd_tcp_def Let_def)
  then obtain d' where d': "tcp_write 9 (Some (Ext 1, 0)) 100 TCP_WRITE_FLAG_COPY no_segs = Some (ERR_MEM, d')" by blast
  have t: "tcp_active_pcbs d' = [9]" if "table_of d' = table_of no_segs" using that m(3) by (simp add: table_of_fields)
  show ?thesis
    using tcp_write_error [OF d' _ m(1)] d' t by (auto simp: new_tcp_pcb_def)
qed

end
