(* ===== verification/Asn1.thy ===== *)
theory Asn1
  imports Header
begin

text \<open>
  \<open>core/snmp/asn1_enc.c\<close> and \<open>core/snmp/asn1_dec.c\<close>: ASN.1 BER in pbuf chains.  Every function walks the
  chain to an offset (\<open>asn1_seek\<close>) and then moves from octet to octet (\<open>asn1_next\<close>), into the next pbuf where one
  ends.  \<open>octet_ptr\<close> holds the local variables \<open>p\<close>, \<open>msg_ptr\<close>, \<open>plen\<close> and \<open>ofs\<close>.  Out parameters are
  passed in with what the caller left in them and returned.  Signed values are words read with \<open>sint\<close>; shifts of
  them are arithmetic, as the compiler of the board does them.  \<open>None\<close> is an access outside a live object
  or a result that C leaves undefined.
\<close>

subsection \<open>Walking the chain\<close>

record octet_ptr =
  op_pbuf :: addr
  msg_ptr :: "(region \<times> int) option"
  op_plen :: u16
  op_ofs :: u16

partial_function (option) asn1_seek :: "addr option \<Rightarrow> u16 \<Rightarrow> u16 \<Rightarrow> pmem \<Rightarrow> octet_ptr option option" where
  "asn1_seek p ofs plen st =
     (case p of
        None \<Rightarrow> Some None
      | Some a \<Rightarrow>
          (case pbufs st a of
             None \<Rightarrow> None
           | Some b \<Rightarrow>
               (let base = plen; plen = plen + len b
                in if ofs < plen
                   then Some (Some \<lparr>op_pbuf = a, msg_ptr = ptr_add (payload b) (uint ofs - uint base),
                     op_plen = plen, op_ofs = ofs\<rparr>)
                   else asn1_seek (nextp b) ofs plen st)))"

definition asn1_next :: "octet_ptr \<Rightarrow> pmem \<Rightarrow> octet_ptr option option" where
  "asn1_next c st =
     (let c = c\<lparr>op_ofs := op_ofs c + 1\<rparr>
      in if op_plen c \<le> op_ofs c
         then do {
           b \<leftarrow> pbufs st (op_pbuf c);
           (case nextp b of
              None \<Rightarrow> Some None
            | Some a \<Rightarrow> do {
                b \<leftarrow> pbufs st a;
                Some (Some (c\<lparr>op_pbuf := a, msg_ptr := payload b, op_plen := op_plen c + len b\<rparr>))
              })
         }
         else Some (Some (c\<lparr>msg_ptr := ptr_add (msg_ptr c) 1\<rparr>)))"

definition get_octet :: "octet_ptr \<Rightarrow> pmem \<Rightarrow> u8 option" where
  "get_octet c st = map_option hd (read_at st (msg_ptr c) 1)"

definition put_octet :: "octet_ptr \<Rightarrow> u8 \<Rightarrow> pmem \<Rightarrow> pmem option" where
  "put_octet c v st = write_at st (msg_ptr c) [v]"

subsection \<open>How many octets\<close>

definition snmp_asn1_enc_length_cnt :: "u16 \<Rightarrow> u8" where
  "snmp_asn1_enc_length_cnt l = (if l < 0x80 then 1 else if l < 0x100 then 2 else 3)"

definition snmp_asn1_enc_u32t_cnt :: "u32 \<Rightarrow> u16" where
  "snmp_asn1_enc_u32t_cnt value =
     (if value < 0x80 then 1 else if value < 0x8000 then 2 else if value < 0x800000 then 3
      else if value < 0x80000000 then 4 else 5)"

definition snmp_asn1_enc_s32t_cnt :: "u32 \<Rightarrow> u16" where
  "snmp_asn1_enc_s32t_cnt value =
     (let value = (if sint value < 0 then NOT value else value)
      in if sint value < 0x80 then 1 else if sint value < 0x8000 then 2 else if sint value < 0x800000 then 3 else 4)"

function sub_id_cnt :: "u32 \<Rightarrow> u8 \<Rightarrow> u8" where
  "sub_id_cnt sub_id cnt = (if 0 < sint sub_id then sub_id_cnt (signed_drop_bit 7 sub_id) (cnt + 1) else cnt)"
  by auto

termination
proof (relation "measure (\<lambda>(x, _). nat (sint x))")
  fix x :: u32 and cnt :: u8
  assume x: "0 < sint x"
  have "sint (signed_drop_bit 7 x :: u32) = sint x div 128" by (simp add: sint_signed_drop_bit_eq drop_bit_eq_div)
  then show "((signed_drop_bit 7 x, cnt + 1), (x, cnt)) \<in> measure (\<lambda>(x, _). nat (sint x))"
    using x by (simp add: int_div_less_self)
qed simp

declare sub_id_cnt.simps [simp del]

fun oid_cnt_loop :: "u32 list \<Rightarrow> u8 \<Rightarrow> u8" where
  "oid_cnt_loop [] cnt = cnt"
| "oid_cnt_loop (x # ident) cnt = oid_cnt_loop ident (sub_id_cnt (signed_drop_bit 7 x) (cnt + 1))"

text \<open>\<open>ident\<close> is the array the pointer points to; the loop reads its elements 2 to \<open>ident_len - 1\<close>.\<close>

definition snmp_asn1_enc_oid_cnt :: "u8 \<Rightarrow> u32 list \<Rightarrow> u16 option" where
  "snmp_asn1_enc_oid_cnt ident_len ident =
     (if List.length ident < unat ident_len then None
      else if 1 < ident_len then Some (ucast (oid_cnt_loop (drop 2 (take (unat ident_len) ident)) 1))
      else Some (ucast (oid_cnt_loop (take (unat ident_len) ident) 0)))"

subsection \<open>Encoding\<close>

definition snmp_asn1_enc_type :: "addr option \<Rightarrow> u16 \<Rightarrow> u8 \<Rightarrow> pmem \<Rightarrow> (err_t \<times> pmem) option" where
  "snmp_asn1_enc_type p ofs type st = do {
     c \<leftarrow> asn1_seek p ofs 0 st;
     (case c of
        None \<Rightarrow> Some (ERR_ARG, st)
      | Some c \<Rightarrow> do { st \<leftarrow> put_octet c type st; Some (ERR_OK, st) })
   }"

definition snmp_asn1_enc_length :: "addr option \<Rightarrow> u16 \<Rightarrow> u16 \<Rightarrow> pmem \<Rightarrow> (err_t \<times> pmem) option" where
  "snmp_asn1_enc_length p ofs l st = do {
     c \<leftarrow> asn1_seek p ofs 0 st;
     (case c of
        None \<Rightarrow> Some (ERR_ARG, st)
      | Some c \<Rightarrow>
          if l < 0x80 then do { st \<leftarrow> put_octet c (ucast l) st; Some (ERR_OK, st) }
          else if l < 0x100 then do {
            st \<leftarrow> put_octet c 0x81 st;
            c \<leftarrow> asn1_next c st;
            (case c of
               None \<Rightarrow> Some (ERR_ARG, st)
             | Some c \<Rightarrow> do { st \<leftarrow> put_octet c (ucast l) st; Some (ERR_OK, st) })
          }
          else do {
            st \<leftarrow> put_octet c 0x82 st;
            c \<leftarrow> asn1_next c st;
            (case c of
               None \<Rightarrow> Some (ERR_ARG, st)
             | Some c \<Rightarrow> do {
                 st \<leftarrow> put_octet c (ucast (drop_bit 8 l)) st;
                 c \<leftarrow> asn1_next c st;
                 (case c of
                    None \<Rightarrow> Some (ERR_ARG, st)
                  | Some c \<Rightarrow> do { st \<leftarrow> put_octet c (ucast l) st; Some (ERR_OK, st) })
               })
          })
   }"

text \<open>
  The loops \<open>while (octets_needed > 1)\<close>: the number counts the octets after the present one.  A shift by 32 bits or
  more is undefined.
\<close>

primrec enc_u32t_loop :: "nat \<Rightarrow> u32 \<Rightarrow> octet_ptr \<Rightarrow> pmem \<Rightarrow> (err_t \<times> pmem) option" where
  "enc_u32t_loop 0 value c st = do { st \<leftarrow> put_octet c (ucast value) st; Some (ERR_OK, st) }"
| "enc_u32t_loop (Suc n) value c st =
     (if 32 \<le> 8 * Suc n then None
      else do {
        st \<leftarrow> put_octet c (ucast (drop_bit (8 * Suc n) value)) st;
        c \<leftarrow> asn1_next c st;
        (case c of None \<Rightarrow> Some (ERR_ARG, st) | Some c \<Rightarrow> enc_u32t_loop n value c st)
      })"

definition snmp_asn1_enc_u32t :: "addr option \<Rightarrow> u16 \<Rightarrow> u8 \<Rightarrow> u32 \<Rightarrow> pmem \<Rightarrow> (err_t \<times> pmem) option" where
  "snmp_asn1_enc_u32t p ofs octets_needed value st = do {
     c \<leftarrow> asn1_seek p ofs 0 st;
     (case c of
        None \<Rightarrow> Some (ERR_ARG, st)
      | Some c \<Rightarrow>
          if octets_needed = 5 then do {
            st \<leftarrow> put_octet c 0 st;
            c \<leftarrow> asn1_next c st;
            (case c of None \<Rightarrow> Some (ERR_ARG, st) | Some c \<Rightarrow> enc_u32t_loop 3 value c st)
          }
          else enc_u32t_loop (unat octets_needed - 1) value c st)
   }"

primrec enc_s32t_loop :: "nat \<Rightarrow> u32 \<Rightarrow> octet_ptr \<Rightarrow> pmem \<Rightarrow> (err_t \<times> pmem) option" where
  "enc_s32t_loop 0 value c st = do { st \<leftarrow> put_octet c (ucast value) st; Some (ERR_OK, st) }"
| "enc_s32t_loop (Suc n) value c st =
     (if 32 \<le> 8 * Suc n then None
      else do {
        st \<leftarrow> put_octet c (ucast (signed_drop_bit (8 * Suc n) value)) st;
        c \<leftarrow> asn1_next c st;
        (case c of None \<Rightarrow> Some (ERR_ARG, st) | Some c \<Rightarrow> enc_s32t_loop n value c st)
      })"

definition snmp_asn1_enc_s32t :: "addr option \<Rightarrow> u16 \<Rightarrow> u8 \<Rightarrow> u32 \<Rightarrow> pmem \<Rightarrow> (err_t \<times> pmem) option" where
  "snmp_asn1_enc_s32t p ofs octets_needed value st = do {
     c \<leftarrow> asn1_seek p ofs 0 st;
     (case c of
        None \<Rightarrow> Some (ERR_ARG, st)
      | Some c \<Rightarrow> enc_s32t_loop (unat octets_needed - 1) value c st)
   }"

text \<open>
  One sub-identifier in groups of seven bits from the shift \<open>7 * n\<close> down; leading zero groups are left out.  The
  result is where the last octet was written, or nothing when the chain ended.
\<close>

primrec enc_sub_id :: "nat \<Rightarrow> u32 \<Rightarrow> bool \<Rightarrow> octet_ptr \<Rightarrow> pmem \<Rightarrow> (octet_ptr option \<times> pmem) option" where
  "enc_sub_id 0 sub_id tail c st = do { st \<leftarrow> put_octet c (ucast sub_id AND 0x7F) st; Some (Some c, st) }"
| "enc_sub_id (Suc n) sub_id tail c st =
     (let code = ucast (signed_drop_bit (7 * Suc n) sub_id) :: u8
      in if code \<noteq> 0 \<or> tail
         then do {
           st \<leftarrow> put_octet c (code OR 0x80) st;
           c \<leftarrow> asn1_next c st;
           (case c of None \<Rightarrow> Some (None, st) | Some c \<Rightarrow> enc_sub_id n sub_id True c st)
         }
         else enc_sub_id n sub_id tail c st)"

text \<open>\<open>n\<close> sub-identifiers of the array \<open>ident\<close> are left.\<close>

primrec enc_oid_loop :: "nat \<Rightarrow> u32 list \<Rightarrow> octet_ptr \<Rightarrow> pmem \<Rightarrow> (err_t \<times> pmem) option" where
  "enc_oid_loop 0 ident c st = Some (ERR_OK, st)"
| "enc_oid_loop (Suc n) ident c st =
     (case ident of
        [] \<Rightarrow> None
      | sub_id # ident \<Rightarrow> do {
          (c, st) \<leftarrow> enc_sub_id 4 sub_id False c st;
          (case c of
             None \<Rightarrow> Some (ERR_ARG, st)
           | Some c \<Rightarrow>
               if 0 < n then do {
                 c \<leftarrow> asn1_next c st;
                 (case c of None \<Rightarrow> Some (ERR_ARG, st) | Some c \<Rightarrow> enc_oid_loop n ident c st)
               }
               else Some (ERR_OK, st))
        })"

text \<open>\<open>(ident[0] * 40) + ident[1]\<close> must not overflow.\<close>

definition oid_prefix :: "u32 list \<Rightarrow> u8 option" where
  "oid_prefix ident =
     (if List.length ident < 2 then None
      else if ident ! 0 = 1 \<and> ident ! 1 = 3 then Some 0x2b
      else (let m = sint (ident ! 0) * 40; v = m + sint (ident ! 1)
            in if m \<in> {- (2 ^ 31) ..< 2 ^ 31} \<and> v \<in> {- (2 ^ 31) ..< 2 ^ 31} then Some (word_of_int v) else None))"

definition snmp_asn1_enc_oid :: "addr option \<Rightarrow> u16 \<Rightarrow> u8 \<Rightarrow> u32 list \<Rightarrow> pmem \<Rightarrow> (err_t \<times> pmem) option" where
  "snmp_asn1_enc_oid p ofs ident_len ident st = do {
     c \<leftarrow> asn1_seek p ofs 0 st;
     (case c of
        None \<Rightarrow> Some (ERR_ARG, st)
      | Some c \<Rightarrow>
          if 1 < ident_len
          then do {
            prefix \<leftarrow> oid_prefix ident;
            st \<leftarrow> put_octet c prefix st;
            c \<leftarrow> asn1_next c st;
            (case c of
               None \<Rightarrow> Some (ERR_ARG, st)
             | Some c \<Rightarrow> enc_oid_loop (unat ident_len - 2) (drop 2 ident) c st)
          }
          else Some (ERR_ARG, st))
   }"

primrec enc_raw_loop :: "nat \<Rightarrow> u8 list \<Rightarrow> octet_ptr \<Rightarrow> pmem \<Rightarrow> (err_t \<times> pmem) option" where
  "enc_raw_loop 0 raw c st = Some (ERR_OK, st)"
| "enc_raw_loop (Suc n) raw c st =
     (case raw of
        [] \<Rightarrow> None
      | r # raw \<Rightarrow> do {
          st \<leftarrow> put_octet c r st;
          (if 0 < n then do {
             c \<leftarrow> asn1_next c st;
             (case c of None \<Rightarrow> Some (ERR_ARG, st) | Some c \<Rightarrow> enc_raw_loop n raw c st)
           }
           else Some (ERR_OK, st))
        })"

definition snmp_asn1_enc_raw :: "addr option \<Rightarrow> u16 \<Rightarrow> u8 \<Rightarrow> u8 list \<Rightarrow> pmem \<Rightarrow> (err_t \<times> pmem) option" where
  "snmp_asn1_enc_raw p ofs raw_len raw st = do {
     c \<leftarrow> asn1_seek p ofs 0 st;
     (case c of
        None \<Rightarrow> Some (ERR_ARG, st)
      | Some c \<Rightarrow> enc_raw_loop (unat raw_len) raw c st)
   }"

subsection \<open>Decoding\<close>

definition snmp_asn1_dec_type :: "addr option \<Rightarrow> u16 \<Rightarrow> u8 \<Rightarrow> pmem \<Rightarrow> (err_t \<times> u8) option" where
  "snmp_asn1_dec_type p ofs type st = do {
     c \<leftarrow> asn1_seek p ofs 0 st;
     (case c of
        None \<Rightarrow> Some (ERR_ARG, type)
      | Some c \<Rightarrow> do { type \<leftarrow> get_octet c st; Some (ERR_OK, type) })
   }"

text \<open>
  The indefinite form: the two nested loops read one octet a turn, counting them, until two zeros have come in a
  row.
\<close>

partial_function (option) dec_zeros :: "u8 \<Rightarrow> u16 \<Rightarrow> octet_ptr \<Rightarrow> pmem \<Rightarrow> (err_t \<times> u16) option" where
  "dec_zeros zeros l c st =
     (if zeros = 2 then Some (ERR_OK, l)
      else do {
        let l = l + 1;
        c \<leftarrow> asn1_next c st;
        (case c of
           None \<Rightarrow> Some (ERR_ARG, l)
         | Some c \<Rightarrow> do { m \<leftarrow> get_octet c st; dec_zeros (if m = 0 then zeros + 1 else 0) l c st })
      })"

text \<open>The results are the error code, \<open>*octets_used\<close> and \<open>*length\<close>.\<close>

definition snmp_asn1_dec_length ::
    "addr option \<Rightarrow> u16 \<Rightarrow> u8 \<Rightarrow> u16 \<Rightarrow> pmem \<Rightarrow> (err_t \<times> u8 \<times> u16) option" where
  "snmp_asn1_dec_length p ofs octets l st = do {
     c \<leftarrow> asn1_seek p ofs 0 st;
     (case c of
        None \<Rightarrow> Some (ERR_ARG, octets, l)
      | Some c \<Rightarrow> do {
          m \<leftarrow> get_octet c st;
          (if m < 0x80 then Some (ERR_OK, 1, ucast m)
           else if m = 0x80 then do {
             (e, l) \<leftarrow> dec_zeros 0 0 c st;
             Some (e, if e = ERR_OK then 1 else octets, l)
           }
           else if m = 0x81 then do {
             c \<leftarrow> asn1_next c st;
             (case c of
                None \<Rightarrow> Some (ERR_ARG, octets, l)
              | Some c \<Rightarrow> do { m \<leftarrow> get_octet c st; Some (ERR_OK, 2, ucast m) })
           }
           else if m = 0x82 then do {
             c \<leftarrow> asn1_next c st;
             (case c of
                None \<Rightarrow> Some (ERR_ARG, octets, l)
              | Some c \<Rightarrow> do {
                  m \<leftarrow> get_octet c st;
                  let l = push_bit 8 (ucast m);
                  c \<leftarrow> asn1_next c st;
                  (case c of
                     None \<Rightarrow> Some (ERR_ARG, octets, l)
                   | Some c \<Rightarrow> do { m \<leftarrow> get_octet c st; Some (ERR_OK, 3, l OR ucast m) })
                })
           }
           else Some (ERR_ARG, 1 + (m AND 0x7f), l))
        })
   }"

text \<open>The loop \<open>while (len > 1)\<close>: \<open>n\<close> octets follow the present one.\<close>

primrec dec_u32t_loop :: "nat \<Rightarrow> u32 \<Rightarrow> octet_ptr \<Rightarrow> pmem \<Rightarrow> (err_t \<times> u32) option" where
  "dec_u32t_loop 0 value c st = do { m \<leftarrow> get_octet c st; Some (ERR_OK, value OR ucast m) }"
| "dec_u32t_loop (Suc n) value c st = do {
     m \<leftarrow> get_octet c st;
     let value = push_bit 8 (value OR ucast m);
     c \<leftarrow> asn1_next c st;
     (case c of None \<Rightarrow> Some (ERR_ARG, value) | Some c \<Rightarrow> dec_u32t_loop n value c st)
   }"

definition snmp_asn1_dec_u32t :: "addr option \<Rightarrow> u16 \<Rightarrow> u16 \<Rightarrow> u32 \<Rightarrow> pmem \<Rightarrow> (err_t \<times> u32) option" where
  "snmp_asn1_dec_u32t p ofs l value st = do {
     c \<leftarrow> asn1_seek p ofs 0 st;
     (case c of
        None \<Rightarrow> Some (ERR_ARG, value)
      | Some c \<Rightarrow>
          if 0 < l \<and> l < 6
          then do {
            m \<leftarrow> get_octet c st;
            (if m AND 0x80 \<noteq> 0 then Some (ERR_ARG, 0)
             else if 1 < l \<and> m = 0 then do {
               c \<leftarrow> asn1_next c st;
               (case c of
                  None \<Rightarrow> Some (ERR_ARG, 0)
                | Some c \<Rightarrow> dec_u32t_loop (unat l - 2) 0 c st)
             }
             else dec_u32t_loop (unat l - 1) 0 c st)
          }
          else Some (ERR_ARG, value))
   }"

text \<open>\<open>*lsb_ptr &= m\<close>, \<open>*lsb_ptr |= m\<close>: the low byte of the value on the little-endian CPU.\<close>

definition lsb_and :: "u32 \<Rightarrow> u8 \<Rightarrow> u32" where
  "lsb_and v m = v AND (NOT 0xFF OR ucast m)"

definition lsb_or :: "u32 \<Rightarrow> u8 \<Rightarrow> u32" where
  "lsb_or v m = v OR ucast m"

primrec dec_s32t_loop :: "nat \<Rightarrow> bool \<Rightarrow> u32 \<Rightarrow> octet_ptr \<Rightarrow> pmem \<Rightarrow> (err_t \<times> u32) option" where
  "dec_s32t_loop 0 sign value c st = do {
     m \<leftarrow> get_octet c st;
     Some (ERR_OK, if sign then lsb_and value m else lsb_or value m)
   }"
| "dec_s32t_loop (Suc n) sign value c st = do {
     m \<leftarrow> get_octet c st;
     let value = (if sign then lsb_or (push_bit 8 (lsb_and value m)) 255 else push_bit 8 (lsb_or value m));
     c \<leftarrow> asn1_next c st;
     (case c of None \<Rightarrow> Some (ERR_ARG, value) | Some c \<Rightarrow> dec_s32t_loop n sign value c st)
   }"

definition snmp_asn1_dec_s32t :: "addr option \<Rightarrow> u16 \<Rightarrow> u16 \<Rightarrow> u32 \<Rightarrow> pmem \<Rightarrow> (err_t \<times> u32) option" where
  "snmp_asn1_dec_s32t p ofs l value st = do {
     c \<leftarrow> asn1_seek p ofs 0 st;
     (case c of
        None \<Rightarrow> Some (ERR_ARG, value)
      | Some c \<Rightarrow>
          if 0 < l \<and> l < 5
          then do {
            m \<leftarrow> get_octet c st;
            let sign = (m AND 0x80 \<noteq> 0);
            dec_s32t_loop (unat l - 1) sign (if sign then - 1 else 0) c st
          }
          else Some (ERR_ARG, value))
   }"

definition LWIP_SNMP_OBJ_ID_LEN :: u8 where "LWIP_SNMP_OBJ_ID_LEN = 32"

record snmp_obj_id =
  oid_len :: u8
  oid_id :: "u32 list"

text \<open>
  The octets of one sub-identifier that have bit 7 set, except the last of the \<open>n + 1\<close> octets of the field: the
  value so far and the octets left.
\<close>

primrec dec_sub_id :: "nat \<Rightarrow> u32 \<Rightarrow> octet_ptr \<Rightarrow> pmem \<Rightarrow> (octet_ptr option \<times> u32 \<times> nat) option" where
  "dec_sub_id 0 sub_id c st = Some (Some c, sub_id, 1)"
| "dec_sub_id (Suc n) sub_id c st = do {
     m \<leftarrow> get_octet c st;
     (if m AND 0x80 \<noteq> 0
      then do {
        let sub_id = push_bit 7 sub_id + ucast (m AND 0x7F);
        c \<leftarrow> asn1_next c st;
        (case c of None \<Rightarrow> Some (None, sub_id, Suc n) | Some c \<Rightarrow> dec_sub_id n sub_id c st)
      }
      else Some (Some c, sub_id, Suc (Suc n)))
   }"

text \<open>\<open>oid_ptr\<close> is \<open>&oid->id[oid->len]\<close> throughout the loop.\<close>

definition set_id :: "u32 \<Rightarrow> snmp_obj_id \<Rightarrow> snmp_obj_id" where
  "set_id v oid = oid\<lparr>oid_id := (oid_id oid)[unat (oid_len oid) := v]\<rparr>"

partial_function (option) dec_oid_loop :: "nat \<Rightarrow> snmp_obj_id \<Rightarrow> octet_ptr \<Rightarrow> pmem \<Rightarrow> (err_t \<times> snmp_obj_id) option" where
  "dec_oid_loop l oid c st =
     (if 0 < l \<and> oid_len oid < LWIP_SNMP_OBJ_ID_LEN
      then do {
        m \<leftarrow> get_octet c st;
        (c, l, oid) \<leftarrow>
          (if m AND 0x80 \<noteq> 0
           then do {
             (c, sub_id, l) \<leftarrow> dec_sub_id (l - 1) 0 c st;
             (case c of
                None \<Rightarrow> Some (None, l, oid)
              | Some c \<Rightarrow> do {
                  m \<leftarrow> get_octet c st;
                  Some (if m AND 0x80 = 0 \<and> 0 < l
                        then (Some c, l - 1, set_id (push_bit 7 sub_id + ucast m) oid)
                        else (Some c, l, oid))
                })
           }
           else Some (Some c, l - 1, set_id (ucast m) oid));
        (case c of
           None \<Rightarrow> Some (ERR_ARG, oid)
         | Some c \<Rightarrow> do {
             c \<leftarrow> (if 0 < l then asn1_next c st else Some (Some c));
             (case c of
                None \<Rightarrow> Some (ERR_ARG, oid)
              | Some c \<Rightarrow> dec_oid_loop l (oid\<lparr>oid_len := oid_len oid + 1\<rparr>) c st)
           })
      }
      else Some (if l = 0 then ERR_OK else ERR_ARG, oid))"

definition dec_oid_prefix :: "u8 \<Rightarrow> u32 list" where
  "dec_oid_prefix m =
     (if m = 0x2B then [1, 3] else if m < 40 then [0, ucast m] else if m < 80 then [1, ucast m - 40]
      else [2, ucast m - 80])"

definition snmp_asn1_dec_oid ::
    "addr option \<Rightarrow> u16 \<Rightarrow> u16 \<Rightarrow> snmp_obj_id \<Rightarrow> pmem \<Rightarrow> (err_t \<times> snmp_obj_id) option" where
  "snmp_asn1_dec_oid p ofs l oid st = do {
     c \<leftarrow> asn1_seek p ofs 0 st;
     (case c of
        None \<Rightarrow> Some (ERR_ARG, oid)
      | Some c \<Rightarrow>
          if 0 < l
          then do {
            m \<leftarrow> get_octet c st;
            let oid = \<lparr>oid_len = 2, oid_id = dec_oid_prefix m @ drop 2 (oid_id oid)\<rparr>;
            let l = unat l - 1;
            c \<leftarrow> (if 0 < l then asn1_next c st else Some (Some c));
            (case c of None \<Rightarrow> Some (ERR_ARG, oid) | Some c \<Rightarrow> dec_oid_loop l oid c st)
          }
          else Some (ERR_OK, oid\<lparr>oid_len := 0\<rparr>))
   }"

text \<open>\<open>n\<close> octets follow the present one; \<open>k\<close> is where \<open>raw\<close> has got to.\<close>

primrec dec_raw_loop :: "nat \<Rightarrow> nat \<Rightarrow> u8 list \<Rightarrow> octet_ptr \<Rightarrow> pmem \<Rightarrow> (err_t \<times> u8 list) option" where
  "dec_raw_loop 0 k raw c st = do {
     m \<leftarrow> get_octet c st;
     (if k < List.length raw then Some (ERR_OK, raw[k := m]) else None)
   }"
| "dec_raw_loop (Suc n) k raw c st = do {
     m \<leftarrow> get_octet c st;
     (if k < List.length raw
      then do {
        c \<leftarrow> asn1_next c st;
        (case c of
           None \<Rightarrow> Some (ERR_ARG, raw[k := m])
         | Some c \<Rightarrow> dec_raw_loop n (Suc k) (raw[k := m]) c st)
      }
      else None)
   }"

definition snmp_asn1_dec_raw ::
    "addr option \<Rightarrow> u16 \<Rightarrow> u16 \<Rightarrow> u16 \<Rightarrow> u8 list \<Rightarrow> pmem \<Rightarrow> (err_t \<times> u8 list) option" where
  "snmp_asn1_dec_raw p ofs l raw_len raw st =
     (if 0 < l
      then do {
        c \<leftarrow> asn1_seek p ofs 0 st;
        (case c of
           None \<Rightarrow> Some (ERR_ARG, raw)
         | Some c \<Rightarrow> if l \<le> raw_len then dec_raw_loop (unat l - 1) 0 raw c st else Some (ERR_ARG, raw))
      }
      else Some (ERR_OK, raw))"

end
