(* ===== verification/Asn1_Props.thy ===== *)
theory Asn1_Props
  imports Asn1
begin

text \<open>
  ASN.1 round trips.  \<open>octets st p xs B\<close>: the chain at \<open>p\<close> holds the octets \<open>B\<close> and can be written;
  \<open>at_octet xs k c\<close>: the pointer \<open>c\<close> is at octet \<open>k\<close>.  Seeking, stepping, reading and writing are lemmas over
  these two, and what a routine does is read off its loop.
\<close>

subsection \<open>A pointer into a chain\<close>

definition octets :: "pmem \<Rightarrow> addr option \<Rightarrow> (addr \<times> pbuf) list \<Rightarrow> u8 list \<Rightarrow> bool" where
  "octets st p xs B \<longleftrightarrow> packet st p xs \<and> owned xs \<and> fulls xs \<and> packet_bytes st xs = B"

definition at_octet :: "(addr \<times> pbuf) list \<Rightarrow> nat \<Rightarrow> octet_ptr \<Rightarrow> bool" where
  "at_octet xs k c \<longleftrightarrow> (\<exists>ys b zs. xs = ys @ (op_pbuf c, b) # zs \<and> lens ys \<le> k \<and> k < lens ys + unat (len b) \<and>
     msg_ptr c = ptr_add (payload b) (int (k - lens ys)) \<and> unat (op_plen c) = lens ys + unat (len b) \<and>
     unat (op_ofs c) = k)"

lemma at_octetI:
  "xs = ys @ (op_pbuf c, b) # zs \<Longrightarrow> lens ys \<le> k \<Longrightarrow> k < lens ys + unat (len b) \<Longrightarrow>
   msg_ptr c = ptr_add (payload b) (int (k - lens ys)) \<Longrightarrow> unat (op_plen c) = lens ys + unat (len b) \<Longrightarrow>
   unat (op_ofs c) = k \<Longrightarrow> at_octet xs k c"
  unfolding at_octet_def by blast

lemma ptr_add_add: "ptr_add (ptr_add p i) j = ptr_add p (i + j)"
  by (cases p) (auto simp: ptr_add_def)

lemma packet_append: "packet st p (ys @ (a, b) # zs) \<Longrightarrow> pbufs st a = Some b \<and> packet st (nextp b) zs \<and>
    read_at st (payload b) (unat (len b)) \<noteq> None"
  by (induction ys arbitrary: p) auto

lemma packet_lens: "packet st p xs \<Longrightarrow> lens xs < 65536"
  using unat_u16_lt by (cases xs) (auto simp: packet_def, metis unat_u16_lt)

lemma octets_length: "octets st p xs B \<Longrightarrow> length B = lens xs"
  by (auto simp: octets_def packet_bytes_length)

lemma asn1_seek_chain:
  "packet st q zs \<Longrightarrow> xs = ys @ zs \<Longrightarrow> lens xs < 65536 \<Longrightarrow> unat plen = lens ys \<Longrightarrow> lens ys \<le> unat ofs \<Longrightarrow>
   asn1_seek q ofs plen st = Some None \<and> lens xs \<le> unat ofs \<or>
   unat ofs < lens xs \<and> (\<exists>c. asn1_seek q ofs plen st = Some (Some c) \<and> at_octet xs (unat ofs) c)"
proof (induction zs arbitrary: q ys plen)
  case Nil
  then show ?case by (subst asn1_seek.simps) simp
next
  case (Cons z zs)
  obtain a b where z: "z = (a, b)" by (cases z)
  have q: "q = Some a" "pbufs st a = Some b" "packet st (nextp b) zs" using Cons.prems(1) z by auto
  have plen: "unat (plen + len b) = lens ys + unat (len b)"
  proof -
    have "lens ys + unat (len b) < 65536" using Cons.prems(2,3) unfolding z by (simp only: lens_simps snd_conv)
    then show ?thesis using unat_plus_small [of plen "len b"] Cons.prems(4) by simp
  qed
  show ?case
  proof (cases "ofs < plen + len b")
    case True
    then have lt: "unat ofs < lens ys + unat (len b)" by (simp add: word_less_nat_alt plen)
    let ?c = "\<lparr>op_pbuf = a, msg_ptr = ptr_add (payload b) (uint ofs - uint plen), op_plen = plen + len b, op_ofs = ofs\<rparr>"
    have d: "uint ofs - uint plen = int (unat ofs - lens ys)"
      using Cons.prems(5) unfolding Cons.prems(4) [symmetric] by (simp only: uint_nat of_nat_diff)
    have "at_octet xs (unat ofs) ?c"
      using Cons.prems(5) lt plen
      by (intro at_octetI [of _ ys _ b zs]) (simp_all only: octet_ptr.simps d Cons.prems(2) z)
    then show ?thesis using q True lt Cons.prems(2) z by (subst asn1_seek.simps) (auto simp: Let_def)
  next
    case False
    then have le: "lens ys + unat (len b) \<le> unat ofs" by (simp add: not_less word_le_nat_alt plen)
    have "asn1_seek q ofs plen st = asn1_seek (nextp b) ofs (plen + len b) st"
      using q False by (subst asn1_seek.simps) (simp add: Let_def)
    moreover have "asn1_seek (nextp b) ofs (plen + len b) st = Some None \<and> lens xs \<le> unat ofs \<or>
        unat ofs < lens xs \<and> (\<exists>c. asn1_seek (nextp b) ofs (plen + len b) st = Some (Some c) \<and> at_octet xs (unat ofs) c)"
      by (rule Cons.IH [OF q(3), of "ys @ [z]"]) (use Cons.prems(2,3) z plen le in auto)
    ultimately show ?thesis by simp
  qed
qed

lemma asn1_seek_at:
  assumes "octets st p xs B" "unat ofs < length B"
  obtains c where "asn1_seek p ofs 0 st = Some (Some c)" "at_octet xs (unat ofs) c"
  using asn1_seek_chain [of st p xs xs "[]" 0 ofs] assms packet_lens octets_length [OF assms(1)]
  by (auto simp: octets_def)

lemma asn1_seek_end: "octets st p xs B \<Longrightarrow> length B \<le> unat ofs \<Longrightarrow> asn1_seek p ofs 0 st = Some None"
  using asn1_seek_chain [of st p xs xs "[]" 0 ofs] packet_lens octets_length [of st p xs B]
  by (auto simp: octets_def)

lemma at_octet_next:
  assumes "octets st p xs B" "at_octet xs k c"
  shows "if Suc k < length B then \<exists>c'. asn1_next c st = Some (Some c') \<and> at_octet xs (Suc k) c'
    else asn1_next c st = Some None"
proof -
  obtain ys b zs where c: "xs = ys @ (op_pbuf c, b) # zs" "lens ys \<le> k" "k < lens ys + unat (len b)"
    "msg_ptr c = ptr_add (payload b) (int (k - lens ys))" "unat (op_plen c) = lens ys + unat (len b)"
    "unat (op_ofs c) = k" using assms(2) unfolding at_octet_def by blast
  have p: "packet st p xs" "fulls xs" and B: "length B = lens xs" "lens xs < 65536"
    using assms(1) octets_length packet_lens by (auto simp: octets_def)
  note pb = packet_append [OF p(1) [unfolded c(1)]]
  have ofs: "unat (op_ofs c + 1) = Suc k" using c B by (subst unat_plus_small) simp_all
  show ?thesis
  proof (cases "Suc k < lens ys + unat (len b)")
    case True
    then have "\<not> op_plen c \<le> op_ofs c + 1" by (simp add: word_le_nat_alt ofs c(5))
    moreover have "at_octet xs (Suc k) (c\<lparr>op_ofs := op_ofs c + 1, msg_ptr := ptr_add (msg_ptr c) 1\<rparr>)"
      using c(1-5) True ofs
      by (intro at_octetI [of _ ys _ b zs]) (simp_all add: ptr_add_add Suc_diff_le add.commute)
    ultimately show ?thesis using True B c(1) by (auto simp: asn1_next_def Let_def)
  next
    case False
    then have k: "Suc k = lens ys + unat (len b)" using c(3) by simp
    then have le: "op_plen c \<le> op_ofs c + 1" by (simp add: word_le_nat_alt ofs c(5))
    show ?thesis
    proof (cases zs)
      case Nil
      then show ?thesis using le k pb B c(1) by (simp add: asn1_next_def Let_def)
    next
      case (Cons z zs')
      obtain a' b' where z: "z = (a', b')" by (cases z)
      have n: "nextp b = Some a'" "pbufs st a' = Some b'" using pb Cons z by auto
      have f: "0 < unat (len b')" using p(2) c(1) Cons z by auto
      let ?c = "c\<lparr>op_ofs := op_ofs c + 1, op_pbuf := a', msg_ptr := payload b', op_plen := op_plen c + len b'\<rparr>"
      have pl: "unat (op_plen c + len b') = lens ys + unat (len b) + unat (len b')"
        using c(1,5) B(2) Cons z by (subst unat_plus_small) simp_all
      have "at_octet xs (Suc k) ?c"
        using c(1) Cons z k f pl ofs by (intro at_octetI [of _ "ys @ [(op_pbuf c, b)]" _ b' zs']) simp_all
      moreover have "asn1_next c st = Some (Some ?c)"
        using le pb n by (simp add: asn1_next_def Let_def)
      moreover have "Suc k < length B" using B(1) c(1) Cons z k f by simp
      ultimately show ?thesis by auto
    qed
  qed
qed

lemma packet_prefix: "packet st p (ys @ zs) \<Longrightarrow> length (packet_bytes st ys) = lens ys"
  by (induction ys arbitrary: p) (auto simp: pbuf_bytes_length)

lemma at_octetE:
  assumes "at_octet xs k c"
  obtains ys b zs j where "xs = ys @ (op_pbuf c, b) # zs" "k = lens ys + j" "j < unat (len b)"
    "msg_ptr c = ptr_add (payload b) (int j)"
proof -
  obtain ys b zs where c: "xs = ys @ (op_pbuf c, b) # zs" "lens ys \<le> k" "k < lens ys + unat (len b)"
    "msg_ptr c = ptr_add (payload b) (int (k - lens ys))" using assms unfolding at_octet_def by blast
  then show thesis using that [of ys b zs "k - lens ys"] by simp
qed

lemma at_octet_get:
  assumes "octets st p xs B" "at_octet xs k c"
  shows "get_octet c st = Some (B ! k)"
proof -
  obtain ys b zs j where c: "xs = ys @ (op_pbuf c, b) # zs" "k = lens ys + j" "j < unat (len b)"
    "msg_ptr c = ptr_add (payload b) (int j)" by (rule at_octetE [OF assms(2)])
  have p: "packet st p (ys @ (op_pbuf c, b) # zs)" and B: "B = packet_bytes st ys @ pbuf_bytes st b @ packet_bytes st zs"
    using assms(1) c(1) by (auto simp: octets_def)
  obtain d where d: "read_at st (payload b) (unat (len b)) = Some d" using packet_append [OF p] by auto
  then have ld: "pbuf_bytes st b = d" "length d = unat (len b)" by (simp_all add: pbuf_bytes_def read_at_length)
  have "read_at st (msg_ptr c) 1 = Some (take 1 (drop j d))"
    unfolding c(4) using c(2,3) by (intro read_at_part [OF d]) simp
  moreover have "hd (take 1 (drop j d)) = d ! j"
    using c(2,3) ld by (simp add: hd_drop_conv_nth)
  moreover have "B ! k = d ! j"
    unfolding B using packet_prefix [OF p] c(2,3) ld by (simp add: nth_append)
  ultimately show ?thesis by (simp add: get_octet_def)
qed

lemma at_octet_put:
  assumes "octets st p xs B" "at_octet xs k c"
  obtains st' where "put_octet c v st = Some st'" "writes_only (areas xs) st st'" "octets st' p xs (B[k := v])"
proof -
  obtain ys b zs j where c: "xs = ys @ (op_pbuf c, b) # zs" "k = lens ys + j" "j < unat (len b)"
    "msg_ptr c = ptr_add (payload b) (int j)" by (rule at_octetE [OF assms(2)])
  let ?a = "op_pbuf c"
  have p: "packet st p (ys @ (?a, b) # zs)" and o: "owned (ys @ (?a, b) # zs)"
    and B: "B = packet_bytes st ys @ pbuf_bytes st b @ packet_bytes st zs"
    using assms(1) c(1) by (auto simp: octets_def)
  obtain i where i: "payload b = Some (PData ?a, i)" using o by (auto simp: owned_def)
  note rd = packet_append [OF p]
  have lb: "length (pbuf_bytes st b) = unat (len b)" using rd by (simp add: pbuf_bytes_length)
  obtain st' where st': "write_at st (msg_ptr c) [v] = Some st'" "writes_only {PData ?a} st st'"
    "pbuf_bytes st' b = take j (pbuf_bytes st b) @ [v] @ drop (Suc j) (pbuf_bytes st b)"
    using write_pbuf [of st b ?a i j "[v]"] rd i c(2,3,4) by auto
  have dj: "distinct (map fst (ys @ (?a, b) # zs))" using p by (simp add: packet_def)
  have ys: "packet_bytes st' ys = packet_bytes st ys" and zs: "packet_bytes st' zs = packet_bytes st zs"
    using dj o by (intro owned_bytes [OF st'(2)]; force simp: owned_def areas_def)+
  have w: "writes_only (areas xs) st st'" using st'(2) by (rule writes_only_mono) (auto simp: c(1) areas_def)
  have "packet_bytes st' xs = B[k := v]"
    unfolding c(1) packet_bytes_simps snd_conv ys zs st'(3) B using packet_prefix [OF p] c(2,3) lb
    by (simp add: list_update_append upd_conv_take_nth_drop)
  then have "octets st' p xs (B[k := v])"
    using assms(1) writes_only_packet [OF w] by (simp add: octets_def)
  then show thesis using that st'(1) w by (simp add: put_octet_def)
qed

subsection \<open>Writing octets one after the other\<close>

text \<open>What the loops of the encoders have in common; the pointer stays at the last octet written.\<close>

fun put_octets :: "u8 list \<Rightarrow> octet_ptr \<Rightarrow> pmem \<Rightarrow> (octet_ptr option \<times> pmem) option" where
  "put_octets [] c st = None"
| "put_octets [v] c st = do { st \<leftarrow> put_octet c v st; Some (Some c, st) }"
| "put_octets (v # vs) c st = do {
     st \<leftarrow> put_octet c v st;
     c \<leftarrow> asn1_next c st;
     (case c of None \<Rightarrow> Some (None, st) | Some c \<Rightarrow> put_octets vs c st)
   }"

definition closed :: "(octet_ptr option \<times> pmem) option \<Rightarrow> (err_t \<times> pmem) option" where
  "closed r = map_option (\<lambda>(c, st). (if c = None then ERR_ARG else ERR_OK, st)) r"

lemma splice_Cons: "k < length B \<Longrightarrow> splice k (v # vs) B = splice (Suc k) vs (B[k := v])"
  by (simp add: splice_def upd_conv_take_nth_drop add.commute)

lemma splice_Nil [simp]: "splice k [] B = B"
  by (simp add: splice_def)

lemma put_octets_spec:
  "octets st p xs B \<Longrightarrow> at_octet xs k c \<Longrightarrow> vs \<noteq> [] \<Longrightarrow>
   \<exists>r st'. put_octets vs c st = Some (r, st') \<and> writes_only (areas xs) st st' \<and>
     octets st' p xs (splice k (take (length B - k) vs) B) \<and>
     (if k + length vs \<le> length B then \<exists>c'. r = Some c' \<and> at_octet xs (k + length vs - 1) c' else r = None)"
proof (induction vs arbitrary: st B k c)
  case (Cons v vs)
  have k: "k < length B" using Cons.prems(1,2) by (auto simp: octets_length at_octet_def)
  obtain st1 where st1: "put_octet c v st = Some st1" "writes_only (areas xs) st st1" "octets st1 p xs (B[k := v])"
    using at_octet_put [OF Cons.prems(1,2)] by blast
  have sp: "splice k (take (length B - k) (v # vs)) B = splice (Suc k) (take (length (B[k := v]) - Suc k) vs) (B[k := v])"
    using k by (cases "length B - k") (auto simp: splice_Cons Suc_diff_Suc intro: arg_cong)
  show ?case
  proof (cases vs)
    case Nil
    then show ?thesis using st1 k Cons.prems(2) sp by simp
  next
    case (Cons u us)
    note nx = at_octet_next [OF st1(3) Cons.prems(2)]
    show ?thesis
    proof (cases "Suc k < length B")
      case True
      then obtain c1 where c1: "asn1_next c st1 = Some (Some c1)" "at_octet xs (Suc k) c1" using nx by auto
      from Cons.IH [OF st1(3) c1(2)] Cons obtain r st2 where
        r: "put_octets vs c1 st1 = Some (r, st2)" "writes_only (areas xs) st1 st2"
        "octets st2 p xs (splice (Suc k) (take (length (B[k := v]) - Suc k) vs) (B[k := v]))"
        "if Suc k + length vs \<le> length B then \<exists>c'. r = Some c' \<and> at_octet xs (k + length vs) c' else r = None"
        by (auto split: if_splits)
      have "put_octets (v # vs) c st = Some (r, st2)" using Cons st1(1) c1(1) r(1) by simp
      then show ?thesis using r writes_only_trans [OF st1(2) r(2)] sp by (intro exI [of _ r] exI [of _ st2]) simp
    next
      case False
      then have "put_octets (v # vs) c st = Some (None, st1)" using Cons st1(1) nx by simp
      then show ?thesis using st1 False k sp Cons by simp
    qed
  qed
qed simp

lemma closed_put_octets_Cons: "vs \<noteq> [] \<Longrightarrow> closed (put_octets (v # vs) c st) = do {
     st \<leftarrow> put_octet c v st;
     c \<leftarrow> asn1_next c st;
     (case c of None \<Rightarrow> Some (ERR_ARG, st) | Some c \<Rightarrow> closed (put_octets vs c st))
   }"
  by (cases vs) (auto simp: closed_def split: Option.bind_splits option.splits)

text \<open>
  \<open>encodes st xs ofs n enc P\<close>: with room for \<open>n\<close> octets at \<open>ofs\<close> the encoder succeeds, changes these octets
  only, and establishes \<open>P\<close>; without, it reports \<open>ERR_ARG\<close>.
\<close>

definition encodes :: "pmem \<Rightarrow> (addr \<times> pbuf) list \<Rightarrow> u16 \<Rightarrow> nat \<Rightarrow> (pmem \<Rightarrow> (err_t \<times> pmem) option) \<Rightarrow> (pmem \<Rightarrow> bool) \<Rightarrow> bool" where
  "encodes st xs ofs n enc P \<longleftrightarrow>
     (if unat ofs + n \<le> lens xs
      then \<exists>st'. enc st = Some (ERR_OK, st') \<and> writes_only (areas xs) st st' \<and> P st' \<and>
        take (unat ofs) (packet_bytes st' xs) = take (unat ofs) (packet_bytes st xs) \<and>
        drop (unat ofs + n) (packet_bytes st' xs) = drop (unat ofs + n) (packet_bytes st xs)
      else \<exists>st'. enc st = Some (ERR_ARG, st') \<and> writes_only (areas xs) st st')"

lemma encodesI:
  assumes "octets st p xs B" "vs \<noteq> []" "length vs = n"
    and enc: "\<And>st. enc st = do {
      c \<leftarrow> asn1_seek p ofs 0 st;
      (case c of None \<Rightarrow> Some (ERR_ARG, st) | Some c \<Rightarrow> closed (put_octets vs c st))
    }"
    and P: "\<And>st'. octets st' p xs (splice (unat ofs) vs B) \<Longrightarrow> unat ofs + n \<le> length B \<Longrightarrow> P st'"
  shows "encodes st xs ofs n enc P"
proof (cases "unat ofs < length B")
  case True
  obtain c where c: "asn1_seek p ofs 0 st = Some (Some c)" "at_octet xs (unat ofs) c"
    by (rule asn1_seek_at [OF assms(1) True])
  from put_octets_spec [OF assms(1) c(2) assms(2)] obtain r st' where
    r: "put_octets vs c st = Some (r, st')" "writes_only (areas xs) st st'"
    "octets st' p xs (splice (unat ofs) (take (length B - unat ofs) vs) B)"
    "unat ofs + length vs \<le> length B \<longleftrightarrow> r \<noteq> None" by (auto split: if_splits)
  have B: "packet_bytes st xs = B" using assms(1) by (simp add: octets_def)
  show ?thesis
  proof (cases "unat ofs + n \<le> length B")
    case True
    then have o: "octets st' p xs (splice (unat ofs) vs B)" using r(3) assms(3) by simp
    have "enc st = Some (ERR_OK, st')" using r(1,4) c(1) True assms(3) by (simp add: enc closed_def)
    then show ?thesis using True P [OF o True] r(2) o assms(3) B octets_length [OF assms(1)]
      by (simp add: encodes_def octets_def splice_def)
  next
    case False
    then show ?thesis using r c(1) assms(3) octets_length [OF assms(1)] by (simp add: encodes_def enc closed_def)
  qed
next
  case False
  then show ?thesis
    using asn1_seek_end [OF assms(1)] octets_length [OF assms(1)] assms(2,3) by (cases vs) (auto simp: encodes_def enc)
qed

subsection \<open>Integers\<close>

text \<open>The low \<open>n + 1\<close> octets of a word, the highest first.\<close>

primrec be_octets :: "nat \<Rightarrow> u32 \<Rightarrow> u8 list" where
  "be_octets 0 v = [ucast v]"
| "be_octets (Suc n) v = ucast (drop_bit (8 * Suc n) v) # be_octets n v"

lemma be_octets_length [simp]: "length (be_octets n v) = Suc n"
  by (induction n) simp_all

lemma be_octets_not_Nil: "be_octets n v \<noteq> []"
  by (cases n) simp_all

lemma be_octets_hd: "be_octets n v = ucast (drop_bit (8 * n) v) # tl (be_octets n v)"
  by (cases n) simp_all

lemma enc_u32t_loop_octets: "n < 4 \<Longrightarrow> enc_u32t_loop n v c st = closed (put_octets (be_octets n v) c st)"
proof (induction n arbitrary: c st)
  case (Suc n)
  then show ?case
    by (subst be_octets_hd) (cases n; auto simp: closed_def bind_map_option option.map_comp split: option.splits Option.bind_splits)
qed (simp add: closed_def split: Option.bind_splits)

lemma enc_s32t_loop_eq: "enc_s32t_loop n v c st = enc_u32t_loop n v c st"
proof (induction n arbitrary: c st)
  case (Suc n)
  have "8 * Suc n < 32 \<Longrightarrow> (ucast (signed_drop_bit (8 * Suc n) v) :: u8) = ucast (drop_bit (8 * Suc n) v)"
    by (rule bit_word_eqI) (auto simp: bit_simps)
  then show ?case by (auto simp: Suc.IH split: Option.bind_splits option.splits)
qed simp

text \<open>The octets \<open>vs\<close> are at offset \<open>k\<close>.\<close>

definition reads :: "u8 list \<Rightarrow> nat \<Rightarrow> u8 list \<Rightarrow> bool" where
  "reads B k vs \<longleftrightarrow> k + length vs \<le> length B \<and> take (length vs) (drop k B) = vs"

lemma reads_Cons [simp]: "reads B k (v # vs) \<longleftrightarrow> k < length B \<and> B ! k = v \<and> reads B (Suc k) vs"
  by (cases "k < length B") (auto simp: reads_def simp flip: Cons_nth_drop_Suc)

lemma reads_splice: "k + length vs \<le> length B \<Longrightarrow> reads (splice k vs B) k vs"
  by (simp add: reads_def)

lemma reads_more: "reads B k vs \<Longrightarrow> vs \<noteq> [] \<Longrightarrow> k < length B"
  by (cases vs) (auto simp: reads_def)

lemma next_reads:
  assumes "octets st p xs B" "at_octet xs k c" "reads B (Suc k) vs" "vs \<noteq> []"
  obtains c' where "asn1_next c st = Some (Some c')" "at_octet xs (Suc k) c'"
  using at_octet_next [OF assms(1,2)] reads_more [OF assms(3,4)] by auto

lemma drop_bit_octet:
  "push_bit 8 (drop_bit (8 * Suc n) v) OR ucast (ucast (drop_bit (8 * n) v) :: u8) = drop_bit (8 * n) (v :: u32)"
  by (rule bit_word_eqI) (auto simp: bit_simps not_less intro!: arg_cong [of _ _ "bit v"])

lemma signed_drop_bit_octet:
  "push_bit 8 (signed_drop_bit (8 * Suc n) v) OR ucast (ucast (signed_drop_bit (8 * n) v) :: u8) =
   signed_drop_bit (8 * n) (v :: u32)"
  by (rule bit_word_eqI) (auto simp: bit_simps not_less intro!: arg_cong [of _ _ "bit v"])

lemma dec_u32t_loop_octets:
  "octets st p xs B \<Longrightarrow> at_octet xs k c \<Longrightarrow> reads B k (be_octets n v) \<Longrightarrow>
   dec_u32t_loop n (push_bit 8 (drop_bit (8 * Suc n) v)) c st = Some (ERR_OK, v)"
proof (induction n arbitrary: k c)
  case 0
  then show ?case using drop_bit_octet [of 0 v] at_octet_get [OF 0(1,2)] by simp
next
  case (Suc n)
  from Suc.prems(3) have B: "B ! k = ucast (drop_bit (8 * Suc n) v)" "reads B (Suc k) (be_octets n v)" by simp_all
  obtain c' where c': "asn1_next c st = Some (Some c')" "at_octet xs (Suc k) c'"
    using next_reads [OF Suc.prems(1,2) B(2)] be_octets_not_Nil by blast
  show ?case
    by (simp only: dec_u32t_loop.simps at_octet_get [OF Suc.prems(1,2)] B(1) Option.bind.simps Let_def drop_bit_octet
        c'(1) option.case Suc.IH [OF Suc.prems(1) c'(2) B(2)])
qed

text \<open>The running value of the signed decoder: the bits above are the value's, the octet below is to come.\<close>

definition above :: "nat \<Rightarrow> u32 \<Rightarrow> u32" where
  "above n v = (if sint v < 0 then push_bit 8 (signed_drop_bit (8 * Suc n) v) OR 255
     else push_bit 8 (signed_drop_bit (8 * Suc n) v))"

lemma lsb_above:
  "(if sint v < 0 then lsb_and (above n v) (ucast (signed_drop_bit (8 * n) v))
    else lsb_or (above n v) (ucast (signed_drop_bit (8 * n) v))) = signed_drop_bit (8 * n) v"
proof -
  have "(push_bit 8 x OR 255) AND (NOT 0xFF OR ucast m) = push_bit 8 x OR ucast m" for x :: u32 and m :: u8
  proof -
    have m: "(0xFF :: u32) = mask 8" by (simp add: mask_eq_exp_minus_1)
    show ?thesis unfolding m by (rule bit_word_eqI) (auto simp: bit_simps simp del: mask_numeral)
  qed
  then show ?thesis by (simp add: lsb_and_def lsb_or_def above_def signed_drop_bit_octet [simplified])
qed

lemma signed_octet: "n < 4 \<Longrightarrow> (ucast (drop_bit (8 * n) v) :: u8) = ucast (signed_drop_bit (8 * n) (v :: u32))"
  by (rule bit_word_eqI) (auto simp: bit_simps)

lemma above_next: "(if sint v < 0 then lsb_or (push_bit 8 (signed_drop_bit (8 * Suc n) v)) 255
    else push_bit 8 (signed_drop_bit (8 * Suc n) v)) = above n v"
proof -
  have "ucast (255 :: u8) = (255 :: u32)" by simp
  then show ?thesis by (simp add: above_def lsb_or_def)
qed

lemma dec_s32t_loop_octets:
  "octets st p xs B \<Longrightarrow> at_octet xs k c \<Longrightarrow> reads B k (be_octets n v) \<Longrightarrow> n < 4 \<Longrightarrow>
   dec_s32t_loop n (sint v < 0) (above n v) c st = Some (ERR_OK, v)"
proof (induction n arbitrary: k c)
  case 0
  then show ?case using lsb_above [of v 0] at_octet_get [OF 0(1,2)] by (simp split: if_splits)
next
  case (Suc n)
  from Suc.prems(3) have B: "B ! k = ucast (drop_bit (8 * Suc n) v)" "reads B (Suc k) (be_octets n v)" by simp_all
  obtain c' where c': "asn1_next c st = Some (Some c')" "at_octet xs (Suc k) c'"
    using next_reads [OF Suc.prems(1,2) B(2)] be_octets_not_Nil by blast
  have n: "n < 4" using Suc.prems(4) by simp
  have v: "(if sint v < 0 then lsb_or (push_bit 8 (lsb_and (above (Suc n) v) (B ! k))) 255
      else push_bit 8 (lsb_or (above (Suc n) v) (B ! k))) = above n v"
    using lsb_above [of v "Suc n"] above_next [of v n] unfolding B(1) signed_octet [OF Suc.prems(4)]
    by (cases "sint v < 0") (simp_all only: if_True if_False)
  show ?case
    by (simp only: dec_s32t_loop.simps at_octet_get [OF Suc.prems(1,2)] Option.bind.simps Let_def v
        c'(1) option.case Suc.IH [OF Suc.prems(1) c'(2) B(2) n])
qed

text \<open>How many octets a value takes is the least number that holds it with its sign.\<close>

lemma u32t_cnt: "snmp_asn1_enc_u32t_cnt v = 5 \<and> 2 ^ 31 \<le> unat v \<or>
    (\<exists>n < 4. snmp_asn1_enc_u32t_cnt v = of_nat (Suc n) \<and> unat v < 2 ^ (8 * n + 7))"
proof -
  have d: "(v < 0x80) = (unat v < 2 ^ 7)" "(v < 0x8000) = (unat v < 2 ^ 15)" "(v < 0x800000) = (unat v < 2 ^ 23)"
    "(v < 0x80000000) = (unat v < 2 ^ 31)" by (simp_all add: word_less_nat_alt)
  consider "unat v < 2 ^ 7" | "\<not> unat v < 2 ^ 7" "unat v < 2 ^ 15" | "\<not> unat v < 2 ^ 15" "unat v < 2 ^ 23"
    | "\<not> unat v < 2 ^ 23" "unat v < 2 ^ 31" | "2 ^ 31 \<le> unat v" by linarith
  then show ?thesis
  proof cases
    case 1
    then show ?thesis unfolding snmp_asn1_enc_u32t_cnt_def d by (intro disjI2 exI [of _ 0]) simp
  next
    case 2
    then show ?thesis unfolding snmp_asn1_enc_u32t_cnt_def d by (intro disjI2 exI [of _ 1]) simp
  next
    case 3
    then show ?thesis unfolding snmp_asn1_enc_u32t_cnt_def d by (intro disjI2 exI [of _ 2]) simp
  next
    case 4
    then show ?thesis unfolding snmp_asn1_enc_u32t_cnt_def d by (intro disjI2 exI [of _ 3]) simp
  qed (simp add: snmp_asn1_enc_u32t_cnt_def d)
qed

lemma s32t_cnt: "\<exists>n < 4. snmp_asn1_enc_s32t_cnt v = of_nat (Suc n) \<and> - (2 ^ (8 * n + 7)) \<le> sint v \<and> sint v < 2 ^ (8 * n + 7)"
proof -
  define y where "y = (if sint v < 0 then - sint v - 1 else sint v)"
  have b: "- (2 ^ 31) \<le> sint v" "sint v < 2 ^ 31" using sint_greater_eq [of v] sint_less [of v] by simp_all
  have "signed_take_bit 32 (NOT (sint v)) = NOT (sint v)"
    using b by (intro signed_take_bit_int_eq_self) (simp_all add: not_eq_complement)
  then have "sint (NOT v) = - sint v - 1"
    unfolding signed_not_eq by (simp add: not_eq_complement)
  then have y: "sint (if sint v < 0 then NOT v else v) = y" unfolding y_def by presburger
  have lt: "y < 2 ^ 31" using b by (simp add: y_def)
  have r: "y < 2 ^ k \<Longrightarrow> - (2 ^ k) \<le> sint v \<and> sint v < 2 ^ k" for k by (simp add: y_def split: if_splits)
  have c: "snmp_asn1_enc_s32t_cnt v = (if y < 2 ^ 7 then 1 else if y < 2 ^ 15 then 2 else if y < 2 ^ 23 then 3 else 4)"
    unfolding snmp_asn1_enc_s32t_cnt_def Let_def y by simp
  consider "y < 2 ^ 7" | "\<not> y < 2 ^ 7" "y < 2 ^ 15" | "\<not> y < 2 ^ 15" "y < 2 ^ 23" | "\<not> y < 2 ^ 23"
    using lt by linarith
  then show ?thesis
  proof cases
    case 1
    then show ?thesis using r [of 7] unfolding c by (intro exI [of _ 0]) simp
  next
    case 2
    then show ?thesis using r [of 15] unfolding c by (intro exI [of _ 1]) simp
  next
    case 3
    then show ?thesis using r [of 23] unfolding c by (intro exI [of _ 2]) simp
  next
    case 4
    then show ?thesis using r [OF lt] unfolding c by (intro exI [of _ 3]) simp
  qed
qed

lemma signed_drop_bit_high:
  assumes "- (2 ^ k) \<le> sint v" "sint v < 2 ^ k" "k \<le> m"
  shows "signed_drop_bit m v = (if sint v < 0 then - 1 else 0 :: u32)"
proof -
  have "(2 :: int) ^ k \<le> 2 ^ m" using assms(3) by simp
  then have r: "- (2 ^ m) \<le> sint v" "sint v < 2 ^ m" using assms(1,2) by linarith+
  have "sint v div 2 ^ m = (if sint v < 0 then - 1 else 0)"
  proof (cases "sint v < 0")
    case True
    then have "(sint v + 2 ^ m) div 2 ^ m = 0" using r by (intro div_pos_pos_trivial) auto
    moreover have "(sint v + 2 ^ m) div 2 ^ m = sint v div 2 ^ m + 1" by (rule div_add_self2) simp
    ultimately show ?thesis using True by simp
  next
    case False
    then show ?thesis using r by (simp add: div_pos_pos_trivial)
  qed
  then have "sint (signed_drop_bit m v) = sint (if sint v < 0 then - 1 else 0 :: u32)"
    by (simp add: sint_signed_drop_bit_eq drop_bit_eq_div)
  then show ?thesis by (simp only: signed_word_eqI)
qed

lemma sign_octet:
  assumes "- (2 ^ (8 * n + 7)) \<le> sint v" "sint v < 2 ^ (8 * n + 7)"
  shows "(ucast (signed_drop_bit (8 * n) (v :: u32)) :: u8) AND 0x80 \<noteq> 0 \<longleftrightarrow> sint v < 0"
proof -
  let ?m = "ucast (signed_drop_bit (8 * n) v) :: u8"
  have "?m AND 0x80 \<noteq> 0 \<longleftrightarrow> bit ?m 7" using and_exp_eq_0_iff_not_bit [of ?m 7] by simp
  also have "bit ?m 7 \<longleftrightarrow> bit (signed_drop_bit (8 * n + 7) v) 0"
    by (auto simp: bit_simps simp del: bit_0 intro!: arg_cong [of _ _ "bit v"])
  also have "bit (signed_drop_bit (8 * n + 7) v) 0 \<longleftrightarrow> sint v < 0"
    unfolding signed_drop_bit_high [OF assms order_refl] by simp
  finally show ?thesis .
qed

lemma unat_small: "n < 6 \<Longrightarrow> unat (of_nat n :: u16) = n" "n < 6 \<Longrightarrow> unat (ucast (of_nat n :: u16) :: u8) = n"
  by (simp_all add: unat_of_nat unsigned_ucast_eq take_bit_eq_mod)

lemma enc_u32t_roundtrip:
  assumes "octets st p xs B"
  shows "encodes st xs ofs (unat (snmp_asn1_enc_u32t_cnt v)) (snmp_asn1_enc_u32t p ofs (ucast (snmp_asn1_enc_u32t_cnt v)) v)
    (\<lambda>st'. snmp_asn1_dec_u32t p ofs (snmp_asn1_enc_u32t_cnt v) x st' = Some (ERR_OK, v))"
  using u32t_cnt [of v]
proof (elim disjE exE conjE)
  assume c: "snmp_asn1_enc_u32t_cnt v = 5"
  show ?thesis unfolding c
  proof (rule encodesI [OF assms, where vs = "0 # be_octets 3 v"])
    show "snmp_asn1_enc_u32t p ofs (ucast (5 :: u16)) v st = do {
        c \<leftarrow> asn1_seek p ofs 0 st;
        (case c of None \<Rightarrow> Some (ERR_ARG, st) | Some c \<Rightarrow> closed (put_octets (0 # be_octets 3 v) c st))
      }" for st
      by (simp add: snmp_asn1_enc_u32t_def enc_u32t_loop_octets closed_put_octets_Cons be_octets_not_Nil cong: option.case_cong)
    fix st' assume o: "octets st' p xs (splice (unat ofs) (0 # be_octets 3 v) B)" (is "octets _ _ _ ?B")
      and le: "unat ofs + unat (5 :: u16) \<le> length B"
    then have r: "reads ?B (unat ofs) (0 # be_octets 3 v)" by (intro reads_splice) simp
    obtain c where c: "asn1_seek p ofs 0 st' = Some (Some c)" "at_octet xs (unat ofs) c"
      using asn1_seek_at [OF o] r by auto
    obtain c' where c': "asn1_next c st' = Some (Some c')" "at_octet xs (Suc (unat ofs)) c'"
      using next_reads [OF o c(2), of "be_octets 3 v"] r be_octets_not_Nil [of 3 v] by auto
    have "dec_u32t_loop 3 0 c' st' = Some (ERR_OK, v)"
    proof -
      have "drop_bit 32 v = 0" by (rule bit_word_eqI) (auto simp: bit_simps)
      then show ?thesis using dec_u32t_loop_octets [OF o c'(2), of 3 v] r by simp
    qed
    then show "snmp_asn1_dec_u32t p ofs 5 x st' = Some (ERR_OK, v)"
      using c(1) c'(1) at_octet_get [OF o c(2)] r by (simp add: snmp_asn1_dec_u32t_def)
  qed simp_all
next
  fix n
  assume n: "n < 4" and cn: "snmp_asn1_enc_u32t_cnt v = of_nat (Suc n)" and v: "unat v < 2 ^ (8 * n + 7)"
  have u: "unat (of_nat (Suc n) :: u16) = Suc n" "unat (ucast (of_nat (Suc n) :: u16) :: u8) = Suc n"
    using n unat_small [of "Suc n"] by simp_all
  have hi: "drop_bit (8 * n + 7) v = 0"
    using v by (simp only: word_unat_eq_iff unat_drop_bit div_less unsigned_0)
  show ?thesis unfolding cn
  proof (rule encodesI [OF assms, where vs = "be_octets n v"])
    have "ucast (of_nat (Suc n) :: u16) \<noteq> (5 :: u8)" using u(2) n by (auto simp: word_unat_eq_iff)
    then show "snmp_asn1_enc_u32t p ofs (ucast (of_nat (Suc n) :: u16)) v st = do {
        c \<leftarrow> asn1_seek p ofs 0 st;
        (case c of None \<Rightarrow> Some (ERR_ARG, st) | Some c \<Rightarrow> closed (put_octets (be_octets n v) c st))
      }" for st
      by (simp only: snmp_asn1_enc_u32t_def u(2) enc_u32t_loop_octets [OF n] diff_Suc_1 if_False)
    fix st' assume o: "octets st' p xs (splice (unat ofs) (be_octets n v) B)" (is "octets _ _ _ ?B")
      and le: "unat ofs + unat (of_nat (Suc n) :: u16) \<le> length B"
    then have r: "reads ?B (unat ofs) (be_octets n v)" by (intro reads_splice) (simp only: be_octets_length u(1))
    obtain c where c: "asn1_seek p ofs 0 st' = Some (Some c)" "at_octet xs (unat ofs) c"
      using asn1_seek_at [OF o] reads_more [OF r be_octets_not_Nil] by blast
    let ?m = "ucast (drop_bit (8 * n) v) :: u8"
    have m: "get_octet c st' = Some ?m"
      using at_octet_get [OF o c(2)] r be_octets_hd [of n v] by (metis reads_Cons)
    have "\<not> bit (drop_bit (8 * n + 7) v) 0" unfolding hi by simp
    then have "?m AND 0x80 = 0" using and_exp_eq_0_iff_not_bit [of ?m 7] by (simp add: bit_simps add.commute)
    moreover have hi8: "drop_bit (8 * Suc n) v = 0"
      using arg_cong [OF hi, of "drop_bit 1"] by (simp add: drop_bit_drop_bit add.commute)
    moreover obtain l :: u16 where l: "of_nat (Suc n) = l" "unat l - 1 = n" "unat l - 2 = n - 1" "0 < l" "l < 6" "1 < l \<longleftrightarrow> 0 < n"
      using u(1) n by (auto simp: word_less_nat_alt simp del: of_nat_Suc)
    ultimately have d: "snmp_asn1_dec_u32t p ofs (of_nat (Suc n)) x st' =
        (if 0 < n \<and> ?m = 0 then do {
           c \<leftarrow> asn1_next c st';
           (case c of None \<Rightarrow> Some (ERR_ARG, 0) | Some c \<Rightarrow> dec_u32t_loop (n - 1) 0 c st')
         }
         else dec_u32t_loop n 0 c st')"
      unfolding l(1) using c(1) m l(2-6) by (simp add: snmp_asn1_dec_u32t_def)
    show "snmp_asn1_dec_u32t p ofs (of_nat (Suc n)) x st' = Some (ERR_OK, v)"
    proof (cases "0 < n \<and> ?m = 0")
      case True
      then obtain n' where n': "n = Suc n'" by (cases n) auto
      have lo: "drop_bit (8 * Suc n') v = 0"
        using drop_bit_octet [of n v] hi8 True unfolding n' by simp
      from r have rn: "reads ?B (Suc (unat ofs)) (be_octets n' v)" unfolding n' by simp
      obtain c' where c': "asn1_next c st' = Some (Some c')" "at_octet xs (Suc (unat ofs)) c'"
        using next_reads [OF o c(2) rn] be_octets_not_Nil by blast
      show ?thesis
        using dec_u32t_loop_octets [OF o c'(2) rn] c'(1) True unfolding d lo by (simp add: n')
    next
      case False
      then show ?thesis using dec_u32t_loop_octets [OF o c(2) r] unfolding d hi8 if_not_P [OF False] by simp
    qed
  qed (simp_all only: be_octets_length u(1) be_octets_not_Nil not_False_eq_True)
qed

lemma enc_s32t_roundtrip:
  assumes "octets st p xs B"
  shows "encodes st xs ofs (unat (snmp_asn1_enc_s32t_cnt v)) (snmp_asn1_enc_s32t p ofs (ucast (snmp_asn1_enc_s32t_cnt v)) v)
    (\<lambda>st'. snmp_asn1_dec_s32t p ofs (snmp_asn1_enc_s32t_cnt v) x st' = Some (ERR_OK, v))"
proof -
  obtain n where n: "n < 4" and cn: "snmp_asn1_enc_s32t_cnt v = of_nat (Suc n)"
    and v: "- (2 ^ (8 * n + 7)) \<le> sint v" "sint v < 2 ^ (8 * n + 7)" using s32t_cnt by blast
  have u: "unat (of_nat (Suc n) :: u16) = Suc n" "unat (ucast (of_nat (Suc n) :: u16) :: u8) = Suc n"
    using n unat_small [of "Suc n"] by simp_all
  show ?thesis unfolding cn
  proof (rule encodesI [OF assms, where vs = "be_octets n v"])
    show "snmp_asn1_enc_s32t p ofs (ucast (of_nat (Suc n) :: u16)) v st = do {
        c \<leftarrow> asn1_seek p ofs 0 st;
        (case c of None \<Rightarrow> Some (ERR_ARG, st) | Some c \<Rightarrow> closed (put_octets (be_octets n v) c st))
      }" for st
      by (simp only: snmp_asn1_enc_s32t_def u(2) enc_s32t_loop_eq enc_u32t_loop_octets [OF n] diff_Suc_1)
    fix st' assume o: "octets st' p xs (splice (unat ofs) (be_octets n v) B)" (is "octets _ _ _ ?B")
      and le: "unat ofs + unat (of_nat (Suc n) :: u16) \<le> length B"
    then have r: "reads ?B (unat ofs) (be_octets n v)" by (intro reads_splice) (simp only: be_octets_length u(1))
    obtain c where c: "asn1_seek p ofs 0 st' = Some (Some c)" "at_octet xs (unat ofs) c"
      using asn1_seek_at [OF o] reads_more [OF r be_octets_not_Nil] by blast
    let ?m = "ucast (signed_drop_bit (8 * n) v) :: u8"
    have m: "get_octet c st' = Some ?m"
      using at_octet_get [OF o c(2)] r be_octets_hd [of n v] signed_octet [OF n] by (metis reads_Cons)
    have a: "(if sint v < 0 then - 1 else 0) = above n v"
    proof -
      have e: "push_bit 8 (- 1) OR 255 = (- 1 :: u32)" by (simp add: push_bit_eq_mult)
      have h: "signed_drop_bit (8 * Suc n) v = (if sint v < 0 then - 1 else 0)"
        by (rule signed_drop_bit_high [OF v]) simp
      show ?thesis
        by (cases "sint v < 0") (simp_all only: above_def h if_True if_False e push_bit_of_0)
    qed
    obtain l :: u16 where l: "of_nat (Suc n) = l" "unat l - 1 = n" "0 < l" "l < 5"
      using u(1) n by (auto simp: word_less_nat_alt simp del: of_nat_Suc)
    show "snmp_asn1_dec_s32t p ofs (of_nat (Suc n)) x st' = Some (ERR_OK, v)"
      unfolding l(1) using c(1) m l(2-4) dec_s32t_loop_octets [OF o c(2) r n]
      by (simp add: snmp_asn1_dec_s32t_def sign_octet [OF v] a)
  qed (simp_all only: be_octets_length u(1) be_octets_not_Nil not_False_eq_True)
qed

lemma enc_length_roundtrip:
  assumes "octets st p xs B"
  shows "encodes st xs ofs (unat (snmp_asn1_enc_length_cnt l)) (snmp_asn1_enc_length p ofs l)
    (\<lambda>st'. snmp_asn1_dec_length p ofs x y st' = Some (ERR_OK, snmp_asn1_enc_length_cnt l, l))"
proof -
  let ?vs = "if l < 0x80 then [ucast l] else if l < 0x100 then [0x81, ucast l] else [0x82, ucast (drop_bit 8 l), ucast l] :: u8 list"
  show ?thesis
  proof (rule encodesI [OF assms, where vs = ?vs])
    show "snmp_asn1_enc_length p ofs l st = do {
        c \<leftarrow> asn1_seek p ofs 0 st;
        (case c of None \<Rightarrow> Some (ERR_ARG, st) | Some c \<Rightarrow> closed (put_octets ?vs c st))
      }" for st
      by (auto simp: snmp_asn1_enc_length_def closed_def split: Option.bind_splits option.splits)
    fix st' assume o: "octets st' p xs (splice (unat ofs) ?vs B)" (is "octets _ _ _ ?B")
      and le: "unat ofs + unat (snmp_asn1_enc_length_cnt l) \<le> length B"
    then have r: "reads ?B (unat ofs) ?vs"
      by (intro reads_splice) (auto simp: snmp_asn1_enc_length_cnt_def split: if_splits)
    obtain c where c: "asn1_seek p ofs 0 st' = Some (Some c)" "at_octet xs (unat ofs) c"
      using asn1_seek_at [OF o] r by (auto split: if_splits)
    note get = at_octet_get [OF o]
    consider "l < 0x80" | "\<not> l < 0x80" "l < 0x100" | "\<not> l < 0x80" "\<not> l < 0x100" by blast
    then show "snmp_asn1_dec_length p ofs x y st' = Some (ERR_OK, snmp_asn1_enc_length_cnt l, l)"
    proof cases
      case 1
      then have "ucast l < (0x80 :: u8)" "ucast (ucast l :: u8) = l"
        by (simp_all add: word_less_nat_alt unat_ucast_down word_unat_eq_iff unat_ucast_up)
      then show ?thesis
        using 1 c(1) get [OF c(2)] r by (simp add: snmp_asn1_dec_length_def snmp_asn1_enc_length_cnt_def)
    next
      case 2
      then have rn: "reads ?B (Suc (unat ofs)) [ucast l]" and m: "?B ! unat ofs = 0x81" using r by simp_all
      obtain c' where c': "asn1_next c st' = Some (Some c')" "at_octet xs (Suc (unat ofs)) c'"
        using next_reads [OF o c(2) rn] by blast
      have "ucast (ucast l :: u8) = l"
        using 2 by (simp add: word_less_nat_alt unat_ucast_down word_unat_eq_iff unat_ucast_up)
      then show ?thesis
        using 2 c(1) c'(1) get [OF c(2)] get [OF c'(2)] m rn
        by (simp add: snmp_asn1_dec_length_def snmp_asn1_enc_length_cnt_def)
    next
      case 3
      then have rn: "reads ?B (Suc (unat ofs)) [ucast (drop_bit 8 l), ucast l]" and m: "?B ! unat ofs = 0x82"
        using r by simp_all
      obtain c' where c': "asn1_next c st' = Some (Some c')" "at_octet xs (Suc (unat ofs)) c'"
        using next_reads [OF o c(2) rn] by blast
      from rn have rn2: "reads ?B (Suc (Suc (unat ofs))) [ucast l]" by simp
      obtain c2 where c2: "asn1_next c' st' = Some (Some c2)" "at_octet xs (Suc (Suc (unat ofs))) c2"
        using next_reads [OF o c'(2) rn2] by blast
      have "push_bit 8 (ucast (ucast (drop_bit 8 l) :: u8)) OR ucast (ucast l :: u8) = l"
        using u16_of_bytes_of_u16 [of l] by (simp add: u16_of_bytes_def or.commute)
      then show ?thesis
        using 3 c(1) c'(1) c2(1) get [OF c(2)] get [OF c'(2)] get [OF c2(2)] m rn rn2
        by (simp add: snmp_asn1_dec_length_def snmp_asn1_enc_length_cnt_def)
    qed
  qed (simp_all add: snmp_asn1_enc_length_cnt_def)
qed

subsection \<open>Raw octets\<close>

lemma enc_raw_loop_octets: "raw \<noteq> [] \<Longrightarrow> enc_raw_loop (length raw) raw c st = closed (put_octets raw c st)"
proof (induction raw arbitrary: c st)
  case (Cons r raw)
  show ?case
  proof (cases "raw = []")
    case True
    then show ?thesis by (auto simp: closed_def split: Option.bind_splits)
  next
    case False
    then show ?thesis by (simp add: Cons.IH closed_put_octets_Cons)
  qed
qed simp

lemma dec_raw_loop_octets:
  "octets st p xs B \<Longrightarrow> at_octet xs k c \<Longrightarrow> reads B k vs \<Longrightarrow> length vs = Suc n \<Longrightarrow> j + length vs \<le> length raw \<Longrightarrow>
   dec_raw_loop n j raw c st = Some (ERR_OK, splice j vs raw)"
proof (induction n arbitrary: k c vs j raw)
  case 0
  then obtain v where "vs = [v]" by (cases vs) auto
  then show ?case using 0 at_octet_get [OF 0(1,2)] by (simp add: splice_Cons)
next
  case (Suc n)
  then obtain v ws where vs: "vs = v # ws" "length ws = Suc n" by (cases vs) auto
  from Suc.prems(3) have B: "B ! k = v" "reads B (Suc k) ws" unfolding vs(1) by simp_all
  have "ws \<noteq> []" using vs(2) by auto
  then obtain c' where c': "asn1_next c st = Some (Some c')" "at_octet xs (Suc k) c'"
    using next_reads [OF Suc.prems(1,2) B(2)] by blast
  have "dec_raw_loop n (Suc j) (raw[j := v]) c' st = Some (ERR_OK, splice (Suc j) ws (raw[j := v]))"
    using Suc.prems(5) vs by (intro Suc.IH [OF Suc.prems(1) c'(2) B(2)]) simp_all
  then show ?case using at_octet_get [OF Suc.prems(1,2)] B(1) c'(1) Suc.prems(5) vs by (simp add: splice_Cons)
qed

lemma enc_raw_roundtrip:
  assumes o: "octets st p xs B" and raw: "raw \<noteq> []" "length raw < 256" and l: "length raw \<le> length buf" "length raw \<le> unat room"
  shows "encodes st xs ofs (length raw) (snmp_asn1_enc_raw p ofs (of_nat (length raw)) raw)
    (\<lambda>st'. \<exists>buf'. snmp_asn1_dec_raw p ofs (of_nat (length raw)) room buf st' = Some (ERR_OK, buf') \<and>
      take (length raw) buf' = raw)"
proof (rule encodesI [OF o raw(1) refl])
  have u: "unat (of_nat (length raw) :: u8) = length raw" using raw(2) by (simp add: unat_of_nat)
  show "snmp_asn1_enc_raw p ofs (of_nat (length raw)) raw st = do {
      c \<leftarrow> asn1_seek p ofs 0 st;
      (case c of None \<Rightarrow> Some (ERR_ARG, st) | Some c \<Rightarrow> closed (put_octets raw c st))
    }" for st
    unfolding snmp_asn1_enc_raw_def u enc_raw_loop_octets [OF raw(1)] ..
  fix st' assume o': "octets st' p xs (splice (unat ofs) raw B)" (is "octets _ _ _ ?B")
    and le: "unat ofs + length raw \<le> length B"
  then have r: "reads ?B (unat ofs) raw" by (intro reads_splice)
  obtain c where c: "asn1_seek p ofs 0 st' = Some (Some c)" "at_octet xs (unat ofs) c"
    using asn1_seek_at [OF o'] reads_more [OF r raw(1)] by blast
  obtain n where n: "length raw = Suc n" using raw(1) by (cases raw) auto
  have u16: "unat (of_nat (length raw) :: u16) = length raw" using raw(2) by (simp add: unat_of_nat)
  then have "0 < (of_nat (length raw) :: u16)" "of_nat (length raw) \<le> room" "unat (of_nat (length raw) :: u16) - 1 = n"
    using n l(2) by (simp_all add: word_less_nat_alt word_le_nat_alt)
  then have "snmp_asn1_dec_raw p ofs (of_nat (length raw)) room buf st' = Some (ERR_OK, splice 0 raw buf)"
    using c(1) dec_raw_loop_octets [OF o' c(2) r n, of 0 buf] l(1) by (simp add: snmp_asn1_dec_raw_def)
  then show "\<exists>buf'. snmp_asn1_dec_raw p ofs (of_nat (length raw)) room buf st' = Some (ERR_OK, buf') \<and>
      take (length raw) buf' = raw" using l(1) by (auto simp: splice_def)
qed

subsection \<open>Properties\<close>

text \<open>
  C32. What the encoders of \<open>asn1_enc.c\<close> write into a packet, in as many octets as the counting functions say, the
  decoders of \<open>asn1_dec.c\<close> read back, wherever the pbufs are cut: lengths, unsigned and signed integers and octet
  strings.  With room in the packet they succeed and change these octets only, without they report \<open>ERR_ARG\<close>.
\<close>
theorem asn1_values_roundtrip:
  assumes "packet st p xs" "owned xs" "\<forall>x \<in> set xs. 0 < unat (len (snd x))"
    and "raw \<noteq> []" "length raw < 256" "length raw \<le> length buf" "length raw \<le> unat room"
  shows
    "encodes st xs ofs (unat (snmp_asn1_enc_length_cnt l)) (snmp_asn1_enc_length p ofs l)
      (\<lambda>st'. snmp_asn1_dec_length p ofs w y st' = Some (ERR_OK, snmp_asn1_enc_length_cnt l, l)) \<and>
     encodes st xs ofs (unat (snmp_asn1_enc_u32t_cnt u)) (snmp_asn1_enc_u32t p ofs (ucast (snmp_asn1_enc_u32t_cnt u)) u)
      (\<lambda>st'. snmp_asn1_dec_u32t p ofs (snmp_asn1_enc_u32t_cnt u) x st' = Some (ERR_OK, u)) \<and>
     encodes st xs ofs (unat (snmp_asn1_enc_s32t_cnt v)) (snmp_asn1_enc_s32t p ofs (ucast (snmp_asn1_enc_s32t_cnt v)) v)
      (\<lambda>st'. snmp_asn1_dec_s32t p ofs (snmp_asn1_enc_s32t_cnt v) x st' = Some (ERR_OK, v)) \<and>
     encodes st xs ofs (length raw) (snmp_asn1_enc_raw p ofs (of_nat (length raw)) raw)
      (\<lambda>st'. \<exists>buf'. snmp_asn1_dec_raw p ofs (of_nat (length raw)) room buf st' = Some (ERR_OK, buf') \<and>
        take (length raw) buf' = raw)"
proof -
  have o: "octets st p xs (packet_bytes st xs)" using assms(1-3) by (simp add: octets_def)
  show ?thesis
    using enc_length_roundtrip [OF o] enc_u32t_roundtrip [OF o] enc_s32t_roundtrip [OF o]
      enc_raw_roundtrip [OF o assms(4-7)] by blast
qed

theorem asn1_values_roundtrip_witness:
  "\<exists>st'. snmp_asn1_enc_s32t (Some (PoolA MEMP_PBUF_POOL 0)) 1 3 (- 70000) pmem_sample = Some (ERR_OK, st') \<and>
     snmp_asn1_dec_s32t (Some (PoolA MEMP_PBUF_POOL 0)) 1 3 0 st' = Some (ERR_OK, - 70000)"
proof -
  have c: "snmp_asn1_enc_s32t_cnt (- 70000) = 3" by (simp add: snmp_asn1_enc_s32t_cnt_def)
  note f = pmem_sample_facts
  have full: "\<forall>x \<in> set xs_sample. 0 < unat (len (snd x))" using f(13) by blast
  have "encodes pmem_sample xs_sample 1 3 (snmp_asn1_enc_s32t (Some (PoolA MEMP_PBUF_POOL 0)) 1 3 (- 70000))
      (\<lambda>st'. snmp_asn1_dec_s32t (Some (PoolA MEMP_PBUF_POOL 0)) 1 3 0 st' = Some (ERR_OK, - 70000))"
    using asn1_values_roundtrip [OF f(1,5) full, where raw = "[0]" and buf = "[0]" and room = 1 and ofs = 1
        and v = "- 70000" and x = 0] by (simp add: c)
  then show ?thesis by (auto simp: encodes_def f(7))
qed

end
