(* ===== verification/Asn1_Oid.thy ===== *)
theory Asn1_Oid
  imports Asn1_Props
begin

text \<open>
  Object identifiers: the octets of a sub-identifier, that their number is what \<open>snmp_asn1_enc_oid_cnt\<close> says, and that
  the decoder reads them back.
\<close>

subsection \<open>The octets of an identifier\<close>

primrec sub_octets :: "nat \<Rightarrow> u32 \<Rightarrow> bool \<Rightarrow> u8 list" where
  "sub_octets 0 x tail = [ucast x AND 0x7F]"
| "sub_octets (Suc n) x tail =
     (let code = ucast (signed_drop_bit (7 * Suc n) x) :: u8
      in if code \<noteq> 0 \<or> tail then (code OR 0x80) # sub_octets n x True else sub_octets n x tail)"

lemma sub_octets_not_Nil [simp]: "sub_octets n x tail \<noteq> []"
  by (induction n arbitrary: tail) (simp_all add: Let_def)

lemma sub_octets_length: "length (sub_octets n x True) = Suc n"
  by (induction n) (simp_all add: Let_def)

lemma put_octets_Cons: "vs \<noteq> [] \<Longrightarrow> put_octets (v # vs) c st = do {
     st \<leftarrow> put_octet c v st;
     c \<leftarrow> asn1_next c st;
     (case c of None \<Rightarrow> Some (None, st) | Some c \<Rightarrow> put_octets vs c st)
   }"
  by (cases vs) simp_all

lemma enc_sub_id_octets: "enc_sub_id n x tail c st = put_octets (sub_octets n x tail) c st"
proof (induction n arbitrary: tail c st)
  case (Suc n)
  then show ?case by (simp add: put_octets_Cons Let_def cong: option.case_cong)
qed simp

lemma put_octets_append:
  "vs \<noteq> [] \<Longrightarrow> ws \<noteq> [] \<Longrightarrow> put_octets (vs @ ws) c st = do {
     (c, st) \<leftarrow> put_octets vs c st;
     (case c of
        None \<Rightarrow> Some (None, st)
      | Some c \<Rightarrow> do {
          c \<leftarrow> asn1_next c st;
          (case c of None \<Rightarrow> Some (None, st) | Some c \<Rightarrow> put_octets ws c st)
        })
   }"
proof (induction vs arbitrary: c st)
  case (Cons v vs)
  then show ?case
    by (cases vs) (auto simp: put_octets_Cons split: Option.bind_splits option.splits)
qed simp

definition oid_octets :: "u32 list \<Rightarrow> u8 list" where
  "oid_octets ident = concat (map (\<lambda>x. sub_octets 4 x False) ident)"

lemma oid_octets_simps [simp]: "oid_octets [] = []" "oid_octets (x # ident) = sub_octets 4 x False @ oid_octets ident"
  by (simp_all add: oid_octets_def)

lemma oid_octets_Nil [simp]: "oid_octets ident = [] \<longleftrightarrow> ident = []"
  by (cases ident) simp_all

lemma enc_oid_loop_octets:
  "ident \<noteq> [] \<Longrightarrow> enc_oid_loop (length ident) ident c st = closed (put_octets (oid_octets ident) c st)"
proof (induction ident arbitrary: c st)
  case (Cons x ident)
  show ?case
  proof (cases "ident = []")
    case True
    then show ?thesis
      by (auto simp: enc_sub_id_octets closed_def split: Option.bind_splits option.splits)
  next
    case False
    then show ?thesis
      by (auto simp: enc_sub_id_octets closed_def put_octets_append Cons.IH split: Option.bind_splits option.splits prod.splits)
  qed
qed simp

lemma nonneg_shift: "0 \<le> sint x \<Longrightarrow> signed_drop_bit n x = drop_bit n (x :: u32)"
proof -
  assume "0 \<le> sint x"
  then have "\<not> bit x 31" using bit_last_iff [of x] by simp
  then show ?thesis by (intro bit_word_eqI) (auto simp: bit_simps dest: bit_imp_le_length)
qed

text \<open>Leading zero groups are left out: the first group is the highest that is not zero.\<close>

lemma code_eq_0:
  assumes "drop_bit (7 * Suc (Suc n)) (x :: u32) = 0"
  shows "(ucast (drop_bit (7 * Suc n) x) :: u8) = 0 \<longleftrightarrow> drop_bit (7 * Suc n) x = 0"
proof
  assume z: "(ucast (drop_bit (7 * Suc n) x) :: u8) = 0"
  show "drop_bit (7 * Suc n) x = 0"
  proof (rule bit_word_eqI)
    fix i
    assume "i < LENGTH(32)"
    show "bit (drop_bit (7 * Suc n) x) i = bit 0 i"
    proof (cases "i < 7")
      case True
      then show ?thesis using arg_cong [OF z, of "\<lambda>w. bit w i"] by (simp add: bit_simps)
    next
      case False
      then show ?thesis using arg_cong [OF assms, of "\<lambda>w. bit w (i - 7)"] by (simp add: bit_simps add.assoc)
    qed
  qed
qed simp

lemma sub_octets_first:
  assumes "0 \<le> sint x"
  shows "drop_bit (7 * Suc n) x = 0 \<Longrightarrow>
    \<exists>m \<le> n. drop_bit (7 * Suc m) x = 0 \<and> (m = 0 \<or> drop_bit (7 * m) x \<noteq> 0) \<and> sub_octets n x False = sub_octets m x True"
proof (induction n)
  case (Suc n)
  show ?case
  proof (cases "drop_bit (7 * Suc n) x = 0")
    case True
    then obtain m where "m \<le> n" "drop_bit (7 * Suc m) x = 0" "m = 0 \<or> drop_bit (7 * m) x \<noteq> 0"
      "sub_octets n x False = sub_octets m x True" using Suc.IH by blast
    then show ?thesis using True by (intro exI [of _ m]) (simp add: Let_def nonneg_shift [OF assms])
  next
    case False
    then show ?thesis
      using Suc.prems code_eq_0 [OF Suc.prems]
      by (intro exI [of _ "Suc n"]) (simp add: Let_def nonneg_shift [OF assms])
  qed
qed simp

lemma sub_octets_4:
  assumes "0 \<le> sint x"
  obtains m where "m \<le> 4" "drop_bit (7 * Suc m) x = 0" "m = 0 \<or> drop_bit (7 * m) x \<noteq> 0"
    "sub_octets 4 x False = sub_octets m x True"
proof -
  have "drop_bit (7 * Suc 4) x = 0" by (rule bit_word_eqI) (auto simp: bit_simps)
  from sub_octets_first [OF assms this] show thesis using that by blast
qed

lemma drop_bit_pos: "0 \<le> sint x \<Longrightarrow> 0 < sint (drop_bit n x) \<longleftrightarrow> drop_bit n (x :: u32) \<noteq> 0"
proof -
  assume x: "0 \<le> sint x"
  have "sint (drop_bit n x) = sint x div 2 ^ n"
    using nonneg_shift [OF x, of n] sint_signed_drop_bit_eq [of n x] by (simp add: drop_bit_eq_div)
  then have "0 \<le> sint (drop_bit n x)" using x by (simp add: pos_imp_zdiv_nonneg_iff)
  then show ?thesis by (auto simp: order_less_le signed_eq_0_iff)
qed

lemma sub_id_cnt_octets:
  assumes "0 \<le> sint x" "drop_bit (7 * Suc m) x = 0" "m = 0 \<or> drop_bit (7 * m) x \<noteq> 0"
  shows "j \<le> m \<Longrightarrow> sub_id_cnt (drop_bit (7 * Suc j) x) cnt = cnt + of_nat (m - j)"
proof (induction "m - j" arbitrary: j cnt)
  case 0
  then show ?case using assms(2) by (subst sub_id_cnt.simps) simp
next
  case (Suc d)
  have nz: "drop_bit (7 * Suc j) x \<noteq> 0"
  proof
    assume "drop_bit (7 * Suc j) x = 0"
    then have "drop_bit (7 * (m - Suc j)) (drop_bit (7 * Suc j) x) = 0" by simp
    moreover have "7 * (m - Suc j) + 7 * Suc j = 7 * m" using Suc.hyps(2) by simp
    ultimately have "drop_bit (7 * m) x = 0" by (simp only: drop_bit_drop_bit)
    then show False using assms(3) Suc.hyps(2) by simp
  qed
  have "signed_drop_bit 7 (drop_bit (7 * Suc j) x) = drop_bit (7 * Suc (Suc j)) x"
    using nonneg_shift [of "drop_bit (7 * Suc j) x" 7] drop_bit_pos [OF assms(1), of "7 * Suc j"] nz
    by (simp add: drop_bit_drop_bit add.commute)
  moreover have "sub_id_cnt (drop_bit (7 * Suc (Suc j)) x) (cnt + 1) = cnt + 1 + of_nat (m - Suc j)"
    using Suc.hyps(2) by (intro Suc.hyps(1)) auto
  moreover have "of_nat (m - j) = 1 + (of_nat (m - Suc j) :: u8)"
  proof -
    have "m - j = Suc (m - Suc j)" using Suc.hyps(2) by simp
    then show ?thesis by (simp only: of_nat_Suc)
  qed
  ultimately show ?case
    using nz drop_bit_pos [OF assms(1), of "7 * Suc j"] by (subst sub_id_cnt.simps) simp
qed

lemma oid_cnt_octets:
  "\<forall>x \<in> set ident. 0 \<le> sint x \<Longrightarrow> oid_cnt_loop ident cnt = cnt + of_nat (length (oid_octets ident))"
proof (induction ident arbitrary: cnt)
  case (Cons x ident)
  then have x: "0 \<le> sint x" by simp
  obtain m where m: "drop_bit (7 * Suc m) x = 0" "m = 0 \<or> drop_bit (7 * m) x \<noteq> 0"
    "sub_octets 4 x False = sub_octets m x True" by (rule sub_octets_4 [OF x])
  have "sub_id_cnt (signed_drop_bit 7 x) (cnt + 1) = cnt + 1 + of_nat m"
    using sub_id_cnt_octets [OF x m(1,2), of 0] by (simp add: nonneg_shift [OF x])
  then show ?case using Cons by (simp add: m(3) sub_octets_length add_ac)
qed simp

lemma oid_octets_length: "\<forall>x \<in> set ident. 0 \<le> sint x \<Longrightarrow> length (oid_octets ident) \<le> 5 * length ident"
proof (induction ident)
  case (Cons x ident)
  then have x: "0 \<le> sint x" by simp
  obtain m where "m \<le> 4" "sub_octets 4 x False = sub_octets m x True" by (rule sub_octets_4 [OF x])
  then show ?case using Cons by (simp add: sub_octets_length)
qed simp

subsection \<open>Reading an identifier back\<close>

lemma code_bits:
  "(((ucast y :: u8) OR 0x80) AND 0x80) \<noteq> 0"
  "push_bit 7 (drop_bit (7 * Suc n) v) + ucast (((ucast (drop_bit (7 * n) v) :: u8) OR 0x80) AND 0x7F) = drop_bit (7 * n) (v :: u32)"
  "((ucast v :: u8) AND 0x7F) AND 0x80 = 0"
  "push_bit 7 (drop_bit 7 v) + ucast ((ucast v :: u8) AND 0x7F) = v"
proof -
  have m: "(0x7F :: u8) = mask 7" by (simp add: mask_eq_exp_minus_1)
  have e: "bit (0x80 :: u8) i \<longleftrightarrow> i = 7" for i using bit_exp_iff [of 7 i, where ?'a = u8] by auto
  have o: "a + b = a OR b" if "\<And>i. \<not> (bit a i \<and> bit b i)" for a b :: u32
    by (rule disjunctive_add_eq_or) (use that in \<open>auto intro!: bit_word_eqI simp: bit_simps\<close>)
  have "bit (((ucast y :: u8) OR 0x80) AND 0x80) 7" by (simp add: bit_or_iff bit_and_iff e del: bit_numeral_word_iff)
  then show "(((ucast y :: u8) OR 0x80) AND 0x80) \<noteq> 0" by force
  have s: "push_bit 7 (drop_bit (7 * Suc n) v) + ucast ((ucast (drop_bit (7 * n) v) :: u8) AND 0x7F) = drop_bit (7 * n) v" for n
    unfolding m by (subst o) (auto simp: bit_simps not_less intro!: bit_word_eqI arg_cong [of _ _ "bit v"] simp del: mask_numeral)
  moreover have "((x :: u8) OR 0x80) AND 0x7F = x AND 0x7F" for x
    unfolding m by (rule bit_word_eqI) (auto simp: bit_or_iff bit_and_iff bit_mask_iff e simp del: mask_numeral bit_numeral_word_iff)
  ultimately show "push_bit 7 (drop_bit (7 * Suc n) v) + ucast (((ucast (drop_bit (7 * n) v) :: u8) OR 0x80) AND 0x7F) = drop_bit (7 * n) v"
    by simp
  show "((ucast v :: u8) AND 0x7F) AND 0x80 = 0"
    unfolding m by (rule bit_word_eqI) (auto simp: bit_or_iff bit_and_iff bit_mask_iff e simp del: mask_numeral bit_numeral_word_iff)
  show "push_bit 7 (drop_bit 7 v) + ucast ((ucast v :: u8) AND 0x7F) = v" using s [of 0] by simp
qed

lemma reads_append: "reads B k (vs @ ws) \<longleftrightarrow> reads B k vs \<and> reads B (k + length vs) ws"
proof (induction vs arbitrary: k)
  case Nil
  then show ?case by (auto simp: reads_def)
qed simp

lemma dec_sub_id_octets:
  assumes x: "0 \<le> sint x" and o: "octets st p xs B"
  shows "at_octet xs k c \<Longrightarrow> reads B k (sub_octets n x True) \<Longrightarrow> n < l \<Longrightarrow>
    \<exists>c'. dec_sub_id (l - 1) (drop_bit (7 * Suc n) x) c st = Some (Some c', drop_bit 7 x, l - n) \<and> at_octet xs (k + n) c'"
proof (induction n arbitrary: k c l)
  case 0
  have "get_octet c st = Some (ucast x AND 0x7F)" using at_octet_get [OF o 0(1)] 0(2) by simp
  then show ?case using 0 by (cases "l - 1") (auto simp: Let_def code_bits(3))
next
  case (Suc n)
  let ?code = "ucast (drop_bit (7 * Suc n) x) :: u8"
  have B: "B ! k = ?code OR 0x80" "reads B (Suc k) (sub_octets n x True)"
    using Suc.prems(2) by (simp_all add: Let_def nonneg_shift [OF x])
  have m: "get_octet c st = Some (?code OR 0x80)" using at_octet_get [OF o Suc.prems(1)] B(1) by simp
  obtain c' where c': "asn1_next c st = Some (Some c')" "at_octet xs (Suc k) c'"
    using next_reads [OF o Suc.prems(1) B(2)] sub_octets_not_Nil by blast
  obtain l' where l: "l - 1 = Suc l'" "n < Suc l'" "l - Suc n = Suc l' - n" using Suc.prems(3) by (cases "l - 1") auto
  have "dec_sub_id (l - 1) (drop_bit (7 * Suc (Suc n)) x) c st = dec_sub_id l' (drop_bit (7 * Suc n) x) c' st"
    unfolding l(1) dec_sub_id.simps m Option.bind.simps if_P [OF code_bits(1)] Let_def c'(1) option.case code_bits(2) ..
  then show ?case using Suc.IH [OF c'(2) B(2) l(2)] l(3) by simp
qed

text \<open>One turn of the loop reads one sub-identifier.\<close>

lemma dec_oid_loop_sub:
  assumes x: "0 \<le> sint x" and o: "octets st p xs B" and c: "at_octet xs k c" and r: "reads B k (sub_octets 4 x False)"
    and l: "length (sub_octets 4 x False) \<le> l" and i: "oid_len oid < LWIP_SNMP_OBJ_ID_LEN"
  shows "\<exists>c'. dec_oid_loop l oid c st = do {
      c \<leftarrow> (if 0 < l - length (sub_octets 4 x False) then asn1_next c' st else Some (Some c'));
      (case c of
         None \<Rightarrow> Some (ERR_ARG, set_id x oid)
       | Some c \<Rightarrow> dec_oid_loop (l - length (sub_octets 4 x False)) (set_id x oid\<lparr>oid_len := oid_len oid + 1\<rparr>) c st)
    } \<and> at_octet xs (k + length (sub_octets 4 x False) - 1) c'"
proof -
  obtain n where n: "drop_bit (7 * Suc n) x = 0" "sub_octets 4 x False = sub_octets n x True" by (rule sub_octets_4 [OF x])
  note r = r [unfolded n(2)] and l = l [unfolded n(2) sub_octets_length]
  have len: "oid_len (set_id v oid) = oid_len oid" for v by (simp add: set_id_def)
  show ?thesis
  proof (cases n)
    case 0
    have m: "get_octet c st = Some (ucast x AND 0x7F)" using at_octet_get [OF o c] r 0 by simp
    have "ucast ((ucast x :: u8) AND 0x7F) = x" using code_bits(4) [of x] n(1) 0 by simp
    then have "dec_oid_loop l oid c st = do {
        c \<leftarrow> (if 0 < l - 1 then asn1_next c st else Some (Some c));
        (case c of
           None \<Rightarrow> Some (ERR_ARG, set_id x oid)
         | Some c \<Rightarrow> dec_oid_loop (l - 1) (set_id x oid\<lparr>oid_len := oid_len oid + 1\<rparr>) c st)
      }"
      using l i m 0 by (subst dec_oid_loop.simps) (simp add: len code_bits(3))
    then show ?thesis using c 0 by (intro exI [of _ c]) (simp add: n(2))
  next
    case (Suc n')
    have m: "get_octet c st = Some (ucast (drop_bit (7 * n) x) OR 0x80)"
      using at_octet_get [OF o c] r Suc by (simp add: Let_def nonneg_shift [OF x])
    have "n < l" using l by simp
    from dec_sub_id_octets [OF x o c r this] obtain c' where
      c': "dec_sub_id (l - 1) 0 c st = Some (Some c', drop_bit 7 x, l - n)" "at_octet xs (k + n) c'"
      unfolding n(1) by blast
    have "sub_octets n x True = (butlast (sub_octets n x True)) @ [ucast x AND 0x7F]" for n
      by (induction n) (simp_all add: Let_def)
    then have "reads B (k + n) [ucast x AND 0x7F]"
      using r reads_append [of B k "butlast (sub_octets n x True)" "[ucast x AND 0x7F]"] sub_octets_length [of n x] by simp
    then have m2: "get_octet c' st = Some (ucast x AND 0x7F)" using at_octet_get [OF o c'(2)] by simp
    have "dec_oid_loop l oid c st = do {
        c \<leftarrow> (if 0 < l - Suc n then asn1_next c' st else Some (Some c'));
        (case c of
           None \<Rightarrow> Some (ERR_ARG, set_id x oid)
         | Some c \<Rightarrow> dec_oid_loop (l - Suc n) (set_id x oid\<lparr>oid_len := oid_len oid + 1\<rparr>) c st)
      }"
      using l i m m2 c'(1) by (subst dec_oid_loop.simps) (simp add: len code_bits(1,3,4))
    then show ?thesis using c'(2) by (intro exI [of _ c']) (simp add: n(2) sub_octets_length)
  qed
qed

lemma dec_oid_loop_octets:
  "octets st p xs B \<Longrightarrow> \<forall>x \<in> set ids. 0 \<le> sint x \<Longrightarrow> ids \<noteq> [] \<longrightarrow> at_octet xs k c \<and> reads B k (oid_octets ids) \<Longrightarrow>
   unat (oid_len oid) + length ids \<le> 32 \<Longrightarrow> 32 \<le> length (oid_id oid) \<Longrightarrow>
   dec_oid_loop (length (oid_octets ids)) oid c st =
     Some (ERR_OK, oid\<lparr>oid_len := oid_len oid + of_nat (length ids),
       oid_id := splice (unat (oid_len oid)) ids (oid_id oid)\<rparr>)"
proof (induction ids arbitrary: k c oid)
  case Nil
  then show ?case by (subst dec_oid_loop.simps) simp
next
  case (Cons x ids)
  have x: "0 \<le> sint x" and c: "at_octet xs k c" and r: "reads B k (oid_octets (x # ids))" using Cons.prems(2,3) by simp_all
  let ?vs = "sub_octets 4 x False" and ?oid = "set_id x oid\<lparr>oid_len := oid_len oid + 1\<rparr>"
  have i: "oid_len oid < LWIP_SNMP_OBJ_ID_LEN" using Cons.prems(4) by (simp add: LWIP_SNMP_OBJ_ID_LEN_def word_less_nat_alt)
  have rs: "reads B k ?vs" "reads B (k + length ?vs) (oid_octets ids)" using r by (simp_all add: reads_append)
  have le: "length ?vs \<le> length (oid_octets (x # ids))"
    and d: "length (oid_octets (x # ids)) - length ?vs = length (oid_octets ids)" by simp_all
  obtain c' where c': "dec_oid_loop (length (oid_octets (x # ids))) oid c st = do {
      c \<leftarrow> (if 0 < length (oid_octets ids) then asn1_next c' st else Some (Some c'));
      (case c of None \<Rightarrow> Some (ERR_ARG, set_id x oid) | Some c \<Rightarrow> dec_oid_loop (length (oid_octets ids)) ?oid c st)
    }" "at_octet xs (k + length ?vs - 1) c'"
    using dec_oid_loop_sub [OF x Cons.prems(1) c rs(1) le i, unfolded d] by blast
  have pos: "0 < length ?vs" by simp
  have "\<exists>c2. (if 0 < length (oid_octets ids) then asn1_next c' st else Some (Some c')) = Some (Some c2) \<and>
      (ids \<noteq> [] \<longrightarrow> at_octet xs (k + length ?vs) c2)"
  proof (cases "ids = []")
    case False
    have e: "Suc (k + length ?vs - 1) = k + length ?vs" using pos by simp
    then obtain c2 where "asn1_next c' st = Some (Some c2)" "at_octet xs (k + length ?vs) c2"
      using next_reads [OF Cons.prems(1) c'(2), of "oid_octets ids"] rs(2) False by auto
    then show ?thesis using False by simp
  qed simp
  then obtain c2 where c2: "(if 0 < length (oid_octets ids) then asn1_next c' st else Some (Some c')) = Some (Some c2)"
    "ids \<noteq> [] \<longrightarrow> at_octet xs (k + length ?vs) c2" by blast
  have run: "dec_oid_loop (length (oid_octets (x # ids))) oid c st = dec_oid_loop (length (oid_octets ids)) ?oid c2 st"
    unfolding c'(1) c2(1) by simp
  have u: "unat (oid_len ?oid) = Suc (unat (oid_len oid))"
    using Cons.prems(4) by (simp add: set_id_def) (subst unat_plus_small; simp)
  have "dec_oid_loop (length (oid_octets ids)) ?oid c2 st =
     Some (ERR_OK, ?oid\<lparr>oid_len := oid_len ?oid + of_nat (length ids),
       oid_id := splice (unat (oid_len ?oid)) ids (oid_id ?oid)\<rparr>)"
    using Cons.prems c2(2) rs(2) u by (intro Cons.IH [of "k + length ?vs"]) (auto simp: set_id_def)
  then show ?case
    using Cons.prems(4,5) unfolding run u by (simp add: set_id_def splice_Cons add.commute add.left_commute)
qed

text \<open>The identifiers the encoding is for: two arcs in one octet, the others not negative.\<close>

definition valid_oid :: "u32 list \<Rightarrow> bool" where
  "valid_oid ident \<longleftrightarrow> 3 \<le> length ident \<and> length ident \<le> 32 \<and>
     (ident ! 0 < 2 \<and> ident ! 1 < 40 \<or> ident ! 0 = 2 \<and> ident ! 1 < 176) \<and> (\<forall>x \<in> set (drop 2 ident). 0 \<le> sint x)"

lemma sint_small: "unat (w :: u32) < 2 ^ 31 \<Longrightarrow> sint w = int (unat w)"
proof -
  assume "unat w < 2 ^ 31"
  then have "uint w < int (2 ^ 31)" by (simp only: uint_less_int)
  then have "signed_take_bit 31 (uint w) = uint w" by (intro signed_take_bit_int_eq_self) (simp_all add: order_trans [OF _ uint_ge_0])
  then show ?thesis by (simp add: sint_uint)
qed

lemma oid_prefix_valid:
  assumes "valid_oid ident"
  obtains m where "oid_prefix ident = Some m" "dec_oid_prefix m = take 2 ident"
proof -
  obtain a b ys where i: "ident = a # b # ys" using assms by (cases ident; cases "tl ident") (auto simp: valid_oid_def)
  have ab: "unat a < 2 \<and> unat b < 40 \<or> unat a = 2 \<and> unat b < 176"
    using assms by (auto simp: valid_oid_def i word_less_nat_alt)
  define v where "v = 40 * unat a + unat b"
  have v: "v < 256" using ab by (auto simp: v_def)
  have s: "sint a = int (unat a)" "sint b = int (unat b)" using ab by (intro sint_small; auto)+
  have m: "unat (of_nat v :: u8) = v" using v by (simp add: unat_of_nat)
  have "oid_prefix ident = Some (of_nat v)"
  proof (cases "a = 1 \<and> b = 3")
    case True
    then show ?thesis by (simp add: oid_prefix_def i v_def)
  next
    case False
    obtain na nb where n: "unat a = na" "unat b = nb" by simp
    have "na \<le> 2" "nb < 176" using ab n by auto
    then have "int na * 40 \<in> {- (2 ^ 31) ..< 2 ^ 31}" "int na * 40 + int nb \<in> {- (2 ^ 31) ..< 2 ^ 31}" by auto
    then have "oid_prefix ident = Some (word_of_int (int na * 40 + int nb))"
      using False unfolding oid_prefix_def i nth_Cons_0 nth_Cons_Suc One_nat_def s n Let_def by (auto simp del: int_ops)
    moreover have "int na * 40 + int nb = int v" by (simp add: v_def n)
    ultimately show ?thesis by (simp only: of_int_of_nat_eq)
  qed
  moreover have "dec_oid_prefix (of_nat v) = [a, b]"
  proof -
    have 0: "(of_nat v :: u8) = 0x2B \<longleftrightarrow> v = 43" "(of_nat v :: u8) < 40 \<longleftrightarrow> v < 40" "(of_nat v :: u8) < 80 \<longleftrightarrow> v < 80"
      using m by (auto simp: word_less_nat_alt word_unat_eq_iff)
    have u: "unat (ucast (of_nat v :: u8) :: u32) = v" using m by (simp add: unat_ucast_up)
    have "unat a = 0 \<or> unat a = 1 \<or> unat a = 2" using ab by linarith
    then show ?thesis
    proof (elim disjE)
      assume "unat a = 0"
      then show ?thesis using ab u v_def unfolding dec_oid_prefix_def 0 by (simp add: word_unat_eq_iff)
    next
      assume "unat a = 1"
      then show ?thesis using ab u v_def unfolding dec_oid_prefix_def 0 by (auto simp: word_unat_eq_iff unat_minus_small)
    next
      assume "unat a = 2"
      then show ?thesis using ab u v_def unfolding dec_oid_prefix_def 0 by (auto simp: word_unat_eq_iff unat_minus_small)
    qed
  qed
  ultimately show thesis using that by (simp add: i)
qed

lemma enc_oid_roundtrip:
  assumes o: "octets st p xs B" and v: "valid_oid ident" and l: "length (oid_id oid) = 32"
  shows "\<exists>n. snmp_asn1_enc_oid_cnt (of_nat (length ident)) ident = Some n \<and>
    encodes st xs ofs (unat n) (snmp_asn1_enc_oid p ofs (of_nat (length ident)) ident)
      (\<lambda>st'. \<exists>r. snmp_asn1_dec_oid p ofs n oid st' = Some (ERR_OK, r) \<and>
        unat (oid_len r) = length ident \<and> take (length ident) (oid_id r) = ident)"
proof -
  obtain m where m: "oid_prefix ident = Some m" "dec_oid_prefix m = take 2 ident" by (rule oid_prefix_valid [OF v])
  let ?ys = "drop 2 ident"
  have len: "3 \<le> length ident" "length ident \<le> 32" and ys: "\<forall>x \<in> set ?ys. 0 \<le> sint x" "?ys \<noteq> []"
    using v by (auto simp: valid_oid_def)
  have u: "unat (of_nat (length ident) :: u8) = length ident" using len(2) by (simp add: unat_of_nat)
  have k: "length (oid_octets ?ys) \<le> 150" using oid_octets_length [OF ys(1)] len(2) by simp
  have gt: "(1 :: u8) < of_nat (length ident)" using len(1) u by (simp add: word_less_nat_alt)
  obtain n where cnt: "snmp_asn1_enc_oid_cnt (of_nat (length ident)) ident = Some n"
    and n: "unat n = Suc (length (oid_octets ?ys))"
  proof -
    have "unat (1 + of_nat (length (oid_octets ?ys)) :: u8) = Suc (length (oid_octets ?ys))"
      using k by (subst unat_plus_small) (simp_all add: unat_of_nat)
    then show thesis
      using that gt by (simp add: snmp_asn1_enc_oid_cnt_def u oid_cnt_octets [OF ys(1)] unat_ucast_up)
  qed
  have "encodes st xs ofs (unat n) (snmp_asn1_enc_oid p ofs (of_nat (length ident)) ident)
      (\<lambda>st'. \<exists>r. snmp_asn1_dec_oid p ofs n oid st' = Some (ERR_OK, r) \<and>
        unat (oid_len r) = length ident \<and> take (length ident) (oid_id r) = ident)"
  proof (rule encodesI [OF o, where vs = "m # oid_octets ?ys"])
    have "enc_oid_loop (length ident - 2) ?ys c st = closed (put_octets (oid_octets ?ys) c st)" for c st
      using enc_oid_loop_octets [OF ys(2)] by simp
    then show "snmp_asn1_enc_oid p ofs (of_nat (length ident)) ident st = do {
        c \<leftarrow> asn1_seek p ofs 0 st;
        (case c of None \<Rightarrow> Some (ERR_ARG, st) | Some c \<Rightarrow> closed (put_octets (m # oid_octets ?ys) c st))
      }" for st
      using ys(2) m(1) gt by (simp add: snmp_asn1_enc_oid_def closed_put_octets_Cons u cong: option.case_cong)
    fix st' assume o': "octets st' p xs (splice (unat ofs) (m # oid_octets ?ys) B)" (is "octets _ _ _ ?B")
      and le: "unat ofs + unat n \<le> length B"
    then have r: "reads ?B (unat ofs) (m # oid_octets ?ys)" by (intro reads_splice) (simp add: n)
    then have rs: "reads ?B (Suc (unat ofs)) (oid_octets ?ys)" by simp
    obtain c where c: "asn1_seek p ofs 0 st' = Some (Some c)" "at_octet xs (unat ofs) c"
      using asn1_seek_at [OF o'] reads_more [OF r] by blast
    obtain c' where c': "asn1_next c st' = Some (Some c')" "at_octet xs (Suc (unat ofs)) c'"
      using next_reads [OF o' c(2) rs] ys(2) by auto
    have g: "get_octet c st' = Some m" using at_octet_get [OF o' c(2)] r by simp
    let ?oid = "\<lparr>oid_len = 2, oid_id = dec_oid_prefix m @ drop 2 (oid_id oid)\<rparr>"
    have two: "length (take 2 ident) = 2" using len by simp
    have loop: "dec_oid_loop (length (oid_octets ?ys)) ?oid c' st' = Some (ERR_OK, ?oid\<lparr>oid_len := oid_len ?oid + of_nat (length ?ys),
        oid_id := splice (unat (oid_len ?oid)) ?ys (oid_id ?oid)\<rparr>)"
      using len l two c'(2) rs by (intro dec_oid_loop_octets [OF o' ys(1)]) (simp_all add: m(2))
    have pos: "0 < n" "unat n - 1 = length (oid_octets ?ys)" "0 < length (oid_octets ?ys)"
      using n ys(2) by (simp_all add: word_less_nat_alt)
    have "unat (2 + of_nat (length ident - 2) :: u8) = length ident"
    proof -
      have "2 + of_nat (length ident - 2) = (of_nat (length ident) :: u8)" using len by (simp add: of_nat_diff)
      then show ?thesis by (simp only: u)
    qed
    moreover have "take (length ident) (splice 2 ?ys (take 2 ident @ drop 2 (oid_id oid))) = ident"
      using len two by (simp add: splice_def)
    ultimately show "\<exists>r. snmp_asn1_dec_oid p ofs n oid st' = Some (ERR_OK, r) \<and>
        unat (oid_len r) = length ident \<and> take (length ident) (oid_id r) = ident"
      using c(1) c'(1) g pos loop by (simp add: snmp_asn1_dec_oid_def m(2))
  qed (simp_all add: n)
  with cnt show ?thesis by blast
qed

subsection \<open>An identifier that ends inside a sub-identifier\<close>

lemma dec_oid_reads_past_ok:
  assumes o: "octets st p xs B" and r: "reads B (unat ofs) [m, a, b]" and hi: "a AND 0x80 \<noteq> 0" "b AND 0x80 = 0"
    and l: "length (oid_id oid) = 32"
  shows "snmp_asn1_dec_oid p ofs 2 oid st =
    Some (ERR_OK, \<lparr>oid_len = 4, oid_id = dec_oid_prefix m @ [oid_id oid ! 2, ucast b] @ drop 4 (oid_id oid)\<rparr>)"
proof -
  note get = at_octet_get [OF o]
  obtain c where c: "asn1_seek p ofs 0 st = Some (Some c)" "at_octet xs (unat ofs) c"
    using asn1_seek_at [OF o] r by auto
  from r have r1: "reads B (Suc (unat ofs)) [a, b]" by simp
  obtain c1 where c1: "asn1_next c st = Some (Some c1)" "at_octet xs (Suc (unat ofs)) c1"
    using next_reads [OF o c(2) r1] by blast
  from r1 have r2: "reads B (Suc (Suc (unat ofs))) [b]" by simp
  obtain c2 where c2: "asn1_next c1 st = Some (Some c2)" "at_octet xs (Suc (Suc (unat ofs))) c2"
    using next_reads [OF o c1(2) r2] by blast
  have g: "get_octet c st = Some m" "get_octet c1 st = Some a" "get_octet c2 st = Some b"
    using get [OF c(2)] get [OF c1(2)] get [OF c2(2)] r by simp_all
  let ?ids = "dec_oid_prefix m @ drop 2 (oid_id oid)"
  have p2: "length (dec_oid_prefix m) = 2" by (simp add: dec_oid_prefix_def)
  have "dec_oid_loop 0 \<lparr>oid_len = 4, oid_id = ?ids[3 := ucast b]\<rparr> c2 st =
      Some (ERR_OK, \<lparr>oid_len = 4, oid_id = ?ids[3 := ucast b]\<rparr>)"
    by (subst dec_oid_loop.simps) simp
  then have "dec_oid_loop 1 \<lparr>oid_len = 3, oid_id = ?ids\<rparr> c2 st =
      Some (ERR_OK, \<lparr>oid_len = 4, oid_id = ?ids[3 := ucast b]\<rparr>)"
    using g(3) hi(2) by (subst dec_oid_loop.simps) (simp add: LWIP_SNMP_OBJ_ID_LEN_def set_id_def)
  then have "dec_oid_loop 1 \<lparr>oid_len = 2, oid_id = ?ids\<rparr> c1 st =
      Some (ERR_OK, \<lparr>oid_len = 4, oid_id = ?ids[3 := ucast b]\<rparr>)"
    using g(2) hi(1) c2(1) by (subst dec_oid_loop.simps) (simp add: LWIP_SNMP_OBJ_ID_LEN_def)
  moreover have "?ids[3 := ucast b] = dec_oid_prefix m @ [oid_id oid ! 2, ucast b] @ drop 4 (oid_id oid)"
  proof (rule nth_equalityI)
    fix i
    assume "i < length (?ids[3 := ucast b])"
    then show "?ids[3 := ucast b] ! i = (dec_oid_prefix m @ [oid_id oid ! 2, ucast b] @ drop 4 (oid_id oid)) ! i"
      using l p2 by (auto simp: nth_append nth_list_update nth_Cons less_Suc_eq numeral_eq_Suc split: nat.split)
  qed (simp add: l p2)
  ultimately show ?thesis using c(1) c1(1) g(1) by (simp add: snmp_asn1_dec_oid_def)
qed

subsection \<open>Properties\<close>

text \<open>
  C33. An object identifier of 3 to 32 arcs takes as many octets as \<open>snmp_asn1_enc_oid_cnt\<close> says;
  \<open>snmp_asn1_enc_oid\<close> writes exactly these, or reports that the packet has no room, and \<open>snmp_asn1_dec_oid\<close> reads
  the same arcs back, wherever the pbufs are cut.
\<close>
theorem asn1_oid_roundtrip:
  assumes "packet st p xs" "owned xs" "\<forall>x \<in> set xs. 0 < unat (len (snd x))"
    and "valid_oid ident" "length (oid_id oid) = 32"
  shows "\<exists>n. snmp_asn1_enc_oid_cnt (of_nat (length ident)) ident = Some n \<and>
    encodes st xs ofs (unat n) (snmp_asn1_enc_oid p ofs (of_nat (length ident)) ident)
      (\<lambda>st'. \<exists>r. snmp_asn1_dec_oid p ofs n oid st' = Some (ERR_OK, r) \<and>
        unat (oid_len r) = length ident \<and> take (length ident) (oid_id r) = ident)"
proof -
  have "octets st p xs (packet_bytes st xs)" using assms(1-3) by (simp add: octets_def)
  from enc_oid_roundtrip [OF this assms(4,5)] show ?thesis .
qed

theorem asn1_oid_roundtrip_witness:
  "\<exists>n st' r. snmp_asn1_enc_oid_cnt 4 [1, 3, 6, 300] = Some n \<and>
     snmp_asn1_enc_oid (Some (PoolA MEMP_PBUF_POOL 0)) 1 4 [1, 3, 6, 300] pmem_sample = Some (ERR_OK, st') \<and>
     snmp_asn1_dec_oid (Some (PoolA MEMP_PBUF_POOL 0)) 1 n \<lparr>oid_len = 0, oid_id = replicate 32 0\<rparr> st' = Some (ERR_OK, r) \<and>
     take 4 (oid_id r) = [1, 3, 6, 300]"
proof -
  note f = pmem_sample_facts
  have full: "\<forall>x \<in> set xs_sample. 0 < unat (len (snd x))" using f(13) by blast
  have v: "valid_oid [1, 3, 6, 300]" by (simp add: valid_oid_def)
  have s: "sub_id_cnt 0 c = c" for c by (subst sub_id_cnt.simps) simp
  have e: "signed_drop_bit 7 (6 :: u32) = 0" "signed_drop_bit 7 (300 :: u32) = 2" "signed_drop_bit 7 (2 :: u32) = 0"
    by (simp_all add: nonneg_shift drop_bit_eq_div word_unat_eq_iff unat_div)
  have "snmp_asn1_enc_oid_cnt 4 [1, 3, 6, 300] = Some 4"
    by (simp add: snmp_asn1_enc_oid_cnt_def e s) (subst sub_id_cnt.simps, simp add: e s)
  moreover have "length [1, 3, 6, 300 :: u32] = 4" by simp
  ultimately show ?thesis
    using asn1_oid_roundtrip [OF f(1,5) full v, of "\<lparr>oid_len = 0, oid_id = replicate 32 0\<rparr>" 1]
    by (simp only: of_nat_numeral) (auto simp: encodes_def f(7))
qed

text \<open>
  C34. A field of two octets whose second has bit 7 set is not an identifier, yet \<open>snmp_asn1_dec_oid\<close> accepts it:
  it goes on into the octet after the field and returns four arcs, the third of which it has never written.
\<close>
theorem dec_oid_reads_past:
  assumes "packet st p xs" "owned xs" "\<forall>x \<in> set xs. 0 < unat (len (snd x))"
    and "unat ofs + 3 \<le> lens xs" "take 3 (drop (unat ofs) (packet_bytes st xs)) = [m, a, b]"
    and "a AND 0x80 \<noteq> 0" "b AND 0x80 = 0" "length (oid_id oid) = 32"
  shows "snmp_asn1_dec_oid p ofs 2 oid st =
    Some (ERR_OK, \<lparr>oid_len = 4, oid_id = dec_oid_prefix m @ [oid_id oid ! 2, ucast b] @ drop 4 (oid_id oid)\<rparr>)"
proof -
  have o: "octets st p xs (packet_bytes st xs)" using assms(1-3) by (simp add: octets_def)
  have "reads (packet_bytes st xs) (unat ofs) [m, a, b]"
  proof -
    have "length [m, a, b] = 3" by simp
    then show ?thesis unfolding reads_def using assms(4,5) octets_length [OF o] by (simp only:)
  qed
  from dec_oid_reads_past_ok [OF o this assms(6-8)] show ?thesis .
qed

theorem dec_oid_reads_past_witness:
  "\<exists>st. packet_bytes st xs_sample = [1, 2, 3, 0x81, 5] \<and>
     snmp_asn1_dec_oid (Some (PoolA MEMP_PBUF_POOL 0)) 2 2 \<lparr>oid_len = 0, oid_id = replicate 32 7\<rparr> st =
       Some (ERR_OK, \<lparr>oid_len = 4, oid_id = [0, 3, 7, 5] @ replicate 28 7\<rparr>)"
proof -
  let ?st = "pmem_sample\<lparr>bytes := (bytes pmem_sample)(PData (PoolA MEMP_PBUF_POOL 1) \<mapsto> [0, 0x81, 5])\<rparr>"
  note d = pmem_sample_def xs_sample_def
  have p: "packet ?st (Some (PoolA MEMP_PBUF_POOL 0)) xs_sample" by (simp add: d read_at_def)
  have b: "packet_bytes ?st xs_sample = [1, 2, 3, 0x81, 5]" by (simp add: d pbuf_bytes_def read_at_def)
  have full: "\<forall>x \<in> set xs_sample. 0 < unat (len (snd x))" using pmem_sample_facts(13) by blast
  have "snmp_asn1_dec_oid (Some (PoolA MEMP_PBUF_POOL 0)) 2 2 \<lparr>oid_len = 0, oid_id = replicate 32 7\<rparr> ?st =
      Some (ERR_OK, \<lparr>oid_len = 4, oid_id = dec_oid_prefix 3 @ [oid_id \<lparr>oid_len = 0, oid_id = replicate 32 7\<rparr> ! 2, ucast (5 :: u8)] @
        drop 4 (oid_id \<lparr>oid_len = 0, oid_id = replicate 32 7\<rparr>)\<rparr>)"
    using b pmem_sample_facts(7) by (intro dec_oid_reads_past [OF p pmem_sample_facts(5) full, where a = "0x81"]) simp_all
  then show ?thesis using b by (intro exI [of _ ?st]) (simp add: dec_oid_prefix_def)
qed

end
