(* ===== verification/Main_Loop.thy ===== *)
theory Main_Loop
  imports Board_Io Image
begin

text \<open>
  \<open>App/main.c\<close>: the start of the program and its endless loop, over the devices of the board and the state of the
  stack.  \<open>main_run\<close> are the states it reaches.  The Ethernet interrupt comes between statements; a statement of
  \<open>main\<close> works either on the board or on the stack, so interrupts between the statements that only touch the
  board are the same as interrupts before them.  An interrupt in the middle of a call into the stack is not modelled.
\<close>

definition c_string :: "string \<Rightarrow> u8 list" where
  "c_string s = chars s @ [0]"

definition CRLF :: string where "CRLF = [CHR 0x0D, CHR 0x0A]"

definition main_init :: "board \<times> app \<Rightarrow> (board \<times> app) option" where
  "main_init s = do {
     let (b, d) = s;
     let b = MAX485_Init (UART0_Init (LED_config b));
     d \<leftarrow> LwIP_Init app_calls d;
     Some (b, d)
   }"

definition main_show :: "board \<times> app \<Rightarrow> (board \<times> app) option" where
  "main_show s = do {
     let (b, d) = s;
     d \<leftarrow> udp_echo_init d;
     let b = LCM_Cursor 0 0 (LCD_BLK 1 (LCD_Init b));
     b \<leftarrow> LCM_String (c_string ''1111'') b;
     b \<leftarrow> LCM_String (c_string ''192.168.17.148'') (LCM_Cursor 1 0 b);
     b \<leftarrow> MAX485_SendString (c_string (''LPC1768'' @ CRLF)) (MAX485_DIR_S b);
     b \<leftarrow> MAX485_SendString (c_string (''192.168.17.148'' @ CRLF)) b;
     Some (TDelay 10000 (MAX485_DIR_R b), d)
   }"

definition main_turn :: "board \<times> app \<Rightarrow> (board \<times> app) option" where
  "main_turn s = do {
     let (b, d) = s;
     b \<leftarrow> MAX485_SendString (c_string (''LPC1768'' @ CRLF)) (MAX485_DIR_S b);
     b \<leftarrow> MAX485_SendString (c_string (''192.168.17.148'' @ CRLF)) b;
     b \<leftarrow> UART0_SendString (c_string (''192.168.17.148'' @ CRLF)) (MAX485_DIR_R b);
     d \<leftarrow> app_send None None None d;
     Some (TDelay 50000000 b, d)
   }"

text \<open>Where \<open>main\<close> is: after \<open>LwIP_Init\<close>, and in its loop.\<close>

datatype stage = Initialised | Looping

inductive main_run :: "stage \<Rightarrow> board \<times> app \<Rightarrow> bool" where
  init: "fresh d \<Longrightarrow> main_init (b, d) = Some s \<Longrightarrow> main_run Initialised s"
| begins: "main_run Initialised s \<Longrightarrow> main_show s = Some s' \<Longrightarrow> main_run Looping s'"
| turn: "main_run Looping s \<Longrightarrow> main_turn s = Some s' \<Longrightarrow> main_run Looping s'"
| irq: "main_run g (b, d) \<Longrightarrow> ENET_IRQHandler app_upper statuses d = Some d' \<Longrightarrow> main_run g (b, d')"
| hardware: "main_run g (b, d) \<Longrightarrow> main_run g (b, d\<lparr>mac := m\<rparr>)"

subsection \<open>The connection table stays empty\<close>

lemma start_table_stuck: "tsteps start_table t \<Longrightarrow> t = start_table"
proof (induction rule: rtranclp_induct)
  case (step t t')
  then show ?case by (auto simp: start_table_def elim: tstep.cases)
qed simp

lemma main_run_table: "main_run g s \<Longrightarrow> table_of (snd s) = start_table"
proof (induction rule: main_run.induct)
  case (init d b s)
  then show ?case
    using ensuresD [OF LwIP_Init_start [of d app_calls]] by (auto simp: main_init_def bind_eq_Some_conv)
next
  case (begins s s')
  have "ensures (udp_echo_init d) (\<lambda>d'. table_of d' = table_of d)" for d :: app by (auto intro!: wp)
  from ensuresD [OF this] show ?case using begins by (auto simp: main_show_def bind_eq_Some_conv split: prod.splits)
next
  case (turn s s')
  have "ensures (app_send None None None d) (\<lambda>d'. table_of d' = table_of d)" for d :: app by (auto intro!: wp)
  from ensuresD [OF this] show ?case using turn by (auto simp: main_turn_def bind_eq_Some_conv split: prod.splits)
next
  case (irq g b d statuses d')
  then have "conns_ok (table_of d)" using start_table_ok by simp
  then have "ensures (ENET_IRQHandler app_upper statuses d) (\<lambda>d'. tsteps (table_of d) (table_of d'))"
    by (auto intro!: ENET_IRQHandler_steps)
  from ensuresD [OF this irq.hyps(2)] irq.IH show ?case by (simp add: start_table_stuck)
next
  case (hardware g b d m)
  then show ?case by simp
qed

end
