(* ===== verification/Boot.thy ===== *)
theory Boot
  imports Main_Loop
begin

text \<open>
  From power-on to service: on a board whose PHY answers and whose UART transmits, \<open>main\<close> gets through its
  initialisation into the loop, and the stack is then in the state that the properties of the echo start from.
\<close>

subsection \<open>The memory the initialisation takes\<close>

lemma boot_malloc:
  obtains h where "mem_malloc 8 mem_init = Some (Some 8, h)" "heap_rel h [(20, True), (20460, False)]"
proof -
  have "first_fit (adjust_size 8) [(MEM_SIZE_ALIGNED, False)] = Some (0, [(20, True), (20460, False)])"
    by (simp add: mem_consts adjust_size_def LWIP_MEM_ALIGN_SIZE_def)
  then show thesis using mem_malloc_rel [OF mem_init_rel, of 8] that by (auto simp: SIZEOF_STRUCT_MEM_def)
qed

lemma boot_pbuf:
  assumes "heap_rel h [(20, True), (20460, False)]"
  obtains h2 h3 where "mem_malloc 60 h = Some (Some 28, h2)" "mem_free (Some 28) h2 = Some h3"
proof -
  have "first_fit (adjust_size 60) [(20, True), (20460, False)] = Some (20, [(20, True), (68, True), (20392, False)])"
    by (simp add: mem_consts adjust_size_def LWIP_MEM_ALIGN_SIZE_def)
  then obtain h2 where h2: "mem_malloc 60 h = Some (Some 28, h2)" "heap_rel h2 [(20, True), (68, True), (20392, False)]"
    using mem_malloc_rel [OF assms, of 60] by (auto simp: SIZEOF_STRUCT_MEM_def)
  then obtain h3 where "mem_free (Some 28) h2 = Some h3"
    using mem_free_rel [of h2 "[(20, True)]" 68 "[(20392, False)]"] by (auto simp: SIZEOF_STRUCT_MEM_def)
  then show thesis using that h2(1) by blast
qed

text \<open>The gratuitous ARP request: sent from a \<open>PBUF_RAM\<close> pbuf, which is freed again.\<close>

lemma etharp_request_boot:
  fixes d :: "'a arp_scheme"
  assumes h: "heap_rel (heap (pm d)) [(20, True), (20460, False)]" and p: "pbufs (pm d) (HeapA 28) = None"
    and n: "linkoutput (nif d) = Some Low_level_output" "length (hwaddr (nif d)) = 6"
    and tx: "tx_ok (mac d)" "length (gTxBuf d) = 1536" "tx_queue (mac d) = []"
  shows "\<exists>st g m. etharp_request ip d = Some (ERR_OK, d\<lparr>pm := st, gTxBuf := g, mac := m\<rparr>) \<and>
    pools st = pools (pm d) \<and> pbufs st = pbufs (pm d) \<and> (\<forall>a. bytes st (PData (PoolA MEMP_PBUF_POOL a)) = bytes (pm d) (PData (PoolA MEMP_PBUF_POOL a))) \<and>
    length g = 1536 \<and> tx_ok m \<and> rx_queue m = rx_queue (mac d) \<and> rx_ok m = rx_ok (mac d) \<and>
    tx_queue m = [arp_frame ethbroadcast (hwaddr (nif d)) 1 (hwaddr (nif d)) (ip_addr (nif d)) ethzero ip]"
proof -
  let ?p = "HeapA 28" and ?st = "pm d"
  let ?F = "arp_frame ethbroadcast (hwaddr (nif d)) 1 (hwaddr (nif d)) (ip_addr (nif d)) ethzero ip"
  let ?b = "\<lparr>nextp = None, payload = Some (PData ?p, 0), tot_len = 42, len = 42, ptype = PBUF_RAM, flags = 0, ref = 1\<rparr>"
  obtain h2 h3 where m: "mem_malloc 60 (heap ?st) = Some (Some 28, h2)" "mem_free (Some 28) h2 = Some h3"
    by (rule boot_pbuf [OF h])
  let ?J = "map (junk ?st ?p) [0..<44]"
  let ?st1 = "?st\<lparr>heap := h2, pbufs := (pbufs ?st)(?p \<mapsto> ?b), bytes := (bytes ?st)(PData ?p \<mapsto> ?J)\<rparr>"
  have al: "pbuf_alloc PBUF_RAW 42 PBUF_RAM ?st = Some (Some ?p, ?st1)"
    by (simp add: pbuf_alloc_def SIZEOF_STRUCT_PBUF_def LWIP_MEM_ALIGN_SIZE_def m(1) adjust_size_def MIN_SIZE_ALIGNED_def Let_def)
  have l: "length ?F = 42" by (rule arp_frame_length) (simp_all add: n ethbroadcast_def ethzero_def)
  let ?st2 = "?st1\<lparr>bytes := (bytes ?st1)(PData ?p \<mapsto> ?F @ drop 42 ?J)\<rparr>"
  have wr: "put_bytes ?p 0 ?F ?st1 = Some ?st2"
    using l by (cases ?F) (simp_all add: put_bytes_def write_at_def)
  have F: "ethbroadcast @ hwaddr (nif d) @ bytes_of_u16 (htons ETHTYPE_ARP) @ bytes_of_u16 (htons 1) @
      bytes_of_u16 (htons ETHTYPE_IP) @ bytes_of_u16 (htons 0x0604) @ bytes_of_u16 (htons 1) @ hwaddr (nif d) @
      bytes_of_u32 (ip_addr (nif d)) @ ethzero @ bytes_of_u32 ip = ?F"
    by (simp add: arp_frame_def htons_def bytes_of_u16_def)
  have pk: "packet ?st2 (Some ?p) [(?p, ?b)]" "packet_bytes ?st2 [(?p, ?b)] = ?F"
    using l by (simp_all add: read_at_def pbuf_bytes_def)
  let ?d = "d\<lparr>pm := ?st2\<rparr>"
  obtain g m where out: "low_level_output (Some ?p) ?d = Some (ERR_OK, ?d\<lparr>gTxBuf := g, mac := m\<rparr>)"
    "length g = 1536" "tx_ok m" "tx_queue m = [?F]" "rx_queue m = rx_queue (mac d)" "rx_ok m = rx_ok (mac d)"
    using low_level_output_packet [of ?d ?p "[(?p, ?b)]"] pk tx by auto
  let ?st3 = "?st2\<lparr>pbufs := (pbufs ?st2)(?p := None), heap := h3, bytes := (bytes ?st2)(PData ?p := None)\<rparr>"
  have fr: "pbuf_free (Some ?p) ?st2 = Some (1, ?st3)"
    by (simp add: pbuf_free_def pbuf_free_loop.simps [of "Some _"] pbuf_free_loop.simps [of None] pbuf_dealloc_def m(2) Let_def)
  have "etharp_request ip d = Some (ERR_OK, ?d\<lparr>gTxBuf := g, mac := m\<rparr>\<lparr>pm := ?st3\<rparr>)"
    unfolding etharp_request_def etharp_raw_def al using wr fr out(1) n(1) by (simp add: F Let_def link_output_def)
  moreover have "pbufs ?st3 = pbufs ?st" using p by auto
  ultimately show ?thesis
    using out(2-6) by (intro exI [of _ ?st3] exI [of _ g] exI [of _ m]) (simp add: fun_upd_def)
qed

subsection \<open>The controller\<close>

text \<open>A controller after reset whose PHY answers, idle and with the identifier of the DP83848C.\<close>

definition phy_answers :: "emac \<Rightarrow> bool" where
  "phy_answers m \<longleftrightarrow> never_busy m \<and> n_mrdd m = 0 \<and> mrdd m 0 AND 0x8800 = 0 \<and> phy_id_ok (mrdd m 1) (mrdd m 2) \<and>
     map length (rx_buf m) = replicate 4 1536 \<and> map length (tx_buf m) = replicate 3 1536 \<and>
     rd RxProduceIndex m = 0 \<and> rd TxConsumeIndex m = 0"

lemma init_loop_boot:
  assumes "phy_answers m"
  obtains m' where "init_loop m = Some m'" "rx_ok m'" "tx_ok m'" "rx_queue m' = []" "tx_queue m' = []"
proof -
  obtain ok m' where i: "EMAC_Init 3 ETHADDR m = (ok, m')" by (cases "EMAC_Init 3 ETHADDR m")
  have "ok \<and> rx_ok m' \<and> tx_ok m' \<and> rx_queue m' = [] \<and> tx_queue m' = []"
    using emac_init_success_ok [of m 3 ETHADDR] assms i by (simp add: phy_answers_def)
  then show thesis using that i by (simp add: init_loop.simps [of m])
qed

lemma IntCmd_rings: "rx_ok (EMAC_IntCmd f e m) = rx_ok m" "tx_ok (EMAC_IntCmd f e m) = tx_ok m"
  "rx_queue (EMAC_IntCmd f e m) = rx_queue m" "tx_queue (EMAC_IntCmd f e m) = tx_queue m"
  by (simp_all add: EMAC_IntCmd_def wr_def rx_ok_def tx_ok_def rx_queue_def tx_queue_def rx_pidx_def rx_cidx_def
      tx_pidx_def tx_cidx_def rx_slot_def [abs_def] tx_slot_def [abs_def])

text \<open>Power-on: the data of the program is zero, the buffers of the pool are there, and the controller answers.\<close>

definition power_on :: "app \<Rightarrow> bool" where
  "power_on d \<longleftrightarrow> fresh d \<and> raw_pcbs d = [] \<and> udp_pcbs d = [] \<and> udp_mem d = Map.empty \<and>
     arp_table d = replicate ARP_TABLE_SIZE \<lparr>equeue = [], eip = 0, eeth = ethzero, estate = ETHARP_STATE_EMPTY, ctime = 0\<rparr> \<and>
     etharp_cached_entry d = 0 \<and> length (gRxBuf d) = 1536 \<and> length (gTxBuf d) = 1536 \<and> pbufs (pm d) = Map.empty \<and>
     (\<forall>i < 10. \<exists>B. bytes (pm d) (PData (PoolA MEMP_PBUF_POOL i)) = Some B \<and> length B = 1500) \<and> phy_answers (mac d)"

lemma LwIP_Init_boots:
  assumes on: "power_on d"
  shows "\<exists>d'. LwIP_Init up d = Some d' \<and> rx_ok (mac d') \<and> tx_ok (mac d') \<and> length (gRxBuf d') = 1536 \<and>
    length (gTxBuf d') = 1536 \<and> pool_ok (pm d') \<and> pools (pm d') = memp_init \<and> configured (nif d') \<and> netif_listed d' \<and>
    arp_ok d' \<and> (\<forall>e \<in> set (arp_table d'). equeue e = []) \<and> raw_pcbs d' = [] \<and> udp_pcbs d' = [] \<and> udp_mem d' = Map.empty \<and>
    ip_addr (nif d') = IP4_ADDR 192 1 1 168 \<and> rx_queue (mac d') = [] \<and>
    tx_queue (mac d') = [arp_frame ethbroadcast ETHADDR 1 ETHADDR (IP4_ADDR 192 1 1 168) ethzero (IP4_ADDR 192 1 1 168)]"
proof -
  note on = on [unfolded power_on_def fresh_def]
  obtain h where h: "mem_malloc 8 mem_init = Some (Some 8, h)" "heap_rel h [(20, True), (20460, False)]" by (rule boot_malloc)
  obtain m where m: "init_loop (mac d) = Some m" "rx_ok m" "tx_ok m" "rx_queue m = []" "tx_queue m = []"
    using init_loop_boot on by blast
  let ?ip = "IP4_ADDR 192 1 1 168"
  let ?n = "(nif d)\<lparr>nnum := netifnum d, inputf := Some Ethernet_input, ip_addr := ?ip, netmask := IP4_ADDR 255 255 255 0,
      gw := IP4_ADDR 192 1 1 1, nstate := Some 8, nname := (0x57, 0x42), outputf := Some Etharp_output,
      linkoutput := Some Low_level_output, hwaddr_len := 6, hwaddr := ETHADDR, mtu := 1536, nflags := 0x33\<rparr>"
  let ?m = "EMAC_IntCmd (EMAC_INT_RX_OVERRUN OR EMAC_INT_TX_DONE OR EMAC_INT_RX_DONE) True m"
  let ?d = "d\<lparr>netifnum := netifnum d + 1, listen_mem := (\<lambda>_. None), pm := (pm d)\<lparr>pools := memp_init, heap := h\<rparr>,
      PINSEL2 := 0x50150105, PINSEL3 := (PINSEL3 d AND NOT 0xF) OR 0x5, mac := ?m, nvic := True, netif_listed := True,
      netif_is_default := True, nif := ?n\<rparr>"
  have nz: "?ip \<noteq> 0" by (simp add: IP4_ADDR_def htonl_def)
  have run: "LwIP_Init up d = do { (_, d) \<leftarrow> etharp_request ?ip ?d; Some d }"
    using on m(1) h(1) nz
    by (simp add: LwIP_Init_def netif_add_def netif_set_addr_def netif_set_ipaddr_def first_pcb_def abort_bound.simps [of _ None]
        ip_addr_set_def netif_set_gw_def netif_set_netmask_def ethernetif_init_def low_level_init_def Let_def
        netif_set_default_def netif_set_up_def etharp_gratuitous_def)
  have lE: "length ETHADDR = 6" by (simp add: ETHADDR_def)
  obtain st g m2 where r: "etharp_request ?ip ?d = Some (ERR_OK, ?d\<lparr>pm := st, gTxBuf := g, mac := m2\<rparr>)"
    "pools st = memp_init" "pbufs st = Map.empty"
    "\<forall>a. bytes st (PData (PoolA MEMP_PBUF_POOL a)) = bytes (pm d) (PData (PoolA MEMP_PBUF_POOL a))"
    "length g = 1536" "tx_ok m2" "rx_queue m2 = []" "rx_ok m2"
    "tx_queue m2 = [arp_frame ethbroadcast ETHADDR 1 ETHADDR ?ip ethzero ?ip]"
    using etharp_request_boot [of ?d ?ip] h(2) on m lE by (auto simp: IntCmd_rings)
  let ?d' = "?d\<lparr>pm := st, gTxBuf := g, mac := m2\<rparr>"
  have pool: "pool_ok (pm ?d')"
    using on r(2-4) by (auto simp: pool_ok_def memp_init_eq PBUF_POOL_BUFSIZE_ALIGNED_def)
  have u: "unicast ?n ?ip"
    by (simp add: unicast_def IP4_ADDR_def htonl_def ip_addr_isbroadcast_def ip_addr_ismulticast_def ip_addr_netcmp_def)
  then have conf: "configured (nif ?d')" using lE by (simp add: configured_def)
  have arp: "arp_ok ?d'" "\<forall>e \<in> set (arp_table ?d'). equeue e = []"
    using on by (auto simp: arp_ok_def table_ok_def live_def)
  show ?thesis
    using run r pool conf arp on by (intro exI [of _ ?d']) simp
qed

text \<open>\<open>udp_echo_init\<close> takes the first UDP control block of the pool.\<close>

lemma udp_echo_init_boots:
  assumes "pools (pm d) = memp_init" "udp_pcbs d = []" "pool_ok (pm d)"
  shows "\<exists>st. udp_echo_init d = Some (d\<lparr>pm := st, udp_mem := (udp_mem d)(5 \<mapsto> echo_udp), echo_pcb := Some 5, udp_pcbs := [5]\<rparr>) \<and>
    pool_ok st \<and> pool_free st = memp_init MEMP_PBUF_POOL"
proof -
  let ?st = "(pm d)\<lparr>pools := memp_init(MEMP_UDP_PCB := [4, 3, 2, 1, 0])\<rparr>"
  have "memp_init MEMP_UDP_PCB = [5, 4, 3, 2, 1, 0]" by (simp add: memp_init_eq upt_rec)
  then have "memp_malloc MEMP_UDP_PCB memp_init = (Some 5, memp_init(MEMP_UDP_PCB := [4, 3, 2, 1, 0]))"
    by (simp add: memp_malloc_def)
  then have "udp_echo_init d = Some (d\<lparr>pm := ?st, udp_mem := (udp_mem d)(5 \<mapsto> echo_udp), echo_pcb := Some 5, udp_pcbs := [5]\<rparr>)"
    using assms(1,2)
    by (simp add: udp_echo_init_def udp_new_def udp_bind_def udp_recv_def upd_udp_def echo_udp_def ip_addr_set_def Let_def)
  moreover have "pool_ok ?st" using assms(1,3) by (simp add: pool_ok_def)
  ultimately show ?thesis by (intro exI [of _ ?st]) simp
qed

lemma station_boots:
  assumes "power_on d"
  obtains d1 d' where "LwIP_Init up d = Some d1" "udp_echo_init d1 = Some d'" "station 5 d'"
    "ip_addr (nif d') = IP4_ADDR 192 1 1 168" "rx_queue (mac d') = []"
    "tx_queue (mac d') = [arp_frame ethbroadcast ETHADDR 1 ETHADDR (IP4_ADDR 192 1 1 168) ethzero (IP4_ADDR 192 1 1 168)]"
proof -
  obtain d1 where d1: "LwIP_Init up d = Some d1" "rx_ok (mac d1)" "tx_ok (mac d1)" "length (gRxBuf d1) = 1536"
    "length (gTxBuf d1) = 1536" "pool_ok (pm d1)" "pools (pm d1) = memp_init" "configured (nif d1)" "netif_listed d1"
    "arp_ok d1" "\<forall>e \<in> set (arp_table d1). equeue e = []" "raw_pcbs d1 = []" "udp_pcbs d1 = []"
    "ip_addr (nif d1) = IP4_ADDR 192 1 1 168" "rx_queue (mac d1) = []"
    "tx_queue (mac d1) = [arp_frame ethbroadcast ETHADDR 1 ETHADDR (IP4_ADDR 192 1 1 168) ethzero (IP4_ADDR 192 1 1 168)]"
    using LwIP_Init_boots [OF assms] by blast
  obtain st where st: "udp_echo_init d1 = Some (d1\<lparr>pm := st, udp_mem := (udp_mem d1)(5 \<mapsto> echo_udp), echo_pcb := Some 5,
      udp_pcbs := [5]\<rparr>)" "pool_ok st" "pool_free st = memp_init MEMP_PBUF_POOL"
    using udp_echo_init_boots [OF d1(7,13,6)] by blast
  have "memp_init MEMP_PBUF_POOL \<noteq> []" by (simp add: memp_init_eq)
  then have "station 5 (d1\<lparr>pm := st, udp_mem := (udp_mem d1)(5 \<mapsto> echo_udp), echo_pcb := Some 5, udp_pcbs := [5]\<rparr>)"
    using d1 st by (simp add: station_def echoing_def arp_ok_def)
  then show thesis using that [OF d1(1) st(1)] d1 by simp
qed

subsection \<open>The devices of the board\<close>

text \<open>The display is idle and the UARTs become ready again and again.\<close>

definition devices_ok :: "board \<Rightarrow> bool" where
  "devices_ok b \<longleftrightarrow> \<not> bit (p2 b) 12 \<and> ready_often UART0 0x20 b \<and> ready_often UART2 0x20 b"

definition shown :: "string \<Rightarrow> (bool \<times> bool \<times> u8) list" where
  "shown s = map (\<lambda>c. (True, False, c)) (chars s)"

definition commands :: "u8 list \<Rightarrow> (bool \<times> bool \<times> u8) list" where
  "commands cs = map (\<lambda>c. (False, False, c)) cs"

lemma char_value_neq_0: "(of_nat (of_char c) :: u8) = 0 \<longleftrightarrow> c = CHR 0x00"
proof
  assume "(of_nat (of_char c) :: u8) = 0"
  then have "(of_char c :: nat) = of_char (CHR 0x00)"
    using nat_of_char_less_256 [of c] by (simp add: word_unat_eq_iff unat_of_nat take_bit_eq_mod)
  then show "c = CHR 0x00" by (simp only: of_char_eq_iff)
qed simp

lemma c_string_until: "CHR 0x00 \<notin> set s \<Longrightarrow> takeWhile (\<lambda>c. c \<noteq> 0) (c_string s) = chars s" "0 \<in> set (c_string s)"
proof -
  show "CHR 0x00 \<notin> set s \<Longrightarrow> takeWhile (\<lambda>c. c \<noteq> 0) (c_string s) = chars s"
    by (induction s) (auto simp: c_string_def chars_def char_value_neq_0)
qed (simp add: c_string_def)

text \<open>The initialisation before the display leaves the lines alone: the driver receives and EN is low.\<close>

lemma board_init_lines:
  assumes "devices_ok b"
  shows "let b' = MAX485_Init (UART0_Init (LED_config b)) in
    devices_ok b' \<and> \<not> bit (p2 b') 8 \<and> sent b' = sent b \<and> latched b' = latched b"
  using assms
  by (simp add: devices_ok_def ready_often_def MAX485_Init_def UART0_Init_def UART2_Init_def LED_config_def set_ureg_def
      MAX485_DIR_R_def P2_FIOCLR_def set_p2_def bit_and_iff bit_not_iff Let_def)

lemma LCD_BLK_lines:
  assumes "\<not> bit (p2 b) 12"
  shows "\<not> bit (p2 (LCD_BLK v b)) 12" "latched (LCD_BLK v b) = latched b" "sent (LCD_BLK v b) = sent b" "lsr (LCD_BLK v b) = lsr b"
  using assms by (auto simp: LCD_BLK_def LCD_pin_def P2_FIOSET_def P2_FIOCLR_def set_p2_def bit_or_iff bit_and_iff bit_exp_iff
      bit_push_bit_iff bit_1_iff)

subsection \<open>What the board sends and shows\<close>

definition rs485 :: "string \<Rightarrow> (uart \<times> u8 \<times> bool) list" where
  "rs485 s = map (\<lambda>c. (UART2, c, True)) (chars s)"

lemma devices_ok_cong: "lsr b = lsr b' \<Longrightarrow> \<not> bit (p2 b) 12 \<Longrightarrow> devices_ok b' \<Longrightarrow> devices_ok b"
  by (simp add: devices_ok_def ready_often_def)

lemma DIR_lines:
  "devices_ok (MAX485_DIR_S b) = devices_ok b" "devices_ok (MAX485_DIR_R b) = devices_ok b" "devices_ok (TDelay n b) = devices_ok b"
  "sent (MAX485_DIR_S b) = sent b" "sent (MAX485_DIR_R b) = sent b" "sent (TDelay n b) = sent b"
  "\<not> bit (p2 (MAX485_DIR_R b)) 8"
  "devices_ok b \<Longrightarrow> latched (MAX485_DIR_S b) = latched b" "devices_ok b \<Longrightarrow> latched (MAX485_DIR_R b) = latched b"
  by (auto simp: devices_ok_def ready_often_def MAX485_DIR_S_def MAX485_DIR_R_def P2_FIOSET_def P2_FIOCLR_def set_p2_def TDelay_def
      bit_or_iff bit_and_iff bit_not_iff)

lemma rs485_string:
  assumes "devices_ok b" "CHR 0x00 \<notin> set s"
  obtains b' where "MAX485_SendString (c_string s) b = Some b'" "sent b' = sent b @ rs485 s" "\<not> bit (p2 b') 8"
    "devices_ok b'" "latched b' = latched b"
proof -
  obtain b' where "MAX485_SendString (c_string s) b = Some b'" "sent b' = sent b @ rs485 s" "\<not> bit (p2 b') 8"
    "\<not> bit (p2 b') 12" "latched b' = latched b" "lsr b' = lsr b"
    using MAX485_SendString_sends [of b "c_string s"] assms c_string_until
    by (auto simp: devices_ok_def rs485_def)
  then show thesis using that devices_ok_cong [OF _ _ assms(1)] by blast
qed

lemma display_string:
  assumes "devices_ok b" "CHR 0x00 \<notin> set s"
  obtains b' where "LCM_String (c_string s) b = Some b'" "latched b' = latched b @ shown s" "sent b' = sent b" "devices_ok b'"
proof -
  obtain b' where "LCM_String (c_string s) b = Some b'" "latched b' = latched b @ shown s" "sent b' = sent b"
    "\<not> bit (p2 b') 12" "lsr b' = lsr b"
    using LCM_String_latch [of b "c_string s"] assms c_string_until by (auto simp: devices_ok_def shown_def)
  then show thesis using that devices_ok_cong [OF _ _ assms(1)] by blast
qed

lemma cursor_home:
  assumes "devices_ok b" "line \<le> 1"
  shows "devices_ok (LCM_Cursor line 0 b)" "sent (LCM_Cursor line 0 b) = sent b"
    "latched (LCM_Cursor line 0 b) = latched b @ commands [if line = 0 then 0x80 else 0xC0]"
  using LCM_Cursor_latch [OF _ assms(2), of b 0] assms(1) devices_ok_cong [OF _ _ assms(1)]
  by (simp_all add: devices_ok_def commands_def)

lemma display_init:
  assumes "devices_ok b"
  shows "devices_ok (LCD_BLK v (LCD_Init b))" "sent (LCD_BLK v (LCD_Init b)) = sent b"
    "latched (LCD_BLK v (LCD_Init b)) = latched b @ commands [0x38, 0x01, 0x06, 0x0C]"
proof -
  have "\<not> bit (p2 b) 12" using assms by (simp add: devices_ok_def)
  note L = LCD_Init_latch [OF this] LCD_BLK_lines [OF LCD_Init_latch(2) [OF this]]
  show "devices_ok (LCD_BLK v (LCD_Init b))" using L by (intro devices_ok_cong [OF _ _ assms]) simp_all
  show "sent (LCD_BLK v (LCD_Init b)) = sent b" "latched (LCD_BLK v (LCD_Init b)) = latched b @ commands [0x38, 0x01, 0x06, 0x0C]"
    using L by (simp_all add: commands_def)
qed

lemma greeting:
  assumes "devices_ok b"
  obtains b1 b2 where "MAX485_SendString (c_string (''LPC1768'' @ CRLF)) (MAX485_DIR_S b) = Some b1"
    "MAX485_SendString (c_string (''192.168.17.148'' @ CRLF)) b1 = Some b2"
    "sent b2 = sent b @ rs485 (''LPC1768'' @ CRLF @ ''192.168.17.148'' @ CRLF)" "devices_ok b2" "latched b2 = latched b"
proof -
  have no: "CHR 0x00 \<notin> set (''LPC1768'' @ CRLF)" "CHR 0x00 \<notin> set (''192.168.17.148'' @ CRLF)" by (simp_all add: CRLF_def)
  have s: "devices_ok (MAX485_DIR_S b)" using assms by (simp add: DIR_lines)
  obtain b1 where b1: "MAX485_SendString (c_string (''LPC1768'' @ CRLF)) (MAX485_DIR_S b) = Some b1"
    "sent b1 = sent (MAX485_DIR_S b) @ rs485 (''LPC1768'' @ CRLF)" "devices_ok b1" "latched b1 = latched (MAX485_DIR_S b)"
    by (rule rs485_string [OF s no(1)])
  obtain b2 where b2: "MAX485_SendString (c_string (''192.168.17.148'' @ CRLF)) b1 = Some b2"
    "sent b2 = sent b1 @ rs485 (''192.168.17.148'' @ CRLF)" "devices_ok b2" "latched b2 = latched b1"
    by (rule rs485_string [OF b1(3) no(2)])
  show thesis
    using that [OF b1(1) b2(1)] b1 b2 assms by (simp add: DIR_lines rs485_def chars_def)
qed

lemma uart0_string:
  assumes "devices_ok b" "CHR 0x00 \<notin> set s"
  obtains b' where "UART0_SendString (c_string s) b = Some b'" "devices_ok b'" "latched b' = latched b"
    "sent b' = sent b @ map (\<lambda>c. (UART0, c, bit (p2 b) 8)) (chars s)" "p2 b' = p2 b"
proof -
  obtain f where "UART0_SendString (c_string s) b = Some (b\<lparr>n_lsr := f,
      sent := sent b @ map (\<lambda>c. (UART0, c, bit (p2 b) 8)) (chars s)\<rparr>)"
    using send_string_ok [of UART0 b "c_string s"] assms c_string_until by (auto simp: SendString_eq devices_ok_def)
  then show thesis using that assms(1) by (simp add: devices_ok_def)
qed

lemma main_show_board:
  assumes "devices_ok b" "udp_echo_init d = Some d'"
  shows "\<exists>b'. main_show (b, d) = Some (b', d') \<and> devices_ok b' \<and> \<not> bit (p2 b') 8 \<and>
    sent b' = sent b @ rs485 (''LPC1768'' @ CRLF @ ''192.168.17.148'' @ CRLF) \<and>
    latched b' = latched b @ commands [0x38, 0x01, 0x06, 0x0C, 0x80] @ shown ''1111'' @ commands [0xC0] @ shown ''192.168.17.148''"
proof -
  note i = display_init [OF assms(1), of 1]
  let ?b = "LCM_Cursor 0 0 (LCD_BLK 1 (LCD_Init b))"
  have c: "devices_ok ?b" "sent ?b = sent b" "latched ?b = latched b @ commands [0x38, 0x01, 0x06, 0x0C, 0x80]"
    using cursor_home [OF i(1), of 0] i by (simp_all add: commands_def)
  obtain b1 where b1: "LCM_String (c_string ''1111'') ?b = Some b1" "latched b1 = latched ?b @ shown ''1111''"
    "sent b1 = sent ?b" "devices_ok b1" by (rule display_string [OF c(1), of "''1111''"]) simp_all
  note r = cursor_home [OF b1(4), of 1]
  obtain b2 where b2: "LCM_String (c_string ''192.168.17.148'') (LCM_Cursor 1 0 b1) = Some b2"
    "latched b2 = latched (LCM_Cursor 1 0 b1) @ shown ''192.168.17.148''" "sent b2 = sent (LCM_Cursor 1 0 b1)" "devices_ok b2"
    by (rule display_string [OF r(1), of "''192.168.17.148''"]) simp_all
  obtain b3 b4 where g: "MAX485_SendString (c_string (''LPC1768'' @ CRLF)) (MAX485_DIR_S b2) = Some b3"
    "MAX485_SendString (c_string (''192.168.17.148'' @ CRLF)) b3 = Some b4"
    "sent b4 = sent b2 @ rs485 (''LPC1768'' @ CRLF @ ''192.168.17.148'' @ CRLF)" "devices_ok b4" "latched b4 = latched b2"
    by (rule greeting [OF b2(4)])
  have "main_show (b, d) = Some (TDelay 10000 (MAX485_DIR_R b4), d')"
    unfolding main_show_def using assms(2) b1(1) b2(1) g(1,2) by simp
  then show ?thesis
    using DIR_lines g(3-5) b2(2,3) b1(2,3) r c by simp
qed

lemma main_boots_ok:
  assumes "power_on d" "devices_ok b"
  shows "\<exists>b' d'. main_init (b, d) \<bind> main_show = Some (b', d') \<and> station 5 d' \<and>
    ip_addr (nif d') = IP4_ADDR 192 1 1 168 \<and> rx_queue (mac d') = [] \<and>
    tx_queue (mac d') = [arp_frame ethbroadcast ETHADDR 1 ETHADDR (IP4_ADDR 192 1 1 168) ethzero (IP4_ADDR 192 1 1 168)] \<and>
    devices_ok b' \<and> \<not> bit (p2 b') 8 \<and>
    sent b' = sent b @ rs485 (''LPC1768'' @ CRLF @ ''192.168.17.148'' @ CRLF) \<and>
    latched b' = latched b @ commands [0x38, 0x01, 0x06, 0x0C, 0x80] @ shown ''1111'' @ commands [0xC0] @ shown ''192.168.17.148''"
proof -
  obtain d1 d' where d: "LwIP_Init app_calls d = Some d1" "udp_echo_init d1 = Some d'" "station 5 d'"
    "ip_addr (nif d') = IP4_ADDR 192 1 1 168" "rx_queue (mac d') = []"
    "tx_queue (mac d') = [arp_frame ethbroadcast ETHADDR 1 ETHADDR (IP4_ADDR 192 1 1 168) ethzero (IP4_ADDR 192 1 1 168)]"
    by (rule station_boots [OF assms(1)])
  let ?b = "MAX485_Init (UART0_Init (LED_config b))"
  have b: "devices_ok ?b" "sent ?b = sent b" "latched ?b = latched b"
    using board_init_lines [OF assms(2)] by (simp_all add: Let_def)
  have "main_init (b, d) = Some (?b, d1)" using d(1) by (simp add: main_init_def)
  then show ?thesis using main_show_board [OF b(1) d(2)] d b by auto
qed

subsection \<open>Properties\<close>

text \<open>
  C3. From power-on, on a board whose PHY answers and whose UARTs become ready again and again, \<open>main\<close> gets
  through all of its initialisation into the loop.  The station then is ready to answer UDP datagrams on port 5
  of its pool (\<open>station\<close>, the hypothesis of the echo properties): the rings of the controller are set up, the
  gratuitous ARP request for 192.1.1.168 is queued, the two lines of the display have been written after its
  initialisation, and the greeting went out over RS-485 with the driver on, which is off again at the end.
\<close>

theorem main_boots:
  assumes "power_on d" "devices_ok b"
  shows "\<exists>b' d'. main_init (b, d) \<bind> main_show = Some (b', d') \<and> station 5 d' \<and>
    ip_addr (nif d') = IP4_ADDR 192 1 1 168 \<and> rx_queue (mac d') = [] \<and>
    tx_queue (mac d') = [arp_frame ethbroadcast ETHADDR 1 ETHADDR (IP4_ADDR 192 1 1 168) ethzero (IP4_ADDR 192 1 1 168)] \<and>
    devices_ok b' \<and> \<not> bit (p2 b') 8 \<and>
    sent b' = sent b @ rs485 (''LPC1768'' @ CRLF @ ''192.168.17.148'' @ CRLF) \<and>
    latched b' = latched b @ commands [0x38, 0x01, 0x06, 0x0C, 0x80] @ shown ''1111'' @ commands [0xC0] @ shown ''192.168.17.148''"
  by (rule main_boots_ok [OF assms])

text \<open>
  C35. A turn of the main loop whose \<open>send\<close> returns returns, whatever the state of the stack: it
  sends the greeting over RS-485 with the driver on, then the address on UART0 with the driver off, changes nothing
  on the display, leaves the devices as usable as before, and hands the state of \<open>send\<close> on.
\<close>

theorem main_turn_sends:
  assumes "devices_ok b" "app_send None None None d = Some d'"
  shows "\<exists>b'. main_turn (b, d) = Some (b', d') \<and> devices_ok b' \<and> \<not> bit (p2 b') 8 \<and> latched b' = latched b \<and>
    sent b' = sent b @ rs485 (''LPC1768'' @ CRLF @ ''192.168.17.148'' @ CRLF) @
      map (\<lambda>c. (UART0, c, False)) (chars (''192.168.17.148'' @ CRLF))"
proof -
  obtain b1 b2 where g: "MAX485_SendString (c_string (''LPC1768'' @ CRLF)) (MAX485_DIR_S b) = Some b1"
    "MAX485_SendString (c_string (''192.168.17.148'' @ CRLF)) b1 = Some b2"
    "sent b2 = sent b @ rs485 (''LPC1768'' @ CRLF @ ''192.168.17.148'' @ CRLF)" "devices_ok b2" "latched b2 = latched b"
    by (rule greeting [OF assms(1)])
  have r: "devices_ok (MAX485_DIR_R b2)" "\<not> bit (p2 (MAX485_DIR_R b2)) 8" using g(4) by (simp_all add: DIR_lines)
  have no: "CHR 0x00 \<notin> set (''192.168.17.148'' @ CRLF)" by (simp add: CRLF_def)
  obtain b3 where u: "UART0_SendString (c_string (''192.168.17.148'' @ CRLF)) (MAX485_DIR_R b2) = Some b3" "devices_ok b3"
    "latched b3 = latched (MAX485_DIR_R b2)" "p2 b3 = p2 (MAX485_DIR_R b2)"
    "sent b3 = sent (MAX485_DIR_R b2) @ map (\<lambda>c. (UART0, c, bit (p2 (MAX485_DIR_R b2)) 8)) (chars (''192.168.17.148'' @ CRLF))"
    by (rule uart0_string [OF r(1) no])
  have "main_turn (b, d) = Some (TDelay 50000000 b3, d')"
    unfolding main_turn_def using g(1,2) u(1) assms(2) by simp
  then show ?thesis using g r u DIR_lines by simp
qed

text \<open>
  C4. The image as \<open>main\<close> runs it never opens a TCP connection: in every state of a run, with any frames and
  interrupts, no control block is bound, listening, active or waiting, and the two pools are full.  The web
  server of \<open>TCP_server.c\<close>, which \<open>main\<close> does not start, is never reached.
\<close>

theorem main_no_connections:
  assumes "main_run g (b, d)"
  shows "tcp_listen_pcbs d = [] \<and> tcp_active_pcbs d = [] \<and> tcp_tw_pcbs d = [] \<and> tcp_bound_pcbs d = [] \<and>
    (\<forall>i. tcp_mem d i = None) \<and> dom (listen_mem d) = {} \<and>
    pools (pm d) MEMP_TCP_PCB = memp_init MEMP_TCP_PCB \<and> pools (pm d) MEMP_TCP_PCB_LISTEN = memp_init MEMP_TCP_PCB_LISTEN"
  using main_run_table [OF assms] by (simp add: table_of_fields start_table_def)

subsection \<open>Witnesses\<close>

definition powered :: app where
  "powered = (echo_sample [])\<lparr>mac := emac_sample, udp_mem := Map.empty, udp_pcbs := []\<rparr>"

lemma powered_on: "power_on powered"
proof -
  have m: "phy_answers emac_sample"
    by (simp add: phy_answers_def emac_sample_def never_busy_def phy_id_ok_def)
  have "table_of powered = start_table"
    using sample_table [of "[]"] by (simp add: powered_def table_of_def)
  then have "dom (listen_mem powered) = {}" "fresh powered \<longleftrightarrow> (\<forall>j. listen_mem powered j = None)"
    by (simp_all add: fresh_def table_of_fields start_table_def)
  then have "fresh powered" by auto
  moreover have "pbufs (pm dev_sample) = Map.empty"
    "\<forall>i < 10. \<exists>B. bytes (pm dev_sample) (PData (PoolA MEMP_PBUF_POOL i)) = Some B \<and> length B = 1500"
    by (simp_all add: dev_sample_def pmem_init_def PBUF_POOL_BUFSIZE_ALIGNED_def)
  ultimately show ?thesis
    using m dev_sample_ok by (simp add: power_on_def powered_def)
qed

lemma board_sample_ok: "devices_ok board_sample"
proof -
  have "\<exists>k \<ge> n. odd k" for n :: nat by (cases "odd n") (auto intro: exI [of _ n] exI [of _ "Suc n"])
  then show ?thesis by (auto simp: devices_ok_def ready_often_def board_sample_def)
qed

theorem main_boots_witness:
  "\<exists>b' d'. main_init (board_sample, powered) \<bind> main_show = Some (b', d') \<and> station 5 d' \<and>
    sent b' = rs485 (''LPC1768'' @ CRLF @ ''192.168.17.148'' @ CRLF) \<and>
    latched b' = commands [0x38, 0x01, 0x06, 0x0C, 0x80] @ shown ''1111'' @ commands [0xC0] @ shown ''192.168.17.148''"
  using main_boots [OF powered_on board_sample_ok] by (auto simp: board_sample_def)

theorem main_turn_sends_witness:
  "\<exists>b' d'. main_turn (board_sample, powered) = Some (b', d') \<and> latched b' = [] \<and>
    sent b' = rs485 (''LPC1768'' @ CRLF @ ''192.168.17.148'' @ CRLF) @
      map (\<lambda>c. (UART0, c, False)) (chars (''192.168.17.148'' @ CRLF))"
proof -
  have "flag powered = 0" by (simp add: powered_def echo_sample_def arp.extend_def)
  then have "app_send None None None powered = Some (powered\<lparr>flag := 1\<rparr>)" by (simp add: app_send_def)
  from main_turn_sends [OF board_sample_ok this] show ?thesis by (auto simp: board_sample_def)
qed

theorem main_no_connections_witness:
  "\<exists>b d. main_run Looping (b, d) \<and> tcp_listen_pcbs d = [] \<and> tcp_active_pcbs d = []"
proof -
  obtain s b' d' where s: "main_init (board_sample, powered) = Some s" "main_show s = Some (b', d')"
    using main_boots_ok [OF powered_on board_sample_ok] by (auto simp: bind_eq_Some_conv simp del: split_paired_Ex)
  have "fresh powered" using powered_on by (simp add: power_on_def)
  from main_run.init [OF this s(1)] have "main_run Looping (b', d')" using s(2) by (rule main_run.begins)
  then show ?thesis using main_no_connections [of Looping b' d'] by blast
qed

end
