(* ===== verification/Fsm.thy ===== *)
theory Fsm
  imports Prelude
begin

text \<open>
  \<open>netif/ppp/fsm.c\<close>: the automaton that negotiates a PPP control protocol.  \<open>fsm\<close> is \<open>struct fsm\<close>; a \<open>link\<close> is the
  automaton with what it works on: the peer's MRU, its time-out (\<open>TIMEOUT\<close> first cancels one that is pending, so
  there is at most one), and the \<open>trace\<close> of the frames handed to \<open>pppWrite\<close>.  The callbacks of the protocol are an
  argument: functions on the whole link, \<open>None\<close> for a null pointer; their own data are \<open>ext\<close>.  A callback that
  answers with a buffer returns the octets it wrote.  A result \<open>None\<close> is an access outside the output buffer.
\<close>

subsection \<open>Data\<close>

datatype ls =
    LS_INITIAL | LS_STARTING | LS_CLOSED | LS_STOPPED | LS_CLOSING | LS_STOPPING | LS_REQSENT | LS_ACKRCVD
  | LS_ACKSENT | LS_OPENED

record fsm =
  protocol :: u16
  ls :: ls
  opts :: u32
  cur_id :: u8
  reqid :: u8
  seen_ack :: bool
  timeouttime :: int
  maxconfreqtransmits :: int
  retransmits :: int
  maxtermtransmits :: int
  nakloops :: int
  maxnakloops :: int
  term_reason :: "u8 list"

text \<open>What a run shows to the outside: frames, and calls of callbacks that report them.\<close>

datatype call = Up | Down | Starting | Finished

datatype effect = Sent "u8 list" | Called call

record 'e link =
  au :: fsm
  peer_mru :: int
  timer :: "int option"
  trace :: "effect list"
  ext :: 'e

record 'e fsm_callbacks =
  cb_resetci :: "('e link \<Rightarrow> 'e link) option"
  cb_cilen :: "('e link \<Rightarrow> int \<times> 'e link) option"
  cb_addci :: "(int \<Rightarrow> 'e link \<Rightarrow> u8 list \<times> 'e link) option"
  cb_ackci :: "(u8 list \<Rightarrow> 'e link \<Rightarrow> bool \<times> 'e link) option"
  cb_nakci :: "(u8 list \<Rightarrow> 'e link \<Rightarrow> int \<times> 'e link) option"
  cb_rejci :: "(u8 list \<Rightarrow> 'e link \<Rightarrow> int \<times> 'e link) option"
  cb_reqci :: "(u8 list \<Rightarrow> bool \<Rightarrow> 'e link \<Rightarrow> u8 \<times> u8 list \<times> 'e link) option"
  cb_up :: "('e link \<Rightarrow> 'e link) option"
  cb_down :: "('e link \<Rightarrow> 'e link) option"
  cb_starting :: "('e link \<Rightarrow> 'e link) option"
  cb_finished :: "('e link \<Rightarrow> 'e link) option"
  cb_retransmit :: "('e link \<Rightarrow> 'e link) option"
  cb_extcode :: "(u8 \<Rightarrow> u8 \<Rightarrow> u8 list \<Rightarrow> 'e link \<Rightarrow> bool \<times> 'e link) option"

definition CONFREQ :: u8 where "CONFREQ = 1"
definition CONFACK :: u8 where "CONFACK = 2"
definition CONFNAK :: u8 where "CONFNAK = 3"
definition CONFREJ :: u8 where "CONFREJ = 4"
definition TERMREQ :: u8 where "TERMREQ = 5"
definition TERMACK :: u8 where "TERMACK = 6"
definition CODEREJ :: u8 where "CODEREJ = 7"
definition HEADERLEN :: nat where "HEADERLEN = 4"
definition OPT_PASSIVE :: u32 where "OPT_PASSIVE = 1"
definition OPT_RESTART :: u32 where "OPT_RESTART = 2"
definition OPT_SILENT :: u32 where "OPT_SILENT = 4"

lemmas code_defs = CONFREQ_def CONFACK_def CONFNAK_def CONFREJ_def TERMREQ_def TERMACK_def CODEREJ_def

definition upd_au :: "(fsm \<Rightarrow> fsm) \<Rightarrow> 'e link \<Rightarrow> 'e link" where
  "upd_au g w = w\<lparr>au := g (au w)\<rparr>"

definition set_ls :: "ls \<Rightarrow> 'e link \<Rightarrow> 'e link" where
  "set_ls s = upd_au (\<lambda>f. f\<lparr>ls := s\<rparr>)"

text \<open>\<open>f->id\<close> counts modulo 256; \<open>f->reqid = ++f->id\<close>.\<close>

definition new_reqid :: "'e link \<Rightarrow> 'e link" where
  "new_reqid = upd_au (\<lambda>f. f\<lparr>cur_id := cur_id f + 1, reqid := cur_id f + 1\<rparr>)"

definition TIMEOUT :: "'e link \<Rightarrow> 'e link" where
  "TIMEOUT w = w\<lparr>timer := Some (timeouttime (au w))\<rparr>"

definition UNTIMEOUT :: "'e link \<Rightarrow> 'e link" where
  "UNTIMEOUT w = w\<lparr>timer := None\<rparr>"

definition notify :: "('e link \<Rightarrow> 'e link) option \<Rightarrow> 'e link \<Rightarrow> 'e link" where
  "notify c w = (case c of None \<Rightarrow> w | Some g \<Rightarrow> g w)"

subsection \<open>Sending\<close>

text \<open>\<open>MAKEHEADER\<close>, \<open>PUTCHAR\<close>, \<open>PUTSHORT\<close>; the buffer has \<open>PPP_MRU + PPP_HDRLEN\<close> octets.\<close>

definition fsm_frame :: "u16 \<Rightarrow> u8 \<Rightarrow> u8 \<Rightarrow> u8 list \<Rightarrow> u8 list" where
  "fsm_frame proto code ident data =
     (let outlen = List.length data + HEADERLEN
      in [0xff, 3, ucast (drop_bit 8 proto), ucast proto, code, ident, of_nat (outlen div 256), of_nat outlen] @ data)"

definition fsm_sdata :: "u8 \<Rightarrow> u8 \<Rightarrow> u8 list \<Rightarrow> 'e link \<Rightarrow> 'e link option" where
  "fsm_sdata code ident data w =
     (let datalen = int (List.length data);
          datalen = (if peer_mru w - int HEADERLEN < datalen then peer_mru w - int HEADERLEN else datalen)
      in if datalen < 0 \<or> 1500 < datalen + int HEADERLEN then None
         else Some (w\<lparr>trace := trace w @ [Sent (fsm_frame (protocol (au w)) code ident (take (nat datalen) data))]\<rparr>))"

text \<open>\<open>fsm_sdata(f, TERMREQ, f->reqid = ++f->id, f->term_reason, f->term_reason_len)\<close>\<close>

definition send_termreq :: "'e link \<Rightarrow> 'e link option" where
  "send_termreq w = do {
     let w = new_reqid w;
     w \<leftarrow> fsm_sdata TERMREQ (reqid (au w)) (term_reason (au w)) w;
     let w = TIMEOUT w;
     Some (upd_au (\<lambda>f. f\<lparr>retransmits := retransmits f - 1\<rparr>) w)
   }"

definition start_request :: "'e fsm_callbacks \<Rightarrow> bool \<Rightarrow> 'e link \<Rightarrow> 'e link" where
  "start_request cb retransmit w =
     (let w = (if ls (au w) \<notin> {LS_REQSENT, LS_ACKRCVD, LS_ACKSENT}
               then upd_au (\<lambda>f. f\<lparr>nakloops := 0\<rparr>) (notify (cb_resetci cb) w) else w);
          w = (if retransmit then w
               else new_reqid (upd_au (\<lambda>f. f\<lparr>retransmits := maxconfreqtransmits f\<rparr>) w))
      in upd_au (\<lambda>f. f\<lparr>seen_ack := False\<rparr>) w)"

definition own_options :: "'e fsm_callbacks \<Rightarrow> 'e link \<Rightarrow> u8 list \<times> 'e link" where
  "own_options cb w =
     (case (cb_cilen cb, cb_addci cb) of
        (Some cilen, Some addci) \<Rightarrow>
          (let (n, w) = cilen w
           in addci (if peer_mru w - int HEADERLEN < n then peer_mru w - int HEADERLEN else n) w)
      | _ \<Rightarrow> ([], w))"

definition fsm_sconfreq :: "'e fsm_callbacks \<Rightarrow> bool \<Rightarrow> 'e link \<Rightarrow> 'e link option" where
  "fsm_sconfreq cb retransmit w = do {
     let (data, w) = own_options cb (start_request cb retransmit w);
     w \<leftarrow> fsm_sdata CONFREQ (reqid (au w)) data w;
     Some (TIMEOUT (upd_au (\<lambda>f. f\<lparr>retransmits := retransmits f - 1\<rparr>) w))
   }"

subsection \<open>Events from the administrator and the lower layer\<close>

definition fsm_init :: "'e link \<Rightarrow> 'e link" where
  "fsm_init = upd_au (\<lambda>f. f\<lparr>ls := LS_INITIAL, opts := 0, cur_id := 0, timeouttime := 6, maxconfreqtransmits := 10,
     maxtermtransmits := 2, maxnakloops := 5, term_reason := []\<rparr>)"

definition fsm_lowerup :: "'e fsm_callbacks \<Rightarrow> 'e link \<Rightarrow> 'e link option" where
  "fsm_lowerup cb w =
     (case ls (au w) of
        LS_INITIAL \<Rightarrow> Some (set_ls LS_CLOSED w)
      | LS_STARTING \<Rightarrow>
          if opts (au w) AND OPT_SILENT \<noteq> 0 then Some (set_ls LS_STOPPED w)
          else do { w \<leftarrow> fsm_sconfreq cb False w; Some (set_ls LS_REQSENT w) }
      | _ \<Rightarrow> Some w)"

definition fsm_lowerdown :: "'e fsm_callbacks \<Rightarrow> 'e link \<Rightarrow> 'e link" where
  "fsm_lowerdown cb w =
     (case ls (au w) of
        LS_CLOSED \<Rightarrow> set_ls LS_INITIAL w
      | LS_STOPPED \<Rightarrow> notify (cb_starting cb) (set_ls LS_STARTING w)
      | LS_CLOSING \<Rightarrow> UNTIMEOUT (set_ls LS_INITIAL w)
      | LS_STOPPING \<Rightarrow> UNTIMEOUT (set_ls LS_STARTING w)
      | LS_REQSENT \<Rightarrow> UNTIMEOUT (set_ls LS_STARTING w)
      | LS_ACKRCVD \<Rightarrow> UNTIMEOUT (set_ls LS_STARTING w)
      | LS_ACKSENT \<Rightarrow> UNTIMEOUT (set_ls LS_STARTING w)
      | LS_OPENED \<Rightarrow> set_ls LS_STARTING (notify (cb_down cb) w)
      | _ \<Rightarrow> w)"

definition restart_if :: "'e fsm_callbacks \<Rightarrow> 'e link \<Rightarrow> 'e link option" where
  "restart_if cb w =
     (if opts (au w) AND OPT_RESTART \<noteq> 0 then fsm_lowerup cb (fsm_lowerdown cb w) else Some w)"

definition fsm_open :: "'e fsm_callbacks \<Rightarrow> 'e link \<Rightarrow> 'e link option" where
  "fsm_open cb w =
     (case ls (au w) of
        LS_INITIAL \<Rightarrow> Some (notify (cb_starting cb) (set_ls LS_STARTING w))
      | LS_CLOSED \<Rightarrow>
          if opts (au w) AND OPT_SILENT \<noteq> 0 then Some (set_ls LS_STOPPED w)
          else do { w \<leftarrow> fsm_sconfreq cb False w; Some (set_ls LS_REQSENT w) }
      | LS_CLOSING \<Rightarrow> restart_if cb (set_ls LS_STOPPING w)
      | LS_STOPPED \<Rightarrow> restart_if cb w
      | LS_OPENED \<Rightarrow> restart_if cb w
      | _ \<Rightarrow> Some w)"

text \<open>From the negotiating states and from \<open>LS_OPENED\<close>.\<close>

definition terminate_to :: "ls \<Rightarrow> 'e link \<Rightarrow> 'e link option" where
  "terminate_to s w = do {
     w \<leftarrow> send_termreq (upd_au (\<lambda>f. f\<lparr>retransmits := maxtermtransmits f\<rparr>) w);
     Some (set_ls s w)
   }"

definition fsm_close :: "'e fsm_callbacks \<Rightarrow> u8 list \<Rightarrow> 'e link \<Rightarrow> 'e link option" where
  "fsm_close cb reason w =
     (let w = upd_au (\<lambda>f. f\<lparr>term_reason := reason\<rparr>) w
      in case ls (au w) of
           LS_STARTING \<Rightarrow> Some (set_ls LS_INITIAL w)
         | LS_STOPPED \<Rightarrow> Some (set_ls LS_CLOSED w)
         | LS_STOPPING \<Rightarrow> Some (set_ls LS_CLOSING w)
         | LS_REQSENT \<Rightarrow> terminate_to LS_CLOSING (UNTIMEOUT w)
         | LS_ACKRCVD \<Rightarrow> terminate_to LS_CLOSING (UNTIMEOUT w)
         | LS_ACKSENT \<Rightarrow> terminate_to LS_CLOSING (UNTIMEOUT w)
         | LS_OPENED \<Rightarrow> terminate_to LS_CLOSING (notify (cb_down cb) w)
         | _ \<Rightarrow> Some w)"

definition fsm_protreject :: "'e fsm_callbacks \<Rightarrow> 'e link \<Rightarrow> 'e link option" where
  "fsm_protreject cb w =
     (case ls (au w) of
        LS_CLOSING \<Rightarrow> Some (notify (cb_finished cb) (set_ls LS_CLOSED (UNTIMEOUT w)))
      | LS_CLOSED \<Rightarrow> Some (notify (cb_finished cb) (set_ls LS_CLOSED w))
      | LS_STOPPING \<Rightarrow> Some (notify (cb_finished cb) (set_ls LS_STOPPED (UNTIMEOUT w)))
      | LS_REQSENT \<Rightarrow> Some (notify (cb_finished cb) (set_ls LS_STOPPED (UNTIMEOUT w)))
      | LS_ACKRCVD \<Rightarrow> Some (notify (cb_finished cb) (set_ls LS_STOPPED (UNTIMEOUT w)))
      | LS_ACKSENT \<Rightarrow> Some (notify (cb_finished cb) (set_ls LS_STOPPED (UNTIMEOUT w)))
      | LS_STOPPED \<Rightarrow> Some (notify (cb_finished cb) (set_ls LS_STOPPED w))
      | LS_OPENED \<Rightarrow> terminate_to LS_STOPPING (notify (cb_down cb) w)
      | _ \<Rightarrow> Some w)"

text \<open>The timer service takes the time-out off its list before it calls.\<close>

definition fsm_timeout :: "'e fsm_callbacks \<Rightarrow> 'e link \<Rightarrow> 'e link option" where
  "fsm_timeout cb w =
     (if ls (au w) \<in> {LS_CLOSING, LS_STOPPING}
      then if retransmits (au w) \<le> 0
           then Some (notify (cb_finished cb) (set_ls (if ls (au w) = LS_CLOSING then LS_CLOSED else LS_STOPPED) w))
           else send_termreq w
      else if ls (au w) \<in> {LS_REQSENT, LS_ACKRCVD, LS_ACKSENT}
      then if retransmits (au w) \<le> 0
           then (let w = set_ls LS_STOPPED w
                 in Some (if opts (au w) AND OPT_PASSIVE = 0 then notify (cb_finished cb) w else w))
           else do {
             w \<leftarrow> fsm_sconfreq cb True (notify (cb_retransmit cb) w);
             Some (if ls (au w) = LS_ACKRCVD then set_ls LS_REQSENT w else w)
           }
      else Some w)"

subsection \<open>Packets\<close>

text \<open>The answer to a Configure-Request that is to be answered.\<close>

definition answer_confreq :: "'e fsm_callbacks \<Rightarrow> u8 \<Rightarrow> u8 list \<Rightarrow> 'e link \<Rightarrow> 'e link option" where
  "answer_confreq cb ident inp w = do {
     let (code, inp, w) =
       (case cb_reqci cb of
          Some reqci \<Rightarrow> reqci inp (maxnakloops (au w) \<le> nakloops (au w)) w
        | None \<Rightarrow> (if inp \<noteq> [] then CONFREJ else CONFACK, inp, w));
     w \<leftarrow> fsm_sdata code ident inp w;
     Some (if code = CONFACK
           then upd_au (\<lambda>f. f\<lparr>nakloops := 0\<rparr>)
             (if ls (au w) = LS_ACKRCVD then notify (cb_up cb) (set_ls LS_OPENED (UNTIMEOUT w))
              else set_ls LS_ACKSENT w)
           else (let w = (if ls (au w) \<noteq> LS_ACKRCVD then set_ls LS_REQSENT w else w)
                 in if code = CONFNAK then upd_au (\<lambda>f. f\<lparr>nakloops := nakloops f + 1\<rparr>) w else w))
   }"

definition fsm_rconfreq :: "'e fsm_callbacks \<Rightarrow> u8 \<Rightarrow> u8 list \<Rightarrow> 'e link \<Rightarrow> 'e link option" where
  "fsm_rconfreq cb ident inp w =
     (case ls (au w) of
        LS_CLOSED \<Rightarrow> fsm_sdata TERMACK ident [] w
      | LS_CLOSING \<Rightarrow> Some w
      | LS_STOPPING \<Rightarrow> Some w
      | LS_OPENED \<Rightarrow> do { w \<leftarrow> fsm_sconfreq cb False (notify (cb_down cb) w); answer_confreq cb ident inp w }
      | LS_STOPPED \<Rightarrow> do { w \<leftarrow> fsm_sconfreq cb False w; answer_confreq cb ident inp (set_ls LS_REQSENT w) }
      | _ \<Rightarrow> answer_confreq cb ident inp w)"

text \<open>The part of \<open>fsm_rconfack\<close> and \<open>fsm_rconfnakrej\<close> after the packet was found valid.\<close>

definition valid_ack :: "'e fsm_callbacks \<Rightarrow> u8 \<Rightarrow> 'e link \<Rightarrow> 'e link option" where
  "valid_ack cb ident w =
     (case ls (au w) of
        LS_CLOSED \<Rightarrow> fsm_sdata TERMACK ident [] w
      | LS_STOPPED \<Rightarrow> fsm_sdata TERMACK ident [] w
      | LS_REQSENT \<Rightarrow> Some (upd_au (\<lambda>f. f\<lparr>ls := LS_ACKRCVD, retransmits := maxconfreqtransmits f\<rparr>) w)
      | LS_ACKRCVD \<Rightarrow> do { w \<leftarrow> fsm_sconfreq cb False (UNTIMEOUT w); Some (set_ls LS_REQSENT w) }
      | LS_ACKSENT \<Rightarrow> Some (notify (cb_up cb)
          (upd_au (\<lambda>f. f\<lparr>ls := LS_OPENED, retransmits := maxconfreqtransmits f\<rparr>) (UNTIMEOUT w)))
      | LS_OPENED \<Rightarrow> do { w \<leftarrow> fsm_sconfreq cb False (notify (cb_down cb) w); Some (set_ls LS_REQSENT w) }
      | _ \<Rightarrow> Some w)"

definition fsm_rconfack :: "'e fsm_callbacks \<Rightarrow> u8 \<Rightarrow> u8 list \<Rightarrow> 'e link \<Rightarrow> 'e link option" where
  "fsm_rconfack cb ident inp w =
     (if ident \<noteq> reqid (au w) \<or> seen_ack (au w) then Some w
      else (let (good, w) = (case cb_ackci cb of Some ackci \<Rightarrow> ackci inp w | None \<Rightarrow> (inp = [], w))
            in if \<not> good then Some w else valid_ack cb ident (upd_au (\<lambda>f. f\<lparr>seen_ack := True\<rparr>) w)))"

definition valid_nakrej :: "'e fsm_callbacks \<Rightarrow> int \<Rightarrow> u8 \<Rightarrow> 'e link \<Rightarrow> 'e link option" where
  "valid_nakrej cb ret ident w =
     (let try_again = (let w = UNTIMEOUT w in if ret < 0 then Some (set_ls LS_STOPPED w) else fsm_sconfreq cb False w)
      in case ls (au w) of
           LS_CLOSED \<Rightarrow> fsm_sdata TERMACK ident [] w
         | LS_STOPPED \<Rightarrow> fsm_sdata TERMACK ident [] w
         | LS_REQSENT \<Rightarrow> try_again
         | LS_ACKSENT \<Rightarrow> try_again
         | LS_ACKRCVD \<Rightarrow> do { w \<leftarrow> fsm_sconfreq cb False (UNTIMEOUT w); Some (set_ls LS_REQSENT w) }
         | LS_OPENED \<Rightarrow> do { w \<leftarrow> fsm_sconfreq cb False (notify (cb_down cb) w); Some (set_ls LS_REQSENT w) }
         | _ \<Rightarrow> Some w)"

definition fsm_rconfnakrej :: "'e fsm_callbacks \<Rightarrow> u8 \<Rightarrow> u8 \<Rightarrow> u8 list \<Rightarrow> 'e link \<Rightarrow> 'e link option" where
  "fsm_rconfnakrej cb code ident inp w =
     (if ident \<noteq> reqid (au w) \<or> seen_ack (au w) then Some w
      else (let (ret, w) = (case (if code = CONFNAK then cb_nakci cb else cb_rejci cb) of
                None \<Rightarrow> (0, w) | Some proc \<Rightarrow> proc inp w)
            in if ret = 0 then Some w else valid_nakrej cb ret ident (upd_au (\<lambda>f. f\<lparr>seen_ack := True\<rparr>) w)))"

definition fsm_rtermreq :: "'e fsm_callbacks \<Rightarrow> u8 \<Rightarrow> 'e link \<Rightarrow> 'e link option" where
  "fsm_rtermreq cb ident w =
     fsm_sdata TERMACK ident []
       (case ls (au w) of
          LS_ACKRCVD \<Rightarrow> set_ls LS_REQSENT w
        | LS_ACKSENT \<Rightarrow> set_ls LS_REQSENT w
        | LS_OPENED \<Rightarrow> TIMEOUT (upd_au (\<lambda>f. f\<lparr>retransmits := 0, ls := LS_STOPPING\<rparr>) (notify (cb_down cb) w))
        | _ \<Rightarrow> w)"

definition fsm_rtermack :: "'e fsm_callbacks \<Rightarrow> 'e link \<Rightarrow> 'e link option" where
  "fsm_rtermack cb w =
     (case ls (au w) of
        LS_CLOSING \<Rightarrow> Some (notify (cb_finished cb) (set_ls LS_CLOSED (UNTIMEOUT w)))
      | LS_STOPPING \<Rightarrow> Some (notify (cb_finished cb) (set_ls LS_STOPPED (UNTIMEOUT w)))
      | LS_ACKRCVD \<Rightarrow> Some (set_ls LS_REQSENT w)
      | LS_OPENED \<Rightarrow> fsm_sconfreq cb False (notify (cb_down cb) w)
      | _ \<Rightarrow> Some w)"

definition fsm_rcoderej :: "u8 list \<Rightarrow> 'e link \<Rightarrow> 'e link" where
  "fsm_rcoderej inp w =
     (if List.length inp < HEADERLEN then w
      else if ls (au w) = LS_ACKRCVD then set_ls LS_REQSENT w else w)"

text \<open>A packet of another code: for the protocol, or rejected as a whole.\<close>

definition fsm_other :: "'e fsm_callbacks \<Rightarrow> u8 \<Rightarrow> u8 \<Rightarrow> u8 list \<Rightarrow> u8 list \<Rightarrow> 'e link \<Rightarrow> 'e link option" where
  "fsm_other cb code ident inp packet w =
     (let (known, w) = (case cb_extcode cb of None \<Rightarrow> (False, w) | Some extcode \<Rightarrow> extcode code ident inp w)
      in if known then Some w
         else (let w = upd_au (\<lambda>f. f\<lparr>cur_id := cur_id f + 1\<rparr>) w
               in fsm_sdata CODEREJ (cur_id (au w)) packet w))"

text \<open>\<open>inpacket\<close> are the \<open>l\<close> octets received; \<open>GETSHORT\<close> is big endian.\<close>

definition fsm_input :: "'e fsm_callbacks \<Rightarrow> u8 list \<Rightarrow> 'e link \<Rightarrow> 'e link option" where
  "fsm_input cb inpacket w =
     (if List.length inpacket < HEADERLEN then Some w
      else (let code = inpacket ! 0; ident = inpacket ! 1; len = unat (inpacket ! 2) * 256 + unat (inpacket ! 3)
            in if len < HEADERLEN \<or> List.length inpacket < len then Some w
               else (let inp = take (len - HEADERLEN) (drop HEADERLEN inpacket)
                     in if ls (au w) \<in> {LS_INITIAL, LS_STARTING} then Some w
                        else if code = CONFREQ then fsm_rconfreq cb ident inp w
                        else if code = CONFACK then fsm_rconfack cb ident inp w
                        else if code = CONFNAK \<or> code = CONFREJ then fsm_rconfnakrej cb code ident inp w
                        else if code = TERMREQ then fsm_rtermreq cb ident w
                        else if code = TERMACK then fsm_rtermack cb w
                        else if code = CODEREJ then Some (fsm_rcoderej inp w)
                        else fsm_other cb code ident inp (take len inpacket) w)))"

end
