(* ===== verification/Fsm_Rfc.thy ===== *)
theory Fsm_Rfc
  imports Fsm
begin

text \<open>
  The automaton against the state transition table of RFC 1661, section 4.1, for any protocol that is told when the layer
  is up, down, starting or finished and whose callbacks change only their own data and the MRU.
\<close>

subsection \<open>The table of the RFC\<close>

datatype event =
    EUp | EDown | EOpen | EClose | TO_plus | TO_minus | RCR_plus | RCR_minus | RCA | RCN | RCN_stop | RTR | RTA | RUC
  | RXJ_plus | RXJ_minus

datatype action = Tlu | Tld | Tls | Tlf | Scr | Sca | Scn | Str | Sta | Scj

text \<open>
  The restart counter is treated apart; \<open>None\<close> are the entries the RFC leaves empty.  \<open>RCN_stop\<close> is a Configure-Nak or
  -Reject which the protocol answers below 0, for the RFC one like any other.
\<close>

fun rfc1661 :: "event \<Rightarrow> ls \<Rightarrow> (action list \<times> ls) option" where
  "rfc1661 EUp s =
     (case s of LS_INITIAL \<Rightarrow> Some ([], LS_CLOSED) | LS_STARTING \<Rightarrow> Some ([Scr], LS_REQSENT) | _ \<Rightarrow> None)"
| "rfc1661 EDown s =
     (case s of LS_INITIAL \<Rightarrow> None | LS_STARTING \<Rightarrow> None | LS_CLOSED \<Rightarrow> Some ([], LS_INITIAL)
      | LS_STOPPED \<Rightarrow> Some ([Tls], LS_STARTING) | LS_CLOSING \<Rightarrow> Some ([], LS_INITIAL) | LS_OPENED \<Rightarrow> Some ([Tld], LS_STARTING)
      | _ \<Rightarrow> Some ([], LS_STARTING))"
| "rfc1661 EOpen s =
     (case s of LS_INITIAL \<Rightarrow> Some ([Tls], LS_STARTING) | LS_CLOSED \<Rightarrow> Some ([Scr], LS_REQSENT)
      | LS_CLOSING \<Rightarrow> Some ([], LS_STOPPING) | _ \<Rightarrow> Some ([], s))"
| "rfc1661 EClose s =
     (case s of LS_STARTING \<Rightarrow> Some ([Tlf], LS_INITIAL) | LS_STOPPED \<Rightarrow> Some ([], LS_CLOSED)
      | LS_STOPPING \<Rightarrow> Some ([], LS_CLOSING) | LS_REQSENT \<Rightarrow> Some ([Str], LS_CLOSING) | LS_ACKRCVD \<Rightarrow> Some ([Str], LS_CLOSING)
      | LS_ACKSENT \<Rightarrow> Some ([Str], LS_CLOSING) | LS_OPENED \<Rightarrow> Some ([Tld, Str], LS_CLOSING) | _ \<Rightarrow> Some ([], s))"
| "rfc1661 TO_plus s =
     (case s of LS_CLOSING \<Rightarrow> Some ([Str], s) | LS_STOPPING \<Rightarrow> Some ([Str], s) | LS_REQSENT \<Rightarrow> Some ([Scr], s)
      | LS_ACKRCVD \<Rightarrow> Some ([Scr], LS_REQSENT) | LS_ACKSENT \<Rightarrow> Some ([Scr], s) | _ \<Rightarrow> None)"
| "rfc1661 TO_minus s =
     (case s of LS_CLOSING \<Rightarrow> Some ([Tlf], LS_CLOSED) | LS_STOPPING \<Rightarrow> Some ([Tlf], LS_STOPPED)
      | LS_REQSENT \<Rightarrow> Some ([Tlf], LS_STOPPED) | LS_ACKRCVD \<Rightarrow> Some ([Tlf], LS_STOPPED)
      | LS_ACKSENT \<Rightarrow> Some ([Tlf], LS_STOPPED) | _ \<Rightarrow> None)"
| "rfc1661 RCR_plus s =
     (case s of LS_INITIAL \<Rightarrow> None | LS_STARTING \<Rightarrow> None | LS_CLOSED \<Rightarrow> Some ([Sta], s) | LS_STOPPED \<Rightarrow> Some ([Scr, Sca], LS_ACKSENT)
      | LS_CLOSING \<Rightarrow> Some ([], s) | LS_STOPPING \<Rightarrow> Some ([], s) | LS_REQSENT \<Rightarrow> Some ([Sca], LS_ACKSENT)
      | LS_ACKRCVD \<Rightarrow> Some ([Sca, Tlu], LS_OPENED) | LS_ACKSENT \<Rightarrow> Some ([Sca], s)
      | LS_OPENED \<Rightarrow> Some ([Tld, Scr, Sca], LS_ACKSENT))"
| "rfc1661 RCR_minus s =
     (case s of LS_INITIAL \<Rightarrow> None | LS_STARTING \<Rightarrow> None | LS_CLOSED \<Rightarrow> Some ([Sta], s) | LS_STOPPED \<Rightarrow> Some ([Scr, Scn], LS_REQSENT)
      | LS_CLOSING \<Rightarrow> Some ([], s) | LS_STOPPING \<Rightarrow> Some ([], s) | LS_REQSENT \<Rightarrow> Some ([Scn], s)
      | LS_ACKRCVD \<Rightarrow> Some ([Scn], s) | LS_ACKSENT \<Rightarrow> Some ([Scn], LS_REQSENT) | LS_OPENED \<Rightarrow> Some ([Tld, Scr, Scn], LS_REQSENT))"
| "rfc1661 RCA s =
     (case s of LS_INITIAL \<Rightarrow> None | LS_STARTING \<Rightarrow> None | LS_CLOSED \<Rightarrow> Some ([Sta], s) | LS_STOPPED \<Rightarrow> Some ([Sta], s)
      | LS_CLOSING \<Rightarrow> Some ([], s) | LS_STOPPING \<Rightarrow> Some ([], s) | LS_REQSENT \<Rightarrow> Some ([], LS_ACKRCVD)
      | LS_ACKRCVD \<Rightarrow> Some ([Scr], LS_REQSENT) | LS_ACKSENT \<Rightarrow> Some ([Tlu], LS_OPENED) | LS_OPENED \<Rightarrow> Some ([Tld, Scr], LS_REQSENT))"
| "rfc1661 RCN s =
     (case s of LS_INITIAL \<Rightarrow> None | LS_STARTING \<Rightarrow> None | LS_CLOSED \<Rightarrow> Some ([Sta], s) | LS_STOPPED \<Rightarrow> Some ([Sta], s)
      | LS_CLOSING \<Rightarrow> Some ([], s) | LS_STOPPING \<Rightarrow> Some ([], s) | LS_REQSENT \<Rightarrow> Some ([Scr], s)
      | LS_ACKRCVD \<Rightarrow> Some ([Scr], LS_REQSENT) | LS_ACKSENT \<Rightarrow> Some ([Scr], s) | LS_OPENED \<Rightarrow> Some ([Tld, Scr], LS_REQSENT))"
| "rfc1661 RCN_stop s =
     (case s of LS_INITIAL \<Rightarrow> None | LS_STARTING \<Rightarrow> None | LS_CLOSED \<Rightarrow> Some ([Sta], s) | LS_STOPPED \<Rightarrow> Some ([Sta], s)
      | LS_CLOSING \<Rightarrow> Some ([], s) | LS_STOPPING \<Rightarrow> Some ([], s) | LS_REQSENT \<Rightarrow> Some ([Scr], s)
      | LS_ACKRCVD \<Rightarrow> Some ([Scr], LS_REQSENT) | LS_ACKSENT \<Rightarrow> Some ([Scr], s) | LS_OPENED \<Rightarrow> Some ([Tld, Scr], LS_REQSENT))"
| "rfc1661 RTR s =
     (case s of LS_INITIAL \<Rightarrow> None | LS_STARTING \<Rightarrow> None | LS_ACKRCVD \<Rightarrow> Some ([Sta], LS_REQSENT)
      | LS_ACKSENT \<Rightarrow> Some ([Sta], LS_REQSENT) | LS_OPENED \<Rightarrow> Some ([Tld, Sta], LS_STOPPING) | _ \<Rightarrow> Some ([Sta], s))"
| "rfc1661 RTA s =
     (case s of LS_INITIAL \<Rightarrow> None | LS_STARTING \<Rightarrow> None | LS_CLOSING \<Rightarrow> Some ([Tlf], LS_CLOSED)
      | LS_STOPPING \<Rightarrow> Some ([Tlf], LS_STOPPED) | LS_ACKRCVD \<Rightarrow> Some ([], LS_REQSENT)
      | LS_OPENED \<Rightarrow> Some ([Tld, Scr], LS_REQSENT) | _ \<Rightarrow> Some ([], s))"
| "rfc1661 RUC s = (case s of LS_INITIAL \<Rightarrow> None | LS_STARTING \<Rightarrow> None | _ \<Rightarrow> Some ([Scj], s))"
| "rfc1661 RXJ_plus s =
     (case s of LS_INITIAL \<Rightarrow> None | LS_STARTING \<Rightarrow> None | LS_ACKRCVD \<Rightarrow> Some ([], LS_REQSENT) | _ \<Rightarrow> Some ([], s))"
| "rfc1661 RXJ_minus s =
     (case s of LS_INITIAL \<Rightarrow> None | LS_STARTING \<Rightarrow> None | LS_CLOSED \<Rightarrow> Some ([Tlf], s) | LS_STOPPED \<Rightarrow> Some ([Tlf], s)
      | LS_CLOSING \<Rightarrow> Some ([Tlf], LS_CLOSED) | LS_OPENED \<Rightarrow> Some ([Tld, Str], LS_STOPPING) | _ \<Rightarrow> Some ([Tlf], LS_STOPPED))"

text \<open>
  What the code does: an empty entry changes nothing, a Terminate-Ack in \<open>LS_OPENED\<close> leaves the automaton there, a
  Close in \<open>LS_STARTING\<close> is not reported, and a protocol that answers below 0 while its request is out stops silently.
\<close>

definition fsm_table :: "event \<Rightarrow> ls \<Rightarrow> action list \<times> ls" where
  "fsm_table e s =
     (if e = RTA \<and> s = LS_OPENED then ([Tld, Scr], LS_OPENED)
      else if e = EClose \<and> s = LS_STARTING then ([], LS_INITIAL)
      else if e = RCN_stop \<and> s \<in> {LS_REQSENT, LS_ACKSENT} then ([], LS_STOPPED)
      else case rfc1661 e s of None \<Rightarrow> ([], s) | Some r \<Rightarrow> r)"

subsection \<open>Protocols that report\<close>

text \<open>The MRU bound of the buffer, \<open>PPP_MRU\<close>, and room for a header.\<close>

definition mru_ok :: "'e link \<Rightarrow> bool" where
  "mru_ok w \<longleftrightarrow> 4 \<le> peer_mru w \<and> peer_mru w \<le> 1500"

lemma mru_update [simp]: "mru_ok (w\<lparr>au := a\<rparr>) = mru_ok w" "mru_ok (w\<lparr>timer := t\<rparr>) = mru_ok w" "mru_ok (w\<lparr>trace := tr\<rparr>) = mru_ok w"
  "mru_ok (upd_au g w) = mru_ok w"
  by (simp_all add: mru_ok_def upd_au_def)

definition quiet :: "'e link \<Rightarrow> 'e link \<Rightarrow> bool" where
  "quiet w w' \<longleftrightarrow> (\<exists>m e. w' = w\<lparr>peer_mru := m, ext := e\<rparr>) \<and> (mru_ok w \<longrightarrow> mru_ok w')"

lemma quiet_refl [simp]: "quiet w w"
  unfolding quiet_def by (rule conjI, rule exI [of _ "peer_mru w"], rule exI [of _ "ext w"]) simp_all

lemma quietE:
  assumes "quiet w w'"
  obtains m e where "w' = w\<lparr>peer_mru := m, ext := e\<rparr>" "mru_ok w \<Longrightarrow> mru_ok (w\<lparr>peer_mru := m, ext := e\<rparr>)"
  using assms by (auto simp: quiet_def)

lemma quiet_trans: "quiet w w' \<Longrightarrow> quiet w' w'' \<Longrightarrow> quiet w w''"
proof -
  assume a: "quiet w w'" "quiet w' w''"
  then have "mru_ok w \<longrightarrow> mru_ok w''" by (auto simp: quiet_def)
  moreover from a obtain m e where "w'' = w\<lparr>peer_mru := m, ext := e\<rparr>" by (elim quietE) simp
  ultimately show ?thesis unfolding quiet_def by blast
qed

definition report :: "call \<Rightarrow> 'e link \<Rightarrow> 'e link" where
  "report c w = w\<lparr>trace := trace w @ [Called c]\<rparr>"

definition tells :: "call \<Rightarrow> ('e link \<Rightarrow> 'e link) option \<Rightarrow> bool" where
  "tells c cb \<longleftrightarrow> (case cb of None \<Rightarrow> False | Some f \<Rightarrow> (\<forall>w. quiet (report c w) (f w)))"

text \<open>
  No callback calls the automaton back.  The one for codes of the protocol may also send, when it knows the code, as
  \<open>lcp_extcode\<close> does.
\<close>

definition reports :: "'e fsm_callbacks \<Rightarrow> bool" where
  "reports cb \<longleftrightarrow>
     tells Up (cb_up cb) \<and> tells Down (cb_down cb) \<and> tells Starting (cb_starting cb) \<and> tells Finished (cb_finished cb) \<and>
     (\<forall>f w. cb_resetci cb = Some f \<longrightarrow> quiet w (f w)) \<and>
     (\<forall>f w. cb_retransmit cb = Some f \<longrightarrow> quiet w (f w)) \<and>
     (\<forall>f w. cb_cilen cb = Some f \<longrightarrow> quiet w (snd (f w))) \<and>
     (\<forall>f n w. cb_addci cb = Some f \<longrightarrow> quiet w (snd (f n w))) \<and>
     (\<forall>f b w. cb_ackci cb = Some f \<longrightarrow> quiet w (snd (f b w))) \<and>
     (\<forall>f b w. cb_nakci cb = Some f \<longrightarrow> quiet w (snd (f b w))) \<and>
     (\<forall>f b w. cb_rejci cb = Some f \<longrightarrow> quiet w (snd (f b w))) \<and>
     (\<forall>f b r w. cb_reqci cb = Some f \<longrightarrow> fst (f b r w) \<in> {CONFACK, CONFNAK, CONFREJ} \<and> quiet w (snd (snd (f b r w)))) \<and>
     (\<forall>f c i b w. cb_extcode cb = Some f \<longrightarrow>
       (if fst (f c i b w) then \<exists>tr. quiet (w\<lparr>trace := trace w @ tr\<rparr>) (snd (f c i b w)) else quiet w (snd (f c i b w))))"

lemma reports_quiet:
  assumes "reports cb"
  shows "cb_cilen cb = Some cilen \<Longrightarrow> quiet w (snd (cilen w))"
    "cb_addci cb = Some addci \<Longrightarrow> quiet w (snd (addci n w))"
    "cb_ackci cb = Some ackci \<Longrightarrow> quiet w (snd (ackci b w))"
    "cb_nakci cb = Some nakci \<Longrightarrow> quiet w (snd (nakci b w))"
    "cb_rejci cb = Some rejci \<Longrightarrow> quiet w (snd (rejci b w))"
    "cb_reqci cb = Some reqci \<Longrightarrow> quiet w (snd (snd (reqci b r w)))"
    "cb_reqci cb = Some reqci \<Longrightarrow> fst (reqci b r w) \<in> {CONFACK, CONFNAK, CONFREJ}"
    "cb_extcode cb = Some extcode \<Longrightarrow> \<not> fst (extcode c i b w) \<Longrightarrow> quiet w (snd (extcode c i b w))"
    "cb_extcode cb = Some extcode \<Longrightarrow> fst (extcode c i b w) \<Longrightarrow> \<exists>tr. quiet (w\<lparr>trace := trace w @ tr\<rparr>) (snd (extcode c i b w))"
  by (use assms in \<open>simp_all add: reports_def split: if_splits\<close>)

definition code_action :: "u8 \<Rightarrow> action" where
  "code_action code =
     (if code = CONFREQ then Scr else if code = CONFACK then Sca else if code = TERMREQ then Str
      else if code = TERMACK then Sta else if code = CODEREJ then Scj else Scn)"

fun action_of :: "effect \<Rightarrow> action" where
  "action_of (Called Up) = Tlu"
| "action_of (Called Down) = Tld"
| "action_of (Called Starting) = Tls"
| "action_of (Called Finished) = Tlf"
| "action_of (Sent f) = code_action (f ! 4)"

lemma frame_code [simp]: "fsm_frame p code ident data ! 4 = code"
  by (simp add: fsm_frame_def Let_def)

lemma code_actions [simp]: "code_action CONFREQ = Scr" "code_action CONFACK = Sca" "code_action CONFNAK = Scn"
  "code_action CONFREJ = Scn" "code_action TERMREQ = Str" "code_action TERMACK = Sta" "code_action CODEREJ = Scj"
  by (simp_all add: code_action_def code_defs)

definition waiting :: "ls set" where
  "waiting = {LS_CLOSING, LS_STOPPING, LS_REQSENT, LS_ACKRCVD, LS_ACKSENT}"

text \<open>The link went to state \<open>s\<close> by actions \<open>as\<close>; its time-out is pending or not; its settings are kept.\<close>

definition moved :: "'e link \<Rightarrow> action list \<Rightarrow> ls \<Rightarrow> bool \<Rightarrow> int \<Rightarrow> 'e link \<Rightarrow> bool" where
  "moved w as s t n w' \<longleftrightarrow> ls (au w') = s \<and> (\<exists>tr. trace w' = trace w @ tr \<and> map action_of tr = as) \<and>
     (timer w' \<noteq> None \<longleftrightarrow> t) \<and> retransmits (au w') = n \<and> (mru_ok w \<longrightarrow> mru_ok w') \<and> opts (au w') = opts (au w) \<and>
     maxconfreqtransmits (au w') = maxconfreqtransmits (au w) \<and> maxtermtransmits (au w') = maxtermtransmits (au w)"

lemma moved_refl: "moved w [] (ls (au w)) (timer w \<noteq> None) (retransmits (au w)) w"
  by (simp add: moved_def)

lemma moved_trans: "moved w as s t n w' \<Longrightarrow> moved w' as' s' t' n' w'' \<Longrightarrow> moved w (as @ as') s' t' n' w''"
  by (auto simp: moved_def)

lemma moved_mru: "moved w as s t n w' \<Longrightarrow> mru_ok w \<Longrightarrow> mru_ok w'"
  by (simp add: moved_def)

lemma moved_quiet: "moved w as s t n w' \<Longrightarrow> quiet w' w'' \<Longrightarrow> moved w as s t n w''"
  by (auto simp: moved_def quiet_def)

lemma sdata_eq:
  assumes "mru_ok w"
  obtains d where "fsm_sdata code ident data w = Some (w\<lparr>trace := trace w @ [Sent (fsm_frame (protocol (au w)) code ident d)]\<rparr>)"
proof -
  let ?n = "if peer_mru w - int HEADERLEN < int (length data) then peer_mru w - int HEADERLEN else int (length data)"
  have "0 \<le> ?n" "?n + int HEADERLEN \<le> 1500" using assms by (auto simp: mru_ok_def HEADERLEN_def)
  then show thesis using that [of "take (nat ?n) data"] by (simp add: fsm_sdata_def Let_def)
qed

lemma sdata_moved:
  assumes "mru_ok w"
  shows "\<exists>w'. fsm_sdata code ident data w = Some w' \<and> au w' = au w \<and>
    moved w [code_action code] (ls (au w)) (timer w \<noteq> None) (retransmits (au w)) w'"
proof -
  obtain d where "fsm_sdata code ident data w = Some (w\<lparr>trace := trace w @ [Sent (fsm_frame (protocol (au w)) code ident d)]\<rparr>)"
    by (rule sdata_eq [OF assms])
  then show ?thesis by (simp add: moved_def)
qed

lemma termreq_moved:
  assumes "mru_ok w"
  shows "\<exists>w'. send_termreq w = Some w' \<and> moved w [Str] (ls (au w)) True (retransmits (au w) - 1) w'"
proof -
  let ?w = "new_reqid w"
  have "mru_ok ?w" using assms by (simp add: mru_ok_def new_reqid_def upd_au_def)
  then obtain d where "fsm_sdata TERMREQ (reqid (au ?w)) (term_reason (au ?w)) ?w =
      Some (?w\<lparr>trace := trace ?w @ [Sent (fsm_frame (protocol (au ?w)) TERMREQ (reqid (au ?w)) d)]\<rparr>)"
    by (rule sdata_eq)
  then show ?thesis by (simp add: send_termreq_def moved_def TIMEOUT_def upd_au_def) (simp add: new_reqid_def upd_au_def)
qed

text \<open>What a callback leaves of its own data.\<close>

definition own :: "('e link \<Rightarrow> 'e link) option \<Rightarrow> 'e link \<Rightarrow> 'e link \<Rightarrow> 'e link" where
  "own c w v = v\<lparr>peer_mru := peer_mru (notify c w), ext := ext (notify c w)\<rparr>"

lemma own_simps [simp]: "au (own c w v) = au v" "timer (own c w v) = timer v" "trace (own c w v) = trace v"
  "(own c w v)\<lparr>au := a\<rparr> = own c w (v\<lparr>au := a\<rparr>)" "(own c w v)\<lparr>timer := t\<rparr> = own c w (v\<lparr>timer := t\<rparr>)"
  by (simp_all add: own_def)

lemma own_tells:
  assumes "tells c cb"
  shows "notify cb w = own cb w (report c w)" "mru_ok w \<Longrightarrow> mru_ok (own cb w v)"
proof -
  obtain f where f: "cb = Some f" "quiet (report c w) (f w)" using assms by (auto simp: tells_def split: option.splits)
  then obtain m e where "f w = (report c w)\<lparr>peer_mru := m, ext := e\<rparr>" by (auto simp: quiet_def)
  then show "notify cb w = own cb w (report c w)" "mru_ok w \<Longrightarrow> mru_ok (own cb w v)"
    using f by (simp_all add: notify_def own_def quiet_def report_def mru_ok_def)
qed

lemma reports_notify:
  assumes "reports cb"
  shows "notify (cb_up cb) w = own (cb_up cb) w (report Up w)" "notify (cb_down cb) w = own (cb_down cb) w (report Down w)"
    "notify (cb_starting cb) w = own (cb_starting cb) w (report Starting w)"
    "notify (cb_finished cb) w = own (cb_finished cb) w (report Finished w)"
    "mru_ok w \<Longrightarrow> mru_ok (own (cb_up cb) w v)" "mru_ok w \<Longrightarrow> mru_ok (own (cb_down cb) w v)"
    "mru_ok w \<Longrightarrow> mru_ok (own (cb_starting cb) w v)" "mru_ok w \<Longrightarrow> mru_ok (own (cb_finished cb) w v)"
proof -
  have "tells Up (cb_up cb)" "tells Down (cb_down cb)" "tells Starting (cb_starting cb)" "tells Finished (cb_finished cb)"
    using assms by (simp_all add: reports_def)
  note own_tells [OF this(1)] own_tells [OF this(2)] own_tells [OF this(3)] own_tells [OF this(4)]
  then show "notify (cb_up cb) w = own (cb_up cb) w (report Up w)" "notify (cb_down cb) w = own (cb_down cb) w (report Down w)"
    "notify (cb_starting cb) w = own (cb_starting cb) w (report Starting w)"
    "notify (cb_finished cb) w = own (cb_finished cb) w (report Finished w)"
    "mru_ok w \<Longrightarrow> mru_ok (own (cb_up cb) w v)" "mru_ok w \<Longrightarrow> mru_ok (own (cb_down cb) w v)"
    "mru_ok w \<Longrightarrow> mru_ok (own (cb_starting cb) w v)" "mru_ok w \<Longrightarrow> mru_ok (own (cb_finished cb) w v)" by auto
qed

lemma reports_own:
  assumes "reports cb"
  shows "quiet w (notify (cb_resetci cb) w)" "quiet w (notify (cb_retransmit cb) w)"
  using assms by (auto simp: notify_def reports_def split: option.splits)

lemma start_request_moved:
  assumes "reports cb"
  shows "moved w [] (ls (au w)) (timer w \<noteq> None) (if r then retransmits (au w) else maxconfreqtransmits (au w))
    (start_request cb r w)"
proof -
  obtain m e where e: "notify (cb_resetci cb) w = w\<lparr>peer_mru := m, ext := e\<rparr>" "mru_ok w \<Longrightarrow> mru_ok (w\<lparr>peer_mru := m, ext := e\<rparr>)"
    by (rule quietE [OF reports_own(1) [OF assms, of w]]) (rule that)
  show ?thesis using e(2) by (simp add: start_request_def e(1) moved_def new_reqid_def upd_au_def Let_def)
qed

lemma own_options_quiet:
  assumes "reports cb"
  shows "quiet w (snd (own_options cb w))"
proof (cases "cb_cilen cb = None \<or> cb_addci cb = None")
  case True
  then show ?thesis
    by (auto simp: own_options_def split: option.splits)
next
  case False
  then obtain cilen addci where c: "cb_cilen cb = Some cilen" "cb_addci cb = Some addci" by auto
  let ?wc = "snd (cilen w)"
  let ?n = "if peer_mru ?wc - int HEADERLEN < fst (cilen w) then peer_mru ?wc - int HEADERLEN else fst (cilen w)"
  have "own_options cb w = addci ?n ?wc" by (simp add: own_options_def c split_beta Let_def)
  then show ?thesis
    using quiet_trans [OF reports_quiet(1) [OF assms c(1), of w] reports_quiet(2) [OF assms c(2), of ?wc ?n]] by simp
qed

lemma sconfreq_moved:
  assumes cb: "reports cb" and w: "mru_ok w"
  shows "\<exists>w'. fsm_sconfreq cb r w = Some w' \<and>
    moved w [Scr] (ls (au w)) True ((if r then retransmits (au w) else maxconfreqtransmits (au w)) - 1) w'"
proof -
  let ?w2 = "start_request cb r w"
  note m = start_request_moved [OF cb, of w r]
  obtain n e where d: "own_options cb ?w2 = (fst (own_options cb ?w2), ?w2\<lparr>peer_mru := n, ext := e\<rparr>)"
    "mru_ok ?w2 \<Longrightarrow> mru_ok (?w2\<lparr>peer_mru := n, ext := e\<rparr>)"
    by (rule quietE [OF own_options_quiet [OF cb, of ?w2]]) (metis prod.collapse)
  let ?w3 = "?w2\<lparr>peer_mru := n, ext := e\<rparr>" and ?data = "fst (own_options cb ?w2)"
  have ok: "mru_ok ?w3" using d(2) moved_mru [OF m w] by simp
  then obtain x where x: "fsm_sdata CONFREQ (reqid (au ?w3)) ?data ?w3 =
      Some (?w3\<lparr>trace := trace ?w3 @ [Sent (fsm_frame (protocol (au ?w3)) CONFREQ (reqid (au ?w3)) x)]\<rparr>)"
    by (rule sdata_eq)
  have "fsm_sconfreq cb r w = Some (TIMEOUT (upd_au (\<lambda>f. f\<lparr>retransmits := retransmits f - 1\<rparr>)
      (?w3\<lparr>trace := trace ?w3 @ [Sent (fsm_frame (protocol (au ?w3)) CONFREQ (reqid (au ?w3)) x)]\<rparr>)))"
    unfolding fsm_sconfreq_def by (subst d(1)) (simp only: Let_def prod.case x option.case bind.simps)
  then show ?thesis using m ok by (simp add: moved_def TIMEOUT_def upd_au_def)
qed

subsection \<open>Every event\<close>

definition timer_ok :: "'e link \<Rightarrow> bool" where
  "timer_ok w \<longleftrightarrow> (ls (au w) \<in> waiting \<longrightarrow> timer w \<noteq> None)"

text \<open>A time-out is pending outside the states that wait: after that Terminate-Ack, or it was and has not expired.\<close>

definition stray :: "event \<Rightarrow> 'e link \<Rightarrow> bool" where
  "stray e w \<longleftrightarrow> (e = RTA \<and> ls (au w) = LS_OPENED) \<or>
     (timer w \<noteq> None \<and> ls (au w) \<notin> waiting \<and> e \<notin> {TO_plus, TO_minus})"

text \<open>The outcome \<open>r\<close> of event \<open>e\<close> is that of the table, and a time-out is pending in the states that wait.\<close>

definition performs :: "event \<Rightarrow> 'e link \<Rightarrow> 'e link option \<Rightarrow> bool" where
  "performs e w r \<longleftrightarrow> (\<exists>w' n. r = Some w' \<and>
     moved w (fst (fsm_table e (ls (au w)))) (snd (fsm_table e (ls (au w))))
       (snd (fsm_table e (ls (au w))) \<in> waiting \<or> stray e w) n w')"

lemma performsI:
  "r = Some w' \<Longrightarrow> moved w as s t n w' \<Longrightarrow> fsm_table e (ls (au w)) = (as, s) \<Longrightarrow>
   t = (s \<in> waiting \<or> stray e w) \<Longrightarrow> performs e w r"
  by (auto simp: performs_def)

lemmas step_defs = set_ls_def upd_au_def UNTIMEOUT_def TIMEOUT_def report_def

lemma table_simps [simp]:
  "e \<noteq> RTA \<Longrightarrow> e \<noteq> EClose \<Longrightarrow> e \<noteq> RCN_stop \<Longrightarrow> fsm_table e s = (case rfc1661 e s of None \<Rightarrow> ([], s) | Some r \<Rightarrow> r)"
  by (simp add: fsm_table_def)

lemma lowerup_performs:
  assumes "reports cb" "mru_ok w" "timer_ok w" "opts (au w) = 0"
  shows "performs EUp w (fsm_lowerup cb w)"
proof (cases "ls (au w) = LS_STARTING")
  case True
  obtain w' where "fsm_sconfreq cb False w = Some w'" "moved w [Scr] (ls (au w)) True (maxconfreqtransmits (au w) - 1) w'"
    using sconfreq_moved [OF assms(1,2), of False] by auto
  then show ?thesis
    using assms(4) True by (intro performsI [where w' = "set_ls LS_REQSENT w'"])
      (auto simp: fsm_lowerup_def OPT_SILENT_def waiting_def moved_def step_defs)
next
  case False
  then show ?thesis
    using assms(3) by (cases "ls (au w)")
      (auto simp: performs_def fsm_lowerup_def moved_def step_defs timer_ok_def stray_def waiting_def)
qed

lemma lowerdown_performs:
  assumes "reports cb" "timer_ok w"
  shows "performs EDown w (Some (fsm_lowerdown cb w))"
  using assms(2) by (cases "ls (au w)")
    (auto simp: performs_def fsm_lowerdown_def reports_notify [OF assms(1)] moved_def step_defs timer_ok_def stray_def waiting_def)

lemma open_performs:
  assumes "reports cb" "mru_ok w" "timer_ok w" "opts (au w) = 0"
  shows "performs EOpen w (fsm_open cb w)"
proof (cases "ls (au w) = LS_CLOSED")
  case True
  obtain w' where "fsm_sconfreq cb False w = Some w'" "moved w [Scr] (ls (au w)) True (maxconfreqtransmits (au w) - 1) w'"
    using sconfreq_moved [OF assms(1,2), of False] by auto
  then show ?thesis
    using assms(4) True by (intro performsI [where w' = "set_ls LS_REQSENT w'"])
      (auto simp: fsm_open_def OPT_SILENT_def waiting_def moved_def step_defs)
next
  case False
  then show ?thesis
    using assms(3,4) by (cases "ls (au w)")
      (auto simp: performs_def fsm_open_def reports_notify [OF assms(1)] restart_if_def OPT_RESTART_def moved_def step_defs
        timer_ok_def stray_def waiting_def)
qed

lemma terminate_moved:
  assumes "mru_ok w"
  shows "\<exists>w'. terminate_to s w = Some w' \<and> moved w [Str] s True (maxtermtransmits (au w) - 1) w'"
proof -
  let ?w = "upd_au (\<lambda>f. f\<lparr>retransmits := maxtermtransmits f\<rparr>) w"
  have "mru_ok ?w" using assms by (simp add: mru_ok_def upd_au_def)
  from termreq_moved [OF this] obtain w' where "send_termreq ?w = Some w'"
    "moved ?w [Str] (ls (au w)) True (maxtermtransmits (au w) - 1) w'" by (auto simp: upd_au_def)
  then show ?thesis by (auto simp: terminate_to_def moved_def step_defs)
qed

lemma moved_down:
  assumes "reports cb"
  shows "moved w [Tld] (ls (au w)) (timer w \<noteq> None) (retransmits (au w)) (own (cb_down cb) w (report Down w))"
  using reports_notify(6) [OF assms] by (simp add: moved_def) (simp add: report_def)

lemma terminate_after:
  assumes "mru_ok w" "moved w as s t n w0"
  shows "\<exists>w' n. terminate_to s' w0 = Some w' \<and> moved w (as @ [Str]) s' True n w'"
  using terminate_moved [OF moved_mru [OF assms(2,1)], of s'] moved_trans [OF assms(2)] by blast

lemma close_performs:
  assumes "reports cb" "mru_ok w" "timer_ok w"
  shows "performs EClose w (fsm_close cb reason w)"
proof -
  let ?w = "upd_au (\<lambda>f. f\<lparr>term_reason := reason\<rparr>) w"
  have m: "moved w [] (ls (au w)) (timer w \<noteq> None) (retransmits (au w)) ?w" by (simp add: moved_def) (simp add: upd_au_def)
  have "moved w [] (ls (au w)) False (retransmits (au w)) (UNTIMEOUT ?w)" by (simp add: moved_def step_defs)
  from terminate_after [OF assms(2) this]
  have U: "\<exists>w' n. terminate_to LS_CLOSING (UNTIMEOUT ?w) = Some w' \<and> moved w [Str] LS_CLOSING True n w'" by simp
  from terminate_after [OF assms(2) moved_trans [OF m moved_down [OF assms(1)]]]
  have D: "\<exists>w' n. terminate_to LS_CLOSING (own (cb_down cb) ?w (report Down ?w)) = Some w' \<and> moved w [Tld, Str] LS_CLOSING True n w'"
    by simp
  show ?thesis
    using assms(3) U D by (cases "ls (au w)")
      (auto simp: performs_def fsm_close_def reports_notify [OF assms(1)] fsm_table_def waiting_def timer_ok_def stray_def Let_def,
       auto simp: moved_def step_defs reports_notify [OF assms(1)])
qed

lemma protreject_performs:
  assumes "reports cb" "mru_ok w" "timer_ok w"
  shows "performs RXJ_minus w (fsm_protreject cb w)"
proof -
  from terminate_after [OF assms(2) moved_down [OF assms(1)]]
  have D: "\<exists>w' n. terminate_to LS_STOPPING (own (cb_down cb) w (report Down w)) = Some w' \<and> moved w [Tld, Str] LS_STOPPING True n w'"
    by simp
  show ?thesis
    using assms(3) D by (cases "ls (au w)")
      (auto simp: performs_def fsm_protreject_def reports_notify [OF assms(1)] waiting_def timer_ok_def stray_def,
       auto simp: moved_def step_defs reports_notify [OF assms(1)])
qed

text \<open>A time-out that has expired, with the restart counter afterwards.\<close>

definition expire :: "'e fsm_callbacks \<Rightarrow> 'e link \<Rightarrow> 'e link option" where
  "expire cb w = fsm_timeout cb (w\<lparr>timer := None\<rparr>)"

lemma expire_again:
  assumes "reports cb" "mru_ok w" "ls (au w) \<in> waiting" "0 < retransmits (au w)"
  shows "\<exists>w'. expire cb w = Some w' \<and> moved w [if ls (au w) \<in> {LS_CLOSING, LS_STOPPING} then Str else Scr]
    (if ls (au w) = LS_ACKRCVD then LS_REQSENT else ls (au w)) True (retransmits (au w) - 1) w'"
proof (cases "ls (au w) \<in> {LS_CLOSING, LS_STOPPING}")
  case True
  have "mru_ok (w\<lparr>timer := None\<rparr>)" using assms(2) by simp
  from termreq_moved [OF this] show ?thesis using True assms(4) by (auto simp: expire_def fsm_timeout_def moved_def)
next
  case False
  then have s: "ls (au w) \<in> {LS_REQSENT, LS_ACKRCVD, LS_ACKSENT}" using assms(3) by (simp add: waiting_def)
  let ?w = "notify (cb_retransmit cb) (w\<lparr>timer := None\<rparr>)"
  have q: "moved w [] (ls (au w)) False (retransmits (au w)) ?w"
    by (rule moved_quiet [OF _ reports_own(2) [OF assms(1)]]) (simp add: moved_def)
  from sconfreq_moved [OF assms(1) moved_mru [OF q assms(2)], of True] obtain w' where w': "fsm_sconfreq cb True ?w = Some w'"
    "moved ?w [Scr] (ls (au ?w)) True (retransmits (au ?w) - 1) w'" by auto
  have "ls (au ?w) = ls (au w)" "retransmits (au ?w) = retransmits (au w)" using q by (simp_all add: moved_def)
  then have m: "moved w [Scr] (ls (au w)) True (retransmits (au w) - 1) w'" using moved_trans [OF q w'(2)] by simp
  have "expire cb w = Some (if ls (au w') = LS_ACKRCVD then set_ls LS_REQSENT w' else w')"
    using s assms(4) w'(1) by (auto simp: expire_def fsm_timeout_def)
  then show ?thesis using s m by (auto simp: moved_def step_defs)
qed

lemma expire_last:
  assumes "reports cb" "ls (au w) \<in> waiting" "retransmits (au w) \<le> 0" "opts (au w) = 0"
  shows "\<exists>w'. expire cb w = Some w' \<and>
    moved w [Tlf] (if ls (au w) = LS_CLOSING then LS_CLOSED else LS_STOPPED) False (retransmits (au w)) w'"
  using assms(2-4)
  by (auto simp: expire_def fsm_timeout_def moved_def step_defs waiting_def OPT_PASSIVE_def reports_notify [OF assms(1)] Let_def)

lemma expire_performs:
  assumes "reports cb" "mru_ok w" "opts (au w) = 0"
  shows "performs (if 0 < retransmits (au w) then TO_plus else TO_minus) w (expire cb w)"
proof (cases "ls (au w) \<in> waiting")
  case waits: True
  show ?thesis
  proof (cases "0 < retransmits (au w)")
    case True
    then show ?thesis using expire_again [OF assms(1,2) waits] waits
      by (auto simp: performs_def stray_def) (auto simp: waiting_def)
  next
    case False
    then show ?thesis using expire_last [OF assms(1) waits _ assms(3)] waits
      by (auto simp: performs_def stray_def) (auto simp: waiting_def)
  qed
next
  case False
  then have "expire cb w = Some (w\<lparr>timer := None\<rparr>)" by (auto simp: expire_def fsm_timeout_def waiting_def)
  then show ?thesis using False by (cases "ls (au w)") (auto simp: performs_def stray_def moved_def waiting_def)
qed

subsection \<open>Packets\<close>

definition ack_good :: "'e fsm_callbacks \<Rightarrow> u8 list \<Rightarrow> 'e link \<Rightarrow> bool" where
  "ack_good cb inp w = (case cb_ackci cb of Some ackci \<Rightarrow> fst (ackci inp w) | None \<Rightarrow> inp = [])"

definition nak_answer :: "'e fsm_callbacks \<Rightarrow> u8 \<Rightarrow> u8 list \<Rightarrow> 'e link \<Rightarrow> int" where
  "nak_answer cb code inp w =
     (case (if code = CONFNAK then cb_nakci cb else cb_rejci cb) of None \<Rightarrow> 0 | Some proc \<Rightarrow> fst (proc inp w))"

definition code_known :: "'e fsm_callbacks \<Rightarrow> u8 \<Rightarrow> u8 \<Rightarrow> u8 list \<Rightarrow> 'e link \<Rightarrow> bool" where
  "code_known cb code ident inp w =
     (case cb_extcode cb of None \<Rightarrow> False | Some extcode \<Rightarrow> fst (extcode code ident inp w))"

text \<open>
  The events a packet may be; none when it is malformed, not an answer to the last request, or for the protocol
  itself.  Whether a Configure-Request is RCR+ or RCR- is decided by the protocol in the course of the event.
\<close>

definition packet_events :: "'e fsm_callbacks \<Rightarrow> u8 list \<Rightarrow> 'e link \<Rightarrow> event set" where
  "packet_events cb inpacket w =
     (if length inpacket < 4 then {}
      else (let code = inpacket ! 0; ident = inpacket ! 1; len = unat (inpacket ! 2) * 256 + unat (inpacket ! 3);
                inp = take (len - 4) (drop 4 inpacket); expected = (ident = reqid (au w) \<and> \<not> seen_ack (au w))
            in if len < 4 \<or> length inpacket < len then {}
               else if code = CONFREQ then {RCR_plus, RCR_minus}
               else if code = CONFACK then (if expected \<and> ack_good cb inp w then {RCA} else {})
               else if code = CONFNAK \<or> code = CONFREJ then
                 (if \<not> expected \<or> nak_answer cb code inp w = 0 then {} else if 0 < nak_answer cb code inp w then {RCN} else {RCN_stop})
               else if code = TERMREQ then {RTR}
               else if code = TERMACK then {RTA}
               else if code = CODEREJ then (if 4 \<le> length inp then {RXJ_plus} else {})
               else if code_known cb code ident inp w then {} else {RUC}))"

lemma answer_moved:
  assumes cb: "reports cb" and w: "mru_ok w"
  shows "\<exists>w' n. answer_confreq cb ident inp w = Some w' \<and>
    (moved w (if ls (au w) = LS_ACKRCVD then [Sca, Tlu] else [Sca]) (if ls (au w) = LS_ACKRCVD then LS_OPENED else LS_ACKSENT)
       (ls (au w) \<noteq> LS_ACKRCVD \<and> timer w \<noteq> None) n w' \<or>
     moved w [Scn] (if ls (au w) = LS_ACKRCVD then LS_ACKRCVD else LS_REQSENT) (timer w \<noteq> None) n w')"
proof -
  let ?a = "case cb_reqci cb of
      Some reqci \<Rightarrow> reqci inp (maxnakloops (au w) \<le> nakloops (au w)) w
    | None \<Rightarrow> (if inp \<noteq> [] then CONFREJ else CONFACK, inp, w)"
  have "fst ?a \<in> {CONFACK, CONFNAK, CONFREJ} \<and> quiet w (snd (snd ?a))"
    using reports_quiet(6,7) [OF cb] by (auto split: option.splits)
  then obtain code out m e where a: "?a = (code, out, w\<lparr>peer_mru := m, ext := e\<rparr>)" and c: "code \<in> {CONFACK, CONFNAK, CONFREJ}"
    and ok: "mru_ok (w\<lparr>peer_mru := m, ext := e\<rparr>)" using w by (cases ?a) (auto simp: quiet_def)
  let ?v = "w\<lparr>peer_mru := m, ext := e\<rparr>"
  obtain d where "fsm_sdata code ident out ?v = Some (?v\<lparr>trace := trace ?v @
      [Sent (fsm_frame (protocol (au ?v)) code ident d)]\<rparr>)"
    by (rule sdata_eq [OF ok])
  then have d: "fsm_sdata code ident out ?v = Some (?v\<lparr>trace := trace w @ [Sent (fsm_frame (protocol (au w)) code ident d)]\<rparr>)"
    by simp
  have ok2: "mru_ok (?v\<lparr>trace := tr\<rparr>)" "mru_ok (?v\<lparr>trace := tr, au := a\<rparr>)" "mru_ok (?v\<lparr>trace := tr, timer := t, au := a\<rparr>)" for tr a t
    using ok by (simp_all only: mru_update)
  show ?thesis
    using c unfolding answer_confreq_def a
    by (auto simp: d Let_def ok ok2 reports_notify [OF cb] moved_def step_defs code_defs code_action_def)
qed

text \<open>A new request after a step that kept the settings, and what is done after it.\<close>

lemma sconfreq_after:
  assumes "reports cb" "mru_ok w" "moved w as s t n w0"
  shows "\<exists>w' n. fsm_sconfreq cb False w0 = Some w' \<and> moved w (as @ [Scr]) s True n w'"
proof -
  from sconfreq_moved [OF assms(1) moved_mru [OF assms(3,2)], of False] obtain w' where
    "fsm_sconfreq cb False w0 = Some w'" "moved w0 [Scr] (ls (au w0)) True (maxconfreqtransmits (au w0) - 1) w'" by auto
  moreover have "ls (au w0) = s" using assms(3) by (simp add: moved_def)
  ultimately show ?thesis using moved_trans [OF assms(3)] by blast
qed

lemma moved_untimeout: "moved w [] (ls (au w)) False (retransmits (au w)) (UNTIMEOUT w)"
  by (simp add: moved_def UNTIMEOUT_def)

lemma moved_set_ls: "moved w as s t n w' \<Longrightarrow> moved w as s' t n (set_ls s' w')"
  by (simp add: moved_def step_defs)

lemma rconfreq_performs:
  assumes cb: "reports cb" and w: "mru_ok w" and t: "timer_ok w" and s: "ls (au w) \<notin> {LS_INITIAL, LS_STARTING}"
  shows "performs RCR_plus w (fsm_rconfreq cb ident inp w) \<or> performs RCR_minus w (fsm_rconfreq cb ident inp w)"
proof -
  have after: "performs RCR_plus w (answer_confreq cb ident inp w1) \<or> performs RCR_minus w (answer_confreq cb ident inp w1)"
    if m: "moved w as s1 True n w1" and r: "s1 = LS_ACKRCVD \<Longrightarrow> ls (au w) = LS_ACKRCVD" and s1: "s1 \<in> {LS_REQSENT, LS_ACKRCVD, LS_ACKSENT, LS_OPENED}"
      and p: "fsm_table RCR_plus (ls (au w)) = (as @ (if s1 = LS_ACKRCVD then [Sca, Tlu] else [Sca]), if s1 = LS_ACKRCVD then LS_OPENED else LS_ACKSENT)"
      and q: "fsm_table RCR_minus (ls (au w)) = (as @ [Scn], if s1 = LS_ACKRCVD then LS_ACKRCVD else LS_REQSENT)"
    for as s1 n w1
  proof -
    have l: "ls (au w1) = s1" "timer w1 \<noteq> None" using m by (auto simp: moved_def)
    from answer_moved [OF cb moved_mru [OF m w], of ident inp] obtain w' n' where a: "answer_confreq cb ident inp w1 = Some w'"
      "moved w1 (if s1 = LS_ACKRCVD then [Sca, Tlu] else [Sca]) (if s1 = LS_ACKRCVD then LS_OPENED else LS_ACKSENT)
         (s1 \<noteq> LS_ACKRCVD) n' w' \<or>
       moved w1 [Scn] (if s1 = LS_ACKRCVD then LS_ACKRCVD else LS_REQSENT) True n' w'"
      using l by auto
    from a(2) show ?thesis
    proof
      assume "moved w1 (if s1 = LS_ACKRCVD then [Sca, Tlu] else [Sca]) (if s1 = LS_ACKRCVD then LS_OPENED else LS_ACKSENT)
         (s1 \<noteq> LS_ACKRCVD) n' w'"
      from performsI [OF a(1) moved_trans [OF m this] p] show ?thesis using s1 r by (auto simp: waiting_def stray_def)
    next
      assume "moved w1 [Scn] (if s1 = LS_ACKRCVD then LS_ACKRCVD else LS_REQSENT) True n' w'"
      from performsI [OF a(1) moved_trans [OF m this] q] show ?thesis by (auto simp: waiting_def)
    qed
  qed
  have start: "timer w \<noteq> None \<Longrightarrow> moved w [] (ls (au w)) True (retransmits (au w)) w" using moved_refl [of w] by simp
  consider (closed) "ls (au w) = LS_CLOSED" | (closing) "ls (au w) \<in> {LS_CLOSING, LS_STOPPING}"
    | (stopped) "ls (au w) = LS_STOPPED" | (opened) "ls (au w) = LS_OPENED" | (going) "ls (au w) \<in> {LS_REQSENT, LS_ACKRCVD, LS_ACKSENT}"
    using s by (cases "ls (au w)") auto
  then show ?thesis
  proof cases
    case closed
    then show ?thesis
      using sdata_moved [OF w, of TERMACK ident "[]"] t by (auto simp: fsm_rconfreq_def performs_def timer_ok_def stray_def waiting_def)
  next
    case closing
    then have "fsm_rconfreq cb ident inp w = Some w" by (auto simp: fsm_rconfreq_def)
    moreover have "moved w [] (ls (au w)) True (retransmits (au w)) w"
      using start closing t by (auto simp: timer_ok_def stray_def waiting_def)
    ultimately show ?thesis using closing by (auto simp: performs_def waiting_def)
  next
    case stopped
    obtain w1 n where "fsm_sconfreq cb False w = Some w1" "moved w ([] @ [Scr]) (ls (au w)) True n w1"
      using sconfreq_after [OF cb w moved_refl] by blast
    then show ?thesis using stopped after [of "[Scr]" LS_REQSENT n "set_ls LS_REQSENT w1"] moved_set_ls [of w _ _ _ _ w1 LS_REQSENT]
      by (fastforce simp: fsm_rconfreq_def)
  next
    case opened
    obtain w1 n where "fsm_sconfreq cb False (own (cb_down cb) w (report Down w)) = Some w1" "moved w ([Tld] @ [Scr]) (ls (au w)) True n w1"
      using sconfreq_after [OF cb w moved_down [OF cb]] by blast
    then show ?thesis using opened after [of "[Tld, Scr]" LS_OPENED n w1]
      by (auto simp: fsm_rconfreq_def reports_notify [OF cb])
  next
    case going
    then have "timer w \<noteq> None" using t by (auto simp: timer_ok_def stray_def waiting_def)
    from after [OF start [OF this]] going show ?thesis by (auto simp: fsm_rconfreq_def)
  qed
qed

text \<open>The answer of the protocol to an Ack, Nak or Reject changes nothing but its own data and \<open>seen_ack\<close>.\<close>

definition seen :: "'e link \<Rightarrow> 'e link \<Rightarrow> bool" where
  "seen w w' \<longleftrightarrow> (\<exists>w0. quiet w w0 \<and> w' = upd_au (\<lambda>f. f\<lparr>seen_ack := True\<rparr>) w0)"

lemma seen_moved: "seen w w' \<Longrightarrow> moved w [] (ls (au w)) (timer w \<noteq> None) (retransmits (au w)) w'"
  by (auto simp: seen_def quiet_def moved_def) (simp_all add: upd_au_def)

lemma rconfack_seen:
  assumes "reports cb" "ident = reqid (au w)" "\<not> seen_ack (au w)" "ack_good cb inp w"
  shows "\<exists>w1. seen w w1 \<and> fsm_rconfack cb ident inp w = valid_ack cb ident w1"
proof -
  let ?r = "case cb_ackci cb of Some ackci \<Rightarrow> ackci inp w | None \<Rightarrow> (inp = [], w)"
  have "fst ?r \<and> quiet w (snd ?r)"
    using assms(4) reports_quiet(3) [OF assms(1)] by (auto simp: ack_good_def split: option.splits)
  then obtain w0 where e: "?r = (True, w0)" "quiet w w0" by (cases ?r) auto
  show ?thesis
    by (rule exI [of _ "upd_au (\<lambda>f. f\<lparr>seen_ack := True\<rparr>) w0"])
      (use assms(2,3) e(2) in \<open>auto simp: seen_def fsm_rconfack_def e(1) Let_def\<close>)
qed

lemma rconfnakrej_seen:
  assumes "reports cb" "ident = reqid (au w)" "\<not> seen_ack (au w)" "nak_answer cb code inp w \<noteq> 0"
  shows "\<exists>w1. seen w w1 \<and> fsm_rconfnakrej cb code ident inp w = valid_nakrej cb (nak_answer cb code inp w) ident w1"
proof -
  let ?r = "case (if code = CONFNAK then cb_nakci cb else cb_rejci cb) of None \<Rightarrow> (0, w) | Some proc \<Rightarrow> proc inp w"
  have "fst ?r = nak_answer cb code inp w \<and> quiet w (snd ?r)"
    using reports_quiet(4,5) [OF assms(1)] by (auto simp: nak_answer_def split: option.splits if_splits)
  then obtain w0 where e: "?r = (nak_answer cb code inp w, w0)" "quiet w w0" by (cases ?r) auto
  show ?thesis
    by (rule exI [of _ "upd_au (\<lambda>f. f\<lparr>seen_ack := True\<rparr>) w0"])
      (use assms(2-4) e(2) in \<open>auto simp: seen_def fsm_rconfnakrej_def e(1) Let_def\<close>)
qed

text \<open>What both have in common.\<close>

lemma after_seen:
  assumes cb: "reports cb" and w: "mru_ok w" and w1: "seen w w1"
  obtains w2 n2 w3 n3 w4 n4
  where "fsm_sconfreq cb False (own (cb_down cb) w1 (report Down w1)) = Some w2" "moved w [Tld, Scr] (ls (au w)) True n2 w2"
    "fsm_sconfreq cb False (UNTIMEOUT w1) = Some w3" "moved w [Scr] (ls (au w)) True n3 w3"
    "fsm_sdata TERMACK ident [] w1 = Some w4" "moved w [Sta] (ls (au w)) (timer w \<noteq> None) n4 w4"
proof -
  note m = seen_moved [OF w1]
  then have l: "ls (au w1) = ls (au w)" "timer w1 = None \<longleftrightarrow> timer w = None" and w1ok: "mru_ok w1"
    using w by (auto simp: moved_def)
  obtain w2 n2 where D: "fsm_sconfreq cb False (own (cb_down cb) w1 (report Down w1)) = Some w2" "moved w [Tld, Scr] (ls (au w)) True n2 w2"
    using sconfreq_after [OF cb w moved_trans [OF m moved_down [OF cb]]] l by auto
  obtain w3 n3 where U: "fsm_sconfreq cb False (UNTIMEOUT w1) = Some w3" "moved w [Scr] (ls (au w)) True n3 w3"
    using sconfreq_after [OF cb w moved_trans [OF m moved_untimeout]] l by auto
  obtain w4 where T: "fsm_sdata TERMACK ident [] w1 = Some w4" "moved w [Sta] (ls (au w)) (timer w \<noteq> None) (retransmits (au w1)) w4"
    using sdata_moved [OF w1ok, of TERMACK ident "[]"] moved_trans [OF m] l by auto
  show thesis by (rule that [OF D U T])
qed

lemma performs_Some:
  "moved w as s t n w' \<Longrightarrow> fsm_table e (ls (au w)) = (as, s) \<Longrightarrow> t = (s \<in> waiting \<or> stray e w) \<Longrightarrow> performs e w (Some w')"
  by (rule performsI [OF refl]) simp_all

lemma rconfack_performs:
  assumes cb: "reports cb" and w: "mru_ok w" and t: "timer_ok w" and s: "ls (au w) \<notin> {LS_INITIAL, LS_STARTING}"
    and a: "ident = reqid (au w)" "\<not> seen_ack (au w)" "ack_good cb inp w"
  shows "performs RCA w (fsm_rconfack cb ident inp w)"
proof -
  obtain w1 where w1: "seen w w1" and r: "fsm_rconfack cb ident inp w = valid_ack cb ident w1"
    using rconfack_seen [OF cb a] by blast
  note m = seen_moved [OF w1]
  then have l: "ls (au w1) = ls (au w)" by (simp add: moved_def)
  obtain w2 n2 w3 n3 w4 n4 where D: "fsm_sconfreq cb False (own (cb_down cb) w1 (report Down w1)) = Some w2" "moved w [Tld, Scr] (ls (au w)) True n2 w2"
    and U: "fsm_sconfreq cb False (UNTIMEOUT w1) = Some w3" "moved w [Scr] (ls (au w)) True n3 w3"
    and T: "fsm_sdata TERMACK ident [] w1 = Some w4" "moved w [Sta] (ls (au w)) (timer w \<noteq> None) n4 w4"
    by (rule after_seen [OF cb w w1])
  have tm: "ls (au w) \<in> waiting \<Longrightarrow> timer w \<noteq> None" using t by (simp add: timer_ok_def)
  have up: "moved w [] LS_ACKRCVD (timer w \<noteq> None) (maxconfreqtransmits (au w))
      (upd_au (\<lambda>f. f\<lparr>ls := LS_ACKRCVD, retransmits := maxconfreqtransmits f\<rparr>) w1)"
    "moved w [Tlu] LS_OPENED False (maxconfreqtransmits (au w))
      (notify (cb_up cb) (upd_au (\<lambda>f. f\<lparr>ls := LS_OPENED, retransmits := maxconfreqtransmits f\<rparr>) (UNTIMEOUT w1)))"
    using m by (auto simp: moved_def step_defs reports_notify [OF cb])
  note R = r valid_ack_def l reports_notify(2) [OF cb] waiting_def stray_def
  show ?thesis
  proof (cases "ls (au w)")
    case LS_REQSENT then show ?thesis using performs_Some [OF up(1)] tm by (simp add: R)
  next
    case LS_ACKSENT then show ?thesis using performs_Some [OF up(2)] by (simp add: R)
  next
    case LS_CLOSED then show ?thesis using T(1) performs_Some [OF T(2)] tm by (simp add: R)
  next
    case LS_STOPPED then show ?thesis using T(1) performs_Some [OF T(2)] tm by (simp add: R)
  next
    case LS_ACKRCVD then show ?thesis using U(1) performs_Some [OF moved_set_ls [OF U(2)]] by (simp add: R)
  next
    case LS_OPENED then show ?thesis using D(1) performs_Some [OF moved_set_ls [OF D(2)]] by (simp add: R)
  next
    case LS_CLOSING then show ?thesis using performs_Some [OF m] tm by (simp add: R)
  next
    case LS_STOPPING then show ?thesis using performs_Some [OF m] tm by (simp add: R)
  qed (use s in simp_all)
qed

lemma rconfnakrej_performs:
  assumes cb: "reports cb" and w: "mru_ok w" and t: "timer_ok w" and s: "ls (au w) \<notin> {LS_INITIAL, LS_STARTING}"
    and a: "ident = reqid (au w)" "\<not> seen_ack (au w)" "nak_answer cb code inp w \<noteq> 0"
  shows "performs (if 0 < nak_answer cb code inp w then RCN else RCN_stop) w (fsm_rconfnakrej cb code ident inp w)"
proof -
  obtain w1 where w1: "seen w w1" and r: "fsm_rconfnakrej cb code ident inp w = valid_nakrej cb (nak_answer cb code inp w) ident w1"
    using rconfnakrej_seen [OF cb a] by blast
  note m = seen_moved [OF w1]
  then have l: "ls (au w1) = ls (au w)" by (simp add: moved_def)
  obtain w2 n2 w3 n3 w4 n4 where D: "fsm_sconfreq cb False (own (cb_down cb) w1 (report Down w1)) = Some w2" "moved w [Tld, Scr] (ls (au w)) True n2 w2"
    and U: "fsm_sconfreq cb False (UNTIMEOUT w1) = Some w3" "moved w [Scr] (ls (au w)) True n3 w3"
    and T: "fsm_sdata TERMACK ident [] w1 = Some w4" "moved w [Sta] (ls (au w)) (timer w \<noteq> None) n4 w4"
    by (rule after_seen [OF cb w w1])
  have tm: "ls (au w) \<in> waiting \<Longrightarrow> timer w \<noteq> None" using t by (simp add: timer_ok_def)
  note R = r valid_nakrej_def l reports_notify(2) [OF cb] waiting_def stray_def fsm_table_def Let_def
  show ?thesis
  proof (cases "ls (au w)")
    case LS_REQSENT then show ?thesis using a(3) U(1) performs_Some [OF U(2)] performs_Some [OF moved_set_ls [OF moved_trans [OF m moved_untimeout], of LS_STOPPED]]
      by (simp add: R)
  next
    case LS_ACKSENT then show ?thesis using a(3) U(1) performs_Some [OF U(2)] performs_Some [OF moved_set_ls [OF moved_trans [OF m moved_untimeout], of LS_STOPPED]]
      by (simp add: R)
  next
    case LS_CLOSED then show ?thesis using T(1) performs_Some [OF T(2)] tm by (simp add: R)
  next
    case LS_STOPPED then show ?thesis using T(1) performs_Some [OF T(2)] tm by (simp add: R)
  next
    case LS_ACKRCVD then show ?thesis using U(1) performs_Some [OF moved_set_ls [OF U(2)]] by (simp add: R)
  next
    case LS_OPENED then show ?thesis using D(1) performs_Some [OF moved_set_ls [OF D(2)]] by (simp add: R)
  next
    case LS_CLOSING then show ?thesis using performs_Some [OF m] tm by (simp add: R)
  next
    case LS_STOPPING then show ?thesis using performs_Some [OF m] tm by (simp add: R)
  qed (use s in simp_all)
qed

lemma rtermreq_performs:
  assumes cb: "reports cb" and w: "mru_ok w" and t: "timer_ok w" and s: "ls (au w) \<notin> {LS_INITIAL, LS_STARTING}"
  shows "performs RTR w (fsm_rtermreq cb ident w)"
proof -
  have m: "moved w [] (ls (au w)) (timer w \<noteq> None) (retransmits (au w)) w" by (rule moved_refl)
  let ?o = "TIMEOUT (upd_au (\<lambda>f. f\<lparr>retransmits := 0, ls := LS_STOPPING\<rparr>) (own (cb_down cb) w (report Down w)))"
  have o: "moved w [Tld] LS_STOPPING True 0 ?o" by (simp add: moved_def step_defs reports_notify [OF cb])
  have tm: "ls (au w) \<in> waiting \<Longrightarrow> timer w \<noteq> None" using t by (simp add: timer_ok_def)
  have go: "performs RTR w (fsm_sdata TERMACK ident [] w1)"
    if "moved w as s' t' n w1" "fsm_table RTR (ls (au w)) = (as @ [Sta], s')" "t' = (s' \<in> waiting \<or> stray RTR w)" for as s' t' n w1
  proof -
    from sdata_moved [OF moved_mru [OF that(1) w], of TERMACK ident "[]"] obtain w2
      where w2: "fsm_sdata TERMACK ident [] w1 = Some w2" "moved w1 [Sta] (ls (au w1)) (timer w1 \<noteq> None) (retransmits (au w1)) w2"
      by auto
    have "ls (au w1) = s'" "(timer w1 \<noteq> None) = t'" using that(1) by (auto simp: moved_def)
    then have "moved w1 [Sta] s' t' (retransmits (au w1)) w2" using w2(2) by simp
    from performs_Some [OF moved_trans [OF that(1) this] that(2)] that(3) show ?thesis using w2(1) by simp
  qed
  show ?thesis
    using go [OF m] go [OF moved_set_ls [OF m, of LS_REQSENT]] go [OF o] s tm
    by (cases "ls (au w)") (simp_all add: fsm_rtermreq_def reports_notify(2) [OF cb] waiting_def stray_def)
qed

lemma rtermack_performs:
  assumes cb: "reports cb" and w: "mru_ok w" and t: "timer_ok w" and s: "ls (au w) \<notin> {LS_INITIAL, LS_STARTING}"
  shows "performs RTA w (fsm_rtermack cb w)"
proof (cases "ls (au w) = LS_OPENED")
  case True
  obtain w' n where "fsm_sconfreq cb False (own (cb_down cb) w (report Down w)) = Some w'" "moved w ([Tld] @ [Scr]) (ls (au w)) True n w'"
    using sconfreq_after [OF cb w moved_down [OF cb]] by blast
  then show ?thesis
    using True by (intro performsI) (auto simp: fsm_rtermack_def reports_notify(2) [OF cb] fsm_table_def stray_def)
next
  case False
  then show ?thesis
    using s t by (cases "ls (au w)")
      (auto simp: performs_def fsm_rtermack_def reports_notify [OF cb] fsm_table_def timer_ok_def stray_def waiting_def,
       auto simp: moved_def step_defs reports_notify [OF cb])
qed

lemma rcoderej_performs:
  assumes "4 \<le> length inp" "timer_ok w" "ls (au w) \<notin> {LS_INITIAL, LS_STARTING}"
  shows "performs RXJ_plus w (Some (fsm_rcoderej inp w))"
  using assms by (cases "ls (au w)")
    (auto simp: performs_def fsm_rcoderej_def HEADERLEN_def timer_ok_def stray_def waiting_def moved_def step_defs)

lemma unknown_code_performs:
  assumes cb: "reports cb" and w: "mru_ok w" and t: "timer_ok w" and s: "ls (au w) \<notin> {LS_INITIAL, LS_STARTING}"
    and u: "\<not> code_known cb code ident inp w"
  shows "performs RUC w (fsm_other cb code ident inp bs w)"
proof -
  let ?r = "case cb_extcode cb of None \<Rightarrow> (False, w) | Some extcode \<Rightarrow> extcode code ident inp w"
  have "\<not> fst ?r \<and> quiet w (snd ?r)"
    using u reports_quiet(8) [OF cb] by (auto simp: code_known_def split: option.splits)
  then obtain w0 where e: "?r = (False, w0)" "quiet w w0" by (cases ?r) auto
  let ?w = "upd_au (\<lambda>f. f\<lparr>cur_id := cur_id f + 1\<rparr>) w0"
  have m: "moved w [] (ls (au w)) (timer w \<noteq> None) (retransmits (au w)) ?w"
    using moved_quiet [OF moved_refl e(2)] by (simp add: moved_def) (simp add: upd_au_def)
  have l: "ls (au ?w) = ls (au w)" "(timer ?w \<noteq> None) = (timer w \<noteq> None)" "retransmits (au ?w) = retransmits (au w)"
    using m by (simp_all add: moved_def)
  obtain w' where d: "fsm_sdata CODEREJ (cur_id (au ?w)) bs ?w = Some w'"
    "moved w [Scj] (ls (au w)) (timer w \<noteq> None) (retransmits (au w)) w'"
    using sdata_moved [OF moved_mru [OF m w], of CODEREJ "cur_id (au ?w)" bs, unfolded l] moved_trans [OF m] by fastforce
  have "fsm_table RUC (ls (au w)) = ([Scj], ls (au w))" using s by (cases "ls (au w)") simp_all
  from performs_Some [OF d(2) this] show ?thesis using t d(1) by (auto simp: fsm_other_def e(1) Let_def timer_ok_def stray_def)
qed

lemma input_valid:
  assumes "4 \<le> length inpacket" "4 \<le> len" "len \<le> length inpacket" "len = unat (inpacket ! 2) * 256 + unat (inpacket ! 3)"
    "code = inpacket ! 0" "ident = inpacket ! 1" "inp = take (len - 4) (drop 4 inpacket)"
  shows "ls (au w) \<notin> {LS_INITIAL, LS_STARTING} \<Longrightarrow> fsm_input cb inpacket w =
    (if code = CONFREQ then fsm_rconfreq cb ident inp w
     else if code = CONFACK then fsm_rconfack cb ident inp w
     else if code = CONFNAK \<or> code = CONFREJ then fsm_rconfnakrej cb code ident inp w
     else if code = TERMREQ then fsm_rtermreq cb ident w
     else if code = TERMACK then fsm_rtermack cb w
     else if code = CODEREJ then Some (fsm_rcoderej inp w)
     else fsm_other cb code ident inp (take len inpacket) w)"
    "packet_events cb inpacket w =
    (if code = CONFREQ then {RCR_plus, RCR_minus}
     else if code = CONFACK then (if ident = reqid (au w) \<and> \<not> seen_ack (au w) \<and> ack_good cb inp w then {RCA} else {})
     else if code = CONFNAK \<or> code = CONFREJ
       then (if \<not> (ident = reqid (au w) \<and> \<not> seen_ack (au w)) \<or> nak_answer cb code inp w = 0 then {}
         else if 0 < nak_answer cb code inp w then {RCN} else {RCN_stop})
     else if code = TERMREQ then {RTR} else if code = TERMACK then {RTA}
     else if code = CODEREJ then (if 4 \<le> length inp then {RXJ_plus} else {})
     else if code_known cb code ident inp w then {} else {RUC})"
  unfolding assms(5-7) using assms(1-3) unfolding assms(4) by (simp_all add: fsm_input_def packet_events_def HEADERLEN_def Let_def)

lemma input_performs:
  assumes cb: "reports cb" and w: "mru_ok w" and t: "timer_ok w" and e: "packet_events cb inpacket w \<noteq> {}"
  shows "\<exists>e \<in> packet_events cb inpacket w. performs e w (fsm_input cb inpacket w)"
proof (cases "ls (au w) \<in> {LS_INITIAL, LS_STARTING}")
  case True
  then have i: "fsm_input cb inpacket w = Some w" by (simp add: fsm_input_def Let_def)
  have "performs e w (Some w)" if "e \<in> packet_events cb inpacket w" for e
  proof -
    have "e \<in> {RCR_plus, RCR_minus, RCA, RCN, RCN_stop, RTR, RTA, RXJ_plus, RUC}"
      using that by (auto simp: packet_events_def Let_def split: if_splits)
    then have "fsm_table e (ls (au w)) = ([], ls (au w))" using True by (auto simp: fsm_table_def)
    then show ?thesis using performsI [OF refl moved_refl, of e w] that True
      by (auto simp: stray_def waiting_def packet_events_def Let_def split: if_splits)
  qed
  then show ?thesis using e i by auto
next
  case s: False
  let ?code = "inpacket ! 0" and ?ident = "inpacket ! 1" and ?len = "unat (inpacket ! 2) * 256 + unat (inpacket ! 3)"
  let ?inp = "take (?len - 4) (drop 4 inpacket)"
  have v: "4 \<le> length inpacket" "4 \<le> ?len" "?len \<le> length inpacket"
    using e by (auto simp: packet_events_def Let_def split: if_splits)
  note i = input_valid(1) [OF v refl refl refl refl s, of cb] and p = input_valid(2) [OF v refl refl refl refl, of cb w]
  consider (req) "?code = CONFREQ" | (ack) "?code = CONFACK" | (nak) "?code = CONFNAK \<or> ?code = CONFREJ"
    | (treq) "?code = TERMREQ" | (tack) "?code = TERMACK" | (rej) "?code = CODEREJ"
    | (other) "?code \<notin> {CONFREQ, CONFACK, CONFNAK, CONFREJ, TERMREQ, TERMACK, CODEREJ}" by auto
  then show ?thesis
  proof cases
    case req
    then show ?thesis using rconfreq_performs [OF cb w t s, of ?ident ?inp] unfolding i p by simp
  next
    case ack
    moreover from this e have "?ident = reqid (au w)" "\<not> seen_ack (au w)" "ack_good cb ?inp w"
      unfolding p by (auto simp: code_defs split: if_splits)
    ultimately show ?thesis using rconfack_performs [OF cb w t s] unfolding i p by (simp add: code_defs)
  next
    case nak
    moreover from this e have "?ident = reqid (au w)" "\<not> seen_ack (au w)" "nak_answer cb ?code ?inp w \<noteq> 0"
      unfolding p by (auto simp: code_defs split: if_splits)
    ultimately show ?thesis using rconfnakrej_performs [OF cb w t s, of ?ident ?code ?inp] unfolding i p by (auto simp: code_defs)
  next
    case treq
    then show ?thesis using rtermreq_performs [OF cb w t s] unfolding i p by (simp add: code_defs)
  next
    case tack
    then show ?thesis using rtermack_performs [OF cb w t s] unfolding i p by (simp add: code_defs)
  next
    case rej
    moreover from this e have "4 \<le> length ?inp" unfolding p by (auto simp: code_defs split: if_splits)
    ultimately show ?thesis using rcoderej_performs [OF _ t s] unfolding i p by (simp add: code_defs)
  next
    case other
    moreover from this e have "\<not> code_known cb ?code ?ident ?inp w" unfolding p by (auto split: if_splits)
    ultimately show ?thesis using unknown_code_performs [OF cb w t s] unfolding i p by simp
  qed
qed

text \<open>A packet that is no event leaves the automaton alone.\<close>

definition unmoved :: "'e link \<Rightarrow> 'e link \<Rightarrow> bool" where
  "unmoved w w' \<longleftrightarrow> au w' = au w \<and> timer w' = timer w \<and> (mru_ok w \<longrightarrow> mru_ok w')"

lemma unmoved_refl [simp]: "unmoved w w"
  by (simp add: unmoved_def)

lemma unmoved_quiet: "quiet w w' \<Longrightarrow> unmoved w w'" "quiet (w\<lparr>trace := tr\<rparr>) w' \<Longrightarrow> unmoved w w'"
  by (auto simp: unmoved_def quiet_def)

lemma rconfack_ignored:
  assumes "reports cb" "\<not> (ident = reqid (au w) \<and> \<not> seen_ack (au w) \<and> ack_good cb inp w)"
  shows "\<exists>w'. fsm_rconfack cb ident inp w = Some w' \<and> unmoved w w'"
proof (cases "cb_ackci cb")
  case (Some ackci)
  then show ?thesis using assms(2) unmoved_quiet(1) [OF reports_quiet(3) [OF assms(1) Some, of w inp]]
    by (auto simp: fsm_rconfack_def ack_good_def split_beta Let_def)
qed (use assms(2) in \<open>auto simp: fsm_rconfack_def ack_good_def\<close>)

lemma rconfnakrej_ignored:
  assumes "reports cb" "\<not> (ident = reqid (au w) \<and> \<not> seen_ack (au w)) \<or> nak_answer cb code inp w = 0"
  shows "\<exists>w'. fsm_rconfnakrej cb code ident inp w = Some w' \<and> unmoved w w'"
proof (cases "if code = CONFNAK then cb_nakci cb else cb_rejci cb")
  case (Some answer)
  then have "quiet w (snd (answer inp w))" using reports_quiet(4,5) [OF assms(1)] by (auto split: if_splits)
  then show ?thesis using assms(2) Some unmoved_quiet(1) by (fastforce simp: fsm_rconfnakrej_def nak_answer_def split_beta Let_def)
qed (use assms(2) in \<open>auto simp: fsm_rconfnakrej_def nak_answer_def\<close>)

lemma known_code_ignored:
  assumes "reports cb" "code_known cb code ident inp w"
  shows "\<exists>w'. fsm_other cb code ident inp bs w = Some w' \<and> unmoved w w'"
proof -
  obtain extcode where x: "cb_extcode cb = Some extcode" "fst (extcode code ident inp w)"
    using assms(2) by (auto simp: code_known_def split: option.splits)
  then show ?thesis using reports_quiet(9) [OF assms(1) x] unmoved_quiet(2) by (force simp: fsm_other_def split_beta Let_def)
qed

lemma input_ignored:
  assumes "reports cb" "packet_events cb inpacket w = {}"
  shows "\<exists>w'. fsm_input cb inpacket w = Some w' \<and> unmoved w w'"
proof (cases "length inpacket < 4 \<or> unat (inpacket ! 2) * 256 + unat (inpacket ! 3) < 4 \<or>
    length inpacket < unat (inpacket ! 2) * 256 + unat (inpacket ! 3) \<or> ls (au w) \<in> {LS_INITIAL, LS_STARTING}")
  case True
  then have "fsm_input cb inpacket w = Some w" by (auto simp: fsm_input_def HEADERLEN_def Let_def)
  then show ?thesis by simp
next
  case False
  then have v: "4 \<le> length inpacket" "4 \<le> unat (inpacket ! 2) * 256 + unat (inpacket ! 3)"
    "unat (inpacket ! 2) * 256 + unat (inpacket ! 3) \<le> length inpacket" and s: "ls (au w) \<notin> {LS_INITIAL, LS_STARTING}"
    by (simp_all add: not_less)
  let ?code = "inpacket ! 0" and ?ident = "inpacket ! 1" and ?len = "unat (inpacket ! 2) * 256 + unat (inpacket ! 3)"
  let ?inp = "take (?len - 4) (drop 4 inpacket)"
  note i = input_valid(1) [OF v refl refl refl refl s, of cb] and p = input_valid(2) [OF v refl refl refl refl, of cb w]
  note q = assms(2) [unfolded p]
  consider (ack) "?code = CONFACK" | (nak) "?code = CONFNAK \<or> ?code = CONFREJ" | (rej) "?code = CODEREJ"
    | (other) "?code \<notin> {CONFREQ, CONFACK, CONFNAK, CONFREJ, TERMREQ, TERMACK, CODEREJ}"
    using q by (auto split: if_splits)
  then show ?thesis
  proof cases
    case ack
    moreover from this q have "\<not> (?ident = reqid (au w) \<and> \<not> seen_ack (au w) \<and> ack_good cb ?inp w)"
      by (auto simp: code_defs split: if_splits)
    ultimately show ?thesis using rconfack_ignored [OF assms(1)] unfolding i by (simp add: code_defs)
  next
    case nak
    moreover from this q have "\<not> (?ident = reqid (au w) \<and> \<not> seen_ack (au w)) \<or> nak_answer cb ?code ?inp w = 0"
      by (auto simp: code_defs split: if_splits)
    ultimately show ?thesis using rconfnakrej_ignored [OF assms(1), of ?ident w ?code ?inp] unfolding i by (auto simp: code_defs)
  next
    case rej
    moreover from this q have "length ?inp < HEADERLEN" by (auto simp: code_defs HEADERLEN_def split: if_splits)
    ultimately show ?thesis unfolding i by (simp add: code_defs fsm_rcoderej_def)
  next
    case other
    moreover from this q have "code_known cb ?code ?ident ?inp w" by (auto split: if_splits)
    ultimately show ?thesis using known_code_ignored [OF assms(1)] unfolding i by simp
  qed
qed

subsection \<open>Runs\<close>

inductive fsm_event :: "'e fsm_callbacks \<Rightarrow> 'e link \<Rightarrow> event set \<Rightarrow> 'e link option \<Rightarrow> bool" for cb w where
  up: "fsm_event cb w {EUp} (fsm_lowerup cb w)"
| down: "fsm_event cb w {EDown} (Some (fsm_lowerdown cb w))"
| opened: "fsm_event cb w {EOpen} (fsm_open cb w)"
| closed: "fsm_event cb w {EClose} (fsm_close cb reason w)"
| timeout: "timer w \<noteq> None \<Longrightarrow> fsm_event cb w {if 0 < retransmits (au w) then TO_plus else TO_minus} (expire cb w)"
| packet: "packet_events cb inpacket w \<noteq> {} \<Longrightarrow> fsm_event cb w (packet_events cb inpacket w) (fsm_input cb inpacket w)"
| protreject: "fsm_event cb w {RXJ_minus} (fsm_protreject cb w)"

text \<open>The links a run reaches; the protocol may change its data and the MRU between events.\<close>

definition new_link :: "'e link \<Rightarrow> bool" where
  "new_link w \<longleftrightarrow> ls (au w) = LS_INITIAL \<and> timer w = None \<and> opts (au w) = 0 \<and> mru_ok w"

inductive fsm_run :: "'e fsm_callbacks \<Rightarrow> 'e link \<Rightarrow> bool" for cb where
  new: "new_link w \<Longrightarrow> fsm_run cb (fsm_init w)"
| event: "fsm_run cb w \<Longrightarrow> fsm_event cb w E (Some w') \<Longrightarrow> fsm_run cb w'"
| ignored: "fsm_run cb w \<Longrightarrow> packet_events cb inpacket w = {} \<Longrightarrow> fsm_input cb inpacket w = Some w' \<Longrightarrow> fsm_run cb w'"
| protocol: "fsm_run cb w \<Longrightarrow> 4 \<le> m \<Longrightarrow> m \<le> 1500 \<Longrightarrow> fsm_run cb (w\<lparr>peer_mru := m, ext := e\<rparr>)"

lemma event_performs:
  assumes "reports cb" "mru_ok w" "timer_ok w" "opts (au w) = 0" "fsm_event cb w E r"
  shows "\<exists>e \<in> E. performs e w r"
  using assms(5)
proof cases
  case up then show ?thesis using lowerup_performs [OF assms(1-4)] by simp
next
  case down then show ?thesis using lowerdown_performs [OF assms(1,3)] by simp
next
  case opened then show ?thesis using open_performs [OF assms(1-4)] by simp
next
  case closed then show ?thesis using close_performs [OF assms(1-3)] by simp
next
  case timeout then show ?thesis using expire_performs [OF assms(1,2,4)] by simp
next
  case packet then show ?thesis using input_performs [OF assms(1-3)] by simp
next
  case protreject then show ?thesis using protreject_performs [OF assms(1-3)] by simp
qed

lemma run_ok: "fsm_run cb w \<Longrightarrow> reports cb \<Longrightarrow> mru_ok w \<and> timer_ok w \<and> opts (au w) = 0"
proof (induction rule: fsm_run.induct)
  case (new w)
  then show ?case
    by (simp add: new_link_def fsm_init_def upd_au_def mru_ok_def timer_ok_def stray_def waiting_def)
next
  case (event w E w')
  then obtain e where "e \<in> E" "performs e w (Some w')" using event_performs by blast
  then show ?case using event by (auto simp: performs_def moved_def timer_ok_def)
next
  case (ignored w inpacket w')
  then show ?case using input_ignored [of cb inpacket w] by (auto simp: unmoved_def timer_ok_def)
qed (auto simp: mru_ok_def timer_ok_def)


primrec expiries :: "'e fsm_callbacks \<Rightarrow> nat \<Rightarrow> 'e link \<Rightarrow> 'e link option" where
  "expiries cb 0 w = Some w"
| "expiries cb (Suc n) w = expire cb w \<bind> expiries cb n"

lemma gives_up:
  assumes "reports cb" "opts (au w) = 0" "mru_ok w" "ls (au w) \<in> waiting" "0 \<le> retransmits (au w)"
  shows "\<exists>w' tr. expiries cb (Suc (nat (retransmits (au w)))) w = Some w' \<and> timer w' = None \<and>
    ls (au w') = (if ls (au w) = LS_CLOSING then LS_CLOSED else LS_STOPPED) \<and> trace w' = trace w @ tr \<and>
    map action_of tr = replicate (nat (retransmits (au w))) (if ls (au w) \<in> {LS_CLOSING, LS_STOPPING} then Str else Scr) @ [Tlf]"
  using assms(2-5)
proof (induction "nat (retransmits (au w))" arbitrary: w)
  case 0
  then have z: "retransmits (au w) \<le> 0" by simp
  from expire_last [OF assms(1) 0(4) z 0(2)] 0(1) [symmetric] show ?case
    by (auto simp: moved_def)
next
  case (Suc n)
  have pos: "0 < retransmits (au w)" using Suc.hyps(2) by simp
  from expire_again [OF assms(1) Suc.prems(2,3) pos] obtain w1 where w1: "expire cb w = Some w1"
    "moved w [if ls (au w) \<in> {LS_CLOSING, LS_STOPPING} then Str else Scr]
      (if ls (au w) = LS_ACKRCVD then LS_REQSENT else ls (au w)) True (retransmits (au w) - 1) w1" by blast
  have n: "nat (retransmits (au w1)) = n" and l: "ls (au w1) = (if ls (au w) = LS_ACKRCVD then LS_REQSENT else ls (au w))"
    and o: "opts (au w1) = 0" using w1(2) Suc.hyps(2) Suc.prems(1) by (auto simp: moved_def)
  have "ls (au w1) \<in> waiting" "0 \<le> retransmits (au w1)"
    using Suc.prems(3) w1(2) pos by (auto simp: moved_def waiting_def)
  from Suc.hyps(1) [OF n [symmetric] o moved_mru [OF w1(2) Suc.prems(2)] this] obtain w' tr where
    w': "expiries cb (Suc n) w1 = Some w'" "timer w' = None" "ls (au w') = (if ls (au w1) = LS_CLOSING then LS_CLOSED else LS_STOPPED)"
    "trace w' = trace w1 @ tr"
    "map action_of tr = replicate n (if ls (au w1) \<in> {LS_CLOSING, LS_STOPPING} then Str else Scr) @ [Tlf]"
    by (auto simp: n)
  have "expiries cb (Suc (nat (retransmits (au w)))) w = Some w'"
    unfolding Suc.hyps(2) [symmetric] expiries.simps(2) [of cb "Suc n"] w1(1) using w'(1) by (simp del: expiries.simps)
  moreover obtain tr1 where tr1: "trace w1 = trace w @ tr1"
    "map action_of tr1 = [if ls (au w) \<in> {LS_CLOSING, LS_STOPPING} then Str else Scr]"
    using w1(2) by (auto simp: moved_def)
  moreover have "trace w' = trace w @ tr1 @ tr" using w'(4) tr1(1) by simp
  moreover have "map action_of (tr1 @ tr) =
      replicate (nat (retransmits (au w))) (if ls (au w) \<in> {LS_CLOSING, LS_STOPPING} then Str else Scr) @ [Tlf]"
    unfolding Suc.hyps(2) [symmetric] map_append tr1(2) w'(5) l by simp
  moreover have "ls (au w') = (if ls (au w) = LS_CLOSING then LS_CLOSED else LS_STOPPED)" using w'(3) l by simp
  ultimately show ?case using w'(2) by blast
qed

subsection \<open>Properties\<close>


text \<open>
  C37. The automaton gives up on a silent peer: from any state that waits, as many time-outs as the restart counter says
  each send one Configure-Request or Terminate-Request, and the next one ends in Stopped, or in Closed from
  Closing, reports that the layer is finished, and leaves no time-out behind.
\<close>

theorem fsm_gives_up:
  assumes "reports cb" "fsm_run cb w" "ls (au w) \<in> waiting" "0 \<le> retransmits (au w)"
  shows "\<exists>w' tr. expiries cb (Suc (nat (retransmits (au w)))) w = Some w' \<and> timer w' = None \<and>
    ls (au w') = (if ls (au w) = LS_CLOSING then LS_CLOSED else LS_STOPPED) \<and> trace w' = trace w @ tr \<and>
    map action_of tr = replicate (nat (retransmits (au w))) (if ls (au w) \<in> {LS_CLOSING, LS_STOPPING} then Str else Scr) @ [Tlf]"
  using gives_up [OF assms(1) _ _ assms(3,4)] run_ok [OF assms(2,1)] by simp

text \<open>
  C38. A Terminate-Ack in Opened, which the RFC answers by a move to Req-Sent, tells the upper layers that the link is
  down and sends one Configure-Request, but leaves the automaton in Opened: when the time-out that was started
  expires, nothing is sent again and nothing is reported, so a lost request is never repeated.
\<close>

theorem fsm_terminate_ack_stuck:
  assumes "reports cb" "fsm_run cb w" "ls (au w) = LS_OPENED"
  shows "\<exists>w' tr w''. fsm_input cb [TERMACK, i, 0, 4] w = Some w' \<and> trace w' = trace w @ tr \<and> map action_of tr = [Tld, Scr] \<and>
    ls (au w') = LS_OPENED \<and> timer w' \<noteq> None \<and>
    expire cb w' = Some w'' \<and> trace w'' = trace w' \<and> ls (au w'') = LS_OPENED \<and> timer w'' = None"
proof -
  have w: "mru_ok w" "timer_ok w" using run_ok [OF assms(2,1)] by simp_all
  have "performs RTA w (fsm_rtermack cb w)" using rtermack_performs [OF assms(1) w] assms(3) by simp
  then obtain w' n where w': "fsm_rtermack cb w = Some w'" "moved w [Tld, Scr] LS_OPENED True n w'"
    using assms(3) by (auto simp: performs_def fsm_table_def stray_def)
  have "fsm_input cb [TERMACK, i, 0, 4] w = Some w'"
    using w'(1) assms(3) by (simp add: fsm_input_def HEADERLEN_def code_defs Let_def)
  moreover have "expire cb w' = Some (w'\<lparr>timer := None\<rparr>)"
    using w'(2) by (simp add: expire_def fsm_timeout_def moved_def)
  ultimately show ?thesis using w'(2) by (auto simp: moved_def)
qed

subsection \<open>Witnesses\<close>

text \<open>A protocol without options, and a link of it on its way to Opened.\<close>

definition sample_cb :: "unit fsm_callbacks" where
  "sample_cb = \<lparr>cb_resetci = None, cb_cilen = None, cb_addci = None, cb_ackci = None, cb_nakci = None, cb_rejci = None,
     cb_reqci = None, cb_up = Some (report Up), cb_down = Some (report Down), cb_starting = Some (report Starting),
     cb_finished = Some (report Finished), cb_retransmit = None, cb_extcode = None\<rparr>"

definition sample_link :: "ls \<Rightarrow> u8 \<Rightarrow> bool \<Rightarrow> int \<Rightarrow> int option \<Rightarrow> effect list \<Rightarrow> unit link" where
  "sample_link s i sa r t tr =
     \<lparr>au = \<lparr>protocol = 0xC021, ls = s, opts = 0, cur_id = i, reqid = i, seen_ack = sa, timeouttime = 6,
            maxconfreqtransmits = 10, retransmits = r, maxtermtransmits = 2, nakloops = 0, maxnakloops = 5, term_reason = []\<rparr>,
      peer_mru = 1500, timer = t, trace = tr, ext = ()\<rparr>"

definition sample_scr :: effect where "sample_scr = Sent (fsm_frame 0xC021 CONFREQ 1 [])"
definition sample_sca :: effect where "sample_sca = Sent (fsm_frame 0xC021 CONFACK 9 [])"

lemma sample_reports: "reports sample_cb"
  by (simp add: reports_def tells_def sample_cb_def)

lemmas sample_defs = sample_cb_def sample_link_def sample_scr_def sample_sca_def step_defs notify_def Let_def code_defs
  fsm_sdata_def HEADERLEN_def

lemma sample_steps:
  "fsm_init (sample_link LS_INITIAL 0 False 0 None []) = sample_link LS_INITIAL 0 False 0 None []"
  "fsm_open sample_cb (sample_link LS_INITIAL 0 False 0 None []) = Some (sample_link LS_STARTING 0 False 0 None [Called Starting])"
  "fsm_lowerup sample_cb (sample_link LS_STARTING 0 False 0 None [Called Starting]) =
     Some (sample_link LS_REQSENT 1 False 9 (Some 6) [Called Starting, sample_scr])"
  "fsm_input sample_cb [2, 1, 0, 4] (sample_link LS_REQSENT 1 False 9 (Some 6) [Called Starting, sample_scr]) =
     Some (sample_link LS_ACKRCVD 1 True 10 (Some 6) [Called Starting, sample_scr])"
  "fsm_input sample_cb [1, 9, 0, 4] (sample_link LS_ACKRCVD 1 True 10 (Some 6) [Called Starting, sample_scr]) =
     Some (sample_link LS_OPENED 1 True 10 None [Called Starting, sample_scr, sample_sca, Called Up])"
  by (simp_all add: sample_defs fsm_init_def fsm_open_def fsm_lowerup_def OPT_SILENT_def fsm_sconfreq_def start_request_def
      own_options_def new_reqid_def fsm_input_def fsm_rconfack_def valid_ack_def fsm_rconfreq_def answer_confreq_def)

lemma sample_run:
  "fsm_run sample_cb (sample_link LS_REQSENT 1 False 9 (Some 6) [Called Starting, sample_scr])"
  "fsm_run sample_cb (sample_link LS_OPENED 1 True 10 None [Called Starting, sample_scr, sample_sca, Called Up])"
proof -
  have "new_link (sample_link LS_INITIAL 0 False 0 None [])" by (simp add: new_link_def mru_ok_def sample_link_def)
  then have "fsm_run sample_cb (sample_link LS_INITIAL 0 False 0 None [])"
    using fsm_run.new sample_steps(1) by metis
  moreover have "fsm_event sample_cb (sample_link LS_INITIAL 0 False 0 None []) {EOpen} (Some (sample_link LS_STARTING 0 False 0 None [Called Starting]))"
    unfolding sample_steps(2) [symmetric] by (rule fsm_event.opened)
  ultimately have "fsm_run sample_cb (sample_link LS_STARTING 0 False 0 None [Called Starting])" by (rule fsm_run.event)
  moreover have "fsm_event sample_cb (sample_link LS_STARTING 0 False 0 None [Called Starting]) {EUp}
      (Some (sample_link LS_REQSENT 1 False 9 (Some 6) [Called Starting, sample_scr]))"
    unfolding sample_steps(3) [symmetric] by (rule fsm_event.up)
  ultimately show r: "fsm_run sample_cb (sample_link LS_REQSENT 1 False 9 (Some 6) [Called Starting, sample_scr])"
    by (rule fsm_run.event)
  let ?w = "sample_link LS_REQSENT 1 False 9 (Some 6) [Called Starting, sample_scr]"
  have "packet_events sample_cb [2, 1, 0, 4] ?w = {RCA}" by (simp add: packet_events_def sample_defs ack_good_def)
  from fsm_event.packet [of sample_cb "[2, 1, 0, 4]" ?w, unfolded this sample_steps(4)]
  have "fsm_event sample_cb ?w {RCA} (Some (sample_link LS_ACKRCVD 1 True 10 (Some 6) [Called Starting, sample_scr]))" by blast
  with r have r: "fsm_run sample_cb (sample_link LS_ACKRCVD 1 True 10 (Some 6) [Called Starting, sample_scr])"
    by (rule fsm_run.event)
  let ?w = "sample_link LS_ACKRCVD 1 True 10 (Some 6) [Called Starting, sample_scr]"
  have "packet_events sample_cb [1, 9, 0, 4] ?w = {RCR_plus, RCR_minus}" by (simp add: packet_events_def sample_defs)
  from fsm_event.packet [of sample_cb "[1, 9, 0, 4]" ?w, unfolded this sample_steps(5)]
  have "fsm_event sample_cb ?w {RCR_plus, RCR_minus}
      (Some (sample_link LS_OPENED 1 True 10 None [Called Starting, sample_scr, sample_sca, Called Up]))" by blast
  with r show "fsm_run sample_cb (sample_link LS_OPENED 1 True 10 None [Called Starting, sample_scr, sample_sca, Called Up])"
    by (rule fsm_run.event)
qed


theorem fsm_gives_up_witness:
  "\<exists>w'. expiries sample_cb 10 (sample_link LS_REQSENT 1 False 9 (Some 6) [Called Starting, sample_scr]) = Some w' \<and>
    ls (au w') = LS_STOPPED \<and> timer w' = None"
proof -
  let ?w = "sample_link LS_REQSENT 1 False 9 (Some 6) [Called Starting, sample_scr]"
  have o: "ls (au ?w) = LS_REQSENT" "retransmits (au ?w) = 9" by (simp_all add: sample_link_def)
  then have "ls (au ?w) \<in> waiting" "0 \<le> retransmits (au ?w)" by (simp_all add: waiting_def)
  from fsm_gives_up [OF sample_reports sample_run(1) this] show ?thesis by (auto simp: o simp del: expiries.simps)
qed

theorem fsm_terminate_ack_stuck_witness:
  "\<exists>w'. fsm_input sample_cb [TERMACK, 5, 0, 4]
      (sample_link LS_OPENED 1 True 10 None [Called Starting, sample_scr, sample_sca, Called Up]) = Some w' \<and> ls (au w') = LS_OPENED"
  using fsm_terminate_ack_stuck [OF sample_reports sample_run(2), of 5] by (auto simp: sample_link_def)

end
