(* ===== verification/Sys_Timeo.thy ===== *)
theory Sys_Timeo
  imports Prelude
begin

text \<open>
  \<open>core/sys.c\<close>: one-shot timers for a system with threads (\<open>NO_SYS\<close> 0).  The time-outs of a thread are a list linked
  through \<open>next\<close>, each with its time after the one before it.  \<open>sys_state\<close> has the list of the thread (\<open>None\<close> when
  \<open>sys_arch_timeouts\<close> returns null), the number of free elements of the pool \<open>MEMP_SYS_TIMEOUT\<close>, and the \<open>world\<close> of
  the port: \<open>sys_arch_mbox_fetch\<close> and \<open>sys_arch_sem_wait\<close> are the argument \<open>wait\<close> (0 waits for ever; the result is the
  time waited or \<open>SYS_ARCH_TIMEOUT\<close>, and \<open>None\<close> when it does not come back).  \<open>Sys_Fetch\<close> has the two functions of
  \<open>port/arch/junk/sys_arch.c\<close>.  A handler is a name, null as \<open>None\<close>, and what it does is the argument \<open>run\<close>.
  \<open>timeflag\<close> is the flag of the \<open>struct sswt_cb\<close> at an address.
\<close>

record 'h timeo =
  time :: u32
  handler :: "'h option"
  harg :: nat

record ('h, 'w) sys_state =
  timeouts :: "'h timeo list option"
  free_timeo :: nat
  timeflag :: "nat \<Rightarrow> bool"
  world :: 'w

definition SYS_ARCH_TIMEOUT :: u32 where "SYS_ARCH_TIMEOUT = 0xffffffff"

subsection \<open>Adding and cancelling\<close>

text \<open>The time of the element after the new one becomes relative to it.\<close>

fun relative_to :: "u32 \<Rightarrow> 'h timeo list \<Rightarrow> 'h timeo list" where
  "relative_to n [] = []"
| "relative_to n (t # ts) = t\<lparr>time := time t - n\<rparr> # ts"

text \<open>The loop \<open>for (t = timeouts->next; ...)\<close>.\<close>

fun insert_after :: "'h timeo \<Rightarrow> 'h timeo list \<Rightarrow> 'h timeo list" where
  "insert_after n [] = []"
| "insert_after n (t # ts) =
     (let n = n\<lparr>time := time n - time t\<rparr>
      in if ts = [] \<or> time n < time (hd ts) then t # n # relative_to (time n) ts
         else t # insert_after n ts)"

definition insert_timeo :: "'h timeo \<Rightarrow> 'h timeo list \<Rightarrow> 'h timeo list" where
  "insert_timeo n l =
     (if l = [] then [n]
      else if time n < time (hd l) then n # relative_to (time n) l
      else insert_after n l)"

definition sys_timeout :: "u32 \<Rightarrow> 'h option \<Rightarrow> nat \<Rightarrow> ('h, 'w) sys_state \<Rightarrow> ('h, 'w) sys_state" where
  "sys_timeout msecs h arg s =
     (if free_timeo s = 0 then s
      else (let s = s\<lparr>free_timeo := free_timeo s - 1\<rparr>
            in case timeouts s of
                 None \<Rightarrow> s
               | Some l \<Rightarrow> s\<lparr>timeouts := Some (insert_timeo \<lparr>time = msecs, handler = h, harg = arg\<rparr> l)\<rparr>))"

text \<open>The time of a cancelled element goes to the next one.\<close>

fun add_time :: "u32 \<Rightarrow> 'h timeo list \<Rightarrow> 'h timeo list" where
  "add_time n [] = []"
| "add_time n (t # ts) = t\<lparr>time := time t + n\<rparr> # ts"

fun unlink_timeo :: "'h option \<Rightarrow> nat \<Rightarrow> 'h timeo list \<Rightarrow> 'h timeo list option" where
  "unlink_timeo h arg [] = None"
| "unlink_timeo h arg (t # ts) =
     (if handler t = h \<and> harg t = arg then Some (add_time (time t) ts)
      else map_option ((#) t) (unlink_timeo h arg ts))"

definition sys_untimeout :: "'h option \<Rightarrow> nat \<Rightarrow> ('h, 'w) sys_state \<Rightarrow> ('h, 'w) sys_state" where
  "sys_untimeout h arg s =
     (case timeouts s of
        None \<Rightarrow> s
      | Some l \<Rightarrow>
          (case unlink_timeo h arg l of
             None \<Rightarrow> s
           | Some l \<Rightarrow> s\<lparr>timeouts := Some l, free_timeo := free_timeo s + 1\<rparr>))"

subsection \<open>Waiting\<close>

text \<open>The loop of \<open>sys_mbox_fetch\<close> and of \<open>sys_sem_wait\<close>, which waits and runs the handlers that fall due.\<close>

partial_function (option) wait_loop ::
    "(u32 \<Rightarrow> 'w \<Rightarrow> (u32 \<times> 'w) option) \<Rightarrow> ('h \<Rightarrow> nat \<Rightarrow> ('h, 'w) sys_state \<Rightarrow> ('h, 'w) sys_state) \<Rightarrow> ('h, 'w) sys_state \<Rightarrow>
     ('h, 'w) sys_state option" where
  "wait_loop wait run s =
     (case timeouts s of
        None \<Rightarrow> map_option (\<lambda>(_, w). s\<lparr>world := w\<rparr>) (wait 0 (world s))
      | Some [] \<Rightarrow> map_option (\<lambda>(_, w). s\<lparr>world := w\<rparr>) (wait 0 (world s))
      | Some (t # ts) \<Rightarrow> do {
          (time_needed, w) \<leftarrow> (if 0 < time t then wait (time t) (world s) else Some (SYS_ARCH_TIMEOUT, world s));
          let s = s\<lparr>world := w\<rparr>;
          (if time_needed = SYS_ARCH_TIMEOUT
           then wait_loop wait run
             (case handler t of
                None \<Rightarrow> s\<lparr>timeouts := Some ts, free_timeo := free_timeo s + 1\<rparr>
              | Some h \<Rightarrow> run h (harg t) (s\<lparr>timeouts := Some ts, free_timeo := free_timeo s + 1\<rparr>))
           else Some (s\<lparr>timeouts := Some (t\<lparr>time := (if time_needed < time t then time t - time_needed else 0)\<rparr> # ts)\<rparr>))
        })"

definition sys_mbox_fetch ::
    "(u32 \<Rightarrow> 'w \<Rightarrow> (u32 \<times> 'w) option) \<Rightarrow> ('h \<Rightarrow> nat \<Rightarrow> ('h, 'w) sys_state \<Rightarrow> ('h, 'w) sys_state) \<Rightarrow> ('h, 'w) sys_state \<Rightarrow>
     ('h, 'w) sys_state option" where
  "sys_mbox_fetch fetch run s = wait_loop fetch run s"

definition sys_sem_wait ::
    "(u32 \<Rightarrow> 'w \<Rightarrow> (u32 \<times> 'w) option) \<Rightarrow> ('h \<Rightarrow> nat \<Rightarrow> ('h, 'w) sys_state \<Rightarrow> ('h, 'w) sys_state) \<Rightarrow> ('h, 'w) sys_state \<Rightarrow>
     ('h, 'w) sys_state option" where
  "sys_sem_wait sem_wait run s = wait_loop sem_wait run s"

text \<open>
  \<open>sswt\<close> is the name under which \<open>run\<close> knows \<open>sswt_handler\<close>, \<open>cb\<close> the address of the structure on the stack; the
  semaphores are the port's.
\<close>

definition sswt_handler :: "('w \<Rightarrow> 'w) \<Rightarrow> nat \<Rightarrow> ('h, 'w) sys_state \<Rightarrow> ('h, 'w) sys_state" where
  "sswt_handler sem_signal cb s = s\<lparr>timeflag := (timeflag s)(cb := True), world := sem_signal (world s)\<rparr>"

definition sys_sem_wait_timeout ::
    "(u32 \<Rightarrow> 'w \<Rightarrow> (u32 \<times> 'w) option) \<Rightarrow> ('h \<Rightarrow> nat \<Rightarrow> ('h, 'w) sys_state \<Rightarrow> ('h, 'w) sys_state) \<Rightarrow> 'h \<Rightarrow> nat \<Rightarrow>
     u32 \<Rightarrow> ('h, 'w) sys_state \<Rightarrow> (bool \<times> ('h, 'w) sys_state) option" where
  "sys_sem_wait_timeout sem_wait run sswt cb timeout s = do {
     let s = s\<lparr>timeflag := (timeflag s)(cb := False)\<rparr>;
     let s = (if 0 < timeout then sys_timeout timeout (Some sswt) cb s else s);
     s \<leftarrow> sys_sem_wait sem_wait run s;
     Some (if timeflag s cb then (False, s) else (True, sys_untimeout (Some sswt) cb s))
   }"

definition sys_msleep ::
    "('w \<Rightarrow> 's \<times> 'w) \<Rightarrow> ('s \<Rightarrow> 'w \<Rightarrow> 'w) \<Rightarrow> ('s \<Rightarrow> u32 \<Rightarrow> 'w \<Rightarrow> (u32 \<times> 'w) option) \<Rightarrow>
     ('s \<Rightarrow> 'h \<Rightarrow> nat \<Rightarrow> ('h, 'w) sys_state \<Rightarrow> ('h, 'w) sys_state) \<Rightarrow> 'h \<Rightarrow> nat \<Rightarrow> u32 \<Rightarrow> ('h, 'w) sys_state \<Rightarrow>
     ('h, 'w) sys_state option" where
  "sys_msleep sem_new sem_free sem_wait run sswt cb ms s = do {
     let (delaysem, w) = sem_new (world s);
     (_, s) \<leftarrow> sys_sem_wait_timeout (sem_wait delaysem) (run delaysem) sswt cb ms (s\<lparr>world := w\<rparr>);
     Some (s\<lparr>world := sem_free delaysem (world s)\<rparr>)
   }"

subsection \<open>Deadlines\<close>

text \<open>
  When each time-out falls due, counted from now, as a number that does not wrap.  The list is in order when the last
  deadline still is a word.
\<close>

fun agenda :: "nat \<Rightarrow> 'h timeo list \<Rightarrow> (nat \<times> 'h option \<times> nat) list" where
  "agenda from [] = []"
| "agenda from (t # ts) = (from + unat (time t), handler t, harg t) # agenda (from + unat (time t)) ts"

definition timeo_ok :: "'h timeo list \<Rightarrow> bool" where
  "timeo_ok l \<longleftrightarrow> (\<Sum>t \<leftarrow> l. unat (time t)) < 2 ^ 32"

lemma agenda_shift: "agenda (from + n) l = map (\<lambda>(d, x). (d + n, x)) (agenda from l)"
proof (induction l arbitrary: "from")
  case (Cons t l)
  then show ?case using Cons [of "from + unat (time t)"] by (simp add: ac_simps)
qed simp

lemma agenda_ge: "(d, x) \<in> set (agenda from l) \<Longrightarrow> from \<le> d"
  by (induction l arbitrary: "from") fastforce+

lemma agenda_sorted: "sorted (map fst (agenda from l))"
  by (induction l arbitrary: "from") (auto dest: agenda_ge)

lemma agenda_relative:
  "l \<noteq> [] \<Longrightarrow> n \<le> time (hd l) \<Longrightarrow> agenda (from + unat n) (relative_to n l) = agenda from l"
  by (cases l) (simp_all add: unat_minus_small word_le_nat_alt)

text \<open>A new time-out comes after those that fall due no later and before the others.\<close>

definition schedule :: "nat \<times> 'x \<Rightarrow> (nat \<times> 'x) list \<Rightarrow> (nat \<times> 'x) list" where
  "schedule e A = takeWhile (\<lambda>d. fst d \<le> fst e) A @ e # dropWhile (\<lambda>d. fst d \<le> fst e) A"

lemma schedule_before: "(\<And>d x. (d, x) \<in> set A \<Longrightarrow> fst e < d) \<Longrightarrow> schedule e A = e # A"
proof (cases A)
  case (Cons d A')
  assume "\<And>d x. (d, x) \<in> set A \<Longrightarrow> fst e < d"
  then have "fst e < fst d" using Cons by (cases d) auto
  then show ?thesis using Cons by (simp add: schedule_def)
qed (simp add: schedule_def)

lemma schedule_after [simp]: "fst d \<le> fst e \<Longrightarrow> schedule e (d # A) = d # schedule e A"
  by (simp add: schedule_def)

lemma insert_after_agenda:
  assumes "l \<noteq> []" "time (hd l) \<le> time n" "timeo_ok l"
  shows "agenda from (insert_after n l) = schedule (from + unat (time n), handler n, harg n) (agenda from l) \<and>
    (\<Sum>t \<leftarrow> insert_after n l. unat (time t)) = max (\<Sum>t \<leftarrow> l. unat (time t)) (unat (time n))"
  using assms
proof (induction n l arbitrary: "from" rule: insert_after.induct)
  case (2 n t ts)
  let ?n = "n\<lparr>time := time n - time t\<rparr>"
  have le: "unat (time t) \<le> unat (time n)" using 2(3) by (simp add: word_le_nat_alt)
  then have u: "unat (time n - time t) = unat (time n) - unat (time t)" by (rule unat_minus_small)
  show ?case
  proof (cases "ts = [] \<or> time ?n < time (hd ts)")
    case True
    show ?thesis
    proof (cases ts)
      case Nil
      then show ?thesis using le u by (simp add: schedule_def)
    next
      case (Cons t2 ts2)
      then have lt: "unat (time n) - unat (time t) < unat (time t2)" using True u by (simp add: word_less_nat_alt)
      have s: "schedule (from + unat (time n), handler n, harg n) (agenda (from + unat (time t)) ts) =
          (from + unat (time n), handler n, harg n) # agenda (from + unat (time t)) ts"
        using lt le agenda_ge Cons by (intro schedule_before) (fastforce dest: agenda_ge)
      have "unat (time t2 - (time n - time t)) = unat (time t2) - unat (time n - time t)"
        using lt u by (intro unat_minus_small) simp
      then show ?thesis using True s le u lt Cons by (simp add: Let_def ac_simps)
    qed
  next
    case False
    have "timeo_ok ts" using 2(4) by (simp add: timeo_ok_def)
    moreover have "time (hd ts) \<le> time ?n" using False by (simp add: linorder_not_less)
    ultimately have IH: "agenda (from + unat (time t)) (insert_after ?n ts) =
        schedule (from + unat (time t) + unat (time ?n), handler ?n, harg ?n) (agenda (from + unat (time t)) ts) \<and>
        (\<Sum>t \<leftarrow> insert_after ?n ts. unat (time t)) = max (\<Sum>t \<leftarrow> ts. unat (time t)) (unat (time ?n))"
      using 2(1) [of ?n "from + unat (time t)"] False by simp
    have "from + unat (time t) + unat (time ?n) = from + unat (time n)" using le u by simp
    then show ?thesis using IH False le u by (simp add: Let_def)
  qed
qed simp

lemma insert_timeo_agenda:
  assumes "timeo_ok l"
  shows "agenda 0 (insert_timeo n l) = schedule (unat (time n), handler n, harg n) (agenda 0 l)" "timeo_ok (insert_timeo n l)"
proof -
  have n: "unat (time n) < 2 ^ 32" using unsigned_less [of "time n"] by simp
  have "agenda 0 (insert_timeo n l) = schedule (unat (time n), handler n, harg n) (agenda 0 l) \<and> timeo_ok (insert_timeo n l)"
  proof (cases "l = [] \<or> time n < time (hd l)")
    case True
    show ?thesis
    proof (cases l)
      case Nil
      then show ?thesis using n by (simp add: insert_timeo_def schedule_def timeo_ok_def)
    next
      case (Cons t ts)
      then have lt: "time n < time t" using True by simp
      then have "unat (time t - time n) = unat (time t) - unat (time n)" "unat (time n) < unat (time t)"
        by (simp_all add: unat_minus_small word_less_nat_alt)
      moreover have "schedule (unat (time n), handler n, harg n) (agenda 0 l) = (unat (time n), handler n, harg n) # agenda 0 l"
        using lt Cons by (intro schedule_before) (fastforce simp: word_less_nat_alt dest: agenda_ge)
      ultimately show ?thesis using Cons lt assms by (simp add: insert_timeo_def timeo_ok_def)
    qed
  next
    case False
    then show ?thesis using insert_after_agenda [of l n 0] assms n by (auto simp: insert_timeo_def timeo_ok_def)
  qed
  then show "agenda 0 (insert_timeo n l) = schedule (unat (time n), handler n, harg n) (agenda 0 l)" "timeo_ok (insert_timeo n l)"
    by simp_all
qed

text \<open>Cancelling takes the first entry of that handler and argument off the agenda and moves no other.\<close>

fun cancel :: "'x \<Rightarrow> (nat \<times> 'x) list \<Rightarrow> (nat \<times> 'x) list" where
  "cancel x [] = []"
| "cancel x (e # A) = (if snd e = x then A else e # cancel x A)"

lemma unlink_agenda:
  assumes "timeo_ok l"
  shows "case unlink_timeo h arg l of
      None \<Rightarrow> (h, arg) \<notin> snd ` set (agenda from l)
    | Some l' \<Rightarrow> (h, arg) \<in> snd ` set (agenda from l) \<and> agenda from l' = cancel (h, arg) (agenda from l) \<and>
        (\<Sum>t \<leftarrow> l'. unat (time t)) \<le> (\<Sum>t \<leftarrow> l. unat (time t))"
  using assms
proof (induction l arbitrary: "from")
  case (Cons t ts)
  have r: "timeo_ok ts" using Cons.prems by (simp add: timeo_ok_def)
  show ?case
  proof (cases "handler t = h \<and> harg t = arg")
    case True
    have "agenda from (add_time (time t) ts) = agenda (from + unat (time t)) ts \<and>
        (\<Sum>t \<leftarrow> add_time (time t) ts. unat (time t)) \<le> (\<Sum>t \<leftarrow> t # ts. unat (time t))"
    proof (cases ts)
      case (Cons t2 ts2)
      then have "unat (time t2 + time t) = unat (time t2) + unat (time t)"
        using Cons.prems by (intro unat_plus_small) (simp add: timeo_ok_def)
      then show ?thesis using Cons by (simp add: ac_simps)
    qed simp
    then show ?thesis using True by simp
  next
    case False
    then show ?thesis using Cons.IH [OF r, of "from + unat (time t)"] by (auto split: option.splits)
  qed
qed simp

lemma cancel_absent: "x \<notin> snd ` set A \<Longrightarrow> cancel x A = A"
  by (induction A) auto

lemma untimeout_agenda:
  assumes "timeouts s = Some l" "timeo_ok l"
  shows "\<exists>l'. timeouts (sys_untimeout h arg s) = Some l' \<and> timeo_ok l' \<and> agenda 0 l' = cancel (h, arg) (agenda 0 l)"
  using assms unlink_agenda [OF assms(2), of h arg 0] cancel_absent [of "(h, arg)" "agenda 0 l"]
  by (cases "unlink_timeo h arg l") (auto simp: sys_untimeout_def timeo_ok_def)

lemma timeout_agenda:
  assumes "timeouts s = Some l" "timeo_ok l" "0 < free_timeo s"
  shows "\<exists>l'. timeouts (sys_timeout msecs h arg s) = Some l' \<and> timeo_ok l' \<and>
    agenda 0 l' = schedule (unat msecs, h, arg) (agenda 0 l)"
  using assms insert_timeo_agenda [OF assms(2), of "\<lparr>time = msecs, handler = h, harg = arg\<rparr>"]
  by (simp add: sys_timeout_def)

subsection \<open>Properties\<close>

text \<open>
  C39. The list of relative times implements an agenda of deadlines: \<open>sys_timeout\<close> puts the new time-out behind those
  that fall due no later and before all others, \<open>sys_untimeout\<close> takes the first one of that handler and argument
  off, and neither moves another deadline, though both change the times stored in the list; no stored time wraps.
\<close>

theorem sys_timers_agenda:
  assumes "timeouts s = Some l" "timeo_ok l" "0 < free_timeo s"
  shows "(\<exists>l'. timeouts (sys_timeout msecs h arg s) = Some l' \<and> timeo_ok l' \<and>
      agenda 0 l' = schedule (unat msecs, h, arg) (agenda 0 l)) \<and>
    (\<exists>l'. timeouts (sys_untimeout h arg s) = Some l' \<and> timeo_ok l' \<and> agenda 0 l' = cancel (h, arg) (agenda 0 l))"
  using timeout_agenda [OF assms] untimeout_agenda [OF assms(1,2)] by blast

subsection \<open>Witnesses\<close>

text \<open>A list with the deadlines 10, 30 and 30.\<close>

definition timer_sample :: "(string, unit) sys_state" where
  "timer_sample = \<lparr>timeouts = Some [\<lparr>time = 10, handler = Some ''arp'', harg = 0\<rparr>,
       \<lparr>time = 20, handler = Some ''tcp'', harg = 0\<rparr>, \<lparr>time = 0, handler = None, harg = 1\<rparr>],
     free_timeo = 3, timeflag = (\<lambda>_. False), world = ()\<rparr>"

theorem sys_timers_agenda_witness:
  "\<exists>l. timeouts (sys_timeout 15 (Some ''dns'') 2 timer_sample) = Some l \<and> map fst (agenda 0 l) = [10, 15, 30, 30]"
  using sys_timers_agenda [of timer_sample _ 15 "Some ''dns''" 2]
  by (auto simp: timer_sample_def timeo_ok_def schedule_def)

end
