(* ===== verification/Sys_Fetch.thy ===== *)
theory Sys_Fetch
  imports Sys_Timeo
begin

text \<open>
  Waiting for a message while the timers of \<open>core/sys.c\<close> run, on the port of \<open>port/arch/junk/sys_arch.c\<close>.  Of FreeRTOS
  the port uses the tick counter and the blocking receive, the arguments \<open>ticks\<close> and \<open>receive\<close> (\<open>take\<close> for a semaphore):
  \<open>receive t k\<close> waits up to \<open>t\<close> ticks from the state \<open>k\<close> of the kernel.
\<close>

subsection \<open>The port (sys_arch.c)\<close>

text \<open>The time a call took; no time counts as one.\<close>

definition elapsed :: "u32 \<Rightarrow> u32 \<Rightarrow> u32" where
  "elapsed start end = (if end - start = 0 then 1 else end - start)"

text \<open>The loop \<open>while (pdTRUE != xQueueReceive(mbox, &(*msg), 10000))\<close>.\<close>

partial_function (option) block_forever :: "(u32 \<Rightarrow> 'k \<Rightarrow> 'm option \<times> 'k) \<Rightarrow> 'k \<Rightarrow> ('m \<times> 'k) option" where
  "block_forever receive k =
     (case receive 10000 k of
        (Some m, k) \<Rightarrow> Some (m, k)
      | (None, k) \<Rightarrow> block_forever receive k)"

text \<open>The second component is \<open>*msg\<close>, \<open>None\<close> for \<open>NULL\<close>.\<close>

definition sys_arch_mbox_fetch ::
    "('k \<Rightarrow> u32) \<Rightarrow> (u32 \<Rightarrow> 'k \<Rightarrow> 'm option \<times> 'k) \<Rightarrow> u32 \<Rightarrow> 'k \<times> 'm option \<Rightarrow> (u32 \<times> 'k \<times> 'm option) option" where
  "sys_arch_mbox_fetch ticks receive timeout w =
     (let StartTime = ticks (fst w)
      in if timeout \<noteq> 0
         then (case receive timeout (fst w) of
                 (Some m, k) \<Rightarrow> Some (elapsed StartTime (ticks k), k, Some m)
               | (None, k) \<Rightarrow> Some (SYS_ARCH_TIMEOUT, k, None))
         else map_option (\<lambda>(m, k). (elapsed StartTime (ticks k), k, Some m)) (block_forever receive (fst w)))"

definition sys_arch_sem_wait ::
    "('k \<Rightarrow> u32) \<Rightarrow> (u32 \<Rightarrow> 'k \<Rightarrow> unit option \<times> 'k) \<Rightarrow> u32 \<Rightarrow> 'k \<Rightarrow> (u32 \<times> 'k) option" where
  "sys_arch_sem_wait ticks take_sem timeout k =
     (let StartTime = ticks k
      in if timeout \<noteq> 0
         then (case take_sem timeout k of
                 (Some _, k) \<Rightarrow> Some (elapsed StartTime (ticks k), k)
               | (None, k) \<Rightarrow> Some (SYS_ARCH_TIMEOUT, k))
         else map_option (\<lambda>(_, k). (elapsed StartTime (ticks k), k)) (block_forever take_sem k))"

text \<open>
  The kernel's side, as FreeRTOS documents it: with the clock \<open>now\<close>, of which \<open>ticks\<close> is the low word, and a message
  \<open>m\<close> that is there from time \<open>M\<close> on, a receive comes back when the message is there or when its time is over.
\<close>

definition kernel_ok :: "nat \<Rightarrow> 'm \<Rightarrow> ('k \<Rightarrow> nat) \<Rightarrow> ('k \<Rightarrow> u32) \<Rightarrow> (u32 \<Rightarrow> 'k \<Rightarrow> 'm option \<times> 'k) \<Rightarrow> bool" where
  "kernel_ok M m now ticks receive \<longleftrightarrow> (\<forall>k. ticks k = of_nat (now k)) \<and>
     (\<forall>t k. 0 < t \<longrightarrow> (if M < now k + unat t then fst (receive t k) = Some m \<and> now (snd (receive t k)) = max M (now k)
       else fst (receive t k) = None \<and> now (snd (receive t k)) = now k + unat t))"

lemma block_forever_ok:
  assumes "kernel_ok M m now ticks receive"
  shows "\<exists>k'. block_forever receive k = Some (m, k') \<and> now k' = max M (now k)"
proof (induction "M - now k" arbitrary: k rule: less_induct)
  case less
  obtain r k1 where k1: "receive 10000 k = (r, k1)" by fastforce
  have K: "if M < now k + 10000 then r = Some m \<and> now k1 = max M (now k) else r = None \<and> now k1 = now k + 10000"
    using assms [unfolded kernel_ok_def, THEN conjunct2, rule_format, of 10000 k] k1
    by (simp split: if_splits)
  show ?case
  proof (cases "M < now k + 10000")
    case True
    then show ?thesis using K k1 by (subst block_forever.simps) simp
  next
    case False
    then have "M - now k1 < M - now k" using K by simp
    from less [OF this] obtain k' where "block_forever receive k1 = Some (m, k')" "now k' = max M (now k1)" by blast
    then show ?thesis using False K k1 by (subst block_forever.simps) simp
  qed
qed

text \<open>
  What the loop of \<open>sys.c\<close> sees of a port: \<open>got\<close> holds once it has the message.  A wait that ends with the message
  reports the time waited, but never less than 1.
\<close>

definition waits_for :: "nat \<Rightarrow> ('p \<Rightarrow> nat) \<Rightarrow> ('p \<Rightarrow> bool) \<Rightarrow> (u32 \<Rightarrow> 'p \<Rightarrow> (u32 \<times> 'p) option) \<Rightarrow> bool" where
  "waits_for M now got wait \<longleftrightarrow> (\<forall>t p. \<exists>r p'. wait t p = Some (r, p') \<and>
     (if t = 0 then got p' \<and> now p' = max M (now p)
      else if M < now p + unat t then r = of_nat (max 1 (M - now p)) \<and> got p' \<and> now p' = max M (now p)
      else r = SYS_ARCH_TIMEOUT \<and> now p' = now p + unat t))"

lemma elapsed_ok:
  assumes "M < n + unat (t :: u32)"
  shows "elapsed (of_nat n) (of_nat (max M n)) = of_nat (max 1 (M - n))"
proof -
  have "unat t < 2 ^ 32" using unsigned_less [of t] by simp
  then have "M - n < 2 ^ 32" using assms by linarith
  then have "of_nat (M - n) = (0 :: u32) \<longleftrightarrow> M - n = 0"
    by (auto simp: word_of_nat_eq_0_iff dest: dvd_imp_le)
  moreover have "of_nat (max M n) - of_nat n = (of_nat (M - n) :: u32)" by (cases "n \<le> M") (simp_all add: of_nat_diff)
  ultimately show ?thesis by (auto simp: elapsed_def max_def)
qed

lemma mbox_waits:
  assumes "kernel_ok M m now ticks receive"
  shows "waits_for M (now \<circ> fst) (\<lambda>p. snd p = Some m) (sys_arch_mbox_fetch ticks receive)"
  unfolding waits_for_def
proof (intro allI)
  fix t p
  have tk: "ticks k = of_nat (now k)" for k using assms by (simp add: kernel_ok_def)
  show "\<exists>r p'. sys_arch_mbox_fetch ticks receive t p = Some (r, p') \<and>
     (if t = 0 then snd p' = Some m \<and> (now \<circ> fst) p' = max M ((now \<circ> fst) p)
      else if M < (now \<circ> fst) p + unat t then r = of_nat (max 1 (M - (now \<circ> fst) p)) \<and> snd p' = Some m \<and>
        (now \<circ> fst) p' = max M ((now \<circ> fst) p)
      else r = SYS_ARCH_TIMEOUT \<and> (now \<circ> fst) p' = (now \<circ> fst) p + unat t)"
  proof (cases "t = 0")
    case True
    then show ?thesis using block_forever_ok [OF assms, of "fst p"] by (auto simp: sys_arch_mbox_fetch_def Let_def)
  next
    case False
    obtain r k1 where k1: "receive t (fst p) = (r, k1)" by fastforce
    have K: "if M < now (fst p) + unat t then r = Some m \<and> now k1 = max M (now (fst p)) else r = None \<and> now k1 = now (fst p) + unat t"
      using assms [unfolded kernel_ok_def, THEN conjunct2, rule_format, of t "fst p"] k1 False by (simp add: word_neq_0_conv split: if_splits)
    show ?thesis
      using K k1 False elapsed_ok [of M "now (fst p)" t] by (cases r) (simp_all add: sys_arch_mbox_fetch_def Let_def tk split: if_splits)
  qed
qed

lemma sem_waits:
  assumes "kernel_ok M () now ticks take_sem"
  shows "waits_for M now (\<lambda>_. True) (sys_arch_sem_wait ticks take_sem)"
  unfolding waits_for_def
proof (intro allI)
  fix t k
  have tk: "ticks k = of_nat (now k)" for k using assms by (simp add: kernel_ok_def)
  show "\<exists>r k'. sys_arch_sem_wait ticks take_sem t k = Some (r, k') \<and>
     (if t = 0 then True \<and> now k' = max M (now k)
      else if M < now k + unat t then r = of_nat (max 1 (M - now k)) \<and> True \<and> now k' = max M (now k)
      else r = SYS_ARCH_TIMEOUT \<and> now k' = now k + unat t)"
  proof (cases "t = 0")
    case True
    then show ?thesis using block_forever_ok [OF assms, of k] by (auto simp: sys_arch_sem_wait_def Let_def)
  next
    case False
    obtain r k1 where k1: "take_sem t k = (r, k1)" by fastforce
    have K: "if M < now k + unat t then r = Some () \<and> now k1 = max M (now k) else r = None \<and> now k1 = now k + unat t"
      using assms [unfolded kernel_ok_def, THEN conjunct2, rule_format, of t k] k1 False by (simp add: word_neq_0_conv split: if_splits)
    show ?thesis using K k1 False elapsed_ok [of M "now k" t] by (cases r) (simp_all add: sys_arch_sem_wait_def Let_def tk split: if_splits)
  qed
qed

subsection \<open>Handlers\<close>

text \<open>
  A handler is a program of timer calls, which it chooses by its argument, the time and the data \<open>'a\<close> of the
  application beside the port; it may change that data.  The timers of \<open>api/tcpip.c\<close> start themselves again.
\<close>

datatype 'h timer_op = Start u32 "'h option" nat | Stop "'h option" nat

fun do_op :: "'h timer_op \<Rightarrow> ('h, 'w) sys_state \<Rightarrow> ('h, 'w) sys_state" where
  "do_op (Start ms h a) s = sys_timeout ms h a s"
| "do_op (Stop h a) s = sys_untimeout h a s"

type_synonym ('h, 'a) prog = "'h \<Rightarrow> nat \<Rightarrow> nat \<Rightarrow> 'a \<Rightarrow> 'h timer_op list \<times> 'a"

definition run_prog :: "('p \<Rightarrow> nat) \<Rightarrow> ('h, 'a) prog \<Rightarrow> 'h \<Rightarrow> nat \<Rightarrow> ('h, 'p \<times> 'a) sys_state \<Rightarrow> ('h, 'p \<times> 'a) sys_state" where
  "run_prog now prog h arg s =
     (let (ops, x) = prog h arg (now (fst (world s))) (snd (world s))
      in fold do_op ops (s\<lparr>world := (fst (world s), x)\<rparr>))"

definition on_port :: "(u32 \<Rightarrow> 'p \<Rightarrow> (u32 \<times> 'p) option) \<Rightarrow> u32 \<Rightarrow> 'p \<times> 'a \<Rightarrow> (u32 \<times> 'p \<times> 'a) option" where
  "on_port wait t w = map_option (\<lambda>(r, p). (r, p, snd w)) (wait t (fst w))"

subsection \<open>The calendar\<close>

text \<open>
  The same with the deadlines on the clock, in order: until the message of time \<open>M\<close> the first one that has come is taken
  off, and its handler runs at just that time; what it starts goes to its own time, as long as the pool has elements.
\<close>

type_synonym 'h calendar = "(nat \<times> 'h option \<times> nat) list"

fun plan :: "nat \<Rightarrow> 'h timer_op \<Rightarrow> 'h calendar \<times> nat \<Rightarrow> 'h calendar \<times> nat" where
  "plan now (Start ms h a) (A, f) = (if f = 0 then (A, f) else (schedule (now + unat ms, h, a) A, f - 1))"
| "plan now (Stop h a) (A, f) = (if (h, a) \<in> snd ` set A then (cancel (h, a) A, f + 1) else (A, f))"

inductive served :: "('h, 'a) prog \<Rightarrow> nat \<Rightarrow> 'h calendar \<Rightarrow> nat \<Rightarrow> nat \<Rightarrow> 'a \<Rightarrow> 'h calendar \<Rightarrow> nat \<Rightarrow> nat \<Rightarrow> 'a \<Rightarrow> bool"
  for prog M where
  message: "A = [] \<or> max M now < fst (hd A) \<Longrightarrow> served prog M A f now x A f now x"
| silent: "D \<le> max M now \<Longrightarrow> served prog M A (f + 1) D x B g t y \<Longrightarrow> served prog M ((D, None, a) # A) f now x B g t y"
| call: "D \<le> max M now \<Longrightarrow> prog h a D x = (ops, x') \<Longrightarrow> fold (plan D) ops (A, f + 1) = (A', f') \<Longrightarrow>
    served prog M A' f' D x' B g t y \<Longrightarrow> served prog M ((D, Some h, a) # A) f now x B g t y"

lemma agenda_from: "agenda n l = map (\<lambda>(d, x). (d + n, x)) (agenda 0 l)"
  using agenda_shift [of 0 n l] by simp

lemma schedule_shift: "schedule (d + n, x) (map (\<lambda>(d, x). (d + n, x)) A) = map (\<lambda>(d, x). (d + n, x)) (schedule (d, x) A)"
  by (simp add: schedule_def takeWhile_map dropWhile_map comp_def split_def)

lemma cancel_shift: "cancel x (map (\<lambda>(d, x). (d + n, x)) A) = map (\<lambda>(d, x). (d + n, x)) (cancel x A)"
  by (induction A) auto

lemma do_op_plan:
  assumes "timeouts s = Some l" "timeo_ok l"
  shows "\<exists>l'. timeouts (do_op op s) = Some l' \<and> timeo_ok l' \<and> world (do_op op s) = world s \<and>
    plan n op (agenda n l, free_timeo s) = (agenda n l', free_timeo (do_op op s))"
proof (cases op)
  case (Start ms h a)
  show ?thesis
  proof (cases "free_timeo s = 0")
    case False
    then obtain l' where l': "timeouts (sys_timeout ms h a s) = Some l'" "timeo_ok l'" "agenda 0 l' = schedule (unat ms, h, a) (agenda 0 l)"
      using timeout_agenda [OF assms, of ms h a] by auto
    have "agenda n l' = schedule (n + unat ms, h, a) (agenda n l)"
      using l'(3) schedule_shift [of "unat ms" n "(h, a)" "agenda 0 l"] by (simp add: agenda_from [of n] add.commute)
    then show ?thesis using l' False Start assms(1) by (auto simp: sys_timeout_def)
  qed (use assms Start in \<open>simp add: sys_timeout_def\<close>)
next
  case (Stop h a)
  have sn: "snd ` set (agenda n l) = snd ` set (agenda 0 l)" by (subst agenda_from) (force simp: image_iff)
  note U = unlink_agenda [OF assms(2), of h a 0]
  show ?thesis
  proof (cases "unlink_timeo h a l")
    case None
    then show ?thesis using U sn Stop assms by (simp add: sys_untimeout_def)
  next
    case (Some l')
    then have "agenda n l' = cancel (h, a) (agenda n l)" using U cancel_shift [of "(h, a)" n "agenda 0 l"] by (simp add: agenda_from [of n])
    then show ?thesis using U sn Stop assms Some by (simp add: sys_untimeout_def timeo_ok_def)
  qed
qed

lemma do_ops_plan:
  "timeouts s = Some l \<Longrightarrow> timeo_ok l \<Longrightarrow>
   \<exists>l'. timeouts (fold do_op ops s) = Some l' \<and> timeo_ok l' \<and> world (fold do_op ops s) = world s \<and>
     fold (plan n) ops (agenda n l, free_timeo s) = (agenda n l', free_timeo (fold do_op ops s))"
proof (induction ops arbitrary: s l)
  case (Cons op ops)
  obtain l1 where "timeouts (do_op op s) = Some l1" "timeo_ok l1" "world (do_op op s) = world s"
    "plan n op (agenda n l, free_timeo s) = (agenda n l1, free_timeo (do_op op s))"
    using do_op_plan [OF Cons.prems] by blast
  then show ?case using Cons.IH [of "do_op op s" l1] by auto
qed auto

text \<open>How many deadlines are now.\<close>

definition due_now :: "nat \<Rightarrow> 'h calendar \<Rightarrow> nat" where
  "due_now n A = length (filter (\<lambda>e. fst e = n) A)"

lemma due_schedule: "n < fst e \<Longrightarrow> due_now n (schedule e A) = due_now n A"
proof -
  assume "n < fst e"
  then have "due_now n (schedule e A) = due_now n (takeWhile (\<lambda>d. fst d \<le> fst e) A @ dropWhile (\<lambda>d. fst d \<le> fst e) A)"
    unfolding due_now_def schedule_def filter_append length_append by simp
  then show ?thesis by (simp only: takeWhile_dropWhile_id)
qed

lemma due_cancel: "due_now n (cancel x A) \<le> due_now n A"
  by (induction A) (auto simp: due_now_def)

lemma due_plan:
  assumes "\<forall>ms h a. op = Start ms h a \<longrightarrow> 0 < ms"
  shows "due_now n (fst (plan n op (A, f))) \<le> due_now n A"
proof (cases op)
  case (Start ms h a)
  then have "n < n + unat ms" using assms by (simp add: word_less_nat_alt)
  then show ?thesis using Start due_schedule [of n "(n + unat ms, h, a)" A] by simp
qed (simp add: due_cancel)

lemma due_plans:
  "\<forall>op \<in> set ops. \<forall>ms h a. op = Start ms h a \<longrightarrow> 0 < ms \<Longrightarrow> due_now n (fst (fold (plan n) ops (A, f))) \<le> due_now n A"
proof (induction ops arbitrary: A f)
  case (Cons op ops)
  obtain A1 f1 where p: "plan n op (A, f) = (A1, f1)" by fastforce
  have "due_now n A1 \<le> due_now n A" using due_plan [of op n A f] Cons.prems p by simp
  moreover have "due_now n (fst (fold (plan n) ops (A1, f1))) \<le> due_now n A1" using Cons by simp
  ultimately show ?case using p by simp
qed simp


lemma agenda_back: "0 < n \<Longrightarrow> agenda (n - 1) l = map (\<lambda>(d, e). (d - 1, e)) (agenda n l)"
  using agenda_shift [of "n - 1" 1 l] by (simp add: comp_def split_def)

lemma timeo_ok_less: "timeo_ok (t # ts) \<Longrightarrow> unat (time t') \<le> unat (time t) \<Longrightarrow> timeo_ok (t' # ts)"
  by (simp add: timeo_ok_def)

text \<open>The message comes before the first deadline.\<close>

lemma wait_message:
  assumes W: "waits_for M now got wait" and T: "timeouts s = Some (t # ts)" "timeo_ok (t # ts)"
    and D: "max M (now (fst (world s))) < now (fst (world s)) + unat (time t)"
  shows "\<exists>s' l'. wait_loop (on_port wait) run s = Some s' \<and> timeouts s' = Some l' \<and> timeo_ok l' \<and> free_timeo s' = free_timeo s \<and>
    got (fst (world s')) \<and> snd (world s') = snd (world s) \<and> now (fst (world s')) = max M (now (fst (world s))) \<and>
    agenda (max M (now (fst (world s)))) l' =
      map (\<lambda>(D, e). (if M \<le> now (fst (world s)) then D - 1 else D, e)) (agenda (now (fst (world s))) (t # ts))"
proof -
  let ?n = "now (fst (world s))" and ?r = "of_nat (max 1 (M - now (fst (world s)))) :: u32"
  let ?t = "if ?r < time t then time t - ?r else 0"
  have pos: "0 < time t" using D by (simp add: word_less_nat_alt)
  obtain p where p: "wait (time t) (fst (world s)) = Some (?r, p)" "got p" "now p = max M ?n"
    using W [unfolded waits_for_def, rule_format, of "time t" "fst (world s)"] D pos by (auto split: if_splits)
  have t: "unat (time t) < 2 ^ 32" using unsigned_less [of "time t"] by simp
  then have "M - ?n < 2 ^ 32" using D by linarith
  then have "max 1 (M - ?n) < 2 ^ 32" by simp
  then have r: "unat ?r = max 1 (M - ?n)" by (simp add: unsigned_of_nat take_bit_nat_eq_self)
  have "unat (time t) < 4294967296" using t by simp
  then have "M - ?n < 4294967295" using D by linarith
  then have "unat ?r \<noteq> 2 ^ 32 - 1" unfolding r by (auto simp: max_def)
  then have ne: "?r \<noteq> SYS_ARCH_TIMEOUT" by (auto simp: SYS_ARCH_TIMEOUT_def)
  have u: "unat ?t = unat (time t) - max 1 (M - ?n)"
    unfolding word_less_nat_alt if_distrib [of unat] r using r by (auto simp: unat_minus_small word_le_nat_alt)
  let ?s = "s\<lparr>world := (p, snd (world s)), timeouts := Some (t\<lparr>time := ?t\<rparr> # ts)\<rparr>"
  have "wait_loop (on_port wait) run s = Some ?s"
    using T(1) pos p ne by (subst wait_loop.simps) (simp add: on_port_def Let_def)
  moreover have "timeo_ok (t\<lparr>time := ?t\<rparr> # ts)"
  proof (rule timeo_ok_less [OF T(2)])
    have "unat ?t \<le> unat (time t)" using u by linarith
    then show "unat (time (t\<lparr>time := ?t\<rparr>)) \<le> unat (time t)" by (cases t) (simp only: timeo.simps)
  qed
  moreover have "agenda (max M ?n) (t\<lparr>time := ?t\<rparr> # ts) = map (\<lambda>(D, e). (if M \<le> ?n then D - 1 else D, e)) (agenda ?n (t # ts))"
  proof (cases "M \<le> ?n")
    case True
    then have "max M ?n + unat ?t = ?n + unat (time t) - 1" using u D pos by (simp add: word_less_nat_alt)
    then show ?thesis using True agenda_back [of "?n + unat (time t)" ts] D by simp
  next
    case False
    then have "max M ?n + unat ?t = ?n + unat (time t)" using u D by simp
    then show ?thesis using False by simp
  qed
  ultimately show ?thesis using p by (intro exI [of _ ?s] exI [of _ "t\<lparr>time := ?t\<rparr> # ts"] conjI) (assumption | simp del: agenda.simps)+
qed

text \<open>The first deadline comes before the message.\<close>

lemma wait_expiry:
  assumes W: "waits_for M now got wait" and T: "timeouts s = Some (t # ts)"
    and D: "now (fst (world s)) + unat (time t) \<le> max M (now (fst (world s)))"
  shows "\<exists>p. now p = now (fst (world s)) + unat (time t) \<and>
    wait_loop (on_port wait) run s = wait_loop (on_port wait) run
      (let s = s\<lparr>world := (p, snd (world s)), timeouts := Some ts, free_timeo := free_timeo s + 1\<rparr>
       in case handler t of None \<Rightarrow> s | Some h \<Rightarrow> run h (harg t) s)"
proof (cases "time t = 0")
  case True
  then show ?thesis using T by (intro exI [of _ "fst (world s)"], subst wait_loop.simps) (simp add: Let_def cong: option.case_cong)
next
  case False
  then have "0 < unat (time t)" by (simp add: unat_gt_0)
  then obtain p where "wait (time t) (fst (world s)) = Some (SYS_ARCH_TIMEOUT, p)" "now p = now (fst (world s)) + unat (time t)"
    using W [unfolded waits_for_def, rule_format, of "time t" "fst (world s)"] D False by (auto simp: max_def split: if_splits)
  then show ?thesis using T False
    by (intro exI [of _ p], subst wait_loop.simps) (simp add: Let_def on_port_def word_neq_0_conv cong: option.case_cong)
qed

lemma wait_loop_served:
  assumes W: "waits_for M now got wait"
    and P: "\<forall>h a n x. \<forall>op \<in> set (fst (prog h a n x)). \<forall>ms g b. op = Start ms g b \<longrightarrow> 0 < ms"
  shows "timeouts s = Some l \<Longrightarrow> timeo_ok l \<Longrightarrow>
    \<exists>s' l' A f t y. wait_loop (on_port wait) (run_prog now prog) s = Some s' \<and>
      served prog M (agenda (now (fst (world s))) l) (free_timeo s) (now (fst (world s))) (snd (world s)) A f t y \<and>
      timeouts s' = Some l' \<and> timeo_ok l' \<and> free_timeo s' = f \<and> got (fst (world s')) \<and> snd (world s') = y \<and>
      now (fst (world s')) = max M t \<and> agenda (max M t) l' = map (\<lambda>(D, e). (if M \<le> t then D - 1 else D, e)) A"
proof (induction "(M - now (fst (world s)), due_now (now (fst (world s))) (agenda (now (fst (world s))) l))" arbitrary: s l
    rule: wf_induct_rule [OF wf_lex_prod [OF wf_less_than wf_less_than]])
  case (1 s l)
  let ?n = "now (fst (world s))"
  show ?case
  proof (cases l)
    case Nil
    obtain r p where "wait 0 (fst (world s)) = Some (r, p)" "got p" "now p = max M ?n"
      using W [unfolded waits_for_def, rule_format, of 0 "fst (world s)"] by auto
    then show ?thesis using Nil 1 by (subst wait_loop.simps) (auto simp: on_port_def intro!: exI served.message)
  next
    case (Cons t ts)
    let ?D = "?n + unat (time t)"
    show ?thesis
    proof (cases "?D \<le> max M ?n")
      case False
      then have "served prog M (agenda ?n l) (free_timeo s) ?n (snd (world s)) (agenda ?n l) (free_timeo s) ?n (snd (world s))"
        using Cons by (intro served.message) (simp add: linorder_not_le)
      moreover obtain s' l' where "wait_loop (on_port wait) (run_prog now prog) s = Some s'" "timeouts s' = Some l'" "timeo_ok l'"
        "free_timeo s' = free_timeo s" "got (fst (world s'))" "snd (world s') = snd (world s)" "now (fst (world s')) = max M ?n"
        "agenda (max M ?n) l' = map (\<lambda>(D, e). (if M \<le> ?n then D - 1 else D, e)) (agenda ?n l)"
        using wait_message [OF W, of s t ts "run_prog now prog"] False 1(2,3) Cons by (auto simp: linorder_not_le)
      ultimately show ?thesis by (intro exI conjI)
    next
      case True
      obtain p where p: "now p = ?D" "wait_loop (on_port wait) (run_prog now prog) s = wait_loop (on_port wait) (run_prog now prog)
          (let s = s\<lparr>world := (p, snd (world s)), timeouts := Some ts, free_timeo := free_timeo s + 1\<rparr>
           in case handler t of None \<Rightarrow> s | Some h \<Rightarrow> run_prog now prog h (harg t) s)"
        using wait_expiry [OF W _ True, of ts] 1(2) Cons by blast
      let ?s = "s\<lparr>world := (p, snd (world s)), timeouts := Some ts, free_timeo := free_timeo s + 1\<rparr>"
      have ts: "timeouts ?s = Some ts" "timeo_ok ts" using 1(3) Cons by (auto simp: timeo_ok_def)
      have less: "((M - ?D, d), (M - ?n, due_now ?n (agenda ?n l))) \<in> less_than <*lex*> less_than"
        if "?D = ?n \<Longrightarrow> d \<le> due_now ?n (agenda ?n ts)" for d
        using that True Cons by (auto simp: due_now_def max_def split: if_splits)
      show ?thesis
      proof (cases "handler t")
        case None
        from less [of "due_now ?D (agenda ?D ts)"]
        have "((M - now (fst (world ?s)), due_now (now (fst (world ?s))) (agenda (now (fst (world ?s))) ts)),
            (M - ?n, due_now ?n (agenda ?n l))) \<in> less_than <*lex*> less_than" using p by simp
        note IH = 1(1) [OF this ts]
        then obtain s' l' A g u y where "wait_loop (on_port wait) (run_prog now prog) ?s = Some s'"
          "served prog M (agenda ?D ts) (free_timeo s + 1) ?D (snd (world s)) A g u y" "timeouts s' = Some l'" "timeo_ok l'"
          "free_timeo s' = g" "got (fst (world s'))" "snd (world s') = y" "now (fst (world s')) = max M u"
          "agenda (max M u) l' = map (\<lambda>(D, e). (if M \<le> u then D - 1 else D, e)) A" using p(1) by auto
        moreover from this served.silent [OF True]
        have "served prog M (agenda ?n l) (free_timeo s) ?n (snd (world s)) A g u y" using Cons None by simp
        ultimately show ?thesis using p(2) None by (intro exI conjI) (simp_all add: Let_def)
      next
        case (Some h)
        obtain ops x' where pr: "prog h (harg t) ?D (snd (world s)) = (ops, x')" by fastforce
        let ?s1 = "?s\<lparr>world := (p, x')\<rparr>" and ?s2 = "fold do_op ops (?s\<lparr>world := (p, x')\<rparr>)"
        obtain l2 where l2: "timeouts ?s2 = Some l2" "timeo_ok l2" "world ?s2 = (p, x')"
            "fold (plan ?D) ops (agenda ?D ts, free_timeo s + 1) = (agenda ?D l2, free_timeo ?s2)"
          using do_ops_plan [of ?s1 ts ops ?D] ts by auto
        have "\<forall>op \<in> set ops. \<forall>ms g b. op = Start ms g b \<longrightarrow> 0 < ms" using P [rule_format, of _ h "harg t" ?D "snd (world s)"] pr by auto
        from due_plans [OF this, of ?D "agenda ?D ts" "free_timeo s + 1"]
        have "due_now ?D (agenda ?D l2) \<le> due_now ?D (agenda ?D ts)" using l2 by simp
        then have "((M - now (fst (world ?s2)), due_now (now (fst (world ?s2))) (agenda (now (fst (world ?s2))) l2)),
            (M - ?n, due_now ?n (agenda ?n l))) \<in> less_than <*lex*> less_than"
          unfolding l2(3) fst_conv p(1) by (intro less) simp
        note IH = 1(1) [OF this l2(1,2)]
        then obtain s' l' A g u y where "wait_loop (on_port wait) (run_prog now prog) ?s2 = Some s'"
          "served prog M (agenda ?D l2) (free_timeo ?s2) ?D x' A g u y" "timeouts s' = Some l'" "timeo_ok l'"
          "free_timeo s' = g" "got (fst (world s'))" "snd (world s') = y" "now (fst (world s')) = max M u"
          "agenda (max M u) l' = map (\<lambda>(D, e). (if M \<le> u then D - 1 else D, e)) A" using p(1) l2(3) by auto
        moreover have "served prog M (agenda ?n l) (free_timeo s) ?n (snd (world s)) A g u y"
          unfolding Cons agenda.simps Some by (rule served.call, rule True, rule pr, rule l2(4), rule calculation(2))
        ultimately show ?thesis using p Some pr by (intro exI conjI) (simp_all add: Let_def run_prog_def)
      qed
    qed
  qed
qed

text \<open>The same for a semaphore.\<close>

lemmas sem_wait_served = wait_loop_served [OF sem_waits, folded sys_sem_wait_def]

subsection \<open>Properties\<close>

text \<open>
  C40. On the port of \<open>port/arch/junk/sys_arch.c\<close>, with a message \<open>m\<close> that is there from time \<open>M\<close> on, \<open>sys_mbox_fetch\<close>
  comes back with \<open>m\<close>, at \<open>M\<close> or when the last handler before it has run.  Every deadline up to then has been served at
  its own time and in order, the ones that handlers start and cancel on the way included: a handler runs with its own
  time-out already off the list and back in the pool, so that it can start itself again.  The deadlines left are those of the
  calendar, but when the message was there at the start of the last wait all of them have moved 1 ms ahead, because the
  port reports no wait as 1.  Handlers are programs of \<open>sys_timeout\<close> and \<open>sys_untimeout\<close> calls that take no time and do
  not start a time-out of 0 ms, which would fall due again at once.
\<close>

theorem sys_fetch_runs_due:
  assumes "kernel_ok M m now ticks receive" "timeouts s = Some l" "timeo_ok l"
    "\<forall>h a n x. \<forall>op \<in> set (fst (prog h a n x)). \<forall>ms g b. op = Start ms g b \<longrightarrow> 0 < ms"
  shows "\<exists>s' l' A f t y.
    sys_mbox_fetch (on_port (sys_arch_mbox_fetch ticks receive)) (run_prog (now \<circ> fst) prog) s = Some s' \<and>
    served prog M (agenda (now (fst (fst (world s)))) l) (free_timeo s) (now (fst (fst (world s)))) (snd (world s)) A f t y \<and>
    timeouts s' = Some l' \<and> timeo_ok l' \<and> free_timeo s' = f \<and> snd (fst (world s')) = Some m \<and> snd (world s') = y \<and>
    now (fst (fst (world s'))) = max M t \<and> agenda (max M t) l' = map (\<lambda>(D, e). (if M \<le> t then D - 1 else D, e)) A"
  using wait_loop_served [OF mbox_waits [OF assms(1)] assms(4,2,3)] by (simp add: sys_mbox_fetch_def)

subsection \<open>Witnesses\<close>

inductive_simps served_nil [simp]: "served prog M [] f now x B g t y"
inductive_simps served_cons: "served prog M (e # A) f now x B g t y"

lemma served_rest [simp]: "max M now < D \<Longrightarrow> served prog M ((D, h, a) # A) f now x B g t y \<longleftrightarrow>
    B = (D, h, a) # A \<and> g = f \<and> t = now \<and> y = x"
  by (auto simp: served_cons)

lemma served_due [simp]: "D \<le> max M now \<Longrightarrow> served prog M ((D, h, a) # A) f now x B g t y \<longleftrightarrow>
    (case h of
       None \<Rightarrow> served prog M A (f + 1) D x B g t y
     | Some h \<Rightarrow> (let (ops, x') = prog h a D x; (A', f') = fold (plan D) ops (A, f + 1) in served prog M A' f' D x' B g t y))"
  by (subst served_cons) (cases h; auto split: prod.splits)

text \<open>A handler that counts and starts itself again, and a clock as kernel with a message at 50.\<close>

definition again :: "(string, nat) prog" where
  "again h a n x = ([Start 20 (Some h) a], x + 1)"

definition clock_receive :: "u32 \<Rightarrow> nat \<Rightarrow> nat option \<times> nat" where
  "clock_receive t k = (if 50 < k + unat t then (Some 7, max 50 k) else (None, k + unat t))"

definition fetch_sample :: "(string, (nat \<times> nat option) \<times> nat) sys_state" where
  "fetch_sample = \<lparr>timeouts = Some [\<lparr>time = 10, handler = Some ''arp'', harg = 0\<rparr>, \<lparr>time = 20, handler = None, harg = 1\<rparr>],
     free_timeo = 1, timeflag = (\<lambda>_. False), world = ((0, None), 0)\<rparr>"

text \<open>The handler runs at 10, 30 and 50, and would at 70.\<close>

theorem sys_fetch_runs_due_witness:
  "\<exists>s' l'. sys_mbox_fetch (on_port (sys_arch_mbox_fetch of_nat clock_receive)) (run_prog (id \<circ> fst) again) fetch_sample = Some s' \<and>
     timeouts s' = Some l' \<and> agenda 50 l' = [(69, Some ''arp'', 0)] \<and> fst (world s') = (50, Some 7) \<and> snd (world s') = 3"
proof -
  have K: "kernel_ok 50 7 id of_nat clock_receive" by (simp add: kernel_ok_def clock_receive_def)
  have l: "timeouts fetch_sample = Some [\<lparr>time = 10, handler = Some ''arp'', harg = 0\<rparr>, \<lparr>time = 20, handler = None, harg = 1\<rparr>]"
    "timeo_ok [\<lparr>time = 10, handler = Some ''arp'', harg = 0\<rparr>, \<lparr>time = 20, handler = None, harg = 1\<rparr>]"
    by (simp_all add: fetch_sample_def timeo_ok_def)
  from sys_fetch_runs_due [OF K l, of again]
  show ?thesis by (simp add: again_def fetch_sample_def schedule_def Let_def) (auto simp: prod_eq_iff)
qed

end
