(* ===== verification/Spec2Isabelle.thy ===== *)
theory Spec2Isabelle
  imports Inet Chksum Mem_Heap Emac Board_Io Memp Pbuf_Props Etharp_Reply Etharp_Timer Rx_Order Icmp_Echo Image
    Tcp_Write Asn1_Oid Boot Fsm_Rfc Sys_Fetch
begin

text \<open>
  Verification development for the firmware of an LPC1768 board with an Ethernet port: the application in
  \<open>App/\<close>, the drivers in \<open>ExtiDrive/\<close>, the port in \<open>lwip-1.3.1/port/\<close> and the lwIP 1.3.1 stack in
  \<open>lwip-1.3.1/src/\<close> (paths below are under \<open>src/LPC1768_MC_LWIP/\<close>, and \<open>core/\<close> stands for \<open>lwip-1.3.1/src/core/\<close>).


  \<^bold>\<open>The program.\<close>  \<open>main\<close> initialises the devices and the stack, shows two lines on the display, and then sends a
  greeting over RS-485 and UART0 for ever, with a call of \<open>send\<close> in every turn.  Everything else happens in the
  Ethernet interrupt: a frame goes from the receive ring of the controller through \<open>ethernetif_input\<close> and
  \<open>ethernet_input\<close> to ARP or IP, from there to ICMP, UDP, TCP or raw control blocks, and answers go out through
  \<open>ip_output_if\<close>, \<open>etharp_output\<close> and \<open>low_level_output\<close> into the transmit ring.  There is no operating system
  (\<open>NO_SYS\<close> is 1), so a run is a sequence of turns of the main loop and of interrupts.


  \<^bold>\<open>The model.\<close>  Definitions carry the names of the C functions; a part of a function that is a definition of its own
  (a loop, a branch) has a name of its own.  A struct is a \<open>record\<close>, an enumeration a \<open>datatype\<close>, an unsigned integer a
  word of its width, so that sums and lengths wrap as they do in C.  Stateful functions take the state and return it
  changed; the state grows from layer to layer by record extension: \<open>pmem\<close> (heap, pools, pbufs and payload bytes) and
  \<open>emac\<close> (registers, descriptors and buffers of the controller) in \<open>dev\<close> (the interface), then \<open>arp\<close>, the IP, UDP, raw
  and reassembly layers, \<open>tcp\<close>, \<open>tcp_in\<close> and \<open>app\<close>.  Error codes are \<open>err_t\<close>.  A result \<open>None\<close> is what C leaves undefined
  (an access outside a live object, a null pointer that is read) or a loop that does not come back; a theorem that
  a function returns says that the result is \<open>Some\<close>.  A loop over data is a recursion over it; a loop whose end
  depends on the hardware or on links that callbacks change is a \<open>partial_function\<close>, so there is no fuel in
  the development.  Volatile registers that the hardware changes are streams of answers (\<open>mind\<close>, \<open>mrdd\<close>, \<open>lsr\<close>,
  \<open>rbr\<close>) read with a counter.  Callbacks are names that the control blocks store, and what they do is an argument of the
  input functions, which the image instantiates by \<open>app_upper\<close> and \<open>app_calls\<close>.  \<open>LWIP_ASSERT\<close> does nothing, as the
  port defines it.  Configuration values (\<open>opt.h\<close>, \<open>port/lwipopts.h\<close>) are those of the board: a heap of 20 KB, ten pool
  pbufs of 1500 bytes, ten TCP control blocks and six listeners, twelve segments, MSS 1460, no out-of-order queue, no
  timestamps, ARP queueing on.


  \<^bold>\<open>Theories.\<close>

  \<^item> \<open>Prelude\<close>: integer types, \<open>err.h\<close>, byte order, bounded copies, and the lemmas on words and lists that all share.
  \<open>Allocator\<close> and \<open>Ring\<close> hold the locales \<open>allocator\<close> (a provider of disjoint blocks and a client that takes
  and returns them in any order) and \<open>desc_ring\<close> (a ring shared by a producer and a consumer is a bounded queue).

  \<^item> \<open>Mem_Heap\<close> (\<open>core/mem.c\<close>) and \<open>Memp\<close> (\<open>core/memp.c\<close>) interpret \<open>allocator\<close>.  The heap refines a list of sized blocks:
  allocation is first fit, freeing merges with both neighbours.

  \<^item> \<open>Pbuf\<close> (\<open>core/pbuf.c\<close>); \<open>Pbuf_Chain\<close>, \<open>Pbuf_Copy\<close>, \<open>Pbuf_Pool\<close>, \<open>Pbuf_Props\<close>: the packet a pointer stands for, copying
  between packets that are cut differently, allocation from the pool, reference counts, trimming, concatenation.
  \<open>Header\<close> reads and writes protocol headers; \<open>Window\<close> and \<open>Frames\<close> compute with a packet in one pbuf.

  \<^item> \<open>Inet\<close> (\<open>core/ipv4/inet.c\<close>), \<open>Chksum\<close> (\<open>core/ipv4/inet_chksum.c\<close>: the three algorithms agree, a chain sums as its
  concatenation, a datagram with its checksum verifies), \<open>Netif\<close> (\<open>ip_addr.h\<close>, \<open>ip_addr.c\<close>, \<open>netif.h\<close>).

  \<^item> \<open>Emac\<close> (\<open>ExtiDrive/emac.c\<close>) interprets \<open>desc_ring\<close> for both rings; \<open>Ethernetif\<close> (\<open>port/ethernetif.c\<close>);
  \<open>Rx_Order\<close> has the rings as the stack sees them: the frames \<open>low_level_input\<close> hands up come in order, and what
  \<open>ethernet_send\<close> does with a full ring.  \<open>Board_Io\<close> (\<open>uart.c\<close>, \<open>MAX485.c\<close>, \<open>LCD1602.c\<close>).

  \<^item> \<open>Etharp\<close> (\<open>src/netif/etharp.c\<close>); \<open>Etharp_Cache\<close>, \<open>Etharp_Effects\<close>, \<open>Etharp_Props\<close>, \<open>Etharp_Reply\<close>: the table stays in
  order, and the locale \<open>learned_cache\<close>, interpreted on it, gives that no answer is stale.  \<open>Etharp_Timer\<close>: how long entries
  live, with the packets that wait in them.

  \<^item> \<open>Ip\<close>, \<open>Ip_Reass\<close>, \<open>Ip_In\<close> (\<open>core/ipv4/ip.c\<close>, \<open>ip_frag.c\<close>, \<open>ethernet_input\<close>, \<open>ethernetif_input\<close>), \<open>Icmp\<close>, \<open>Udp\<close>,
  \<open>Raw\<close> (\<open>core/ipv4/icmp.c\<close>, \<open>core/udp.c\<close>, \<open>core/raw.c\<close>).  \<open>Ip_Window\<close>, \<open>Udp_Echo\<close> and \<open>Icmp_Echo\<close> run the whole stack on
  a frame, from the receive ring to the reply in the transmit ring.

  \<^item> \<open>Tcp_Out\<close>, \<open>Tcp_Enqueue\<close> (\<open>core/tcp_out.c\<close>, \<open>tcp.h\<close>), \<open>Tcp\<close>, \<open>Tcp_Tmr\<close> (\<open>core/tcp.c\<close>), \<open>Tcp_In\<close> (\<open>core/tcp_in.c\<close>).
  \<open>Footprint\<close> has the calculus \<open>ensures\<close> with the rules \<open>wp\<close> and the locale \<open>other_pools\<close>: what the layers below TCP
  leave alone.  A list of control blocks is a list of indices and what the code does with \<open>next\<close> is written out on it:
  \<open>TCP_REG\<close> of a block that is in a list already, or in another one, re-links it as the macro does (\<open>lead_into\<close>,
  \<open>cut_after\<close>), so that a forgotten \<open>TCP_RMV\<close> shows in the lists.  \<open>Tcp_Table\<close> abstracts the state to the connection table, \<open>Tcp_Machine\<close> has the diagram of RFC 793
  as a step relation on tables, \<open>Tcp_Client\<close> the locale \<open>tcp_client\<close> (what TCP demands of an application) and that input
  and timers move the table by steps of the diagram.  \<open>Tcp_Server\<close> (\<open>App/TCP_server.c\<close>, \<open>App/webpage.h\<close>) is the web server, for
  which \<open>Tcp_Run\<close> interprets the locale; \<open>Input_Table\<close> is the rest of the stack beside the table; \<open>Tcp_Stream\<close> the receiving
  side against the byte stream of the peer; \<open>Tcp_Write\<close> a write that fails.

  \<^item> \<open>Netconf\<close> (\<open>core/netif.c\<close>, \<open>ExtiDrive/netconf.c\<close>, \<open>App/LPC17xx_it.c\<close>, the UDP application of \<open>App/TCP_server.c\<close>), \<open>Image\<close>
  (every run of the stack with or without the web server), \<open>Main_Loop\<close> (\<open>App/main.c\<close>), \<open>Boot\<close> (from power-on to
  the state from which the echo properties start).

  \<^item> Parts of lwIP that are in the repository but not linked into the image: \<open>Asn1\<close>, \<open>Asn1_Props\<close>, \<open>Asn1_Oid\<close>
  (\<open>core/snmp/asn1_enc.c\<close>, \<open>asn1_dec.c\<close>: what is encoded is decoded, wherever the pbufs are cut) and \<open>Fsm\<close>, \<open>Fsm_Rfc\<close>
  (\<open>src/netif/ppp/fsm.c\<close>: the automaton follows the table of RFC 1661, three entries apart), \<open>Sys_Timeo\<close> (\<open>core/sys.c\<close>: the
  list of relative times is an agenda of deadlines), and \<open>Sys_Fetch\<close> (the waiting functions of \<open>port/arch/junk/sys_arch.c\<close>
  over the receive of FreeRTOS: handlers, which may start themselves again, run at their deadlines).


  \<^bold>\<open>How the parts meet.\<close>  \<open>Boot.main_boots\<close> reaches \<open>station\<close>; \<open>Udp_Echo.udp_echo_replies\<close> and \<open>Icmp_Echo.icmp_echo_replies\<close>
  start from it and say what is in the transmit ring and that nothing leaks.  \<open>Image.image_tables\<close>,
  \<open>frame_follows_diagram\<close> and \<open>tick_follows_diagram\<close> cover every run with any frames; \<open>Boot.main_no_connections\<close> says that
  the image as \<open>main\<close> starts it never has a connection.


  \<^bold>\<open>What modelling showed.\<close>  Several theorems state what the code does where that is not what it means to do: the
  transmit ring that is overwritten when the consume index is 0 (\<open>Rx_Order.tx_full_missed\<close>), requests near 64 KB that
  yield a small block (\<open>Mem_Heap.mem_size_wraps\<close>, \<open>Pbuf_Props.pbuf_alloc_ram_area\<close>), the one ping whose adjusted checksum
  does not verify (\<open>Icmp_Echo.icmp_echo_replies\<close>), the truncated object identifier that is read past its end
  (\<open>Asn1_Oid.dec_oid_reads_past\<close>), the PPP automaton that stays in Opened (\<open>Fsm_Rfc.fsm_terminate_ack_stuck\<close>), the
  deadlines that every message moves ahead by 1 ms (\<open>Sys_Fetch.sys_fetch_runs_due\<close>), the web
  server that is never started (\<open>Boot.main_no_connections\<close>).


  \<^bold>\<open>Not modelled.\<close>  Statistics, debugging output and SNMP counters (configured out).  An interrupt in the middle of a
  call into the stack: the code does not protect itself against it, and the model takes interrupts between calls
  only.  Time: \<open>TDelay\<close> counts its turns and nothing waits for it.  The other control protocols of PPP and their framing, the SNMP
  agent above the coding, DHCP, DNS, IGMP, AutoIP, IPv6, the sequential and socket API, SLIP, the loop interface and the
  samples of the port are configured out or not linked, and nothing in the image calls them; of \<open>port/arch/junk\<close> the rest
  makes and frees the objects of FreeRTOS; \<open>fsdata.c\<close> and
  \<open>font.h\<close> are data; start-up code and register definitions of the vendor are the hardware of the model.
\<close>

end
